(* ===== verification/Prelude.thy ===== *)
theory Prelude
  imports Main "HOL-Library.Word"
begin

text \<open>
  Shared vocabulary of the development.

  \<^item> Machine integers keep their width: \<open>uint8_t\<close> .. \<open>uint64_t\<close> are words, the bit-fields of the
    RTP header are words of two, one, four and seven bits.  A C \<open>size_t\<close> that is the length of an
    object in memory is a \<open>nat\<close>; where the code adds a caller-supplied length the wrap-around of
    \<open>size_t\<close> and the narrowing to \<open>int\<close> are written out (\<open>size_add\<close>, \<open>to_int32\<close>).
  \<^item> A memory area \<open>(pointer, length)\<close> is the list of its bytes; \<open>mem_write\<close> is \<open>memcpy\<close> into it.
    A write that leaves the area changes the length of the list, so "the length is unchanged" is
    the memory-safety statement of a routine that fills a caller's buffer.
  \<^item> \<open>be_codec\<close> is the interface of the byte-order helpers; \<open>machine\<close> is the interface shared by
    every stateful component: an invariant that one operation keeps holds after any sequence of
    operations; \<open>emitter\<close> adds outputs and \<open>progressing\<close> the promise that admissible operations never
    leave the defined behaviour of C.
\<close>

unbundle bit_operations_syntax

type_synonym u8 = "8 word"
type_synonym u16 = "16 word"
type_synonym u32 = "32 word"
type_synonym u64 = "64 word"
type_synonym bytes = "u8 list"

named_theorems wire_simps "byte layout and read-back equations"
named_theorems word_masks "numerals that are bit masks"
named_theorems inv_intros "operations keep their component's invariant"

section \<open>Masks and narrowing\<close>

lemma mask_numerals [word_masks]:
  "(3 :: 'a::len word) = mask 2" "(15 :: 'a::len word) = mask 4"
  "(31 :: 'a::len word) = mask 5" "(127 :: 'a::len word) = mask 7"
  "(255 :: 'a::len word) = mask 8" "(8191 :: 'a::len word) = mask 13"
  "(65535 :: 'a::len word) = mask 16"
  by (simp_all add: mask_eq_exp_minus_1)

definition SIZE_MAX :: nat where "SIZE_MAX = 2 ^ 64 - 1"

definition size_add :: "nat \<Rightarrow> nat \<Rightarrow> nat" where
  "size_add a b = (a + b) mod 2 ^ 64"

definition to_int32 :: "nat \<Rightarrow> int" where
  "to_int32 n = sint (word_of_nat n :: 32 word)"

lemma size_add_id [simp]: "a + b < 2 ^ 64 \<Longrightarrow> size_add a b = a + b"
  by (simp add: size_add_def)

lemma to_int32_id [simp]: "n < 2 ^ 31 \<Longrightarrow> to_int32 n = int n"
  by (simp add: to_int32_def signed_of_nat signed_take_bit_int_eq_self)

text \<open>C's integer division truncates towards zero.\<close>

definition cdiv :: "int \<Rightarrow> int \<Rightarrow> int" where
  "cdiv a b = sgn a * sgn b * (\<bar>a\<bar> div \<bar>b\<bar>)"

lemma cdiv_nonneg: "0 \<le> a \<Longrightarrow> 0 < b \<Longrightarrow> cdiv a b = a div b"
  by (cases "a = 0") (auto simp: cdiv_def)

text \<open>Padding to a multiple of four, as RTP and RTCP lengths count 32-bit words.\<close>

lemma unat_less_exp: "unat (m :: 'a::len word) < 2 ^ LENGTH('a)"
  by (rule unsigned_less)

lemma u32_unat_less: "unat (r :: u32) < 4294967296"
  using unat_less_exp [of r] by simp

lemma unat_widen: "unat (ucast (x :: u32) :: u64) = unat x"
  using u32_unat_less [of x] by (simp add: unsigned_ucast_eq take_bit_nat_eq_self)

lemma pad4_aligned: "(x + (4 - x mod 4) mod 4) mod 4 = (0 :: nat)"
proof -
  have "(x + (4 - x mod 4) mod 4) mod 4 = (x mod 4 + (4 - x mod 4) mod 4) mod 4"
    by (simp only: mod_add_left_eq)
  moreover have "x mod 4 \<in> {0, 1, 2, 3}"
    using mod_less_divisor [of 4 x] by force
  ultimately show ?thesis by auto
qed

section \<open>Memory areas\<close>

definition mem_write :: "'a list \<Rightarrow> nat \<Rightarrow> 'a list \<Rightarrow> 'a list" where
  "mem_write buf off bs = take off buf @ bs @ drop (off + length bs) buf"

lemma length_mem_write [simp]:
  "off + length bs \<le> length buf \<Longrightarrow> length (mem_write buf off bs) = length buf"
  by (simp add: mem_write_def)

lemma take_mem_write [simp]: "off \<le> length buf \<Longrightarrow> take off (mem_write buf off bs) = take off buf"
  by (simp add: mem_write_def)

lemma drop_mem_write_at:
  "off \<le> length buf \<Longrightarrow> drop off (mem_write buf off bs) = bs @ drop (off + length bs) buf"
  by (simp add: mem_write_def)

lemma drop_mem_write_after [simp]:
  "off + length bs \<le> length buf \<Longrightarrow>
   drop (off + length bs) (mem_write buf off bs) = drop (off + length bs) buf"
  by (simp add: mem_write_def)

lemma mem_write_0: "mem_write buf 0 bs = bs @ drop (length bs) buf"
  by (simp add: mem_write_def)

lemma mem_write_append:
  "off2 = off + length xs \<Longrightarrow> off2 + length ys \<le> length buf \<Longrightarrow>
   mem_write (mem_write buf off xs) off2 ys = mem_write buf off (xs @ ys)"
  by (simp add: mem_write_def ac_simps)

lemma take_take_drop: "take n (drop m xs) = drop m (take (m + n) xs)"
  by (simp add: drop_take)

lemma nth_append_off [simp]: "n = length xs \<Longrightarrow> (xs @ ys) ! (n + k) = ys ! k"
  by (simp add: nth_append)

section \<open>Network byte order\<close>

text \<open>\<open>read_u16\<close>, \<open>read_u32\<close>, \<open>write_u16\<close> and \<open>write_u32\<close>, which \<^verbatim>\<open>rtp_packet.c\<close>,
  \<^verbatim>\<open>rtcp_packet.c\<close> and \<^verbatim>\<open>twcc.c\<close> each repeat: the bytes a write stores are \<open>be16 v\<close> and \<open>be32 v\<close>.\<close>

definition read_u16 :: "bytes \<Rightarrow> nat \<Rightarrow> u16" where
  "read_u16 p i = push_bit 8 (ucast (p ! i)) OR ucast (p ! (i + 1))"

definition read_u32 :: "bytes \<Rightarrow> nat \<Rightarrow> u32" where
  "read_u32 p i = push_bit 24 (ucast (p ! i)) OR push_bit 16 (ucast (p ! (i + 1)))
                  OR push_bit 8 (ucast (p ! (i + 2))) OR ucast (p ! (i + 3))"

definition be16 :: "u16 \<Rightarrow> bytes" where
  "be16 v = [ucast (drop_bit 8 v), ucast (v AND 0xFF)]"

definition be32 :: "u32 \<Rightarrow> bytes" where
  "be32 v = [ucast (drop_bit 24 v), ucast (drop_bit 16 v), ucast (drop_bit 8 v), ucast (v AND 0xFF)]"

definition write_u16 :: "bytes \<Rightarrow> nat \<Rightarrow> u16 \<Rightarrow> bytes" where
  "write_u16 p off v = mem_write p off (be16 v)"

definition write_u32 :: "bytes \<Rightarrow> nat \<Rightarrow> u32 \<Rightarrow> bytes" where
  "write_u32 p off v = mem_write p off (be32 v)"

lemma be16_length [simp]: "length (be16 v) = 2"
  by (simp add: be16_def)

lemma be32_length [simp]: "length (be32 v) = 4"
  by (simp add: be32_def)

lemma join16: "push_bit 8 (ucast (ucast (drop_bit 8 v) :: u8)) OR ucast (ucast (v AND 0xFF) :: u8) = (v :: u16)"
  (is "?l = v")
proof (rule bit_word_eqI)
  fix n
  show "bit ?l n = bit v n" if "n < LENGTH(16)"
    using that by (cases "n < 8") (auto simp: bit_simps word_masks)
qed

lemma join32:
  "push_bit 24 (ucast (ucast (drop_bit 24 v) :: u8)) OR push_bit 16 (ucast (ucast (drop_bit 16 v) :: u8))
   OR push_bit 8 (ucast (ucast (drop_bit 8 v) :: u8)) OR ucast (ucast (v AND 0xFF) :: u8) = (v :: u32)"
  (is "?l = v")
proof (rule bit_word_eqI)
  fix n
  show "bit ?l n = bit v n" if "n < LENGTH(32)"
    using that by (cases "n < 8"; cases "n < 16"; cases "n < 24") (auto simp: bit_simps word_masks)
qed

lemma read_u16_cons [wire_simps]: "read_u16 (a # b # r) 0 = push_bit 8 (ucast a) OR ucast b"
  by (simp add: read_u16_def)

lemma read_u16_be16 [wire_simps]: "read_u16 (be16 v @ r) 0 = v"
  using join16 [of v] by (simp add: read_u16_def be16_def)

lemma read_u32_be32 [wire_simps]: "read_u32 (be32 v @ r) 0 = v"
  using join32 [of v] by (simp add: read_u32_def be32_def)

lemma read_u16_shift: "n = length xs \<Longrightarrow> read_u16 (xs @ ys) (n + i) = read_u16 ys i"
  by (simp add: read_u16_def nth_append)

lemma read_u32_shift: "n = length xs \<Longrightarrow> read_u32 (xs @ ys) (n + i) = read_u32 ys i"
  by (simp add: read_u32_def nth_append add.assoc)

text \<open>Reading behind a prefix of known length.\<close>

lemma read_skip:
  "length xs \<le> n \<Longrightarrow> read_u16 (xs @ ys) n = read_u16 ys (n - length xs)"
  "length xs \<le> n \<Longrightarrow> read_u32 (xs @ ys) n = read_u32 ys (n - length xs)"
  "length xs \<le> n \<Longrightarrow> (xs @ zs) ! n = zs ! (n - length xs)"
  using read_u16_shift [of "length xs" xs ys "n - length xs"] read_u32_shift [of "length xs" xs ys "n - length xs"]
  by (simp_all add: nth_append)

lemma read_u16_drop: "i + 1 < length bs \<Longrightarrow> read_u16 bs i = read_u16 (drop i bs) 0"
  by (simp add: read_u16_def)

lemma read_u32_drop: "i + 3 < length bs \<Longrightarrow> read_u32 bs i = read_u32 (drop i bs) 0"
  by (simp add: read_u32_def)

lemma be16_read_u16: "i + 1 < length bs \<Longrightarrow> be16 (read_u16 bs i) = take 2 (drop i bs)"
proof -
  assume l: "i + 1 < length bs"
  have split: "be16 (push_bit 8 (ucast a) OR ucast b) = [a, b]" for a b :: u8
    unfolding be16_def
    by (simp, intro conjI; rule bit_word_eqI; auto simp: word_masks bit_simps dest: bit_imp_le_length)
  have "take 2 (drop i bs) = [bs ! i, bs ! (i + 1)]"
    using l by (simp add: Cons_nth_drop_Suc [symmetric] numeral_2_eq_2)
  then show ?thesis by (simp add: read_u16_def split)
qed

text \<open>The contract of a fixed-width encoding, and what a reader of consecutive values relies on.\<close>

locale be_codec =
  fixes enc :: "'v \<Rightarrow> bytes" and dec :: "bytes \<Rightarrow> nat \<Rightarrow> 'v" and width :: nat
  assumes enc_length: "length (enc v) = width"
    and dec_enc: "dec (enc v @ r) 0 = v"
    and dec_shift: "n = length xs \<Longrightarrow> dec (xs @ ys) (n + i) = dec ys i"
begin

lemma dec_at: "n = length xs \<Longrightarrow> dec (xs @ enc v @ r) n = v"
  using dec_shift [of n xs "enc v @ r" 0] dec_enc by simp

lemma concat_enc_length: "length (concat (map enc vs)) = width * length vs"
  by (induction vs) (simp_all add: enc_length)

lemma dec_nth:
  "i < length vs \<Longrightarrow> dec (concat (map enc vs) @ r) (i * width) = vs ! i"
proof (induction vs arbitrary: i)
  case Nil
  then show ?case by simp
next
  case (Cons v vs)
  show ?case
  proof (cases i)
    case 0
    then show ?thesis using dec_enc by simp
  next
    case (Suc j)
    have "dec (enc v @ concat (map enc vs) @ r) (width + j * width)
          = dec (concat (map enc vs) @ r) (j * width)"
      by (rule dec_shift) (simp add: enc_length)
    with Cons Suc show ?thesis by simp
  qed
qed

lemma dec_all:
  "map (\<lambda>i. dec (concat (map enc vs) @ r) (i * width)) [0..<length vs] = vs"
  by (rule nth_equalityI) (simp_all add: dec_nth)

lemma dec_all_at:
  assumes "n = length xs" "k = length vs"
  shows "map (\<lambda>i. dec (xs @ concat (map enc vs) @ r) (n + i * width)) [0..<k] = vs"
  using dec_all [of vs r] assms dec_shift [of n xs] by simp

end

interpretation net16: be_codec be16 read_u16 2
  by unfold_locales (simp_all add: wire_simps read_u16_shift)

interpretation net32: be_codec be32 read_u32 4
  by unfold_locales (simp_all add: wire_simps read_u32_shift)

section \<open>Versions\<close>

text \<open>The control plane numbers its messages by an epoch and a sequence number, ordered lexicographically.\<close>

definition vle :: "u64 \<times> u64 \<Rightarrow> u64 \<times> u64 \<Rightarrow> bool" where
  "vle a b \<longleftrightarrow> fst a < fst b \<or> fst a = fst b \<and> snd a \<le> snd b"

lemma vle_refl [simp]: "vle a a" and vle_trans: "vle a b \<Longrightarrow> vle b c \<Longrightarrow> vle a c" and vle_total: "vle a b \<or> vle b a"
  by (auto simp: vle_def)

lemma vle_bottom: "vle (0, 0) b"
  by (cases b) (auto simp: vle_def word_neq_0_conv [symmetric])

lemma vle_antisym: "vle a b \<Longrightarrow> vle b a \<Longrightarrow> a = b"
  by (cases a; cases b) (auto simp: vle_def)

section \<open>Searches\<close>

text \<open>The first index below \<open>n\<close> whose entry satisfies \<open>P\<close>: the search loops over an array.\<close>

definition first_below :: "nat \<Rightarrow> ('a \<Rightarrow> bool) \<Rightarrow> 'a list \<Rightarrow> nat option" where
  "first_below n P xs = find (\<lambda>i. P (xs ! i)) [0..<n]"

lemma first_below_Some:
  "first_below n P xs = Some i \<Longrightarrow> i < n \<and> P (xs ! i) \<and> (\<forall>j<i. \<not> P (xs ! j))"
  by (auto simp: first_below_def find_Some_iff)

lemma first_below_None: "first_below n P xs = None \<longleftrightarrow> (\<forall>i<n. \<not> P (xs ! i))"
  by (auto simp: first_below_def find_None_iff)

lemma first_below_eq_Some:
  "i < n \<Longrightarrow> P (xs ! i) \<Longrightarrow> (\<And>j. j < i \<Longrightarrow> \<not> P (xs ! j)) \<Longrightarrow> first_below n P xs = Some i"
  by (cases "first_below n P xs") (auto simp: first_below_None dest!: first_below_Some, metis linorder_neqE_nat)

section \<open>Sequences of operations\<close>

text \<open>Every component with state is a machine: its operations map states to states and keep an
  invariant, which therefore holds after any sequence of operations, in whatever order the
  callers issue them.\<close>

locale machine =
  fixes inv :: "'s \<Rightarrow> bool" and exec :: "'op \<Rightarrow> 's \<Rightarrow> 's"
  assumes exec_inv: "inv s \<Longrightarrow> inv (exec op s)"
begin

lemma run_inv: "inv s \<Longrightarrow> inv (fold exec ops s)"
  by (induction ops arbitrary: s) (simp_all add: exec_inv)

end

text \<open>A component that also produces outputs and whose step may leave the defined behaviour of C
  (\<open>None\<close>): the outputs of a run are those of its steps, up to the first undefined one.\<close>

primrec run_steps :: "('op \<Rightarrow> 's \<Rightarrow> ('s \<times> 'o list) option) \<Rightarrow> 'op list \<Rightarrow> 's \<Rightarrow> ('s \<times> 'o list) option" where
  "run_steps step [] s = Some (s, [])"
| "run_steps step (op # ops) s =
     (case step op s of
        None \<Rightarrow> None
      | Some (s', o1) \<Rightarrow>
          (case run_steps step ops s' of None \<Rightarrow> None | Some (s'', o2) \<Rightarrow> Some (s'', o1 @ o2)))"

locale emitter =
  fixes inv :: "'s \<Rightarrow> bool" and step :: "'op \<Rightarrow> 's \<Rightarrow> ('s \<times> 'o list) option" and ok :: "'o \<Rightarrow> bool"
  assumes step_inv: "inv s \<Longrightarrow> step op s = Some (s', outs) \<Longrightarrow> inv s'"
    and step_ok: "inv s \<Longrightarrow> step op s = Some (s', outs) \<Longrightarrow> x \<in> set outs \<Longrightarrow> ok x"
begin

lemma run_ok:
  "inv s \<Longrightarrow> run_steps step ops s = Some (s', outs) \<Longrightarrow> inv s' \<and> (\<forall>x\<in>set outs. ok x)"
proof (induction ops arbitrary: s outs)
  case (Cons op ops)
  then obtain s1 o1 o2 where "step op s = Some (s1, o1)" "run_steps step ops s1 = Some (s', o2)" "outs = o1 @ o2"
    by (auto split: option.splits)
  with Cons.IH [of s1 o2] Cons.prems(1) show ?case
    using step_inv [of s op s1 o1] step_ok [of s op s1 o1] by auto
qed simp

end

text \<open>A component whose step is defined for every admissible operation: no admissible sequence of
  operations ever leaves the defined behaviour of C.\<close>

locale progressing =
  fixes inv :: "'s \<Rightarrow> bool" and admissible :: "'op \<Rightarrow> 's \<Rightarrow> bool" and step :: "'op \<Rightarrow> 's \<Rightarrow> ('s \<times> 'o list) option"
  assumes step_defined: "inv s \<Longrightarrow> admissible op s \<Longrightarrow> \<exists>s' outs. step op s = Some (s', outs) \<and> inv s'"
    and admissible_kept: "inv s \<Longrightarrow> step op s = Some (s', outs) \<Longrightarrow> admissible op' s' = admissible op' s"
begin

lemma run_defined:
  "inv s \<Longrightarrow> list_all (\<lambda>op. admissible op s) ops \<Longrightarrow> \<exists>s' outs. run_steps step ops s = Some (s', outs) \<and> inv s'"
proof (induction ops arbitrary: s)
  case (Cons op ops)
  then obtain s1 o1 where s1: "step op s = Some (s1, o1)" "inv s1" using step_defined by fastforce
  moreover have "list_all (\<lambda>op. admissible op s1) ops"
    using Cons.prems admissible_kept [OF Cons.prems(1) s1(1)] by simp
  ultimately show ?case using Cons.IH [of s1] by fastforce
qed simp

end

section \<open>Serial-number arithmetic\<close>

lemma sint_word_bounds16: "- 32768 \<le> sint (w :: u16)" "sint (w :: u16) < 32768"
  using sint_range_size [of w] by (simp_all add: word_size)

lemma sint_u16: "sint (w :: u16) = (if uint w < 32768 then uint w else uint w - 65536)"
proof -
  have "sint w = signed_take_bit 15 (uint w)"
    by (simp add: sint_uint)
  also have "\<dots> = (if uint w < 32768 then uint w else uint w - 65536)"
  proof (cases "uint w < 32768")
    case True
    have "- 32768 \<le> uint w" using uint_ge_0 [of w] by linarith
    with True show ?thesis by (simp add: signed_take_bit_int_eq_self)
  next
    case False
    have "uint w < 65536" using uint_lt2p [of w] by simp
    have "signed_take_bit 15 (uint w) = signed_take_bit 15 (uint w - 65536)"
      using mod_add_self2 [of "uint w - 32768" 65536]
      by (simp add: signed_take_bit_eq_take_bit_shift take_bit_eq_mod add.commute)
    also have "\<dots> = uint w - 65536"
      using False \<open>uint w < 65536\<close> by (intro signed_take_bit_int_eq_self) auto
    finally show ?thesis using False by simp
  qed
  finally show ?thesis .
qed

lemma uint_u16_bound: "uint (w :: u16) < 65536" "0 \<le> uint (w :: u16)"
  using uint_lt2p [of w] by auto

lemma uint_sub_u16: "uint (a - b :: u16) = (uint a - uint b) mod 65536"
  by (simp add: uint_word_ariths)

end
