(* ===== verification/Rtp_Packet.thy ===== *)
theory Rtp_Packet
  imports Prelude
begin

text \<open>
  RTP packets: \<^verbatim>\<open>webrtc/src/rtc/rtp/rtp_packet.c\<close> and the packet types of
  \<^verbatim>\<open>webrtc/include/turbo_rtp.h\<close>.

  The bit-fields of \<open>rtp_header_t\<close> are words of their width, so an assignment truncates as in C.
  The live entries of \<open>extensions[8]\<close> are a list (\<open>extension_count\<close> is its length), each with its
  16-byte \<open>data\<close> array; \<open>csrc[15]\<close> is a list of fifteen words.  A pointer that the code tests for
  NULL is an \<open>option\<close>; a pointer into a buffer is the bytes it points to.  A result of -1 is
  \<open>None\<close>.  The theorems: building, parsing and serialising are inverse to each other, every
  accepted packet is well formed and lies inside its buffer, no routine writes past the packet it
  produces, and serial-number comparison is an order on each half of the sequence space.
\<close>

section \<open>Types\<close>

definition RTP_VERSION :: "2 word" where "RTP_VERSION = 2"
definition RTP_HEADER_SIZE :: nat where [simp]: "RTP_HEADER_SIZE = 12"
definition RTP_MAX_CSRC :: nat where [simp]: "RTP_MAX_CSRC = 15"
definition RTP_MAX_PACKET :: nat where "RTP_MAX_PACKET = 1500"

record rtp_header =
  h_version :: "2 word"
  h_padding :: "1 word"
  h_extension :: "1 word"
  h_csrc_count :: "4 word"
  h_marker :: "1 word"
  h_payload_type :: "7 word"
  h_sequence :: u16
  h_timestamp :: u32
  h_ssrc :: u32

record rtp_extension =
  ext_id :: u8
  ext_length :: u8
  ext_data :: bytes

record rtp_packet =
  p_header :: rtp_header
  p_csrc :: "u32 list"
  p_extensions :: "rtp_extension list"
  p_payload :: "bytes option"
  p_payload_len :: nat
  p_buffer :: "bytes option"
  p_buffer_len :: nat
  p_owns_buffer :: bool

definition rtp_header_zero :: rtp_header where
  "rtp_header_zero = \<lparr>h_version = 0, h_padding = 0, h_extension = 0, h_csrc_count = 0, h_marker = 0,
     h_payload_type = 0, h_sequence = 0, h_timestamp = 0, h_ssrc = 0\<rparr>"

definition rtp_packet_zero :: rtp_packet where
  "rtp_packet_zero = \<lparr>p_header = rtp_header_zero, p_csrc = replicate RTP_MAX_CSRC 0, p_extensions = [],
     p_payload = None, p_payload_len = 0, p_buffer = None, p_buffer_len = 0, p_owns_buffer = False\<rparr>"

section \<open>Operations\<close>

definition rtp_packet_init :: rtp_packet where
  "rtp_packet_init = rtp_packet_zero\<lparr>p_header := rtp_header_zero\<lparr>h_version := RTP_VERSION\<rparr>\<rparr>"

text \<open>The first two bytes of the fixed header, and the header as a block of twelve bytes.\<close>

definition rtp_byte0 :: "2 word \<Rightarrow> 1 word \<Rightarrow> 1 word \<Rightarrow> 4 word \<Rightarrow> u8" where
  "rtp_byte0 v p x cc =
     push_bit 6 (ucast v) OR push_bit 5 (ucast p) OR push_bit 4 (ucast x) OR (ucast cc AND 0x0F)"

definition rtp_byte1 :: "1 word \<Rightarrow> 7 word \<Rightarrow> u8" where
  "rtp_byte1 m pt = push_bit 7 (ucast m) OR (ucast pt AND 0x7F)"

definition rtp_header_bytes :: "rtp_header \<Rightarrow> bytes" where
  "rtp_header_bytes h =
     [rtp_byte0 (h_version h) (h_padding h) (h_extension h) (h_csrc_count h),
      rtp_byte1 (h_marker h) (h_payload_type h)]
     @ be16 (h_sequence h) @ be32 (h_timestamp h) @ be32 (h_ssrc h)"

definition build_header :: "u8 \<Rightarrow> u16 \<Rightarrow> u32 \<Rightarrow> u32 \<Rightarrow> bool \<Rightarrow> rtp_header" where
  "build_header pt sq ts src marker =
     \<lparr>h_version = RTP_VERSION, h_padding = 0, h_extension = 0, h_csrc_count = 0,
      h_marker = (if marker then 1 else 0), h_payload_type = ucast (pt AND 0x7F),
      h_sequence = sq, h_timestamp = ts, h_ssrc = src\<rparr>"

definition rtp_packet_build ::
  "u8 \<Rightarrow> u16 \<Rightarrow> u32 \<Rightarrow> u32 \<Rightarrow> bool \<Rightarrow> bytes option \<Rightarrow> nat \<Rightarrow> bytes
   \<Rightarrow> (rtp_packet \<times> bytes \<times> int) option" where
  "rtp_packet_build pt sq ts src marker payload payload_len buffer =
     (let header_size = RTP_HEADER_SIZE;
          total_size = size_add header_size payload_len
      in if length buffer < total_size then None
         else
           let h = build_header pt sq ts src marker;
               buf1 = mem_write buffer 0 (rtp_header_bytes h);
               buf2 = (case payload of
                         None \<Rightarrow> buf1
                       | Some d \<Rightarrow> if 0 < payload_len
                                   then mem_write buf1 RTP_HEADER_SIZE (take payload_len d)
                                   else buf1)
           in Some (rtp_packet_zero\<lparr>p_header := h,
                      p_buffer := Some (take total_size buf2), p_buffer_len := total_size,
                      p_payload := Some (take payload_len (drop header_size buf2)),
                      p_payload_len := payload_len, p_owns_buffer := False\<rparr>,
                    buf2, to_int32 total_size))"

text \<open>Parsing, in the order of the code: fixed header, CSRC list, RFC 8285 one-byte extensions,
  padding.\<close>

definition parse_fixed_header :: "bytes \<Rightarrow> rtp_header" where
  "parse_fixed_header p =
     (let byte0 = p ! 0; byte1 = p ! 1
      in \<lparr>h_version = ucast (drop_bit 6 byte0 AND 0x03), h_padding = ucast (drop_bit 5 byte0 AND 0x01),
          h_extension = ucast (drop_bit 4 byte0 AND 0x01), h_csrc_count = ucast (byte0 AND 0x0F),
          h_marker = ucast (drop_bit 7 byte1 AND 0x01), h_payload_type = ucast (byte1 AND 0x7F),
          h_sequence = read_u16 p 2, h_timestamp = read_u32 p 4, h_ssrc = read_u32 p 8\<rparr>)"

definition parse_csrc_list :: "bytes \<Rightarrow> 4 word \<Rightarrow> (u32 list \<times> nat) option" where
  "parse_csrc_list p cc =
     (let header_size = RTP_HEADER_SIZE; n = unat cc; csrc_size = n * 4
      in if n = 0 then Some (replicate RTP_MAX_CSRC 0, header_size)
         else if length p < header_size + csrc_size then None
         else let k = min n RTP_MAX_CSRC
              in Some (map (\<lambda>i. read_u32 p (header_size + i * 4)) [0..<k] @ replicate (RTP_MAX_CSRC - k) 0,
                       header_size + csrc_size))"

definition make_extension :: "u8 \<Rightarrow> u8 \<Rightarrow> bytes \<Rightarrow> rtp_extension" where
  "make_extension i l d =
     \<lparr>ext_id = i, ext_length = l, ext_data = mem_write (replicate 16 0) 0 (take (unat l) d)\<rparr>"

text \<open>The \<open>while (ext_p < ext_end)\<close> loop; the argument is the bytes between \<open>ext_p\<close> and \<open>ext_end\<close>.\<close>

function parse_extensions :: "bytes \<Rightarrow> rtp_extension list \<Rightarrow> rtp_extension list option" where
  "parse_extensions [] exts = Some exts"
| "parse_extensions (ext_byte # ext_p) exts =
     (let i = drop_bit 4 ext_byte; l = (ext_byte AND 0x0F) + 1
      in if i = 0 then parse_extensions ext_p exts
         else if i = 15 then Some exts
         else if unat l > length ext_p then None
         else parse_extensions (drop (unat l) ext_p)
                (if length exts < 8 then exts @ [make_extension i l ext_p] else exts))"
  by pat_completeness auto
termination
  by (relation "measure (\<lambda>(bs, _). length bs)") auto

definition parse_extension_block :: "bytes \<Rightarrow> 1 word \<Rightarrow> nat \<Rightarrow> (rtp_extension list \<times> nat) option" where
  "parse_extension_block p x header_size =
     (if x = 0 then Some ([], header_size)
      else if length p < header_size + 4 then None
      else let ext_profile = read_u16 p header_size;
               ext_len = read_u16 p (header_size + 2);
               ext_size = 4 + unat ext_len * 4
           in if length p < header_size + ext_size then None
              else if ext_profile = 0xBEDE
                   then map_option (\<lambda>exts. (exts, header_size + ext_size))
                          (parse_extensions (take (unat ext_len * 4) (drop (header_size + 4) p)) [])
                   else Some ([], header_size + ext_size))"

definition strip_padding :: "bytes \<Rightarrow> 1 word \<Rightarrow> nat \<Rightarrow> nat option" where
  "strip_padding p pad header_size =
     (let payload_len = length p - header_size
      in if pad \<noteq> 0 \<and> 0 < payload_len
         then let pad_len = unat (p ! (length p - 1))
              in if pad_len > payload_len then None else Some (payload_len - pad_len)
         else Some payload_len)"

definition rtp_packet_parse :: "bytes \<Rightarrow> rtp_packet option" where
  "rtp_packet_parse buffer =
     (if length buffer < RTP_HEADER_SIZE then None
      else let h = parse_fixed_header buffer
           in if h_version h \<noteq> RTP_VERSION then None
              else case parse_csrc_list buffer (h_csrc_count h) of
                None \<Rightarrow> None
              | Some (csrc, hs) \<Rightarrow>
                (case parse_extension_block buffer (h_extension h) hs of
                   None \<Rightarrow> None
                 | Some (exts, header_size) \<Rightarrow>
                   (case strip_padding buffer (h_padding h) header_size of
                      None \<Rightarrow> None
                    | Some payload_len \<Rightarrow>
                      Some \<lparr>p_header = h, p_csrc = csrc, p_extensions = exts,
                            p_payload = Some (take payload_len (drop header_size buffer)),
                            p_payload_len = payload_len, p_buffer = Some buffer,
                            p_buffer_len = length buffer, p_owns_buffer = False\<rparr>)))"

text \<open>Serialising.  The C code writes header, CSRC list, payload and extension block into
  disjoint adjacent areas; here the first, second and last are one block.\<close>

definition ext_writable :: "rtp_extension \<Rightarrow> bool" where
  "ext_writable e \<longleftrightarrow> \<not> (ext_id e = 0 \<or> ext_id e > 14 \<or> ext_length e = 0 \<or> ext_length e > 16)"

definition ext_bytes :: "rtp_extension \<Rightarrow> bytes" where
  "ext_bytes e = (push_bit 4 (ext_id e) OR ((ext_length e - 1) AND 0x0F)) # take (unat (ext_length e)) (ext_data e)"

definition ext_payload_size :: "rtp_extension list \<Rightarrow> nat" where
  "ext_payload_size exts = sum_list (map (\<lambda>e. 1 + unat (ext_length e)) exts)"

definition ext_padding :: "rtp_extension list \<Rightarrow> nat" where
  "ext_padding exts = (4 - ext_payload_size exts mod 4) mod 4"

definition ext_block_bytes :: "rtp_extension list \<Rightarrow> bytes" where
  "ext_block_bytes exts =
     (if exts = [] then []
      else be16 0xBEDE @ be16 (word_of_nat ((ext_payload_size exts + ext_padding exts) div 4))
           @ concat (map ext_bytes exts) @ replicate (ext_padding exts) 0)"

definition rtp_packet_serialize :: "rtp_packet \<Rightarrow> bytes \<Rightarrow> (bytes \<times> int) option" where
  "rtp_packet_serialize pkt buffer =
     (let h = p_header pkt; exts = p_extensions pkt; n = unat (h_csrc_count h);
          header_size = RTP_HEADER_SIZE + n * 4;
          ext_size = (if exts = [] then 0 else 4 + ext_payload_size exts + ext_padding exts);
          total_size = size_add (header_size + ext_size) (p_payload_len pkt)
      in if \<not> list_all ext_writable exts then None
         else if length buffer < total_size then None
         else
           let hdr = rtp_header_bytes (h\<lparr>h_extension := if exts = [] then 0 else 1\<rparr>)
                     @ concat (map be32 (take (min n RTP_MAX_CSRC) (p_csrc pkt)));
               buf1 = mem_write buffer 0 (hdr @ ext_block_bytes exts);
               buf2 = (case p_payload pkt of
                         None \<Rightarrow> buf1
                       | Some d \<Rightarrow> if 0 < p_payload_len pkt
                                   then mem_write buf1 (header_size + ext_size) (take (p_payload_len pkt) d)
                                   else buf1)
           in Some (buf2, to_int32 total_size))"

text \<open>\<open>rtp_packet_free\<close> clears the structure; the first component is whether the buffer is freed.\<close>

definition rtp_packet_free :: "rtp_packet \<Rightarrow> bool \<times> rtp_packet" where
  "rtp_packet_free pkt = (p_owns_buffer pkt \<and> p_buffer pkt \<noteq> None, rtp_packet_zero)"

definition rtp_seq_newer :: "u16 \<Rightarrow> u16 \<Rightarrow> bool" where
  "rtp_seq_newer s1 s2 \<longleftrightarrow> sint (s1 - s2) > 0"

definition rtp_seq_diff :: "u16 \<Rightarrow> u16 \<Rightarrow> int" where
  "rtp_seq_diff s1 s2 = sint (s1 - s2)"

definition rtp_packet_add_extension :: "rtp_packet \<Rightarrow> u8 \<Rightarrow> bytes option \<Rightarrow> u8 \<Rightarrow> rtp_packet option" where
  "rtp_packet_add_extension pkt i data l =
     (if i = 0 \<or> i > 14 \<or> l = 0 \<or> l > 16 then None
      else if length (p_extensions pkt) \<ge> 8 then None
      else Some (pkt\<lparr>p_extensions := p_extensions pkt @
                       [case data of Some d \<Rightarrow> make_extension i l d
                        | None \<Rightarrow> \<lparr>ext_id = i, ext_length = l, ext_data = replicate 16 0\<rparr>],
                     p_header := (p_header pkt)\<lparr>h_extension := 1\<rparr>\<rparr>))"

definition rtp_packet_get_extension :: "rtp_packet \<Rightarrow> u8 \<Rightarrow> (bytes \<times> u8) option" where
  "rtp_packet_get_extension pkt i =
     (if i = 0 then None
      else case find (\<lambda>e. ext_id e = i) (p_extensions pkt) of
        None \<Rightarrow> None
      | Some e \<Rightarrow> Some (take (unat (ext_length e)) (ext_data e), ext_length e))"

section \<open>Layout of the fixed header\<close>

lemma rtp_byte0_fields [wire_simps]:
  "ucast (drop_bit 6 (rtp_byte0 v p x c) AND 3) = v"
  "ucast (drop_bit 5 (rtp_byte0 v p x c) AND 1) = p"
  "ucast (drop_bit 4 (rtp_byte0 v p x c) AND 1) = x"
  "ucast (rtp_byte0 v p x c AND 15) = c"
  unfolding rtp_byte0_def
  by (rule bit_word_eqI; auto simp: word_masks bit_simps dest: bit_imp_le_length)+

lemma rtp_byte1_fields [wire_simps]:
  "ucast (drop_bit 7 (rtp_byte1 m pt) AND 1) = m"
  "ucast (rtp_byte1 m pt AND 127) = pt"
  unfolding rtp_byte1_def
  by (rule bit_word_eqI; auto simp: word_masks bit_simps dest: bit_imp_le_length)+

lemma rtp_header_bytes_length [simp]: "length (rtp_header_bytes h) = 12"
  by (simp add: rtp_header_bytes_def)

lemma parse_fixed_header_bytes [simp]: "parse_fixed_header (rtp_header_bytes h @ r) = h"
proof -
  let ?b = "rtp_header_bytes h @ r"
  let ?two = "[rtp_byte0 (h_version h) (h_padding h) (h_extension h) (h_csrc_count h),
               rtp_byte1 (h_marker h) (h_payload_type h)]"
  have "read_u16 ?b 2 = h_sequence h"
    using net16.dec_at [of 2 ?two] by (simp add: rtp_header_bytes_def)
  moreover have "read_u32 ?b 4 = h_timestamp h"
    using net32.dec_at [of 4 "?two @ be16 (h_sequence h)"] by (simp add: rtp_header_bytes_def)
  moreover have "read_u32 ?b 8 = h_ssrc h"
    using net32.dec_at [of 8 "?two @ be16 (h_sequence h) @ be32 (h_timestamp h)"]
    by (simp add: rtp_header_bytes_def)
  ultimately show ?thesis
    by (simp add: parse_fixed_header_def rtp_header_bytes_def wire_simps)
qed

section \<open>Well-formed packets\<close>

definition wf_extension :: "rtp_extension \<Rightarrow> bool" where
  "wf_extension e \<longleftrightarrow> ext_writable e \<and> length (ext_data e) = 16
     \<and> drop (unat (ext_length e)) (ext_data e) = replicate (16 - unat (ext_length e)) 0"

definition wf_packet :: "rtp_packet \<Rightarrow> bool" where
  "wf_packet p \<longleftrightarrow> h_version (p_header p) = RTP_VERSION
     \<and> length (p_csrc p) = RTP_MAX_CSRC
     \<and> drop (unat (h_csrc_count (p_header p))) (p_csrc p)
       = replicate (RTP_MAX_CSRC - unat (h_csrc_count (p_header p))) 0
     \<and> length (p_extensions p) \<le> 8 \<and> list_all wf_extension (p_extensions p)
     \<and> (p_extensions p \<noteq> [] \<longrightarrow> h_extension (p_header p) = 1)
     \<and> (case p_payload p of None \<Rightarrow> p_payload_len p = 0 | Some d \<Rightarrow> length d = p_payload_len p)"

lemma unat_le_16: "l \<le> 16 \<Longrightarrow> unat (l :: u8) \<le> 16"
  by (simp add: word_le_nat_alt)

lemma csrc_count_bound: "unat (c :: 4 word) \<le> 15"
  using unsigned_less [of c, where 'a = nat] by simp

lemma make_extension_wf:
  assumes "i \<noteq> 0" "i \<le> 14" "l \<noteq> 0" "l \<le> 16" "unat l \<le> length d"
  shows "wf_extension (make_extension i l d)"
  using assms unat_le_16 [of l]
  by (auto simp: wf_extension_def make_extension_def ext_writable_def mem_write_0 not_less)

text \<open>A one-byte extension header reads back as the identifier and length it was made from.\<close>

lemma ext_header_fields:
  assumes "ext_writable e"
  defines "b \<equiv> push_bit 4 (ext_id e) OR ((ext_length e - 1) AND 0x0F)"
  shows "drop_bit 4 b = ext_id e" and "(b AND 0x0F) + 1 = ext_length e"
proof -
  have id: "ext_id e AND mask 4 = ext_id e"
    using assms(1) by (intro less_mask_eq) (auto simp: ext_writable_def word_le_nat_alt word_less_nat_alt)
  have ln: "(ext_length e - 1) AND mask 4 = ext_length e - 1"
  proof (rule less_mask_eq)
    have "ext_length e \<noteq> 0" "ext_length e \<le> 16"
      using assms(1) by (auto simp: ext_writable_def)
    then have "unat (ext_length e - 1) = unat (ext_length e) - 1" "unat (ext_length e) \<le> 16"
      by (simp_all add: unat_minus_one word_le_nat_alt)
    then show "ext_length e - 1 < 2 ^ 4" by (simp add: word_less_nat_alt)
  qed
  have "drop_bit 4 b = ext_id e AND mask 4"
    unfolding b_def by (rule bit_word_eqI) (auto simp: word_masks bit_simps dest: bit_imp_le_length)
  with id show "drop_bit 4 b = ext_id e" by simp
  have "b AND 0x0F = (ext_length e - 1) AND mask 4"
    unfolding b_def by (rule bit_word_eqI) (auto simp: word_masks bit_simps)
  with ln show "(b AND 0x0F) + 1 = ext_length e" by simp
qed

lemma ext_bytes_length: "wf_extension e \<Longrightarrow> length (ext_bytes e) = 1 + unat (ext_length e)"
  using unat_le_16 [of "ext_length e"] by (auto simp: ext_bytes_def wf_extension_def ext_writable_def)

lemma ext_bytes_total:
  "list_all wf_extension es \<Longrightarrow> length (concat (map ext_bytes es)) = ext_payload_size es"
  by (induction es) (simp_all add: ext_payload_size_def ext_bytes_length)

lemma parse_extensions_zeros: "parse_extensions (replicate k 0) acc = Some acc"
  by (induction k) simp_all

lemma make_extension_ext_bytes:
  "wf_extension e \<Longrightarrow> make_extension (ext_id e) (ext_length e) (take (unat (ext_length e)) (ext_data e) @ r) = e"
proof -
  assume wf: "wf_extension e"
  then have "unat (ext_length e) \<le> 16" by (auto simp: wf_extension_def ext_writable_def intro: unat_le_16)
  with wf show ?thesis
    using append_take_drop_id [of "unat (ext_length e)" "ext_data e"]
    by (simp add: make_extension_def wf_extension_def mem_write_0)
qed

lemma parse_extensions_bytes:
  assumes "list_all wf_extension es" "length acc + length es \<le> 8"
  shows "parse_extensions (concat (map ext_bytes es) @ replicate k 0) acc = Some (acc @ es)"
  using assms
proof (induction es arbitrary: acc)
  case Nil
  then show ?case by (simp add: parse_extensions_zeros)
next
  case (Cons e es)
  let ?l = "unat (ext_length e)"
  have wf: "wf_extension e" and w: "ext_writable e" using Cons.prems by (auto simp: wf_extension_def)
  have "ext_id e \<noteq> 0" "ext_id e \<noteq> 15" "length (take ?l (ext_data e)) = ?l"
    using wf unat_le_16 [of "ext_length e"] by (auto simp: wf_extension_def ext_writable_def)
  then have "parse_extensions (concat (map ext_bytes (e # es)) @ replicate k 0) acc
        = parse_extensions (concat (map ext_bytes es) @ replicate k 0)
            (acc @ [make_extension (ext_id e) (ext_length e)
                      (take ?l (ext_data e) @ concat (map ext_bytes es) @ replicate k 0)])"
    using Cons.prems(2) ext_header_fields [OF w] by (simp add: ext_bytes_def Let_def)
  also have "\<dots> = parse_extensions (concat (map ext_bytes es) @ replicate k 0) (acc @ [e])"
    by (simp add: make_extension_ext_bytes [OF wf])
  also have "\<dots> = Some (acc @ e # es)"
    using Cons.IH [of "acc @ [e]"] Cons.prems by simp
  finally show ?case by simp
qed

lemma parse_extensions_wf:
  assumes "parse_extensions bs acc = Some es" "list_all wf_extension acc" "length acc \<le> 8"
  shows "list_all wf_extension es \<and> length es \<le> 8"
  using assms
proof (induction bs acc arbitrary: es rule: parse_extensions.induct)
  case (1 exts)
  then show ?case by simp
next
  case (2 b r exts)
  let ?i = "drop_bit 4 b" and ?l = "(b AND 0x0F) + 1"
  have i: "?i = 0 \<or> ?i = 15 \<or> ?i \<le> 14"
  proof -
    have "unat ?i < 16" using unsigned_less [of b, where 'a = nat] by (simp add: drop_bit_eq_div unat_div)
    then have "unat ?i \<le> 14 \<or> unat ?i = 15" by linarith
    moreover have "?i = 15" if "unat ?i = 15" using that by (simp add: word_unat_eq_iff)
    ultimately show ?thesis by (auto simp: word_le_nat_alt)
  qed
  have l: "?l \<noteq> 0" "?l \<le> 16"
  proof -
    have "unat (b AND 0x0F) \<le> unat (0x0F :: u8)"
      by (rule word_and_le1 [THEN word_le_nat_alt [THEN iffD1]])
    then have "unat (b AND 0x0F) \<le> 15" by simp
    then have "unat ?l = unat (b AND 0x0F) + 1" by (simp add: unat_word_ariths)
    with \<open>unat (b AND 0x0F) \<le> 15\<close> show "?l \<noteq> 0" "?l \<le> 16"
      by (auto simp: word_le_nat_alt unat_eq_0)
  qed
  show ?case
    using 2 i l make_extension_wf [of ?i ?l r]
    by (auto simp: Let_def split: if_splits)
qed

section \<open>Serialised bytes and their parse\<close>

text \<open>What a successful serialisation stores, as one list.\<close>

definition rtp_packet_bytes :: "rtp_packet \<Rightarrow> bytes" where
  "rtp_packet_bytes p =
     rtp_header_bytes ((p_header p)\<lparr>h_extension := if p_extensions p = [] then 0 else 1\<rparr>)
     @ concat (map be32 (take (unat (h_csrc_count (p_header p))) (p_csrc p)))
     @ ext_block_bytes (p_extensions p)
     @ (case p_payload p of None \<Rightarrow> [] | Some d \<Rightarrow> d)"

lemma ext_block_bytes_length:
  "list_all wf_extension es \<Longrightarrow>
   length (ext_block_bytes es) = (if es = [] then 0 else 4 + ext_payload_size es + ext_padding es)"
  by (simp add: ext_block_bytes_def ext_bytes_total)

lemma ext_payload_size_bound:
  "list_all wf_extension es \<Longrightarrow> ext_payload_size es \<le> 17 * length es"
proof (induction es)
  case (Cons e es)
  then have "unat (ext_length e) \<le> 16"
    by (auto simp: wf_extension_def ext_writable_def intro: unat_le_16)
  with Cons show ?case by (simp add: ext_payload_size_def)
qed (simp add: ext_payload_size_def)

lemma ext_block_aligned: "(ext_payload_size es + ext_padding es) mod 4 = 0"
  unfolding ext_padding_def by (rule pad4_aligned)

lemma csrc_bytes_length:
  "length (p_csrc p) = 15 \<Longrightarrow>
   length (concat (map be32 (take (unat (h_csrc_count (p_header p))) (p_csrc p))))
   = unat (h_csrc_count (p_header p)) * 4"
  using csrc_count_bound [of "h_csrc_count (p_header p)"] by (simp add: net32.concat_enc_length)

lemma serialize_Some:
  assumes wf: "wf_packet p" and fit: "length (rtp_packet_bytes p) \<le> length buffer"
    and small: "length (rtp_packet_bytes p) < 2 ^ 31"
  shows "rtp_packet_serialize p buffer
         = Some (mem_write buffer 0 (rtp_packet_bytes p), int (length (rtp_packet_bytes p)))"
proof -
  let ?n = "unat (h_csrc_count (p_header p))"
  let ?exts = "p_extensions p"
  let ?esz = "if ?exts = [] then 0 else 4 + ext_payload_size ?exts + ext_padding ?exts"
  have ok: "list_all wf_extension ?exts" "list_all ext_writable ?exts" "length (p_csrc p) = 15"
    using wf by (auto simp: wf_packet_def wf_extension_def list_all_iff)
  have n15: "min ?n 15 = ?n" using csrc_count_bound [of "h_csrc_count (p_header p)"] by simp
  have len: "length (rtp_packet_bytes p) = 12 + ?n * 4 + ?esz + p_payload_len p"
    using wf ok csrc_bytes_length [of p] ext_block_bytes_length [of ?exts]
    by (auto simp: rtp_packet_bytes_def wf_packet_def split: option.splits)
  have sz: "size_add (12 + ?n * 4 + ?esz) (p_payload_len p) = length (rtp_packet_bytes p)"
    using small len by (simp add: size_add_def)
  let ?front = "rtp_header_bytes ((p_header p)\<lparr>h_extension := if ?exts = [] then 0 else 1\<rparr>)
     @ concat (map be32 (take ?n (p_csrc p))) @ ext_block_bytes ?exts"
  have front: "length ?front = 12 + ?n * 4 + ?esz"
    using ok csrc_bytes_length [of p] ext_block_bytes_length [of ?exts] by simp
  show ?thesis
  proof (cases "p_payload p")
    case None
    then show ?thesis
      using wf ok n15 sz small fit
      by (simp add: rtp_packet_serialize_def Let_def wf_packet_def rtp_packet_bytes_def)
  next
    case (Some d)
    then have d: "length d = p_payload_len p" using wf by (simp add: wf_packet_def)
    have "mem_write (mem_write buffer 0 ?front) (12 + ?n * 4 + ?esz) d = mem_write buffer 0 (?front @ d)"
      by (rule mem_write_append) (use fit front len d in simp_all)
    then show ?thesis
      using Some d ok n15 sz small fit
      by (cases "?exts = []"; cases "p_payload_len p = 0")
        (simp_all add: rtp_packet_serialize_def Let_def rtp_packet_bytes_def ac_simps)
  qed
qed

lemma parse_csrc_list_bytes:
  assumes "length hdr = 12" "length csrc = 15" "drop (unat cc) csrc = replicate (15 - unat cc) 0"
  shows "parse_csrc_list (hdr @ concat (map be32 (take (unat cc) csrc)) @ r) cc = Some (csrc, 12 + unat cc * 4)"
proof -
  have n: "unat cc \<le> 15" by (rule csrc_count_bound)
  have "map (\<lambda>i. read_u32 (hdr @ concat (map be32 (take (unat cc) csrc)) @ r) (12 + i * 4)) [0..<unat cc]
        = take (unat cc) csrc"
    by (rule net32.dec_all_at) (use assms n in simp_all)
  moreover have "take (unat cc) csrc @ replicate (15 - unat cc) 0 = csrc"
    using assms(3) append_take_drop_id [of "unat cc" csrc] by simp
  ultimately show ?thesis
    using assms n
    by (cases "unat cc = 0") (simp_all add: parse_csrc_list_def Let_def net32.concat_enc_length)
qed

lemma parse_extension_block_bytes:
  assumes "list_all wf_extension es" "length es \<le> 8"
  shows "parse_extension_block (pre @ ext_block_bytes es @ r) (if es = [] then 0 else 1) (length pre)
         = Some (es, length pre + length (ext_block_bytes es))"
proof (cases "es = []")
  case True
  then show ?thesis by (simp add: parse_extension_block_def ext_block_bytes_def)
next
  case False
  let ?k = "(ext_payload_size es + ext_padding es) div 4"
  let ?body = "concat (map ext_bytes es) @ replicate (ext_padding es) 0"
  let ?p = "pre @ ext_block_bytes es @ r"
  have tot: "?k * 4 = ext_payload_size es + ext_padding es"
    using ext_block_aligned [of es] by presburger
  have "ext_payload_size es \<le> 136" "ext_padding es < 4"
    using ext_payload_size_bound [OF assms(1)] assms(2) by (simp_all add: ext_padding_def)
  then have k: "unat (word_of_nat ?k :: u16) = ?k"
    using tot by (simp add: unat_of_nat)
  have blk: "ext_block_bytes es = be16 0xBEDE @ be16 (word_of_nat ?k) @ ?body"
    using False by (simp add: ext_block_bytes_def)
  have prof: "read_u16 ?p (length pre) = 0xBEDE"
    using net16.dec_at [of "length pre" pre] by (simp add: blk)
  have ln: "read_u16 ?p (length pre + 2) = word_of_nat ?k"
    using net16.dec_at [of "length pre + 2" "pre @ be16 0xBEDE"] by (simp add: blk)
  have body: "length ?body = ?k * 4"
    using assms(1) tot by (simp add: ext_bytes_total)
  have "take (?k * 4) (drop (length pre + 4) ?p) = ?body"
    using body by (simp add: blk)
  then show ?thesis
    using False prof ln k body parse_extensions_bytes [of es "[]" "ext_padding es"] assms
    by (simp add: parse_extension_block_def Let_def blk)
qed

lemma parse_rtp_packet_bytes:
  assumes wf: "wf_packet p" and pad: "h_padding (p_header p) = 0" and pl: "p_payload p = Some d"
  shows "rtp_packet_parse (rtp_packet_bytes p)
         = Some (p\<lparr>p_header := (p_header p)\<lparr>h_extension := if p_extensions p = [] then 0 else 1\<rparr>,
                   p_buffer := Some (rtp_packet_bytes p),
                   p_buffer_len := length (rtp_packet_bytes p), p_owns_buffer := False\<rparr>)"
proof -
  let ?h = "(p_header p)\<lparr>h_extension := if p_extensions p = [] then 0 else 1\<rparr>"
  let ?n = "unat (h_csrc_count (p_header p))"
  let ?cs = "concat (map be32 (take ?n (p_csrc p)))"
  let ?eb = "ext_block_bytes (p_extensions p)"
  let ?pre = "rtp_header_bytes ?h @ ?cs"
  have bs: "rtp_packet_bytes p = rtp_header_bytes ?h @ ?cs @ ?eb @ d"
    using pl by (simp add: rtp_packet_bytes_def)
  have w: "length (p_csrc p) = 15" "drop ?n (p_csrc p) = replicate (15 - ?n) 0"
      "list_all wf_extension (p_extensions p)" "length (p_extensions p) \<le> 8"
      "h_version (p_header p) = RTP_VERSION" "length d = p_payload_len p"
    using wf pl by (simp_all add: wf_packet_def)
  have csrc: "parse_csrc_list (rtp_packet_bytes p) (h_csrc_count (p_header p)) = Some (p_csrc p, 12 + ?n * 4)"
    unfolding bs by (rule parse_csrc_list_bytes) (use w in simp_all)
  have lpre: "length ?pre = 12 + ?n * 4" using w csrc_bytes_length [of p] by simp
  have ext: "parse_extension_block (rtp_packet_bytes p) (h_extension ?h) (12 + ?n * 4)
             = Some (p_extensions p, 12 + ?n * 4 + length ?eb)"
    using parse_extension_block_bytes [OF w(3,4), of ?pre d] lpre by (simp add: bs)
  have "strip_padding (rtp_packet_bytes p) 0 (12 + ?n * 4 + length ?eb) = Some (length d)"
    using lpre by (simp add: strip_padding_def bs Let_def)
  moreover have "take (length d) (drop (12 + ?n * 4 + length ?eb) (rtp_packet_bytes p)) = d"
    using lpre by (simp add: bs)
  moreover have "parse_fixed_header (rtp_packet_bytes p) = ?h" by (simp add: bs)
  moreover have "\<not> length (rtp_packet_bytes p) < 12" by (simp add: bs)
  ultimately show ?thesis
    using w pad pl csrc ext by (simp add: rtp_packet_parse_def Let_def)
qed

section \<open>What the parser accepts\<close>

lemma parse_csrc_list_Some:
  assumes "parse_csrc_list b cc = Some (csrc, hs)" "12 \<le> length b"
  shows "length csrc = 15" "drop (unat cc) csrc = replicate (15 - unat cc) 0"
    "12 \<le> hs" "hs \<le> length b"
proof -
  have "unat cc \<le> 15" by (rule csrc_count_bound)
  then show "length csrc = 15" "drop (unat cc) csrc = replicate (15 - unat cc) 0"
    "12 \<le> hs" "hs \<le> length b"
    using assms by (auto simp: parse_csrc_list_def Let_def min_def split: if_splits)
qed

lemma parse_extension_block_Some:
  assumes "parse_extension_block b x hs = Some (es, hs')" "hs \<le> length b"
  shows "list_all wf_extension es" "length es \<le> 8" "hs \<le> hs'" "hs' \<le> length b"
    "es \<noteq> [] \<Longrightarrow> x = 1"
proof -
  have x: "x = 0 \<or> x = 1"
    using unsigned_less [of x, where 'a = nat] by (auto simp: word_unat_eq_iff)
  then show "list_all wf_extension es" "length es \<le> 8" "hs \<le> hs'" "hs' \<le> length b"
    "es \<noteq> [] \<Longrightarrow> x = 1"
    using assms parse_extensions_wf [of _ "[]"]
    by (auto simp: parse_extension_block_def Let_def split: if_splits)
qed

lemma strip_padding_Some:
  "strip_padding b pad hs = Some n \<Longrightarrow> hs \<le> length b \<Longrightarrow> hs + n \<le> length b"
  by (auto simp: strip_padding_def Let_def split: if_splits)

lemma parsed_packet_wf:
  assumes "rtp_packet_parse buffer = Some p"
  shows "wf_packet p \<and> (\<exists>hs. 12 \<le> hs \<and> hs + p_payload_len p \<le> length buffer
           \<and> p_payload p = Some (take (p_payload_len p) (drop hs buffer)))"
proof -
  let ?h = "parse_fixed_header buffer"
  have len: "12 \<le> length buffer" using assms by (auto simp: rtp_packet_parse_def split: if_splits)
  from assms obtain csrc hs es hs' n where
    v: "h_version ?h = RTP_VERSION"
    and c: "parse_csrc_list buffer (h_csrc_count ?h) = Some (csrc, hs)"
    and e: "parse_extension_block buffer (h_extension ?h) hs = Some (es, hs')"
    and n: "strip_padding buffer (h_padding ?h) hs' = Some n"
    and p: "p = \<lparr>p_header = ?h, p_csrc = csrc, p_extensions = es,
              p_payload = Some (take n (drop hs' buffer)), p_payload_len = n,
              p_buffer = Some buffer, p_buffer_len = length buffer, p_owns_buffer = False\<rparr>"
    by (auto simp: rtp_packet_parse_def Let_def split: if_splits option.splits)
  note C = parse_csrc_list_Some [OF c len]
  note E = parse_extension_block_Some [OF e C(4)]
  note N = strip_padding_Some [OF n E(4)]
  have "wf_packet p" using C E N v by (auto simp: p wf_packet_def)
  moreover have "12 \<le> hs'" using C(3) E(3) by simp
  ultimately show ?thesis using N by (auto simp: p)
qed



text \<open>C1. Serialising a well-formed packet without the padding flag and parsing the bytes it wrote
  gives back the header (with the extension flag set exactly when there are extensions), the CSRC
  list, the extensions and the payload; the bytes behind the packet are untouched.\<close>

theorem rtp_serialize_parse:
  assumes "wf_packet p" "h_padding (p_header p) = 0" "p_payload p = Some d"
    and "length (rtp_packet_bytes p) \<le> length buffer" "length (rtp_packet_bytes p) < 2 ^ 31"
  shows "\<exists>buf n q. rtp_packet_serialize p buffer = Some (buf, int n) \<and> n \<le> length buffer
           \<and> length buf = length buffer \<and> drop n buf = drop n buffer
           \<and> rtp_packet_parse (take n buf) = Some q
           \<and> p_header q = (p_header p)\<lparr>h_extension := if p_extensions p = [] then 0 else 1\<rparr>
           \<and> p_csrc q = p_csrc p \<and> p_extensions q = p_extensions p \<and> p_payload q = Some d"
proof -
  let ?b = "rtp_packet_bytes p"
  have "take (length ?b) (mem_write buffer 0 ?b) = ?b" by (simp add: mem_write_0)
  moreover have "drop (length ?b) (mem_write buffer 0 ?b) = drop (length ?b) buffer" by (simp add: mem_write_0)
  ultimately show ?thesis
    using serialize_Some [OF assms(1,4,5)] parse_rtp_packet_bytes [OF assms(1-3)] assms(3,4)
    by auto
qed

lemma rtp_serialize_parse_witness:
  fixes p defines "p \<equiv> rtp_packet_init\<lparr>p_payload := Some [7], p_payload_len := 1\<rparr>"
  shows "wf_packet p \<and> (\<exists>buf q. rtp_packet_serialize p (replicate 20 0) = Some (buf, 13)
           \<and> rtp_packet_parse (take 13 buf) = Some q \<and> p_payload q = Some [7])"
proof -
  have wf: "wf_packet p" "h_padding (p_header p) = 0" "p_payload p = Some [7]"
    by (simp_all add: p_def wf_packet_def rtp_packet_init_def rtp_packet_zero_def rtp_header_zero_def)
  have len: "length (rtp_packet_bytes p) = 13"
    by (simp add: p_def rtp_packet_bytes_def rtp_packet_init_def rtp_packet_zero_def
        rtp_header_zero_def ext_block_bytes_def)
  obtain buf n q where s: "rtp_packet_serialize p (replicate 20 0) = Some (buf, int n)"
      and r: "rtp_packet_parse (take n buf) = Some q" "p_payload q = Some [7]"
    using rtp_serialize_parse [OF wf, of "replicate 20 0"] len by auto
  moreover have "int n = 13"
    using s serialize_Some [OF wf(1), of "replicate 20 0"] len by simp
  ultimately show ?thesis using wf(1) by auto
qed

section \<open>Building\<close>

lemma build_header_fields [simp]:
  "h_version (build_header pt sq ts src m) = RTP_VERSION" "h_padding (build_header pt sq ts src m) = 0"
  "h_extension (build_header pt sq ts src m) = 0" "h_csrc_count (build_header pt sq ts src m) = 0"
  "h_marker (build_header pt sq ts src m) = (if m then 1 else 0)"
  "h_payload_type (build_header pt sq ts src m) = ucast (pt AND 0x7F)"
  "h_sequence (build_header pt sq ts src m) = sq" "h_timestamp (build_header pt sq ts src m) = ts"
  "h_ssrc (build_header pt sq ts src m) = src"
  by (simp_all add: build_header_def)

lemma header_extension_same: "h_extension h = 0 \<Longrightarrow> h\<lparr>h_extension := 0\<rparr> = h"
  by (cases h) simp

lemma parse_built:
  "\<exists>q. rtp_packet_parse (rtp_header_bytes (build_header pt sq ts src m) @ d) = Some q
     \<and> p_header q = build_header pt sq ts src m \<and> p_payload q = Some d \<and> p_extensions q = []"
proof -
  let ?p = "rtp_packet_zero\<lparr>p_header := build_header pt sq ts src m, p_payload := Some d, p_payload_len := length d\<rparr>"
  have wf: "wf_packet ?p" by (simp add: wf_packet_def rtp_packet_zero_def)
  have "rtp_packet_bytes ?p = rtp_header_bytes (build_header pt sq ts src m) @ d"
    by (simp add: rtp_packet_bytes_def rtp_packet_zero_def ext_block_bytes_def header_extension_same)
  with parse_rtp_packet_bytes [OF wf, of d] show ?thesis
    by (simp add: rtp_packet_zero_def header_extension_same)
qed

lemma rtp_packet_build_eq:
  assumes "length d = payload_len" "payload_len + 12 < 2 ^ 31"
  shows "rtp_packet_build pt sq ts src marker (Some d) payload_len buffer =
    (if length buffer < 12 + payload_len then None
     else Some (rtp_packet_zero\<lparr>p_header := build_header pt sq ts src marker,
                  p_buffer := Some (rtp_header_bytes (build_header pt sq ts src marker) @ d),
                  p_buffer_len := 12 + payload_len, p_payload := Some d,
                  p_payload_len := payload_len, p_owns_buffer := False\<rparr>,
                mem_write buffer 0 (rtp_header_bytes (build_header pt sq ts src marker) @ d),
                int (12 + payload_len)))"
proof -
  let ?h = "build_header pt sq ts src marker"
  have sz: "size_add 12 payload_len = 12 + payload_len" "to_int32 (12 + payload_len) = int (12 + payload_len)"
    using assms(2) by simp_all
  have wr: "mem_write (mem_write buffer 0 (rtp_header_bytes ?h)) 12 d = mem_write buffer 0 (rtp_header_bytes ?h @ d)"
    if "12 + payload_len \<le> length buffer"
    by (rule mem_write_append) (use assms that in simp_all)
  have "take (12 + payload_len) (mem_write buffer 0 (rtp_header_bytes ?h @ d)) = rtp_header_bytes ?h @ d"
    "take payload_len (drop 12 (mem_write buffer 0 (rtp_header_bytes ?h @ d))) = d"
    using assms(1) by (simp_all add: mem_write_0)
  then show ?thesis
    using assms(1) sz wr
    by (cases "payload_len = 0") (simp_all add: rtp_packet_build_def Let_def)
qed

text \<open>\<open>rtp_packet_build\<close> succeeds exactly when the buffer holds header and payload; it then
  returns the packet's size, writes nothing behind it, and what it wrote parses back to the
  sequence number, timestamp, SSRC, marker, payload type (its low seven bits) and payload asked
  for.\<close>

theorem rtp_build_parse:
  assumes "length d = payload_len" "payload_len + 12 < 2 ^ 31"
  shows "(rtp_packet_build pt sq ts src marker (Some d) payload_len buffer = None
            \<longleftrightarrow> length buffer < 12 + payload_len)
    \<and> (\<forall>pkt buf n. rtp_packet_build pt sq ts src marker (Some d) payload_len buffer = Some (pkt, buf, n) \<longrightarrow>
         n = int (12 + payload_len) \<and> length buf = length buffer
         \<and> drop (12 + payload_len) buf = drop (12 + payload_len) buffer
         \<and> (\<exists>q. rtp_packet_parse (take (12 + payload_len) buf) = Some q
              \<and> h_sequence (p_header q) = sq \<and> h_timestamp (p_header q) = ts \<and> h_ssrc (p_header q) = src
              \<and> h_marker (p_header q) = (if marker then 1 else 0)
              \<and> h_payload_type (p_header q) = ucast (pt AND 0x7F) \<and> p_payload q = Some d))"
proof -
  let ?b = "rtp_header_bytes (build_header pt sq ts src marker) @ d"
  have "take (12 + payload_len) (mem_write buffer 0 ?b) = ?b"
    "drop (12 + payload_len) (mem_write buffer 0 ?b) = drop (12 + payload_len) buffer"
    using assms(1) by (simp_all add: mem_write_0)
  then show ?thesis
    using parse_built [of pt sq ts src marker d] assms(1)
    by (auto simp: rtp_packet_build_eq [OF assms])
qed

lemma rtp_build_parse_witness:
  "\<exists>pkt buf. rtp_packet_build 0x60 5 9 77 True (Some [1, 2]) 2 (replicate 14 0) = Some (pkt, buf, 14)
     \<and> (\<exists>q. rtp_packet_parse (take 14 buf) = Some q \<and> p_payload q = Some [1, 2])"
  using rtp_build_parse [of "[1, 2]" 2 "0x60" 5 9 77 True "replicate 14 0"] by fastforce

text \<open>The padding flag does not survive a forwarder: \<open>rtp_packet_parse\<close> strips the padding
  from the payload but keeps the flag, and \<open>rtp_packet_serialize\<close> writes the flag without any
  padding, so the next receiver takes the last payload byte for a padding count and delivers a
  shorter payload.\<close>

theorem rtp_padding_not_preserved:
  "\<exists>p buf n q. rtp_packet_parse ([0xA0, 0x60] @ replicate 10 0 @ [7, 1, 0, 2]) = Some p
     \<and> p_payload p = Some [7, 1]
     \<and> rtp_packet_serialize p (replicate 20 0) = Some (buf, int n)
     \<and> rtp_packet_parse (take n buf) = Some q \<and> p_payload q = Some [7]"
proof -
  let ?b = "[0xA0, 0x60] @ replicate 10 0 @ [7, 1, 0, 2] :: bytes"
  let ?p = "the (rtp_packet_parse ?b)"
  let ?w = "rtp_packet_bytes ?p"
  have p: "rtp_packet_parse ?b = Some ?p" and pl: "p_payload ?p = Some [7, 1]" and len: "length ?w = 14"
    and q: "rtp_packet_parse ?w \<noteq> None" "p_payload (the (rtp_packet_parse ?w)) = Some [7]"
    by code_simp+
  have "wf_packet ?p" using parsed_packet_wf [OF p] by simp
  then have "rtp_packet_serialize ?p (replicate 20 0) = Some (mem_write (replicate 20 0) 0 ?w, int 14)"
    using serialize_Some [of ?p "replicate 20 0"] len by simp
  moreover have "take 14 (mem_write (replicate 20 0) 0 ?w) = ?w" using len by (simp add: mem_write_0)
  ultimately show ?thesis using p pl q by (metis option.collapse)
qed

section \<open>Header extensions\<close>

text \<open>Adding an extension keeps a packet well formed and makes its data retrievable under its
  identifier, if the identifier is new to the packet; a ninth extension, an identifier outside
  1..14 or a length outside 1..16 is refused.\<close>

theorem rtp_extension_add_get:
  assumes "wf_packet p" "unat l \<le> length d" "\<forall>e\<in>set (p_extensions p). ext_id e \<noteq> i"
  shows "(rtp_packet_add_extension p i (Some d) l = None
            \<longleftrightarrow> i = 0 \<or> i > 14 \<or> l = 0 \<or> l > 16 \<or> length (p_extensions p) = 8)
    \<and> (\<forall>q. rtp_packet_add_extension p i (Some d) l = Some q \<longrightarrow>
         wf_packet q \<and> rtp_packet_get_extension q i = Some (take (unat l) d, l)
         \<and> (\<forall>j. j \<noteq> i \<longrightarrow> rtp_packet_get_extension q j = rtp_packet_get_extension p j))"
proof -
  have none: "find (\<lambda>e. ext_id e = i) (p_extensions p) = None"
    using assms(3) by (simp add: find_None_iff)
  have app: "find P (es @ [e]) = (case find P es of None \<Rightarrow> if P e then Some e else None | Some x \<Rightarrow> Some x)"
    for P :: "rtp_extension \<Rightarrow> bool" and es e by (induction es) auto
  have tk: "take (unat l) (ext_data (make_extension i l d)) = take (unat l) d"
    using assms(2) by (simp add: make_extension_def mem_write_0)
  show ?thesis
    using assms none tk make_extension_wf [of i l d]
    by (auto simp: rtp_packet_add_extension_def rtp_packet_get_extension_def app not_less wf_packet_def
        make_extension_def split: option.splits)
qed

lemma rtp_extension_add_get_witness:
  "\<exists>q. rtp_packet_add_extension rtp_packet_init 3 (Some [9]) 1 = Some q
     \<and> rtp_packet_get_extension q 3 = Some ([9], 1)"
proof -
  have "wf_packet rtp_packet_init" "\<forall>e\<in>set (p_extensions rtp_packet_init). ext_id e \<noteq> 3"
    by (simp_all add: wf_packet_def rtp_packet_init_def rtp_packet_zero_def)
  from rtp_extension_add_get [OF this(1) _ this(2), of 1 "[9]"] show ?thesis
    by (cases "rtp_packet_add_extension rtp_packet_init 3 (Some [9]) 1")
      (simp_all add: rtp_packet_init_def rtp_packet_zero_def)
qed

section \<open>Serial numbers\<close>

lemma rtp_seq_newer_iff: "rtp_seq_newer a b \<longleftrightarrow> a \<noteq> b \<and> uint (a - b) < 32768"
proof -
  have "uint (a - b) = 0 \<longleftrightarrow> a = b" by (simp add: uint_0_iff)
  then have "0 < uint (a - b) \<longleftrightarrow> a \<noteq> b" by (simp add: less_le)
  then show ?thesis
    using uint_u16_bound [of "a - b"] by (cases "a = b") (auto simp: rtp_seq_newer_def sint_u16)
qed

lemma uint_sub_swap: "a \<noteq> b \<Longrightarrow> uint (a - b :: u16) + uint (b - a) = 65536"
proof -
  assume "a \<noteq> b"
  then have "uint (a - b) \<noteq> 0" by (simp add: uint_0_iff)
  moreover have "uint (b - a) = (- uint (a - b)) mod 65536"
    using uint_word_ariths(4) [of "a - b"] by simp
  ultimately show ?thesis using uint_u16_bound [of "a - b"] by (simp add: zmod_zminus1_eq_if)
qed

text \<open>Serial-number comparison: the successor at distance \<open>k\<close> is newer exactly when
  \<open>0 < k < 2^15\<close>, whatever the wrap-around; \<open>rtp_seq_diff\<close> returns that distance; no two numbers
  are newer than each other, and of two different numbers one is newer unless they are exactly
  half the sequence space apart.\<close>

theorem rtp_seq_compare:
  assumes "k < 65536"
  shows "(rtp_seq_newer (s + word_of_nat k) s \<longleftrightarrow> 0 < k \<and> k < 32768)
    \<and> rtp_seq_diff (s + word_of_nat k) s = (if k < 32768 then int k else int k - 65536)
    \<and> \<not> (rtp_seq_newer a b \<and> rtp_seq_newer b a)
    \<and> (a \<noteq> b \<and> a - b \<noteq> 32768 \<longrightarrow> rtp_seq_newer a b \<or> rtp_seq_newer b a)"
proof -
  have k: "uint (word_of_nat k :: u16) = int k"
    using assms by (simp add: unsigned_of_nat take_bit_nat_eq_self)
  then have "rtp_seq_newer (s + word_of_nat k) s \<longleftrightarrow> 0 < k \<and> k < 32768"
    "rtp_seq_diff (s + word_of_nat k) s = (if k < 32768 then int k else int k - 65536)"
    using assms by (auto simp: rtp_seq_newer_def rtp_seq_diff_def sint_u16)
  moreover have "\<not> (rtp_seq_newer a b \<and> rtp_seq_newer b a)"
    using uint_sub_swap [of a b] by (auto simp: rtp_seq_newer_iff)
  moreover have "rtp_seq_newer a b \<or> rtp_seq_newer b a" if "a \<noteq> b" "a - b \<noteq> 32768"
    using uint_sub_swap [of a b] that by (auto simp: rtp_seq_newer_iff word_uint_eq_iff)
  ultimately show ?thesis by blast
qed

lemma rtp_seq_compare_witness:
  "rtp_seq_newer (65535 + word_of_nat 3) 65535 \<and> rtp_seq_diff (65535 + word_of_nat 3) 65535 = 3"
  using rtp_seq_compare [of 3 65535] by simp

end
