(* ===== verification/Rtp_History.thy ===== *)
theory Rtp_History
  imports Rtp_Packet
begin

text \<open>
  The retransmission store, \<^verbatim>\<open>webrtc/src/rtc/rtp/rtp_history.c\<close>: a ring of \<open>max_packets\<close>
  slots indexed by \<open>seq % max_packets\<close>, each owning \<open>max_packet_size\<close> bytes of one allocation (the
  slot's area is its \<open>hs_data\<close>; the areas are disjoint).  The locale \<open>packet_history\<close> is the contract
  the NACK sender relies on, interpreted on the store at the end of the theory.
\<close>

record history_slot =
  hs_data :: bytes
  hs_len :: nat
  hs_seq :: u16
  hs_valid :: bool

record rtp_history =
  hist_slots :: "history_slot list"
  hist_max_packets :: nat
  hist_max_packet_size :: nat


text \<open>\<open>sizeof(history_slot_t)\<close> with eight-byte pointers; \<open>alloc_ok\<close> is whether the three allocations
  succeed.\<close>

definition sizeof_history_slot :: nat where "sizeof_history_slot = 24"

definition rtp_history_create :: "bool \<Rightarrow> nat \<Rightarrow> nat \<Rightarrow> rtp_history option" where
  "rtp_history_create alloc_ok max_packets max_packet_size =
     (if max_packets = 0 \<or> max_packet_size = 0 \<or> max_packets > SIZE_MAX div sizeof_history_slot
         \<or> max_packets > SIZE_MAX div max_packet_size then None
      else if \<not> alloc_ok then None
      else Some \<lparr>hist_slots = replicate max_packets
                   \<lparr>hs_data = replicate max_packet_size 0, hs_len = 0, hs_seq = 0, hs_valid = False\<rparr>,
                 hist_max_packets = max_packets, hist_max_packet_size = max_packet_size\<rparr>)"

definition history_index :: "rtp_history \<Rightarrow> u16 \<Rightarrow> nat" where
  "history_index h sq = unat sq mod hist_max_packets h"

definition rtp_history_put :: "rtp_history \<Rightarrow> u16 \<Rightarrow> bytes \<Rightarrow> rtp_history" where
  "rtp_history_put h sq packet =
     (if length packet > hist_max_packet_size h then h
      else let idx = history_index h sq; slot = hist_slots h ! idx
           in h\<lparr>hist_slots := (hist_slots h)[idx :=
                 \<lparr>hs_data = mem_write (hs_data slot) 0 packet, hs_len = length packet,
                  hs_seq = sq, hs_valid = True\<rparr>]\<rparr>)"

definition rtp_history_get :: "rtp_history \<Rightarrow> u16 \<Rightarrow> nat \<Rightarrow> bytes option" where
  "rtp_history_get h sq max_len =
     (let slot = hist_slots h ! history_index h sq
      in if \<not> hs_valid slot \<or> hs_seq slot \<noteq> sq then None
         else if hs_len slot > max_len then None
         else Some (take (hs_len slot) (hs_data slot)))"

section \<open>Invariant\<close>

definition history_inv :: "rtp_history \<Rightarrow> bool" where
  "history_inv h \<longleftrightarrow> 0 < hist_max_packets h \<and> length (hist_slots h) = hist_max_packets h
     \<and> (\<forall>s\<in>set (hist_slots h). length (hs_data s) = hist_max_packet_size h
          \<and> (hs_valid s \<longrightarrow> hs_len s \<le> hist_max_packet_size h))"

lemma history_index_less: "history_inv h \<Longrightarrow> history_index h sq < length (hist_slots h)"
  by (simp add: history_inv_def history_index_def)

lemma history_create_inv [inv_intros]:
  "rtp_history_create ok n m = Some h \<Longrightarrow>
   history_inv h \<and> hist_max_packets h = n \<and> hist_max_packet_size h = m"
  by (auto simp: rtp_history_create_def history_inv_def split: if_splits)

lemma history_put_params [simp]:
  "hist_max_packets (rtp_history_put h sq p) = hist_max_packets h"
  "hist_max_packet_size (rtp_history_put h sq p) = hist_max_packet_size h"
  "history_index (rtp_history_put h sq p) = history_index h"
  by (simp_all add: rtp_history_put_def history_index_def fun_eq_iff Let_def)

lemma history_put_inv [inv_intros]: "history_inv h \<Longrightarrow> history_inv (rtp_history_put h sq p)"
  using history_index_less [of h sq] set_update_subset_insert [of "hist_slots h" "history_index h sq"]
  by (fastforce simp: rtp_history_put_def history_inv_def Let_def)

lemma history_put_oversize: "hist_max_packet_size h < length p \<Longrightarrow> rtp_history_put h s p = h"
  by (simp add: rtp_history_put_def)

section \<open>The contract\<close>

locale packet_history =
  fixes inv :: "'h \<Rightarrow> bool"
    and put :: "'h \<Rightarrow> u16 \<Rightarrow> bytes \<Rightarrow> 'h"
    and get :: "'h \<Rightarrow> u16 \<Rightarrow> nat \<Rightarrow> bytes option"
    and capacity :: "'h \<Rightarrow> nat"
    and place :: "'h \<Rightarrow> u16 \<Rightarrow> nat"
  assumes put_inv: "inv h \<Longrightarrow> inv (put h s p)"
    and put_capacity: "capacity (put h s p) = capacity h"
    and put_place: "place (put h s p) = place h"
    and put_oversize: "capacity h < length p \<Longrightarrow> put h s p = h"
    and get_put: "inv h \<Longrightarrow> length p \<le> capacity h \<Longrightarrow>
          get (put h s p) s m = (if length p \<le> m then Some p else None)"
    and get_put_other: "inv h \<Longrightarrow> place h s \<noteq> place h t \<Longrightarrow> get (put h s p) t m = get h t m"
    and get_put_evicted: "inv h \<Longrightarrow> length p \<le> capacity h \<Longrightarrow> place h s = place h t \<Longrightarrow> s \<noteq> t \<Longrightarrow>
          get (put h s p) t m = None"
begin

lemma put_all_params:
  "capacity (fold (\<lambda>(s, p) h. put h s p) xs h) = capacity h"
  "place (fold (\<lambda>(s, p) h. put h s p) xs h) = place h"
  "inv h \<Longrightarrow> inv (fold (\<lambda>(s, p) h. put h s p) xs h)"
  by (induction xs arbitrary: h) (auto simp: put_capacity put_place put_inv)

lemma put_all_other:
  "inv h \<Longrightarrow> place h t \<notin> place h ` fst ` set xs \<Longrightarrow>
   get (fold (\<lambda>(s, p) h. put h s p) xs h) t m = get h t m"
proof (induction xs arbitrary: h)
  case (Cons x xs)
  obtain s p where x: "x = (s, p)" by (cases x)
  have "get (fold (\<lambda>(s, p) h. put h s p) xs (put h s p)) t m = get (put h s p) t m"
    using Cons.prems by (intro Cons.IH) (auto simp: x put_inv put_place)
  also have "\<dots> = get h t m" using Cons.prems by (intro get_put_other) (auto simp: x)
  finally show ?case by (simp add: x)
qed simp

text \<open>Packets stored into different places are all retrievable afterwards, byte for byte.\<close>

lemma get_put_all:
  assumes "inv h" "distinct (map (\<lambda>(s, p). place h s) xs)" "(s, p) \<in> set xs"
    and "length p \<le> capacity h" "length p \<le> m"
  shows "get (fold (\<lambda>(s, p) h. put h s p) xs h) s m = Some p"
  using assms
proof (induction xs arbitrary: h)
  case (Cons x xs)
  obtain t q where x: "x = (t, q)" by (cases x)
  show ?case
  proof (cases "(s, p) = x")
    case True
    with Cons.prems have "get (fold (\<lambda>(s, p) h. put h s p) xs (put h t q)) s m = get (put h t q) s m"
      by (intro put_all_other) (auto simp: x put_inv put_place image_iff split_beta)
    with True Cons.prems show ?thesis by (simp add: x get_put)
  next
    case False
    with Cons show ?thesis by (auto simp: x put_inv put_place put_capacity)
  qed
qed simp

end

lemma history_get_put:
  assumes "history_inv h" "length p \<le> hist_max_packet_size h"
  shows "rtp_history_get (rtp_history_put h s p) t m =
    (if history_index h s = history_index h t
     then if s = t \<and> length p \<le> m then Some p else None
     else rtp_history_get h t m)"
proof -
  have i: "history_index h s < length (hist_slots h)" using assms(1) by (rule history_index_less)
  then have "length (hs_data (hist_slots h ! history_index h s)) = hist_max_packet_size h"
    using assms(1) by (simp add: history_inv_def)
  with i show ?thesis
    using assms(2) history_put_params(3) [of h s p]
    by (auto simp: rtp_history_get_def rtp_history_put_def Let_def history_index_def mem_write_0)
qed

interpretation rtp_hist: packet_history history_inv rtp_history_put rtp_history_get
    hist_max_packet_size history_index
proof unfold_locales
  fix h s t p m
  assume "history_inv h" "history_index h s \<noteq> history_index h t"
  then show "rtp_history_get (rtp_history_put h s p) t m = rtp_history_get h t m"
    by (cases "length p \<le> hist_max_packet_size h") (simp_all add: history_get_put history_put_oversize)
qed (simp_all add: history_get_put inv_intros history_put_oversize)

text \<open>A window of at most \<open>max_packets\<close> consecutive sequence numbers occupies different slots,
  across the wrap-around at 65536, if the size divides the sequence space.\<close>

lemma history_window_distinct:
  assumes "hist_max_packets h dvd 65536" "n \<le> hist_max_packets h"
  shows "distinct (map (\<lambda>k. history_index h (s + word_of_nat k)) [0..<n])"
proof -
  let ?m = "hist_max_packets h"
  have m: "0 < ?m" "?m \<le> 65536" using assms(1) by (auto intro: dvd_imp_le Nat.gr0I)
  have idx: "history_index h (s + word_of_nat k) = (unat s + k) mod ?m" for k
    using assms(1) m by (simp add: history_index_def unat_word_ariths unsigned_of_nat take_bit_eq_mod
        mod_mod_cancel mod_simps)
  have "inj_on (\<lambda>k. (unat s + k) mod ?m) {0..<n}"
  proof (rule linorder_inj_onI')
    fix i j assume ij: "i \<in> {0..<n}" "j \<in> {0..<n}" "i < j"
    then have "\<not> ?m dvd j - i" using assms(2) by (auto dest: dvd_imp_le)
    then show "(unat s + i) mod ?m \<noteq> (unat s + j) mod ?m"
      using ij mod_eq_dvd_iff_nat [of "unat s + i" "unat s + j" ?m] by auto
  qed
  then show ?thesis by (simp add: idx distinct_map)
qed

lemma history_window_get:
  assumes "history_inv h" "hist_max_packets h dvd 65536" "length ps \<le> hist_max_packets h"
    and "\<forall>p\<in>set ps. length p \<le> hist_max_packet_size h \<and> length p \<le> m" "k < length ps"
  shows "rtp_history_get
           (fold (\<lambda>(s, p) h. rtp_history_put h s p)
              (zip (map (\<lambda>k. s + word_of_nat k) [0..<length ps]) ps) h)
           (s + word_of_nat k) m = Some (ps ! k)"
proof (rule rtp_hist.get_put_all [OF assms(1)])
  let ?xs = "zip (map (\<lambda>k. s + word_of_nat k) [0..<length ps]) ps"
  have "map (\<lambda>(s, p). history_index h s) ?xs = map (\<lambda>k. history_index h (s + word_of_nat k)) [0..<length ps]"
    by (rule nth_equalityI) simp_all
  then show "distinct (map (\<lambda>(s, p). history_index h s) ?xs)"
    using history_window_distinct [OF assms(2,3)] by simp
  show "(s + word_of_nat k, ps ! k) \<in> set ?xs"
    using assms(5) by (force simp: set_zip)
  show "length (ps ! k) \<le> hist_max_packet_size h" "length (ps ! k) \<le> m"
    using assms(4,5) by simp_all
qed

text \<open>A sender that stores up to \<open>max_packets\<close> consecutive packets can answer a NACK for each
  of them with exactly the bytes it sent, across the wrap-around of the sequence number, provided
  the history size divides 65536.\<close>

theorem rtp_history_window:
  assumes "history_inv h" "hist_max_packets h dvd 65536" "length ps \<le> hist_max_packets h"
    and "\<forall>p\<in>set ps. length p \<le> hist_max_packet_size h \<and> length p \<le> m" "k < length ps"
  shows "rtp_history_get
           (fold (\<lambda>(s, p) h. rtp_history_put h s p)
              (zip (map (\<lambda>k. s + word_of_nat k) [0..<length ps]) ps) h)
           (s + word_of_nat k) m = Some (ps ! k)"
  using assms by (rule history_window_get)

lemma rtp_history_window_witness:
  "\<exists>h. rtp_history_create True 2 10 = Some h \<and>
     rtp_history_get (fold (\<lambda>(s, p) h. rtp_history_put h s p)
        (zip (map (\<lambda>k. 65535 + word_of_nat k) [0..<2]) [[1], [2, 3]]) h) (65535 + word_of_nat 1) 10
     = Some ([[1], [2, 3]] ! 1)"
proof -
  have "rtp_history_create True 2 10 \<noteq> None"
    by (simp add: rtp_history_create_def SIZE_MAX_def sizeof_history_slot_def)
  then obtain h where h: "rtp_history_create True 2 10 = Some h" by blast
  then have i: "history_inv h" "hist_max_packets h = 2" "hist_max_packet_size h = 10"
    using history_create_inv by blast+
  have "rtp_history_get (fold (\<lambda>(s, p) h. rtp_history_put h s p)
        (zip (map (\<lambda>k. 65535 + word_of_nat k) [0..<length [[1], [2, 3 :: u8]]]) [[1], [2, 3]]) h)
        (65535 + word_of_nat 1) 10 = Some ([[1], [2, 3]] ! 1)"
    by (rule rtp_history_window) (use i in simp_all)
  then have "rtp_history_get (fold (\<lambda>(s, p) h. rtp_history_put h s p)
        (zip (map (\<lambda>k. 65535 + word_of_nat k) [0..<2]) [[1], [2, 3]]) h) (65535 + word_of_nat 1) 10
        = Some ([[1], [2, 3]] ! 1)"
    by (simp only: list.size One_nat_def add_Suc_right add_0_right numeral_2_eq_2)
  with h show ?thesis by blast
qed

end
