(* ===== verification/Nack.thy ===== *)
theory Nack
  imports Rtp_History
begin

text \<open>
  Loss detection and retransmission, \<^verbatim>\<open>webrtc/src/rtc/rtp/nack.c\<close>: the receiver's table of missing
  packets, the sender that answers requests from its packet history, and the RTCP generic NACK
  wire format.  Time stamps and statistics (\<open>int64_t\<close> microseconds and counters) are integers; the
  live entries of \<open>missing[100]\<close> are a list.  A registered callback is the token of its user data;
  a call to it is an element of the operation's output.
\<close>

section \<open>Constants and state\<close>

definition NACK_MAX_PACKET_AGE_US :: int where [simp]: "NACK_MAX_PACKET_AGE_US = 1000 * 1000"
definition NACK_MAX_RETRIES :: int where [simp]: "NACK_MAX_RETRIES = 3"
definition NACK_RETRY_INTERVAL_US :: int where [simp]: "NACK_RETRY_INTERVAL_US = 100 * 1000"
definition NACK_MAX_MISSING_PACKETS :: nat where [simp]: "NACK_MAX_MISSING_PACKETS = 100"

record nack_entry =
  ne_seq :: u16
  ne_first :: int
  ne_last :: int
  ne_retry :: int

record nack_receiver =
  nr_ssrc :: u32
  nr_highest :: u16
  nr_initialized :: bool
  nr_missing :: "nack_entry list"
  nr_packets_received :: int
  nr_packets_lost :: int
  nr_nacks_sent :: int
  nr_retransmissions :: int
  nr_on_nack :: "nat option"

definition nack_receiver_create :: "bool \<Rightarrow> u32 \<Rightarrow> nack_receiver option" where
  "nack_receiver_create alloc_ok src =
     (if \<not> alloc_ok then None
      else Some \<lparr>nr_ssrc = src, nr_highest = 0, nr_initialized = False, nr_missing = [],
        nr_packets_received = 0, nr_packets_lost = 0, nr_nacks_sent = 0, nr_retransmissions = 0,
        nr_on_nack = None\<rparr>)"

definition seq_diff :: "u16 \<Rightarrow> u16 \<Rightarrow> int" where
  "seq_diff a b = (let diff = uint a - uint b
     in if diff > 32768 then diff - 65536 else if diff < - 32768 then diff + 65536 else diff)"

section \<open>Receiver\<close>

definition add_missing_packet :: "nack_receiver \<Rightarrow> u16 \<Rightarrow> int \<Rightarrow> nack_receiver" where
  "add_missing_packet nack sq now =
     (if sq \<in> ne_seq ` set (nr_missing nack) then nack
      else if length (nr_missing nack) < NACK_MAX_MISSING_PACKETS
      then nack\<lparr>nr_missing := nr_missing nack @
                  [\<lparr>ne_seq = sq, ne_first = now, ne_last = 0, ne_retry = 0\<rparr>]\<rparr>
      else nack)"

text \<open>The scan for the first entry with the sequence number and the \<open>memmove\<close> that closes the
  hole; \<open>None\<close> when the scan runs off the end.\<close>

fun remove_entry :: "u16 \<Rightarrow> nack_entry list \<Rightarrow> nack_entry list option" where
  "remove_entry sq [] = None"
| "remove_entry sq (e # es) =
     (if ne_seq e = sq then Some es else map_option (Cons e) (remove_entry sq es))"

definition remove_missing_packet :: "nack_receiver \<Rightarrow> u16 \<Rightarrow> nack_receiver" where
  "remove_missing_packet nack sq =
     (case remove_entry sq (nr_missing nack) of
        None \<Rightarrow> nack
      | Some es \<Rightarrow> nack\<lparr>nr_missing := es, nr_retransmissions := nr_retransmissions nack + 1\<rparr>)"

text \<open>The loop \<open>for (i = 0; i < gap && i < 100; i++)\<close> that records the gap.\<close>

definition add_gap :: "nack_receiver \<Rightarrow> u16 \<Rightarrow> nat \<Rightarrow> int \<Rightarrow> nack_receiver" where
  "add_gap nack expected gap now =
     fold (\<lambda>i n. add_missing_packet n (expected + word_of_nat i) now)
       [0..<min gap NACK_MAX_MISSING_PACKETS] nack"

definition nack_receiver_process_packet :: "nack_receiver \<Rightarrow> u16 \<Rightarrow> int \<Rightarrow> nack_receiver" where
  "nack_receiver_process_packet nack sq now =
     (if \<not> nr_initialized nack
      then nack\<lparr>nr_highest := sq, nr_initialized := True, nr_packets_received := 1\<rparr>
      else if seq_diff sq (nr_highest nack) \<le> 0
      then let n = remove_missing_packet nack sq
           in n\<lparr>nr_packets_received := nr_packets_received n + 1\<rparr>
      else let expected = nr_highest nack + 1; gap = seq_diff sq expected;
               n = (if gap > 0
                    then add_gap (nack\<lparr>nr_packets_lost := nr_packets_lost nack + gap\<rparr>) expected (nat gap) now
                    else nack)
           in n\<lparr>nr_highest := sq, nr_packets_received := nr_packets_received n + 1\<rparr>)"

definition nack_eligible :: "int \<Rightarrow> nack_entry \<Rightarrow> bool" where
  "nack_eligible now e \<longleftrightarrow>
     \<not> (now - ne_first e > NACK_MAX_PACKET_AGE_US)
     \<and> \<not> (ne_retry e \<ge> NACK_MAX_RETRIES)
     \<and> \<not> (ne_last e > 0 \<and> now - ne_last e < NACK_RETRY_INTERVAL_US)"

text \<open>The scan of the table: the sequence numbers requested and the updated entries; it stops when
  \<open>max_count\<close> numbers have been collected (\<open>count\<close> is the number collected so far).\<close>

fun get_nacks_scan :: "int \<Rightarrow> int \<Rightarrow> int \<Rightarrow> nack_entry list \<Rightarrow> u16 list \<times> nack_entry list" where
  "get_nacks_scan now max_count count [] = ([], [])"
| "get_nacks_scan now max_count count (e # es) =
     (if \<not> count < max_count then ([], e # es)
      else if nack_eligible now e
      then let (sqs, es') = get_nacks_scan now max_count (count + 1) es
           in (ne_seq e # sqs, e\<lparr>ne_last := now, ne_retry := ne_retry e + 1\<rparr> # es')
      else let (sqs, es') = get_nacks_scan now max_count count es in (sqs, e # es'))"

text \<open>Result: the requested numbers (their count is the return value), the new state, and the
  callback invocation (user data, SSRC, numbers) if one is made.\<close>

definition nack_receiver_get_nacks ::
  "nack_receiver \<Rightarrow> int \<Rightarrow> int \<Rightarrow> u16 list \<times> nack_receiver \<times> (nat \<times> u32 \<times> u16 list) option" where
  "nack_receiver_get_nacks nack max_count now =
     (if max_count = 0 then ([], nack, None)
      else let (sqs, es) = get_nacks_scan now max_count 0 (nr_missing nack)
           in if sqs \<noteq> []
              then (sqs, nack\<lparr>nr_missing := es, nr_nacks_sent := nr_nacks_sent nack + 1\<rparr>,
                    map_option (\<lambda>u. (u, nr_ssrc nack, sqs)) (nr_on_nack nack))
              else (sqs, nack\<lparr>nr_missing := es\<rparr>, None))"

definition nack_expired :: "int \<Rightarrow> nack_entry \<Rightarrow> bool" where
  "nack_expired now e \<longleftrightarrow> now - ne_first e > NACK_MAX_PACKET_AGE_US \<or> ne_retry e \<ge> NACK_MAX_RETRIES"

text \<open>The in-place removal loop, by index as in the code.\<close>

function cleanup_loop :: "int \<Rightarrow> nat \<Rightarrow> nack_entry list \<Rightarrow> nack_entry list" where
  "cleanup_loop now i es =
     (if i < length es
      then if nack_expired now (es ! i)
           then cleanup_loop now i (take i es @ drop (i + 1) es)
           else cleanup_loop now (i + 1) es
      else es)"
  by pat_completeness auto
termination
  by (relation "measure (\<lambda>(_, i, es). length es - i)") auto

declare cleanup_loop.simps [simp del]

definition nack_receiver_cleanup_old :: "nack_receiver \<Rightarrow> int \<Rightarrow> nack_receiver" where
  "nack_receiver_cleanup_old nack now = nack\<lparr>nr_missing := cleanup_loop now 0 (nr_missing nack)\<rparr>"

definition nack_receiver_set_callback :: "nack_receiver \<Rightarrow> nat option \<Rightarrow> nack_receiver" where
  "nack_receiver_set_callback nack cb = nack\<lparr>nr_on_nack := cb\<rparr>"

definition nack_receiver_get_stats :: "nack_receiver \<Rightarrow> int \<times> int \<times> int \<times> int \<times> nat" where
  "nack_receiver_get_stats nack = (nr_packets_received nack, nr_packets_lost nack, nr_nacks_sent nack,
     nr_retransmissions nack, length (nr_missing nack))"

section \<open>Sender\<close>

record nack_sender =
  ns_ssrc :: u32
  ns_history :: rtp_history
  ns_nacks_received :: int
  ns_retransmitted :: int
  ns_failures :: int
  ns_on_retransmit :: "nat option"

definition nack_sender_create :: "bool \<Rightarrow> u32 \<Rightarrow> nat \<Rightarrow> nack_sender option" where
  "nack_sender_create alloc_ok src history_size =
     (if \<not> alloc_ok then None
      else map_option (\<lambda>h. \<lparr>ns_ssrc = src, ns_history = h, ns_nacks_received = 0, ns_retransmitted = 0,
                            ns_failures = 0, ns_on_retransmit = None\<rparr>)
             (rtp_history_create alloc_ok history_size RTP_MAX_PACKET))"

definition nack_sender_add_packet :: "nack_sender \<Rightarrow> u16 \<Rightarrow> bytes \<Rightarrow> nack_sender" where
  "nack_sender_add_packet nack sq packet =
     nack\<lparr>ns_history := rtp_history_put (ns_history nack) sq packet\<rparr>"

text \<open>The request loop: the retransmission count, the new state and the packets handed to the
  callback, in order (2048 is the size of the local packet buffer).\<close>

fun process_nack_loop :: "nack_sender \<Rightarrow> u16 list \<Rightarrow> int \<times> nack_sender \<times> (nat \<times> bytes) list" where
  "process_nack_loop nack [] = (0, nack, [])"
| "process_nack_loop nack (sq # sqs) =
     (case rtp_history_get (ns_history nack) sq 2048 of
        Some packet \<Rightarrow>
          let (r, nack', out) = process_nack_loop (nack\<lparr>ns_retransmitted := ns_retransmitted nack + 1\<rparr>) sqs
          in (r + 1, nack', (case ns_on_retransmit nack of None \<Rightarrow> [] | Some u \<Rightarrow> [(u, packet)]) @ out)
      | None \<Rightarrow> process_nack_loop (nack\<lparr>ns_failures := ns_failures nack + 1\<rparr>) sqs)"

definition nack_sender_process_nack ::
  "nack_sender \<Rightarrow> u16 list \<Rightarrow> int \<times> nack_sender \<times> (nat \<times> bytes) list" where
  "nack_sender_process_nack nack seq_nums =
     (if seq_nums = [] then (0, nack, [])
      else process_nack_loop (nack\<lparr>ns_nacks_received := ns_nacks_received nack + 1\<rparr>) seq_nums)"

definition nack_sender_set_callback :: "nack_sender \<Rightarrow> nat option \<Rightarrow> nack_sender" where
  "nack_sender_set_callback nack cb = nack\<lparr>ns_on_retransmit := cb\<rparr>"

definition nack_sender_get_stats :: "nack_sender \<Rightarrow> int \<times> int \<times> int" where
  "nack_sender_get_stats nack = (ns_nacks_received nack, ns_retransmitted nack, ns_failures nack)"

section \<open>RTCP generic NACK\<close>

text \<open>The inner loops of \<open>nack_build_rtcp\<close>: how many of the following numbers (at most \<open>n\<close>) lie 1..16
  after \<open>pid\<close>, and the bitmask of their distances.\<close>

fun block_extent :: "u16 \<Rightarrow> nat \<Rightarrow> u16 list \<Rightarrow> nat" where
  "block_extent pid 0 sqs = 0"
| "block_extent pid (Suc n) [] = 0"
| "block_extent pid (Suc n) (s # sqs) =
     (let diff = seq_diff s pid
      in if diff > 0 \<and> diff \<le> 16 then Suc (block_extent pid n sqs) else 0)"

definition blp_of :: "u16 \<Rightarrow> u16 list \<Rightarrow> u16" where
  "blp_of pid sqs = fold (\<lambda>s blp. blp OR push_bit (nat (seq_diff s pid) - 1) 1) sqs 0"

function blocks_needed :: "u16 list \<Rightarrow> nat" where
  "blocks_needed [] = 0"
| "blocks_needed (pid # sqs) = 1 + blocks_needed (drop (block_extent pid 16 sqs) sqs)"
  by pat_completeness auto
termination
  by (relation "measure length") auto

function fci_blocks :: "u16 list \<Rightarrow> bytes" where
  "fci_blocks [] = []"
| "fci_blocks (pid # sqs) =
     (let j = block_extent pid 16 sqs; blp = blp_of pid (take j sqs)
      in [ucast (drop_bit 8 pid AND 0xFF), ucast (pid AND 0xFF),
          ucast (drop_bit 8 blp AND 0xFF), ucast (blp AND 0xFF)] @ fci_blocks (drop j sqs))"
  by pat_completeness auto
termination
  by (relation "measure length") auto

text \<open>\<open>len\<close> is the size of the caller's buffer; the result is the buffer and the new \<open>*len\<close>.\<close>

definition nack_build_rtcp :: "u32 \<Rightarrow> u32 \<Rightarrow> u16 list \<Rightarrow> bytes \<Rightarrow> (bytes \<times> nat) option" where
  "nack_build_rtcp sender_ssrc media_ssrc seq_nums buffer =
     (if seq_nums = [] then None
      else let packet_len = 12 + blocks_needed seq_nums * 4
           in if length buffer < packet_len then None
              else let lw = packet_len div 4 - 1;
                       hdr = [0x80 OR 1, 205, ucast (drop_bit 8 (word_of_nat lw :: u64)),
                              ucast ((word_of_nat lw :: u64) AND 0xFF)]
                             @ be32 sender_ssrc @ be32 media_ssrc
                   in Some (mem_write buffer 0 (hdr @ fci_blocks seq_nums), packet_len))"

text \<open>The inner loop over the bits of \<open>blp\<close>, from bit \<open>i\<close>, with \<open>room\<close> output entries left.\<close>

function blp_seqs :: "u16 \<Rightarrow> u16 \<Rightarrow> nat \<Rightarrow> nat \<Rightarrow> u16 list" where
  "blp_seqs pid blp i room =
     (if i < 16 \<and> 0 < room
      then if bit blp i
           then (pid + word_of_nat i + 1) # blp_seqs pid blp (i + 1) (room - 1)
           else blp_seqs pid blp (i + 1) room
      else [])"
  by pat_completeness auto
termination
  by (relation "measure (\<lambda>(_, _, i, _). 16 - i)") auto

declare blp_seqs.simps [simp del]

fun parse_fci :: "bytes \<Rightarrow> nat \<Rightarrow> u16 list" where
  "parse_fci (b0 # b1 # b2 # b3 # r) room =
     (if 0 < room
      then let pid = push_bit 8 (ucast b0) OR ucast b1;
               blp = push_bit 8 (ucast b2) OR ucast b3;
               sqs = pid # blp_seqs pid blp 0 (room - 1)
           in sqs @ parse_fci r (room - length sqs)
      else [])"
| "parse_fci _ room = []"

definition nack_parse_rtcp :: "bytes \<Rightarrow> nat \<Rightarrow> (u32 \<times> u32 \<times> u16 list) option" where
  "nack_parse_rtcp buffer max_count =
     (if length buffer < 12 then None
      else if buffer ! 0 AND 0xC0 \<noteq> 0x80 then None
      else if buffer ! 1 \<noteq> 205 then None
      else if buffer ! 0 AND 0x1F \<noteq> 1 then None
      else Some (read_u32 buffer 4, read_u32 buffer 8, parse_fci (drop 12 buffer) max_count))"

section \<open>Invariant of the receiver\<close>

definition nack_inv :: "nack_receiver \<Rightarrow> bool" where
  "nack_inv r \<longleftrightarrow> length (nr_missing r) \<le> NACK_MAX_MISSING_PACKETS
     \<and> distinct (map ne_seq (nr_missing r))
     \<and> (\<forall>e\<in>set (nr_missing r). 0 \<le> ne_retry e \<and> ne_retry e \<le> NACK_MAX_RETRIES)"

datatype nack_op = Packet_In u16 int | Get_Nacks int int | Cleanup int | Set_Callback "nat option"

fun nack_exec :: "nack_op \<Rightarrow> nack_receiver \<Rightarrow> nack_receiver" where
  "nack_exec (Packet_In sq now) r = nack_receiver_process_packet r sq now"
| "nack_exec (Get_Nacks m now) r = fst (snd (nack_receiver_get_nacks r m now))"
| "nack_exec (Cleanup now) r = nack_receiver_cleanup_old r now"
| "nack_exec (Set_Callback cb) r = nack_receiver_set_callback r cb"

lemma nack_create_inv [inv_intros]: "nack_receiver_create ok src = Some r \<Longrightarrow> nack_inv r"
  by (auto simp: nack_inv_def nack_receiver_create_def split: if_splits)

lemma nack_inv_cong: "nr_missing r = nr_missing r' \<Longrightarrow> nack_inv r = nack_inv r'"
  by (simp add: nack_inv_def)

lemma add_missing_inv [inv_intros]: "nack_inv r \<Longrightarrow> nack_inv (add_missing_packet r sq now)"
  by (auto simp: nack_inv_def add_missing_packet_def)

lemma add_gap_inv [inv_intros]: "nack_inv r \<Longrightarrow> nack_inv (add_gap r ex g now)"
  unfolding add_gap_def by (rule fold_invariant [where Q = "\<lambda>_. True"]) (auto intro: inv_intros)

lemma remove_entry_Some:
  "remove_entry sq es = Some es' \<Longrightarrow>
   \<exists>a e b. es = a @ e # b \<and> es' = a @ b \<and> ne_seq e = sq \<and> sq \<notin> ne_seq ` set a"
proof (induction es arbitrary: es')
  case (Cons x es)
  show ?case
  proof (cases "ne_seq x = sq")
    case True
    with Cons.prems have "x # es = [] @ x # es \<and> es' = [] @ es \<and> ne_seq x = sq \<and> sq \<notin> ne_seq ` set []"
      by simp
    then show ?thesis by blast
  next
    case False
    with Cons.prems obtain es2 where "remove_entry sq es = Some es2" "es' = x # es2" by auto
    with Cons.IH obtain a e b where "es = a @ e # b" "es2 = a @ b" "ne_seq e = sq" "sq \<notin> ne_seq ` set a"
      by blast
    with False \<open>es' = x # es2\<close>
    have "x # es = (x # a) @ e # b \<and> es' = (x # a) @ b \<and> ne_seq e = sq \<and> sq \<notin> ne_seq ` set (x # a)"
      by auto
    then show ?thesis by blast
  qed
qed simp

lemma remove_entry_None: "remove_entry sq es = None \<longleftrightarrow> sq \<notin> ne_seq ` set es"
  by (induction es) auto

lemma remove_missing_inv [inv_intros]: "nack_inv r \<Longrightarrow> nack_inv (remove_missing_packet r sq)"
  by (auto simp: remove_missing_packet_def nack_inv_def split: option.splits dest!: remove_entry_Some)

lemma process_packet_inv [inv_intros]: "nack_inv r \<Longrightarrow> nack_inv (nack_receiver_process_packet r sq now)"
proof -
  assume r: "nack_inv r"
  have lost: "nack_inv (r\<lparr>nr_packets_lost := x\<rparr>)" for x using r by (simp add: nack_inv_def)
  have upd: "nack_inv n \<Longrightarrow> nack_inv (n\<lparr>nr_packets_received := a\<rparr>)"
    "nack_inv n \<Longrightarrow> nack_inv (n\<lparr>nr_highest := h, nr_packets_received := a\<rparr>)"
    "nack_inv n \<Longrightarrow> nack_inv (n\<lparr>nr_highest := h, nr_initialized := b\<rparr>)"
    "nack_inv n \<Longrightarrow> nack_inv (n\<lparr>nr_highest := h, nr_initialized := b, nr_packets_received := a\<rparr>)" for n a h b
    by (simp_all add: nack_inv_def)
  show ?thesis
    using r remove_missing_inv [OF r, of sq] add_gap_inv [OF lost]
    by (auto simp: nack_receiver_process_packet_def Let_def intro!: upd)
qed

section \<open>Requests\<close>

text \<open>The scan requests the first \<open>max_count\<close> eligible entries, in table order, and marks exactly
  those.\<close>

lemma scan_requests:
  "fst (get_nacks_scan now m c es) = map ne_seq (take (nat (m - c)) (filter (nack_eligible now) es))"
proof (induction now m c es rule: get_nacks_scan.induct)
  case (2 now m c e es)
  show ?case
  proof (cases "c < m")
    case True
    then have "nat (m - c) = Suc (nat (m - (c + 1)))" by simp
    with 2 True show ?thesis by (auto simp: split_beta Let_def)
  qed simp
qed simp

lemma scan_keeps_seqs: "map ne_seq (snd (get_nacks_scan now m c es)) = map ne_seq es"
  by (induction now m c es rule: get_nacks_scan.induct) (auto simp: split_beta Let_def)

lemma scan_entries:
  "list_all2 (\<lambda>e e'. e' = e \<or> nack_eligible now e \<and> e' = e\<lparr>ne_last := now, ne_retry := ne_retry e + 1\<rparr>)
     es (snd (get_nacks_scan now m c es))"
  by (induction now m c es rule: get_nacks_scan.induct)
    (auto simp: split_beta Let_def list_all2_refl)

lemma get_nacks_missing:
  "nr_missing (fst (snd (nack_receiver_get_nacks r m now)))
   = (if m = 0 then nr_missing r else snd (get_nacks_scan now m 0 (nr_missing r)))"
  by (auto simp: nack_receiver_get_nacks_def split_beta Let_def)

lemma get_nacks_result:
  "fst (nack_receiver_get_nacks r m now) = map ne_seq (take (nat m) (filter (nack_eligible now) (nr_missing r)))"
  using scan_requests [of now m 0 "nr_missing r"]
  by (auto simp: nack_receiver_get_nacks_def split_beta Let_def)

lemma scan_retry_bounds:
  "\<forall>e\<in>set es. 0 \<le> ne_retry e \<and> ne_retry e \<le> 3 \<Longrightarrow>
   \<forall>e\<in>set (snd (get_nacks_scan now m c es)). 0 \<le> ne_retry e \<and> ne_retry e \<le> 3"
  by (induction now m c es rule: get_nacks_scan.induct) (simp_all add: split_beta Let_def nack_eligible_def)

lemma get_nacks_inv [inv_intros]: "nack_inv r \<Longrightarrow> nack_inv (fst (snd (nack_receiver_get_nacks r m now)))"
  using scan_keeps_seqs [of now m 0 "nr_missing r"] scan_retry_bounds [of "nr_missing r" now m 0]
    map_eq_imp_length_eq [OF scan_keeps_seqs [of now m 0 "nr_missing r"]]
  by (simp add: nack_inv_def get_nacks_missing)

lemma cleanup_loop_filter:
  "cleanup_loop now i es = take i es @ filter (\<lambda>e. \<not> nack_expired now e) (drop i es)"
proof (induction now i es rule: cleanup_loop.induct)
  case (1 now i es)
  show ?case
  proof (cases "i < length es")
    case True
    then have d: "drop i es = es ! i # drop (i + 1) es" by (simp add: Cons_nth_drop_Suc)
    show ?thesis
    proof (cases "nack_expired now (es ! i)")
      case e: True
      with True 1(1) d show ?thesis by (subst cleanup_loop.simps) simp
    next
      case False
      with True 1(2) d show ?thesis by (subst cleanup_loop.simps) (simp add: take_Suc_conv_app_nth)
    qed
  next
    case False
    then show ?thesis by (subst cleanup_loop.simps) simp
  qed
qed

lemma cleanup_missing:
  "nr_missing (nack_receiver_cleanup_old r now) = filter (\<lambda>e. \<not> nack_expired now e) (nr_missing r)"
  by (simp add: nack_receiver_cleanup_old_def cleanup_loop_filter)

lemma cleanup_inv [inv_intros]: "nack_inv r \<Longrightarrow> nack_inv (nack_receiver_cleanup_old r now)"
  by (auto simp: nack_inv_def cleanup_missing distinct_map_filter intro: order_trans [OF length_filter_le])

lemma set_callback_inv [inv_intros]: "nack_inv r \<Longrightarrow> nack_inv (nack_receiver_set_callback r cb)"
  by (simp add: nack_inv_def nack_receiver_set_callback_def)

interpretation nack_rx: machine nack_inv nack_exec
proof
  fix r op assume "nack_inv r"
  then show "nack_inv (nack_exec op r)" by (cases op) (simp_all add: inv_intros)
qed

section \<open>Properties of the receiver\<close>

text \<open>The sequence numbers requested by a run.\<close>

fun nack_outputs :: "nack_op list \<Rightarrow> nack_receiver \<Rightarrow> u16 list" where
  "nack_outputs [] r = []"
| "nack_outputs (op # ops) r =
     (case op of Get_Nacks m now \<Rightarrow> fst (nack_receiver_get_nacks r m now) | _ \<Rightarrow> [])
     @ nack_outputs ops (nack_exec op r)"

fun nack_budget :: "u16 \<Rightarrow> nack_entry list \<Rightarrow> nat" where
  "nack_budget s [] = 0"
| "nack_budget s (e # es) = (if ne_seq e = s then nat (3 - ne_retry e) else 0) + nack_budget s es"

lemma scan_budget:
  "count_list (fst (get_nacks_scan now m c es)) s + nack_budget s (snd (get_nacks_scan now m c es))
   = nack_budget s es"
  by (induction now m c es rule: get_nacks_scan.induct)
    (auto simp: split_beta Let_def nack_eligible_def)

lemma filter_budget: "nack_budget s (filter P es) \<le> nack_budget s es"
  by (induction es) auto

lemma poll_budget:
  "count_list (fst (nack_receiver_get_nacks r m now)) s
   + nack_budget s (nr_missing (fst (snd (nack_receiver_get_nacks r m now)))) = nack_budget s (nr_missing r)"
  using scan_budget [of now m 0 "nr_missing r" s]
  by (auto simp: nack_receiver_get_nacks_def split_beta Let_def)

lemma outputs_budget:
  "\<forall>op\<in>set ops. \<forall>sq now. op \<noteq> Packet_In sq now \<Longrightarrow>
   count_list (nack_outputs ops r) s \<le> nack_budget s (nr_missing r)"
proof (induction ops arbitrary: r)
  case (Cons op ops)
  then have IH: "count_list (nack_outputs ops (nack_exec op r)) s \<le> nack_budget s (nr_missing (nack_exec op r))"
    by auto
  show ?case
  proof (cases op)
    case (Get_Nacks m now)
    with IH poll_budget [of r m now s] show ?thesis by simp
  next
    case (Cleanup now)
    have "nack_budget s (nr_missing (nack_exec op r)) \<le> nack_budget s (nr_missing r)"
      by (simp add: Cleanup cleanup_missing filter_budget)
    with IH show ?thesis by (simp add: Cleanup)
  next
    case (Set_Callback cb)
    with IH show ?thesis by (simp add: nack_receiver_set_callback_def)
  next
    case (Packet_In sq now)
    with Cons.prems show ?thesis by simp
  qed
qed simp

lemma budget_le_3: "nack_inv r \<Longrightarrow> nack_budget s (nr_missing r) \<le> 3"
proof -
  have "distinct (map ne_seq es) \<Longrightarrow> \<forall>e\<in>set es. 0 \<le> ne_retry e \<Longrightarrow> nack_budget s es \<le> 3
        \<and> (s \<notin> ne_seq ` set es \<longrightarrow> nack_budget s es = 0)" for es
    by (induction es) auto
  then show "nack_inv r \<Longrightarrow> ?thesis" by (simp add: nack_inv_def)
qed

text \<open>How often a run records a packet as missing: the number of steps that bring its number into the table.\<close>

fun times_recorded :: "u16 \<Rightarrow> nack_op list \<Rightarrow> nack_receiver \<Rightarrow> nat" where
  "times_recorded s [] r = 0"
| "times_recorded s (op # ops) r =
     (if s \<notin> ne_seq ` set (nr_missing r) \<and> s \<in> ne_seq ` set (nr_missing (nack_exec op r)) then 1 else 0)
     + times_recorded s ops (nack_exec op r)"

lemma budget_member: "distinct (map ne_seq es) \<Longrightarrow> e \<in> set es \<Longrightarrow> nack_budget (ne_seq e) es = nat (3 - ne_retry e)"
  and budget_absent: "s \<notin> ne_seq ` set es \<Longrightarrow> nack_budget s es = 0"
proof -
  show z: "s \<notin> ne_seq ` set es \<Longrightarrow> nack_budget s es = 0" for s es by (induction es) auto
  show "distinct (map ne_seq es) \<Longrightarrow> e \<in> set es \<Longrightarrow> nack_budget (ne_seq e) es = nat (3 - ne_retry e)"
    by (induction es) (auto simp: z)
qed

text \<open>A packet that arrives leaves the entries of other packets alone.\<close>

lemma add_missing_entries: "set (nr_missing (add_missing_packet r sq now)) \<subseteq> set (nr_missing r) \<union> {e. ne_seq e \<notin> ne_seq ` set (nr_missing r)}"
  by (auto simp: add_missing_packet_def)

lemma add_gap_entries: "set (nr_missing (add_gap r ex g now)) \<subseteq> set (nr_missing r) \<union> {e. ne_seq e \<notin> ne_seq ` set (nr_missing r)}"
  unfolding add_gap_def
proof (rule fold_invariant [where Q = "\<lambda>_. True" and P = "\<lambda>n. set (nr_missing r) \<subseteq> set (nr_missing n)
    \<and> set (nr_missing n) \<subseteq> set (nr_missing r) \<union> {e. ne_seq e \<notin> ne_seq ` set (nr_missing r)}", THEN conjunct2], goal_cases)
  case (3 i n)
  then have "set (nr_missing n) \<subseteq> set (nr_missing (add_missing_packet n (ex + word_of_nat i) now))" by (auto simp: add_missing_packet_def)
  with 3 add_missing_entries [of n "ex + word_of_nat i" now] show ?case by blast
qed simp_all

lemma packet_entries:
  "set (nr_missing (nack_receiver_process_packet r sq now)) \<subseteq> set (nr_missing r) \<union> {e. ne_seq e \<notin> ne_seq ` set (nr_missing r)}"
proof -
  have "set (nr_missing (remove_missing_packet r sq)) \<subseteq> set (nr_missing r)"
    using remove_entry_Some [of sq "nr_missing r"] by (auto simp: remove_missing_packet_def split: option.split)
  moreover have "set (nr_missing (add_gap (r\<lparr>nr_packets_lost := x\<rparr>) ex g now)) \<subseteq> set (nr_missing r) \<union> {e. ne_seq e \<notin> ne_seq ` set (nr_missing r)}"
    for x ex g using add_gap_entries [of "r\<lparr>nr_packets_lost := x\<rparr>"] by simp
  ultimately show ?thesis by (simp add: nack_receiver_process_packet_def Let_def le_supI1)
qed

lemma step_budget:
  assumes "nack_inv r"
  shows "count_list (case op of Get_Nacks m now \<Rightarrow> fst (nack_receiver_get_nacks r m now) | _ \<Rightarrow> []) s
      + nack_budget s (nr_missing (nack_exec op r))
    \<le> nack_budget s (nr_missing r) + 3 * times_recorded s [op] r"
proof (cases op)
  case (Packet_In sq now)
  let ?r = "nack_receiver_process_packet r sq now"
  have inv: "nack_inv ?r" using assms by (rule process_packet_inv)
  show ?thesis
  proof (cases "s \<in> ne_seq ` set (nr_missing ?r)")
    case True
    then obtain e where e: "e \<in> set (nr_missing ?r)" "ne_seq e = s" by blast
    show ?thesis
    proof (cases "s \<in> ne_seq ` set (nr_missing r)")
      case old: True
      then have "e \<in> set (nr_missing r)" using packet_entries [of r sq now] e by blast
      then have "nack_budget s (nr_missing ?r) = nack_budget s (nr_missing r)"
        using budget_member [of "nr_missing ?r" e] budget_member [of "nr_missing r" e] e inv assms by (simp add: nack_inv_def)
      then show ?thesis by (simp add: Packet_In)
    qed (use budget_le_3 [OF inv, of s] True in \<open>simp add: Packet_In\<close>)
  qed (simp add: Packet_In budget_absent)
next
  case (Get_Nacks m now)
  then show ?thesis using poll_budget [of r m now s] by simp
next
  case (Cleanup now)
  then show ?thesis by (simp add: cleanup_missing filter_budget trans_le_add1)
qed (simp add: nack_receiver_set_callback_def)

lemma requests_bounded:
  "nack_inv r \<Longrightarrow> count_list (nack_outputs ops r) s \<le> nack_budget s (nr_missing r) + 3 * times_recorded s ops r"
proof (induction ops arbitrary: r)
  case (Cons op ops)
  have "nack_inv (nack_exec op r)" using nack_rx.run_inv [OF Cons.prems, of "[op]"] by simp
  from Cons.IH [OF this] step_budget [OF Cons.prems, of op s] show ?case by simp
qed simp

text \<open>C34. Whatever sequence of packets, polls, clean-ups and callback changes a fresh receiver
  sees, its table of missing packets never exceeds the 100 entries of the array and never holds a
  sequence number twice; and in the whole run a number is requested at most three times for each time it was recorded as missing.\<close>

theorem nack_table_invariant:
  assumes "nack_receiver_create ok src = Some r"
  shows "length (nr_missing (fold nack_exec ops r)) \<le> NACK_MAX_MISSING_PACKETS
     \<and> distinct (map ne_seq (nr_missing (fold nack_exec ops r)))
     \<and> (\<forall>e\<in>set (nr_missing (fold nack_exec ops r)). 0 \<le> ne_retry e \<and> ne_retry e \<le> NACK_MAX_RETRIES)
     \<and> count_list (nack_outputs ops r) s \<le> 3 * times_recorded s ops r"
proof -
  have "nack_budget s (nr_missing r) = 0" using assms by (auto simp: nack_receiver_create_def split: if_splits)
  with nack_rx.run_inv [OF nack_create_inv [OF assms]] requests_bounded [OF nack_create_inv [OF assms], of ops s]
  show ?thesis by (simp add: nack_inv_def)
qed

lemma nack_table_invariant_witness:
  "let r = the (nack_receiver_create True 7);
       ops = [Packet_In 65534 10, Packet_In 1 20, Get_Nacks 8 30, Get_Nacks 8 150000, Get_Nacks 8 300000, Get_Nacks 8 450000]
   in count_list (nack_outputs ops r) 0 = 3 \<and> times_recorded 0 ops r = 1 \<and> count_list (nack_outputs ops r) 0 \<le> 3 * times_recorded 0 ops r"
proof -
  let ?r = "the (nack_receiver_create True 7)"
    and ?ops = "[Packet_In 65534 10, Packet_In 1 20, Get_Nacks 8 30, Get_Nacks 8 150000, Get_Nacks 8 300000, Get_Nacks 8 450000]"
  have r: "nack_receiver_create True 7 = Some ?r" by (simp add: nack_receiver_create_def)
  have "count_list (nack_outputs ?ops ?r) 0 = 3" "times_recorded 0 ?ops ?r = 1" by code_simp+
  with nack_table_invariant [OF r, of ?ops 0] show ?thesis by (simp add: Let_def)
qed

text \<open>Between two packet arrivals the receiver asks for a given packet at most three times, in
  however many polls, interleaved with clean-ups and callback changes in any order.\<close>

theorem nack_retry_limit:
  assumes "nack_inv r" "\<forall>op\<in>set ops. \<forall>sq now. op \<noteq> Packet_In sq now"
  shows "count_list (nack_outputs ops r) s \<le> 3"
  using outputs_budget [OF assms(2)] budget_le_3 [OF assms(1)] by (rule order_trans)

lemma nack_retry_limit_witness:
  "let r = fold nack_exec [Packet_In 65534 10, Packet_In 1 20] (the (nack_receiver_create True 7));
       ops = [Get_Nacks 8 30, Cleanup 40, Get_Nacks 8 150000, Get_Nacks 8 300000, Get_Nacks 8 500000]
   in count_list (nack_outputs ops r) 0 = 3 \<and> count_list (nack_outputs ops r) 0 \<le> 3"
proof -
  let ?r = "fold nack_exec [Packet_In 65534 10, Packet_In 1 20] (the (nack_receiver_create True 7))"
  let ?ops = "[Get_Nacks 8 30, Cleanup 40, Get_Nacks 8 150000, Get_Nacks 8 300000, Get_Nacks 8 500000]"
  have "nack_receiver_create True 7 = Some (the (nack_receiver_create True 7))"
    by (simp add: nack_receiver_create_def)
  then have "nack_inv ?r" by (intro nack_rx.run_inv nack_create_inv)
  then have "count_list (nack_outputs ?ops ?r) 0 \<le> 3" by (rule nack_retry_limit) simp
  moreover have "count_list (nack_outputs ?ops ?r) 0 = 3" by code_simp
  ultimately show ?thesis by (simp add: Let_def)
qed

lemma scan_marks:
  "distinct (map ne_seq es) \<Longrightarrow> e \<in> set (snd (get_nacks_scan now m c es)) \<Longrightarrow>
   ne_seq e \<in> set (fst (get_nacks_scan now m c es)) \<Longrightarrow> ne_last e = now"
proof (induction now m c es rule: get_nacks_scan.induct)
  case (2 now m c x es)
  have known: "ne_seq ` set (snd (get_nacks_scan now m c' es)) = ne_seq ` set es"
    "set (fst (get_nacks_scan now m c' es)) \<subseteq> ne_seq ` set es" for c'
    using scan_keeps_seqs [of now m c' es] by (metis set_map) (auto simp: scan_requests dest: in_set_takeD)
  have x: "ne_seq x \<notin> ne_seq ` set es" using 2(3) by simp
  show ?case
  proof (cases "c < m")
    case lt: True
    show ?thesis
    proof (cases "nack_eligible now x")
      case True
      let ?s = "get_nacks_scan now m (c + 1) es"
      have "e = x\<lparr>ne_last := now, ne_retry := ne_retry x + 1\<rparr> \<or> e \<in> set (snd ?s)"
        using 2(4) lt True by (simp add: split_beta Let_def)
      then show ?thesis
      proof
        assume e: "e \<in> set (snd ?s)"
        then have "ne_seq e \<noteq> ne_seq x" using x known(1) [of "c + 1"] by (metis image_eqI)
        then show ?thesis using 2 lt True e by (simp add: split_beta Let_def)
      qed simp
    next
      case False
      let ?s = "get_nacks_scan now m c es"
      have "e = x \<or> e \<in> set (snd ?s)" "ne_seq e \<in> set (fst ?s)"
        using 2(4,5) lt False by (simp_all add: split_beta Let_def)
      then have "e \<in> set (snd ?s)" using x known(2) [of c] by blast
      then show ?thesis using 2 lt False by (simp add: split_beta Let_def)
    qed
  qed (use 2(5) in simp)
qed simp

text \<open>A poll requests the first \<open>max_count\<close> packets of the table that are young enough, not
  exhausted and not requested in the last 100 ms; and a packet just requested is not requested
  again by a poll less than 100 ms later.\<close>

theorem nack_poll_requests:
  assumes "nack_inv r" "0 < now" "now' - now < NACK_RETRY_INTERVAL_US"
    and "nack_receiver_get_nacks r m now = (sqs, r', out)"
  shows "sqs = map ne_seq (take (nat m) (filter (nack_eligible now) (nr_missing r)))
    \<and> set sqs \<inter> set (fst (nack_receiver_get_nacks r' m' now')) = {}"
proof
  show sqs: "sqs = map ne_seq (take (nat m) (filter (nack_eligible now) (nr_missing r)))"
    using get_nacks_result [of r m now] assms(4) by simp
  show "set sqs \<inter> set (fst (nack_receiver_get_nacks r' m' now')) = {}"
  proof (rule ccontr)
    assume "set sqs \<inter> set (fst (nack_receiver_get_nacks r' m' now')) \<noteq> {}"
    then obtain e where e: "e \<in> set (nr_missing r')" "nack_eligible now' e" "ne_seq e \<in> set sqs"
      unfolding get_nacks_result by (auto dest!: in_set_takeD)
    moreover have "sqs = fst (get_nacks_scan now m 0 (nr_missing r))"
      unfolding sqs scan_requests by simp
    moreover have "m \<noteq> 0" using e(3) sqs by auto
    then have "nr_missing r' = snd (get_nacks_scan now m 0 (nr_missing r))"
      using get_nacks_missing [of r m now] assms(4) by simp
    ultimately have "ne_last e = now"
      using assms(1) scan_marks [of "nr_missing r" e] by (simp add: nack_inv_def)
    with e(2) assms(2,3) show False by (simp add: nack_eligible_def)
  qed
qed

lemma nack_poll_requests_witness:
  "let r = fold nack_exec [Packet_In 65534 10, Packet_In 1 20] (the (nack_receiver_create True 7));
       (sqs, r', out) = nack_receiver_get_nacks r 8 30
   in sqs = [65535, 0] \<and> set sqs \<inter> set (fst (nack_receiver_get_nacks r' 8 100029)) = {}"
proof -
  let ?r = "fold nack_exec [Packet_In 65534 10, Packet_In 1 20] (the (nack_receiver_create True 7))"
  have "nack_receiver_create True 7 = Some (the (nack_receiver_create True 7))"
    by (simp add: nack_receiver_create_def)
  then have i: "nack_inv ?r" by (intro nack_rx.run_inv nack_create_inv)
  obtain sqs r' out where g: "nack_receiver_get_nacks ?r 8 30 = (sqs, r', out)" by (metis prod_cases3)
  have "fst (nack_receiver_get_nacks ?r 8 30) = [65535, 0]" by code_simp
  then have "sqs = [65535, 0]" unfolding g by simp
  moreover have "set sqs \<inter> set (fst (nack_receiver_get_nacks r' 8 100029)) = {}"
    by (rule nack_poll_requests [OF i _ _ g, THEN conjunct2]) simp_all
  ultimately show ?thesis unfolding Let_def g prod.case by blast
qed

text \<open>Clean-up removes exactly the expired and exhausted entries, keeps the rest in order, and
  no later poll can tell: whatever it would have requested it still requests.\<close>

theorem nack_cleanup_transparent:
  assumes "now \<le> now'"
  shows "nr_missing (nack_receiver_cleanup_old r now) = filter (\<lambda>e. \<not> nack_expired now e) (nr_missing r)
    \<and> fst (nack_receiver_get_nacks (nack_receiver_cleanup_old r now) m now')
       = fst (nack_receiver_get_nacks r m now')"
proof -
  have "nack_eligible now' e \<Longrightarrow> \<not> nack_expired now e" for e
    using assms by (auto simp: nack_eligible_def nack_expired_def)
  then have "filter (nack_eligible now') (filter (\<lambda>e. \<not> nack_expired now e) es)
      = filter (nack_eligible now') es" for es
    unfolding filter_filter by (metis (lifting))
  then show ?thesis by (simp add: cleanup_missing get_nacks_result)
qed

lemma nack_cleanup_transparent_witness:
  "(30 :: int) \<le> 40 \<and> fst (nack_receiver_get_nacks (nack_receiver_cleanup_old
      (the (nack_receiver_create True 7)) 30) 8 40)
    = fst (nack_receiver_get_nacks (the (nack_receiver_create True 7)) 8 40)"
  using nack_cleanup_transparent [of 30 40] by simp

section \<open>Gap detection\<close>

lemma seq_diff_bounds: "- 32768 \<le> seq_diff a b" "seq_diff a b \<le> 32768"
proof -
  have "0 \<le> x \<Longrightarrow> x < 65536 \<Longrightarrow> 0 \<le> y \<Longrightarrow> y < 65536 \<Longrightarrow>
     - 32768 \<le> (if x - y > 32768 then x - y - 65536 else if x - y < - 32768 then x - y + 65536 else x - y)
     \<and> (if x - y > 32768 then x - y - 65536 else if x - y < - 32768 then x - y + 65536 else x - y) \<le> 32768"
    for x y :: int by auto
  from this [of "uint a" "uint b"] show "- 32768 \<le> seq_diff a b" "seq_diff a b \<le> 32768"
    by (simp_all only: seq_diff_def Let_def uint_u16_bound)
qed

lemma seq_diff_mod: "seq_diff a b mod 65536 = (uint a - uint b) mod 65536"
proof -
  have "(x - 65536) mod 65536 = x mod 65536" "(x + 65536) mod 65536 = x mod 65536" for x :: int
    by (simp_all add: mod_diff_eq [symmetric])
  then show ?thesis by (simp add: seq_diff_def Let_def)
qed

text \<open>The distance is the position of \<open>a\<close> after \<open>b\<close> on the circle, up to half the circle.\<close>

lemma seq_diff_word: "word_of_int (seq_diff a b) = a - b"
  using seq_diff_mod [of a b] by (simp add: word_uint_eq_iff uint_word_of_int uint_sub_u16)

lemma seq_diff_eq_iff:
  assumes "- 32768 < n" "n < 32768"
  shows "seq_diff a b = n \<longleftrightarrow> a = b + word_of_int n"
proof
  show "seq_diff a b = n \<Longrightarrow> a = b + word_of_int n"
    using seq_diff_word [of a b] by (simp add: algebra_simps)
  assume "a = b + word_of_int n"
  then have "word_of_int (seq_diff a b) = (word_of_int n :: u16)" by (simp add: seq_diff_word)
  then have "(seq_diff a b - n) mod 65536 = 0"
    by (simp add: word_of_int_eq_iff take_bit_eq_mod mod_eq_dvd_iff)
  then obtain k where k: "seq_diff a b - n = 65536 * k" by (metis mod_0_imp_dvd dvdE)
  moreover have "- 65536 < seq_diff a b - n" "seq_diff a b - n < 65536"
    using assms seq_diff_bounds [of a b] by linarith+
  ultimately have "k = 0" by linarith
  with k show "seq_diff a b = n" by simp
qed

lemma add_gap_fresh:
  "n \<le> 100 \<Longrightarrow> length (nr_missing r) + n \<le> 100 \<Longrightarrow>
   \<forall>i<n. ex + word_of_nat i \<notin> ne_seq ` set (nr_missing r) \<Longrightarrow>
   fold (\<lambda>i n. add_missing_packet n (ex + word_of_nat i) now) [0..<n] r
   = r\<lparr>nr_missing := nr_missing r @ map (\<lambda>i. \<lparr>ne_seq = ex + word_of_nat i, ne_first = now,
         ne_last = 0, ne_retry = 0\<rparr>) [0..<n]\<rparr>"
proof (induction n)
  case (Suc n)
  have neq: "\<forall>i<n. (word_of_nat n :: u16) \<noteq> word_of_nat i"
    using Suc.prems(1) by (simp add: word_of_nat_eq_iff take_bit_nat_eq_self)
  then have "ex + word_of_nat n \<notin> (\<lambda>i. ex + word_of_nat i) ` {0..<n}"
    by (metis (no_types, lifting) add_left_cancel atLeastLessThan_iff imageE)
  moreover have "ex + word_of_nat n \<notin> ne_seq ` set (nr_missing r)" using Suc.prems(3) by simp
  ultimately show ?case
    using Suc by (simp add: add_missing_packet_def [of _ "ex + word_of_nat n"] image_Un image_image)
qed simp

text \<open>When a packet arrives \<open>d\<close> positions after the highest one seen, the receiver records
  exactly the \<open>d - 1\<close> numbers in between as missing, in order and across the wrap-around, and
  counts them as lost, as long as the table has room; an in-order packet records nothing; a packet
  that is not newer takes its own entry off the table and nothing else.\<close>

theorem nack_gap_detection:
  assumes "nack_inv r" "nr_initialized r"
  shows "(0 < d \<and> d < 32768 \<and> sq = nr_highest r + word_of_int d \<and> length (nr_missing r) + nat (d - 1) \<le> 100
      \<and> (\<forall>i < nat (d - 1). nr_highest r + 1 + word_of_nat i \<notin> ne_seq ` set (nr_missing r)) \<longrightarrow>
      nack_receiver_process_packet r sq now = r\<lparr>nr_packets_lost := nr_packets_lost r + (d - 1),
        nr_missing := nr_missing r @ map (\<lambda>i. \<lparr>ne_seq = nr_highest r + 1 + word_of_nat i, ne_first = now,
           ne_last = 0, ne_retry = 0\<rparr>) [0..<nat (d - 1)],
        nr_highest := sq, nr_packets_received := nr_packets_received r + 1\<rparr>)
    \<and> (seq_diff sq (nr_highest r) \<le> 0 \<longrightarrow>
       nr_missing (nack_receiver_process_packet r sq now) = filter (\<lambda>e. ne_seq e \<noteq> sq) (nr_missing r)
       \<and> nr_highest (nack_receiver_process_packet r sq now) = nr_highest r)"
proof (intro conjI impI; (elim conjE)?)
  assume d: "0 < d" "d < 32768" "sq = nr_highest r + word_of_int d"
    "length (nr_missing r) + nat (d - 1) \<le> 100"
    "\<forall>i < nat (d - 1). nr_highest r + 1 + word_of_nat i \<notin> ne_seq ` set (nr_missing r)"
  have "seq_diff sq (nr_highest r) = d" using d by (simp add: seq_diff_eq_iff)
  moreover have "seq_diff sq (nr_highest r + 1) = d - 1"
    using d by (simp add: seq_diff_eq_iff)
  moreover have "min (nat (d - 1)) 100 = nat (d - 1)" using d(4) by simp
  ultimately show "nack_receiver_process_packet r sq now = r\<lparr>nr_packets_lost := nr_packets_lost r + (d - 1),
        nr_missing := nr_missing r @ map (\<lambda>i. \<lparr>ne_seq = nr_highest r + 1 + word_of_nat i, ne_first = now,
           ne_last = 0, ne_retry = 0\<rparr>) [0..<nat (d - 1)],
        nr_highest := sq, nr_packets_received := nr_packets_received r + 1\<rparr>"
    using d assms(2) add_gap_fresh [of "nat (d - 1)" "r\<lparr>nr_packets_lost := nr_packets_lost r + (d - 1)\<rparr>"
        "nr_highest r + 1" now]
    by (cases "d = 1") (simp_all add: nack_receiver_process_packet_def add_gap_def Let_def)
next
  assume old: "seq_diff sq (nr_highest r) \<le> 0"
  have rm: "nr_missing (remove_missing_packet r sq) = filter (\<lambda>e. ne_seq e \<noteq> sq) (nr_missing r)"
  proof (cases "remove_entry sq (nr_missing r)")
    case None
    then have "filter (\<lambda>e. ne_seq e \<noteq> sq) (nr_missing r) = nr_missing r"
      by (auto simp: remove_entry_None intro!: filter_True)
    with None show ?thesis by (simp add: remove_missing_packet_def)
  next
    case (Some es)
    then obtain a e b where "nr_missing r = a @ e # b" "es = a @ b" "ne_seq e = sq"
      using remove_entry_Some by blast
    moreover have "distinct (map ne_seq (nr_missing r))" using assms(1) by (simp add: nack_inv_def)
    ultimately have "filter (\<lambda>e. ne_seq e \<noteq> sq) (nr_missing r) = es"
      by (auto intro!: arg_cong2 [where f = append] filter_True) (metis image_eqI)+
    with Some show ?thesis by (simp add: remove_missing_packet_def)
  qed
  have "nr_highest (remove_missing_packet r sq) = nr_highest r"
    by (simp add: remove_missing_packet_def split: option.splits)
  with rm old assms(2)
  show "nr_missing (nack_receiver_process_packet r sq now) = filter (\<lambda>e. ne_seq e \<noteq> sq) (nr_missing r)"
    "nr_highest (nack_receiver_process_packet r sq now) = nr_highest r"
    by (simp_all add: nack_receiver_process_packet_def Let_def)
qed

lemma nack_gap_detection_witness:
  "let r = nack_exec (Packet_In 65534 10) (the (nack_receiver_create True 7))
   in nr_highest r = 65534 \<and>
      nr_packets_lost (nack_receiver_process_packet r 1 20) = nr_packets_lost r + 2"
proof -
  let ?r = "nack_exec (Packet_In 65534 10) (the (nack_receiver_create True 7))"
  have "nack_receiver_create True 7 = Some (the (nack_receiver_create True 7))"
    by (simp add: nack_receiver_create_def)
  then have i: "nack_inv ?r" by (intro nack_rx.exec_inv nack_create_inv)
  have h: "nr_initialized ?r" "nr_highest ?r = 65534" "nr_missing ?r = []"
    by (simp_all add: nack_receiver_create_def nack_receiver_process_packet_def)
  then have "nr_packets_lost (nack_receiver_process_packet ?r 1 20) = nr_packets_lost ?r + 2"
    using nack_gap_detection [OF i h(1), of 3 1 20] by simp
  with h show ?thesis by (simp add: Let_def)
qed

lemma half_circle:
  "(x - y) mod 65536 = 32768 \<Longrightarrow> 0 \<le> x \<Longrightarrow> x < 65536 \<Longrightarrow> 0 \<le> y \<Longrightarrow> y < 65536 \<Longrightarrow>
   x - y = 32768 \<or> x - y = (- 32768 :: int)"
proof -
  assume h: "(x - y) mod 65536 = 32768" "0 \<le> x" "x < 65536" "0 \<le> y" "y < 65536"
  define q where "q = (x - y) div 65536"
  have "x - y = 65536 * q + 32768" using h(1) div_mult_mod_eq [of "x - y" 65536] by (simp add: q_def)
  moreover from this h have "- 2 < q" "q < 1" by linarith+
  ultimately show ?thesis by (cases "q = 0") simp_all
qed

text \<open>The comparison used by the NACK tables agrees with \<open>rtp_seq_diff\<close> of the RTP layer except at
  the antipode: there \<open>seq_diff\<close> is \<open>+32768\<close> or \<open>-32768\<close> by the order of the two numbers, while the RTP
  layer always answers \<open>-32768\<close>.\<close>

theorem nack_seq_diff_agrees:
  "(a - b \<noteq> 32768 \<longrightarrow> seq_diff a b = rtp_seq_diff a b)
   \<and> (a - b = 32768 \<longrightarrow> rtp_seq_diff a b = - 32768 \<and> seq_diff a b = (if a > b then 32768 else - 32768))"
proof (intro conjI impI)
  assume ne: "a - b \<noteq> 32768"
  have sback: "word_of_int (sint (a - b)) = a - b"
    by (metis scast_eq scast_id)
  have "- 32768 < sint (a - b)"
  proof (rule ccontr)
    assume "\<not> - 32768 < sint (a - b)"
    with sint_word_bounds16 [of "a - b"] have "sint (a - b) = - 32768" by simp
    then have "a - b = word_of_int (- 32768)" using sback by simp
    with ne show False by simp
  qed
  then show "seq_diff a b = rtp_seq_diff a b"
    using sint_word_bounds16(2) [of "a - b"]
    by (simp add: rtp_seq_diff_def seq_diff_eq_iff sback)
next
  assume anti: "a - b = 32768"
  then show "rtp_seq_diff a b = - 32768" by (simp add: rtp_seq_diff_def)
  have "(uint a - uint b) mod 65536 = 32768" using anti uint_sub_u16 [of a b] by simp
  then have "uint a - uint b = 32768 \<or> uint a - uint b = - 32768"
    using half_circle [of "uint a" "uint b"] by (simp only: uint_u16_bound)
  moreover have "a > b \<longleftrightarrow> uint a > uint b" by (simp add: word_less_def)
  ultimately show "seq_diff a b = (if a > b then 32768 else - 32768)"
    by (auto simp: seq_diff_def)
qed

lemma nack_seq_diff_agrees_witness:
  "seq_diff 2 65534 = rtp_seq_diff 2 65534 \<and> rtp_seq_diff 32769 1 = - 32768 \<and> seq_diff 32769 1 = 32768"
  using nack_seq_diff_agrees [of 2 65534] nack_seq_diff_agrees [of 32769 1] by simp

section \<open>Properties of the sender\<close>

lemma process_nack_loop_eq:
  "process_nack_loop n sqs =
     (let found = List.map_filter (\<lambda>s. rtp_history_get (ns_history n) s 2048) sqs
      in (int (length found),
          n\<lparr>ns_retransmitted := ns_retransmitted n + int (length found),
             ns_failures := ns_failures n + (int (length sqs) - int (length found))\<rparr>,
          case ns_on_retransmit n of None \<Rightarrow> [] | Some u \<Rightarrow> map (Pair u) found))"
  by (induction n sqs rule: process_nack_loop.induct)
    (auto simp: map_filter_simps Let_def split: option.splits)

lemma add_packets_history:
  "fold (\<lambda>(s, p) n. nack_sender_add_packet n s p) xs n
   = n\<lparr>ns_history := fold (\<lambda>(s, p) h. rtp_history_put h s p) xs (ns_history n)\<rparr>"
  by (induction xs arbitrary: n) (auto simp: nack_sender_add_packet_def)

lemma map_filter_all: "\<forall>x\<in>set xs. f (h x) = Some (g x) \<Longrightarrow> List.map_filter f (map h xs) = map g xs"
  by (induction xs) (auto simp: map_filter_simps)

text \<open>A NACK sender that has been given up to \<open>history_size\<close> consecutive packets answers a request
  for any of them, in any order and with repetitions, by handing exactly the bytes it was given to
  the retransmission callback, and counts every request as served.\<close>

theorem nack_sender_answers:
  assumes "nack_sender_create ok src hsize = Some n" "hsize dvd 65536" "length ps \<le> hsize"
    and "\<forall>p\<in>set ps. length p \<le> RTP_MAX_PACKET" "\<forall>k\<in>set ks. k < length ps" "ks \<noteq> []"
  shows "\<exists>n'. nack_sender_process_nack
            (fold (\<lambda>(s, p) n. nack_sender_add_packet n s p)
               (zip (map (\<lambda>k. s + word_of_nat k) [0..<length ps]) ps) (nack_sender_set_callback n (Some u)))
            (map (\<lambda>k. s + word_of_nat k) ks)
          = (int (length ks), n', map (\<lambda>k. (u, ps ! k)) ks)
        \<and> nack_sender_get_stats n' = (1, int (length ks), 0)"
proof -
  let ?xs = "zip (map (\<lambda>k. s + word_of_nat k) [0..<length ps]) ps"
  have h: "history_inv (ns_history n)" "hist_max_packets (ns_history n) = hsize"
    "hist_max_packet_size (ns_history n) = RTP_MAX_PACKET"
    using assms(1) history_create_inv by (auto simp: nack_sender_create_def split: if_splits)
  have n: "ns_nacks_received n = 0" "ns_retransmitted n = 0" "ns_failures n = 0"
    using assms(1) by (auto simp: nack_sender_create_def split: if_splits)
  define hist where "hist = fold (\<lambda>(s, p) h. rtp_history_put h s p) ?xs (ns_history n)"
  have "rtp_history_get hist (s + word_of_nat k) 2048 = Some (ps ! k)" if "k \<in> set ks" for k
    unfolding hist_def
    by (rule history_window_get) (use assms h that in \<open>auto simp: RTP_MAX_PACKET_def\<close>)
  then have "List.map_filter (\<lambda>s. rtp_history_get hist s 2048) (map (\<lambda>k. s + word_of_nat k) ks) = map ((!) ps) ks"
    by (simp add: map_filter_all)
  then show ?thesis
    using assms(6) n
    by (simp add: nack_sender_process_nack_def add_packets_history nack_sender_set_callback_def
        hist_def [symmetric] process_nack_loop_eq nack_sender_get_stats_def)
qed

lemma nack_sender_answers_witness:
  "\<exists>n n'. nack_sender_create True 9 2 = Some n \<and>
     nack_sender_process_nack (fold (\<lambda>(s, p) n. nack_sender_add_packet n s p)
        (zip (map (\<lambda>k. 65535 + word_of_nat k) [0..<length [[1], [2, 3 :: u8]]]) [[1], [2, 3]])
        (nack_sender_set_callback n (Some 5))) (map (\<lambda>k. 65535 + word_of_nat k) [1, 0])
     = (int (length [1, 0 :: nat]), n', map (\<lambda>k. (5, [[1], [2, 3]] ! k)) [1, 0])"
proof -
  obtain n where n: "nack_sender_create True 9 2 = Some n"
    by (simp add: nack_sender_create_def rtp_history_create_def SIZE_MAX_def sizeof_history_slot_def
        RTP_MAX_PACKET_def)
  have "\<exists>n'. nack_sender_process_nack (fold (\<lambda>(s, p) n. nack_sender_add_packet n s p)
        (zip (map (\<lambda>k. 65535 + word_of_nat k) [0..<length [[1], [2, 3 :: u8]]]) [[1], [2, 3]])
        (nack_sender_set_callback n (Some 5))) (map (\<lambda>k. 65535 + word_of_nat k) [1, 0])
     = (int (length [1, 0 :: nat]), n', map (\<lambda>k. (5, [[1], [2, 3]] ! k)) [1, 0])
     \<and> nack_sender_get_stats n' = (1, int (length [1, 0 :: nat]), 0)"
    by (rule nack_sender_answers [OF n]) (simp_all add: RTP_MAX_PACKET_def)
  with n show ?thesis by blast
qed

section \<open>The wire format\<close>

lemma block_extent_le: "block_extent pid n sqs \<le> length sqs"
  by (induction pid n sqs rule: block_extent.induct) (auto simp: Let_def)

lemma block_extent_dist:
  "s \<in> set (take (block_extent pid n sqs) sqs) \<Longrightarrow> 0 < seq_diff s pid \<and> seq_diff s pid \<le> 16"
  by (induction pid n sqs rule: block_extent.induct) (auto simp: Let_def split: if_splits)

definition blp_pos :: "u16 \<Rightarrow> u16 \<Rightarrow> nat" where
  "blp_pos pid s = nat (seq_diff s pid) - 1"

lemma blp_of_bit: "bit (blp_of pid sqs) i \<longleftrightarrow> i < 16 \<and> i \<in> blp_pos pid ` set sqs"
proof -
  have "bit (fold (\<lambda>s blp. blp OR push_bit (nat (seq_diff s pid) - 1) 1) sqs acc) i
        \<longleftrightarrow> bit acc i \<or> i < 16 \<and> i \<in> blp_pos pid ` set sqs" for acc :: u16
    by (induction sqs arbitrary: acc) (auto simp: bit_simps blp_pos_def)
  from this [of 0] show ?thesis by (simp add: blp_of_def)
qed

lemma blp_seqs_eq:
  "blp_seqs pid blp i room = take room (map (\<lambda>k. pid + word_of_nat k + 1) (filter (bit blp) [i..<16]))"
proof (induction pid blp i room rule: blp_seqs.induct)
  case (1 pid blp i room)
  show ?case
  proof (cases "i < 16 \<and> 0 < room")
    case True
    then have "[i..<16] = i # [i + 1..<16]" by (simp add: upt_rec)
    with 1 True show ?thesis by (subst blp_seqs.simps) (cases room, auto)
  next
    case False
    then show ?thesis by (subst blp_seqs.simps) auto
  qed
qed

lemma blp_pos_seq: "0 < seq_diff s pid \<Longrightarrow> seq_diff s pid \<le> 16 \<Longrightarrow>
  pid + word_of_nat (blp_pos pid s) + 1 = s \<and> blp_pos pid s < 16"
proof -
  assume d: "0 < seq_diff s pid" "seq_diff s pid \<le> 16"
  then have "int (blp_pos pid s) = seq_diff s pid - 1" by (simp add: blp_pos_def)
  then have "(word_of_nat (blp_pos pid s) :: u16) = word_of_int (seq_diff s pid - 1)"
    by (metis of_int_of_nat_eq)
  with d seq_diff_word [of s pid] show ?thesis by (simp add: blp_pos_def algebra_simps)
qed

definition block_seqs :: "u16 \<Rightarrow> u16 list \<Rightarrow> u16 list" where
  "block_seqs pid sqs = map (\<lambda>k. pid + word_of_nat k + 1) (filter (bit (blp_of pid sqs)) [0..<16])"

definition serial_sorted :: "u16 list \<Rightarrow> bool" where
  "serial_sorted sqs \<longleftrightarrow> sorted_wrt (\<lambda>a b. 0 < seq_diff b a) sqs"

lemma seq_diff_shift:
  assumes "0 < seq_diff s pid" "seq_diff s pid \<le> 16" "0 < seq_diff t pid" "seq_diff t pid \<le> 16"
  shows "seq_diff t s = seq_diff t pid - seq_diff s pid"
  by (subst seq_diff_eq_iff) (use assms in \<open>simp_all add: seq_diff_word\<close>)

lemma block_seqs_near:
  assumes near: "\<And>s. s \<in> set sqs \<Longrightarrow> 0 < seq_diff s pid \<and> seq_diff s pid \<le> 16"
  shows "set (block_seqs pid sqs) = set sqs" "length (block_seqs pid sqs) \<le> length sqs"
    "serial_sorted sqs \<Longrightarrow> block_seqs pid sqs = sqs"
proof -
  let ?ks = "filter (bit (blp_of pid sqs)) [0..<16]"
  have ks: "set ?ks = blp_pos pid ` set sqs"
    using near blp_pos_seq by (auto simp: blp_of_bit)
  have "set (block_seqs pid sqs) = (\<lambda>s. pid + word_of_nat (blp_pos pid s) + 1) ` set sqs"
    unfolding block_seqs_def set_map ks image_image ..
  also have "\<dots> = set sqs" using near blp_pos_seq by simp
  finally show "set (block_seqs pid sqs) = set sqs" .
  have "length ?ks = card (set ?ks)" by (intro distinct_card [symmetric] distinct_filter) simp
  also have "\<dots> \<le> length sqs"
    unfolding ks using card_image_le [of "set sqs"] card_length [of sqs] by (meson finite_set le_trans)
  finally show "length (block_seqs pid sqs) \<le> length sqs" by (simp add: block_seqs_def)
  assume "serial_sorted sqs"
  then have "sorted_wrt (\<lambda>a b. blp_pos pid a < blp_pos pid b) sqs"
    unfolding serial_sorted_def
    by (rule sorted_wrt_mono_rel [rotated]) (use near in \<open>force simp: seq_diff_shift [of _ pid] blp_pos_def\<close>)
  then have "sorted_wrt (<) (map (blp_pos pid) sqs)" by (simp add: sorted_wrt_map)
  then have "sorted (map (blp_pos pid) sqs)" "distinct (map (blp_pos pid) sqs)"
    by (auto simp: strict_sorted_iff)
  then have "?ks = map (blp_pos pid) sqs"
    using ks by (intro sorted_distinct_set_unique) (simp_all add: sorted_wrt_filter)
  then show "block_seqs pid sqs = sqs"
    using near blp_pos_seq by (simp add: block_seqs_def map_idI)
qed

lemma fci_block_bytes:
  "fci_blocks (pid # sqs) = be16 pid @ be16 (blp_of pid (take (block_extent pid 16 sqs) sqs))
     @ fci_blocks (drop (block_extent pid 16 sqs) sqs)"
proof -
  have "ucast (drop_bit 8 w AND 0xFF) = (ucast (drop_bit 8 w) :: u8)" for w :: u16
    by (rule bit_word_eqI) (auto simp: word_masks bit_simps)
  then show ?thesis by (simp add: be16_def Let_def)
qed

lemma fci_length: "length (fci_blocks sqs) = 4 * blocks_needed sqs"
  by (induction sqs rule: fci_blocks.induct) (simp_all add: fci_block_bytes del: fci_blocks.simps(2))

lemma parse_fci_block:
  "0 < room \<Longrightarrow> parse_fci (be16 pid @ be16 blp @ r) room =
     (let sqs = pid # blp_seqs pid blp 0 (room - 1) in sqs @ parse_fci r (room - length sqs))"
  using join16 [of pid] join16 [of blp] by (simp add: be16_def)

lemma fci_roundtrip:
  "length sqs \<le> room \<Longrightarrow>
     set (parse_fci (fci_blocks sqs) room) = set sqs
     \<and> length (parse_fci (fci_blocks sqs) room) \<le> length sqs
     \<and> (serial_sorted sqs \<longrightarrow> parse_fci (fci_blocks sqs) room = sqs)"
proof (induction sqs arbitrary: room rule: fci_blocks.induct)
  case (2 pid sqs)
  let ?j = "block_extent pid 16 sqs" and ?t = "\<lambda>xs. take (block_extent pid 16 sqs) xs"
  define out where "out = block_seqs pid (?t sqs)"
  have near: "s \<in> set (?t sqs) \<Longrightarrow> 0 < seq_diff s pid \<and> seq_diff s pid \<le> 16" for s
    by (rule block_extent_dist)
  note out = block_seqs_near [of "?t sqs" pid, OF near, folded out_def]
  have j: "?j \<le> length sqs" by (rule block_extent_le)
  have len: "length out \<le> ?j" using out(2) j by simp
  with j 2(2) have seqs: "blp_seqs pid (blp_of pid (?t sqs)) 0 (room - 1) = out"
    by (simp add: blp_seqs_eq out_def block_seqs_def)
  then have eq: "parse_fci (fci_blocks (pid # sqs)) room
      = pid # out @ parse_fci (fci_blocks (drop ?j sqs)) (room - 1 - length out)"
    using 2(2) by (simp add: fci_block_bytes parse_fci_block Let_def del: fci_blocks.simps(2))
  have IH: "set (parse_fci (fci_blocks (drop ?j sqs)) (room - 1 - length out)) = set (drop ?j sqs)"
    "length (parse_fci (fci_blocks (drop ?j sqs)) (room - 1 - length out)) \<le> length sqs - ?j"
    "serial_sorted (drop ?j sqs) \<Longrightarrow>
       parse_fci (fci_blocks (drop ?j sqs)) (room - 1 - length out) = drop ?j sqs"
    using 2(1) [OF refl refl, of "room - 1 - length out"] 2(2) j len by auto
  have "set sqs = set (?t sqs) \<union> set (drop ?j sqs)" by (metis append_take_drop_id set_append)
  moreover have "out = ?t sqs \<and> serial_sorted (drop ?j sqs)" if "serial_sorted (pid # sqs)"
    using that out(3) sorted_wrt_take sorted_wrt_drop by (auto simp: serial_sorted_def)
  ultimately show ?case
    unfolding eq using IH out(1) len j by auto
qed simp

text \<open>The packet \<open>nack_build_rtcp\<close> writes, and what the parser reads in such a packet.\<close>

lemma nack_build_bytes:
  assumes "nack_build_rtcp sender media sqs buf = Some (buf', n)"
  shows "n = 12 + 4 * blocks_needed sqs \<and> n \<le> length buf \<and> length buf' = length buf \<and> drop n buf' = drop n buf
    \<and> (\<exists>x y. take n buf' = [0x81, 205, x, y] @ be32 sender @ be32 media @ fci_blocks sqs)"
proof -
  let ?n = "12 + blocks_needed sqs * 4"
  let ?w = "word_of_nat (?n div 4 - 1) :: u64"
  define bs where "bs = [0x81, 205, ucast (drop_bit 8 ?w), ucast (?w AND 0xFF)] @ be32 sender @ be32 media @ fci_blocks sqs"
  have "length bs = ?n" by (simp add: bs_def fci_length)
  moreover have "?n \<le> length buf" "n = ?n" "buf' = mem_write buf 0 bs"
    using assms by (auto simp: nack_build_rtcp_def Let_def bs_def split: if_splits)
  ultimately have "n = 12 + 4 * blocks_needed sqs" "n \<le> length buf" "length buf' = length buf" "drop n buf' = drop n buf"
    "take n buf' = bs" by (simp_all add: mem_write_0)
  then show ?thesis unfolding bs_def by blast
qed

lemma nack_parse_bytes:
  "nack_parse_rtcp ([0x81, 205, x, y] @ be32 sender @ be32 media @ f) max_count = Some (sender, media, parse_fci f max_count)"
  using net32.dec_at [of 4 "[0x81, 205, x, y]" sender "be32 media @ f"]
    net32.dec_at [of 8 "[0x81, 205, x, y] @ be32 sender" media f]
  by (simp add: nack_parse_rtcp_def)

text \<open>A generic NACK built from any list of sequence numbers fits the buffer it was given and
  leaves the rest of it alone, and the parser recovers from it both SSRCs and exactly the requested
  numbers, as a list when they are in serial order; building fails only for an empty list or a
  buffer too small.\<close>

theorem nack_rtcp_roundtrip:
  assumes "length sqs \<le> max_count"
  shows "case nack_build_rtcp sender media sqs buf of
      None \<Rightarrow> sqs = [] \<or> length buf < 12 + 4 * length sqs
    | Some (buf', n) \<Rightarrow> n \<le> length buf \<and> n mod 4 = 0 \<and> length buf' = length buf \<and> drop n buf' = drop n buf
        \<and> (\<exists>out. nack_parse_rtcp (take n buf') max_count = Some (sender, media, out)
             \<and> set out = set sqs \<and> length out \<le> length sqs \<and> (serial_sorted sqs \<longrightarrow> out = sqs))"
proof (cases "sqs = [] \<or> length buf < 12 + blocks_needed sqs * 4")
  case True
  have "blocks_needed sqs \<le> length sqs"
    by (induction sqs rule: blocks_needed.induct) (auto intro: order_trans)
  with True show ?thesis by (auto simp: nack_build_rtcp_def Let_def)
next
  case False
  then obtain buf' n where b: "nack_build_rtcp sender media sqs buf = Some (buf', n)"
    by (auto simp: nack_build_rtcp_def Let_def)
  from nack_build_bytes [OF b] obtain x y
    where "take n buf' = [0x81, 205, x, y] @ be32 sender @ be32 media @ fci_blocks sqs" by blast
  then have "nack_parse_rtcp (take n buf') max_count = Some (sender, media, parse_fci (fci_blocks sqs) max_count)"
    by (simp only: nack_parse_bytes)
  moreover have "n mod 4 = 0" "n \<le> length buf" "length buf' = length buf" "drop n buf' = drop n buf"
    using nack_build_bytes [OF b] by (auto simp: mod_add_eq [symmetric])
  ultimately show ?thesis using b fci_roundtrip [OF assms] by simp
qed

lemma nack_rtcp_roundtrip_witness:
  "length [65535, 0, 40 :: u16] \<le> 3 \<and> serial_sorted [65535, 0, 40]
   \<and> (\<exists>buf'. nack_build_rtcp 1 2 [65535, 0, 40] (replicate 30 0) = Some (buf', 20)
        \<and> nack_parse_rtcp (take 20 buf') 3 = Some (1, 2, [65535, 0, 40]))"
proof -
  have s: "serial_sorted [65535, 0, 40]" by code_simp
  have "case nack_build_rtcp 1 2 [65535, 0, 40] (replicate 30 0) of Some (_, n) \<Rightarrow> n = 20 | None \<Rightarrow> False"
    by code_simp
  with s nack_rtcp_roundtrip [where sqs = "[65535, 0, 40]" and max_count = 3 and sender = 1 and media = 2 and buf = "replicate 30 0"] show ?thesis
    by (auto split: option.splits)
qed

end
