(* ===== verification/Rtcp_Packet.thy ===== *)
theory Rtcp_Packet
  imports Nack
begin

text \<open>
  Compound RTCP packets, \<^verbatim>\<open>webrtc/src/rtc/rtp/rtcp_packet.c\<close>: the builders that append one RTCP packet
  to a compound buffer and the walker that splits a compound into its packets.  A builder is a
  function from the compound to the new compound, \<open>None\<close> for the return code -1 (the compound is then
  untouched).  The report blocks of an SR or RR are a nullable array: with \<open>None\<close> the code advances
  over the block area without writing it, and so does the model.  \<open>block_count\<close> is never negative.

  The locale \<open>compound_writer\<close> states what every builder promises (it appends exactly one framed
  packet or fails) and derives that a compound built by any sequence of builders is split by
  \<open>rtcp_compound_parse\<close> into exactly the packets that were added.
\<close>

section \<open>Packet structures\<close>

definition RTCP_SR :: nat where [simp]: "RTCP_SR = 200"
definition RTCP_RR :: nat where [simp]: "RTCP_RR = 201"
definition RTCP_RTPFB :: nat where [simp]: "RTCP_RTPFB = 205"
definition RTCP_PSFB :: nat where [simp]: "RTCP_PSFB = 206"
definition RTCP_NACK :: nat where [simp]: "RTCP_NACK = 1"
definition RTCP_PLI :: nat where [simp]: "RTCP_PLI = 1"
definition RTCP_FIR :: nat where [simp]: "RTCP_FIR = 4"
definition RTCP_REMB :: nat where [simp]: "RTCP_REMB = 15"

record rtcp_sr =
  sr_ssrc :: u32
  sr_ntp_sec :: u32
  sr_ntp_frac :: u32
  sr_rtp_ts :: u32
  sr_packet_count :: u32
  sr_octet_count :: u32

record rtcp_rr_block =
  rb_ssrc :: u32
  rb_fraction_lost :: u8
  rb_cumulative_lost :: "24 word"
  rb_extended_seq :: u32
  rb_jitter :: u32
  rb_lsr :: u32
  rb_dlsr :: u32

record rtcp_compound =
  cp_buffer :: bytes
  cp_offset :: nat

section \<open>Builders\<close>

definition rtcp_compound_init :: "bytes \<Rightarrow> rtcp_compound" where
  "rtcp_compound_init buffer = \<lparr>cp_buffer = buffer, cp_offset = 0\<rparr>"

text \<open>The four bytes written by \<open>rtcp_write_header\<close>, in \<open>int\<close> arithmetic cut to a byte.\<close>

definition rtcp_write_header :: "nat \<Rightarrow> nat \<Rightarrow> nat \<Rightarrow> nat \<Rightarrow> nat \<Rightarrow> bytes" where
  "rtcp_write_header version padding cnt type length_words =
     [ucast (push_bit 6 (word_of_nat version :: u32) OR push_bit 5 (word_of_nat padding)
             OR (word_of_nat cnt AND 0x1F)),
      word_of_nat type] @ be16 (word_of_nat (length_words - 1))"

text \<open>Store \<open>bs\<close> at \<open>compound->buffer + compound->offset + at\<close>.\<close>

definition poke :: "rtcp_compound \<Rightarrow> nat \<Rightarrow> bytes \<Rightarrow> rtcp_compound" where
  "poke c at bs = c\<lparr>cp_buffer := mem_write (cp_buffer c) (cp_offset c + at) bs\<rparr>"

definition advance :: "rtcp_compound \<Rightarrow> nat \<Rightarrow> rtcp_compound" where
  "advance c n = c\<lparr>cp_offset := cp_offset c + n\<rparr>"

definition block_bytes :: "rtcp_rr_block \<Rightarrow> bytes" where
  "block_bytes b =
     (let loss_word = push_bit 24 (ucast (rb_fraction_lost b)) OR (ucast (rb_cumulative_lost b) AND 0x00FFFFFF)
      in be32 (rb_ssrc b) @ be32 loss_word @ be32 (rb_extended_seq b) @ be32 (rb_jitter b)
         @ be32 (rb_lsr b) @ be32 (rb_dlsr b))"

text \<open>The loop over the report blocks; it writes nothing when the array is \<open>NULL\<close>.\<close>

definition blocks_bytes :: "rtcp_rr_block list option \<Rightarrow> nat \<Rightarrow> bytes" where
  "blocks_bytes blocks block_count =
     (case blocks of None \<Rightarrow> [] | Some bs \<Rightarrow> concat (map block_bytes (take block_count bs)))"

definition rtcp_compound_add_sr ::
  "rtcp_compound \<Rightarrow> rtcp_sr \<Rightarrow> rtcp_rr_block list option \<Rightarrow> nat \<Rightarrow> rtcp_compound option" where
  "rtcp_compound_add_sr c sr blocks block_count =
     (let block_size = block_count * 24; total_size = 4 + 24 + block_size;
          length_words = (24 + block_size) div 4
      in if cp_offset c + total_size > length (cp_buffer c) then None
         else Some (advance (poke c 0
                (rtcp_write_header 2 0 block_count RTCP_SR (length_words + 1)
                 @ be32 (sr_ssrc sr) @ be32 (sr_ntp_sec sr) @ be32 (sr_ntp_frac sr) @ be32 (sr_rtp_ts sr)
                 @ be32 (sr_packet_count sr) @ be32 (sr_octet_count sr)
                 @ blocks_bytes blocks block_count)) total_size))"

definition rtcp_compound_add_rr ::
  "rtcp_compound \<Rightarrow> u32 \<Rightarrow> rtcp_rr_block list option \<Rightarrow> nat \<Rightarrow> rtcp_compound option" where
  "rtcp_compound_add_rr c src blocks block_count =
     (let block_size = block_count * 24; total_size = 4 + 4 + block_size;
          length_words = (4 + block_size) div 4
      in if cp_offset c + total_size > length (cp_buffer c) then None
         else Some (advance (poke c 0
                (rtcp_write_header 2 0 block_count RTCP_RR (length_words + 1)
                 @ be32 src @ blocks_bytes blocks block_count)) total_size))"

definition rtcp_compound_add_nack ::
  "rtcp_compound \<Rightarrow> u32 \<Rightarrow> u32 \<Rightarrow> u16 \<Rightarrow> u16 \<Rightarrow> rtcp_compound option" where
  "rtcp_compound_add_nack c sender_ssrc media_ssrc pid blp =
     (if cp_offset c + 16 > length (cp_buffer c) then None
      else Some (advance (poke c 0 (rtcp_write_header 2 0 RTCP_NACK RTCP_RTPFB 4
             @ be32 sender_ssrc @ be32 media_ssrc @ be16 pid @ be16 blp)) 16))"

definition rtcp_compound_add_pli :: "rtcp_compound \<Rightarrow> u32 \<Rightarrow> u32 \<Rightarrow> rtcp_compound option" where
  "rtcp_compound_add_pli c sender_ssrc media_ssrc =
     (if cp_offset c + 12 > length (cp_buffer c) then None
      else Some (advance (poke c 0 (rtcp_write_header 2 0 RTCP_PLI RTCP_PSFB 3
             @ be32 sender_ssrc @ be32 media_ssrc)) 12))"

definition rtcp_compound_add_fir :: "rtcp_compound \<Rightarrow> u32 \<Rightarrow> u32 \<Rightarrow> u8 \<Rightarrow> rtcp_compound option" where
  "rtcp_compound_add_fir c sender_ssrc media_ssrc seq_nr =
     (if cp_offset c + 20 > length (cp_buffer c) then None
      else Some (advance (poke c 0 (rtcp_write_header 2 0 RTCP_FIR RTCP_PSFB 5
             @ be32 sender_ssrc @ be32 media_ssrc @ be32 media_ssrc @ [seq_nr, 0, 0, 0])) 20))"

text \<open>\<open>while (mantissa > 0x3FFFF && exp < 63) { mantissa >>= 1; exp++; }\<close>\<close>

function remb_normalise :: "u32 \<Rightarrow> nat \<Rightarrow> u32 \<times> nat" where
  "remb_normalise mantissa e =
     (if mantissa > 0x3FFFF \<and> e < 63 then remb_normalise (drop_bit 1 mantissa) (e + 1) else (mantissa, e))"
  by pat_completeness auto
termination
  by (relation "measure (\<lambda>(_, e). 63 - e)") auto

declare remb_normalise.simps [simp del]

definition remb_rate_bytes :: "u32 \<Rightarrow> bytes" where
  "remb_rate_bytes bitrate =
     (let (mantissa, e) = remb_normalise bitrate 0
      in [1, ucast (push_bit 2 (word_of_nat e :: u32) OR (drop_bit 16 mantissa AND 0x03)),
          ucast (drop_bit 8 mantissa AND 0xFF), ucast (mantissa AND 0xFF)])"

definition rtcp_compound_add_remb :: "rtcp_compound \<Rightarrow> u32 \<Rightarrow> u32 \<Rightarrow> u32 \<Rightarrow> rtcp_compound option" where
  "rtcp_compound_add_remb c sender_ssrc media_ssrc bitrate =
     (if cp_offset c + 24 > length (cp_buffer c) then None
      else Some (advance (poke c 0 (rtcp_write_header 2 0 RTCP_REMB RTCP_PSFB 6
             @ be32 sender_ssrc @ be32 0 @ [0x52, 0x45, 0x4D, 0x42]
             @ remb_rate_bytes bitrate @ be32 media_ssrc)) 24))"

definition rtcp_compound_finish :: "rtcp_compound \<Rightarrow> nat" where
  "rtcp_compound_finish c = cp_offset c"

section \<open>Walker\<close>

text \<open>The loop of \<open>rtcp_compound_parse\<close> from one packet on: the \<open>(type, packet)\<close> pairs it passes to the
  callback.\<close>

function split_packets :: "bytes \<Rightarrow> (u8 \<times> bytes) list" where
  "split_packets p =
     (if 4 \<le> length p
      then let length_bytes = (unat (read_u16 p 2) + 1) * 4
           in if drop_bit 6 (p ! 0) AND 0x03 \<noteq> 2 then []
              else if length_bytes > length p then []
              else (p ! 1, take length_bytes p) # split_packets (drop length_bytes p)
      else [])"
  by pat_completeness auto
termination
  by (relation "measure length") auto

declare split_packets.simps [simp del]

definition rtcp_compound_parse :: "bytes \<Rightarrow> 'cb option \<Rightarrow> (nat \<times> ('cb \<times> u8 \<times> bytes) list) option" where
  "rtcp_compound_parse buffer callback =
     (if length buffer < 4 then None
      else let ps = split_packets buffer
           in Some (length ps, case callback of None \<Rightarrow> [] | Some cb \<Rightarrow> map (Pair cb) ps))"

section \<open>Framing\<close>

definition framed :: "bytes \<Rightarrow> bool" where
  "framed p \<longleftrightarrow> 4 \<le> length p \<and> drop_bit 6 (p ! 0) AND 0x03 = 2 \<and> length p = (unat (read_u16 p 2) + 1) * 4"

lemma header_length [simp]: "length (rtcp_write_header v p n t l) = 4"
  by (simp add: rtcp_write_header_def)

lemma header_nth [simp]:
  "rtcp_write_header 2 0 n t l ! 0 = 0x80 OR (word_of_nat n AND 0x1F)"
  "rtcp_write_header v p n t l ! Suc 0 = word_of_nat t"
proof -
  have "ucast (push_bit 6 (2 :: u32) OR (w AND 0x1F)) = (0x80 OR (ucast w AND 0x1F) :: u8)" for w :: u32
    by (rule bit_word_eqI) (auto simp: bit_simps word_masks)
  moreover have "ucast (word_of_nat n :: u32) = (word_of_nat n :: u8)"
    by (rule bit_word_eqI) (simp add: bit_simps)
  ultimately show "rtcp_write_header 2 0 n t l ! 0 = 0x80 OR (word_of_nat n AND 0x1F)"
    by (simp add: rtcp_write_header_def del: push_bit_numeral)
qed (simp add: rtcp_write_header_def)

lemma header_version: "drop_bit 6 (0x80 OR (w AND 0x1F) :: u8) AND 0x03 = 2"
proof -
  have "drop_bit 6 (0x80 OR (w AND 0x1F) :: u8) AND 0x03 = drop_bit 6 0x80 AND 0x03"
    by (rule bit_word_eqI) (auto simp: bit_simps word_masks)
  then show ?thesis by simp
qed

lemma framed_header:
  "length r + 4 = 4 * lw \<Longrightarrow> lw \<le> 65536 \<Longrightarrow> framed (rtcp_write_header 2 0 n t lw @ r)"
proof -
  assume h: "length r + 4 = 4 * lw" "lw \<le> 65536"
  have "read_u16 (rtcp_write_header 2 0 n t lw @ r) 2 = word_of_nat (lw - 1)"
    using net16.dec_at [of 2 "take 2 (rtcp_write_header 2 0 n t lw)" "word_of_nat (lw - 1)" r]
    by (simp add: rtcp_write_header_def)
  moreover obtain m where m: "lw = Suc m" using h by (cases lw) auto
  then have "unat (word_of_nat m :: u16) = m" using h by (simp add: unsigned_of_nat take_bit_nat_eq_self)
  then have "unat (word_of_nat (lw - 1) :: u16) = lw - 1" unfolding m by simp
  ultimately show ?thesis using h by (auto simp: framed_def nth_append header_version)
qed

lemma split_packets_framed:
  "framed p \<Longrightarrow> split_packets (p @ r) = (p ! 1, p) # split_packets r"
  by (subst split_packets.simps) (auto simp: framed_def nth_append read_u16_def)

lemma split_packets_concat:
  "\<forall>p\<in>set ps. framed p \<Longrightarrow> split_packets (concat ps) = map (\<lambda>p. (p ! 1, p)) ps"
proof (induction ps)
  case Nil
  then show ?case by (simp add: split_packets.simps)
qed (simp add: split_packets_framed)

text \<open>What the walker guarantees on any input, well formed or not: the packets it reports are
  framed, they are a prefix of the buffer cut at the length fields, and it stops only where no
  further framed packet starts.\<close>

lemma split_packets_prefix:
  "\<exists>rest. p = concat (map snd (split_packets p)) @ rest
     \<and> (\<forall>(t, q)\<in>set (split_packets p). framed q \<and> t = q ! 1)
     \<and> \<not> (\<exists>q r. rest = q @ r \<and> framed q)"
proof (induction p rule: split_packets.induct)
  case (1 p)
  let ?n = "(unat (read_u16 p 2) + 1) * 4"
  show ?case
  proof (cases "4 \<le> length p \<and> drop_bit 6 (p ! 0) AND 0x03 = 2 \<and> ?n \<le> length p")
    case True
    then have sp: "split_packets p = (p ! 1, take ?n p) # split_packets (drop ?n p)"
      by (subst split_packets.simps) (simp add: Let_def)
    have fr: "framed (take ?n p)" using True by (simp add: framed_def read_u16_def)
    from 1 True obtain rest where r: "drop ?n p = concat (map snd (split_packets (drop ?n p))) @ rest"
      "\<forall>(t, q)\<in>set (split_packets (drop ?n p)). framed q \<and> t = q ! 1"
      "\<not> (\<exists>q r. rest = q @ r \<and> framed q)"
      by auto
    have "p = take ?n p @ concat (map snd (split_packets (drop ?n p))) @ rest"
      using r(1) by (metis append_take_drop_id)
    with sp fr r True show ?thesis by (intro exI [of _ rest]) (simp add: ac_simps)
  next
    case False
    then have "split_packets p = []" by (subst split_packets.simps) (auto simp: Let_def)
    moreover have "\<not> framed q" if "p = q @ r" for q r
      using False that by (cases "q = []") (auto simp: framed_def nth_append read_u16_def)
    ultimately show ?thesis by auto
  qed
qed

text \<open>Splitting any received buffer reports a sequence of complete packets (version 2, length
  as the length field says) that together are a prefix of the buffer, in order and without gaps;
  it stops only when what is left does not start with a complete packet; the return value is the
  number of packets, and the call fails only on a buffer shorter than a header.\<close>

theorem rtcp_parse_splits:
  "(rtcp_compound_parse buf cb = None \<longleftrightarrow> length buf < 4)
   \<and> (4 \<le> length buf \<longrightarrow> (\<exists>ps rest. rtcp_compound_parse buf (Some u) = Some (length ps, map (\<lambda>p. (u, p ! 1, p)) ps)
        \<and> buf = concat ps @ rest \<and> (\<forall>p\<in>set ps. framed p) \<and> \<not> (\<exists>q r. rest = q @ r \<and> framed q)))"
proof (intro conjI impI)
  show "rtcp_compound_parse buf cb = None \<longleftrightarrow> length buf < 4"
    by (simp add: rtcp_compound_parse_def Let_def)
  assume l: "4 \<le> length buf"
  from split_packets_prefix [of buf] obtain rest where r: "buf = concat (map snd (split_packets buf)) @ rest"
    "\<forall>(t, q)\<in>set (split_packets buf). framed q \<and> t = q ! 1" "\<not> (\<exists>q r. rest = q @ r \<and> framed q)"
    by blast
  have "map (Pair u) (split_packets buf) = map (\<lambda>p. (u, p ! 1, p)) (map snd (split_packets buf))"
    using r(2) by (auto simp: comp_def intro!: map_cong)
  with l r show "\<exists>ps rest. rtcp_compound_parse buf (Some u) = Some (length ps, map (\<lambda>p. (u, p ! 1, p)) ps)
        \<and> buf = concat ps @ rest \<and> (\<forall>p\<in>set ps. framed p) \<and> \<not> (\<exists>q r. rest = q @ r \<and> framed q)"
    by (intro exI [of _ "map snd (split_packets buf)"] exI [of _ rest])
      (auto simp: rtcp_compound_parse_def Let_def)
qed

lemma rtcp_parse_splits_witness:
  "\<exists>ps rest. rtcp_compound_parse [0x81, 206, 0, 2, 0, 0, 0, 1, 0, 0, 0, 2, 0x80, 201] (Some ())
      = Some (length ps, map (\<lambda>p. ((), p ! 1, p)) ps)
    \<and> [0x81, 206, 0, 2, 0, 0, 0, 1, 0, 0, 0, 2, 0x80, 201] = concat ps @ rest"
  using rtcp_parse_splits [of "[0x81, 206, 0, 2, 0, 0, 0, 1, 0, 0, 0, 2, 0x80, 201]" None "()"] by auto

section \<open>The contract of a builder\<close>

primrec add_all :: "('i \<Rightarrow> rtcp_compound \<Rightarrow> rtcp_compound option) \<Rightarrow> 'i list \<Rightarrow> rtcp_compound \<Rightarrow> rtcp_compound option" where
  "add_all add [] c = Some c"
| "add_all add (i # is) c = (case add i c of None \<Rightarrow> None | Some c' \<Rightarrow> add_all add is c')"

definition appended :: "rtcp_compound \<Rightarrow> bytes \<Rightarrow> rtcp_compound \<Rightarrow> bool" where
  "appended c bs c' \<longleftrightarrow> cp_offset c + length bs \<le> length (cp_buffer c) \<and> c' = advance (poke c 0 bs) (length bs)"

lemma appended_trans: "appended c as c' \<Longrightarrow> appended c' bs c'' \<Longrightarrow> appended c (as @ bs) c''"
  by (auto simp: appended_def advance_def poke_def mem_write_append)

lemma appended_init:
  "appended (rtcp_compound_init buf) bs c \<Longrightarrow>
   take (rtcp_compound_finish c) (cp_buffer c) = bs \<and> rtcp_compound_finish c = length bs
   \<and> length (cp_buffer c) = length buf \<and> drop (rtcp_compound_finish c) (cp_buffer c) = drop (length bs) buf"
  by (auto simp: appended_def advance_def poke_def rtcp_compound_init_def rtcp_compound_finish_def mem_write_0)

locale compound_writer =
  fixes add :: "'i \<Rightarrow> rtcp_compound \<Rightarrow> rtcp_compound option"
    and valid :: "'i \<Rightarrow> bool" and kind :: "'i \<Rightarrow> u8" and room :: "'i \<Rightarrow> nat"
  assumes add_framed: "valid i \<Longrightarrow> add i c = Some c' \<Longrightarrow>
      \<exists>p. framed p \<and> p ! 1 = kind i \<and> length p = room i \<and> appended c p c'"
    and add_fails: "valid i \<Longrightarrow> add i c = None \<longleftrightarrow> length (cp_buffer c) < cp_offset c + room i"
begin

lemma add_all_appends:
  "list_all valid is \<Longrightarrow> cp_offset c \<le> length (cp_buffer c) \<Longrightarrow> add_all add is c = Some c' \<Longrightarrow>
   \<exists>ps. length ps = length is \<and> (\<forall>p\<in>set ps. framed p) \<and> map (\<lambda>p. p ! 1) ps = map kind is
      \<and> map length ps = map room is \<and> appended c (concat ps) c'"
proof (induction "is" arbitrary: c)
  case Nil
  then show ?case by (simp add: appended_def advance_def poke_def mem_write_def)
next
  case (Cons i "is")
  then obtain c1 where c1: "add i c = Some c1" "add_all add is c1 = Some c'" by (auto split: option.splits)
  with Cons.prems obtain p where p: "framed p" "p ! 1 = kind i" "length p = room i" "appended c p c1"
    using add_framed by (metis list.pred_inject(2))
  then have "cp_offset c1 \<le> length (cp_buffer c1)"
    by (auto simp: appended_def advance_def poke_def)
  with Cons c1 obtain ps where "length ps = length is" "\<forall>p\<in>set ps. framed p"
    "map (\<lambda>p. p ! 1) ps = map kind is" "map length ps = map room is" "appended c1 (concat ps) c'"
    by (metis list.pred_inject(2))
  with p show ?case by (intro exI [of _ "p # ps"]) (auto intro: appended_trans)
qed

lemma add_all_room:
  "list_all valid is \<Longrightarrow> cp_offset c + sum_list (map room is) \<le> length (cp_buffer c) \<Longrightarrow> add_all add is c \<noteq> None"
proof (induction "is" arbitrary: c)
  case (Cons i "is")
  then obtain c1 where c1: "add i c = Some c1" using add_fails [of i c] by fastforce
  with Cons.prems obtain p where "length p = room i" "appended c p c1"
    using add_framed by (metis list.pred_inject(2))
  with Cons c1 show ?case by (auto simp: appended_def advance_def poke_def)
qed simp

lemma compound_roundtrip:
  assumes "list_all valid is" "is \<noteq> []"
  shows "case add_all add is (rtcp_compound_init buf) of
       None \<Rightarrow> length buf < sum_list (map room is)
     | Some c \<Rightarrow> rtcp_compound_finish c = sum_list (map room is) \<and> length (cp_buffer c) = length buf
         \<and> drop (rtcp_compound_finish c) (cp_buffer c) = drop (rtcp_compound_finish c) buf
         \<and> (\<exists>ps. rtcp_compound_parse (take (rtcp_compound_finish c) (cp_buffer c)) (Some u)
                 = Some (length is, zip (replicate (length is) u) (zip (map kind is) ps))
               \<and> length ps = length is \<and> (\<forall>p\<in>set ps. framed p))"
proof (cases "add_all add is (rtcp_compound_init buf)")
  case None
  then show ?thesis
    using add_all_room [OF assms(1), of "rtcp_compound_init buf"] by (force simp: rtcp_compound_init_def)
next
  case (Some c)
  then obtain ps where ps: "length ps = length is" "\<forall>p\<in>set ps. framed p" "map (\<lambda>p. p ! 1) ps = map kind is"
    "map length ps = map room is" "appended (rtcp_compound_init buf) (concat ps) c"
    using add_all_appends [OF assms(1)] by (force simp: rtcp_compound_init_def)
  note fin = appended_init [OF ps(5)]
  have l: "length (concat ps) = sum_list (map room is)" unfolding ps(4) [symmetric] by (simp add: length_concat)
  have "ps \<noteq> []" using ps(1) assms(2) by auto
  then have "4 \<le> length (concat ps)" using ps(2) by (cases ps) (auto simp: framed_def)
  then have "rtcp_compound_parse (concat ps) (Some u)
      = Some (length is, map (\<lambda>p. (u, p ! 1, p)) ps)"
    using ps(1) by (simp add: rtcp_compound_parse_def split_packets_concat [OF ps(2)] Let_def comp_def)
  also have "map (\<lambda>p. (u, p ! 1, p)) ps = zip (replicate (length is) u) (zip (map kind is) ps)"
    unfolding ps(3) [symmetric] ps(1) [symmetric] by (rule nth_equalityI) simp_all
  finally show ?thesis using Some fin l ps(1,2) by auto
qed

end

section \<open>The builders keep the contract\<close>

datatype rtcp_item =
    Item_SR rtcp_sr "rtcp_rr_block list option" nat
  | Item_RR u32 "rtcp_rr_block list option" nat
  | Item_NACK u32 u32 u16 u16
  | Item_PLI u32 u32
  | Item_FIR u32 u32 u8
  | Item_REMB u32 u32 u32

fun rtcp_add :: "rtcp_item \<Rightarrow> rtcp_compound \<Rightarrow> rtcp_compound option" where
  "rtcp_add (Item_SR sr bs n) c = rtcp_compound_add_sr c sr bs n"
| "rtcp_add (Item_RR src bs n) c = rtcp_compound_add_rr c src bs n"
| "rtcp_add (Item_NACK a b pid blp) c = rtcp_compound_add_nack c a b pid blp"
| "rtcp_add (Item_PLI a b) c = rtcp_compound_add_pli c a b"
| "rtcp_add (Item_FIR a b n) c = rtcp_compound_add_fir c a b n"
| "rtcp_add (Item_REMB a b r) c = rtcp_compound_add_remb c a b r"

text \<open>A report carries at most 31 blocks (the count field has five bits), and the array holds them.\<close>

fun item_valid :: "rtcp_item \<Rightarrow> bool" where
  "item_valid (Item_SR sr bs n) = (n \<le> 31 \<and> (\<forall>b. bs = Some b \<longrightarrow> n \<le> length b))"
| "item_valid (Item_RR src bs n) = (n \<le> 31 \<and> (\<forall>b. bs = Some b \<longrightarrow> n \<le> length b))"
| "item_valid _ = True"

fun item_kind :: "rtcp_item \<Rightarrow> u8" where
  "item_kind (Item_SR sr bs n) = 200"
| "item_kind (Item_RR src bs n) = 201"
| "item_kind (Item_NACK a b pid blp) = 205"
| "item_kind _ = 206"

fun item_size :: "rtcp_item \<Rightarrow> nat" where
  "item_size (Item_SR sr bs n) = 28 + n * 24"
| "item_size (Item_RR src bs n) = 8 + n * 24"
| "item_size (Item_NACK a b pid blp) = 16"
| "item_size (Item_PLI a b) = 12"
| "item_size (Item_FIR a b n) = 20"
| "item_size (Item_REMB a b r) = 24"

lemma mem_write_stale:
  "off + length xs + k \<le> length buf \<Longrightarrow>
   mem_write buf off (xs @ take k (drop (off + length xs) buf)) = mem_write buf off xs"
  by (simp add: mem_write_def) (metis add.commute append_take_drop_id drop_drop)

lemma block_bytes_length [simp]: "length (block_bytes b) = 24"
  by (simp add: block_bytes_def Let_def)

text \<open>The area of the report blocks: the encoded blocks, or what was in the buffer when the array is
  \<open>NULL\<close>.\<close>

definition block_area :: "bytes \<Rightarrow> nat \<Rightarrow> rtcp_rr_block list option \<Rightarrow> nat \<Rightarrow> bytes" where
  "block_area buf off bs n = (case bs of None \<Rightarrow> take (n * 24) (drop off buf) | Some _ \<Rightarrow> blocks_bytes bs n)"

lemma blocks_bytes_length: "n \<le> length b \<Longrightarrow> length (blocks_bytes (Some b) n) = n * 24"
proof -
  have "length (concat (map block_bytes xs)) = length xs * 24" for xs by (induction xs) simp_all
  then show "n \<le> length b \<Longrightarrow> ?thesis" by (simp add: blocks_bytes_def)
qed

lemma poke_blocks:
  assumes "cp_offset c + (length h + n * 24) \<le> length (cp_buffer c)" "\<forall>b. bs = Some b \<longrightarrow> n \<le> length b"
  shows "appended c (h @ block_area (cp_buffer c) (cp_offset c + length h) bs n)
      (advance (poke c 0 (h @ blocks_bytes bs n)) (length h + n * 24))
    \<and> length (block_area (cp_buffer c) (cp_offset c + length h) bs n) = n * 24"
proof (cases bs)
  case None
  with assms show ?thesis
    using mem_write_stale [of "cp_offset c" h "n * 24" "cp_buffer c"]
    by (simp add: appended_def block_area_def poke_def advance_def blocks_bytes_def)
next
  case (Some b)
  with assms show ?thesis
    by (simp add: appended_def block_area_def blocks_bytes_length advance_def)
qed

lemma remb_rate_bytes_length [simp]: "length (remb_rate_bytes r) = 4"
  by (simp add: remb_rate_bytes_def split_beta)

lemma rtcp_add_framed:
  assumes "item_valid i" "rtcp_add i c = Some c'"
  shows "\<exists>p. framed p \<and> p ! 1 = item_kind i \<and> length p = item_size i \<and> appended c p c'"
proof -
  have fixed: "\<exists>p. framed p \<and> p ! 1 = item_kind i \<and> length p = item_size i \<and> appended c p c'"
    if "item_kind i = word_of_nat t" "item_size i = n" "c' = advance (poke c 0 (rtcp_write_header 2 0 k t lw @ r)) n" "length r + 4 = n" "n = 4 * lw"
      "lw \<le> 65536" "cp_offset c + n \<le> length (cp_buffer c)" for k t lw r n
    using that framed_header [of r lw k t]
    by (intro exI [of _ "rtcp_write_header 2 0 k t lw @ r"]) (auto simp: nth_append appended_def add.commute)
  show ?thesis
  proof (cases i)
    case (Item_SR sr bs n)
    let ?h = "rtcp_write_header 2 0 n 200 ((24 + n * 24) div 4 + 1) @ be32 (sr_ssrc sr) @ be32 (sr_ntp_sec sr)
      @ be32 (sr_ntp_frac sr) @ be32 (sr_rtp_ts sr) @ be32 (sr_packet_count sr) @ be32 (sr_octet_count sr)"
    let ?a = "block_area (cp_buffer c) (cp_offset c + length ?h) bs n"
    have "appended c (?h @ ?a) c' \<and> length ?a = n * 24"
      using poke_blocks [of c ?h n bs] assms Item_SR
      by (simp add: rtcp_compound_add_sr_def Let_def split: if_splits)
    moreover from this have "framed (?h @ ?a)"
      using assms(1) Item_SR framed_header [of "drop 4 ?h @ ?a" "(24 + n * 24) div 4 + 1" n 200] by simp
    ultimately show ?thesis using Item_SR by (intro exI [of _ "?h @ ?a"]) (simp add: nth_append)
  next
    case (Item_RR src bs n)
    let ?h = "rtcp_write_header 2 0 n 201 ((4 + n * 24) div 4 + 1) @ be32 src"
    let ?a = "block_area (cp_buffer c) (cp_offset c + length ?h) bs n"
    have "appended c (?h @ ?a) c' \<and> length ?a = n * 24"
      using poke_blocks [of c ?h n bs] assms Item_RR
      by (simp add: rtcp_compound_add_rr_def Let_def split: if_splits)
    moreover from this have "framed (?h @ ?a)"
      using assms(1) Item_RR framed_header [of "drop 4 ?h @ ?a" "(4 + n * 24) div 4 + 1" n 201] by simp
    ultimately show ?thesis using Item_RR by (intro exI [of _ "?h @ ?a"]) (simp add: nth_append)
  next
    case (Item_NACK a b pid blp)
    with assms have w: "c' = advance (poke c 0 (rtcp_write_header 2 0 1 205 4 @ be32 a @ be32 b @ be16 pid @ be16 blp)) 16"
      "cp_offset c + 16 \<le> length (cp_buffer c)"
      by (simp_all add: rtcp_compound_add_nack_def split: if_splits)
    from w(1) show ?thesis by (rule fixed [rotated 2]) (use w(2) Item_NACK in simp_all)
  next
    case (Item_PLI a b)
    with assms have w: "c' = advance (poke c 0 (rtcp_write_header 2 0 1 206 3 @ be32 a @ be32 b)) 12"
      "cp_offset c + 12 \<le> length (cp_buffer c)"
      by (simp_all add: rtcp_compound_add_pli_def split: if_splits)
    from w(1) show ?thesis by (rule fixed [rotated 2]) (use w(2) Item_PLI in simp_all)
  next
    case (Item_FIR a b n)
    with assms have w: "c' = advance (poke c 0 (rtcp_write_header 2 0 4 206 5 @ be32 a @ be32 b @ be32 b @ [n, 0, 0, 0])) 20"
      "cp_offset c + 20 \<le> length (cp_buffer c)"
      by (simp_all add: rtcp_compound_add_fir_def split: if_splits)
    from w(1) show ?thesis by (rule fixed [rotated 2]) (use w(2) Item_FIR in simp_all)
  next
    case (Item_REMB a b r)
    with assms have w: "c' = advance (poke c 0 (rtcp_write_header 2 0 15 206 6 @ be32 a @ be32 0 @ [0x52, 0x45, 0x4D, 0x42] @ remb_rate_bytes r @ be32 b)) 24"
      "cp_offset c + 24 \<le> length (cp_buffer c)"
      by (simp_all add: rtcp_compound_add_remb_def split: if_splits)
    from w(1) show ?thesis by (rule fixed [rotated 2]) (use w(2) Item_REMB in simp_all)
  qed
qed

interpretation rtcp_writer: compound_writer rtcp_add item_valid item_kind item_size
proof
  fix i c c'
  assume v: "item_valid i"
  then show "rtcp_add i c = Some c' \<Longrightarrow>
      \<exists>p. framed p \<and> p ! 1 = item_kind i \<and> length p = item_size i \<and> appended c p c'"
    by (rule rtcp_add_framed)
  show "rtcp_add i c = None \<longleftrightarrow> length (cp_buffer c) < cp_offset c + item_size i"
    by (cases i) (auto simp: rtcp_compound_add_sr_def rtcp_compound_add_rr_def rtcp_compound_add_nack_def
        rtcp_compound_add_pli_def rtcp_compound_add_fir_def rtcp_compound_add_remb_def Let_def)
qed

text \<open>C33. A compound built from any sequence of reports and feedback messages either does not fit
  the buffer, or occupies exactly the sum of the packet sizes, leaves the bytes behind it alone,
  and is split by the receiver's parser into exactly one packet per message, of its type, in order.\<close>

theorem rtcp_compound_roundtrip:
  assumes "list_all item_valid is" "is \<noteq> []"
  shows "case add_all rtcp_add is (rtcp_compound_init buf) of
       None \<Rightarrow> length buf < sum_list (map item_size is)
     | Some c \<Rightarrow> rtcp_compound_finish c = sum_list (map item_size is) \<and> length (cp_buffer c) = length buf
         \<and> drop (rtcp_compound_finish c) (cp_buffer c) = drop (rtcp_compound_finish c) buf
         \<and> (\<exists>ps. rtcp_compound_parse (take (rtcp_compound_finish c) (cp_buffer c)) (Some u)
                 = Some (length is, zip (replicate (length is) u) (zip (map item_kind is) ps))
               \<and> length ps = length is \<and> (\<forall>p\<in>set ps. framed p))"
  using assms by (rule rtcp_writer.compound_roundtrip)

lemma rtcp_compound_roundtrip_witness:
  "\<exists>c. add_all rtcp_add [Item_RR 1 None 2, Item_REMB 1 2 3000000, Item_PLI 1 2]
          (rtcp_compound_init (replicate 100 0)) = Some c \<and> rtcp_compound_finish c = 92"
  using rtcp_compound_roundtrip [of "[Item_RR 1 None 2, Item_REMB 1 2 3000000, Item_PLI 1 2]" "replicate 100 0" "()"]
  by (cases "add_all rtcp_add [Item_RR 1 None 2, Item_REMB 1 2 3000000, Item_PLI 1 2]
        (rtcp_compound_init (replicate 100 0))") (simp_all del: add_all.simps)

end
