(* ===== verification/Twcc_Wire.thy ===== *)
theory Twcc_Wire
  imports Rtcp_Packet
begin

text \<open>
  The wire format of transport-wide congestion control feedback, the serialisation half of
  \<^verbatim>\<open>webrtc/src/rtc/rtp/twcc.c\<close>: packet-status chunks (run length, one-bit and two-bit vectors), receive
  deltas, \<open>rtcp_compound_add_twcc\<close> and \<open>rtcp_parse_twcc\<close>.  The live part of \<open>packets[8192]\<close> is a list
  whose length is \<open>num_packets\<close>; the local arrays \<open>symbols\<close>, \<open>deltas\<close> and \<open>chunks\<close> are lists.
  The \<open>int64_t\<close> differences of arrival times are integers: they are differences of microsecond clock
  readings, far from the limits of the type.
\<close>

section \<open>Message\<close>

definition RTCP_TWCC_MAX_PACKETS :: nat where "RTCP_TWCC_MAX_PACKETS = 8192"
definition TWCC_DELTA_SCALE_US :: int where [simp]: "TWCC_DELTA_SCALE_US = 250"
definition TWCC_REF_TIME_SCALE_US :: u64 where "TWCC_REF_TIME_SCALE_US = 64000"
definition RTCP_RTPFB_TWCC :: nat where [simp]: "RTCP_RTPFB_TWCC = 15"

definition TWCC_SYMBOL_NOT_RECEIVED :: u8 where [simp]: "TWCC_SYMBOL_NOT_RECEIVED = 0"
definition TWCC_SYMBOL_SMALL_DELTA :: u8 where [simp]: "TWCC_SYMBOL_SMALL_DELTA = 1"
definition TWCC_SYMBOL_LARGE_DELTA :: u8 where [simp]: "TWCC_SYMBOL_LARGE_DELTA = 2"
definition TWCC_SYMBOL_RESERVED :: u8 where [simp]: "TWCC_SYMBOL_RESERVED = 3"

record twcc_packet_status =
  ps_seq :: u16
  ps_arrival :: u64
  ps_received :: bool

record rtcp_twcc =
  tw_sender_ssrc :: u32
  tw_media_ssrc :: u32
  tw_base_seq :: u16
  tw_packet_count :: u16
  tw_reference_time :: u32
  tw_fb_pkt_count :: u8
  tw_packets :: "twcc_packet_status list"

definition div_round_nearest_i64 :: "int \<Rightarrow> int \<Rightarrow> int" where
  "div_round_nearest_i64 val divisor =
     (if val \<ge> 0 then cdiv (val + cdiv divisor 2) divisor else - cdiv (- val + cdiv divisor 2) divisor)"

section \<open>Status chunks\<close>

definition twcc_can_use_one_bit_vector :: "u8 list \<Rightarrow> bool" where
  "twcc_can_use_one_bit_vector symbols \<longleftrightarrow>
     list_all (\<lambda>s. s = TWCC_SYMBOL_NOT_RECEIVED \<or> s = TWCC_SYMBOL_SMALL_DELTA) symbols"

text \<open>\<open>while (i + run_len < status_count && run_len < 0x1FFF && symbols[i + run_len] == symbols[i])\<close>\<close>

fun run_length :: "u8 \<Rightarrow> nat \<Rightarrow> u8 list \<Rightarrow> nat" where
  "run_length s n [] = n"
| "run_length s n (x # xs) = (if n < 0x1FFF \<and> x = s then run_length s (n + 1) xs else n)"

fun one_bit_chunk :: "nat \<Rightarrow> u8 list \<Rightarrow> u16 \<Rightarrow> u16" where
  "one_bit_chunk j [] chunk = chunk"
| "one_bit_chunk j (s # ss) chunk =
     one_bit_chunk (j + 1) ss (if s = TWCC_SYMBOL_SMALL_DELTA then chunk OR push_bit (13 - j) 1 else chunk)"

fun two_bit_chunk :: "nat \<Rightarrow> u8 list \<Rightarrow> u16 \<Rightarrow> u16" where
  "two_bit_chunk j [] chunk = chunk"
| "two_bit_chunk j (s # ss) chunk = two_bit_chunk (j + 1) ss (chunk OR push_bit (12 - j * 2) (ucast s))"

text \<open>The next chunk and the number of symbols it covers.\<close>

definition next_chunk :: "u8 list \<Rightarrow> u16 \<times> nat" where
  "next_chunk symbols =
     (let run_len = run_length (hd symbols) 1 (tl symbols)
      in if run_len \<ge> 7
         then (push_bit 13 (ucast (hd symbols)) OR word_of_nat run_len, run_len)
         else let vector_len = min (length symbols) 14
              in if twcc_can_use_one_bit_vector (take vector_len symbols)
                 then (one_bit_chunk 0 (take vector_len symbols) 0x8000, vector_len)
                 else let vector_len = min (length symbols) 7
                      in (two_bit_chunk 0 (take vector_len symbols) 0xC000, vector_len))"

text \<open>The loop with the chunks stored so far; the empty list stands for the return value 0, with
  which the code reports that \<open>max_chunks\<close> is exceeded.\<close>

lemma run_length_ge: "n \<le> run_length s n xs"
  by (induction s n xs rule: run_length.induct) auto

lemma next_chunk_pos: "symbols \<noteq> [] \<Longrightarrow> 0 < snd (next_chunk symbols)"
  by (auto simp: next_chunk_def Let_def)

function twcc_build_status_chunks :: "u8 list \<Rightarrow> u16 list \<Rightarrow> nat \<Rightarrow> u16 list" where
  "twcc_build_status_chunks symbols chunks max_chunks =
     (if symbols = [] then chunks
      else if length chunks \<ge> max_chunks then []
      else let (chunk, n) = next_chunk symbols
           in twcc_build_status_chunks (drop n symbols) (chunks @ [chunk]) max_chunks)"
  by pat_completeness auto
termination
proof (relation "measure (\<lambda>(symbols, _, _). length symbols)")
  fix symbols :: "u8 list" and chunks :: "u16 list" and max_chunks :: nat and x chunk n
  assume "symbols \<noteq> []" "x = next_chunk symbols" "(chunk, n) = x"
  then have "0 < n" using next_chunk_pos [of symbols] by (metis snd_conv)
  with \<open>symbols \<noteq> []\<close> show "((drop n symbols, chunks @ [chunk], max_chunks), symbols, chunks, max_chunks)
      \<in> measure (\<lambda>(symbols, _, _). length symbols)" by simp
qed simp

declare twcc_build_status_chunks.simps [simp del]

section \<open>Serialisation\<close>

text \<open>The loop that derives symbols and deltas; \<open>None\<close> when a delta does not fit 16 bits.\<close>

fun twcc_deltas :: "u64 \<Rightarrow> twcc_packet_status list \<Rightarrow> (u8 \<times> u16) list option" where
  "twcc_deltas prev_recv_time_us [] = Some []"
| "twcc_deltas prev_recv_time_us (p # ps) =
     (if \<not> ps_received p
      then map_option (Cons (TWCC_SYMBOL_NOT_RECEIVED, 0)) (twcc_deltas prev_recv_time_us ps)
      else let delta_us = sint (ps_arrival p) - sint prev_recv_time_us;
               scaled_delta = div_round_nearest_i64 delta_us TWCC_DELTA_SCALE_US
           in if scaled_delta \<ge> 0 \<and> scaled_delta \<le> 255
              then map_option (Cons (TWCC_SYMBOL_SMALL_DELTA, word_of_int scaled_delta))
                     (twcc_deltas (ps_arrival p) ps)
              else if scaled_delta \<ge> - 32768 \<and> scaled_delta \<le> 32767
              then map_option (Cons (TWCC_SYMBOL_LARGE_DELTA, word_of_int scaled_delta))
                     (twcc_deltas (ps_arrival p) ps)
              else None)"

definition delta_bytes :: "u8 \<times> u16 \<Rightarrow> bytes" where
  "delta_bytes sd = (let (symbol, delta) = sd
     in if symbol = TWCC_SYMBOL_SMALL_DELTA then [ucast delta]
        else if symbol = TWCC_SYMBOL_LARGE_DELTA then be16 delta else [])"

definition rtcp_compound_add_twcc :: "rtcp_compound \<Rightarrow> rtcp_twcc \<Rightarrow> rtcp_compound option" where
  "rtcp_compound_add_twcc c twcc =
     (let status_count = length (tw_packets twcc); remaining = length (cp_buffer c) - cp_offset c
      in if status_count = 0 then None
         else if remaining < 20 then None
         else if status_count > RTCP_TWCC_MAX_PACKETS then None
         else case twcc_deltas (ucast (tw_reference_time twcc) * TWCC_REF_TIME_SCALE_US) (tw_packets twcc) of
           None \<Rightarrow> None
         | Some sds \<Rightarrow>
             let chunks = twcc_build_status_chunks (map fst sds) [] status_count;
                 delta_size = length (concat (map delta_bytes sds));
                 total_size = 20 + length chunks * 2 + delta_size;
                 padded_size = (total_size + 3) div 4 * 4
             in if chunks = [] then None
                else if remaining < padded_size then None
                else Some (advance (poke (poke c 0 (replicate padded_size 0)) 0
                       ([0x80 OR word_of_nat RTCP_RTPFB_TWCC, word_of_nat RTCP_RTPFB]
                        @ be16 (word_of_nat (padded_size div 4 - 1))
                        @ be32 (tw_sender_ssrc twcc) @ be32 (tw_media_ssrc twcc)
                        @ be16 (tw_base_seq twcc) @ be16 (word_of_nat status_count)
                        @ [ucast (drop_bit 16 (tw_reference_time twcc) AND 0xFF),
                           ucast (drop_bit 8 (tw_reference_time twcc) AND 0xFF),
                           ucast (tw_reference_time twcc AND 0xFF), tw_fb_pkt_count twcc]
                        @ concat (map be16 chunks) @ concat (map delta_bytes sds))) padded_size))"

section \<open>Parsing\<close>

text \<open>The symbols of one chunk, with \<open>room\<close> statuses still to fill; \<open>None\<close> for the error returns.\<close>

definition chunk_symbols :: "u16 \<Rightarrow> nat \<Rightarrow> u8 list option" where
  "chunk_symbols chunk room =
     (if chunk AND 0x8000 = 0
      then let symbol = ucast (drop_bit 13 chunk AND 0x03); run_len = unat (chunk AND 0x1FFF)
           in if symbol = TWCC_SYMBOL_RESERVED \<or> run_len = 0 then None
              else if run_len > room then None
              else Some (replicate run_len symbol)
      else let ss = (if chunk AND 0x4000 \<noteq> 0
             then map (\<lambda>i. ucast (drop_bit (12 - i * 2) chunk AND 0x03)) [0..<min 7 room]
             else map (\<lambda>i. if drop_bit (13 - i) chunk AND 0x01 \<noteq> 0 then TWCC_SYMBOL_SMALL_DELTA
                           else TWCC_SYMBOL_NOT_RECEIVED) [0..<min 14 room])
           in if TWCC_SYMBOL_RESERVED \<in> set ss then None else Some ss)"

text \<open>The chunk loop: the symbols and the offset behind the last chunk.\<close>

function parse_chunks :: "bytes \<Rightarrow> nat \<Rightarrow> nat \<Rightarrow> nat \<Rightarrow> (u8 list \<times> nat) option" where
  "parse_chunks buffer packet_len offset room =
     (if room = 0 then Some ([], offset)
      else if offset + 2 > packet_len then None
      else case chunk_symbols (read_u16 buffer offset) room of
        None \<Rightarrow> None
      | Some ss \<Rightarrow> map_option (\<lambda>(r, off). (ss @ r, off))
                    (parse_chunks buffer packet_len (offset + 2) (room - length ss)))"
  by pat_completeness auto
termination
  by (relation "measure (\<lambda>(_, packet_len, offset, _). packet_len - offset)") auto

declare parse_chunks.simps [simp del]

text \<open>The delta loop; \<open>seq\<close> is the number of the next status.\<close>

fun parse_deltas :: "bytes \<Rightarrow> nat \<Rightarrow> nat \<Rightarrow> u64 \<Rightarrow> u16 \<Rightarrow> u8 list \<Rightarrow> twcc_packet_status list option" where
  "parse_deltas buffer packet_len offset prev sq [] = Some []"
| "parse_deltas buffer packet_len offset prev sq (s # ss) =
     (if s = TWCC_SYMBOL_NOT_RECEIVED
      then map_option (Cons \<lparr>ps_seq = sq, ps_arrival = 0, ps_received = False\<rparr>)
             (parse_deltas buffer packet_len offset prev (sq + 1) ss)
      else let small = (s = TWCC_SYMBOL_SMALL_DELTA); n = (if small then 1 else 2)
           in if offset + n > packet_len then None
              else let delta = (if small then uint (buffer ! offset) else sint (read_u16 buffer offset));
                       arrival_time_us = sint prev + delta * TWCC_DELTA_SCALE_US
                   in if arrival_time_us < 0 then None
                      else map_option (Cons \<lparr>ps_seq = sq, ps_arrival = word_of_int arrival_time_us,
                                             ps_received = True\<rparr>)
                             (parse_deltas buffer packet_len (offset + n) (word_of_int arrival_time_us)
                                (sq + 1) ss))"

definition rtcp_parse_twcc :: "bytes \<Rightarrow> rtcp_twcc option" where
  "rtcp_parse_twcc buffer =
     (if length buffer < 20 then None
      else if drop_bit 6 (buffer ! 0) AND 0x03 \<noteq> 2 \<or> buffer ! 0 AND 0x1F \<noteq> word_of_nat RTCP_RTPFB_TWCC
              \<or> buffer ! 1 \<noteq> word_of_nat RTCP_RTPFB then None
      else let packet_len = (unat (read_u16 buffer 2) + 1) * 4
           in if packet_len < 20 \<or> packet_len > length buffer then None
              else let base_seq = read_u16 buffer 12; packet_count = read_u16 buffer 14;
                       reference_time = push_bit 16 (ucast (buffer ! 16)) OR push_bit 8 (ucast (buffer ! 17))
                                        OR ucast (buffer ! 18)
                   in if unat packet_count > RTCP_TWCC_MAX_PACKETS then None
                      else case parse_chunks buffer packet_len 20 (unat packet_count) of
                        None \<Rightarrow> None
                      | Some (symbols, offset) \<Rightarrow>
                          map_option (\<lambda>ps. \<lparr>tw_sender_ssrc = read_u32 buffer 4, tw_media_ssrc = read_u32 buffer 8,
                              tw_base_seq = base_seq, tw_packet_count = packet_count,
                              tw_reference_time = reference_time, tw_fb_pkt_count = buffer ! 19,
                              tw_packets = ps\<rparr>)
                            (parse_deltas buffer packet_len offset
                               (ucast (reference_time AND 0x00FFFFFF) * TWCC_REF_TIME_SCALE_US) base_seq symbols))"

section \<open>Chunks decode to the symbols they were built from\<close>

definition symbols_ok :: "u8 list \<Rightarrow> bool" where
  "symbols_ok ss \<longleftrightarrow> list_all (\<lambda>s. s = 0 \<or> s = 1 \<or> s = 2) ss"

lemma run_length_take:
  "take (run_length s n xs - n) xs = replicate (run_length s n xs - n) s
   \<and> run_length s n xs \<le> n + length xs \<and> (n \<le> 0x1FFF \<longrightarrow> run_length s n xs \<le> 0x1FFF)"
proof (induction s n xs rule: run_length.induct)
  case (2 s n x xs)
  show ?case
  proof (cases "n < 0x1FFF \<and> x = s")
    case True
    then have "run_length s n (x # xs) - n = Suc (run_length s (n + 1) xs - (n + 1))"
      using run_length_ge [of "n + 1" s xs] by simp
    with True 2 show ?thesis by simp
  qed auto
qed simp

lemma flag_bits: "w AND 0x8000 = 0 \<longleftrightarrow> \<not> bit w 15" "w AND 0x4000 = 0 \<longleftrightarrow> \<not> bit w 14" for w :: u16
  using bit_iff_and_push_bit_not_eq_0 [of w 15] bit_iff_and_push_bit_not_eq_0 [of w 14] by simp_all

lemma flag_numerals:
  "bit (0x8000 :: u16) i \<longleftrightarrow> i = 15" "bit (0xC000 :: u16) i \<longleftrightarrow> i = 15 \<or> i = 14"
proof -
  have "(0x8000 :: u16) = push_bit 15 1" "(0xC000 :: u16) = push_bit 15 1 OR push_bit 14 1" by simp_all
  moreover have "bit (push_bit k 1 :: u16) i \<longleftrightarrow> k < 16 \<and> i = k" for k
    by (auto simp: bit_simps)
  ultimately show "bit (0x8000 :: u16) i \<longleftrightarrow> i = 15" "bit (0xC000 :: u16) i \<longleftrightarrow> i = 15 \<or> i = 14"
    by (simp_all only: bit_or_iff) auto
qed

lemma run_chunk_bits:
  fixes w :: u16
  assumes "s = 0 \<or> s = 1 \<or> s = 2" "\<And>i. bit w i \<Longrightarrow> i < 13"
  shows "(push_bit 13 (ucast (s :: u8)) OR w) AND 0x8000 = 0"
    "ucast (drop_bit 13 (push_bit 13 (ucast s) OR w) AND 0x03) = s"
    "(push_bit 13 (ucast s) OR w) AND 0x1FFF = w"
proof -
  have s: "bit s i \<Longrightarrow> i < 2" for i
    using assms(1) by (auto simp: bit_simps)
  have "\<not> bit (push_bit 13 (ucast s) OR w) 15" using s [of 2] assms(2) [of 15] by (auto simp: bit_simps)
  then show "(push_bit 13 (ucast s) OR w) AND 0x8000 = 0"
    by (simp add: flag_bits)
  show "ucast (drop_bit 13 (push_bit 13 (ucast s) OR w) AND 0x03) = s"
    using s assms(2) by (intro bit_word_eqI) (fastforce simp: bit_simps word_masks)
  show "(push_bit 13 (ucast s) OR w) AND 0x1FFF = w"
    using assms(2) by (intro bit_word_eqI) (auto simp: bit_simps word_masks)
qed

lemma one_bit_chunk_bit:
  "j + length ss \<le> 14 \<Longrightarrow>
   bit (one_bit_chunk j ss chunk) i \<longleftrightarrow> bit chunk i \<or> (\<exists>k<length ss. ss ! k = 1 \<and> i = 13 - (j + k))"
proof (induction j ss chunk rule: one_bit_chunk.induct)
  case (2 j s ss chunk)
  have "(\<exists>k<length (s # ss). (s # ss) ! k = 1 \<and> i = 13 - (j + k))
    \<longleftrightarrow> s = 1 \<and> i = 13 - j \<or> (\<exists>k<length ss. ss ! k = 1 \<and> i = 13 - (j + 1 + k))"
    by (simp add: Ex_less_Suc2)
  with 2 show ?case by (auto simp: bit_simps)
qed simp

lemma two_bit_chunk_bit:
  "j + length ss \<le> 7 \<Longrightarrow>
   bit (two_bit_chunk j ss chunk) i \<longleftrightarrow> bit chunk i
     \<or> i < 16 \<and> (\<exists>k<length ss. 12 - (j + k) * 2 \<le> i \<and> bit (ss ! k) (i - (12 - (j + k) * 2)))"
proof (induction j ss chunk rule: two_bit_chunk.induct)
  case (2 j s ss chunk)
  have "(\<exists>k<length (s # ss). 12 - (j + k) * 2 \<le> i \<and> bit ((s # ss) ! k) (i - (12 - (j + k) * 2)))
    \<longleftrightarrow> 12 - j * 2 \<le> i \<and> bit s (i - (12 - j * 2))
      \<or> (\<exists>k<length ss. 12 - (j + 1 + k) * 2 \<le> i \<and> bit (ss ! k) (i - (12 - (j + 1 + k) * 2)))"
    by (simp add: Ex_less_Suc2)
  with 2 show ?case by (auto simp: bit_simps)
qed simp

lemma bit_test: "(drop_bit n w AND 1 \<noteq> 0) \<longleftrightarrow> bit w n" for w :: "'a::len word"
  by (simp add: bit_iff_odd_drop_bit and_one_eq odd_iff_mod_2_eq_one)

lemma one_bit_chunk_symbols:
  assumes "length ss \<le> 14" "list_all (\<lambda>s. s = 0 \<or> s = 1) ss" "length ss = min 14 room"
  shows "chunk_symbols (one_bit_chunk 0 ss 0x8000) room = Some ss"
proof -
  let ?c = "one_bit_chunk 0 ss 0x8000"
  have b: "bit ?c i \<longleftrightarrow> i = 15 \<or> (\<exists>k<length ss. ss ! k = 1 \<and> i = 13 - k)" for i
    using one_bit_chunk_bit [of 0 ss "0x8000" i, unfolded flag_numerals] assms(1) by simp
  have "bit ?c 15" "\<not> bit ?c 14" using assms(1) by (auto simp: b)
  moreover have "bit ?c (13 - i) \<longleftrightarrow> ss ! i = 1" if "i < length ss" for i
  proof -
    have "i = k" if "k < length ss" "13 - i = 13 - k" for k using that \<open>i < length ss\<close> assms(1) by simp
    then show ?thesis using that unfolding b by auto
  qed
  then have eq: "map (\<lambda>i. if drop_bit (13 - i) ?c AND 1 \<noteq> 0 then TWCC_SYMBOL_SMALL_DELTA
      else TWCC_SYMBOL_NOT_RECEIVED) [0..<min 14 room] = ss"
    using assms(2,3) by (intro nth_equalityI) (auto simp: bit_test list_all_length)
  moreover have "3 \<notin> set ss" using assms(2) by (auto simp: list_all_iff)
  ultimately show ?thesis unfolding chunk_symbols_def Let_def eq by (simp add: flag_bits)
qed

lemma two_bit_chunk_symbols:
  assumes "length ss \<le> 7" "symbols_ok ss" "length ss = min 7 room"
  shows "chunk_symbols (two_bit_chunk 0 ss 0xC000) room = Some ss"
proof -
  let ?c = "two_bit_chunk 0 ss 0xC000"
  have s: "i < 2" if "bit (ss ! k) i" "k < length ss" for i k
    using assms(2) that by (auto simp: symbols_ok_def list_all_length bit_simps)
  have b: "bit ?c i \<longleftrightarrow> i = 15 \<or> i = 14
      \<or> i < 16 \<and> (\<exists>k<length ss. 12 - k * 2 \<le> i \<and> bit (ss ! k) (i - (12 - k * 2)))" for i
    using two_bit_chunk_bit [of 0 ss "0xC000" i, unfolded flag_numerals] assms(1) by simp
  have "bit ?c 15" "bit ?c 14" by (auto simp: b)
  moreover have "ucast (drop_bit (12 - i * 2) ?c AND 3) = ss ! i" if i: "i < length ss" for i
  proof (rule bit_word_eqI)
    fix n
    have "bit ?c (12 - i * 2 + n) \<longleftrightarrow> bit (ss ! i) n" if "n < 2"
    proof -
      have "k = i" if "k < length ss" "12 - k * 2 \<le> 12 - i * 2 + n" "bit (ss ! k) (12 - i * 2 + n - (12 - k * 2))" for k
        using s [OF that(3,1)] that(1,2) i \<open>n < 2\<close> assms(1) by linarith
      then have "(\<exists>k<length ss. 12 - k * 2 \<le> 12 - i * 2 + n \<and> bit (ss ! k) (12 - i * 2 + n - (12 - k * 2)))
          \<longleftrightarrow> bit (ss ! i) (12 - i * 2 + n - (12 - i * 2))"
        using i by (metis le_add1)
      moreover have "12 - i * 2 + n < 14" using that by simp
      ultimately show ?thesis unfolding b by simp
    qed
    then show "bit (ucast (drop_bit (12 - i * 2) ?c AND 3) :: u8) n = bit (ss ! i) n"
      using s [OF _ i, of n] by (auto simp: bit_simps word_masks)
  qed
  then have "map (\<lambda>i. ucast (drop_bit (12 - i * 2) ?c AND 3)) [0..<min 7 room] = ss"
    using assms(3) by (intro nth_equalityI) auto
  moreover have "3 \<notin> set ss" using assms(2) by (auto simp: symbols_ok_def list_all_iff)
  ultimately show ?thesis by (simp add: chunk_symbols_def flag_bits Let_def)
qed

lemma next_chunk_symbols:
  assumes "symbols_ok symbols" "symbols \<noteq> []" "next_chunk symbols = (chunk, n)"
  shows "n \<le> length symbols \<and> chunk_symbols chunk (length symbols) = Some (take n symbols)"
proof -
  obtain s xs where sy: "symbols = s # xs" using assms(2) by (cases symbols) auto
  define r where "r = run_length s 1 xs"
  have r: "take (r - 1) xs = replicate (r - 1) s" "r \<le> 1 + length xs" "r \<le> 0x1FFF" "1 \<le> r"
    using run_length_take [of s 1 xs] run_length_ge [of 1 s xs] by (simp_all add: r_def)
  consider (run) "7 \<le> r" | (one) "\<not> 7 \<le> r" "list_all (\<lambda>s. s = 0 \<or> s = 1) (take (min (length symbols) 14) symbols)"
    | (two) "\<not> 7 \<le> r" "\<not> list_all (\<lambda>s. s = 0 \<or> s = 1) (take (min (length symbols) 14) symbols)" by blast
  then show ?thesis
  proof cases
    case run
    then have n: "n = r" "chunk = push_bit 13 (ucast s) OR word_of_nat r"
      using assms(3) unfolding next_chunk_def sy list.sel r_def [symmetric] by (auto simp: Let_def)
    have rb: "bit (word_of_nat r :: u16) i \<Longrightarrow> i < 13" for i
    proof -
      assume "bit (word_of_nat r :: u16) i"
      then have "bit r i" by (simp add: bit_simps)
      moreover have "take_bit 13 r = r" using r(3) by (simp add: take_bit_nat_eq_self)
      ultimately show "i < 13" by (metis bit_take_bit_iff)
    qed
    have "unat (word_of_nat r :: u16) = r" using r(3) by (simp add: unsigned_of_nat take_bit_nat_eq_self)
    moreover have "s = 0 \<or> s = 1 \<or> s = 2" using assms(1) by (simp add: symbols_ok_def sy)
    moreover have "take r symbols = replicate r s" using r(1,4) by (cases r) (simp_all add: sy)
    ultimately show ?thesis
      using run_chunk_bits [of s "word_of_nat r", OF _ rb] r n by (auto simp: chunk_symbols_def sy)
  next
    case one
    then have "n = min (length symbols) 14" "chunk = one_bit_chunk 0 (take n symbols) 0x8000"
      using assms(3) unfolding next_chunk_def
      by (auto simp: r_def sy twcc_can_use_one_bit_vector_def Let_def)
    with one show ?thesis by (auto intro!: one_bit_chunk_symbols simp: min.commute)
  next
    case two
    then have "n = min (length symbols) 7" "chunk = two_bit_chunk 0 (take n symbols) 0xC000"
      using assms(3) unfolding next_chunk_def
      by (auto simp: r_def sy twcc_can_use_one_bit_vector_def Let_def)
    moreover have "symbols_ok (take n symbols)" using assms(1)
      by (auto simp: symbols_ok_def list_all_iff dest: in_set_takeD)
    ultimately show ?thesis by (auto intro!: two_bit_chunk_symbols simp: min.commute)
  qed
qed

lemma build_parse_chunks:
  assumes "symbols_ok symbols" "length chunks + length symbols \<le> max_chunks"
  shows "\<exists>cs. twcc_build_status_chunks symbols chunks max_chunks = chunks @ cs \<and> length cs \<le> length symbols
    \<and> (symbols \<noteq> [] \<longrightarrow> cs \<noteq> [])
    \<and> (\<forall>pre post packet_len. length pre + 2 * length cs \<le> packet_len \<longrightarrow>
         parse_chunks (pre @ concat (map be16 cs) @ post) packet_len (length pre) (length symbols)
         = Some (symbols, length pre + 2 * length cs))"
  using assms
proof (induction symbols chunks max_chunks rule: twcc_build_status_chunks.induct)
  case (1 symbols chunks max_chunks)
  show ?case
  proof (cases "symbols = []")
    case True
    then show ?thesis
      by (intro exI [of _ "[]"]) (simp add: twcc_build_status_chunks.simps parse_chunks.simps)
  next
    case False
    obtain chunk n where nc: "next_chunk symbols = (chunk, n)" by (cases "next_chunk symbols")
    have n: "0 < n" "n \<le> length symbols" "chunk_symbols chunk (length symbols) = Some (take n symbols)"
      using next_chunk_pos [OF False] next_chunk_symbols [OF 1(2) False nc] nc by simp_all
    have ok: "symbols_ok (drop n symbols)"
      using 1(2) by (auto simp: symbols_ok_def list_all_iff dest: in_set_dropD)
    have step: "twcc_build_status_chunks symbols chunks max_chunks
        = twcc_build_status_chunks (drop n symbols) (chunks @ [chunk]) max_chunks"
      using False 1(3) nc by (subst twcc_build_status_chunks.simps) (cases symbols, auto)
    obtain cs where cs: "twcc_build_status_chunks (drop n symbols) (chunks @ [chunk]) max_chunks = (chunks @ [chunk]) @ cs"
      "length cs \<le> length (drop n symbols)"
      "\<And>pre post packet_len. length pre + 2 * length cs \<le> packet_len \<Longrightarrow>
         parse_chunks (pre @ concat (map be16 cs) @ post) packet_len (length pre) (length (drop n symbols))
         = Some (drop n symbols, length pre + 2 * length cs)"
    proof -
      have "\<not> max_chunks \<le> length chunks" "length (chunks @ [chunk]) + length (drop n symbols) \<le> max_chunks"
        using 1(3) n False by (cases symbols; simp)+
      from 1(1) [OF False this(1) nc [symmetric] refl ok this(2)] that show thesis by blast
    qed
    have "parse_chunks (pre @ concat (map be16 (chunk # cs)) @ post) packet_len (length pre) (length symbols)
        = Some (symbols, length pre + 2 * length (chunk # cs))"
      if "length pre + 2 * length (chunk # cs) \<le> packet_len" for pre post packet_len
      using that n False cs(3) [of "pre @ be16 chunk" packet_len post]
        net16.dec_at [of "length pre" pre chunk "concat (map be16 cs) @ post"]
      by (subst parse_chunks.simps) simp
    with cs n step show ?thesis by (intro exI [of _ "chunk # cs"]) auto
  qed
qed

text \<open>Status chunks are lossless: for every sequence of packet statuses the chunk builder
  produces at most one chunk per status, never runs out of the space it is given, and the chunk
  parser reads back exactly that sequence, from whatever offset the chunks are stored at.\<close>

theorem twcc_chunks_roundtrip:
  assumes "symbols_ok symbols" "symbols \<noteq> []" "length symbols \<le> max_chunks"
  shows "let cs = twcc_build_status_chunks symbols [] max_chunks in
     cs \<noteq> [] \<and> length cs \<le> length symbols
     \<and> parse_chunks (pre @ concat (map be16 cs) @ post) (length pre + 2 * length cs + length post)
         (length pre) (length symbols) = Some (symbols, length pre + 2 * length cs)"
  using build_parse_chunks [of symbols "[]" max_chunks] assms by auto

lemma twcc_chunks_roundtrip_witness:
  "symbols_ok (replicate 9 1 @ [2, 0, 1]) \<and>
   parse_chunks (concat (map be16 (twcc_build_status_chunks (replicate 9 1 @ [2, 0, 1]) [] 12))) 4 0 12
     = Some (replicate 9 1 @ [2, 0, 1], 4)"
proof -
  have ok: "symbols_ok (replicate 9 1 @ [2, 0, 1])" by code_simp
  have len: "length (twcc_build_status_chunks (replicate 9 1 @ [2, 0, 1]) [] 12) = 2" by code_simp
  from twcc_chunks_roundtrip [OF ok, of 12 "[]" "[]"] ok len show ?thesis by (simp add: Let_def)
qed

section \<open>Deltas\<close>

lemma div_round_exact: "div_round_nearest_i64 (250 * q) 250 = q"
  by (cases "0 \<le> q") (simp_all add: div_round_nearest_i64_def cdiv_nonneg)

lemma delta_bytes_simps [simp]:
  "delta_bytes (0, d) = []" "delta_bytes (1, d) = [ucast d]" "delta_bytes (2, d) = be16 d"
  by (simp_all add: delta_bytes_def)

lemma deltas_symbols:
  "twcc_deltas prev ps = Some sds \<Longrightarrow>
   length sds = length ps \<and> symbols_ok (map fst sds) \<and> length (concat (map delta_bytes sds)) \<le> 2 * length ps"
proof (induction ps arbitrary: prev sds)
  case (Cons p ps)
  from Cons.prems obtain prev' x r where "twcc_deltas prev' ps = Some r" "sds = x # r"
    "fst x = 0 \<or> fst x = 1 \<or> fst x = 2"
    by (auto simp: Let_def split: if_splits)
  with Cons.IH [of prev' r] show ?case
    by (cases x) (auto simp: symbols_ok_def)
qed (simp add: symbols_ok_def)

text \<open>Statuses whose arrival times are on the 250-microsecond grid of the wire format, as produced by
  the engine's millisecond clock.\<close>

fun on_grid :: "u16 \<Rightarrow> twcc_packet_status list \<Rightarrow> bool" where
  "on_grid sq [] = True"
| "on_grid sq (p # ps) = (ps_seq p = sq \<and> on_grid (sq + 1) ps
     \<and> (if ps_received p then uint (ps_arrival p) mod 250 = 0 \<and> uint (ps_arrival p) < 2 ^ 63
         else ps_arrival p = 0))"

lemma sint_u64_small: "uint w < 2 ^ 63 \<Longrightarrow> sint (w :: u64) = uint w"
  by (simp add: sint_uint signed_take_bit_int_eq_self uint_ge_0 [THEN order_trans [rotated]])

lemma delta_byte: "0 \<le> q \<Longrightarrow> q \<le> 255 \<Longrightarrow> uint (ucast (word_of_int q :: u16) :: u8) = q"
  by (simp add: ucast_eq uint_word_of_int)

lemma delta_word: "- 32768 \<le> q \<Longrightarrow> q \<le> 32767 \<Longrightarrow> sint (word_of_int q :: u16) = q"
  by (simp add: signed_of_int signed_take_bit_int_eq_self)

lemma deltas_parse:
  assumes "twcc_deltas prev ps = Some sds" "on_grid sq ps" "uint prev mod 250 = 0" "uint prev < 2 ^ 63"
    and "length pre + length (concat (map delta_bytes sds)) \<le> plen"
  shows "parse_deltas (pre @ concat (map delta_bytes sds) @ post) plen (length pre) prev sq (map fst sds) = Some ps"
  using assms
proof (induction ps arbitrary: prev sds sq pre)
  case (Cons p ps)
  show ?case
  proof (cases "ps_received p")
    case False
    then obtain r where r: "twcc_deltas prev ps = Some r" "sds = (0, 0) # r"
      using Cons.prems(1) by auto
    with False Cons have "parse_deltas (pre @ concat (map delta_bytes r) @ post) plen (length pre) prev (sq + 1) (map fst r) = Some ps"
      by simp
    moreover have "p = \<lparr>ps_seq = sq, ps_arrival = 0, ps_received = False\<rparr>" using False Cons.prems(2) by simp
    ultimately show ?thesis using r by simp
  next
    case True
    have g: "uint (ps_arrival p) mod 250 = 0" "uint (ps_arrival p) < 2 ^ 63" "ps_seq p = sq" "on_grid (sq + 1) ps"
      using True Cons.prems(2) by simp_all
    define q where "q = (sint (ps_arrival p) - sint prev) div 250"
    have "(sint (ps_arrival p) - sint prev) mod 250 = 0"
      using Cons.prems(3,4) g mod_diff_eq [of "uint (ps_arrival p)" 250 "uint prev"]
      by (simp add: sint_u64_small)
    then have q: "sint (ps_arrival p) - sint prev = 250 * q" unfolding q_def by (simp add: minus_mod_eq_mult_div [symmetric])
    then have dr: "div_round_nearest_i64 (sint (ps_arrival p) - sint prev) 250 = q" by (simp add: div_round_exact)
    have at: "sint prev + q * 250 = uint (ps_arrival p)" using q g sint_u64_small [of "ps_arrival p"] by simp
    have p: "p = \<lparr>ps_seq = sq, ps_arrival = ps_arrival p, ps_received = True\<rparr>" using True g(3) by simp
    show ?thesis
    proof (cases "0 \<le> q \<and> q \<le> 255")
      case s: True
      then obtain r where r: "twcc_deltas (ps_arrival p) ps = Some r" "sds = (1, word_of_int q) # r"
        using Cons.prems(1) True dr by auto
      have "parse_deltas ((pre @ [ucast (word_of_int q :: u16)]) @ concat (map delta_bytes r) @ post) plen
          (length (pre @ [ucast (word_of_int q :: u16) :: u8])) (ps_arrival p) (sq + 1) (map fst r) = Some ps"
        using Cons.IH [OF r(1) g(4) g(1,2), of "pre @ [ucast (word_of_int q :: u16)]"] Cons.prems(5) r(2) by simp
      then show ?thesis
        using r s at p delta_byte [of q] Cons.prems(5) by (simp add: Let_def)
    next
      case l: False
      with Cons.prems(1) True dr have l': "- 32768 \<le> q" "q \<le> 32767" by (auto split: if_splits)
      then obtain r where r: "twcc_deltas (ps_arrival p) ps = Some r" "sds = (2, word_of_int q) # r"
        using Cons.prems(1) True l dr by auto
      have "parse_deltas ((pre @ be16 (word_of_int q)) @ concat (map delta_bytes r) @ post) plen
          (length (pre @ be16 (word_of_int q))) (ps_arrival p) (sq + 1) (map fst r) = Some ps"
        using Cons.IH [OF r(1) g(4) g(1,2), of "pre @ be16 (word_of_int q)"] Cons.prems(5) r(2) by simp
      then show ?thesis
        using r l' at p delta_word [of q] Cons.prems(5)
          net16.dec_at [of "length pre" pre "word_of_int q" "concat (map delta_bytes r) @ post"]
        by (simp add: Let_def)
    qed
  qed
qed simp

section \<open>The whole message\<close>

lemma mem_write_over:
  "length bs \<le> n \<Longrightarrow> off + n \<le> length buf \<Longrightarrow>
   mem_write (mem_write buf off (replicate n x)) off bs = mem_write buf off (bs @ replicate (n - length bs) x)"
  by (simp add: mem_write_def)

definition twcc_fixed :: "rtcp_twcc \<Rightarrow> nat \<Rightarrow> bytes" where
  "twcc_fixed t lw = rtcp_write_header 2 0 15 205 lw @ be32 (tw_sender_ssrc t) @ be32 (tw_media_ssrc t)
     @ be16 (tw_base_seq t) @ be16 (word_of_nat (length (tw_packets t)))
     @ [ucast (drop_bit 16 (tw_reference_time t) AND 0xFF), ucast (drop_bit 8 (tw_reference_time t) AND 0xFF),
        ucast (tw_reference_time t AND 0xFF), tw_fb_pkt_count t]"

text \<open>The bytes of a message, for the symbols and deltas \<open>sds\<close> of its statuses.\<close>

definition twcc_body :: "rtcp_twcc \<Rightarrow> (u8 \<times> u16) list \<Rightarrow> bytes" where
  "twcc_body t sds = concat (map be16 (twcc_build_status_chunks (map fst sds) [] (length (tw_packets t))))
     @ concat (map delta_bytes sds)"

definition twcc_image :: "rtcp_twcc \<Rightarrow> (u8 \<times> u16) list \<Rightarrow> bytes" where
  "twcc_image t sds = (let n = (20 + length (twcc_body t sds) + 3) div 4 * 4
     in twcc_fixed t (n div 4) @ twcc_body t sds @ replicate (n - (20 + length (twcc_body t sds))) 0)"

definition twcc_start :: "rtcp_twcc \<Rightarrow> u64" where
  "twcc_start t = ucast (tw_reference_time t) * TWCC_REF_TIME_SCALE_US"

definition twcc_sds :: "rtcp_twcc \<Rightarrow> (u8 \<times> u16) list" where
  "twcc_sds t = the (twcc_deltas (twcc_start t) (tw_packets t))"

definition twcc_valid :: "rtcp_twcc \<Rightarrow> bool" where
  "twcc_valid t \<longleftrightarrow> tw_packets t \<noteq> [] \<and> length (tw_packets t) \<le> RTCP_TWCC_MAX_PACKETS
     \<and> twcc_deltas (twcc_start t) (tw_packets t) \<noteq> None"

lemma twcc_fixed_length [simp]: "length (twcc_fixed t lw) = 20"
  by (simp add: twcc_fixed_def)

lemma div4_round: "x \<le> (x + 3) div 4 * 4" "(x + 3) div 4 * 4 \<le> x + (3 :: nat)"
  by presburger+

lemma twcc_image_length: "length (twcc_image t sds) = (20 + length (twcc_body t sds) + 3) div 4 * 4"
  using div4_round(1) [of "20 + length (twcc_body t sds)"] by (simp add: twcc_image_def Let_def)

lemma twcc_body_length:
  assumes "twcc_valid t"
  shows "length (twcc_body t (twcc_sds t)) \<le> 4 * length (tw_packets t)"
    "twcc_build_status_chunks (map fst (twcc_sds t)) [] (length (tw_packets t)) \<noteq> []"
proof -
  obtain sds where d: "twcc_deltas (twcc_start t) (tw_packets t) = Some sds" "twcc_sds t = sds"
    using assms by (auto simp: twcc_valid_def twcc_sds_def)
  note sy = deltas_symbols [OF d(1)]
  have ne: "sds \<noteq> []" using sy assms by (auto simp: twcc_valid_def)
  obtain cs where "twcc_build_status_chunks (map fst sds) [] (length (tw_packets t)) = cs"
    "length cs \<le> length (map fst sds)" "cs \<noteq> []"
    using build_parse_chunks [of "map fst sds" "[]" "length (tw_packets t)"] sy ne by auto
  then show "length (twcc_body t (twcc_sds t)) \<le> 4 * length (tw_packets t)"
    "twcc_build_status_chunks (map fst (twcc_sds t)) [] (length (tw_packets t)) \<noteq> []"
    using sy by (auto simp: d twcc_body_def net16.concat_enc_length)
qed

lemma add_twcc_eq:
  assumes "twcc_valid t"
  shows "rtcp_compound_add_twcc c t =
    (if cp_offset c + length (twcc_image t (twcc_sds t)) \<le> length (cp_buffer c)
     then Some (advance (poke c 0 (twcc_image t (twcc_sds t))) (length (twcc_image t (twcc_sds t)))) else None)"
proof -
  obtain sds where d: "twcc_deltas (twcc_start t) (tw_packets t) = Some sds" "twcc_sds t = sds"
    using assms by (auto simp: twcc_valid_def twcc_sds_def)
  define m where "m = 20 + length (twcc_body t sds)"
  define n where "n = (m + 3) div 4 * 4"
  have n: "m \<le> n" "20 \<le> n" "length (twcc_image t sds) = n"
    using div4_round(1) [of m] by (auto simp: m_def n_def twcc_image_length)
  have total: "20 + length (twcc_build_status_chunks (map fst sds) [] (length (tw_packets t))) * 2
      + length (concat (map delta_bytes sds)) = m"
    by (simp add: m_def twcc_body_def net16.concat_enc_length)
  have hdr: "[0x80 OR word_of_nat RTCP_RTPFB_TWCC, word_of_nat RTCP_RTPFB] @ be16 (word_of_nat (n div 4 - 1))
      = rtcp_write_header 2 0 15 205 (n div 4)"
    by (simp add: rtcp_write_header_def)
  have image: "twcc_image t sds = (twcc_fixed t (n div 4) @ twcc_body t sds) @ replicate (n - m) 0"
    by (simp add: twcc_image_def n_def m_def Let_def)
  have pokes: "poke (poke c 0 (replicate n 0)) 0 (twcc_fixed t (n div 4) @ twcc_body t sds) = poke c 0 (twcc_image t sds)"
    if "cp_offset c + n \<le> length (cp_buffer c)"
    using mem_write_over [of "twcc_fixed t (n div 4) @ twcc_body t sds" n "cp_offset c" "cp_buffer c" 0] that n(1)
    by (simp add: poke_def image m_def)
  have ch: "twcc_build_status_chunks (map fst sds) [] (length (tw_packets t)) \<noteq> []"
    using twcc_body_length(2) [OF assms] by (simp add: d)
  show ?thesis
    using assms n(2) ch pokes
    unfolding rtcp_compound_add_twcc_def twcc_start_def [symmetric] d option.case Let_def total n_def [symmetric]
      d(2) n(3) hdr append_assoc [symmetric]
    by (auto simp: twcc_valid_def twcc_fixed_def twcc_body_def hdr)
qed

lemma twcc_image_framed:
  assumes "twcc_valid t"
  shows "framed (twcc_image t (twcc_sds t))" "twcc_image t (twcc_sds t) ! 1 = 205"
proof -
  let ?b = "twcc_body t (twcc_sds t)"
  define n where "n = (20 + length ?b + 3) div 4 * 4"
  have "20 + length ?b \<le> n" "n \<le> 20 + length ?b + 3" using div4_round [of "20 + length ?b"] by (simp_all add: n_def)
  moreover have "length ?b \<le> 4 * 8192"
    using twcc_body_length(1) [OF assms] assms by (simp add: twcc_valid_def RTCP_TWCC_MAX_PACKETS_def)
  moreover have "n = 4 * (n div 4)" by (simp add: n_def)
  ultimately have r: "length (drop 4 (twcc_fixed t (n div 4)) @ ?b @ replicate (n - (20 + length ?b)) 0) + 4
      = 4 * (n div 4)" "n div 4 \<le> 65536" by simp_all
  have "twcc_image t (twcc_sds t) = rtcp_write_header 2 0 15 205 (n div 4)
      @ drop 4 (twcc_fixed t (n div 4)) @ ?b @ replicate (n - (20 + length ?b)) 0"
    by (simp add: twcc_image_def n_def twcc_fixed_def Let_def)
  then show "framed (twcc_image t (twcc_sds t))" "twcc_image t (twcc_sds t) ! 1 = 205"
    using framed_header [OF r] by (simp_all add: nth_append)
qed

interpretation twcc_writer: compound_writer "\<lambda>t c. rtcp_compound_add_twcc c t" twcc_valid "\<lambda>_. 205"
    "\<lambda>t. length (twcc_image t (twcc_sds t))"
proof
  fix t c c'
  assume v: "twcc_valid t"
  show "rtcp_compound_add_twcc c t = Some c' \<Longrightarrow>
      \<exists>p. framed p \<and> p ! 1 = 205 \<and> length p = length (twcc_image t (twcc_sds t)) \<and> appended c p c'"
    using twcc_image_framed [OF v] add_twcc_eq [OF v, of c]
    by (intro exI [of _ "twcc_image t (twcc_sds t)"]) (auto simp: appended_def split: if_splits)
  show "rtcp_compound_add_twcc c t = None \<longleftrightarrow>
      length (cp_buffer c) < cp_offset c + length (twcc_image t (twcc_sds t))"
    using add_twcc_eq [OF v, of c] by auto
qed

lemma join24:
  assumes "r < 2 ^ 24"
  shows "push_bit 16 (ucast (ucast (drop_bit 16 r AND 0xFF) :: u8)) OR push_bit 8 (ucast (ucast (drop_bit 8 r AND 0xFF) :: u8))
     OR ucast (ucast (r AND 0xFF) :: u8) = (r :: u32)" (is "?l = r")
    "r AND 0x00FFFFFF = r"
proof -
  have "uint r < 2 ^ 24" using assms by (simp add: word_less_def)
  then have "take_bit 24 r = r" by (simp add: word_uint_eq_iff unsigned_take_bit_eq take_bit_int_eq_self)
  then have top: "bit r i \<Longrightarrow> i < 24" for i by (metis bit_take_bit_iff)
  show "?l = r"
  proof (rule bit_word_eqI)
    fix n
    show "bit ?l n = bit r n" if "n < LENGTH(32)"
      using that top [of n] by (cases "n < 8"; cases "n < 16") (auto simp: bit_simps word_masks)
  qed
  have "(0x00FFFFFF :: u32) = mask 24" by (simp add: mask_eq_exp_minus_1)
  then show "r AND 0x00FFFFFF = r" using \<open>take_bit 24 r = r\<close> by (simp add: take_bit_eq_mask)
qed

lemma twcc_start_grid:
  "uint (twcc_start t) = uint (tw_reference_time t) * 64000" "uint (twcc_start t) mod 250 = 0"
  "uint (twcc_start t) < 2 ^ 63"
proof -
  have b: "uint (tw_reference_time t) < 2 ^ 32" using uint_lt2p [of "tw_reference_time t"] by simp
  have u: "uint (ucast (tw_reference_time t) :: u64) = uint (tw_reference_time t)"
    by (simp add: unsigned_ucast_eq take_bit_int_eq_self_iff) (use b in simp)
  show e: "uint (twcc_start t) = uint (tw_reference_time t) * 64000"
    using b by (simp add: twcc_start_def TWCC_REF_TIME_SCALE_US_def uint_word_ariths u)
  have "uint (tw_reference_time t) * 64000 = 250 * (uint (tw_reference_time t) * 256)" by simp
  then show "uint (twcc_start t) mod 250 = 0" unfolding e by (metis mod_mult_self1_is_0)
  show "uint (twcc_start t) < 2 ^ 63" unfolding e using b by simp
qed

lemma twcc_image_parse:
  assumes v: "twcc_valid t" and grid: "on_grid (tw_base_seq t) (tw_packets t)"
    and cnt: "tw_packet_count t = word_of_nat (length (tw_packets t))" and ref: "tw_reference_time t < 2 ^ 24"
  shows "rtcp_parse_twcc (twcc_image t (twcc_sds t) @ rest) = Some t"
proof -
  obtain sds where d: "twcc_deltas (twcc_start t) (tw_packets t) = Some sds" "twcc_sds t = sds"
    using v by (auto simp: twcc_valid_def twcc_sds_def)
  define cs where "cs = twcc_build_status_chunks (map fst sds) [] (length (tw_packets t))"
  define db where "db = concat (map delta_bytes sds)"
  define p where "p = twcc_image t sds"
  define lw where "lw = length p div 4"
  define pad where "pad = replicate (length p - (20 + length (twcc_body t sds))) (0 :: u8)"
  have p: "p = twcc_fixed t lw @ concat (map be16 cs) @ db @ pad"
    by (simp add: p_def twcc_image_def twcc_image_length Let_def lw_def cs_def db_def pad_def twcc_body_def)
  have fr: "framed p" "p ! 1 = 205" using twcc_image_framed [OF v] by (simp_all add: d p_def)
  have len: "20 \<le> length p" unfolding p by simp
  define buf where "buf = p @ rest"
  have buf: "buf = twcc_fixed t lw @ concat (map be16 cs) @ db @ pad @ rest" by (simp add: buf_def p)
  have n: "length (tw_packets t) \<le> 8192" "length sds = length (tw_packets t)" "symbols_ok (map fst sds)"
    using v deltas_symbols [OF d(1)] by (simp_all add: twcc_valid_def RTCP_TWCC_MAX_PACKETS_def)
  have plen: "(unat (read_u16 buf 2) + 1) * 4 = length p"
    using fr len by (simp add: framed_def buf_def read_u16_def nth_append)
  have byte0: "buf ! 0 = 0x80 OR (15 AND 0x1F)" unfolding buf twcc_fixed_def by (simp add: nth_append)
  have fields: "read_u32 buf 4 = tw_sender_ssrc t" "read_u32 buf 8 = tw_media_ssrc t"
    "read_u16 buf 12 = tw_base_seq t" "read_u16 buf 14 = tw_packet_count t" "buf ! 19 = tw_fb_pkt_count t"
    "buf ! 16 = ucast (drop_bit 16 (tw_reference_time t) AND 0xFF)"
    "buf ! 17 = ucast (drop_bit 8 (tw_reference_time t) AND 0xFF)"
    "buf ! 18 = ucast (tw_reference_time t AND 0xFF)"
    unfolding buf twcc_fixed_def by (simp_all add: read_skip wire_simps cnt)
  have cnt': "unat (tw_packet_count t) = length (map fst sds)"
    using n cnt by (simp add: unsigned_of_nat take_bit_nat_eq_self)
  have body: "20 + 2 * length cs + length db \<le> length p"
    unfolding p by (simp add: net16.concat_enc_length)
  have chunks: "parse_chunks buf (length p) 20 (length (map fst sds)) = Some (map fst sds, 20 + 2 * length cs)"
  proof -
    obtain cs' where "cs = cs'"
      "\<And>pre post plen. length pre + 2 * length cs' \<le> plen \<Longrightarrow>
         parse_chunks (pre @ concat (map be16 cs') @ post) plen (length pre) (length (map fst sds))
         = Some (map fst sds, length pre + 2 * length cs')"
      using build_parse_chunks [of "map fst sds" "[]" "length (tw_packets t)"] n by (auto simp: cs_def)
    from this(2) [of "twcc_fixed t lw" "length p" "db @ pad @ rest"] this(1) body
    show ?thesis by (simp add: buf)
  qed
  have "parse_deltas buf (length p) (20 + 2 * length cs) (twcc_start t) (tw_base_seq t) (map fst sds) = Some (tw_packets t)"
    using deltas_parse [OF d(1) grid twcc_start_grid(2,3),
        of "twcc_fixed t lw @ concat (map be16 cs)" "length p" "pad @ rest"] body
    by (simp add: buf db_def net16.concat_enc_length mult.commute)
  moreover have "length p \<le> length buf" by (simp add: buf_def)
  moreover have "buf ! 1 = 205" using fr len by (simp add: buf_def nth_append)
  moreover have "(0x80 OR (15 AND 0x1F) :: u8) AND 0x1F = 15" "drop_bit 6 (0x80 OR (15 AND 0x1F) :: u8) AND 3 = 2"
    by simp_all
  ultimately show ?thesis
    using len plen chunks fields cnt' n join24 [OF ref]
    unfolding rtcp_parse_twcc_def d(2) p_def [symmetric] buf_def [symmetric] Let_def byte0
    by (simp add: RTCP_TWCC_MAX_PACKETS_def twcc_start_def)
qed

text \<open>C31. A transport feedback message whose arrival times lie on the 250 microsecond grid (the
  engine's clock counts milliseconds), whose packets are numbered consecutively and whose reference time fits the 24 bits of the wire field survives
  serialisation: what \<open>rtcp_compound_add_twcc\<close> appends is one framed RTCP packet, nothing else in the buffer changes, and \<open>rtcp_parse_twcc\<close>
  recovers the whole message, every sequence number, lost/received status and arrival time.  (A larger reference time is reduced to 24 bits
  on the wire, and the times read back are those of the reduced one.)\<close>

theorem twcc_message_roundtrip:
  assumes "rtcp_compound_add_twcc c t = Some c'" "on_grid (tw_base_seq t) (tw_packets t)"
    and "tw_packet_count t = word_of_nat (length (tw_packets t))" "tw_reference_time t < 2 ^ 24"
  shows "\<exists>p. framed p \<and> cp_offset c + length p \<le> length (cp_buffer c) \<and> cp_offset c' = cp_offset c + length p
     \<and> cp_buffer c' = mem_write (cp_buffer c) (cp_offset c) p \<and> rtcp_parse_twcc p = Some t"
proof -
  have v: "twcc_valid t"
    using assms(1) by (auto simp: rtcp_compound_add_twcc_def twcc_valid_def twcc_start_def Let_def
        split: if_splits option.splits)
  with assms(1) show ?thesis
    using twcc_image_framed [OF v] twcc_image_parse [OF v assms(2-4), of "[]"]
    by (intro exI [of _ "twcc_image t (twcc_sds t)"]) (auto simp: add_twcc_eq poke_def advance_def split: if_splits)
qed

definition twcc_sample :: rtcp_twcc where
  "twcc_sample = \<lparr>tw_sender_ssrc = 1, tw_media_ssrc = 2, tw_base_seq = 65535, tw_packet_count = 3,
     tw_reference_time = 5, tw_fb_pkt_count = 0,
     tw_packets = [\<lparr>ps_seq = 65535, ps_arrival = 320000, ps_received = True\<rparr>,
                   \<lparr>ps_seq = 0, ps_arrival = 0, ps_received = False\<rparr>,
                   \<lparr>ps_seq = 1, ps_arrival = 421000, ps_received = True\<rparr>]\<rparr>"

lemma twcc_message_roundtrip_witness:
  "\<exists>c' p. rtcp_compound_add_twcc (rtcp_compound_init (replicate 64 0)) twcc_sample = Some c'
     \<and> framed p \<and> rtcp_parse_twcc p = Some twcc_sample"
proof -
  have "rtcp_compound_add_twcc (rtcp_compound_init (replicate 64 0)) twcc_sample \<noteq> None" by code_simp
  then obtain c' where c: "rtcp_compound_add_twcc (rtcp_compound_init (replicate 64 0)) twcc_sample = Some c'" by blast
  have "on_grid (tw_base_seq twcc_sample) (tw_packets twcc_sample)"
    "tw_packet_count twcc_sample = word_of_nat (length (tw_packets twcc_sample))"
    "tw_reference_time twcc_sample < 2 ^ 24"
    by (simp_all add: twcc_sample_def)
  from twcc_message_roundtrip [OF c this] c show ?thesis by blast
qed

end
