(* ===== verification/Ieee.thy ===== *)
theory Ieee
  imports Prelude
begin

text \<open>
  The floating-point operations the code uses: division of counts and products of a count with a
  constant, in C \<open>float\<close> (24 bits) and \<open>double\<close> (53 bits).  A non-negative value is the pair of its
  significand and the number of its binary places; every operation rounds its exact result to
  nearest, ties to even, as IEEE 754 prescribes.  The theory bounds the rounding error and shows
  that comparing a rounded ratio with a rounded threshold decides the exact comparison.
\<close>

section \<open>Floating point\<close>

text \<open>\<open>rne a b\<close> is \<open>a / b\<close> rounded to the nearest integer, ties to even.\<close>

definition rne :: "nat \<Rightarrow> nat \<Rightarrow> nat" where
  "rne a b = (let q = a div b; r = a mod b
     in if 2 * r < b then q else if 2 * r > b then q + 1 else if even q then q else q + 1)"

text \<open>The number of binary places that gives \<open>num / den\<close> (below \<open>2 ^ p\<close>) a significand of \<open>p\<close> bits.\<close>

function fp_places :: "nat \<Rightarrow> nat \<Rightarrow> nat \<Rightarrow> nat" where
  "fp_places p num den =
     (if num = 0 \<or> 2 ^ (p - 1) * den \<le> num then 0 else Suc (fp_places p (2 * num) den))"
  by pat_completeness auto
termination
  by (relation "measure (\<lambda>(p, num, den). 2 ^ (p - 1) * den - num)") auto

declare fp_places.simps [simp del]

type_synonym fp = "nat \<times> nat"

definition fp_round :: "nat \<Rightarrow> nat \<Rightarrow> nat \<Rightarrow> fp" where
  "fp_round p num den = (let e = fp_places p num den in (rne (num * 2 ^ e) den, e))"

definition fp_gt :: "fp \<Rightarrow> fp \<Rightarrow> bool" where
  "fp_gt a b \<longleftrightarrow> fst a * 2 ^ snd b > fst b * 2 ^ snd a"

definition fp_trunc :: "fp \<Rightarrow> nat" where
  "fp_trunc a = fst a div 2 ^ snd a"

definition fp_scale :: "nat \<Rightarrow> nat \<Rightarrow> fp \<Rightarrow> nat" where
  "fp_scale p n a = fp_trunc (fp_round p (n * fst a) (2 ^ snd a))"

section \<open>Rounding\<close>

lemma rne_bounds:
  assumes "0 < b"
  shows "2 * a \<le> 2 * (rne a b * b) + b" "2 * (rne a b * b) \<le> 2 * a + b"
proof -
  define q r where "q = a div b" and "r = a mod b"
  have a: "a = q * b + r" "r < b" using assms by (simp_all add: q_def r_def)
  have "rne a b = q \<and> 2 * r \<le> b \<or> rne a b = q + 1 \<and> b \<le> 2 * r"
    by (auto simp: rne_def q_def [symmetric] r_def [symmetric] Let_def)
  then show "2 * a \<le> 2 * (rne a b * b) + b" "2 * (rne a b * b) \<le> 2 * a + b"
    using a by (auto simp: algebra_simps)
qed

lemma fp_places_lower: "0 < num \<Longrightarrow> 2 ^ (p - 1) * den \<le> num * 2 ^ fp_places p num den"
proof (induction p num den rule: fp_places.induct)
  case (1 p num den)
  show ?case
  proof (cases "2 ^ (p - 1) * den \<le> num")
    case True
    then show ?thesis by (subst fp_places.simps) simp
  next
    case False
    with 1 show ?thesis by (subst fp_places.simps) (simp add: ac_simps)
  qed
qed

lemma fp_round_error:
  assumes "0 < num" "0 < den" "fp_round (Suc p) num den = (m, e)"
  shows "num * 2 ^ e * (2 ^ Suc p - 1) \<le> m * den * 2 ^ Suc p"
    "m * den * 2 ^ Suc p \<le> num * 2 ^ e * (2 ^ Suc p + 1)"
proof -
  have e: "2 ^ p * den \<le> num * 2 ^ e" and m: "m = rne (num * 2 ^ e) den"
    using assms fp_places_lower [of num "Suc p" den] by (auto simp: fp_round_def Let_def)
  define X where "X = num * 2 ^ e"
  have b: "2 * X \<le> 2 * (m * den) + den" "2 * (m * den) \<le> 2 * X + den"
    using rne_bounds [OF assms(2), of X] by (simp_all add: m X_def)
  have "2 * X * 2 ^ p \<le> (2 * (m * den) + den) * 2 ^ p" using b(1) by simp
  also have "\<dots> \<le> 2 * (m * den) * 2 ^ p + X" using e by (simp add: X_def algebra_simps)
  finally show "num * 2 ^ e * (2 ^ Suc p - 1) \<le> m * den * 2 ^ Suc p"
    by (simp add: X_def [symmetric] diff_mult_distrib2 ac_simps)
  have "2 * (m * den) * 2 ^ p \<le> (2 * X + den) * 2 ^ p" using b(2) by simp
  also have "\<dots> \<le> 2 * X * 2 ^ p + X" using e by (simp add: X_def algebra_simps)
  finally show "m * den * 2 ^ Suc p \<le> num * 2 ^ e * (2 ^ Suc p + 1)"
    by (simp add: X_def [symmetric] algebra_simps)
qed

lemma fp_places_scale: "0 < k \<Longrightarrow> fp_places p (k * num) (k * den) = fp_places p num den"
proof (induction p num den rule: fp_places.induct)
  case (1 p num den)
  have "(2 ^ (p - 1) * (k * den) \<le> k * num) = (2 ^ (p - 1) * den \<le> num)"
    using 1(2) by (simp add: mult.left_commute)
  with 1 show ?case
    by (subst (1 2) fp_places.simps) (simp add: mult.left_commute)
qed

lemma fp_round_scale: "0 < k \<Longrightarrow> fp_round p (k * num) (k * den) = fp_round p num den"
proof -
  assume k: "0 < k"
  have "rne (k * a) (k * b) = rne a b" for a b
    using k by (simp add: rne_def Let_def mod_mult_mult1 mult.left_commute [of 2])
  then show ?thesis using k by (simp add: fp_round_def fp_places_scale Let_def mult.assoc)
qed

text \<open>Comparing a rounded ratio with a rounded threshold \<open>1/q\<close> gives the exact answer, as long as the
  counts are far below the precision.\<close>

lemma fp_gt_exact:
  assumes "0 < t" "0 < q" "2 * t < 2 ^ Suc p - 1"
  shows "fp_gt (fp_round (Suc p) l t) (fp_round (Suc p) 1 q) \<longleftrightarrow> t < q * l"
proof (cases "l = 0")
  case True
  have "fp_round (Suc p) 0 t = (0, 0)"
    using assms(1) by (simp add: fp_round_def rne_def fp_places.simps)
  with True show ?thesis by (simp add: fp_gt_def)
next
  case False
  obtain m e where me: "fp_round (Suc p) l t = (m, e)" by (cases "fp_round (Suc p) l t")
  obtain mc ec where mc: "fp_round (Suc p) 1 q = (mc, ec)" by (cases "fp_round (Suc p) 1 q")
  define A :: nat where "A = 2 ^ Suc p"
  define E :: nat where "E = 2 ^ e"
  define C :: nat where "C = 2 ^ ec"
  have pos: "0 < E" "0 < C" "2 * t < A - 1" "1 < A" using assms(3) by (auto simp: E_def C_def A_def)
  have b: "l * E * (A - 1) \<le> m * t * A" "m * t * A \<le> l * E * (A + 1)"
    "C * (A - 1) \<le> mc * q * A" "mc * q * A \<le> C * (A + 1)"
    using fp_round_error [OF _ assms(1) me] fp_round_error [OF _ assms(2) mc] False
    by (simp_all add: A_def E_def C_def)
  have gt: "fp_gt (m, e) (mc, ec) \<longleftrightarrow> m * C > mc * E" by (simp add: fp_gt_def E_def C_def)
  consider "t < q * l" | "q * l < t" | "t = l * q" by (metis linorder_neqE_nat mult.commute)
  then show ?thesis
  proof cases
    case 1
    have "\<not> m * C \<le> mc * E"
    proof
      assume le: "m * C \<le> mc * E"
      have "(l * q * (A - 1)) * (E * C) = (l * E * (A - 1)) * (C * q)" by (simp add: ac_simps)
      also have "\<dots> \<le> (m * t * A) * (C * q)" using b(1) by (rule mult_right_mono) simp
      also have "\<dots> = (m * C) * (t * A * q)" by (simp add: ac_simps)
      also have "\<dots> \<le> (mc * E) * (t * A * q)" using le by (rule mult_right_mono) simp
      also have "\<dots> = (mc * q * A) * (E * t)" by (simp add: ac_simps)
      also have "\<dots> \<le> (C * (A + 1)) * (E * t)" using b(4) by (rule mult_right_mono) simp
      also have "\<dots> = (t * (A + 1)) * (E * C)" by (simp add: algebra_simps)
      finally have "l * q * (A - 1) \<le> t * (A + 1)" using pos by simp
      moreover have "(t + 1) * (A - 1) \<le> l * q * (A - 1)" using 1 by (intro mult_right_mono) (simp_all add: ac_simps)
      moreover have "(t + 1) * (A - 1) = t * (A + 1) + (A - 1) - 2 * t"
        using pos by (cases A) (simp_all add: algebra_simps)
      ultimately show False using pos by simp
    qed
    with 1 show ?thesis unfolding me mc gt by simp
  next
    case 2
    have "\<not> m * C > mc * E"
    proof
      assume "m * C > mc * E"
      then have le: "mc * E \<le> m * C" by simp
      have "(t * (A - 1)) * (E * C) = (C * (A - 1)) * (E * t)" by (simp add: ac_simps)
      also have "\<dots> \<le> (mc * q * A) * (E * t)" using b(3) by (rule mult_right_mono) simp
      also have "\<dots> = (mc * E) * (t * A * q)" by (simp add: ac_simps)
      also have "\<dots> \<le> (m * C) * (t * A * q)" using le by (rule mult_right_mono) simp
      also have "\<dots> = (m * t * A) * (C * q)" by (simp add: ac_simps)
      also have "\<dots> \<le> (l * E * (A + 1)) * (C * q)" using b(2) by (rule mult_right_mono) simp
      also have "\<dots> = (q * l * (A + 1)) * (E * C)" by (simp add: algebra_simps)
      finally have "t * (A - 1) \<le> q * l * (A + 1)" using pos by simp
      moreover have "q * l * (A + 1) \<le> (t - 1) * (A + 1)" using 2 by (intro mult_right_mono) simp_all
      moreover have "(t - 1) * (A + 1) + (A + 1) = t * (A - 1) + 2 * t"
        using pos assms(1) by (cases A; cases t) (simp_all add: algebra_simps)
      ultimately show False using pos by simp
    qed
    with 2 show ?thesis unfolding me mc gt by simp
  next
    case 3
    have "fp_round (Suc p) l t = fp_round (Suc p) 1 q"
      using fp_round_scale [of l "Suc p" 1 q] False 3 by simp
    with 3 show ?thesis by (simp add: fp_gt_def mult.commute)
  qed
qed

text \<open>The product with a factor, rounded and truncated, is within one of the exact product, up to the
  relative error of the format.\<close>

lemma fp_scale_bounds:
  assumes "0 < n" "0 < c"
  shows "fp_scale (Suc p) n (c, k) * 2 ^ k * 2 ^ Suc p \<le> n * c * (2 ^ Suc p + 1)"
    "n * c * (2 ^ Suc p - 1) < (fp_scale (Suc p) n (c, k) + 1) * 2 ^ k * 2 ^ Suc p"
proof -
  obtain m e where me: "fp_round (Suc p) (n * c) (2 ^ k) = (m, e)" by (cases "fp_round (Suc p) (n * c) (2 ^ k)")
  define A :: nat where "A = 2 ^ Suc p"
  define E :: nat where "E = 2 ^ e"
  define f where "f = fp_scale (Suc p) n (c, k)"
  have E: "0 < E" "0 < A" by (simp_all add: E_def A_def)
  have f: "f = m div E" by (simp add: f_def fp_scale_def fp_trunc_def me E_def)
  have fm: "f * E \<le> m" "m < (f + 1) * E"
    using dividend_less_times_div [OF E(1), of m] unfolding f by (simp_all add: algebra_simps)
  have b: "n * c * E * (A - 1) \<le> m * 2 ^ k * A" "m * 2 ^ k * A \<le> n * c * E * (A + 1)"
    using fp_round_error [OF _ _ me] assms by (simp_all add: A_def E_def)
  have "(f * 2 ^ k * A) * E = (f * E) * (2 ^ k * A)" by (simp add: ac_simps)
  also have "\<dots> \<le> m * (2 ^ k * A)" using fm(1) by (rule mult_right_mono) simp
  also have "\<dots> \<le> (n * c * (A + 1)) * E" using b(2) by (simp add: algebra_simps)
  finally show "fp_scale (Suc p) n (c, k) * 2 ^ k * 2 ^ Suc p \<le> n * c * (2 ^ Suc p + 1)"
    using E unfolding f_def [symmetric] A_def [symmetric] by simp
  have "(n * c * (A - 1)) * E \<le> m * (2 ^ k * A)" using b(1) by (simp add: algebra_simps)
  also have "\<dots> < ((f + 1) * E) * (2 ^ k * A)" using fm(2) E by (intro mult_strict_right_mono) simp_all
  also have "\<dots> = ((f + 1) * 2 ^ k * A) * E" by (simp add: algebra_simps)
  finally show "n * c * (2 ^ Suc p - 1) < (fp_scale (Suc p) n (c, k) + 1) * 2 ^ k * 2 ^ Suc p"
    using E unfolding f_def [symmetric] A_def [symmetric] by simp
qed

end
