(* ===== verification/Twcc.thy ===== *)
theory Twcc
  imports Twcc_Wire Ieee
begin

text \<open>
  Transport-wide congestion control, the stateful half of \<^verbatim>\<open>webrtc/src/rtc/rtp/twcc.c\<close>: the receiver
  that collects arrival times and generates feedback, and the sender-side tracker that turns
  feedback into a bitrate.  \<open>get_time_us()\<close> is the argument \<open>now_us\<close>.  The loss ratio is a C \<open>float\<close> and
  the bitrate factors are \<open>double\<close> and \<open>float\<close> constants, in the model of theory \<open>Ieee\<close>.
\<close>

section \<open>Receiver\<close>

definition seq_newer :: "u16 \<Rightarrow> u16 \<Rightarrow> bool" where
  "seq_newer s1 s2 \<longleftrightarrow> sint (s1 - s2) > 0"

record twcc_recv_record =
  rc_seq :: u16
  rc_arrival :: u64

record twcc_receiver =
  rx_ssrc :: u32
  rx_expected_seq :: u16
  rx_packets :: "twcc_recv_record list"
  rx_last_feedback_time_us :: u64
  rx_fb_pkt_count :: u8

definition twcc_receiver_create :: "bool \<Rightarrow> u32 \<Rightarrow> u64 \<Rightarrow> twcc_receiver option" where
  "twcc_receiver_create alloc_ok src now_us =
     (if \<not> alloc_ok then None
      else Some \<lparr>rx_ssrc = src, rx_expected_seq = 0, rx_packets = [], rx_last_feedback_time_us = now_us,
                 rx_fb_pkt_count = 0\<rparr>)"

text \<open>The backward scan for the insert position, from index \<open>i - 1\<close>.\<close>

fun insert_pos :: "u16 \<Rightarrow> twcc_recv_record list \<Rightarrow> nat \<Rightarrow> nat" where
  "insert_pos s ps 0 = 0"
| "insert_pos s ps (Suc i) = (if seq_newer s (rc_seq (ps ! i)) then i + 1 else insert_pos s ps i)"

definition twcc_receiver_register_packet :: "twcc_receiver \<Rightarrow> u16 \<Rightarrow> u64 \<Rightarrow> twcc_receiver" where
  "twcc_receiver_register_packet r twcc_seq arrival_time_us =
     (let ps = rx_packets r; x = \<lparr>rc_seq = twcc_seq, rc_arrival = arrival_time_us\<rparr>
      in if ps \<noteq> [] \<and> \<not> seq_newer twcc_seq (rc_seq (last ps))
         then let pos = insert_pos twcc_seq ps (length ps)
              in if length ps < RTCP_TWCC_MAX_PACKETS
                 then r\<lparr>rx_packets := take pos ps @ [x] @ drop pos ps\<rparr> else r
         else if length ps < RTCP_TWCC_MAX_PACKETS then r\<lparr>rx_packets := ps @ [x]\<rparr> else r)"

text \<open>The loop that fills a gap with lost packets while \<open>room\<close> output entries are left: the entries
  and the next expected number.\<close>

fun fill_gap :: "u16 \<Rightarrow> u16 \<Rightarrow> nat \<Rightarrow> twcc_packet_status list \<times> u16" where
  "fill_gap expected target 0 = ([], expected)"
| "fill_gap expected target (Suc room) =
     (if expected \<noteq> target
      then let (l, e) = fill_gap (expected + 1) target room
           in (\<lparr>ps_seq = expected, ps_arrival = 0, ps_received = False\<rparr> # l, e)
      else ([], expected))"

fun build_statuses :: "u16 \<Rightarrow> twcc_recv_record list \<Rightarrow> nat \<Rightarrow> twcc_packet_status list" where
  "build_statuses expected [] room = []"
| "build_statuses expected (p # ps) room =
     (if room = 0 then []
      else let (l, e) = fill_gap expected (rc_seq p) room; room' = room - length l
           in if 0 < room'
              then l @ \<lparr>ps_seq = rc_seq p, ps_arrival = rc_arrival p, ps_received = True\<rparr>
                     # build_statuses (e + 1) ps (room' - 1)
              else l @ build_statuses e ps room')"

text \<open>Returns the message when one is generated (return value 1), \<open>None\<close> for the return value 0.\<close>

definition twcc_receiver_generate_feedback :: "twcc_receiver \<Rightarrow> u64 \<Rightarrow> rtcp_twcc option \<times> twcc_receiver" where
  "twcc_receiver_generate_feedback r now_us =
     (if length (rx_packets r) < 10 \<and> now_us - rx_last_feedback_time_us r < 100 * 1000 then (None, r)
      else if rx_packets r = [] then (None, r)
      else let p0 = rx_packets r ! 0;
               sts = build_statuses (rc_seq p0) (rx_packets r) RTCP_TWCC_MAX_PACKETS
           in (Some \<lparr>tw_sender_ssrc = rx_ssrc r, tw_media_ssrc = 0, tw_base_seq = rc_seq p0,
                     tw_packet_count = word_of_nat (length sts),
                     tw_reference_time = ucast (rc_arrival p0 div TWCC_REF_TIME_SCALE_US),
                     tw_fb_pkt_count = rx_fb_pkt_count r, tw_packets = sts\<rparr>,
               r\<lparr>rx_fb_pkt_count := rx_fb_pkt_count r + 1, rx_packets := [],
                 rx_last_feedback_time_us := now_us\<rparr>))"

section \<open>Constants of the estimator\<close>

text \<open>The constants \<open>0.1f\<close>, \<open>0.02f\<close>, \<open>0.85\<close>, \<open>0.95f\<close> and \<open>1.08\<close>.\<close>

definition f_0_1 :: fp where "f_0_1 = fp_round 24 1 10"
definition f_0_02 :: fp where "f_0_02 = fp_round 24 2 100"
definition BWE_DECREASE_FACTOR :: fp where "BWE_DECREASE_FACTOR = fp_round 53 85 100"
definition f_0_95 :: fp where "f_0_95 = fp_round 24 95 100"
definition BWE_INCREASE_FACTOR :: fp where "BWE_INCREASE_FACTOR = fp_round 53 108 100"

section \<open>Tracker\<close>

definition TWCC_MAX_HISTORY :: nat where [simp]: "TWCC_MAX_HISTORY = 1000"
definition BWE_INITIAL_BITRATE :: u32 where "BWE_INITIAL_BITRATE = 300000"
definition BWE_MIN_BITRATE :: u32 where "BWE_MIN_BITRATE = 30000"
definition BWE_MAX_BITRATE :: u32 where "BWE_MAX_BITRATE = 10000000"

record twcc_send_record =
  sd_seq :: u16
  sd_time :: u64
  sd_size :: nat
  sd_acked :: bool

record twcc_tracker =
  tk_next_seq :: u16
  tk_history :: "twcc_send_record list"
  tk_history_count :: nat
  tk_bitrate :: u32
  tk_last_feedback :: u64
  tk_last_increase :: u64
  tk_stable_rounds :: int

record twcc_bwe_result =
  bw_target :: u32
  bw_estimated :: u32
  bw_loss_ratio :: fp
  bw_rtt_ms :: u32
  bw_congestion :: bool

definition twcc_tracker_create :: "bool \<Rightarrow> u64 \<Rightarrow> twcc_tracker option" where
  "twcc_tracker_create alloc_ok now_us =
     (if \<not> alloc_ok then None
      else Some \<lparr>tk_next_seq = 0,
        tk_history = replicate TWCC_MAX_HISTORY \<lparr>sd_seq = 0, sd_time = 0, sd_size = 0, sd_acked = False\<rparr>,
        tk_history_count = 0, tk_bitrate = BWE_INITIAL_BITRATE, tk_last_feedback = now_us,
        tk_last_increase = now_us, tk_stable_rounds = 0\<rparr>)"

definition clamp_bitrate :: "u32 \<Rightarrow> u32" where
  "clamp_bitrate b = (let b = (if b < BWE_MIN_BITRATE then BWE_MIN_BITRATE else b)
     in if b > BWE_MAX_BITRATE then BWE_MAX_BITRATE else b)"

definition twcc_tracker_set_bitrate :: "twcc_tracker \<Rightarrow> u32 \<Rightarrow> twcc_tracker" where
  "twcc_tracker_set_bitrate t bitrate_bps =
     (if bitrate_bps = 0 then t else t\<lparr>tk_bitrate := clamp_bitrate bitrate_bps\<rparr>)"

definition twcc_tracker_register_packet :: "twcc_tracker \<Rightarrow> nat \<Rightarrow> u64 \<Rightarrow> u16 \<times> twcc_tracker" where
  "twcc_tracker_register_packet t psize send_time_us =
     (let sq = tk_next_seq t; idx = unat sq mod TWCC_MAX_HISTORY
      in (sq, t\<lparr>tk_next_seq := sq + 1,
                tk_history := (tk_history t)[idx := \<lparr>sd_seq = sq, sd_time = send_time_us, sd_size = psize,
                                                     sd_acked = False\<rparr>],
                tk_history_count := (if tk_history_count t < TWCC_MAX_HISTORY then tk_history_count t + 1
                                     else tk_history_count t)\<rparr>))"

text \<open>The loop over the statuses: history, packets received and lost, RTT sum and samples.\<close>

fun feedback_loop :: "twcc_packet_status list \<Rightarrow> twcc_send_record list \<Rightarrow> nat \<Rightarrow> nat \<Rightarrow> u64 \<Rightarrow> nat \<Rightarrow>
    twcc_send_record list \<times> nat \<times> nat \<times> u64 \<times> nat" where
  "feedback_loop [] h received lost total_rtt_us samples = (h, received, lost, total_rtt_us, samples)"
| "feedback_loop (p # ps) h received lost total_rtt_us samples =
     (let idx = unat (ps_seq p) mod TWCC_MAX_HISTORY
      in if sd_seq (h ! idx) = ps_seq p
         then if ps_received p
              then let h' = h[idx := (h ! idx)\<lparr>sd_acked := True\<rparr>]; rtt_us = ps_arrival p - sd_time (h ! idx)
                   in if rtt_us > 0 \<and> rtt_us < 10000000
                      then feedback_loop ps h' (received + 1) lost (total_rtt_us + rtt_us) (samples + 1)
                      else feedback_loop ps h' (received + 1) lost total_rtt_us samples
              else feedback_loop ps h received (lost + 1) total_rtt_us samples
         else feedback_loop ps h received lost total_rtt_us samples)"

definition loss_ratio :: "nat \<Rightarrow> nat \<Rightarrow> fp" where
  "loss_ratio lost total_packets = (if total_packets > 0 then fp_round 24 lost total_packets else (0, 0))"

definition twcc_tracker_process_feedback :: "twcc_tracker \<Rightarrow> rtcp_twcc \<Rightarrow> u64 \<Rightarrow> twcc_bwe_result \<times> twcc_tracker" where
  "twcc_tracker_process_feedback t twcc now_us =
     (let (h, received, lost, total_rtt_us, samples) = feedback_loop (tw_packets twcc) (tk_history t) 0 0 0 0;
          ratio = loss_ratio lost (received + lost);
          rtt_ms = (if samples > 0 then ucast (total_rtt_us div word_of_nat samples div 1000) else 0);
          b = unat (tk_bitrate t);
          high = fp_gt ratio f_0_1; moderate = fp_gt ratio f_0_02;
          grow = now_us - tk_last_increase t > 1000000;
          b' = (if high then word_of_nat (fp_scale 53 b BWE_DECREASE_FACTOR)
                else if moderate then word_of_nat (fp_scale 24 b f_0_95)
                else if grow then word_of_nat (fp_scale 53 b BWE_INCREASE_FACTOR) else tk_bitrate t);
          cg = (high \<or> moderate);
          t' = t\<lparr>tk_history := h, tk_bitrate := clamp_bitrate b', tk_last_feedback := now_us,
                 tk_last_increase := (if \<not> cg \<and> grow then now_us else tk_last_increase t),
                 tk_stable_rounds := (if cg then 0 else tk_stable_rounds t + 1)\<rparr>
      in (\<lparr>bw_target = tk_bitrate t', bw_estimated = tk_bitrate t', bw_loss_ratio = ratio,
           bw_rtt_ms = rtt_ms, bw_congestion = cg\<rparr>, t'))"

section \<open>Feedback reports exactly what arrived\<close>

lemma seq_newer_offset:
  "a < 32768 \<Longrightarrow> b < 32768 \<Longrightarrow> seq_newer (base + word_of_nat a) (base + word_of_nat b) \<longleftrightarrow> b < a"
proof -
  assume ab: "a < 32768" "b < 32768"
  have "base + word_of_nat a - (base + word_of_nat b) = (word_of_int (int a - int b) :: u16)" by simp
  moreover have "sint (word_of_int (int a - int b) :: u16) = int a - int b"
    by (rule delta_word) (use ab in linarith)+
  ultimately show ?thesis by (simp add: seq_newer_def del: of_int_diff)
qed

text \<open>Arrivals are described by their offset from a base number, \<open>(offset, time)\<close>.\<close>

definition recv_record :: "u16 \<Rightarrow> nat \<times> u64 \<Rightarrow> twcc_recv_record" where
  "recv_record base x = \<lparr>rc_seq = base + word_of_nat (fst x), rc_arrival = snd x\<rparr>"

lemma insert_pos_split:
  assumes "\<forall>x\<in>set L. fst x < 32768" "k < 32768" "i \<le> length L" "sorted_wrt (<) (map fst L)"
  shows "insert_pos (base + word_of_nat k) (map (recv_record base) L) i = length (filter (\<lambda>x. fst x < k) (take i L))"
  using assms(3)
proof (induction i)
  case (Suc i)
  then have i: "i < length L" by simp
  have m: "seq_newer (base + word_of_nat k) (rc_seq (map (recv_record base) L ! i)) \<longleftrightarrow> fst (L ! i) < k"
    using i assms(1,2) by (simp add: recv_record_def seq_newer_offset)
  have t: "take (Suc i) L = take i L @ [L ! i]" using i by (rule take_Suc_conv_app_nth)
  show ?case
  proof (cases "fst (L ! i) < k")
    case True
    have "fst x < k" if x: "x \<in> set (take i L)" for x
    proof -
      obtain j where j: "j < i" "x = L ! j" using x i by (auto simp: in_set_conv_nth)
      then have "fst (L ! j) < fst (L ! i)" using assms(4) i by (simp add: sorted_wrt_iff_nth_less)
      with True j show ?thesis by simp
    qed
    then have "filter (\<lambda>x. fst x < k) (take i L) = take i L" by (intro filter_True) blast
    with True m t i show ?thesis by simp
  next
    case False
    with Suc m t show ?thesis by simp
  qed
qed simp

lemma sorted_filter_split:
  "sorted_wrt (<) (map fst L) \<Longrightarrow>
   take (length (filter (\<lambda>x. fst x < k) L)) L = filter (\<lambda>x. fst x < k) L
   \<and> drop (length (filter (\<lambda>x. fst x < k) L)) L = filter (\<lambda>x. \<not> fst x < k) L" for k :: nat
proof (induction L)
  case (Cons x L)
  show ?case
  proof (cases "fst x < k")
    case True
    with Cons show ?thesis by simp
  next
    case False
    with Cons.prems have "\<forall>y\<in>set L. \<not> fst y < k" by force
    then have "filter (\<lambda>x. fst x < k) L = []" "filter (\<lambda>x. \<not> fst x < k) L = L"
      by (auto simp: filter_empty_conv intro!: filter_True)
    with False show ?thesis by simp
  qed
qed simp

definition ins_arrival :: "nat \<times> u64 \<Rightarrow> (nat \<times> u64) list \<Rightarrow> (nat \<times> u64) list" where
  "ins_arrival x L = filter (\<lambda>y. fst y < fst x) L @ [x] @ filter (\<lambda>y. \<not> fst y < fst x) L"

lemma ins_arrival_sorted:
  assumes "sorted_wrt (<) (map fst L)" "fst x \<notin> fst ` set L"
  shows "sorted_wrt (<) (map fst (ins_arrival x L))" "set (ins_arrival x L) = insert x (set L)"
    "length (ins_arrival x L) = Suc (length L)"
proof -
  have f: "sorted_wrt (<) (map fst (filter P L))" for P
    using assms(1) by (simp add: sorted_wrt_map sorted_wrt_filter)
  have "y \<in> set L \<Longrightarrow> \<not> fst y < fst x \<Longrightarrow> fst x < fst y" for y using assms(2) by (metis image_eqI linorder_neqE_nat)
  then show "sorted_wrt (<) (map fst (ins_arrival x L))"
    using f by (force simp: ins_arrival_def sorted_wrt_append)
  show "set (ins_arrival x L) = insert x (set L)" by (auto simp: ins_arrival_def)
  show "length (ins_arrival x L) = Suc (length L)"
    using sum_length_filter_compl [of "\<lambda>y. fst y < fst x" L] by (simp add: ins_arrival_def)
qed

lemma sorted_last_max:
  assumes "sorted_wrt (<) (map fst L)" "L \<noteq> []" "y \<in> set L"
  shows "fst y \<le> (fst (last L) :: nat)"
proof -
  have L: "L = butlast L @ [last L]" using assms(2) by simp
  have "sorted_wrt (<) (map fst (butlast L @ [last L]))" using assms(1,2) by simp
  then have "\<forall>y\<in>set (butlast L). fst y < fst (last L)" by (simp add: sorted_wrt_append)
  moreover have "set L = insert (last L) (set (butlast L))" by (subst L) simp
  ultimately show ?thesis using assms(3) by auto
qed

lemma register_sorted:
  assumes "rx_packets r = map (recv_record base) L" "sorted_wrt (<) (map fst L)" "\<forall>x\<in>set L. fst x < 32768"
    and "k < 32768" "k \<notin> fst ` set L" "length L < RTCP_TWCC_MAX_PACKETS"
  shows "twcc_receiver_register_packet r (base + word_of_nat k) t
         = r\<lparr>rx_packets := map (recv_record base) (ins_arrival (k, t) L)\<rparr>"
proof -
  let ?f = "filter (\<lambda>y. fst y < k) L"
  have pos: "insert_pos (base + word_of_nat k) (map (recv_record base) L) (length L) = length ?f"
    using insert_pos_split [OF assms(3,4) le_refl assms(2), of base] by simp
  note sp = sorted_filter_split [OF assms(2), of k]
  have new: "recv_record base (k, t) = \<lparr>rc_seq = base + word_of_nat k, rc_arrival = t\<rparr>" by (simp add: recv_record_def)
  show ?thesis
  proof (cases "L \<noteq> [] \<and> \<not> seq_newer (base + word_of_nat k) (rc_seq (last (map (recv_record base) L)))")
    case True
    with assms pos sp show ?thesis
      by (simp add: twcc_receiver_register_packet_def ins_arrival_def new Let_def take_map drop_map)
  next
    case False
    have "\<forall>y\<in>set L. fst y < k"
    proof (cases "L = []")
      case ne: False
      with False assms(3,4) have "fst (last L) < k"
        by (simp add: last_map recv_record_def seq_newer_offset)
      then show ?thesis using sorted_last_max [OF assms(2) ne] by (auto intro: le_less_trans)
    qed simp
    then have "?f = L" "filter (\<lambda>y. \<not> fst y < k) L = []" by (auto simp: filter_empty_conv intro!: filter_True)
    with False assms show ?thesis
      by (auto simp: twcc_receiver_register_packet_def ins_arrival_def new Let_def)
  qed
qed

lemma register_all:
  assumes "rx_packets r = []" "distinct (map fst xs)" "\<forall>x\<in>set xs. fst x < 32768"
    and "length xs \<le> RTCP_TWCC_MAX_PACKETS"
  shows "\<exists>L. fold (\<lambda>(k, t) r. twcc_receiver_register_packet r (base + word_of_nat k) t) xs r
            = r\<lparr>rx_packets := map (recv_record base) L\<rparr>
          \<and> set L = set xs \<and> length L = length xs \<and> sorted_wrt (<) (map fst L)"
  using assms(2-)
proof (induction xs rule: rev_induct)
  case Nil
  have "r = r\<lparr>rx_packets := map (recv_record base) []\<rparr>" using assms(1) by simp
  then show ?case by auto
next
  case (snoc x xs)
  then obtain L where L: "fold (\<lambda>(k, t) r. twcc_receiver_register_packet r (base + word_of_nat k) t) xs r
            = r\<lparr>rx_packets := map (recv_record base) L\<rparr>"
    "set L = set xs" "length L = length xs" "sorted_wrt (<) (map fst L)"
    by auto
  obtain k t where x: "x = (k, t)" by (cases x)
  have "twcc_receiver_register_packet (r\<lparr>rx_packets := map (recv_record base) L\<rparr>) (base + word_of_nat k) t
      = (r\<lparr>rx_packets := map (recv_record base) L\<rparr>)\<lparr>rx_packets := map (recv_record base) (ins_arrival (k, t) L)\<rparr>"
    by (rule register_sorted) (use snoc.prems L x in \<open>auto simp: image_iff\<close>)
  moreover have "fst (k, t) \<notin> fst ` set L" using snoc.prems L x by auto
  ultimately show ?case
    using L ins_arrival_sorted [of L "(k, t)"] by (intro exI [of _ "ins_arrival (k, t) L"]) (simp add: x)
qed

definition lost_status :: "u16 \<Rightarrow> nat \<Rightarrow> twcc_packet_status" where
  "lost_status base k = \<lparr>ps_seq = base + word_of_nat k, ps_arrival = 0, ps_received = False\<rparr>"

definition status_of :: "u16 \<Rightarrow> (nat \<times> u64) list \<Rightarrow> nat \<Rightarrow> twcc_packet_status" where
  "status_of base L k = (case map_of L k of None \<Rightarrow> lost_status base k
     | Some t \<Rightarrow> \<lparr>ps_seq = base + word_of_nat k, ps_arrival = t, ps_received = True\<rparr>)"

lemma fill_gap_offset:
  "n \<le> k \<Longrightarrow> k < 65536 \<Longrightarrow> k - n \<le> room \<Longrightarrow>
   fill_gap (base + word_of_nat n) (base + word_of_nat k) room
   = (map (lost_status base) [n..<k], base + word_of_nat k)"
proof (induction room arbitrary: n)
  case (Suc room)
  show ?case
  proof (cases "n = k")
    case False
    then have "n < k" using Suc.prems by simp
    then have "(word_of_nat n :: u16) \<noteq> word_of_nat k"
      using Suc.prems by (simp add: word_of_nat_eq_iff take_bit_nat_eq_self)
    then show ?thesis
      using Suc.IH [of "Suc n"] Suc.prems \<open>n < k\<close> by (simp add: upt_conv_Cons lost_status_def ac_simps)
  qed simp
qed simp

lemma build_statuses_offset:
  assumes "sorted_wrt (<) (map fst L)" "\<forall>x\<in>set L. n \<le> fst x \<and> fst x < 32768" "L \<noteq> []"
    "Suc (fst (last L)) - n \<le> room"
  shows "build_statuses (base + word_of_nat n) (map (recv_record base) L) room
         = map (status_of base L) [n..<Suc (fst (last L))]"
  using assms
proof (induction L arbitrary: n room)
  case (Cons x L)
  obtain k t where x: "x = (k, t)" by (cases x)
  have nk: "n \<le> k" "k < 32768" using Cons.prems(2) x by auto
  have kl: "k \<le> fst (last (x # L))" using Cons.prems(1) x by (auto simp: less_imp_le)
  then have room: "k - n < room" using Cons.prems(4) nk by simp
  have gt: "\<forall>y\<in>set L. k < fst y" using Cons.prems(1) x by auto
  have lost: "map (lost_status base) [n..<k] = map (status_of base (x # L)) [n..<k]"
  proof -
    have "map_of (x # L) j = None" if "j < k" for j
      using gt that by (force simp: x map_of_eq_None_iff)
    then show ?thesis by (auto simp: status_of_def)
  qed
  have rest: "build_statuses (base + word_of_nat (Suc k)) (map (recv_record base) L) (room - (k - n) - 1)
      = map (status_of base (x # L)) [Suc k..<Suc (fst (last (x # L)))]"
  proof (cases "L = []")
    case False
    have "build_statuses (base + word_of_nat (Suc k)) (map (recv_record base) L) (room - (k - n) - 1)
        = map (status_of base L) [Suc k..<Suc (fst (last L))]"
      by (rule Cons.IH) (use Cons.prems gt False nk in \<open>auto simp: Suc_le_eq\<close>)
    also have "\<dots> = map (status_of base (x # L)) [Suc k..<Suc (fst (last (x # L)))]"
      using False by (auto simp: status_of_def x)
    finally show ?thesis .
  qed (simp add: x)
  have "build_statuses (base + word_of_nat n) (map (recv_record base) (x # L)) room
      = map (status_of base (x # L)) [n..<k] @ status_of base (x # L) k
        # map (status_of base (x # L)) [Suc k..<Suc (fst (last (x # L)))]"
    using fill_gap_offset [of n k room base] nk room rest lost
    by (simp add: x recv_record_def status_of_def ac_simps)
  also have "\<dots> = map (status_of base (x # L)) ([n..<k] @ k # [Suc k..<Suc (fst (last (x # L)))])" by simp
  also have "[n..<k] @ k # [Suc k..<Suc (fst (last (x # L)))] = [n..<Suc (fst (last (x # L)))]"
    using kl nk upt_add_eq_append [of n k "Suc (fst (last (x # L))) - k"] by (simp add: upt_conv_Cons)
  finally show ?case .
qed simp

lemma status_of_cong: "distinct (map fst xs) \<Longrightarrow> distinct (map fst ys) \<Longrightarrow> set xs = set ys \<Longrightarrow> status_of base xs = status_of base ys"
  using map_of_inject_set [of xs ys] by (simp add: status_of_def fun_eq_iff)

lemma sorted_ends:
  assumes "sorted_wrt (<) (map fst L)" "L \<noteq> []"
  shows "Min (fst ` set L) = (fst (hd L) :: nat)" "Max (fst ` set L) = fst (last L)"
proof -
  show "Min (fst ` set L) = fst (hd L)"
    using assms by (intro Min_eqI) (cases L; force)+
  show "Max (fst ` set L) = fst (last L)"
    using sorted_last_max [OF assms] assms(2) by (intro Max_eqI) auto
qed

text \<open>C39. Feedback is a faithful account of what arrived: when packets with distinct transport-wide
  numbers in a window of 8192 are registered in any order with an empty receiver and a report is due, the generated
  message starts at the lowest number, ends at the highest, reports every number in between exactly
  once and in order, with its arrival time if it was registered and as lost otherwise; the receiver
  is then empty and its feedback counter has advanced by one.\<close>

theorem twcc_feedback_exact:
  assumes "rx_packets r = []" "distinct (map fst xs)" "\<forall>x\<in>set xs. fst x < RTCP_TWCC_MAX_PACKETS" "xs \<noteq> []"
    and "10 \<le> length xs \<or> 100000 \<le> now - rx_last_feedback_time_us r"
  shows "let lo = Min (fst ` set xs); hi = Max (fst ` set xs);
       r1 = fold (\<lambda>(k, t) r. twcc_receiver_register_packet r (base + word_of_nat k) t) xs r;
       (msg, r2) = twcc_receiver_generate_feedback r1 now
     in (\<exists>m. msg = Some m \<and> tw_base_seq m = base + word_of_nat lo
           \<and> tw_packets m = map (status_of base xs) [lo..<Suc hi]
           \<and> tw_packet_count m = word_of_nat (Suc hi - lo) \<and> tw_fb_pkt_count m = rx_fb_pkt_count r)
        \<and> rx_packets r2 = [] \<and> rx_fb_pkt_count r2 = rx_fb_pkt_count r + 1"
proof -
  have "distinct (map fst xs)" "set (map fst xs) \<subseteq> {..<8192}" using assms(2,3) by (auto simp: RTCP_TWCC_MAX_PACKETS_def)
  then have len: "length xs \<le> RTCP_TWCC_MAX_PACKETS"
    using distinct_card [of "map fst xs"] card_mono [of "{..<8192}" "set (map fst xs)"]
    by (simp add: RTCP_TWCC_MAX_PACKETS_def)
  have bound: "\<forall>x\<in>set xs. fst x < 32768" using assms(3) by (auto simp: RTCP_TWCC_MAX_PACKETS_def)
  from register_all [OF assms(1,2) bound len, of base] obtain L where
    L: "fold (\<lambda>(k, t) r. twcc_receiver_register_packet r (base + word_of_nat k) t) xs r
            = r\<lparr>rx_packets := map (recv_record base) L\<rparr>"
    "set L = set xs" "length L = length xs" "sorted_wrt (<) (map fst L)" by blast
  have ne: "L \<noteq> []" using L(2) assms(4) by auto
  note ends = sorted_ends [OF L(4) ne]
  have dl: "distinct (map fst L)" using L(4) by (simp add: strict_sorted_iff)
  have hi: "fst (last L) < 8192" using L(2) ne assms(3) by (auto simp: RTCP_TWCC_MAX_PACKETS_def)
  have lo: "\<forall>x\<in>set L. fst (hd L) \<le> fst x \<and> fst x < 32768"
  proof (intro ballI conjI)
    fix x assume x: "x \<in> set L"
    then show "fst x < 32768" using L(2) bound by simp
    show "fst (hd L) \<le> fst x" using L(4) x by (cases L) auto
  qed
  have "build_statuses (base + word_of_nat (fst (hd L))) (map (recv_record base) L) RTCP_TWCC_MAX_PACKETS
      = map (status_of base L) [fst (hd L)..<Suc (fst (last L))]"
    by (rule build_statuses_offset [OF L(4) lo ne]) (use hi in \<open>simp add: RTCP_TWCC_MAX_PACKETS_def\<close>)
  also have "status_of base L = status_of base xs" using dl assms(2) L(2) by (rule status_of_cong)
  finally have st: "build_statuses (base + word_of_nat (fst (hd L))) (map (recv_record base) L) RTCP_TWCC_MAX_PACKETS
      = map (status_of base xs) [fst (hd L)..<Suc (fst (last L))]" .
  have h: "map (recv_record base) L ! 0 = recv_record base (hd L)" using ne by (cases L) simp_all
  have due: "\<not> (length (map (recv_record base) L) < 10 \<and> now - rx_last_feedback_time_us r < 100 * 1000)"
    using assms(5) L(3) by auto
  show ?thesis
    unfolding L(1) L(2) [symmetric] ends Let_def twcc_receiver_generate_feedback_def
    using due ne st h by (simp add: recv_record_def)
qed

lemma twcc_feedback_exact_witness:
  "let r = the (twcc_receiver_create True 7 0);
       r1 = fold (\<lambda>(k, t) r. twcc_receiver_register_packet r (65534 + word_of_nat k) t) [(3, 900), (0, 400)] r;
       (msg, r2) = twcc_receiver_generate_feedback r1 100000
   in \<exists>m. msg = Some m \<and> tw_base_seq m = 65534 \<and> map ps_received (tw_packets m) = [True, False, False, True]"
proof -
  let ?r = "the (twcc_receiver_create True 7 0)"
  have "rx_packets ?r = []" "rx_last_feedback_time_us ?r = 0" by (simp_all add: twcc_receiver_create_def)
  then show ?thesis
    using twcc_feedback_exact [of ?r "[(3, 900), (0, 400)]" 100000 65534]
    by (auto simp: Let_def RTCP_TWCC_MAX_PACKETS_def status_of_def lost_status_def upt_rec)
qed

section \<open>A duplicated packet\<close>

lemma fill_gap_far:
  "0 < n \<Longrightarrow> n + room \<le> 65536 \<Longrightarrow> fst (fill_gap (base + word_of_nat n) base room) = map (lost_status base) [n..<n + room]"
proof (induction room arbitrary: n)
  case (Suc room)
  then have "(word_of_nat n :: u16) \<noteq> 0"
    using nat_dvd_not_less [of n 65536] by (simp add: word_of_nat_eq_0_iff)
  with Suc show ?case
    using Suc.IH [of "Suc n"] by (simp add: upt_conv_Cons lost_status_def split_beta ac_simps del: upt_Suc)
qed simp

text \<open>The receiver does not recognise a duplicate: when the same transport-wide number is
  registered twice, the next report lists that one packet as received and then all 8191 numbers
  that fit the message as lost, although nothing was lost.\<close>

theorem twcc_duplicate_floods_report:
  assumes "rx_packets r = []" "100000 \<le> now - rx_last_feedback_time_us r"
  shows "\<exists>m r2. twcc_receiver_generate_feedback
       (twcc_receiver_register_packet (twcc_receiver_register_packet r sq t1) sq t2) now = (Some m, r2)
     \<and> length (tw_packets m) = RTCP_TWCC_MAX_PACKETS \<and> length (filter ps_received (tw_packets m)) = 1"
proof -
  let ?r = "twcc_receiver_register_packet (twcc_receiver_register_packet r sq t1) sq t2"
  let ?ps = "[\<lparr>rc_seq = sq, rc_arrival = t2\<rparr>, \<lparr>rc_seq = sq, rc_arrival = t1\<rparr>]"
  have r: "?r = r\<lparr>rx_packets := ?ps\<rparr>"
    using assms(1) by (simp add: twcc_receiver_register_packet_def seq_newer_def RTCP_TWCC_MAX_PACKETS_def)
  have g: "fst (fill_gap (sq + 1) sq 8191) = map (lost_status sq) [1..<8192]"
    using fill_gap_far [of 1 8191 sq] by simp
  have zero: "fill_gap sq sq n = ([], sq)" for n by (cases n) simp_all
  have st: "build_statuses sq ?ps 8192
      = \<lparr>ps_seq = sq, ps_arrival = t2, ps_received = True\<rparr> # map (lost_status sq) [1..<8192]"
    using g by (simp add: zero split_beta Let_def del: upt_Suc fill_gap.simps)
  have none: "filter ps_received (map (lost_status sq) ks) = []" for ks
    by (simp add: filter_empty_conv lost_status_def)
  show ?thesis
    using assms(2) st none [of "[1..<8192]"]
    by (simp add: r twcc_receiver_generate_feedback_def Let_def not_less RTCP_TWCC_MAX_PACKETS_def
        del: build_statuses.simps)
qed

lemma twcc_duplicate_floods_report_witness:
  "let r = the (twcc_receiver_create True 7 0) in
   \<exists>m r2. twcc_receiver_generate_feedback
       (twcc_receiver_register_packet (twcc_receiver_register_packet r 5 1000) 5 2000) 100000 = (Some m, r2)
     \<and> length (tw_packets m) = RTCP_TWCC_MAX_PACKETS"
proof -
  let ?r = "the (twcc_receiver_create True 7 0)"
  have "rx_packets ?r = []" "100000 \<le> 100000 - rx_last_feedback_time_us ?r"
    by (simp_all add: twcc_receiver_create_def)
  from twcc_duplicate_floods_report [OF this, of 5 1000 2000] show ?thesis by (auto simp: Let_def)
qed

section \<open>The bandwidth estimate\<close>

lemma fp_constants:
  "f_0_1 = fp_round 24 1 10" "f_0_02 = fp_round 24 1 50" "f_0_95 = (15938355, 24)"
  "BWE_DECREASE_FACTOR = (7656119366529843, 53)" "BWE_INCREASE_FACTOR = (4863887597560136, 52)"
proof -
  show "f_0_02 = fp_round 24 1 50" using fp_round_scale [of 2 24 1 50] by (simp add: f_0_02_def)
qed (simp_all add: f_0_1_def f_0_95_def BWE_DECREASE_FACTOR_def BWE_INCREASE_FACTOR_def fp_round_def
    fp_places.simps rne_def Let_def)

lemma loss_thresholds:
  assumes "0 < t" "t \<le> 8192"
  shows "fp_gt (loss_ratio l t) f_0_1 \<longleftrightarrow> t < 10 * l" "fp_gt (loss_ratio l t) f_0_02 \<longleftrightarrow> t < 50 * l"
  using fp_gt_exact [of t 10 23 l] fp_gt_exact [of t 50 23 l] assms
  by (simp_all add: loss_ratio_def fp_constants)

lemma scale_factors:
  assumes "0 < n" "n \<le> 10000000"
  shows "100 * fp_scale 53 n BWE_DECREASE_FACTOR \<le> 85 * n + 100" "85 * n \<le> 100 * fp_scale 53 n BWE_DECREASE_FACTOR + 100"
    "100 * fp_scale 24 n f_0_95 \<le> 95 * n + 200" "95 * n \<le> 100 * fp_scale 24 n f_0_95 + 200"
    "100 * fp_scale 53 n BWE_INCREASE_FACTOR \<le> 108 * n + 100" "108 * n \<le> 100 * fp_scale 53 n BWE_INCREASE_FACTOR + 100"
  using fp_scale_bounds [of n 7656119366529843 52 53] fp_scale_bounds [of n 15938355 23 24]
    fp_scale_bounds [of n 4863887597560136 52 52] assms
  by (simp_all add: fp_constants)

text \<open>The packets of a report that are still in the send history.\<close>

definition remembered :: "twcc_send_record list \<Rightarrow> twcc_packet_status \<Rightarrow> bool" where
  "remembered h p \<longleftrightarrow> sd_seq (h ! (unat (ps_seq p) mod TWCC_MAX_HISTORY)) = ps_seq p"

lemma remembered_acked: "remembered (h[i := (h ! i)\<lparr>sd_acked := True\<rparr>]) = remembered h"
  by (cases "i < length h") (auto simp: remembered_def fun_eq_iff nth_list_update list_update_beyond)

lemma feedback_counts:
  "feedback_loop ps h rc ls rt sm = (h', rc', ls', rt', sm')
   \<Longrightarrow> ls' = ls + length (filter (\<lambda>p. remembered h p \<and> \<not> ps_received p) ps) \<and> rc' + ls' = rc + ls + length (filter (remembered h) ps)"
proof (induction ps arbitrary: h rc ls rt sm)
  case (Cons p ps)
  note IH = Cons.IH [unfolded remembered_acked]
  show ?case using Cons.prems by (auto simp: Let_def remembered_acked remembered_def [of h p] dest!: IH split: if_splits)
qed simp

datatype tracker_op = Set_Bitrate u32 | Sent nat u64 | Feedback rtcp_twcc u64

fun tracker_exec :: "tracker_op \<Rightarrow> twcc_tracker \<Rightarrow> twcc_tracker" where
  "tracker_exec (Set_Bitrate b) t = twcc_tracker_set_bitrate t b"
| "tracker_exec (Sent n tm) t = snd (twcc_tracker_register_packet t n tm)"
| "tracker_exec (Feedback m now) t = snd (twcc_tracker_process_feedback t m now)"

definition tracker_inv :: "twcc_tracker \<Rightarrow> bool" where
  "tracker_inv t \<longleftrightarrow> BWE_MIN_BITRATE \<le> tk_bitrate t \<and> tk_bitrate t \<le> BWE_MAX_BITRATE
     \<and> length (tk_history t) = TWCC_MAX_HISTORY \<and> tk_history_count t \<le> TWCC_MAX_HISTORY"

lemma clamp_range: "BWE_MIN_BITRATE \<le> clamp_bitrate b \<and> clamp_bitrate b \<le> BWE_MAX_BITRATE"
  by (auto simp: clamp_bitrate_def Let_def BWE_MIN_BITRATE_def BWE_MAX_BITRATE_def)

lemma feedback_loop_length:
  "feedback_loop ps h rc ls rt sm = (h', rc', ls', rt', sm') \<Longrightarrow> length h' = length h"
  by (induction ps h rc ls rt sm rule: feedback_loop.induct) (auto simp: Let_def split: if_splits)

lemma tracker_create_inv [inv_intros]: "twcc_tracker_create ok now = Some t \<Longrightarrow> tracker_inv t"
  by (auto simp: twcc_tracker_create_def tracker_inv_def BWE_MIN_BITRATE_def BWE_MAX_BITRATE_def
      BWE_INITIAL_BITRATE_def split: if_splits)

interpretation twcc_tx: machine tracker_inv tracker_exec
proof
  fix t op assume t: "tracker_inv t"
  show "tracker_inv (tracker_exec op t)"
  proof (cases op)
    case (Set_Bitrate b)
    with t clamp_range [of b] show ?thesis by (simp add: tracker_inv_def twcc_tracker_set_bitrate_def)
  next
    case (Sent n tm)
    with t show ?thesis by (simp add: tracker_inv_def twcc_tracker_register_packet_def Let_def)
  next
    case (Feedback m now)
    obtain h rc ls rt sm where f: "feedback_loop (tw_packets m) (tk_history t) 0 0 0 0 = (h, rc, ls, rt, sm)"
      by (metis prod_cases5)
    with t clamp_range feedback_loop_length [OF f] Feedback show ?thesis
      by (simp add: tracker_inv_def twcc_tracker_process_feedback_def Let_def)
  qed
qed

lemma clamp_unat: "unat (clamp_bitrate b) = min 10000000 (max 30000 (unat b))"
  by (simp add: clamp_bitrate_def Let_def BWE_MIN_BITRATE_def BWE_MAX_BITRATE_def word_less_nat_alt min_def max_def)

lemma scaled_word:
  "n \<le> 4000000000 \<Longrightarrow> unat (clamp_bitrate (word_of_nat n)) = min 10000000 (max 30000 n)"
  unfolding clamp_unat by (simp add: unsigned_of_nat take_bit_nat_eq_self)

text \<open>The bitrate the estimator computes before it is clamped, and how far each branch moves it.\<close>

definition unclamped_target :: "nat \<Rightarrow> nat \<Rightarrow> bool \<Rightarrow> nat \<Rightarrow> nat" where
  "unclamped_target matched lost grow b =
    (if matched < 10 * lost then fp_scale 53 b BWE_DECREASE_FACTOR
     else if matched < 50 * lost then fp_scale 24 b f_0_95
     else if grow then fp_scale 53 b BWE_INCREASE_FACTOR else b)"

lemma unclamped_target_bounds:
  assumes "30000 \<le> b" "b \<le> 10000000"
  shows "unclamped_target matched lost grow b \<le> 4000000000"
    and "matched < 10 * lost \<Longrightarrow> \<bar>100 * int (unclamped_target matched lost grow b) - 85 * int b\<bar> \<le> 100"
    and "\<not> matched < 10 * lost \<Longrightarrow> matched < 50 * lost \<Longrightarrow> \<bar>100 * int (unclamped_target matched lost grow b) - 95 * int b\<bar> \<le> 200"
    and "\<not> matched < 50 * lost \<Longrightarrow> grow \<Longrightarrow> \<bar>100 * int (unclamped_target matched lost grow b) - 108 * int b\<bar> \<le> 100"
    and "\<not> matched < 50 * lost \<Longrightarrow> \<not> grow \<Longrightarrow> unclamped_target matched lost grow b = b"
  using scale_factors [of b] assms by (auto simp: unclamped_target_def)

lemma feedback_target:
  assumes "tracker_inv t" "length (tw_packets m) \<le> RTCP_TWCC_MAX_PACKETS" "twcc_tracker_process_feedback t m now = (res, t')"
    and "matched = length (filter (remembered (tk_history t)) (tw_packets m))"
    and "lost = length (filter (\<lambda>p. remembered (tk_history t) p \<and> \<not> ps_received p) (tw_packets m))"
  shows "bw_target res = clamp_bitrate (word_of_nat (unclamped_target matched lost (now - tk_last_increase t > 1000000) (unat (tk_bitrate t))))"
    and "tk_bitrate t' = bw_target res" and "bw_congestion res \<longleftrightarrow> matched < 50 * lost"
    and "tk_last_increase t' = (if \<not> matched < 50 * lost \<and> now - tk_last_increase t > 1000000 then now else tk_last_increase t)"
proof -
  obtain h received l rtt samples where f: "feedback_loop (tw_packets m) (tk_history t) 0 0 0 0 = (h, received, l, rtt, samples)"
    using prod_cases5 by blast
  have c: "l = lost" "received + lost = matched" using feedback_counts [OF f] assms(4,5) by simp_all
  have tot: "received + lost \<le> 8192"
    unfolding c(2) assms(4) using assms(2) by (intro order_trans [OF length_filter_le]) (simp add: RTCP_TWCC_MAX_PACKETS_def)
  have thr: "fp_gt (loss_ratio lost (received + lost)) f_0_1 \<longleftrightarrow> matched < 10 * lost"
    "fp_gt (loss_ratio lost (received + lost)) f_0_02 \<longleftrightarrow> matched < 50 * lost"
    using loss_thresholds [OF _ tot, of lost] c(2)
    by (cases "received + lost = 0"; simp add: loss_ratio_def fp_gt_def)+
  show "bw_target res = clamp_bitrate (word_of_nat (unclamped_target matched lost (now - tk_last_increase t > 1000000) (unat (tk_bitrate t))))"
    "tk_bitrate t' = bw_target res" "bw_congestion res \<longleftrightarrow> matched < 50 * lost"
    "tk_last_increase t' = (if \<not> matched < 50 * lost \<and> now - tk_last_increase t > 1000000 then now else tk_last_increase t)"
    using assms(3) unfolding twcc_tracker_process_feedback_def f prod.case Let_def c(1) thr
    by (auto simp: unclamped_target_def)
qed

text \<open>C38. The bandwidth estimator moves by the loss ratio, in spite of its floating-point arithmetic.  Of the packets of a feedback of
  up to 8192 statuses, those count that are still in the send history.  After any history of calls the feedback is taken as
  congestion exactly when more than 2% of them were lost; the estimate is multiplied by 0.85 when more than 10% were lost,
  by 0.95 when more than 2% were, and otherwise by 1.08 if the last increase is more than a second ago; else it stays as it is.  The products are
  exact to 1 bit/s (2 bit/s for 0.95), and the result is brought between 30 kbit/s and 10 Mbit/s.\<close>

theorem twcc_estimate_reacts:
  assumes "twcc_tracker_create ok now0 = Some t0" "t = fold tracker_exec ops t0"
    and "length (tw_packets m) \<le> RTCP_TWCC_MAX_PACKETS" "twcc_tracker_process_feedback t m now = (res, t')"
    and "matched = length (filter (remembered (tk_history t)) (tw_packets m))"
    and "lost = length (filter (\<lambda>p. remembered (tk_history t) p \<and> \<not> ps_received p) (tw_packets m))"
  shows "\<exists>n. (bw_congestion res \<longleftrightarrow> 50 * lost > matched)
    \<and> (if 10 * lost > matched then \<bar>100 * int n - 85 * int (unat (tk_bitrate t))\<bar> \<le> 100
       else if 50 * lost > matched then \<bar>100 * int n - 95 * int (unat (tk_bitrate t))\<bar> \<le> 200
       else if now - tk_last_increase t > 1000000 then \<bar>100 * int n - 108 * int (unat (tk_bitrate t))\<bar> \<le> 100
       else n = unat (tk_bitrate t))
    \<and> unat (bw_target res) = min 10000000 (max 30000 n) \<and> tk_bitrate t' = bw_target res
    \<and> tk_last_increase t' = (if \<not> 50 * lost > matched \<and> now - tk_last_increase t > 1000000 then now else tk_last_increase t)"
proof -
  have inv: "tracker_inv t"
    using twcc_tx.run_inv [OF tracker_create_inv [OF assms(1)]] assms(2) by simp
  define b where "b = unat (tk_bitrate t)"
  have b: "30000 \<le> b" "b \<le> 10000000"
    using inv by (simp_all add: tracker_inv_def b_def BWE_MIN_BITRATE_def BWE_MAX_BITRATE_def word_le_nat_alt)
  define n where "n = unclamped_target matched lost (now - tk_last_increase t > 1000000) b"
  note tgt = feedback_target [OF inv assms(3-6), folded b_def, folded n_def]
  note n = unclamped_target_bounds [OF b, of matched lost "now - tk_last_increase t > 1000000", folded n_def]
  have "unat (bw_target res) = min 10000000 (max 30000 n)" using scaled_word [OF n(1)] tgt(1) by simp
  with tgt(2-4) n(2-5) show ?thesis by (intro exI [of _ n]) (simp add: b_def)
qed

lemma twcc_estimate_reacts_witness:
  "\<exists>t0 res t'. twcc_tracker_create True 0 = Some t0 \<and>
     twcc_tracker_process_feedback (fold tracker_exec [Sent 100 5, Sent 100 6] t0)
       (twcc_sample\<lparr>tw_packets := [\<lparr>ps_seq = 1, ps_arrival = 0, ps_received = False\<rparr>]\<rparr>) 9 = (res, t')
     \<and> bw_congestion res \<and> \<bar>int (unat (bw_target res)) - 255000\<bar> \<le> 1"
proof -
  let ?init = "the (twcc_tracker_create True 0)" and ?ops = "[Sent 100 5, Sent 100 6]"
  let ?m = "twcc_sample\<lparr>tw_packets := [\<lparr>ps_seq = 1, ps_arrival = 0, ps_received = False\<rparr>]\<rparr>"
  let ?t = "fold tracker_exec ?ops ?init"
  have c: "twcc_tracker_create True 0 = Some ?init" by (simp add: twcc_tracker_create_def)
  obtain res t' where p: "twcc_tracker_process_feedback ?t ?m 9 = (res, t')" by fastforce
  have l: "1 = length (filter (remembered (tk_history ?t)) (tw_packets ?m))"
    "1 = length (filter (\<lambda>p. remembered (tk_history ?t) p \<and> \<not> ps_received p) (tw_packets ?m))"
    by (simp_all add: remembered_def twcc_tracker_create_def twcc_tracker_register_packet_def)
  have b: "unat (tk_bitrate ?t) = 300000"
    by (simp add: twcc_tracker_create_def twcc_tracker_register_packet_def BWE_INITIAL_BITRATE_def)
  from twcc_estimate_reacts [OF c refl _ p l, unfolded b] obtain n
    where "bw_congestion res" "\<bar>100 * int n - 85 * 300000\<bar> \<le> 100" "unat (bw_target res) = min 10000000 (max 30000 n)"
    by (auto simp: RTCP_TWCC_MAX_PACKETS_def)
  with c p show ?thesis by (intro exI [of _ ?init] exI [of _ res] exI [of _ t']) auto
qed

end
