(* ===== verification/Jitter_Buffer.thy ===== *)
theory Jitter_Buffer
  imports Rtp_Packet
begin

text \<open>
  The playout buffer, \<^verbatim>\<open>webrtc/src/rtc/media/jitter_buffer.c\<close>: 256 slots indexed by the low byte of the
  sequence number, each with its own \<open>slot_size\<close> bytes (the slot's part of \<open>data_buffer\<close>).  The results
  of \<open>jitter_buffer_put\<close> and \<open>jitter_buffer_get_ex\<close> are the C return codes with the data handed out.
\<close>

section \<open>State\<close>

definition JITTER_BUFFER_SIZE :: nat where [simp]: "JITTER_BUFFER_SIZE = 256"
definition JITTER_BUFFER_MASK :: u16 where [simp]: "JITTER_BUFFER_MASK = 255"

record jitter_slot =
  js_data :: bytes
  js_len :: nat
  js_sequence :: u16
  js_timestamp :: u32
  js_arrival :: u64
  js_marker :: bool
  js_valid :: bool

record jitter_buffer =
  jb_slots :: "jitter_slot list"
  jb_slot_size :: nat
  jb_next_seq_out :: u16
  jb_initialized :: bool
  jb_clock_rate :: u32
  jb_target_delay_ms :: u32
  jb_min_delay_ms :: u32
  jb_max_delay_ms :: u32
  jb_current_jitter :: u32
  jb_packets_in :: u64
  jb_packets_out :: u64
  jb_packets_lost :: u64
  jb_packets_late :: u64
  jb_packets_duplicate :: u64

definition jitter_buffer_create :: "bool \<Rightarrow> u32 \<Rightarrow> u32 \<Rightarrow> nat \<Rightarrow> jitter_buffer option" where
  "jitter_buffer_create alloc_ok clock_rate target_delay_ms slot_size =
     (if \<not> alloc_ok then None
      else Some \<lparr>jb_slots = replicate JITTER_BUFFER_SIZE
                   \<lparr>js_data = replicate slot_size 0, js_len = 0, js_sequence = 0, js_timestamp = 0,
                    js_arrival = 0, js_marker = False, js_valid = False\<rparr>,
                 jb_slot_size = slot_size, jb_next_seq_out = 0, jb_initialized = False,
                 jb_clock_rate = clock_rate, jb_target_delay_ms = target_delay_ms, jb_min_delay_ms = 10,
                 jb_max_delay_ms = 500, jb_current_jitter = 0, jb_packets_in = 0, jb_packets_out = 0,
                 jb_packets_lost = 0, jb_packets_late = 0, jb_packets_duplicate = 0\<rparr>)"

definition jitter_buffer_reset :: "jitter_buffer \<Rightarrow> jitter_buffer" where
  "jitter_buffer_reset jb = jb\<lparr>jb_slots := map (\<lambda>s. s\<lparr>js_valid := False\<rparr>) (jb_slots jb),
     jb_initialized := False, jb_next_seq_out := 0, jb_current_jitter := 0, jb_packets_in := 0,
     jb_packets_out := 0, jb_packets_lost := 0, jb_packets_late := 0, jb_packets_duplicate := 0\<rparr>"

definition jb_seq_diff :: "u16 \<Rightarrow> u16 \<Rightarrow> int" where
  "jb_seq_diff s1 s2 = sint (s1 - s2)"

definition slot_idx :: "u16 \<Rightarrow> nat" where
  "slot_idx sq = unat (sq AND JITTER_BUFFER_MASK)"

text \<open>The \<open>payload_len\<close> bytes at \<open>pkt->payload\<close> (a null payload has no bytes).\<close>

definition payload_bytes :: "rtp_packet \<Rightarrow> bytes" where
  "payload_bytes pkt = take (p_payload_len pkt) (case p_payload pkt of None \<Rightarrow> [] | Some b \<Rightarrow> b)"

section \<open>Operations\<close>

definition jitter_buffer_put :: "jitter_buffer \<Rightarrow> rtp_packet \<Rightarrow> u64 \<Rightarrow> int \<times> jitter_buffer" where
  "jitter_buffer_put jb pkt now_ms =
     (let sq = h_sequence (p_header pkt); ts = h_timestamp (p_header pkt);
          jb = (if \<not> jb_initialized jb then jb\<lparr>jb_next_seq_out := sq, jb_initialized := True\<rparr> else jb);
          diff = jb_seq_diff sq (jb_next_seq_out jb)
      in if diff < - int (JITTER_BUFFER_SIZE div 2) \<or> diff \<ge> int (JITTER_BUFFER_SIZE div 2)
         then (- 1, jb\<lparr>jb_packets_late := jb_packets_late jb + 1\<rparr>)
         else let slot = jb_slots jb ! slot_idx sq
              in if js_valid slot \<and> js_sequence slot = sq
                 then (1, jb\<lparr>jb_packets_duplicate := jb_packets_duplicate jb + 1\<rparr>)
                 else if p_payload_len pkt > jb_slot_size jb then (- 1, jb)
                 else (0, jb\<lparr>jb_slots := (jb_slots jb)[slot_idx sq :=
                        \<lparr>js_data = mem_write (js_data slot) 0 (payload_bytes pkt), js_len = p_payload_len pkt,
                         js_sequence = sq, js_timestamp = ts, js_arrival = now_ms,
                         js_marker = (h_marker (p_header pkt) \<noteq> 0), js_valid = True\<rparr>],
                      jb_packets_in := jb_packets_in jb + 1\<rparr>))"

text \<open>Is there a packet in one of the slots behind \<open>next_seq_out\<close>, offsets \<open>from .. 63\<close>?\<close>

definition have_later :: "jitter_buffer \<Rightarrow> nat \<Rightarrow> bool" where
  "have_later jb from \<longleftrightarrow>
     list_ex (\<lambda>i. js_valid (jb_slots jb ! slot_idx (jb_next_seq_out jb + word_of_nat i)))
       [from..<JITTER_BUFFER_SIZE div 4]"

type_synonym playout = "bytes \<times> u32 \<times> bool"

definition jitter_buffer_get_ex :: "jitter_buffer \<Rightarrow> nat \<Rightarrow> u64 \<Rightarrow> int \<times> playout option \<times> jitter_buffer" where
  "jitter_buffer_get_ex jb max_len now_ms =
     (if \<not> jb_initialized jb then (0, None, jb)
      else let idx = slot_idx (jb_next_seq_out jb); slot = jb_slots jb ! idx
           in if \<not> js_valid slot
              then if have_later jb 1
                   then (- 1, None, jb\<lparr>jb_packets_lost := jb_packets_lost jb + 1,
                                       jb_next_seq_out := jb_next_seq_out jb + 1\<rparr>)
                   else (0, None, jb)
              else if now_ms - js_arrival slot < ucast (jb_target_delay_ms jb) then (0, None, jb)
              else if js_len slot > max_len then (- 1, None, jb)
              else (1, Some (take (js_len slot) (js_data slot), js_timestamp slot, js_marker slot),
                    jb\<lparr>jb_slots := (jb_slots jb)[idx := slot\<lparr>js_valid := False\<rparr>],
                       jb_next_seq_out := jb_next_seq_out jb + 1,
                       jb_packets_out := jb_packets_out jb + 1\<rparr>))"

definition jitter_buffer_get :: "jitter_buffer \<Rightarrow> nat \<Rightarrow> u64 \<Rightarrow> int \<times> (bytes \<times> u32) option \<times> jitter_buffer" where
  "jitter_buffer_get jb max_len now_ms =
     (let (c, out, jb') = jitter_buffer_get_ex jb max_len now_ms
      in (c, map_option (\<lambda>(d, ts, m). (d, ts)) out, jb'))"

definition jitter_buffer_peek :: "jitter_buffer \<Rightarrow> u32 option" where
  "jitter_buffer_peek jb =
     (if \<not> jb_initialized jb then None
      else let slot = jb_slots jb ! slot_idx (jb_next_seq_out jb)
           in if \<not> js_valid slot then None else Some (js_timestamp slot))"

definition jitter_buffer_get_delay :: "jitter_buffer \<Rightarrow> u32" where
  "jitter_buffer_get_delay jb = jb_target_delay_ms jb"

definition jitter_buffer_get_jitter :: "jitter_buffer \<Rightarrow> u32" where
  "jitter_buffer_get_jitter jb =
     (if jb_clock_rate jb = 0 then 0 else jb_current_jitter jb * 1000 div jb_clock_rate jb)"

definition jitter_buffer_get_count :: "jitter_buffer \<Rightarrow> nat" where
  "jitter_buffer_get_count jb = length (filter js_valid (jb_slots jb))"

definition jitter_buffer_is_empty :: "jitter_buffer \<Rightarrow> bool" where
  "jitter_buffer_is_empty jb \<longleftrightarrow> jitter_buffer_get_count jb = 0"

definition jitter_buffer_get_missing :: "jitter_buffer \<Rightarrow> nat \<Rightarrow> u16 list" where
  "jitter_buffer_get_missing jb max_count =
     (if \<not> jb_initialized jb then []
      else take max_count
        (map (\<lambda>i. jb_next_seq_out jb + word_of_nat i)
          (filter (\<lambda>i. \<not> js_valid (jb_slots jb ! slot_idx (jb_next_seq_out jb + word_of_nat i))
                       \<and> have_later jb (i + 1))
             [0..<JITTER_BUFFER_SIZE div 4])))"

definition jitter_buffer_set_delay_bounds :: "jitter_buffer \<Rightarrow> u32 \<Rightarrow> u32 \<Rightarrow> jitter_buffer" where
  "jitter_buffer_set_delay_bounds jb min_ms max_ms =
     (let jb = jb\<lparr>jb_min_delay_ms := min_ms, jb_max_delay_ms := max_ms\<rparr>;
          jb = (if jb_target_delay_ms jb < min_ms then jb\<lparr>jb_target_delay_ms := min_ms\<rparr> else jb)
      in if jb_target_delay_ms jb > max_ms then jb\<lparr>jb_target_delay_ms := max_ms\<rparr> else jb)"

section \<open>Invariant\<close>

definition jb_inv :: "jitter_buffer \<Rightarrow> bool" where
  "jb_inv jb \<longleftrightarrow> length (jb_slots jb) = 256
     \<and> (\<forall>i<256. length (js_data (jb_slots jb ! i)) = jb_slot_size jb
          \<and> (js_valid (jb_slots jb ! i) \<longrightarrow> js_len (jb_slots jb ! i) \<le> jb_slot_size jb
               \<and> slot_idx (js_sequence (jb_slots jb ! i)) = i))"

lemma slot_idx_mod: "slot_idx sq = unat sq mod 256"
proof -
  have "sq AND 255 = take_bit 8 sq" by (simp add: take_bit_eq_mask mask_eq_exp_minus_1)
  moreover have "unat (take_bit 8 sq) = unat sq mod 256" unfolding unsigned_take_bit_eq by (simp add: take_bit_eq_mod)
  ultimately show ?thesis by (simp only: slot_idx_def JITTER_BUFFER_MASK_def)
qed

lemma slot_idx_less [simp]: "slot_idx sq < 256"
  by (simp add: slot_idx_mod)

lemma slot_idx_add: "slot_idx (sq + word_of_nat k) = (slot_idx sq + k) mod 256"
proof -
  have "unat (sq + word_of_nat k) mod 256 = (unat sq + k) mod 65536 mod 256"
    by (simp add: unat_word_ariths unsigned_of_nat take_bit_eq_mod mod_simps)
  also have "\<dots> = (unat sq + k) mod 256" by (simp add: mod_mod_cancel)
  finally show ?thesis by (simp add: slot_idx_mod mod_simps)
qed

text \<open>Packets the parser accepts carry the payload they claim.\<close>

definition payload_ok :: "rtp_packet \<Rightarrow> bool" where
  "payload_ok pkt \<longleftrightarrow> length (payload_bytes pkt) = p_payload_len pkt"

lemma jb_create_inv [inv_intros]: "jitter_buffer_create ok c d n = Some jb \<Longrightarrow> jb_inv jb"
  by (auto simp: jitter_buffer_create_def jb_inv_def split: if_splits)

lemma jb_update_slot:
  "jb_inv jb \<Longrightarrow> i < 256 \<Longrightarrow> length (js_data s) = jb_slot_size jb \<Longrightarrow>
   (js_valid s \<Longrightarrow> js_len s \<le> jb_slot_size jb \<and> slot_idx (js_sequence s) = i) \<Longrightarrow>
   jb_inv (jb\<lparr>jb_slots := (jb_slots jb)[i := s]\<rparr>)"
  by (auto simp: jb_inv_def nth_list_update)

lemma jb_inv_fields [simp]:
  "jb_inv (jb\<lparr>jb_next_seq_out := x\<rparr>) = jb_inv jb" "jb_inv (jb\<lparr>jb_initialized := b\<rparr>) = jb_inv jb"
  "jb_inv (jb\<lparr>jb_packets_in := c\<rparr>) = jb_inv jb" "jb_inv (jb\<lparr>jb_packets_out := c\<rparr>) = jb_inv jb"
  "jb_inv (jb\<lparr>jb_packets_lost := c\<rparr>) = jb_inv jb" "jb_inv (jb\<lparr>jb_packets_late := c\<rparr>) = jb_inv jb"
  "jb_inv (jb\<lparr>jb_packets_duplicate := c\<rparr>) = jb_inv jb" "jb_inv (jb\<lparr>jb_current_jitter := w\<rparr>) = jb_inv jb"
  "jb_inv (jb\<lparr>jb_min_delay_ms := w\<rparr>) = jb_inv jb" "jb_inv (jb\<lparr>jb_max_delay_ms := w\<rparr>) = jb_inv jb"
  "jb_inv (jb\<lparr>jb_target_delay_ms := w\<rparr>) = jb_inv jb"
  by (simp_all add: jb_inv_def)

lemma jb_put_inv [inv_intros]:
  assumes "jb_inv jb" "payload_ok pkt"
  shows "jb_inv (snd (jitter_buffer_put jb pkt now))"
proof -
  let ?sq = "h_sequence (p_header pkt)"
  define j where "j = (if \<not> jb_initialized jb then jb\<lparr>jb_next_seq_out := ?sq, jb_initialized := True\<rparr> else jb)"
  have j: "jb_inv j" using assms(1) by (simp add: j_def jb_inv_def)
  have "length (js_data (jb_slots j ! slot_idx ?sq)) = jb_slot_size j"
    using j by (simp add: jb_inv_def)
  then have st: "jb_inv (j\<lparr>jb_slots := (jb_slots j)[slot_idx ?sq :=
      \<lparr>js_data = mem_write (js_data (jb_slots j ! slot_idx ?sq)) 0 (payload_bytes pkt),
       js_len = p_payload_len pkt, js_sequence = ?sq, js_timestamp = t, js_arrival = a, js_marker = m,
       js_valid = True\<rparr>]\<rparr>)" if "p_payload_len pkt \<le> jb_slot_size j" for t a m
    using that assms(2) by (intro jb_update_slot j) (simp_all add: payload_ok_def)
  show ?thesis
    unfolding jitter_buffer_put_def Let_def j_def [symmetric]
    using j st by (auto simp: not_less)
qed

lemma jb_get_inv [inv_intros]: "jb_inv jb \<Longrightarrow> jb_inv (snd (snd (jitter_buffer_get_ex jb m now)))"
proof -
  assume jb: "jb_inv jb"
  let ?i = "slot_idx (jb_next_seq_out jb)"
  have "jb_inv (jb\<lparr>jb_slots := (jb_slots jb)[?i := (jb_slots jb ! ?i)\<lparr>js_valid := False\<rparr>]\<rparr>)"
    using jb by (intro jb_update_slot) (simp_all add: jb_inv_def)
  with jb show ?thesis
    by (auto simp: jitter_buffer_get_ex_def Let_def)
qed

lemma jb_reset_inv [inv_intros]: "jb_inv jb \<Longrightarrow> jb_inv (jitter_buffer_reset jb)"
  by (simp add: jitter_buffer_reset_def) (simp add: jb_inv_def)

lemma jb_bounds_inv [inv_intros]: "jb_inv jb \<Longrightarrow> jb_inv (jitter_buffer_set_delay_bounds jb a b)"
  by (simp add: jitter_buffer_set_delay_bounds_def Let_def)

datatype jb_op = Put rtp_packet u64 | Get nat u64 | Reset | Set_Bounds u32 u32

text \<open>The engine puts only packets that passed \<open>rtp_packet_parse\<close>; others are not executed.\<close>

fun jb_exec :: "jb_op \<Rightarrow> jitter_buffer \<Rightarrow> jitter_buffer" where
  "jb_exec (Put pkt now) jb = (if payload_ok pkt then snd (jitter_buffer_put jb pkt now) else jb)"
| "jb_exec (Get m now) jb = snd (snd (jitter_buffer_get_ex jb m now))"
| "jb_exec Reset jb = jitter_buffer_reset jb"
| "jb_exec (Set_Bounds a b) jb = jitter_buffer_set_delay_bounds jb a b"

interpretation jitter: machine jb_inv jb_exec
proof
  fix jb op assume "jb_inv jb"
  then show "jb_inv (jb_exec op jb)" by (cases op) (simp_all add: inv_intros)
qed

text \<open>No sequence of operations on a jitter buffer corrupts it: every slot keeps its own
  \<open>slot_size\<close> bytes, a stored packet fits its slot and sits in the slot its sequence number names.\<close>

theorem jitter_buffer_safe:
  assumes "jitter_buffer_create ok clock delay sz = Some jb"
  shows "jb_inv (fold jb_exec ops jb)"
  using jitter.run_inv [OF jb_create_inv [OF assms]] .

lemma jitter_buffer_safe_witness: "\<exists>jb. jitter_buffer_create True 90000 50 1500 = Some jb \<and> jb_inv (fold jb_exec [Reset, Get 10 3] jb)"
  using jitter_buffer_safe [of True 90000 50 1500] by (simp add: jitter_buffer_create_def del: fold.simps)

section \<open>Playout order\<close>

text \<open>A buffer is \<^emph>\<open>aligned\<close> when every stored packet is at most 127 positions ahead of
  \<open>next_seq_out\<close>: then the slot of a number holds that number or nothing.\<close>

definition aligned :: "jitter_buffer \<Rightarrow> bool" where
  "aligned jb \<longleftrightarrow> (\<forall>i<256. js_valid (jb_slots jb ! i) \<longrightarrow>
     (\<exists>k<128. js_sequence (jb_slots jb ! i) = jb_next_seq_out jb + word_of_nat k))"

definition stored :: "jitter_buffer \<Rightarrow> u16 \<Rightarrow> playout option" where
  "stored jb sq = (let s = jb_slots jb ! slot_idx sq
     in if js_valid s \<and> js_sequence s = sq then Some (take (js_len s) (js_data s), js_timestamp s, js_marker s)
        else None)"

definition playout_of :: "rtp_packet \<Rightarrow> playout" where
  "playout_of pkt = (payload_bytes pkt, h_timestamp (p_header pkt), h_marker (p_header pkt) \<noteq> 0)"

lemma aligned_slot:
  assumes "jb_inv jb" "aligned jb" "js_valid (jb_slots jb ! slot_idx (jb_next_seq_out jb))"
  shows "js_sequence (jb_slots jb ! slot_idx (jb_next_seq_out jb)) = jb_next_seq_out jb"
proof -
  let ?i = "slot_idx (jb_next_seq_out jb)"
  obtain k where k: "k < 128" "js_sequence (jb_slots jb ! ?i) = jb_next_seq_out jb + word_of_nat k"
    using assms(2,3) slot_idx_less unfolding aligned_def by blast
  have "slot_idx (js_sequence (jb_slots jb ! ?i)) = ?i" using assms(1,3) by (simp add: jb_inv_def)
  then have "(?i + k) mod 256 = ?i" by (simp add: k(2) slot_idx_add)
  then have "k = 0" using k(1) slot_idx_less [of "jb_next_seq_out jb"]
    by (cases "?i + k < 256") (simp_all add: le_mod_geq)
  with k(2) show ?thesis by simp
qed

lemma offset_inj: "j < 65536 \<Longrightarrow> k < 65536 \<Longrightarrow> (base + word_of_nat j :: u16) = base + word_of_nat k \<longleftrightarrow> j = k"
  by (simp add: word_of_nat_eq_iff take_bit_nat_eq_self)

lemma slot_idx_offset:
  "j < 256 \<Longrightarrow> k < 256 \<Longrightarrow> slot_idx (base + word_of_nat j) = slot_idx (base + word_of_nat k) \<longleftrightarrow> j = k"
proof -
  define b where "b = slot_idx base"
  have b: "b < 256" by (simp add: b_def)
  have "(b + i) mod 256 = (if b + i < 256 then b + i else b + i - 256)" if "i < 256" for i
    using that b by (simp add: le_mod_geq)
  then show "j < 256 \<Longrightarrow> k < 256 \<Longrightarrow> ?thesis" by (auto simp: slot_idx_add b_def [symmetric])
qed

lemma jb_diff_offset: "k < 128 \<Longrightarrow> jb_seq_diff (base + word_of_nat k) base = int k"
proof -
  assume k: "k < 128"
  have "uint (word_of_nat k :: u16) = int k" using k by (simp add: unsigned_of_nat take_bit_nat_eq_self)
  with k show ?thesis by (simp add: jb_seq_diff_def sint_u16)
qed

lemma stored_other_slot: "slot_idx t \<noteq> i \<Longrightarrow> i < 256 \<Longrightarrow> stored (jb\<lparr>jb_slots := (jb_slots jb)[i := s]\<rparr>) t = stored jb t"
  by (simp add: stored_def)

lemma stored_fields [simp]:
  "stored (jb\<lparr>jb_next_seq_out := x\<rparr>) = stored jb" "stored (jb\<lparr>jb_initialized := b\<rparr>) = stored jb"
  "stored (jb\<lparr>jb_packets_in := c\<rparr>) = stored jb" "stored (jb\<lparr>jb_packets_out := c\<rparr>) = stored jb"
  by (simp_all add: stored_def fun_eq_iff)

definition ripe :: "jitter_buffer \<Rightarrow> u64 \<Rightarrow> bool" where
  "ripe jb now \<longleftrightarrow> (\<forall>i<256. js_valid (jb_slots jb ! i) \<longrightarrow>
     \<not> now - js_arrival (jb_slots jb ! i) < ucast (jb_target_delay_ms jb))"

text \<open>An on-time packet that is not yet stored is added to the window, nothing else changes.\<close>

lemma put_on_time:
  assumes "jb_inv jb" "aligned jb" "jb_initialized jb" "payload_ok pkt" "p_payload_len pkt \<le> jb_slot_size jb"
    and "h_sequence (p_header pkt) = jb_next_seq_out jb + word_of_nat k" "k < 128"
    and "stored jb (h_sequence (p_header pkt)) = None" "ripe jb now" "\<not> now - t < ucast (jb_target_delay_ms jb)"
  shows "\<exists>jb'. jitter_buffer_put jb pkt t = (0, jb') \<and> jb_inv jb' \<and> aligned jb' \<and> jb_initialized jb'
    \<and> jb_next_seq_out jb' = jb_next_seq_out jb \<and> jb_slot_size jb' = jb_slot_size jb \<and> ripe jb' now
    \<and> jb_target_delay_ms jb' = jb_target_delay_ms jb
    \<and> stored jb' = (stored jb)(h_sequence (p_header pkt) \<mapsto> playout_of pkt)"
proof -
  let ?sq = "h_sequence (p_header pkt)"
  let ?i = "slot_idx ?sq"
  let ?old = "jb_slots jb ! ?i"
  let ?s = "\<lparr>js_data = mem_write (js_data ?old) 0 (payload_bytes pkt), js_len = p_payload_len pkt,
     js_sequence = ?sq, js_timestamp = h_timestamp (p_header pkt), js_arrival = t,
     js_marker = (h_marker (p_header pkt) \<noteq> 0), js_valid = True\<rparr>"
  let ?jb = "jb\<lparr>jb_slots := (jb_slots jb)[?i := ?s], jb_packets_in := jb_packets_in jb + 1\<rparr>"
  have old: "length (js_data ?old) = jb_slot_size jb" "length (jb_slots jb) = 256"
    using assms(1) by (simp_all add: jb_inv_def)
  have free: "\<not> js_valid ?old"
  proof
    assume v: "js_valid ?old"
    then obtain j where j: "j < 128" "js_sequence ?old = jb_next_seq_out jb + word_of_nat j"
      using assms(2) slot_idx_less unfolding aligned_def by blast
    have "slot_idx (js_sequence ?old) = ?i" using assms(1) v by (simp add: jb_inv_def)
    then have "j = k" using j assms(6,7) slot_idx_offset [of j k "jb_next_seq_out jb"] by simp
    with v j assms(6,8) show False by (simp add: stored_def Let_def)
  qed
  have put: "jitter_buffer_put jb pkt t = (0, ?jb)"
    using assms(3,5,7) free jb_diff_offset [of k "jb_next_seq_out jb"]
    by (simp add: jitter_buffer_put_def assms(6) Let_def)
  have "jb_inv ?jb" using jb_put_inv [OF assms(1,4), of t] put by simp
  moreover have "aligned ?jb" "ripe ?jb now"
    using assms(2,6,7,9,10) old by (auto simp: aligned_def ripe_def nth_list_update)
  moreover have "stored ?jb = (stored jb)(?sq \<mapsto> playout_of pkt)"
  proof
    fix u
    show "stored ?jb u = ((stored jb)(?sq \<mapsto> playout_of pkt)) u"
    proof (cases "slot_idx u = ?i")
      case True
      have "take (p_payload_len pkt) (mem_write (js_data ?old) 0 (payload_bytes pkt)) = payload_bytes pkt"
        using assms(4) by (simp add: payload_ok_def mem_write_0)
      with True free old show ?thesis by (simp add: stored_def playout_of_def)
    next
      case False
      then have "u \<noteq> ?sq" by auto
      with False show ?thesis by (simp add: stored_def)
    qed
  qed
  ultimately show ?thesis using put assms(3) by simp
qed

text \<open>A ripe packet whose turn it is is handed out and leaves the window.\<close>

lemma get_next:
  assumes "jb_inv jb" "aligned jb" "jb_initialized jb" "ripe jb now"
    and "stored jb (jb_next_seq_out jb) = Some p" "length (fst p) \<le> max_len"
  shows "\<exists>jb'. jitter_buffer_get_ex jb max_len now = (1, Some p, jb') \<and> jb_inv jb' \<and> aligned jb' \<and> jb_initialized jb'
    \<and> jb_next_seq_out jb' = jb_next_seq_out jb + 1 \<and> ripe jb' now
    \<and> stored jb' = (stored jb)(jb_next_seq_out jb := None)"
proof -
  let ?i = "slot_idx (jb_next_seq_out jb)"
  let ?s = "jb_slots jb ! ?i"
  let ?jb = "jb\<lparr>jb_slots := (jb_slots jb)[?i := ?s\<lparr>js_valid := False\<rparr>],
    jb_next_seq_out := jb_next_seq_out jb + 1, jb_packets_out := jb_packets_out jb + 1\<rparr>"
  have s: "js_valid ?s" "js_sequence ?s = jb_next_seq_out jb" "p = (take (js_len ?s) (js_data ?s), js_timestamp ?s, js_marker ?s)"
    using assms(5) by (auto simp: stored_def Let_def split: if_splits)
  have l: "length (jb_slots jb) = 256" "js_len ?s \<le> length (js_data ?s)" using assms(1) s(1) by (simp_all add: jb_inv_def)
  have get: "jitter_buffer_get_ex jb max_len now = (1, Some p, ?jb)"
    using assms(3,4,6) s l by (simp add: jitter_buffer_get_ex_def ripe_def Let_def)
  have "jb_inv ?jb" using jb_get_inv [OF assms(1), of max_len now] get by simp
  moreover have "ripe ?jb now" using assms(4) l by (auto simp: ripe_def nth_list_update)
  moreover have "aligned ?jb"
  proof -
    have "\<exists>k<128. js_sequence (jb_slots jb ! i) = jb_next_seq_out jb + 1 + word_of_nat k"
      if i: "i < 256" "i \<noteq> ?i" "js_valid (jb_slots jb ! i)" for i
    proof -
      obtain k where k: "k < 128" "js_sequence (jb_slots jb ! i) = jb_next_seq_out jb + word_of_nat k"
        using assms(2) i unfolding aligned_def by blast
      have "slot_idx (js_sequence (jb_slots jb ! i)) = i" using assms(1) i by (simp add: jb_inv_def)
      then have "k \<noteq> 0" using i(2) k(2) by (cases k) auto
      then have "word_of_nat k = (1 + word_of_nat (k - 1) :: u16)" by (cases k) simp_all
      then show ?thesis using k by (intro exI [of _ "k - 1"]) (simp add: add.assoc)
    qed
    then show ?thesis using l by (auto simp: aligned_def nth_list_update)
  qed
  moreover have "stored ?jb = (stored jb)(jb_next_seq_out jb := None)"
  proof
    fix u
    show "stored ?jb u = ((stored jb)(jb_next_seq_out jb := None)) u"
      using s(2) l by (cases "slot_idx u = ?i") (auto simp: stored_def)
  qed
  ultimately show ?thesis using get assms(3) by simp
qed

fun jb_play :: "nat \<Rightarrow> nat \<Rightarrow> u64 \<Rightarrow> jitter_buffer \<Rightarrow> (int \<times> playout option) list" where
  "jb_play 0 max_len now jb = []"
| "jb_play (Suc n) max_len now jb = (let (c, out, jb') = jitter_buffer_get_ex jb max_len now
     in (c, out) # jb_play n max_len now jb')"

lemma play_stored:
  "jb_inv jb \<Longrightarrow> aligned jb \<Longrightarrow> jb_initialized jb \<Longrightarrow> ripe jb now \<Longrightarrow> n \<le> 65536 \<Longrightarrow>
   \<forall>k<n. stored jb (jb_next_seq_out jb + word_of_nat k) = Some (f k) \<and> length (fst (f k)) \<le> max_len \<Longrightarrow>
   jb_play n max_len now jb = map (\<lambda>k. (1, Some (f k))) [0..<n]"
proof (induction n arbitrary: jb f)
  case (Suc n)
  have h: "stored jb (jb_next_seq_out jb) = Some (f 0)" "length (fst (f 0)) \<le> max_len"
    using Suc.prems(6) by force+
  from get_next [OF Suc.prems(1-4) h] obtain jb' where
    g: "jitter_buffer_get_ex jb max_len now = (1, Some (f 0), jb')" "jb_inv jb'" "aligned jb'" "jb_initialized jb'"
      "jb_next_seq_out jb' = jb_next_seq_out jb + 1" "ripe jb' now"
      "stored jb' = (stored jb)(jb_next_seq_out jb := None)" by blast
  have "stored jb' (jb_next_seq_out jb' + word_of_nat k) = Some (f (Suc k)) \<and> length (fst (f (Suc k))) \<le> max_len"
    if "k < n" for k
  proof -
    have "jb_next_seq_out jb + word_of_nat (Suc k) \<noteq> jb_next_seq_out jb"
      using offset_inj [of "Suc k" 0 "jb_next_seq_out jb"] that Suc.prems(5) by simp
    moreover have "jb_next_seq_out jb' + word_of_nat k = jb_next_seq_out jb + word_of_nat (Suc k)"
      by (simp add: g(5) ac_simps)
    moreover have "stored jb (jb_next_seq_out jb + word_of_nat (Suc k)) = Some (f (Suc k)) \<and> length (fst (f (Suc k))) \<le> max_len"
      using Suc.prems(6) that by blast
    ultimately show ?thesis by (simp only: g(7) fun_upd_apply if_False)
  qed
  with Suc.IH [OF g(2-4,6), of "f \<circ> Suc"] Suc.prems(5)
  have "jb_play n max_len now jb' = map (\<lambda>k. (1, Some (f (Suc k)))) [0..<n]" by simp
  with g(1) show ?case 
    by (simp add: upt_conv_Cons map_Suc_upt [symmetric] comp_def del: upt_Suc)
qed simp

abbreviation put_all :: "(nat \<times> rtp_packet \<times> u64) list \<Rightarrow> jitter_buffer \<Rightarrow> jitter_buffer" where
  "put_all \<equiv> fold (\<lambda>(k, pkt, t) jb. snd (jitter_buffer_put jb pkt t))"

lemma put_first:
  "\<not> jb_initialized jb \<Longrightarrow> h_sequence (p_header pkt) = s \<Longrightarrow>
   jitter_buffer_put jb pkt t = jitter_buffer_put (jb\<lparr>jb_next_seq_out := s, jb_initialized := True\<rparr>) pkt t"
  by (simp add: jitter_buffer_put_def)

lemma put_all_stored:
  assumes "jb_inv jb" "jb_initialized jb" "\<forall>i<256. \<not> js_valid (jb_slots jb ! i)"
    and "distinct (map fst xs)"
    and "\<forall>(k, pkt, t)\<in>set xs. k < 128 \<and> h_sequence (p_header pkt) = jb_next_seq_out jb + word_of_nat k \<and> payload_ok pkt
           \<and> p_payload_len pkt \<le> jb_slot_size jb \<and> \<not> now - t < ucast (jb_target_delay_ms jb)"
  shows "\<exists>jb'. put_all xs jb = jb' \<and> jb_inv jb' \<and> aligned jb' \<and> jb_initialized jb' \<and> ripe jb' now
     \<and> jb_next_seq_out jb' = jb_next_seq_out jb \<and> jb_slot_size jb' = jb_slot_size jb
     \<and> jb_target_delay_ms jb' = jb_target_delay_ms jb
     \<and> (\<forall>k<128. stored jb' (jb_next_seq_out jb + word_of_nat k) = map_option (\<lambda>y. playout_of (fst y)) (map_of xs k))"
  using assms(4,5)
proof (induction xs rule: rev_induct)
  case Nil
  with assms(1-3) show ?case by (simp add: aligned_def ripe_def stored_def)
next
  case (snoc x xs)
  obtain k pkt t where x: "x = (k, pkt, t)" by (cases x)
  let ?sq = "jb_next_seq_out jb + word_of_nat k"
  have p: "k < 128" "h_sequence (p_header pkt) = ?sq" "payload_ok pkt" "p_payload_len pkt \<le> jb_slot_size jb"
    "\<not> now - t < ucast (jb_target_delay_ms jb)" "k \<notin> fst ` set xs"
    using snoc.prems by (auto simp: x)
  from snoc obtain j where j: "put_all xs jb = j" "jb_inv j" "aligned j" "jb_initialized j" "ripe j now"
    "jb_next_seq_out j = jb_next_seq_out jb" "jb_slot_size j = jb_slot_size jb"
    "jb_target_delay_ms j = jb_target_delay_ms jb"
    "\<forall>k<128. stored j (jb_next_seq_out jb + word_of_nat k) = map_option (\<lambda>y. playout_of (fst y)) (map_of xs k)"
    by auto
  have none: "map_of xs k = None" using p(6) by (simp add: map_of_eq_None_iff)
  then have "stored j (h_sequence (p_header pkt)) = None" using j(9) p(1,2) by simp
  then obtain j' where j': "jitter_buffer_put j pkt t = (0, j')" "jb_inv j'" "aligned j'" "jb_initialized j'"
    "jb_next_seq_out j' = jb_next_seq_out j" "jb_slot_size j' = jb_slot_size j" "ripe j' now"
    "jb_target_delay_ms j' = jb_target_delay_ms j" "stored j' = (stored j)(?sq \<mapsto> playout_of pkt)"
    using put_on_time [of j pkt k now t] j p by auto
  have "stored j' (jb_next_seq_out jb + word_of_nat i) = map_option (\<lambda>y. playout_of (fst y)) (map_of (xs @ [x]) i)"
    if "i < 128" for i
    using j(9) j'(9) that p(1) none offset_inj [of i k "jb_next_seq_out jb"]
    by (auto simp: x map_add_def split: option.splits)
  with j j' show ?case by (simp add: x)
qed

text \<open>C30. Reordering on the network is undone for a burst that starts with its first packet: when a fresh buffer is given up to 128 packets with
  consecutive sequence numbers, none missing and none twice, the lowest first and the others in any order, each stored at its own time with a payload that
  fits its slot, and the playout delay has then passed for all of them, the buffer hands them out one by one in sequence order, with the
  bytes, timestamp and marker they arrived with.\<close>

theorem jitter_buffer_reorders:
  assumes "jitter_buffer_create ok clock delay sz = Some jb" "n \<le> 128" "xs \<noteq> []" "fst (hd xs) = 0"
    and "distinct (map fst xs)" "fst ` set xs = {..<n}"
    and "\<forall>(k, pkt, t)\<in>set xs. h_sequence (p_header pkt) = s + word_of_nat k \<and> payload_ok pkt
           \<and> p_payload_len pkt \<le> sz \<and> p_payload_len pkt \<le> max_len \<and> \<not> now - t < ucast delay"
  shows "jb_play n max_len now (put_all xs jb)
         = map (\<lambda>k. (1, Some (playout_of (fst (the (map_of xs k)))))) [0..<n]"
proof -
  let ?jb = "jb\<lparr>jb_next_seq_out := s, jb_initialized := True\<rparr>"
  have c: "jb_inv jb" "\<not> jb_initialized jb" "\<forall>i<256. \<not> js_valid (jb_slots jb ! i)" "jb_slot_size jb = sz"
    "jb_target_delay_ms jb = delay"
    using assms(1) jb_create_inv by (auto simp: jitter_buffer_create_def split: if_splits)
  have pk: "k < 128 \<and> h_sequence (p_header pkt) = s + word_of_nat k \<and> payload_ok pkt \<and> p_payload_len pkt \<le> sz
      \<and> p_payload_len pkt \<le> max_len \<and> \<not> now - t < ucast delay" if m: "(k, pkt, t) \<in> set xs" for k pkt t
  proof -
    have "k \<in> {..<n}" using m assms(6) by (metis fst_conv image_eqI)
    then show ?thesis using bspec [OF assms(7) m] assms(2) by simp
  qed
  have start: "put_all xs jb = put_all xs ?jb"
  proof -
    obtain pkt t ys where xs: "xs = (0, pkt, t) # ys" using assms(3,4) by (cases xs) auto
    then have "h_sequence (p_header pkt) = s" using pk [of 0 pkt t] by simp
    with xs put_first [OF c(2)] show ?thesis by simp
  qed
  obtain j where j: "put_all xs ?jb = j" "jb_inv j" "aligned j" "jb_initialized j" "ripe j now" "jb_next_seq_out j = s"
    "\<forall>k<128. stored j (s + word_of_nat k) = map_option (\<lambda>y. playout_of (fst y)) (map_of xs k)"
    using put_all_stored [of ?jb xs now] c assms(5) pk by fastforce
  have "stored j (jb_next_seq_out j + word_of_nat k) = Some (playout_of (fst (the (map_of xs k))))
      \<and> length (fst (playout_of (fst (the (map_of xs k))))) \<le> max_len" if k: "k < n" for k
  proof -
    have "k \<in> fst ` set xs" using assms(6) k by simp
    then obtain y where y: "map_of xs k = Some y" by (metis domD dom_map_of_conv_image_fst)
    then have m: "(k, fst y, snd y) \<in> set xs" using map_of_SomeD [of xs k y] by simp
    from pk [OF m] have "length (fst (playout_of (fst y))) \<le> max_len" by (simp add: payload_ok_def playout_of_def)
    moreover have "k < 128" using k assms(2) by simp
    ultimately show ?thesis using y j(6,7) by simp
  qed
  with j assms(2) have "jb_play n max_len now j = map (\<lambda>k. (1, Some (playout_of (fst (the (map_of xs k)))))) [0..<n]"
    by (intro play_stored) auto
  with start j(1) show ?thesis by simp
qed

lemma jitter_buffer_reorders_witness:
  "\<exists>jb p q. jitter_buffer_create True 90000 20 100 = Some jb \<and> payload_bytes p = [7] \<and> payload_bytes q = [8, 9]
     \<and> map fst (jb_play 2 100 50 (put_all [(0, p, 5), (1, q, 3)] jb)) = [1, 1]"
proof -
  define mk where "mk sq d = rtp_packet_zero\<lparr>p_header := rtp_header_zero\<lparr>h_sequence := sq\<rparr>, p_payload := Some d,
      p_payload_len := length d\<rparr>" for sq :: u16 and d :: bytes
  obtain jb where jb: "jitter_buffer_create True 90000 20 100 = Some jb" by (simp add: jitter_buffer_create_def)
  have mk: "h_sequence (p_header (mk sq d)) = sq" "payload_bytes (mk sq d) = d" "p_payload_len (mk sq d) = length d"
    "payload_ok (mk sq d)" for sq d
    by (simp_all add: mk_def payload_bytes_def payload_ok_def rtp_packet_zero_def)
  have "jb_play 2 100 50 (put_all [(0, mk 65535 [7], 5), (1, mk 0 [8, 9], 3)] jb)
      = map (\<lambda>k. (1, Some (playout_of (fst (the (map_of [(0, mk 65535 [7], 5 :: u64), (1, mk 0 [8, 9], 3)] k)))))) [0..<2]"
    by (rule jitter_buffer_reorders [OF jb, where s = 65535]) (simp_all add: mk lessThan_nat_numeral lessThan_Suc insert_commute)
  with jb mk show ?thesis
    by (intro exI [of _ jb] exI [of _ "mk 65535 [7]"] exI [of _ "mk 0 [8, 9]"]) (simp add: comp_def upt_rec)
qed

section \<open>Late packets\<close>

text \<open>One step of a stream in order: the packet whose turn it is arrives and is handed out at once.\<close>

lemma in_order_step:
  assumes "jb_inv jb" "jb_initialized jb" "jb_target_delay_ms jb = 0" "payload_ok pkt"
    and "h_sequence (p_header pkt) = jb_next_seq_out jb" "p_payload_len pkt \<le> jb_slot_size jb" "p_payload_len pkt \<le> m"
    and "\<not> js_valid (jb_slots jb ! slot_idx (jb_next_seq_out jb))"
  shows "\<exists>jb'. snd (snd (jitter_buffer_get_ex (snd (jitter_buffer_put jb pkt t)) m t)) = jb'
     \<and> jb_inv jb' \<and> jb_initialized jb' \<and> jb_target_delay_ms jb' = 0 \<and> jb_slot_size jb' = jb_slot_size jb
     \<and> jb_next_seq_out jb' = jb_next_seq_out jb + 1
     \<and> (\<forall>i<256. i \<noteq> slot_idx (jb_next_seq_out jb) \<longrightarrow> jb_slots jb' ! i = jb_slots jb ! i)"
proof -
  let ?j = "snd (jitter_buffer_put jb pkt t)"
  have len: "length (jb_slots jb) = 256" using assms(1) by (simp add: jb_inv_def)
  have d: "jb_seq_diff (jb_next_seq_out jb) (jb_next_seq_out jb) = 0" by (simp add: jb_seq_diff_def)
  have j: "jb_inv ?j" by (rule jb_put_inv [OF assms(1,4)])
  have "jb_inv (snd (snd (jitter_buffer_get_ex ?j m t)))" by (rule jb_get_inv [OF j])
  with assms len d show ?thesis
    by (auto simp: jitter_buffer_put_def jitter_buffer_get_ex_def Let_def)
qed

abbreviation play_stream :: "nat \<Rightarrow> (rtp_packet \<times> u64) list \<Rightarrow> jitter_buffer \<Rightarrow> jitter_buffer" where
  "play_stream m \<equiv> fold (\<lambda>(pkt, t) jb. snd (snd (jitter_buffer_get_ex (snd (jitter_buffer_put jb pkt t)) m t)))"

lemma stream_keeps_rest:
  assumes "jb_inv jb" "jb_initialized jb" "jb_target_delay_ms jb = 0" "length ps \<le> 256"
    and "\<forall>k<length ps. \<not> js_valid (jb_slots jb ! slot_idx (jb_next_seq_out jb + word_of_nat k))"
    and "\<forall>k<length ps. payload_ok (fst (ps ! k)) \<and> h_sequence (p_header (fst (ps ! k))) = jb_next_seq_out jb + word_of_nat k
           \<and> p_payload_len (fst (ps ! k)) \<le> jb_slot_size jb \<and> p_payload_len (fst (ps ! k)) \<le> m"
  shows "\<exists>jb'. play_stream m ps jb = jb' \<and> jb_initialized jb' \<and> jb_target_delay_ms jb' = 0
     \<and> jb_next_seq_out jb' = jb_next_seq_out jb + word_of_nat (length ps)
     \<and> (\<forall>k<256. length ps \<le> k \<longrightarrow> jb_slots jb' ! slot_idx (jb_next_seq_out jb + word_of_nat k)
            = jb_slots jb ! slot_idx (jb_next_seq_out jb + word_of_nat k))"
  using assms
proof (induction ps arbitrary: jb)
  case (Cons p ps)
  obtain pkt t where p: "p = (pkt, t)" by (cases p)
  have 0: "\<not> js_valid (jb_slots jb ! slot_idx (jb_next_seq_out jb))" using Cons.prems(5) by force
  have p0: "payload_ok pkt \<and> h_sequence (p_header pkt) = jb_next_seq_out jb
      \<and> p_payload_len pkt \<le> jb_slot_size jb \<and> p_payload_len pkt \<le> m"
    using Cons.prems(6) by (auto simp: p dest: spec [of _ 0])
  obtain j where j: "snd (snd (jitter_buffer_get_ex (snd (jitter_buffer_put jb pkt t)) m t)) = j" "jb_inv j"
    "jb_initialized j" "jb_target_delay_ms j = 0" "jb_slot_size j = jb_slot_size jb"
    "jb_next_seq_out j = jb_next_seq_out jb + 1"
    "\<forall>i<256. i \<noteq> slot_idx (jb_next_seq_out jb) \<longrightarrow> jb_slots j ! i = jb_slots jb ! i"
    using in_order_step [OF Cons.prems(1-3) _ _ _ _ 0, of pkt m t] p0 by blast
  have shift: "jb_next_seq_out j + word_of_nat k = jb_next_seq_out jb + word_of_nat (Suc k)" for k
    by (simp add: j(6) ac_simps)
  have same: "jb_slots j ! slot_idx (jb_next_seq_out jb + word_of_nat k) = jb_slots jb ! slot_idx (jb_next_seq_out jb + word_of_nat k)"
    if "0 < k" "k < 256" for k
    using j(7) slot_idx_offset [of k 0 "jb_next_seq_out jb"] that by auto
  have inv: "\<forall>k<length ps. \<not> js_valid (jb_slots j ! slot_idx (jb_next_seq_out j + word_of_nat k))"
  proof (intro allI impI)
    fix k assume "k < length ps"
    then have "Suc k < length (p # ps)" "0 < Suc k" "Suc k < 256" using Cons.prems(4) by simp_all
    then show "\<not> js_valid (jb_slots j ! slot_idx (jb_next_seq_out j + word_of_nat k))"
      unfolding shift using Cons.prems(5) same by metis
  qed
  have ok: "\<forall>k<length ps. payload_ok (fst (ps ! k)) \<and> h_sequence (p_header (fst (ps ! k))) = jb_next_seq_out j + word_of_nat k
      \<and> p_payload_len (fst (ps ! k)) \<le> jb_slot_size j \<and> p_payload_len (fst (ps ! k)) \<le> m"
    unfolding shift j(5) using Cons.prems(6) by force
  obtain j' where "play_stream m ps j = j'" "jb_initialized j'" "jb_target_delay_ms j' = 0"
    "jb_next_seq_out j' = jb_next_seq_out j + word_of_nat (length ps)"
    "\<forall>k<256. length ps \<le> k \<longrightarrow> jb_slots j' ! slot_idx (jb_next_seq_out j + word_of_nat k)
            = jb_slots j ! slot_idx (jb_next_seq_out j + word_of_nat k)"
    using Cons.IH [OF j(2,3,4) _ inv ok] Cons.prems(4) by auto
  moreover from this(5) have "jb_slots j' ! slot_idx (jb_next_seq_out jb + word_of_nat k)
      = jb_slots jb ! slot_idx (jb_next_seq_out jb + word_of_nat k)" if "k < 256" "Suc (length ps) \<le> k" for k
    using same [of k] that unfolding shift by (cases k) auto
  ultimately show ?case using j(1) by (simp add: p shift)
qed simp

text \<open>The buffer does not check which packet sits in the slot it plays: a packet that arrives
  \<open>d\<close> positions late (\<open>1 \<le> d \<le> 128\<close>) is accepted and kept, and after \<open>256 - d\<close> further packets in order it
  is handed out, with success, in place of the packet numbered \<open>next_seq_out\<close>, which never arrived and
  is not counted as lost.\<close>

theorem jitter_buffer_plays_stale_packet:
  assumes "jb_inv jb" "jb_initialized jb" "jb_target_delay_ms jb = 0" "\<forall>i<256. \<not> js_valid (jb_slots jb ! i)"
    and "1 \<le> d" "d \<le> 128" "h_sequence (p_header late) = jb_next_seq_out jb - word_of_nat d" "payload_ok late"
    and "p_payload_len late \<le> jb_slot_size jb" "p_payload_len late \<le> m" "length ps = 256 - d"
    and "\<forall>k<length ps. payload_ok (fst (ps ! k)) \<and> h_sequence (p_header (fst (ps ! k))) = jb_next_seq_out jb + word_of_nat k
           \<and> p_payload_len (fst (ps ! k)) \<le> jb_slot_size jb \<and> p_payload_len (fst (ps ! k)) \<le> m"
  shows "let jb' = play_stream m ps (snd (jitter_buffer_put jb late t))
     in fst (jitter_buffer_get_ex jb' m now) = 1
        \<and> fst (snd (jitter_buffer_get_ex jb' m now)) = Some (playout_of late)
        \<and> jb_next_seq_out jb' = h_sequence (p_header late) + 256"
proof -
  let ?next = "jb_next_seq_out jb" and ?late = "h_sequence (p_header late)"
  let ?i = "slot_idx ?late"
  define jb1 where "jb1 = snd (jitter_buffer_put jb late t)"
  have diff: "jb_seq_diff ?late ?next = - int d"
  proof -
    have "jb_seq_diff ?late ?next = sint (word_of_int (- int d) :: u16)" by (simp add: jb_seq_diff_def assms(7))
    also have "\<dots> = - int d" using assms(6) by (simp add: signed_of_int signed_take_bit_int_eq_self del: of_int_minus)
    finally show ?thesis .
  qed
  have len: "length (jb_slots jb) = 256" "length (js_data (jb_slots jb ! ?i)) = jb_slot_size jb"
    using assms(1) by (simp_all add: jb_inv_def)
  have free: "\<not> js_valid (jb_slots jb ! ?i)" using assms(4) by simp
  have j1: "jb_inv jb1" unfolding jb1_def by (rule jb_put_inv [OF assms(1,8)])
  have st: "jb_initialized jb1" "jb_target_delay_ms jb1 = 0" "jb_next_seq_out jb1 = ?next" "jb_slot_size jb1 = jb_slot_size jb"
    "\<forall>i<256. i \<noteq> ?i \<longrightarrow> jb_slots jb1 ! i = jb_slots jb ! i"
    "js_valid (jb_slots jb1 ! ?i)" "js_len (jb_slots jb1 ! ?i) = p_payload_len late"
    "(take (js_len (jb_slots jb1 ! ?i)) (js_data (jb_slots jb1 ! ?i)), js_timestamp (jb_slots jb1 ! ?i),
      js_marker (jb_slots jb1 ! ?i)) = playout_of late"
    using assms(2,3,6,8,9) diff free len
    by (simp_all add: jb1_def jitter_buffer_put_def Let_def payload_ok_def playout_of_def mem_write_0)
  have wrap: "?next + word_of_nat (256 - d) = ?late + word_of_nat 256"
    using assms(6,7) by (simp add: of_nat_diff)
  then have idx: "slot_idx (?next + word_of_nat (256 - d)) = ?i" by (simp only: slot_idx_add) simp
  have inv: "\<forall>k<length ps. \<not> js_valid (jb_slots jb1 ! slot_idx (jb_next_seq_out jb1 + word_of_nat k))"
  proof (intro allI impI)
    fix k assume "k < length ps"
    then have "slot_idx (?next + word_of_nat k) \<noteq> ?i"
      using slot_idx_offset [of k "256 - d" ?next, unfolded idx] assms(5,11) by simp
    then show "\<not> js_valid (jb_slots jb1 ! slot_idx (jb_next_seq_out jb1 + word_of_nat k))"
      using st(3,5) assms(4) by simp
  qed
  have ok: "\<forall>k<length ps. payload_ok (fst (ps ! k))
      \<and> h_sequence (p_header (fst (ps ! k))) = jb_next_seq_out jb1 + word_of_nat k
      \<and> p_payload_len (fst (ps ! k)) \<le> jb_slot_size jb1 \<and> p_payload_len (fst (ps ! k)) \<le> m"
    unfolding st(3,4) by (rule assms(12))
  have l: "length ps \<le> 256" "256 - d < 256" using assms(5,11) by simp_all
  obtain j where j: "play_stream m ps jb1 = j" "jb_initialized j" "jb_target_delay_ms j = 0"
    "jb_next_seq_out j = ?next + word_of_nat (256 - d)"
    "\<forall>k<256. length ps \<le> k \<longrightarrow> jb_slots j ! slot_idx (?next + word_of_nat k) = jb_slots jb1 ! slot_idx (?next + word_of_nat k)"
    using stream_keeps_rest [OF j1 st(1,2) l(1) inv ok] unfolding st(3) assms(11) by blast
  have slot: "jb_slots j ! ?i = jb_slots jb1 ! ?i"
    using mp [OF mp [OF spec [OF j(5), of "256 - d"] l(2)]] assms(11) by (simp only: idx order_refl)
  have "jitter_buffer_get_ex j m now = (1, Some (playout_of late), snd (snd (jitter_buffer_get_ex j m now)))"
    unfolding jitter_buffer_get_ex_def j(4) idx slot Let_def using j(2,3) st(6,7,8) assms(10) by simp
  then show ?thesis
    unfolding Let_def jb1_def [symmetric] j(1) using j(4) wrap
    by (metis fst_conv snd_conv of_nat_numeral)
qed

lemma jitter_buffer_plays_stale_packet_witness:
  "\<exists>jb late ps. jb_inv jb \<and> length ps = 128 \<and> payload_bytes late = [66]
     \<and> (let jb' = play_stream 10 ps (snd (jitter_buffer_put jb late 0))
        in fst (snd (jitter_buffer_get_ex jb' 10 9)) = Some (playout_of late)
           \<and> jb_next_seq_out jb' = h_sequence (p_header late) + 256)"
proof -
  define mk where "mk sq d = rtp_packet_zero\<lparr>p_header := rtp_header_zero\<lparr>h_sequence := sq\<rparr>, p_payload := Some d,
      p_payload_len := length d\<rparr>" for sq :: u16 and d :: bytes
  define jb where "jb = the (jitter_buffer_create True 90000 0 10)\<lparr>jb_initialized := True, jb_next_seq_out := 1000\<rparr>"
  define ps where "ps = map (\<lambda>k. (mk (1000 + word_of_nat k) [1], 0 :: u64)) [0..<128]"
  have mk: "h_sequence (p_header (mk sq d)) = sq" "payload_bytes (mk sq d) = d" "p_payload_len (mk sq d) = length d"
    "payload_ok (mk sq d)" for sq d
    by (simp_all add: mk_def payload_bytes_def payload_ok_def rtp_packet_zero_def)
  have c: "jitter_buffer_create True 90000 0 10 = Some (the (jitter_buffer_create True 90000 0 10))"
    by (simp add: jitter_buffer_create_def)
  have jb: "jb_inv jb" using jb_create_inv [OF c] by (simp add: jb_def)
  have "jb_initialized jb" "jb_target_delay_ms jb = 0" "\<forall>i<256. \<not> js_valid (jb_slots jb ! i)" "jb_next_seq_out jb = 1000"
    "jb_slot_size jb = 10"
    by (simp_all add: jb_def jitter_buffer_create_def)
  then have "let jb' = play_stream 10 ps (snd (jitter_buffer_put jb (mk 872 [66]) 0))
     in fst (jitter_buffer_get_ex jb' 10 9) = 1 \<and> fst (snd (jitter_buffer_get_ex jb' 10 9)) = Some (playout_of (mk 872 [66]))
        \<and> jb_next_seq_out jb' = h_sequence (p_header (mk 872 [66])) + 256"
    by (intro jitter_buffer_plays_stale_packet [OF jb, where d = 128]) (simp_all add: mk ps_def)
  then show ?thesis using jb mk by (intro exI [of _ jb] exI [of _ "mk 872 [66]"] exI [of _ ps]) (simp add: ps_def Let_def)
qed

end
