(* ===== verification/Rtp_Session.thy ===== *)
theory Rtp_Session
  imports Rtcp_Packet Ieee
begin

text \<open>
  RTP sessions, \<^verbatim>\<open>webrtc/src/rtc/rtp/rtp_session.c\<close>: sequence numbers and timestamps of the sender,
  sequence extension, jitter and loss statistics of the receiver, sender and receiver reports.
  \<open>get_time_ms()\<close> is the argument \<open>now_ms\<close>; the stack address that \<open>generate_ssrc\<close> mixes in and the
  global counter are arguments.
\<close>

section \<open>State\<close>

record rtp_session_config =
  cfg_ssrc :: u32
  cfg_payload_type :: u8
  cfg_clock_rate :: u32
  cfg_is_audio :: bool

record rtp_session =
  ss_ssrc :: u32
  ss_payload_type :: u8
  ss_clock_rate :: u32
  ss_is_audio :: bool
  ss_sequence :: u16
  ss_timestamp :: u32
  ss_packets_sent :: u64
  ss_octets_sent :: u64
  ss_remote_ssrc :: u32
  ss_received_first :: bool
  ss_max_seq :: u16
  ss_cycles :: u32
  ss_base_seq :: u32
  ss_packets_recv :: u64
  ss_packets_lost :: u64
  ss_jitter :: u32
  ss_last_transit :: u32
  ss_last_sr_ntp :: u32
  ss_last_sr_time_ms :: u64
  ss_rtt_ms :: u32

text \<open>The SSRC and the counter's next value.\<close>

definition generate_ssrc :: "u64 \<Rightarrow> u32 \<Rightarrow> u64 \<Rightarrow> u32 \<times> u32" where
  "generate_ssrc now_ms counter addr =
     (let ssrc = ucast now_ms XOR ucast (drop_bit 32 now_ms) XOR counter;
          ssrc = ssrc XOR ucast (drop_bit 4 addr)
      in (if ssrc = 0 then counter XOR 0x13572468 else ssrc, counter + 0x9E3779B9))"

definition rtp_session_create ::
  "bool \<Rightarrow> rtp_session_config option \<Rightarrow> u64 \<Rightarrow> u32 \<Rightarrow> u64 \<Rightarrow> rtp_session option" where
  "rtp_session_create alloc_ok config now_ms counter addr =
     (case config of None \<Rightarrow> None
      | Some c \<Rightarrow>
          if \<not> alloc_ok then None
          else let ssrc = (if cfg_ssrc c \<noteq> 0 then cfg_ssrc c else fst (generate_ssrc now_ms counter addr))
               in Some \<lparr>ss_ssrc = ssrc, ss_payload_type = cfg_payload_type c, ss_clock_rate = cfg_clock_rate c,
                    ss_is_audio = cfg_is_audio c, ss_sequence = ucast (ssrc AND 0xFFFF), ss_timestamp = ssrc,
                    ss_packets_sent = 0, ss_octets_sent = 0, ss_remote_ssrc = 0, ss_received_first = False,
                    ss_max_seq = 0, ss_cycles = 0, ss_base_seq = 0, ss_packets_recv = 0, ss_packets_lost = 0,
                    ss_jitter = 0, ss_last_transit = 0, ss_last_sr_ntp = 0, ss_last_sr_time_ms = 0,
                    ss_rtt_ms = 0\<rparr>)"

section \<open>Sending\<close>

text \<open>Result: the packet, the buffer and the packet length, or \<open>None\<close> when building fails.\<close>

definition rtp_session_send_internal ::
  "rtp_session \<Rightarrow> bytes option \<Rightarrow> nat \<Rightarrow> bool \<Rightarrow> u32 \<Rightarrow> bytes \<Rightarrow> (rtp_packet \<times> bytes \<times> int) option \<times> rtp_session" where
  "rtp_session_send_internal s payload payload_len marker timestamp buffer =
     (let result = rtp_packet_build (ss_payload_type s) (ss_sequence s) timestamp (ss_ssrc s) marker
                     payload payload_len buffer
      in case result of
           Some (pkt, buf, n) \<Rightarrow>
             (result, if n > 0
                then s\<lparr>ss_timestamp := timestamp, ss_sequence := ss_sequence s + 1,
                       ss_packets_sent := ss_packets_sent s + 1,
                       ss_octets_sent := ss_octets_sent s + word_of_nat payload_len\<rparr>
                else s)
         | None \<Rightarrow> (None, s))"

definition rtp_session_send ::
  "rtp_session \<Rightarrow> bytes option \<Rightarrow> nat \<Rightarrow> bool \<Rightarrow> bytes \<Rightarrow> (rtp_packet \<times> bytes \<times> int) option \<times> rtp_session" where
  "rtp_session_send s payload payload_len marker buffer =
     rtp_session_send_internal s payload payload_len marker (ss_timestamp s) buffer"

definition rtp_session_send_with_timestamp ::
  "rtp_session \<Rightarrow> bytes option \<Rightarrow> nat \<Rightarrow> bool \<Rightarrow> u32 \<Rightarrow> bytes \<Rightarrow> (rtp_packet \<times> bytes \<times> int) option \<times> rtp_session" where
  "rtp_session_send_with_timestamp s payload payload_len marker timestamp buffer =
     rtp_session_send_internal s payload payload_len marker timestamp buffer"

definition rtp_session_advance_timestamp :: "rtp_session \<Rightarrow> u32 \<Rightarrow> rtp_session" where
  "rtp_session_advance_timestamp s samples = s\<lparr>ss_timestamp := ss_timestamp s + samples\<rparr>"

section \<open>Receiving\<close>

definition RTP_SEQ_MOD :: u32 where "RTP_SEQ_MOD = push_bit 16 1"

definition track_sequence :: "rtp_session \<Rightarrow> u16 \<Rightarrow> rtp_session" where
  "track_sequence s sq =
     (if rtp_seq_newer sq (ss_max_seq s)
      then let s = (if sq < ss_max_seq s then s\<lparr>ss_cycles := ss_cycles s + RTP_SEQ_MOD\<rparr> else s)
           in s\<lparr>ss_max_seq := sq\<rparr>
      else s)"

text \<open>\<open>|d|\<close> as computed by \<open>int d; if (d < 0) d = -d;\<close> and read back as \<open>uint32_t\<close>, then the
  update \<open>jitter += ((uint32_t)d - jitter) / 16\<close> in unsigned arithmetic.\<close>

definition update_jitter :: "rtp_session \<Rightarrow> u32 \<Rightarrow> u64 \<Rightarrow> rtp_session" where
  "update_jitter s ts time_ms =
     (let arrival = (ucast (time_ms * ucast (ss_clock_rate s) div 1000) :: u32);
          transit = arrival - ts;
          d = transit - ss_last_transit s;
          d = (if sint d < 0 then - d else d);
          s = (if ss_last_transit s \<noteq> 0 then s\<lparr>ss_jitter := ss_jitter s + (d - ss_jitter s) div 16\<rparr> else s)
      in s\<lparr>ss_last_transit := transit\<rparr>)"

definition rtp_session_recv :: "rtp_session \<Rightarrow> rtp_packet \<Rightarrow> u64 \<Rightarrow> int \<times> rtp_session" where
  "rtp_session_recv s pkt now_ms =
     (let sq = h_sequence (p_header pkt); ts = h_timestamp (p_header pkt)
      in if \<not> ss_received_first s
         then (0, s\<lparr>ss_received_first := True, ss_remote_ssrc := h_ssrc (p_header pkt), ss_base_seq := ucast sq,
                    ss_max_seq := sq, ss_cycles := 0, ss_packets_recv := 1, ss_packets_lost := 0,
                    ss_jitter := 0, ss_last_transit := 0\<rparr>)
         else if h_ssrc (p_header pkt) \<noteq> ss_remote_ssrc s then (- 1, s)
         else let s = update_jitter (track_sequence s sq) ts now_ms
              in (0, s\<lparr>ss_packets_recv := ss_packets_recv s + 1\<rparr>))"

section \<open>Reports\<close>

definition NTP_FRAC_PER_MS :: fp where "NTP_FRAC_PER_MS = fp_round 53 4294967296 1000"

definition rtp_session_build_sr :: "rtp_session \<Rightarrow> u64 \<Rightarrow> rtcp_sr" where
  "rtp_session_build_sr s now_ms =
     \<lparr>sr_ssrc = ss_ssrc s, sr_ntp_sec = ucast (now_ms div 1000 + 2208988800),
      sr_ntp_frac = word_of_nat (fp_scale 53 (unat (now_ms mod 1000)) NTP_FRAC_PER_MS),
      sr_rtp_ts = ss_timestamp s, sr_packet_count = ucast (ss_packets_sent s),
      sr_octet_count = ucast (ss_octets_sent s)\<rparr>"

definition rtp_session_build_rr_block :: "rtp_session \<Rightarrow> u32 \<Rightarrow> u64 \<Rightarrow> rtcp_rr_block" where
  "rtp_session_build_rr_block s src now_ms =
     (let extended_seq = ss_cycles s + ucast (ss_max_seq s);
          expected = extended_seq - ss_base_seq s + 1;
          lost = uint expected - sint (ss_packets_recv s);
          lost = (if lost < 0 then 0 else lost);
          lost = (if lost > 0x7FFFFF then 0x7FFFFF else lost);
          fraction = (if expected > 0 \<and> lost > 0 then word_of_int (lost * 256 div uint expected) else 0)
      in \<lparr>rb_ssrc = (if src \<noteq> 0 then src else ss_remote_ssrc s), rb_fraction_lost = fraction,
          rb_cumulative_lost = word_of_int lost, rb_extended_seq = extended_seq, rb_jitter = ss_jitter s,
          rb_lsr = ss_last_sr_ntp s,
          rb_dlsr = (if ss_last_sr_time_ms s > 0
                     then ucast ((now_ms - ss_last_sr_time_ms s) * 65536 div 1000) else 0)\<rparr>)"

definition rtp_session_process_sr :: "rtp_session \<Rightarrow> rtcp_sr \<Rightarrow> u64 \<Rightarrow> rtp_session" where
  "rtp_session_process_sr s sr now_ms =
     s\<lparr>ss_last_sr_ntp := push_bit 16 (sr_ntp_sec sr AND 0xFFFF) OR drop_bit 16 (sr_ntp_frac sr),
       ss_last_sr_time_ms := now_ms\<rparr>"

definition rtp_session_process_rr :: "rtp_session \<Rightarrow> rtcp_rr_block \<Rightarrow> rtp_session" where
  "rtp_session_process_rr s block =
     (if rb_ssrc block \<noteq> ss_ssrc s then s
      else if rb_lsr block \<noteq> 0 \<and> rb_dlsr block > 0
      then s\<lparr>ss_rtt_ms := rb_dlsr block * 1000 div 65536\<rparr>
      else s)"

record rtp_session_stats =
  st_packets_sent :: u64
  st_octets_sent :: u64
  st_packets_recv :: u64
  st_packets_lost :: u64
  st_jitter :: u32
  st_max_seq :: u16
  st_cycles :: u32
  st_base_seq :: u32
  st_last_sr_ntp :: u32
  st_last_sr_time :: u64
  st_rtt_ms :: u32

definition rtp_session_get_stats :: "rtp_session \<Rightarrow> rtp_session_stats" where
  "rtp_session_get_stats s = \<lparr>st_packets_sent = ss_packets_sent s, st_octets_sent = ss_octets_sent s,
     st_packets_recv = ss_packets_recv s, st_packets_lost = ss_packets_lost s, st_jitter = ss_jitter s,
     st_max_seq = ss_max_seq s, st_cycles = ss_cycles s, st_base_seq = ss_base_seq s,
     st_last_sr_ntp = ss_last_sr_ntp s, st_last_sr_time = ss_last_sr_time_ms s, st_rtt_ms = ss_rtt_ms s\<rparr>"

definition rtp_session_get_ssrc :: "rtp_session \<Rightarrow> u32" where "rtp_session_get_ssrc s = ss_ssrc s"

definition rtp_session_get_remote_ssrc :: "rtp_session \<Rightarrow> u32" where
  "rtp_session_get_remote_ssrc s = ss_remote_ssrc s"

definition rtp_session_set_remote_ssrc :: "rtp_session \<Rightarrow> u32 \<Rightarrow> rtp_session" where
  "rtp_session_set_remote_ssrc s src = s\<lparr>ss_remote_ssrc := src\<rparr>"

definition rtp_session_get_payload_type :: "rtp_session \<Rightarrow> u8" where
  "rtp_session_get_payload_type s = ss_payload_type s"

definition rtp_session_set_payload_type :: "rtp_session \<Rightarrow> u8 \<Rightarrow> rtp_session" where
  "rtp_session_set_payload_type s pt = s\<lparr>ss_payload_type := pt\<rparr>"

section \<open>What a sender puts on the wire\<close>

text \<open>A stream of \<open>(payload, marker, timestamp, buffer)\<close> requests: the wire images of the packets and
  the final session.\<close>

fun send_stream :: "(bytes \<times> bool \<times> u32 \<times> bytes) list \<Rightarrow> rtp_session \<Rightarrow> bytes list \<times> rtp_session" where
  "send_stream [] s = ([], s)"
| "send_stream ((d, m, ts, buf) # rs) s =
     (let (res, s') = rtp_session_send_with_timestamp s (Some d) (length d) m ts buf;
          (ws, s'') = send_stream rs s'
      in (case res of None \<Rightarrow> ws | Some (pkt, b, n) \<Rightarrow> take (nat n) b # ws, s''))"

lemma send_step:
  assumes "length d + 12 < 2 ^ 31" "12 + length d \<le> length buf"
  shows "\<exists>pkt b. rtp_session_send_with_timestamp s (Some d) (length d) m ts buf
     = (Some (pkt, b, int (12 + length d)), s\<lparr>ss_timestamp := ts, ss_sequence := ss_sequence s + 1,
          ss_packets_sent := ss_packets_sent s + 1, ss_octets_sent := ss_octets_sent s + word_of_nat (length d)\<rparr>)
     \<and> take (12 + length d) b = rtp_header_bytes (build_header (ss_payload_type s) (ss_sequence s) ts (ss_ssrc s) m) @ d"
proof -
  let ?h = "rtp_header_bytes (build_header (ss_payload_type s) (ss_sequence s) ts (ss_ssrc s) m)"
  have "length ?h = 12" by (simp add: rtp_header_bytes_def)
  then have "take (12 + length d) (mem_write buf 0 (?h @ d)) = ?h @ d" by (simp add: mem_write_0)
  with assms show ?thesis
    by (simp add: rtp_session_send_with_timestamp_def rtp_session_send_internal_def rtp_packet_build_eq [OF refl])
qed

text \<open>A session numbers its packets consecutively: every packet of a stream parses at the
  receiver to the payload and timestamp it was sent with, carries the session's SSRC, and the
  \<open>i\<close>-th one has the session's sequence number plus \<open>i\<close>, across the wrap-around; the session's
  counters advance by the packets and octets sent.\<close>

theorem session_stream_numbering:
  assumes "\<forall>(d, m, ts, buf)\<in>set rs. length d + 12 < 2 ^ 31 \<and> 12 + length d \<le> length buf"
  shows "let (ws, s') = send_stream rs s in length ws = length rs
     \<and> (\<forall>i<length rs. \<exists>q. rtp_packet_parse (ws ! i) = Some q \<and> h_sequence (p_header q) = ss_sequence s + word_of_nat i
          \<and> h_ssrc (p_header q) = ss_ssrc s \<and> h_timestamp (p_header q) = fst (snd (snd (rs ! i)))
          \<and> p_payload q = Some (fst (rs ! i)))
     \<and> ss_sequence s' = ss_sequence s + word_of_nat (length rs)
     \<and> ss_packets_sent s' = ss_packets_sent s + word_of_nat (length rs)
     \<and> ss_octets_sent s' = ss_octets_sent s + word_of_nat (sum_list (map (\<lambda>r. length (fst r)) rs))"
  using assms
proof (induction rs arbitrary: s)
  case (Cons r rs)
  obtain d m ts buf where r: "r = (d, m, ts, buf)" by (cases r)
  obtain pkt b where st: "rtp_session_send_with_timestamp s (Some d) (length d) m ts buf
     = (Some (pkt, b, int (12 + length d)), s\<lparr>ss_timestamp := ts, ss_sequence := ss_sequence s + 1,
          ss_packets_sent := ss_packets_sent s + 1, ss_octets_sent := ss_octets_sent s + word_of_nat (length d)\<rparr>)"
    (is "_ = (_, ?s1)")
    "take (12 + length d) b = rtp_header_bytes (build_header (ss_payload_type s) (ss_sequence s) ts (ss_ssrc s) m) @ d"
    using send_step [of d buf s m ts] Cons.prems by (auto simp: r)
  obtain ws s' where ws: "send_stream rs ?s1 = (ws, s')" by (cases "send_stream rs ?s1")
  obtain q where q: "rtp_packet_parse (take (12 + length d) b) = Some q"
    "p_header q = build_header (ss_payload_type s) (ss_sequence s) ts (ss_ssrc s) m" "p_payload q = Some d"
    using parse_built unfolding st(2) by blast
  have IH: "length ws = length rs"
    "\<And>i. i < length rs \<Longrightarrow> \<exists>q. rtp_packet_parse (ws ! i) = Some q
       \<and> h_sequence (p_header q) = ss_sequence s + 1 + word_of_nat i
       \<and> h_ssrc (p_header q) = ss_ssrc s \<and> h_timestamp (p_header q) = fst (snd (snd (rs ! i)))
       \<and> p_payload q = Some (fst (rs ! i))"
    "ss_sequence s' = ss_sequence s + 1 + word_of_nat (length rs)"
    "ss_packets_sent s' = ss_packets_sent s + 1 + word_of_nat (length rs)"
    "ss_octets_sent s' = ss_octets_sent s + word_of_nat (length d) + word_of_nat (sum_list (map (\<lambda>r. length (fst r)) rs))"
    using Cons.IH [of ?s1] Cons.prems by (auto simp: ws)
  have "\<exists>q. rtp_packet_parse ((take (12 + length d) b # ws) ! i) = Some q
       \<and> h_sequence (p_header q) = ss_sequence s + word_of_nat i
       \<and> h_ssrc (p_header q) = ss_ssrc s \<and> h_timestamp (p_header q) = fst (snd (snd ((r # rs) ! i)))
       \<and> p_payload q = Some (fst ((r # rs) ! i))" if "i < length (r # rs)" for i
  proof (cases i)
    case 0
    then show ?thesis using q by (simp add: r build_header_def)
  next
    case (Suc j)
    then show ?thesis using IH(2) [of j] that by (simp add: ac_simps)
  qed
  moreover have "send_stream (r # rs) s = (take (12 + length d) b # ws, s')"
    using st ws by (simp add: r nat_add_distrib)
  ultimately show ?case using IH(1,3-5) by (simp add: r ac_simps)
qed simp

lemma session_stream_numbering_witness:
  "\<exists>s q. rtp_session_create True (Some \<lparr>cfg_ssrc = 65535, cfg_payload_type = 96, cfg_clock_rate = 90000, cfg_is_audio = False\<rparr>)
            0 0 0 = Some s
     \<and> rtp_packet_parse (fst (send_stream [([1], True, 5, replicate 20 0), ([2, 3], False, 6, replicate 20 0)] s) ! 1) = Some q
     \<and> h_sequence (p_header q) = 0 \<and> p_payload q = Some [2, 3]"
proof -
  let ?rs = "[([1], True, 5, replicate 20 0), ([2, 3], False, 6, replicate 20 0)]"
  obtain s where s: "rtp_session_create True (Some \<lparr>cfg_ssrc = 65535, cfg_payload_type = 96, cfg_clock_rate = 90000,
      cfg_is_audio = False\<rparr>) 0 0 0 = Some s" "ss_sequence s = 65535"
    by (simp add: rtp_session_create_def)
  obtain ws s' where w: "send_stream ?rs s = (ws, s')" by (cases "send_stream ?rs s")
  have "\<forall>(d, m, ts, buf)\<in>set ?rs. length d + 12 < 2 ^ 31 \<and> 12 + length d \<le> length buf" by simp
  from session_stream_numbering [OF this, of s]
  have "\<exists>q. rtp_packet_parse (ws ! 1) = Some q \<and> h_sequence (p_header q) = 0 \<and> p_payload q = Some [2, 3]"
    unfolding w by (auto simp: s(2) Let_def dest: spec [of _ 1])
  with s(1) w show ?thesis by auto
qed

section \<open>Sequence extension and loss\<close>

text \<open>The receiver has seen true sequence numbers (before reduction modulo 65536) up to \<open>M\<close>.\<close>

definition seen_up_to :: "rtp_session \<Rightarrow> nat \<Rightarrow> bool" where
  "seen_up_to s M \<longleftrightarrow> ss_received_first s \<and> ss_max_seq s = word_of_nat M
     \<and> ss_cycles s = word_of_nat (M div 65536 * 65536)"

lemma newer_true:
  assumes "\<bar>int a - int b\<bar> < 32768"
  shows "rtp_seq_newer (word_of_nat a) (word_of_nat b) \<longleftrightarrow> b < a"
proof -
  have "word_of_nat a - word_of_nat b = (word_of_int (int a - int b) :: u16)" by simp
  moreover have "sint (word_of_int (int a - int b) :: u16) = int a - int b"
    using assms by (simp add: signed_of_int signed_take_bit_int_eq_self del: of_int_diff)
  ultimately show ?thesis by (simp add: rtp_seq_newer_def del: of_int_diff)
qed

lemma wrap_test:
  assumes "M < S" "S < M + 32768"
  shows "(word_of_nat S :: u16) < word_of_nat M \<longleftrightarrow> S div 65536 = M div 65536 + 1"
    "S div 65536 = M div 65536 \<or> S div 65536 = M div 65536 + 1"
proof -
  have "(word_of_nat S :: u16) < word_of_nat M \<longleftrightarrow> S mod 65536 < M mod 65536"
    by (simp add: word_less_nat_alt unsigned_of_nat take_bit_eq_mod)
  moreover have d: "S = 65536 * (S div 65536) + S mod 65536" "M = 65536 * (M div 65536) + M mod 65536"
    "S mod 65536 < 65536" "M mod 65536 < 65536" by simp_all
  have "M div 65536 \<le> S div 65536" using assms(1) by (intro div_le_mono) simp
  moreover have "S div 65536 < M div 65536 + 2" using assms(2) d by linarith
  ultimately have q: "S div 65536 = M div 65536 \<or> S div 65536 = M div 65536 + 1" by linarith
  then show "S div 65536 = M div 65536 \<or> S div 65536 = M div 65536 + 1" .
  show "(word_of_nat S :: u16) < word_of_nat M \<longleftrightarrow> S div 65536 = M div 65536 + 1"
    unfolding \<open>(word_of_nat S :: u16) < word_of_nat M \<longleftrightarrow> S mod 65536 < M mod 65536\<close>
    using q d assms by linarith
qed

lemma track_true:
  assumes "seen_up_to s M" "\<bar>int S - int M\<bar> < 32768"
  shows "seen_up_to (track_sequence s (word_of_nat S)) (max M S)"
proof (cases "M < S")
  case True
  then have w: "S < M + 32768" using assms(2) by linarith
  from wrap_test [OF True w] show ?thesis
    using assms True newer_true [OF assms(2)]
    by (auto simp: seen_up_to_def track_sequence_def RTP_SEQ_MOD_def max_def algebra_simps)
next
  case False
  then show ?thesis
    using assms newer_true [OF assms(2)] by (simp add: seen_up_to_def track_sequence_def max_def)
qed

lemma jitter_keeps:
  "ss_received_first (update_jitter s ts t) = ss_received_first s" "ss_max_seq (update_jitter s ts t) = ss_max_seq s"
  "ss_cycles (update_jitter s ts t) = ss_cycles s" "ss_base_seq (update_jitter s ts t) = ss_base_seq s"
  "ss_remote_ssrc (update_jitter s ts t) = ss_remote_ssrc s" "ss_packets_recv (update_jitter s ts t) = ss_packets_recv s"
  by (simp_all add: update_jitter_def Let_def)

lemma track_keeps:
  "ss_base_seq (track_sequence s q) = ss_base_seq s" "ss_remote_ssrc (track_sequence s q) = ss_remote_ssrc s"
  "ss_packets_recv (track_sequence s q) = ss_packets_recv s"
  by (simp_all add: track_sequence_def Let_def)

text \<open>Arrivals \<open>(packet, time)\<close> whose true numbers \<open>Ss\<close> stay within half the sequence space of the
  highest number seen.\<close>

fun arrivals_ok :: "u32 \<Rightarrow> nat \<Rightarrow> nat list \<Rightarrow> (rtp_packet \<times> u64) list \<Rightarrow> bool" where
  "arrivals_ok src M [] [] = True"
| "arrivals_ok src M (S # Ss) ((p, t) # ps) =
     (h_sequence (p_header p) = word_of_nat S \<and> h_ssrc (p_header p) = src \<and> \<bar>int S - int M\<bar> < 32768
      \<and> arrivals_ok src (max M S) Ss ps)"
| "arrivals_ok src M _ _ = False"

abbreviation recv_all :: "(rtp_packet \<times> u64) list \<Rightarrow> rtp_session \<Rightarrow> rtp_session" where
  "recv_all \<equiv> fold (\<lambda>(p, t) s. snd (rtp_session_recv s p t))"

lemma recv_all_tracks:
  "seen_up_to s M \<Longrightarrow> arrivals_ok (ss_remote_ssrc s) M Ss ps \<Longrightarrow>
   seen_up_to (recv_all ps s) (fold max Ss M) \<and> ss_base_seq (recv_all ps s) = ss_base_seq s
   \<and> ss_packets_recv (recv_all ps s) = ss_packets_recv s + word_of_nat (length ps)
   \<and> ss_remote_ssrc (recv_all ps s) = ss_remote_ssrc s"
proof (induction "ss_remote_ssrc s" M Ss ps arbitrary: s rule: arrivals_ok.induct)
  case (2 M S Ss p t ps)
  let ?s = "snd (rtp_session_recv s p t)"
  have r: "?s = (let s = update_jitter (track_sequence s (word_of_nat S)) (h_timestamp (p_header p)) t
      in s\<lparr>ss_packets_recv := ss_packets_recv s + 1\<rparr>)"
    using 2(2,3) by (simp add: rtp_session_recv_def seen_up_to_def Let_def)
  have "seen_up_to ?s (max M S)" "ss_remote_ssrc ?s = ss_remote_ssrc s" "ss_base_seq ?s = ss_base_seq s"
    "ss_packets_recv ?s = ss_packets_recv s + 1"
    using track_true [of s M S] 2(2,3) by (simp_all add: r Let_def seen_up_to_def jitter_keeps track_keeps)
  with 2(1) [of ?s] 2(3) show ?case by (simp add: ac_simps max.commute)
qed simp_all

lemma ucast_word_of_nat: "ucast (word_of_nat n :: u16) = (word_of_nat (n mod 65536) :: u32)"
proof -
  have "ucast (word_of_nat n :: u16) = (word_of_nat (unat (word_of_nat n :: u16)) :: u32)" by (simp only: of_nat_unat)
  then show ?thesis by (simp only: unsigned_of_nat take_bit_eq_mod) simp
qed

lemma extended_value:
  "seen_up_to s M \<Longrightarrow> ss_cycles s + ucast (ss_max_seq s) = word_of_nat M"
proof -
  assume s: "seen_up_to s M"
  note ucast_word_of_nat [of M]
  then have "ss_cycles s + ucast (ss_max_seq s) = word_of_nat (M div 65536 * 65536 + M mod 65536)"
    using s by (simp only: seen_up_to_def of_nat_add)
  then show ?thesis by simp
qed

lemma fold_max_ge: "M \<le> fold max Ss (M :: nat)"
  by (induction Ss arbitrary: M) (auto, meson max.cobounded2 order_trans)

text \<open>The receiver reconstructs the sender's true packet count across any number of
  wrap-arounds: if the packets of a source, starting with true number \<open>S0 < 65536\<close>, arrive with losses,
  duplicates and reordering of less than half the sequence space, then the report block carries the
  highest true number, the number of missing packets (expected minus received, between 0 and
  8388607), and the loss fraction in 1/256, computed over the whole session.\<close>

theorem session_reports_loss:
  assumes "\<not> ss_received_first s" "h_sequence (p_header p0) = word_of_nat S0" "S0 < 65536"
    and "arrivals_ok (h_ssrc (p_header p0)) S0 Ss ps" "fold max Ss S0 < 2 ^ 31" "length ps < 2 ^ 31 - 1"
  shows "let M = fold max Ss S0; s' = recv_all ((p0, t0) # ps) s; blk = rtp_session_build_rr_block s' 0 now;
         expected = int M - int S0 + 1;
         lost = min 0x7FFFFF (max 0 (expected - (1 + int (length ps))))
     in rb_ssrc blk = h_ssrc (p_header p0) \<and> rb_extended_seq blk = word_of_nat M
        \<and> uint (rb_cumulative_lost blk) = lost \<and> uint (rb_fraction_lost blk) = lost * 256 div expected"
proof -
  define M where "M = fold max Ss S0"
  define s1 where "s1 = snd (rtp_session_recv s p0 t0)"
  define s' where "s' = recv_all ((p0, t0) # ps) s"
  define e where "e = int M - int S0 + 1"
  define n where "n = 1 + int (length ps)"
  define lost where "lost = min 0x7FFFFF (max 0 (e - n))"
  have s1: "seen_up_to s1 S0" "ss_remote_ssrc s1 = h_ssrc (p_header p0)" "ss_base_seq s1 = word_of_nat S0" "ss_packets_recv s1 = 1"
    using assms(1-3) by (simp_all add: s1_def rtp_session_recv_def seen_up_to_def ucast_word_of_nat)
  have s': "seen_up_to s' M" "ss_base_seq s' = word_of_nat S0" "ss_packets_recv s' = 1 + word_of_nat (length ps)"
    "ss_remote_ssrc s' = h_ssrc (p_header p0)"
    using recv_all_tracks [OF s1(1)] assms(4) s1 by (simp_all add: s'_def s1_def [symmetric] M_def)
  note ext = extended_value [OF s'(1)]
  have M: "S0 \<le> M" "M < 2 ^ 31" using fold_max_ge assms(5) by (simp_all add: M_def)
  have "word_of_nat M - ss_base_seq s' + 1 = (word_of_int e :: u32)" by (simp add: s'(2) e_def)
  moreover have "0 \<le> e" "e < 2 ^ 32" using M by (simp_all add: e_def)
  then have "uint (word_of_int e :: u32) = e" by (simp add: uint_word_of_int)
  ultimately have ex: "uint (word_of_nat M - ss_base_seq s' + 1) = e" "0 < e"
    using M by (simp_all add: e_def)
  have rcv: "sint (ss_packets_recv s') = n"
  proof -
    have "ss_packets_recv s' = word_of_int n" by (simp add: s'(3) n_def)
    moreover have "- (2 ^ 63) \<le> n" "n < 2 ^ 63" using assms(6) by (simp_all add: n_def)
    ultimately show ?thesis by (simp add: signed_of_int signed_take_bit_int_eq_self)
  qed
  have l: "0 \<le> lost" "lost \<le> 0x7FFFFF" "lost < e" using ex(2) by (auto simp: lost_def n_def)
  have cum: "uint (word_of_int lost :: 24 word) = lost" using l by (simp add: uint_word_of_int)
  have frac: "uint (word_of_int (lost * 256 div e) :: u8) = lost * 256 div e"
  proof -
    have "lost * 256 div e * e \<le> lost * 256"
      using div_mult_mod_eq [of "lost * 256" e] pos_mod_sign [OF ex(2), of "lost * 256"] by linarith
    also have "\<dots> < 256 * e" using l(3) by simp
    finally have "lost * 256 div e < 256" using ex(2) by (rule mult_right_less_imp_less [OF _ less_imp_le])
    moreover have "0 \<le> lost * 256 div e" using l ex(2) by (simp add: pos_imp_zdiv_nonneg_iff)
    ultimately show ?thesis by (simp add: uint_word_of_int)
  qed
  have pos: "0 < word_of_nat M - ss_base_seq s' + 1" using ex by (simp add: word_less_def)
  have cl: "(if (if e - n < 0 then 0 else e - n) > 0x7FFFFF then 0x7FFFFF else (if e - n < 0 then 0 else e - n)) = lost"
    by (simp add: lost_def)
  have blk: "rb_ssrc (rtp_session_build_rr_block s' 0 now) = h_ssrc (p_header p0)"
    "rb_extended_seq (rtp_session_build_rr_block s' 0 now) = word_of_nat M"
    "rb_cumulative_lost (rtp_session_build_rr_block s' 0 now) = word_of_int lost"
    "rb_fraction_lost (rtp_session_build_rr_block s' 0 now) = word_of_int (lost * 256 div e)"
    unfolding rtp_session_build_rr_block_def Let_def ext ex(1) rcv cl
    using s'(4) pos l by (auto simp: not_less)
  show ?thesis
    unfolding Let_def M_def [symmetric] s'_def [symmetric] e_def [symmetric] n_def [symmetric] lost_def [symmetric] blk
    using cum frac by simp
qed

lemma session_reports_loss_witness:
  "\<exists>s p0 p1. rtp_session_create True (Some \<lparr>cfg_ssrc = 9, cfg_payload_type = 96, cfg_clock_rate = 90000, cfg_is_audio = False\<rparr>)
            0 0 0 = Some s
     \<and> h_sequence (p_header p0) = 65534 \<and> h_sequence (p_header p1) = 1
     \<and> rb_extended_seq (rtp_session_build_rr_block (recv_all [(p0, 5), (p1, 6)] s) 0 7) = 65537
     \<and> uint (rb_cumulative_lost (rtp_session_build_rr_block (recv_all [(p0, 5), (p1, 6)] s) 0 7)) = 2
     \<and> uint (rb_fraction_lost (rtp_session_build_rr_block (recv_all [(p0, 5), (p1, 6)] s) 0 7)) = 128"
proof -
  define mk where "mk sq = rtp_packet_zero\<lparr>p_header := rtp_header_zero\<lparr>h_sequence := sq, h_ssrc := 3\<rparr>\<rparr>" for sq :: u16
  have mk: "h_sequence (p_header (mk sq)) = sq" "h_ssrc (p_header (mk sq)) = 3" for sq by (simp_all add: mk_def)
  obtain s where s: "rtp_session_create True (Some \<lparr>cfg_ssrc = 9, cfg_payload_type = 96, cfg_clock_rate = 90000,
      cfg_is_audio = False\<rparr>) 0 0 0 = Some s" "\<not> ss_received_first s"
    by (simp add: rtp_session_create_def)
  from session_reports_loss [OF s(2), of "mk 65534" 65534 "[65537]" "[(mk 1, 6)]" 5 7]
  have "rb_extended_seq (rtp_session_build_rr_block (recv_all [(mk 65534, 5), (mk 1, 6)] s) 0 7) = 65537
     \<and> uint (rb_cumulative_lost (rtp_session_build_rr_block (recv_all [(mk 65534, 5), (mk 1, 6)] s) 0 7)) = 2
     \<and> uint (rb_fraction_lost (rtp_session_build_rr_block (recv_all [(mk 65534, 5), (mk 1, 6)] s) 0 7)) = 128"
    by (simp add: mk Let_def)
  with s(1) mk show ?thesis by blast
qed

section \<open>Jitter\<close>

lemma sint_u32: "sint (w :: u32) = (if uint w < 2 ^ 31 then uint w else uint w - 2 ^ 32)"
proof (cases "uint w < 2 ^ 31")
  case True
  moreover have "- (2 ^ 31) \<le> uint w" by (rule order_trans [OF _ uint_ge_0]) simp
  ultimately show ?thesis by (simp add: sint_uint signed_take_bit_int_eq_self)
next
  case False
  have b: "uint w < 2 ^ 32" using uint_lt2p [of w] by simp
  have "(word_of_int (uint w - 2 ^ 32) :: u32) = w"
    using b by (simp add: word_uint_eq_iff uint_word_of_int del: of_int_diff)
  then have "sint w = sint (word_of_int (uint w - 2 ^ 32) :: u32)" by (simp only:)
  also have "\<dots> = uint w - 2 ^ 32"
    using False b by (simp add: signed_of_int signed_take_bit_int_eq_self del: of_int_diff)
  finally show ?thesis using False by simp
qed

lemma div16: "0 \<le> x \<Longrightarrow> 0 \<le> x div 16 \<and> x div 16 \<le> (x :: int)"
proof -
  assume x: "0 \<le> x"
  then have "0 \<le> x div 16" by (simp add: pos_imp_zdiv_nonneg_iff)
  with x show ?thesis using div_mult_mod_eq [of x 16] pos_mod_sign [of 16 x] by linarith
qed

text \<open>\<open>int d; if (d < 0) d = -d; (uint32_t)d\<close> is the absolute value, also for the most negative \<open>int\<close>.\<close>

lemma abs_word: "uint (if sint x < 0 then - x else x :: u32) = \<bar>sint x\<bar>"
proof (cases "uint x < 2 ^ 31")
  case True
  then have "sint x = uint x" by (simp add: sint_u32)
  then show ?thesis by simp
next
  case False
  then have "sint x = uint x - 2 ^ 32" by (simp add: sint_u32)
  moreover have "uint x < 2 ^ 32" using uint_lt2p [of x] by simp
  moreover have "uint (- x) = 2 ^ 32 - uint x"
    using False \<open>uint x < 2 ^ 32\<close> by (simp add: uint_word_ariths zmod_zminus1_eq_if)
  ultimately show ?thesis by simp
qed

text \<open>The jitter estimate follows RFC 3550 only while it grows.  With \<open>d\<close> the change of the transit
  time, the update adds a sixteenth of \<open>|d| - jitter\<close> when \<open>|d|\<close> is at least the estimate, but when it is
  smaller the unsigned difference wraps around and the estimate jumps up by about 2^28 instead of
  falling.\<close>

theorem session_jitter_update:
  assumes "ss_last_transit s \<noteq> 0"
    and "transit = ucast (now * ucast (ss_clock_rate s) div 1000) - ts"
    and "d = \<bar>sint (transit - ss_last_transit s)\<bar>"
  shows "(uint (ss_jitter s) \<le> d \<longrightarrow> uint (ss_jitter (update_jitter s ts now)) = uint (ss_jitter s) + (d - uint (ss_jitter s)) div 16)
    \<and> (d < uint (ss_jitter s) \<and> ss_jitter s \<le> 2 ^ 31 \<longrightarrow> uint (ss_jitter s) + 2 ^ 27 \<le> uint (ss_jitter (update_jitter s ts now)))"
proof -
  let ?x = "transit - ss_last_transit s"
  define a :: u32 where "a = (if sint ?x < 0 then - ?x else ?x)"
  define j where "j = uint (ss_jitter s)"
  have a: "uint a = d" unfolding a_def assms(3) by (rule abs_word)
  have d: "0 \<le> d" "d \<le> 2 ^ 31" using sint_range_size [of ?x] by (auto simp: assms(3) word_size)
  have j: "0 \<le> j" "j < 2 ^ 32" using uint_lt2p [of "ss_jitter s"] by (simp_all add: j_def)
  have upd: "ss_jitter (update_jitter s ts now) = ss_jitter s + (a - ss_jitter s) div 16"
    using assms(1,2) by (simp add: update_jitter_def Let_def a_def)
  have dv: "uint ((a - ss_jitter s) div 16) = (d - j) mod 2 ^ 32 div 16"
    by (simp add: uint_div_distrib uint_word_ariths a j_def)
  have up: "uint (ss_jitter (update_jitter s ts now)) = (j + (d - j) mod 2 ^ 32 div 16) mod 2 ^ 32"
    by (simp add: upd uint_word_ariths dv j_def)
  show ?thesis
  proof (intro conjI impI; (elim conjE)?)
    assume "uint (ss_jitter s) \<le> d"
    then have le: "j \<le> d" by (simp add: j_def)
    then have "(d - j) mod 2 ^ 32 = d - j" using d j by (intro mod_pos_pos_trivial) simp_all
    moreover have "(d - j) div 16 \<le> d - j" "0 \<le> (d - j) div 16" using div16 [of "d - j"] le by simp_all
    then have "(j + (d - j) div 16) mod 2 ^ 32 = j + (d - j) div 16"
      using le d j by (intro mod_pos_pos_trivial) simp_all
    ultimately show "uint (ss_jitter (update_jitter s ts now)) = uint (ss_jitter s) + (d - uint (ss_jitter s)) div 16"
      unfolding up by (simp add: j_def)
  next
    assume lt: "d < uint (ss_jitter s)" "ss_jitter s \<le> 2 ^ 31"
    have j31: "d < j" "j \<le> 2 ^ 31" using lt by (simp_all add: j_def word_le_def)
    have "(d - j) mod 2 ^ 32 = (d - j + 2 ^ 32) mod 2 ^ 32" by simp
    also have "\<dots> = d - j + 2 ^ 32" using j31 d by (intro mod_pos_pos_trivial) auto
    finally have m: "(d - j) mod 2 ^ 32 = d - j + 2 ^ 32" .
    have "2 ^ 27 \<le> (d - j + 2 ^ 32) div 16" "(d - j + 2 ^ 32) div 16 \<le> 2 ^ 28" using j31 d by auto
    moreover from this have "(j + (d - j + 2 ^ 32) div 16) mod 2 ^ 32 = j + (d - j + 2 ^ 32) div 16"
      using j31 j by (intro mod_pos_pos_trivial) auto
    ultimately show "uint (ss_jitter s) + 2 ^ 27 \<le> uint (ss_jitter (update_jitter s ts now))"
      unfolding up m by (simp add: j_def)
  qed
qed

lemma session_jitter_update_witness:
  "\<exists>s. ss_last_transit s \<noteq> 0 \<and> uint (ss_jitter s) = 16 \<and> 2 ^ 27 \<le> uint (ss_jitter (update_jitter s 0 2))"
proof -
  define s where "s = the (rtp_session_create True (Some \<lparr>cfg_ssrc = 9, cfg_payload_type = 96, cfg_clock_rate = 90000,
      cfg_is_audio = False\<rparr>) 0 0 0)\<lparr>ss_last_transit := 180, ss_jitter := 16\<rparr>"
  have s: "ss_last_transit s = 180" "ss_jitter s = 16" "ss_clock_rate s = 90000"
    by (simp_all add: s_def rtp_session_create_def)
  then have t: "180 = (ucast (2 * ucast (ss_clock_rate s) div 1000 :: u64) - 0 :: u32)" by simp
  have "2 ^ 27 \<le> uint (ss_jitter (update_jitter s 0 2))"
    using session_jitter_update [OF _ t refl] s by simp
  with s show ?thesis by (intro exI [of _ s]) simp
qed

end
