(* ===== verification/Media_Engine.thy ===== *)
theory Media_Engine
  imports Twcc Jitter_Buffer Rtp_Session
begin

text \<open>
  The track engine (\<open>webrtc/src/rtc/media/turbo_media_engine.c\<close>) and the SRTP session wrapper it
  calls (\<open>webrtc/src/rtc/srtp/srtp_session.c\<close>): protection of outgoing packets, the send path of one
  RTP fragment, the receive path from the transport to the jitter buffer, the dispatch of every
  RTCP packet to the tracks, and the periodic reports, transport feedback and loss requests.

  \<^item> libsrtp is not part of the repository: its four packet operations are the record
    \<open>libsrtp\<close> of functions on an abstract session state, and every definition that needs them
    takes it as an argument.  \<open>None\<close> is a status other than \<open>srtp_err_status_ok\<close>.
  \<^item> The transport (\<open>turbo_dc_peer_send_transport_data\<close>), the codec and the packet callback are
    outputs: a routine returns the list of its calls in order.
  \<^item> One call of the engine reads the clock once: \<open>now\<close> is \<open>cmeta_monotonic_ms()\<close>.
  \<^item> A read or write outside an object is the result \<open>None\<close> of a routine of type \<open>_ option\<close>.

  Shown here: which packets the dispatcher can be sent without reading past them.  What RTCP
  messages do on arrival is in \<open>Engine_Rtcp\<close>, the send and receive paths in \<open>Engine_Paths\<close>.
\<close>

section \<open>State\<close>

datatype track_type = TRACK_AUDIO | TRACK_VIDEO

datatype media_state = STATE_IDLE | STATE_STARTING | STATE_ACTIVE | STATE_STOPPING | STATE_STOPPED | STATE_ERROR

definition DIRECTION_SENDONLY :: u8 where [simp]: "DIRECTION_SENDONLY = 1"
definition DIRECTION_RECVONLY :: u8 where [simp]: "DIRECTION_RECVONLY = 2"

declare RTP_MAX_PACKET_def [simp]

definition SRTP_MAX_TRAILER_LEN :: nat where [simp]: "SRTP_MAX_TRAILER_LEN = 10 + 4"
definition INT_MAX :: nat where [simp]: "INT_MAX = 2147483647"

text \<open>The members of \<open>turbo_media_track_s\<close> the modelled routines use; the two bitrate members of the
  configuration union are one field, since the track type selects the member.  Encoder and
  callback are tokens.\<close>

record 's media_track =
  tr_type :: track_type
  tr_direction :: u8
  tr_state :: media_state
  tr_payload_type :: u8
  tr_session :: rtp_session
  tr_srtp_send :: "'s option"
  tr_srtp_recv :: "'s option"
  tr_tracker :: "twcc_tracker option"
  tr_receiver :: "twcc_receiver option"
  tr_last_twcc_feedback :: u64
  tr_target_bitrate :: u32
  tr_ext_id :: int
  tr_jitter :: "jitter_buffer option"
  tr_encoder :: "nat option"
  tr_history :: "rtp_history option"
  tr_config_bitrate :: int
  tr_sample_rate :: int
  tr_channels :: int
  tr_frame_size_ms :: int
  tr_framerate :: int
  tr_rtp_packet_cb :: "nat option"
  tr_packets_sent :: u64
  tr_bytes_sent :: u64
  tr_frames_sent :: u64
  tr_packets_recv :: u64
  tr_bytes_recv :: u64
  tr_packets_lost :: u64
  tr_rtt_ms :: u32
  tr_bitrate_bps :: u32
  tr_fraction_lost :: fp
  tr_last_nack_time :: u64

record 's media_ctx =
  mc_tracks :: "'s media_track list"
  mc_rtcp_session :: "'s option"
  mc_last_rtcp_time :: u64
  mc_rtcp_interval_ms :: u32

datatype engine_out = Transport bytes | Keyframe nat | Codec_Bitrate nat int | Packet_Cb nat bytes

definition sends :: "'s media_track \<Rightarrow> bool" where
  "sends t \<longleftrightarrow> tr_direction t AND DIRECTION_SENDONLY \<noteq> 0"

definition receives :: "'s media_track \<Rightarrow> bool" where
  "receives t \<longleftrightarrow> tr_direction t AND DIRECTION_RECVONLY \<noteq> 0"

text \<open>The loops that act on the first matching track and then \<open>break\<close>.\<close>

fun on_first :: "('t \<Rightarrow> bool) \<Rightarrow> ('t \<Rightarrow> 't \<times> 'o list) \<Rightarrow> 't list \<Rightarrow> 't list \<times> 'o list" where
  "on_first P f [] = ([], [])"
| "on_first P f (t # ts) =
     (if P t then let (t', outs) = f t in (t' # ts, outs)
      else let (ts', outs) = on_first P f ts in (t # ts', outs))"

section \<open>SRTP sessions\<close>

record 's libsrtp =
  lib_protect :: "'s \<Rightarrow> bytes \<Rightarrow> bytes option \<times> 's"
  lib_unprotect :: "'s \<Rightarrow> bytes \<Rightarrow> bytes option \<times> 's"
  lib_protect_rtcp :: "'s \<Rightarrow> bytes \<Rightarrow> bytes option \<times> 's"
  lib_unprotect_rtcp :: "'s \<Rightarrow> bytes \<Rightarrow> bytes option \<times> 's"

definition turbo_srtp_protect :: "'s libsrtp \<Rightarrow> 's \<Rightarrow> bytes \<Rightarrow> nat \<Rightarrow> bytes option \<times> 's" where
  "turbo_srtp_protect lib s packet max_len =
     (if length packet > INT_MAX \<or> max_len < length packet
         \<or> max_len - length packet < SRTP_MAX_TRAILER_LEN then (None, s)
      else lib_protect lib s packet)"

definition turbo_srtp_unprotect :: "'s libsrtp \<Rightarrow> 's \<Rightarrow> bytes \<Rightarrow> bytes option \<times> 's" where
  "turbo_srtp_unprotect lib s packet =
     (if length packet > INT_MAX then (None, s) else lib_unprotect lib s packet)"

definition turbo_srtcp_protect :: "'s libsrtp \<Rightarrow> 's \<Rightarrow> bytes \<Rightarrow> nat \<Rightarrow> bytes option \<times> 's" where
  "turbo_srtcp_protect lib s packet max_len =
     (if length packet > INT_MAX \<or> max_len < length packet
         \<or> max_len - length packet < SRTP_MAX_TRAILER_LEN + 4 then (None, s)
      else lib_protect_rtcp lib s packet)"

definition turbo_srtcp_unprotect :: "'s libsrtp \<Rightarrow> 's \<Rightarrow> bytes \<Rightarrow> bytes option \<times> 's" where
  "turbo_srtcp_unprotect lib s packet =
     (if length packet > INT_MAX then (None, s) else lib_unprotect_rtcp lib s packet)"

definition media_track_srtp_protect ::
  "'s libsrtp \<Rightarrow> 's media_track \<Rightarrow> bytes \<Rightarrow> nat \<Rightarrow> bytes option \<times> 's media_track" where
  "media_track_srtp_protect lib t packet max_len =
     (case tr_srtp_send t of
        None \<Rightarrow> (None, t)
      | Some s \<Rightarrow> let (r, s') = turbo_srtp_protect lib s packet max_len in (r, t\<lparr>tr_srtp_send := Some s'\<rparr>))"

definition media_track_srtp_unprotect ::
  "'s libsrtp \<Rightarrow> 's media_track \<Rightarrow> bytes \<Rightarrow> bytes option \<times> 's media_track" where
  "media_track_srtp_unprotect lib t packet =
     (case tr_srtp_recv t of
        None \<Rightarrow> (None, t)
      | Some s \<Rightarrow> let (r, s') = turbo_srtp_unprotect lib s packet in (r, t\<lparr>tr_srtp_recv := Some s'\<rparr>))"

definition media_srtcp_protect ::
  "'s libsrtp \<Rightarrow> 's media_ctx \<Rightarrow> bytes \<Rightarrow> nat \<Rightarrow> bytes option \<times> 's media_ctx" where
  "media_srtcp_protect lib ctx packet max_len =
     (case mc_rtcp_session ctx of
        None \<Rightarrow> (None, ctx)
      | Some s \<Rightarrow> let (r, s') = turbo_srtcp_protect lib s packet max_len
                  in (r, ctx\<lparr>mc_rtcp_session := Some s'\<rparr>))"

definition media_srtcp_unprotect :: "'s libsrtp \<Rightarrow> 's media_ctx \<Rightarrow> bytes \<Rightarrow> bytes option \<times> 's media_ctx" where
  "media_srtcp_unprotect lib ctx packet =
     (case mc_rtcp_session ctx of
        None \<Rightarrow> (None, ctx)
      | Some s \<Rightarrow> let (r, s') = turbo_srtcp_unprotect lib s packet in (r, ctx\<lparr>mc_rtcp_session := Some s'\<rparr>))"

section \<open>Bitrate\<close>

definition apply_track_target_bitrate :: "'s media_track \<Rightarrow> u32 \<Rightarrow> 's media_track \<times> engine_out list" where
  "apply_track_target_bitrate t bitrate_bps =
     (if \<not> sends t \<or> bitrate_bps = 0 then (t, [])
      else (t\<lparr>tr_target_bitrate := bitrate_bps, tr_config_bitrate := sint bitrate_bps,
              tr_bitrate_bps := bitrate_bps,
              tr_tracker := map_option (\<lambda>k. twcc_tracker_set_bitrate k bitrate_bps) (tr_tracker t)\<rparr>,
            case tr_encoder t of None \<Rightarrow> [] | Some e \<Rightarrow> [Codec_Bitrate e (sint bitrate_bps)]))"

section \<open>RTCP handlers\<close>

definition parse_rtcp_rr_block :: "bytes \<Rightarrow> rtcp_rr_block" where
  "parse_rtcp_rr_block data =
     (let loss_word = read_u32 data 4
      in \<lparr>rb_ssrc = read_u32 data 0, rb_fraction_lost = ucast (drop_bit 24 loss_word),
          rb_cumulative_lost = ucast (loss_word AND 0x00FFFFFF), rb_extended_seq = read_u32 data 8,
          rb_jitter = read_u32 data 12, rb_lsr = read_u32 data 16, rb_dlsr = read_u32 data 20\<rparr>)"

definition handle_rtcp_sr :: "u64 \<Rightarrow> 's media_ctx \<Rightarrow> rtcp_sr \<Rightarrow> 's media_ctx" where
  "handle_rtcp_sr now ctx sr =
     ctx\<lparr>mc_tracks := fst (on_first (\<lambda>t. receives t \<and> rtp_session_get_remote_ssrc (tr_session t) = sr_ssrc sr)
        (\<lambda>t. (t\<lparr>tr_session := rtp_session_process_sr (tr_session t) sr now\<rparr>, [] :: unit list)) (mc_tracks ctx))\<rparr>"

definition handle_rtcp_rr :: "'s media_ctx \<Rightarrow> rtcp_rr_block \<Rightarrow> 's media_ctx" where
  "handle_rtcp_rr ctx block =
     ctx\<lparr>mc_tracks := fst (on_first (\<lambda>t. sends t \<and> rtp_session_get_ssrc (tr_session t) = rb_ssrc block)
        (\<lambda>t. (t\<lparr>tr_session := rtp_session_process_rr (tr_session t) block\<rparr>, [] :: unit list)) (mc_tracks ctx))\<rparr>"

definition request_encoder_keyframe :: "u32 \<Rightarrow> 's media_ctx \<Rightarrow> engine_out list" where
  "request_encoder_keyframe media_ssrc ctx =
     snd (on_first (\<lambda>t. sends t \<and> rtp_session_get_ssrc (tr_session t) = media_ssrc)
        (\<lambda>t. (t, case tr_encoder t of None \<Rightarrow> [] | Some e \<Rightarrow> [Keyframe e])) (mc_tracks ctx))"

definition handle_rtcp_pli :: "'s media_ctx \<Rightarrow> u32 \<Rightarrow> engine_out list" where
  "handle_rtcp_pli ctx media_ssrc = request_encoder_keyframe media_ssrc ctx"

definition handle_rtcp_fir :: "'s media_ctx \<Rightarrow> u32 \<Rightarrow> engine_out list" where
  "handle_rtcp_fir ctx media_ssrc = request_encoder_keyframe media_ssrc ctx"

fun map_tracks :: "('t \<Rightarrow> 't \<times> 'o list) \<Rightarrow> 't list \<Rightarrow> 't list \<times> 'o list" where
  "map_tracks f [] = ([], [])"
| "map_tracks f (t # ts) = (let (t', o1) = f t; (ts', o2) = map_tracks f ts in (t' # ts', o1 @ o2))"

definition remb_bitrate :: "bytes \<Rightarrow> u32" where
  "remb_bitrate packet =
     (let e = unat (drop_bit 2 (packet ! 17) AND 0x3F);
          mantissa = push_bit 16 (ucast (packet ! 17) AND 0x03 :: u32) OR push_bit 8 (ucast (packet ! 18))
                       OR ucast (packet ! 19);
          bitrate64 = push_bit e (ucast mantissa) :: u64
      in if bitrate64 > 0xFFFFFFFF then 0xFFFFFFFF else ucast bitrate64)"

definition handle_rtcp_remb :: "'s media_ctx \<Rightarrow> bytes \<Rightarrow> 's media_ctx \<times> engine_out list" where
  "handle_rtcp_remb ctx packet =
     (let num_ssrcs = unat (packet ! 16); bitrate = remb_bitrate packet;
          ssrcs = map (\<lambda>j. read_u32 packet (20 + j * 4)) [0..<num_ssrcs];
          video = (\<lambda>t. sends t \<and> tr_type t = TRACK_VIDEO);
          hit = (\<lambda>t. video t \<and> rtp_session_get_ssrc (tr_session t) \<in> set ssrcs);
          apply_to = (\<lambda>P. \<lambda>t. if P t then apply_track_target_bitrate t bitrate else (t, []))
      in if length packet < 24 then (ctx, [])
         else if take 4 (drop 12 packet) \<noteq> [0x52, 0x45, 0x4D, 0x42] then (ctx, [])
         else if num_ssrcs = 0 \<or> length packet < 20 + num_ssrcs * 4 then (ctx, [])
         else if bitrate = 0 then (ctx, [])
         else let (ts, outs) = map_tracks (apply_to hit) (mc_tracks ctx);
                  matched = list_ex hit (mc_tracks ctx)
              in if \<not> matched \<and> num_ssrcs = 1 \<and> read_u32 packet 20 = 0
                 then let (ts', outs') = map_tracks (apply_to video) ts
                      in (ctx\<lparr>mc_tracks := ts'\<rparr>, outs @ outs')
                 else (ctx\<lparr>mc_tracks := ts\<rparr>, outs))"

text \<open>\<open>handle_rtcp_psfb\<close> reads bytes 4 to 11 without comparing \<open>len\<close> with 12.\<close>

definition handle_rtcp_psfb :: "'s media_ctx \<Rightarrow> bytes \<Rightarrow> ('s media_ctx \<times> engine_out list) option" where
  "handle_rtcp_psfb ctx data =
     (let fmt = data ! 0 AND 0x1F
      in if fmt = word_of_nat RTCP_PLI
         then if length data < 12 then None else Some (ctx, handle_rtcp_pli ctx (read_u32 data 8))
         else if fmt = word_of_nat RTCP_FIR
         then if length data < 12 then None else Some (ctx, handle_rtcp_fir ctx (read_u32 data 8))
         else if fmt = word_of_nat RTCP_REMB then Some (handle_rtcp_remb ctx data)
         else Some (ctx, []))"

definition handle_rtcp_nack :: "'s media_ctx \<Rightarrow> bytes \<Rightarrow> engine_out list" where
  "handle_rtcp_nack ctx data =
     (if length data < 16 then []
      else case nack_parse_rtcp data 64 of
        None \<Rightarrow> []
      | Some (sender_ssrc, media_ssrc, seq_nums) \<Rightarrow>
          snd (on_first (\<lambda>t. sends t \<and> rtp_session_get_ssrc (tr_session t) = media_ssrc)
            (\<lambda>t. (t, case tr_history t of
                       None \<Rightarrow> []
                     | Some h \<Rightarrow> concat (map (\<lambda>sq. case rtp_history_get h sq (RTP_MAX_PACKET + SRTP_MAX_TRAILER_LEN) of
                                   None \<Rightarrow> [] | Some p \<Rightarrow> [Transport p]) seq_nums)))
            (mc_tracks ctx)))"

definition handle_rtcp_twcc :: "u64 \<Rightarrow> 's media_ctx \<Rightarrow> rtcp_twcc \<Rightarrow> 's media_ctx \<times> engine_out list" where
  "handle_rtcp_twcc now ctx twcc =
     (let (ts, outs) = on_first
        (\<lambda>t. tr_tracker t \<noteq> None \<and> sends t \<and> rtp_session_get_ssrc (tr_session t) = tw_media_ssrc twcc)
        (\<lambda>t. case tr_tracker t of
               None \<Rightarrow> (t, [])
             | Some k \<Rightarrow>
               let (bwe, k') = twcc_tracker_process_feedback k twcc (now * 1000);
                   (t1, outs) = apply_track_target_bitrate (t\<lparr>tr_tracker := Some k'\<rparr>) (bw_target bwe)
               in (t1\<lparr>tr_bitrate_bps := bw_estimated bwe, tr_rtt_ms := bw_rtt_ms bwe,
                      tr_fraction_lost := bw_loss_ratio bwe\<rparr>, outs))
        (mc_tracks ctx)
      in (ctx\<lparr>mc_tracks := ts\<rparr>, outs))"

text \<open>\<open>on_rtcp_packet\<close>; \<open>alloc_ok\<close> is whether \<open>calloc\<close> of the feedback structure succeeds.\<close>

definition on_rtcp_packet ::
  "bool \<Rightarrow> u64 \<Rightarrow> u8 \<Rightarrow> bytes \<Rightarrow> 's media_ctx \<Rightarrow> ('s media_ctx \<times> engine_out list) option" where
  "on_rtcp_packet alloc_ok now type packet ctx =
     (if length packet < 4 then Some (ctx, [])
      else if type = word_of_nat RTCP_SR then
        if length packet < 28 then Some (ctx, [])
        else Some (handle_rtcp_sr now ctx
          \<lparr>sr_ssrc = read_u32 packet 4, sr_ntp_sec = read_u32 packet 8, sr_ntp_frac = read_u32 packet 12,
           sr_rtp_ts = read_u32 packet 16, sr_packet_count = read_u32 packet 20,
           sr_octet_count = read_u32 packet 24\<rparr>, [])
      else if type = word_of_nat RTCP_RR then
        let block_count = unat (packet ! 0 AND 0x1F)
        in if length packet < 8 + block_count * 24 then Some (ctx, [])
           else Some (foldl (\<lambda>c i. handle_rtcp_rr c (parse_rtcp_rr_block (drop (8 + i * 24) packet))) ctx
                        [0..<block_count], [])
      else if type = word_of_nat RTCP_RTPFB then
        let fmt = packet ! 0 AND 0x1F
        in if fmt = word_of_nat RTCP_NACK then Some (ctx, handle_rtcp_nack ctx packet)
           else if fmt = 15 then
             if alloc_ok then
               case rtcp_parse_twcc packet of
                 None \<Rightarrow> Some (ctx, [])
               | Some twcc \<Rightarrow> Some (handle_rtcp_twcc now ctx twcc)
             else Some (ctx, [])
           else Some (ctx, [])
      else if type = word_of_nat RTCP_PSFB then handle_rtcp_psfb ctx packet
      else Some (ctx, []))"

text \<open>The callbacks of one compound packet, in order.\<close>

fun dispatch_all :: "bool \<Rightarrow> u64 \<Rightarrow> (unit \<times> u8 \<times> bytes) list \<Rightarrow> 's media_ctx \<Rightarrow> ('s media_ctx \<times> engine_out list) option" where
  "dispatch_all alloc_ok now [] ctx = Some (ctx, [])"
| "dispatch_all alloc_ok now ((u, type, p) # ps) ctx =
     (case on_rtcp_packet alloc_ok now type p ctx of
        None \<Rightarrow> None
      | Some (ctx', o1) \<Rightarrow>
          (case dispatch_all alloc_ok now ps ctx' of
             None \<Rightarrow> None
           | Some (ctx'', o2) \<Rightarrow> Some (ctx'', o1 @ o2)))"

definition feed_rtcp :: "'s libsrtp \<Rightarrow> bool \<Rightarrow> u64 \<Rightarrow> 's media_ctx \<Rightarrow> bytes \<Rightarrow> (int \<times> 's media_ctx \<times> engine_out list) option" where
  "feed_rtcp lib alloc_ok now ctx data =
     (case media_srtcp_unprotect lib ctx data of
        (None, ctx') \<Rightarrow> Some (0, ctx', [])
      | (Some plain, ctx') \<Rightarrow>
          (case rtcp_compound_parse plain (Some ()) of
             None \<Rightarrow> Some (0, ctx', [])
           | Some (n, calls) \<Rightarrow> map_option (\<lambda>(c, outs). (0, c, outs)) (dispatch_all alloc_ok now calls ctx')))"

section \<open>Receive path\<close>

text \<open>The track search: the first receiving track bound to the packet's SSRC; else the last unbound
  one with its payload type; else the only receiving track.\<close>

fun find_recv_track :: "u32 \<Rightarrow> u8 \<Rightarrow> 's media_track list \<Rightarrow> nat \<Rightarrow> nat option \<Rightarrow> nat option \<Rightarrow> nat \<Rightarrow> nat option" where
  "find_recv_track src pt [] i track single cnt = (if track = None \<and> cnt = 1 then single else track)"
| "find_recv_track src pt (t # ts) i track single cnt =
     (if receives t
      then let remote_ssrc = rtp_session_get_remote_ssrc (tr_session t)
           in if remote_ssrc \<noteq> 0
              then if src = remote_ssrc then Some i
                   else find_recv_track src pt ts (i + 1) track (Some i) (cnt + 1)
              else find_recv_track src pt ts (i + 1) (if pt = tr_payload_type t then Some i else track)
                     (Some i) (cnt + 1)
      else find_recv_track src pt ts (i + 1) track single cnt)"

text \<open>\<open>uint8_t twcc_data[2]\<close>: \<open>rtp_packet_get_extension\<close> copies the whole element into it before the
  length is compared with two.\<close>

definition read_twcc_seq :: "rtp_packet \<Rightarrow> 's media_track \<Rightarrow> u64 \<Rightarrow> 's media_track option" where
  "read_twcc_seq pkt t now =
     (case tr_receiver t of
        None \<Rightarrow> Some t
      | Some r \<Rightarrow>
        if tr_ext_id t > 0 \<and> h_extension (p_header pkt) \<noteq> 0
        then case rtp_packet_get_extension pkt (word_of_int (tr_ext_id t)) of
               None \<Rightarrow> Some t
             | Some (d, l) \<Rightarrow>
               let twcc_data = mem_write [0, 0] 0 d
               in if length twcc_data \<noteq> 2 then None
                  else if l = 2
                  then Some (t\<lparr>tr_receiver := Some (twcc_receiver_register_packet r
                         (push_bit 8 (ucast (twcc_data ! 0)) OR ucast (twcc_data ! 1)) (now * 1000))\<rparr>)
                  else Some t
        else Some t)"

definition recv_track :: "'s libsrtp \<Rightarrow> u64 \<Rightarrow> 's media_track \<Rightarrow> bytes \<Rightarrow> (int \<times> 's media_track \<times> engine_out list) option" where
  "recv_track lib now t data =
     (case media_track_srtp_unprotect lib t data of
        (None, t1) \<Rightarrow> Some (- 1, t1\<lparr>tr_packets_lost := tr_packets_lost t1 + 1\<rparr>, [])
      | (Some packet, t1) \<Rightarrow>
        (case rtp_packet_parse packet of
           None \<Rightarrow> Some (- 1, t1\<lparr>tr_packets_lost := tr_packets_lost t1 + 1\<rparr>, [])
         | Some pkt \<Rightarrow>
           (case rtp_session_recv (tr_session t1) pkt now of
              (rc, s) \<Rightarrow>
                if rc \<noteq> 0 then Some (- 1, t1\<lparr>tr_session := s, tr_packets_lost := tr_packets_lost t1 + 1\<rparr>, [])
                else let t2 = t1\<lparr>tr_session := s, tr_packets_recv := tr_packets_recv t1 + 1,
                                 tr_bytes_recv := tr_bytes_recv t1 + word_of_nat (p_payload_len pkt)\<rparr>
                     in if p_payload_len pkt = 0 then Some (0, t2, [])
                        else case read_twcc_seq pkt t2 now of
                          None \<Rightarrow> None
                        | Some t3 \<Rightarrow>
                          let outs = (case tr_rtp_packet_cb t3 of None \<Rightarrow> [] | Some cb \<Rightarrow> [Packet_Cb cb packet])
                          in if ucast (h_payload_type (p_header pkt)) \<noteq> tr_payload_type t3 then Some (0, t3, outs)
                             else case tr_jitter t3 of
                               None \<Rightarrow> Some (- 1, t3, outs)
                             | Some jb \<Rightarrow>
                                 let (rc, jb') = jitter_buffer_put jb pkt now
                                 in Some (rc, t3\<lparr>tr_jitter := Some jb'\<rparr>, outs))))"

definition feed_rtp :: "'s libsrtp \<Rightarrow> u64 \<Rightarrow> 's media_ctx \<Rightarrow> bytes \<Rightarrow> (int \<times> 's media_ctx \<times> engine_out list) option" where
  "feed_rtp lib now ctx data =
     (if drop_bit 6 (data ! 0) AND 0x03 \<noteq> 2 then Some (- 1, ctx, [])
      else case find_recv_track (read_u32 data 8) (data ! 1 AND 0x7F) (mc_tracks ctx) 0 None None 0 of
        None \<Rightarrow> Some (- 1, ctx, [])
      | Some i \<Rightarrow> map_option (\<lambda>(rc, t, outs). (rc, ctx\<lparr>mc_tracks := (mc_tracks ctx)[i := t]\<rparr>, outs))
                    (recv_track lib now (mc_tracks ctx ! i) data))"

definition turbo_media_feed_data ::
  "'s libsrtp \<Rightarrow> bool \<Rightarrow> u64 \<Rightarrow> 's media_ctx \<Rightarrow> bytes \<Rightarrow> (int \<times> 's media_ctx \<times> engine_out list) option" where
  "turbo_media_feed_data lib alloc_ok now ctx data =
     (if length data < 4 \<or> length data > RTP_MAX_PACKET + SRTP_MAX_TRAILER_LEN then Some (- 1, ctx, [])
      else let looks_rtcp = (word_of_nat RTCP_SR \<le> data ! 1 \<and> data ! 1 \<le> word_of_nat RTCP_PSFB)
           in if \<not> looks_rtcp \<and> length data < 12 then Some (- 1, ctx, [])
              else if looks_rtcp then feed_rtcp lib alloc_ok now ctx data
              else feed_rtp lib now ctx data)"

section \<open>Send path\<close>

record rtp_fragment =
  fr_data :: bytes
  fr_marker :: bool
  fr_end :: bool

definition rtp_buf :: bytes where "rtp_buf = replicate (RTP_MAX_PACKET + SRTP_MAX_TRAILER_LEN) 0"

text \<open>The transport-wide sequence number: registered with the tracker, added as an extension and the
  packet serialised again into the same buffer.\<close>

definition attach_twcc :: "'s media_track \<Rightarrow> rtp_packet \<Rightarrow> bytes \<Rightarrow> int \<Rightarrow> u64 \<Rightarrow> (rtp_packet \<times> bytes \<times> int) option \<times> 's media_track" where
  "attach_twcc t pkt buf rtp_len send_time_us =
     (case tr_tracker t of
        None \<Rightarrow> (Some (pkt, buf, rtp_len), t)
      | Some k \<Rightarrow>
        if tr_ext_id t > 0
        then let (twcc_seq, k') = twcc_tracker_register_packet k (nat rtp_len + 8) send_time_us;
                 t' = t\<lparr>tr_tracker := Some k'\<rparr>
             in (case rtp_packet_add_extension pkt (word_of_int (tr_ext_id t))
                        (Some [ucast (drop_bit 8 twcc_seq), ucast (twcc_seq AND 0xFF)]) 2 of
                   None \<Rightarrow> (Some (pkt, buf, rtp_len), t')
                 | Some pkt' \<Rightarrow>
                     (case rtp_packet_serialize pkt' buf of
                        None \<Rightarrow> (None, t')
                      | Some (buf', n) \<Rightarrow> if n \<le> 0 then (None, t') else (Some (pkt', buf', n), t')))
        else (Some (pkt, buf, rtp_len), t))"

text \<open>Protect, remember for retransmission, send and count one packet; \<open>False\<close> is \<open>return -1\<close>.\<close>

definition send_protected ::
  "'s libsrtp \<Rightarrow> u16 \<Rightarrow> bytes \<Rightarrow> 's media_track \<Rightarrow> bool \<times> 's media_track \<times> engine_out list" where
  "send_protected lib sq packet t =
     (case media_track_srtp_protect lib t packet (RTP_MAX_PACKET + SRTP_MAX_TRAILER_LEN) of
        (None, t') \<Rightarrow> (False, t', [])
      | (Some p, t') \<Rightarrow>
          (True, t'\<lparr>tr_history := map_option (\<lambda>h. rtp_history_put h sq p) (tr_history t'),
                     tr_packets_sent := tr_packets_sent t' + 1,
                     tr_bytes_sent := tr_bytes_sent t' + word_of_nat (length p)\<rparr>, [Transport p]))"

definition send_fragment ::
  "'s libsrtp \<Rightarrow> u64 \<Rightarrow> u64 \<Rightarrow> rtp_fragment \<Rightarrow> 's media_track \<Rightarrow> bool \<times> 's media_track \<times> engine_out list" where
  "send_fragment lib send_time_us timestamp f t =
     (let m = (fr_marker f \<or> fr_end f);
          (r, s) = (if timestamp \<noteq> 0
                    then rtp_session_send_with_timestamp (tr_session t) (Some (fr_data f)) (length (fr_data f)) m
                           (ucast timestamp) rtp_buf
                    else rtp_session_send (tr_session t) (Some (fr_data f)) (length (fr_data f)) m rtp_buf);
          t1 = t\<lparr>tr_session := s\<rparr>
      in case r of
           None \<Rightarrow> (True, t1, [])
         | Some (pkt, buf, n) \<Rightarrow>
           if n \<le> 0 then (True, t1, [])
           else case attach_twcc t1 pkt buf n send_time_us of
                  (None, t2) \<Rightarrow> (True, t2, [])
                | (Some (pkt', buf', n'), t2) \<Rightarrow>
                    send_protected lib (h_sequence (p_header pkt')) (take (nat n') buf') t2)"

fun send_fragments ::
  "'s libsrtp \<Rightarrow> u64 \<Rightarrow> u64 \<Rightarrow> rtp_fragment list \<Rightarrow> 's media_track \<Rightarrow> bool \<times> 's media_track \<times> engine_out list" where
  "send_fragments lib us timestamp [] t = (True, t, [])"
| "send_fragments lib us timestamp (f # fs) t =
     (case send_fragment lib us timestamp f t of
        (False, t', outs) \<Rightarrow> (False, t', outs)
      | (True, t', outs) \<Rightarrow>
          (case send_fragments lib us timestamp fs t' of (ok, t'', outs') \<Rightarrow> (ok, t'', outs @ outs')))"

definition RTP_CLOCK_VIDEO :: int where [simp]: "RTP_CLOCK_VIDEO = 90000"

definition frame_ticks :: "'s media_track \<Rightarrow> u32" where
  "frame_ticks t =
     (case tr_type t of
        TRACK_AUDIO \<Rightarrow> word_of_int (cdiv (tr_sample_rate t * tr_frame_size_ms t) 1000)
      | TRACK_VIDEO \<Rightarrow>
          let ticks = word_of_int (cdiv RTP_CLOCK_VIDEO (if tr_framerate t > 0 then tr_framerate t else 30)) :: u32
          in if ticks = 0 then word_of_int (cdiv RTP_CLOCK_VIDEO 30) else ticks)"

definition audio_frame_ok :: "'s media_track \<Rightarrow> nat \<Rightarrow> bool" where
  "audio_frame_ok t len \<longleftrightarrow>
     (if tr_sample_rate t \<le> 0 \<or> tr_channels t \<le> 0 \<or> tr_frame_size_ms t \<le> 0 then False
      else let frame_bytes = nat (tr_channels t) * 2;
               frame_samples = nat (tr_sample_rate t) * nat (tr_frame_size_ms t) div 1000;
               expected_len = frame_samples * frame_bytes mod 2 ^ 64
           in frame_samples \<noteq> 0 \<and> expected_len \<noteq> 0 \<and> len = expected_len)"

text \<open>\<open>codec\<close> stands for \<open>turbo_codec_encode\<close> and the codec's \<open>packetize\<close> operation: \<open>None\<close> is an encoding
  error; otherwise the encoded bytes and the fragments, none when the codec has no \<open>packetize\<close>, and
  \<open>None\<close> when it reports an error.\<close>

definition turbo_media_track_send_frame ::
  "'s libsrtp \<Rightarrow> (nat \<Rightarrow> bytes \<Rightarrow> (bytes \<times> rtp_fragment list option) option) \<Rightarrow> u64 \<Rightarrow> bytes \<Rightarrow> u64 \<Rightarrow>
   's media_track \<Rightarrow> int \<times> 's media_track \<times> engine_out list" where
  "turbo_media_track_send_frame lib codec now data timestamp t =
     (if tr_state t \<noteq> STATE_ACTIVE \<or> \<not> sends t then (- 1, t, [])
      else if tr_type t = TRACK_AUDIO \<and> \<not> audio_frame_ok t (length data) then (- 1, t, [])
      else case tr_encoder t of
        None \<Rightarrow> (- 1, t, [])
      | Some e \<Rightarrow>
        (case codec e data of
           None \<Rightarrow> (- 1, t, [])
         | Some (encoded, None) \<Rightarrow> (- 1, t, [])
         | Some (encoded, Some fs) \<Rightarrow>
           let frags = (if fs = [] then [\<lparr>fr_data = encoded, fr_marker = True, fr_end = True\<rparr>] else fs)
           in (case send_fragments lib (now * 1000) timestamp frags t of
                 (False, t', outs) \<Rightarrow> (- 1, t', outs)
               | (True, t', outs) \<Rightarrow>
                   (0, t'\<lparr>tr_session := rtp_session_advance_timestamp (tr_session t') (frame_ticks t'),
                          tr_frames_sent := tr_frames_sent t' + 1\<rparr>, outs))))"

definition turbo_media_track_send_rtp_packet ::
  "'s libsrtp \<Rightarrow> bytes \<Rightarrow> 's media_track \<Rightarrow> int \<times> 's media_track \<times> engine_out list" where
  "turbo_media_track_send_rtp_packet lib packet t =
     (if tr_state t \<noteq> STATE_ACTIVE \<or> \<not> sends t then (- 1, t, [])
      else case rtp_packet_parse packet of
        None \<Rightarrow> (- 1, t, [])
      | Some incoming \<Rightarrow>
        (case rtp_session_send_with_timestamp (tr_session t) (p_payload incoming) (p_payload_len incoming)
                (h_marker (p_header incoming) \<noteq> 0) (h_timestamp (p_header incoming)) rtp_buf of
           (None, s) \<Rightarrow> (- 1, t\<lparr>tr_session := s\<rparr>, [])
         | (Some (outgoing, buf, n), s) \<Rightarrow>
           if n \<le> 0 then (- 1, t\<lparr>tr_session := s\<rparr>, [])
           else let buf' = buf[1 := (buf ! 1 AND 0x80) OR (ucast (h_payload_type (p_header incoming)) AND 0x7F)]
                in (case send_protected lib (h_sequence (p_header outgoing)) (take (nat n) buf')
                           (t\<lparr>tr_session := s\<rparr>) of
                      (ok, t', outs) \<Rightarrow> (if ok then 0 else - 1, t', outs))))"

section \<open>Feedback\<close>

definition stack_buf :: bytes where "stack_buf = replicate RTP_MAX_PACKET 0"

text \<open>The \<open>rtcp_compound_add_*\<close> result is not looked at: a packet that does not fit is left out.\<close>

definition added :: "rtcp_compound option \<Rightarrow> rtcp_compound \<Rightarrow> rtcp_compound" where
  "added r c = (case r of None \<Rightarrow> c | Some c' \<Rightarrow> c')"

definition compound_bytes :: "rtcp_compound \<Rightarrow> bytes" where
  "compound_bytes c = take (rtcp_compound_finish c) (cp_buffer c)"

definition send_rtcp :: "'s libsrtp \<Rightarrow> bytes \<Rightarrow> 's media_ctx \<Rightarrow> bool \<times> 's media_ctx \<times> engine_out list" where
  "send_rtcp lib packet ctx =
     (case media_srtcp_protect lib ctx packet RTP_MAX_PACKET of
        (None, ctx') \<Rightarrow> (False, ctx', [])
      | (Some p, ctx') \<Rightarrow> (True, ctx', [Transport p]))"

definition reporter_ssrc :: "'s media_ctx \<Rightarrow> u32" where
  "reporter_ssrc ctx = (case find sends (mc_tracks ctx) of
     None \<Rightarrow> 0 | Some t \<Rightarrow> rtp_session_get_ssrc (tr_session t))"

definition turbo_media_track_request_keyframe ::
  "'s libsrtp \<Rightarrow> 's media_track \<Rightarrow> 's media_ctx \<Rightarrow> 's media_ctx \<times> engine_out list" where
  "turbo_media_track_request_keyframe lib t ctx =
     (let remote_ssrc = rtp_session_get_remote_ssrc (tr_session t); c0 = rtcp_compound_init stack_buf
      in if receives t \<and> remote_ssrc \<noteq> 0
         then snd (send_rtcp lib (compound_bytes (added (rtcp_compound_add_pli c0 (reporter_ssrc ctx) remote_ssrc) c0)) ctx)
         else (ctx, []))"

text \<open>The grouping of \<open>send_nack_for_track\<close>: \<open>int diff = missing[j] - pid - 1\<close>, not reduced modulo the
  sequence-number space.\<close>

definition group_missing :: "u16 list \<Rightarrow> u16 \<times> u16" where
  "group_missing missing =
     (let pid = hd missing
      in (pid, fold (\<lambda>s blp. let diff = uint s - uint pid - 1
                            in if diff \<ge> 0 \<and> diff < 16 then blp OR push_bit (nat diff) 1 else blp)
                 (tl missing) 0))"

definition nack_request :: "'s media_ctx \<Rightarrow> 's media_track \<Rightarrow> u16 list \<Rightarrow> bytes" where
  "nack_request ctx t missing =
     (let c0 = rtcp_compound_init stack_buf; (pid, blp) = group_missing missing;
          remote_ssrc = rtp_session_get_remote_ssrc (tr_session t)
      in compound_bytes (added (rtcp_compound_add_nack c0 (reporter_ssrc ctx) remote_ssrc pid blp) c0))"

definition send_nack_for_track ::
  "'s libsrtp \<Rightarrow> nat \<Rightarrow> u64 \<Rightarrow> 's media_ctx \<Rightarrow> 's media_ctx \<times> engine_out list" where
  "send_nack_for_track lib i now ctx =
     (let t = mc_tracks ctx ! i;
          missing = (case tr_jitter t of None \<Rightarrow> [] | Some jb \<Rightarrow> jitter_buffer_get_missing jb 16)
      in if missing = [] then (ctx, [])
         else case send_rtcp lib (nack_request ctx t missing) ctx of
                (sent, ctx', outs) \<Rightarrow>
                  (if sent then ctx'\<lparr>mc_tracks := (mc_tracks ctx')[i := t\<lparr>tr_last_nack_time := now\<rparr>]\<rparr> else ctx', outs))"

definition report_blocks :: "u64 \<Rightarrow> 's media_ctx \<Rightarrow> rtcp_rr_block list" where
  "report_blocks now ctx =
     take 31 (map (\<lambda>t. rtp_session_build_rr_block (tr_session t) 0 now)
       (filter (\<lambda>t. receives t \<and> rtp_session_get_remote_ssrc (tr_session t) \<noteq> 0) (mc_tracks ctx)))"

definition track_report :: "u64 \<Rightarrow> 's media_ctx \<Rightarrow> 's media_track \<Rightarrow> rtcp_compound" where
  "track_report now ctx t =
     (let c0 = rtcp_compound_init stack_buf; blocks = report_blocks now ctx
      in if sends t
         then added (rtcp_compound_add_sr c0 (rtp_session_build_sr (tr_session t) now) (Some blocks) (length blocks)) c0
         else if receives t then
           if list_ex sends (mc_tracks ctx) then c0
           else let src = rtp_session_get_ssrc (tr_session t); remote_ssrc = rtp_session_get_remote_ssrc (tr_session t)
                in if length blocks > 0
                   then let c1 = added (rtcp_compound_add_rr c0 src (Some blocks) (length blocks)) c0
                        in if tr_type t = TRACK_VIDEO \<and> remote_ssrc \<noteq> 0
                           then added (rtcp_compound_add_remb c1 src remote_ssrc 2000000) c1 else c1
                   else c0
         else c0)"

fun report_tracks :: "'s libsrtp \<Rightarrow> u64 \<Rightarrow> 's media_track list \<Rightarrow> 's media_ctx \<Rightarrow> 's media_ctx \<times> engine_out list" where
  "report_tracks lib now [] ctx = (ctx, [])"
| "report_tracks lib now (t # ts) ctx =
     (let c = track_report now ctx t;
          (ctx1, o1) = (if tr_state t = STATE_ACTIVE \<and> rtcp_compound_finish c > 0
                        then snd (send_rtcp lib (compound_bytes c) ctx) else (ctx, []));
          (ctx2, o2) = report_tracks lib now ts ctx1
      in (ctx2, o1 @ o2))"

definition send_rtcp_reports :: "'s libsrtp \<Rightarrow> u64 \<Rightarrow> 's media_ctx \<Rightarrow> 's media_ctx \<times> engine_out list" where
  "send_rtcp_reports lib now ctx =
     (let (ctx', outs) = report_tracks lib now (mc_tracks ctx) ctx in (ctx'\<lparr>mc_last_rtcp_time := now\<rparr>, outs))"

definition send_track_feedback ::
  "'s libsrtp \<Rightarrow> bool \<Rightarrow> u64 \<Rightarrow> nat \<Rightarrow> 's media_ctx \<Rightarrow> 's media_ctx \<times> engine_out list" where
  "send_track_feedback lib alloc_ok now i ctx =
     (let t = mc_tracks ctx ! i; c0 = rtcp_compound_init stack_buf;
          upd = (\<lambda>c t. c\<lparr>mc_tracks := (mc_tracks c)[i := t]\<rparr>)
      in case tr_receiver t of
           None \<Rightarrow> (ctx, [])
         | Some r \<Rightarrow>
           if now - tr_last_twcc_feedback t < 100 \<or> \<not> alloc_ok then (ctx, [])
           else case twcc_receiver_generate_feedback r (now * 1000) of
             (None, r') \<Rightarrow> (upd ctx (t\<lparr>tr_receiver := Some r'\<rparr>), [])
           | (Some twcc, r') \<Rightarrow>
             let t1 = t\<lparr>tr_receiver := Some r'\<rparr>; remote_ssrc = rtp_session_get_remote_ssrc (tr_session t)
             in if remote_ssrc = 0 then (upd ctx t1, [])
                else let c = added (rtcp_compound_add_twcc c0 (twcc\<lparr>tw_media_ssrc := remote_ssrc\<rparr>)) c0;
                         t2 = t1\<lparr>tr_last_twcc_feedback := now\<rparr>
                     in if rtcp_compound_finish c > 0
                        then snd (send_rtcp lib (compound_bytes c) (upd ctx t2))
                        else (upd ctx t2, []))"

fun feedback_tracks :: "'s libsrtp \<Rightarrow> bool \<Rightarrow> u64 \<Rightarrow> nat list \<Rightarrow> 's media_ctx \<Rightarrow> 's media_ctx \<times> engine_out list" where
  "feedback_tracks lib alloc_ok now [] ctx = (ctx, [])"
| "feedback_tracks lib alloc_ok now (i # is) ctx =
     (let (ctx1, o1) = send_track_feedback lib alloc_ok now i ctx; (ctx2, o2) = feedback_tracks lib alloc_ok now is ctx1
      in (ctx2, o1 @ o2))"

definition send_twcc_feedback :: "'s libsrtp \<Rightarrow> bool \<Rightarrow> u64 \<Rightarrow> 's media_ctx \<Rightarrow> 's media_ctx \<times> engine_out list" where
  "send_twcc_feedback lib alloc_ok now ctx = feedback_tracks lib alloc_ok now [0..<length (mc_tracks ctx)] ctx"

section \<open>Dispatch stays inside the packet\<close>

text \<open>The RTCP dispatcher reads outside the packet it was handed exactly when the packet is a PLI or
  FIR shorter than twelve bytes (\<open>handle_rtcp_psfb\<close> does not compare the length); every other packet,
  whatever its type, length and contents, is handled within its bounds.\<close>

theorem rtcp_dispatch_bounds:
  "on_rtcp_packet alloc_ok now type packet ctx = None \<longleftrightarrow>
     type = 206 \<and> packet ! 0 AND 0x1F \<in> {1, 4} \<and> 4 \<le> length packet \<and> length packet < 12"
  by (auto simp: on_rtcp_packet_def handle_rtcp_psfb_def Let_def split: option.splits)

end
