(* ===== verification/Engine_Rtcp.thy ===== *)
theory Engine_Rtcp
  imports Media_Engine
begin

text \<open>
  What the RTCP packets built by \<open>rtcp_packet.c\<close> do when \<open>turbo_media_feed_data\<close> of the peer
  (\<open>turbo_media_engine.c\<close>) receives them.  \<open>item_effect\<close> is the specification: one state change and the
  calls per message, with no bytes in it; the refinement theorem says that building any sequence
  of messages, splitting the compound and dispatching its packets has exactly these effects.
\<close>

section \<open>What a built packet does on arrival\<close>

lemma more_masks [word_masks]:
  "(63 :: 'a::len word) = mask 6" "(0xFFFFFF :: 'a::len word) = mask 24"
  by (simp_all add: mask_eq_exp_minus_1)

lemma parse_block_bytes: "parse_rtcp_rr_block (block_bytes b @ r) = b"
proof -
  have w: "ucast (drop_bit 24 (push_bit 24 (ucast f) OR (ucast l AND 0x00FFFFFF) :: u32)) = f"
    "ucast ((push_bit 24 (ucast f) OR (ucast l AND 0x00FFFFFF) :: u32) AND 0x00FFFFFF) = l"
    for f :: u8 and l :: "24 word"
    by (rule bit_word_eqI; auto simp: bit_simps word_masks dest: bit_imp_le_length)+
  show ?thesis
    by (cases b) (simp add: parse_rtcp_rr_block_def block_bytes_def Let_def wire_simps read_skip w del: drop_bit_or)
qed

subsection \<open>The bitrate of a REMB\<close>

lemma unat_drop_bit: "unat (drop_bit k m) = unat m div 2 ^ k"
  unfolding unsigned_drop_bit_eq by (simp add: drop_bit_eq_div take_bit_nat_eq_self unat_less_exp)

lemma unat_push_bit: "unat m * 2 ^ k < 2 ^ LENGTH('a) \<Longrightarrow> unat (push_bit k (m :: 'a::len word)) = unat m * 2 ^ k"
  unfolding unsigned_push_bit_eq by (simp add: push_bit_eq_mult take_bit_nat_eq_self)

lemma remb_normalise_spec:
  assumes "unat m < 2 ^ (81 - e)" "e \<le> 63" "remb_normalise m e = (m', e')"
  shows "\<exists>k. e' = e + k \<and> e' \<le> 63 \<and> m' = drop_bit k m \<and> unat m' < 2 ^ 18 \<and> (0 < k \<longrightarrow> 2 ^ 17 \<le> unat m')"
  using assms
proof (induction m e arbitrary: m' e' rule: remb_normalise.induct)
  case (1 m e)
  show ?case
  proof (cases "m > 0x3FFFF \<and> e < 63")
    case True
    define j where "j = 80 - e"
    from True have "e < 63" by simp
    then have j: "81 - e = Suc j" "81 - (e + 1) = j" unfolding j_def by linarith+
    have "unat (drop_bit 1 m) < 2 ^ (81 - (e + 1))"
      using 1(2) unfolding j unat_drop_bit by simp
    moreover have "remb_normalise (drop_bit 1 m) (e + 1) = (m', e')"
      using 1(4) True by (subst (asm) remb_normalise.simps) simp
    ultimately obtain k where k: "e' = e + 1 + k" "e' \<le> 63" "m' = drop_bit k (drop_bit 1 m)" "unat m' < 2 ^ 18"
      "0 < k \<longrightarrow> 2 ^ 17 \<le> unat m'"
      using 1(1) [OF True] True by force
    have "2 ^ 18 \<le> unat m" using True by (simp add: word_less_nat_alt)
    then have "k = 0 \<Longrightarrow> 2 ^ 17 \<le> unat m'" using k(3) unat_drop_bit [of 1 m] by simp
    with k show ?thesis by (intro exI [of _ "k + 1"]) (auto simp: drop_bit_drop_bit)
  next
    case False
    then have "m' = m" "e' = e" using 1(4) by (auto simp: remb_normalise.simps)
    moreover have "unat m < 2 ^ 18"
    proof (cases "e = 63")
      case True
      then show ?thesis using 1(2) by simp
    next
      case False
      then have "m \<le> 0x3FFFF" using \<open>\<not> (m > 0x3FFFF \<and> e < 63)\<close> 1(3) by auto
      then show ?thesis by (simp add: word_le_nat_alt)
    qed
    ultimately show ?thesis using 1(3) by (intro exI [of _ 0]) simp
  qed
qed

text \<open>The rate a REMB message carries: the requested rate with the bits below the mantissa cleared.\<close>

definition remb_carried :: "u32 \<Rightarrow> u32" where
  "remb_carried r = (let (m, e) = remb_normalise r 0 in push_bit e m)"

lemma small_bit: "e < 2 ^ k \<Longrightarrow> k \<le> n \<Longrightarrow> \<not> bit (e :: nat) n"
  by (metis bit_take_bit_iff linorder_not_less take_bit_nat_eq_self_iff)

lemma small_word_bit: "unat m < 2 ^ k \<Longrightarrow> k \<le> n \<Longrightarrow> \<not> bit m n"
  using small_bit [of "unat m" k n] by (simp add: bit_unsigned_iff)

lemma remb_fields:
  assumes "unat m < 2 ^ 18" "e < 64"
  shows "unat (drop_bit 2 (ucast (push_bit 2 (word_of_nat e :: u32) OR (drop_bit 16 m AND 0x03)) :: u8) AND 0x3F) = e"
    (is "unat ?l = e")
    and "push_bit 16 (ucast (ucast (push_bit 2 (word_of_nat e :: u32) OR (drop_bit 16 m AND 0x03)) :: u8) AND 0x03 :: u32)
       OR push_bit 8 (ucast (ucast (drop_bit 8 m AND 0xFF) :: u8)) OR ucast (ucast (m AND 0xFF) :: u8) = m" (is "?m = m")
proof -
  have "?l = word_of_nat e"
    using small_bit [of e 6] assms(2)
    by (intro bit_word_eqI) (auto simp: bit_simps word_masks not_le [symmetric])
  then show "unat ?l = e" using assms(2) by (simp add: unsigned_of_nat take_bit_nat_eq_self)
  show "?m = m"
  proof (rule bit_word_eqI)
    fix n
    assume "n < LENGTH(32)"
    then show "bit ?m n = bit m n"
      using small_word_bit [of m 18 n, OF assms(1)]
      by (cases "n < 8"; cases "n < 16"; cases "n < 18") (auto simp: bit_simps word_masks)
  qed
qed

lemma remb_bitrate_carried:
  "remb_bitrate (pre @ remb_rate_bytes r @ post) = remb_carried r" if "length pre = 16"
proof -
  obtain m e where me: "remb_normalise r 0 = (m, e)" by (cases "remb_normalise r 0")
  have "unat r < 2 ^ 81" using u32_unat_less [of r] by simp
  from remb_normalise_spec [of r 0, OF _ _ me] this
  have k: "e \<le> 63" "m = drop_bit e r" "unat m < 2 ^ 18" by auto
  have b: "unat m * 2 ^ e \<le> unat r" unfolding k(2) unat_drop_bit by simp
  have v: "unat (push_bit e (ucast m :: u64)) = unat m * 2 ^ e"
    using b u32_unat_less [of r] u32_unat_less [of m]
    by (subst unat_push_bit) (simp_all add: unsigned_ucast_eq take_bit_nat_eq_self)
  have "unat (push_bit e m) = unat m * 2 ^ e"
    using b u32_unat_less [of r] by (intro unat_push_bit) simp
  moreover have "\<not> push_bit e (ucast m :: u64) > 0xFFFFFFFF"
    using b v u32_unat_less [of r] by (simp add: word_less_nat_alt)
  moreover have "unat (ucast (push_bit e (ucast m :: u64)) :: u32) = unat m * 2 ^ e"
    using v b u32_unat_less [of r] by (simp add: unsigned_ucast_eq take_bit_nat_eq_self)
  ultimately have c: "\<not> push_bit e (ucast m :: u64) > 0xFFFFFFFF"
    "ucast (push_bit e (ucast m :: u64)) = push_bit e m"
    by (simp_all only: word_unat_eq_iff not_False_eq_True)
  have p: "(pre @ remb_rate_bytes r @ post) ! 17 = ucast (push_bit 2 (word_of_nat e :: u32) OR (drop_bit 16 m AND 0x03))"
    "(pre @ remb_rate_bytes r @ post) ! 18 = ucast (drop_bit 8 m AND 0xFF)"
    "(pre @ remb_rate_bytes r @ post) ! 19 = ucast (m AND 0xFF)"
    using that by (simp_all add: remb_rate_bytes_def me nth_append)
  have "e < 64" using k(1) by simp
  from k(3) this show ?thesis
    unfolding remb_bitrate_def p Let_def remb_fields [OF k(3) \<open>e < 64\<close>]
    by (simp only: c if_False remb_carried_def me Let_def prod.case)
qed

text \<open>A bitrate estimate sent as REMB arrives rounded down to a multiple of a power of two: never more than
  what was estimated, exact up to 262143 bit/s, and above that low by at most one part in 131072.\<close>

theorem remb_rate_precision:
  "remb_bitrate (replicate 16 b @ remb_rate_bytes r @ post) \<le> r
   \<and> (unat r - unat (remb_bitrate (replicate 16 b @ remb_rate_bytes r @ post))) * 131072
        \<le> unat (remb_bitrate (replicate 16 b @ remb_rate_bytes r @ post))
   \<and> (r \<le> 0x3FFFF \<longrightarrow> remb_bitrate (replicate 16 b @ remb_rate_bytes r @ post) = r)"
proof -
  obtain m e where me: "remb_normalise r 0 = (m, e)" by (cases "remb_normalise r 0")
  have "unat r < 2 ^ 81" using u32_unat_less [of r] by simp
  from remb_normalise_spec [of r 0, OF _ _ me] this
  have k: "m = drop_bit e r" "0 < e \<longrightarrow> 2 ^ 17 \<le> unat m" by auto
  have um: "unat m = unat r div 2 ^ e" unfolding k(1) by (rule unat_drop_bit)
  have le: "unat m * 2 ^ e \<le> unat r" unfolding um by simp
  have v: "unat (remb_carried r) = unat m * 2 ^ e"
    using le u32_unat_less [of r] unfolding remb_carried_def me Let_def prod.case by (intro unat_push_bit) simp
  have "(unat r - unat m * 2 ^ e) * 131072 \<le> unat m * 2 ^ e"
  proof (cases "e = 0")
    case True
    then show ?thesis by (simp add: um)
  next
    case False
    have "unat r - unat m * 2 ^ e \<le> 2 ^ e" unfolding um
      by (metis less_or_eq_imp_le minus_div_mult_eq_mod mod_less_divisor zero_less_numeral zero_less_power)
    then have "(unat r - unat m * 2 ^ e) * 131072 \<le> 2 ^ e * 131072" by simp
    also have "\<dots> \<le> unat m * 2 ^ e" using k(2) False by simp
    finally show ?thesis .
  qed
  moreover have "r \<le> 0x3FFFF \<Longrightarrow> remb_carried r = r"
    using leD [of r "0x3FFFF"] by (simp add: remb_carried_def remb_normalise.simps [of r 0])
  ultimately show ?thesis
    using le v by (simp add: remb_bitrate_carried word_le_nat_alt)
qed

lemma remb_rate_precision_witness:
  "remb_bitrate (replicate 16 0 @ remb_rate_bytes 2000000 @ []) \<le> 2000000
   \<and> remb_bitrate (replicate 16 0 @ remb_rate_bytes 150000 @ []) = 150000"
  using remb_rate_precision [of 0 2000000 "[]"] remb_rate_precision [of 0 150000 "[]"] by simp

subsection \<open>The image of a message\<close>

fun item_full :: "rtcp_item \<Rightarrow> bool" where
  "item_full (Item_SR sr bs n) = (n \<le> 31 \<and> bs \<noteq> None \<and> n \<le> length (the bs))"
| "item_full (Item_RR src bs n) = (n \<le> 31 \<and> bs \<noteq> None \<and> n \<le> length (the bs))"
| "item_full _ = True"

fun item_image :: "rtcp_item \<Rightarrow> bytes" where
  "item_image (Item_SR sr bs n) = rtcp_write_header 2 0 n RTCP_SR ((24 + n * 24) div 4 + 1)
     @ be32 (sr_ssrc sr) @ be32 (sr_ntp_sec sr) @ be32 (sr_ntp_frac sr) @ be32 (sr_rtp_ts sr)
     @ be32 (sr_packet_count sr) @ be32 (sr_octet_count sr) @ blocks_bytes bs n"
| "item_image (Item_RR src bs n) = rtcp_write_header 2 0 n RTCP_RR ((4 + n * 24) div 4 + 1)
     @ be32 src @ blocks_bytes bs n"
| "item_image (Item_NACK a b pid blp) = rtcp_write_header 2 0 RTCP_NACK RTCP_RTPFB 4
     @ be32 a @ be32 b @ be16 pid @ be16 blp"
| "item_image (Item_PLI a b) = rtcp_write_header 2 0 RTCP_PLI RTCP_PSFB 3 @ be32 a @ be32 b"
| "item_image (Item_FIR a b n) = rtcp_write_header 2 0 RTCP_FIR RTCP_PSFB 5
     @ be32 a @ be32 b @ be32 b @ [n, 0, 0, 0]"
| "item_image (Item_REMB a b r) = rtcp_write_header 2 0 RTCP_REMB RTCP_PSFB 6
     @ be32 a @ be32 0 @ [0x52, 0x45, 0x4D, 0x42] @ remb_rate_bytes r @ be32 b"

lemma item_image_framed:
  "item_full i \<Longrightarrow> framed (item_image i) \<and> item_image i ! 1 = item_kind i \<and> length (item_image i) = item_size i"
proof -
  assume f: "item_full i"
  then have l: "length (item_image i) = item_size i"
    by (cases i) (auto simp: blocks_bytes_length)
  obtain n t lw r where im: "item_image i = rtcp_write_header 2 0 n t lw @ r" "item_kind i = word_of_nat t"
    "item_size i = 4 * lw" "lw \<le> 65536"
    using f by (cases i) auto
  with l framed_header [of r lw n t] show ?thesis by (simp add: nth_append)
qed

lemma rtcp_add_image: "item_full i \<Longrightarrow> rtcp_add i c = Some c' \<Longrightarrow> appended c (item_image i) c'"
  by (cases i) (auto simp: appended_def rtcp_compound_add_sr_def rtcp_compound_add_rr_def rtcp_compound_add_nack_def
        rtcp_compound_add_pli_def rtcp_compound_add_fir_def rtcp_compound_add_remb_def Let_def blocks_bytes_length
      split: if_splits)

lemma add_all_image:
  "list_all item_full is \<Longrightarrow> cp_offset c \<le> length (cp_buffer c) \<Longrightarrow> add_all rtcp_add is c = Some c' \<Longrightarrow>
   appended c (concat (map item_image is)) c'"
proof (induction "is" arbitrary: c)
  case Nil
  then show ?case by (simp add: appended_def advance_def poke_def mem_write_def)
next
  case (Cons i "is")
  then obtain c1 where c1: "rtcp_add i c = Some c1" "add_all rtcp_add is c1 = Some c'"
    by (auto split: option.splits)
  with Cons.prems have a: "appended c (item_image i) c1" by (intro rtcp_add_image) simp_all
  then have "cp_offset c1 \<le> length (cp_buffer c1)" by (auto simp: appended_def advance_def poke_def)
  with Cons c1 a show ?case by (auto intro: appended_trans)
qed

subsection \<open>Specification of the receiver\<close>

lemma on_first_find: "snd (on_first P f ts) = (case find P ts of None \<Rightarrow> [] | Some t \<Rightarrow> snd (f t))"
  by (induction ts) (auto split: prod.splits)

definition retransmissions :: "'s media_ctx \<Rightarrow> u32 \<Rightarrow> u16 list \<Rightarrow> engine_out list" where
  "retransmissions ctx media_ssrc sqs =
     (case find (\<lambda>t. sends t \<and> ss_ssrc (tr_session t) = media_ssrc) (mc_tracks ctx) of
        None \<Rightarrow> []
      | Some t \<Rightarrow> (case tr_history t of
                    None \<Rightarrow> []
                  | Some h \<Rightarrow> map Transport (List.map_filter (\<lambda>sq. rtp_history_get h sq 1514) sqs)))"

definition keyframe_request :: "'s media_ctx \<Rightarrow> u32 \<Rightarrow> engine_out list" where
  "keyframe_request ctx media_ssrc =
     (case find (\<lambda>t. sends t \<and> ss_ssrc (tr_session t) = media_ssrc) (mc_tracks ctx) of
        None \<Rightarrow> []
      | Some t \<Rightarrow> (case tr_encoder t of None \<Rightarrow> [] | Some e \<Rightarrow> [Keyframe e]))"

text \<open>The sending video tracks a bitrate estimate for \<open>media_ssrc\<close> is about: those with that SSRC, or all of
  them when there is none and the estimate names SSRC 0.\<close>

definition remb_targets :: "'s media_ctx \<Rightarrow> u32 \<Rightarrow> 's media_track \<Rightarrow> bool" where
  "remb_targets ctx media_ssrc t \<longleftrightarrow> sends t \<and> tr_type t = TRACK_VIDEO
     \<and> (ss_ssrc (tr_session t) = media_ssrc
        \<or> media_ssrc = 0 \<and> \<not> list_ex (\<lambda>u. sends u \<and> tr_type u = TRACK_VIDEO \<and> ss_ssrc (tr_session u) = 0) (mc_tracks ctx))"

definition retarget :: "'s media_ctx \<Rightarrow> u32 \<Rightarrow> u32 \<Rightarrow> 's media_ctx \<times> engine_out list" where
  "retarget ctx media_ssrc rate =
     (if rate = 0 then (ctx, [])
      else let (ts, outs) = map_tracks (\<lambda>t. if remb_targets ctx media_ssrc t
                                            then apply_track_target_bitrate t rate else (t, [])) (mc_tracks ctx)
           in (ctx\<lparr>mc_tracks := ts\<rparr>, outs))"

fun item_effect :: "u64 \<Rightarrow> rtcp_item \<Rightarrow> 's media_ctx \<Rightarrow> 's media_ctx \<times> engine_out list" where
  "item_effect now (Item_SR sr bs n) ctx = (handle_rtcp_sr now ctx sr, [])"
| "item_effect now (Item_RR src bs n) ctx = (foldl handle_rtcp_rr ctx (take n (the bs)), [])"
| "item_effect now (Item_NACK a b pid blp) ctx =
     (ctx, retransmissions ctx b (pid # map (\<lambda>k. pid + word_of_nat k + 1) (filter (bit blp) [0..<16])))"
| "item_effect now (Item_PLI a b) ctx = (ctx, keyframe_request ctx b)"
| "item_effect now (Item_FIR a b n) ctx = (ctx, keyframe_request ctx b)"
| "item_effect now (Item_REMB a b r) ctx = retarget ctx b (remb_carried r)"

lemma concat_map_filter:
  "concat (map (\<lambda>x. case f x of None \<Rightarrow> [] | Some y \<Rightarrow> [g y]) xs) = map g (List.map_filter f xs)"
  by (induction xs) (auto simp: map_filter_simps split: option.splits)

lemma nack_effect:
  "handle_rtcp_nack ctx (item_image (Item_NACK a b pid blp)) = snd (item_effect now (Item_NACK a b pid blp) ctx)"
proof -
  have "nack_parse_rtcp (item_image (Item_NACK a b pid blp)) 64
      = Some (a, b, pid # map (\<lambda>k. pid + word_of_nat k + 1) (filter (bit blp) [0..<16]))"
  proof -
    have "length (filter (bit blp) [0..<16]) \<le> 16"
      using length_filter_le [of "bit blp" "[0..<16]"] by simp
    then have s: "blp_seqs pid blp 0 63 = map (\<lambda>k. pid + word_of_nat k + 1) (filter (bit blp) [0..<16])"
      by (simp add: blp_seqs_eq)
    have "parse_fci (be16 pid @ be16 blp @ []) 64 = pid # blp_seqs pid blp 0 63"
      by (subst parse_fci_block) (simp_all add: Let_def)
    moreover have "(0x80 OR (1 AND 0x1F) :: u8) AND 0xC0 = 0x80" "(0x80 OR (1 AND 0x1F) :: u8) AND 0x1F = 1" by simp_all
    ultimately show ?thesis
      by (simp add: nack_parse_rtcp_def s nth_append wire_simps read_skip)
  qed
  moreover have "length (item_image (Item_NACK a b pid blp)) = 16" by simp
  ultimately show ?thesis
    unfolding handle_rtcp_nack_def item_effect.simps snd_conv retransmissions_def
    by (simp add: on_first_find rtp_session_get_ssrc_def concat_map_filter del: item_image.simps cong: option.case_cong)
qed

lemma map_tracks_cong: "(\<And>t. t \<in> set ts \<Longrightarrow> f t = g t) \<Longrightarrow> map_tracks f ts = map_tracks g ts"
  by (induction ts) auto

lemma map_tracks_none: "(\<And>t. t \<in> set ts \<Longrightarrow> f t = (t, [])) \<Longrightarrow> map_tracks f ts = (ts, [])"
  by (induction ts) auto

lemma remb_effect:
  "handle_rtcp_remb ctx (item_image (Item_REMB a b r)) = item_effect now (Item_REMB a b r) ctx"
proof -
  let ?p = "item_image (Item_REMB a b r)"
  let ?v = "\<lambda>t. sends t \<and> tr_type t = TRACK_VIDEO"
  let ?hit = "\<lambda>t. ?v t \<and> ss_ssrc (tr_session t) = b"
  let ?ap = "\<lambda>P t. if P t then apply_track_target_bitrate t (remb_carried r) else (t, [])"
  have len: "length ?p = 24" by simp
  have "?p = (rtcp_write_header 2 0 15 206 6 @ be32 a @ be32 0 @ [0x52, 0x45, 0x4D, 0x42] @ remb_rate_bytes r) @ be32 b @ []"
    by simp
  then have ssrc: "read_u32 ?p 20 = b"
    using net32.dec_at [of 20 "rtcp_write_header 2 0 15 206 6 @ be32 a @ be32 0 @ [0x52, 0x45, 0x4D, 0x42] @ remb_rate_bytes r" b "[]"]
    by simp
  have f: "?p ! 16 = 1" "take 4 (drop 12 ?p) = [0x52, 0x45, 0x4D, 0x42]" "read_u32 ?p 20 = b"
    using ssrc by (simp_all add: nth_append remb_rate_bytes_def split_beta)
  have rate: "remb_bitrate ?p = remb_carried r"
    using remb_bitrate_carried [of "rtcp_write_header 2 0 15 206 6 @ be32 a @ be32 0 @ [0x52, 0x45, 0x4D, 0x42]" r "be32 b"]
    by simp
  have h: "handle_rtcp_remb ctx ?p =
      (if remb_carried r = 0 then (ctx, [])
       else let (ts, outs) = map_tracks (?ap ?hit) (mc_tracks ctx)
            in if \<not> list_ex ?hit (mc_tracks ctx) \<and> b = 0
               then let (ts', outs') = map_tracks (?ap ?v) ts in (ctx\<lparr>mc_tracks := ts'\<rparr>, outs @ outs')
               else (ctx\<lparr>mc_tracks := ts\<rparr>, outs))"
    unfolding handle_rtcp_remb_def len f rate by (simp add: rtp_session_get_ssrc_def f Let_def del: item_image.simps)
  show ?thesis
  proof (cases "\<not> list_ex ?hit (mc_tracks ctx) \<and> b = 0")
    case True
    have "map_tracks (?ap ?hit) (mc_tracks ctx) = (mc_tracks ctx, [])"
      using True by (intro map_tracks_none) (auto simp: list_ex_iff)
    moreover have "map_tracks (?ap (remb_targets ctx b)) (mc_tracks ctx) = map_tracks (?ap ?v) (mc_tracks ctx)"
      using True by (intro map_tracks_cong) (auto simp: remb_targets_def)
    ultimately show ?thesis using True unfolding h by (auto simp: retarget_def split: prod.splits)
  next
    case False
    have "map_tracks (?ap (remb_targets ctx b)) (mc_tracks ctx) = map_tracks (?ap ?hit) (mc_tracks ctx)"
      using False by (intro map_tracks_cong) (auto simp: remb_targets_def)
    then show ?thesis using False unfolding h by (auto simp: retarget_def split: prod.splits)
  qed
qed

lemma parse_nth_block:
  "i < length bs \<Longrightarrow> parse_rtcp_rr_block (drop (i * 24) (concat (map block_bytes bs))) = bs ! i"
proof (induction bs arbitrary: i)
  case (Cons b bs)
  then show ?case by (cases i) (simp_all add: parse_block_bytes)
qed simp

lemma count_field: "n \<le> 31 \<Longrightarrow> unat ((0x80 OR (word_of_nat n AND 0x1F) :: u8) AND 0x1F) = n"
proof -
  assume n: "n \<le> 31"
  have "(0x80 OR (word_of_nat n AND 0x1F) :: u8) AND 0x1F = word_of_nat n AND 0x1F"
    by (simp add: bit.conj_disj_distrib2 and.assoc)
  also have "\<dots> = word_of_nat n"
    using n small_bit [of n 5] by (intro bit_word_eqI) (auto simp: bit_simps word_masks not_le [symmetric])
  finally show ?thesis using n by (simp add: unsigned_of_nat take_bit_nat_eq_self)
qed

lemma rr_effect:
  assumes "n \<le> 31" "n \<le> length bs"
  shows "on_rtcp_packet alloc_ok now 201 (item_image (Item_RR src (Some bs) n)) ctx
       = Some (item_effect now (Item_RR src (Some bs) n) ctx)"
proof -
  let ?p = "item_image (Item_RR src (Some bs) n)"
  have len: "length ?p = 8 + n * 24" using assms by (simp add: blocks_bytes_length)
  have cnt: "unat (?p ! 0 AND 0x1F) = n" using count_field [OF assms(1)] by (simp add: nth_append)
  have "parse_rtcp_rr_block (drop (8 + i * 24) ?p) = bs ! i" if "i < n" for i
    using that assms parse_nth_block [of i "take n bs"] by (simp add: blocks_bytes_def)
  then have "foldl (\<lambda>c i. handle_rtcp_rr c (parse_rtcp_rr_block (drop (8 + i * 24) ?p))) ctx [0..<n]
      = foldl (\<lambda>c i. handle_rtcp_rr c (bs ! i)) ctx [0..<n]"
    by (intro foldl_cong) simp_all
  also have "\<dots> = foldl handle_rtcp_rr ctx (map (nth bs) [0..<n])" by (simp only: foldl_map)
  also have "map (nth bs) [0..<n] = take n bs" using assms(2) by (intro nth_equalityI) simp_all
  finally show ?thesis
    using len cnt by (simp add: on_rtcp_packet_def Let_def del: item_image.simps)
qed

lemma sr_effect:
  assumes "n \<le> length bs"
  shows "on_rtcp_packet alloc_ok now 200 (item_image (Item_SR sr (Some bs) n)) ctx
       = Some (item_effect now (Item_SR sr (Some bs) n) ctx)"
proof -
  let ?p = "item_image (Item_SR sr (Some bs) n)"
  have "length ?p = 28 + n * 24" using assms by (simp add: blocks_bytes_length)
  moreover have "read_u32 ?p 4 = sr_ssrc sr" "read_u32 ?p 8 = sr_ntp_sec sr" "read_u32 ?p 12 = sr_ntp_frac sr"
    "read_u32 ?p 16 = sr_rtp_ts sr" "read_u32 ?p 20 = sr_packet_count sr" "read_u32 ?p 24 = sr_octet_count sr"
    by (simp_all add: wire_simps read_skip)
  ultimately show ?thesis by (cases sr) (simp add: on_rtcp_packet_def del: item_image.simps)
qed

lemma fmt_field: "item_image i ! 0 AND 0x1F = (case i of Item_SR _ _ n \<Rightarrow> word_of_nat n AND 0x1F
   | Item_RR _ _ n \<Rightarrow> word_of_nat n AND 0x1F | Item_NACK _ _ _ _ \<Rightarrow> 1 | Item_PLI _ _ \<Rightarrow> 1 | Item_FIR _ _ _ \<Rightarrow> 4
   | Item_REMB _ _ _ \<Rightarrow> 15)"
  by (cases i) (simp_all add: nth_append bit.conj_disj_distrib2 and.assoc)

lemma keyframe_effect:
  "handle_rtcp_psfb ctx (item_image (Item_PLI a b)) = Some (item_effect now (Item_PLI a b) ctx)"
  "handle_rtcp_psfb ctx (item_image (Item_FIR a b n)) = Some (item_effect now (Item_FIR a b n) ctx)"
proof -
  have "length (item_image (Item_PLI a b)) = 12" "length (item_image (Item_FIR a b n)) = 20" by simp_all
  moreover have "read_u32 (item_image (Item_PLI a b)) 8 = b" "read_u32 (item_image (Item_FIR a b n)) 8 = b"
    using net32.dec_at [of 8 "rtcp_write_header 2 0 1 206 3 @ be32 a" b "[]"]
    by (simp_all add: wire_simps read_skip)
  ultimately show "handle_rtcp_psfb ctx (item_image (Item_PLI a b)) = Some (item_effect now (Item_PLI a b) ctx)"
    "handle_rtcp_psfb ctx (item_image (Item_FIR a b n)) = Some (item_effect now (Item_FIR a b n) ctx)"
    by (simp_all add: handle_rtcp_psfb_def fmt_field handle_rtcp_pli_def handle_rtcp_fir_def
        request_encoder_keyframe_def keyframe_request_def on_first_find rtp_session_get_ssrc_def
        del: item_image.simps cong: option.case_cong)
qed

lemma item_dispatch:
  assumes "item_full i"
  shows "on_rtcp_packet alloc_ok now (item_kind i) (item_image i) ctx = Some (item_effect now i ctx)"
proof (cases i)
  case (Item_SR sr bs n)
  with assms sr_effect [of n "the bs" alloc_ok now sr ctx] show ?thesis by auto
next
  case (Item_RR src bs n)
  with assms rr_effect [of n "the bs" alloc_ok now src ctx] show ?thesis by auto
next
  case (Item_NACK a b pid blp)
  have "length (item_image (Item_NACK a b pid blp)) = 16" by simp
  with Item_NACK show ?thesis
    using nack_effect [of ctx a b pid blp now] by (simp add: on_rtcp_packet_def fmt_field del: item_image.simps)
next
  case (Item_PLI a b)
  have "length (item_image (Item_PLI a b)) = 12" by simp
  with Item_PLI keyframe_effect(1) show ?thesis by (simp add: on_rtcp_packet_def del: item_image.simps item_effect.simps)
next
  case (Item_FIR a b n)
  have "length (item_image (Item_FIR a b n)) = 20" by simp
  with Item_FIR keyframe_effect(2) show ?thesis by (simp add: on_rtcp_packet_def del: item_image.simps item_effect.simps)
next
  case (Item_REMB a b r)
  have "length (item_image (Item_REMB a b r)) = 24" by simp
  with Item_REMB remb_effect [of ctx a b r now] show ?thesis
    by (simp add: on_rtcp_packet_def handle_rtcp_psfb_def fmt_field del: item_image.simps item_effect.simps)
qed

lemma dispatch_all_items:
  "list_all item_full is \<Longrightarrow>
   dispatch_all alloc_ok now (map (\<lambda>i. ((), item_kind i, item_image i)) is) ctx
     = run_steps (\<lambda>i c. Some (item_effect now i c)) is ctx"
proof (induction "is" arbitrary: ctx)
  case (Cons i "is")
  from Cons.prems have "on_rtcp_packet alloc_ok now (item_kind i) (item_image i) ctx = Some (item_effect now i ctx)"
    by (intro item_dispatch) simp
  with Cons show ?case by (cases "item_effect now i ctx") (simp add: split_beta del: item_effect.simps item_image.simps)
qed simp

text \<open>C2. RTCP end to end: a compound built from any sequence of sender and receiver reports, NACK, PLI, FIR
  and REMB messages, once split by the receiver's parser and dispatched, has exactly the effects
  the messages stand for, in order: the reports reach the session of the track with their SSRC
  field by field, a NACK is answered from that track's history, a PLI or FIR asks that track's
  encoder for a key frame and a REMB retargets the tracks it names.\<close>

theorem rtcp_end_to_end:
  assumes "list_all item_full is" "is \<noteq> []"
    and "add_all rtcp_add is (rtcp_compound_init buf) = Some c"
  shows "\<exists>calls. rtcp_compound_parse (compound_bytes c) (Some ()) = Some (length is, calls)
       \<and> dispatch_all alloc_ok now calls ctx = run_steps (\<lambda>i c. Some (item_effect now i c)) is ctx"
proof -
  have "appended (rtcp_compound_init buf) (concat (map item_image is)) c"
    using assms by (intro add_all_image) (simp_all add: rtcp_compound_init_def)
  then have bytes: "compound_bytes c = concat (map item_image is)"
    unfolding compound_bytes_def by (blast dest: appended_init)
  have fr: "\<forall>p\<in>set (map item_image is). framed p" "map (\<lambda>i. item_image i ! 1) is = map item_kind is"
    using assms(1) item_image_framed by (auto simp: list_all_iff simp del: item_image.simps)
  have "4 \<le> length (concat (map item_image is))"
    using assms(1,2) fr(1) by (cases "is") (auto simp: framed_def simp del: item_image.simps)
  moreover have "map (\<lambda>p. (p ! 1, p)) (map item_image is) = map (\<lambda>i. (item_kind i, item_image i)) is"
    using fr(2) by (auto simp del: item_image.simps)
  ultimately have "rtcp_compound_parse (compound_bytes c) (Some ())
      = Some (length is, map (\<lambda>i. ((), item_kind i, item_image i)) is)"
    unfolding bytes by (simp add: rtcp_compound_parse_def split_packets_concat [OF fr(1)] Let_def comp_def
        del: item_image.simps)
  with dispatch_all_items [OF assms(1)] show ?thesis by blast
qed

lemma rtcp_end_to_end_witness:
  "\<exists>c calls. add_all rtcp_add [Item_PLI 1 2, Item_NACK 1 2 7 3] (rtcp_compound_init (replicate 40 0)) = Some c
     \<and> rtcp_compound_parse (compound_bytes c) (Some ()) = Some (2, calls)
     \<and> dispatch_all True 0 calls \<lparr>mc_tracks = [] :: unit media_track list, mc_rtcp_session = None,
          mc_last_rtcp_time = 0, mc_rtcp_interval_ms = 5000\<rparr>
        = Some (\<lparr>mc_tracks = [], mc_rtcp_session = None, mc_last_rtcp_time = 0, mc_rtcp_interval_ms = 5000\<rparr>, [])"
proof -
  let ?is = "[Item_PLI 1 2, Item_NACK 1 2 7 3]"
  have "add_all rtcp_add ?is (rtcp_compound_init (replicate 40 0)) \<noteq> None" by code_simp
  then obtain c where c: "add_all rtcp_add ?is (rtcp_compound_init (replicate 40 0)) = Some c" by auto
  from rtcp_end_to_end [OF _ _ this, of True 0 "\<lparr>mc_tracks = [] :: unit media_track list, mc_rtcp_session = None,
          mc_last_rtcp_time = 0, mc_rtcp_interval_ms = 5000\<rparr>"] c show ?thesis
    by (auto simp: keyframe_request_def retransmissions_def simp del: add_all.simps)
qed

end
