(* ===== verification/Engine_Paths.thy ===== *)
theory Engine_Paths
  imports Engine_Rtcp
begin

text \<open>
  The send and receive paths of \<open>turbo_media_engine.c\<close> over whole runs of the engine: everything that
  reaches the transport went through SRTP or SRTCP protection, retransmissions included; a packet
  that fails authentication changes nothing but a loss counter; a NACK is answered with the very
  bytes that were sent; and the receive path overruns its stack buffer exactly for a
  transport-wide extension of more than two bytes.
\<close>

section \<open>Only protected bytes leave\<close>

definition protected :: "'s libsrtp \<Rightarrow> bytes \<Rightarrow> bool" where
  "protected lib b \<longleftrightarrow> (\<exists>s p. fst (lib_protect lib s p) = Some b) \<or> (\<exists>s p. fst (lib_protect_rtcp lib s p) = Some b)"

fun out_ok :: "'s libsrtp \<Rightarrow> engine_out \<Rightarrow> bool" where
  "out_ok lib (Transport b) = protected lib b"
| "out_ok lib _ = True"

definition history_ok :: "'s libsrtp \<Rightarrow> rtp_history option \<Rightarrow> bool" where
  "history_ok lib h \<longleftrightarrow> (\<forall>x. h = Some x \<longrightarrow> history_inv x \<and> (\<forall>sq n b. rtp_history_get x sq n = Some b \<longrightarrow> protected lib b))"

definition histories :: "'s media_ctx \<Rightarrow> rtp_history option list" where
  "histories ctx = map tr_history (mc_tracks ctx)"

definition engine_inv :: "'s libsrtp \<Rightarrow> 's media_ctx \<Rightarrow> bool" where
  "engine_inv lib ctx \<longleftrightarrow> list_all (history_ok lib) (histories ctx)"

datatype engine_op =
    Feed bool u64 bytes
  | Send_Frame nat u64 bytes u64
  | Send_Rtp nat bytes
  | Request_Keyframe nat
  | Ask_Missing nat u64
  | Report u64
  | Transport_Feedback bool u64

text \<open>One call into the engine; \<open>i\<close> is the track the caller names, ignored when there is none.\<close>

definition on_track :: "nat \<Rightarrow> ('s media_track \<Rightarrow> int \<times> 's media_track \<times> engine_out list) \<Rightarrow> 's media_ctx
    \<Rightarrow> 's media_ctx \<times> engine_out list" where
  "on_track i f ctx =
     (if i < length (mc_tracks ctx)
      then case f (mc_tracks ctx ! i) of (rc, t, outs) \<Rightarrow> (ctx\<lparr>mc_tracks := (mc_tracks ctx)[i := t]\<rparr>, outs)
      else (ctx, []))"

fun engine_step :: "'s libsrtp \<Rightarrow> (nat \<Rightarrow> bytes \<Rightarrow> (bytes \<times> rtp_fragment list option) option) \<Rightarrow> engine_op \<Rightarrow>
    's media_ctx \<Rightarrow> ('s media_ctx \<times> engine_out list) option" where
  "engine_step lib codec (Feed ok now data) ctx =
     map_option (\<lambda>(rc, c, outs). (c, outs)) (turbo_media_feed_data lib ok now ctx data)"
| "engine_step lib codec (Send_Frame i now data ts) ctx =
     Some (on_track i (turbo_media_track_send_frame lib codec now data ts) ctx)"
| "engine_step lib codec (Send_Rtp i packet) ctx = Some (on_track i (turbo_media_track_send_rtp_packet lib packet) ctx)"
| "engine_step lib codec (Request_Keyframe i) ctx =
     Some (if i < length (mc_tracks ctx) then turbo_media_track_request_keyframe lib (mc_tracks ctx ! i) ctx else (ctx, []))"
| "engine_step lib codec (Ask_Missing i now) ctx =
     Some (if i < length (mc_tracks ctx) then send_nack_for_track lib i now ctx else (ctx, []))"
| "engine_step lib codec (Report now) ctx = Some (send_rtcp_reports lib now ctx)"
| "engine_step lib codec (Transport_Feedback ok now) ctx = Some (send_twcc_feedback lib ok now ctx)"

subsection \<open>Feedback from the peer leaves the histories alone\<close>

lemma on_first_hist:
  "(\<And>t. tr_history (fst (f t)) = tr_history t) \<Longrightarrow> map tr_history (fst (on_first P f ts)) = map tr_history ts"
  by (induction ts) (auto simp: split_beta)

lemma map_tracks_hist:
  "(\<And>t. tr_history (fst (f t)) = tr_history t) \<Longrightarrow> map tr_history (fst (map_tracks f ts)) = map tr_history ts"
  by (induction ts) (auto simp: split_beta)

lemma map_tracks_outs: "(\<And>t. list_all ok (snd (f t))) \<Longrightarrow> list_all ok (snd (map_tracks f ts))"
  by (induction ts) (auto simp: split_beta)

lemma apply_bitrate_frame [simp]:
  "tr_history (fst (apply_track_target_bitrate t b)) = tr_history t"
  "list_all (out_ok lib) (snd (apply_track_target_bitrate t b))"
  by (auto simp: apply_track_target_bitrate_def split: option.splits)

lemma report_hist [simp]:
  "histories (handle_rtcp_sr now ctx sr) = histories ctx" "histories (handle_rtcp_rr ctx blk) = histories ctx"
  by (simp_all add: histories_def handle_rtcp_sr_def handle_rtcp_rr_def on_first_hist)

lemma reports_hist [simp]: "histories (foldl (\<lambda>c i. handle_rtcp_rr c (g i)) ctx is) = histories ctx"
  by (induction "is" arbitrary: ctx) simp_all

lemma retarget_frame:
  "map tr_history (fst (map_tracks (\<lambda>t. if P t then apply_track_target_bitrate t b else (t, [])) ts)) = map tr_history ts"
  "list_all (out_ok lib) (snd (map_tracks (\<lambda>t. if P t then apply_track_target_bitrate t b else (t, [])) ts))"
  by (rule map_tracks_hist map_tracks_outs; simp)+

lemma remb_frame:
  "histories (fst (handle_rtcp_remb ctx p)) = histories ctx"
  "list_all (out_ok lib) (snd (handle_rtcp_remb ctx p))"
  by (simp_all add: handle_rtcp_remb_def Let_def split_beta histories_def retarget_frame)

lemma twcc_frame:
  "histories (fst (handle_rtcp_twcc now ctx tw)) = histories ctx"
  "list_all (out_ok lib) (snd (handle_rtcp_twcc now ctx tw))"
  by (auto simp: handle_rtcp_twcc_def histories_def split_beta Let_def on_first_find intro!: on_first_hist
      split: option.splits)

lemma nack_outs: "engine_inv lib ctx \<Longrightarrow> list_all (out_ok lib) (handle_rtcp_nack ctx p)"
proof -
  assume inv: "engine_inv lib ctx"
  have "list_all (out_ok lib) (concat (map (\<lambda>sq. case rtp_history_get h sq n of None \<Rightarrow> [] | Some p \<Rightarrow> [Transport p]) sqs))"
    if "find P (mc_tracks ctx) = Some t" "tr_history t = Some h" for P t h n sqs
  proof -
    have "t \<in> set (mc_tracks ctx)" using that(1) by (auto simp: find_Some_iff)
    with inv that(2) have "history_ok lib (Some h)"
      by (force simp: engine_inv_def histories_def list_all_iff)
    then have "\<forall>sq b. rtp_history_get h sq n = Some b \<longrightarrow> protected lib b" by (simp add: history_ok_def)
    then show ?thesis by (induction sqs) (auto split: option.splits)
  qed
  then show ?thesis
    by (auto simp: handle_rtcp_nack_def on_first_find split: option.splits)
qed

lemma keyframe_outs: "list_all (out_ok lib) (request_encoder_keyframe m ctx)"
  by (auto simp: request_encoder_keyframe_def on_first_find split: option.splits)

lemma dispatch_frame:
  "on_rtcp_packet ok now ty p ctx = Some (ctx', outs) \<Longrightarrow> engine_inv lib ctx \<Longrightarrow>
   histories ctx' = histories ctx \<and> list_all (out_ok lib) outs"
  using remb_frame(1) [of ctx p] remb_frame(2) [of lib ctx p] twcc_frame(1) [of now ctx]
    twcc_frame(2) [of lib now ctx] nack_outs [of lib ctx p] keyframe_outs [of lib]
  by (auto simp: on_rtcp_packet_def handle_rtcp_psfb_def handle_rtcp_pli_def handle_rtcp_fir_def Let_def
      split: if_splits option.splits) (metis fst_conv snd_conv)+

lemma dispatch_all_frame:
  "dispatch_all ok now ps ctx = Some (ctx', outs) \<Longrightarrow> engine_inv lib ctx \<Longrightarrow>
   histories ctx' = histories ctx \<and> list_all (out_ok lib) outs"
proof (induction ps arbitrary: ctx outs)
  case (Cons x ps)
  obtain u ty p where x: "x = (u, ty, p)" by (cases x)
  with Cons.prems(1) obtain c1 o1 o2 where d: "on_rtcp_packet ok now ty p ctx = Some (c1, o1)"
    "dispatch_all ok now ps c1 = Some (ctx', o2)" "outs = o1 @ o2"
    by (auto split: option.splits)
  from dispatch_frame [OF d(1) Cons.prems(2)] have f: "histories c1 = histories ctx" "list_all (out_ok lib) o1" by auto
  with Cons.prems(2) have "engine_inv lib c1" by (simp add: engine_inv_def)
  with Cons.IH [OF d(2)] f d(3) show ?case by simp
qed simp

subsection \<open>The receive path\<close>

lemma read_twcc_hist: "read_twcc_seq pkt t now = Some t' \<Longrightarrow> tr_history t' = tr_history t \<and> tr_rtp_packet_cb t' = tr_rtp_packet_cb t"
  by (auto simp: read_twcc_seq_def Let_def split: option.splits if_splits)

lemma unprotect_hist: "media_track_srtp_unprotect lib t d = (r, t') \<Longrightarrow> tr_history t' = tr_history t"
  by (auto simp: media_track_srtp_unprotect_def split: option.splits prod.splits)

lemma recv_track_frame:
  "recv_track lib now t d = Some (rc, t', outs) \<Longrightarrow> tr_history t' = tr_history t \<and> list_all (out_ok lib) outs"
  by (auto simp: recv_track_def Let_def dest!: unprotect_hist read_twcc_hist split: option.splits prod.splits if_splits)

lemma histories_update:
  "i < length (mc_tracks ctx) \<Longrightarrow> tr_history t = tr_history (mc_tracks ctx ! i) \<Longrightarrow>
   histories (ctx\<lparr>mc_tracks := (mc_tracks ctx)[i := t]\<rparr>) = histories ctx"
  by (simp add: histories_def map_update) (metis length_map list_update_id nth_map)

lemma find_recv_track_bound:
  "find_recv_track src pt ts i track single cnt = Some k \<Longrightarrow>
   (\<forall>j. track = Some j \<longrightarrow> j < i) \<Longrightarrow> (\<forall>j. single = Some j \<longrightarrow> j < i) \<Longrightarrow> k < i + length ts"
proof (induction ts arbitrary: i track single cnt)
  case (Cons t ts)
  have "\<forall>j. track = Some j \<longrightarrow> j < i + 1" "\<forall>j. single = Some j \<longrightarrow> j < i + 1" using Cons.prems by auto
  then show ?case
    using Cons.prems(1) Cons.IH [of "i + 1"] by (force simp: Let_def split: if_splits)
qed (auto split: if_splits)

lemma srtcp_unprotect_hist: "media_srtcp_unprotect lib ctx d = (r, ctx') \<Longrightarrow> histories ctx' = histories ctx"
  by (auto simp: media_srtcp_unprotect_def histories_def split: option.splits prod.splits)

lemma feed_rtp_frame:
  assumes "feed_rtp lib now ctx d = Some (rc, ctx', outs)"
  shows "histories ctx' = histories ctx \<and> list_all (out_ok lib) outs"
proof (cases "find_recv_track (read_u32 d 8) (d ! 1 AND 0x7F) (mc_tracks ctx) 0 None None 0")
  case (Some i)
  then have "i < length (mc_tracks ctx)" using find_recv_track_bound [OF Some] by simp
  with assms Some histories_update [of i ctx] recv_track_frame [of lib now "mc_tracks ctx ! i" d] show ?thesis
    by (auto simp: feed_rtp_def split: if_splits)
qed (use assms in \<open>auto simp: feed_rtp_def split: if_splits\<close>)

lemma feed_rtcp_frame:
  assumes "feed_rtcp lib ok now ctx d = Some (rc, ctx', outs)" "engine_inv lib ctx"
  shows "histories ctx' = histories ctx \<and> list_all (out_ok lib) outs"
proof -
  obtain r c1 where u: "media_srtcp_unprotect lib ctx d = (r, c1)" by fastforce
  note h = srtcp_unprotect_hist [OF u]
  then have "engine_inv lib c1" using assms(2) by (simp add: engine_inv_def)
  with assms(1) u h show ?thesis
    by (auto simp: feed_rtcp_def dest: dispatch_all_frame split: option.splits)
qed

lemma feed_frame:
  "turbo_media_feed_data lib ok now ctx d = Some (rc, ctx', outs) \<Longrightarrow> engine_inv lib ctx \<Longrightarrow>
   histories ctx' = histories ctx \<and> list_all (out_ok lib) outs"
  using feed_rtp_frame [of lib now ctx d] feed_rtcp_frame [of lib ok now ctx d]
  by (auto simp: turbo_media_feed_data_def Let_def split: if_splits)

subsection \<open>The send path\<close>

lemma history_put_ok:
  "history_ok lib h \<Longrightarrow> protected lib p \<Longrightarrow> history_ok lib (map_option (\<lambda>x. rtp_history_put x sq p) h)"
proof (cases h)
  case (Some x)
  assume h: "history_ok lib h" and p: "protected lib p"
  from h Some have x: "history_inv x" "\<And>sq n b. rtp_history_get x sq n = Some b \<Longrightarrow> protected lib b"
    by (auto simp: history_ok_def)
  have "protected lib b" if g: "rtp_history_get (rtp_history_put x sq p) s n = Some b" for s n b
  proof (cases "length p \<le> hist_max_packet_size x")
    case True
    with g history_get_put [OF x(1) True, of sq s n] show ?thesis
      using p x(2) by (auto split: if_splits)
  next
    case False
    with g x(2) show ?thesis by (simp add: history_put_oversize)
  qed
  with Some x(1) show ?thesis by (simp add: history_ok_def history_put_inv)
qed (simp add: history_ok_def)

lemma send_protected_ok:
  assumes "send_protected lib sq p t = (b, t', outs)" "history_ok lib (tr_history t)"
  shows "history_ok lib (tr_history t') \<and> list_all (out_ok lib) outs"
proof -
  obtain r t1 where u: "media_track_srtp_protect lib t p 1514 = (r, t1)" by fastforce
  then have h: "tr_history t1 = tr_history t"
    by (auto simp: media_track_srtp_protect_def split: option.splits prod.splits)
  have "protected lib q" if "r = Some q" for q
    using u that by (auto simp: media_track_srtp_protect_def turbo_srtp_protect_def protected_def
        split: option.splits prod.splits if_splits) (metis fst_conv)
  with assms u h show ?thesis
    by (auto simp: send_protected_def intro: history_put_ok split: option.splits)
qed

lemma attach_hist: "attach_twcc t pkt buf n us = (r, t') \<Longrightarrow> tr_history t' = tr_history t"
  by (auto simp: attach_twcc_def Let_def split: option.splits prod.splits if_splits)

lemma send_fragment_ok:
  "send_fragment lib us ts f t = (b, t', outs) \<Longrightarrow> history_ok lib (tr_history t) \<Longrightarrow>
   history_ok lib (tr_history t') \<and> list_all (out_ok lib) outs"
  by (auto simp: send_fragment_def Let_def dest!: attach_hist dest: send_protected_ok
      split: option.splits prod.splits if_splits)

lemma send_fragments_ok:
  "send_fragments lib us ts fs t = (b, t', outs) \<Longrightarrow> history_ok lib (tr_history t) \<Longrightarrow>
   history_ok lib (tr_history t') \<and> list_all (out_ok lib) outs"
proof (induction fs arbitrary: t outs)
  case (Cons f fs)
  obtain b1 t1 o1 where f: "send_fragment lib us ts f t = (b1, t1, o1)" by (cases "send_fragment lib us ts f t")
  from send_fragment_ok [OF this Cons.prems(2)] have h: "history_ok lib (tr_history t1)" "list_all (out_ok lib) o1" by auto
  show ?case
    using Cons.prems(1) f h Cons.IH [of t1] by (cases b1) (auto split: prod.splits)
qed simp

lemma send_frame_ok:
  "turbo_media_track_send_frame lib codec now d ts t = (rc, t', outs) \<Longrightarrow> history_ok lib (tr_history t) \<Longrightarrow>
   history_ok lib (tr_history t') \<and> list_all (out_ok lib) outs"
  by (auto simp: turbo_media_track_send_frame_def Let_def simp del: send_fragments.simps dest: send_fragments_ok
      split: if_splits option.splits prod.splits bool.splits)

lemma send_rtp_ok:
  "turbo_media_track_send_rtp_packet lib p t = (rc, t', outs) \<Longrightarrow> history_ok lib (tr_history t) \<Longrightarrow>
   history_ok lib (tr_history t') \<and> list_all (out_ok lib) outs"
  by (auto simp: turbo_media_track_send_rtp_packet_def Let_def dest!: send_protected_ok
      split: if_splits option.splits prod.splits)

lemma on_track_ok:
  assumes "engine_inv lib ctx"
    and "\<And>t rc t' outs. f t = (rc, t', outs) \<Longrightarrow> history_ok lib (tr_history t) \<Longrightarrow>
           history_ok lib (tr_history t') \<and> list_all (out_ok lib) outs"
  shows "engine_inv lib (fst (on_track i f ctx)) \<and> list_all (out_ok lib) (snd (on_track i f ctx))"
proof (cases "i < length (mc_tracks ctx)")
  case True
  obtain rc t' outs where f: "f (mc_tracks ctx ! i) = (rc, t', outs)" by (cases "f (mc_tracks ctx ! i)")
  have h: "\<forall>h\<in>set (histories ctx). history_ok lib h" using assms(1) by (simp add: engine_inv_def list_all_iff)
  with True have "history_ok lib (tr_history (mc_tracks ctx ! i))" by (force simp: histories_def)
  from assms(2) [OF f this] have o: "history_ok lib (tr_history t')" "list_all (out_ok lib) outs" by auto
  then have "\<forall>h\<in>set ((histories ctx)[i := tr_history t']). history_ok lib h"
    using h set_update_subset_insert by fastforce
  with True f o show ?thesis
    by (simp add: on_track_def engine_inv_def histories_def map_update list_all_iff)
qed (use assms(1) in \<open>simp add: on_track_def\<close>)

subsection \<open>Reports and requests\<close>

lemma send_rtcp_frame:
  assumes "send_rtcp lib p ctx = (b, ctx', outs)"
  shows "histories ctx' = histories ctx \<and> list_all (out_ok lib) outs"
proof -
  obtain r c1 where u: "media_srtcp_protect lib ctx p 1500 = (r, c1)" by fastforce
  then have h: "histories c1 = histories ctx"
    by (auto simp: media_srtcp_protect_def histories_def split: option.splits prod.splits)
  have "protected lib q" if "r = Some q" for q
    using u that by (auto simp: media_srtcp_protect_def turbo_srtcp_protect_def protected_def
        split: option.splits prod.splits if_splits) (metis fst_conv)
  with assms u h show ?thesis by (auto simp: send_rtcp_def split: option.splits)
qed

lemma snd_send_rtcp_frame:
  "histories (fst (snd (send_rtcp lib p ctx))) = histories ctx"
  "list_all (out_ok lib) (snd (snd (send_rtcp lib p ctx)))"
  using send_rtcp_frame [of lib p ctx] by (cases "send_rtcp lib p ctx"; simp)+

lemma keyframe_frame:
  "histories (fst (turbo_media_track_request_keyframe lib t ctx)) = histories ctx"
  "list_all (out_ok lib) (snd (turbo_media_track_request_keyframe lib t ctx))"
  by (simp_all add: turbo_media_track_request_keyframe_def Let_def snd_send_rtcp_frame)

lemma report_tracks_frame:
  "histories (fst (report_tracks lib now ts ctx)) = histories ctx \<and> list_all (out_ok lib) (snd (report_tracks lib now ts ctx))"
  by (induction ts arbitrary: ctx) (auto simp: Let_def split_beta snd_send_rtcp_frame)

lemma track_feedback_frame:
  assumes "i < length (mc_tracks ctx)"
  shows "histories (fst (send_track_feedback lib ok now i ctx)) = histories ctx
    \<and> list_all (out_ok lib) (snd (send_track_feedback lib ok now i ctx))"
  using histories_update [OF assms]
  by (auto simp: send_track_feedback_def Let_def snd_send_rtcp_frame split: option.splits prod.splits)

lemma histories_length: "histories a = histories b \<Longrightarrow> length (mc_tracks a) = length (mc_tracks b)"
  by (metis histories_def length_map)

lemma feedback_tracks_frame:
  "\<forall>i\<in>set is. i < length (mc_tracks ctx) \<Longrightarrow>
   histories (fst (feedback_tracks lib ok now is ctx)) = histories ctx
    \<and> list_all (out_ok lib) (snd (feedback_tracks lib ok now is ctx))"
proof (induction "is" arbitrary: ctx)
  case (Cons i "is")
  obtain c1 o1 where f: "send_track_feedback lib ok now i ctx = (c1, o1)" by fastforce
  with track_feedback_frame [of i ctx lib ok now] Cons.prems
  have "histories c1 = histories ctx" "list_all (out_ok lib) o1" by auto
  with Cons.IH [of c1] Cons.prems histories_length [of c1 ctx] f show ?case by (simp add: split_beta)
qed simp

lemma nack_request_frame:
  assumes "i < length (mc_tracks ctx)"
  shows "histories (fst (send_nack_for_track lib i now ctx)) = histories ctx
    \<and> list_all (out_ok lib) (snd (send_nack_for_track lib i now ctx))"
proof -
  have upd: "histories (c\<lparr>mc_tracks := (mc_tracks c)[i := (mc_tracks ctx ! i)\<lparr>tr_last_nack_time := now\<rparr>]\<rparr>) = histories ctx"
    if h: "histories c = histories ctx" for c
  proof -
    have i: "i < length (mc_tracks c)" using assms histories_length [OF h] by simp
    have "tr_history (mc_tracks c ! i) = tr_history (mc_tracks ctx ! i)"
      using arg_cong [OF h, of "\<lambda>l. l ! i"] i assms by (simp add: histories_def)
    then show ?thesis using histories_update [OF i] h by simp
  qed
  show ?thesis
    by (auto simp: send_nack_for_track_def Let_def dest!: send_rtcp_frame intro: upd split: prod.splits)
qed

subsection \<open>Runs\<close>

lemma engine_step_ok:
  assumes "engine_inv lib ctx" "engine_step lib codec op ctx = Some (ctx', outs)"
  shows "engine_inv lib ctx' \<and> list_all (out_ok lib) outs"
proof (cases op)
  case (Feed a now d)
  with assms show ?thesis by (auto simp: engine_inv_def dest!: feed_frame)
next
  case (Send_Frame i now d ts)
  have "on_track i (turbo_media_track_send_frame lib codec now d ts) ctx = (ctx', outs)"
    using assms(2) Send_Frame by simp
  with on_track_ok [OF assms(1), of "turbo_media_track_send_frame lib codec now d ts" i, OF send_frame_ok]
  show ?thesis by simp
next
  case (Send_Rtp i p)
  have "on_track i (turbo_media_track_send_rtp_packet lib p) ctx = (ctx', outs)" using assms(2) Send_Rtp by simp
  with on_track_ok [OF assms(1), of "turbo_media_track_send_rtp_packet lib p" i, OF send_rtp_ok]
  show ?thesis by simp
next
  case (Request_Keyframe i)
  with assms keyframe_frame [of lib "mc_tracks ctx ! i" ctx] show ?thesis
    by (auto simp: engine_inv_def split: if_splits)
next
  case (Ask_Missing i now)
  with assms nack_request_frame [of i ctx lib now] show ?thesis
    by (auto simp: engine_inv_def split: if_splits)
next
  case (Report now)
  with assms report_tracks_frame [of lib now "mc_tracks ctx" ctx] show ?thesis
    by (auto simp: engine_inv_def send_rtcp_reports_def split_beta histories_def)
next
  case (Transport_Feedback a now)
  with assms feedback_tracks_frame [of "[0..<length (mc_tracks ctx)]" ctx lib a now] show ?thesis
    by (auto simp: engine_inv_def send_twcc_feedback_def)
qed

interpretation engine: emitter "engine_inv lib" "engine_step lib codec" "out_ok lib" for lib codec
  by unfold_locales (use engine_step_ok in \<open>fastforce simp: list_all_iff\<close>)+

lemma fresh_history_ok: "rtp_history_create True n m = Some h \<Longrightarrow> history_ok lib (Some h)"
proof -
  assume c: "rtp_history_create True n m = Some h"
  then have "history_inv h" using history_create_inv by blast
  moreover have "rtp_history_get h sq k = None" for sq k
    using c history_index_less [OF \<open>history_inv h\<close>, of sq]
    by (auto simp: rtp_history_create_def rtp_history_get_def Let_def split: if_splits)
  ultimately show ?thesis by (simp add: history_ok_def)
qed

text \<open>C3. Nothing leaves the engine unprotected: over any sequence of calls - received packets,
  frames and forwarded packets sent, key-frame and loss requests, reports, transport feedback -
  starting from tracks with empty histories, every byte string handed to the transport is one that
  libsrtp returned from protecting a packet, including every retransmission.\<close>

theorem engine_sends_only_protected:
  assumes "\<forall>t\<in>set (mc_tracks ctx). tr_history t = None \<or> (\<exists>n m. tr_history t = rtp_history_create True n m)"
    and "run_steps (engine_step lib codec) ops ctx = Some (ctx', outs)" "Transport b \<in> set outs"
  shows "(\<exists>s p. fst (lib_protect lib s p) = Some b) \<or> (\<exists>s p. fst (lib_protect_rtcp lib s p) = Some b)"
proof -
  have "history_ok lib (tr_history t)" if "t \<in> set (mc_tracks ctx)" for t
  proof (cases "tr_history t")
    case (Some h)
    with assms(1) that obtain n m where "rtp_history_create True n m = Some h" by fastforce
    with Some show ?thesis by (simp add: fresh_history_ok)
  qed (simp add: history_ok_def)
  then have "engine_inv lib ctx" by (auto simp: engine_inv_def histories_def list_all_iff)
  from engine.run_ok [OF this assms(2)] assms(3) have "protected lib b" by auto
  then show ?thesis by (simp add: protected_def)
qed

definition sample_lib :: "unit libsrtp" where
  "sample_lib = \<lparr>lib_protect = (\<lambda>s p. (Some (p @ [0xAA]), s)), lib_unprotect = (\<lambda>s p. (Some p, s)),
     lib_protect_rtcp = (\<lambda>s p. (Some (p @ [0xBB]), s)), lib_unprotect_rtcp = (\<lambda>s p. (None, s))\<rparr>"

definition sample_session :: rtp_session where
  "sample_session = rtp_session_set_remote_ssrc (the (rtp_session_create True
     (Some \<lparr>cfg_ssrc = 7, cfg_payload_type = 96, cfg_clock_rate = 90000, cfg_is_audio = False\<rparr>) 0 0 0)) 5"

definition sample_track :: "unit media_track" where
  "sample_track = \<lparr>tr_type = TRACK_VIDEO, tr_direction = 3, tr_state = STATE_ACTIVE, tr_payload_type = 96,
     tr_session = sample_session, tr_srtp_send = Some (), tr_srtp_recv = Some (), tr_tracker = None,
     tr_receiver = twcc_receiver_create True 7 0, tr_last_twcc_feedback = 0, tr_target_bitrate = 0, tr_ext_id = 3, tr_jitter = None,
     tr_encoder = None, tr_history = rtp_history_create True 2 20, tr_config_bitrate = 0, tr_sample_rate = 0,
     tr_channels = 0, tr_frame_size_ms = 0, tr_framerate = 30, tr_rtp_packet_cb = None, tr_packets_sent = 0,
     tr_bytes_sent = 0, tr_frames_sent = 0, tr_packets_recv = 0, tr_bytes_recv = 0, tr_packets_lost = 0,
     tr_rtt_ms = 0, tr_bitrate_bps = 0, tr_fraction_lost = (0, 0), tr_last_nack_time = 0\<rparr>"

definition sample_ctx :: "unit media_ctx" where
  "sample_ctx = \<lparr>mc_tracks = [sample_track], mc_rtcp_session = Some (), mc_last_rtcp_time = 0, mc_rtcp_interval_ms = 5000\<rparr>"

definition sample_packet :: bytes where
  "sample_packet = [0x80, 96, 0, 1, 0, 0, 0, 9, 0, 0, 0, 5, 0x41]"

lemma single_item_bytes:
  "item_full i \<Longrightarrow> item_size i \<le> 1500 \<Longrightarrow>
   compound_bytes (added (rtcp_add i (rtcp_compound_init stack_buf)) (rtcp_compound_init stack_buf)) = item_image i"
proof -
  assume i: "item_full i" "item_size i \<le> 1500"
  then have v: "item_valid i" by (cases i) auto
  have "rtcp_add i (rtcp_compound_init stack_buf) \<noteq> None"
    using rtcp_writer.add_fails [OF v, of "rtcp_compound_init stack_buf"] i(2)
    by (simp add: rtcp_compound_init_def stack_buf_def)
  then obtain c where c: "rtcp_add i (rtcp_compound_init stack_buf) = Some c" by auto
  from appended_init [OF rtcp_add_image [OF i(1) this]] show ?thesis
    unfolding added_def compound_bytes_def c option.case by blast
qed

lemma request_keyframe_sends:
  "receives t \<Longrightarrow> ss_remote_ssrc (tr_session t) \<noteq> 0 \<Longrightarrow> turbo_media_track_request_keyframe lib t ctx
     = snd (send_rtcp lib (item_image (Item_PLI (reporter_ssrc ctx) (ss_remote_ssrc (tr_session t)))) ctx)"
  using single_item_bytes [of "Item_PLI (reporter_ssrc ctx) (ss_remote_ssrc (tr_session t))"]
  by (simp add: turbo_media_track_request_keyframe_def rtp_session_get_remote_ssrc_def Let_def)

lemma engine_sends_only_protected_witness:
  "\<exists>ctx' b. run_steps (engine_step sample_lib (\<lambda>_ _. None)) [Request_Keyframe 0] sample_ctx = Some (ctx', [Transport b])
     \<and> ((\<exists>s p. fst (lib_protect sample_lib s p) = Some b) \<or> (\<exists>s p. fst (lib_protect_rtcp sample_lib s p) = Some b))"
proof -
  have "receives sample_track" "ss_remote_ssrc (tr_session sample_track) \<noteq> 0"
    by (simp_all add: receives_def sample_track_def sample_session_def rtp_session_set_remote_ssrc_def)
  then have "run_steps (engine_step sample_lib (\<lambda>_ _. None)) [Request_Keyframe 0] sample_ctx
      = Some (sample_ctx, [Transport (item_image (Item_PLI (reporter_ssrc sample_ctx)
          (ss_remote_ssrc (tr_session sample_track))) @ [0xBB])])"
    by (simp add: sample_ctx_def request_keyframe_sends send_rtcp_def media_srtcp_protect_def turbo_srtcp_protect_def
        sample_lib_def)
  moreover have "\<forall>t\<in>set (mc_tracks sample_ctx). tr_history t = None \<or> (\<exists>n m. tr_history t = rtp_history_create True n m)"
    by (auto simp: sample_ctx_def sample_track_def)
  ultimately show ?thesis using engine_sends_only_protected [of sample_ctx sample_lib] by fastforce
qed

section \<open>Unauthenticated packets\<close>

text \<open>What a packet that fails authentication may change.\<close>

definition forget_auth :: "'s media_track \<Rightarrow> 's media_track" where
  "forget_auth t = t\<lparr>tr_srtp_recv := None, tr_packets_lost := 0\<rparr>"

lemma feed_rejected_rtp:
  assumes "\<And>s. fst (lib_unprotect lib s data) = None"
  shows "\<exists>rc ctx'. feed_rtp lib now ctx data = Some (rc, ctx', [])
     \<and> map forget_auth (mc_tracks ctx') = map forget_auth (mc_tracks ctx) \<and> mc_rtcp_session ctx' = mc_rtcp_session ctx"
proof (cases "find_recv_track (read_u32 data 8) (data ! 1 AND 0x7F) (mc_tracks ctx) 0 None None 0")
  case (Some i)
  let ?t = "mc_tracks ctx ! i"
  obtain r t' where u: "media_track_srtp_unprotect lib ?t data = (r, t')" by fastforce
  have "r = None" "forget_auth (t'\<lparr>tr_packets_lost := n\<rparr>) = forget_auth ?t" for n
    using u assms by (auto simp: media_track_srtp_unprotect_def turbo_srtp_unprotect_def forget_auth_def
        split: option.splits prod.splits if_splits) (metis fst_conv option.distinct(1))
  with u Some show ?thesis
    using find_recv_track_bound [OF Some]
    by (auto simp: feed_rtp_def recv_track_def map_update) (metis length_map list_update_id nth_map)
qed (auto simp: feed_rtp_def)

text \<open>A packet that libsrtp does not authenticate, whatever its contents and whichever track it
  names, is dropped: the call produces no output, and no track changes in anything but its count
  of lost packets and the state of its own SRTP session.\<close>

theorem unauthenticated_packet_dropped:
  assumes "\<And>s. fst (lib_unprotect lib s data) = None" "\<And>s. fst (lib_unprotect_rtcp lib s data) = None"
  shows "\<exists>rc ctx'. turbo_media_feed_data lib alloc_ok now ctx data = Some (rc, ctx', [])
     \<and> map forget_auth (mc_tracks ctx') = map forget_auth (mc_tracks ctx)"
proof -
  have "\<exists>rc ctx'. feed_rtcp lib alloc_ok now ctx data = Some (rc, ctx', []) \<and> mc_tracks ctx' = mc_tracks ctx"
  proof -
    obtain r c where u: "media_srtcp_unprotect lib ctx data = (r, c)" by fastforce
    then have "r = None" "mc_tracks c = mc_tracks ctx"
      using assms(2) by (auto simp: media_srtcp_unprotect_def turbo_srtcp_unprotect_def
          split: option.splits prod.splits if_splits) (metis fst_conv option.distinct(1))
    with u show ?thesis by (simp add: feed_rtcp_def)
  qed
  with feed_rejected_rtp [OF assms(1), of now ctx] show ?thesis
    by (auto simp: turbo_media_feed_data_def Let_def)
qed

lemma unauthenticated_packet_dropped_witness:
  "\<exists>rc ctx'. turbo_media_feed_data (sample_lib\<lparr>lib_unprotect := (\<lambda>s p. (None, s))\<rparr>) True 0 sample_ctx sample_packet
       = Some (rc, ctx', []) \<and> map forget_auth (mc_tracks ctx') = map forget_auth (mc_tracks sample_ctx)"
  by (rule unauthenticated_packet_dropped) (simp_all add: sample_lib_def)

section \<open>The transport-wide extension\<close>

lemma mem_write_two: "length (mem_write [0, 0] 0 d) = max 2 (length d)"
  by (simp add: mem_write_def)

lemma read_twcc_overflow:
  "read_twcc_seq pkt t now = None \<longleftrightarrow>
     tr_receiver t \<noteq> None \<and> tr_ext_id t > 0 \<and> h_extension (p_header pkt) \<noteq> 0
     \<and> (\<exists>d l. rtp_packet_get_extension pkt (word_of_int (tr_ext_id t)) = Some (d, l) \<and> 2 < length d)"
  by (auto simp: read_twcc_seq_def mem_write_two Let_def max_def split: option.splits)

text \<open>The receive path writes outside its two-byte stack buffer exactly when an authenticated packet of
  the stream, with a payload, on a track that measures transport-wide congestion, carries the
  negotiated extension with more than two bytes of data (\<open>rtp_packet_get_extension\<close> copies up to
  sixteen before the length is looked at); otherwise it is free of out-of-bounds accesses.\<close>

theorem recv_extension_overflow:
  "recv_track lib now t data = None \<longleftrightarrow>
     (\<exists>packet t1 pkt d l. media_track_srtp_unprotect lib t data = (Some packet, t1) \<and> rtp_packet_parse packet = Some pkt
        \<and> fst (rtp_session_recv (tr_session t1) pkt now) = 0 \<and> p_payload_len pkt \<noteq> 0
        \<and> tr_receiver t \<noteq> None \<and> tr_ext_id t > 0 \<and> h_extension (p_header pkt) \<noteq> 0
        \<and> rtp_packet_get_extension pkt (word_of_int (tr_ext_id t)) = Some (d, l) \<and> 2 < length d)"
proof -
  have "tr_receiver t1 = tr_receiver t \<and> tr_ext_id t1 = tr_ext_id t"
    if "media_track_srtp_unprotect lib t data = (r, t1)" for r t1
    using that by (auto simp: media_track_srtp_unprotect_def split: option.splits prod.splits)
  moreover obtain r t1 where u: "media_track_srtp_unprotect lib t data = (r, t1)" by fastforce
  ultimately have keep: "tr_receiver t1 = tr_receiver t" "tr_ext_id t1 = tr_ext_id t" by auto
  show ?thesis
  proof (cases "r = None \<or> rtp_packet_parse (the r) = None")
    case True
    with u show ?thesis by (cases r) (auto simp: recv_track_def)
  next
    case False
    then obtain packet pkt where r: "r = Some packet" "rtp_packet_parse packet = Some pkt" by auto
    obtain rc s where sr: "rtp_session_recv (tr_session t1) pkt now = (rc, s)" by fastforce
    define t2 where "t2 = t1\<lparr>tr_session := s, tr_packets_recv := tr_packets_recv t1 + 1,
       tr_bytes_recv := tr_bytes_recv t1 + word_of_nat (p_payload_len pkt)\<rparr>"
    have "recv_track lib now t data = None \<longleftrightarrow> rc = 0 \<and> p_payload_len pkt \<noteq> 0 \<and> read_twcc_seq pkt t2 now = None"
      by (simp add: recv_track_def u r sr t2_def Let_def split: option.split prod.split)
    then show ?thesis using u r sr keep by (simp add: read_twcc_overflow t2_def)
  qed
qed

section \<open>Retransmission\<close>

lemma build_sequence:
  "rtp_packet_build pt sq ts src m pl n buf = Some (pkt, b, k) \<Longrightarrow> h_sequence (p_header pkt) = sq"
  by (auto simp: rtp_packet_build_def build_header_def Let_def split: if_splits)

lemma session_send_sequence:
  "rtp_session_send_internal s pl n m ts buf = (Some (pkt, b, k), s') \<Longrightarrow>
   h_sequence (p_header pkt) = ss_sequence s \<and> ss_ssrc s' = ss_ssrc s"
  by (auto simp: rtp_session_send_internal_def Let_def dest: build_sequence split: option.splits prod.splits if_splits)

lemma attach_sequence:
  "attach_twcc t pkt buf n us = (Some (pkt', buf', n'), t') \<Longrightarrow>
   h_sequence (p_header pkt') = h_sequence (p_header pkt) \<and> tr_history t' = tr_history t
   \<and> tr_session t' = tr_session t \<and> tr_direction t' = tr_direction t"
  by (auto simp: attach_twcc_def rtp_packet_add_extension_def Let_def split: option.splits prod.splits if_splits)

lemma send_protected_stores:
  assumes "send_protected lib sq packet t = (b, t', [Transport p])" "tr_history t = Some h" "history_inv h"
    and "length p \<le> hist_max_packet_size h" "length p \<le> n"
  shows "\<exists>h'. tr_history t' = Some h' \<and> rtp_history_get h' sq n = Some p"
    and "tr_session t' = tr_session t" "tr_direction t' = tr_direction t"
proof -
  obtain r t1 where u: "media_track_srtp_protect lib t packet 1514 = (r, t1)" by fastforce
  then have "tr_history t1 = tr_history t" "tr_session t1 = tr_session t" "tr_direction t1 = tr_direction t"
    by (auto simp: media_track_srtp_protect_def split: option.splits prod.splits)
  with assms u show "\<exists>h'. tr_history t' = Some h' \<and> rtp_history_get h' sq n = Some p"
    "tr_session t' = tr_session t" "tr_direction t' = tr_direction t"
    by (auto simp: send_protected_def history_get_put split: option.splits)
qed

lemma send_fragment_stores:
  assumes "send_fragment lib us ts f t = (b, t', [Transport p])" "tr_history t = Some h" "history_inv h"
    and "length p \<le> hist_max_packet_size h" "length p \<le> n"
  shows "(\<exists>h'. tr_history t' = Some h' \<and> rtp_history_get h' (ss_sequence (tr_session t)) n = Some p)
    \<and> ss_ssrc (tr_session t') = ss_ssrc (tr_session t) \<and> tr_direction t' = tr_direction t"
proof -
  let ?m = "fr_marker f \<or> fr_end f"
  define ts' where "ts' = (if ts \<noteq> 0 then ucast ts else ss_timestamp (tr_session t))"
  obtain r s where sd: "rtp_session_send_internal (tr_session t) (Some (fr_data f)) (length (fr_data f)) ?m ts' rtp_buf = (r, s)"
    by fastforce
  have sf: "send_fragment lib us ts f t = (case r of None \<Rightarrow> (True, t\<lparr>tr_session := s\<rparr>, [])
       | Some (pkt, buf, n) \<Rightarrow> if n \<le> 0 then (True, t\<lparr>tr_session := s\<rparr>, [])
           else case attach_twcc (t\<lparr>tr_session := s\<rparr>) pkt buf n us of
                  (None, t2) \<Rightarrow> (True, t2, [])
                | (Some (pkt', buf', n'), t2) \<Rightarrow> send_protected lib (h_sequence (p_header pkt')) (take (nat n') buf') t2)"
    using sd by (cases "ts = 0")
      (simp_all add: send_fragment_def ts'_def rtp_session_send_def rtp_session_send_with_timestamp_def Let_def)
  from assms(1) sf obtain pkt buf k where r: "r = Some (pkt, buf, k)" "0 < k"
    by (auto split: option.splits if_splits)
  obtain r2 t2 where at: "attach_twcc (t\<lparr>tr_session := s\<rparr>) pkt buf k us = (r2, t2)" by fastforce
  with assms(1) sf r obtain pkt' buf' n' where r2: "r2 = Some (pkt', buf', n')"
    by (auto split: option.splits)
  have sp: "send_protected lib (h_sequence (p_header pkt')) (take (nat n') buf') t2 = (b, t', [Transport p])"
    using assms(1) sf r at r2 by simp
  note a = attach_sequence [OF at [unfolded r2]] and q = session_send_sequence [OF sd [unfolded r(1)]]
  from a assms(2) have "tr_history t2 = Some h" by simp
  from send_protected_stores [OF sp this assms(3-5)] a q show ?thesis by simp
qed

lemma find_skip: "\<forall>u\<in>set pre. \<not> P u \<Longrightarrow> P x \<Longrightarrow> find P (pre @ x # post) = Some x"
  by (induction pre) auto

text \<open>A fragment once sent is retransmittable: a NACK that names its sequence number, arriving at an
  engine where the track is the one sending with its SSRC, makes the engine send the very same
  protected bytes again, and changes nothing.\<close>

theorem nack_resends_sent_fragment:
  assumes "send_fragment lib us ts f t = (b, t', [Transport p])" "tr_history t = Some h" "history_inv h"
    and "length p \<le> hist_max_packet_size h" "length p \<le> 1514" "sends t"
    and "mc_tracks ctx = pre @ t' # post"
    and "\<forall>u\<in>set pre. \<not> (sends u \<and> ss_ssrc (tr_session u) = ss_ssrc (tr_session t))"
  shows "on_rtcp_packet alloc_ok now 205
      (item_image (Item_NACK a (ss_ssrc (tr_session t)) (ss_sequence (tr_session t)) 0)) ctx = Some (ctx, [Transport p])"
proof -
  note st = send_fragment_stores [OF assms(1-5)]
  then have "sends t'" using assms(6) by (simp add: sends_def)
  then have "find (\<lambda>u. sends u \<and> ss_ssrc (tr_session u) = ss_ssrc (tr_session t)) (mc_tracks ctx) = Some t'"
    using st assms(8) unfolding assms(7) by (intro find_skip) simp_all
  with st have "retransmissions ctx (ss_ssrc (tr_session t)) [ss_sequence (tr_session t)] = [Transport p]"
    by (auto simp: retransmissions_def map_filter_simps)
  then show ?thesis
    using item_dispatch [of "Item_NACK a (ss_ssrc (tr_session t)) (ss_sequence (tr_session t)) 0" alloc_ok now ctx]
    by (simp del: item_image.simps)
qed

lemma nack_resends_sent_fragment_witness:
  "\<exists>t' p. send_fragment sample_lib 0 0 \<lparr>fr_data = [1, 2, 3], fr_marker = True, fr_end = True\<rparr> sample_track = (True, t', [Transport p])
     \<and> on_rtcp_packet True 0 205 (item_image (Item_NACK 9 7 (ss_sequence sample_session) 0))
          (sample_ctx\<lparr>mc_tracks := [t']\<rparr>) = Some (sample_ctx\<lparr>mc_tracks := [t']\<rparr>, [Transport p])"
proof -
  let ?f = "\<lparr>fr_data = [1, 2, 3], fr_marker = True, fr_end = True\<rparr>"
  let ?p = "rtp_header_bytes (build_header 96 (ss_sequence sample_session) (ss_timestamp sample_session) 7 True) @ [1, 2, 3, 0xAA]"
  have s: "ss_ssrc sample_session = 7" "ss_payload_type sample_session = 96"
    by (simp_all add: sample_session_def rtp_session_create_def rtp_session_set_remote_ssrc_def)
  have t: "tr_session sample_track = sample_session" "sends sample_track" "tr_tracker sample_track = None"
    "tr_srtp_send sample_track = Some ()"
    by (simp_all add: sample_track_def sends_def)
  obtain h where h: "tr_history sample_track = Some h" "history_inv h" "hist_max_packet_size h = 20"
    using history_create_inv [of True 2 20] by (simp add: sample_track_def rtp_history_create_def SIZE_MAX_def sizeof_history_slot_def)
  have "length rtp_buf = 1514" by (simp add: rtp_buf_def)
  then have "\<exists>t'. send_fragment sample_lib 0 0 ?f sample_track = (True, t', [Transport ?p])"
    by (simp add: send_fragment_def rtp_session_send_def rtp_session_send_internal_def rtp_packet_build_eq s t
        attach_twcc_def send_protected_def media_track_srtp_protect_def turbo_srtp_protect_def sample_lib_def mem_write_0)
  then obtain t' where "send_fragment sample_lib 0 0 ?f sample_track = (True, t', [Transport ?p])" by blast
  with nack_resends_sent_fragment [OF this h(1,2), of "sample_ctx\<lparr>mc_tracks := [t']\<rparr>" "[]" "[]" True 0 9] h t s
  show ?thesis by (auto simp del: item_image.simps)
qed

section \<open>Grouping of loss requests\<close>

text \<open>\<open>send_nack_for_track\<close> names in its bit mask exactly the missing numbers up to sixteen above the first one
  as integers; numbers that follow it across the wrap-around are left out.\<close>

lemma group_missing_bits:
  "bit (snd (group_missing missing)) k \<longleftrightarrow> k < 16 \<and> (\<exists>s\<in>set (tl missing). uint s = uint (hd missing) + int k + 1)"
proof -
  have "bit (fold (\<lambda>s blp. let diff = uint s - uint pid - 1
                           in if diff \<ge> 0 \<and> diff < 16 then blp OR push_bit (nat diff) 1 else blp) xs acc) k
      \<longleftrightarrow> bit acc k \<or> k < 16 \<and> (\<exists>s\<in>set xs. uint s = uint pid + int k + 1)" for xs and acc pid :: u16
    by (induction xs arbitrary: acc) (auto simp: bit_simps Let_def)
  from this [of "hd missing" "tl missing" 0] show ?thesis by (simp add: group_missing_def Let_def)
qed

lemma nack_request_skips_wrap: "group_missing [65535, 0, 1] = (65535, 0)"
  by code_simp

end
