(* ===== verification/Tenant_Quota.thy ===== *)
theory Tenant_Quota
  imports Prelude "HOL-Library.Char_ord"
begin

text \<open>
  The per-node tenant quota projection (\<open>webrtc/src/security/turbo_media_tenant_quota.c\<close>): a bounded table of
  tenants with the lease the control plane assigned and the usage reserved locally, fed by
  versioned snapshots and updates.

  A C string is a \<open>string\<close>, a pointer that may be \<open>NULL\<close> an option; the two arrays of five counters
  are lists.  The resource argument is the \<open>int\<close> the code range-checks.  \<open>alloc_ok\<close> is whether \<open>calloc\<close>
  succeeds.

  Shown here: the table stays well formed under every operation; usage is exactly the ledger of
  successful reservations and releases, whatever snapshots, updates, refusals and lease losses
  happen in between; a reservation is granted only from a live lease of a synchronised projection
  and never beyond its limit; and the version of the projection never goes back.
\<close>

section \<open>State\<close>

definition QUOTA_MAX_TENANTS :: nat where [simp]: "QUOTA_MAX_TENANTS = 256"
definition QUOTA_TENANT_ID_BYTES :: nat where [simp]: "QUOTA_TENANT_ID_BYTES = 256"
definition QUOTA_NODE_ID_BYTES :: nat where [simp]: "QUOTA_NODE_ID_BYTES = 128"
definition QUOTA_RESOURCE_COUNT :: nat where [simp]: "QUOTA_RESOURCE_COUNT = 5"

record quota_slot =
  qs_tenant :: string
  qs_occupied :: bool
  qs_has_lease :: bool
  qs_expires :: u64
  qs_limits :: "u32 list"
  qs_used :: "u32 list"

record quota_projection =
  qp_node :: string
  qp_max_tenants :: nat
  qp_slots :: "quota_slot list"
  qp_synchronized :: bool
  qp_epoch :: u64
  qp_sequence :: u64
  qp_required_epoch :: u64
  qp_required_sequence :: u64

record quota_lease =
  ql_tenant :: "string option"
  ql_node :: "string option"
  ql_expires :: u64
  ql_limits :: "u32 list"

datatype apply_result = APPLY_ERROR | APPLY_APPLIED | APPLY_STALE | APPLY_GAP | APPLY_LIMIT

datatype reserve_result =
    RESERVE_ERROR | RESERVE_OK | RESERVE_UNKNOWN | RESERVE_NO_LEASE | RESERVE_EXPIRED | RESERVE_LIMIT

definition zero_slot :: quota_slot where
  "zero_slot = \<lparr>qs_tenant = [], qs_occupied = False, qs_has_lease = False, qs_expires = 0,
     qs_limits = replicate 5 0, qs_used = replicate 5 0\<rparr>"

section \<open>Helpers\<close>

definition id_char :: "char \<Rightarrow> bool" where
  "id_char c \<longleftrightarrow> (CHR ''a'' \<le> c \<and> c \<le> CHR ''z'') \<or> (CHR ''A'' \<le> c \<and> c \<le> CHR ''Z'')
     \<or> (CHR ''0'' \<le> c \<and> c \<le> CHR ''9'') \<or> c \<in> set ''-_.~:''"

definition quota_identifier_valid :: "string option \<Rightarrow> nat \<Rightarrow> bool" where
  "quota_identifier_valid v capacity =
     (case v of None \<Rightarrow> False | Some s \<Rightarrow> s \<noteq> [] \<and> \<not> length s \<ge> capacity \<and> list_all id_char s)"

definition tenant_id_valid :: "string option \<Rightarrow> bool" where
  "tenant_id_valid v = quota_identifier_valid v QUOTA_TENANT_ID_BYTES"

definition node_id_valid :: "string option \<Rightarrow> bool" where
  "node_id_valid v = quota_identifier_valid v QUOTA_NODE_ID_BYTES"

definition quota_version_compare :: "u64 \<Rightarrow> u64 \<Rightarrow> u64 \<Rightarrow> u64 \<Rightarrow> int" where
  "quota_version_compare le ls re rs =
     (if le < re then - 1 else if le > re then 1 else if ls < rs then - 1 else if ls > rs then 1 else 0)"

definition quota_require_snapshot :: "quota_projection \<Rightarrow> u64 \<Rightarrow> u64 \<Rightarrow> quota_projection" where
  "quota_require_snapshot p epoch sq =
     (let p = p\<lparr>qp_synchronized := False\<rparr>
      in if quota_version_compare epoch sq (qp_required_epoch p) (qp_required_sequence p) > 0
         then p\<lparr>qp_required_epoch := epoch, qp_required_sequence := sq\<rparr> else p)"

definition quota_usage_present :: "quota_slot \<Rightarrow> bool" where
  "quota_usage_present s \<longleftrightarrow> qs_occupied s \<and> list_ex (\<lambda>u. u \<noteq> 0) (qs_used s)"

fun quota_find_slot :: "quota_slot list \<Rightarrow> string \<Rightarrow> nat option" where
  "quota_find_slot [] t = None"
| "quota_find_slot (s # ss) t =
     (if qs_occupied s \<and> qs_tenant s = t then Some 0 else map_option Suc (quota_find_slot ss t))"

definition quota_lease_valid :: "quota_projection \<Rightarrow> quota_lease \<Rightarrow> bool" where
  "quota_lease_valid p l \<longleftrightarrow> tenant_id_valid (ql_tenant l) \<and> node_id_valid (ql_node l)
     \<and> ql_node l = Some (qp_node p) \<and> ql_expires l \<noteq> 0"

definition quota_snapshot_contains :: "quota_lease list \<Rightarrow> string \<Rightarrow> bool" where
  "quota_snapshot_contains ls t \<longleftrightarrow> list_ex (\<lambda>l. ql_tenant l = Some t) ls"

definition quota_snapshot_valid :: "quota_projection \<Rightarrow> quota_lease list option \<Rightarrow> nat \<Rightarrow> bool" where
  "quota_snapshot_valid p leases lease_count \<longleftrightarrow>
     (if (lease_count > 0 \<and> leases = None) \<or> lease_count > qp_max_tenants p \<or> lease_count > QUOTA_MAX_TENANTS
      then False
      else list_all (\<lambda>i. quota_lease_valid p (the leases ! i)
             \<and> list_all (\<lambda>j. ql_tenant (the leases ! j) \<noteq> ql_tenant (the leases ! i)) [0..<i]) [0..<lease_count])"

section \<open>Operations\<close>

definition quota_projection_create :: "bool \<Rightarrow> string option \<Rightarrow> nat \<Rightarrow> quota_projection option" where
  "quota_projection_create alloc_ok node_id max_tenants =
     (if \<not> node_id_valid node_id \<or> max_tenants = 0 \<or> max_tenants > QUOTA_MAX_TENANTS then None
      else if \<not> alloc_ok then None
      else Some \<lparr>qp_node = the node_id, qp_max_tenants = max_tenants, qp_slots = replicate max_tenants zero_slot,
                 qp_synchronized = False, qp_epoch = 0, qp_sequence = 0, qp_required_epoch = 0,
                 qp_required_sequence = 0\<rparr>)"

definition lease_slot :: "quota_slot list \<Rightarrow> quota_lease \<Rightarrow> quota_slot" where
  "lease_slot slots l =
     zero_slot\<lparr>qs_occupied := True, qs_has_lease := True, qs_tenant := the (ql_tenant l),
       qs_expires := ql_expires l, qs_limits := ql_limits l,
       qs_used := (case quota_find_slot slots (the (ql_tenant l)) of
                     None \<Rightarrow> qs_used zero_slot | Some i \<Rightarrow> qs_used (slots ! i))\<rparr>"

definition drained_slot :: "quota_slot \<Rightarrow> quota_slot" where
  "drained_slot old = zero_slot\<lparr>qs_occupied := True, qs_tenant := qs_tenant old, qs_used := qs_used old\<rparr>"

definition quota_apply_snapshot ::
  "bool \<Rightarrow> quota_projection \<Rightarrow> u64 \<Rightarrow> u64 \<Rightarrow> quota_lease list option \<Rightarrow> nat \<Rightarrow> apply_result \<times> quota_projection" where
  "quota_apply_snapshot alloc_ok p epoch sq leases lease_count =
     (let ls = (case leases of None \<Rightarrow> [] | Some xs \<Rightarrow> take lease_count xs);
          keep = filter (\<lambda>s. quota_usage_present s \<and> \<not> quota_snapshot_contains ls (qs_tenant s)) (qp_slots p);
          refused = quota_require_snapshot p epoch sq
      in if epoch = 0 then (APPLY_ERROR, p)
         else if qp_synchronized p \<and> quota_version_compare epoch sq (qp_epoch p) (qp_sequence p) \<le> 0
         then (APPLY_STALE, p)
         else if \<not> qp_synchronized p \<and> qp_required_epoch p \<noteq> 0
                 \<and> quota_version_compare epoch sq (qp_required_epoch p) (qp_required_sequence p) < 0
         then (APPLY_STALE, p)
         else if \<not> quota_snapshot_valid p leases lease_count then (APPLY_ERROR, refused)
         else if lease_count + length keep > qp_max_tenants p then (APPLY_LIMIT, refused)
         else if \<not> alloc_ok then (APPLY_ERROR, refused)
         else let new = map (lease_slot (qp_slots p)) ls @ map drained_slot keep
              in (APPLY_APPLIED,
                  p\<lparr>qp_slots := new @ replicate (qp_max_tenants p - length new) zero_slot, qp_synchronized := True,
                    qp_epoch := epoch, qp_sequence := sq, qp_required_epoch := 0, qp_required_sequence := 0\<rparr>))"

fun free_slot :: "quota_slot list \<Rightarrow> nat option" where
  "free_slot [] = None"
| "free_slot (s # ss) =
     (if \<not> qs_occupied s \<or> (\<not> qs_has_lease s \<and> \<not> quota_usage_present s) then Some 0
      else map_option Suc (free_slot ss))"

definition install_lease :: "quota_lease \<Rightarrow> quota_slot \<Rightarrow> quota_slot" where
  "install_lease l s =
     (let s = (if \<not> qs_occupied s \<or> qs_tenant s \<noteq> the (ql_tenant l)
               then zero_slot\<lparr>qs_occupied := True, qs_tenant := the (ql_tenant l)\<rparr> else s)
      in s\<lparr>qs_has_lease := True, qs_expires := ql_expires l, qs_limits := ql_limits l\<rparr>)"

definition quota_apply_update :: "quota_projection \<Rightarrow> u64 \<Rightarrow> u64 \<Rightarrow> quota_lease \<Rightarrow> apply_result \<times> quota_projection" where
  "quota_apply_update p epoch sq l =
     (let refused = quota_require_snapshot p epoch sq
      in if epoch = 0 \<or> sq = 0 then (APPLY_ERROR, p)
         else if \<not> qp_synchronized p then (APPLY_GAP, refused)
         else if quota_version_compare epoch sq (qp_epoch p) (qp_sequence p) \<le> 0 then (APPLY_STALE, p)
         else if epoch \<noteq> qp_epoch p \<or> qp_sequence p = - 1 \<or> sq \<noteq> qp_sequence p + 1 then (APPLY_GAP, refused)
         else if \<not> quota_lease_valid p l then (APPLY_ERROR, refused)
         else case (case quota_find_slot (qp_slots p) (the (ql_tenant l)) of
                      Some i \<Rightarrow> Some i | None \<Rightarrow> free_slot (qp_slots p)) of
                None \<Rightarrow> (APPLY_LIMIT, refused)
              | Some i \<Rightarrow>
                  (APPLY_APPLIED, p\<lparr>qp_slots := (qp_slots p)[i := install_lease l (qp_slots p ! i)],
                                    qp_epoch := epoch, qp_sequence := sq\<rparr>))"

definition resource_ok :: "int \<Rightarrow> bool" where
  "resource_ok r \<longleftrightarrow> \<not> r < 0 \<and> \<not> r \<ge> int QUOTA_RESOURCE_COUNT"

definition quota_reserve ::
  "quota_projection \<Rightarrow> string option \<Rightarrow> int \<Rightarrow> u32 \<Rightarrow> u64 \<Rightarrow> reserve_result \<times> quota_projection" where
  "quota_reserve p tenant_id resource amount now_unix_ms =
     (if \<not> tenant_id_valid tenant_id \<or> \<not> resource_ok resource \<or> amount = 0 then (RESERVE_ERROR, p)
      else if \<not> qp_synchronized p then (RESERVE_UNKNOWN, p)
      else case quota_find_slot (qp_slots p) (the tenant_id) of
        None \<Rightarrow> (RESERVE_NO_LEASE, p)
      | Some i \<Rightarrow>
        let s = qp_slots p ! i; r = nat resource; limit = qs_limits s ! r; used = qs_used s ! r
        in if \<not> qs_has_lease s then (RESERVE_NO_LEASE, p)
           else if now_unix_ms \<ge> qs_expires s then (RESERVE_EXPIRED, p)
           else if used > limit \<or> amount > limit - used then (RESERVE_LIMIT, p)
           else (RESERVE_OK, p\<lparr>qp_slots := (qp_slots p)[i := s\<lparr>qs_used := (qs_used s)[r := used + amount]\<rparr>]\<rparr>))"

definition quota_release :: "quota_projection \<Rightarrow> string option \<Rightarrow> int \<Rightarrow> u32 \<Rightarrow> int \<times> quota_projection" where
  "quota_release p tenant_id resource amount =
     (if \<not> tenant_id_valid tenant_id \<or> \<not> resource_ok resource \<or> amount = 0 then (- 1, p)
      else case quota_find_slot (qp_slots p) (the tenant_id) of
        None \<Rightarrow> (- 1, p)
      | Some i \<Rightarrow>
        let s = qp_slots p ! i; r = nat resource
        in if qs_used s ! r < amount then (- 1, p)
           else let s' = s\<lparr>qs_used := (qs_used s)[r := qs_used s ! r - amount]\<rparr>;
                    any_used = list_ex (\<lambda>u. u \<noteq> 0) (qs_used s')
                in (0, p\<lparr>qp_slots := (qp_slots p)[i := if \<not> any_used \<and> \<not> qs_has_lease s' then zero_slot else s']\<rparr>))"

definition quota_status :: "quota_projection \<Rightarrow> bool \<times> u64 \<times> u64 \<times> nat" where
  "quota_status p = (qp_synchronized p, qp_epoch p, qp_sequence p,
     length (filter (\<lambda>s. qs_occupied s \<and> qs_has_lease s) (qp_slots p)))"

definition quota_usage :: "quota_projection \<Rightarrow> string option \<Rightarrow> int \<Rightarrow> (u32 \<times> u32 \<times> u64 \<times> bool) option" where
  "quota_usage p tenant_id resource =
     (if \<not> tenant_id_valid tenant_id \<or> \<not> resource_ok resource then None
      else case quota_find_slot (qp_slots p) (the tenant_id) of
        None \<Rightarrow> None
      | Some i \<Rightarrow> let s = qp_slots p ! i
                  in Some (qs_used s ! nat resource, if qs_has_lease s then qs_limits s ! nat resource else 0,
                           if qs_has_lease s then qs_expires s else 0, qs_has_lease s))"

section \<open>The table as a map\<close>

definition tenants :: "quota_slot list \<Rightarrow> string list" where
  "tenants ss = map qs_tenant (filter qs_occupied ss)"

definition occ :: "quota_slot list \<Rightarrow> string \<rightharpoonup> quota_slot" where
  "occ ss = map_of (map (\<lambda>s. (qs_tenant s, s)) (filter qs_occupied ss))"

lemma occ_simps [simp]:
  "occ [] = Map.empty"
  "occ (s # ss) = (if qs_occupied s then (occ ss)(qs_tenant s \<mapsto> s) else occ ss)"
  "occ (xs @ ys) = occ ys ++ occ xs"
  by (simp_all add: occ_def)

lemma tenants_simps [simp]:
  "tenants [] = []"
  "tenants (s # ss) = (if qs_occupied s then qs_tenant s # tenants ss else tenants ss)"
  "tenants (xs @ ys) = tenants xs @ tenants ys"
  by (simp_all add: tenants_def)

lemma dom_occ: "dom (occ ss) = set (tenants ss)"
  by (auto simp: occ_def tenants_def dom_map_of_conv_image_fst image_image)

lemma occ_None: "occ ss t = None \<longleftrightarrow> t \<notin> set (tenants ss)"
  by (metis domIff dom_occ)

lemma tenants_mem: "s \<in> set ss \<Longrightarrow> qs_occupied s \<Longrightarrow> qs_tenant s \<in> set (tenants ss)"
  by (simp add: tenants_def)

lemma occ_Some: "occ ss t = Some s \<Longrightarrow> s \<in> set ss \<and> qs_occupied s \<and> qs_tenant s = t"
  by (induction ss) (auto split: if_splits)

lemma zero_slot_free [simp]: "\<not> qs_occupied zero_slot" "qs_used zero_slot = replicate 5 0"
  by (simp_all add: zero_slot_def)

lemma occ_zeros [simp]: "occ (replicate n zero_slot) = Map.empty" "tenants (replicate n zero_slot) = []"
  by (induction n) simp_all

lemma find_slot_None: "quota_find_slot ss t = None \<longleftrightarrow> occ ss t = None"
  by (induction ss) auto

lemma find_slot_Some:
  "quota_find_slot ss t = Some i \<Longrightarrow> i < length ss \<and> qs_occupied (ss ! i) \<and> qs_tenant (ss ! i) = t \<and> occ ss t = Some (ss ! i)"
  by (induction ss arbitrary: i) (auto split: if_splits)

lemma find_slot_update:
  "quota_find_slot ss t = Some i \<Longrightarrow> qs_occupied s \<Longrightarrow> qs_tenant s = t \<Longrightarrow>
   occ (ss[i := s]) = (occ ss)(t \<mapsto> s) \<and> tenants (ss[i := s]) = tenants ss"
  by (induction ss arbitrary: i) (auto split: if_splits)

lemma find_slot_clear:
  "quota_find_slot ss t = Some i \<Longrightarrow> distinct (tenants ss) \<Longrightarrow> \<not> qs_occupied s \<Longrightarrow>
   occ (ss[i := s]) = (occ ss)(t := None) \<and> distinct (tenants (ss[i := s])) \<and> set (tenants (ss[i := s])) \<subseteq> set (tenants ss)"
proof (induction ss arbitrary: i)
  case (Cons a ss)
  show ?case
  proof (cases "qs_occupied a \<and> qs_tenant a = t")
    case True
    with Cons.prems have "occ ss t = None" by (simp add: occ_None)
    with True Cons.prems show ?thesis by (auto simp: fun_eq_iff)
  next
    case False
    with Cons.prems obtain j where j: "quota_find_slot ss t = Some j" "i = Suc j" by auto
    moreover have "distinct (tenants ss)" using Cons.prems(2) by (auto split: if_splits)
    ultimately show ?thesis using Cons.IH [of j] Cons.prems False by (auto simp: fun_eq_iff)
  qed
qed simp

lemma free_slot_Some:
  "free_slot ss = Some i \<Longrightarrow> i < length ss \<and> (qs_occupied (ss ! i) \<longrightarrow> \<not> quota_usage_present (ss ! i))"
  by (induction ss arbitrary: i) (auto split: if_splits)

lemma slot_install:
  assumes "i < length ss" "distinct (tenants ss)" "t \<notin> set (tenants ss)" "qs_occupied s" "qs_tenant s = t"
  shows "occ (ss[i := s]) = (\<lambda>x. if x = t then Some s
            else if qs_occupied (ss ! i) \<and> x = qs_tenant (ss ! i) then None else occ ss x)"
    and "distinct (tenants (ss[i := s]))"
proof -
  obtain as b cs where ss: "ss = as @ b # cs" "i = length as"
    using id_take_nth_drop [OF assms(1)] assms(1) by (metis length_take min.absorb4)
  then show "distinct (tenants (ss[i := s]))" using assms by (auto split: if_splits)
  have "occ as x = None" if "qs_occupied b" "x = qs_tenant b" for x
    using assms(2) that ss by (auto simp: occ_None)
  moreover have "occ cs x = None" if "qs_occupied b" "x = qs_tenant b" for x
    using assms(2) that ss by (auto simp: occ_None)
  moreover have "occ as t = None" "occ cs t = None" using assms(3) ss by (auto simp: occ_None split: if_splits)
  ultimately show "occ (ss[i := s]) = (\<lambda>x. if x = t then Some s
            else if qs_occupied (ss ! i) \<and> x = qs_tenant (ss ! i) then None else occ ss x)"
    using ss assms(4,5) by (auto simp: fun_eq_iff map_add_def split: option.splits)
qed

section \<open>Invariant\<close>

definition slot_ok :: "quota_slot \<Rightarrow> bool" where
  "slot_ok s \<longleftrightarrow> length (qs_used s) = 5 \<and> length (qs_limits s) = 5"

definition quota_inv :: "quota_projection \<Rightarrow> bool" where
  "quota_inv p \<longleftrightarrow> length (qp_slots p) = qp_max_tenants p \<and> distinct (tenants (qp_slots p))
     \<and> list_all slot_ok (qp_slots p)"

lemma zero_slot_ok [simp]: "slot_ok zero_slot"
  by (simp add: slot_ok_def zero_slot_def)

lemma slots_ok_update: "list_all slot_ok ss \<Longrightarrow> slot_ok s \<Longrightarrow> list_all slot_ok (ss[i := s])"
  using set_update_subset_insert [of ss i s] by (auto simp: list_all_iff)

lemma slots_ok_nth: "list_all slot_ok ss \<Longrightarrow> i < length ss \<Longrightarrow> slot_ok (ss ! i)"
  by (simp add: list_all_length)

datatype quota_op =
    Snapshot bool u64 u64 "quota_lease list option" nat
  | Update u64 u64 quota_lease
  | Reserve "string option" int u32 u64
  | Release "string option" int u32

text \<open>What the C types of the arguments say: five limits per lease, and the array holds \<open>lease_count\<close> leases.\<close>

fun op_typed :: "quota_op \<Rightarrow> bool" where
  "op_typed (Snapshot ok e q ls n) = (\<forall>xs. ls = Some xs \<longrightarrow> n \<le> length xs \<and> list_all (\<lambda>l. length (ql_limits l) = 5) xs)"
| "op_typed (Update e q l) = (length (ql_limits l) = 5)"
| "op_typed _ = True"

text \<open>One call: whether it was granted (applied, reserved, released) and the projection afterwards.\<close>

fun quota_step :: "quota_op \<Rightarrow> quota_projection \<Rightarrow> bool \<times> quota_projection" where
  "quota_step (Snapshot ok e q ls n) p = (let (r, p') = quota_apply_snapshot ok p e q ls n in (r = APPLY_APPLIED, p'))"
| "quota_step (Update e q l) p = (let (r, p') = quota_apply_update p e q l in (r = APPLY_APPLIED, p'))"
| "quota_step (Reserve t r a now) p = (let (c, p') = quota_reserve p t r a now in (c = RESERVE_OK, p'))"
| "quota_step (Release t r a) p = (let (c, p') = quota_release p t r a in (c = 0, p'))"

subsection \<open>Snapshots\<close>

lemma snapshot_valid_spec:
  assumes "quota_snapshot_valid p (Some xs) n" "n \<le> length xs"
  shows "list_all (quota_lease_valid p) (take n xs) \<and> distinct (map ql_tenant (take n xs))"
proof -
  have v: "quota_lease_valid p (xs ! i)" "\<And>j. j < i \<Longrightarrow> ql_tenant (xs ! j) \<noteq> ql_tenant (xs ! i)" if "i < n" for i
    using assms(1) that by (auto simp: quota_snapshot_valid_def list_all_iff split: if_splits)
  have "distinct (map ql_tenant (take n xs))"
    unfolding distinct_conv_nth using assms(2) v(2) by (auto simp: neq_iff) metis
  with v(1) assms(2) show ?thesis by (simp add: list_all_length)
qed

definition snapshot_slots :: "quota_slot list \<Rightarrow> quota_lease list \<Rightarrow> quota_slot list" where
  "snapshot_slots ss ls = map (lease_slot ss) ls
     @ map drained_slot (filter (\<lambda>s. quota_usage_present s \<and> \<not> quota_snapshot_contains ls (qs_tenant s)) ss)"

lemma lease_slot_fields [simp]:
  "qs_occupied (lease_slot ss l)" "qs_tenant (lease_slot ss l) = the (ql_tenant l)"
  "qs_limits (lease_slot ss l) = ql_limits l"
  "qs_occupied (drained_slot s)" "qs_tenant (drained_slot s) = qs_tenant s" "qs_used (drained_slot s) = qs_used s"
  by (simp_all add: lease_slot_def drained_slot_def)

lemma lease_slot_used: "qs_used (lease_slot ss l) = (case occ ss (the (ql_tenant l)) of None \<Rightarrow> replicate 5 0 | Some s \<Rightarrow> qs_used s)"
  using find_slot_None [of ss "the (ql_tenant l)"] find_slot_Some [of ss "the (ql_tenant l)"]
  by (auto simp: lease_slot_def split: option.splits)

lemma tenants_leases: "tenants (map (lease_slot ss) ls) = map (\<lambda>l. the (ql_tenant l)) ls"
  by (induction ls) simp_all

lemma tenants_drained: "tenants (map drained_slot ss) = map qs_tenant ss"
  by (induction ss) simp_all

text \<open>After a snapshot every tenant has the usage it had before.\<close>

lemma occ_mem: "distinct (tenants ss) \<Longrightarrow> s \<in> set ss \<Longrightarrow> qs_occupied s \<Longrightarrow> occ ss (qs_tenant s) = Some s"
proof (induction ss)
  case (Cons a ss)
  have "qs_tenant s \<in> set (tenants ss)" if "s \<in> set ss" using that Cons.prems(3) by (simp add: tenants_def)
  with Cons show ?case by (auto split: if_splits)
qed simp

lemma distinct_filter_tenants:
  "distinct (tenants ss) \<Longrightarrow> (\<And>s. P s \<Longrightarrow> qs_occupied s) \<Longrightarrow> distinct (map qs_tenant (filter P ss))"
proof (induction ss)
  case (Cons a ss)
  have "qs_tenant ` {s \<in> set ss. P s} \<subseteq> set (tenants ss)" using Cons.prems(2) by (auto simp: tenants_def)
  with Cons show ?case by (auto split: if_splits)
qed simp

lemma usage_absent: "slot_ok s \<Longrightarrow> qs_occupied s \<Longrightarrow> \<not> quota_usage_present s \<Longrightarrow> r < 5 \<Longrightarrow> qs_used s ! r = 0"
  by (auto simp: quota_usage_present_def slot_ok_def list_ex_iff)

definition used_in :: "quota_slot list \<Rightarrow> string \<Rightarrow> nat \<Rightarrow> nat" where
  "used_in ss t r = (case occ ss t of None \<Rightarrow> 0 | Some s \<Rightarrow> unat (qs_used s ! r))"

lemma snapshot_slots_used:
  assumes "list_all (\<lambda>l. ql_tenant l \<noteq> None) ls" "distinct (map ql_tenant ls)" "distinct (tenants ss)"
    and "list_all slot_ok ss"
  shows "distinct (tenants (snapshot_slots ss ls))"
    and "r < 5 \<Longrightarrow> used_in (snapshot_slots ss ls) t r = used_in ss t r"
proof -
  let ?P = "\<lambda>s. quota_usage_present s \<and> \<not> quota_snapshot_contains ls (qs_tenant s)"
  have d1: "distinct (map (\<lambda>l. the (ql_tenant l)) ls)"
    using assms(1,2) by (induction ls) (auto simp: list_all_iff image_iff)
  have d2: "distinct (map qs_tenant (filter ?P ss))"
    by (rule distinct_filter_tenants [OF assms(3)]) (simp add: quota_usage_present_def)
  have c: "quota_snapshot_contains ls t \<longleftrightarrow> t \<in> (\<lambda>l. the (ql_tenant l)) ` set ls" for t
    using assms(1) by (force simp: quota_snapshot_contains_def list_ex_iff list_all_iff image_iff)
  show "distinct (tenants (snapshot_slots ss ls))"
  proof -
    have "set (map (\<lambda>l. the (ql_tenant l)) ls) \<inter> set (map qs_tenant (filter ?P ss)) = {}"
      unfolding disjoint_iff by (simp add: c) blast
    with d1 d2 show ?thesis unfolding snapshot_slots_def tenants_simps tenants_leases tenants_drained distinct_append
      by blast
  qed
  assume r: "r < 5"
  show "used_in (snapshot_slots ss ls) t r = used_in ss t r"
  proof (cases "quota_snapshot_contains ls t")
    case True
    then have "occ (map (lease_slot ss) ls) t \<noteq> None"
      by (simp add: occ_None tenants_leases c)
    then obtain s where s: "occ (map (lease_slot ss) ls) t = Some s" by auto
    from occ_Some [OF this] obtain l where "s = lease_slot ss l" "the (ql_tenant l) = t" by auto
    then have "qs_used s = (case occ ss t of None \<Rightarrow> replicate 5 0 | Some s \<Rightarrow> qs_used s)"
      by (simp add: lease_slot_used)
    with s r show ?thesis by (auto simp: used_in_def snapshot_slots_def split: option.splits)
  next
    case False
    then have first: "occ (map (lease_slot ss) ls) t = None" by (simp add: occ_None tenants_leases c)
    show ?thesis
    proof (cases "\<exists>s. occ ss t = Some s \<and> quota_usage_present s")
      case True
      then obtain s where s: "occ ss t = Some s" "quota_usage_present s" by auto
      with occ_Some [OF s(1)] False have k: "s \<in> set (filter ?P ss)" "qs_tenant s = t" by auto
      have "occ (map drained_slot (filter ?P ss)) (qs_tenant (drained_slot s)) = Some (drained_slot s)"
        by (rule occ_mem) (use d2 k in \<open>simp_all add: tenants_drained\<close>)
      with k first s show ?thesis by (simp add: used_in_def snapshot_slots_def map_add_def)
    next
      case no: False
      have "t \<notin> set (tenants (map drained_slot (filter ?P ss)))"
      proof
        assume "t \<in> set (tenants (map drained_slot (filter ?P ss)))"
        then obtain s where "s \<in> set ss" "?P s" "qs_tenant s = t" by (auto simp: tenants_drained)
        with occ_mem [OF assms(3), of s] no show False by (auto simp: quota_usage_present_def)
      qed
      then have "used_in (snapshot_slots ss ls) t r = 0"
        using first by (simp add: used_in_def snapshot_slots_def occ_None [symmetric] map_add_def)
      moreover have "used_in ss t r = 0"
      proof (cases "occ ss t")
        case (Some s)
        with occ_Some [OF this] no assms(4) r usage_absent [of s r] show ?thesis
          by (auto simp: used_in_def list_all_iff)
      qed (simp add: used_in_def)
      ultimately show ?thesis by simp
    qed
  qed
qed

subsection \<open>Every call keeps the table and books what it grants\<close>

text \<open>What a granted call adds to and takes from the account of tenant \<open>t\<close> and resource \<open>r\<close>.\<close>

fun credit :: "string \<Rightarrow> nat \<Rightarrow> quota_op \<times> bool \<Rightarrow> nat" where
  "credit t r (Reserve u k a now, granted) = (if granted \<and> u = Some t \<and> k = int r then unat a else 0)"
| "credit t r _ = 0"

fun debit :: "string \<Rightarrow> nat \<Rightarrow> quota_op \<times> bool \<Rightarrow> nat" where
  "debit t r (Release u k a, granted) = (if granted \<and> u = Some t \<and> k = int r then unat a else 0)"
| "debit t r _ = 0"

lemma require_snapshot_slots [simp]:
  "qp_slots (quota_require_snapshot p e q) = qp_slots p"
  "qp_max_tenants (quota_require_snapshot p e q) = qp_max_tenants p"
  "qp_node (quota_require_snapshot p e q) = qp_node p"
  by (simp_all add: quota_require_snapshot_def Let_def)

definition booked :: "quota_op \<Rightarrow> bool \<Rightarrow> quota_projection \<Rightarrow> quota_projection \<Rightarrow> bool" where
  "booked op granted p p' \<longleftrightarrow> quota_inv p' \<and> (\<forall>t r. r < 5 \<longrightarrow>
     used_in (qp_slots p') t r + debit t r (op, granted) = used_in (qp_slots p) t r + credit t r (op, granted))"

lemma booked_same: "quota_inv p \<Longrightarrow> qp_slots p' = qp_slots p \<Longrightarrow> qp_max_tenants p' = qp_max_tenants p \<Longrightarrow>
   (\<And>t r. credit t r (op, granted) = 0 \<and> debit t r (op, granted) = 0) \<Longrightarrow> booked op granted p p'"
  by (simp add: booked_def quota_inv_def)

lemma tenant_id_valid_Some: "tenant_id_valid v \<Longrightarrow> \<exists>t. v = Some t"
  by (cases v) (simp_all add: tenant_id_valid_def quota_identifier_valid_def)

lemma snapshot_booked:
  assumes "quota_inv p" "op_typed (Snapshot ok e q leases n)"
    and "quota_apply_snapshot ok p e q leases n = (c, p')"
  shows "booked (Snapshot ok e q leases n) (c = APPLY_APPLIED) p p'"
proof (cases "c = APPLY_APPLIED")
  case False
  with assms(3) have "qp_slots p' = qp_slots p \<and> qp_max_tenants p' = qp_max_tenants p"
    by (auto simp: quota_apply_snapshot_def Let_def split: if_splits)
  with assms(1) show ?thesis by (intro booked_same) simp_all
next
  case True
  define ls where "ls = (case leases of None \<Rightarrow> [] | Some xs \<Rightarrow> take n xs)"
  have v: "quota_snapshot_valid p leases n"
    and fits: "length (snapshot_slots (qp_slots p) ls) \<le> qp_max_tenants p"
    and p': "qp_slots p' = snapshot_slots (qp_slots p) ls
       @ replicate (qp_max_tenants p - length (snapshot_slots (qp_slots p) ls)) zero_slot"
      "qp_max_tenants p' = qp_max_tenants p"
    using assms(3) True unfolding quota_apply_snapshot_def snapshot_slots_def ls_def
    by (auto simp: Let_def min_def split: if_splits option.splits)
  have "list_all (quota_lease_valid p) ls \<and> distinct (map ql_tenant ls)"
    using snapshot_valid_spec [of p _ n] v assms(2) by (cases leases) (simp_all add: ls_def)
  then have l: "list_all (\<lambda>l. ql_tenant l \<noteq> None) ls" "distinct (map ql_tenant ls)"
    by (auto simp: list_all_iff quota_lease_valid_def dest: tenant_id_valid_Some)
  have l5: "list_all (\<lambda>l. length (ql_limits l) = 5) ls"
    using assms(2) by (auto simp: ls_def list_all_iff split: option.splits dest: in_set_takeD)
  have ok: "list_all slot_ok (qp_slots p)" and d: "distinct (tenants (qp_slots p))"
    using assms(1) by (simp_all add: quota_inv_def)
  have "slot_ok (lease_slot (qp_slots p) x)" if "x \<in> set ls" for x
    using that l5 ok occ_Some [of "qp_slots p" "the (ql_tenant x)"]
    by (auto simp: slot_ok_def lease_slot_used list_all_iff split: option.splits)
  moreover have "slot_ok (drained_slot x)" if "x \<in> set (qp_slots p)" for x
    using that ok by (auto simp: slot_ok_def list_all_iff drained_slot_def zero_slot_def)
  ultimately have "list_all slot_ok (snapshot_slots (qp_slots p) ls)"
    by (auto simp: snapshot_slots_def list_all_iff)
  with fits p' snapshot_slots_used(1) [OF l(1,2) d ok] have "quota_inv p'"
    by (auto simp: quota_inv_def list_all_iff)
  moreover have "used_in (qp_slots p') t r = used_in (qp_slots p) t r" if "r < 5" for t r
    using snapshot_slots_used(2) [OF l(1,2) d ok that] by (simp add: p'(1) used_in_def)
  ultimately show ?thesis by (simp add: booked_def)
qed

lemma update_booked:
  assumes "quota_inv p" "op_typed (Update e q l)" "quota_apply_update p e q l = (c, p')"
  shows "booked (Update e q l) (c = APPLY_APPLIED) p p'"
proof (cases "c = APPLY_APPLIED")
  case False
  with assms(3) have "qp_slots p' = qp_slots p \<and> qp_max_tenants p' = qp_max_tenants p"
    by (auto simp: quota_apply_update_def Let_def split: if_splits option.splits)
  with assms(1) show ?thesis by (intro booked_same) simp_all
next
  case True
  let ?ss = "qp_slots p" and ?t = "the (ql_tenant l)"
  have ok: "list_all slot_ok ?ss" and d: "distinct (tenants ?ss)" using assms(1) by (simp_all add: quota_inv_def)
  obtain i where i: "(case quota_find_slot ?ss ?t of Some i \<Rightarrow> Some i | None \<Rightarrow> free_slot ?ss) = Some i"
    "qp_slots p' = ?ss[i := install_lease l (?ss ! i)]" "qp_max_tenants p' = qp_max_tenants p"
    using assms(3) True by (auto simp: quota_apply_update_def Let_def split: if_splits option.splits)
  have il: "qs_occupied (install_lease l s)" "qs_tenant (install_lease l s) = ?t" for s
    by (simp_all add: install_lease_def Let_def)
  have len: "i < length ?ss" using i(1) find_slot_Some free_slot_Some by (auto split: option.splits)
  have so: "slot_ok (install_lease l (?ss ! i))"
    using assms(2) slots_ok_nth [OF ok len] by (auto simp: install_lease_def slot_ok_def Let_def zero_slot_def)
  show ?thesis
  proof (cases "quota_find_slot ?ss ?t")
    case None
    with i(1) have fr: "free_slot ?ss = Some i" by simp
    from None have nt: "?t \<notin> set (tenants ?ss)" by (simp add: find_slot_None occ_None)
    note ins = slot_install [OF len d nt il]
    have u: "used_in (qp_slots p') t r = used_in ?ss t r" if r: "r < 5" for t r
    proof -
      have "used_in ?ss ?t r = 0" using nt by (simp add: used_in_def occ_None [symmetric])
      moreover have "\<not> (qs_occupied (?ss ! i) \<and> qs_tenant (?ss ! i) = ?t)"
        using nt tenants_mem [OF nth_mem [OF len]] by auto
      then have "qs_used (install_lease l (?ss ! i)) ! r = 0"
        using r by (auto simp: install_lease_def zero_slot_def)
      moreover have "used_in ?ss (qs_tenant (?ss ! i)) r = 0" if "qs_occupied (?ss ! i)"
        using that usage_absent [OF slots_ok_nth [OF ok len] that _ r] free_slot_Some [OF fr]
          occ_mem [OF d, of "?ss ! i"] len by (simp add: used_in_def)
      ultimately show ?thesis unfolding i(2) used_in_def ins(1) by (auto simp: used_in_def split: option.splits)
    qed
    then show ?thesis using assms(1) ins(2) slots_ok_update [OF ok so, of i] i(2,3)
      by (simp add: booked_def quota_inv_def)
  next
    case (Some j)
    then have f: "quota_find_slot ?ss ?t = Some i" using i(1) by simp
    note up = find_slot_update [OF f il]
    have "qs_used (install_lease l (?ss ! i)) = qs_used (?ss ! i)"
      using find_slot_Some [OF f] by (simp add: install_lease_def)
    then have "used_in (qp_slots p') t r = used_in ?ss t r" for t r
      using up find_slot_Some [OF f] by (simp add: i(2) used_in_def)
    then show ?thesis using assms(1) up slots_ok_update [OF ok so, of i] i(2,3)
      by (simp add: booked_def quota_inv_def)
  qed
qed

lemma unat_add_within:
  assumes "u \<le> l" "a \<le> l - u"
  shows "unat (u + a :: u32) = unat u + unat a"
proof -
  have "unat u + unat a \<le> unat l" using assms by (simp add: word_le_nat_alt unat_sub)
  also have "\<dots> < 2 ^ 32" using unsigned_less [of l] by simp
  finally show ?thesis by (simp add: unat_word_ariths)
qed

lemma reserve_booked:
  assumes "quota_inv p" "quota_reserve p u k a now = (c, p')"
  shows "booked (Reserve u k a now) (c = RESERVE_OK) p p'"
proof (cases "c = RESERVE_OK")
  case False
  with assms(2) have "p' = p" by (auto simp: quota_reserve_def Let_def split: if_splits option.splits)
  with assms(1) False show ?thesis by (intro booked_same) simp_all
next
  case True
  let ?ss = "qp_slots p" and ?r = "nat k"
  obtain t i where t: "u = Some t" "quota_find_slot ?ss t = Some i" and k: "0 \<le> k" "k < 5"
    and lim: "qs_used (?ss ! i) ! ?r \<le> qs_limits (?ss ! i) ! ?r"
      "a \<le> qs_limits (?ss ! i) ! ?r - qs_used (?ss ! i) ! ?r"
    and p': "p' = p\<lparr>qp_slots := ?ss[i := (?ss ! i)\<lparr>qs_used := (qs_used (?ss ! i))[?r := qs_used (?ss ! i) ! ?r + a]\<rparr>]\<rparr>"
    using assms(2) True
    by (auto simp: quota_reserve_def resource_ok_def Let_def not_less not_le
        dest!: tenant_id_valid_Some split: if_splits option.splits)
  note f = find_slot_Some [OF t(2)]
  have ok: "list_all slot_ok ?ss" using assms(1) by (simp add: quota_inv_def)
  have so: "slot_ok (?ss ! i)" using slots_ok_nth [OF ok] f by simp
  define s where "s = (?ss ! i)\<lparr>qs_used := (qs_used (?ss ! i))[?r := qs_used (?ss ! i) ! ?r + a]\<rparr>"
  have s: "slot_ok s" "qs_occupied s" "qs_tenant s = t" using so f by (simp_all add: s_def slot_ok_def)
  have sl: "qp_slots p' = ?ss[i := s]" "qp_max_tenants p' = qp_max_tenants p" by (simp_all add: p' s_def)
  note up = find_slot_update [OF t(2) s(2,3)]
  have sum: "unat (qs_used (?ss ! i) ! ?r + a) = unat (qs_used (?ss ! i) ! ?r) + unat a"
    using lim by (rule unat_add_within)
  have us: "unat (qs_used s ! r) = unat (qs_used (?ss ! i) ! r) + (if k = int r then unat a else 0)" if "r < 5" for r
    using sum so that k by (auto simp: s_def nth_list_update slot_ok_def)
  have "used_in (qp_slots p') x r = used_in ?ss x r + credit x r (Reserve u k a now, True)" if "r < 5" for x r
    using us [OF that] f t(1) by (simp add: sl used_in_def up)
  then show ?thesis using assms(1) True up slots_ok_update [OF ok s(1), of i]
    by (simp add: booked_def quota_inv_def sl)
qed

lemma release_booked:
  assumes "quota_inv p" "quota_release p u k a = (c, p')"
  shows "booked (Release u k a) (c = 0) p p'"
proof (cases "c = 0")
  case False
  with assms(2) have "p' = p" by (auto simp: quota_release_def Let_def split: if_splits option.splits)
  with assms(1) False show ?thesis by (intro booked_same) simp_all
next
  case True
  let ?ss = "qp_slots p" and ?r = "nat k"
  obtain t i where t: "u = Some t" "quota_find_slot ?ss t = Some i" and k: "0 \<le> k" "k < 5"
    and lim: "a \<le> qs_used (?ss ! i) ! ?r"
    and p': "p' = (let s = (?ss ! i)\<lparr>qs_used := (qs_used (?ss ! i))[?r := qs_used (?ss ! i) ! ?r - a]\<rparr>
       in p\<lparr>qp_slots := ?ss[i := if \<not> list_ex (\<lambda>u. u \<noteq> 0) (qs_used s) \<and> \<not> qs_has_lease s then zero_slot else s]\<rparr>)"
    using assms(2) True
    by (auto simp: quota_release_def resource_ok_def Let_def not_less not_le
        dest!: tenant_id_valid_Some split: if_splits option.splits)
  note f = find_slot_Some [OF t(2)]
  have ok: "list_all slot_ok ?ss" and d: "distinct (tenants ?ss)" using assms(1) by (simp_all add: quota_inv_def)
  have so: "slot_ok (?ss ! i)" using slots_ok_nth [OF ok] f by simp
  define s where "s = (?ss ! i)\<lparr>qs_used := (qs_used (?ss ! i))[?r := qs_used (?ss ! i) ! ?r - a]\<rparr>"
  have s: "slot_ok s" "qs_occupied s" "qs_tenant s = t" using so f by (simp_all add: s_def slot_ok_def)
  have us: "unat (qs_used s ! r) + (if k = int r then unat a else 0) = unat (qs_used (?ss ! i) ! r)" if "r < 5" for r
    using lim so that k by (auto simp: s_def nth_list_update slot_ok_def unat_sub word_le_nat_alt)
  define gone where "gone \<longleftrightarrow> \<not> list_ex (\<lambda>u. u \<noteq> 0) (qs_used s) \<and> \<not> qs_has_lease s"
  have sl: "qp_slots p' = ?ss[i := if gone then zero_slot else s]" "qp_max_tenants p' = qp_max_tenants p"
    by (simp_all add: p' s_def gone_def Let_def)
  have "used_in (qp_slots p') x r + debit x r (Release u k a, True) = used_in ?ss x r" if r: "r < 5" for x r
  proof (cases gone)
    case True
    have "qs_used s ! r = 0" using True r s(1) by (auto simp: gone_def list_ex_iff slot_ok_def)
    with us [OF r] f t(1) True find_slot_clear [OF t(2) d zero_slot_free(1)] show ?thesis
      by (auto simp: sl used_in_def)
  next
    case False
    with us [OF r] f t(1) find_slot_update [OF t(2) s(2,3)] show ?thesis by (auto simp: sl used_in_def)
  qed
  moreover have "quota_inv p'"
    using assms(1) find_slot_clear [OF t(2) d zero_slot_free(1)] find_slot_update [OF t(2) s(2,3)] d
      slots_ok_update [OF ok s(1), of i] slots_ok_update [OF ok zero_slot_ok, of i]
    by (auto simp: quota_inv_def sl)
  ultimately show ?thesis using True by (simp add: booked_def)
qed

section \<open>Accounts\<close>

primrec run_trace :: "('op \<Rightarrow> 's \<Rightarrow> bool \<times> 's) \<Rightarrow> 'op list \<Rightarrow> 's \<Rightarrow> ('op \<times> bool) list \<times> 's" where
  "run_trace step [] s = ([], s)"
| "run_trace step (op # ops) s =
     (let (g, s1) = step op s; (tr, s2) = run_trace step ops s1 in ((op, g) # tr, s2))"

text \<open>The contract of a component that keeps accounts: each granted call moves the balance of an account
  by what the call says, a refused call moves nothing.\<close>

locale ledger =
  fixes inv :: "'s \<Rightarrow> bool" and typed :: "'op \<Rightarrow> bool" and step :: "'op \<Rightarrow> 's \<Rightarrow> bool \<times> 's"
    and account :: "'k \<Rightarrow> bool" and balance :: "'s \<Rightarrow> 'k \<Rightarrow> nat"
    and plus_of :: "'k \<Rightarrow> 'op \<times> bool \<Rightarrow> nat" and minus_of :: "'k \<Rightarrow> 'op \<times> bool \<Rightarrow> nat"
  assumes step_inv: "inv s \<Longrightarrow> typed op \<Longrightarrow> step op s = (g, s') \<Longrightarrow> inv s'"
    and step_books: "inv s \<Longrightarrow> typed op \<Longrightarrow> step op s = (g, s') \<Longrightarrow> account k \<Longrightarrow>
          balance s' k + minus_of k (op, g) = balance s k + plus_of k (op, g)"
begin

lemma run_books:
  "inv s \<Longrightarrow> list_all typed ops \<Longrightarrow> run_trace step ops s = (tr, s') \<Longrightarrow>
   inv s' \<and> (account k \<longrightarrow>
     balance s' k + sum_list (map (minus_of k) tr) = balance s k + sum_list (map (plus_of k) tr))"
proof (induction ops arbitrary: s tr)
  case (Cons op ops)
  obtain g s1 tr1 where st: "step op s = (g, s1)" "run_trace step ops s1 = (tr1, s')" "tr = (op, g) # tr1"
    using Cons.prems(3) by (auto split: prod.splits)
  have "inv s1" using Cons.prems(1,2) step_inv [OF _ _ st(1)] by simp
  from Cons.IH [OF this _ st(2)] Cons.prems step_books [OF Cons.prems(1) _ st(1), of k] show ?case
    by (auto simp: st(3))
qed simp

end

lemma quota_step_booked: "quota_inv p \<Longrightarrow> op_typed op \<Longrightarrow> quota_step op p = (g, p') \<Longrightarrow> booked op g p p'"
  by (cases op) (auto dest: snapshot_booked update_booked reserve_booked release_booked split: prod.splits)

interpretation quota: ledger quota_inv op_typed quota_step "\<lambda>(t, r). r < 5"
  "\<lambda>p (t, r). used_in (qp_slots p) t r" "\<lambda>(t, r). credit t r" "\<lambda>(t, r). debit t r"
  by unfold_locales (use quota_step_booked in \<open>auto simp: booked_def\<close>)

lemma quota_create_inv: "quota_projection_create ok n m = Some p \<Longrightarrow> quota_inv p \<and> used_in (qp_slots p) t r = 0"
  by (auto simp: quota_projection_create_def quota_inv_def used_in_def list_all_iff split: if_splits)

text \<open>C28. Quota accounting: over any sequence of snapshots, updates, reservations and releases on a fresh
  projection, the usage recorded for a tenant and resource is exactly the sum of the granted
  reservations minus the sum of the accepted releases - snapshots that drop a tenant's lease,
  updates that recycle slots and refused calls never change it - and the table stays well formed.\<close>

theorem quota_ledger:
  assumes "quota_projection_create ok node m = Some p" "list_all op_typed ops" "r < 5"
    and "run_trace quota_step ops p = (trace, p')"
  shows "quota_inv p'
    \<and> used_in (qp_slots p') t r + sum_list (map (debit t r) trace) = sum_list (map (credit t r) trace)"
  using quota.run_books [OF _ assms(2,4), of "(t, r)"] quota_create_inv [OF assms(1), of t r] assms(3) by auto

lemma quota_ledger_witness:
  "\<exists>p trace p'. quota_projection_create True (Some ''n1'') 2 = Some p
     \<and> run_trace quota_step
         [Snapshot True 1 1 (Some [\<lparr>ql_tenant = Some ''a'', ql_node = Some ''n1'', ql_expires = 9, ql_limits = [4, 4, 4, 4, 4]\<rparr>]) 1,
          Reserve (Some ''a'') 2 3 5, Reserve (Some ''a'') 2 2 5, Release (Some ''a'') 2 1] p = (trace, p')
     \<and> sum_list (map (credit ''a'' 2) trace) = 3 \<and> used_in (qp_slots p') ''a'' 2 = 2"
proof -
  let ?ops = "[Snapshot True 1 1 (Some [\<lparr>ql_tenant = Some ''a'', ql_node = Some ''n1'', ql_expires = 9, ql_limits = [4, 4, 4, 4, 4]\<rparr>]) 1,
          Reserve (Some ''a'') 2 3 5, Reserve (Some ''a'') 2 2 5, Release (Some ''a'') 2 1]"
  let ?p = "the (quota_projection_create True (Some ''n1'') 2)"
  have c: "quota_projection_create True (Some ''n1'') 2 = Some ?p" by code_simp
  obtain trace p' where r: "run_trace quota_step ?ops ?p = (trace, p')" by fastforce
  have "map snd (fst (run_trace quota_step ?ops ?p)) = [True, True, False, True]
     \<and> map fst (fst (run_trace quota_step ?ops ?p)) = ?ops" by code_simp
  then have "trace = zip ?ops [True, True, False, True]" using r by (metis fst_conv zip_map_fst_snd)
  moreover have "list_all op_typed ?ops" by simp
  ultimately have "sum_list (map (credit ''a'' 2) trace) = 3" "used_in (qp_slots p') ''a'' 2 = 2"
    using quota_ledger [OF c _ _ r, of 2 "''a''"] by simp_all
  with c r show ?thesis by blast
qed

section \<open>Reservations fail closed\<close>

text \<open>A reservation succeeds exactly when the projection is synchronised and the tenant holds a
  lease that has not expired and whose limit covers the usage after the reservation (in unbounded
  arithmetic: nothing wraps); in every other case the projection is left as it was.\<close>

theorem quota_reserve_grants:
  assumes "quota_inv p" "quota_reserve p (Some t) k a now = (c, p')"
  shows "(c = RESERVE_OK \<longleftrightarrow> tenant_id_valid (Some t) \<and> 0 \<le> k \<and> k < 5 \<and> a \<noteq> 0 \<and> qp_synchronized p
            \<and> (\<exists>s. occ (qp_slots p) t = Some s \<and> qs_has_lease s \<and> now < qs_expires s
                 \<and> unat (qs_used s ! nat k) + unat a \<le> unat (qs_limits s ! nat k)))
       \<and> (c \<noteq> RESERVE_OK \<longrightarrow> p' = p)"
proof -
  have lim: "(u > l \<or> a > l - u) \<longleftrightarrow> \<not> unat u + unat a \<le> unat l" for u l :: u32
  proof (cases "u \<le> l")
    case True
    with unat_sub [OF this] show ?thesis by (auto simp: word_less_nat_alt word_le_nat_alt)
  qed (auto simp: word_less_nat_alt word_le_nat_alt)
  show ?thesis
  proof (cases "quota_find_slot (qp_slots p) t")
    case None
    then have "occ (qp_slots p) t = None" by (simp add: find_slot_None)
    with None show ?thesis using assms(2) by (auto simp: quota_reserve_def split: if_splits)
  next
    case (Some i)
    have "occ (qp_slots p) t = Some (qp_slots p ! i)" using find_slot_Some [OF Some] by simp
    with Some assms(2) [unfolded quota_reserve_def Let_def lim] show ?thesis
      by (auto simp: resource_ok_def split: if_splits)
  qed
qed

lemma quota_reserve_grants_witness:
  "quota_inv (the (quota_projection_create True (Some ''n1'') 2))
   \<and> fst (quota_reserve (the (quota_projection_create True (Some ''n1'') 2)) (Some ''a'') 0 1 0) \<noteq> RESERVE_OK"
proof -
  let ?p = "the (quota_projection_create True (Some ''n1'') 2)"
  have "quota_projection_create True (Some ''n1'') 2 = Some ?p" "\<not> qp_synchronized ?p" by code_simp+
  moreover from this have i: "quota_inv ?p" using quota_create_inv by blast
  ultimately show ?thesis
    using quota_reserve_grants [OF i, of "''a''" 0 1 0] by (metis prod.collapse)
qed

section \<open>Versions\<close>

definition version :: "quota_projection \<Rightarrow> u64 \<times> u64" where
  "version p = (qp_epoch p, qp_sequence p)"

lemma version_compare_le: "quota_version_compare a b c d \<le> 0 \<longleftrightarrow> vle (a, b) (c, d)"
  by (auto simp: quota_version_compare_def vle_def)

lemma version_compare_less: "quota_version_compare a b c d < 0 \<longleftrightarrow> \<not> vle (c, d) (a, b)"
  by (auto simp: quota_version_compare_def vle_def)

text \<open>While a snapshot is required, it is required at least at the version already applied.\<close>

definition version_inv :: "quota_projection \<Rightarrow> bool" where
  "version_inv p \<longleftrightarrow> (if qp_synchronized p then qp_required_epoch p = 0 \<and> qp_required_sequence p = 0
     else version p = (0, 0) \<or> qp_required_epoch p \<noteq> 0 \<and> vle (version p) (qp_required_epoch p, qp_required_sequence p))"

lemma require_snapshot_version:
  assumes "version_inv p" "e \<noteq> 0" "qp_synchronized p \<longrightarrow> vle (version p) (e, q)"
  shows "version_inv (quota_require_snapshot p e q) \<and> version (quota_require_snapshot p e q) = version p
    \<and> \<not> qp_synchronized (quota_require_snapshot p e q)"
proof -
  let ?r = "(qp_required_epoch p, qp_required_sequence p)"
  have cmp: "quota_version_compare e q (fst ?r) (snd ?r) > 0 \<longleftrightarrow> \<not> vle (e, q) ?r"
    using version_compare_le [of e q "fst ?r" "snd ?r"] by (simp add: not_le [symmetric])
  have f: "version (quota_require_snapshot p e q) = version p" "\<not> qp_synchronized (quota_require_snapshot p e q)"
    "(qp_required_epoch (quota_require_snapshot p e q), qp_required_sequence (quota_require_snapshot p e q))
       = (if vle (e, q) ?r then ?r else (e, q))"
    using cmp by (simp_all add: quota_require_snapshot_def version_def Let_def)
  have "version p = (0, 0) \<or> fst (if vle (e, q) ?r then ?r else (e, q)) \<noteq> 0
      \<and> vle (version p) (if vle (e, q) ?r then ?r else (e, q))"
  proof (cases "vle (e, q) ?r")
    case True
    moreover have "qp_required_epoch p \<noteq> 0" using True assms(2) by (auto simp: vle_def)
    ultimately show ?thesis using assms vle_trans [of "version p" "(e, q)" ?r]
      by (auto simp: version_inv_def split: if_splits)
  next
    case False
    then have "vle ?r (e, q)" using vle_total by blast
    with False assms vle_trans [of "version p" ?r "(e, q)"] show ?thesis by (auto simp: version_inv_def split: if_splits)
  qed
  then have "version p = (0, 0) \<or> qp_required_epoch (quota_require_snapshot p e q) \<noteq> 0
      \<and> vle (version p) (qp_required_epoch (quota_require_snapshot p e q), qp_required_sequence (quota_require_snapshot p e q))"
    unfolding f(3) [symmetric] by simp
  with f(1,2) show ?thesis by (auto simp: version_inv_def)
qed

text \<open>The three ways a snapshot or update ends: ignored, refused with a snapshot required, applied.\<close>

definition ends_well :: "quota_projection \<Rightarrow> u64 \<Rightarrow> u64 \<Rightarrow> apply_result \<Rightarrow> quota_projection \<Rightarrow> bool" where
  "ends_well p e q c p' \<longleftrightarrow>
     p' = p \<and> c \<noteq> APPLY_APPLIED
     \<or> p' = quota_require_snapshot p e q \<and> c \<noteq> APPLY_APPLIED \<and> e \<noteq> 0 \<and> (qp_synchronized p \<longrightarrow> vle (version p) (e, q))
     \<or> version p' = (e, q) \<and> vle (version p) (e, q) \<and> qp_synchronized p' \<and> qp_required_epoch p' = 0 \<and> qp_required_sequence p' = 0"

lemma ends_well_version:
  "version_inv p \<Longrightarrow> ends_well p e q c p' \<Longrightarrow>
   version_inv p' \<and> vle (version p) (version p') \<and> (c = APPLY_APPLIED \<longrightarrow> version p' = (e, q))"
  unfolding ends_well_def using require_snapshot_version [of p e q]
  by (elim disjE conjE) (simp, simp, simp add: version_inv_def [of p'])

lemma snapshot_version:
  assumes "version_inv p" "quota_apply_snapshot ok p e q ls n = (c, p')"
  shows "version_inv p' \<and> vle (version p) (version p') \<and> (c = APPLY_APPLIED \<longrightarrow> version p' = (e, q))"
proof (rule ends_well_version [OF assms(1)])
  have "vle (version p) (e, q)"
    if "\<not> (qp_synchronized p \<and> vle (e, q) (version p))"
      "\<not> (\<not> qp_synchronized p \<and> qp_required_epoch p \<noteq> 0 \<and> \<not> vle (qp_required_epoch p, qp_required_sequence p) (e, q))"
    using that assms(1) vle_total [of "version p" "(e, q)"] vle_trans [of "version p"] vle_bottom [of "(e, q)"]
    by (auto simp: version_inv_def split: if_splits)
  then show "ends_well p e q c p'"
    using assms(2) unfolding quota_apply_snapshot_def Let_def version_compare_le version_compare_less version_def [symmetric]
    by (auto simp: ends_well_def version_def split: if_splits)
qed

lemma update_version:
  assumes "version_inv p" "quota_apply_update p e q l = (c, p')"
  shows "version_inv p' \<and> vle (version p) (version p') \<and> (c = APPLY_APPLIED \<longrightarrow> version p' = (e, q))"
proof (rule ends_well_version [OF assms(1)])
  have "vle (version p) (e, q)" if "\<not> vle (e, q) (version p)" using that vle_total by blast
  then show "ends_well p e q c p'"
    using assms unfolding quota_apply_update_def Let_def version_compare_le version_def [symmetric]
    by (auto simp: ends_well_def version_def version_inv_def split: if_splits option.splits)
qed

lemma quota_step_version:
  assumes "version_inv p" "quota_step op p = (g, p')"
  shows "version_inv p' \<and> vle (version p) (version p')"
proof (cases op)
  case (Snapshot ok e q ls n)
  with assms snapshot_version show ?thesis by (auto split: prod.splits)
next
  case (Update e q l)
  with assms update_version show ?thesis by (auto split: prod.splits)
next
  case (Reserve t k a now)
  with assms show ?thesis
    by (auto simp: quota_reserve_def version_inv_def version_def Let_def split: if_splits option.splits prod.splits)
next
  case (Release t k a)
  with assms show ?thesis
    by (auto simp: quota_release_def version_inv_def version_def Let_def split: if_splits option.splits prod.splits)
qed

text \<open>The projection never goes back to an older version: over any sequence of calls on a fresh
  projection, with snapshots and updates arriving late, duplicated, out of order, malformed or
  with gaps, the pair (epoch, sequence) never decreases; and a call that reports \<open>APPLIED\<close> leaves exactly
  the version it carried.\<close>

theorem quota_version_monotone:
  assumes "quota_projection_create ok node m = Some p0" "run_trace quota_step (ops1 @ ops2) p0 = (trace, p2)"
  shows "vle (version (snd (run_trace quota_step ops1 p0))) (version p2)
    \<and> (\<forall>b e q ls n l. (fst (quota_apply_snapshot b p2 e q ls n) = APPLY_APPLIED \<longrightarrow>
            version (snd (quota_apply_snapshot b p2 e q ls n)) = (e, q))
        \<and> (fst (quota_apply_update p2 e q l) = APPLY_APPLIED \<longrightarrow> version (snd (quota_apply_update p2 e q l)) = (e, q)))"
proof -
  have run: "version_inv (snd (run_trace quota_step ops p)) \<and> vle (version p) (version (snd (run_trace quota_step ops p)))"
    if "version_inv p" for ops p
    using that
  proof (induction ops arbitrary: p)
    case (Cons op ops)
    obtain g p1 where s: "quota_step op p = (g, p1)" by fastforce
    from quota_step_version [OF Cons.prems s] Cons.IH [of p1] s show ?case
      by (auto simp: split_beta intro: vle_trans)
  qed simp
  have app: "snd (run_trace quota_step (ops1 @ ops2) p) = snd (run_trace quota_step ops2 (snd (run_trace quota_step ops1 p)))" for p
    by (induction ops1 arbitrary: p) (simp_all add: split_beta)
  have "version_inv p0" using assms(1)
    by (auto simp: quota_projection_create_def version_inv_def version_def split: if_splits)
  then have r1: "version_inv (snd (run_trace quota_step ops1 p0))" using run by blast
  have "p2 = snd (run_trace quota_step ops2 (snd (run_trace quota_step ops1 p0)))"
    using assms(2) app [of p0] by simp
  with run [OF r1, of ops2] have v: "version_inv p2" "vle (version (snd (run_trace quota_step ops1 p0))) (version p2)" by simp_all
  then show ?thesis using snapshot_version [OF v(1)] update_version [OF v(1)] by (metis prod.collapse)
qed

lemma quota_version_monotone_witness:
  "\<exists>p0 trace p2. quota_projection_create True (Some ''n1'') 2 = Some p0
     \<and> run_trace quota_step ([Snapshot True 5 9 None 0] @ [Snapshot True 4 1 None 0]) p0 = (trace, p2)
     \<and> vle (version (snd (run_trace quota_step [Snapshot True 5 9 None 0] p0))) (version p2)"
proof -
  have "quota_projection_create True (Some ''n1'') 2 \<noteq> None" by code_simp
  then obtain p0 where c: "quota_projection_create True (Some ''n1'') 2 = Some p0" by auto
  obtain trace p2 where "run_trace quota_step ([Snapshot True 5 9 None 0] @ [Snapshot True 4 1 None 0]) p0 = (trace, p2)"
    by fastforce
  with c quota_version_monotone [OF c this] show ?thesis by blast
qed

end
