(* ===== verification/Quota_Allocator.thy ===== *)
theory Quota_Allocator
  imports Tenant_Quota
begin

text \<open>
  The control plane's quota allocator (\<open>webrtc/src/security/turbo_media_tenant_quota_allocator.c\<close>): tenant-wide
  caps and the leases issued to the nodes, restored from snapshots and changed one version at a time.

  The conventions are those of \<open>Tenant_Quota\<close>: strings, nullable pointers as options, arrays as lists.
  The running totals are the 64-bit sums of the code.  \<open>alloc_ok\<close> is whether \<open>calloc\<close> succeeds.

  Shown here: over any sequence of operations the leases issued for a tenant never exceed its cap in
  any resource; and the snapshots built for the nodes are accepted by their projections, so what
  all nodes together may grant to a tenant stays within the cap.
\<close>

section \<open>State\<close>

definition QUOTA_MAX_ISSUED_LEASES :: nat where [simp]: "QUOTA_MAX_ISSUED_LEASES = 4096"

record quota_policy =
  pol_tenant :: "string option"
  pol_limits :: "u32 list"

record policy_slot =
  ps_tenant :: string
  ps_occupied :: bool
  ps_limits :: "u32 list"

record issued_slot =
  is_tenant :: string
  is_node :: string
  is_occupied :: bool
  is_expires :: u64
  is_limits :: "u32 list"

record quota_allocator =
  qa_max_tenants :: nat
  qa_max_leases :: nat
  qa_policies :: "policy_slot list"
  qa_leases :: "issued_slot list"
  qa_synchronized :: bool
  qa_epoch :: u64
  qa_sequence :: u64
  qa_required_epoch :: u64
  qa_required_sequence :: u64

datatype allocator_result =
    ALLOC_ERROR | ALLOC_APPLIED | ALLOC_STALE | ALLOC_GAP | ALLOC_LIMIT | ALLOC_OVERCOMMITTED | ALLOC_NOT_FOUND | ALLOC_UNKNOWN

definition zero_policy :: policy_slot where
  "zero_policy = \<lparr>ps_tenant = [], ps_occupied = False, ps_limits = replicate 5 0\<rparr>"

definition zero_issued :: issued_slot where
  "zero_issued = \<lparr>is_tenant = [], is_node = [], is_occupied = False, is_expires = 0, is_limits = replicate 5 0\<rparr>"

section \<open>Helpers\<close>

definition allocator_version_compare :: "u64 \<Rightarrow> u64 \<Rightarrow> u64 \<Rightarrow> u64 \<Rightarrow> int" where
  "allocator_version_compare le ls re rs =
     (if le < re then - 1 else if le > re then 1 else if ls < rs then - 1 else if ls > rs then 1 else 0)"

definition allocator_require_snapshot :: "quota_allocator \<Rightarrow> u64 \<Rightarrow> u64 \<Rightarrow> quota_allocator" where
  "allocator_require_snapshot a epoch sq =
     (let a = a\<lparr>qa_synchronized := False\<rparr>
      in if allocator_version_compare epoch sq (qa_required_epoch a) (qa_required_sequence a) > 0
         then a\<lparr>qa_required_epoch := epoch, qa_required_sequence := sq\<rparr> else a)"

definition allocator_find_policy :: "quota_allocator \<Rightarrow> string \<Rightarrow> nat option" where
  "allocator_find_policy a t = first_below (qa_max_tenants a) (\<lambda>s. ps_occupied s \<and> ps_tenant s = t) (qa_policies a)"

definition allocator_find_lease :: "quota_allocator \<Rightarrow> string \<Rightarrow> string \<Rightarrow> nat option" where
  "allocator_find_lease a t n =
     first_below (qa_max_leases a) (\<lambda>s. is_occupied s \<and> is_tenant s = t \<and> is_node s = n) (qa_leases a)"

definition prune_slot :: "u64 \<Rightarrow> issued_slot \<Rightarrow> issued_slot" where
  "prune_slot now s = (if is_occupied s \<and> now \<ge> is_expires s then zero_issued else s)"

definition allocator_prune_expired :: "quota_allocator \<Rightarrow> u64 \<Rightarrow> quota_allocator" where
  "allocator_prune_expired a now = a\<lparr>qa_leases := map (prune_slot now) (qa_leases a)\<rparr>"

definition allocator_policy_input_valid :: "quota_policy \<Rightarrow> bool" where
  "allocator_policy_input_valid p \<longleftrightarrow> tenant_id_valid (pol_tenant p)"

definition allocator_lease_input_valid :: "quota_lease \<Rightarrow> u64 \<Rightarrow> bool" where
  "allocator_lease_input_valid l now \<longleftrightarrow> tenant_id_valid (ql_tenant l) \<and> node_id_valid (ql_node l) \<and> ql_expires l > now"

definition allocator_policy_snapshot_valid :: "quota_policy list option \<Rightarrow> nat \<Rightarrow> nat \<Rightarrow> bool" where
  "allocator_policy_snapshot_valid policies policy_count max_tenants \<longleftrightarrow>
     (if (policy_count > 0 \<and> policies = None) \<or> policy_count > max_tenants \<or> policy_count > QUOTA_MAX_TENANTS then False
      else list_all (\<lambda>i. allocator_policy_input_valid (the policies ! i)
             \<and> list_all (\<lambda>j. pol_tenant (the policies ! j) \<noteq> pol_tenant (the policies ! i)) [0..<i]) [0..<policy_count])"

definition allocator_input_policy_find :: "quota_policy list \<Rightarrow> nat \<Rightarrow> string \<Rightarrow> nat option" where
  "allocator_input_policy_find policies policy_count t = first_below policy_count (\<lambda>p. pol_tenant p = Some t) policies"

text \<open>The resource loop of one lease: the totals of its tenant advanced, \<open>None\<close> when one exceeds its cap.\<close>

definition add_to_totals :: "u64 list \<Rightarrow> nat \<Rightarrow> u32 list \<Rightarrow> u32 list \<Rightarrow> u64 list option" where
  "add_to_totals totals policy_index limits caps =
     (let base = policy_index * QUOTA_RESOURCE_COUNT;
          totals' = foldl (\<lambda>t r. t[base + r := t ! (base + r) + ucast (limits ! r)]) totals [0..<QUOTA_RESOURCE_COUNT]
      in if list_all (\<lambda>r. \<not> totals' ! (base + r) > ucast (caps ! r)) [0..<QUOTA_RESOURCE_COUNT] then Some totals' else None)"

text \<open>The loop over the leases of a snapshot; \<open>before\<close> holds the leases already passed.\<close>

fun leases_fit :: "quota_policy list \<Rightarrow> nat \<Rightarrow> u64 \<Rightarrow> quota_lease list \<Rightarrow> u64 list \<Rightarrow> quota_lease list \<Rightarrow> bool" where
  "leases_fit policies policy_count now before totals [] = True"
| "leases_fit policies policy_count now before totals (l # ls) =
     (if \<not> allocator_lease_input_valid l now then False
      else if list_ex (\<lambda>b. ql_tenant b = ql_tenant l \<and> ql_node b = ql_node l) before then False
      else case allocator_input_policy_find policies policy_count (the (ql_tenant l)) of
             None \<Rightarrow> False
           | Some k \<Rightarrow> (case add_to_totals totals k (ql_limits l) (pol_limits (policies ! k)) of
                          None \<Rightarrow> False
                        | Some totals' \<Rightarrow> leases_fit policies policy_count now (before @ [l]) totals' ls))"

definition allocator_snapshot_leases_valid ::
  "bool \<Rightarrow> quota_policy list option \<Rightarrow> nat \<Rightarrow> quota_lease list option \<Rightarrow> nat \<Rightarrow> nat \<Rightarrow> u64 \<Rightarrow> bool" where
  "allocator_snapshot_leases_valid alloc_ok policies policy_count leases lease_count max_leases now \<longleftrightarrow>
     (if (lease_count > 0 \<and> leases = None) \<or> lease_count > max_leases \<or> lease_count > QUOTA_MAX_ISSUED_LEASES then False
      else if policy_count > SIZE_MAX div (QUOTA_RESOURCE_COUNT * 8) then False
      else if policy_count > 0 \<and> \<not> alloc_ok then False
      else leases_fit (case policies of None \<Rightarrow> [] | Some ps \<Rightarrow> ps) policy_count now []
             (replicate (policy_count * QUOTA_RESOURCE_COUNT) 0)
             (case leases of None \<Rightarrow> [] | Some ls \<Rightarrow> take lease_count ls))"

definition allocator_exact_next :: "quota_allocator \<Rightarrow> u64 \<Rightarrow> u64 \<Rightarrow> bool \<times> quota_allocator" where
  "allocator_exact_next a epoch sq =
     (if \<not> qa_synchronized a then (False, a)
      else if epoch \<noteq> qa_epoch a \<or> qa_sequence a = - 1 \<or> sq \<noteq> qa_sequence a + 1
      then (False, allocator_require_snapshot a epoch sq)
      else (True, a))"

definition allocator_commitments_for_tenant :: "quota_allocator \<Rightarrow> string \<Rightarrow> nat option \<Rightarrow> u64 list" where
  "allocator_commitments_for_tenant a t exclude =
     map (\<lambda>r. sum_list (map (\<lambda>i. ucast (is_limits (qa_leases a ! i) ! r))
            (filter (\<lambda>i. is_occupied (qa_leases a ! i) \<and> exclude \<noteq> Some i \<and> is_tenant (qa_leases a ! i) = t)
              [0..<qa_max_leases a]))) [0..<QUOTA_RESOURCE_COUNT]"

section \<open>Operations\<close>

definition quota_allocator_create :: "bool \<Rightarrow> nat \<Rightarrow> nat \<Rightarrow> quota_allocator option" where
  "quota_allocator_create alloc_ok max_tenants max_leases =
     (if max_tenants = 0 \<or> max_tenants > QUOTA_MAX_TENANTS \<or> max_leases = 0 \<or> max_leases > QUOTA_MAX_ISSUED_LEASES then None
      else if \<not> alloc_ok then None
      else Some \<lparr>qa_max_tenants = max_tenants, qa_max_leases = max_leases, qa_policies = replicate max_tenants zero_policy,
                 qa_leases = replicate max_leases zero_issued, qa_synchronized = False, qa_epoch = 0, qa_sequence = 0,
                 qa_required_epoch = 0, qa_required_sequence = 0\<rparr>)"

definition policy_slot_of :: "quota_policy \<Rightarrow> policy_slot" where
  "policy_slot_of p = \<lparr>ps_tenant = the (pol_tenant p), ps_occupied = True, ps_limits = pol_limits p\<rparr>"

definition issued_slot_of :: "quota_lease \<Rightarrow> issued_slot" where
  "issued_slot_of l = \<lparr>is_tenant = the (ql_tenant l), is_node = the (ql_node l), is_occupied = True,
     is_expires = ql_expires l, is_limits = ql_limits l\<rparr>"

text \<open>The two allocations of the totals and of the replacement tables succeed or fail independently.\<close>

definition quota_allocator_apply_snapshot ::
  "bool \<Rightarrow> bool \<Rightarrow> quota_allocator \<Rightarrow> u64 \<Rightarrow> u64 \<Rightarrow> quota_policy list option \<Rightarrow> nat \<Rightarrow> quota_lease list option \<Rightarrow> nat \<Rightarrow> u64
     \<Rightarrow> allocator_result \<times> quota_allocator" where
  "quota_allocator_apply_snapshot totals_ok tables_ok a epoch sq policies policy_count leases lease_count now =
     (let refused = allocator_require_snapshot a epoch sq;
          ps = (case policies of None \<Rightarrow> [] | Some xs \<Rightarrow> take policy_count xs);
          ls = (case leases of None \<Rightarrow> [] | Some xs \<Rightarrow> take lease_count xs)
      in if epoch = 0 then (ALLOC_ERROR, a)
         else if qa_synchronized a \<and> allocator_version_compare epoch sq (qa_epoch a) (qa_sequence a) \<le> 0 then (ALLOC_STALE, a)
         else if \<not> qa_synchronized a \<and> qa_required_epoch a \<noteq> 0
                 \<and> allocator_version_compare epoch sq (qa_required_epoch a) (qa_required_sequence a) < 0 then (ALLOC_STALE, a)
         else if \<not> allocator_policy_snapshot_valid policies policy_count (qa_max_tenants a)
                 \<or> \<not> allocator_snapshot_leases_valid totals_ok policies policy_count leases lease_count (qa_max_leases a) now
         then (ALLOC_ERROR, refused)
         else if \<not> tables_ok then (ALLOC_ERROR, refused)
         else (ALLOC_APPLIED,
               a\<lparr>qa_policies := map policy_slot_of ps @ replicate (qa_max_tenants a - length ps) zero_policy,
                 qa_leases := map issued_slot_of ls @ replicate (qa_max_leases a - length ls) zero_issued,
                 qa_synchronized := True, qa_epoch := epoch, qa_sequence := sq,
                 qa_required_epoch := 0, qa_required_sequence := 0\<rparr>))"

text \<open>The version checks that the incremental operations share, before they act on the pruned table.\<close>

definition at_next_version ::
  "quota_allocator \<Rightarrow> u64 \<Rightarrow> u64 \<Rightarrow> u64 \<Rightarrow> (quota_allocator \<Rightarrow> allocator_result \<times> quota_allocator) \<Rightarrow> allocator_result \<times> quota_allocator" where
  "at_next_version a epoch sq now act =
     (if \<not> qa_synchronized a then (ALLOC_UNKNOWN, allocator_require_snapshot a epoch sq)
      else if allocator_version_compare epoch sq (qa_epoch a) (qa_sequence a) \<le> 0 then (ALLOC_STALE, a)
      else case allocator_exact_next a epoch sq of
             (False, a') \<Rightarrow> (ALLOC_GAP, a')
           | (True, a') \<Rightarrow> act (allocator_prune_expired a' now))"

definition put_policy :: "u64 \<Rightarrow> quota_policy \<Rightarrow> quota_allocator \<Rightarrow> allocator_result \<times> quota_allocator" where
  "put_policy sq policy a =
     (let t = the (pol_tenant policy); committed = allocator_commitments_for_tenant a t None
      in if list_ex (\<lambda>r. committed ! r > ucast (pol_limits policy ! r)) [0..<QUOTA_RESOURCE_COUNT] then (ALLOC_OVERCOMMITTED, a)
         else case (case allocator_find_policy a t of
                      Some i \<Rightarrow> Some i
                    | None \<Rightarrow> first_below (qa_max_tenants a) (\<lambda>s. \<not> ps_occupied s) (qa_policies a)) of
                None \<Rightarrow> (ALLOC_LIMIT, a)
              | Some i \<Rightarrow>
                  let slot = qa_policies a ! i;
                      slot = (if \<not> ps_occupied slot then zero_policy\<lparr>ps_occupied := True, ps_tenant := t\<rparr> else slot)
                  in (ALLOC_APPLIED, a\<lparr>qa_policies := (qa_policies a)[i := slot\<lparr>ps_limits := pol_limits policy\<rparr>],
                                       qa_sequence := sq\<rparr>))"

definition quota_allocator_set_policy ::
  "quota_allocator \<Rightarrow> u64 \<Rightarrow> u64 \<Rightarrow> quota_policy \<Rightarrow> u64 \<Rightarrow> allocator_result \<times> quota_allocator" where
  "quota_allocator_set_policy a epoch sq policy now =
     (if \<not> allocator_policy_input_valid policy then (ALLOC_ERROR, a)
      else at_next_version a epoch sq now (put_policy sq policy))"

definition put_lease :: "u64 \<Rightarrow> quota_lease \<Rightarrow> quota_allocator \<Rightarrow> allocator_result \<times> quota_allocator" where
  "put_lease sq l a =
     (let t = the (ql_tenant l); n = the (ql_node l)
      in case allocator_find_policy a t of
           None \<Rightarrow> (ALLOC_NOT_FOUND, a)
         | Some k \<Rightarrow>
           (let slot = allocator_find_lease a t n; committed = allocator_commitments_for_tenant a t slot
            in if list_ex (\<lambda>r. committed ! r + ucast (ql_limits l ! r) > ucast (ps_limits (qa_policies a ! k) ! r)) [0..<QUOTA_RESOURCE_COUNT]
               then (ALLOC_OVERCOMMITTED, a)
               else case (case slot of
                            Some i \<Rightarrow> Some i
                          | None \<Rightarrow> first_below (qa_max_leases a) (\<lambda>s. \<not> is_occupied s) (qa_leases a)) of
                      None \<Rightarrow> (ALLOC_LIMIT, a)
                    | Some i \<Rightarrow> (ALLOC_APPLIED, a\<lparr>qa_leases := (qa_leases a)[i := issued_slot_of l], qa_sequence := sq\<rparr>)))"

definition quota_allocator_grant ::
  "quota_allocator \<Rightarrow> u64 \<Rightarrow> u64 \<Rightarrow> quota_lease \<Rightarrow> u64 \<Rightarrow> allocator_result \<times> quota_allocator" where
  "quota_allocator_grant a epoch sq l now =
     (if \<not> allocator_lease_input_valid l now then (ALLOC_ERROR, a)
      else at_next_version a epoch sq now (put_lease sq l))"

definition drop_lease :: "u64 \<Rightarrow> string \<Rightarrow> string \<Rightarrow> quota_allocator \<Rightarrow> allocator_result \<times> quota_allocator" where
  "drop_lease sq t n a =
     (case allocator_find_lease a t n of
        None \<Rightarrow> (ALLOC_NOT_FOUND, a)
      | Some i \<Rightarrow> (ALLOC_APPLIED, a\<lparr>qa_leases := (qa_leases a)[i := zero_issued], qa_sequence := sq\<rparr>))"

definition quota_allocator_revoke ::
  "quota_allocator \<Rightarrow> u64 \<Rightarrow> u64 \<Rightarrow> string option \<Rightarrow> string option \<Rightarrow> u64 \<Rightarrow> allocator_result \<times> quota_allocator" where
  "quota_allocator_revoke a epoch sq tenant_id node_id now =
     (if \<not> tenant_id_valid tenant_id \<or> \<not> node_id_valid node_id then (ALLOC_ERROR, a)
      else at_next_version a epoch sq now (drop_lease sq (the tenant_id) (the node_id)))"

text \<open>The result is the allocator and, when the call succeeds, the leases with the version; a call that fails for lack
  of capacity stores the count it needs, the other failures store nothing.\<close>

definition lease_of :: "issued_slot \<Rightarrow> quota_lease" where
  "lease_of s = \<lparr>ql_tenant = Some (is_tenant s), ql_node = Some (is_node s), ql_expires = is_expires s, ql_limits = is_limits s\<rparr>"

definition quota_allocator_build_node_snapshot ::
  "quota_allocator \<Rightarrow> string option \<Rightarrow> u64 \<Rightarrow> nat \<Rightarrow> quota_allocator \<times> (nat option + quota_lease list \<times> u64 \<times> u64)" where
  "quota_allocator_build_node_snapshot a node_id now capacity =
     (if \<not> node_id_valid node_id \<or> \<not> qa_synchronized a then (a, Inl None)
      else let a = allocator_prune_expired a now;
               slots = filter (\<lambda>s. is_occupied s \<and> is_node s = the node_id) (qa_leases a)
           in if length slots > capacity then (a, Inl (Some (length slots)))
              else (a, Inr (map lease_of slots, qa_epoch a, qa_sequence a)))"

definition quota_allocator_commitment ::
  "quota_allocator \<Rightarrow> string option \<Rightarrow> u64 \<Rightarrow> quota_allocator \<times> (u32 list \<times> u32 list) option" where
  "quota_allocator_commitment a tenant_id now =
     (if \<not> tenant_id_valid tenant_id \<or> \<not> qa_synchronized a then (a, None)
      else let a = allocator_prune_expired a now
           in case allocator_find_policy a (the tenant_id) of
                None \<Rightarrow> (a, None)
              | Some k \<Rightarrow>
                (let committed = allocator_commitments_for_tenant a (the tenant_id) None
                 in if list_ex (\<lambda>r. committed ! r > 0xFFFFFFFF) [0..<QUOTA_RESOURCE_COUNT] then (a, None)
                    else (a, Some (map (\<lambda>r. ps_limits (qa_policies a ! k) ! r) [0..<QUOTA_RESOURCE_COUNT],
                                   map (\<lambda>r. ucast (committed ! r)) [0..<QUOTA_RESOURCE_COUNT]))))"

definition quota_allocator_status :: "quota_allocator \<Rightarrow> bool \<times> u64 \<times> u64 \<times> nat \<times> nat" where
  "quota_allocator_status a = (qa_synchronized a, qa_epoch a, qa_sequence a,
     length (filter ps_occupied (qa_policies a)), length (filter is_occupied (qa_leases a)))"

section \<open>Sums of limits\<close>

definition share :: "string \<Rightarrow> nat \<Rightarrow> issued_slot \<Rightarrow> nat" where
  "share t r s = (if is_occupied s \<and> is_tenant s = t then unat (is_limits s ! r) else 0)"

definition issued :: "issued_slot list \<Rightarrow> string \<Rightarrow> nat \<Rightarrow> nat" where
  "issued ls t r = sum_list (map (share t r) ls)"

definition cap :: "quota_allocator \<Rightarrow> string \<Rightarrow> nat \<Rightarrow> nat" where
  "cap a t r = (case allocator_find_policy a t of None \<Rightarrow> 0 | Some k \<Rightarrow> unat (ps_limits (qa_policies a ! k) ! r))"

definition lease_key :: "issued_slot \<Rightarrow> string \<times> string" where
  "lease_key s = (is_tenant s, is_node s)"

definition issued_ok :: "issued_slot \<Rightarrow> bool" where
  "issued_ok s \<longleftrightarrow> (is_occupied s \<longrightarrow> tenant_id_valid (Some (is_tenant s)) \<and> node_id_valid (Some (is_node s)) \<and> is_expires s \<noteq> 0)"

definition keys_distinct :: "issued_slot list \<Rightarrow> bool" where
  "keys_distinct ls \<longleftrightarrow> distinct (map lease_key (filter is_occupied ls))"

definition alloc_inv :: "quota_allocator \<Rightarrow> bool" where
  "alloc_inv a \<longleftrightarrow> length (qa_policies a) = qa_max_tenants a \<and> length (qa_leases a) = qa_max_leases a
     \<and> qa_max_leases a \<le> 4096 \<and> (\<forall>t r. r < 5 \<longrightarrow> issued (qa_leases a) t r \<le> cap a t r)
     \<and> keys_distinct (qa_leases a) \<and> list_all issued_ok (qa_leases a)"

lemma unat_sum_u64:
  "sum_list (map unat xs) < 2 ^ 64 \<Longrightarrow> unat (sum_list (xs :: u64 list)) = sum_list (map unat xs)"
  by (induction xs) (auto simp: unat_word_ariths)

lemma sum_u32_bound: "sum_list (map (unat \<circ> f) xs) \<le> length xs * 2 ^ 32" for f :: "'a \<Rightarrow> u32"
proof (induction xs)
  case (Cons x xs)
  then show ?case using u32_unat_less [of "f x"] by simp
qed simp

lemma unat_sum_ucast:
  fixes f :: "'a \<Rightarrow> u32"
  assumes "length xs \<le> 4096"
  shows "unat (sum_list (map (\<lambda>x. ucast (f x) :: u64) xs)) = sum_list (map (unat \<circ> f) xs)"
proof -
  have "sum_list (map (unat \<circ> f) xs) \<le> 4096 * 2 ^ 32"
    using sum_u32_bound [of f xs] assms mult_le_mono1 [of "length xs" 4096 "2 ^ 32"] by linarith
  moreover have "map unat (map (\<lambda>x. ucast (f x) :: u64) xs) = map (unat \<circ> f) xs"
    by (simp add: unat_widen)
  ultimately show ?thesis using unat_sum_u64 [of "map (\<lambda>x. ucast (f x)) xs"] by (simp only:) simp
qed

text \<open>The sum without one slot, and how it changes when that slot is replaced.\<close>

definition others :: "issued_slot list \<Rightarrow> string \<Rightarrow> nat \<Rightarrow> nat \<Rightarrow> nat" where
  "others ls t r e = (\<Sum>i\<in>{0..<length ls} - {e}. share t r (ls ! i))"

lemma issued_sum: "issued ls t r = (\<Sum>i\<in>{0..<length ls}. share t r (ls ! i))"
  by (simp add: issued_def sum_list_sum_nth)

lemma issued_others: "e < length ls \<Longrightarrow> issued ls t r = others ls t r e + share t r (ls ! e)"
  unfolding issued_sum others_def by (simp add: sum.remove [of _ e] add.commute)

lemma issued_update: "e < length ls \<Longrightarrow> issued (ls[e := s]) t r = others ls t r e + share t r s"
  using issued_others [of e "ls[e := s]" t r] by (simp add: others_def)

lemma commitments:
  assumes "length (qa_leases a) = qa_max_leases a" "qa_max_leases a \<le> 4096" "r < 5"
  shows "unat (allocator_commitments_for_tenant a t None ! r) = issued (qa_leases a) t r"
    "unat (allocator_commitments_for_tenant a t (Some e) ! r) = others (qa_leases a) t r e"
proof -
  let ?ls = "qa_leases a"
  have c: "unat (allocator_commitments_for_tenant a t x ! r)
      = (\<Sum>i\<in>{i. i < length ?ls \<and> is_occupied (?ls ! i) \<and> x \<noteq> Some i \<and> is_tenant (?ls ! i) = t}. unat (is_limits (?ls ! i) ! r))" for x
  proof -
    let ?f = "filter (\<lambda>i. is_occupied (?ls ! i) \<and> x \<noteq> Some i \<and> is_tenant (?ls ! i) = t) [0..<qa_max_leases a]"
    have "length ?f \<le> 4096" using assms(2) by (intro order_trans [OF length_filter_le]) simp
    from unat_sum_ucast [OF this, of "\<lambda>i. is_limits (?ls ! i) ! r"]
    have "unat (allocator_commitments_for_tenant a t x ! r) = sum_list (map (\<lambda>i. unat (is_limits (?ls ! i) ! r)) ?f)"
      using assms(3) by (simp add: allocator_commitments_for_tenant_def comp_def)
    also have "\<dots> = sum (\<lambda>i. unat (is_limits (?ls ! i) ! r)) (set ?f)" by (rule sum_list_distinct_conv_sum_set) simp
    finally show ?thesis using assms(1) by (simp add: conj_commute Collect_conj_eq atLeast0LessThan lessThan_def)
  qed
  show "unat (allocator_commitments_for_tenant a t None ! r) = issued ?ls t r"
    unfolding c issued_sum by (intro sum.mono_neutral_cong_left) (auto simp: share_def)
  show "unat (allocator_commitments_for_tenant a t (Some e) ! r) = others ?ls t r e"
    unfolding c others_def by (intro sum.mono_neutral_cong_left) (auto simp: share_def)
qed

section \<open>Every operation keeps the invariant\<close>

lemma first_below_cong: "(\<And>i. i < n \<Longrightarrow> P (xs ! i) = Q (ys ! i)) \<Longrightarrow> first_below n P xs = first_below n Q ys"
  unfolding first_below_def by (rule find_cong) simp_all

lemma keys_distinct_update:
  assumes "keys_distinct ls" "i < length ls"
    and "\<And>j. j < length ls \<Longrightarrow> j \<noteq> i \<Longrightarrow> is_occupied (ls ! j) \<Longrightarrow> is_occupied s \<Longrightarrow> lease_key (ls ! j) \<noteq> lease_key s"
  shows "keys_distinct (ls[i := s])"
proof -
  have "lease_key x \<noteq> lease_key s" if "is_occupied s" "is_occupied x" "x \<in> set (take i ls) \<union> set (drop (Suc i) ls)" for x
  proof -
    from that(3) have "\<exists>j<length ls. j \<noteq> i \<and> x = ls ! j"
    proof
      assume "x \<in> set (take i ls)"
      then obtain k where "k < i" "x = ls ! k" using assms(2) by (auto simp: in_set_conv_nth)
      then show ?thesis using assms(2) by (intro exI [of _ k]) auto
    next
      assume "x \<in> set (drop (Suc i) ls)"
      then obtain k where "k < length ls - Suc i" "x = ls ! (Suc i + k)" by (auto simp: in_set_conv_nth)
      then show ?thesis by (intro exI [of _ "Suc i + k"]) auto
    qed
    with assms(3) that show ?thesis by blast
  qed
  moreover have "keys_distinct (take i ls @ ls ! i # drop (Suc i) ls)"
    using assms(1) by (simp add: id_take_nth_drop [OF assms(2), symmetric])
  ultimately show ?thesis
    unfolding keys_distinct_def upd_conv_take_nth_drop [OF assms(2)] by (auto split: if_splits) blast+
qed

lemma keys_distinct_nth:
  assumes "keys_distinct ls" "i < length ls" "j < length ls" "is_occupied (ls ! i)" "is_occupied (ls ! j)"
    "lease_key (ls ! i) = lease_key (ls ! j)"
  shows "i = j"
proof (rule ccontr)
  assume "i \<noteq> j"
  have split: "keys_distinct (take i ls @ ls ! i # drop (Suc i) ls)"
    using assms(1) by (simp add: id_take_nth_drop [OF assms(2), symmetric])
  have "ls ! j \<in> set (take i ls) \<union> set (drop (Suc i) ls)"
  proof (cases "j < i")
    case True
    then show ?thesis using assms(2) by (auto simp: in_set_conv_nth intro!: exI [of _ j])
  next
    case False
    with \<open>i \<noteq> j\<close> assms(3) show ?thesis by (auto simp: in_set_conv_nth intro!: exI [of _ "j - Suc i"])
  qed
  with split assms(4-6) show False by (auto simp: keys_distinct_def image_iff)
qed

lemma cap_cong: "qa_policies a' = qa_policies a \<Longrightarrow> qa_max_tenants a' = qa_max_tenants a \<Longrightarrow> cap a' t r = cap a t r"
  by (simp add: cap_def allocator_find_policy_def split: option.split)

lemma alloc_inv_cong:
  "alloc_inv a \<Longrightarrow> qa_policies a' = qa_policies a \<Longrightarrow> qa_leases a' = qa_leases a \<Longrightarrow> qa_max_tenants a' = qa_max_tenants a
   \<Longrightarrow> qa_max_leases a' = qa_max_leases a \<Longrightarrow> alloc_inv a'"
  by (simp add: alloc_inv_def cap_cong [of a' a])

lemma require_snapshot_inv: "alloc_inv a \<Longrightarrow> alloc_inv (allocator_require_snapshot a e q)"
  by (erule alloc_inv_cong) (simp_all add: allocator_require_snapshot_def Let_def)

text \<open>A table of leases that is smaller in every respect.\<close>

lemma leases_inv:
  assumes "alloc_inv a" "length ls = qa_max_leases a" "\<And>t r. r < 5 \<Longrightarrow> issued ls t r \<le> cap a t r" "keys_distinct ls" "list_all issued_ok ls"
  shows "alloc_inv (a\<lparr>qa_leases := ls\<rparr>)"
  using assms by (simp add: alloc_inv_def cap_cong [of "a\<lparr>qa_leases := ls\<rparr>" a])

lemma prune_inv: "alloc_inv a \<Longrightarrow> alloc_inv (allocator_prune_expired a now)"
proof -
  assume inv: "alloc_inv a"
  have "share t r (prune_slot now s) \<le> share t r s" for t r s by (simp add: share_def prune_slot_def zero_issued_def)
  then have "issued (map (prune_slot now) ls) t r \<le> issued ls t r" for ls t r
    by (induction ls) (simp_all add: issued_def add_mono)
  then have "issued (map (prune_slot now) (qa_leases a)) t r \<le> cap a t r" if "r < 5" for t r
    using inv that order_trans unfolding alloc_inv_def by blast
  moreover have "keys_distinct (map (prune_slot now) (qa_leases a))"
  proof -
    have "filter is_occupied (map (prune_slot now) ls) = filter (\<lambda>s. \<not> now \<ge> is_expires s) (filter is_occupied ls)" for ls
      by (induction ls) (auto simp: prune_slot_def zero_issued_def)
    moreover have "distinct (map lease_key (filter is_occupied (qa_leases a)))" using inv by (simp add: alloc_inv_def keys_distinct_def)
    ultimately show ?thesis unfolding keys_distinct_def by (metis distinct_map_filter)
  qed
  moreover have "list_all issued_ok (map (prune_slot now) (qa_leases a))"
    using inv by (auto simp: alloc_inv_def list_all_iff prune_slot_def issued_ok_def zero_issued_def)
  ultimately show ?thesis
    unfolding allocator_prune_expired_def using inv
    by (intro leases_inv) (auto simp: alloc_inv_def)
qed

lemma at_next_inv:
  assumes "alloc_inv a" "at_next_version a e q now act = (c, a')"
    and "\<And>b c a'. alloc_inv b \<Longrightarrow> act b = (c, a') \<Longrightarrow> alloc_inv a'"
  shows "alloc_inv a'"
  using assms(1,2) require_snapshot_inv [OF assms(1)] assms(3) [OF prune_inv [OF assms(1)]]
  by (auto simp: at_next_version_def allocator_exact_next_def split: if_splits)

lemma set_policy_cap:
  assumes "i < qa_max_tenants a" "length (qa_policies a) = qa_max_tenants a"
    and "allocator_find_policy a t = Some i
      \<or> allocator_find_policy a t = None \<and> \<not> ps_occupied (qa_policies a ! i)"
    and "ps_occupied s" "ps_tenant s = t"
  shows "cap (a\<lparr>qa_policies := (qa_policies a)[i := s]\<rparr>) t' r = (if t' = t then unat (ps_limits s ! r) else cap a t' r)"
proof -
  let ?b = "a\<lparr>qa_policies := (qa_policies a)[i := s]\<rparr>"
  have own: "ps_occupied (qa_policies a ! i) \<Longrightarrow> ps_tenant (qa_policies a ! i) = t"
    using assms(3) by (auto simp: allocator_find_policy_def dest!: first_below_Some)
  show ?thesis
  proof (cases "t' = t")
    case True
    have "\<not> (ps_occupied (qa_policies a ! j) \<and> ps_tenant (qa_policies a ! j) = t)" if "j < i" for j
    proof -
      have "j < qa_max_tenants a" using that assms(1) by simp
      with assms(3) that show ?thesis
        by (auto simp: allocator_find_policy_def first_below_None dest!: first_below_Some)
    qed
    then have "allocator_find_policy ?b t = Some i"
      unfolding allocator_find_policy_def using assms(1,2,4,5) by (intro first_below_eq_Some) auto
    with True assms(1,2) show ?thesis by (simp add: cap_def)
  next
    case False
    then have "allocator_find_policy ?b t' = allocator_find_policy a t'"
      unfolding allocator_find_policy_def using assms(1,2,5) own
      by simp (rule first_below_cong, auto simp: nth_list_update)
    moreover have "k \<noteq> i" if "allocator_find_policy a t' = Some k" for k
      using that own False by (auto simp: allocator_find_policy_def dest!: first_below_Some)
    ultimately show ?thesis using False by (auto simp: cap_def split: option.splits)
  qed
qed

lemma put_policy_inv:
  assumes "alloc_inv a" "put_policy sq p a = (c, a')"
  shows "alloc_inv a'"
proof (cases "c = ALLOC_APPLIED")
  case False
  with assms show ?thesis by (auto simp: put_policy_def Let_def split: if_splits option.splits)
next
  case True
  let ?t = "the (pol_tenant p)"
  from assms(2) True obtain i s where
    fits: "\<forall>r<5. \<not> allocator_commitments_for_tenant a ?t None ! r > ucast (pol_limits p ! r)"
    and i: "(case allocator_find_policy a ?t of Some i \<Rightarrow> Some i
        | None \<Rightarrow> first_below (qa_max_tenants a) (\<lambda>s. \<not> ps_occupied s) (qa_policies a)) = Some i"
    and a': "a' = a\<lparr>qa_policies := (qa_policies a)[i := s\<lparr>ps_limits := pol_limits p\<rparr>], qa_sequence := sq\<rparr>"
    and s: "s = (if \<not> ps_occupied (qa_policies a ! i) then zero_policy\<lparr>ps_occupied := True, ps_tenant := ?t\<rparr> else qa_policies a ! i)"
    unfolding put_policy_def Let_def by (auto simp: list_ex_iff split: if_splits option.splits)
  have where_i: "i < qa_max_tenants a" "allocator_find_policy a ?t = Some i \<or> allocator_find_policy a ?t = None \<and> \<not> ps_occupied (qa_policies a ! i)"
    using i by (auto simp: allocator_find_policy_def split: option.splits dest!: first_below_Some)
  then have s: "ps_occupied (s\<lparr>ps_limits := pol_limits p\<rparr>)" "ps_tenant (s\<lparr>ps_limits := pol_limits p\<rparr>) = ?t"
    unfolding s by (auto simp: allocator_find_policy_def dest!: first_below_Some)
  have l: "length (qa_policies a) = qa_max_tenants a" "length (qa_leases a) = qa_max_leases a" "qa_max_leases a \<le> 4096"
    using assms(1) by (simp_all add: alloc_inv_def)
  have "issued (qa_leases a) t r \<le> cap (a\<lparr>qa_policies := (qa_policies a)[i := s\<lparr>ps_limits := pol_limits p\<rparr>]\<rparr>) t r" if "r < 5" for t r
    unfolding set_policy_cap [OF where_i(1) l(1) where_i(2) s]
    using fits assms(1) that commitments(1) [OF l(2,3) that, of ?t]
    by (auto simp: alloc_inv_def word_less_nat_alt unat_widen not_less)
  with assms(1) have "alloc_inv (a\<lparr>qa_policies := (qa_policies a)[i := s\<lparr>ps_limits := pol_limits p\<rparr>]\<rparr>)" by (simp add: alloc_inv_def)
  then show ?thesis unfolding a' by (rule alloc_inv_cong) simp_all
qed

lemma set_policy_inv:
  "alloc_inv a \<Longrightarrow> quota_allocator_set_policy a e q p now = (c, a') \<Longrightarrow> alloc_inv a'"
  by (auto simp: quota_allocator_set_policy_def put_policy_inv elim: at_next_inv split: if_splits)

lemma grant_fits:
  assumes "alloc_inv a" "i < qa_max_leases a" "r < 5"
    and "slot = Some i \<or> slot = None \<and> \<not> is_occupied (qa_leases a ! i)"
    and "\<not> allocator_commitments_for_tenant a t slot ! r + ucast (x :: u32) > ucast (ps_limits (qa_policies a ! k) ! r)"
    and "allocator_find_policy a t = Some k"
  shows "others (qa_leases a) t r i + unat x \<le> cap a t r"
proof -
  have l: "length (qa_leases a) = qa_max_leases a" "qa_max_leases a \<le> 4096" "i < length (qa_leases a)"
    using assms(1,2) by (simp_all add: alloc_inv_def)
  have "unat (allocator_commitments_for_tenant a t slot ! r) = others (qa_leases a) t r i"
    using assms(4) commitments [OF l(1,2) assms(3), of t] issued_others [OF l(3), of t r] by (auto simp: share_def)
  moreover have "others (qa_leases a) t r i \<le> cap a t r"
    using assms(1,3) issued_others [OF l(3), of t r] by (metis alloc_inv_def add_leD1)
  moreover have "cap a t r = unat (ps_limits (qa_policies a ! k) ! r)" using assms(6) by (simp add: cap_def)
  moreover have "unat x < 4294967296" "unat (ps_limits (qa_policies a ! k) ! r) < 4294967296" by (rule u32_unat_less)+
  ultimately show ?thesis using assms(5) by (simp add: word_less_nat_alt unat_word_ariths unat_widen)
qed

lemma issued_slot_of_fields [simp]:
  "is_occupied (issued_slot_of l)" "is_tenant (issued_slot_of l) = the (ql_tenant l)" "is_node (issued_slot_of l) = the (ql_node l)"
  "is_limits (issued_slot_of l) = ql_limits l" "is_expires (issued_slot_of l) = ql_expires l"
  by (simp_all add: issued_slot_of_def)

lemma put_lease_inv:
  assumes "alloc_inv a" "put_lease sq l a = (c, a')" "allocator_lease_input_valid l now"
  shows "alloc_inv a'"
proof (cases "c = ALLOC_APPLIED")
  case False
  with assms show ?thesis by (auto simp: put_lease_def Let_def split: if_splits option.splits)
next
  case True
  let ?t = "the (ql_tenant l)" and ?n = "the (ql_node l)"
  let ?slot = "allocator_find_lease a ?t ?n"
  from assms(2) True obtain i k where k: "allocator_find_policy a ?t = Some k"
    and fits: "\<And>r. r < 5 \<Longrightarrow> \<not> allocator_commitments_for_tenant a ?t ?slot ! r + ucast (ql_limits l ! r) > ucast (ps_limits (qa_policies a ! k) ! r)"
    and i: "(case ?slot of Some i \<Rightarrow> Some i | None \<Rightarrow> first_below (qa_max_leases a) (\<lambda>s. \<not> is_occupied s) (qa_leases a)) = Some i"
    and a': "a' = a\<lparr>qa_leases := (qa_leases a)[i := issued_slot_of l], qa_sequence := sq\<rparr>"
    unfolding put_lease_def Let_def by (auto simp: list_ex_iff split: if_splits option.splits)
  have where_i: "i < qa_max_leases a" "?slot = Some i \<or> ?slot = None \<and> \<not> is_occupied (qa_leases a ! i)"
    using i by (auto simp: allocator_find_lease_def split: option.splits dest!: first_below_Some)
  have len: "length (qa_leases a) = qa_max_leases a" "i < length (qa_leases a)" using assms(1) where_i by (simp_all add: alloc_inv_def)
  have ok: "list_all issued_ok (qa_leases a)" "keys_distinct (qa_leases a)" using assms(1) by (simp_all add: alloc_inv_def)
  have "issued ((qa_leases a)[i := issued_slot_of l]) t r \<le> cap a t r" if "r < 5" for t r
  proof (cases "t = ?t")
    case True
    with grant_fits [OF assms(1) where_i(1) that where_i(2) fits [OF that] k] show ?thesis
      by (simp add: issued_update [OF len(2)] share_def)
  next
    case False
    have "issued (qa_leases a) t r \<le> cap a t r" using assms(1) that by (simp add: alloc_inv_def)
    with False issued_others [OF len(2), of t r] show ?thesis by (simp add: issued_update [OF len(2)] share_def)
  qed
  moreover have "keys_distinct ((qa_leases a)[i := issued_slot_of l])"
  proof (rule keys_distinct_update [OF ok(2) len(2)])
    fix j assume j: "j < length (qa_leases a)" "j \<noteq> i" "is_occupied (qa_leases a ! j)"
    show "lease_key (qa_leases a ! j) \<noteq> lease_key (issued_slot_of l)"
    proof
      assume e: "lease_key (qa_leases a ! j) = lease_key (issued_slot_of l)"
      with j len(1) have "?slot \<noteq> None" by (auto simp: allocator_find_lease_def first_below_None lease_key_def)
      with where_i(2) have "?slot = Some i" by simp
      then have "is_occupied (qa_leases a ! i)" "lease_key (qa_leases a ! i) = lease_key (issued_slot_of l)"
        by (auto simp: allocator_find_lease_def lease_key_def dest!: first_below_Some)
      with e j ok(2) len(2) show False by (metis keys_distinct_nth)
    qed
  qed
  moreover have "issued_ok (issued_slot_of l)"
    using assms(3) by (auto simp: issued_ok_def allocator_lease_input_valid_def tenant_id_valid_def node_id_valid_def
        quota_identifier_valid_def split: option.splits)
  then have "list_all issued_ok ((qa_leases a)[i := issued_slot_of l])"
    using ok(1) set_update_subset_insert [of "qa_leases a" i "issued_slot_of l"] by (auto simp: list_all_iff)
  ultimately have "alloc_inv (a\<lparr>qa_leases := (qa_leases a)[i := issued_slot_of l]\<rparr>)"
    using assms(1) len(1) by (intro leases_inv) simp_all
  then show ?thesis unfolding a' by (rule alloc_inv_cong) simp_all
qed

lemma grant_inv: "alloc_inv a \<Longrightarrow> quota_allocator_grant a e q l now = (c, a') \<Longrightarrow> alloc_inv a'"
  by (auto simp: quota_allocator_grant_def put_lease_inv elim: at_next_inv split: if_splits)

lemma drop_lease_inv:
  assumes "alloc_inv a" "drop_lease sq t n a = (c, a')"
  shows "alloc_inv a'"
proof (cases "allocator_find_lease a t n")
  case (Some i)
  then have i: "i < length (qa_leases a)" using assms(1) by (auto simp: allocator_find_lease_def alloc_inv_def dest!: first_below_Some)
  have "issued ((qa_leases a)[i := zero_issued]) t r \<le> cap a t r" if "r < 5" for t r
  proof -
    have "issued (qa_leases a) t r \<le> cap a t r" using assms(1) that by (simp add: alloc_inv_def)
    with issued_others [OF i, of t r] show ?thesis by (simp add: issued_update [OF i] share_def zero_issued_def)
  qed
  moreover have "keys_distinct ((qa_leases a)[i := zero_issued])"
    using assms(1) i by (intro keys_distinct_update) (simp_all add: alloc_inv_def zero_issued_def)
  moreover have "list_all issued_ok ((qa_leases a)[i := zero_issued])"
    using assms(1) set_update_subset_insert [of "qa_leases a" i zero_issued]
    by (auto simp: list_all_iff alloc_inv_def issued_ok_def zero_issued_def)
  ultimately have "alloc_inv (a\<lparr>qa_leases := (qa_leases a)[i := zero_issued]\<rparr>)"
    using assms(1) by (intro leases_inv) (simp_all add: alloc_inv_def)
  with assms(2) Some show ?thesis by (auto simp: drop_lease_def intro: alloc_inv_cong)
qed (use assms in \<open>simp add: drop_lease_def\<close>)

lemma revoke_inv: "alloc_inv a \<Longrightarrow> quota_allocator_revoke a e q t n now = (c, a') \<Longrightarrow> alloc_inv a'"
  by (auto simp: quota_allocator_revoke_def drop_lease_inv elim: at_next_inv split: if_splits)

section \<open>Snapshots\<close>

definition limits_of :: "quota_lease list \<Rightarrow> string \<Rightarrow> nat \<Rightarrow> nat" where
  "limits_of ls t r = sum_list (map (\<lambda>l. if ql_tenant l = Some t then unat (ql_limits l ! r) else 0) ls)"

lemma foldl_add_nth:
  fixes f :: "nat \<Rightarrow> u64"
  assumes "b + m \<le> length ts"
  shows "length (foldl (\<lambda>t r. t[b + r := t ! (b + r) + f r]) ts [0..<m]) = length ts
    \<and> foldl (\<lambda>t r. t[b + r := t ! (b + r) + f r]) ts [0..<m] ! j = (if b \<le> j \<and> j < b + m then ts ! j + f (j - b) else ts ! j)"
  using assms by (induction m) (auto simp: nth_list_update less_Suc_eq)

text \<open>The totals of the loop are the limits of the leases passed, tenant by tenant.\<close>

definition totals_ok :: "quota_policy list \<Rightarrow> nat \<Rightarrow> quota_lease list \<Rightarrow> u64 list \<Rightarrow> bool" where
  "totals_ok ps n before totals \<longleftrightarrow> length totals = n * 5
     \<and> (\<forall>t k r. allocator_input_policy_find ps n t = Some k \<longrightarrow> r < 5 \<longrightarrow>
          unat (totals ! (k * 5 + r)) = limits_of before t r \<and> limits_of before t r \<le> unat (pol_limits (ps ! k) ! r))"

lemma input_policy_find_Some:
  "allocator_input_policy_find ps n t = Some k \<Longrightarrow> k < n \<and> pol_tenant (ps ! k) = Some t"
  by (auto simp: allocator_input_policy_find_def dest!: first_below_Some)

lemma add_to_totals_ok:
  assumes "totals_ok ps n before totals" "allocator_input_policy_find ps n t = Some k" "ql_tenant l = Some t"
    and "add_to_totals totals k (ql_limits l) (pol_limits (ps ! k)) = Some totals'"
  shows "totals_ok ps n (before @ [l]) totals'"
proof -
  have k: "k < n" "pol_tenant (ps ! k) = Some t" using input_policy_find_Some [OF assms(2)] by simp_all
  have len: "length totals = n * 5" using assms(1) by (simp add: totals_ok_def)
  then have "k * 5 + 5 \<le> length totals" using k(1) by simp
  note f = foldl_add_nth [OF this, of "\<lambda>r. ucast (ql_limits l ! r)"]
  have t': "length totals' = n * 5"
    "\<And>j. totals' ! j = (if k * 5 \<le> j \<and> j < k * 5 + 5 then totals ! j + ucast (ql_limits l ! (j - k * 5)) else totals ! j)"
    "\<And>r. r < 5 \<Longrightarrow> \<not> totals' ! (k * 5 + r) > ucast (pol_limits (ps ! k) ! r)"
    using assms(4) f len by (auto simp: add_to_totals_def Let_def list_all_iff split: if_splits)
  have "unat (totals' ! (k' * 5 + r)) = limits_of (before @ [l]) t' r \<and> limits_of (before @ [l]) t' r \<le> unat (pol_limits (ps ! k') ! r)"
    if w: "allocator_input_policy_find ps n t' = Some k'" "r < 5" for t' k' r
  proof -
    have old: "unat (totals ! (k' * 5 + r)) = limits_of before t' r" "limits_of before t' r \<le> unat (pol_limits (ps ! k') ! r)"
      using assms(1) w by (simp_all add: totals_ok_def)
    show ?thesis
    proof (cases "t' = t")
      case True
      then have kk: "k' = k" using w(1) assms(2) by simp
      have "unat (totals' ! (k * 5 + r)) = limits_of before t r + unat (ql_limits l ! r)"
        using old True kk w(2) u32_unat_less [of "ql_limits l ! r"] u32_unat_less [of "pol_limits (ps ! k) ! r"]
        by (simp add: t'(2) unat_word_ariths unat_widen)
      with t'(3) [OF w(2)] show ?thesis
        using True kk assms(3) by (simp add: limits_of_def word_less_nat_alt unat_widen)
    next
      case False
      then have "k' \<noteq> k" using k(2) input_policy_find_Some [OF w(1)] by auto
      then have "\<not> (k * 5 \<le> k' * 5 + r \<and> k' * 5 + r < k * 5 + 5)" using w(2) by auto
      then have "totals' ! (k' * 5 + r) = totals ! (k' * 5 + r)" unfolding t'(2) by (rule if_not_P)
      with old False assms(3) show ?thesis by (simp add: limits_of_def)
    qed
  qed
  with t'(1) show ?thesis by (simp add: totals_ok_def)
qed

lemma leases_fit_sound:
  assumes "leases_fit ps n now before totals ls" "totals_ok ps n before totals"
  shows "(\<exists>totals'. totals_ok ps n (before @ ls) totals')
    \<and> (\<forall>l\<in>set ls. allocator_lease_input_valid l now \<and> allocator_input_policy_find ps n (the (ql_tenant l)) \<noteq> None)
    \<and> (distinct (map (\<lambda>l. (ql_tenant l, ql_node l)) before) \<longrightarrow> distinct (map (\<lambda>l. (ql_tenant l, ql_node l)) (before @ ls)))"
  using assms
proof (induction ls arbitrary: before totals)
  case (Cons l ls)
  from Cons.prems(1) obtain k totals' where v: "allocator_lease_input_valid l now"
      "\<not> list_ex (\<lambda>b. ql_tenant b = ql_tenant l \<and> ql_node b = ql_node l) before"
      "allocator_input_policy_find ps n (the (ql_tenant l)) = Some k"
      "add_to_totals totals k (ql_limits l) (pol_limits (ps ! k)) = Some totals'" "leases_fit ps n now (before @ [l]) totals' ls"
    by (auto split: if_splits option.splits)
  have "ql_tenant l = Some (the (ql_tenant l))" using v(1)
    by (auto simp: allocator_lease_input_valid_def tenant_id_valid_def quota_identifier_valid_def split: option.splits)
  from Cons.IH [OF v(5) add_to_totals_ok [OF Cons.prems(2) v(3) this v(4)]] v(1-3) show ?case
    by (auto simp: list_ex_iff)
qed auto

lemma first_below_extend:
  assumes "n \<le> m" "\<And>i. i < n \<Longrightarrow> P (ys ! i) = Q (xs ! i)" "\<And>i. n \<le> i \<Longrightarrow> i < m \<Longrightarrow> \<not> P (ys ! i)"
  shows "first_below m P ys = first_below n Q xs"
proof (cases "first_below n Q xs")
  case None
  then have "\<not> P (ys ! i)" if "i < m" for i using assms(2,3) that by (cases "i < n") (auto simp: first_below_None)
  then show ?thesis unfolding None by (simp add: first_below_None)
next
  case (Some k)
  from first_below_Some [OF this] have k: "k < n" "Q (xs ! k)" "\<forall>j<k. \<not> Q (xs ! j)" by auto
  show ?thesis unfolding Some
    using k assms(1,2) by (intro first_below_eq_Some) auto
qed

lemma lease_valid_ids:
  assumes "allocator_lease_input_valid l now"
  shows "ql_tenant l = Some (the (ql_tenant l))" "ql_node l = Some (the (ql_node l))" "issued_ok (issued_slot_of l)"
  using assms by (auto simp: allocator_lease_input_valid_def issued_ok_def tenant_id_valid_def node_id_valid_def
      quota_identifier_valid_def split: option.splits)

text \<open>The tables a snapshot installs: its policies are found where the input has them, and its leases sum up to the
  limits of the input.\<close>

definition policy_table :: "quota_policy list \<Rightarrow> nat \<Rightarrow> policy_slot list" where
  "policy_table ps m = map policy_slot_of ps @ replicate (m - length ps) zero_policy"

definition lease_table :: "quota_lease list \<Rightarrow> nat \<Rightarrow> issued_slot list" where
  "lease_table ls m = map issued_slot_of ls @ replicate (m - length ls) zero_issued"

lemma policy_table_find:
  assumes "list_all allocator_policy_input_valid ps" "length ps \<le> m"
  shows "first_below m (\<lambda>s. ps_occupied s \<and> ps_tenant s = t) (policy_table ps m) = allocator_input_policy_find ps (length ps) t"
  unfolding allocator_input_policy_find_def
proof (rule first_below_extend [OF assms(2)])
  fix i assume i: "i < length ps"
  then obtain x where "pol_tenant (ps ! i) = Some x"
    using assms(1) by (auto simp: list_all_length allocator_policy_input_valid_def tenant_id_valid_def quota_identifier_valid_def split: option.splits)
  with i show "(ps_occupied (policy_table ps m ! i) \<and> ps_tenant (policy_table ps m ! i) = t) = (pol_tenant (ps ! i) = Some t)"
    by (simp add: policy_table_def nth_append policy_slot_of_def)
qed (simp add: policy_table_def nth_append zero_policy_def)

lemma lease_table_issued:
  assumes "\<And>l. l \<in> set ls \<Longrightarrow> allocator_lease_input_valid l now"
  shows "issued (lease_table ls m) t r = limits_of ls t r"
proof -
  have "map (share t r) (map issued_slot_of ls) = map (\<lambda>l. if ql_tenant l = Some t then unat (ql_limits l ! r) else 0) ls"
    using assms lease_valid_ids(1) by (auto simp: share_def)
  then have "limits_of ls t r = sum_list (map (share t r) (map issued_slot_of ls))" by (simp only: limits_of_def)
  moreover have "share t r zero_issued = 0" by (simp add: share_def zero_issued_def)
  ultimately show ?thesis by (simp add: issued_def lease_table_def sum_list_replicate)
qed

lemma lease_table_keys:
  assumes "\<And>l. l \<in> set ls \<Longrightarrow> allocator_lease_input_valid l now" "distinct (map (\<lambda>l. (ql_tenant l, ql_node l)) ls)"
  shows "keys_distinct (lease_table ls m)" "list_all issued_ok (lease_table ls m)"
proof -
  have "lease_key (issued_slot_of x) = lease_key (issued_slot_of y) \<longleftrightarrow> (ql_tenant x, ql_node x) = (ql_tenant y, ql_node y)"
    if "x \<in> set ls" "y \<in> set ls" for x y
    using lease_valid_ids(1,2) [OF assms(1) [OF that(1)]] lease_valid_ids(1,2) [OF assms(1) [OF that(2)]]
    by (auto simp: lease_key_def)
  then have "distinct (map (lease_key \<circ> issued_slot_of) ls)" using assms(2) by (auto simp: distinct_map inj_on_def)
  then show "keys_distinct (lease_table ls m)" by (simp add: keys_distinct_def lease_table_def zero_issued_def)
  show "list_all issued_ok (lease_table ls m)"
    using assms(1) lease_valid_ids(3) by (auto simp: list_all_iff lease_table_def) (simp add: issued_ok_def zero_issued_def)
qed

lemma snapshot_tables_inv:
  assumes "leases_fit ps (length ps) now [] (replicate (length ps * 5) 0) ls" "length ls \<le> qa_max_leases a"
    and "length ps \<le> qa_max_tenants a" "qa_max_leases a \<le> 4096" "list_all allocator_policy_input_valid ps"
    and tables: "qa_policies a = policy_table ps (qa_max_tenants a)" "qa_leases a = lease_table ls (qa_max_leases a)"
  shows "alloc_inv a"
proof -
  have "totals_ok ps (length ps) [] (replicate (length ps * 5) 0)"
    by (auto simp: totals_ok_def limits_of_def dest!: input_policy_find_Some)
  from leases_fit_sound [OF assms(1) this] obtain totals where t: "totals_ok ps (length ps) ls totals"
    and v: "\<And>l. l \<in> set ls \<Longrightarrow> allocator_lease_input_valid l now" and d: "distinct (map (\<lambda>l. (ql_tenant l, ql_node l)) ls)"
    and f: "\<And>l. l \<in> set ls \<Longrightarrow> allocator_input_policy_find ps (length ps) (the (ql_tenant l)) \<noteq> None" by auto
  have "issued (qa_leases a) t r \<le> cap a t r" if "r < 5" for t r
  proof (cases "allocator_input_policy_find ps (length ps) t")
    case None
    then have "ql_tenant l \<noteq> Some t" if "l \<in> set ls" for l using f [OF that] by auto
    then have "limits_of ls t r = 0" by (auto simp: limits_of_def sum_list_eq_0_iff)
    then show ?thesis by (simp add: tables(2) lease_table_issued [OF v])
  next
    case (Some k)
    with t that have "limits_of ls t r \<le> unat (pol_limits (ps ! k) ! r)" by (simp add: totals_ok_def)
    moreover have "k < length ps" using input_policy_find_Some [OF Some] by simp
    moreover have "allocator_find_policy a t = Some k"
      unfolding allocator_find_policy_def tables policy_table_find [OF assms(5,3)] by (rule Some)
    ultimately show ?thesis
      by (simp add: tables lease_table_issued [OF v] cap_def) (simp add: policy_table_def nth_append policy_slot_of_def)
  qed
  with lease_table_keys [OF v d] assms(2-4) show ?thesis
    by (simp add: alloc_inv_def tables) (simp add: policy_table_def lease_table_def)
qed

lemma snapshot_inv:
  assumes "alloc_inv a" "quota_allocator_apply_snapshot b1 b2 a e q ps n ls m now = (c, a')"
    and "\<And>xs. ps = Some xs \<Longrightarrow> n = length xs" "\<And>xs. ls = Some xs \<Longrightarrow> m = length xs"
  shows "alloc_inv a'"
proof (cases "c = ALLOC_APPLIED")
  case False
  with assms(1,2) require_snapshot_inv [OF assms(1)] show ?thesis
    by (auto simp: quota_allocator_apply_snapshot_def Let_def split: if_splits)
next
  case True
  define xs where "xs = (case ps of None \<Rightarrow> [] | Some xs \<Rightarrow> xs)"
  define ys where "ys = (case ls of None \<Rightarrow> [] | Some ys \<Rightarrow> ys)"
  from True assms(2) have valid: "allocator_policy_snapshot_valid ps n (qa_max_tenants a)"
      "allocator_snapshot_leases_valid b1 ps n ls m (qa_max_leases a) now"
    and a': "a' = a\<lparr>qa_policies := map policy_slot_of (case ps of None \<Rightarrow> [] | Some xs \<Rightarrow> take n xs)
           @ replicate (qa_max_tenants a - length (case ps of None \<Rightarrow> [] | Some xs \<Rightarrow> take n xs)) zero_policy,
         qa_leases := map issued_slot_of (case ls of None \<Rightarrow> [] | Some xs \<Rightarrow> take m xs)
           @ replicate (qa_max_leases a - length (case ls of None \<Rightarrow> [] | Some xs \<Rightarrow> take m xs)) zero_issued,
         qa_synchronized := True, qa_epoch := e, qa_sequence := q, qa_required_epoch := 0, qa_required_sequence := 0\<rparr>"
    by (auto simp: quota_allocator_apply_snapshot_def Let_def split: if_splits)
  have n: "n = length xs" "m = length ys" "(case ps of None \<Rightarrow> [] | Some xs \<Rightarrow> take n xs) = xs" "(case ls of None \<Rightarrow> [] | Some xs \<Rightarrow> take m xs) = ys"
    using valid assms(3,4)
    by (auto simp: xs_def ys_def allocator_policy_snapshot_valid_def allocator_snapshot_leases_valid_def split: option.splits if_splits)
  have "list_all allocator_policy_input_valid xs" "length xs \<le> qa_max_tenants a"
    using valid(1) n(1) by (auto simp: allocator_policy_snapshot_valid_def list_all_length xs_def split: option.splits if_splits)
  moreover have "leases_fit xs (length xs) now [] (replicate (length xs * 5) 0) ys" "length ys \<le> qa_max_leases a"
    using valid(2) n by (auto simp: allocator_snapshot_leases_valid_def xs_def ys_def split: option.splits if_splits)
  moreover have "qa_policies a' = policy_table xs (qa_max_tenants a')" "qa_leases a' = lease_table ys (qa_max_leases a')"
    "qa_max_tenants a' = qa_max_tenants a" "qa_max_leases a' = qa_max_leases a"
    unfolding a' n(3,4) by (simp_all add: policy_table_def lease_table_def)
  moreover have "qa_max_leases a \<le> 4096" using assms(1) by (simp add: alloc_inv_def)
  ultimately show ?thesis by (intro snapshot_tables_inv) simp_all
qed

section \<open>Any sequence of operations\<close>

text \<open>An array argument is passed with its own length, a \<open>NULL\<close> pointer with any count.\<close>

datatype alloc_op =
    Restore bool bool u64 u64 "quota_policy list option" "quota_lease list option" nat u64
  | Set_Cap u64 u64 quota_policy u64
  | Grant u64 u64 quota_lease u64
  | Revoke u64 u64 "string option" "string option" u64
  | Build "string option" u64 nat
  | Query "string option" u64

fun alloc_exec :: "alloc_op \<Rightarrow> quota_allocator \<Rightarrow> quota_allocator" where
  "alloc_exec (Restore b1 b2 e q ps ls k now) a =
     snd (quota_allocator_apply_snapshot b1 b2 a e q ps (case ps of None \<Rightarrow> k | Some xs \<Rightarrow> length xs)
            ls (case ls of None \<Rightarrow> k | Some xs \<Rightarrow> length xs) now)"
| "alloc_exec (Set_Cap e q p now) a = snd (quota_allocator_set_policy a e q p now)"
| "alloc_exec (Grant e q l now) a = snd (quota_allocator_grant a e q l now)"
| "alloc_exec (Revoke e q t n now) a = snd (quota_allocator_revoke a e q t n now)"
| "alloc_exec (Build n now capacity) a = fst (quota_allocator_build_node_snapshot a n now capacity)"
| "alloc_exec (Query t now) a = fst (quota_allocator_commitment a t now)"

lemma alloc_exec_inv:
  assumes "alloc_inv a"
  shows "alloc_inv (alloc_exec op a)"
proof (cases op)
  case (Restore b1 b2 e q ps ls k now)
  then show ?thesis using snapshot_inv [OF assms prod.collapse [symmetric]] by (auto split: option.splits)
next
  case (Set_Cap e q p now)
  then show ?thesis using set_policy_inv [OF assms prod.collapse [symmetric]] by simp
next
  case (Grant e q l now)
  then show ?thesis using grant_inv [OF assms prod.collapse [symmetric]] by simp
next
  case (Revoke e q t n now)
  then show ?thesis using revoke_inv [OF assms prod.collapse [symmetric]] by simp
qed (use assms prune_inv [OF assms] in \<open>auto simp: quota_allocator_build_node_snapshot_def quota_allocator_commitment_def Let_def split: option.splits\<close>)

interpretation allocator: machine alloc_inv alloc_exec
  by unfold_locales (rule alloc_exec_inv)

lemma create_inv: "quota_allocator_create ok mt ml = Some a \<Longrightarrow> alloc_inv a"
proof -
  assume c: "quota_allocator_create ok mt ml = Some a"
  have "issued (replicate k zero_issued) t r = 0" for k t r by (induction k) (simp_all add: issued_def share_def zero_issued_def)
  with c show ?thesis
    by (auto simp: quota_allocator_create_def alloc_inv_def keys_distinct_def issued_ok_def list_all_iff split: if_splits)
      (simp_all add: zero_issued_def)
qed

section \<open>What the nodes may grant\<close>

definition node_limit :: "quota_projection \<Rightarrow> string \<Rightarrow> nat \<Rightarrow> nat" where
  "node_limit p t r = (case occ (qp_slots p) t of
     None \<Rightarrow> 0 | Some s \<Rightarrow> if qs_has_lease s then unat (qs_limits s ! r) else 0)"

definition node_issued :: "issued_slot list \<Rightarrow> string \<Rightarrow> string \<Rightarrow> nat \<Rightarrow> nat" where
  "node_issued ls n t r = sum_list (map (\<lambda>s. if is_node s = n then share t r s else 0) ls)"

lemma sum_nodes: "distinct ns \<Longrightarrow> sum_list (map (\<lambda>n. node_issued ls n t r) ns) \<le> issued ls t r"
proof (induction ls)
  case (Cons s ls)
  have "sum_list (map (\<lambda>n. if is_node s = n then share t r s else 0) ns) \<le> share t r s"
    using Cons.prems by (induction ns) (auto simp: sum_list_0)
  with Cons show ?case by (simp add: node_issued_def issued_def sum_list_addf)
qed (simp add: node_issued_def issued_def)

lemma built_leases:
  assumes "quota_allocator_build_node_snapshot a (Some n) now capacity = (a', Inr (ls, e, q))"
  shows "a' = allocator_prune_expired a now \<and> ls = map lease_of (filter (\<lambda>s. is_occupied s \<and> is_node s = n) (qa_leases a'))"
  using assms by (auto simp: quota_allocator_build_node_snapshot_def Let_def split: if_splits)

lemma applied_slots:
  assumes "quota_apply_snapshot ok p e q (Some ls) (length ls) = (APPLY_APPLIED, p')" "s \<in> set (qp_slots p')" "qs_has_lease s"
  shows "\<exists>l\<in>set ls. qs_limits s = ql_limits l \<and> qs_tenant s = the (ql_tenant l)"
proof -
  from assms(1) obtain keep k where "qp_slots p' = map (lease_slot (qp_slots p)) ls @ map drained_slot keep @ replicate k zero_slot"
    by (auto simp: quota_apply_snapshot_def Let_def split: if_splits)
  with assms(2,3) show ?thesis by (auto simp: drained_slot_def zero_slot_def)
qed

lemma node_limit_le:
  assumes "quota_allocator_build_node_snapshot a (Some n) now capacity = (a', Inr (ls, e, q))"
    and "quota_apply_snapshot ok p e q (Some ls) (length ls) = (APPLY_APPLIED, p')"
  shows "node_limit p' t r \<le> node_issued (qa_leases (allocator_prune_expired a now)) n t r"
proof (cases "\<exists>s. occ (qp_slots p') t = Some s \<and> qs_has_lease s")
  case True
  then obtain s where s: "occ (qp_slots p') t = Some s" "qs_has_lease s" by blast
  from occ_Some [OF s(1)] applied_slots [OF assms(2) _ s(2)] obtain l where l: "l \<in> set ls" "qs_limits s = ql_limits l" "the (ql_tenant l) = t"
    by auto
  with built_leases [OF assms(1)] obtain x where x: "x \<in> set (qa_leases (allocator_prune_expired a now))" "is_occupied x" "is_node x = n"
      "is_tenant x = t" "is_limits x = qs_limits s" by (auto simp: lease_of_def)
  let ?f = "\<lambda>s. if is_node s = n then share t r s else 0"
  have "?f x \<le> node_issued (qa_leases (allocator_prune_expired a now)) n t r"
    unfolding node_issued_def using x(1) by (intro member_le_sum_list) auto
  with x s show ?thesis by (simp add: node_limit_def share_def)
qed (auto simp: node_limit_def split: option.splits)

lemma built_snapshot_valid:
  assumes "alloc_inv a" "quota_allocator_build_node_snapshot a (Some n) now capacity = (a', Inr (ls, e, q))"
    and "qp_node p = n" "length ls \<le> qp_max_tenants p" "qp_max_tenants p \<le> 256"
  shows "quota_snapshot_valid p (Some ls) (length ls)"
proof -
  let ?xs = "filter (\<lambda>s. is_occupied s \<and> is_node s = n) (qa_leases a')"
  note b = built_leases [OF assms(2)]
  have inv: "keys_distinct (qa_leases a')" "list_all issued_ok (qa_leases a')"
    using prune_inv [OF assms(1), of now] b by (simp_all add: alloc_inv_def)
  have "distinct (map lease_key ?xs)"
    using inv(1) distinct_map_filter [of lease_key "filter is_occupied (qa_leases a')" "\<lambda>s. is_node s = n"]
    by (simp add: keys_distinct_def conj_commute)
  then have "distinct (map is_tenant ?xs)" by (auto simp: distinct_map inj_on_def lease_key_def)
  then have d: "distinct (map ql_tenant ls)" using b by (auto simp: distinct_map inj_on_def lease_of_def)
  have "quota_lease_valid p l" if "l \<in> set ls" for l
    using that b inv(2) assms(3) by (auto simp: quota_lease_valid_def lease_of_def list_all_iff issued_ok_def)
  with d assms(4,5) show ?thesis
    by (auto simp: quota_snapshot_valid_def list_all_iff distinct_conv_nth)
qed

section \<open>Properties\<close>

text \<open>A cap of five, a lease of three for one node, and a second lease of three that has to be refused.\<close>

definition sample_lease :: "string \<Rightarrow> quota_lease" where
  "sample_lease n = \<lparr>ql_tenant = Some ''a'', ql_node = Some n, ql_expires = 9, ql_limits = [3, 3, 3, 3, 3]\<rparr>"

definition sample_policy :: quota_policy where
  "sample_policy = \<lparr>pol_tenant = Some ''a'', pol_limits = [5, 5, 5, 5, 5]\<rparr>"

definition sample_restore :: alloc_op where
  "sample_restore = Restore True True 1 0 (Some [sample_policy]) None 0 0"

definition sample_grants :: "alloc_op list" where
  "sample_grants = [Grant 1 1 (sample_lease ''n1'') 2, Grant 1 2 (sample_lease ''n2'') 2]"

definition sample_restored :: quota_allocator where
  "sample_restored = \<lparr>qa_max_tenants = 1, qa_max_leases = 2, qa_policies = [policy_slot_of sample_policy],
     qa_leases = [zero_issued, zero_issued], qa_synchronized = True, qa_epoch = 1, qa_sequence = 0,
     qa_required_epoch = 0, qa_required_sequence = 0\<rparr>"

lemma sample_created:
  "\<exists>a0. quota_allocator_create True 1 2 = Some a0 \<and> fold alloc_exec (sample_restore # sample_grants) a0 = fold alloc_exec sample_grants sample_restored"
proof -
  have "tenant_id_valid (Some ''a'')" by code_simp
  moreover have "SIZE_MAX div 40 \<noteq> 0" by (simp add: SIZE_MAX_def)
  ultimately show ?thesis
    by (simp add: quota_allocator_create_def sample_restore_def quota_allocator_apply_snapshot_def allocator_policy_snapshot_valid_def
        allocator_snapshot_leases_valid_def allocator_policy_input_valid_def sample_policy_def sample_restored_def Let_def numeral_2_eq_2)
qed

text \<open>C29. The allocator never overcommits: over any sequence of snapshots, cap changes, grants, revocations and
  queries on a fresh allocator - with stale, skipped and malformed versions among them - the limits
  of all leases issued for a tenant, summed over the nodes, stay within the tenant's cap in every resource
  (a tenant without a policy has none).\<close>

theorem allocator_never_overcommits:
  assumes "quota_allocator_create ok mt ml = Some a0" "a = fold alloc_exec ops a0" "r < 5"
  shows "issued (qa_leases a) t r \<le> cap a t r"
  using allocator.run_inv [OF create_inv [OF assms(1)], of ops] assms(2,3) by (simp add: alloc_inv_def)

lemma allocator_never_overcommits_witness:
  "\<exists>a0 a. quota_allocator_create True 1 2 = Some a0 \<and> a = fold alloc_exec (sample_restore # sample_grants) a0
     \<and> map is_occupied (qa_leases a) = [True, False] \<and> issued (qa_leases a) ''a'' 1 \<le> 5"
proof -
  obtain a0 where c: "quota_allocator_create True 1 2 = Some a0"
      and a: "fold alloc_exec (sample_restore # sample_grants) a0 = fold alloc_exec sample_grants sample_restored"
    using sample_created by blast
  have "cap (fold alloc_exec sample_grants sample_restored) ''a'' 1 = 5"
    "map is_occupied (qa_leases (fold alloc_exec sample_grants sample_restored)) = [True, False]" by code_simp+
  with allocator_never_overcommits [OF c a [symmetric], of 1 "''a''"] c a show ?thesis by fastforce
qed

text \<open>C37. The fleet stays within the cap: whatever the history of the allocator, when the nodes' projections are given the
  snapshots it builds for them, none is refused as malformed, and what all the nodes that apply theirs
  may together grant to a tenant does not exceed the tenant's cap.\<close>

theorem fleet_within_cap:
  assumes "quota_allocator_create ok mt ml = Some a0" "a = fold alloc_exec ops a0" "distinct ns" "r < 5"
    and "\<And>n. n \<in> set ns \<Longrightarrow> quota_allocator_build_node_snapshot a (Some n) now capacity = (a', Inr (ls n, e, q))"
    and "\<And>n. n \<in> set ns \<Longrightarrow> qp_node (p n) = n \<and> length (ls n) \<le> qp_max_tenants (p n) \<and> qp_max_tenants (p n) \<le> 256"
    and "\<And>n. n \<in> set ns \<Longrightarrow> quota_apply_snapshot True (p n) e q (Some (ls n)) (length (ls n)) = (c n, p' n)"
  shows "(\<forall>n\<in>set ns. quota_snapshot_valid (p n) (Some (ls n)) (length (ls n)))
    \<and> sum_list (map (\<lambda>n. node_limit (p' n) t r) (filter (\<lambda>n. c n = APPLY_APPLIED) ns)) \<le> cap a t r"
proof (intro conjI ballI)
  have inv: "alloc_inv a" using allocator.run_inv [OF create_inv [OF assms(1)], of ops] assms(2) by simp
  show "quota_snapshot_valid (p n) (Some (ls n)) (length (ls n))" if "n \<in> set ns" for n
    using that assms(5-7) by (intro built_snapshot_valid [OF inv]) auto
  let ?ls = "qa_leases (allocator_prune_expired a now)"
  let ?ns = "filter (\<lambda>n. c n = APPLY_APPLIED) ns"
  have "sum_list (map (\<lambda>n. node_limit (p' n) t r) ?ns) \<le> sum_list (map (\<lambda>n. node_issued ?ls n t r) ?ns)"
  proof (rule sum_list_mono)
    fix n assume "n \<in> set ?ns"
    then show "node_limit (p' n) t r \<le> node_issued ?ls n t r"
      using node_limit_le [OF assms(5), of n True "p n" "p' n" t r] assms(7) [of n] by simp
  qed
  also have "\<dots> \<le> issued ?ls t r" using assms(3) by (intro sum_nodes) simp
  also have "\<dots> \<le> cap (allocator_prune_expired a now) t r" using prune_inv [OF inv, of now] assms(4) by (simp add: alloc_inv_def)
  also have "\<dots> = cap a t r" by (rule cap_cong) (simp_all add: allocator_prune_expired_def)
  finally show "sum_list (map (\<lambda>n. node_limit (p' n) t r) ?ns) \<le> cap a t r" .
qed

lemma fleet_within_cap_witness:
  "\<exists>a0 p. quota_allocator_create True 1 2 = Some a0 \<and> quota_projection_create True (Some ''n1'') 2 = Some p
     \<and> quota_snapshot_valid p (Some [sample_lease ''n1'']) 1
     \<and> node_limit (snd (quota_apply_snapshot True p 1 1 (Some [sample_lease ''n1'']) 1)) ''a'' 1 = 3
     \<and> node_limit (snd (quota_apply_snapshot True p 1 1 (Some [sample_lease ''n1'']) 1)) ''a'' 1
         \<le> cap (fold alloc_exec (sample_restore # sample_grants) a0) ''a'' 1"
proof -
  obtain a0 where c: "quota_allocator_create True 1 2 = Some a0"
      and a: "fold alloc_exec (sample_restore # sample_grants) a0 = fold alloc_exec sample_grants sample_restored"
    using sample_created by blast
  let ?p = "the (quota_projection_create True (Some ''n1'') 2)"
  let ?s = "quota_apply_snapshot True ?p 1 1 (Some [sample_lease ''n1'']) 1"
  let ?b = "quota_allocator_build_node_snapshot (fold alloc_exec sample_grants sample_restored) (Some ''n1'') 2 4"
  have d: "quota_projection_create True (Some ''n1'') 2 = Some ?p" by code_simp
  have b: "snd ?b = Inr ([sample_lease ''n1''], 1, 1)" by code_simp
  have q: "qp_node ?p = ''n1''" "qp_max_tenants ?p = 2" "fst ?s = APPLY_APPLIED" by code_simp+
  have l: "node_limit (snd ?s) ''a'' 1 = 3" by code_simp
  from b have b: "?b = (fst ?b, Inr ([sample_lease ''n1''], 1, 1))" by (metis prod.collapse)
  have s: "?s = (APPLY_APPLIED, snd ?s)" using q(3) by (metis prod.collapse)
  have "quota_snapshot_valid ?p (Some [sample_lease ''n1'']) 1
      \<and> node_limit (snd ?s) ''a'' 1 \<le> cap (fold alloc_exec (sample_restore # sample_grants) a0) ''a'' 1"
    using fleet_within_cap [OF c refl, of "[''n1'']" 1 "sample_restore # sample_grants" 2 4 "fst ?b" "\<lambda>_. [sample_lease ''n1'']"
        1 1 "\<lambda>_. ?p" "\<lambda>_. APPLY_APPLIED" "\<lambda>_. snd ?s" "''a''"] b s q(1,2) unfolding a by simp
  with c d l show ?thesis by blast
qed

end
