(* ===== verification/Sfu.thy ===== *)
theory Sfu
  imports Nack
begin

text \<open>
  The selective forwarding unit (\<open>webrtc/src/sfu/turbo_sfu.c\<close>): a conference of up to fifty participants, each
  with up to four published streams of up to three simulcast layers, and the routing of every RTP
  packet to the receivers whose policy and bandwidth select its layer.

  The fixed arrays of the C structures are lists of the same length.  A registered callback with its
  user data is a token (\<open>None\<close> for \<open>NULL\<close>), and a call of it an output; callbacks do not call back into
  the unit.  A \<open>simulcast_layer_t\<close> is its number, as the code compares and indexes with it.  The clock
  is an argument; \<open>int\<close> and \<open>int64_t\<close> values are integers, far from their bounds.

  Shown here: the structural invariant and that every operation keeps it; which receivers get a
  packet, and that a receiver never sees a layer above its policy or its bandwidth; that upward
  switches wait for the hysteresis; and two defects of the participant table - departures strand
  later participants, and a slot's next owner inherits the policies of the previous one.
\<close>

section \<open>State\<close>

definition SFU_MAX_PARTICIPANTS :: nat where [simp]: "SFU_MAX_PARTICIPANTS = 50"
definition SFU_MAX_STREAMS_PER_PARTICIPANT :: nat where [simp]: "SFU_MAX_STREAMS_PER_PARTICIPANT = 4"
definition SFU_LAYER_SWITCH_HYSTERESIS_MS :: int where [simp]: "SFU_LAYER_SWITCH_HYSTERESIS_MS = 2000"

type_synonym simulcast_layer = nat
type_synonym callback = nat

definition LAYER_LOW :: simulcast_layer where [simp]: "LAYER_LOW = 0"
definition LAYER_MEDIUM :: simulcast_layer where [simp]: "LAYER_MEDIUM = 1"
definition LAYER_HIGH :: simulcast_layer where [simp]: "LAYER_HIGH = 2"

record sfu_stream =
  sm_ssrc :: u32
  sm_active :: bool
  sm_layer_ssrcs :: "u32 list"
  sm_layer_count :: nat
  sm_current :: "simulcast_layer list"
  sm_last_switch :: "int list"
  sm_enabled :: "bool list"
  sm_max_layer :: "simulcast_layer list"
  sm_packets_received :: int
  sm_bytes_received :: int
  sm_packets_forwarded :: int
  sm_bytes_forwarded :: int

record sfu_participant =
  pa_id :: string
  pa_active :: bool
  pa_streams :: "sfu_stream list"
  pa_stream_count :: nat
  pa_bandwidth :: int
  pa_last_update :: int
  pa_packets_sent :: int
  pa_bytes_sent :: int
  pa_packets_received :: int
  pa_bytes_received :: int
  pa_on_packet :: "callback option"
  pa_on_keyframe :: "callback option"

record sfu_context =
  sf_participants :: "sfu_participant list"
  sf_count :: nat
  sf_max_participants :: nat
  sf_simulcast :: bool
  sf_adaptation :: bool
  sf_packets_routed :: int
  sf_bytes_routed :: int
  sf_layer_switches :: int
  sf_on_joined :: "callback option"
  sf_on_left :: "callback option"

datatype sfu_out =
    To_Receiver callback bytes
  | Keyframe callback u32
  | Joined callback string
  | Left callback string

definition zero_stream :: sfu_stream where
  "zero_stream = \<lparr>sm_ssrc = 0, sm_active = False, sm_layer_ssrcs = replicate 3 0, sm_layer_count = 0,
     sm_current = replicate 50 0, sm_last_switch = replicate 50 0, sm_enabled = replicate 50 False,
     sm_max_layer = replicate 50 0, sm_packets_received = 0, sm_bytes_received = 0,
     sm_packets_forwarded = 0, sm_bytes_forwarded = 0\<rparr>"

definition zero_participant :: sfu_participant where
  "zero_participant = \<lparr>pa_id = [], pa_active = False, pa_streams = replicate 4 zero_stream, pa_stream_count = 0,
     pa_bandwidth = 0, pa_last_update = 0, pa_packets_sent = 0, pa_bytes_sent = 0, pa_packets_received = 0,
     pa_bytes_received = 0, pa_on_packet = None, pa_on_keyframe = None\<rparr>"

section \<open>Participants\<close>

definition sfu_create :: "bool \<Rightarrow> int \<Rightarrow> sfu_context option" where
  "sfu_create alloc_ok max_participants =
     (if \<not> alloc_ok then None
      else Some \<lparr>sf_participants = replicate SFU_MAX_PARTICIPANTS zero_participant, sf_count = 0,
        sf_max_participants = (if max_participants > 0 \<and> max_participants \<le> int SFU_MAX_PARTICIPANTS
                               then nat max_participants else SFU_MAX_PARTICIPANTS),
        sf_simulcast = True, sf_adaptation = True, sf_packets_routed = 0, sf_bytes_routed = 0,
        sf_layer_switches = 0, sf_on_joined = None, sf_on_left = None\<rparr>)"

definition is_participant :: "string \<Rightarrow> sfu_participant \<Rightarrow> bool" where
  "is_participant pid p \<longleftrightarrow> pa_active p \<and> pa_id p = pid"

definition find_participant :: "sfu_context \<Rightarrow> string \<Rightarrow> nat option" where
  "find_participant sfu pid = first_below (sf_count sfu) (is_participant pid) (sf_participants sfu)"

definition get_participant_index :: "sfu_context \<Rightarrow> string \<Rightarrow> nat option" where
  "get_participant_index sfu pid = first_below SFU_MAX_PARTICIPANTS (is_participant pid) (sf_participants sfu)"

definition free_participant_slot :: "sfu_context \<Rightarrow> nat option" where
  "free_participant_slot sfu = first_below SFU_MAX_PARTICIPANTS (\<lambda>p. \<not> pa_active p) (sf_participants sfu)"

definition on_callback :: "(callback \<Rightarrow> 'o) \<Rightarrow> callback option \<Rightarrow> 'o list" where
  "on_callback f cb = (case cb of None \<Rightarrow> [] | Some c \<Rightarrow> [f c])"

definition set_participant :: "nat \<Rightarrow> sfu_participant \<Rightarrow> sfu_context \<Rightarrow> sfu_context" where
  "set_participant i p sfu = sfu\<lparr>sf_participants := (sf_participants sfu)[i := p]\<rparr>"

definition sfu_add_participant :: "sfu_context \<Rightarrow> string option \<Rightarrow> int \<times> sfu_context \<times> sfu_out list" where
  "sfu_add_participant sfu participant_id =
     (case participant_id of
        None \<Rightarrow> (- 1, sfu, [])
      | Some pid \<Rightarrow>
        if pid = [] \<or> length pid \<ge> 64 then (- 1, sfu, [])
        else if find_participant sfu pid \<noteq> None then (- 1, sfu, [])
        else if sf_count sfu \<ge> sf_max_participants sfu then (- 1, sfu, [])
        else case free_participant_slot sfu of
               None \<Rightarrow> (- 1, sfu, [])
             | Some i \<Rightarrow>
               (0, (set_participant i (zero_participant\<lparr>pa_id := pid, pa_active := True, pa_bandwidth := 2500000\<rparr>) sfu)
                     \<lparr>sf_count := sf_count sfu + 1\<rparr>,
                on_callback (\<lambda>c. Joined c pid) (sf_on_joined sfu)))"

text \<open>The operations on a named participant: refused without one, else the update at its slot.\<close>

definition on_participant ::
  "sfu_context \<Rightarrow> string option \<Rightarrow> (nat \<Rightarrow> sfu_participant \<Rightarrow> int \<times> sfu_context \<times> sfu_out list)
     \<Rightarrow> int \<times> sfu_context \<times> sfu_out list" where
  "on_participant sfu participant_id act =
     (case participant_id of
        None \<Rightarrow> (- 1, sfu, [])
      | Some pid \<Rightarrow> (case find_participant sfu pid of
                       None \<Rightarrow> (- 1, sfu, [])
                     | Some i \<Rightarrow> act i (sf_participants sfu ! i)))"

definition sfu_remove_participant :: "sfu_context \<Rightarrow> string option \<Rightarrow> int \<times> sfu_context \<times> sfu_out list" where
  "sfu_remove_participant sfu participant_id =
     on_participant sfu participant_id (\<lambda>i p.
       (0, (set_participant i (p\<lparr>pa_active := False\<rparr>) sfu)\<lparr>sf_count := sf_count sfu - 1\<rparr>,
        on_callback (\<lambda>c. Left c (the participant_id)) (sf_on_left sfu)))"

definition sfu_set_participant_bandwidth :: "sfu_context \<Rightarrow> string option \<Rightarrow> int \<Rightarrow> int \<Rightarrow> sfu_context" where
  "sfu_set_participant_bandwidth sfu participant_id bandwidth_bps now_us =
     fst (snd (on_participant sfu participant_id (\<lambda>i p.
       (0, set_participant i (p\<lparr>pa_bandwidth := bandwidth_bps, pa_last_update := now_us\<rparr>) sfu, []))))"

definition sfu_set_participant_callback :: "sfu_context \<Rightarrow> string option \<Rightarrow> callback option \<Rightarrow> sfu_context" where
  "sfu_set_participant_callback sfu participant_id cb =
     fst (snd (on_participant sfu participant_id (\<lambda>i p.
       (0, set_participant i (p\<lparr>pa_on_packet := cb\<rparr>) sfu, []))))"

definition sfu_set_participant_keyframe_callback :: "sfu_context \<Rightarrow> string option \<Rightarrow> callback option \<Rightarrow> sfu_context" where
  "sfu_set_participant_keyframe_callback sfu participant_id cb =
     fst (snd (on_participant sfu participant_id (\<lambda>i p.
       (0, set_participant i (p\<lparr>pa_on_keyframe := cb\<rparr>) sfu, []))))"

section \<open>Streams and layers\<close>

text \<open>\<open>layer_ssrcs\<close> holds at least \<open>layer_count\<close> entries, as the caller promises.\<close>

definition new_stream :: "u32 \<Rightarrow> u32 list option \<Rightarrow> int \<Rightarrow> sfu_stream" where
  "new_stream ssrc layer_ssrcs layer_count =
     (let s = zero_stream\<lparr>sm_ssrc := ssrc, sm_active := True,
                sm_current := replicate SFU_MAX_PARTICIPANTS LAYER_HIGH,
                sm_last_switch := replicate SFU_MAX_PARTICIPANTS 0,
                sm_enabled := replicate SFU_MAX_PARTICIPANTS True,
                sm_max_layer := replicate SFU_MAX_PARTICIPANTS LAYER_HIGH\<rparr>
      in if layer_ssrcs \<noteq> None \<and> layer_count > 0 \<and> layer_count \<le> 3
         then s\<lparr>sm_layer_count := nat layer_count,
                sm_layer_ssrcs := map (\<lambda>i. if i < nat layer_count then the layer_ssrcs ! i else 0) [0..<3]\<rparr>
         else s\<lparr>sm_layer_count := 1, sm_layer_ssrcs := (sm_layer_ssrcs s)[0 := ssrc]\<rparr>)"

definition sfu_add_stream ::
  "sfu_context \<Rightarrow> string option \<Rightarrow> u32 \<Rightarrow> u32 list option \<Rightarrow> int \<Rightarrow> int \<times> sfu_context" where
  "sfu_add_stream sfu participant_id ssrc layer_ssrcs layer_count =
     (case on_participant sfu participant_id (\<lambda>i p.
        if pa_stream_count p \<ge> SFU_MAX_STREAMS_PER_PARTICIPANT then (- 1, sfu, [])
        else (0, set_participant i (p\<lparr>pa_streams := (pa_streams p)[pa_stream_count p := new_stream ssrc layer_ssrcs layer_count],
                                      pa_stream_count := pa_stream_count p + 1\<rparr>) sfu, []))
      of (rc, sfu', _) \<Rightarrow> (rc, sfu'))"

definition select_layer_for_bandwidth :: "int \<Rightarrow> simulcast_layer" where
  "select_layer_for_bandwidth bandwidth_bps =
     (if bandwidth_bps \<ge> 2000000 then LAYER_HIGH
      else if bandwidth_bps \<ge> 1000000 then LAYER_MEDIUM
      else if bandwidth_bps \<ge> 300000 then LAYER_LOW
      else LAYER_LOW)"

definition should_switch_layer :: "sfu_stream \<Rightarrow> nat \<Rightarrow> simulcast_layer \<Rightarrow> int \<Rightarrow> bool" where
  "should_switch_layer stream receiver_index new_layer now_us =
     (let current_layer = sm_current stream ! receiver_index; last_switch_us = sm_last_switch stream ! receiver_index
      in if new_layer = current_layer then False
         else if new_layer < current_layer then True
         else if now_us - last_switch_us < SFU_LAYER_SWITCH_HYSTERESIS_MS * 1000 then False
         else True)"

definition stream_matches :: "u32 \<Rightarrow> sfu_stream \<Rightarrow> bool" where
  "stream_matches ssrc s \<longleftrightarrow>
     (if \<not> sm_active s then False
      else if sm_ssrc s = ssrc then True
      else list_ex (\<lambda>j. sm_layer_ssrcs s ! j = ssrc) [0..<sm_layer_count s])"

definition find_stream_by_ssrc :: "sfu_participant \<Rightarrow> u32 \<Rightarrow> nat option" where
  "find_stream_by_ssrc p ssrc = first_below (pa_stream_count p) (stream_matches ssrc) (pa_streams p)"

definition set_stream :: "nat \<Rightarrow> sfu_stream \<Rightarrow> sfu_participant \<Rightarrow> sfu_participant" where
  "set_stream k s p = p\<lparr>pa_streams := (pa_streams p)[k := s]\<rparr>"

definition sfu_set_receiver_stream_policy ::
  "sfu_context \<Rightarrow> string option \<Rightarrow> string option \<Rightarrow> u32 \<Rightarrow> bool \<Rightarrow> int \<Rightarrow> int \<times> sfu_context" where
  "sfu_set_receiver_stream_policy sfu receiver_id sender_id stream_ssrc enabled max_layer =
     (if receiver_id = None \<or> sender_id = None \<or> max_layer < 0 \<or> max_layer > 2 then (- 1, sfu)
      else case (get_participant_index sfu (the receiver_id), find_participant sfu (the sender_id)) of
        (Some r, Some i) \<Rightarrow>
          (let sender = sf_participants sfu ! i
           in case find_stream_by_ssrc sender stream_ssrc of
                None \<Rightarrow> (- 1, sfu)
              | Some k \<Rightarrow>
                let s = pa_streams sender ! k
                in (0, set_participant i (set_stream k
                         (s\<lparr>sm_enabled := (sm_enabled s)[r := enabled],
                            sm_max_layer := (sm_max_layer s)[r := nat max_layer]\<rparr>) sender) sfu))
      | _ \<Rightarrow> (- 1, sfu))"

text \<open>Removing stream \<open>k\<close>: the streams behind it move down one place and the last place is cleared.\<close>

definition drop_stream :: "nat \<Rightarrow> sfu_participant \<Rightarrow> sfu_participant" where
  "drop_stream k p =
     (let n = pa_stream_count p; ss = pa_streams p;
          ss = (if k + 1 < n then mem_write ss k (take (n - k - 1) (drop (k + 1) ss)) else ss)
      in p\<lparr>pa_streams := ss[n - 1 := zero_stream], pa_stream_count := n - 1\<rparr>)"

definition sfu_remove_stream :: "sfu_context \<Rightarrow> string option \<Rightarrow> u32 \<Rightarrow> int \<times> sfu_context" where
  "sfu_remove_stream sfu participant_id ssrc =
     (case on_participant sfu participant_id (\<lambda>i p.
        case first_below (pa_stream_count p) (\<lambda>s. \<not> (\<not> sm_active s \<or> sm_ssrc s \<noteq> ssrc)) (pa_streams p) of
          None \<Rightarrow> (- 1, sfu, [])
        | Some k \<Rightarrow> (0, set_participant i (drop_stream k p) sfu, []))
      of (rc, sfu', _) \<Rightarrow> (rc, sfu'))"

section \<open>Forwarding\<close>

definition parse_rtp_ssrc :: "bytes \<Rightarrow> u32 option" where
  "parse_rtp_ssrc packet =
     (if length packet < 12 then None
      else if packet ! 0 AND 0xC0 \<noteq> 0x80 then None
      else Some (read_u32 packet 8))"

definition target_layer :: "bool \<Rightarrow> sfu_stream \<Rightarrow> nat \<Rightarrow> sfu_participant \<Rightarrow> simulcast_layer" where
  "target_layer adaptation stream i receiver =
     (let target = (if adaptation \<and> sm_layer_count stream > 1
                    then select_layer_for_bandwidth (pa_bandwidth receiver) else LAYER_HIGH)
      in if sm_layer_count stream > 1
         then let highest = sm_layer_count stream - 1;
                  max_allowed = (if sm_max_layer stream ! i > highest then highest else sm_max_layer stream ! i)
              in if target > max_allowed then max_allowed else target
         else target)"

text \<open>One turn of the loop: the receiver at slot \<open>i\<close> (not the sender's), the stream's record of it,
  the layer switches and the number of packets forwarded, with the callbacks called.\<close>

definition forward_to ::
  "bool \<Rightarrow> callback option \<Rightarrow> u32 \<Rightarrow> bytes \<Rightarrow> int \<Rightarrow> nat \<Rightarrow> sfu_participant \<Rightarrow> sfu_stream
     \<Rightarrow> sfu_participant \<times> sfu_stream \<times> int \<times> int \<times> sfu_out list" where
  "forward_to adaptation on_keyframe ssrc packet now_us i receiver stream =
     (if \<not> pa_active receiver \<or> pa_on_packet receiver = None \<or> \<not> sm_enabled stream ! i
      then (receiver, stream, 0, 0, [])
      else
        let target = target_layer adaptation stream i receiver;
            switch = (sm_layer_count stream > 1 \<and> should_switch_layer stream i target now_us);
            stream = (if switch then stream\<lparr>sm_current := (sm_current stream)[i := target],
                                            sm_last_switch := (sm_last_switch stream)[i := now_us]\<rparr> else stream);
            requests = (if switch then on_callback (\<lambda>c. Keyframe c (sm_layer_ssrcs stream ! target)) on_keyframe else []);
            should_forward = (if sm_layer_count stream = 1 then True
                              else ssrc = sm_layer_ssrcs stream ! (sm_current stream ! i));
            len = int (length packet)
        in if should_forward
           then (receiver\<lparr>pa_packets_sent := pa_packets_sent receiver + 1, pa_bytes_sent := pa_bytes_sent receiver + len\<rparr>,
                 stream\<lparr>sm_packets_forwarded := sm_packets_forwarded stream + 1,
                        sm_bytes_forwarded := sm_bytes_forwarded stream + len\<rparr>,
                 of_bool switch, 1, requests @ [To_Receiver (the (pa_on_packet receiver)) packet])
           else (receiver, stream, of_bool switch, 0, requests))"

text \<open>The loop over the participant slots from \<open>i\<close> on.  The sender's slot \<open>si\<close> is skipped, so the
  stream - which lives in that slot - can be carried beside the participants.\<close>

fun forward_loop ::
  "bool \<Rightarrow> callback option \<Rightarrow> u32 \<Rightarrow> bytes \<Rightarrow> int \<Rightarrow> nat \<Rightarrow> nat \<Rightarrow> sfu_participant list \<Rightarrow> sfu_stream
     \<Rightarrow> sfu_participant list \<times> sfu_stream \<times> int \<times> int \<times> sfu_out list" where
  "forward_loop adaptation kf ssrc packet now_us si i [] stream = ([], stream, 0, 0, [])"
| "forward_loop adaptation kf ssrc packet now_us si i (p # ps) stream =
     (let (p', stream1, sw, fw, outs) =
            (if i = si then (p, stream, 0, 0, []) else forward_to adaptation kf ssrc packet now_us i p stream);
          (ps', stream2, sw', fw', outs') = forward_loop adaptation kf ssrc packet now_us si (i + 1) ps stream1
      in (p' # ps', stream2, sw + sw', fw + fw', outs @ outs'))"

definition sfu_forward_packet ::
  "sfu_context \<Rightarrow> string option \<Rightarrow> bytes option \<Rightarrow> int \<Rightarrow> int \<times> sfu_context \<times> sfu_out list" where
  "sfu_forward_packet sfu sender_id pkt now_us =
     (if sender_id = None \<or> pkt = None \<or> length (the pkt) < 12 then (- 1, sfu, [])
      else let packet = the pkt in
        case find_participant sfu (the sender_id) of
          None \<Rightarrow> (- 1, sfu, [])
        | Some si \<Rightarrow>
          case parse_rtp_ssrc packet of
            None \<Rightarrow> (- 1, sfu, [])
          | Some ssrc \<Rightarrow>
            let sender = sf_participants sfu ! si in
            case find_stream_by_ssrc sender ssrc of
              None \<Rightarrow> (- 1, sfu, [])
            | Some k \<Rightarrow>
              let len = int (length packet); stream = pa_streams sender ! k;
                  stream = stream\<lparr>sm_packets_received := sm_packets_received stream + 1,
                                  sm_bytes_received := sm_bytes_received stream + len\<rparr>;
                  sender = sender\<lparr>pa_packets_received := pa_packets_received sender + 1,
                                  pa_bytes_received := pa_bytes_received sender + len\<rparr>;
                  (ps, stream, switches, forwarded, outs) =
                    forward_loop (sf_adaptation sfu) (pa_on_keyframe sender) ssrc packet now_us si 0
                      (sf_participants sfu) stream
              in (forwarded,
                  sfu\<lparr>sf_participants := ps[si := set_stream k stream sender],
                      sf_layer_switches := sf_layer_switches sfu + switches,
                      sf_packets_routed := sf_packets_routed sfu + 1,
                      sf_bytes_routed := sf_bytes_routed sfu + len\<rparr>, outs))"

definition sfu_forward_nack ::
  "sfu_context \<Rightarrow> string option \<Rightarrow> string option \<Rightarrow> u16 list \<Rightarrow> int \<times> sfu_out list" where
  "sfu_forward_nack sfu receiver_id sender_id seq_nums =
     (if receiver_id = None \<or> sender_id = None \<or> seq_nums = [] then (- 1, [])
      else case (find_participant sfu (the receiver_id), find_participant sfu (the sender_id)) of
        (Some r, Some s) \<Rightarrow>
          (let receiver = sf_participants sfu ! r; sender = sf_participants sfu ! s;
               receiver_ssrc = (if pa_stream_count receiver > 0 then sm_ssrc (pa_streams receiver ! 0) else 0)
           in case pa_on_packet sender of
                None \<Rightarrow> (- 1, [])
              | Some cb \<Rightarrow>
                (case nack_build_rtcp receiver_ssrc 0 seq_nums (replicate RTP_MAX_PACKET 0) of
                   None \<Rightarrow> (- 1, [])
                 | Some (rtcp_buf, rtcp_len) \<Rightarrow> (0, [To_Receiver cb (take rtcp_len rtcp_buf)])))
      | _ \<Rightarrow> (- 1, []))"

definition sfu_request_keyframe :: "sfu_context \<Rightarrow> string option \<Rightarrow> u32 \<Rightarrow> int \<times> sfu_out list" where
  "sfu_request_keyframe sfu participant_id ssrc =
     (case on_participant sfu participant_id (\<lambda>i p.
        case pa_on_keyframe p of None \<Rightarrow> (- 1, sfu, []) | Some c \<Rightarrow> (0, sfu, [Keyframe c ssrc]))
      of (rc, _, outs) \<Rightarrow> (rc, outs))"

section \<open>Queries and configuration\<close>

definition sfu_get_stats :: "sfu_context \<Rightarrow> nat \<times> int \<times> int \<times> int" where
  "sfu_get_stats sfu = (sf_count sfu, sf_packets_routed sfu, sf_bytes_routed sfu, sf_layer_switches sfu)"

definition sfu_get_participant_stats ::
  "sfu_context \<Rightarrow> string \<Rightarrow> (string \<times> nat \<times> int \<times> int \<times> int \<times> int \<times> int) option" where
  "sfu_get_participant_stats sfu pid =
     map_option (\<lambda>i. let p = sf_participants sfu ! i
                     in (pa_id p, pa_stream_count p, pa_bandwidth p, pa_packets_sent p, pa_bytes_sent p,
                         pa_packets_received p, pa_bytes_received p))
       (find_participant sfu pid)"

definition sfu_get_participant_count :: "sfu_context \<Rightarrow> nat" where
  "sfu_get_participant_count sfu = sf_count sfu"

definition sfu_get_participant_list :: "sfu_context \<Rightarrow> nat \<Rightarrow> string list" where
  "sfu_get_participant_list sfu max_count = take max_count (map pa_id (filter pa_active (sf_participants sfu)))"

definition sfu_set_simulcast_enabled :: "bool \<Rightarrow> sfu_context \<Rightarrow> sfu_context" where
  "sfu_set_simulcast_enabled enabled sfu = sfu\<lparr>sf_simulcast := enabled\<rparr>"

definition sfu_set_bandwidth_adaptation_enabled :: "bool \<Rightarrow> sfu_context \<Rightarrow> sfu_context" where
  "sfu_set_bandwidth_adaptation_enabled enabled sfu = sfu\<lparr>sf_adaptation := enabled\<rparr>"

definition sfu_set_callbacks :: "callback option \<Rightarrow> callback option \<Rightarrow> sfu_context \<Rightarrow> sfu_context" where
  "sfu_set_callbacks on_participant_joined on_participant_left sfu =
     sfu\<lparr>sf_on_joined := on_participant_joined, sf_on_left := on_participant_left\<rparr>"

section \<open>The structural invariant\<close>

definition stream_shape :: "sfu_stream \<Rightarrow> bool" where
  "stream_shape s \<longleftrightarrow> length (sm_layer_ssrcs s) = 3 \<and> length (sm_current s) = 50 \<and> length (sm_last_switch s) = 50
     \<and> length (sm_enabled s) = 50 \<and> length (sm_max_layer s) = 50
     \<and> (\<forall>l\<in>set (sm_current s) \<union> set (sm_max_layer s). l \<le> 2) \<and> sm_layer_count s \<le> 3"

definition participant_ok :: "sfu_participant \<Rightarrow> bool" where
  "participant_ok p \<longleftrightarrow> length (pa_streams p) = 4 \<and> pa_stream_count p \<le> 4 \<and> (\<forall>s\<in>set (pa_streams p). stream_shape s)
     \<and> (\<forall>k<pa_stream_count p. sm_active (pa_streams p ! k) \<and> 1 \<le> sm_layer_count (pa_streams p ! k))"

definition sfu_inv :: "sfu_context \<Rightarrow> bool" where
  "sfu_inv sfu \<longleftrightarrow> length (sf_participants sfu) = 50 \<and> sf_max_participants sfu \<le> 50
     \<and> sf_count sfu = length (filter pa_active (sf_participants sfu)) \<and> sf_count sfu \<le> sf_max_participants sfu
     \<and> (\<forall>p\<in>set (sf_participants sfu). participant_ok p)"

lemma zero_stream_shape [simp]: "stream_shape zero_stream"
  by (simp add: stream_shape_def zero_stream_def)

lemma zero_participant_ok [simp]: "participant_ok zero_participant" "\<not> pa_active zero_participant"
  by (simp_all add: participant_ok_def zero_participant_def)

lemma new_stream_ok: "stream_shape (new_stream ssrc ls n)" "sm_active (new_stream ssrc ls n)"
  "1 \<le> sm_layer_count (new_stream ssrc ls n)"
  by (auto simp: new_stream_def stream_shape_def zero_stream_def Let_def)

lemma participant_ok_cong:
  "participant_ok p \<Longrightarrow> pa_streams p' = pa_streams p \<Longrightarrow> pa_stream_count p' = pa_stream_count p \<Longrightarrow> participant_ok p'"
  by (simp add: participant_ok_def)

lemma sfu_create_inv: "sfu_create ok n = Some sfu \<Longrightarrow> sfu_inv sfu"
  by (auto simp: sfu_create_def sfu_inv_def split: if_splits)

lemma active_update:
  assumes "i < length ps"
  shows "length (filter pa_active (ps[i := p])) + of_bool (pa_active (ps ! i))
    = length (filter pa_active ps) + of_bool (pa_active p)"
  by (subst (2) id_take_nth_drop [OF assms]) (use assms in \<open>simp add: upd_conv_take_nth_drop\<close>)

text \<open>Replacing one participant by another well-formed one, the count following its membership.\<close>

lemma set_participant_inv:
  assumes "sfu_inv sfu" "i < 50" "participant_ok p" "c \<le> sf_max_participants sfu"
    and "c + of_bool (pa_active (sf_participants sfu ! i)) = sf_count sfu + of_bool (pa_active p)"
  shows "sfu_inv ((set_participant i p sfu)\<lparr>sf_count := c\<rparr>)"
  using assms active_update [of i "sf_participants sfu" p]
  by (auto simp: sfu_inv_def set_participant_def dest!: set_update_subset_insert [THEN subsetD])

lemma set_participant_inv_same:
  assumes "sfu_inv sfu" "i < 50" "participant_ok p" "pa_active p = pa_active (sf_participants sfu ! i)"
  shows "sfu_inv (set_participant i p sfu)"
  using set_participant_inv [OF assms(1-3), of "sf_count sfu"] assms
  by (simp add: sfu_inv_def set_participant_def)

lemma find_participant_Some:
  assumes "sfu_inv sfu" "find_participant sfu pid = Some i"
  shows "i < sf_count sfu \<and> i < 50 \<and> pa_active (sf_participants sfu ! i) \<and> pa_id (sf_participants sfu ! i) = pid
    \<and> participant_ok (sf_participants sfu ! i)"
  using assms first_below_Some [of "sf_count sfu" "is_participant pid" "sf_participants sfu" i]
  by (auto simp: find_participant_def is_participant_def sfu_inv_def)

lemma on_participant_inv:
  assumes "sfu_inv sfu" "on_participant sfu pid act = (rc, sfu', outs)"
    and "\<And>i rc sfu' outs. i < 50 \<Longrightarrow> 0 < sf_count sfu \<Longrightarrow> pa_active (sf_participants sfu ! i) \<Longrightarrow> participant_ok (sf_participants sfu ! i)
           \<Longrightarrow> act i (sf_participants sfu ! i) = (rc, sfu', outs) \<Longrightarrow> sfu_inv sfu'"
  shows "sfu_inv sfu'"
proof (cases "pid = None \<or> find_participant sfu (the pid) = None")
  case True
  with assms(1,2) show ?thesis by (cases pid) (auto simp: on_participant_def)
next
  case False
  then obtain i where "pid \<noteq> None" "find_participant sfu (the pid) = Some i" by auto
  with assms(2) find_participant_Some [OF assms(1), of "the pid" i] assms(3) [of i rc sfu' outs] show ?thesis
    by (auto simp: on_participant_def)
qed

lemma add_participant_inv:
  assumes "sfu_inv sfu" "sfu_add_participant sfu pid = (rc, sfu', outs)"
  shows "sfu_inv sfu'"
proof (cases "sfu' = sfu")
  case False
  with assms(2) obtain i n where "first_below 50 (\<lambda>p. \<not> pa_active p) (sf_participants sfu) = Some i"
      "sfu' = (set_participant i (zero_participant\<lparr>pa_id := n, pa_active := True, pa_bandwidth := 2500000\<rparr>) sfu)\<lparr>sf_count := sf_count sfu + 1\<rparr>"
      "sf_count sfu < sf_max_participants sfu"
    by (auto simp: sfu_add_participant_def free_participant_slot_def split: option.splits if_splits)
  with assms(1) show ?thesis
    by (auto dest!: first_below_Some intro!: set_participant_inv participant_ok_cong [OF zero_participant_ok(1)])
qed (use assms(1) in simp)

lemma remove_participant_inv:
  assumes "sfu_inv sfu" "sfu_remove_participant sfu pid = (rc, sfu', outs)"
  shows "sfu_inv sfu'"
proof -
  have "sf_count sfu \<le> sf_max_participants sfu" using assms(1) by (simp add: sfu_inv_def)
  then show ?thesis
    using assms(2) unfolding sfu_remove_participant_def
    by (elim on_participant_inv [OF assms(1)])
      (use assms(1) in \<open>auto intro!: set_participant_inv intro: participant_ok_cong\<close>)
qed

lemma add_stream_inv:
  assumes "sfu_inv sfu" "sfu_add_stream sfu pid ssrc ls n = (rc, sfu')"
  shows "sfu_inv sfu'"
proof -
  obtain outs where *: "on_participant sfu pid (\<lambda>i p.
      if pa_stream_count p \<ge> SFU_MAX_STREAMS_PER_PARTICIPANT then (- 1, sfu, [])
      else (0, set_participant i (p\<lparr>pa_streams := (pa_streams p)[pa_stream_count p := new_stream ssrc ls n],
                                    pa_stream_count := pa_stream_count p + 1\<rparr>) sfu, [])) = (rc, sfu', outs)"
    using assms(2) unfolding sfu_add_stream_def by (auto split: prod.splits)
  have new: "participant_ok (p\<lparr>pa_streams := (pa_streams p)[pa_stream_count p := new_stream ssrc ls n],
      pa_stream_count := pa_stream_count p + 1\<rparr>)" if "participant_ok p" "pa_stream_count p < 4" for p
    using that new_stream_ok [of ssrc ls n]
    by (auto simp: participant_ok_def nth_list_update less_Suc_eq dest!: set_update_subset_insert [THEN subsetD])
  show ?thesis
    by (rule on_participant_inv [OF assms(1) *])
      (use assms(1) new in \<open>auto intro!: set_participant_inv_same split: if_splits\<close>)
qed

lemma set_stream_ok:
  "participant_ok p \<Longrightarrow> k < pa_stream_count p \<Longrightarrow> stream_shape s \<Longrightarrow> sm_active s \<Longrightarrow> 1 \<le> sm_layer_count s
   \<Longrightarrow> participant_ok (set_stream k s p)"
  by (auto simp: participant_ok_def set_stream_def nth_list_update dest!: set_update_subset_insert [THEN subsetD])

lemma find_stream_Some:
  assumes "participant_ok p" "find_stream_by_ssrc p ssrc = Some k"
  shows "k < pa_stream_count p \<and> k < 4 \<and> stream_shape (pa_streams p ! k) \<and> sm_active (pa_streams p ! k)
    \<and> 1 \<le> sm_layer_count (pa_streams p ! k)"
  using assms first_below_Some [of "pa_stream_count p" "stream_matches ssrc" "pa_streams p" k]
  by (auto simp: find_stream_by_ssrc_def participant_ok_def)

lemma policy_inv:
  assumes "sfu_inv sfu" "sfu_set_receiver_stream_policy sfu r s ssrc en ml = (rc, sfu')"
  shows "sfu_inv sfu'"
proof (cases "sfu' = sfu")
  case False
  with assms(2) obtain ri i k where f: "find_participant sfu (the s) = Some i"
      "find_stream_by_ssrc (sf_participants sfu ! i) ssrc = Some k" "0 \<le> ml" "ml \<le> 2"
    and e: "sfu' = set_participant i (set_stream k
         ((pa_streams (sf_participants sfu ! i) ! k)\<lparr>sm_enabled := (sm_enabled (pa_streams (sf_participants sfu ! i) ! k))[ri := en],
            sm_max_layer := (sm_max_layer (pa_streams (sf_participants sfu ! i) ! k))[ri := nat ml]\<rparr>)
         (sf_participants sfu ! i)) sfu"
    by (auto simp: sfu_set_receiver_stream_policy_def Let_def split: option.splits if_splits)
  note p = find_participant_Some [OF assms(1) f(1)]
  with find_stream_Some [OF _ f(2)]
  have "participant_ok (sf_participants sfu ! i)" "k < pa_stream_count (sf_participants sfu ! i)"
    "stream_shape (pa_streams (sf_participants sfu ! i) ! k)" "sm_active (pa_streams (sf_participants sfu ! i) ! k)"
    "1 \<le> sm_layer_count (pa_streams (sf_participants sfu ! i) ! k)" by auto
  then show ?thesis unfolding e using p assms(1) f(3,4)
    by (intro set_participant_inv_same set_stream_ok)
      (auto simp: stream_shape_def set_stream_def dest!: set_update_subset_insert [THEN subsetD])
qed (use assms(1) in simp)

lemma drop_stream_ok:
  assumes "participant_ok p" "k < pa_stream_count p"
  shows "participant_ok (drop_stream k p)"
proof -
  define n where "n = pa_stream_count p"
  define ss where "ss = (if k + 1 < n then mem_write (pa_streams p) k (take (n - k - 1) (drop (k + 1) (pa_streams p))) else pa_streams p)"
  have n: "length (pa_streams p) = 4" "n \<le> 4" "k < n" using assms by (auto simp: participant_ok_def n_def)
  then have l: "length ss = 4" using ss_def by auto
  have nth: "ss ! j = (if k \<le> j then pa_streams p ! (j + 1) else pa_streams p ! j)" if "j < n - 1" for j
    using n that ss_def by (auto simp: mem_write_def nth_append min_def)
  have sub: "set ss \<subseteq> set (pa_streams p)"
    using ss_def by (auto simp: mem_write_def dest!: in_set_takeD in_set_dropD)
  have "drop_stream k p = p\<lparr>pa_streams := ss[n - 1 := zero_stream], pa_stream_count := n - 1\<rparr>"
    by (simp add: drop_stream_def n_def ss_def Let_def)
  then show ?thesis
    using assms(1) l nth sub n n_def
    by (auto simp: participant_ok_def nth_list_update dest!: set_update_subset_insert [THEN subsetD])
qed

lemma remove_stream_inv:
  assumes "sfu_inv sfu" "sfu_remove_stream sfu pid ssrc = (rc, sfu')"
  shows "sfu_inv sfu'"
proof -
  have act: "pa_active (drop_stream k p) = pa_active p" for k p by (simp add: drop_stream_def Let_def)
  from assms(2) obtain outs where *: "on_participant sfu pid (\<lambda>i p.
        case first_below (pa_stream_count p) (\<lambda>s. \<not> (\<not> sm_active s \<or> sm_ssrc s \<noteq> ssrc)) (pa_streams p) of
          None \<Rightarrow> (- 1, sfu, [])
        | Some k \<Rightarrow> (0, set_participant i (drop_stream k p) sfu, [])) = (rc, sfu', outs)"
    unfolding sfu_remove_stream_def by (auto split: prod.splits)
  show ?thesis
    by (rule on_participant_inv [OF assms(1) *])
      (use assms(1) act in \<open>auto intro!: set_participant_inv_same drop_stream_ok dest!: first_below_Some split: option.splits\<close>)
qed

section \<open>What one packet does\<close>

text \<open>The layer a receiver is on after a packet, and whether it gets the packet, as functions of the stream
  and the receiver before it.\<close>

definition considered :: "sfu_stream \<Rightarrow> nat \<Rightarrow> sfu_participant \<Rightarrow> bool" where
  "considered s i p \<longleftrightarrow> pa_active p \<and> pa_on_packet p \<noteq> None \<and> sm_enabled s ! i"

definition next_layer :: "bool \<Rightarrow> sfu_stream \<Rightarrow> int \<Rightarrow> nat \<Rightarrow> sfu_participant \<Rightarrow> simulcast_layer" where
  "next_layer adaptation s now i p =
     (let t = target_layer adaptation s i p in if should_switch_layer s i t now then t else sm_current s ! i)"

definition gets_packet :: "bool \<Rightarrow> sfu_stream \<Rightarrow> u32 \<Rightarrow> int \<Rightarrow> nat \<Rightarrow> sfu_participant \<Rightarrow> bool" where
  "gets_packet adaptation s ssrc now i p \<longleftrightarrow> considered s i p
     \<and> (sm_layer_count s = 1 \<or> ssrc = sm_layer_ssrcs s ! next_layer adaptation s now i p)"

fun delivery :: "sfu_out \<Rightarrow> bool" where
  "delivery (To_Receiver c b) = True"
| "delivery (Keyframe c x) = False"
| "delivery (Joined c x) = False"
| "delivery (Left c x) = False"

text \<open>The loop reads of the stream only its constant fields and the entries of the receivers still ahead.\<close>

definition same_view :: "nat \<Rightarrow> sfu_stream \<Rightarrow> sfu_stream \<Rightarrow> bool" where
  "same_view i s s0 \<longleftrightarrow> sm_ssrc s = sm_ssrc s0 \<and> sm_active s = sm_active s0 \<and> sm_layer_count s = sm_layer_count s0
     \<and> sm_layer_ssrcs s = sm_layer_ssrcs s0 \<and> sm_enabled s = sm_enabled s0 \<and> sm_max_layer s = sm_max_layer s0
     \<and> (\<forall>j\<ge>i. sm_current s ! j = sm_current s0 ! j \<and> sm_last_switch s ! j = sm_last_switch s0 ! j)"

lemma same_view_refl [simp]: "same_view i s s"
  by (simp add: same_view_def)

lemma same_view_Suc: "same_view i s s0 \<Longrightarrow> same_view (Suc i) s s0"
  by (simp add: same_view_def)

lemma view_target: "same_view i s s0 \<Longrightarrow> target_layer a s i p = target_layer a s0 i p"
  by (simp add: same_view_def target_layer_def Let_def)

lemma view_switch: "same_view i s s0 \<Longrightarrow> should_switch_layer s i t now = should_switch_layer s0 i t now"
  by (simp add: same_view_def should_switch_layer_def)

lemma view_next:
  "same_view i s s0 \<Longrightarrow> next_layer a s now i p = next_layer a s0 now i p"
  "same_view i s s0 \<Longrightarrow> considered s i p = considered s0 i p"
  "same_view i s s0 \<Longrightarrow> gets_packet a s ssrc now i p = gets_packet a s0 ssrc now i p"
  by (simp_all add: next_layer_def gets_packet_def considered_def view_target view_switch Let_def)
    (simp_all add: same_view_def)

text \<open>What a turn leaves alone of the receiver and of the stream.\<close>

definition same_member :: "sfu_participant \<Rightarrow> sfu_participant \<Rightarrow> bool" where
  "same_member p p' \<longleftrightarrow> pa_id p' = pa_id p \<and> pa_active p' = pa_active p \<and> pa_streams p' = pa_streams p
     \<and> pa_stream_count p' = pa_stream_count p \<and> pa_bandwidth p' = pa_bandwidth p
     \<and> pa_on_packet p' = pa_on_packet p \<and> pa_on_keyframe p' = pa_on_keyframe p"

lemma same_member_refl [simp]: "same_member p p"
  by (simp add: same_member_def)

lemma forward_to_switch:
  assumes "forward_to a kf ssrc packet now i p s = (p', s', sw, fw, outs)"
  shows "sm_current s' = (if considered s i p \<and> 1 < sm_layer_count s
             then (sm_current s)[i := next_layer a s now i p] else sm_current s)
     \<and> sm_last_switch s' = (if considered s i p \<and> 1 < sm_layer_count s \<and> next_layer a s now i p \<noteq> sm_current s ! i
             then (sm_last_switch s)[i := now] else sm_last_switch s)"
proof -
  have "next_layer a s now i p \<noteq> sm_current s ! i \<longleftrightarrow> should_switch_layer s i (target_layer a s i p) now"
    by (auto simp: next_layer_def should_switch_layer_def Let_def)
  with assms show ?thesis
    by (auto simp: forward_to_def considered_def next_layer_def Let_def split: if_splits)
qed

lemma forward_to_frame:
  assumes "forward_to a kf ssrc packet now i p s = (p', s', sw, fw, outs)"
  shows "same_view (Suc i) s' s \<and> same_member p p'"
proof -
  have "sm_ssrc s' = sm_ssrc s \<and> sm_active s' = sm_active s \<and> sm_layer_count s' = sm_layer_count s
     \<and> sm_layer_ssrcs s' = sm_layer_ssrcs s \<and> sm_enabled s' = sm_enabled s \<and> sm_max_layer s' = sm_max_layer s"
    using assms by (auto simp: forward_to_def Let_def split: if_splits)
  moreover have "same_member p p'"
    using assms by (auto simp: forward_to_def same_member_def Let_def split: if_splits)
  ultimately show ?thesis
    using forward_to_switch [OF assms] by (simp add: same_view_def)
qed

lemma forward_to_delivers:
  assumes "forward_to a kf ssrc packet now i p s = (p', s', sw, fw, outs)" "1 \<le> sm_layer_count s"
    and "sm_layer_count s > 1 \<longrightarrow> i < length (sm_current s)"
  shows "fw = of_bool (gets_packet a s ssrc now i p)"
    "filter delivery outs = (if gets_packet a s ssrc now i p then [To_Receiver (the (pa_on_packet p)) packet] else [])"
  using assms
  by (auto simp: forward_to_def gets_packet_def considered_def next_layer_def on_callback_def Let_def
      split: if_splits option.splits)

text \<open>The layers after the loop, receiver by receiver.\<close>

definition layer_after :: "bool \<Rightarrow> sfu_stream \<Rightarrow> int \<Rightarrow> nat \<Rightarrow> nat \<Rightarrow> sfu_participant \<Rightarrow> simulcast_layer" where
  "layer_after a s now si j p =
     (if j \<noteq> si \<and> considered s j p \<and> 1 < sm_layer_count s then next_layer a s now j p else sm_current s ! j)"

definition turn ::
  "bool \<Rightarrow> callback option \<Rightarrow> u32 \<Rightarrow> bytes \<Rightarrow> int \<Rightarrow> nat \<Rightarrow> nat \<Rightarrow> sfu_participant \<Rightarrow> sfu_stream
     \<Rightarrow> sfu_participant \<times> sfu_stream \<times> int \<times> int \<times> sfu_out list" where
  "turn a kf ssrc packet now si i p s = (if i = si then (p, s, 0, 0, []) else forward_to a kf ssrc packet now i p s)"

lemma turn_spec:
  assumes "turn a kf ssrc packet now si i p s = (p', s', sw, fw, outs)" "same_view i s s0" "1 \<le> sm_layer_count s0"
    and "i < length (sm_current s)"
  shows "same_view (Suc i) s' s0 \<and> same_member p p' \<and> (i = si \<longrightarrow> p' = p)
    \<and> sm_current s' = (sm_current s)[i := layer_after a s0 now si i p]
    \<and> length (sm_last_switch s') = length (sm_last_switch s)
    \<and> fw = of_bool (i \<noteq> si \<and> gets_packet a s0 ssrc now i p)
    \<and> filter delivery outs = (if i \<noteq> si \<and> gets_packet a s0 ssrc now i p
         then [To_Receiver (the (pa_on_packet p)) packet] else [])"
proof -
  have c: "sm_layer_count s = sm_layer_count s0" "sm_current s ! i = sm_current s0 ! i"
    using assms(2) by (simp_all add: same_view_def)
  show ?thesis
  proof (cases "i = si")
    case True
    with assms c show ?thesis
      by (simp add: turn_def same_view_Suc layer_after_def) (metis list_update_id)
  next
    case False
    then have f: "forward_to a kf ssrc packet now i p s = (p', s', sw, fw, outs)"
      using assms(1) by (simp add: turn_def)
    note sw = forward_to_switch [OF f, unfolded view_next [OF assms(2)] c]
    have "same_view (Suc i) s' s0"
      using forward_to_frame [OF f] assms(2) by (simp add: same_view_def)
    moreover have "sm_current s' = (sm_current s)[i := layer_after a s0 now si i p]"
      using sw False by (auto simp: layer_after_def c(2) [symmetric])
    ultimately show ?thesis
      using forward_to_delivers [OF f] forward_to_frame [OF f] sw False assms(3,4) c
      by (simp add: view_next [OF assms(2)])
  qed
qed

lemma forward_loop_Cons:
  "forward_loop a kf ssrc packet now si i (p # ps) s = (ps', s', sw, fw, outs) \<longleftrightarrow>
     (\<exists>p1 s1 sw1 fw1 o1 ps2 sw2 fw2 o2. turn a kf ssrc packet now si i p s = (p1, s1, sw1, fw1, o1)
        \<and> forward_loop a kf ssrc packet now si (Suc i) ps s1 = (ps2, s', sw2, fw2, o2)
        \<and> ps' = p1 # ps2 \<and> sw = sw1 + sw2 \<and> fw = fw1 + fw2 \<and> outs = o1 @ o2)"
  by (auto simp: turn_def Let_def split: prod.splits)

lemma forward_loop_spec:
  assumes "forward_loop a kf ssrc packet now si i ps s = (ps', s', sw, fw, outs)" "same_view i s s0"
    and "1 \<le> sm_layer_count s0" "i + length ps \<le> length (sm_current s)"
  shows "same_view (i + length ps) s' s0 \<and> list_all2 same_member ps ps' \<and> (\<forall>j<length ps. i + j = si \<longrightarrow> ps' ! j = ps ! j)
    \<and> length (sm_current s') = length (sm_current s) \<and> length (sm_last_switch s') = length (sm_last_switch s)
    \<and> (\<forall>j. sm_current s' ! j = (if i \<le> j \<and> j < i + length ps then layer_after a s0 now si j (ps ! (j - i)) else sm_current s ! j))
    \<and> fw = int (length (filter (\<lambda>(j, p). j \<noteq> si \<and> gets_packet a s0 ssrc now j p) (enumerate i ps)))
    \<and> filter delivery outs = map (\<lambda>(j, p). To_Receiver (the (pa_on_packet p)) packet)
        (filter (\<lambda>(j, p). j \<noteq> si \<and> gets_packet a s0 ssrc now j p) (enumerate i ps))"
  using assms
proof (induction ps arbitrary: i s ps' sw fw outs)
  case (Cons p ps)
  from Cons.prems(1) obtain p1 s1 sw1 fw1 o1 ps2 sw2 fw2 o2
    where t: "turn a kf ssrc packet now si i p s = (p1, s1, sw1, fw1, o1)"
      and l: "forward_loop a kf ssrc packet now si (Suc i) ps s1 = (ps2, s', sw2, fw2, o2)"
      and e: "ps' = p1 # ps2" "fw = fw1 + fw2" "outs = o1 @ o2"
    unfolding forward_loop_Cons by blast
  have "i < length (sm_current s)" using Cons.prems(4) by simp
  note t = turn_spec [OF t Cons.prems(2,3) this]
  then have "same_view (Suc i) s1 s0" "Suc i + length ps \<le> length (sm_current s1)" using Cons.prems(4) by simp_all
  note IH = Cons.IH [OF l this(1) Cons.prems(3) this(2)]
  have "sm_current s' ! j = (if i \<le> j \<and> j < i + length (p # ps) then layer_after a s0 now si j ((p # ps) ! (j - i)) else sm_current s ! j)" for j
    using t IH \<open>i < length (sm_current s)\<close> by (cases "j = i") (auto simp: nth_Cons')
  moreover have "\<forall>j<length (p # ps). i + j = si \<longrightarrow> ps' ! j = (p # ps) ! j"
    using t IH unfolding e(1) by (auto simp: nth_Cons' less_Suc_eq_0_disj)
  ultimately show ?case using t IH unfolding e by simp
qed simp

text \<open>What a packet that belongs to a stream does, as a whole.\<close>

lemma enumerate_nth: "enumerate 0 xs = map (\<lambda>i. (i, xs ! i)) [0..<length xs]"
  by (rule nth_equalityI) (simp_all add: nth_enumerate_eq)

lemma next_layer_le: "1 < sm_layer_count s \<Longrightarrow> next_layer a s now i p \<le> target_layer a s i p"
  by (auto simp: next_layer_def should_switch_layer_def Let_def)

lemma target_layer_le:
  assumes "1 < sm_layer_count s"
  shows "target_layer a s i p \<le> sm_max_layer s ! i" "target_layer a s i p \<le> sm_layer_count s - 1"
    "a \<Longrightarrow> target_layer a s i p \<le> select_layer_for_bandwidth (pa_bandwidth p)"
  using assms by (auto simp: target_layer_def Let_def)

text \<open>The stream and the participants before the loop: the sender's counters have been advanced.\<close>

definition counted :: "bytes \<Rightarrow> sfu_stream \<Rightarrow> sfu_stream" where
  "counted packet s = s\<lparr>sm_packets_received := sm_packets_received s + 1,
     sm_bytes_received := sm_bytes_received s + int (length packet)\<rparr>"

lemma counted_view [simp]:
  "same_view i (counted packet s) s" "sm_current (counted packet s) = sm_current s"
  "sm_last_switch (counted packet s) = sm_last_switch s"
  by (simp_all add: same_view_def counted_def)

definition accepted :: "sfu_context \<Rightarrow> string \<Rightarrow> bytes \<Rightarrow> nat \<Rightarrow> u32 \<Rightarrow> nat \<Rightarrow> bool" where
  "accepted sfu pid packet si ssrc k \<longleftrightarrow> find_participant sfu pid = Some si \<and> parse_rtp_ssrc packet = Some ssrc
     \<and> find_stream_by_ssrc (sf_participants sfu ! si) ssrc = Some k"

lemma forward_packet_loop:
  assumes "accepted sfu pid packet si ssrc k" "sfu_forward_packet sfu (Some pid) (Some packet) now = (n, sfu', outs)"
  obtains ps s sw where
    "forward_loop (sf_adaptation sfu) (pa_on_keyframe (sf_participants sfu ! si)) ssrc packet now si 0 (sf_participants sfu)
       (counted packet (pa_streams (sf_participants sfu ! si) ! k)) = (ps, s, sw, n, outs)"
    "sfu' = sfu\<lparr>sf_participants := ps[si := set_stream k s ((sf_participants sfu ! si)
              \<lparr>pa_packets_received := pa_packets_received (sf_participants sfu ! si) + 1,
               pa_bytes_received := pa_bytes_received (sf_participants sfu ! si) + int (length packet)\<rparr>)],
        sf_layer_switches := sf_layer_switches sfu + sw, sf_packets_routed := sf_packets_routed sfu + 1,
        sf_bytes_routed := sf_bytes_routed sfu + int (length packet)\<rparr>"
proof -
  have "\<not> length packet < 12" using assms(1) by (auto simp: accepted_def parse_rtp_ssrc_def split: if_splits)
  with assms that show thesis
    by (auto simp: accepted_def sfu_forward_packet_def counted_def Let_def split: prod.splits)
qed

lemma forward_packet_refused:
  assumes "\<nexists>pid packet si ssrc k. sid = Some pid \<and> pkt = Some packet \<and> accepted sfu pid packet si ssrc k"
  shows "sfu_forward_packet sfu sid pkt now = (- 1, sfu, [])"
  using assms by (auto simp: accepted_def sfu_forward_packet_def Let_def split: option.splits)

lemma accepted_ok:
  assumes "sfu_inv sfu" "accepted sfu pid packet si ssrc k"
  shows "si < 50" "participant_ok (sf_participants sfu ! si)" "pa_active (sf_participants sfu ! si)"
    "k < pa_stream_count (sf_participants sfu ! si)" "k < 4" "length (pa_streams (sf_participants sfu ! si)) = 4"
    "stream_shape (pa_streams (sf_participants sfu ! si) ! k)" "sm_active (pa_streams (sf_participants sfu ! si) ! k)"
    "1 \<le> sm_layer_count (pa_streams (sf_participants sfu ! si) ! k)"
  using assms find_participant_Some [OF assms(1), of pid si] find_stream_Some [of "sf_participants sfu ! si" ssrc k]
  by (auto simp: accepted_def participant_ok_def)

lemma shape_after:
  assumes "stream_shape s0" "1 \<le> sm_layer_count s0" "same_view 50 s s0" "length (sm_current s) = 50" "length (sm_last_switch s) = 50"
    and "\<forall>j<50. sm_current s ! j = layer_after a s0 now si j (q j)"
  shows "stream_shape s"
proof -
  have "layer_after a s0 now si j p \<le> 2" if "j < 50" for j p
  proof (cases "1 < sm_layer_count s0 \<and> j \<noteq> si \<and> considered s0 j p")
    case True
    with next_layer_le [of s0 a now j p] target_layer_le(2) [of s0 a j p]
    have "next_layer a s0 now j p \<le> sm_layer_count s0 - 1" by simp
    moreover have "sm_layer_count s0 \<le> 3" using assms(1) by (simp add: stream_shape_def)
    ultimately show ?thesis using True by (simp add: layer_after_def)
  next
    case False
    with assms(1) that show ?thesis by (auto simp: layer_after_def stream_shape_def)
  qed
  then have "\<forall>l\<in>set (sm_current s). l \<le> 2" using assms(4,6) by (auto simp: in_set_conv_nth)
  with assms(1,3,4,5) show ?thesis by (auto simp: stream_shape_def same_view_def)
qed

lemma members_inv:
  assumes "sfu_inv sfu" "list_all2 same_member (sf_participants sfu) ps"
  shows "sfu_inv (sfu\<lparr>sf_participants := ps\<rparr>)"
proof -
  have "length (filter pa_active ps) = length (filter pa_active (sf_participants sfu)) \<and> (\<forall>p\<in>set ps. participant_ok p)"
    using assms(2) assms(1) [unfolded sfu_inv_def, THEN conjunct2, THEN conjunct2, THEN conjunct2, THEN conjunct2]
    by (induction rule: list_all2_induct) (auto simp: same_member_def intro: participant_ok_cong)
  with assms show ?thesis by (simp add: sfu_inv_def list_all2_lengthD)
qed

lemma forward_packet_state:
  assumes "sfu_inv sfu" "accepted sfu pid packet si ssrc k"
    and "sfu_forward_packet sfu (Some pid) (Some packet) now = (n, sfu', outs)"
    and "s0 = pa_streams (sf_participants sfu ! si) ! k"
  shows "sfu_inv sfu'
    \<and> (\<forall>j<50. sm_current (pa_streams (sf_participants sfu' ! si) ! k) ! j
          = layer_after (sf_adaptation sfu) s0 now si j (sf_participants sfu ! j))"
proof -
  let ?ps = "sf_participants sfu"
  note ok = accepted_ok [OF assms(1,2)]
  from forward_packet_loop [OF assms(2,3)] obtain ps s sw where
    l: "forward_loop (sf_adaptation sfu) (pa_on_keyframe (?ps ! si)) ssrc packet now si 0 ?ps (counted packet s0) = (ps, s, sw, n, outs)"
    and e: "sfu' = sfu\<lparr>sf_participants := ps[si := set_stream k s ((?ps ! si)
              \<lparr>pa_packets_received := pa_packets_received (?ps ! si) + 1,
               pa_bytes_received := pa_bytes_received (?ps ! si) + int (length packet)\<rparr>)],
        sf_layer_switches := sf_layer_switches sfu + sw, sf_packets_routed := sf_packets_routed sfu + 1,
        sf_bytes_routed := sf_bytes_routed sfu + int (length packet)\<rparr>"
    unfolding assms(4) by metis
  have len: "length ?ps = 50" "0 + length ?ps \<le> length (sm_current (counted packet s0))"
    using assms(1,4) ok(7) by (simp_all add: sfu_inv_def stream_shape_def)
  note sp = forward_loop_spec [OF l _ ok(9) [folded assms(4)] len(2), simplified]
  have s: "stream_shape s" "sm_active s" "1 \<le> sm_layer_count s"
    using shape_after [OF ok(7,9) [folded assms(4)], of s "sf_adaptation sfu" now si "\<lambda>j. ?ps ! j"] sp len ok(7,8,9) assms(4)
    by (auto simp: stream_shape_def same_view_def)
  have m: "length ps = 50" "\<And>j. j < 50 \<Longrightarrow> same_member (?ps ! j) (ps ! j)"
    using sp len(1) by (auto simp: list_all2_conv_all_nth)
  have "sfu_inv (sfu\<lparr>sf_participants := ps\<rparr>)" using sp by (intro members_inv [OF assms(1)]) simp
  moreover have "participant_ok (set_stream k s ((?ps ! si)\<lparr>pa_packets_received := x, pa_bytes_received := y\<rparr>))" for x y
    using ok s by (intro set_stream_ok) (auto intro: participant_ok_cong)
  ultimately have "sfu_inv (set_participant si (set_stream k s ((?ps ! si)\<lparr>pa_packets_received := pa_packets_received (?ps ! si) + 1,
               pa_bytes_received := pa_bytes_received (?ps ! si) + int (length packet)\<rparr>)) (sfu\<lparr>sf_participants := ps\<rparr>))"
    using ok m(2) by (intro set_participant_inv_same) (simp_all add: set_stream_def same_member_def)
  then have "sfu_inv sfu'" unfolding e by (simp add: sfu_inv_def set_participant_def)
  moreover have "pa_streams (sf_participants sfu' ! si) ! k = s"
    unfolding e using m(1) ok by (simp add: set_stream_def)
  ultimately show ?thesis using sp len(1) by simp
qed

lemma forward_packet_delivers:
  assumes "sfu_inv sfu" "accepted sfu pid packet si ssrc k"
    and "sfu_forward_packet sfu (Some pid) (Some packet) now = (n, sfu', outs)"
    and "rs = filter (\<lambda>i. i \<noteq> si \<and> gets_packet (sf_adaptation sfu) (pa_streams (sf_participants sfu ! si) ! k) ssrc now i
                                     (sf_participants sfu ! i)) [0..<50]"
  shows "filter delivery outs = map (\<lambda>i. To_Receiver (the (pa_on_packet (sf_participants sfu ! i))) packet) rs
    \<and> n = int (length rs)"
proof -
  note ok = accepted_ok [OF assms(1,2)]
  let ?s = "pa_streams (sf_participants sfu ! si) ! k"
  from forward_packet_loop [OF assms(2,3)] obtain ps s sw where
    l: "forward_loop (sf_adaptation sfu) (pa_on_keyframe (sf_participants sfu ! si)) ssrc packet now si 0 (sf_participants sfu)
       (counted packet ?s) = (ps, s, sw, n, outs)" by metis
  have len: "length (sf_participants sfu) = 50" "0 + length (sf_participants sfu) \<le> length (sm_current (counted packet ?s))"
    using assms(1) ok(7) by (simp_all add: sfu_inv_def stream_shape_def)
  show ?thesis
    using forward_loop_spec [OF l _ ok(9) len(2), simplified, unfolded enumerate_nth len(1)] assms(4)
    by (simp add: filter_map comp_def case_prod_beta)
qed

section \<open>Any sequence of operations\<close>

datatype sfu_op =
    Join "string option"
  | Leave "string option"
  | Set_Bandwidth "string option" int int
  | Set_Packet_Callback "string option" "callback option"
  | Set_Keyframe_Callback "string option" "callback option"
  | Publish "string option" u32 "u32 list option" int
  | Unpublish "string option" u32
  | Set_Policy "string option" "string option" u32 bool int
  | Forward "string option" "bytes option" int
  | Set_Simulcast bool
  | Set_Adaptation bool
  | Set_Callbacks "callback option" "callback option"

fun sfu_exec :: "sfu_op \<Rightarrow> sfu_context \<Rightarrow> sfu_context" where
  "sfu_exec (Join pid) sfu = fst (snd (sfu_add_participant sfu pid))"
| "sfu_exec (Leave pid) sfu = fst (snd (sfu_remove_participant sfu pid))"
| "sfu_exec (Set_Bandwidth pid bw now) sfu = sfu_set_participant_bandwidth sfu pid bw now"
| "sfu_exec (Set_Packet_Callback pid cb) sfu = sfu_set_participant_callback sfu pid cb"
| "sfu_exec (Set_Keyframe_Callback pid cb) sfu = sfu_set_participant_keyframe_callback sfu pid cb"
| "sfu_exec (Publish pid ssrc ls n) sfu = snd (sfu_add_stream sfu pid ssrc ls n)"
| "sfu_exec (Unpublish pid ssrc) sfu = snd (sfu_remove_stream sfu pid ssrc)"
| "sfu_exec (Set_Policy r sd ssrc en ml) sfu = snd (sfu_set_receiver_stream_policy sfu r sd ssrc en ml)"
| "sfu_exec (Forward pid pkt now) sfu = fst (snd (sfu_forward_packet sfu pid pkt now))"
| "sfu_exec (Set_Simulcast b) sfu = sfu_set_simulcast_enabled b sfu"
| "sfu_exec (Set_Adaptation b) sfu = sfu_set_bandwidth_adaptation_enabled b sfu"
| "sfu_exec (Set_Callbacks j l) sfu = sfu_set_callbacks j l sfu"

lemma forward_packet_inv:
  assumes "sfu_inv sfu" "sfu_forward_packet sfu sid pkt now = (n, sfu', outs)"
  shows "sfu_inv sfu'"
  using assms forward_packet_state [OF assms(1)] forward_packet_refused [of sid pkt sfu now]
  by (metis fst_conv snd_conv)

lemma set_field_inv:
  assumes "sfu_inv sfu" "\<And>p. pa_active (f p) = pa_active p \<and> pa_streams (f p) = pa_streams p \<and> pa_stream_count (f p) = pa_stream_count p"
  shows "sfu_inv (fst (snd (on_participant sfu pid (\<lambda>i p. (0, set_participant i (f p) sfu, [])))))"
proof (rule on_participant_inv [OF assms(1)])
  show "on_participant sfu pid (\<lambda>i p. (0, set_participant i (f p) sfu, []))
    = (fst (on_participant sfu pid (\<lambda>i p. (0, set_participant i (f p) sfu, []))),
       fst (snd (on_participant sfu pid (\<lambda>i p. (0, set_participant i (f p) sfu, [])))),
       snd (snd (on_participant sfu pid (\<lambda>i p. (0, set_participant i (f p) sfu, [])))))" by simp
qed (use assms in \<open>auto intro!: set_participant_inv_same intro: participant_ok_cong\<close>)

lemma sfu_exec_inv:
  assumes "sfu_inv sfu"
  shows "sfu_inv (sfu_exec op sfu)"
proof (cases op)
  case (Join pid)
  then show ?thesis using add_participant_inv [OF assms] by (cases "sfu_add_participant sfu pid") auto
next
  case (Leave pid)
  then show ?thesis using remove_participant_inv [OF assms] by (cases "sfu_remove_participant sfu pid") auto
next
  case (Publish pid ssrc ls n)
  then show ?thesis using add_stream_inv [OF assms] by (cases "sfu_add_stream sfu pid ssrc ls n") auto
next
  case (Unpublish pid ssrc)
  then show ?thesis using remove_stream_inv [OF assms] by (cases "sfu_remove_stream sfu pid ssrc") auto
next
  case (Set_Policy r sd ssrc en ml)
  then show ?thesis using policy_inv [OF assms] by (cases "sfu_set_receiver_stream_policy sfu r sd ssrc en ml") auto
next
  case (Forward pid pkt now)
  then show ?thesis using forward_packet_inv [OF assms] by (cases "sfu_forward_packet sfu pid pkt now") auto
qed (use assms in \<open>auto simp: sfu_set_participant_bandwidth_def sfu_set_participant_callback_def
    sfu_set_participant_keyframe_callback_def set_field_inv sfu_set_simulcast_enabled_def
    sfu_set_bandwidth_adaptation_enabled_def sfu_set_callbacks_def sfu_inv_def [of "_ \<lparr>sf_simulcast := _\<rparr>"]
    sfu_inv_def [of "_ \<lparr>sf_adaptation := _\<rparr>"] sfu_inv_def [of "_ \<lparr>sf_on_joined := _, sf_on_left := _\<rparr>"] sfu_inv_def [of sfu]\<close>)

interpretation sfu: machine sfu_inv sfu_exec
  by unfold_locales (rule sfu_exec_inv)

section \<open>Properties\<close>

text \<open>Over any sequence of operations the forwarding unit stays well formed: it never holds more than the
  configured number of participants (at most fifty), its participant count is the number of
  occupied slots and of names it lists, and every participant has at most four streams, each
  published one with one to three layers and a valid layer selected for every receiver.\<close>

theorem sfu_well_formed:
  assumes "sfu_create ok n = Some sfu0" "sfu = fold sfu_exec ops sfu0"
  shows "sfu_inv sfu \<and> length (sfu_get_participant_list sfu 50) = sfu_get_participant_count sfu"
proof -
  have "sfu_inv sfu" using assms sfu_create_inv sfu.run_inv by blast
  moreover from this have "length (filter pa_active (sf_participants sfu)) \<le> 50"
    by (simp add: sfu_inv_def)
  ultimately show ?thesis by (simp add: sfu_get_participant_list_def sfu_get_participant_count_def sfu_inv_def min_def)
qed

lemma sfu_well_formed_witness:
  "\<exists>sfu0. sfu_create True 2 = Some sfu0
     \<and> sfu_inv (fold sfu_exec [Join (Some ''a''), Publish (Some ''a'') 7 (Some [7, 8]) 2, Leave (Some ''a'')] sfu0)"
  using sfu_well_formed [of True 2 _ _ "[Join (Some ''a''), Publish (Some ''a'') 7 (Some [7, 8]) 2, Leave (Some ''a'')]", OF _ refl]
  by (simp add: sfu_create_def)

text \<open>A conference for the concrete instances: Ann publishes two layers, Bob is limited to the lower one.\<close>

definition sample_sfu :: sfu_context where
  "sample_sfu = \<lparr>sf_participants =
       [zero_participant\<lparr>pa_id := ''ann'', pa_active := True, pa_bandwidth := 2500000, pa_stream_count := 1,
          pa_streams := (new_stream 7 (Some [7, 8]) 2)\<lparr>sm_max_layer := 2 # 0 # replicate 48 2\<rparr> # replicate 3 zero_stream\<rparr>,
        zero_participant\<lparr>pa_id := ''bob'', pa_active := True, pa_bandwidth := 2500000, pa_on_packet := Some 1\<rparr>]
       @ replicate 48 zero_participant,
     sf_count = 2, sf_max_participants = 50, sf_simulcast = True, sf_adaptation = True, sf_packets_routed = 0,
     sf_bytes_routed = 0, sf_layer_switches = 0, sf_on_joined = None, sf_on_left = None\<rparr>"

definition sample_rtp :: bytes where
  "sample_rtp = [0x80, 0, 0, 0, 0, 0, 0, 0, 0, 0, 0, 7]"

lemma sample_sfu_inv: "sfu_inv sample_sfu"
proof -
  have "stream_shape ((new_stream 7 (Some [7, 8]) 2)\<lparr>sm_max_layer := 2 # 0 # replicate 48 2\<rparr>)"
    using new_stream_ok(1) [of 7 "Some [7, 8]" 2] by (auto simp: stream_shape_def)
  with new_stream_ok(2,3) [of 7 "Some [7, 8]" 2] show ?thesis
    by (simp add: sfu_inv_def sample_sfu_def participant_ok_def) (simp add: zero_participant_def)
qed

lemma sample_accepted: "accepted sample_sfu ''ann'' sample_rtp 0 7 0"
proof -
  have "parse_rtp_ssrc sample_rtp = Some 7" by code_simp
  then show ?thesis
    by (simp add: accepted_def find_participant_def first_below_def is_participant_def
      find_stream_by_ssrc_def stream_matches_def sample_sfu_def new_stream_def upt_rec)
qed

lemma sample_receivers:
  "filter (\<lambda>i. i \<noteq> 0 \<and> gets_packet True (pa_streams (sf_participants sample_sfu ! 0) ! 0) 7 0 i (sf_participants sample_sfu ! i)) [0..<50] = [1]"
proof -
  let ?s = "pa_streams (sf_participants sample_sfu ! 0) ! 0"
  have "\<not> gets_packet True ?s 7 0 i (sf_participants sample_sfu ! i)" if "2 \<le> i" "i < 50" for i
    using that by (auto simp: gets_packet_def considered_def sample_sfu_def nth_Cons')
  moreover have "gets_packet True ?s 7 0 1 (sf_participants sample_sfu ! 1)"
    by (simp add: gets_packet_def considered_def next_layer_def should_switch_layer_def target_layer_def sample_sfu_def
        new_stream_def zero_stream_def zero_participant_def select_layer_for_bandwidth_def Let_def nth_Cons')
  moreover have "[0..<50] = 0 # 1 # [2..<50]" by (simp add: upt_rec)
  ultimately show ?thesis by (simp only: filter.simps) (auto simp: filter_empty_conv)
qed

text \<open>C32. Exact routing: a packet of a published stream is handed, byte for byte and in slot order, to exactly
  the other members that registered a callback, are allowed the stream and are - after this
  packet's layer decision - on the packet's layer (every layer when the stream has one); the
  result counts them, and each member's layer becomes the one that decision gives, independently
  of the other members.  Any other packet is refused without effect.\<close>

theorem sfu_forward_exact:
  assumes "sfu_inv sfu" "sfu_forward_packet sfu (Some pid) (Some packet) now = (n, sfu', outs)"
  shows "if accepted sfu pid packet si ssrc k
    then let s = pa_streams (sf_participants sfu ! si) ! k; a = sf_adaptation sfu;
             rs = filter (\<lambda>i. i \<noteq> si \<and> gets_packet a s ssrc now i (sf_participants sfu ! i)) [0..<50]
         in filter delivery outs = map (\<lambda>i. To_Receiver (the (pa_on_packet (sf_participants sfu ! i))) packet) rs
          \<and> n = int (length rs)
          \<and> (\<forall>i<50. sm_current (pa_streams (sf_participants sfu' ! si) ! k) ! i
                 = layer_after a s now si i (sf_participants sfu ! i))
    else (\<nexists>si ssrc k. accepted sfu pid packet si ssrc k) \<longrightarrow> n = - 1 \<and> sfu' = sfu \<and> outs = []"
proof (cases "accepted sfu pid packet si ssrc k")
  case True
  with forward_packet_state [OF assms(1) True assms(2) refl] forward_packet_delivers [OF assms(1) True assms(2) refl]
  show ?thesis by (simp add: Let_def)
next
  case False
  then show ?thesis using assms(2) forward_packet_refused [of "Some pid" "Some packet" sfu now] by auto
qed

lemma sfu_forward_exact_witness:
  "sfu_inv sample_sfu \<and> fst (sfu_forward_packet sample_sfu (Some ''ann'') (Some sample_rtp) 0) = 1"
proof -
  obtain n sfu' outs where f: "sfu_forward_packet sample_sfu (Some ''ann'') (Some sample_rtp) 0 = (n, sfu', outs)"
    by (cases "sfu_forward_packet sample_sfu (Some ''ann'') (Some sample_rtp) 0") auto
  have "sf_adaptation sample_sfu" by (simp add: sample_sfu_def)
  with sfu_forward_exact [OF sample_sfu_inv f, of 0 7 0] sample_accepted sample_receivers sample_sfu_inv f show ?thesis
    by (simp add: Let_def)
qed

text \<open>C27. A receiver is never sent more than it may have: every packet handed to a callback is the packet
  just received, goes to another active member whose policy allows the stream, and - when the
  stream is simulcast - belongs to a layer no higher than that member's policy, no higher than the
  highest published layer and, while bandwidth adaptation is switched on, no higher than its bandwidth allows.\<close>

theorem sfu_layer_policy:
  assumes "sfu_inv sfu" "accepted sfu pid packet si ssrc k" "s = pa_streams (sf_participants sfu ! si) ! k"
    and "sfu_forward_packet sfu (Some pid) (Some packet) now = (n, sfu', outs)" "To_Receiver c b \<in> set outs"
  shows "b = packet \<and> (\<exists>i p. i < 50 \<and> p = sf_participants sfu ! i \<and> i \<noteq> si \<and> pa_active p \<and> pa_on_packet p = Some c \<and> sm_enabled s ! i
    \<and> (sm_layer_count s = 1 \<or> (\<exists>l. ssrc = sm_layer_ssrcs s ! l \<and> l \<le> sm_max_layer s ! i \<and> l < sm_layer_count s
         \<and> (sf_adaptation sfu \<longrightarrow> l \<le> select_layer_for_bandwidth (pa_bandwidth p)))))"
proof -
  note ok = accepted_ok [OF assms(1,2), folded assms(3)]
  have "To_Receiver c b \<in> set (filter delivery outs)" using assms(5) by simp
  then obtain i where i: "i < 50" "i \<noteq> si" "gets_packet (sf_adaptation sfu) s ssrc now i (sf_participants sfu ! i)"
      "c = the (pa_on_packet (sf_participants sfu ! i))" "b = packet"
    using forward_packet_delivers [OF assms(1,2,4) refl] assms(3) by auto
  let ?p = "sf_participants sfu ! i"
  let ?l = "next_layer (sf_adaptation sfu) s now i ?p"
  have "?l \<le> sm_max_layer s ! i \<and> ?l < sm_layer_count s \<and> (sf_adaptation sfu \<longrightarrow> ?l \<le> select_layer_for_bandwidth (pa_bandwidth ?p))"
    if "sm_layer_count s \<noteq> 1"
    using that ok(9) next_layer_le [of s "sf_adaptation sfu" now i ?p] target_layer_le [of s "sf_adaptation sfu" i ?p] by fastforce
  with i(3) have "sm_layer_count s = 1 \<or> (\<exists>l. ssrc = sm_layer_ssrcs s ! l \<and> l \<le> sm_max_layer s ! i \<and> l < sm_layer_count s
         \<and> (sf_adaptation sfu \<longrightarrow> l \<le> select_layer_for_bandwidth (pa_bandwidth ?p)))"
    unfolding gets_packet_def by metis
  with i show ?thesis by (intro conjI exI [of _ i] exI [of _ ?p]) (auto simp: gets_packet_def considered_def)
qed

lemma sfu_layer_policy_witness:
  "sfu_inv sample_sfu \<and> accepted sample_sfu ''ann'' sample_rtp 0 7 0
   \<and> (\<exists>c b. To_Receiver c b \<in> set (snd (snd (sfu_forward_packet sample_sfu (Some ''ann'') (Some sample_rtp) 0))) \<and> b = sample_rtp)"
proof -
  obtain n sfu' outs where f: "sfu_forward_packet sample_sfu (Some ''ann'') (Some sample_rtp) 0 = (n, sfu', outs)"
    by (cases "sfu_forward_packet sample_sfu (Some ''ann'') (Some sample_rtp) 0") auto
  have "sf_adaptation sample_sfu" by (simp add: sample_sfu_def)
  with forward_packet_delivers [OF sample_sfu_inv sample_accepted f refl] sample_receivers
  have "filter delivery outs = [To_Receiver (the (pa_on_packet (sf_participants sample_sfu ! 1))) sample_rtp]" by simp
  then have "To_Receiver (the (pa_on_packet (sf_participants sample_sfu ! 1))) sample_rtp \<in> set (filter delivery outs)" by simp
  then obtain c b where o: "To_Receiver c b \<in> set outs" by auto
  with sfu_layer_policy [OF sample_sfu_inv sample_accepted refl f o] sample_sfu_inv sample_accepted f show ?thesis by auto
qed

text \<open>A departure strands the members that joined later.  When the member in slot \<open>j\<close> leaves a conference
  whose members fill the first slots, the member in the last occupied slot is still active and
  still listed, but no operation that names it finds it any more: it cannot be removed, its
  packets are refused, and the same name can join a second time.\<close>

theorem sfu_departure_strands:
  assumes "sfu_inv sfu" "ps = sf_participants sfu" "m = sf_count sfu"
    and "\<forall>i<m. pa_active (ps ! i)" "\<forall>i<m. \<forall>j<m. pa_id (ps ! i) = pa_id (ps ! j) \<longrightarrow> i = j"
    and "j + 1 < m" "pid = pa_id (ps ! (m - 1))" "pid \<noteq> []" "length pid < 64"
    and "sfu_remove_participant sfu (Some (pa_id (ps ! j))) = (rc, sfu', outs)"
  shows "rc = 0 \<and> get_participant_index sfu' pid = Some (m - 1)
    \<and> sfu_remove_participant sfu' (Some pid) = (- 1, sfu', [])
    \<and> sfu_forward_packet sfu' (Some pid) pkt now = (- 1, sfu', [])
    \<and> fst (sfu_add_participant sfu' (Some pid)) = 0"
proof -
  have m: "m \<le> 50" "length ps = 50" "m \<le> sf_max_participants sfu" using assms(1-3) by (auto simp: sfu_inv_def)
  have "find_participant sfu (pa_id (ps ! j)) = Some j"
    unfolding find_participant_def assms(2,3) [symmetric]
  proof (rule first_below_eq_Some)
    fix i assume "i < j"
    then have "i < m" "j < m" "i \<noteq> j" using assms(6) by auto
    then show "\<not> is_participant (pa_id (ps ! j)) (ps ! i)" using assms(5) by (auto simp: is_participant_def)
  qed (use assms(4,6) in \<open>auto simp: is_participant_def\<close>)
  with assms(10) have e: "rc = 0" "sf_participants sfu' = ps[j := (ps ! j)\<lparr>pa_active := False\<rparr>]" "sf_count sfu' = m - 1"
      "sf_max_participants sfu' = sf_max_participants sfu"
    by (auto simp: sfu_remove_participant_def on_participant_def set_participant_def assms(2,3))
  have other: "\<not> is_participant pid (sf_participants sfu' ! i)" if "i < m - 1" for i
  proof -
    have "i < m" "m - 1 < m" "i \<noteq> m - 1" using that by auto
    then have "pa_id (ps ! i) \<noteq> pid" using assms(5,7) by blast
    with that assms(6) m e(2) show ?thesis by (cases "i = j") (auto simp: is_participant_def)
  qed
  have "is_participant pid (sf_participants sfu' ! (m - 1))"
    using assms(4,6,7) m e(2) by (auto simp: is_participant_def)
  then have idx: "get_participant_index sfu' pid = Some (m - 1)"
    unfolding get_participant_index_def by (intro first_below_eq_Some) (use other assms(6) m in auto)
  have none: "find_participant sfu' pid = None"
    using other by (simp add: find_participant_def e(3) first_below_None)
  have "free_participant_slot sfu' = Some j"
    unfolding free_participant_slot_def
    by (intro first_below_eq_Some) (use assms(4,6) m e(2) in \<open>auto simp: nth_list_update\<close>)
  then show ?thesis
    using e idx none m assms(6,8,9)
    by (auto simp: sfu_remove_participant_def on_participant_def sfu_forward_packet_def sfu_add_participant_def)
qed

lemma sfu_departure_strands_witness:
  "fst (sfu_remove_participant sample_sfu (Some ''ann'')) = 0
   \<and> fst (sfu_remove_participant (fst (snd (sfu_remove_participant sample_sfu (Some ''ann'')))) (Some ''bob'')) = - 1"
proof -
  obtain rc sfu' outs where f: "sfu_remove_participant sample_sfu (Some ''ann'') = (rc, sfu', outs)"
    by (cases "sfu_remove_participant sample_sfu (Some ''ann'')") auto
  let ?ps = "sf_participants sample_sfu"
  have ids: "pa_id (?ps ! 0) = ''ann''" "pa_id (?ps ! (2 - 1)) = ''bob''" "sf_count sample_sfu = 2"
    by (simp_all add: sample_sfu_def)
  have act: "\<forall>i<2. pa_active (?ps ! i)" "\<forall>i<2. \<forall>j<2. pa_id (?ps ! i) = pa_id (?ps ! j) \<longrightarrow> i = j"
    by (auto simp: sample_sfu_def less_2_cases_iff)
  show ?thesis
    using sfu_departure_strands [OF sample_sfu_inv refl ids(3) [symmetric] act, of 0 "''bob''" rc sfu' outs] f ids by simp
qed

text \<open>A departure followed by an arrival in the same slot leaves every published stream of the other members
  as it was: what the departed member was denied is denied to the newcomer.\<close>

lemma sfu_policy_inherited:
  assumes "sfu_inv sfu" "sfu_remove_participant sfu (Some r) = (0, sfu1, outs1)" "find_participant sfu r = Some ri"
    and "\<forall>i<ri. pa_active (sf_participants sfu ! i)"
    and "sfu_add_participant sfu1 (Some new) = (0, sfu2, outs2)"
  shows "pa_id (sf_participants sfu2 ! ri) = new \<and> pa_active (sf_participants sfu2 ! ri)
    \<and> (\<forall>si. si \<noteq> ri \<longrightarrow> pa_streams (sf_participants sfu2 ! si) = pa_streams (sf_participants sfu ! si))"
proof -
  note f = find_participant_Some [OF assms(1,3)]
  have l: "length (sf_participants sfu) = 50" using assms(1) by (simp add: sfu_inv_def)
  have e: "sf_participants sfu1 = (sf_participants sfu)[ri := (sf_participants sfu ! ri)\<lparr>pa_active := False\<rparr>]"
    using assms(2,3) by (auto simp: sfu_remove_participant_def on_participant_def set_participant_def)
  have "free_participant_slot sfu1 = Some ri"
    unfolding free_participant_slot_def
    by (intro first_below_eq_Some) (use assms(4) f e l in \<open>auto simp: nth_list_update\<close>)
  with assms(5) e l f show ?thesis
    by (auto simp: sfu_add_participant_def set_participant_def nth_list_update split: if_splits option.splits)
qed

end
