(* ===== verification/Simulcast.thy ===== *)
theory Simulcast
  imports Media_Engine Sfu
begin

text \<open>
  The simulcast sender (\<open>webrtc/src/rtc/rtp/simulcast.c\<close>): three encodings of one source, switched by the
  available bandwidth, each an RTP stream of its own.

  The codec (\<open>turbo_codec_ops_t\<close>, implemented by third-party encoders) is a parameter: \<open>'e\<close> is an encoder's
  state, \<open>'i\<close> the \<open>turbo_encoded_frame_t\<close> it fills.  \<open>malloc n\<close> is the memory \<open>malloc\<close> returns, if any;
  the two buffers of a layer are taken to be allocated, as the code does.  A result \<open>None\<close> is
  undefined behaviour: a division by zero or a read outside the caller's frame.  Lengths and products of
  dimensions are natural numbers, below the range of \<open>int\<close> for frames up to 16384 by 16384 pixels.

  Shown here: when encoding is safe and what happens otherwise; that scaling reads only pixels of the
  frame; that the layers switched on are exactly those the bandwidth allows and agree with the
  forwarding unit's choice; and that each layer is a well-formed RTP stream.
\<close>

section \<open>State\<close>

definition LAYER_COUNT :: nat where [simp]: "LAYER_COUNT = 3"

record ('e, 'i) codec_ops =
  co_payload_type :: int
  co_create_encoder :: "int \<Rightarrow> int \<Rightarrow> int \<Rightarrow> int \<Rightarrow> int \<Rightarrow> 'e option"
  co_encode :: "'e \<Rightarrow> bytes \<Rightarrow> (bytes \<times> 'i) option \<times> 'e"
  co_packetize :: "('e \<Rightarrow> 'i \<Rightarrow> rtp_fragment list option \<times> 'e) option"
  co_request_keyframe :: "('e \<Rightarrow> 'e) option"
  co_set_bitrate :: "('e \<Rightarrow> int \<Rightarrow> 'e) option"

record 'e sim_layer =
  sl_layer :: simulcast_layer
  sl_width :: nat
  sl_height :: nat
  sl_target_bitrate :: int
  sl_min_bitrate :: int
  sl_max_bitrate :: int
  sl_framerate :: nat
  sl_ssrc :: u32
  sl_seq_num :: u16
  sl_timestamp :: u32
  sl_encoder :: 'e
  sl_active :: bool
  sl_last_encode :: int
  sl_bytes_sent :: int
  sl_frames_encoded :: int
  sl_rtp_buffer :: bytes

record 'e sim_ctx =
  sc_layers :: "'e sim_layer list"
  sc_width :: nat
  sc_height :: nat
  sc_framerate :: nat
  sc_mask :: u32
  sc_bandwidth :: int
  sc_on_rtp :: "callback option"
  sc_total_bytes :: int
  sc_total_frames :: int

type_synonym sim_out = "callback \<times> simulcast_layer \<times> bytes"

section \<open>Creation\<close>

text \<open>\<open>simulcast_configure_layer\<close>; the encoder is filled in by the caller.\<close>

definition simulcast_configure_layer :: "simulcast_layer \<Rightarrow> nat \<Rightarrow> nat \<Rightarrow> nat \<Rightarrow> 'e \<Rightarrow> 'e sim_layer" where
  "simulcast_configure_layer layer_id source_width source_height source_framerate enc =
     (let l = \<lparr>sl_layer = layer_id, sl_width = 0, sl_height = 0, sl_target_bitrate = 0, sl_min_bitrate = 0,
               sl_max_bitrate = 0, sl_framerate = 0, sl_ssrc = 0, sl_seq_num = 0, sl_timestamp = 0, sl_encoder = enc,
               sl_active = False, sl_last_encode = 0, sl_bytes_sent = 0, sl_frames_encoded = 0,
               sl_rtp_buffer = replicate RTP_MAX_PACKET 0\<rparr>
      in if layer_id = LAYER_LOW
         then l\<lparr>sl_width := source_width div 4, sl_height := source_height div 4, sl_framerate := source_framerate div 2,
                sl_target_bitrate := 150000, sl_min_bitrate := 100000, sl_max_bitrate := 250000\<rparr>
         else if layer_id = LAYER_MEDIUM
         then l\<lparr>sl_width := source_width div 2, sl_height := source_height div 2, sl_framerate := source_framerate,
                sl_target_bitrate := 500000, sl_min_bitrate := 300000, sl_max_bitrate := 800000\<rparr>
         else if layer_id = LAYER_HIGH
         then l\<lparr>sl_width := source_width, sl_height := source_height, sl_framerate := source_framerate,
                sl_target_bitrate := 1500000, sl_min_bitrate := 800000, sl_max_bitrate := 2500000\<rparr>
         else l)"

definition create_layer :: "('e, 'i) codec_ops \<Rightarrow> nat \<Rightarrow> nat \<Rightarrow> nat \<Rightarrow> nat \<Rightarrow> 'e sim_layer option" where
  "create_layer codec width height framerate i =
     (let c = simulcast_configure_layer i width height framerate ()
      in case co_create_encoder codec (int (sl_width c)) (int (sl_height c)) (int (sl_framerate c)) (sl_target_bitrate c)
                (int framerate * 2) of
           None \<Rightarrow> None
         | Some e \<Rightarrow> Some ((simulcast_configure_layer i width height framerate e)\<lparr>sl_ssrc := 0x12345678 + word_of_nat i\<rparr>))"

definition turbo_simulcast_create :: "bool \<Rightarrow> ('e, 'i) codec_ops \<Rightarrow> int \<Rightarrow> int \<Rightarrow> int \<Rightarrow> 'e sim_ctx option" where
  "turbo_simulcast_create alloc_ok codec width height framerate =
     (if width \<le> 0 \<or> height \<le> 0 \<or> framerate \<le> 0 then None
      else if \<not> alloc_ok then None
      else case those (map (create_layer codec (nat width) (nat height) (nat framerate)) [0..<LAYER_COUNT]) of
             None \<Rightarrow> None
           | Some ls \<Rightarrow> Some \<lparr>sc_layers = ls, sc_width = nat width, sc_height = nat height, sc_framerate = nat framerate,
                             sc_mask = 0x07, sc_bandwidth = 2500000, sc_on_rtp = None, sc_total_bytes = 0, sc_total_frames = 0\<rparr>)"

section \<open>Bandwidth and layer control\<close>

definition bandwidth_mask :: "int \<Rightarrow> u32" where
  "bandwidth_mask bw =
     (if bw \<ge> 2000000 then 0x07 else if bw \<ge> 1000000 then 0x03 else if bw \<ge> 300000 then 0x01 else 0x00)"

definition request_keyframe :: "('e, 'i) codec_ops \<Rightarrow> 'e sim_layer \<Rightarrow> 'e sim_layer" where
  "request_keyframe codec l =
     (case co_request_keyframe codec of None \<Rightarrow> l | Some f \<Rightarrow> l\<lparr>sl_encoder := f (sl_encoder l)\<rparr>)"

definition set_layer_active :: "('e, 'i) codec_ops \<Rightarrow> u32 \<Rightarrow> nat \<Rightarrow> 'e sim_layer \<Rightarrow> 'e sim_layer" where
  "set_layer_active codec new_mask i l =
     (let should_be_active = (new_mask AND push_bit i 1 \<noteq> 0);
          l = (if should_be_active \<and> \<not> sl_active l then request_keyframe codec l else l)
      in l\<lparr>sl_active := should_be_active\<rparr>)"

definition simulcast_update_active_layers :: "('e, 'i) codec_ops \<Rightarrow> 'e sim_ctx \<Rightarrow> 'e sim_ctx" where
  "simulcast_update_active_layers codec ctx =
     (let new_mask = bandwidth_mask (sc_bandwidth ctx)
      in ctx\<lparr>sc_layers := map (\<lambda>i. set_layer_active codec new_mask i (sc_layers ctx ! i)) [0..<LAYER_COUNT],
             sc_mask := new_mask\<rparr>)"

definition turbo_simulcast_set_bandwidth :: "('e, 'i) codec_ops \<Rightarrow> int \<Rightarrow> 'e sim_ctx \<Rightarrow> 'e sim_ctx" where
  "turbo_simulcast_set_bandwidth codec bandwidth_bps ctx =
     simulcast_update_active_layers codec (ctx\<lparr>sc_bandwidth := bandwidth_bps\<rparr>)"

text \<open>The operations on one layer: ignored for a layer number out of range.\<close>

definition on_layer :: "nat \<Rightarrow> ('e sim_layer \<Rightarrow> 'e sim_layer) \<Rightarrow> 'e sim_ctx \<Rightarrow> 'e sim_ctx" where
  "on_layer layer f ctx = ctx\<lparr>sc_layers := (sc_layers ctx)[layer := f (sc_layers ctx ! layer)]\<rparr>"

definition turbo_simulcast_enable_layer :: "nat \<Rightarrow> bool \<Rightarrow> 'e sim_ctx \<Rightarrow> 'e sim_ctx" where
  "turbo_simulcast_enable_layer layer enable ctx =
     (if layer \<ge> LAYER_COUNT then ctx
      else on_layer layer (\<lambda>l. l\<lparr>sl_active := enable\<rparr>)
        (ctx\<lparr>sc_mask := (if enable then sc_mask ctx OR push_bit layer 1 else sc_mask ctx AND NOT (push_bit layer 1))\<rparr>))"

definition turbo_simulcast_is_layer_active :: "nat \<Rightarrow> 'e sim_ctx \<Rightarrow> bool" where
  "turbo_simulcast_is_layer_active layer ctx = (if layer \<ge> LAYER_COUNT then False else sl_active (sc_layers ctx ! layer))"

definition turbo_simulcast_request_keyframe :: "('e, 'i) codec_ops \<Rightarrow> nat \<Rightarrow> 'e sim_ctx \<Rightarrow> 'e sim_ctx" where
  "turbo_simulcast_request_keyframe codec layer ctx =
     (if layer \<ge> LAYER_COUNT then ctx
      else on_layer layer (\<lambda>l. if sl_active l then request_keyframe codec l else l) ctx)"

definition turbo_simulcast_set_layer_bitrate :: "('e, 'i) codec_ops \<Rightarrow> nat \<Rightarrow> int \<Rightarrow> 'e sim_ctx \<Rightarrow> 'e sim_ctx" where
  "turbo_simulcast_set_layer_bitrate codec layer bitrate_bps ctx =
     (if layer \<ge> LAYER_COUNT then ctx
      else on_layer layer (\<lambda>l.
        let b = (if bitrate_bps < sl_min_bitrate l then sl_min_bitrate l else bitrate_bps);
            b = (if b > sl_max_bitrate l then sl_max_bitrate l else b);
            l = l\<lparr>sl_target_bitrate := b\<rparr>
        in case co_set_bitrate codec of None \<Rightarrow> l | Some f \<Rightarrow> l\<lparr>sl_encoder := f (sl_encoder l) b\<rparr>) ctx)"

definition turbo_simulcast_set_rtp_callback :: "callback option \<Rightarrow> 'e sim_ctx \<Rightarrow> 'e sim_ctx" where
  "turbo_simulcast_set_rtp_callback cb ctx = ctx\<lparr>sc_on_rtp := cb\<rparr>"

definition turbo_simulcast_get_layer_stats :: "nat \<Rightarrow> 'e sim_ctx \<Rightarrow> (nat \<times> nat \<times> int \<times> int \<times> int) option" where
  "turbo_simulcast_get_layer_stats layer ctx =
     (if layer \<ge> LAYER_COUNT then None
      else let l = sc_layers ctx ! layer
           in Some (sl_width l, sl_height l, sl_target_bitrate l, sl_frames_encoded l, sl_bytes_sent l))"

definition turbo_simulcast_get_layer_ssrc :: "nat \<Rightarrow> 'e sim_ctx \<Rightarrow> u32" where
  "turbo_simulcast_get_layer_ssrc layer ctx = (if layer \<ge> LAYER_COUNT then 0 else sl_ssrc (sc_layers ctx ! layer))"

definition turbo_simulcast_set_layer_ssrc :: "nat \<Rightarrow> u32 \<Rightarrow> 'e sim_ctx \<Rightarrow> 'e sim_ctx" where
  "turbo_simulcast_set_layer_ssrc layer ssrc ctx =
     (if layer \<ge> LAYER_COUNT then ctx else on_layer layer (\<lambda>l. l\<lparr>sl_ssrc := ssrc\<rparr>) ctx)"

section \<open>Scaling\<close>

text \<open>One plane of \<open>scale_frame_simple\<close>: nearest-neighbour sampling of the \<open>sw\<close> by \<open>sh\<close> plane at offset \<open>off\<close>;
  \<open>None\<close> when a sample lies outside the source.\<close>

definition sample_at :: "nat \<Rightarrow> nat \<Rightarrow> nat \<Rightarrow> nat \<Rightarrow> nat \<Rightarrow> nat \<Rightarrow> nat \<Rightarrow> nat" where
  "sample_at off sw sh dw dh y x = off + (y * sh) div dh * sw + (x * sw) div dw"

definition scale_plane :: "bytes \<Rightarrow> nat \<Rightarrow> nat \<Rightarrow> nat \<Rightarrow> nat \<Rightarrow> nat \<Rightarrow> bytes option" where
  "scale_plane src off sw sh dw dh =
     those (concat (map (\<lambda>y. map (\<lambda>x. let i = sample_at off sw sh dw dh y x
                                      in if i < length src then Some (src ! i) else None) [0..<dw]) [0..<dh]))"

definition scale_frame_simple :: "bytes \<Rightarrow> nat \<Rightarrow> nat \<Rightarrow> bytes \<Rightarrow> nat \<Rightarrow> nat \<Rightarrow> bytes option" where
  "scale_frame_simple src src_w src_h dst dst_w dst_h =
     (let src_uv_w = src_w div 2; src_uv_h = src_h div 2; dst_uv_w = dst_w div 2; dst_uv_h = dst_h div 2;
          src_y_size = src_w * src_h; dst_y_size = dst_w * dst_h
      in case scale_plane src 0 src_w src_h dst_w dst_h of
           None \<Rightarrow> None
         | Some y \<Rightarrow>
           (case scale_plane src src_y_size src_uv_w src_uv_h dst_uv_w dst_uv_h of
              None \<Rightarrow> None
            | Some u \<Rightarrow>
              (case scale_plane src (src_y_size + src_uv_w * src_uv_h) src_uv_w src_uv_h dst_uv_w dst_uv_h of
                 None \<Rightarrow> None
               | Some v \<Rightarrow>
                 Some (mem_write (mem_write (mem_write dst 0 y) dst_y_size u)
                         (dst_y_size + dst_uv_w * dst_uv_h) v))))"

section \<open>Encoding a frame\<close>

text \<open>The packets of one encoded frame; the sequence number advances also past a fragment that does not fit.\<close>

fun send_layer_fragments ::
  "u8 \<Rightarrow> u32 \<Rightarrow> callback \<Rightarrow> rtp_fragment list \<Rightarrow> 'e sim_layer \<Rightarrow> int \<Rightarrow> 'e sim_layer \<times> int \<times> sim_out list" where
  "send_layer_fragments pt ts cb [] l total_bytes = (l, total_bytes, [])"
| "send_layer_fragments pt ts cb (f # fs) l total_bytes =
     (let l1 = l\<lparr>sl_seq_num := sl_seq_num l + 1\<rparr>
      in case rtp_packet_build pt (sl_seq_num l) ts (sl_ssrc l) (fr_marker f \<or> fr_end f) (Some (fr_data f))
                (length (fr_data f)) (sl_rtp_buffer l) of
           None \<Rightarrow> send_layer_fragments pt ts cb fs l1 total_bytes
         | Some (_, buf, packet_len) \<Rightarrow>
             if packet_len \<le> 0 then send_layer_fragments pt ts cb fs (l1\<lparr>sl_rtp_buffer := buf\<rparr>) total_bytes
             else (case send_layer_fragments pt ts cb fs
                       (l1\<lparr>sl_rtp_buffer := buf, sl_bytes_sent := sl_bytes_sent l + packet_len\<rparr>) (total_bytes + packet_len) of
                     (l2, total_bytes', outs) \<Rightarrow> (l2, total_bytes', (cb, sl_layer l, take (nat packet_len) buf) # outs)))"

definition scaled_input :: "(nat \<Rightarrow> bytes option) \<Rightarrow> nat \<Rightarrow> nat \<Rightarrow> bytes \<Rightarrow> 'e sim_layer \<Rightarrow> bytes option option" where
  "scaled_input malloc sw sh frame l =
     (if sl_width l = sw \<and> sl_height l = sh then Some (Some frame)
      else case malloc (sl_width l * sl_height l * 3 div 2) of
             None \<Rightarrow> Some None
           | Some dst \<Rightarrow> map_option Some (scale_frame_simple frame sw sh dst (sl_width l) (sl_height l)))"

text \<open>The fragments of an encoded frame: the codec's, or the whole frame when it gives none.\<close>

definition layer_fragments :: "('e, 'i) codec_ops \<Rightarrow> 'e \<Rightarrow> bytes \<Rightarrow> 'i \<Rightarrow> rtp_fragment list \<times> 'e" where
  "layer_fragments codec e encoded info =
     (let (fs, e') = (case co_packetize codec of
                        None \<Rightarrow> ([], e)
                      | Some p \<Rightarrow> (case p e info of (r, e') \<Rightarrow> (case r of None \<Rightarrow> [] | Some fs \<Rightarrow> fs, e')))
      in (if fs = [] then [\<lparr>fr_data = encoded, fr_marker = True, fr_end = True\<rparr>] else fs, e'))"

definition layer_due :: "int \<Rightarrow> 'e sim_layer \<Rightarrow> bool" where
  "layer_due timestamp_us l \<longleftrightarrow> \<not> timestamp_us - sl_last_encode l < 1000000 div int (sl_framerate l)"

definition stamp_layer :: "int \<Rightarrow> 'e sim_layer \<Rightarrow> u32 \<times> 'e sim_layer" where
  "stamp_layer timestamp_us l =
     (let timestamp_step = word_of_int (RTP_CLOCK_VIDEO div (if 0 < sl_framerate l then int (sl_framerate l) else 30))
      in if 0 < timestamp_us
         then let rtp_timestamp = ucast ((word_of_int timestamp_us :: u64) * word_of_int RTP_CLOCK_VIDEO div 1000000)
              in (rtp_timestamp, l\<lparr>sl_timestamp := rtp_timestamp + timestamp_step\<rparr>)
         else (sl_timestamp l, l\<lparr>sl_timestamp := sl_timestamp l + timestamp_step\<rparr>))"

text \<open>The body of the loop for one layer: the layer, whether a frame was encoded, the running total of bytes
  and the packets.\<close>

definition encode_layer ::
  "('e, 'i) codec_ops \<Rightarrow> (nat \<Rightarrow> bytes option) \<Rightarrow> 'e sim_ctx \<Rightarrow> bytes \<Rightarrow> int \<Rightarrow> 'e sim_layer \<Rightarrow> int
     \<Rightarrow> ('e sim_layer \<times> bool \<times> int \<times> sim_out list) option" where
  "encode_layer codec malloc ctx frame timestamp_us l total_bytes =
     (if \<not> sl_active l then Some (l, False, total_bytes, [])
      else if sl_framerate l = 0 then None
      else if \<not> layer_due timestamp_us l then Some (l, False, total_bytes, [])
      else case scaled_input malloc (sc_width ctx) (sc_height ctx) frame l of
        None \<Rightarrow> None
      | Some None \<Rightarrow> Some (l, False, total_bytes, [])
      | Some (Some input) \<Rightarrow>
        (case co_encode codec (sl_encoder l) input of
           (r, e) \<Rightarrow>
             (case r of
                None \<Rightarrow> Some (l\<lparr>sl_encoder := e\<rparr>, False, total_bytes, [])
              | Some (encoded, info) \<Rightarrow>
                if encoded = [] then Some (l\<lparr>sl_encoder := e\<rparr>, False, total_bytes, [])
                else let (rtp_timestamp, l1) = stamp_layer timestamp_us (l\<lparr>sl_encoder := e\<rparr>);
                         l2 = l1\<lparr>sl_last_encode := timestamp_us, sl_frames_encoded := sl_frames_encoded l1 + 1\<rparr>
                     in case sc_on_rtp ctx of
                          None \<Rightarrow> Some (l2, True, total_bytes, [])
                        | Some cb \<Rightarrow>
                          let (fs, e') = layer_fragments codec (sl_encoder l2) encoded info;
                              (l3, total_bytes', outs) = send_layer_fragments (word_of_int (co_payload_type codec)) rtp_timestamp cb fs
                                                           (l2\<lparr>sl_encoder := e'\<rparr>) total_bytes
                          in Some (l3, True, total_bytes', outs))))"

fun encode_layers ::
  "('e, 'i) codec_ops \<Rightarrow> (nat \<Rightarrow> bytes option) \<Rightarrow> 'e sim_ctx \<Rightarrow> bytes \<Rightarrow> int \<Rightarrow> 'e sim_layer list \<Rightarrow> int
     \<Rightarrow> ('e sim_layer list \<times> int \<times> int \<times> sim_out list) option" where
  "encode_layers codec malloc ctx frame ts [] total_bytes = Some ([], 0, total_bytes, [])"
| "encode_layers codec malloc ctx frame ts (l # ls) total_bytes =
     (case encode_layer codec malloc ctx frame ts l total_bytes of
        None \<Rightarrow> None
      | Some (l', encoded, tb1, o1) \<Rightarrow>
        (case encode_layers codec malloc ctx frame ts ls tb1 of
           None \<Rightarrow> None
         | Some (ls', n, tb2, o2) \<Rightarrow> Some (l' # ls', of_bool encoded + n, tb2, o1 @ o2)))"

definition turbo_simulcast_encode_frame ::
  "('e, 'i) codec_ops \<Rightarrow> (nat \<Rightarrow> bytes option) \<Rightarrow> 'e sim_ctx \<Rightarrow> bytes option \<Rightarrow> int \<Rightarrow> (int \<times> 'e sim_ctx \<times> sim_out list) option" where
  "turbo_simulcast_encode_frame codec malloc ctx frame_data timestamp_us =
     (case frame_data of
        None \<Rightarrow> Some (- 1, ctx, [])
      | Some frame \<Rightarrow>
        (case encode_layers codec malloc ctx frame timestamp_us (sc_layers ctx) (sc_total_bytes ctx) of
           None \<Rightarrow> None
         | Some (ls, n, tb, outs) \<Rightarrow>
             Some (n, ctx\<lparr>sc_layers := ls, sc_total_bytes := tb, sc_total_frames := sc_total_frames ctx + n\<rparr>, outs)))"

section \<open>Scaling stays inside the frame\<close>

lemma those_map_Some [simp]: "those (map Some xs) = Some xs"
  by (induction xs) simp_all

lemma sample_in_plane:
  assumes "y < dh" "x < dw" "dh \<le> sh" "dw \<le> sw"
  shows "sample_at off sw sh dw dh y x < off + sw * sh"
proof -
  have "(y * sh) div dh < sh" "(x * sw) div dw < sw"
    using assms by (auto simp: less_mult_imp_div_less mult.commute)
  then have "(y * sh) div dh * sw + (x * sw) div dw < ((y * sh) div dh + 1) * sw" "(y * sh) div dh + 1 \<le> sh" by simp_all
  then show ?thesis unfolding sample_at_def by (smt (verit) add.assoc add_less_cancel_left mult.commute mult_le_mono1 order_less_le_trans)
qed

definition sampled_plane :: "bytes \<Rightarrow> nat \<Rightarrow> nat \<Rightarrow> nat \<Rightarrow> nat \<Rightarrow> nat \<Rightarrow> bytes" where
  "sampled_plane src off sw sh dw dh =
     concat (map (\<lambda>y. map (\<lambda>x. src ! sample_at off sw sh dw dh y x) [0..<dw]) [0..<dh])"

lemma scale_plane_eq:
  assumes "off + sw * sh \<le> length src" "dh \<le> sh" "dw \<le> sw"
  shows "scale_plane src off sw sh dw dh = Some (sampled_plane src off sw sh dw dh)"
proof -
  have in_range: "sample_at off sw sh dw dh y x < length src" if "y < dh" "x < dw" for y x
    using sample_in_plane [OF that assms(2,3), of off] assms(1) by linarith
  have "concat (map (\<lambda>y. map (\<lambda>x. let i = sample_at off sw sh dw dh y x in if i < length src then Some (src ! i) else None) [0..<dw]) [0..<dh])
      = concat (map (\<lambda>y. map (\<lambda>x. Some (src ! sample_at off sw sh dw dh y x)) [0..<dw]) [0..<dh])"
    by (intro arg_cong [where f = concat] map_cong) (simp_all add: in_range Let_def)
  also have "\<dots> = map Some (sampled_plane src off sw sh dw dh)"
    by (simp add: sampled_plane_def map_concat comp_def)
  finally have "concat (map (\<lambda>y. map (\<lambda>x. let i = sample_at off sw sh dw dh y x in if i < length src then Some (src ! i) else None) [0..<dw]) [0..<dh])
      = map Some (sampled_plane src off sw sh dw dh)" .
  then show ?thesis by (simp add: scale_plane_def)
qed

lemma length_sampled_plane [simp]: "length (sampled_plane src off sw sh dw dh) = dw * dh"
  by (simp add: sampled_plane_def length_concat comp_def sum_list_triv)

definition frame_bytes :: "nat \<Rightarrow> nat \<Rightarrow> nat" where
  "frame_bytes w h = w * h + 2 * ((w div 2) * (h div 2))"

lemma frame_bytes_le: "frame_bytes w h \<le> w * h * 3 div 2"
proof -
  have "(2 * (w div 2)) * (2 * (h div 2)) \<le> w * h" by (intro mult_le_mono) simp_all
  then have "2 * (2 * ((w div 2) * (h div 2))) \<le> w * h" by (simp only: ac_simps)
  then show ?thesis unfolding frame_bytes_def by linarith
qed

lemma scale_frame_eq:
  assumes "frame_bytes sw sh \<le> length src" "dw \<le> sw" "dh \<le> sh" "length dst = dw * dh * 3 div 2"
  shows "\<exists>out. scale_frame_simple src sw sh dst dw dh = Some out \<and> length out = length dst
    \<and> take (frame_bytes dw dh) out = sampled_plane src 0 sw sh dw dh
         @ sampled_plane src (sw * sh) (sw div 2) (sh div 2) (dw div 2) (dh div 2)
         @ sampled_plane src (sw * sh + (sw div 2) * (sh div 2)) (sw div 2) (sh div 2) (dw div 2) (dh div 2)"
proof -
  let ?y = "sampled_plane src 0 sw sh dw dh"
  let ?u = "sampled_plane src (sw * sh) (sw div 2) (sh div 2) (dw div 2) (dh div 2)"
  let ?v = "sampled_plane src (sw * sh + (sw div 2) * (sh div 2)) (sw div 2) (sh div 2) (dw div 2) (dh div 2)"
  have uv: "dw div 2 \<le> sw div 2" "dh div 2 \<le> sh div 2" using assms(2,3) by (auto intro: div_le_mono)
  have "scale_frame_simple src sw sh dst dw dh
      = Some (mem_write (mem_write (mem_write dst 0 ?y) (dw * dh) ?u) (dw * dh + (dw div 2) * (dh div 2)) ?v)"
    using assms(1-3) uv by (simp add: scale_frame_simple_def scale_plane_eq frame_bytes_def Let_def)
  moreover define w where "w = ?y @ ?u @ ?v"
  moreover have "mem_write (mem_write (mem_write dst 0 ?y) (dw * dh) ?u) (dw * dh + (dw div 2) * (dh div 2)) ?v
      = w @ drop (frame_bytes dw dh) dst"
    using frame_bytes_le [of dw dh] assms(4) by (simp add: w_def mem_write_def frame_bytes_def mult_2 ac_simps)
  moreover have "length w = frame_bytes dw dh" by (simp add: w_def frame_bytes_def)
  moreover have "frame_bytes dw dh \<le> length dst" using frame_bytes_le [of dw dh] assms(4) by simp
  ultimately show ?thesis by simp
qed

section \<open>Sequences of operations\<close>

datatype sim_op =
    Encode "bytes option" int
  | Bandwidth int
  | Enable_Layer nat bool
  | Request_Keyframe nat
  | Layer_Bitrate nat int
  | Rtp_Callback "callback option"
  | Layer_Ssrc nat u32

fun sim_step :: "('e, 'i) codec_ops \<Rightarrow> (nat \<Rightarrow> bytes option) \<Rightarrow> sim_op \<Rightarrow> 'e sim_ctx \<Rightarrow> ('e sim_ctx \<times> sim_out list) option" where
  "sim_step codec malloc (Encode f ts) ctx = map_option snd (turbo_simulcast_encode_frame codec malloc ctx f ts)"
| "sim_step codec malloc (Bandwidth bw) ctx = Some (turbo_simulcast_set_bandwidth codec bw ctx, [])"
| "sim_step codec malloc (Enable_Layer i b) ctx = Some (turbo_simulcast_enable_layer i b ctx, [])"
| "sim_step codec malloc (Request_Keyframe i) ctx = Some (turbo_simulcast_request_keyframe codec i ctx, [])"
| "sim_step codec malloc (Layer_Bitrate i b) ctx = Some (turbo_simulcast_set_layer_bitrate codec i b ctx, [])"
| "sim_step codec malloc (Rtp_Callback cb) ctx = Some (turbo_simulcast_set_rtp_callback cb ctx, [])"
| "sim_step codec malloc (Layer_Ssrc i x) ctx = Some (turbo_simulcast_set_layer_ssrc i x ctx, [])"

text \<open>What no operation changes of a layer.\<close>

definition layer_key :: "'e sim_layer \<Rightarrow> simulcast_layer \<times> nat \<times> nat \<times> nat \<times> int \<times> int" where
  "layer_key l = (sl_layer l, sl_width l, sl_height l, sl_framerate l, sl_min_bitrate l, sl_max_bitrate l)"

lemma fragments_key:
  "send_layer_fragments pt ts cb fs l tb = (l', tb', outs) \<Longrightarrow> layer_key l' = layer_key l \<and> sl_active l' = sl_active l"
proof (induction fs arbitrary: l tb outs)
  case (Cons f fs)
  let ?l1 = "l\<lparr>sl_seq_num := sl_seq_num l + 1\<rparr>"
  from Cons.prems obtain l2 tb2 outs2 where "send_layer_fragments pt ts cb fs l2 tb2 = (l', tb', outs2)"
      "l2 = ?l1 \<or> (\<exists>b. l2 = ?l1\<lparr>sl_rtp_buffer := b\<rparr>) \<or> (\<exists>b n. l2 = ?l1\<lparr>sl_rtp_buffer := b, sl_bytes_sent := n\<rparr>)"
    by (auto simp: Let_def split: option.splits prod.splits if_splits) blast+
  with Cons.IH [of l2 tb2 outs2] show ?case by (auto simp: layer_key_def)
qed simp

lemma encode_layer_key:
  "encode_layer codec malloc ctx frame ts l tb = Some (l', b, tb', outs) \<Longrightarrow> layer_key l' = layer_key l \<and> sl_active l' = sl_active l"
  by (auto simp: encode_layer_def stamp_layer_def Let_def layer_key_def
      split: if_splits option.splits prod.splits dest!: fragments_key)

lemma encode_layers_key:
  "encode_layers codec malloc ctx frame ts ls tb = Some (ls', n, tb', outs)
   \<Longrightarrow> map layer_key ls' = map layer_key ls \<and> map sl_active ls' = map sl_active ls"
  by (induction ls arbitrary: tb ls' n outs) (auto split: option.splits prod.splits dest!: encode_layer_key)

lemma request_keyframe_key [simp]: "layer_key (request_keyframe codec l) = layer_key l"
  by (simp add: request_keyframe_def layer_key_def split: option.splits)

lemma set_layer_active_key [simp]: "layer_key (set_layer_active codec m i l) = layer_key l"
  by (simp add: set_layer_active_def Let_def layer_key_def request_keyframe_def split: option.splits)

lemma on_layer_map:
  "(\<And>l. g (f l) = g l) \<Longrightarrow> map g (sc_layers (on_layer i f ctx)) = map g (sc_layers ctx)"
  by (cases "i < length (sc_layers ctx)") (simp_all add: on_layer_def map_update list_update_same_conv list_update_beyond)

lemma step_key:
  assumes "sim_step codec malloc op ctx = Some (ctx', outs)" "length (sc_layers ctx) = 3"
  shows "map layer_key (sc_layers ctx') = map layer_key (sc_layers ctx) \<and> sc_width ctx' = sc_width ctx \<and> sc_height ctx' = sc_height ctx"
proof (cases op)
  case (Encode f ts)
  with assms(1) show ?thesis
    by (auto simp: turbo_simulcast_encode_frame_def split: option.splits prod.splits dest!: encode_layers_key)
next
  case (Bandwidth bw)
  have "map layer_key (map (\<lambda>i. set_layer_active codec (bandwidth_mask bw) i (sc_layers ctx ! i)) [0..<3]) = map layer_key (sc_layers ctx)"
    using assms(2) by (intro nth_equalityI) simp_all
  with Bandwidth assms(1) show ?thesis
    by (auto simp: turbo_simulcast_set_bandwidth_def simulcast_update_active_layers_def Let_def)
next
  case (Layer_Bitrate i b)
  have "layer_key ((\<lambda>l. let b = (if b < sl_min_bitrate l then sl_min_bitrate l else b);
            b = (if b > sl_max_bitrate l then sl_max_bitrate l else b); l = l\<lparr>sl_target_bitrate := b\<rparr>
        in case co_set_bitrate codec of None \<Rightarrow> l | Some f \<Rightarrow> l\<lparr>sl_encoder := f (sl_encoder l) b\<rparr>) l) = layer_key l" for l :: "'a sim_layer"
    by (simp add: layer_key_def Let_def split: option.splits)
  with Layer_Bitrate assms(1) show ?thesis
    by (auto simp: turbo_simulcast_set_layer_bitrate_def on_layer_map) (simp_all add: on_layer_def)
next
  case (Request_Keyframe i)
  with assms(1) on_layer_map [of layer_key "\<lambda>l. if sl_active l then request_keyframe codec l else l" i ctx] show ?thesis
    by (auto simp: turbo_simulcast_request_keyframe_def) (simp_all add: on_layer_def)
qed (use assms(1) in \<open>auto simp: turbo_simulcast_enable_layer_def turbo_simulcast_request_keyframe_def
    turbo_simulcast_set_rtp_callback_def turbo_simulcast_set_layer_ssrc_def on_layer_map layer_key_def split: if_splits\<close>,
  simp_all add: on_layer_def)

section \<open>Encoding is defined\<close>

definition layer_ok :: "nat \<Rightarrow> nat \<Rightarrow> simulcast_layer \<times> nat \<times> nat \<times> nat \<times> int \<times> int \<Rightarrow> bool" where
  "layer_ok sw sh k = (case k of (_, w, h, fr, _, _) \<Rightarrow> w \<le> sw \<and> h \<le> sh \<and> 0 < fr)"

definition sim_ok :: "'e sim_ctx \<Rightarrow> bool" where
  "sim_ok ctx \<longleftrightarrow> length (sc_layers ctx) = 3 \<and> list_all (layer_ok (sc_width ctx) (sc_height ctx)) (map layer_key (sc_layers ctx))"

definition malloc_sized :: "(nat \<Rightarrow> bytes option) \<Rightarrow> bool" where
  "malloc_sized malloc \<longleftrightarrow> (\<forall>n d. malloc n = Some d \<longrightarrow> length d = n)"

fun sim_admissible :: "sim_op \<Rightarrow> 'e sim_ctx \<Rightarrow> bool" where
  "sim_admissible (Encode (Some f) ts) ctx = (frame_bytes (sc_width ctx) (sc_height ctx) \<le> length f)"
| "sim_admissible op ctx = True"

lemma encode_layer_defined:
  assumes "malloc_sized malloc" "frame_bytes (sc_width ctx) (sc_height ctx) \<le> length f"
    and "layer_ok (sc_width ctx) (sc_height ctx) (layer_key l)"
  shows "encode_layer codec malloc ctx f ts l tb \<noteq> None"
proof -
  have "scaled_input malloc (sc_width ctx) (sc_height ctx) f l \<noteq> None"
    using scale_frame_eq [of "sc_width ctx" "sc_height ctx" f "sl_width l" "sl_height l"] assms
    by (fastforce simp: scaled_input_def malloc_sized_def layer_ok_def layer_key_def split: option.splits)
  moreover have "sl_framerate l \<noteq> 0" using assms(3) by (simp add: layer_ok_def layer_key_def)
  ultimately show ?thesis
    by (auto simp: encode_layer_def Let_def split: option.splits prod.splits)
qed

lemma encode_layers_defined:
  assumes "malloc_sized malloc" "frame_bytes (sc_width ctx) (sc_height ctx) \<le> length f"
    and "list_all (layer_ok (sc_width ctx) (sc_height ctx)) (map layer_key ls)"
  shows "encode_layers codec malloc ctx f ts ls tb \<noteq> None"
  using assms(3)
proof (induction ls arbitrary: tb)
  case (Cons l ls)
  then show ?case
    using encode_layer_defined [OF assms(1,2), of l codec ts tb] by (fastforce split: option.splits prod.splits)
qed simp

lemma sim_step_ok:
  assumes "sim_ok ctx" "sim_step codec malloc op ctx = Some (ctx', outs)"
  shows "sim_ok ctx' \<and> sc_width ctx' = sc_width ctx \<and> sc_height ctx' = sc_height ctx"
proof -
  have "length (sc_layers ctx) = 3" using assms(1) by (simp add: sim_ok_def)
  note k = step_key [OF assms(2) this]
  then have "length (sc_layers ctx') = 3" using assms(1) by (metis length_map sim_ok_def)
  with k assms(1) show ?thesis by (simp add: sim_ok_def)
qed

interpretation sim: progressing "\<lambda>ctx. sim_ok ctx \<and> malloc_sized malloc" sim_admissible "sim_step codec malloc"
  for codec :: "('e, 'i) codec_ops" and malloc
proof
  fix ctx :: "'e sim_ctx" and op
  assume inv: "sim_ok ctx \<and> malloc_sized malloc" and adm: "sim_admissible op ctx"
  have "sim_step codec malloc op ctx \<noteq> None"
  proof (cases op)
    case (Encode f ts)
    with inv adm show ?thesis
      by (cases f) (auto simp: turbo_simulcast_encode_frame_def sim_ok_def encode_layers_defined split: option.splits)
  qed simp_all
  with inv sim_step_ok [of ctx codec malloc op]
  show "\<exists>s' outs. sim_step codec malloc op ctx = Some (s', outs) \<and> sim_ok s' \<and> malloc_sized malloc" by fast
next
  fix ctx ctx' :: "'e sim_ctx" and op op' outs
  assume "sim_ok ctx \<and> malloc_sized malloc" "sim_step codec malloc op ctx = Some (ctx', outs)"
  with sim_step_ok [of ctx codec malloc op ctx' outs] show "sim_admissible op' ctx' = sim_admissible op' ctx"
    by (cases "(op', ctx)" rule: sim_admissible.cases) simp_all
qed

lemma create_layer_Some:
  "create_layer codec w h fr i = Some l \<Longrightarrow>
   \<exists>e. l = (simulcast_configure_layer i w h fr e)\<lparr>sl_ssrc := 0x12345678 + word_of_nat i\<rparr>"
  by (auto simp: create_layer_def Let_def split: option.splits)

lemma create_layers:
  assumes "turbo_simulcast_create ok codec w h fr = Some ctx"
  shows "0 < fr \<and> sc_width ctx = nat w \<and> sc_height ctx = nat h \<and> sc_mask ctx = 7 \<and> sc_on_rtp ctx = None
    \<and> (\<exists>e0 e1 e2 s0 s1 s2. sc_layers ctx = [
         (simulcast_configure_layer 0 (nat w) (nat h) (nat fr) e0)\<lparr>sl_ssrc := s0\<rparr>,
         (simulcast_configure_layer 1 (nat w) (nat h) (nat fr) e1)\<lparr>sl_ssrc := s1\<rparr>,
         (simulcast_configure_layer 2 (nat w) (nat h) (nat fr) e2)\<lparr>sl_ssrc := s2\<rparr>])"
proof -
  have "[0..<3] = [0, 1, 2 :: nat]" by (simp add: upt_rec)
  with assms obtain l0 l1 l2 where l: "create_layer codec (nat w) (nat h) (nat fr) 0 = Some l0"
      "create_layer codec (nat w) (nat h) (nat fr) 1 = Some l1" "create_layer codec (nat w) (nat h) (nat fr) 2 = Some l2"
    and c: "0 < fr" "sc_width ctx = nat w" "sc_height ctx = nat h" "sc_mask ctx = 7" "sc_on_rtp ctx = None" "sc_layers ctx = [l0, l1, l2]"
    by (auto simp: turbo_simulcast_create_def split: if_splits option.splits)
  from l [THEN create_layer_Some] c show ?thesis by blast
qed

lemma create_ok:
  assumes "turbo_simulcast_create ok codec w h fr = Some ctx" "2 \<le> fr"
  shows "sim_ok ctx"
  using create_layers [OF assms(1)] assms(2)
  by (auto simp: sim_ok_def layer_ok_def layer_key_def simulcast_configure_layer_def Let_def)

section \<open>The packets of a layer\<close>

text \<open>The documented contract of \<open>packetize\<close>: no fragment exceeds the \<open>mtu\<close> it is called with,
  \<open>RTP_MAX_PACKET - RTP_HEADER_SIZE\<close>; and a frame the codec does not fragment is not larger either.\<close>

definition codec_fits :: "('e, 'i) codec_ops \<Rightarrow> bool" where
  "codec_fits codec \<longleftrightarrow> (\<forall>e input enc info e1. co_encode codec e input = (Some (enc, info), e1) \<longrightarrow>
     (\<forall>f\<in>set (fst (layer_fragments codec e1 enc info)). length (fr_data f) \<le> 1488))"

text \<open>Parseable packets with consecutive sequence numbers from \<open>s\<close> on.\<close>

primrec numbered :: "u16 \<Rightarrow> bytes list \<Rightarrow> bool" where
  "numbered s [] \<longleftrightarrow> True"
| "numbered s (p # ps) \<longleftrightarrow> (\<exists>q. rtp_packet_parse p = Some q \<and> h_sequence (p_header q) = s) \<and> numbered (s + 1) ps"

lemma numbered_append: "numbered s (ps @ qs) \<longleftrightarrow> numbered s ps \<and> numbered (s + word_of_nat (length ps)) qs"
  by (induction ps arbitrary: s) (auto simp: ac_simps)

lemma numbered_nth:
  "numbered s ps \<Longrightarrow> k < length ps \<Longrightarrow> \<exists>q. rtp_packet_parse (ps ! k) = Some q \<and> h_sequence (p_header q) = s + word_of_nat k"
proof (induction ps arbitrary: s k)
  case (Cons p ps)
  show ?case
  proof (cases k)
    case (Suc j)
    with Cons.prems Cons.IH [of "s + 1" j] show ?thesis by (simp add: add.assoc)
  qed (use Cons.prems in simp)
qed simp

definition layer_packets :: "simulcast_layer \<Rightarrow> sim_out list \<Rightarrow> bytes list" where
  "layer_packets i outs = map (snd \<circ> snd) (filter (\<lambda>o1. fst (snd o1) = i) outs)"

lemma layer_packets_simps [simp]:
  "layer_packets i [] = []" "layer_packets i (a @ b) = layer_packets i a @ layer_packets i b"
  "layer_packets i ((c, j, p) # outs) = (if j = i then [p] else []) @ layer_packets i outs"
  by (simp_all add: layer_packets_def)

lemma send_fragments_numbered:
  assumes "send_layer_fragments pt ts cb fs l tb = (l', tb', outs)" "\<forall>f\<in>set fs. length (fr_data f) \<le> 1488"
    and "length (sl_rtp_buffer l) = 1500"
  shows "numbered (sl_seq_num l) (layer_packets (sl_layer l) outs)
    \<and> sl_seq_num l' = sl_seq_num l + word_of_nat (length (layer_packets (sl_layer l) outs))
    \<and> length (sl_rtp_buffer l') = 1500 \<and> (\<forall>o1\<in>set outs. fst (snd o1) = sl_layer l)"
  using assms
proof (induction fs arbitrary: l tb outs)
  case (Cons f fs)
  let ?h = "rtp_header_bytes (build_header pt (sl_seq_num l) ts (sl_ssrc l) (fr_marker f \<or> fr_end f))"
  let ?buf = "mem_write (sl_rtp_buffer l) 0 (?h @ fr_data f)"
  let ?l1 = "l\<lparr>sl_seq_num := sl_seq_num l + 1, sl_rtp_buffer := ?buf, sl_bytes_sent := sl_bytes_sent l + int (12 + length (fr_data f))\<rparr>"
  have sz: "length (fr_data f) + 12 < 2 ^ 31" "\<not> length (sl_rtp_buffer l) < 12 + length (fr_data f)"
    using Cons.prems(2,3) by auto
  have buf: "length ?buf = 1500" "take (12 + length (fr_data f)) ?buf = ?h @ fr_data f"
    using Cons.prems(2,3) by (simp_all add: mem_write_0)
  from Cons.prems(1) obtain outs' where r: "send_layer_fragments pt ts cb fs ?l1 (tb + int (12 + length (fr_data f))) = (l', tb', outs')"
      and o: "outs = (cb, sl_layer l, ?h @ fr_data f) # outs'"
    using sz(2) buf(2) by (auto simp: rtp_packet_build_eq [OF refl sz(1)] Let_def nat_add_distrib split: prod.splits)
  note IH = Cons.IH [OF r]
  have "\<exists>q. rtp_packet_parse (?h @ fr_data f) = Some q \<and> h_sequence (p_header q) = sl_seq_num l"
    using parse_built [of pt "sl_seq_num l" ts "sl_ssrc l" "fr_marker f \<or> fr_end f" "fr_data f"] by (auto simp: build_header_def)
  with IH Cons.prems(2) buf(1) show ?case unfolding o by (simp add: add.assoc)
qed simp

lemma encode_layer_numbered:
  assumes "encode_layer codec malloc ctx f ts l tb = Some (l', b, tb', outs)" "codec_fits codec" "length (sl_rtp_buffer l) = 1500"
  shows "numbered (sl_seq_num l) (layer_packets (sl_layer l) outs)
    \<and> sl_seq_num l' = sl_seq_num l + word_of_nat (length (layer_packets (sl_layer l) outs))
    \<and> length (sl_rtp_buffer l') = 1500 \<and> (\<forall>o1\<in>set outs. fst (snd o1) = sl_layer l)"
proof (cases "outs = [] \<and> sl_seq_num l' = sl_seq_num l \<and> sl_rtp_buffer l' = sl_rtp_buffer l")
  case False
  with assms(1) obtain pt rts cb fs l2 tb1 e enc info e2 e0 input where s: "send_layer_fragments pt rts cb fs l2 tb1 = (l', tb', outs)"
      and fs: "layer_fragments codec e enc info = (fs, e2)" "co_encode codec e0 input = (Some (enc, info), e)"
      and l2: "sl_seq_num l2 = sl_seq_num l" "sl_layer l2 = sl_layer l" "sl_rtp_buffer l2 = sl_rtp_buffer l"
    by (auto simp: encode_layer_def stamp_layer_def Let_def split: if_splits option.splits prod.splits)
  have "\<forall>f\<in>set fs. length (fr_data f) \<le> 1488" using assms(2) unfolding codec_fits_def by (metis fs fst_conv)
  from send_fragments_numbered [OF s this] assms(3) l2 show ?thesis by simp
qed (use assms(3) in simp)

lemma layer_packets_none: "\<forall>o1\<in>set outs. fst (snd o1) \<noteq> i \<Longrightarrow> layer_packets i outs = []"
  by (auto simp: layer_packets_def filter_empty_conv)

definition continues :: "sim_out list \<Rightarrow> 'e sim_layer \<Rightarrow> 'e sim_layer \<Rightarrow> bool" where
  "continues outs l l' \<longleftrightarrow> numbered (sl_seq_num l) (layer_packets (sl_layer l) outs)
     \<and> sl_seq_num l' = sl_seq_num l + word_of_nat (length (layer_packets (sl_layer l) outs))
     \<and> sl_layer l' = sl_layer l \<and> length (sl_rtp_buffer l') = 1500"

lemma encode_layers_numbered:
  assumes "encode_layers codec malloc ctx f ts ls tb = Some (ls', n, tb', outs)" "codec_fits codec"
    and "list_all (\<lambda>l. length (sl_rtp_buffer l) = 1500) ls" "distinct (map sl_layer ls)"
  shows "list_all2 (continues outs) ls ls' \<and> (\<forall>o1\<in>set outs. fst (snd o1) \<in> sl_layer ` set ls)"
  using assms(1,3,4)
proof (induction ls arbitrary: tb ls' n outs)
  case (Cons l ls)
  from Cons.prems(1) obtain l' b tb1 o1 ls2 n2 o2 where l: "encode_layer codec malloc ctx f ts l tb = Some (l', b, tb1, o1)"
      and ls: "encode_layers codec malloc ctx f ts ls tb1 = Some (ls2, n2, tb', o2)" and e: "ls' = l' # ls2" "outs = o1 @ o2"
    by (auto split: option.splits prod.splits)
  have bl: "length (sl_rtp_buffer l) = 1500" using Cons.prems(2) by simp
  note l1 = encode_layer_numbered [OF l assms(2) bl] encode_layer_key [OF l]
  have IH: "list_all2 (continues o2) ls ls2 \<and> (\<forall>o1\<in>set o2. fst (snd o1) \<in> sl_layer ` set ls)"
    using Cons.IH [OF ls] Cons.prems(2,3) by simp
  have "layer_packets (sl_layer l) o2 = []"
    using IH Cons.prems(3) by (intro layer_packets_none) force
  with l1 have "continues outs l l'" unfolding e by (simp add: continues_def layer_key_def)
  moreover have "layer_packets (sl_layer x) o1 = []" if "x \<in> set ls" for x
  proof (rule layer_packets_none)
    have "sl_layer x \<in> sl_layer ` set ls" using that by simp
    with Cons.prems(3) have "sl_layer x \<noteq> sl_layer l" by auto
    with l1 show "\<forall>o1\<in>set o1. fst (snd o1) \<noteq> sl_layer x" by auto
  qed
  then have "list_all2 (continues outs) ls ls2"
    using IH by (auto intro!: list_all2_all_nthI simp: e(2) continues_def list_all2_lengthD dest: list_all2_nthD)
  ultimately show ?case using l1 IH unfolding e by auto
qed simp

definition sim_shape :: "'e sim_ctx \<Rightarrow> bool" where
  "sim_shape ctx \<longleftrightarrow> map sl_layer (sc_layers ctx) = [0, 1, 2] \<and> list_all (\<lambda>l. length (sl_rtp_buffer l) = 1500) (sc_layers ctx)"

lemma sim_shapeD:
  assumes "sim_shape ctx"
  shows "length (sc_layers ctx) = 3" "distinct (map sl_layer (sc_layers ctx))"
    "list_all (\<lambda>l. length (sl_rtp_buffer l) = 1500) (sc_layers ctx)"
proof -
  from assms have m: "map sl_layer (sc_layers ctx) = [0, 1, 2]"
    and b: "list_all (\<lambda>l. length (sl_rtp_buffer l) = 1500) (sc_layers ctx)" by (simp_all add: sim_shape_def)
  have "length (map sl_layer (sc_layers ctx)) = 3" "distinct (map sl_layer (sc_layers ctx))" unfolding m by simp_all
  with b show "length (sc_layers ctx) = 3" "distinct (map sl_layer (sc_layers ctx))"
    "list_all (\<lambda>l. length (sl_rtp_buffer l) = 1500) (sc_layers ctx)" by simp_all
qed

text \<open>An operation that sends nothing keeps the numbering state of every layer.\<close>

definition send_state :: "'e sim_layer \<Rightarrow> simulcast_layer \<times> u16 \<times> bytes" where
  "send_state l = (sl_layer l, sl_seq_num l, sl_rtp_buffer l)"

lemma silent_continues:
  assumes "map send_state ls' = map send_state ls" "list_all (\<lambda>l. length (sl_rtp_buffer l) = 1500) ls"
  shows "list_all2 (continues []) ls ls'"
proof (rule list_all2_all_nthI)
  show len: "length ls = length ls'" using arg_cong [OF assms(1), of length] by simp
  fix k assume k: "k < length ls"
  have "send_state (ls' ! k) = send_state (ls ! k)" using k len assms(1) by (metis nth_map)
  with k assms(2) show "continues [] (ls ! k) (ls' ! k)"
    by (auto simp: send_state_def continues_def list_all_length)
qed

lemma request_keyframe_send [simp]: "send_state (request_keyframe codec l) = send_state l"
  by (simp add: request_keyframe_def send_state_def split: option.splits)

lemma set_layer_active_send [simp]: "send_state (set_layer_active codec m i l) = send_state l"
  by (simp add: set_layer_active_def Let_def send_state_def request_keyframe_def split: option.splits)

lemma quiet_step:
  assumes "sim_step codec malloc op ctx = Some (ctx', outs)" "\<nexists>f ts. op = Encode (Some f) ts" "length (sc_layers ctx) = 3"
  shows "map send_state (sc_layers ctx') = map send_state (sc_layers ctx) \<and> outs = []"
proof (cases op)
  case (Encode f ts)
  with assms(1,2) show ?thesis by (cases f) (auto simp: turbo_simulcast_encode_frame_def)
next
  case (Bandwidth bw)
  have "map send_state (map (\<lambda>i. set_layer_active codec (bandwidth_mask bw) i (sc_layers ctx ! i)) [0..<3]) = map send_state (sc_layers ctx)"
    using assms(3) by (intro nth_equalityI) simp_all
  with Bandwidth assms(1) show ?thesis
    by (auto simp: turbo_simulcast_set_bandwidth_def simulcast_update_active_layers_def Let_def)
next
  case (Layer_Bitrate i b)
  have "send_state ((\<lambda>l. let b = (if b < sl_min_bitrate l then sl_min_bitrate l else b);
            b = (if b > sl_max_bitrate l then sl_max_bitrate l else b); l = l\<lparr>sl_target_bitrate := b\<rparr>
        in case co_set_bitrate codec of None \<Rightarrow> l | Some f \<Rightarrow> l\<lparr>sl_encoder := f (sl_encoder l) b\<rparr>) l) = send_state l" for l :: "'a sim_layer"
    by (simp add: send_state_def Let_def split: option.splits)
  with Layer_Bitrate assms(1) show ?thesis
    by (auto simp: turbo_simulcast_set_layer_bitrate_def on_layer_map)
next
  case (Request_Keyframe i)
  with assms(1) on_layer_map [of send_state "\<lambda>l. if sl_active l then request_keyframe codec l else l" i ctx] show ?thesis
    by (auto simp: turbo_simulcast_request_keyframe_def)
qed (use assms(1) in \<open>auto simp: turbo_simulcast_enable_layer_def
    turbo_simulcast_set_rtp_callback_def turbo_simulcast_set_layer_ssrc_def on_layer_map send_state_def split: if_splits\<close>)

lemma step_continues:
  assumes "sim_step codec malloc op ctx = Some (ctx', outs)" "codec_fits codec" "sim_shape ctx"
  shows "list_all2 (continues outs) (sc_layers ctx) (sc_layers ctx')"
proof (cases "\<exists>f ts. op = Encode (Some f) ts")
  case True
  with assms(1) obtain f ts ls n tb
    where e: "encode_layers codec malloc ctx f ts (sc_layers ctx) (sc_total_bytes ctx) = Some (ls, n, tb, outs)" "sc_layers ctx' = ls"
    by (auto simp: turbo_simulcast_encode_frame_def split: option.splits)
  with encode_layers_numbered [OF e(1) assms(2)] sim_shapeD [OF assms(3)] show ?thesis by simp
next
  case False
  with quiet_step [OF assms(1)] silent_continues sim_shapeD [OF assms(3)] show ?thesis by blast
qed

lemma continues_shape:
  assumes "list_all2 (continues outs) (sc_layers ctx) (sc_layers ctx')" "sim_shape ctx"
  shows "sim_shape ctx'"
proof -
  have "map sl_layer (sc_layers ctx') = map sl_layer (sc_layers ctx)"
    using assms(1) by (induction rule: list_all2_induct) (simp_all add: continues_def)
  moreover have "list_all (\<lambda>l. length (sl_rtp_buffer l) = 1500) (sc_layers ctx')"
    using assms(1) by (induction rule: list_all2_induct) (simp_all add: continues_def)
  ultimately show ?thesis using assms(2) by (simp add: sim_shape_def)
qed

lemma continues_trans: "continues o1 l l1 \<Longrightarrow> continues o2 l1 l2 \<Longrightarrow> continues (o1 @ o2) l l2"
  by (simp add: continues_def numbered_append ac_simps)

lemma run_continues:
  assumes "run_steps (sim_step codec malloc) ops ctx = Some (ctx', outs)" "codec_fits codec" "sim_shape ctx"
  shows "list_all2 (continues outs) (sc_layers ctx) (sc_layers ctx')"
  using assms(1,3)
proof (induction ops arbitrary: ctx outs)
  case Nil
  then show ?case using silent_continues [OF refl sim_shapeD(3)] by simp
next
  case (Cons op ops)
  then obtain ctx1 o1 o2 where s: "sim_step codec malloc op ctx = Some (ctx1, o1)"
      "run_steps (sim_step codec malloc) ops ctx1 = Some (ctx', o2)" "outs = o1 @ o2"
    by (auto split: option.splits)
  note c = step_continues [OF s(1) assms(2) Cons.prems(2)]
  from list_all2_trans [OF continues_trans c Cons.IH [OF s(2) continues_shape [OF c Cons.prems(2)]]] show ?case
    unfolding s(3) .
qed

section \<open>Properties\<close>

definition sample_codec :: "(unit, unit) codec_ops" where
  "sample_codec = \<lparr>co_payload_type = 96, co_create_encoder = (\<lambda>_ _ _ _ _. Some ()),
     co_encode = (\<lambda>_ input. (Some (take 3 input, ()), ())), co_packetize = None, co_request_keyframe = None, co_set_bitrate = None\<rparr>"

lemma sample_codec_fits: "codec_fits sample_codec"
  by (auto simp: codec_fits_def sample_codec_def layer_fragments_def)

text \<open>Encoding is free of undefined behaviour for sources of at least two frames per second: over any sequence
  of operations whose frames hold a full picture - whatever the bandwidths, layer switches, time
  stamps, failed allocations and encoder errors - no division by zero occurs and scaling reads
  no byte outside the frame.  A source of one frame per second, which creation accepts, divides by
  zero at the first frame once the low layer is on.\<close>

theorem simulcast_encoding_defined:
  assumes "turbo_simulcast_create ok codec w h fr = Some ctx" "malloc_sized malloc"
  shows "(2 \<le> fr \<and> list_all (\<lambda>op. sim_admissible op ctx) ops \<longrightarrow>
           (\<exists>ctx' outs. run_steps (sim_step codec malloc) ops ctx = Some (ctx', outs)))
     \<and> (fr = 1 \<and> 300000 \<le> bw \<longrightarrow> run_steps (sim_step codec malloc) [Bandwidth bw, Encode (Some f) ts] ctx = None)"
proof (intro conjI impI)
  assume "2 \<le> fr \<and> list_all (\<lambda>op. sim_admissible op ctx) ops"
  with create_ok [OF assms(1)] assms(2) sim.run_defined [of ctx malloc ops codec]
  show "\<exists>ctx' outs. run_steps (sim_step codec malloc) ops ctx = Some (ctx', outs)" by blast
next
  assume *: "fr = 1 \<and> 300000 \<le> bw"
  from create_layers [OF assms(1)] obtain e0 s0 ls
    where l: "sc_layers ctx = (simulcast_configure_layer 0 (nat w) (nat h) (nat fr) e0)\<lparr>sl_ssrc := s0\<rparr> # ls" by blast
  let ?c = "turbo_simulcast_set_bandwidth codec bw ctx"
  have on: "bandwidth_mask bw AND 1 = 1" using * by (simp add: bandwidth_mask_def)
  obtain l0 ls' where l0: "sc_layers ?c = l0 # ls'" "sl_active l0" "sl_framerate l0 = 0"
    using l * on by (simp add: turbo_simulcast_set_bandwidth_def simulcast_update_active_layers_def set_layer_active_def Let_def
        request_keyframe_def simulcast_configure_layer_def upt_rec split: option.splits)
  then show "run_steps (sim_step codec malloc) [Bandwidth bw, Encode (Some f) ts] ctx = None"
    by (simp add: turbo_simulcast_encode_frame_def encode_layer_def)
qed

lemma simulcast_encoding_defined_witness:
  "\<exists>ctx. turbo_simulcast_create True sample_codec 4 4 30 = Some ctx \<and> malloc_sized (\<lambda>n. Some (replicate n 0))
     \<and> run_steps (sim_step sample_codec (\<lambda>n. Some (replicate n 0))) [Bandwidth 2000000, Encode (Some (replicate 24 7)) 40000] ctx \<noteq> None"
proof -
  obtain ctx where c: "turbo_simulcast_create True sample_codec 4 4 30 = Some ctx"
    by (simp add: turbo_simulcast_create_def create_layer_def sample_codec_def upt_rec Let_def)
  have m: "malloc_sized (\<lambda>n. Some (replicate n 0))" by (simp add: malloc_sized_def)
  have "list_all (\<lambda>op. sim_admissible op ctx) [Bandwidth 2000000, Encode (Some (replicate 24 7)) 40000]"
    using create_layers [OF c] by (simp add: frame_bytes_def)
  with simulcast_encoding_defined [OF c m, of "[Bandwidth 2000000, Encode (Some (replicate 24 7)) 40000]"] c m show ?thesis by auto
qed

text \<open>Every layer is a well-formed RTP stream: over any run of the sender, with a codec that respects the
  packet size it is given, the packets of each layer parse and carry the sequence numbers
  0, 1, 2, ... without gap or repetition, whatever the interleaving with the other layers and with
  bandwidth changes that switch layers off and on again.\<close>

theorem simulcast_layer_numbering:
  assumes "turbo_simulcast_create ok codec w h fr = Some ctx" "codec_fits codec"
    and "run_steps (sim_step codec malloc) ops ctx = Some (ctx', outs)" "i < 3" "k < length (layer_packets i outs)"
  shows "\<exists>q. rtp_packet_parse (layer_packets i outs ! k) = Some q \<and> h_sequence (p_header q) = word_of_nat k"
proof -
  have l: "sim_shape ctx" "sl_layer (sc_layers ctx ! i) = i" "sl_seq_num (sc_layers ctx ! i) = 0" "i < length (sc_layers ctx)"
    using create_layers [OF assms(1)] assms(4) less_Suc_eq_0_disj [of i 2]
    by (auto simp: sim_shape_def simulcast_configure_layer_def Let_def numeral_3_eq_3 less_Suc_eq)
  from list_all2_nthD [OF run_continues [OF assms(3,2) l(1)] l(4)] have "numbered 0 (layer_packets i outs)"
    by (simp add: continues_def l)
  from numbered_nth [OF this assms(5)] show ?thesis by simp
qed

lemma simulcast_layer_numbering_witness:
  "\<exists>ctx ctx' outs. turbo_simulcast_create True sample_codec 1 1 30 = Some ctx
     \<and> run_steps (sim_step sample_codec (\<lambda>n. None)) [Rtp_Callback (Some 1), Enable_Layer 2 True, Encode (Some [7, 8]) 40000] ctx
         = Some (ctx', outs)
     \<and> (\<exists>q. rtp_packet_parse (layer_packets 2 outs ! 0) = Some q \<and> h_sequence (p_header q) = 0)"
proof -
  let ?ops = "[Rtp_Callback (Some 1), Enable_Layer 2 True, Encode (Some [7, 8]) 40000]"
  obtain ctx where c: "turbo_simulcast_create True sample_codec 1 1 30 = Some ctx"
    by (simp add: turbo_simulcast_create_def create_layer_def sample_codec_def upt_rec Let_def)
  from create_layers [OF c] obtain l0 l1 l2 where l: "sc_layers ctx = [l0, l1, l2]" "\<not> sl_active l0" "\<not> sl_active l1"
      "sl_layer l2 = 2" "sl_width l2 = 1" "sl_height l2 = 1" "sl_framerate l2 = 30" "sl_last_encode l2 = 0" "length (sl_rtp_buffer l2) = 1500"
      and d: "sc_width ctx = 1" "sc_height ctx = 1"
    by (auto simp: simulcast_configure_layer_def Let_def)
  let ?l2 = "l2\<lparr>sl_active := True\<rparr>"
  let ?c2 = "ctx\<lparr>sc_on_rtp := Some 1, sc_mask := sc_mask ctx OR push_bit 2 1, sc_layers := [l0, l1, ?l2]\<rparr>"
  have quiet: "encode_layer sample_codec (\<lambda>n. None) ?c2 [7, 8] 40000 x tb = Some (x, False, tb, [])" if "\<not> sl_active x" for x tb
    using that by (simp add: encode_layer_def)
  have "\<exists>l' tb' p. encode_layer sample_codec (\<lambda>n. None) ?c2 [7, 8] 40000 ?l2 tb = Some (l', True, tb', [(1, 2, p)])" for tb
    using l d by (simp add: encode_layer_def layer_due_def scaled_input_def sample_codec_def stamp_layer_def layer_fragments_def
        rtp_packet_build_eq Let_def)
  then obtain l' tb' p where "encode_layer sample_codec (\<lambda>n. None) ?c2 [7, 8] 40000 ?l2 (sc_total_bytes ctx) = Some (l', True, tb', [(1, 2, p)])"
    by blast
  moreover have "[l0, l1, l2][2 := ?l2] = [l0, l1, ?l2]" "[l0, l1, l2] ! 2 = l2" by (simp_all add: eval_nat_numeral)
  ultimately obtain ctx' outs where r: "run_steps (sim_step sample_codec (\<lambda>n. None)) ?ops ctx = Some (ctx', outs)"
      "length (layer_packets 2 outs) = 1"
    using l quiet by (simp add: turbo_simulcast_set_rtp_callback_def turbo_simulcast_enable_layer_def on_layer_def
        turbo_simulcast_encode_frame_def)
  with simulcast_layer_numbering [OF c sample_codec_fits r(1), of 2 0] c show ?thesis by auto
qed

text \<open>Setting the bandwidth switches on exactly the layers up to the one the forwarding unit would choose for
  a receiver of that bandwidth, and none below 300 kbit/s; the mask says the same; and an encoder
  is asked for a key frame exactly when its layer was off and is now on.\<close>

lemma simulcast_bandwidth_layers:
  assumes "length (sc_layers ctx) = 3" "i < 3"
  shows "let l = sc_layers ctx ! i; ctx' = turbo_simulcast_set_bandwidth codec bw ctx; l' = sc_layers ctx' ! i
     in (sl_active l' \<longleftrightarrow> 300000 \<le> bw \<and> i \<le> select_layer_for_bandwidth bw)
      \<and> (bit (sc_mask ctx') i \<longleftrightarrow> sl_active l')
      \<and> sl_encoder l' = (case co_request_keyframe codec of
           Some f \<Rightarrow> if sl_active l' \<and> \<not> sl_active l then f (sl_encoder l) else sl_encoder l | None \<Rightarrow> sl_encoder l)"
proof -
  have i: "i = 0 \<or> i = 1 \<or> i = 2" using assms(2) by auto
  have m: "(bandwidth_mask bw AND push_bit i 1 \<noteq> 0) \<longleftrightarrow> 300000 \<le> bw \<and> i \<le> select_layer_for_bandwidth bw"
    "bit (bandwidth_mask bw) i \<longleftrightarrow> 300000 \<le> bw \<and> i \<le> select_layer_for_bandwidth bw"
    using i by (auto simp: bandwidth_mask_def select_layer_for_bandwidth_def bit_simps)
  show ?thesis
    using assms(2) m
    by (auto simp: turbo_simulcast_set_bandwidth_def simulcast_update_active_layers_def set_layer_active_def
        request_keyframe_def Let_def split: option.splits)
qed

lemma simulcast_bandwidth_layers_witness:
  "\<exists>ctx. turbo_simulcast_create True sample_codec 4 4 30 = Some ctx \<and> length (sc_layers ctx) = 3
     \<and> sl_active (sc_layers (turbo_simulcast_set_bandwidth sample_codec 1500000 ctx) ! 1)"
proof -
  obtain ctx where c: "turbo_simulcast_create True sample_codec 4 4 30 = Some ctx"
    by (simp add: turbo_simulcast_create_def create_layer_def sample_codec_def upt_rec Let_def)
  from create_layers [OF this] have "length (sc_layers ctx) = 3" by auto
  with c simulcast_bandwidth_layers [OF this, of 1 sample_codec 1500000] show ?thesis
    by (auto simp: Let_def select_layer_for_bandwidth_def)
qed

text \<open>A sender is created with every layer off although its mask says that all are on: until a bandwidth is set or
  a layer enabled, every frame is dropped.\<close>

lemma simulcast_starts_silent:
  assumes "turbo_simulcast_create ok codec w h fr = Some ctx"
  shows "sc_mask ctx = 7 \<and> turbo_simulcast_encode_frame codec malloc ctx (Some f) ts = Some (0, ctx, [])"
  using create_layers [OF assms]
  by (auto simp: turbo_simulcast_encode_frame_def encode_layer_def simulcast_configure_layer_def Let_def)

end
