(* ===== verification/Revocation.thy ===== *)
theory Revocation
  imports Prelude "HOL-Library.Char_ord"
begin

text \<open>
  The token revocation view of a node (\<open>webrtc/src/auth/turbo_media_revocation.c\<close>) and the mutex-guarded projection
  that wraps it (\<open>turbo_media_revocation_projection.c\<close>): a bounded set of SHA-256 digests, replaced by versioned
  snapshots and extended by ordered revoke events.

  The digest array is the list of its \<open>max_entries\<close> entries of 32 bytes, of which the first \<open>count\<close> are in use; a
  string is a \<open>string\<close>, a pointer that may be \<open>NULL\<close> an option; \<open>alloc_ok\<close> is whether \<open>calloc\<close> succeeds.

  Shown here: against any history of the revocation authority the view refines the authority's set - whatever
  messages arrive, in whatever order, a synchronised view answers exactly as the authority did at the
  view's version and an unsynchronised one answers unknown; a revoked token is never cleared again; and a
  snapshot newer than everything seen always brings the view back.
\<close>

unbundle bit_operations_syntax

section \<open>State\<close>

definition SHA256_BYTES :: nat where [simp]: "SHA256_BYTES = 32"
definition SHA256_HEX_BYTES :: nat where [simp]: "SHA256_HEX_BYTES = 64"
definition MAX_REVOKED_TOKENS :: nat where [simp]: "MAX_REVOKED_TOKENS = 256"

record revocation_state =
  rs_epoch :: u64
  rs_sequence :: u64
  rs_required_epoch :: u64
  rs_required_sequence :: u64
  rs_count :: nat
  rs_max_entries :: nat
  rs_synchronized :: bool
  rs_digests :: "bytes list"

datatype revocation_result = REV_ERROR | REV_APPLIED | REV_STALE | REV_GAP | REV_LIMIT

datatype revocation_status = STATUS_UNKNOWN | STATUS_CLEAR | STATUS_REVOKED

section \<open>Helpers\<close>

definition revocation_hex_nibble :: "char \<Rightarrow> u8 option" where
  "revocation_hex_nibble c =
     (if CHR ''0'' \<le> c \<and> c \<le> CHR ''9'' then Some (of_char c - of_char CHR ''0'')
      else if CHR ''a'' \<le> c \<and> c \<le> CHR ''f'' then Some (of_char c - of_char CHR ''a'' + 10)
      else None)"

text \<open>The loop over the pairs of characters.\<close>

fun parse_pairs :: "string \<Rightarrow> bytes option" where
  "parse_pairs (a # b # cs) =
     (case revocation_hex_nibble a of
        None \<Rightarrow> None
      | Some high \<Rightarrow> (case revocation_hex_nibble b of
                        None \<Rightarrow> None
                      | Some low \<Rightarrow> map_option ((#) (push_bit 4 high OR low)) (parse_pairs cs)))"
| "parse_pairs _ = Some []"

definition revocation_parse_digest :: "string option \<Rightarrow> bytes option" where
  "revocation_parse_digest value =
     (case value of None \<Rightarrow> None | Some s \<Rightarrow> if length s \<noteq> SHA256_HEX_BYTES then None else parse_pairs s)"

definition revocation_digest_equal :: "bytes \<Rightarrow> bytes \<Rightarrow> bool" where
  "revocation_digest_equal l r \<longleftrightarrow> take SHA256_BYTES l = take SHA256_BYTES r"

definition revocation_find :: "revocation_state \<Rightarrow> bytes \<Rightarrow> bool" where
  "revocation_find st digest \<longleftrightarrow> list_ex (\<lambda>i. revocation_digest_equal (rs_digests st ! i) digest) [0..<rs_count st]"

definition revocation_version_less :: "u64 \<Rightarrow> u64 \<Rightarrow> u64 \<Rightarrow> u64 \<Rightarrow> bool" where
  "revocation_version_less epoch sq other_epoch other_sq \<longleftrightarrow> epoch < other_epoch \<or> (epoch = other_epoch \<and> sq < other_sq)"

definition revocation_require_snapshot :: "revocation_state \<Rightarrow> u64 \<Rightarrow> u64 \<Rightarrow> revocation_state" where
  "revocation_require_snapshot st epoch sq =
     (if rs_required_epoch st = 0 \<or> revocation_version_less (rs_required_epoch st) (rs_required_sequence st) epoch sq
      then st\<lparr>rs_required_epoch := epoch, rs_required_sequence := sq\<rparr> else st)\<lparr>rs_synchronized := False\<rparr>"

section \<open>Operations\<close>

definition revocation_state_create :: "bool \<Rightarrow> nat \<Rightarrow> revocation_state option" where
  "revocation_state_create alloc_ok max_entries =
     (if max_entries = 0 \<or> max_entries > MAX_REVOKED_TOKENS \<or> max_entries > SIZE_MAX div SHA256_BYTES then None
      else if \<not> alloc_ok then None
      else Some \<lparr>rs_epoch = 0, rs_sequence = 0, rs_required_epoch = 0, rs_required_sequence = 0, rs_count = 0,
                 rs_max_entries = max_entries, rs_synchronized = False,
                 rs_digests = replicate max_entries (replicate SHA256_BYTES 0)\<rparr>)"

text \<open>The loop that parses the entries of a snapshot; \<open>before\<close> holds the entries already parsed.\<close>

fun parse_entries :: "bytes list \<Rightarrow> string option list \<Rightarrow> bytes list option" where
  "parse_entries before [] = Some before"
| "parse_entries before (h # hs) =
     (case revocation_parse_digest h of
        None \<Rightarrow> None
      | Some entry \<Rightarrow> if list_ex (revocation_digest_equal entry) before then None else parse_entries (before @ [entry]) hs)"

definition revocation_apply_snapshot ::
  "bool \<Rightarrow> revocation_state \<Rightarrow> u64 \<Rightarrow> u64 \<Rightarrow> string option list option \<Rightarrow> nat \<Rightarrow> revocation_result \<times> revocation_state" where
  "revocation_apply_snapshot alloc_ok st epoch sq sha256_hex count =
     (if epoch = 0 \<or> (count > 0 \<and> sha256_hex = None) then (REV_ERROR, st)
      else if rs_synchronized st \<and> (epoch < rs_epoch st \<or> (epoch = rs_epoch st \<and> sq \<le> rs_sequence st)) then (REV_STALE, st)
      else if \<not> rs_synchronized st \<and> rs_required_epoch st \<noteq> 0
              \<and> revocation_version_less epoch sq (rs_required_epoch st) (rs_required_sequence st) then (REV_STALE, st)
      else if count > rs_max_entries st then (REV_LIMIT, revocation_require_snapshot st epoch sq)
      else if count > 0 \<and> \<not> alloc_ok then (REV_ERROR, revocation_require_snapshot st epoch sq)
      else case parse_entries [] (case sha256_hex of None \<Rightarrow> [] | Some hs \<Rightarrow> take count hs) of
             None \<Rightarrow> (REV_ERROR, revocation_require_snapshot st epoch sq)
           | Some parsed \<Rightarrow>
               (REV_APPLIED,
                st\<lparr>rs_digests := parsed @ replicate (rs_max_entries st - length parsed) (replicate SHA256_BYTES 0),
                   rs_epoch := epoch, rs_sequence := sq, rs_required_epoch := 0, rs_required_sequence := 0,
                   rs_count := count, rs_synchronized := True\<rparr>))"

definition revocation_apply_revoke ::
  "revocation_state \<Rightarrow> u64 \<Rightarrow> u64 \<Rightarrow> string option \<Rightarrow> revocation_result \<times> revocation_state" where
  "revocation_apply_revoke st epoch sq sha256_hex =
     (if epoch = 0 \<or> sq = 0 \<or> sha256_hex = None then (REV_ERROR, st)
      else if \<not> rs_synchronized st then
        (if revocation_parse_digest sha256_hex = None then REV_ERROR else REV_GAP, revocation_require_snapshot st epoch sq)
      else if epoch < rs_epoch st \<or> (epoch = rs_epoch st \<and> sq \<le> rs_sequence st) then (REV_STALE, st)
      else if epoch \<noteq> rs_epoch st \<or> sq \<noteq> rs_sequence st + 1 then (REV_GAP, revocation_require_snapshot st epoch sq)
      else case revocation_parse_digest sha256_hex of
             None \<Rightarrow> (REV_ERROR, revocation_require_snapshot st epoch sq)
           | Some digest \<Rightarrow>
               if revocation_find st digest then (REV_APPLIED, st\<lparr>rs_sequence := sq\<rparr>)
               else if rs_count st \<ge> rs_max_entries st then (REV_LIMIT, revocation_require_snapshot st epoch sq)
               else (REV_APPLIED, st\<lparr>rs_digests := (rs_digests st)[rs_count st := digest], rs_count := rs_count st + 1,
                                    rs_sequence := sq\<rparr>))"

definition revocation_is_synchronized :: "revocation_state \<Rightarrow> bool" where
  "revocation_is_synchronized st = rs_synchronized st"

definition revocation_check_digest :: "revocation_state \<Rightarrow> bytes option \<Rightarrow> nat \<Rightarrow> revocation_status" where
  "revocation_check_digest st sha256 sha256_size =
     (if sha256 = None \<or> sha256_size \<noteq> SHA256_BYTES \<or> \<not> rs_synchronized st then STATUS_UNKNOWN
      else if revocation_find st (the sha256) then STATUS_REVOKED else STATUS_CLEAR)"

section \<open>The projection\<close>

text \<open>Every call holds the mutex of the projection for its whole duration, so calls are atomic.\<close>

record revocation_projection =
  pj_state :: "revocation_state option"
  pj_mutex_initialized :: bool

definition revocation_projection_create :: "bool \<Rightarrow> bool \<Rightarrow> nat \<Rightarrow> revocation_projection option" where
  "revocation_projection_create alloc_ok state_ok max_entries =
     (if \<not> alloc_ok then None
      else case revocation_state_create state_ok max_entries of
             None \<Rightarrow> None
           | Some st \<Rightarrow> Some \<lparr>pj_state = Some st, pj_mutex_initialized = True\<rparr>)"

definition revocation_projection_check_digest :: "revocation_projection \<Rightarrow> bytes option \<Rightarrow> nat \<Rightarrow> revocation_status" where
  "revocation_projection_check_digest p sha256 sha256_size =
     (case pj_state p of
        None \<Rightarrow> STATUS_UNKNOWN
      | Some st \<Rightarrow> if \<not> pj_mutex_initialized p then STATUS_UNKNOWN else revocation_check_digest st sha256 sha256_size)"

definition revocation_projection_apply_snapshot ::
  "bool \<Rightarrow> revocation_projection \<Rightarrow> u64 \<Rightarrow> u64 \<Rightarrow> string option list option \<Rightarrow> nat \<Rightarrow> revocation_result \<times> revocation_projection" where
  "revocation_projection_apply_snapshot alloc_ok p epoch sq sha256_hex count =
     (case pj_state p of
        None \<Rightarrow> (REV_ERROR, p)
      | Some st \<Rightarrow>
          if \<not> pj_mutex_initialized p then (REV_ERROR, p)
          else case revocation_apply_snapshot alloc_ok st epoch sq sha256_hex count of (c, st') \<Rightarrow> (c, p\<lparr>pj_state := Some st'\<rparr>))"

definition revocation_projection_apply_revoke ::
  "revocation_projection \<Rightarrow> u64 \<Rightarrow> u64 \<Rightarrow> string option \<Rightarrow> revocation_result \<times> revocation_projection" where
  "revocation_projection_apply_revoke p epoch sq sha256_hex =
     (case pj_state p of
        None \<Rightarrow> (REV_ERROR, p)
      | Some st \<Rightarrow>
          if \<not> pj_mutex_initialized p then (REV_ERROR, p)
          else case revocation_apply_revoke st epoch sq sha256_hex of (c, st') \<Rightarrow> (c, p\<lparr>pj_state := Some st'\<rparr>))"

definition revocation_projection_status :: "revocation_projection \<Rightarrow> (bool \<times> u64 \<times> u64 \<times> nat) option" where
  "revocation_projection_status p =
     (case pj_state p of
        None \<Rightarrow> None
      | Some st \<Rightarrow> if \<not> pj_mutex_initialized p then None
                   else Some (revocation_is_synchronized st, rs_epoch st, rs_sequence st, rs_count st))"

section \<open>The authority's history\<close>

text \<open>\<open>H (e, q)\<close> is the set of digests revoked at version \<open>(e, q)\<close>.  A well-formed snapshot carries the set of its version; a
  well-formed event says that one digest was added since the version before.  Malformed messages carry no claim.\<close>

type_synonym history = "u64 \<times> u64 \<Rightarrow> bytes set"

datatype rev_msg =
    Rev_Snapshot bool u64 u64 "string option list option" nat
  | Rev_Event u64 u64 "string option"

fun honest :: "history \<Rightarrow> rev_msg \<Rightarrow> bool" where
  "honest H (Rev_Snapshot ok e q hs n) =
     (case hs of
        None \<Rightarrow> n = 0 \<longrightarrow> H (e, q) = {}
      | Some xs \<Rightarrow> (case parse_entries [] xs of None \<Rightarrow> True | Some ds \<Rightarrow> H (e, q) = set ds))"
| "honest H (Rev_Event e q h) =
     (case revocation_parse_digest h of None \<Rightarrow> True | Some d \<Rightarrow> H (e, q) = insert d (H (e, q - 1)))"

text \<open>An array is passed with its own length, a \<open>NULL\<close> pointer with any count.\<close>

fun rev_apply :: "rev_msg \<Rightarrow> revocation_state \<Rightarrow> revocation_result \<times> revocation_state" where
  "rev_apply (Rev_Snapshot ok e q hs n) st =
     revocation_apply_snapshot ok st e q hs (case hs of None \<Rightarrow> n | Some xs \<Rightarrow> length xs)"
| "rev_apply (Rev_Event e q h) st = revocation_apply_revoke st e q h"

fun msg_version :: "rev_msg \<Rightarrow> u64 \<times> u64" where
  "msg_version (Rev_Snapshot ok e q hs n) = (e, q)"
| "msg_version (Rev_Event e q h) = (e, q)"

definition rev_version :: "revocation_state \<Rightarrow> u64 \<times> u64" where
  "rev_version st = (rs_epoch st, rs_sequence st)"

definition rev_required :: "revocation_state \<Rightarrow> u64 \<times> u64" where
  "rev_required st = (rs_required_epoch st, rs_required_sequence st)"

definition rev_entries :: "revocation_state \<Rightarrow> bytes list" where
  "rev_entries st = take (rs_count st) (rs_digests st)"

definition view_ok :: "history \<Rightarrow> revocation_state \<Rightarrow> bool" where
  "view_ok H st \<longleftrightarrow> length (rs_digests st) = rs_max_entries st \<and> rs_count st \<le> rs_max_entries st
     \<and> (\<forall>d\<in>set (rev_entries st). length d = 32)
     \<and> (if rs_synchronized st then fst (rev_required st) = 0 \<and> H (rev_version st) = set (rev_entries st)
        else rev_version st = (0, 0) \<or> fst (rev_required st) \<noteq> 0 \<and> vle (rev_version st) (rev_required st))"

lemma version_less_vle: "revocation_version_less e q e' q' \<longleftrightarrow> \<not> vle (e', q') (e, q)"
  by (auto simp: revocation_version_less_def vle_def)

lemma not_newer_vle: "(e < rs_epoch st \<or> (e = rs_epoch st \<and> q \<le> rs_sequence st)) \<longleftrightarrow> vle (e, q) (rev_version st)"
  by (auto simp: vle_def rev_version_def)

lemma parse_pairs_length: "parse_pairs s = Some d \<Longrightarrow> length d = length s div 2"
  by (induction s arbitrary: d rule: parse_pairs.induct) (auto split: option.splits)

lemma parse_digest_length: "revocation_parse_digest h = Some d \<Longrightarrow> length d = 32"
  by (auto simp: revocation_parse_digest_def dest: parse_pairs_length split: option.splits if_splits)

lemma parse_entries_Some:
  "parse_entries before hs = Some ds \<Longrightarrow> \<forall>d\<in>set before. length d = 32 \<Longrightarrow>
   length ds = length before + length hs \<and> (\<forall>d\<in>set ds. length d = 32)"
proof (induction before hs arbitrary: ds rule: parse_entries.induct)
  case (2 before h hs)
  then show ?case by (fastforce dest: parse_digest_length split: option.splits if_splits)
qed simp

lemma find_entries:
  assumes "view_ok H st" "length d = 32"
  shows "revocation_find st d \<longleftrightarrow> d \<in> set (rev_entries st)"
proof -
  have "take 32 (rs_digests st ! i) = rs_digests st ! i" if "i < rs_count st" for i
    using that assms(1) nth_mem [of i "rev_entries st"] by (simp add: view_ok_def rev_entries_def)
  then have "revocation_find st d \<longleftrightarrow> (\<exists>i<rs_count st. rs_digests st ! i = d)"
    using assms(2) by (auto simp: revocation_find_def revocation_digest_equal_def list_ex_iff)
  also have "\<dots> \<longleftrightarrow> d \<in> set (rev_entries st)"
    using assms(1) by (auto simp: view_ok_def rev_entries_def in_set_conv_nth)
  finally show ?thesis .
qed

section \<open>What a message does\<close>

text \<open>A message is ignored, or refused with a snapshot required from its version on, or applied.\<close>

lemma require_fields [simp]:
  "rs_synchronized (revocation_require_snapshot st e q) = False"
  "rev_version (revocation_require_snapshot st e q) = rev_version st"
  "rev_entries (revocation_require_snapshot st e q) = rev_entries st"
  "rs_digests (revocation_require_snapshot st e q) = rs_digests st"
  "rs_count (revocation_require_snapshot st e q) = rs_count st"
  "rs_max_entries (revocation_require_snapshot st e q) = rs_max_entries st"
  by (simp_all add: revocation_require_snapshot_def rev_version_def rev_entries_def)

lemma require_required:
  "rev_required (revocation_require_snapshot st e q)
     = (if fst (rev_required st) = 0 \<or> \<not> vle (e, q) (rev_required st) then (e, q) else rev_required st)"
  by (simp add: revocation_require_snapshot_def rev_required_def version_less_vle)

lemma require_ok:
  assumes "view_ok H st" "e \<noteq> 0" "rs_synchronized st \<longrightarrow> vle (rev_version st) (e, q)"
  shows "view_ok H (revocation_require_snapshot st e q)"
proof -
  let ?st = "revocation_require_snapshot st e q"
  have "rev_version st = (0, 0) \<or> fst (rev_required ?st) \<noteq> 0 \<and> vle (rev_version st) (rev_required ?st)"
  proof (cases "rs_synchronized st")
    case True
    with assms show ?thesis by (auto simp: require_required view_ok_def)
  next
    case False
    with assms vle_trans [of "rev_version st" "rev_required st" "(e, q)"] vle_total [of "(e, q)" "rev_required st"] show ?thesis
      by (auto simp: require_required view_ok_def)
  qed
  with assms(1) show ?thesis by (simp add: view_ok_def)
qed

lemma snapshot_not_stale:
  assumes "view_ok H st" "\<not> (rs_synchronized st \<and> vle (e, q) (rev_version st))"
    and "\<not> (\<not> rs_synchronized st \<and> fst (rev_required st) \<noteq> 0 \<and> \<not> vle (rev_required st) (e, q))"
  shows "vle (rev_version st) (e, q)"
  using assms vle_total [of "rev_version st" "(e, q)"] vle_trans [of "rev_version st" "rev_required st" "(e, q)"] vle_bottom [of "(e, q)"]
  by (auto simp: view_ok_def split: if_splits)

definition kept :: "revocation_state \<Rightarrow> u64 \<Rightarrow> u64 \<Rightarrow> revocation_state \<Rightarrow> bool" where
  "kept st e q st' \<longleftrightarrow> st' = st
     \<or> st' = revocation_require_snapshot st e q \<and> e \<noteq> 0 \<and> (rs_synchronized st \<longrightarrow> vle (rev_version st) (e, q))"

lemma kept_ok: "view_ok H st \<Longrightarrow> kept st e q st' \<Longrightarrow> view_ok H st' \<and> rev_version st' = rev_version st"
  unfolding kept_def using require_ok by auto

definition stale :: "revocation_state \<Rightarrow> u64 \<Rightarrow> u64 \<Rightarrow> bool" where
  "stale st e q \<longleftrightarrow> rs_synchronized st \<and> vle (e, q) (rev_version st)
     \<or> \<not> rs_synchronized st \<and> fst (rev_required st) \<noteq> 0 \<and> \<not> vle (rev_required st) (e, q)"

lemma apply_snapshot_eq:
  "revocation_apply_snapshot ok st e q hs n =
     (if e = 0 \<or> (n > 0 \<and> hs = None) then (REV_ERROR, st)
      else if stale st e q then (REV_STALE, st)
      else if n > rs_max_entries st then (REV_LIMIT, revocation_require_snapshot st e q)
      else if n > 0 \<and> \<not> ok then (REV_ERROR, revocation_require_snapshot st e q)
      else case parse_entries [] (case hs of None \<Rightarrow> [] | Some xs \<Rightarrow> take n xs) of
             None \<Rightarrow> (REV_ERROR, revocation_require_snapshot st e q)
           | Some ds \<Rightarrow>
               (REV_APPLIED,
                st\<lparr>rs_digests := ds @ replicate (rs_max_entries st - length ds) (replicate 32 0), rs_epoch := e, rs_sequence := q,
                   rs_required_epoch := 0, rs_required_sequence := 0, rs_count := n, rs_synchronized := True\<rparr>))"
  unfolding revocation_apply_snapshot_def stale_def not_newer_vle version_less_vle rev_required_def fst_conv SHA256_BYTES_def
  by (cases "rs_synchronized st") simp_all

lemma not_stale: "view_ok H st \<Longrightarrow> \<not> stale st e q \<Longrightarrow> vle (rev_version st) (e, q)"
  using snapshot_not_stale [of H st e q] by (auto simp: stale_def)

lemma snapshot_ok:
  assumes "view_ok H st" "honest H (Rev_Snapshot ok e q hs n)" "rev_apply (Rev_Snapshot ok e q hs n) st = (c, st')"
  shows "view_ok H st' \<and> vle (rev_version st) (rev_version st')"
proof (cases "kept st e q st'")
  case True
  with kept_ok [OF assms(1)] show ?thesis by simp
next
  case False
  let ?n = "case hs of None \<Rightarrow> n | Some xs \<Rightarrow> length xs"
  let ?xs = "case hs of None \<Rightarrow> [] | Some xs \<Rightarrow> take ?n xs"
  have g: "\<not> (e = 0 \<or> (?n > 0 \<and> hs = None))" "\<not> stale st e q"
    using False assms(3) by (auto simp: kept_def apply_snapshot_eq split: if_splits)
  then have v: "vle (rev_version st) (e, q)" using not_stale [OF assms(1)] by blast
  have m: "?n \<le> rs_max_entries st" using False assms(3) g v by (auto simp: kept_def apply_snapshot_eq split: if_splits)
  have "parse_entries [] ?xs \<noteq> None"
    using False assms(3) g v m by (cases "parse_entries [] ?xs") (auto simp: kept_def apply_snapshot_eq split: if_splits)
  then obtain ds where ds: "parse_entries [] ?xs = Some ds" by auto
  have st': "st' = st\<lparr>rs_digests := ds @ replicate (rs_max_entries st - length ds) (replicate 32 0), rs_epoch := e, rs_sequence := q,
       rs_required_epoch := 0, rs_required_sequence := 0, rs_count := ?n, rs_synchronized := True\<rparr>"
    using False assms(3) g v m ds by (auto simp: kept_def apply_snapshot_eq split: if_splits)
  from parse_entries_Some [OF ds] g(1) have "length ds = ?n" "\<forall>d\<in>set ds. length d = 32" by (auto split: option.splits)
  moreover have "H (e, q) = set ds" using assms(2) ds g(1) by (auto split: option.splits)
  ultimately show ?thesis using m v assms(1)
    by (simp add: st' view_ok_def rev_version_def rev_entries_def rev_required_def)
qed

lemma apply_revoke_eq:
  "revocation_apply_revoke st e q h =
     (if e = 0 \<or> q = 0 \<or> h = None then (REV_ERROR, st)
      else if \<not> rs_synchronized st then
        (if revocation_parse_digest h = None then REV_ERROR else REV_GAP, revocation_require_snapshot st e q)
      else if vle (e, q) (rev_version st) then (REV_STALE, st)
      else if e \<noteq> rs_epoch st \<or> q \<noteq> rs_sequence st + 1 then (REV_GAP, revocation_require_snapshot st e q)
      else case revocation_parse_digest h of
             None \<Rightarrow> (REV_ERROR, revocation_require_snapshot st e q)
           | Some d \<Rightarrow>
               if revocation_find st d then (REV_APPLIED, st\<lparr>rs_sequence := q\<rparr>)
               else if rs_count st \<ge> rs_max_entries st then (REV_LIMIT, revocation_require_snapshot st e q)
               else (REV_APPLIED, st\<lparr>rs_digests := (rs_digests st)[rs_count st := d], rs_count := rs_count st + 1,
                                    rs_sequence := q\<rparr>))"
  unfolding revocation_apply_revoke_def not_newer_vle ..

lemma event_ok:
  assumes "view_ok H st" "honest H (Rev_Event e q h)" "rev_apply (Rev_Event e q h) st = (c, st')"
  shows "view_ok H st' \<and> vle (rev_version st) (rev_version st')"
proof (cases "kept st e q st'")
  case True
  with kept_ok [OF assms(1)] show ?thesis by simp
next
  case False
  have g: "\<not> (e = 0 \<or> q = 0 \<or> h = None)" using False assms(3) by (auto simp: kept_def apply_revoke_eq split: if_splits)
  then have s: "rs_synchronized st" using False assms(3) by (auto simp: kept_def apply_revoke_eq split: if_splits)
  with g have n: "\<not> vle (e, q) (rev_version st)" using False assms(3) by (auto simp: kept_def apply_revoke_eq)
  then have v: "vle (rev_version st) (e, q)" using vle_total by blast
  with g s n have e: "e = rs_epoch st" "q = rs_sequence st + 1"
    using False assms(3) by (auto simp: kept_def apply_revoke_eq split: if_splits)
  with g s n v have "revocation_parse_digest h \<noteq> None"
    using False assms(3) by (cases "revocation_parse_digest h") (auto simp: kept_def apply_revoke_eq)
  then obtain d where d: "revocation_parse_digest h = Some d" by blast
  then have H: "H (e, q) = insert d (set (rev_entries st))" using assms(1,2) e(1,2) s by (simp add: view_ok_def rev_version_def)
  have r: "(if revocation_find st d then (REV_APPLIED, st\<lparr>rs_sequence := q\<rparr>)
      else if rs_count st \<ge> rs_max_entries st then (REV_LIMIT, revocation_require_snapshot st e q)
      else (REV_APPLIED, st\<lparr>rs_digests := (rs_digests st)[rs_count st := d], rs_count := rs_count st + 1, rs_sequence := q\<rparr>)) = (c, st')"
    using assms(3) g s n e(1,2) d by (auto simp: apply_revoke_eq)
  show ?thesis
  proof (cases "revocation_find st d")
    case True
    then have "d \<in> set (rev_entries st)" using find_entries [OF assms(1) parse_digest_length [OF d]] by simp
    moreover have "st' = st\<lparr>rs_sequence := q\<rparr>" using r True by simp
    ultimately show ?thesis using H s v e assms(1) by (simp add: view_ok_def rev_version_def rev_entries_def rev_required_def insert_absorb)
  next
    case new: False
    with r False v g have c: "rs_count st < rs_max_entries st"
      and st': "st' = st\<lparr>rs_digests := (rs_digests st)[rs_count st := d], rs_count := rs_count st + 1, rs_sequence := q\<rparr>"
      by (auto simp: kept_def split: if_splits)
    have "rev_entries st' = rev_entries st @ [d]" using c assms(1) by (simp add: st' rev_entries_def view_ok_def take_Suc_conv_app_nth)
    then show ?thesis using H s v e c assms(1) parse_digest_length [OF d] by (auto simp: st' view_ok_def rev_version_def rev_required_def)
  qed
qed

lemma rev_apply_ok: "view_ok H st \<Longrightarrow> honest H m \<Longrightarrow> rev_apply m st = (c, st') \<Longrightarrow> view_ok H st' \<and> vle (rev_version st) (rev_version st')"
  by (cases m) (use snapshot_ok event_ok in blast)+

lemma rev_create_ok: "revocation_state_create ok m = Some st \<Longrightarrow> view_ok H st"
  by (auto simp: revocation_state_create_def view_ok_def rev_entries_def rev_version_def split: if_splits)

lemma check_view:
  assumes "view_ok H st" "length d = 32"
  shows "revocation_check_digest st (Some d) 32 =
    (if \<not> rs_synchronized st then STATUS_UNKNOWN else if d \<in> H (rev_version st) then STATUS_REVOKED else STATUS_CLEAR)"
  using assms find_entries [OF assms] by (auto simp: revocation_check_digest_def view_ok_def)

section \<open>Runs of the projection\<close>

fun rev_deliver :: "rev_msg \<Rightarrow> revocation_projection \<Rightarrow> revocation_projection" where
  "rev_deliver (Rev_Snapshot ok e q hs n) p =
     snd (revocation_projection_apply_snapshot ok p e q hs (case hs of None \<Rightarrow> n | Some xs \<Rightarrow> length xs))"
| "rev_deliver (Rev_Event e q h) p = snd (revocation_projection_apply_revoke p e q h)"

lemma rev_deliver_state:
  "pj_state p = Some st \<Longrightarrow> pj_mutex_initialized p \<Longrightarrow> rev_deliver m p = p\<lparr>pj_state := Some (snd (rev_apply m st))\<rparr>"
  by (cases m) (simp_all add: revocation_projection_apply_snapshot_def revocation_projection_apply_revoke_def split: prod.split)

text \<open>The laws a replica of a versioned authority obeys: every delivered message keeps its invariant and never takes its
  version back.  A run of deliveries then has both properties as a whole.\<close>

locale replica =
  fixes inv :: "'s \<Rightarrow> bool" and fits :: "'m \<Rightarrow> bool" and deliver :: "'m \<Rightarrow> 's \<Rightarrow> 's" and ver :: "'s \<Rightarrow> u64 \<times> u64"
  assumes deliver_inv: "inv s \<Longrightarrow> fits m \<Longrightarrow> inv (deliver m s)"
    and deliver_ver: "inv s \<Longrightarrow> fits m \<Longrightarrow> vle (ver s) (ver (deliver m s))"
begin

lemma run_inv: "inv s \<Longrightarrow> list_all fits ms \<Longrightarrow> inv (fold deliver ms s)"
  by (induction ms arbitrary: s) (simp_all add: deliver_inv)

lemma run_ver: "inv s \<Longrightarrow> list_all fits ms \<Longrightarrow> vle (ver s) (ver (fold deliver ms s))"
proof (induction ms arbitrary: s)
  case (Cons m ms)
  then show ?case using vle_trans [OF deliver_ver [of s m]] deliver_inv [of s m] by simp
qed simp

end

definition projection_ok :: "history \<Rightarrow> revocation_projection \<Rightarrow> bool" where
  "projection_ok H p \<longleftrightarrow> pj_mutex_initialized p \<and> (case pj_state p of None \<Rightarrow> False | Some st \<Rightarrow> view_ok H st)"

definition projection_version :: "revocation_projection \<Rightarrow> u64 \<times> u64" where
  "projection_version p = (case pj_state p of None \<Rightarrow> (0, 0) | Some st \<Rightarrow> rev_version st)"

interpretation revocation: replica "projection_ok H" "honest H" rev_deliver projection_version for H
proof unfold_locales
  fix p m assume a: "projection_ok H p" "honest H m"
  then obtain st where "pj_state p = Some st" "pj_mutex_initialized p" "view_ok H st"
    by (auto simp: projection_ok_def split: option.splits)
  with rev_apply_ok [OF this(3) a(2), of "fst (rev_apply m st)" "snd (rev_apply m st)"] rev_deliver_state
  show "projection_ok H (rev_deliver m p)" "vle (projection_version p) (projection_version (rev_deliver m p))"
    by (simp_all add: projection_ok_def projection_version_def)
qed

lemma projection_create_ok: "revocation_projection_create a b k = Some p \<Longrightarrow> projection_ok H p"
  by (auto simp: revocation_projection_create_def projection_ok_def rev_create_ok split: if_splits option.splits)

definition projection_synchronized :: "revocation_projection \<Rightarrow> bool" where
  "projection_synchronized p \<longleftrightarrow> (case revocation_projection_status p of None \<Rightarrow> False | Some (s, _) \<Rightarrow> s)"

lemma projection_check:
  assumes "projection_ok H p" "length d = 32"
  shows "revocation_projection_check_digest p (Some d) 32 =
    (if \<not> projection_synchronized p then STATUS_UNKNOWN
     else if d \<in> H (projection_version p) then STATUS_REVOKED else STATUS_CLEAR)"
  using assms check_view [OF _ assms(2), of H "the (pj_state p)"]
  by (auto simp: projection_ok_def revocation_projection_check_digest_def projection_synchronized_def projection_version_def
      revocation_projection_status_def revocation_is_synchronized_def split: option.splits)

section \<open>Versions seen\<close>

lemma require_versions: "rev_required (revocation_require_snapshot st e q) \<in> {rev_required st, (e, q)}"
  by (simp add: require_required)

lemma rev_apply_versions:
  "rev_version (snd (rev_apply m st)) \<in> {rev_version st, msg_version m}
     \<and> rev_required (snd (rev_apply m st)) \<in> {rev_required st, msg_version m, (0, 0)}
     \<and> rs_max_entries (snd (rev_apply m st)) = rs_max_entries st"
proof (cases m)
  case (Rev_Snapshot ok e q hs n)
  then show ?thesis using require_versions [of st e q]
    by (auto simp: apply_snapshot_eq rev_version_def [of "st\<lparr>rs_digests := _\<rparr>"] rev_required_def [of "st\<lparr>rs_digests := _\<rparr>"] split: option.split)
      (simp_all add: rev_version_def rev_required_def)
next
  case (Rev_Event e q h)
  then show ?thesis using require_versions [of st e q]
    by (auto simp: apply_revoke_eq split: option.split) (simp_all add: rev_version_def rev_required_def)
qed

lemma run_versions:
  assumes "revocation_projection_create a b k = Some p0"
  shows "\<exists>st. pj_state (fold rev_deliver ms p0) = Some st \<and> pj_mutex_initialized (fold rev_deliver ms p0) \<and> rs_max_entries st = k
    \<and> {rev_version st, rev_required st} \<subseteq> insert (0, 0) (msg_version ` set ms)"
proof (induction ms rule: rev_induct)
  case Nil
  then show ?case using assms
    by (auto simp: revocation_projection_create_def revocation_state_create_def rev_version_def rev_required_def split: if_splits)
next
  case (snoc m ms)
  then obtain st where "pj_state (fold rev_deliver ms p0) = Some st" "pj_mutex_initialized (fold rev_deliver ms p0)" "rs_max_entries st = k"
    "{rev_version st, rev_required st} \<subseteq> insert (0, 0) (msg_version ` set ms)" by blast
  with rev_deliver_state rev_apply_versions [of m st] show ?case by auto
qed

section \<open>Properties\<close>

text \<open>A history with one revoked token, and messages from it.\<close>

definition sample_digest :: bytes where "sample_digest = replicate 32 0xAA"

definition sample_hex :: "string option" where "sample_hex = Some (replicate 64 CHR ''a'')"

definition sample_projection :: revocation_projection where
  "sample_projection = \<lparr>pj_state = Some \<lparr>rs_epoch = 0, rs_sequence = 0, rs_required_epoch = 0, rs_required_sequence = 0, rs_count = 0,
     rs_max_entries = 2, rs_synchronized = False, rs_digests = replicate 2 (replicate 32 0)\<rparr>, pj_mutex_initialized = True\<rparr>"

definition sample_msgs :: "rev_msg list" where
  "sample_msgs = [Rev_Event 1 7 sample_hex, Rev_Snapshot True 1 5 (Some [sample_hex]) 0, Rev_Snapshot True 1 7 (Some [sample_hex]) 0]"

lemma sample_projection_created: "revocation_projection_create True True 2 = Some sample_projection"
  by (simp add: revocation_projection_create_def revocation_state_create_def sample_projection_def SIZE_MAX_def)

lemma sample_parsed: "revocation_parse_digest sample_hex = Some sample_digest" "parse_entries [] [sample_hex] = Some [sample_digest]"
  by code_simp+

lemma sample_honest: "list_all (honest (\<lambda>_. {sample_digest})) sample_msgs"
  unfolding sample_msgs_def by (simp add: sample_parsed del: parse_entries.simps)

text \<open>C8. The projection refines the authority.  Whatever snapshots and events of an authority's history arrive - late,
  duplicated, reordered, with gaps, malformed, or hitting allocation failures - a projection that is not synchronised
  answers unknown for every token, and a synchronised one answers revoked exactly for the tokens the authority had
  revoked at the version the projection reports.\<close>

theorem revocation_refines_authority:
  assumes "revocation_projection_create a b k = Some p0" "list_all (honest H) ms" "length d = 32" "p = fold rev_deliver ms p0"
  shows "revocation_projection_check_digest p (Some d) 32 =
    (if \<not> projection_synchronized p then STATUS_UNKNOWN
     else if d \<in> H (projection_version p) then STATUS_REVOKED else STATUS_CLEAR)"
  using projection_check revocation.run_inv [OF projection_create_ok [OF assms(1)] assms(2)] assms(3,4) by blast

lemma revocation_refines_authority_witness:
  "revocation_projection_check_digest (fold rev_deliver sample_msgs sample_projection) (Some sample_digest) 32 = STATUS_REVOKED"
proof -
  have "projection_synchronized (fold rev_deliver sample_msgs sample_projection)" by code_simp
  moreover have "length sample_digest = 32" by (simp add: sample_digest_def)
  ultimately show ?thesis using revocation_refines_authority [OF sample_projection_created sample_honest _ refl] by simp
qed

text \<open>Revocation is permanent.  When the authority never withdraws a revocation, a token the projection has once
  reported as revoked is never reported as clear afterwards, whatever messages arrive next.\<close>

theorem revocation_permanent:
  assumes "revocation_projection_create a b k = Some p0" "list_all (honest H) (ms @ ms')" "length d = 32"
    and "\<forall>v w. vle v w \<longrightarrow> H v \<subseteq> H w"
    and "revocation_projection_check_digest (fold rev_deliver ms p0) (Some d) 32 = STATUS_REVOKED"
  shows "revocation_projection_check_digest (fold rev_deliver (ms @ ms') p0) (Some d) 32 \<noteq> STATUS_CLEAR"
proof -
  let ?p = "fold rev_deliver ms p0" and ?q = "fold rev_deliver (ms @ ms') p0"
  have p: "projection_ok H ?p" using revocation.run_inv [OF projection_create_ok [OF assms(1)], where H = H and ms = ms] assms(2) by simp
  then have q: "projection_ok H ?q" "vle (projection_version ?p) (projection_version ?q)"
    using revocation.run_inv [OF p, of ms'] revocation.run_ver [OF p, of ms'] assms(2) by simp_all
  have "d \<in> H (projection_version ?p)" using assms(5) projection_check [OF p assms(3)] by (simp split: if_splits)
  then have "d \<in> H (projection_version ?q)" using assms(4) q(2) by blast
  with projection_check [OF q(1) assms(3)] show ?thesis by simp
qed

lemma revocation_permanent_witness:
  "revocation_projection_check_digest (fold rev_deliver ([Rev_Snapshot True 1 5 (Some [sample_hex]) 0] @ sample_msgs) sample_projection)
     (Some sample_digest) 32 \<noteq> STATUS_CLEAR"
proof (rule revocation_permanent [OF sample_projection_created])
  show "list_all (honest (\<lambda>_. {sample_digest})) ([Rev_Snapshot True 1 5 (Some [sample_hex]) 0] @ sample_msgs)"
    using sample_honest by (simp add: sample_parsed del: parse_entries.simps)
  show "revocation_projection_check_digest (fold rev_deliver [Rev_Snapshot True 1 5 (Some [sample_hex]) 0] sample_projection)
     (Some sample_digest) 32 = STATUS_REVOKED" by code_simp
qed (simp_all add: sample_digest_def)

text \<open>C26. Recovery.  Whatever has been delivered before, a well-formed snapshot that fits and is newer than every message
  seen so far is applied: the projection is synchronised at its version and answers by its digests.\<close>

theorem revocation_recovers:
  assumes "revocation_projection_create a b k = Some p0" "p = fold rev_deliver ms p0"
    and "\<forall>m\<in>set ms. \<not> vle (e, q) (msg_version m)" "e \<noteq> 0" "length hs \<le> k" "parse_entries [] hs = Some ds"
  shows "\<exists>p'. revocation_projection_apply_snapshot True p e q (Some hs) (length hs) = (REV_APPLIED, p')
    \<and> projection_synchronized p' \<and> projection_version p' = (e, q)
    \<and> (\<forall>d. length d = 32 \<longrightarrow>
         revocation_projection_check_digest p' (Some d) 32 = (if d \<in> set ds then STATUS_REVOKED else STATUS_CLEAR))"
proof -
  from run_versions [OF assms(1), of ms] obtain st
    where st: "pj_state p = Some st" "pj_mutex_initialized p" "rs_max_entries st = k"
      and v: "{rev_version st, rev_required st} \<subseteq> insert (0, 0) (msg_version ` set ms)" unfolding assms(2) by blast
  have "\<not> vle (e, q) (0, 0)" using assms(4) by (auto simp: vle_def)
  then have "\<not> vle (e, q) (rev_version st)" "\<not> vle (e, q) (rev_required st)" using v assms(3) by auto
  then have n: "\<not> stale st e q" using vle_total [of "rev_required st" "(e, q)"] by (auto simp: stale_def)
  let ?st = "st\<lparr>rs_digests := ds @ replicate (rs_max_entries st - length ds) (replicate 32 0), rs_epoch := e, rs_sequence := q,
       rs_required_epoch := 0, rs_required_sequence := 0, rs_count := length hs, rs_synchronized := True\<rparr>"
  have p': "revocation_projection_apply_snapshot True p e q (Some hs) (length hs) = (REV_APPLIED, p\<lparr>pj_state := Some ?st\<rparr>)"
    using st n assms(4-6) by (simp add: revocation_projection_apply_snapshot_def apply_snapshot_eq)
  have ds: "length ds = length hs" "\<forall>d\<in>set ds. length d = 32" using parse_entries_Some [OF assms(6)] by auto
  have ok: "projection_ok (\<lambda>_. set ds) (p\<lparr>pj_state := Some ?st\<rparr>)"
    using st ds assms(5) by (simp add: projection_ok_def view_ok_def rev_entries_def rev_required_def)
  have s: "projection_synchronized (p\<lparr>pj_state := Some ?st\<rparr>)"
    using st by (simp add: projection_synchronized_def revocation_projection_status_def revocation_is_synchronized_def)
  moreover have "projection_version (p\<lparr>pj_state := Some ?st\<rparr>) = (e, q)" by (simp add: projection_version_def rev_version_def)
  ultimately show ?thesis using p' projection_check [OF ok] by auto
qed

lemma revocation_recovers_witness:
  "\<exists>p'. revocation_projection_apply_snapshot True (fold rev_deliver sample_msgs sample_projection) 2 0 (Some [sample_hex]) 1 = (REV_APPLIED, p')
     \<and> projection_synchronized p' \<and> projection_version p' = (2, 0)"
proof -
  have "\<forall>m\<in>set sample_msgs. \<not> vle (2, 0) (msg_version m)" by (simp add: sample_msgs_def vle_def)
  from revocation_recovers [OF sample_projection_created refl this, of "[sample_hex]"] sample_parsed(2) show ?thesis by auto
qed

end
