(* ===== verification/Revocation_Fanout.thy ===== *)
theory Revocation_Fanout
  imports Revocation
begin

text \<open>
  The revocation fan-out of the control plane (\<open>webrtc/src/auth/turbo_media_revocation_fanout.c\<close>): delivers snapshots and
  revoke events to a bounded set of targets with bounded retries, and reconciles a target that missed an event with a
  covering snapshot.

  The two transport callbacks are parameters: functions on an abstract state of the network that also take the attempt number
  and return the result with the response the target sent.  \<open>unsigned int\<close> counters of attempts are at most 8 and are \<open>nat\<close>.

  Shown here: the report is exact and every call makes a bounded number of attempts; and when the call that
  publishes a revocation reports complete delivery, every target refuses the token.
\<close>

section \<open>State\<close>

definition FANOUT_MAX_TARGETS :: nat where [simp]: "FANOUT_MAX_TARGETS = 64"
definition FANOUT_TARGET_ID_BYTES :: nat where [simp]: "FANOUT_TARGET_ID_BYTES = 64"
definition FANOUT_MAX_ATTEMPTS :: nat where [simp]: "FANOUT_MAX_ATTEMPTS = 8"

datatype transport_result =
    TRANSPORT_APPLIED | TRANSPORT_STALE | TRANSPORT_GAP | TRANSPORT_LIMIT | TRANSPORT_ERROR | TRANSPORT_RETRYABLE | TRANSPORT_FATAL

record fanout_response =
  fr_synchronized :: bool
  fr_epoch :: u64
  fr_sequence :: u64

datatype target_state = TARGET_UNKNOWN | TARGET_SYNCHRONIZED | TARGET_RECOVERED | TARGET_FAILED

record ('w, 'c) fanout_config =
  fc_max_attempts :: nat
  fc_send_snapshot :: "('c \<Rightarrow> string \<Rightarrow> u64 \<Rightarrow> u64 \<Rightarrow> string option list \<Rightarrow> nat \<Rightarrow> 'w \<Rightarrow> transport_result \<times> fanout_response \<times> 'w) option"
  fc_send_revoke :: "('c \<Rightarrow> string \<Rightarrow> u64 \<Rightarrow> u64 \<Rightarrow> string option \<Rightarrow> nat \<Rightarrow> 'w \<Rightarrow> transport_result \<times> fanout_response \<times> 'w) option"

record 'c fanout_target =
  ft_id :: string
  ft_context :: 'c
  ft_state :: target_state
  ft_last_result :: transport_result
  ft_epoch :: u64
  ft_sequence :: u64
  ft_attempts :: nat

record ('w, 'c) fanout =
  fo_config :: "('w, 'c) fanout_config"
  fo_targets :: "'c fanout_target list"
  fo_canonical_initialized :: bool
  fo_canonical_epoch :: u64
  fo_canonical_sequence :: u64

record fanout_report =
  rp_epoch :: u64
  rp_sequence :: u64
  rp_target_count :: nat
  rp_synchronized_count :: nat
  rp_recovered_count :: nat
  rp_failed_count :: nat

section \<open>Helpers\<close>

definition fanout_id_char :: "char \<Rightarrow> bool" where
  "fanout_id_char c \<longleftrightarrow> (CHR ''A'' \<le> c \<and> c \<le> CHR ''Z'') \<or> (CHR ''a'' \<le> c \<and> c \<le> CHR ''z'')
     \<or> (CHR ''0'' \<le> c \<and> c \<le> CHR ''9'') \<or> c \<in> set ''_-.:''"

definition fanout_id_valid :: "string option \<Rightarrow> bool" where
  "fanout_id_valid v =
     (case v of None \<Rightarrow> False | Some s \<Rightarrow> s \<noteq> [] \<and> \<not> length s \<ge> FANOUT_TARGET_ID_BYTES \<and> list_all fanout_id_char s)"

definition digest_hex_valid :: "string option \<Rightarrow> bool" where
  "digest_hex_valid v =
     (case v of
        None \<Rightarrow> False
      | Some s \<Rightarrow> length s = 64
          \<and> list_all (\<lambda>c. (CHR ''0'' \<le> c \<and> c \<le> CHR ''9'') \<or> (CHR ''a'' \<le> c \<and> c \<le> CHR ''f'')) s)"

definition fanout_snapshot_contains :: "string option list \<Rightarrow> string option \<Rightarrow> bool" where
  "fanout_snapshot_contains hs digest \<longleftrightarrow> digest \<noteq> None \<and> list_ex (\<lambda>h. h = digest) hs"

text \<open>A snapshot is the list of its entries; a \<open>NULL\<close> array is only accepted with count 0, as the empty list.\<close>

definition snapshot_payload_valid :: "string option list option \<Rightarrow> nat \<Rightarrow> bool" where
  "snapshot_payload_valid sha256_hex count \<longleftrightarrow>
     \<not> (count > MAX_REVOKED_TOKENS \<or> (count > 0 \<and> sha256_hex = None))
     \<and> list_all (\<lambda>i. digest_hex_valid (the sha256_hex ! i) \<and> list_all (\<lambda>j. the sha256_hex ! i \<noteq> the sha256_hex ! j) [0..<i]) [0..<count]"

definition payload :: "string option list option \<Rightarrow> nat \<Rightarrow> string option list" where
  "payload sha256_hex count = (case sha256_hex of None \<Rightarrow> [] | Some hs \<Rightarrow> take count hs)"

definition fanout_version_less :: "u64 \<Rightarrow> u64 \<Rightarrow> u64 \<Rightarrow> u64 \<Rightarrow> bool" where
  "fanout_version_less epoch sq other_epoch other_sq \<longleftrightarrow> epoch < other_epoch \<or> (epoch = other_epoch \<and> sq < other_sq)"

definition response_covers :: "fanout_response \<Rightarrow> u64 \<Rightarrow> u64 \<Rightarrow> bool" where
  "response_covers r epoch sq \<longleftrightarrow> fr_synchronized r \<and> \<not> fanout_version_less (fr_epoch r) (fr_sequence r) epoch sq"

definition target_mark_failed :: "'c fanout_target \<Rightarrow> transport_result \<Rightarrow> nat \<Rightarrow> 'c fanout_target" where
  "target_mark_failed t r attempts = t\<lparr>ft_state := TARGET_FAILED, ft_last_result := r, ft_attempts := attempts\<rparr>"

definition target_mark_synchronized ::
  "'c fanout_target \<Rightarrow> target_state \<Rightarrow> transport_result \<Rightarrow> nat \<Rightarrow> fanout_response \<Rightarrow> 'c fanout_target" where
  "target_mark_synchronized t s r attempts resp =
     t\<lparr>ft_state := s, ft_last_result := r, ft_attempts := attempts, ft_epoch := fr_epoch resp, ft_sequence := fr_sequence resp\<rparr>"

text \<open>The retry loop of both bounded sends: the last result, the response when the target covers the version, the
  number of attempts and the network afterwards.\<close>

function send_attempts ::
  "(nat \<Rightarrow> 'w \<Rightarrow> transport_result \<times> fanout_response \<times> 'w) \<Rightarrow> u64 \<Rightarrow> u64 \<Rightarrow> nat \<Rightarrow> nat \<Rightarrow> transport_result \<Rightarrow> 'w
     \<Rightarrow> transport_result \<times> fanout_response option \<times> nat \<times> 'w" where
  "send_attempts send epoch sq max_attempts attempt result w =
     (if attempt > max_attempts then (result, None, max_attempts, w)
      else case send attempt w of
             (r, resp, w') \<Rightarrow>
               if (r = TRANSPORT_APPLIED \<or> r = TRANSPORT_STALE) \<and> response_covers resp epoch sq then (r, Some resp, attempt, w')
               else if r \<noteq> TRANSPORT_RETRYABLE then (r, None, attempt, w')
               else send_attempts send epoch sq max_attempts (attempt + 1) r w')"
  by pat_completeness auto

termination by (relation "measure (\<lambda>(send, epoch, sq, max_attempts, attempt, result, w). Suc max_attempts - attempt)") auto

declare send_attempts.simps [simp del]

definition send_snapshot_bounded ::
  "('w, 'c) fanout_config \<Rightarrow> 'c fanout_target \<Rightarrow> u64 \<Rightarrow> u64 \<Rightarrow> string option list \<Rightarrow> target_state \<Rightarrow> 'w \<Rightarrow> bool \<times> 'c fanout_target \<times> 'w" where
  "send_snapshot_bounded cfg t epoch sq hs success_state w =
     (case send_attempts (\<lambda>attempt. the (fc_send_snapshot cfg) (ft_context t) (ft_id t) epoch sq hs attempt) epoch sq
             (fc_max_attempts cfg) 1 TRANSPORT_FATAL w of
        (r, Some resp, attempts, w') \<Rightarrow> (True, target_mark_synchronized t success_state r attempts resp, w')
      | (r, None, attempts, w') \<Rightarrow> (False, target_mark_failed t r attempts, w'))"

definition send_revoke_bounded ::
  "('w, 'c) fanout_config \<Rightarrow> 'c fanout_target \<Rightarrow> u64 \<Rightarrow> u64 \<Rightarrow> string option \<Rightarrow> 'w \<Rightarrow> bool \<times> 'c fanout_target \<times> 'w" where
  "send_revoke_bounded cfg t epoch sq h w =
     (case send_attempts (\<lambda>attempt. the (fc_send_revoke cfg) (ft_context t) (ft_id t) epoch sq h attempt) epoch sq
             (fc_max_attempts cfg) 1 TRANSPORT_FATAL w of
        (r, Some resp, attempts, w') \<Rightarrow> (True, target_mark_synchronized t TARGET_SYNCHRONIZED r attempts resp, w')
      | (r, None, attempts, w') \<Rightarrow> (False, t\<lparr>ft_last_result := r, ft_attempts := attempts\<rparr>, w'))"

definition fill_report :: "('w, 'c) fanout \<Rightarrow> u64 \<Rightarrow> u64 \<Rightarrow> fanout_report" where
  "fill_report f epoch sq =
     (let ss = map ft_state (fo_targets f)
      in \<lparr>rp_epoch = epoch, rp_sequence = sq, rp_target_count = length (fo_targets f),
          rp_synchronized_count = length (filter (\<lambda>s. s = TARGET_SYNCHRONIZED \<or> s = TARGET_RECOVERED) ss),
          rp_recovered_count = length (filter (\<lambda>s. s = TARGET_RECOVERED) ss),
          rp_failed_count = length (filter (\<lambda>s. s = TARGET_FAILED) ss)\<rparr>)"

section \<open>Operations\<close>

text \<open>A target of the caller is its identifier and its context.\<close>

definition new_target :: "string option \<times> 'c \<Rightarrow> 'c fanout_target" where
  "new_target x = \<lparr>ft_id = the (fst x), ft_context = snd x, ft_state = TARGET_UNKNOWN, ft_last_result = TRANSPORT_FATAL,
     ft_epoch = 0, ft_sequence = 0, ft_attempts = 0\<rparr>"

definition revocation_fanout_create ::
  "bool \<Rightarrow> ('w, 'c) fanout_config option \<Rightarrow> (string option \<times> 'c) list option \<Rightarrow> ('w, 'c) fanout option" where
  "revocation_fanout_create alloc_ok config targets =
     (case config of
        None \<Rightarrow> None
      | Some cfg \<Rightarrow>
        (case targets of
           None \<Rightarrow> None
         | Some ts \<Rightarrow>
           if length ts = 0 \<or> length ts > FANOUT_MAX_TARGETS \<or> fc_max_attempts cfg = 0 \<or> fc_max_attempts cfg > FANOUT_MAX_ATTEMPTS
              \<or> fc_send_snapshot cfg = None \<or> fc_send_revoke cfg = None then None
           else if \<not> alloc_ok then None
           else if list_all (\<lambda>i. fanout_id_valid (fst (ts ! i)) \<and> list_all (\<lambda>j. fst (ts ! i) \<noteq> fst (ts ! j)) [0..<i]) [0..<length ts]
           then Some \<lparr>fo_config = cfg, fo_targets = map new_target ts, fo_canonical_initialized = False,
                      fo_canonical_epoch = 0, fo_canonical_sequence = 0\<rparr>
           else None))"

text \<open>The loops over the targets: how many failed, the targets and the network afterwards.\<close>

primrec over_targets ::
  "('c fanout_target \<Rightarrow> 'w \<Rightarrow> bool \<times> 'c fanout_target \<times> 'w) \<Rightarrow> 'c fanout_target list \<Rightarrow> 'w \<Rightarrow> nat \<times> 'c fanout_target list \<times> 'w" where
  "over_targets send [] w = (0, [], w)"
| "over_targets send (t # ts) w =
     (case send t w of
        (ok, t', w1) \<Rightarrow> (case over_targets send ts w1 of (failed, ts', w2) \<Rightarrow> (if ok then failed else Suc failed, t' # ts', w2)))"

definition publish_target ::
  "('w, 'c) fanout_config \<Rightarrow> u64 \<Rightarrow> u64 \<Rightarrow> string option list \<Rightarrow> 'c fanout_target \<Rightarrow> 'w \<Rightarrow> bool \<times> 'c fanout_target \<times> 'w" where
  "publish_target cfg epoch sq hs t w = send_snapshot_bounded cfg t epoch sq hs TARGET_SYNCHRONIZED w"

definition revocation_fanout_publish_snapshot ::
  "('w, 'c) fanout \<Rightarrow> u64 \<Rightarrow> u64 \<Rightarrow> string option list option \<Rightarrow> nat \<Rightarrow> 'w \<Rightarrow> int \<times> fanout_report option \<times> ('w, 'c) fanout \<times> 'w" where
  "revocation_fanout_publish_snapshot f epoch sq sha256_hex count w =
     (if epoch = 0 \<or> \<not> snapshot_payload_valid sha256_hex count
         \<or> (fo_canonical_initialized f \<and> fanout_version_less epoch sq (fo_canonical_epoch f) (fo_canonical_sequence f))
      then (- 1, None, f, w)
      else let f = (if \<not> fo_canonical_initialized f \<or> fanout_version_less (fo_canonical_epoch f) (fo_canonical_sequence f) epoch sq
                    then f\<lparr>fo_canonical_initialized := True, fo_canonical_epoch := epoch, fo_canonical_sequence := sq\<rparr> else f)
           in case over_targets (publish_target (fo_config f) epoch sq (payload sha256_hex count)) (fo_targets f) w of
                (failed, ts, w') \<Rightarrow>
                  let f = f\<lparr>fo_targets := ts\<rparr> in (if failed = 0 then 0 else 1, Some (fill_report f epoch sq), f, w'))"

definition event_ready :: "u64 \<Rightarrow> u64 \<Rightarrow> 'c fanout_target \<Rightarrow> bool" where
  "event_ready previous_epoch previous_sequence t \<longleftrightarrow>
     (ft_state t = TARGET_SYNCHRONIZED \<or> ft_state t = TARGET_RECOVERED) \<and> ft_epoch t = previous_epoch \<and> ft_sequence t = previous_sequence"

definition revoke_target ::
  "('w, 'c) fanout_config \<Rightarrow> u64 \<Rightarrow> u64 \<Rightarrow> u64 \<Rightarrow> u64 \<Rightarrow> string option \<Rightarrow> string option list \<Rightarrow> 'c fanout_target \<Rightarrow> 'w
     \<Rightarrow> bool \<times> 'c fanout_target \<times> 'w" where
  "revoke_target cfg previous_epoch previous_sequence epoch sq h covering t w =
     (if event_ready previous_epoch previous_sequence t
      then case send_revoke_bounded cfg t epoch sq h w of
             (ok, t', w') \<Rightarrow> if ok then (True, t', w') else send_snapshot_bounded cfg t' epoch sq covering TARGET_RECOVERED w'
      else send_snapshot_bounded cfg t epoch sq covering TARGET_RECOVERED w)"

definition revocation_fanout_publish_revoke ::
  "('w, 'c) fanout \<Rightarrow> u64 \<Rightarrow> u64 \<Rightarrow> string option \<Rightarrow> string option list option \<Rightarrow> nat \<Rightarrow> 'w
     \<Rightarrow> int \<times> fanout_report option \<times> ('w, 'c) fanout \<times> 'w" where
  "revocation_fanout_publish_revoke f epoch sq h covering count w =
     (if \<not> digest_hex_valid h \<or> epoch = 0 \<or> sq = 0 \<or> \<not> fo_canonical_initialized f \<or> epoch \<noteq> fo_canonical_epoch f
         \<or> fo_canonical_sequence f = - 1 \<or> sq \<noteq> fo_canonical_sequence f + 1
         \<or> \<not> snapshot_payload_valid covering count \<or> \<not> fanout_snapshot_contains (payload covering count) h
      then (- 1, None, f, w)
      else case over_targets (revoke_target (fo_config f) (fo_canonical_epoch f) (fo_canonical_sequence f) epoch sq h (payload covering count))
                  (fo_targets f) w of
             (failed, ts, w') \<Rightarrow>
               let f = f\<lparr>fo_canonical_sequence := sq, fo_targets := ts\<rparr>
               in (if failed = 0 then 0 else 1, Some (fill_report f epoch sq), f, w'))"

definition revocation_fanout_get_target_status ::
  "('w, 'c) fanout \<Rightarrow> nat \<Rightarrow> (string \<times> target_state \<times> transport_result \<times> u64 \<times> u64 \<times> nat) option" where
  "revocation_fanout_get_target_status f i =
     (if i \<ge> length (fo_targets f) then None
      else let t = fo_targets f ! i in Some (ft_id t, ft_state t, ft_last_result t, ft_epoch t, ft_sequence t, ft_attempts t))"

definition revocation_fanout_get_canonical_version :: "('w, 'c) fanout \<Rightarrow> bool \<times> u64 \<times> u64" where
  "revocation_fanout_get_canonical_version f = (fo_canonical_initialized f, fo_canonical_epoch f, fo_canonical_sequence f)"

section \<open>The retry loop\<close>

lemma send_attempts_bounds:
  "send_attempts send e q m k r0 w = (r, a, n, w') \<Longrightarrow> k \<le> m \<Longrightarrow> k \<le> n \<and> n \<le> m"
proof (induction send e q m k r0 w arbitrary: r a n w' rule: send_attempts.induct)
  case (1 send e q m k r0 w)
  obtain r1 resp w1 where s: "send k w = (r1, resp, w1)" by (metis prod_cases3)
  show ?case
  proof (cases "(r1 = TRANSPORT_APPLIED \<or> r1 = TRANSPORT_STALE) \<and> response_covers resp e q \<or> r1 \<noteq> TRANSPORT_RETRYABLE")
    case True
    with 1 s show ?thesis by (auto simp: send_attempts.simps [of send e q m k] split: if_splits)
  next
    case False
    with 1(2,3) s have n: "send_attempts send e q m (k + 1) r1 w1 = (r, a, n, w')" by (simp add: send_attempts.simps [of send e q m k])
    show ?thesis using 1(1) [OF _ s [symmetric] refl _ _ n] n 1(2,3) False
      by (cases "k = m") (auto simp: send_attempts.simps [of send e q m "Suc m"])
  qed
qed

text \<open>An invariant of single sends holds across the loop, and an acknowledgement is the response of the last send.\<close>

lemma send_attempts_run:
  "send_attempts send e q m k r0 w = (r, a, n, w') \<Longrightarrow> P w
     \<Longrightarrow> (\<And>k w r resp w'. send k w = (r, resp, w') \<Longrightarrow> P w \<Longrightarrow> P w')
     \<Longrightarrow> P w' \<and> (\<forall>resp. a = Some resp \<longrightarrow> response_covers resp e q \<and> (r = TRANSPORT_APPLIED \<or> r = TRANSPORT_STALE)
           \<and> (\<exists>k w1. P w1 \<and> send k w1 = (r, resp, w')))"
proof (induction send e q m k r0 w arbitrary: r a n w' rule: send_attempts.induct)
  case (1 send e q m k r0 w)
  obtain r1 resp w1 where s: "send k w = (r1, resp, w1)" by (metis prod_cases3)
  show ?case
  proof (cases "k > m \<or> (r1 = TRANSPORT_APPLIED \<or> r1 = TRANSPORT_STALE) \<and> response_covers resp e q \<or> r1 \<noteq> TRANSPORT_RETRYABLE")
    case True
    with 1(2-4) s 1(4) [OF s 1(3)] show ?thesis by (auto simp: send_attempts.simps [of send e q m k] split: if_splits)
  next
    case False
    with 1(2) s have "send_attempts send e q m (k + 1) r1 w1 = (r, a, n, w')" by (simp add: send_attempts.simps [of send e q m k])
    with 1(1) [OF _ s [symmetric] refl _ _ this] 1(4) [OF s 1(3)] 1(4) False show ?thesis by auto
  qed
qed

lemma send_attempts_cost:
  assumes "\<And>k w r resp w'. send k w = (r, resp, w') \<Longrightarrow> cost w' \<le> cost w + (1::nat)"
  shows "send_attempts send e q m k r0 w = (r, a, n, w') \<Longrightarrow> cost w' \<le> cost w + (Suc m - k)"
  using assms
proof (induction send e q m k r0 w arbitrary: r a n w' rule: send_attempts.induct)
  case (1 send e q m k r0 w)
  obtain r1 resp w1 where s: "send k w = (r1, resp, w1)" by (metis prod_cases3)
  show ?case
  proof (cases "k > m \<or> (r1 = TRANSPORT_APPLIED \<or> r1 = TRANSPORT_STALE) \<and> response_covers resp e q \<or> r1 \<noteq> TRANSPORT_RETRYABLE")
    case True
    with 1(2) s 1(3) [OF s] show ?thesis by (auto simp: send_attempts.simps [of send e q m k] split: if_splits)
  next
    case False
    with 1(2) s have "send_attempts send e q m (k + 1) r1 w1 = (r, a, n, w')" by (simp add: send_attempts.simps [of send e q m k])
    with 1(1) [OF _ s [symmetric] refl _ _ this 1(3)] 1(3) [OF s] False show ?thesis by fastforce
  qed
qed

section \<open>One target\<close>

text \<open>What the loop over the targets relies on: a send keeps the identity of its target, and leaves it either
  acknowledged at the version or failed.\<close>

definition settled :: "nat \<Rightarrow> u64 \<Rightarrow> u64 \<Rightarrow> bool \<Rightarrow> 'c fanout_target \<Rightarrow> bool" where
  "settled m e q ok t \<longleftrightarrow> 1 \<le> ft_attempts t \<and> ft_attempts t \<le> m
     \<and> (if ok then (ft_state t = TARGET_SYNCHRONIZED \<or> ft_state t = TARGET_RECOVERED) \<and> vle (e, q) (ft_epoch t, ft_sequence t)
        else ft_state t = TARGET_FAILED)"

lemma fanout_version_vle: "fanout_version_less e q e' q' \<longleftrightarrow> \<not> vle (e', q') (e, q)"
  by (auto simp: fanout_version_less_def vle_def)

lemma snapshot_settles:
  assumes "send_snapshot_bounded cfg t e q hs s w = (ok, t', w')" "s = TARGET_SYNCHRONIZED \<or> s = TARGET_RECOVERED" "fc_max_attempts cfg \<noteq> 0"
  shows "settled (fc_max_attempts cfg) e q ok t' \<and> ft_id t' = ft_id t"
proof -
  obtain r a n w1 where l: "send_attempts (\<lambda>k. the (fc_send_snapshot cfg) (ft_context t) (ft_id t) e q hs k) e q
      (fc_max_attempts cfg) 1 TRANSPORT_FATAL w = (r, a, n, w1)" by (metis prod_cases4)
  with send_attempts_bounds [OF l] send_attempts_run [OF l, of "\<lambda>_. True"] assms show ?thesis
    by (auto simp: send_snapshot_bounded_def settled_def target_mark_synchronized_def target_mark_failed_def response_covers_def
        fanout_version_vle split: option.splits)
qed

lemma event_settles:
  assumes "send_revoke_bounded cfg t e q h w = (ok, t', w')" "fc_max_attempts cfg \<noteq> 0"
  shows "(ok \<longrightarrow> settled (fc_max_attempts cfg) e q True t') \<and> ft_id t' = ft_id t"
proof -
  obtain r a n w1 where l: "send_attempts (\<lambda>k. the (fc_send_revoke cfg) (ft_context t) (ft_id t) e q h k) e q
      (fc_max_attempts cfg) 1 TRANSPORT_FATAL w = (r, a, n, w1)" by (metis prod_cases4)
  with send_attempts_bounds [OF l] send_attempts_run [OF l, of "\<lambda>_. True"] assms show ?thesis
    by (auto simp: send_revoke_bounded_def settled_def target_mark_synchronized_def response_covers_def fanout_version_vle split: option.splits)
qed

lemma revoke_settles:
  assumes "revoke_target cfg pe pq e q h hs t w = (ok, t', w')" "fc_max_attempts cfg \<noteq> 0"
  shows "settled (fc_max_attempts cfg) e q ok t' \<and> ft_id t' = ft_id t"
proof -
  obtain ok1 t1 w1 where r: "send_revoke_bounded cfg t e q h w = (ok1, t1, w1)" by (metis prod_cases3)
  from event_settles [OF r assms(2)] assms show ?thesis
    using snapshot_settles [of cfg t e q hs TARGET_RECOVERED w ok t' w'] snapshot_settles [of cfg t1 e q hs TARGET_RECOVERED w1 ok t' w']
    by (auto simp: revoke_target_def r split: if_splits)
qed

lemma over_targets_settles:
  assumes "\<And>t w ok t' w'. send t w = (ok, t', w') \<Longrightarrow> settled m e q ok t' \<and> ft_id t' = ft_id t"
  shows "over_targets send ts w = (failed, ts', w') \<Longrightarrow>
    map ft_id ts' = map ft_id ts \<and> failed = length (filter (\<lambda>s. s = TARGET_FAILED) (map ft_state ts'))
    \<and> (\<forall>t\<in>set ts'. settled m e q (ft_state t \<noteq> TARGET_FAILED) t)"
proof (induction ts arbitrary: w failed ts')
  case (Cons t ts)
  obtain ok t1 w1 where s: "send t w = (ok, t1, w1)" by (metis prod_cases3)
  obtain f2 ts2 w2 where o: "over_targets send ts w1 = (f2, ts2, w2)" by (metis prod_cases3)
  have eq: "failed = (if ok then f2 else Suc f2)" "ts' = t1 # ts2" "w' = w2" using Cons.prems by (simp_all add: s o)
  have "ft_state t1 \<noteq> TARGET_FAILED \<longleftrightarrow> ok" using assms [OF s] by (auto simp: settled_def split: if_splits)
  with Cons.IH [of w1 f2 ts2] o assms [OF s] show ?case by (auto simp: eq)
qed simp

section \<open>Publications\<close>

datatype fan_op =
    Publish_Snapshot u64 u64 "string option list option" nat
  | Publish_Revoke u64 u64 "string option" "string option list option" nat

fun publish :: "fan_op \<Rightarrow> ('w, 'c) fanout \<Rightarrow> 'w \<Rightarrow> int \<times> fanout_report option \<times> ('w, 'c) fanout \<times> 'w" where
  "publish (Publish_Snapshot e q hs n) f w = revocation_fanout_publish_snapshot f e q hs n w"
| "publish (Publish_Revoke e q h hs n) f w = revocation_fanout_publish_revoke f e q h hs n w"

fun op_version :: "fan_op \<Rightarrow> u64 \<times> u64" where
  "op_version (Publish_Snapshot e q hs n) = (e, q)"
| "op_version (Publish_Revoke e q h hs n) = (e, q)"

text \<open>Both publications are one loop over the targets.\<close>

fun op_send :: "fan_op \<Rightarrow> ('w, 'c) fanout \<Rightarrow> 'c fanout_target \<Rightarrow> 'w \<Rightarrow> bool \<times> 'c fanout_target \<times> 'w" where
  "op_send (Publish_Snapshot e q hs n) f t w = send_snapshot_bounded (fo_config f) t e q (payload hs n) TARGET_SYNCHRONIZED w"
| "op_send (Publish_Revoke e q h hs n) f t w =
     revoke_target (fo_config f) (fo_canonical_epoch f) (fo_canonical_sequence f) e q h (payload hs n) t w"

lemma publish_loop:
  assumes "publish op f w = (c, rep, f', w')" "c \<noteq> - 1"
  shows "\<exists>failed. over_targets (op_send op f) (fo_targets f) w = (failed, fo_targets f', w') \<and> fo_config f' = fo_config f
    \<and> c = (if failed = 0 then 0 else 1) \<and> rep = Some (fill_report f' (fst (op_version op)) (snd (op_version op)))"
proof -
  obtain failed ts w1 where o: "over_targets (op_send op f) (fo_targets f) w = (failed, ts, w1)" by (metis prod_cases3)
  have "fo_targets f' = ts \<and> fo_config f' = fo_config f \<and> w' = w1
      \<and> c = (if failed = 0 then 0 else 1) \<and> rep = Some (fill_report f' (fst (op_version op)) (snd (op_version op)))"
  proof (cases op)
    case (Publish_Snapshot e q hs n)
    have "op_send op f = publish_target (fo_config f) e q (payload hs n)"
      by (intro ext) (simp add: Publish_Snapshot publish_target_def)
    with o assms show ?thesis
      by (cases "\<not> fo_canonical_initialized f \<or> fanout_version_less (fo_canonical_epoch f) (fo_canonical_sequence f) e q")
        (auto simp: Publish_Snapshot revocation_fanout_publish_snapshot_def Let_def split: if_splits)
  next
    case (Publish_Revoke e q h hs n)
    have "op_send op f = revoke_target (fo_config f) (fo_canonical_epoch f) (fo_canonical_sequence f) e q h (payload hs n)"
      by (intro ext) (simp add: Publish_Revoke)
    with o assms show ?thesis
      by (auto simp: Publish_Revoke revocation_fanout_publish_revoke_def Let_def split: if_splits)
  qed
  with o show ?thesis by auto
qed

lemma publish_refused: "publish op f w = (- 1, rep, f', w') \<Longrightarrow> f' = f \<and> w' = w \<and> rep = None"
  by (cases op) (auto simp: revocation_fanout_publish_snapshot_def revocation_fanout_publish_revoke_def Let_def split: if_splits prod.splits)

lemma op_settles:
  assumes "op_send op f t w = (ok, t', w')" "fc_max_attempts (fo_config f) \<noteq> 0"
  shows "settled (fc_max_attempts (fo_config f)) (fst (op_version op)) (snd (op_version op)) ok t' \<and> ft_id t' = ft_id t"
  using assms snapshot_settles [of "fo_config f"] revoke_settles [of "fo_config f"] by (cases op) auto

section \<open>The targets behind the transport\<close>

text \<open>\<open>view w i\<close> is the projection that target \<open>i\<close> runs.  A send reaches only its own target, hands it the message any number of
  times (a lost request zero times, a retried one several times), and when it reports that the target applied the message
  or found it stale, the response is the status the target reported.\<close>

definition reported :: "revocation_projection \<Rightarrow> fanout_response" where
  "reported p = (case revocation_projection_status p of
     None \<Rightarrow> \<lparr>fr_synchronized = False, fr_epoch = 0, fr_sequence = 0\<rparr>
   | Some (s, e, q, n) \<Rightarrow> \<lparr>fr_synchronized = s, fr_epoch = e, fr_sequence = q\<rparr>)"

definition carried ::
  "('w \<Rightarrow> string \<Rightarrow> revocation_projection) \<Rightarrow> string \<Rightarrow> rev_msg set \<Rightarrow> 'w \<Rightarrow> transport_result \<times> fanout_response \<times> 'w \<Rightarrow> bool" where
  "carried view i M w x \<longleftrightarrow> (case x of (r, resp, w') \<Rightarrow>
     (\<forall>j. j \<noteq> i \<longrightarrow> view w' j = view w j) \<and> (\<exists>ms. set ms \<subseteq> M \<and> view w' i = fold rev_deliver ms (view w i))
     \<and> (r = TRANSPORT_APPLIED \<or> r = TRANSPORT_STALE \<longrightarrow> resp = reported (view w' i)))"

definition faithful :: "('w \<Rightarrow> string \<Rightarrow> revocation_projection) \<Rightarrow> ('w, 'c) fanout_config \<Rightarrow> bool" where
  "faithful view cfg \<longleftrightarrow>
     (\<forall>c i e q hs k w. carried view i (range (\<lambda>ok. Rev_Snapshot ok e q (Some hs) 0)) w (the (fc_send_snapshot cfg) c i e q hs k w))
   \<and> (\<forall>c i e q h k w. carried view i {Rev_Event e q h} w (the (fc_send_revoke cfg) c i e q h k w))"

definition views_ok :: "history \<Rightarrow> ('w \<Rightarrow> string \<Rightarrow> revocation_projection) \<Rightarrow> 'w \<Rightarrow> bool" where
  "views_ok H view w \<longleftrightarrow> (\<forall>i. projection_ok H (view w i))"

text \<open>A target that covers a version: synchronised, and at least there.\<close>

definition at_least :: "u64 \<times> u64 \<Rightarrow> revocation_projection \<Rightarrow> bool" where
  "at_least v p \<longleftrightarrow> projection_synchronized p \<and> vle v (projection_version p)"

lemma reported_covers: "response_covers (reported p) e q \<Longrightarrow> at_least (e, q) p"
  by (auto simp: response_covers_def reported_def at_least_def projection_synchronized_def projection_version_def fanout_version_vle
      revocation_projection_status_def rev_version_def split: option.splits if_splits)

lemma carried_ok:
  assumes "carried view i M w (r, resp, w')" "\<forall>m\<in>M. honest H m" "views_ok H view w"
  shows "views_ok H view w' \<and> (\<forall>j. j \<noteq> i \<longrightarrow> view w' j = view w j)"
proof -
  from assms(1) obtain ms where "set ms \<subseteq> M" "view w' i = fold rev_deliver ms (view w i)" and o: "\<forall>j. j \<noteq> i \<longrightarrow> view w' j = view w j"
    by (auto simp: carried_def)
  then have "projection_ok H (view w' i)"
    using assms(2,3) revocation.run_inv [of H "view w i" ms] by (auto simp: views_ok_def list_all_iff)
  with o assms(3) show ?thesis unfolding views_ok_def by metis
qed

lemma attempts_ok:
  assumes "send_attempts send e q m k r0 w = (r, a, n, w')" "views_ok H view w" "\<forall>m\<in>M. honest H m"
    and "\<And>k w. carried view i M w (send k w)"
  shows "views_ok H view w' \<and> (\<forall>j. j \<noteq> i \<longrightarrow> view w' j = view w j) \<and> (a \<noteq> None \<longrightarrow> at_least (e, q) (view w' i))"
proof -
  let ?P = "\<lambda>w1. views_ok H view w1 \<and> (\<forall>j. j \<noteq> i \<longrightarrow> view w1 j = view w j)"
  have "?P w2" if "send k w1 = (r1, resp, w2)" "?P w1" for k w1 r1 resp w2
    using carried_ok [of view i M w1 r1 resp w2 H] assms(3) assms(4) [of w1 k] that by auto
  from send_attempts_run [OF assms(1), where P = ?P, OF _ this] assms(2)
  have run: "?P w' \<and> (\<forall>resp. a = Some resp \<longrightarrow> response_covers resp e q \<and> (r = TRANSPORT_APPLIED \<or> r = TRANSPORT_STALE)
      \<and> (\<exists>k w1. ?P w1 \<and> send k w1 = (r, resp, w')))" by simp
  note P = run [THEN conjunct1] and a = run [THEN conjunct2, rule_format]
  have "at_least (e, q) (view w' i)" if "a = Some resp" for resp
  proof -
    from a [OF that] obtain k w1 where c: "response_covers resp e q" and r: "r = TRANSPORT_APPLIED \<or> r = TRANSPORT_STALE" "send k w1 = (r, resp, w')"
      by blast
    from assms(4) [of w1 k] r have "resp = reported (view w' i)" by (auto simp: carried_def)
    with c reported_covers show ?thesis by blast
  qed
  with P show ?thesis by blast
qed

text \<open>What a publication promises about one target and the others.\<close>

definition reaches :: "history \<Rightarrow> ('w \<Rightarrow> string \<Rightarrow> revocation_projection) \<Rightarrow> u64 \<times> u64
    \<Rightarrow> ('c fanout_target \<Rightarrow> 'w \<Rightarrow> bool \<times> 'c fanout_target \<times> 'w) \<Rightarrow> bool" where
  "reaches H view v send \<longleftrightarrow> (\<forall>t w ok t' w'. send t w = (ok, t', w') \<longrightarrow> views_ok H view w \<longrightarrow>
     views_ok H view w' \<and> (\<forall>j. j \<noteq> ft_id t \<longrightarrow> view w' j = view w j) \<and> (ok \<longrightarrow> at_least v (view w' (ft_id t))))"

lemma snapshot_reaches:
  assumes "faithful view cfg" "\<And>ok. honest H (Rev_Snapshot ok e q (Some hs) 0)"
  shows "reaches H view (e, q) (\<lambda>t. send_snapshot_bounded cfg t e q hs s)"
  unfolding reaches_def
proof (intro allI impI)
  fix t w ok t' w' assume s: "send_snapshot_bounded cfg t e q hs s w = (ok, t', w')" and v: "views_ok H view w"
  obtain r a n w1 where l: "send_attempts (\<lambda>k. the (fc_send_snapshot cfg) (ft_context t) (ft_id t) e q hs k) e q
      (fc_max_attempts cfg) 1 TRANSPORT_FATAL w = (r, a, n, w1)" by (metis prod_cases4)
  have "w1 = w'" "ok \<longleftrightarrow> a \<noteq> None" using s l by (auto simp: send_snapshot_bounded_def split: option.splits)
  with attempts_ok [OF l v, of "range (\<lambda>ok. Rev_Snapshot ok e q (Some hs) 0)" "ft_id t"] assms
  show "views_ok H view w' \<and> (\<forall>j. j \<noteq> ft_id t \<longrightarrow> view w' j = view w j) \<and> (ok \<longrightarrow> at_least (e, q) (view w' (ft_id t)))"
    by (auto simp: faithful_def)
qed

lemma event_reaches:
  assumes "faithful view cfg" "honest H (Rev_Event e q h)"
  shows "reaches H view (e, q) (\<lambda>t. send_revoke_bounded cfg t e q h)"
  unfolding reaches_def
proof (intro allI impI)
  fix t w ok t' w' assume s: "send_revoke_bounded cfg t e q h w = (ok, t', w')" and v: "views_ok H view w"
  obtain r a n w1 where l: "send_attempts (\<lambda>k. the (fc_send_revoke cfg) (ft_context t) (ft_id t) e q h k) e q
      (fc_max_attempts cfg) 1 TRANSPORT_FATAL w = (r, a, n, w1)" by (metis prod_cases4)
  have "w1 = w'" "ok \<longleftrightarrow> a \<noteq> None" using s l by (auto simp: send_revoke_bounded_def split: option.splits)
  with attempts_ok [OF l v, of "{Rev_Event e q h}" "ft_id t"] assms
  show "views_ok H view w' \<and> (\<forall>j. j \<noteq> ft_id t \<longrightarrow> view w' j = view w j) \<and> (ok \<longrightarrow> at_least (e, q) (view w' (ft_id t)))"
    by (auto simp: faithful_def)
qed

lemma event_keeps_id: "send_revoke_bounded cfg t e q h w = (ok, t', w') \<Longrightarrow> ft_id t' = ft_id t"
  by (auto simp: send_revoke_bounded_def target_mark_synchronized_def split: prod.splits option.splits)

lemma revoke_reaches:
  assumes "faithful view cfg" "honest H (Rev_Event e q h)" "\<And>ok. honest H (Rev_Snapshot ok e q (Some hs) 0)"
  shows "reaches H view (e, q) (revoke_target cfg pe pq e q h hs)"
  unfolding reaches_def
proof (intro allI impI)
  fix t w ok t' w' assume s: "revoke_target cfg pe pq e q h hs t w = (ok, t', w')" and v: "views_ok H view w"
  note snap = snapshot_reaches [OF assms(1,3), where s = TARGET_RECOVERED, unfolded reaches_def, rule_format]
  obtain ok1 t1 w1 where r: "send_revoke_bounded cfg t e q h w = (ok1, t1, w1)" by (metis prod_cases3)
  show "views_ok H view w' \<and> (\<forall>j. j \<noteq> ft_id t \<longrightarrow> view w' j = view w j) \<and> (ok \<longrightarrow> at_least (e, q) (view w' (ft_id t)))"
  proof (cases "event_ready pe pq t")
    case True
    from event_reaches [OF assms(1,2), unfolded reaches_def, rule_format, OF r v] event_keeps_id [OF r]
    show ?thesis using s True snap [of t1 w1 ok t' w'] by (auto simp: revoke_target_def r split: if_splits)
  next
    case False
    with s snap [of t w ok t' w'] v show ?thesis by (simp add: revoke_target_def)
  qed
qed

lemma over_targets_reaches:
  assumes "reaches H view v send"
  shows "over_targets send ts w = (failed, ts', w') \<Longrightarrow> views_ok H view w \<Longrightarrow> distinct (map ft_id ts) \<Longrightarrow>
    views_ok H view w' \<and> (\<forall>j. j \<notin> ft_id ` set ts \<longrightarrow> view w' j = view w j)
    \<and> (failed = 0 \<longrightarrow> (\<forall>t\<in>set ts. at_least v (view w' (ft_id t))))"
proof (induction ts arbitrary: w failed ts')
  case (Cons t ts)
  obtain ok t1 w1 where s: "send t w = (ok, t1, w1)" by (metis prod_cases3)
  obtain f2 ts2 w2 where o: "over_targets send ts w1 = (f2, ts2, w2)" by (metis prod_cases3)
  have eq: "failed = (if ok then f2 else Suc f2)" "w' = w2" using Cons.prems(1) by (simp_all add: s o)
  note h = assms [unfolded reaches_def, rule_format, OF s Cons.prems(2)]
  from Cons.IH [of w1 f2 ts2] o h Cons.prems(3) eq have ih: "views_ok H view w'" "\<forall>j. j \<notin> ft_id ` set ts \<longrightarrow> view w' j = view w1 j"
    "f2 = 0 \<longrightarrow> (\<forall>t\<in>set ts. at_least v (view w' (ft_id t)))" by simp_all
  moreover have "ft_id t \<notin> ft_id ` set ts" using Cons.prems(3) by simp
  ultimately show ?case using h eq by auto
qed simp

section \<open>Runs of the fan-out\<close>

fun honest_op :: "history \<Rightarrow> fan_op \<Rightarrow> bool" where
  "honest_op H (Publish_Snapshot e q hs n) = honest H (Rev_Snapshot True e q (Some (payload hs n)) 0)"
| "honest_op H (Publish_Revoke e q h hs n) \<longleftrightarrow>
     honest H (Rev_Snapshot True e q (Some (payload hs n)) 0) \<and> honest H (Rev_Event e q h)"

definition fan_exec :: "fan_op \<Rightarrow> ('w, 'c) fanout \<times> 'w \<Rightarrow> ('w, 'c) fanout \<times> 'w" where
  "fan_exec op = (\<lambda>(f, w). snd (snd (publish op f w)))"

definition fan_inv :: "('w, 'c) fanout_config \<Rightarrow> history \<Rightarrow> ('w \<Rightarrow> string \<Rightarrow> revocation_projection) \<Rightarrow> ('w, 'c) fanout \<times> 'w \<Rightarrow> bool" where
  "fan_inv cfg H view s \<longleftrightarrow> fo_config (fst s) = cfg \<and> distinct (map ft_id (fo_targets (fst s))) \<and> views_ok H view (snd s)"

lemma op_reaches:
  assumes "faithful view (fo_config f)" "honest_op H op"
  shows "reaches H view (op_version op) (op_send op f)"
proof (cases op)
  case (Publish_Snapshot e q hs n)
  then have "op_send op f = (\<lambda>t. send_snapshot_bounded (fo_config f) t e q (payload hs n) TARGET_SYNCHRONIZED)" by (intro ext) simp
  with Publish_Snapshot snapshot_reaches [OF assms(1)] assms(2) show ?thesis by simp
next
  case (Publish_Revoke e q h hs n)
  then have "op_send op f = revoke_target (fo_config f) (fo_canonical_epoch f) (fo_canonical_sequence f) e q h (payload hs n)"
    by (intro ext) simp
  with Publish_Revoke revoke_reaches [OF assms(1)] assms(2) show ?thesis by simp
qed

lemma publish_inv:
  assumes "faithful view cfg" "fc_max_attempts cfg \<noteq> 0" "honest_op H op" "fan_inv cfg H view (f, w)" "publish op f w = (c, rep, f', w')"
  shows "fan_inv cfg H view (f', w') \<and> (c = 0 \<longrightarrow> (\<forall>t\<in>set (fo_targets f'). at_least (op_version op) (view w' (ft_id t))))"
proof (cases "c = - 1")
  case True
  with publish_refused assms(4,5) show ?thesis by fastforce
next
  case False
  have i: "fo_config f = cfg" "distinct (map ft_id (fo_targets f))" "views_ok H view w" using assms(4) by (simp_all add: fan_inv_def)
  from publish_loop [OF assms(5) False] obtain failed
    where o: "over_targets (op_send op f) (fo_targets f) w = (failed, fo_targets f', w')" "fo_config f' = fo_config f"
      and c: "c = (if failed = 0 then 0 else 1)" by blast
  have ids: "map ft_id (fo_targets f') = map ft_id (fo_targets f)"
    using over_targets_settles [OF _ o(1)] op_settles [of op f] assms(2) i(1) by metis
  from over_targets_reaches [OF op_reaches o(1) i(3,2)] assms(1,3) i(1)
  have r: "views_ok H view w'" "failed = 0 \<longrightarrow> (\<forall>t\<in>set (fo_targets f). at_least (op_version op) (view w' (ft_id t)))" by simp_all
  have "ft_id ` set (fo_targets f') = ft_id ` set (fo_targets f)" using ids by (metis image_set)
  then have "\<forall>t\<in>set (fo_targets f'). at_least (op_version op) (view w' (ft_id t))" if "failed = 0"
    using r(2) that by (metis (mono_tags) imageE imageI)
  with r(1) ids i c o(2) show ?thesis by (auto simp: fan_inv_def)
qed

lemma fan_run_inv:
  assumes "faithful view cfg" "fc_max_attempts cfg \<noteq> 0"
  shows "list_all (honest_op H) ops \<Longrightarrow> fan_inv cfg H view s \<Longrightarrow> fan_inv cfg H view (fold fan_exec ops s)"
proof (induction ops arbitrary: s)
  case (Cons op ops)
  obtain f w where s: "s = (f, w)" by fastforce
  obtain c rep f' w' where "publish op f w = (c, rep, f', w')" by (metis prod_cases4)
  with publish_inv [OF assms, of H op f w c rep f' w'] Cons s show ?case by (simp add: fan_exec_def)
qed simp

lemma id_valid_Some: "fanout_id_valid v \<Longrightarrow> \<exists>s. v = Some s"
  by (cases v) (simp_all add: fanout_id_valid_def)

lemma create_inv_targets:
  assumes "revocation_fanout_create ok (Some cfg) targets = Some f"
  shows "fo_config f = cfg \<and> distinct (map ft_id (fo_targets f)) \<and> fc_max_attempts cfg \<noteq> 0 \<and> fc_max_attempts cfg \<le> 8 \<and> length (fo_targets f) \<le> 64"
proof -
  from assms obtain ts where ts: "targets = Some ts" "f = \<lparr>fo_config = cfg, fo_targets = map new_target ts, fo_canonical_initialized = False,
       fo_canonical_epoch = 0, fo_canonical_sequence = 0\<rparr>" "length ts \<le> 64" "fc_max_attempts cfg \<noteq> 0" "fc_max_attempts cfg \<le> 8"
    and v: "list_all (\<lambda>i. fanout_id_valid (fst (ts ! i)) \<and> list_all (\<lambda>j. fst (ts ! i) \<noteq> fst (ts ! j)) [0..<i]) [0..<length ts]"
    by (auto simp: revocation_fanout_create_def split: option.splits if_splits)
  have "the (fst (ts ! i)) \<noteq> the (fst (ts ! j))" if "i < length ts" "j < i" for i j
  proof -
    have "fst (ts ! i) \<noteq> fst (ts ! j)" "fst (ts ! i) \<noteq> None" "fst (ts ! j) \<noteq> None"
      using v that id_valid_Some by (auto simp: list_all_iff)
    then show ?thesis by auto
  qed
  then have "distinct (map (\<lambda>x. the (fst x)) ts)"
    unfolding distinct_conv_nth by (metis length_map linorder_neqE_nat nth_map)
  then show ?thesis using ts by (simp add: new_target_def comp_def)
qed

text \<open>The fan-out accepts only digests the targets can parse.\<close>

lemma parse_pairs_hex:
  "list_all (\<lambda>c. (CHR ''0'' \<le> c \<and> c \<le> CHR ''9'') \<or> (CHR ''a'' \<le> c \<and> c \<le> CHR ''f'')) s \<Longrightarrow> parse_pairs s \<noteq> None"
  by (induction s rule: parse_pairs.induct) (auto simp: revocation_hex_nibble_def split: option.splits)

lemma hex_valid_parses: "digest_hex_valid h \<Longrightarrow> \<exists>d. revocation_parse_digest h = Some d"
  using parse_pairs_hex by (auto simp: digest_hex_valid_def revocation_parse_digest_def split: option.splits)

section \<open>Bounds\<close>

definition one_call :: "('w, 'c) fanout_config \<Rightarrow> ('w \<Rightarrow> nat) \<Rightarrow> bool" where
  "one_call cfg calls \<longleftrightarrow>
     (\<forall>c i e q hs k w. calls (snd (snd (the (fc_send_snapshot cfg) c i e q hs k w))) \<le> calls w + 1)
   \<and> (\<forall>c i e q h k w. calls (snd (snd (the (fc_send_revoke cfg) c i e q h k w))) \<le> calls w + 1)"

lemma snapshot_cost:
  assumes "one_call cfg calls" "send_snapshot_bounded cfg t e q hs s w = (ok, t', w')"
  shows "calls w' \<le> calls w + fc_max_attempts cfg"
proof -
  let ?send = "\<lambda>k. the (fc_send_snapshot cfg) (ft_context t) (ft_id t) e q hs k"
  obtain r a n w1 where l: "send_attempts ?send e q (fc_max_attempts cfg) 1 TRANSPORT_FATAL w = (r, a, n, w1)" by (metis prod_cases4)
  have "calls w2 \<le> calls w + 1" if "?send k w = (r, resp, w2)" for k w r resp w2 using assms(1) that by (metis one_call_def snd_conv)
  from send_attempts_cost [where send = ?send and cost = calls, OF this l] l assms(2) show ?thesis
    by (auto simp: send_snapshot_bounded_def split: option.splits)
qed

lemma event_cost:
  assumes "one_call cfg calls" "send_revoke_bounded cfg t e q h w = (ok, t', w')"
  shows "calls w' \<le> calls w + fc_max_attempts cfg"
proof -
  let ?send = "\<lambda>k. the (fc_send_revoke cfg) (ft_context t) (ft_id t) e q h k"
  obtain r a n w1 where l: "send_attempts ?send e q (fc_max_attempts cfg) 1 TRANSPORT_FATAL w = (r, a, n, w1)" by (metis prod_cases4)
  have "calls w2 \<le> calls w + 1" if "?send k w = (r, resp, w2)" for k w r resp w2 using assms(1) that by (metis one_call_def snd_conv)
  from send_attempts_cost [where send = ?send and cost = calls, OF this l] l assms(2) show ?thesis
    by (auto simp: send_revoke_bounded_def split: option.splits)
qed

lemma op_cost:
  assumes "one_call (fo_config f) calls" "op_send op f t w = (ok, t', w')"
  shows "calls w' \<le> calls w + 2 * fc_max_attempts (fo_config f)"
proof (cases op)
  case (Publish_Snapshot e q hs n)
  then have "calls w' \<le> calls w + fc_max_attempts (fo_config f)" using snapshot_cost [OF assms(1)] assms(2) by simp
  then show ?thesis by simp
next
  case (Publish_Revoke e q h hs n)
  obtain ok1 t1 w1 where r: "send_revoke_bounded (fo_config f) t e q h w = (ok1, t1, w1)" by (metis prod_cases3)
  from event_cost [OF assms(1) r] Publish_Revoke assms(2) snapshot_cost [OF assms(1), of t e q "payload hs n" TARGET_RECOVERED w ok t' w']
    snapshot_cost [OF assms(1), of t1 e q "payload hs n" TARGET_RECOVERED w1 ok t' w'] show ?thesis
    by (auto simp: revoke_target_def r split: if_splits)
qed

lemma over_targets_cost:
  assumes "\<And>t w ok t' w'. send t w = (ok, t', w') \<Longrightarrow> cost w' \<le> cost w + (b::nat)"
  shows "over_targets send ts w = (failed, ts', w') \<Longrightarrow> cost w' \<le> cost w + length ts * b"
proof (induction ts arbitrary: w failed ts')
  case (Cons t ts)
  obtain ok t1 w1 where s: "send t w = (ok, t1, w1)" by (metis prod_cases3)
  obtain f2 ts2 w2 where o: "over_targets send ts w1 = (f2, ts2, w2)" by (metis prod_cases3)
  have "w' = w2" using Cons.prems by (simp add: s o)
  with Cons.IH [of w1 f2 ts2] o assms [OF s] show ?case by simp
qed simp

lemma settled_known: "settled m e q (ft_state t \<noteq> TARGET_FAILED) t \<Longrightarrow> ft_state t \<noteq> TARGET_UNKNOWN"
  by (cases "ft_state t") (simp_all add: settled_def)

lemma state_count:
  "TARGET_UNKNOWN \<notin> set ss \<Longrightarrow>
   length (filter (\<lambda>s. s = TARGET_SYNCHRONIZED \<or> s = TARGET_RECOVERED) ss) + length (filter (\<lambda>s. s = TARGET_FAILED) ss) = length ss"
proof (induction ss)
  case (Cons s ss)
  then show ?case by (cases s) auto
qed simp

lemma over_targets_length: "over_targets send ts w = (failed, ts', w') \<Longrightarrow> length ts' = length ts"
  by (induction ts arbitrary: w failed ts') (auto split: prod.splits)

lemma fan_run_shape:
  "fo_config (fst (fold fan_exec ops (f, w))) = fo_config f \<and> length (fo_targets (fst (fold fan_exec ops (f, w)))) = length (fo_targets f)"
proof (induction ops arbitrary: f w)
  case (Cons op ops)
  obtain c rep f' w' where p: "publish op f w = (c, rep, f', w')" by (metis prod_cases4)
  have "fo_config f' = fo_config f \<and> length (fo_targets f') = length (fo_targets f)"
  proof (cases "c = - 1")
    case True
    with publish_refused p show ?thesis by fastforce
  next
    case False
    with publish_loop [OF p] over_targets_length show ?thesis by metis
  qed
  with Cons.IH [of f' w'] p show ?case by (simp add: fan_exec_def)
qed simp

section \<open>Properties\<close>

text \<open>A transport that calls the targets in place and counts the calls.\<close>

type_synonym local_net = "(string \<times> revocation_projection) list \<times> nat"

definition local_view :: "local_net \<Rightarrow> string \<Rightarrow> revocation_projection" where
  "local_view w i = (case map_of (fst w) i of None \<Rightarrow> sample_projection | Some p \<Rightarrow> p)"

fun transport_of :: "revocation_result \<Rightarrow> transport_result" where
  "transport_of REV_APPLIED = TRANSPORT_APPLIED"
| "transport_of REV_STALE = TRANSPORT_STALE"
| "transport_of REV_GAP = TRANSPORT_GAP"
| "transport_of REV_LIMIT = TRANSPORT_LIMIT"
| "transport_of REV_ERROR = TRANSPORT_ERROR"

definition local_reply :: "string \<Rightarrow> revocation_result \<times> revocation_projection \<Rightarrow> local_net \<Rightarrow> transport_result \<times> fanout_response \<times> local_net" where
  "local_reply i x w = (transport_of (fst x), reported (snd x), ((i, snd x) # fst w, snd w + 1))"

fun local_snapshot :: "unit \<Rightarrow> string \<Rightarrow> u64 \<Rightarrow> u64 \<Rightarrow> string option list \<Rightarrow> nat \<Rightarrow> local_net \<Rightarrow> transport_result \<times> fanout_response \<times> local_net" where
  "local_snapshot c i e q hs k w =
     local_reply i (revocation_projection_apply_snapshot True (local_view w i) e q (Some hs) (length hs)) w"

fun local_revoke :: "unit \<Rightarrow> string \<Rightarrow> u64 \<Rightarrow> u64 \<Rightarrow> string option \<Rightarrow> nat \<Rightarrow> local_net \<Rightarrow> transport_result \<times> fanout_response \<times> local_net" where
  "local_revoke c i e q h k w = local_reply i (revocation_projection_apply_revoke (local_view w i) e q h) w"

definition local_config :: "(local_net, unit) fanout_config" where
  "local_config = \<lparr>fc_max_attempts = 2, fc_send_snapshot = Some local_snapshot, fc_send_revoke = Some local_revoke\<rparr>"

lemma local_faithful: "faithful local_view local_config"
proof -
  have "carried local_view i (range (\<lambda>ok. Rev_Snapshot ok e q (Some hs) 0)) w
      (local_reply i (revocation_projection_apply_snapshot True (local_view w i) e q (Some hs) (length hs)) w)" for i e q hs and w :: local_net
    unfolding carried_def local_reply_def local_view_def by (auto intro!: exI [of _ "[Rev_Snapshot True e q (Some hs) 0]"])
  moreover have "carried local_view i {Rev_Event e q h} w (local_reply i (revocation_projection_apply_revoke (local_view w i) e q h) w)"
    for i e q h and w :: local_net
    unfolding carried_def local_reply_def local_view_def by (auto intro!: exI [of _ "[Rev_Event e q h]"])
  ultimately show ?thesis by (simp add: faithful_def local_config_def)
qed

lemma local_one_call: "one_call local_config snd"
  by (simp add: one_call_def local_config_def local_reply_def)

definition local_start :: "(local_net, unit) fanout \<times> local_net" where
  "local_start = (the (revocation_fanout_create True (Some local_config) (Some [(Some ''n1'', ())])), [], 0)"

definition local_ops :: "fan_op list" where
  "local_ops = [Publish_Snapshot 1 4 (Some [sample_hex]) 1]"

lemma local_created:
  "revocation_fanout_create True (Some local_config) (Some [(Some ''n1'', ())]) = Some (fst local_start)"
proof -
  have "fanout_id_valid (Some ''n1'')" by code_simp
  then show ?thesis by (simp add: local_start_def revocation_fanout_create_def local_config_def upt_rec)
qed

definition local_synced :: "(local_net, unit) fanout \<times> local_net" where
  "local_synced = (\<lparr>fo_config = local_config,
     fo_targets = [\<lparr>ft_id = ''n1'', ft_context = (), ft_state = TARGET_SYNCHRONIZED, ft_last_result = TRANSPORT_APPLIED,
       ft_epoch = 1, ft_sequence = 4, ft_attempts = 1\<rparr>],
     fo_canonical_initialized = True, fo_canonical_epoch = 1, fo_canonical_sequence = 4\<rparr>,
     [(''n1'', \<lparr>pj_state = Some \<lparr>rs_epoch = 1, rs_sequence = 4, rs_required_epoch = 0, rs_required_sequence = 0, rs_count = 1,
       rs_max_entries = 2, rs_synchronized = True, rs_digests = [sample_digest, replicate 32 0]\<rparr>, pj_mutex_initialized = True\<rparr>)], 1)"

lemma sample_hex_ok: "digest_hex_valid sample_hex" "sample_hex \<noteq> None"
  by code_simp (simp add: sample_hex_def)

lemmas local_run =
  local_config_def local_reply_def local_view_def send_attempts.simps response_covers_def reported_def fanout_version_less_def
  snapshot_payload_valid_def payload_def send_snapshot_bounded_def publish_target_def target_mark_synchronized_def
  revocation_projection_status_def revocation_is_synchronized_def sample_hex_ok sample_parsed

lemma local_publish:
  "publish (hd local_ops) (fst local_start) (snd local_start) = (0, Some (fill_report (fst local_synced) 1 4), local_synced)"
proof -
  have f: "fst local_start = \<lparr>fo_config = local_config, fo_targets = [new_target (Some ''n1'', ())], fo_canonical_initialized = False,
      fo_canonical_epoch = 0, fo_canonical_sequence = 0\<rparr>"
    using local_created by (auto simp: revocation_fanout_create_def split: if_splits option.splits)
  have w: "snd local_start = ([], 0)" by (simp add: local_start_def)
  show ?thesis unfolding f w
    by (simp add: local_run local_ops_def revocation_fanout_publish_snapshot_def revocation_projection_apply_snapshot_def
        apply_snapshot_eq stale_def rev_required_def rev_version_def sample_projection_def new_target_def local_synced_def Let_def
        del: parse_entries.simps)
qed

lemma local_run_ops: "fold fan_exec local_ops local_start = local_synced"
  using local_publish by (simp add: fan_exec_def split_beta local_ops_def)

lemma local_publish_revoke:
  "\<exists>rep f' w'. revocation_fanout_publish_revoke (fst local_synced) 1 5 sample_hex (Some [sample_hex]) 1 (snd local_synced) = (0, rep, f', w')"
proof -
  have "length sample_digest = 32" by (simp add: sample_digest_def)
  then show ?thesis
    by (simp add: local_run revocation_fanout_publish_revoke_def revocation_projection_apply_revoke_def apply_revoke_eq rev_version_def
        local_synced_def Let_def vle_def revoke_target_def event_ready_def send_revoke_bounded_def fanout_snapshot_contains_def
        revocation_find_def revocation_digest_equal_def del: parse_entries.simps)
qed

text \<open>A published revocation takes effect.  Take any fan-out and any history of publications consistent with an authority that
  never withdraws a revocation, over a transport that may lose, repeat or fail to confirm its messages but does not forge
  them or their confirmations.  When publishing a revoke event returns 0, every target is synchronised at
  that version or later and reports the token as revoked.\<close>

theorem revocation_takes_effect:
  assumes "revocation_fanout_create ok (Some cfg) targets = Some f0" "faithful view cfg"
    and "\<forall>i. \<exists>a b k. revocation_projection_create a b k = Some (view w0 i)"
    and "list_all (honest_op H) ops" "fold fan_exec ops (f0, w0) = (f, w)" "\<forall>v v'. vle v v' \<longrightarrow> H v \<subseteq> H v'"
    and "honest_op H (Publish_Revoke e q h covering n)"
    and "revocation_fanout_publish_revoke f e q h covering n w = (0, rep, f', w')"
  shows "\<exists>d. revocation_parse_digest h = Some d \<and> (\<forall>t\<in>set (fo_targets f').
    at_least (e, q) (view w' (ft_id t)) \<and> revocation_projection_check_digest (view w' (ft_id t)) (Some d) 32 = STATUS_REVOKED)"
proof -
  note c = create_inv_targets [OF assms(1)]
  have "projection_ok H (view w0 i)" for i using assms(3) projection_create_ok by metis
  then have "fan_inv cfg H view (f0, w0)" using c by (simp add: fan_inv_def views_ok_def)
  then have i: "fan_inv cfg H view (f, w)" using fan_run_inv [OF assms(2) _ assms(4)] c assms(5) by metis
  have p: "publish (Publish_Revoke e q h covering n) f w = (0, rep, f', w')" using assms(8) by simp
  from publish_inv [OF assms(2) _ assms(7) i p] c
  have v: "views_ok H view w'" "\<forall>t\<in>set (fo_targets f'). at_least (e, q) (view w' (ft_id t))" by (simp_all add: fan_inv_def)
  have "digest_hex_valid h" using assms(8) by (auto simp: revocation_fanout_publish_revoke_def split: if_splits)
  then obtain d where d: "revocation_parse_digest h = Some d" using hex_valid_parses by blast
  then have "d \<in> H (e, q)" using assms(7) by simp
  have "revocation_projection_check_digest (view w' (ft_id t)) (Some d) 32 = STATUS_REVOKED" if "t \<in> set (fo_targets f')" for t
  proof -
    have a: "at_least (e, q) (view w' (ft_id t))" and o: "projection_ok H (view w' (ft_id t))" using v that by (auto simp: views_ok_def)
    then have "d \<in> H (projection_version (view w' (ft_id t)))" using \<open>d \<in> H (e, q)\<close> assms(6) unfolding at_least_def by blast
    then show ?thesis using projection_check [OF o parse_digest_length [OF d]] a by (simp add: at_least_def)
  qed
  with d v(2) show ?thesis by blast
qed

lemma revocation_takes_effect_witness:
  "\<exists>f w rep f' w'. fold fan_exec local_ops local_start = (f, w)
     \<and> revocation_fanout_publish_revoke f 1 5 sample_hex (Some [sample_hex]) 1 w = (0, rep, f', w')
     \<and> (\<forall>t\<in>set (fo_targets f'). revocation_projection_check_digest (local_view w' (ft_id t)) (Some sample_digest) 32 = STATUS_REVOKED)"
proof -
  have r: "fold fan_exec local_ops (fst local_start, snd local_start) = (fst local_synced, snd local_synced)" by (simp add: local_run_ops)
  obtain rep f' w' where p: "revocation_fanout_publish_revoke (fst local_synced) 1 5 sample_hex (Some [sample_hex]) 1 (snd local_synced) = (0, rep, f', w')"
    using local_publish_revoke by blast
  have h: "list_all (honest_op (\<lambda>_. {sample_digest})) local_ops"
    "honest_op (\<lambda>_. {sample_digest}) (Publish_Revoke 1 5 sample_hex (Some [sample_hex]) 1)"
    by (simp_all add: local_ops_def payload_def sample_parsed del: parse_entries.simps)
  have "\<forall>i. \<exists>a b k. revocation_projection_create a b k = Some (local_view (snd local_start) i)"
    using sample_projection_created by (auto simp: local_start_def local_view_def)
  from revocation_takes_effect [OF local_created local_faithful this h(1) r _ h(2) p] sample_parsed(1)
  have "\<forall>t\<in>set (fo_targets f'). revocation_projection_check_digest (local_view w' (ft_id t)) (Some sample_digest) 32 = STATUS_REVOKED" by simp
  with p r show ?thesis by (metis prod.collapse)
qed

text \<open>The delivery report is exact and delivery is bounded.  After an accepted publication every target is either acknowledged
  at the published version or later, or failed, after at least one and at most \<open>max_attempts\<close> attempts; the report
  counts them, and the result is 0 exactly when none failed.  The transport is called at most 1024 times in all,
  even if every send asks for a retry (\<open>calls\<close> is any measure that a single send raises by at most one).\<close>

theorem fanout_report_exact:
  assumes "revocation_fanout_create ok (Some cfg) targets = Some f0" "fold fan_exec ops (f0, w0) = (f, w)"
    and "publish op f w = (c, Some rep, f', w')" "op_version op = (e, q)" "one_call cfg calls"
  shows "rp_target_count rep = length (fo_targets f0) \<and> rp_synchronized_count rep + rp_failed_count rep = rp_target_count rep
    \<and> (c = 0 \<longleftrightarrow> rp_failed_count rep = 0)
    \<and> (\<forall>t\<in>set (fo_targets f'). settled (fc_max_attempts cfg) e q (ft_state t \<noteq> TARGET_FAILED) t)
    \<and> calls w' \<le> calls w + 1024"
proof -
  note i = create_inv_targets [OF assms(1)]
  have f: "fo_config f = cfg" "length (fo_targets f) = length (fo_targets f0)" using fan_run_shape [of ops f0 w0] assms(2) i by simp_all
  have "c \<noteq> - 1" using publish_refused [of op f w "Some rep" f' w'] assms(3) by auto
  from publish_loop [OF assms(3) this] obtain failed
    where o: "over_targets (op_send op f) (fo_targets f) w = (failed, fo_targets f', w')"
      and c: "c = (if failed = 0 then 0 else 1)" and r: "rep = fill_report f' e q" using assms(4) by auto
  have "settled (fc_max_attempts cfg) e q ok t' \<and> ft_id t' = ft_id t" if "op_send op f t w = (ok, t', w')" for t w ok t' w'
    using op_settles [OF that] f(1) i assms(4) by simp
  note s = over_targets_settles [where m = "fc_max_attempts cfg", OF this o]
  have "length (fo_targets f') = length (fo_targets f)" by (rule map_eq_imp_length_eq [OF s [THEN conjunct1]])
  moreover have "TARGET_UNKNOWN \<notin> set (map ft_state (fo_targets f'))" using s settled_known by fastforce
  then have "rp_synchronized_count rep + rp_failed_count rep = length (fo_targets f')"
    using state_count [of "map ft_state (fo_targets f')"] by (simp add: r fill_report_def Let_def)
  moreover have "rp_failed_count rep = failed" "rp_target_count rep = length (fo_targets f')"
    using s by (simp_all add: r fill_report_def Let_def)
  moreover have "calls w' \<le> calls w + 1024"
  proof -
    have "calls w' \<le> calls w + length (fo_targets f) * (2 * fc_max_attempts cfg)"
    proof (rule over_targets_cost [OF _ o])
      fix t w ok t' w' assume "op_send op f t w = (ok, t', w')"
      from op_cost [OF _ this, of calls] assms(5) f(1) show "calls w' \<le> calls w + 2 * fc_max_attempts cfg" by simp
    qed
    also have "\<dots> \<le> calls w + 64 * (2 * 8)" using i f(2) by (intro add_left_mono mult_le_mono) simp_all
    finally show ?thesis by simp
  qed
  ultimately show ?thesis using s c f(2) by auto
qed

lemma fanout_report_exact_witness:
  "\<exists>rep f' w'. publish (hd local_ops) (fst local_start) (snd local_start) = (0, Some rep, f', w')
     \<and> rp_synchronized_count rep + rp_failed_count rep = rp_target_count rep \<and> snd w' \<le> snd (snd local_start) + 1024"
proof -
  have p: "publish (hd local_ops) (fst local_start) (snd local_start) = (0, Some (fill_report (fst local_synced) 1 4), fst local_synced, snd local_synced)"
    using local_publish by simp
  have r: "fold fan_exec [] (fst local_start, snd local_start) = (fst local_start, snd local_start)" by simp
  have v: "op_version (hd local_ops) = (1, 4)" by (simp add: local_ops_def)
  from fanout_report_exact [OF local_created r p v local_one_call] p show ?thesis by blast
qed

end
