(* ===== verification/Media_Auth.thy ===== *)
theory Media_Auth
  imports Revocation_Fanout
begin

text \<open>
  Access tokens (\<open>webrtc/src/auth/turbo_media_auth.c\<close>): the checks on identifiers, scopes and revocation lists, the configuration, the
  verifier of signed tokens with its two entry points, and the issuer.

  OpenSSL (SHA-256, HMAC, base64) and the JSON library are parameters, the record \<open>auth_lib\<close>.  Text is a \<open>string\<close>, its characters the bytes
  before the terminator; a pointer that may be \<open>NULL\<close> is an option.  \<open>alloc k\<close> is whether the \<open>k\<close>-th \<open>malloc\<close> of the call succeeds.
  Times are \<open>int\<close>: the sums the code forms stay in 64 bits for every time below \<open>2 ^ 63 - 300\<close>.
\<close>

section \<open>Libraries and data\<close>

datatype json_type = JSON_OBJECT | JSON_STRING | JSON_NUMBER | JSON_OTHER

text \<open>A JSON number is a \<open>double\<close>, never NaN: a mantissa and a binary exponent, or an infinity with its sign.\<close>

datatype double = Finite int int | Infinite bool

record 'j auth_lib =
  EVP_Digest :: "bytes \<Rightarrow> bytes option"
  HMAC :: "bytes \<Rightarrow> bytes \<Rightarrow> bytes option"
  EVP_EncodedLength :: "nat \<Rightarrow> nat option"
  EVP_EncodeBlock :: "bytes \<Rightarrow> bytes"
  EVP_DecodedLength :: "nat \<Rightarrow> nat option"
  EVP_DecodeBase64 :: "nat \<Rightarrow> bytes \<Rightarrow> bytes option"
  json_parse :: "bytes \<Rightarrow> 'j option"
  json_type_of :: "'j \<Rightarrow> json_type"
  json_object_size :: "'j \<Rightarrow> nat"
  json_object_key :: "'j \<Rightarrow> nat \<Rightarrow> string option"
  json_object_get :: "'j \<Rightarrow> string \<Rightarrow> 'j option"
  json_string :: "'j \<Rightarrow> string option"
  json_number :: "'j \<Rightarrow> double"

record 'c auth_config =
  ac_issuer :: "string option"
  ac_active_key_id :: "string option"
  ac_active_secret :: "string option"
  ac_previous_key_id :: "string option"
  ac_previous_secret :: "string option"
  ac_revoked_token_sha256 :: "string option"
  ac_revocation_check :: "('c option \<Rightarrow> bytes option \<Rightarrow> nat \<Rightarrow> revocation_status) option"
  ac_revocation_context :: "'c option"
  ac_clock_skew_seconds :: int
  ac_max_ttl_seconds :: int

record auth_policy =
  po_audience :: "string option"
  po_required_scope :: "string option"
  po_room_id :: "string option"
  po_participant_id :: "string option"
  po_now :: int
  po_tenant_id :: "string option"

record auth_claims =
  cl_subject :: "string option"
  cl_audience :: "string option"
  cl_scope :: "string option"
  cl_room_id :: "string option"
  cl_participant_id :: "string option"
  cl_issued_at :: int
  cl_expires_at :: int
  cl_tenant_id :: "string option"

datatype auth_result = AUTH_DENIED | AUTH_STATIC_TOKEN | AUTH_SIGNED_TOKEN

definition AUTH_BEARER_PREFIX :: string where "AUTH_BEARER_PREFIX = ''Bearer ''"
definition AUTH_TOKEN_TYPE :: string where "AUTH_TOKEN_TYPE = ''turbomedia-auth+jwt''"
definition AUTH_ALGORITHM :: string where "AUTH_ALGORITHM = ''HS256''"
definition AUTH_MAX_TOKEN_BYTES :: nat where [simp]: "AUTH_MAX_TOKEN_BYTES = 4096"
definition AUTH_MAX_HEADER_BYTES :: nat where [simp]: "AUTH_MAX_HEADER_BYTES = 512"
definition AUTH_MAX_PAYLOAD_BYTES :: nat where [simp]: "AUTH_MAX_PAYLOAD_BYTES = 2048"
definition AUTH_MAX_CLAIM_BYTES :: nat where [simp]: "AUTH_MAX_CLAIM_BYTES = 255"
definition AUTH_SIGNATURE_BYTES :: nat where [simp]: "AUTH_SIGNATURE_BYTES = 32"
definition AUTH_MIN_SECRET_BYTES :: nat where [simp]: "AUTH_MIN_SECRET_BYTES = 32"
definition AUTH_MAX_REVOCATION_LIST_BYTES :: nat where
  [simp]: "AUTH_MAX_REVOCATION_LIST_BYTES = MAX_REVOKED_TOKENS * SHA256_HEX_BYTES + MAX_REVOKED_TOKENS - 1"

text \<open>The bytes of a text, and bytes read as a text.\<close>

definition text_bytes :: "string \<Rightarrow> bytes" where
  "text_bytes s = map of_char s"

definition bytes_text :: "bytes \<Rightarrow> string" where
  "bytes_text b = map (\<lambda>x. char_of (unat x)) b"

section \<open>Hashes\<close>

definition auth_sha256 :: "'j auth_lib \<Rightarrow> string \<Rightarrow> bytes option" where
  "auth_sha256 lib data =
     (case EVP_Digest lib (text_bytes data) of
        None \<Rightarrow> None
      | Some digest \<Rightarrow> if length digest \<noteq> SHA256_BYTES then None else Some digest)"

definition auth_hmac_sha256 :: "'j auth_lib \<Rightarrow> string \<Rightarrow> string \<Rightarrow> bytes option" where
  "auth_hmac_sha256 lib key data =
     (if length key > 2147483647 then None
      else case HMAC lib (text_bytes key) (text_bytes data) of
             None \<Rightarrow> None
           | Some digest \<Rightarrow> if length digest \<noteq> AUTH_SIGNATURE_BYTES then None else Some digest)"

section \<open>Checks on text\<close>

definition auth_string_present :: "string option \<Rightarrow> bool" where
  "auth_string_present value \<longleftrightarrow> (case value of None \<Rightarrow> False | Some s \<Rightarrow> s \<noteq> [])"

definition alphanumeric :: "char \<Rightarrow> bool" where
  "alphanumeric ch \<longleftrightarrow> CHR ''a'' \<le> ch \<and> ch \<le> CHR ''z'' \<or> CHR ''A'' \<le> ch \<and> ch \<le> CHR ''Z'' \<or> CHR ''0'' \<le> ch \<and> ch \<le> CHR ''9''"

definition identifier_char :: "char \<Rightarrow> bool" where
  "identifier_char ch \<longleftrightarrow> alphanumeric ch \<or> ch = CHR ''-'' \<or> ch = CHR ''_'' \<or> ch = CHR ''.'' \<or> ch = CHR ''~'' \<or> ch = CHR '':'' \<or> ch = CHR ''/''"

definition auth_identifier_valid :: "string option \<Rightarrow> bool" where
  "auth_identifier_valid value \<longleftrightarrow>
     (case value of
        None \<Rightarrow> False
      | Some s \<Rightarrow> s \<noteq> [] \<and> length s \<le> AUTH_MAX_CLAIM_BYTES \<and> list_all identifier_char s)"

definition auth_tenant_identifier_valid :: "string option \<Rightarrow> bool" where
  "auth_tenant_identifier_valid value \<longleftrightarrow> auth_identifier_valid value \<and> CHR ''/'' \<notin> set (the value)"

definition auth_tenant_room_consistent :: "string option \<Rightarrow> string option \<Rightarrow> bool" where
  "auth_tenant_room_consistent tenant_id room_id \<longleftrightarrow>
     (case (tenant_id, room_id) of
        (Some tenant, Some room) \<Rightarrow>
          take (length tenant) room = tenant
          \<and> (case drop (length tenant) room of c # _ # _ \<Rightarrow> c = CHR ''/'' | _ \<Rightarrow> False)
      | _ \<Rightarrow> True)"

definition scope_char :: "char \<Rightarrow> bool" where
  "scope_char ch \<longleftrightarrow> alphanumeric ch \<or> ch = CHR ''-'' \<or> ch = CHR ''_'' \<or> ch = CHR ''.'' \<or> ch = CHR '':'' \<or> ch = CHR ''/''"

text \<open>The loop over the scope list; the flag is \<open>at_token_start\<close>.\<close>

fun scope_loop :: "bool \<Rightarrow> string \<Rightarrow> bool" where
  "scope_loop at_token_start [] = (\<not> at_token_start)"
| "scope_loop at_token_start (ch # cs) =
     (if ch = CHR '' '' then if at_token_start then False else scope_loop True cs
      else if \<not> scope_char ch then False
      else scope_loop False cs)"

definition auth_scope_list_valid :: "string option \<Rightarrow> bool" where
  "auth_scope_list_valid scope \<longleftrightarrow>
     (case scope of
        None \<Rightarrow> False
      | Some s \<Rightarrow> s \<noteq> [] \<and> length s \<le> AUTH_MAX_CLAIM_BYTES \<and> scope_loop True s)"

definition auth_key_pair_valid :: "string option \<Rightarrow> string option \<Rightarrow> bool" where
  "auth_key_pair_valid key_id secret \<longleftrightarrow>
     auth_identifier_valid key_id \<and> auth_string_present secret \<and> length (the secret) \<ge> AUTH_MIN_SECRET_BYTES"

definition auth_hex_nibble :: "char \<Rightarrow> u8 option" where
  "auth_hex_nibble value =
     (if CHR ''0'' \<le> value \<and> value \<le> CHR ''9'' then Some (of_char value - of_char CHR ''0'')
      else if CHR ''a'' \<le> value \<and> value \<le> CHR ''f'' then Some (of_char value - of_char CHR ''a'' + 10)
      else None)"

section \<open>The static revocation list\<close>

fun list_loop :: "nat \<Rightarrow> nat \<Rightarrow> string \<Rightarrow> bool" where
  "list_loop entry_count entry_length [] = (entry_length = SHA256_HEX_BYTES)"
| "list_loop entry_count entry_length (c # cs) =
     (if c = CHR '','' then
        if entry_length \<noteq> SHA256_HEX_BYTES \<or> entry_count \<ge> MAX_REVOKED_TOKENS then False else list_loop (entry_count + 1) 0 cs
      else if auth_hex_nibble c = None \<or> entry_length \<ge> SHA256_HEX_BYTES then False
      else list_loop entry_count (entry_length + 1) cs)"

definition auth_revocation_list_valid :: "string option \<Rightarrow> bool" where
  "auth_revocation_list_valid list \<longleftrightarrow>
     (if \<not> auth_string_present list then True
      else if length (the list) > AUTH_MAX_REVOCATION_LIST_BYTES then False
      else list_loop 1 0 (the list))"

text \<open>The bytes of one entry; a pair cut short by the terminator is not hexadecimal.\<close>

fun entry_bytes :: "nat \<Rightarrow> string \<Rightarrow> bytes option" where
  "entry_bytes 0 entry = Some []"
| "entry_bytes (Suc n) (a # b # cs) =
     (case auth_hex_nibble a of
        None \<Rightarrow> None
      | Some high \<Rightarrow> (case auth_hex_nibble b of
                        None \<Rightarrow> None
                      | Some low \<Rightarrow> map_option ((#) (push_bit 4 high OR low)) (entry_bytes n cs)))"
| "entry_bytes (Suc n) _ = None"

function revoked_loop :: "bytes \<Rightarrow> string \<Rightarrow> bool" where
  "revoked_loop digest entry =
     (if entry = [] then False
      else case entry_bytes SHA256_BYTES entry of
             None \<Rightarrow> True
           | Some expected \<Rightarrow>
               if digest = expected then True
               else let rest = drop SHA256_HEX_BYTES entry
                    in revoked_loop digest (if take 1 rest = '','' then drop 1 rest else rest))"
  by pat_completeness auto
termination by (relation "measure (\<lambda>(d, e). length e)") auto

declare revoked_loop.simps [simp del]

definition auth_token_revoked :: "'j auth_lib \<Rightarrow> string \<Rightarrow> string option \<Rightarrow> bool" where
  "auth_token_revoked lib token list \<longleftrightarrow>
     (if \<not> auth_string_present list then False
      else case auth_sha256 lib token of None \<Rightarrow> True | Some digest \<Rightarrow> revoked_loop digest (the list))"

section \<open>Configuration\<close>

definition auth_config_enabled :: "'c auth_config option \<Rightarrow> bool" where
  "auth_config_enabled config \<longleftrightarrow>
     (case config of
        None \<Rightarrow> False
      | Some c \<Rightarrow> auth_string_present (ac_active_key_id c) \<and> auth_string_present (ac_active_secret c))"

definition auth_config_validate :: "'c auth_config option \<Rightarrow> bool" where
  "auth_config_validate config \<longleftrightarrow>
     (case config of
        None \<Rightarrow> False
      | Some c \<Rightarrow>
          if \<not> auth_config_enabled config \<or> \<not> auth_identifier_valid (ac_issuer c)
             \<or> \<not> auth_key_pair_valid (ac_active_key_id c) (ac_active_secret c)
             \<or> ac_clock_skew_seconds c < 0 \<or> ac_clock_skew_seconds c > 300
             \<or> ac_max_ttl_seconds c < 1 \<or> ac_max_ttl_seconds c > 86400
             \<or> \<not> auth_revocation_list_valid (ac_revoked_token_sha256 c)
             \<or> (ac_revocation_check c = None) \<noteq> (ac_revocation_context c = None) then False
          else if auth_string_present (ac_previous_key_id c) \<noteq> auth_string_present (ac_previous_secret c) then False
          else if auth_string_present (ac_previous_key_id c)
                  \<and> (\<not> auth_key_pair_valid (ac_previous_key_id c) (ac_previous_secret c)
                     \<or> ac_active_key_id c = ac_previous_key_id c) then False
          else True)"

section \<open>Base64url\<close>

definition url_char :: "u8 \<Rightarrow> u8" where
  "url_char b = (if b = 0x2B then 0x2D else if b = 0x2F then 0x5F else b)"

text \<open>The encoder of the library writes into a buffer of \<open>EVP_EncodedLength\<close> bytes; trailing \<open>=\<close> are cut off.\<close>

definition auth_base64url_encode :: "'j auth_lib \<Rightarrow> bool \<Rightarrow> bytes \<Rightarrow> string option" where
  "auth_base64url_encode lib alloc input =
     (case EVP_EncodedLength lib (length input) of
        None \<Rightarrow> None
      | Some capacity \<Rightarrow>
          if \<not> alloc then None
          else Some (bytes_text (map url_char (rev (dropWhile ((=) 0x3D) (rev (EVP_EncodeBlock lib input)))))))"

definition std_char :: "char \<Rightarrow> u8 option" where
  "std_char ch =
     (if alphanumeric ch then Some (of_char ch)
      else if ch = CHR ''-'' then Some 0x2B
      else if ch = CHR ''_'' then Some 0x2F
      else None)"

fun normalize :: "string \<Rightarrow> bytes option" where
  "normalize [] = Some []"
| "normalize (ch # cs) = (case std_char ch of None \<Rightarrow> None | Some b \<Rightarrow> map_option ((#) b) (normalize cs))"

definition auth_base64url_decode :: "'j auth_lib \<Rightarrow> bool \<Rightarrow> bool \<Rightarrow> string \<Rightarrow> nat \<Rightarrow> bytes option" where
  "auth_base64url_decode lib alloc1 alloc2 input maximum_output =
     (if input = [] \<or> length input > AUTH_MAX_TOKEN_BYTES \<or> length input mod 4 = 1 then None
      else let padding = (4 - length input mod 4) mod 4
           in if \<not> alloc1 then None
              else case normalize input of
                     None \<Rightarrow> None
                   | Some n \<Rightarrow>
                       let normalized = n @ replicate padding 0x3D
                       in case EVP_DecodedLength lib (length normalized) of
                            None \<Rightarrow> None
                          | Some capacity \<Rightarrow>
                              if capacity > maximum_output + 2 then None
                              else if \<not> alloc2 then None
                              else case EVP_DecodeBase64 lib capacity normalized of
                                     None \<Rightarrow> None
                                   | Some decoded \<Rightarrow> if length decoded > maximum_output then None else Some decoded)"

section \<open>JSON\<close>

definition auth_json_object_strict :: "'j auth_lib \<Rightarrow> 'j \<Rightarrow> string list \<Rightarrow> bool" where
  "auth_json_object_strict lib object allowed \<longleftrightarrow>
     json_type_of lib object = JSON_OBJECT
     \<and> list_all (\<lambda>i. case json_object_key lib object i of
                        None \<Rightarrow> False
                      | Some key \<Rightarrow> key \<in> set allowed \<and> list_all (\<lambda>j. json_object_key lib object j \<noteq> Some key) [0..<i])
          [0..<json_object_size lib object]"

definition auth_json_string :: "'j auth_lib \<Rightarrow> 'j \<Rightarrow> string \<Rightarrow> string option" where
  "auth_json_string lib object key =
     (case json_object_get lib object key of
        None \<Rightarrow> None
      | Some v \<Rightarrow> if json_type_of lib v \<noteq> JSON_STRING then None else json_string lib v)"

text \<open>The conversion of a \<open>double\<close> between 0 and \<open>2 ^ 53 - 1\<close> to an integer is exact or refused.\<close>

definition double_int64 :: "double \<Rightarrow> int option" where
  "double_int64 number =
     (case number of
        Infinite _ \<Rightarrow> None
      | Finite m e \<Rightarrow>
          if m < 0 then None
          else if e \<ge> 0 then (if m * 2 ^ nat e > 9007199254740991 then None else Some (m * 2 ^ nat e))
          else if m > 9007199254740991 * 2 ^ nat (- e) then None
          else if m mod 2 ^ nat (- e) \<noteq> 0 then None
          else Some (m div 2 ^ nat (- e)))"

definition auth_json_int64 :: "'j auth_lib \<Rightarrow> 'j \<Rightarrow> string \<Rightarrow> int option" where
  "auth_json_int64 lib object key =
     (case json_object_get lib object key of
        None \<Rightarrow> None
      | Some v \<Rightarrow> if json_type_of lib v \<noteq> JSON_NUMBER then None else double_int64 (json_number lib v))"

text \<open>The loop over the space-separated scopes.\<close>

function scope_search :: "string \<Rightarrow> string \<Rightarrow> bool" where
  "scope_search required cursor =
     (if cursor = [] then False
      else if takeWhile ((\<noteq>) CHR '' '') cursor = required then True
      else if CHR '' '' \<notin> set cursor then False
      else scope_search required (tl (dropWhile ((\<noteq>) CHR '' '') cursor)))"
  by pat_completeness auto
termination
proof (relation "measure (\<lambda>(r, c). length c)")
  fix cursor :: string assume "cursor \<noteq> []"
  with length_dropWhile_le [of "(\<noteq>) CHR '' ''" cursor]
  have "length (tl (dropWhile ((\<noteq>) CHR '' '') cursor)) < length cursor" by (cases cursor) auto
  then show "((required, tl (dropWhile ((\<noteq>) CHR '' '') cursor)), required, cursor) \<in> measure (\<lambda>(r, c). length c)" for required by simp
qed simp

declare scope_search.simps [simp del]

definition auth_scope_contains :: "string option \<Rightarrow> string option \<Rightarrow> bool" where
  "auth_scope_contains scope_list required_scope \<longleftrightarrow>
     auth_scope_list_valid scope_list \<and> auth_identifier_valid required_scope \<and> scope_search (the required_scope) (the scope_list)"

definition auth_resource_claim_matches :: "string option \<Rightarrow> string option \<Rightarrow> bool" where
  "auth_resource_claim_matches actual expected \<longleftrightarrow> (case expected of None \<Rightarrow> actual = None | Some e \<Rightarrow> actual = Some e)"

definition auth_select_secret :: "'c auth_config \<Rightarrow> string \<Rightarrow> string option" where
  "auth_select_secret config key_id =
     (if ac_active_key_id config = Some key_id then ac_active_secret config
      else if auth_string_present (ac_previous_key_id config) \<and> ac_previous_key_id config = Some key_id then ac_previous_secret config
      else None)"

section \<open>The verifier\<close>

text \<open>The callback of the configuration: the projection's check behind a pointer.\<close>

definition projection_check_callback :: "revocation_projection option \<Rightarrow> bytes option \<Rightarrow> nat \<Rightarrow> revocation_status" where
  "projection_check_callback context sha256 sha256_size =
     (case context of None \<Rightarrow> STATUS_UNKNOWN | Some p \<Rightarrow> revocation_projection_check_digest p sha256 sha256_size)"

text \<open>The two dots of a token, found from the left; no third one.\<close>

definition split_token :: "string \<Rightarrow> (string \<times> string \<times> string) option" where
  "split_token token =
     (if CHR ''.'' \<notin> set token then None
      else let header = takeWhile ((\<noteq>) CHR ''.'') token; rest = tl (dropWhile ((\<noteq>) CHR ''.'') token)
           in if CHR ''.'' \<notin> set rest then None
              else let body = takeWhile ((\<noteq>) CHR ''.'') rest; signature = tl (dropWhile ((\<noteq>) CHR ''.'') rest)
                   in if CHR ''.'' \<in> set signature then None else Some (header, body, signature))"

definition policy_valid :: "auth_policy \<Rightarrow> bool" where
  "policy_valid policy \<longleftrightarrow>
     auth_identifier_valid (po_audience policy) \<and> auth_identifier_valid (po_required_scope policy)
     \<and> (po_tenant_id policy \<noteq> None \<longrightarrow> auth_tenant_identifier_valid (po_tenant_id policy))
     \<and> (po_room_id policy \<noteq> None \<longrightarrow> auth_identifier_valid (po_room_id policy))
     \<and> auth_tenant_room_consistent (po_tenant_id policy) (po_room_id policy)
     \<and> (po_participant_id policy \<noteq> None \<longrightarrow> auth_identifier_valid (po_participant_id policy))"

definition header_keys :: "string list" where
  "header_keys = [''alg'', ''typ'', ''kid'']"

definition payload_keys :: "string list" where
  "payload_keys = [''iss'', ''sub'', ''aud'', ''scope'', ''iat'', ''exp'', ''tenant_id'', ''room_id'', ''participant_id'']"

text \<open>The key identifier of an acceptable header.\<close>

definition header_key_id :: "'j auth_lib \<Rightarrow> 'j \<Rightarrow> string option" where
  "header_key_id lib header =
     (let algorithm = auth_json_string lib header ''alg''; type = auth_json_string lib header ''typ'';
          key_id = auth_json_string lib header ''kid''
      in if algorithm \<noteq> Some AUTH_ALGORITHM \<or> type \<noteq> Some AUTH_TOKEN_TYPE \<or> \<not> auth_identifier_valid key_id then None else key_id)"

definition signature_valid :: "'j auth_lib \<Rightarrow> 'c auth_config \<Rightarrow> string \<Rightarrow> string \<Rightarrow> bytes \<Rightarrow> bool" where
  "signature_valid lib config key_id signing_input signature \<longleftrightarrow>
     (case auth_select_secret config key_id of
        None \<Rightarrow> False
      | Some secret \<Rightarrow> (case auth_hmac_sha256 lib secret signing_input of None \<Rightarrow> False | Some expected \<Rightarrow> signature = expected))"

text \<open>The times of acceptable claims.\<close>

definition claim_times :: "'j auth_lib \<Rightarrow> 'c auth_config \<Rightarrow> auth_policy \<Rightarrow> 'j \<Rightarrow> (int \<times> int) option" where
  "claim_times lib config policy body =
     (let issuer = auth_json_string lib body ''iss''; subject = auth_json_string lib body ''sub'';
          audience = auth_json_string lib body ''aud''; scope = auth_json_string lib body ''scope'';
          tenant_id = auth_json_string lib body ''tenant_id''; room_id = auth_json_string lib body ''room_id'';
          participant_id = auth_json_string lib body ''participant_id''
      in if \<not> auth_identifier_valid issuer \<or> issuer \<noteq> ac_issuer config
            \<or> \<not> auth_identifier_valid subject
            \<or> \<not> auth_identifier_valid audience \<or> audience \<noteq> po_audience policy
            \<or> \<not> auth_scope_contains scope (po_required_scope policy)
            \<or> tenant_id \<noteq> None \<and> \<not> auth_tenant_identifier_valid tenant_id
            \<or> room_id \<noteq> None \<and> \<not> auth_identifier_valid room_id
            \<or> \<not> auth_tenant_room_consistent tenant_id room_id
            \<or> participant_id \<noteq> None \<and> \<not> auth_identifier_valid participant_id
            \<or> participant_id \<noteq> None \<and> room_id = None
            \<or> \<not> auth_resource_claim_matches tenant_id (po_tenant_id policy)
            \<or> \<not> auth_resource_claim_matches room_id (po_room_id policy)
            \<or> \<not> auth_resource_claim_matches participant_id (po_participant_id policy) then None
         else case auth_json_int64 lib body ''iat'' of
                None \<Rightarrow> None
              | Some issued_at \<Rightarrow> map_option (Pair issued_at) (auth_json_int64 lib body ''exp''))"

definition times_valid :: "'c auth_config \<Rightarrow> int \<Rightarrow> int \<times> int \<Rightarrow> bool" where
  "times_valid config now window \<longleftrightarrow>
     (case window of (issued_at, expires_at) \<Rightarrow>
        \<not> (expires_at \<le> issued_at \<or> expires_at - issued_at > ac_max_ttl_seconds config
           \<or> issued_at > now + ac_clock_skew_seconds config \<or> expires_at \<le> now - ac_clock_skew_seconds config))"

definition policy_now :: "auth_policy \<Rightarrow> int \<Rightarrow> int" where
  "policy_now policy time = (if po_now policy > 0 then po_now policy else time)"

definition dynamic_check_clear :: "'j auth_lib \<Rightarrow> 'c auth_config \<Rightarrow> string \<Rightarrow> bool" where
  "dynamic_check_clear lib config token \<longleftrightarrow>
     (case ac_revocation_check config of
        None \<Rightarrow> True
      | Some check \<Rightarrow>
          (case auth_sha256 lib token of
             None \<Rightarrow> False
           | Some digest \<Rightarrow> check (ac_revocation_context config) (Some digest) SHA256_BYTES = STATUS_CLEAR))"

text \<open>\<open>time\<close> is the value of \<open>time(NULL)\<close>.\<close>

definition auth_verify_signed_token ::
  "'j auth_lib \<Rightarrow> (nat \<Rightarrow> bool) \<Rightarrow> int \<Rightarrow> string option \<Rightarrow> 'c auth_config option \<Rightarrow> auth_policy option \<Rightarrow> bool" where
  "auth_verify_signed_token lib alloc time token config policy \<longleftrightarrow>
     (case (token, config, policy) of
        (Some tok, Some cfg, Some pol) \<Rightarrow>
          if \<not> auth_config_validate config \<or> \<not> policy_valid pol then False
          else if tok = [] \<or> length tok > AUTH_MAX_TOKEN_BYTES then False
          else (case split_token tok of
            None \<Rightarrow> False
          | Some (first, second, third) \<Rightarrow>
              (case auth_base64url_decode lib (alloc 0) (alloc 1) first AUTH_MAX_HEADER_BYTES of
                 None \<Rightarrow> False
               | Some header_text \<Rightarrow>
              (case auth_base64url_decode lib (alloc 2) (alloc 3) second AUTH_MAX_PAYLOAD_BYTES of
                 None \<Rightarrow> False
               | Some payload_text \<Rightarrow>
              (case auth_base64url_decode lib (alloc 4) (alloc 5) third AUTH_SIGNATURE_BYTES of
                 None \<Rightarrow> False
               | Some signature \<Rightarrow>
                   if length signature \<noteq> AUTH_SIGNATURE_BYTES then False
                   else (case (json_parse lib header_text, json_parse lib payload_text) of
                     (Some header, Some body) \<Rightarrow>
                       if \<not> auth_json_object_strict lib header header_keys then False
                       else if \<not> auth_json_object_strict lib body payload_keys then False
                       else (case header_key_id lib header of
                         None \<Rightarrow> False
                       | Some key_id \<Rightarrow>
                           if \<not> signature_valid lib cfg key_id (first @ ''.'' @ second) signature then False
                           else (case claim_times lib cfg pol body of
                             None \<Rightarrow> False
                           | Some window \<Rightarrow>
                               if \<not> times_valid cfg (policy_now pol time) window then False
                               else if auth_token_revoked lib tok (ac_revoked_token_sha256 cfg) then False
                               else dynamic_check_clear lib cfg tok))
                   | _ \<Rightarrow> False)))))
      | _ \<Rightarrow> False)"

definition auth_static_token_matches :: "string option \<Rightarrow> string option \<Rightarrow> bool" where
  "auth_static_token_matches authorization static_token \<longleftrightarrow>
     (case authorization of
        None \<Rightarrow> False
      | Some a \<Rightarrow>
          auth_string_present static_token \<and> take (length AUTH_BEARER_PREFIX) a = AUTH_BEARER_PREFIX
          \<and> drop (length AUTH_BEARER_PREFIX) a = the static_token)"

definition auth_authorize ::
  "'j auth_lib \<Rightarrow> (nat \<Rightarrow> bool) \<Rightarrow> int \<Rightarrow> string option \<Rightarrow> string option \<Rightarrow> 'c auth_config option \<Rightarrow> auth_policy option \<Rightarrow> auth_result" where
  "auth_authorize lib alloc time authorization static_token config policy =
     (if (case config of None \<Rightarrow> True | Some c \<Rightarrow> ac_revocation_check c = None)
         \<and> auth_static_token_matches authorization static_token then AUTH_STATIC_TOKEN
      else if (case authorization of None \<Rightarrow> True | Some a \<Rightarrow> take (length AUTH_BEARER_PREFIX) a \<noteq> AUTH_BEARER_PREFIX)
              \<or> \<not> auth_config_enabled config
              \<or> \<not> auth_verify_signed_token lib alloc time (map_option (drop (length AUTH_BEARER_PREFIX)) authorization) config policy
           then AUTH_DENIED
      else AUTH_SIGNED_TOKEN)"

definition auth_authorize_token ::
  "'j auth_lib \<Rightarrow> (nat \<Rightarrow> bool) \<Rightarrow> int \<Rightarrow> string option \<Rightarrow> 'c auth_config option \<Rightarrow> auth_policy option \<Rightarrow> auth_result" where
  "auth_authorize_token lib alloc time token config policy =
     (if token = None \<or> \<not> auth_config_enabled config \<or> \<not> auth_verify_signed_token lib alloc time token config policy
      then AUTH_DENIED else AUTH_SIGNED_TOKEN)"

section \<open>The issuer\<close>

text \<open>The results of the formats \<open>%s\<close> between quotes and \<open>%lld\<close>.\<close>

definition quoted :: "string \<Rightarrow> string" where
  "quoted s = CHR 0x22 # s @ [CHR 0x22]"

fun show_nat :: "nat \<Rightarrow> string" where
  "show_nat n = (if n < 10 then [char_of (48 + n)] else show_nat (n div 10) @ [char_of (48 + n mod 10)])"

declare show_nat.simps [simp del]

definition show_int :: "int \<Rightarrow> string" where
  "show_int i = (if i < 0 then CHR ''-'' # show_nat (nat (- i)) else show_nat (nat i))"

text \<open>\<open>vsnprintf\<close> of a text at the position \<open>used\<close> of the output, which holds \<open>used\<close> characters, or of none.\<close>

definition auth_payload_append :: "string option \<Rightarrow> nat \<Rightarrow> nat \<Rightarrow> string \<Rightarrow> (string option \<times> nat) option" where
  "auth_payload_append output capacity used text =
     (let available = (if output \<noteq> None \<and> capacity > used then capacity - used else 0)
      in if length text > AUTH_MAX_PAYLOAD_BYTES - used then None
         else if output \<noteq> None \<and> length text \<ge> available then None
         else Some (map_option (\<lambda>s. s @ text) output, used + length text))"

fun append_pieces :: "nat \<Rightarrow> string list \<Rightarrow> string option \<times> nat \<Rightarrow> (string option \<times> nat) option" where
  "append_pieces capacity [] x = Some x"
| "append_pieces capacity (p # ps) (output, used) =
     (case auth_payload_append output capacity used p of None \<Rightarrow> None | Some x \<Rightarrow> append_pieces capacity ps x)"

text \<open>The texts the payload is put together from, in the order of the calls; a claim that is \<open>NULL\<close> is skipped.\<close>

definition optional_piece :: "string \<Rightarrow> string option \<Rightarrow> string list" where
  "optional_piece key value = (case value of None \<Rightarrow> [] | Some s \<Rightarrow> ['','' @ quoted key @ '':'' @ quoted s])"

definition payload_pieces :: "'c auth_config \<Rightarrow> auth_claims \<Rightarrow> string list" where
  "payload_pieces config claims =
     [''{'' @ quoted ''iss'' @ '':'' @ quoted (the (ac_issuer config)) @ '','' @ quoted ''sub'' @ '':'' @ quoted (the (cl_subject claims))
       @ '','' @ quoted ''aud'' @ '':'' @ quoted (the (cl_audience claims)) @ '','' @ quoted ''scope'' @ '':'' @ quoted (the (cl_scope claims))]
     @ optional_piece ''tenant_id'' (cl_tenant_id claims)
     @ optional_piece ''room_id'' (cl_room_id claims)
     @ optional_piece ''participant_id'' (cl_participant_id claims)
     @ ['','' @ quoted ''iat'' @ '':'' @ show_int (cl_issued_at claims) @ '','' @ quoted ''exp'' @ '':'' @ show_int (cl_expires_at claims) @ ''}'']"

definition auth_format_payload :: "bool \<Rightarrow> 'c auth_config \<Rightarrow> auth_claims \<Rightarrow> string option" where
  "auth_format_payload alloc config claims =
     (case append_pieces 0 (payload_pieces config claims) (None, 0) of
        None \<Rightarrow> None
      | Some (_, required) \<Rightarrow>
          if required > AUTH_MAX_PAYLOAD_BYTES then None
          else if \<not> alloc then None
          else case append_pieces (required + 1) (payload_pieces config claims) (Some [], 0) of
                 None \<Rightarrow> None
               | Some (output, used) \<Rightarrow> if used \<noteq> required then None else output)"

definition issue_header :: "'c auth_config \<Rightarrow> string" where
  "issue_header config =
     ''{'' @ quoted ''alg'' @ '':'' @ quoted AUTH_ALGORITHM @ '','' @ quoted ''typ'' @ '':'' @ quoted AUTH_TOKEN_TYPE
     @ '','' @ quoted ''kid'' @ '':'' @ quoted (the (ac_active_key_id config)) @ ''}''"

definition claims_valid :: "'c auth_config \<Rightarrow> auth_claims \<Rightarrow> bool" where
  "claims_valid config claims \<longleftrightarrow>
     auth_identifier_valid (cl_subject claims) \<and> auth_identifier_valid (cl_audience claims) \<and> auth_scope_list_valid (cl_scope claims)
     \<and> (cl_tenant_id claims \<noteq> None \<longrightarrow> auth_tenant_identifier_valid (cl_tenant_id claims))
     \<and> (cl_room_id claims \<noteq> None \<longrightarrow> auth_identifier_valid (cl_room_id claims))
     \<and> auth_tenant_room_consistent (cl_tenant_id claims) (cl_room_id claims)
     \<and> (cl_participant_id claims \<noteq> None \<longrightarrow> auth_identifier_valid (cl_participant_id claims))
     \<and> \<not> (cl_participant_id claims \<noteq> None \<and> cl_room_id claims = None)
     \<and> \<not> cl_issued_at claims < 0 \<and> \<not> cl_expires_at claims \<le> cl_issued_at claims
     \<and> \<not> cl_expires_at claims - cl_issued_at claims > ac_max_ttl_seconds config"

definition auth_issue :: "'j auth_lib \<Rightarrow> (nat \<Rightarrow> bool) \<Rightarrow> 'c auth_config option \<Rightarrow> auth_claims option \<Rightarrow> string option" where
  "auth_issue lib alloc config claims =
     (case (config, claims) of
        (Some cfg, Some cl) \<Rightarrow>
          if \<not> auth_config_validate config \<or> \<not> claims_valid cfg cl then None
          else let header = issue_header cfg
               in if length header \<ge> AUTH_MAX_HEADER_BYTES then None
                  else (case auth_format_payload (alloc 0) cfg cl of
                    None \<Rightarrow> None
                  | Some body \<Rightarrow>
                      (case (auth_base64url_encode lib (alloc 1) (text_bytes header), auth_base64url_encode lib (alloc 2) (text_bytes body)) of
                         (Some encoded_header, Some encoded_payload) \<Rightarrow>
                           let signing_input = encoded_header @ ''.'' @ encoded_payload
                           in if length signing_input > AUTH_MAX_TOKEN_BYTES \<or> \<not> alloc 3 then None
                              else (case auth_hmac_sha256 lib (the (ac_active_secret cfg)) signing_input of
                                None \<Rightarrow> None
                              | Some signature \<Rightarrow>
                                  (case auth_base64url_encode lib (alloc 4) signature of
                                     None \<Rightarrow> None
                                   | Some encoded_signature \<Rightarrow>
                                       let token = signing_input @ ''.'' @ encoded_signature
                                       in if length token > AUTH_MAX_TOKEN_BYTES \<or> \<not> alloc 5 then None else Some token))
                       | _ \<Rightarrow> None))
      | _ \<Rightarrow> None)"

end
