(* ===== verification/Auth_Tokens.thy ===== *)
theory Auth_Tokens
  imports Media_Auth
begin

text \<open>
  What the access tokens of \<open>Media_Auth\<close> guarantee.

  Shown here: a signed token is accepted exactly when it is well formed, signed with one of the configured keys, unexpired, issued for the
  audience, the scope and exactly the resources of the policy, and not revoked; a valid set of claims always yields a token, which every
  verifier that knows the key accepts during its lifetime; and a published revocation makes every node refuse the token.
\<close>

section \<open>Separated lists\<close>

fun split_on :: "char \<Rightarrow> string \<Rightarrow> string list" where
  "split_on c [] = [[]]"
| "split_on c (x # xs) = (if x = c then [] # split_on c xs else (x # hd (split_on c xs)) # tl (split_on c xs))"

lemma split_on_nonempty [simp]: "split_on c s \<noteq> []"
  by (induction s) auto

lemma split_on_first:
  "split_on c s = takeWhile ((\<noteq>) c) s # (if c \<in> set s then split_on c (tl (dropWhile ((\<noteq>) c) s)) else [])"
  by (induction s) auto

lemma split_on_append: "c \<notin> set a \<Longrightarrow> split_on c (a @ c # b) = a # split_on c b"
  by (induction a) auto

lemma split_on_single: "c \<notin> set a \<Longrightarrow> split_on c a = [a]"
  by (induction a) auto

lemma split_at_first: "c \<in> set s \<Longrightarrow> s = takeWhile ((\<noteq>) c) s @ c # tl (dropWhile ((\<noteq>) c) s)"
  by (induction s) auto

lemma no_separator: "c \<notin> set (takeWhile ((\<noteq>) c) s)"
  by (induction s) auto

lemma split_token_iff:
  "split_token t = Some (h, p, s) \<longleftrightarrow> t = h @ ''.'' @ p @ ''.'' @ s \<and> CHR ''.'' \<notin> set h \<union> set p \<union> set s"
proof
  assume "split_token t = Some (h, p, s)"
  then show "t = h @ ''.'' @ p @ ''.'' @ s \<and> CHR ''.'' \<notin> set h \<union> set p \<union> set s"
    using split_at_first [of "CHR ''.''" t] split_at_first [of "CHR ''.''" "tl (dropWhile ((\<noteq>) CHR ''.'') t)"]
      no_separator [of "CHR ''.''" t] no_separator [of "CHR ''.''" "tl (dropWhile ((\<noteq>) CHR ''.'') t)"]
    unfolding split_token_def Let_def by (simp split: if_splits)
next
  assume a: "t = h @ ''.'' @ p @ ''.'' @ s \<and> CHR ''.'' \<notin> set h \<union> set p \<union> set s"
  have "takeWhile ((\<noteq>) c) (x @ c # y) = x \<and> dropWhile ((\<noteq>) c) (x @ c # y) = c # y" if "c \<notin> set x" for c :: char and x y
    using that by (induction x) auto
  with a show "split_token t = Some (h, p, s)" by (simp add: split_token_def Let_def)
qed

lemma scope_search_iff: "required \<noteq> [] \<Longrightarrow> scope_search required cursor \<longleftrightarrow> required \<in> set (split_on CHR '' '' cursor)"
proof (induction required cursor rule: scope_search.induct)
  case (1 required cursor)
  show ?case
  proof (cases "cursor = [] \<or> takeWhile ((\<noteq>) CHR '' '') cursor = required \<or> CHR '' '' \<notin> set cursor")
    case True
    with 1(2) split_on_first [of "CHR '' ''" cursor] show ?thesis by (auto simp: scope_search.simps [of required cursor])
  next
    case False
    with 1 split_on_first [of "CHR '' ''" cursor] show ?thesis by (auto simp: scope_search.simps [of required cursor])
  qed
qed

section \<open>The static list\<close>

lemma hex_nibble_eq: "auth_hex_nibble = revocation_hex_nibble"
  by (rule ext) (simp add: auth_hex_nibble_def revocation_hex_nibble_def)

lemma entry_bytes_pairs: "length e = 2 * n \<Longrightarrow> entry_bytes n (e @ r) = parse_pairs e"
proof (induction n arbitrary: e)
  case (Suc n)
  then obtain a b cs where "e = a # b # cs" "length cs = 2 * n" by (cases e; cases "tl e") auto
  with Suc.IH show ?case by (simp add: hex_nibble_eq cong: option.case_cong)
qed simp

lemma comma_not_hex: "auth_hex_nibble CHR '','' = None"
  by code_simp

lemma pairs_hex: "list_all (\<lambda>c. auth_hex_nibble c \<noteq> None) e \<Longrightarrow> \<exists>d. parse_pairs e = Some d"
  by (induction e rule: parse_pairs.induct) (auto simp: hex_nibble_eq)

lemma list_loop_entry:
  "list_loop n k s \<Longrightarrow> k \<le> 64 \<Longrightarrow> \<exists>e r. s = e @ r \<and> length e = 64 - k \<and> list_all (\<lambda>c. auth_hex_nibble c \<noteq> None) e
     \<and> (r = [] \<or> (\<exists>r'. r = CHR '','' # r' \<and> list_loop (n + 1) 0 r'))"
proof (induction n k s rule: list_loop.induct)
  case (2 n k c cs)
  show ?case
  proof (cases "c = CHR '',''")
    case True
    with 2 have "k = 64" "list_loop (n + 1) 0 cs" by (auto split: if_splits)
    with True show ?thesis by (intro exI [of _ "[]"] exI [of _ "c # cs"]) auto
  next
    case False
    with 2(3) have c: "auth_hex_nibble c \<noteq> None" "k < 64" "list_loop n (k + 1) cs" by (auto split: if_splits)
    with 2(2) False obtain e r where "cs = e @ r" "length e = 64 - (k + 1)" "list_all (\<lambda>c. auth_hex_nibble c \<noteq> None) e"
      "r = [] \<or> (\<exists>r'. r = CHR '','' # r' \<and> list_loop (n + 1) 0 r')" by auto
    with c show ?thesis by (intro exI [of _ "c # e"] exI [of _ r]) auto
  qed
qed simp

text \<open>The digests on a list.\<close>

definition listed_digests :: "string \<Rightarrow> bytes set" where
  "listed_digests s = {d. \<exists>e\<in>set (split_on CHR '','' s). revocation_parse_digest (Some e) = Some d}"

lemma revoked_loop_iff: "list_loop n 0 s \<Longrightarrow> revoked_loop digest s \<longleftrightarrow> digest \<in> listed_digests s"
proof (induction "length s" arbitrary: n s rule: less_induct)
  case less
  from list_loop_entry [OF less.prems] obtain e r where s: "s = e @ r" "length e = 64" "list_all (\<lambda>c. auth_hex_nibble c \<noteq> None) e"
    and r: "r = [] \<or> (\<exists>r'. r = CHR '','' # r' \<and> list_loop (n + 1) 0 r')" by auto
  from pairs_hex [OF s(3)] obtain d where d: "parse_pairs e = Some d" by blast
  then have p: "revocation_parse_digest (Some e) = Some d" using s(2) by (simp add: revocation_parse_digest_def)
  have b: "entry_bytes 32 s = Some d" using entry_bytes_pairs [of e 32 r] s d by simp
  have c: "CHR '','' \<notin> set e" using s(3) comma_not_hex by (auto simp: list_all_iff)
  have ne: "s \<noteq> []" using s by auto
  note loop = revoked_loop.simps [of digest s]
  from r show ?case
  proof
    assume "r = []"
    then have "revoked_loop digest s \<longleftrightarrow> digest = d" using loop ne b s by (simp add: revoked_loop.simps [of digest "[]"])
    moreover have "listed_digests s = {d}" using \<open>r = []\<close> s c p by (auto simp: listed_digests_def split_on_single)
    ultimately show ?thesis by simp
  next
    assume "\<exists>r'. r = CHR '','' # r' \<and> list_loop (n + 1) 0 r'"
    then obtain r' where r': "r = CHR '','' # r'" "list_loop (n + 1) 0 r'" by blast
    then have "revoked_loop digest s \<longleftrightarrow> digest = d \<or> revoked_loop digest r'" using loop ne b s by simp
    moreover have "listed_digests s = insert d (listed_digests r')" using r' s c p by (auto simp: listed_digests_def split_on_append)
    ultimately show ?thesis using less.hyps [of r' "n + 1"] r' s by simp
  qed
qed

lemma token_revoked_iff:
  assumes "auth_revocation_list_valid list" "auth_sha256 lib token = Some digest"
  shows "auth_token_revoked lib token list \<longleftrightarrow> auth_string_present list \<and> digest \<in> listed_digests (the list)"
  using assms revoked_loop_iff by (auto simp: auth_token_revoked_def auth_revocation_list_valid_def split: if_splits)

section \<open>What a token has to be\<close>

definition configured_key :: "'c auth_config \<Rightarrow> string \<Rightarrow> string \<Rightarrow> bool" where
  "configured_key cfg k secret \<longleftrightarrow> k \<noteq> [] \<and>
     (ac_active_key_id cfg = Some k \<and> ac_active_secret cfg = Some secret \<or> ac_previous_key_id cfg = Some k \<and> ac_previous_secret cfg = Some secret)"

definition claims_match :: "'j auth_lib \<Rightarrow> 'c auth_config \<Rightarrow> auth_policy \<Rightarrow> 'j \<Rightarrow> bool" where
  "claims_match lib cfg pol j \<longleftrightarrow>
     auth_json_string lib j ''iss'' = ac_issuer cfg
     \<and> auth_identifier_valid (auth_json_string lib j ''sub'')
     \<and> auth_json_string lib j ''aud'' = po_audience pol
     \<and> (\<exists>scope. auth_json_string lib j ''scope'' = Some scope \<and> auth_scope_list_valid (Some scope)
          \<and> the (po_required_scope pol) \<in> set (split_on CHR '' '' scope))
     \<and> auth_json_string lib j ''tenant_id'' = po_tenant_id pol
     \<and> auth_json_string lib j ''room_id'' = po_room_id pol
     \<and> auth_json_string lib j ''participant_id'' = po_participant_id pol
     \<and> (po_participant_id pol \<noteq> None \<longrightarrow> po_room_id pol \<noteq> None)"

text \<open>A token that grants what a policy asks for at a time: three encoded parts; a header naming one of the configured keys; a signature of the
  first two parts under it; claims that match configuration and policy and a lifetime that covers the time; and no revocation.\<close>

definition token_grants :: "'j auth_lib \<Rightarrow> 'c auth_config \<Rightarrow> auth_policy \<Rightarrow> int \<Rightarrow> string \<Rightarrow> bool" where
  "token_grants lib cfg pol now tok \<longleftrightarrow> length tok \<le> 4096 \<and>
     (\<exists>h p s header claims signature hj pj k secret iat exp.
        tok = h @ ''.'' @ p @ ''.'' @ s \<and> CHR ''.'' \<notin> set h \<union> set p \<union> set s
        \<and> auth_base64url_decode lib True True h 512 = Some header \<and> json_parse lib header = Some hj
        \<and> auth_base64url_decode lib True True p 2048 = Some claims \<and> json_parse lib claims = Some pj
        \<and> auth_base64url_decode lib True True s 32 = Some signature
        \<and> auth_json_object_strict lib hj header_keys \<and> auth_json_object_strict lib pj payload_keys
        \<and> auth_json_string lib hj ''alg'' = Some ''HS256'' \<and> auth_json_string lib hj ''typ'' = Some ''turbomedia-auth+jwt''
        \<and> auth_json_string lib hj ''kid'' = Some k \<and> configured_key cfg k secret
        \<and> auth_hmac_sha256 lib secret (h @ ''.'' @ p) = Some signature
        \<and> claims_match lib cfg pol pj
        \<and> auth_json_int64 lib pj ''iat'' = Some iat \<and> auth_json_int64 lib pj ''exp'' = Some exp
        \<and> iat < exp \<and> exp - iat \<le> ac_max_ttl_seconds cfg
        \<and> iat \<le> now + ac_clock_skew_seconds cfg \<and> now - ac_clock_skew_seconds cfg < exp)
     \<and> (auth_string_present (ac_revoked_token_sha256 cfg) \<longrightarrow>
          (\<exists>d. auth_sha256 lib tok = Some d \<and> d \<notin> listed_digests (the (ac_revoked_token_sha256 cfg))))
     \<and> (\<forall>check. ac_revocation_check cfg = Some check \<longrightarrow>
          (\<exists>d. auth_sha256 lib tok = Some d \<and> check (ac_revocation_context cfg) (Some d) 32 = STATUS_CLEAR))"

lemma identifier_present: "auth_identifier_valid v \<Longrightarrow> auth_string_present v"
  by (auto simp: auth_identifier_valid_def auth_string_present_def split: option.splits)

lemma header_key_id_iff:
  "header_key_id lib j = Some k \<longleftrightarrow> auth_json_string lib j ''alg'' = Some ''HS256'' \<and> auth_json_string lib j ''typ'' = Some ''turbomedia-auth+jwt''
     \<and> auth_json_string lib j ''kid'' = Some k \<and> auth_identifier_valid (Some k)"
  by (auto simp: header_key_id_def Let_def AUTH_ALGORITHM_def AUTH_TOKEN_TYPE_def)

lemma configured_valid:
  assumes "auth_config_validate (Some cfg)" "configured_key cfg k secret"
  shows "auth_select_secret cfg k = Some secret" "auth_identifier_valid (Some k)"
proof -
  have "auth_string_present (Some k)" using assms(2) by (simp add: configured_key_def auth_string_present_def)
  with assms show "auth_select_secret cfg k = Some secret" "auth_identifier_valid (Some k)"
    unfolding configured_key_def auth_config_validate_def auth_select_secret_def auth_key_pair_valid_def by (auto split: if_splits)
qed

lemma select_configured: "auth_identifier_valid (Some k) \<Longrightarrow> auth_select_secret cfg k = Some secret \<Longrightarrow> configured_key cfg k secret"
  by (auto simp: auth_select_secret_def configured_key_def auth_identifier_valid_def split: if_splits)

lemma signature_valid_iff:
  assumes "auth_config_validate (Some cfg)" "auth_identifier_valid (Some k)"
  shows "signature_valid lib cfg k si sg \<longleftrightarrow> (\<exists>secret. configured_key cfg k secret \<and> auth_hmac_sha256 lib secret si = Some sg)"
proof (cases "auth_select_secret cfg k")
  case None
  then show ?thesis using configured_valid(1) [OF assms(1), of k] by (auto simp: signature_valid_def)
next
  case (Some secret)
  have "configured_key cfg k x \<longleftrightarrow> x = secret" for x
    using configured_valid(1) [OF assms(1), of k x] select_configured [OF assms(2) Some] Some by auto
  with Some show ?thesis by (auto simp: signature_valid_def split: option.splits)
qed

lemma scope_contains_iff:
  "auth_identifier_valid required \<Longrightarrow>
   auth_scope_contains scope required \<longleftrightarrow> (\<exists>s. scope = Some s \<and> auth_scope_list_valid scope \<and> the required \<in> set (split_on CHR '' '' s))"
  by (cases scope) (auto simp: auth_scope_contains_def auth_scope_list_valid_def auth_identifier_valid_def scope_search_iff split: option.splits)

lemma claim_times_iff:
  assumes "auth_config_validate (Some cfg)" "policy_valid pol"
  shows "claim_times lib cfg pol j = Some (iat, exp) \<longleftrightarrow>
    claims_match lib cfg pol j \<and> auth_json_int64 lib j ''iat'' = Some iat \<and> auth_json_int64 lib j ''exp'' = Some exp"
proof -
  have i: "auth_identifier_valid (ac_issuer cfg)" using assms(1) by (auto simp: auth_config_validate_def split: if_splits)
  have p: "auth_identifier_valid (po_audience pol)" "auth_identifier_valid (po_required_scope pol)"
    using assms(2) by (simp_all add: policy_valid_def)
  have m: "auth_resource_claim_matches a e \<longleftrightarrow> a = e" for a e by (auto simp: auth_resource_claim_matches_def split: option.splits)
  let ?s = "auth_json_string lib j"
  let ?times = "case auth_json_int64 lib j ''iat'' of None \<Rightarrow> None | Some a \<Rightarrow> map_option (Pair a) (auth_json_int64 lib j ''exp'')"
  have "claim_times lib cfg pol j = (if claims_match lib cfg pol j then ?times else None)"
  proof (cases "?s ''tenant_id'' = po_tenant_id pol \<and> ?s ''room_id'' = po_room_id pol \<and> ?s ''participant_id'' = po_participant_id pol
      \<and> ?s ''iss'' = ac_issuer cfg \<and> ?s ''aud'' = po_audience pol")
    case True
    from assms(2) have v: "(po_tenant_id pol \<noteq> None \<and> \<not> auth_tenant_identifier_valid (po_tenant_id pol)) = False"
      "(po_room_id pol \<noteq> None \<and> \<not> auth_identifier_valid (po_room_id pol)) = False"
      "(po_participant_id pol \<noteq> None \<and> \<not> auth_identifier_valid (po_participant_id pol)) = False"
      "auth_tenant_room_consistent (po_tenant_id pol) (po_room_id pol) = True"
      unfolding policy_valid_def by blast+
    show ?thesis
      unfolding claim_times_def claims_match_def Let_def m scope_contains_iff [OF p(2)]
      by (simp only: True [THEN conjunct1] True [THEN conjunct2, THEN conjunct1] True [THEN conjunct2, THEN conjunct2, THEN conjunct1]
          True [THEN conjunct2, THEN conjunct2, THEN conjunct2, THEN conjunct1] True [THEN conjunct2, THEN conjunct2, THEN conjunct2, THEN conjunct2]
          v i p(1) simp_thms de_Morgan_disj de_Morgan_conj not_not) (simp add: disj_imp)
  next
    case False
    then show ?thesis unfolding claim_times_def claims_match_def Let_def m by (auto split del: if_split)
  qed
  then have "(claim_times lib cfg pol j = Some (iat, exp)) \<longleftrightarrow> claims_match lib cfg pol j \<and> ?times = Some (iat, exp)" by simp
  then show ?thesis by (auto split: option.splits)
qed

lemma decode_alloc: "auth_base64url_decode lib a b x m = Some r \<Longrightarrow> auth_base64url_decode lib True True x m = Some r"
  by (auto simp: auth_base64url_decode_def Let_def split: if_splits option.splits)

lemma hmac_length: "auth_hmac_sha256 lib k x = Some d \<Longrightarrow> length d = 32"
  by (auto simp: auth_hmac_sha256_def split: if_splits option.splits)

lemma not_revoked_iff:
  assumes "auth_config_validate (Some cfg)"
  shows "\<not> auth_token_revoked lib tok (ac_revoked_token_sha256 cfg) \<longleftrightarrow> (auth_string_present (ac_revoked_token_sha256 cfg) \<longrightarrow>
          (\<exists>d. auth_sha256 lib tok = Some d \<and> d \<notin> listed_digests (the (ac_revoked_token_sha256 cfg))))"
proof -
  have "auth_revocation_list_valid (ac_revoked_token_sha256 cfg)" using assms by (auto simp: auth_config_validate_def split: if_splits)
  note t = token_revoked_iff [OF this]
  show ?thesis
  proof (cases "auth_sha256 lib tok")
    case None
    then show ?thesis by (simp add: auth_token_revoked_def)
  next
    case (Some d)
    with t [OF Some] show ?thesis by simp
  qed
qed

lemma dynamic_check_iff:
  "dynamic_check_clear lib cfg tok \<longleftrightarrow> (\<forall>check. ac_revocation_check cfg = Some check \<longrightarrow>
     (\<exists>d. auth_sha256 lib tok = Some d \<and> check (ac_revocation_context cfg) (Some d) 32 = STATUS_CLEAR))"
  by (auto simp: dynamic_check_clear_def split: option.splits)

text \<open>The verifier as one condition.\<close>

lemma verify_steps:
  "auth_verify_signed_token lib alloc time (Some tok) (Some cfg) (Some pol) \<longleftrightarrow>
     auth_config_validate (Some cfg) \<and> policy_valid pol \<and> length tok \<le> 4096
     \<and> (\<exists>h p s hd bd sg hj pj k w. split_token tok = Some (h, p, s)
          \<and> auth_base64url_decode lib (alloc 0) (alloc 1) h 512 = Some hd \<and> auth_base64url_decode lib (alloc 2) (alloc 3) p 2048 = Some bd
          \<and> auth_base64url_decode lib (alloc 4) (alloc 5) s 32 = Some sg \<and> length sg = 32
          \<and> json_parse lib hd = Some hj \<and> json_parse lib bd = Some pj
          \<and> auth_json_object_strict lib hj header_keys \<and> auth_json_object_strict lib pj payload_keys
          \<and> header_key_id lib hj = Some k \<and> signature_valid lib cfg k (h @ ''.'' @ p) sg
          \<and> claim_times lib cfg pol pj = Some w \<and> times_valid cfg (policy_now pol time) w)
     \<and> \<not> auth_token_revoked lib tok (ac_revoked_token_sha256 cfg) \<and> dynamic_check_clear lib cfg tok"
proof -
  have "split_token [] = None" by (simp add: split_token_def)
  then show ?thesis unfolding auth_verify_signed_token_def by (simp split: option.splits prod.splits) auto
qed

lemma verify_alloc:
  assumes "auth_verify_signed_token lib alloc time tok cfg pol"
  shows "auth_verify_signed_token lib (\<lambda>_. True) time tok cfg pol"
proof -
  from assms obtain t c p where e: "tok = Some t" "cfg = Some c" "pol = Some p"
    by (auto simp: auth_verify_signed_token_def split: option.splits)
  from assms have "auth_verify_signed_token lib alloc time (Some t) (Some c) (Some p)" unfolding e .
  then have "auth_verify_signed_token lib (\<lambda>_. True) time (Some t) (Some c) (Some p)"
    unfolding verify_steps by (blast intro: decode_alloc)
  then show ?thesis unfolding e .
qed

lemma verify_grants:
  assumes "auth_config_validate (Some cfg)" "policy_valid pol"
  shows "auth_verify_signed_token lib (\<lambda>_. True) time (Some tok) (Some cfg) (Some pol) \<longleftrightarrow>
    token_grants lib cfg pol (policy_now pol time) tok"
    (is "_ \<longleftrightarrow> token_grants lib cfg pol ?now tok")
proof -
  have k: "header_key_id lib hj = Some k \<and> signature_valid lib cfg k si sg \<longleftrightarrow>
      (\<exists>secret. auth_json_string lib hj ''alg'' = Some ''HS256'' \<and> auth_json_string lib hj ''typ'' = Some ''turbomedia-auth+jwt''
        \<and> auth_json_string lib hj ''kid'' = Some k \<and> configured_key cfg k secret \<and> auth_hmac_sha256 lib secret si = Some sg)" for hj k si sg
    using header_key_id_iff [of lib hj k] signature_valid_iff [OF assms(1), of k lib si sg] configured_valid(2) [OF assms(1), of k] by blast
  have w: "(\<exists>w. claim_times lib cfg pol pj = Some w \<and> times_valid cfg ?now w) \<longleftrightarrow>
      (\<exists>iat exp. claims_match lib cfg pol pj \<and> auth_json_int64 lib pj ''iat'' = Some iat \<and> auth_json_int64 lib pj ''exp'' = Some exp
        \<and> iat < exp \<and> exp - iat \<le> ac_max_ttl_seconds cfg
        \<and> iat \<le> ?now + ac_clock_skew_seconds cfg \<and> ?now - ac_clock_skew_seconds cfg < exp)" for pj
    by (simp add: split_paired_Ex claim_times_iff [OF assms] times_valid_def not_le not_less conj_assoc)
  show ?thesis
  proof
    assume "auth_verify_signed_token lib (\<lambda>_. True) time (Some tok) (Some cfg) (Some pol)"
    then obtain h p s hd bd sg hj pj kid win
      where t: "length tok \<le> 4096" "tok = h @ ''.'' @ p @ ''.'' @ s" "CHR ''.'' \<notin> set h \<union> set p \<union> set s"
        "auth_base64url_decode lib True True h 512 = Some hd" "auth_base64url_decode lib True True p 2048 = Some bd"
        "auth_base64url_decode lib True True s 32 = Some sg" "json_parse lib hd = Some hj" "json_parse lib bd = Some pj"
        "auth_json_object_strict lib hj header_keys" "auth_json_object_strict lib pj payload_keys"
      and c: "header_key_id lib hj = Some kid \<and> signature_valid lib cfg kid (h @ ''.'' @ p) sg"
        "claim_times lib cfg pol pj = Some win \<and> times_valid cfg ?now win"
      and r: "\<not> auth_token_revoked lib tok (ac_revoked_token_sha256 cfg)" "dynamic_check_clear lib cfg tok"
      unfolding verify_steps split_token_iff by blast
    from c(2) have c2: "\<exists>w. claim_times lib cfg pol pj = Some w \<and> times_valid cfg ?now w" by blast
    note r' = r [unfolded not_revoked_iff [OF assms(1)] dynamic_check_iff]
    from t c(1) [unfolded k] c2 [unfolded w] r' show "token_grants lib cfg pol ?now tok" unfolding token_grants_def by blast
  next
    assume "token_grants lib cfg pol ?now tok"
    then obtain h p s hd bd sg hj pj kid secret iat exp
      where t: "length tok \<le> 4096" "split_token tok = Some (h, p, s)"
        "auth_base64url_decode lib True True h 512 = Some hd" "auth_base64url_decode lib True True p 2048 = Some bd"
        "auth_base64url_decode lib True True s 32 = Some sg" "json_parse lib hd = Some hj" "json_parse lib bd = Some pj"
        "auth_json_object_strict lib hj header_keys" "auth_json_object_strict lib pj payload_keys"
      and c: "auth_json_string lib hj ''alg'' = Some ''HS256''" "auth_json_string lib hj ''typ'' = Some ''turbomedia-auth+jwt''"
        "auth_json_string lib hj ''kid'' = Some kid" "configured_key cfg kid secret" "auth_hmac_sha256 lib secret (h @ ''.'' @ p) = Some sg"
      and x: "claims_match lib cfg pol pj" "auth_json_int64 lib pj ''iat'' = Some iat" "auth_json_int64 lib pj ''exp'' = Some exp"
        "iat < exp" "exp - iat \<le> ac_max_ttl_seconds cfg" "iat \<le> ?now + ac_clock_skew_seconds cfg" "?now - ac_clock_skew_seconds cfg < exp"
      and r: "\<not> auth_token_revoked lib tok (ac_revoked_token_sha256 cfg)" "dynamic_check_clear lib cfg tok"
      unfolding token_grants_def split_token_iff not_revoked_iff [OF assms(1)] dynamic_check_iff by blast
    from x w [of pj] obtain win where "claim_times lib cfg pol pj = Some win" "times_valid cfg ?now win" by blast
    moreover from c k [of hj kid "h @ ''.'' @ p" sg] have "header_key_id lib hj = Some kid" "signature_valid lib cfg kid (h @ ''.'' @ p) sg"
      by blast+
    moreover note hmac_length [OF c(5)]
    ultimately show "auth_verify_signed_token lib (\<lambda>_. True) time (Some tok) (Some cfg) (Some pol)"
      unfolding verify_steps using t r assms by blast
  qed
qed

lemma bearer_iff: "take (length AUTH_BEARER_PREFIX) a = AUTH_BEARER_PREFIX \<longleftrightarrow> (\<exists>t. a = ''Bearer '' @ t)"
proof
  assume p: "take (length AUTH_BEARER_PREFIX) a = AUTH_BEARER_PREFIX"
  then have "a = AUTH_BEARER_PREFIX @ drop (length AUTH_BEARER_PREFIX) a" by (metis append_take_drop_id)
  then show "\<exists>t. a = ''Bearer '' @ t" by (auto simp: AUTH_BEARER_PREFIX_def)
qed (auto simp: AUTH_BEARER_PREFIX_def)

lemma bearer_parts:
  "x = ''Bearer '' @ t \<Longrightarrow> take (length AUTH_BEARER_PREFIX) x = AUTH_BEARER_PREFIX \<and> drop (length AUTH_BEARER_PREFIX) x = t"
  by (simp add: AUTH_BEARER_PREFIX_def)

lemma static_iff: "auth_static_token_matches a st \<longleftrightarrow> (\<exists>t. st = Some t \<and> t \<noteq> [] \<and> a = Some (''Bearer '' @ t))"
proof (cases a)
  case (Some x)
  show ?thesis
  proof (cases "\<exists>t. x = ''Bearer '' @ t")
    case True
    then obtain t where t: "x = ''Bearer '' @ t" by blast
    from Some t bearer_parts [OF t] show ?thesis by (cases st) (auto simp: auth_static_token_matches_def auth_string_present_def)
  next
    case False
    with Some bearer_iff [of x] show ?thesis by (auto simp: auth_static_token_matches_def)
  qed
qed (simp add: auth_static_token_matches_def)

lemma authorize_signed_iff:
  "auth_authorize lib alloc time a st (Some cfg) pol = AUTH_SIGNED_TOKEN \<longleftrightarrow>
     \<not> (ac_revocation_check cfg = None \<and> auth_static_token_matches a st)
     \<and> (\<exists>t. a = Some (''Bearer '' @ t) \<and> auth_authorize_token lib alloc time (Some t) (Some cfg) pol = AUTH_SIGNED_TOKEN)"
proof (cases a)
  case (Some x)
  show ?thesis
  proof (cases "\<exists>t. x = ''Bearer '' @ t")
    case True
    then obtain t where t: "x = ''Bearer '' @ t" by blast
    from Some t bearer_parts [OF t] show ?thesis by (simp add: auth_authorize_def auth_authorize_token_def)
  next
    case False
    with Some bearer_iff [of x] show ?thesis by (auto simp: auth_authorize_def)
  qed
qed (simp add: auth_authorize_def auth_static_token_matches_def)

lemma config_enabled: "auth_config_validate c \<Longrightarrow> auth_config_enabled c"
  by (auto simp: auth_config_validate_def split: option.splits if_splits)

lemma authorize_token_iff:
  "auth_authorize_token lib alloc time (Some t) c p = AUTH_SIGNED_TOKEN \<longleftrightarrow> auth_verify_signed_token lib alloc time (Some t) c p"
proof -
  have "auth_config_validate c" if "auth_verify_signed_token lib alloc time (Some t) c p"
    using that by (auto simp: auth_verify_signed_token_def split: option.splits if_splits)
  with config_enabled [of c] show ?thesis by (auto simp: auth_authorize_token_def)
qed

section \<open>Libraries that work\<close>

text \<open>Base64 as OpenSSL documents it: groups of three bytes become four characters of the alphabet, the last group is padded with \<open>=\<close>;
  the encoded length counts a terminator, the decoded length is the upper bound for whole groups; decoding inverts encoding.\<close>

definition base64_char :: "u8 \<Rightarrow> bool" where
  "base64_char b \<longleftrightarrow> alphanumeric (char_of (unat b)) \<or> b = 0x2B \<or> b = 0x2F"

definition base64_laws :: "'j auth_lib \<Rightarrow> bool" where
  "base64_laws lib \<longleftrightarrow>
     (\<forall>n\<le>4096. EVP_EncodedLength lib n = Some (4 * ((n + 2) div 3) + 1) \<and> EVP_DecodedLength lib (4 * n) = Some (3 * n))
     \<and> (\<forall>b. \<exists>e. EVP_EncodeBlock lib b = e @ replicate ((3 - length b mod 3) mod 3) 0x3D \<and> list_all base64_char e
          \<and> length (EVP_EncodeBlock lib b) = 4 * ((length b + 2) div 3)
          \<and> EVP_DecodeBase64 lib (3 * ((length b + 2) div 3)) (EVP_EncodeBlock lib b) = Some b)"

lemma of_char_unat [simp]: "unat (of_char c :: u8) = of_char c"
proof -
  have "(of_char c :: nat) < 256" by (metis of_char_of char_of_char mod_less_divisor zero_less_numeral)
  moreover have "(of_char c :: u8) = word_of_nat (of_char c)" by (simp add: of_nat_of_char)
  ultimately show ?thesis by (simp add: unat_of_nat)
qed

lemma of_char_of_unat [simp]: "of_char (char_of (unat b)) = (b :: u8)"
proof -
  have "unat b < 2 ^ LENGTH(8)" by (rule unsigned_less)
  then have "unat (of_char (char_of (unat b)) :: u8) = unat b" by (simp add: of_char_of)
  then show ?thesis by (simp only: word_unat_eq_iff)
qed

lemma text_bytes_inverse [simp]: "bytes_text (text_bytes s) = s" "text_bytes (bytes_text b) = b"
  by (simp_all add: bytes_text_def text_bytes_def comp_def)

lemma std_url: "base64_char b \<Longrightarrow> std_char (char_of (unat (url_char b))) = Some b"
proof -
  have n: "\<not> alphanumeric (char_of (unat (0x2B :: u8)))" "\<not> alphanumeric (char_of (unat (0x2F :: u8)))"
    "\<not> alphanumeric CHR ''-''" "\<not> alphanumeric CHR ''_''" by code_simp+
  have m: "char_of (unat (0x2D :: u8)) = CHR ''-''" "char_of (unat (0x5F :: u8)) = CHR ''_''" by code_simp+
  assume "base64_char b"
  then consider "alphanumeric (char_of (unat b))" "b \<noteq> 0x2B" "b \<noteq> 0x2F" | "b = 0x2B" | "b = 0x2F"
    using n unfolding base64_char_def by metis
  then show ?thesis
  proof cases
    case 1
    then show ?thesis by (simp add: url_char_def std_char_def)
  next
    case 2
    then show ?thesis using n m by (simp add: url_char_def std_char_def)
  next
    case 3
    then show ?thesis using n m by (simp add: url_char_def std_char_def)
  qed
qed

lemma normalize_url: "list_all base64_char e \<Longrightarrow> normalize (bytes_text (map url_char e)) = Some e"
  by (induction e) (simp_all add: bytes_text_def std_url)

lemma cut_padding:
  assumes "list_all base64_char e"
  shows "rev (dropWhile ((=) 0x3D) (rev (e @ replicate k 0x3D))) = e"
proof -
  have "\<not> base64_char 0x3D" by code_simp
  with assms have "0x3D \<notin> set e" by (auto simp: list_all_iff)
  then have "rev e = [] \<or> 0x3D \<noteq> hd (rev e)" using hd_in_set [of "rev e"] by fastforce
  then have d: "dropWhile ((=) 0x3D) (rev e) = rev e" by (simp only: dropWhile_eq_self_iff)
  have "dropWhile ((=) 0x3D) (replicate k 0x3D @ rev e) = rev e" by (induction k) (simp_all only: d append.simps replicate.simps dropWhile.simps simp_thms if_True)
  then show ?thesis by simp
qed

lemma url_no_dot:
  assumes "list_all base64_char e"
  shows "CHR ''.'' \<notin> set (bytes_text (map url_char e))"
proof
  assume "CHR ''.'' \<in> set (bytes_text (map url_char e))"
  then obtain b where "b \<in> set e" "CHR ''.'' = char_of (unat (url_char b))" unfolding bytes_text_def by auto
  with assms std_url [of b] have "std_char CHR ''.'' = Some b" by (simp add: list_all_iff)
  moreover have "std_char CHR ''.'' = None" by code_simp
  ultimately show False by simp
qed

lemma padding_arith:
  fixes n k :: nat
  assumes "k + (3 - n mod 3) mod 3 = 4 * ((n + 2) div 3)" "0 < n" "n \<le> 2048"
  shows "k mod 4 \<noteq> 1" "(4 - k mod 4) mod 4 = (3 - n mod 3) mod 3" "0 < k" "k \<le> 4096" "3 * ((n + 2) div 3) \<le> n + 2"
proof -
  define q where "q = n div 3"
  have "n mod 3 = 0 \<or> n mod 3 = 1 \<or> n mod 3 = 2" by auto
  then consider "n = 3 * q" | "n = 3 * q + 1" | "n = 3 * q + 2" unfolding q_def using mult_div_mod_eq [of 3 n] by fastforce
  then have "k mod 4 \<noteq> 1 \<and> (4 - k mod 4) mod 4 = (3 - n mod 3) mod 3 \<and> 0 < k \<and> k \<le> 4096 \<and> 3 * ((n + 2) div 3) \<le> n + 2"
  proof cases
    case 1
    then have "k = 4 * q" using assms(1) by simp
    with 1 assms(2,3) show ?thesis
      by simp
  next
    case 2
    then have m: "n mod 3 = 1" "(n + 2) div 3 = q + 1" by presburger+
    then have "k = 4 * q + 2" using assms(1) by simp
    then have "k = 4 * q + 2" "k mod 4 = 2" by presburger+
    with 2 m assms(2,3) show ?thesis
      by simp
  next
    case 3
    then have m: "n mod 3 = 2" "(n + 2) div 3 = q + 1" by presburger+
    then have "k = 4 * q + 3" using assms(1) by simp
    then have "k = 4 * q + 3" "k mod 4 = 3" by presburger+
    with 3 m assms(2,3) show ?thesis
      by simp
  qed
  then show "k mod 4 \<noteq> 1" "(4 - k mod 4) mod 4 = (3 - n mod 3) mod 3" "0 < k" "k \<le> 4096" "3 * ((n + 2) div 3) \<le> n + 2" by simp_all
qed

text \<open>What is encoded is decoded again.\<close>

lemma base64url_roundtrip:
  assumes "base64_laws lib" "b \<noteq> []" "length b \<le> m" "m \<le> 2048"
  shows "\<exists>s. auth_base64url_encode lib True b = Some s \<and> auth_base64url_decode lib True True s m = Some b
    \<and> CHR ''.'' \<notin> set s \<and> length s \<le> 4 * ((length b + 2) div 3) \<and> s \<noteq> []"
proof -
  let ?n = "length b"
  from assms(1) obtain e where e: "EVP_EncodeBlock lib b = e @ replicate ((3 - ?n mod 3) mod 3) 0x3D" "list_all base64_char e"
      "length (EVP_EncodeBlock lib b) = 4 * ((?n + 2) div 3)" "EVP_DecodeBase64 lib (3 * ((?n + 2) div 3)) (EVP_EncodeBlock lib b) = Some b"
    unfolding base64_laws_def by blast
  let ?s = "bytes_text (map url_char e)"
  have l: "length e + (3 - ?n mod 3) mod 3 = 4 * ((?n + 2) div 3)" using e(1,3) by simp
  have n: "0 < ?n" "?n \<le> 2048" using assms(2-4) by auto
  note k = padding_arith [OF l n]
  have "EVP_EncodedLength lib ?n = Some (4 * ((?n + 2) div 3) + 1)" "EVP_DecodedLength lib (4 * ((?n + 2) div 3)) = Some (3 * ((?n + 2) div 3))"
    using assms(1) n unfolding base64_laws_def by simp_all
  note len = this
  have en: "auth_base64url_encode lib True b = Some ?s"
    unfolding auth_base64url_encode_def len(1) e(1) cut_padding [OF e(2)] by simp
  have ls: "length ?s = length e" by (simp add: bytes_text_def)
  have "length (e @ replicate ((3 - ?n mod 3) mod 3) 0x3D) = 4 * ((?n + 2) div 3)" using l by simp
  then have "auth_base64url_decode lib True True ?s m = Some b"
    unfolding auth_base64url_decode_def Let_def ls k(2) normalize_url [OF e(2)] option.case
    using k(1,3,4,5) len(2) e(4) assms(3) unfolding e(1) by (auto simp: bytes_text_def)
  moreover have "length ?s \<le> 4 * ((?n + 2) div 3)" "?s \<noteq> []" using l k(3) by (auto simp: bytes_text_def)
  ultimately show ?thesis using url_no_dot [OF e(2)] en by blast
qed

text \<open>JSON as RFC 8259 has it, for flat objects of plain strings and integers: the parser finds the members in their order and their values; a
  number below \<open>2 ^ 53\<close> is read exactly.\<close>

datatype json_val = Str string | Num int

fun value_text :: "json_val \<Rightarrow> string" where
  "value_text (Str s) = quoted s"
| "value_text (Num n) = show_int n"

fun members_text :: "(string \<times> json_val) list \<Rightarrow> string" where
  "members_text [] = []"
| "members_text [(k, v)] = quoted k @ '':'' @ value_text v"
| "members_text ((k, v) # m # ms) = quoted k @ '':'' @ value_text v @ '','' @ members_text (m # ms)"

definition object_text :: "(string \<times> json_val) list \<Rightarrow> string" where
  "object_text ms = ''{'' @ members_text ms @ ''}''"

fun double_is :: "double \<Rightarrow> int \<Rightarrow> bool" where
  "double_is (Finite m e) n \<longleftrightarrow> (if e \<ge> 0 then m * 2 ^ nat e = n else m = n * 2 ^ nat (- e))"
| "double_is (Infinite _) n \<longleftrightarrow> False"

definition value_is :: "'j auth_lib \<Rightarrow> 'j option \<Rightarrow> json_val option \<Rightarrow> bool" where
  "value_is lib x v \<longleftrightarrow>
     (case (x, v) of
        (None, None) \<Rightarrow> True
      | (Some j, Some (Str s)) \<Rightarrow> json_type_of lib j = JSON_STRING \<and> json_string lib j = Some s
      | (Some j, Some (Num n)) \<Rightarrow> json_type_of lib j = JSON_NUMBER \<and> double_is (json_number lib j) n
      | _ \<Rightarrow> False)"

definition object_is :: "'j auth_lib \<Rightarrow> 'j \<Rightarrow> (string \<times> json_val) list \<Rightarrow> bool" where
  "object_is lib j ms \<longleftrightarrow> json_type_of lib j = JSON_OBJECT \<and> json_object_size lib j = length ms
     \<and> (\<forall>i<length ms. json_object_key lib j i = Some (fst (ms ! i))) \<and> (\<forall>k. value_is lib (json_object_get lib j k) (map_of ms k))"

definition json_reads :: "'j auth_lib \<Rightarrow> (string \<times> json_val) list \<Rightarrow> bool" where
  "json_reads lib ms \<longleftrightarrow> (\<exists>j. json_parse lib (text_bytes (object_text ms)) = Some j \<and> object_is lib j ms)"

definition header_members :: "'c auth_config \<Rightarrow> (string \<times> json_val) list" where
  "header_members cfg = [(''alg'', Str AUTH_ALGORITHM), (''typ'', Str AUTH_TOKEN_TYPE), (''kid'', Str (the (ac_active_key_id cfg)))]"

definition optional_member :: "string \<Rightarrow> string option \<Rightarrow> (string \<times> json_val) list" where
  "optional_member k v = (case v of None \<Rightarrow> [] | Some s \<Rightarrow> [(k, Str s)])"

definition payload_members :: "'c auth_config \<Rightarrow> auth_claims \<Rightarrow> (string \<times> json_val) list" where
  "payload_members cfg cl =
     [(''iss'', Str (the (ac_issuer cfg))), (''sub'', Str (the (cl_subject cl))), (''aud'', Str (the (cl_audience cl))), (''scope'', Str (the (cl_scope cl)))]
     @ optional_member ''tenant_id'' (cl_tenant_id cl) @ optional_member ''room_id'' (cl_room_id cl)
     @ optional_member ''participant_id'' (cl_participant_id cl)
     @ [(''iat'', Num (cl_issued_at cl)), (''exp'', Num (cl_expires_at cl))]"

lemma header_text: "issue_header cfg = object_text (header_members cfg)"
  by (simp add: issue_header_def object_text_def header_members_def)

lemma payload_text: "concat (payload_pieces cfg cl) = object_text (payload_members cfg cl)"
  by (cases "cl_tenant_id cl"; cases "cl_room_id cl"; cases "cl_participant_id cl")
    (simp_all add: payload_pieces_def payload_members_def object_text_def optional_piece_def optional_member_def)

lemma json_string_is:
  "object_is lib j ms \<Longrightarrow> auth_json_string lib j k = (case map_of ms k of Some (Str s) \<Rightarrow> Some s | _ \<Rightarrow> None)"
proof -
  assume "object_is lib j ms"
  then have "value_is lib (json_object_get lib j k) (map_of ms k)" by (simp add: object_is_def)
  then show ?thesis
    by (cases "json_object_get lib j k"; cases "map_of ms k") (auto simp: auth_json_string_def value_is_def split: json_val.splits)
qed

lemma double_is_int64: "double_is d n \<Longrightarrow> 0 \<le> n \<Longrightarrow> n \<le> 9007199254740991 \<Longrightarrow> double_int64 d = Some n"
proof (cases d)
  case (Finite m e)
  moreover assume "double_is d n" "0 \<le> n" "n \<le> 9007199254740991"
  moreover have "(m::int) * 2 ^ k = n \<Longrightarrow> 0 \<le> n \<Longrightarrow> 0 \<le> m" for k by (smt (verit) mult_neg_pos zero_less_power)
  ultimately show ?thesis by (auto simp: double_int64_def not_less split: if_splits)
qed simp

lemma json_int64_is:
  assumes "object_is lib j ms" "map_of ms k = Some (Num n)" "0 \<le> n" "n \<le> 9007199254740991"
  shows "auth_json_int64 lib j k = Some n"
proof -
  have "value_is lib (json_object_get lib j k) (Some (Num n))" using assms(1,2) unfolding object_is_def by metis
  with double_is_int64 [OF _ assms(3,4)] show ?thesis by (auto simp: value_is_def auth_json_int64_def split: option.splits)
qed

lemma object_strict:
  assumes "object_is lib j ms" "distinct (map fst ms)" "fst ` set ms \<subseteq> set allowed"
  shows "auth_json_object_strict lib j allowed"
proof -
  have "fst (ms ! i) \<in> set allowed" "\<forall>l<i. fst (ms ! l) \<noteq> fst (ms ! i)" if "i < length ms" for i
    using assms(2,3) that nth_mem [OF that] by (auto simp: distinct_conv_nth)
  with assms(1) show ?thesis by (auto simp: auth_json_object_strict_def object_is_def list_all_iff)
qed

section \<open>The sizes of a token\<close>

lemma show_nat_length: "n < 10 ^ k \<Longrightarrow> 0 < k \<Longrightarrow> length (show_nat n) \<le> k"
proof (induction n arbitrary: k rule: show_nat.induct)
  case (1 n)
  show ?case
  proof (cases "n < 10")
    case True
    with 1(3) show ?thesis by (simp add: show_nat.simps [of n])
  next
    case False
    with 1(2) have "k \<noteq> 1" by auto
    with 1(3) obtain l where l: "k = Suc l" "0 < l" by (cases k) auto
    with 1(2) have "n div 10 < 10 ^ l" by (simp add: less_mult_imp_div_less mult.commute)
    from 1(1) [OF False this l(2)] l show ?thesis using False by (simp add: show_nat.simps [of n])
  qed
qed

lemma show_int_length: "0 \<le> n \<Longrightarrow> n \<le> 9007199254740991 \<Longrightarrow> length (show_int n) \<le> 16"
  using show_nat_length [of "nat n" 16] by (simp add: show_int_def nat_less_iff)

lemma append_measured:
  "u + length (concat ps) \<le> 2048 \<Longrightarrow> append_pieces c ps (None, u) = Some (None, u + length (concat ps))"
proof (induction ps arbitrary: u)
  case (Cons p ps)
  from Cons.IH [of "u + length p"] Cons.prems show ?case by (simp add: auth_payload_append_def add.assoc)
qed simp

lemma append_written:
  "length a + length (concat ps) \<le> 2048 \<Longrightarrow> length a + length (concat ps) < c \<Longrightarrow>
   append_pieces c ps (Some a, length a) = Some (Some (a @ concat ps), length a + length (concat ps))"
proof (induction ps arbitrary: a)
  case (Cons p ps)
  from Cons.IH [of "a @ p"] Cons.prems show ?case by (simp add: auth_payload_append_def add.assoc) arith
qed simp

lemma format_payload:
  assumes "length (concat (payload_pieces cfg cl)) \<le> 2048"
  shows "auth_format_payload True cfg cl = Some (concat (payload_pieces cfg cl))"
  using append_measured [of 0 "payload_pieces cfg cl" 0] append_written [of "[]" "payload_pieces cfg cl" "length (concat (payload_pieces cfg cl)) + 1"] assms
  by (simp add: auth_format_payload_def)

lemma identifier_length: "auth_identifier_valid v \<Longrightarrow> length (the v) \<le> 255"
  by (auto simp: auth_identifier_valid_def split: option.splits)

lemma payload_length:
  assumes "auth_config_validate (Some cfg)" "claims_valid cfg cl" "cl_expires_at cl \<le> 9007199254740991"
  shows "length (concat (payload_pieces cfg cl)) \<le> 2048"
proof -
  have i: "length (the (ac_issuer cfg)) \<le> 255" using assms(1) identifier_length by (auto simp: auth_config_validate_def split: if_splits)
  have c: "length (the (cl_subject cl)) \<le> 255" "length (the (cl_audience cl)) \<le> 255" "length (the (cl_scope cl)) \<le> 255"
    using assms(2) identifier_length by (auto simp: claims_valid_def auth_scope_list_valid_def split: option.splits)
  have o: "length (concat (optional_piece k v)) \<le> 261 + length k" if "v \<noteq> None \<longrightarrow> auth_identifier_valid v" for k v
    using that identifier_length [of v] by (cases v) (auto simp: optional_piece_def quoted_def)
  have r: "length (concat (optional_piece ''tenant_id'' (cl_tenant_id cl))) \<le> 270"
    "length (concat (optional_piece ''room_id'' (cl_room_id cl))) \<le> 268"
    "length (concat (optional_piece ''participant_id'' (cl_participant_id cl))) \<le> 275"
    using assms(2) o [of "cl_tenant_id cl" "''tenant_id''"] o [of "cl_room_id cl" "''room_id''"] o [of "cl_participant_id cl" "''participant_id''"]
    by (auto simp: claims_valid_def auth_tenant_identifier_valid_def)
  have "length (show_int (cl_issued_at cl)) \<le> 16" "length (show_int (cl_expires_at cl)) \<le> 16"
    using assms(2,3) by (auto simp: claims_valid_def intro!: show_int_length)
  with i c r show ?thesis unfolding payload_pieces_def by (simp add: quoted_def)
qed

section \<open>Issuing and accepting\<close>

definition hash_laws :: "'j auth_lib \<Rightarrow> bool" where
  "hash_laws lib \<longleftrightarrow> (\<forall>k d. \<exists>t. HMAC lib k d = Some t \<and> length t = 32) \<and> (\<forall>d. \<exists>t. EVP_Digest lib d = Some t \<and> length t = 32)"

lemma issue_header_length: "auth_config_validate (Some cfg) \<Longrightarrow> length (issue_header cfg) < 512"
  using identifier_length [of "ac_active_key_id cfg"]
  by (auto simp: issue_header_def quoted_def AUTH_ALGORITHM_def AUTH_TOKEN_TYPE_def auth_config_validate_def auth_key_pair_valid_def split: if_splits)

lemma issue_token:
  assumes "base64_laws lib" "hash_laws lib" "auth_config_validate (Some cfg)" "length (the (ac_active_secret cfg)) \<le> 2147483647"
    and "claims_valid cfg cl" "cl_expires_at cl \<le> 9007199254740991"
  obtains h p s sg where "auth_issue lib (\<lambda>_. True) (Some cfg) (Some cl) = Some (h @ ''.'' @ p @ ''.'' @ s)"
    and "CHR ''.'' \<notin> set h \<union> set p \<union> set s" "length (h @ ''.'' @ p @ ''.'' @ s) \<le> 4096"
    and "auth_base64url_decode lib True True h 512 = Some (text_bytes (object_text (header_members cfg)))"
    and "auth_base64url_decode lib True True p 2048 = Some (text_bytes (object_text (payload_members cfg cl)))"
    and "auth_hmac_sha256 lib (the (ac_active_secret cfg)) (h @ ''.'' @ p) = Some sg" "auth_base64url_decode lib True True s 32 = Some sg"
proof -
  let ?hd = "text_bytes (issue_header cfg)" and ?pl = "text_bytes (concat (payload_pieces cfg cl))"
  note hl = issue_header_length [OF assms(3)] and pl = payload_length [OF assms(3,5,6)]
  have "?hd \<noteq> []" "length ?hd \<le> 512" using hl by (simp_all add: text_bytes_def issue_header_def)
  from base64url_roundtrip [OF assms(1) this] obtain h where h: "auth_base64url_encode lib True ?hd = Some h"
      "auth_base64url_decode lib True True h 512 = Some ?hd" "CHR ''.'' \<notin> set h" "length h \<le> 4 * ((length ?hd + 2) div 3)" by auto
  have "?pl \<noteq> []" "length ?pl \<le> 2048" using pl by (simp_all add: text_bytes_def payload_pieces_def)
  from base64url_roundtrip [OF assms(1) this] obtain p where p: "auth_base64url_encode lib True ?pl = Some p"
      "auth_base64url_decode lib True True p 2048 = Some ?pl" "CHR ''.'' \<notin> set p" "length p \<le> 4 * ((length ?pl + 2) div 3)" by auto
  from assms(2) obtain sg where "HMAC lib (text_bytes (the (ac_active_secret cfg))) (text_bytes (h @ ''.'' @ p)) = Some sg" "length sg = 32"
    unfolding hash_laws_def by blast
  then have g: "auth_hmac_sha256 lib (the (ac_active_secret cfg)) (h @ ''.'' @ p) = Some sg" "length sg = 32"
    unfolding auth_hmac_sha256_def using assms(4) by simp_all
  then have "sg \<noteq> []" "length sg \<le> 32" by auto
  from base64url_roundtrip [OF assms(1) this] obtain s where s: "auth_base64url_encode lib True sg = Some s"
      "auth_base64url_decode lib True True s 32 = Some sg" "CHR ''.'' \<notin> set s" "length s \<le> 4 * ((length sg + 2) div 3)" by auto
  have lh: "length h \<le> 684" and lp: "length p \<le> 2732" and ls: "length s \<le> 44" 
    using h(4) p(4) s(4) g(2) hl pl div_le_mono [of "length ?hd + 2" 513 3] div_le_mono [of "length ?pl + 2" 2050 3] by (simp_all add: text_bytes_def)
  have f: "auth_format_payload True cfg cl = Some (concat (payload_pieces cfg cl))" by (rule format_payload [OF pl])
  have "auth_issue lib (\<lambda>_. True) (Some cfg) (Some cl) = Some (h @ ''.'' @ p @ ''.'' @ s)"
    using assms(3,5) hl f h(1) p(1) g(1) s(1) lh lp ls by (simp add: auth_issue_def Let_def)
  with that [of h p s sg] h p s g(1) lh lp ls show ?thesis by (simp add: header_text payload_text)
qed

text \<open>A policy that asks for what a set of claims offers.\<close>

definition policy_for :: "auth_claims \<Rightarrow> auth_policy \<Rightarrow> bool" where
  "policy_for cl pol \<longleftrightarrow> po_audience pol = cl_audience cl \<and> auth_identifier_valid (po_required_scope pol)
     \<and> the (po_required_scope pol) \<in> set (split_on CHR '' '' (the (cl_scope cl)))
     \<and> po_tenant_id pol = cl_tenant_id cl \<and> po_room_id pol = cl_room_id cl \<and> po_participant_id pol = cl_participant_id cl"

lemma policy_for_valid: "claims_valid cfg cl \<Longrightarrow> policy_for cl pol \<Longrightarrow> policy_valid pol"
  by (simp add: claims_valid_def policy_for_def policy_valid_def)

lemma payload_claims_match:
  assumes "object_is lib j (payload_members cfg cl)" "claims_valid cfg cl" "policy_for cl pol" "auth_config_validate (Some cfg)"
    and "ac_issuer ver = ac_issuer cfg"
  shows "claims_match lib ver pol j"
proof -
  note m = json_string_is [OF assms(1)]
  obtain i su au sc where some: "ac_issuer cfg = Some i" "cl_subject cl = Some su" "cl_audience cl = Some au" "cl_scope cl = Some sc"
    using assms(2,4) by (auto simp: claims_valid_def auth_config_validate_def auth_identifier_valid_def auth_scope_list_valid_def split: option.splits if_splits)
  have o: "map_of (optional_member k v) l = (if l = k then map_option Str v else None)" for k v l
    by (cases v) (auto simp: optional_member_def)
  have r: "auth_json_string lib j ''tenant_id'' = cl_tenant_id cl" "auth_json_string lib j ''room_id'' = cl_room_id cl"
    "auth_json_string lib j ''participant_id'' = cl_participant_id cl"
    unfolding m payload_members_def map_of_append o by (cases "cl_tenant_id cl"; cases "cl_room_id cl"; cases "cl_participant_id cl"; simp add: map_add_def o)+
  have "auth_json_string lib j ''iss'' = Some i" "auth_json_string lib j ''sub'' = Some su" "auth_json_string lib j ''aud'' = Some au"
    "auth_json_string lib j ''scope'' = Some sc" unfolding m payload_members_def by (simp_all add: some)
  with r some assms(2,3,5) show ?thesis by (auto simp: claims_match_def claims_valid_def policy_for_def)
qed

lemma payload_times:
  assumes "object_is lib j (payload_members cfg cl)" "claims_valid cfg cl" "cl_expires_at cl \<le> 9007199254740991"
  shows "auth_json_int64 lib j ''iat'' = Some (cl_issued_at cl)" "auth_json_int64 lib j ''exp'' = Some (cl_expires_at cl)"
proof -
  have "map_of (payload_members cfg cl) ''iat'' = Some (Num (cl_issued_at cl))" "map_of (payload_members cfg cl) ''exp'' = Some (Num (cl_expires_at cl))"
    by (cases "cl_tenant_id cl"; cases "cl_room_id cl"; cases "cl_participant_id cl"; simp add: payload_members_def optional_member_def)+
  with json_int64_is [OF assms(1)] assms(2,3)
  show "auth_json_int64 lib j ''iat'' = Some (cl_issued_at cl)" "auth_json_int64 lib j ''exp'' = Some (cl_expires_at cl)"
    by (simp_all add: claims_valid_def)
qed

lemma payload_strict:
  assumes "object_is lib j (payload_members cfg cl)"
  shows "auth_json_object_strict lib j payload_keys"
proof (rule object_strict [OF assms])
  show "distinct (map fst (payload_members cfg cl))" "fst ` set (payload_members cfg cl) \<subseteq> set payload_keys"
    by (cases "cl_tenant_id cl"; cases "cl_room_id cl"; cases "cl_participant_id cl"; simp add: payload_members_def optional_member_def payload_keys_def)+
qed

text \<open>Issuer and verifier fit together: shared issuer name, the issuer's active key known to the verifier as active or previous key, and a lifetime the
  verifier allows.\<close>

definition trusts :: "'c auth_config \<Rightarrow> 'd auth_config \<Rightarrow> auth_claims \<Rightarrow> bool" where
  "trusts ver cfg cl \<longleftrightarrow> auth_config_validate (Some ver) \<and> ac_issuer ver = ac_issuer cfg
     \<and> configured_key ver (the (ac_active_key_id cfg)) (the (ac_active_secret cfg)) \<and> cl_expires_at cl - cl_issued_at cl \<le> ac_max_ttl_seconds ver"

definition not_revoked :: "'c auth_config \<Rightarrow> bytes \<Rightarrow> bool" where
  "not_revoked ver d \<longleftrightarrow> (auth_string_present (ac_revoked_token_sha256 ver) \<longrightarrow> d \<notin> listed_digests (the (ac_revoked_token_sha256 ver)))
     \<and> (\<forall>check. ac_revocation_check ver = Some check \<longrightarrow> check (ac_revocation_context ver) (Some d) 32 = STATUS_CLEAR)"

lemma issued_grants:
  assumes "base64_laws lib" "hash_laws lib" "json_reads lib (header_members cfg)" "json_reads lib (payload_members cfg cl)"
    and "auth_config_validate (Some cfg)" "length (the (ac_active_secret cfg)) \<le> 2147483647" "claims_valid cfg cl" "cl_expires_at cl \<le> 9007199254740991"
    and "trusts ver cfg cl" "policy_for cl pol" "cl_issued_at cl \<le> now + ac_clock_skew_seconds ver" "now - ac_clock_skew_seconds ver < cl_expires_at cl"
  shows "\<exists>tok d. auth_issue lib (\<lambda>_. True) (Some cfg) (Some cl) = Some tok \<and> auth_sha256 lib tok = Some d
    \<and> (not_revoked ver d \<longrightarrow> token_grants lib ver pol now tok)"
proof -
  from issue_token [OF assms(1,2,5-8)] obtain h p s sg
    where i: "auth_issue lib (\<lambda>_. True) (Some cfg) (Some cl) = Some (h @ ''.'' @ p @ ''.'' @ s)"
      and t: "CHR ''.'' \<notin> set h \<union> set p \<union> set s" "length (h @ ''.'' @ p @ ''.'' @ s) \<le> 4096"
        "auth_base64url_decode lib True True h 512 = Some (text_bytes (object_text (header_members cfg)))"
        "auth_base64url_decode lib True True p 2048 = Some (text_bytes (object_text (payload_members cfg cl)))"
        "auth_hmac_sha256 lib (the (ac_active_secret cfg)) (h @ ''.'' @ p) = Some sg" "auth_base64url_decode lib True True s 32 = Some sg" by metis
  from assms(3,4) obtain hj pj where j: "json_parse lib (text_bytes (object_text (header_members cfg))) = Some hj" "object_is lib hj (header_members cfg)"
    "json_parse lib (text_bytes (object_text (payload_members cfg cl))) = Some pj" "object_is lib pj (payload_members cfg cl)"
    unfolding json_reads_def by blast
  have k: "auth_json_string lib hj ''alg'' = Some ''HS256''" "auth_json_string lib hj ''typ'' = Some ''turbomedia-auth+jwt''"
    "auth_json_string lib hj ''kid'' = Some (the (ac_active_key_id cfg))"
    using json_string_is [OF j(2)] by (simp_all add: header_members_def AUTH_ALGORITHM_def AUTH_TOKEN_TYPE_def)
  have hs: "auth_json_object_strict lib hj header_keys"
    by (rule object_strict [OF j(2)]) (simp_all add: header_members_def header_keys_def)
  from assms(2) obtain d where "EVP_Digest lib (text_bytes (h @ ''.'' @ p @ ''.'' @ s)) = Some d" "length d = 32" unfolding hash_laws_def by blast
  then have d: "auth_sha256 lib (h @ ''.'' @ p @ ''.'' @ s) = Some d" by (simp add: auth_sha256_def)
  have v: "ac_issuer ver = ac_issuer cfg" "configured_key ver (the (ac_active_key_id cfg)) (the (ac_active_secret cfg))"
    "cl_expires_at cl - cl_issued_at cl \<le> ac_max_ttl_seconds ver" using assms(9) by (simp_all add: trusts_def)
  have tm: "cl_issued_at cl < cl_expires_at cl" using assms(7) by (simp add: claims_valid_def)
  note c = payload_claims_match [OF j(4) assms(7,10,5) v(1)] payload_times [OF j(4) assms(7,8)] payload_strict [OF j(4)]
  have "token_grants lib ver pol now (h @ ''.'' @ p @ ''.'' @ s)" if "not_revoked ver d"
    using that d unfolding token_grants_def not_revoked_def by (intro conjI exI) (use t j k hs c v tm assms(11,12) in \<open>assumption | blast\<close>)+
  with i d show ?thesis by blast
qed

section \<open>A library that works\<close>

text \<open>Base64 on the values of bytes.\<close>

definition b64_digit :: "nat \<Rightarrow> u8" where
  "b64_digit n = (if n < 26 then of_nat (65 + n) else if n < 52 then of_nat (71 + n) else if n < 62 then of_nat (n - 4) else if n = 62 then 0x2B else 0x2F)"

definition b64_value :: "u8 \<Rightarrow> nat" where
  "b64_value b = (let n = unat b in if n = 43 then 62 else if n = 47 then 63 else if n < 58 then n + 4 else if n < 91 then n - 65 else n - 71)"

fun b64_encode :: "bytes \<Rightarrow> bytes" where
  "b64_encode (a # b # c # r) =
     [b64_digit (unat a div 4), b64_digit (unat a mod 4 * 16 + unat b div 16), b64_digit (unat b mod 16 * 4 + unat c div 64), b64_digit (unat c mod 64)]
     @ b64_encode r"
| "b64_encode [a, b] = [b64_digit (unat a div 4), b64_digit (unat a mod 4 * 16 + unat b div 16), b64_digit (unat b mod 16 * 4), 0x3D]"
| "b64_encode [a] = [b64_digit (unat a div 4), b64_digit (unat a mod 4 * 16), 0x3D, 0x3D]"
| "b64_encode [] = []"

fun b64_decode :: "bytes \<Rightarrow> bytes option" where
  "b64_decode [] = Some []"
| "b64_decode (w # x # y # z # r) =
     (let a = of_nat (b64_value w * 4 + b64_value x div 16); b = of_nat (b64_value x mod 16 * 16 + b64_value y div 4);
          c = of_nat (b64_value y mod 4 * 64 + b64_value z)
      in if y = 0x3D then Some [a] else if z = 0x3D then Some [a, b] else map_option (\<lambda>t. a # b # c # t) (b64_decode r))"
| "b64_decode _ = None"

lemma b64_digit_value: "n < 64 \<Longrightarrow> b64_value (b64_digit n) = n \<and> base64_char (b64_digit n) \<and> b64_digit n \<noteq> 0x3D"
proof -
  have "\<forall>n\<in>set [0..<64]. b64_value (b64_digit n) = n \<and> base64_char (b64_digit n) \<and> b64_digit n \<noteq> 0x3D" by code_simp
  then show "n < 64 \<Longrightarrow> ?thesis" by simp
qed

lemma byte_bound [simp]: "unat (b :: u8) < 256"
  using unsigned_less [of b, where 'a = nat] by simp

text \<open>The four groups of six bits of three bytes.\<close>

lemma sextets:
  fixes a b c :: nat
  assumes "a < 256" "b < 256" "c < 256"
  shows "a div 4 < 64" "a mod 4 * 16 + b div 16 < 64" "b mod 16 * 4 + c div 64 < 64" "c mod 64 < 64"
    and "a div 4 * 4 + (a mod 4 * 16 + b div 16) div 16 = a"
    and "(a mod 4 * 16 + b div 16) mod 16 * 16 + (b mod 16 * 4 + c div 64) div 4 = b"
    and "(b mod 16 * 4 + c div 64) mod 4 * 64 + c mod 64 = c"
proof -
  have d: "a div 4 < 64" "b div 16 < 16" "c div 64 < 4" using assms by (simp_all add: less_mult_imp_div_less)
  have m: "a mod 4 < 4" "b mod 16 < 16" by simp_all
  show "a div 4 < 64" by (rule d)
  show "a mod 4 * 16 + b div 16 < 64" "b mod 16 * 4 + c div 64 < 64" using d m by linarith+
  show "c mod 64 < 64" by simp
  have "(a mod 4 * 16 + b div 16) div 16 = a mod 4" "(a mod 4 * 16 + b div 16) mod 16 = b div 16" using d(2) by simp_all
  moreover have "(b mod 16 * 4 + c div 64) div 4 = b mod 16" "(b mod 16 * 4 + c div 64) mod 4 = c div 64" using d(3) by simp_all
  ultimately show "a div 4 * 4 + (a mod 4 * 16 + b div 16) div 16 = a"
    "(a mod 4 * 16 + b div 16) mod 16 * 16 + (b mod 16 * 4 + c div 64) div 4 = b"
    "(b mod 16 * 4 + c div 64) mod 4 * 64 + c mod 64 = c" by (simp_all only: div_mult_mod_eq)
qed

lemmas byte_sextets = sextets [OF byte_bound byte_bound byte_bound]

lemmas byte_digits = byte_sextets(1-4) [THEN b64_digit_value]

lemma b64_roundtrip: "b64_decode (b64_encode b) = Some b"
proof (induction b rule: b64_encode.induct)
  case (1 a b c r)
  define x y where "x = unat a mod 4 * 16 + unat b div 16" and "y = unat b mod 16 * 4 + unat c div 64"
  note xy = x_def [symmetric] y_def [symmetric]
  have "unat a div 4 * 4 + x div 16 = unat a" "x mod 16 * 16 + y div 4 = unat b" "y mod 4 * 64 + unat c mod 64 = unat c"
    by (simp_all only: x_def y_def byte_sextets)
  with 1 byte_digits(1) [of a] byte_digits(2) [of a b] byte_digits(3) [of b c] byte_digits(4) [of c] show ?case unfolding b64_encode.simps xy by (simp add: Let_def del: of_nat_add of_nat_mult)
next
  case (2 a b)
  show ?case using byte_digits(1) [of a] byte_digits(2) [of a b] byte_digits(3) [of b 0] byte_sextets(5) [of a b] byte_sextets(6) [of a b 0] by (simp add: Let_def)
next
  case (3 a)
  show ?case using byte_digits(1) [of a] byte_digits(2) [of a 0] byte_sextets(5) [of a 0] by (simp add: Let_def)
qed simp

lemma b64_shape:
  "\<exists>e. b64_encode b = e @ replicate ((3 - length b mod 3) mod 3) 0x3D \<and> list_all base64_char e \<and> length (b64_encode b) = 4 * ((length b + 2) div 3)"
proof (induction b rule: b64_encode.induct)
  case (1 a b c r)
  then obtain e where e: "b64_encode r = e @ replicate ((3 - length r mod 3) mod 3) 0x3D" "list_all base64_char e"
    "length (b64_encode r) = 4 * ((length r + 2) div 3)" by blast
  let ?w = "[b64_digit (unat a div 4), b64_digit (unat a mod 4 * 16 + unat b div 16), b64_digit (unat b mod 16 * 4 + unat c div 64), b64_digit (unat c mod 64)]"
  have "list_all base64_char ?w" by (simp add: byte_digits)
  moreover have "length (a # b # c # r) mod 3 = length r mod 3" "(length (a # b # c # r) + 2) div 3 = (length r + 2) div 3 + 1" by simp_all
  ultimately show ?case using e by (intro exI [of _ "?w @ e"]) simp
next
  case (2 a b)
  from byte_digits(1) [of a] byte_digits(2) [of a b] byte_digits(3) [of b 0] show ?case
    by (intro exI [of _ "take 3 (b64_encode [a, b])"]) simp
next
  case (3 a)
  from byte_digits(1) [of a] byte_digits(2) [of a 0] show ?case
    by (intro exI [of _ "take 2 (b64_encode [a])"]) (simp add: numeral_2_eq_2)
qed simp

datatype sample_json = J_Object "(string \<times> json_val) list" | J_Value json_val

text \<open>A library with real base64 and JSON for the given objects.\<close>

definition sample_auth_lib :: "(string \<times> json_val) list list \<Rightarrow> sample_json auth_lib" where
  "sample_auth_lib objects =
     \<lparr>EVP_Digest = (\<lambda>d. Some sample_digest), HMAC = (\<lambda>k d. Some (replicate 32 (of_nat (length k + length d)))),
      EVP_EncodedLength = (\<lambda>n. Some (4 * ((n + 2) div 3) + 1)), EVP_EncodeBlock = b64_encode,
      EVP_DecodedLength = (\<lambda>n. if n mod 4 = 0 then Some (n div 4 * 3) else None), EVP_DecodeBase64 = (\<lambda>c. b64_decode),
      json_parse = (\<lambda>t. map_option J_Object (find (\<lambda>ms. text_bytes (object_text ms) = t) objects)),
      json_type_of = (\<lambda>j. case j of J_Object _ \<Rightarrow> JSON_OBJECT | J_Value (Str _) \<Rightarrow> JSON_STRING | J_Value (Num _) \<Rightarrow> JSON_NUMBER),
      json_object_size = (\<lambda>j. case j of J_Object ms \<Rightarrow> length ms | _ \<Rightarrow> 0),
      json_object_key = (\<lambda>j i. case j of J_Object ms \<Rightarrow> if i < length ms then Some (fst (ms ! i)) else None | _ \<Rightarrow> None),
      json_object_get = (\<lambda>j k. case j of J_Object ms \<Rightarrow> map_option J_Value (map_of ms k) | _ \<Rightarrow> None),
      json_string = (\<lambda>j. case j of J_Value (Str s) \<Rightarrow> Some s | _ \<Rightarrow> None),
      json_number = (\<lambda>j. case j of J_Value (Num n) \<Rightarrow> Finite n 0 | _ \<Rightarrow> Infinite True)\<rparr>"

lemma sample_lib_laws: "base64_laws (sample_auth_lib objects)" "hash_laws (sample_auth_lib objects)"
proof -
  show "base64_laws (sample_auth_lib objects)"
    unfolding base64_laws_def sample_auth_lib_def using b64_shape b64_roundtrip by simp
  show "hash_laws (sample_auth_lib objects)" by (simp add: hash_laws_def sample_auth_lib_def sample_digest_def)
qed

lemma sample_lib_reads:
  assumes "find (\<lambda>x. text_bytes (object_text x) = text_bytes (object_text ms)) objects = Some ms"
  shows "json_reads (sample_auth_lib objects) ms"
proof -
  have "object_is (sample_auth_lib objects) (J_Object ms) ms"
    by (auto simp: object_is_def value_is_def sample_auth_lib_def split: option.splits json_val.splits)
  then show ?thesis using assms by (simp add: json_reads_def sample_auth_lib_def)
qed

definition sample_config :: "'c auth_config" where
  "sample_config = \<lparr>ac_issuer = Some ''room'', ac_active_key_id = Some ''k2'', ac_active_secret = Some (replicate 32 CHR ''s''),
     ac_previous_key_id = Some ''k1'', ac_previous_secret = Some (replicate 40 CHR ''t''), ac_revoked_token_sha256 = None,
     ac_revocation_check = None, ac_revocation_context = None, ac_clock_skew_seconds = 30, ac_max_ttl_seconds = 3600\<rparr>"

definition sample_claims :: auth_claims where
  "sample_claims = \<lparr>cl_subject = Some ''ann'', cl_audience = Some ''sfu'', cl_scope = Some ''join publish'', cl_room_id = Some ''t1/r1'',
     cl_participant_id = None, cl_issued_at = 1000, cl_expires_at = 1060, cl_tenant_id = Some ''t1''\<rparr>"

definition sample_policy_for :: auth_policy where
  "sample_policy_for = \<lparr>po_audience = Some ''sfu'', po_required_scope = Some ''publish'', po_room_id = Some ''t1/r1'',
     po_participant_id = None, po_now = 1030, po_tenant_id = Some ''t1''\<rparr>"

lemma sample_valid:
  "auth_config_validate (Some (sample_config :: 'c auth_config))" "claims_valid (sample_config :: 'c auth_config) sample_claims"
  "policy_for sample_claims sample_policy_for" "configured_key (sample_config :: 'c auth_config) ''k2'' (replicate 32 CHR ''s'')"
proof -
  have k: "auth_identifier_valid (Some ''room'')" "auth_identifier_valid (Some ''k2'')" "auth_identifier_valid (Some ''k1'')"
    "auth_identifier_valid (Some ''ann'')" "auth_identifier_valid (Some ''sfu'')" "auth_identifier_valid (Some ''t1/r1'')"
    "auth_identifier_valid (Some ''t1'')" "auth_identifier_valid (Some ''publish'')" "auth_scope_list_valid (Some ''join publish'')"
    "''publish'' \<in> set (split_on CHR '' '' ''join publish'')" "auth_tenant_room_consistent (Some ''t1'') (Some ''t1/r1'')" by code_simp+
  show "auth_config_validate (Some (sample_config :: 'c auth_config))"
    using k by (simp add: auth_config_validate_def sample_config_def auth_config_enabled_def auth_string_present_def auth_key_pair_valid_def auth_revocation_list_valid_def)
  show "claims_valid (sample_config :: 'c auth_config) sample_claims"
    using k by (simp add: claims_valid_def sample_claims_def sample_config_def auth_tenant_identifier_valid_def)
  show "policy_for sample_claims sample_policy_for" using k by (simp add: policy_for_def sample_claims_def sample_policy_for_def)
  show "configured_key (sample_config :: 'c auth_config) ''k2'' (replicate 32 CHR ''s'')" by (simp add: configured_key_def sample_config_def)
qed

lemma sample_reads:
  defines "lib \<equiv> sample_auth_lib [header_members (sample_config :: unit auth_config), payload_members (sample_config :: unit auth_config) sample_claims]"
  shows "json_reads lib (header_members (sample_config :: unit auth_config))"
    "json_reads lib (payload_members (sample_config :: unit auth_config) sample_claims)"
proof -
  have "object_text (header_members (sample_config :: unit auth_config)) \<noteq> object_text (payload_members (sample_config :: unit auth_config) sample_claims)"
    by (simp add: object_text_def header_members_def payload_members_def quoted_def)
  then have "text_bytes (object_text (header_members (sample_config :: unit auth_config)))
      \<noteq> text_bytes (object_text (payload_members (sample_config :: unit auth_config) sample_claims))"
    using text_bytes_inverse(1) by metis
  then show "json_reads lib (header_members (sample_config :: unit auth_config))"
    "json_reads lib (payload_members (sample_config :: unit auth_config) sample_claims)"
    unfolding lib_def by (simp_all add: sample_lib_reads)
qed

section \<open>Properties\<close>

text \<open>C7. The decision on a request is exact.  A static token is accepted only where no dynamic revocation view is configured, and exactly when
  it equals the configured one.  A signed token is accepted only under a valid configuration and policy and only if it grants what the
  policy asks for (\<open>token_grants\<close>: configured key, signature over the first two parts, issuer, audience, one of the scopes, exactly the
  tenant, room and participant of the policy, lifetime, not revoked); and unless memory runs out such a token is not denied.\<close>

theorem authorize_exact:
  "(auth_authorize lib alloc time a st (Some cfg) (Some pol) = AUTH_STATIC_TOKEN \<longleftrightarrow>
      ac_revocation_check cfg = None \<and> (\<exists>t. st = Some t \<and> t \<noteq> [] \<and> a = Some (''Bearer '' @ t)))
    \<and> (auth_authorize lib alloc time a st (Some cfg) (Some pol) = AUTH_SIGNED_TOKEN \<longrightarrow>
      auth_config_validate (Some cfg) \<and> policy_valid pol \<and> (\<exists>tok. a = Some (''Bearer '' @ tok) \<and> token_grants lib cfg pol (policy_now pol time) tok))
    \<and> ((\<forall>k. alloc k) \<and> auth_config_validate (Some cfg) \<and> policy_valid pol
        \<and> (\<exists>tok. a = Some (''Bearer '' @ tok) \<and> token_grants lib cfg pol (policy_now pol time) tok) \<longrightarrow>
      auth_authorize lib alloc time a st (Some cfg) (Some pol) \<noteq> AUTH_DENIED)"
proof -
  have st: "auth_authorize lib alloc time a st (Some cfg) (Some pol) = AUTH_STATIC_TOKEN \<longleftrightarrow>
      ac_revocation_check cfg = None \<and> auth_static_token_matches a st"
    by (simp add: auth_authorize_def)
  have "auth_config_validate (Some cfg) \<and> policy_valid pol \<and> (\<exists>tok. a = Some (''Bearer '' @ tok) \<and> token_grants lib cfg pol (policy_now pol time) tok)"
    if g: "auth_authorize lib alloc time a st (Some cfg) (Some pol) = AUTH_SIGNED_TOKEN"
  proof -
    from g obtain t where t: "a = Some (''Bearer '' @ t)" and v: "auth_verify_signed_token lib alloc time (Some t) (Some cfg) (Some pol)"
      by (auto simp: authorize_signed_iff authorize_token_iff)
    from v have c: "auth_config_validate (Some cfg)" "policy_valid pol" by (auto simp: verify_steps)
    from verify_alloc [OF v] verify_grants [OF c, of lib time t] c t show ?thesis by auto
  qed
  moreover have "auth_authorize lib alloc time a st (Some cfg) (Some pol) \<noteq> AUTH_DENIED"
    if k: "\<forall>k. alloc k" and c: "auth_config_validate (Some cfg)" "policy_valid pol"
      and t: "a = Some (''Bearer '' @ tok)" "token_grants lib cfg pol (policy_now pol time) tok" for tok
  proof -
    have "alloc = (\<lambda>_. True)" using k by auto
    with verify_grants [OF c, of lib time tok] t(2) have "auth_authorize_token lib alloc time (Some tok) (Some cfg) (Some pol) = AUTH_SIGNED_TOKEN"
      by (simp add: authorize_token_iff)
    with authorize_signed_iff [of lib alloc time a st cfg "Some pol"] st t(1) show ?thesis by auto
  qed
  ultimately show ?thesis using st static_iff [of a st] by blast
qed

lemma sample_issued:
  "\<exists>objects tok. auth_issue (sample_auth_lib objects) (\<lambda>_. True) (Some (sample_config :: unit auth_config)) (Some sample_claims) = Some tok
     \<and> token_grants (sample_auth_lib objects) (sample_config :: unit auth_config) sample_policy_for 1030 tok"
proof -
  let ?cfg = "sample_config :: unit auth_config"
  have t: "trusts ?cfg ?cfg sample_claims" using sample_valid(1,4) by (simp add: trusts_def sample_config_def sample_claims_def)
  have "not_revoked ?cfg d" for d by (simp add: not_revoked_def sample_config_def auth_string_present_def)
  with issued_grants [OF sample_lib_laws sample_reads sample_valid(1) _ sample_valid(2) _ t sample_valid(3), of 1030] show ?thesis
    by (auto simp: sample_config_def sample_claims_def)
qed

lemma authorize_exact_witness:
  "\<exists>lib :: sample_json auth_lib. \<exists>tok. auth_authorize lib (\<lambda>_. True) 0 (Some (''Bearer '' @ tok)) None (Some (sample_config :: unit auth_config))
     (Some sample_policy_for) \<noteq> AUTH_DENIED"
proof -
  obtain objects tok where "token_grants (sample_auth_lib objects) (sample_config :: unit auth_config) sample_policy_for 1030 tok" using sample_issued by blast
  then have g: "token_grants (sample_auth_lib objects) (sample_config :: unit auth_config) sample_policy_for (policy_now sample_policy_for 0) tok"
    by (simp add: policy_now_def sample_policy_for_def)
  have "policy_valid sample_policy_for" using policy_for_valid sample_valid(2,3) by blast
  with authorize_exact [of "sample_auth_lib objects" "\<lambda>_. True" 0 "Some (''Bearer '' @ tok)" None "sample_config :: unit auth_config" sample_policy_for]
    g sample_valid(1) show ?thesis by blast
qed

text \<open>C23. Issued tokens work.  Whenever the claims are valid and expire within the integers a JSON number holds exactly, and the libraries work and
  memory is available, issuing yields a token - no limit on its parts is ever exceeded - and every valid verifier configuration that has the issuer name,
  knows the signing key, be it as active or as previous key, and whose own maximal lifetime is not shorter than the token's, accepts that token
  for a policy that asks for what the claims offer, throughout the lifetime widened by its clock skew, unless the token is revoked.\<close>

theorem issued_token_accepted:
  assumes "base64_laws lib" "hash_laws lib" "json_reads lib (header_members cfg)" "json_reads lib (payload_members cfg cl)"
    and "auth_config_validate (Some cfg)" "length (the (ac_active_secret cfg)) \<le> 2147483647" "claims_valid cfg cl" "cl_expires_at cl \<le> 9007199254740991"
    and "trusts ver cfg cl" "policy_for cl pol"
    and "cl_issued_at cl \<le> policy_now pol time + ac_clock_skew_seconds ver" "policy_now pol time - ac_clock_skew_seconds ver < cl_expires_at cl"
  shows "\<exists>tok d. auth_issue lib (\<lambda>_. True) (Some cfg) (Some cl) = Some tok \<and> auth_sha256 lib tok = Some d
    \<and> (not_revoked ver d \<longrightarrow> auth_authorize_token lib (\<lambda>_. True) time (Some tok) (Some ver) (Some pol) = AUTH_SIGNED_TOKEN)"
proof -
  have "auth_config_validate (Some ver)" using assms(9) by (simp add: trusts_def)
  with issued_grants [OF assms] verify_grants [OF _ policy_for_valid [OF assms(7,10)], of ver lib time] show ?thesis
    by (auto simp: authorize_token_iff)
qed

lemma issued_token_accepted_witness:
  "\<exists>lib :: sample_json auth_lib. \<exists>tok. auth_issue lib (\<lambda>_. True) (Some (sample_config :: unit auth_config)) (Some sample_claims) = Some tok
     \<and> auth_authorize_token lib (\<lambda>_. True) 0 (Some tok) (Some (sample_config :: unit auth_config)) (Some sample_policy_for) = AUTH_SIGNED_TOKEN"
proof -
  let ?cfg = "sample_config :: unit auth_config"
  have t: "trusts ?cfg ?cfg sample_claims" using sample_valid(1,4) by (simp add: trusts_def sample_config_def sample_claims_def)
  have "not_revoked ?cfg d" for d by (simp add: not_revoked_def sample_config_def auth_string_present_def)
  with issued_token_accepted [OF sample_lib_laws sample_reads sample_valid(1) _ sample_valid(2) _ t sample_valid(3), of 0] show ?thesis
    by (auto simp: sample_config_def sample_claims_def policy_now_def sample_policy_for_def)
qed

text \<open>C6. A published revocation shuts the token out everywhere.  Take any fan-out and any history of publications consistent with an authority
  that never withdraws a revocation, over a transport that may lose, repeat or fail to confirm its messages but does not forge
  them or their confirmations.  When publishing the revocation of a token returns 0, every target whose verifier consults its own
  revocation view denies every request with that token from then on, as a header or as a bare token, whatever policy, time and
  static token, even if the static token is the same text.\<close>

theorem published_revocation_denies:
  assumes "revocation_fanout_create ok (Some cfg) targets = Some f0" "faithful view cfg"
    and "\<forall>i. \<exists>a b k. revocation_projection_create a b k = Some (view w0 i)"
    and "list_all (honest_op H) ops" "fold fan_exec ops (f0, w0) = (f, w)" "\<forall>v v'. vle v v' \<longrightarrow> H v \<subseteq> H v'"
    and "honest_op H (Publish_Revoke e q h covering n)"
    and "revocation_fanout_publish_revoke f e q h covering n w = (0, rep, f', w')"
    and "auth_sha256 lib tok = revocation_parse_digest h"
    and "t \<in> set (fo_targets f')" "ac_revocation_check ac = Some projection_check_callback" "ac_revocation_context ac = Some (view w' (ft_id t))"
  shows "auth_authorize lib alloc time (Some (''Bearer '' @ tok)) st (Some ac) pol = AUTH_DENIED
    \<and> auth_authorize_token lib alloc time (Some tok) (Some ac) pol = AUTH_DENIED"
proof -
  from revocation_takes_effect [OF assms(1-8)] assms(9,10) obtain d where d: "auth_sha256 lib tok = Some d"
    and r: "revocation_projection_check_digest (view w' (ft_id t)) (Some d) 32 = STATUS_REVOKED" by auto
  have "\<not> dynamic_check_clear lib ac tok"
    unfolding dynamic_check_iff using assms(11,12) d r by (simp add: projection_check_callback_def)
  then have v: "\<not> auth_verify_signed_token lib alloc time (Some tok) (Some ac) pol"
    by (cases pol) (simp_all add: verify_steps auth_verify_signed_token_def [of _ _ _ _ _ None])
  then have "auth_authorize_token lib alloc time (Some tok) (Some ac) pol = AUTH_DENIED" by (simp add: auth_authorize_token_def)
  moreover have "auth_authorize lib alloc time (Some (''Bearer '' @ tok)) st (Some ac) pol \<noteq> AUTH_STATIC_TOKEN"
    using assms(11) by (simp add: auth_authorize_def)
  moreover have "auth_authorize lib alloc time (Some (''Bearer '' @ tok)) st (Some ac) pol \<noteq> AUTH_SIGNED_TOKEN"
    using v by (auto simp: authorize_signed_iff authorize_token_iff)
  ultimately show ?thesis by (cases "auth_authorize lib alloc time (Some (''Bearer '' @ tok)) st (Some ac) pol") simp_all
qed

lemma published_revocation_denies_witness:
  "\<exists>f w rep f' w' t. fold fan_exec local_ops local_start = (f, w)
     \<and> revocation_fanout_publish_revoke f 1 5 sample_hex (Some [sample_hex]) 1 w = (0, rep, f', w') \<and> t \<in> set (fo_targets f')
     \<and> auth_authorize_token (sample_auth_lib []) (\<lambda>_. True) 0 (Some ''x'')
         (Some (sample_config\<lparr>ac_revocation_check := Some projection_check_callback, ac_revocation_context := Some (local_view w' (ft_id t))\<rparr>))
         (Some sample_policy_for) = AUTH_DENIED"
proof -
  have r: "fold fan_exec local_ops (fst local_start, snd local_start) = (fst local_synced, snd local_synced)" by (simp add: local_run_ops)
  obtain rep f' w' where p: "revocation_fanout_publish_revoke (fst local_synced) 1 5 sample_hex (Some [sample_hex]) 1 (snd local_synced) = (0, rep, f', w')"
    using local_publish_revoke by blast
  have h: "list_all (honest_op (\<lambda>_. {sample_digest})) local_ops"
    "honest_op (\<lambda>_. {sample_digest}) (Publish_Revoke 1 5 sample_hex (Some [sample_hex]) 1)"
    by (simp_all add: local_ops_def payload_def sample_parsed del: parse_entries.simps)
  have c: "\<forall>i. \<exists>a b k. revocation_projection_create a b k = Some (local_view (snd local_start) i)"
    using sample_projection_created by (auto simp: local_start_def local_view_def)
  have d: "auth_sha256 (sample_auth_lib []) ''x'' = revocation_parse_digest sample_hex"
    using sample_parsed(1) by (simp add: auth_sha256_def sample_auth_lib_def sample_digest_def)
  have "length (fo_targets f') = length (fo_targets (fst local_synced))"
    using p fan_run_shape [of "[Publish_Revoke 1 5 sample_hex (Some [sample_hex]) 1]" "fst local_synced" "snd local_synced"] by (simp add: fan_exec_def split_beta)
  then have "length (fo_targets f') = 1" by (simp add: local_synced_def)
  then have t: "hd (fo_targets f') \<in> set (fo_targets f')" by (cases "fo_targets f'") auto
  let ?ac = "sample_config\<lparr>ac_revocation_check := Some projection_check_callback, ac_revocation_context := Some (local_view w' (ft_id (hd (fo_targets f'))))\<rparr>"
  have a: "ac_revocation_check ?ac = Some projection_check_callback" "ac_revocation_context ?ac = Some (local_view w' (ft_id (hd (fo_targets f'))))" by simp_all
  from published_revocation_denies [OF local_created local_faithful c h(1) r _ h(2) p d t a] p r t show ?thesis by (metis order_refl prod.collapse)
qed

end
