(* ===== verification/Dcep_Text.thy ===== *)
theory Dcep_Text
  imports Prelude
begin

text \<open>
  The text check of the data channel establishment protocol (\<open>dcep_text_valid\<close> of \<open>webrtc/src/dcep_protocol.c\<close>): labels and
  protocol names must be strict UTF-8.

  Shown here: the byte-level check accepts exactly the encodings of sequences of Unicode scalar values.
\<close>

section \<open>The check\<close>

definition continuation_count :: "u8 \<Rightarrow> nat option" where
  "continuation_count first =
     (if first \<ge> 0xC2 \<and> first \<le> 0xDF then Some 1
      else if first \<ge> 0xE0 \<and> first \<le> 0xEF then Some 2
      else if first \<ge> 0xF0 \<and> first \<le> 0xF4 then Some 3
      else None)"

text \<open>The checks on the continuation bytes, in the order of the code; \<open>rest\<close> are the bytes after the first one.\<close>

definition continuation_ok :: "u8 \<Rightarrow> nat \<Rightarrow> bytes \<Rightarrow> bool" where
  "continuation_ok first n rest =
     (if rest ! 0 < 0x80 \<or> rest ! 0 > 0xBF then False
      else if n \<ge> 2 \<and> (rest ! 1 < 0x80 \<or> rest ! 1 > 0xBF) then False
      else if n \<ge> 2 \<and> ((first = 0xE0 \<and> rest ! 0 < 0xA0) \<or> (first = 0xED \<and> rest ! 0 > 0x9F)) then False
      else if n = 3 \<and> (rest ! 2 < 0x80 \<or> rest ! 2 > 0xBF) then False
      else if n = 3 \<and> ((first = 0xF0 \<and> rest ! 0 < 0x90) \<or> (first = 0xF4 \<and> rest ! 0 > 0x8F)) then False
      else True)"

text \<open>The loop over the text, on the bytes from the index on.\<close>

fun text_valid_from :: "bytes \<Rightarrow> bool" where
  "text_valid_from [] = True"
| "text_valid_from (first # rest) =
     (if first \<le> 0x7F then text_valid_from rest
      else case continuation_count first of
             None \<Rightarrow> False
           | Some n \<Rightarrow> if n \<ge> length (first # rest) then False
                       else if \<not> continuation_ok first n rest then False
                       else text_valid_from (drop n rest))"

definition dcep_text_valid :: "bytes option \<Rightarrow> nat \<Rightarrow> bool" where
  "dcep_text_valid text len = (case text of None \<Rightarrow> len = 0 | Some t \<Rightarrow> text_valid_from (take len t))"

section \<open>UTF-8\<close>

text \<open>Unicode scalar values and their encoding.\<close>

definition scalar :: "nat \<Rightarrow> bool" where
  "scalar c \<longleftrightarrow> c \<le> 0x10FFFF \<and> \<not> (0xD800 \<le> c \<and> c \<le> 0xDFFF)"

definition tail_byte :: "nat \<Rightarrow> u8" where "tail_byte c = of_nat (0x80 + c mod 64)"

definition utf8 :: "nat \<Rightarrow> bytes" where
  "utf8 c =
     (if c < 0x80 then [of_nat c]
      else if c < 0x800 then [of_nat (0xC0 + c div 64), tail_byte c]
      else if c < 0x10000 then [of_nat (0xE0 + c div 4096), tail_byte (c div 64), tail_byte c]
      else [of_nat (0xF0 + c div 262144), tail_byte (c div 4096), tail_byte (c div 64), tail_byte c])"

lemma unat_byte: "n < 256 \<Longrightarrow> unat (of_nat n :: u8) = n"
  by (simp add: unat_of_nat)

lemma unat_tail: "unat (tail_byte c) = 0x80 + c mod 64"
  unfolding tail_byte_def by (rule unat_byte) (use mod_less_divisor [of 64 c] in linarith)

lemmas byte_order = word_le_nat_alt word_less_nat_alt unat_tail

lemma byte_eq: "b = c \<longleftrightarrow> unat b = unat (c :: u8)"
  by (simp add: unat_arith_simps)

lemma mod64_le: "\<not> 63 < n mod (64::nat)"
  using mod_less_divisor [of 64 n] by linarith

lemma valid_encoding:
  assumes "scalar c"
  shows "text_valid_from (utf8 c @ rest) = text_valid_from rest"
proof -
  consider "c < 0x80" | "0x80 \<le> c" "c < 0x800" | "0x800 \<le> c" "c < 0x10000" | "0x10000 \<le> c" "c < 0x110000"
    using assms by (fastforce simp: scalar_def)
  then show ?thesis
  proof cases
    case 1
    then show ?thesis by (simp add: utf8_def byte_order unat_byte)
  next
    case 2
    then have d: "2 \<le> c div 64" "c div 64 < 32" by (simp_all add: less_mult_imp_div_less div_le_mono [of 128 c 64, simplified])
    then have "unat (of_nat (0xC0 + c div 64) :: u8) = 0xC0 + c div 64" by (intro unat_byte) simp
    then show ?thesis using 2 d mod64_le
      by (simp add: utf8_def byte_order continuation_count_def continuation_ok_def byte_eq del: of_nat_add)
  next
    case 3
    have d: "c div 4096 < 16" "c div 64 = c div 4096 * 64 + c div 64 mod 64" using 3 by (simp_all add: less_mult_imp_div_less div_mult2_eq [of c 64 64, simplified])
    have "unat (of_nat (0xE0 + c div 4096) :: u8) = 0xE0 + c div 4096" using d by (intro unat_byte) simp
    moreover have "\<not> (c div 4096 = 0 \<and> c div 64 mod 64 < 32)" using 3 d div_le_mono [of "0x800" c 64] by auto
    moreover have "\<not> (c div 4096 = 13 \<and> 31 < c div 64 mod 64)"
      using assms 3 d div_le_mono [of "0xD800" c 64] by (auto simp: scalar_def)
    ultimately show ?thesis using 3 d(1) mod64_le
      by (auto simp: utf8_def byte_order continuation_count_def continuation_ok_def byte_eq simp del: of_nat_add)
  next
    case 4
    have d: "c div 262144 \<le> 4" "c div 4096 = c div 262144 * 64 + c div 4096 mod 64" using 4 by (simp_all add: div_mult2_eq [of c 4096 64, simplified])
    have "unat (of_nat (0xF0 + c div 262144) :: u8) = 0xF0 + c div 262144" using d by (intro unat_byte) simp
    moreover have "\<not> (c div 262144 = 0 \<and> c div 4096 mod 64 < 16)" using 4 d div_le_mono [of "0x10000" c 4096] by auto
    moreover have "\<not> (c div 262144 = 4 \<and> 15 < c div 4096 mod 64)" using 4 d div_le_mono [of c "0x10FFFF" 4096] by auto
    ultimately show ?thesis using 4 d(1) mod64_le
      by (auto simp: utf8_def byte_order continuation_count_def continuation_ok_def byte_eq simp del: of_nat_add)
  qed
qed

text \<open>The bytes of a checked sequence are the digits of a scalar value.\<close>

lemma tail_digit:
  assumes "0x80 \<le> b" "b \<le> 0xBF"
  obtains x where "unat b = 0x80 + x" "x < 64" "\<And>c. c mod 64 = x \<Longrightarrow> tail_byte c = b"
proof
  show "unat b = 0x80 + (unat b - 0x80)" "unat b - 0x80 < 64" using assms by (simp_all add: byte_order)
  show "tail_byte c = b" if "c mod 64 = unat b - 0x80" for c using assms that by (simp add: byte_eq byte_order)
qed

lemma first_digit:
  fixes b :: u8
  assumes "k \<le> unat b"
  obtains x where "unat b = k + x" "(of_nat (k + x) :: u8) = b"
proof
  show "unat b = k + (unat b - k)" "(of_nat (k + (unat b - k)) :: u8) = b" using assms by simp_all
qed

lemma digits: "x < 64 \<Longrightarrow> (a * 64 + x) mod 64 = x" "x < 64 \<Longrightarrow> (a * 64 + x) div 64 = (a::nat)"
  by simp_all

lemma two_bytes:
  assumes "0xC2 \<le> b0" "b0 \<le> 0xDF" "0x80 \<le> b1" "b1 \<le> 0xBF"
  shows "\<exists>c. scalar c \<and> utf8 c = [b0, b1]"
proof -
  have u: "0xC2 \<le> unat b0" "unat b0 \<le> 0xDF" using assms by (simp_all add: byte_order)
  obtain x where x: "unat b0 = 0xC0 + x" "of_nat (0xC0 + x) = b0" using u first_digit [of "0xC0" b0] by auto
  obtain y where y: "y < 64" "\<And>c. c mod 64 = y \<Longrightarrow> tail_byte c = b1" using tail_digit [OF assms(3,4)] by metis
  let ?c = "x * 64 + y"
  have "0x80 \<le> ?c" "?c < 0x800" using u x(1) y(1) by linarith+
  moreover have "of_nat (0xC0 + ?c div 64) = b0" unfolding digits(2) [OF y(1)] by (rule x(2))
  moreover have "tail_byte ?c = b1" by (rule y(2) [OF digits(1) [OF y(1)]])
  ultimately show ?thesis by (intro exI [of _ ?c]) (simp add: utf8_def scalar_def del: of_nat_add of_nat_mult)
qed

lemma three_bytes:
  assumes "0xE0 \<le> b0" "b0 \<le> 0xEF" "0x80 \<le> b1" "b1 \<le> 0xBF" "0x80 \<le> b2" "b2 \<le> 0xBF"
    and "b0 = 0xE0 \<Longrightarrow> 0xA0 \<le> b1" "b0 = 0xED \<Longrightarrow> b1 \<le> 0x9F"
  shows "\<exists>c. scalar c \<and> utf8 c = [b0, b1, b2]"
proof -
  have u: "0xE0 \<le> unat b0" "unat b0 \<le> 0xEF" "unat b0 = 0xE0 \<Longrightarrow> 0xA0 \<le> unat b1" "unat b0 = 0xED \<Longrightarrow> unat b1 \<le> 0x9F"
    using assms by (simp_all add: byte_order byte_eq)
  obtain x where x: "unat b0 = 0xE0 + x" "of_nat (0xE0 + x) = b0" using u first_digit [of "0xE0" b0] by auto
  obtain y where y: "unat b1 = 0x80 + y" "y < 64" "\<And>c. c mod 64 = y \<Longrightarrow> tail_byte c = b1" using tail_digit [OF assms(3,4)] by metis
  obtain z where z: "z < 64" "\<And>c. c mod 64 = z \<Longrightarrow> tail_byte c = b2" using tail_digit [OF assms(5,6)] by metis
  let ?c = "(x * 64 + y) * 64 + z"
  have q: "?c div 64 = x * 64 + y" by (rule digits(2) [OF z(1)])
  then have q2: "?c div 4096 = x" using div_mult2_eq [of ?c 64 64] digits(2) [OF y(2), of x] by simp
  have "0x800 \<le> ?c" "?c < 0x10000" "\<not> (0xD800 \<le> ?c \<and> ?c \<le> 0xDFFF)"
    using u x(1) y(1,2) z(1) by (cases "x = 0"; cases "x = 13"; simp; linarith)+
  moreover have "of_nat (0xE0 + ?c div 4096) = b0" unfolding q2 by (rule x(2))
  moreover have "tail_byte (?c div 64) = b1" unfolding q by (rule y(3) [OF digits(1) [OF y(2)]])
  moreover have "tail_byte ?c = b2" by (rule z(2) [OF digits(1) [OF z(1)]])
  ultimately show ?thesis by (intro exI [of _ ?c]) (simp add: utf8_def scalar_def del: of_nat_add of_nat_mult)
qed

lemma four_bytes:
  assumes "0xF0 \<le> b0" "b0 \<le> 0xF4" "0x80 \<le> b1" "b1 \<le> 0xBF" "0x80 \<le> b2" "b2 \<le> 0xBF" "0x80 \<le> b3" "b3 \<le> 0xBF"
    and "b0 = 0xF0 \<Longrightarrow> 0x90 \<le> b1" "b0 = 0xF4 \<Longrightarrow> b1 \<le> 0x8F"
  shows "\<exists>c. scalar c \<and> utf8 c = [b0, b1, b2, b3]"
proof -
  have u: "0xF0 \<le> unat b0" "unat b0 \<le> 0xF4" "unat b0 = 0xF0 \<Longrightarrow> 0x90 \<le> unat b1" "unat b0 = 0xF4 \<Longrightarrow> unat b1 \<le> 0x8F"
    using assms by (simp_all add: byte_order byte_eq)
  obtain x where x: "unat b0 = 0xF0 + x" "of_nat (0xF0 + x) = b0" using u first_digit [of "0xF0" b0] by auto
  obtain y where y: "unat b1 = 0x80 + y" "y < 64" "\<And>c. c mod 64 = y \<Longrightarrow> tail_byte c = b1" using tail_digit [OF assms(3,4)] by metis
  obtain z where z: "z < 64" "\<And>c. c mod 64 = z \<Longrightarrow> tail_byte c = b2" using tail_digit [OF assms(5,6)] by metis
  obtain t where t: "t < 64" "\<And>c. c mod 64 = t \<Longrightarrow> tail_byte c = b3" using tail_digit [OF assms(7,8)] by metis
  let ?c = "((x * 64 + y) * 64 + z) * 64 + t"
  have q: "?c div 64 = (x * 64 + y) * 64 + z" by (rule digits(2) [OF t(1)])
  then have q2: "?c div 4096 = x * 64 + y" using div_mult2_eq [of ?c 64 64] digits(2) [OF z(1), of "x * 64 + y"] by simp
  then have q3: "?c div 262144 = x" using div_mult2_eq [of ?c 4096 64] digits(2) [OF y(2), of x] by simp
  have "0x10000 \<le> ?c" "?c \<le> 0x10FFFF" using u x(1) y(1,2) z(1) t(1) by (cases "x = 0"; cases "x = 4"; simp; linarith)+
  moreover have "of_nat (0xF0 + ?c div 262144) = b0" unfolding q3 by (rule x(2))
  moreover have "tail_byte (?c div 4096) = b1" unfolding q2 by (rule y(3) [OF digits(1) [OF y(2)]])
  moreover have "tail_byte (?c div 64) = b2" unfolding q by (rule z(2) [OF digits(1) [OF z(1)]])
  moreover have "tail_byte ?c = b3" by (rule t(2) [OF digits(1) [OF t(1)]])
  ultimately show ?thesis by (intro exI [of _ ?c]) (simp add: utf8_def scalar_def del: of_nat_add of_nat_mult)
qed

text \<open>One step of the check consumes the encoding of one scalar value.\<close>

lemma text_valid_step:
  assumes "text_valid_from (first # rest)"
  shows "\<exists>c bs. scalar c \<and> first # rest = utf8 c @ bs \<and> text_valid_from bs \<and> length bs < length (first # rest)"
proof (cases "first \<le> 0x7F")
  case True
  then have "scalar (unat first)" "utf8 (unat first) = [first]" by (simp_all add: byte_order scalar_def utf8_def)
  moreover have "text_valid_from rest" using assms True by simp
  ultimately show ?thesis by (intro exI [of _ "unat first"] exI [of _ rest]) simp
next
  case False
  with assms obtain n where n: "continuation_count first = Some n" "n < length (first # rest)" "continuation_ok first n rest"
      "text_valid_from (drop n rest)" by (auto split: option.splits if_splits)
  have "\<exists>c. scalar c \<and> utf8 c = first # take n rest"
  proof -
    consider "n = 1" "first \<ge> 0xC2" "first \<le> 0xDF" | "n = 2" "first \<ge> 0xE0" "first \<le> 0xEF" | "n = 3" "first \<ge> 0xF0" "first \<le> 0xF4"
      using n(1) by (auto simp: continuation_count_def split: if_splits)
    then show ?thesis
    proof cases
      case 1
      then obtain b1 bs where "rest = b1 # bs" using n(2) by (cases rest) auto
      with 1 n(3) two_bytes [of first b1] show ?thesis by (auto simp: continuation_ok_def not_less split: if_splits)
    next
      case 2
      then obtain b1 b2 bs where r: "rest = b1 # b2 # bs" using n(2) by (cases rest; cases "tl rest") auto
      with 2 n(3) three_bytes [of first b1 b2] show ?thesis by (auto simp: continuation_ok_def not_less numeral_2_eq_2 split: if_splits)
    next
      case 3
      then obtain b1 b2 b3 bs where r: "rest = b1 # b2 # b3 # bs" using n(2) by (cases rest; cases "tl rest"; cases "tl (tl rest)") auto
      with 3 n(3) four_bytes [of first b1 b2 b3] show ?thesis by (auto simp: continuation_ok_def not_less numeral_3_eq_3 numeral_2_eq_2 split: if_splits)
    qed
  qed
  then obtain c where "scalar c" "utf8 c = first # take n rest" by blast
  with n(4) show ?thesis by (intro exI [of _ c] exI [of _ "drop n rest"]) simp
qed

section \<open>Property\<close>

text \<open>C18. The check of labels and protocol names accepts a byte string exactly when it is the UTF-8 encoding of a sequence of Unicode
  scalar values: overlong forms, surrogates, stray or missing continuation bytes and values beyond U+10FFFF are
  refused, and nothing else is.\<close>

theorem dcep_text_valid_utf8:
  "dcep_text_valid (Some bs) (length bs) \<longleftrightarrow> (\<exists>cs. list_all scalar cs \<and> bs = concat (map utf8 cs))"
proof -
  have "\<exists>cs. list_all scalar cs \<and> bs = concat (map utf8 cs)" if "text_valid_from bs" for bs
    using that
  proof (induction "length bs" arbitrary: bs rule: less_induct)
    case less
    show ?case
    proof (cases bs)
      case Nil
      then show ?thesis by (intro exI [of _ "[]"]) simp
    next
      case (Cons first rest)
      with text_valid_step less.prems obtain c bs' where c: "scalar c" "bs = utf8 c @ bs'" "text_valid_from bs'" "length bs' < length bs"
        by blast
      with less.hyps [of bs'] obtain cs where "list_all scalar cs" "bs' = concat (map utf8 cs)" by blast
      with c show ?thesis by (intro exI [of _ "c # cs"]) simp
    qed
  qed
  moreover have "text_valid_from (concat (map utf8 cs))" if "list_all scalar cs" for cs
    using that by (induction cs) (simp_all add: valid_encoding)
  ultimately show ?thesis unfolding dcep_text_valid_def by auto
qed

end
