(* ===== verification/Sctp_Reassembly.thy ===== *)
theory Sctp_Reassembly
  imports Prelude
begin

text \<open>
  Reassembly of partially delivered SCTP messages (\<open>webrtc/src/sctp_session.c\<close>): usrsctp hands up fragments of a message, the last one
  with the end-of-record flag; at most eight messages are collected at a time, each up to 24 KiB.

  A slot's buffer is the list of the bytes written so far (\<open>None\<close> when it is \<open>NULL\<close>).  The receive information carries the payload
  protocol identifier in host order and the unordered flag as a truth value; \<open>eor\<close> is the end-of-record flag of
  the call.  The calls hold the peer's mutex, so they are atomic.  \<open>alloc_ok\<close> is whether \<open>malloc\<close> succeeds.

  Shown here: the table refines a map from message identities to the bytes collected so far, for any interleaving of
  messages; the memory in use is bounded, no two slots collect the same message, and nothing longer than
  24 KiB is ever handed up.
\<close>

section \<open>State\<close>

definition SCTP_REASSEMBLY_MESSAGE_MAX :: nat where "SCTP_REASSEMBLY_MESSAGE_MAX = 24 * 1024"
definition SCTP_REASSEMBLY_SLOTS :: nat where "SCTP_REASSEMBLY_SLOTS = 8"

record rx_slot =
  sl_data :: "bytes option"
  sl_length :: nat
  sl_stream_id :: u16
  sl_stream_sequence :: u16
  sl_ppid :: u32
  sl_association_id :: u32
  sl_unordered :: bool
  sl_discarding :: bool
  sl_used :: bool

record rcvinfo =
  rcv_sid :: u16
  rcv_ssn :: u16
  rcv_ppid :: u32
  rcv_assoc_id :: u32
  rcv_unordered :: bool

record reassembly =
  ra_blocked :: bool
  ra_slots :: "rx_slot list"

datatype reassembly_result = PENDING | READY "bytes option" nat | REJECTED string

definition zero_rx :: rx_slot where
  "zero_rx = \<lparr>sl_data = None, sl_length = 0, sl_stream_id = 0, sl_stream_sequence = 0, sl_ppid = 0, sl_association_id = 0,
     sl_unordered = False, sl_discarding = False, sl_used = False\<rparr>"

section \<open>Operations\<close>

definition sctp_reassembly_clear_slot :: "nat \<Rightarrow> reassembly \<Rightarrow> reassembly" where
  "sctp_reassembly_clear_slot i ra = ra\<lparr>ra_slots := (ra_slots ra)[i := zero_rx]\<rparr>"

definition sctp_reassembly_clear_all :: "reassembly \<Rightarrow> reassembly" where
  "sctp_reassembly_clear_all ra = ra\<lparr>ra_slots := map (\<lambda>_. zero_rx) (ra_slots ra), ra_blocked := False\<rparr>"

definition sctp_reassembly_clear_identity :: "u32 \<Rightarrow> u16 \<Rightarrow> u16 \<Rightarrow> reassembly \<Rightarrow> reassembly" where
  "sctp_reassembly_clear_identity assoc sid ssn ra = ra\<lparr>ra_slots := map (\<lambda>s.
     if sl_used s \<and> sl_association_id s = assoc \<and> sl_stream_id s = sid \<and> sl_stream_sequence s = ssn then zero_rx else s) (ra_slots ra)\<rparr>"

definition sctp_reassembly_clear_stream :: "u32 \<Rightarrow> u16 \<Rightarrow> reassembly \<Rightarrow> reassembly" where
  "sctp_reassembly_clear_stream assoc sid ra = ra\<lparr>ra_slots := map (\<lambda>s.
     if sl_used s \<and> sl_association_id s = assoc \<and> sl_stream_id s = sid then zero_rx else s) (ra_slots ra)\<rparr>"

definition slot_for :: "rcvinfo \<Rightarrow> rx_slot \<Rightarrow> bool" where
  "slot_for rcv s \<longleftrightarrow> sl_used s \<and> sl_association_id s = rcv_assoc_id rcv \<and> sl_stream_id s = rcv_sid rcv
     \<and> sl_stream_sequence s = rcv_ssn rcv \<and> sl_unordered s = rcv_unordered rcv"

definition claim_slot :: "rcvinfo \<Rightarrow> rx_slot \<Rightarrow> rx_slot" where
  "claim_slot rcv s = s\<lparr>sl_stream_id := rcv_sid rcv, sl_stream_sequence := rcv_ssn rcv, sl_ppid := rcv_ppid rcv,
     sl_association_id := rcv_assoc_id rcv, sl_unordered := rcv_unordered rcv, sl_used := True\<rparr>"

definition discard_slot :: "rx_slot \<Rightarrow> rx_slot" where
  "discard_slot s = s\<lparr>sl_data := None, sl_length := 0, sl_discarding := True\<rparr>"

definition set_slot :: "nat \<Rightarrow> rx_slot \<Rightarrow> reassembly \<Rightarrow> reassembly" where
  "set_slot i s ra = ra\<lparr>ra_slots := (ra_slots ra)[i := s]\<rparr>"

text \<open>The last part of the function, once the slot at \<open>i\<close> has been found or claimed.\<close>

definition append_fragment :: "nat \<Rightarrow> bool \<Rightarrow> bytes \<Rightarrow> nat \<Rightarrow> reassembly \<Rightarrow> reassembly_result \<times> reassembly" where
  "append_fragment i eor data len ra =
     (let s = ra_slots ra ! i
      in if len > SCTP_REASSEMBLY_MESSAGE_MAX - sl_length s
         then (REJECTED ''SCTP message exceeds the 24 KiB receive limit'',
               if eor then sctp_reassembly_clear_slot i ra else set_slot i (discard_slot s) ra)
         else let s' = s\<lparr>sl_data := Some (the (sl_data s) @ take len data), sl_length := sl_length s + len\<rparr>
              in if \<not> eor then (PENDING, set_slot i s' ra)
                 else (READY (sl_data s') (sl_length s'), set_slot i zero_rx ra))"

definition sctp_reassemble_message ::
  "bool \<Rightarrow> reassembly \<Rightarrow> rcvinfo \<Rightarrow> bool \<Rightarrow> bytes option \<Rightarrow> nat \<Rightarrow> reassembly_result \<times> reassembly" where
  "sctp_reassemble_message alloc_ok ra rcv eor bytes len =
     (let slot = first_below SCTP_REASSEMBLY_SLOTS (slot_for rcv) (ra_slots ra);
          free_slot = first_below SCTP_REASSEMBLY_SLOTS (\<lambda>s. \<not> sl_used s) (ra_slots ra);
          overflow = (sctp_reassembly_clear_all ra)\<lparr>ra_blocked := True\<rparr>
      in if ra_blocked ra then (REJECTED ''SCTP receive reassembly is blocked until association reset'', ra)
         else if bytes = None \<or> len = 0 \<or> len > SCTP_REASSEMBLY_MESSAGE_MAX then
           (REJECTED ''invalid or oversized SCTP receive fragment'',
            case slot of
              Some i \<Rightarrow> if eor then sctp_reassembly_clear_slot i ra else set_slot i (discard_slot (ra_slots ra ! i)) ra
            | None \<Rightarrow> if eor then ra
                      else case free_slot of
                             None \<Rightarrow> overflow
                           | Some j \<Rightarrow> set_slot j ((claim_slot rcv (ra_slots ra ! j))\<lparr>sl_discarding := True\<rparr>) ra)
         else case slot of
           Some i \<Rightarrow>
             if sl_ppid (ra_slots ra ! i) \<noteq> rcv_ppid rcv then
               (REJECTED ''SCTP fragment metadata changed before EOR'',
                let ra' = sctp_reassembly_clear_slot i ra in if eor then ra' else ra'\<lparr>ra_blocked := True\<rparr>)
             else if sl_discarding (ra_slots ra ! i) then
               (REJECTED ''discarding rejected SCTP partial delivery until EOR'', if eor then sctp_reassembly_clear_slot i ra else ra)
             else append_fragment i eor (the bytes) len ra
         | None \<Rightarrow>
             if eor then (READY None len, ra)
             else (case free_slot of
                     None \<Rightarrow> (REJECTED ''too many simultaneous SCTP partial deliveries'', overflow)
                   | Some j \<Rightarrow>
                       let s = (claim_slot rcv (ra_slots ra ! j))\<lparr>sl_data := (if alloc_ok then Some [] else None), sl_length := 0\<rparr>
                       in if \<not> alloc_ok
                          then (REJECTED ''SCTP receive reassembly allocation failed'', set_slot j (s\<lparr>sl_discarding := True\<rparr>) ra)
                          else append_fragment j eor (the bytes) len (set_slot j s ra)))"

text \<open>The message handed up: the assembled buffer, or the fragment itself when it was complete.\<close>

definition message_of :: "bytes \<Rightarrow> reassembly_result \<Rightarrow> bytes option" where
  "message_of data r = (case r of READY b len \<Rightarrow> Some (take len (case b of Some bs \<Rightarrow> bs | None \<Rightarrow> data)) | _ \<Rightarrow> None)"

definition reassembly_start :: reassembly where
  "reassembly_start = \<lparr>ra_blocked = False, ra_slots = replicate SCTP_REASSEMBLY_SLOTS zero_rx\<rparr>"

section \<open>Invariant\<close>

type_synonym ident = "u32 \<times> u16 \<times> u16 \<times> bool"

definition slot_ident :: "rx_slot \<Rightarrow> ident" where
  "slot_ident s = (sl_association_id s, sl_stream_id s, sl_stream_sequence s, sl_unordered s)"

definition rcv_ident :: "rcvinfo \<Rightarrow> ident" where
  "rcv_ident r = (rcv_assoc_id r, rcv_sid r, rcv_ssn r, rcv_unordered r)"

lemma slot_for_ident: "slot_for rcv s \<longleftrightarrow> sl_used s \<and> slot_ident s = rcv_ident rcv"
  by (auto simp: slot_for_def slot_ident_def rcv_ident_def)

definition rx_ok :: "rx_slot \<Rightarrow> bool" where
  "rx_ok s \<longleftrightarrow> (if \<not> sl_used s then s = zero_rx
     else if sl_discarding s then sl_data s = None
     else sl_data s \<noteq> None \<and> length (the (sl_data s)) = sl_length s \<and> sl_length s \<le> SCTP_REASSEMBLY_MESSAGE_MAX)"

definition ra_inv :: "reassembly \<Rightarrow> bool" where
  "ra_inv ra \<longleftrightarrow> length (ra_slots ra) = SCTP_REASSEMBLY_SLOTS \<and> list_all rx_ok (ra_slots ra)
     \<and> (\<forall>i<8. \<forall>j<8. i \<noteq> j \<longrightarrow> sl_used (ra_slots ra ! i) \<longrightarrow> sl_used (ra_slots ra ! j) \<longrightarrow>
          slot_ident (ra_slots ra ! i) \<noteq> slot_ident (ra_slots ra ! j))"

lemma zero_rx_ok [simp]: "rx_ok zero_rx" "sl_used zero_rx = False"
  by (simp_all add: rx_ok_def zero_rx_def)

text \<open>Replacing a slot keeps the invariant when the new one is well formed and its message is collected nowhere else.\<close>

lemma set_slot_inv:
  assumes "ra_inv ra" "rx_ok s" "i < 8"
    and "sl_used s \<Longrightarrow> \<forall>j<8. j \<noteq> i \<longrightarrow> sl_used (ra_slots ra ! j) \<longrightarrow> slot_ident (ra_slots ra ! j) \<noteq> slot_ident s"
  shows "ra_inv (set_slot i s ra)"
  using assms by (auto simp: ra_inv_def set_slot_def list_all_length nth_list_update SCTP_REASSEMBLY_SLOTS_def)

lemma clear_slot_inv: "ra_inv ra \<Longrightarrow> i < 8 \<Longrightarrow> ra_inv (sctp_reassembly_clear_slot i ra)"
  using set_slot_inv [of ra zero_rx i] by (simp add: set_slot_def sctp_reassembly_clear_slot_def)

lemma filter_slots_inv:
  assumes "ra_inv ra"
  shows "ra_inv (ra\<lparr>ra_slots := map (\<lambda>s. if P s then zero_rx else s) (ra_slots ra)\<rparr>)"
  using assms by (auto simp: ra_inv_def list_all_length SCTP_REASSEMBLY_SLOTS_def)

lemma clear_all_inv: "ra_inv ra \<Longrightarrow> ra_inv (sctp_reassembly_clear_all ra)"
  using filter_slots_inv [of ra "\<lambda>_. True"] by (simp add: sctp_reassembly_clear_all_def ra_inv_def)

lemma blocked_inv [simp]: "ra_inv (ra\<lparr>ra_blocked := b\<rparr>) = ra_inv ra"
  by (simp add: ra_inv_def)

lemma slot_lookup:
  assumes "first_below SCTP_REASSEMBLY_SLOTS (slot_for rcv) (ra_slots ra) = Some i"
  shows "i < 8 \<and> sl_used (ra_slots ra ! i) \<and> slot_ident (ra_slots ra ! i) = rcv_ident rcv"
  using first_below_Some [OF assms] by (simp add: slot_for_ident SCTP_REASSEMBLY_SLOTS_def)

lemma slot_absent:
  assumes "first_below SCTP_REASSEMBLY_SLOTS (slot_for rcv) (ra_slots ra) = None" "j < 8" "sl_used (ra_slots ra ! j)"
  shows "slot_ident (ra_slots ra ! j) \<noteq> rcv_ident rcv"
  using assms by (simp add: first_below_None slot_for_ident SCTP_REASSEMBLY_SLOTS_def)

lemma free_lookup:
  assumes "first_below SCTP_REASSEMBLY_SLOTS (\<lambda>s. \<not> sl_used s) (ra_slots ra) = Some j" "ra_inv ra"
  shows "j < 8 \<and> ra_slots ra ! j = zero_rx"
  using first_below_Some [OF assms(1)] assms(2) by (auto simp: ra_inv_def list_all_length rx_ok_def SCTP_REASSEMBLY_SLOTS_def)

lemma same_ident_inv:
  assumes "ra_inv ra" "i < 8" "sl_used (ra_slots ra ! i)" "rx_ok s" "slot_ident s = slot_ident (ra_slots ra ! i)"
  shows "ra_inv (set_slot i s ra)"
  using assms by (intro set_slot_inv) (auto simp: ra_inv_def)

lemma fresh_ident_inv:
  assumes "ra_inv ra" "i < 8" "rx_ok s" "\<And>j. j < 8 \<Longrightarrow> sl_used (ra_slots ra ! j) \<Longrightarrow> slot_ident (ra_slots ra ! j) \<noteq> slot_ident s"
  shows "ra_inv (set_slot i s ra)"
  using assms by (intro set_slot_inv) auto

lemma claim_fields [simp]:
  "slot_ident (claim_slot rcv s) = rcv_ident rcv" "sl_used (claim_slot rcv s)" "sl_ppid (claim_slot rcv s) = rcv_ppid rcv"
  "sl_data (claim_slot rcv s) = sl_data s" "sl_length (claim_slot rcv s) = sl_length s" "sl_discarding (claim_slot rcv s) = sl_discarding s"
  by (simp_all add: claim_slot_def slot_ident_def rcv_ident_def)

lemma ident_updates [simp]:
  "slot_ident (s\<lparr>sl_data := d\<rparr>) = slot_ident s" "slot_ident (s\<lparr>sl_length := n\<rparr>) = slot_ident s"
  "slot_ident (s\<lparr>sl_discarding := b\<rparr>) = slot_ident s"
  by (simp_all add: slot_ident_def)

lemma discard_fields [simp]:
  "slot_ident (discard_slot s) = slot_ident s" "sl_used (discard_slot s) = sl_used s" "sl_ppid (discard_slot s) = sl_ppid s"
  "sl_discarding (discard_slot s)" "sl_data (discard_slot s) = None"
  by (simp_all add: discard_slot_def slot_ident_def)

lemma zero_fields [simp]: "sl_data zero_rx = None" "sl_length zero_rx = 0" "sl_discarding zero_rx = False"
  by (simp_all add: zero_rx_def)

section \<open>The abstract table\<close>

text \<open>What is known of a message that has not ended: the bytes collected, or that it is being dropped.\<close>

datatype partial_msg = Collect u32 bytes | Drop u32

definition rx_status :: "rx_slot \<Rightarrow> partial_msg" where
  "rx_status s = (if sl_discarding s then Drop (sl_ppid s) else Collect (sl_ppid s) (the (sl_data s)))"

definition collected :: "reassembly \<Rightarrow> ident \<rightharpoonup> partial_msg" where
  "collected ra i = (case first_below SCTP_REASSEMBLY_SLOTS (\<lambda>s. sl_used s \<and> slot_ident s = i) (ra_slots ra) of
     None \<Rightarrow> None | Some k \<Rightarrow> Some (rx_status (ra_slots ra ! k)))"

text \<open>The specification: one message identity at a time, no slots; the map holds at most eight messages.\<close>

definition drop_in :: "u32 \<Rightarrow> bool \<Rightarrow> partial_msg option" where
  "drop_in ppid eor = (if eor then None else Some (Drop ppid))"

definition spec_overflow :: "bool \<times> (ident \<rightharpoonup> partial_msg)" where
  "spec_overflow = (True, \<lambda>_. None)"

definition reassembly_spec ::
  "bool \<Rightarrow> bool \<times> (ident \<rightharpoonup> partial_msg) \<Rightarrow> ident \<Rightarrow> u32 \<Rightarrow> bool \<Rightarrow> bytes option \<Rightarrow> bytes option \<times> bool \<times> (ident \<rightharpoonup> partial_msg)" where
  "reassembly_spec alloc_ok st i ppid eor data =
     (let m = snd st; full = card (dom m) \<ge> 8; bad = (case data of None \<Rightarrow> True | Some d \<Rightarrow> d = [] \<or> length d > SCTP_REASSEMBLY_MESSAGE_MAX)
      in if fst st then (None, st)
         else case m i of
           None \<Rightarrow>
             if eor then (if bad then None else data, st)
             else if full then (None, spec_overflow)
             else (None, False, m(i \<mapsto> if bad \<or> \<not> alloc_ok then Drop ppid else Collect ppid (the data)))
         | Some (Drop p) \<Rightarrow>
             if bad \<or> p = ppid then (None, False, m(i := drop_in p eor)) else (None, \<not> eor, m(i := None))
         | Some (Collect p bs) \<Rightarrow>
             if bad then (None, False, m(i := drop_in p eor))
             else if p \<noteq> ppid then (None, \<not> eor, m(i := None))
             else if length bs + length (the data) > SCTP_REASSEMBLY_MESSAGE_MAX then (None, False, m(i := drop_in p eor))
             else if eor then (Some (bs @ the data), False, m(i := None))
             else (None, False, m(i \<mapsto> Collect p (bs @ the data))))"

lemma ident_unique:
  "ra_inv ra \<Longrightarrow> i < 8 \<Longrightarrow> j < 8 \<Longrightarrow> sl_used (ra_slots ra ! i) \<Longrightarrow> sl_used (ra_slots ra ! j)
     \<Longrightarrow> slot_ident (ra_slots ra ! i) = slot_ident (ra_slots ra ! j) \<Longrightarrow> i = j"
  unfolding ra_inv_def by blast

lemma collected_Some:
  assumes "ra_inv ra"
  shows "collected ra i = Some x \<longleftrightarrow> (\<exists>k<8. sl_used (ra_slots ra ! k) \<and> slot_ident (ra_slots ra ! k) = i \<and> rx_status (ra_slots ra ! k) = x)"
proof (cases "first_below SCTP_REASSEMBLY_SLOTS (\<lambda>s. sl_used s \<and> slot_ident s = i) (ra_slots ra)")
  case None
  then have "collected ra i = None" by (simp add: collected_def)
  with None show ?thesis by (auto simp: first_below_None SCTP_REASSEMBLY_SLOTS_def)
next
  case (Some k)
  from first_below_Some [OF this] have k: "k < 8" "sl_used (ra_slots ra ! k)" "slot_ident (ra_slots ra ! k) = i"
    by (simp_all add: SCTP_REASSEMBLY_SLOTS_def)
  have u: "j = k" if "j < 8" "sl_used (ra_slots ra ! j)" "slot_ident (ra_slots ra ! j) = i" for j
    by (rule ident_unique [OF assms that(1) k(1) that(2) k(2)]) (simp only: that(3) k(3))
  have c: "collected ra i = Some (rx_status (ra_slots ra ! k))" by (simp add: collected_def Some)
  show ?thesis unfolding c option.inject using k u by metis
qed

lemma collected_set:
  assumes "ra_inv ra" "ra_inv (set_slot k s ra)" "k < 8"
  shows "collected (set_slot k s ra) j =
    (if sl_used s \<and> slot_ident s = j then Some (rx_status s)
     else if sl_used (ra_slots ra ! k) \<and> slot_ident (ra_slots ra ! k) = j then None else collected ra j)"
proof -
  have l: "length (ra_slots ra) = 8" using assms(1) by (simp add: ra_inv_def SCTP_REASSEMBLY_SLOTS_def)
  have n: "ra_slots (set_slot k s ra) ! i = (if i = k then s else ra_slots ra ! i)" if "i < 8" for i
    using that l by (simp add: set_slot_def nth_list_update)
  have u: "i = k" if "i < 8" "sl_used (ra_slots ra ! i)" "sl_used (ra_slots ra ! k)" "slot_ident (ra_slots ra ! i) = slot_ident (ra_slots ra ! k)" for i
    using ident_unique [OF assms(1) that(1) assms(3)] that by simp
  note old = collected_Some [OF assms(1), of j] and new = collected_Some [OF assms(2), of j]
  show ?thesis
  proof (cases "sl_used s \<and> slot_ident s = j")
    case True
    then show ?thesis using new [of "rx_status s"] n [OF assms(3)] assms(3) by auto
  next
    case s: False
    have eq: "collected (set_slot k s ra) j = Some x \<longleftrightarrow>
        (\<exists>i<8. i \<noteq> k \<and> sl_used (ra_slots ra ! i) \<and> slot_ident (ra_slots ra ! i) = j \<and> rx_status (ra_slots ra ! i) = x)" for x
      unfolding new using n s by metis
    show ?thesis
    proof (cases "sl_used (ra_slots ra ! k) \<and> slot_ident (ra_slots ra ! k) = j")
      case True
      then have "collected (set_slot k s ra) j \<noteq> Some x" for x using eq [of x] u by metis
      with True s show ?thesis by auto
    next
      case False
      then have "collected (set_slot k s ra) j = Some x \<longleftrightarrow> collected ra j = Some x" for x unfolding eq old by metis
      then have "collected (set_slot k s ra) j = collected ra j" by (metis option.exhaust)
      with False s show ?thesis by auto
    qed
  qed
qed

text \<open>The number of messages in the table is the number of slots in use.\<close>

lemma collected_dom: "ra_inv ra \<Longrightarrow> dom (collected ra) = (\<lambda>k. slot_ident (ra_slots ra ! k)) ` {k. k < 8 \<and> sl_used (ra_slots ra ! k)}"
  using collected_Some by (auto simp: dom_def image_iff) metis

lemma collected_card:
  assumes "ra_inv ra"
  shows "8 \<le> card (dom (collected ra)) \<longleftrightarrow> first_below SCTP_REASSEMBLY_SLOTS (\<lambda>s. \<not> sl_used s) (ra_slots ra) = None"
proof -
  let ?U = "{k. k < 8 \<and> sl_used (ra_slots ra ! k)}"
  have "inj_on (\<lambda>k. slot_ident (ra_slots ra ! k)) ?U" using ident_unique [OF assms] by (auto intro!: inj_onI)
  then have c: "card (dom (collected ra)) = card ?U" by (simp add: collected_dom [OF assms] card_image)
  have "8 \<le> card ?U \<longleftrightarrow> ?U = {..<8}"
  proof
    assume "8 \<le> card ?U"
    then show "?U = {..<8}" by (intro card_seteq) auto
  next
    assume "?U = {..<8}"
    then show "8 \<le> card ?U" by (simp only: card_lessThan)
  qed
  moreover have "?U = {..<8} \<longleftrightarrow> (\<forall>k<8. sl_used (ra_slots ra ! k))" by blast
  ultimately show ?thesis unfolding c first_below_None SCTP_REASSEMBLY_SLOTS_def by simp
qed

lemma collected_lookup:
  assumes "ra_inv ra"
  shows "collected ra (rcv_ident rcv) = (case first_below SCTP_REASSEMBLY_SLOTS (slot_for rcv) (ra_slots ra) of
    None \<Rightarrow> None | Some k \<Rightarrow> Some (rx_status (ra_slots ra ! k)))"
proof -
  have "slot_for rcv = (\<lambda>s. sl_used s \<and> slot_ident s = rcv_ident rcv)" by (intro ext) (rule slot_for_ident)
  then show ?thesis by (simp add: collected_def)
qed

lemma collected_blocked [simp]: "collected (ra\<lparr>ra_blocked := b\<rparr>) = collected ra"
  by (intro ext) (simp add: collected_def split: option.split)

lemma collected_empty: "\<forall>k<8. \<not> sl_used (ra_slots ra ! k) \<Longrightarrow> collected ra = (\<lambda>_. None)"
proof (rule ext)
  fix i
  assume "\<forall>k<8. \<not> sl_used (ra_slots ra ! k)"
  then have "first_below SCTP_REASSEMBLY_SLOTS (\<lambda>s. sl_used s \<and> slot_ident s = i) (ra_slots ra) = None"
    by (simp add: first_below_None SCTP_REASSEMBLY_SLOTS_def)
  then show "collected ra i = None" by (simp add: collected_def)
qed

lemma clear_all_collected: "ra_inv ra \<Longrightarrow> collected (sctp_reassembly_clear_all ra) = (\<lambda>_. None)"
  by (rule collected_empty) (simp add: sctp_reassembly_clear_all_def ra_inv_def SCTP_REASSEMBLY_SLOTS_def)

text \<open>The abstraction, and the three changes of one slot on it.\<close>

definition ra_abs :: "reassembly \<Rightarrow> bool \<times> (ident \<rightharpoonup> partial_msg)" where
  "ra_abs ra = (ra_blocked ra, collected ra)"

lemma set_used_abs:
  assumes "ra_inv ra" "i < 8" "sl_used (ra_slots ra ! i)" "slot_ident (ra_slots ra ! i) = d" "rx_ok s" "slot_ident s = d" "sl_used s"
  shows "ra_inv (set_slot i s ra) \<and> ra_abs (set_slot i s ra) = (ra_blocked ra, (collected ra)(d \<mapsto> rx_status s))"
proof -
  have inv: "ra_inv (set_slot i s ra)" using assms by (intro same_ident_inv) auto
  with assms show ?thesis by (auto simp: ra_abs_def collected_set set_slot_def [of i s ra, THEN arg_cong [where f = ra_blocked]])
qed

lemma clear_used_abs:
  assumes "ra_inv ra" "i < 8" "sl_used (ra_slots ra ! i)" "slot_ident (ra_slots ra ! i) = d"
  shows "ra_inv (set_slot i zero_rx ra) \<and> ra_abs (set_slot i zero_rx ra) = (ra_blocked ra, (collected ra)(d := None))"
proof -
  have inv: "ra_inv (set_slot i zero_rx ra)" using assms by (intro set_slot_inv) auto
  with assms show ?thesis by (auto simp: ra_abs_def collected_set set_slot_def [of i zero_rx ra, THEN arg_cong [where f = ra_blocked]])
qed

lemma set_free_abs:
  assumes "ra_inv ra" "i < 8" "ra_slots ra ! i = zero_rx" "rx_ok s" "sl_used s"
    and "\<And>j. j < 8 \<Longrightarrow> sl_used (ra_slots ra ! j) \<Longrightarrow> slot_ident (ra_slots ra ! j) \<noteq> slot_ident s"
  shows "ra_inv (set_slot i s ra) \<and> ra_abs (set_slot i s ra) = (ra_blocked ra, (collected ra)(slot_ident s \<mapsto> rx_status s))"
proof -
  have inv: "ra_inv (set_slot i s ra)" using assms by (intro fresh_ident_inv) auto
  with assms show ?thesis by (auto simp: ra_abs_def collected_set set_slot_def [of i s ra, THEN arg_cong [where f = ra_blocked]])
qed

lemma clear_is_set: "sctp_reassembly_clear_slot i ra = set_slot i zero_rx ra"
  by (simp add: sctp_reassembly_clear_slot_def set_slot_def)

lemma discard_abs:
  assumes "ra_inv ra" "i < 8" "sl_used (ra_slots ra ! i)" "slot_ident (ra_slots ra ! i) = d"
    and "ra' = (if eor then sctp_reassembly_clear_slot i ra else set_slot i (discard_slot (ra_slots ra ! i)) ra)"
  shows "ra_inv ra' \<and> ra_abs ra' = (ra_blocked ra, (collected ra)(d := drop_in (sl_ppid (ra_slots ra ! i)) eor))"
  using clear_used_abs [OF assms(1-4)] set_used_abs [OF assms(1-4), of "discard_slot (ra_slots ra ! i)"] assms
  by (auto simp: clear_is_set drop_in_def rx_status_def rx_ok_def)

lemma append_abs:
  assumes "ra_inv ra" "i < 8" "sl_used (ra_slots ra ! i)" "slot_ident (ra_slots ra ! i) = d" "\<not> sl_discarding (ra_slots ra ! i)"
    and "append_fragment i eor data (length data) ra = (r, ra')" "p = sl_ppid (ra_slots ra ! i)" "bs = the (sl_data (ra_slots ra ! i))"
  shows "ra_inv ra' \<and> (message_of data r, ra_abs ra') =
    (if length bs + length data > SCTP_REASSEMBLY_MESSAGE_MAX then (None, ra_blocked ra, (collected ra)(d := drop_in p eor))
     else if eor then (Some (bs @ data), ra_blocked ra, (collected ra)(d := None))
     else (None, ra_blocked ra, (collected ra)(d \<mapsto> Collect p (bs @ data))))"
proof -
  let ?s = "ra_slots ra ! i"
  have ok: "rx_ok ?s" using assms(1,2) by (simp add: ra_inv_def list_all_length SCTP_REASSEMBLY_SLOTS_def)
  then have l: "length bs = sl_length ?s" "sl_length ?s \<le> SCTP_REASSEMBLY_MESSAGE_MAX" "sl_data ?s = Some bs"
    using assms(3,5,8) by (auto simp: rx_ok_def)
  then have g: "length data > SCTP_REASSEMBLY_MESSAGE_MAX - sl_length ?s \<longleftrightarrow> length bs + length data > SCTP_REASSEMBLY_MESSAGE_MAX" by linarith
  let ?t = "?s\<lparr>sl_data := Some (bs @ data), sl_length := sl_length ?s + length data\<rparr>"
  show ?thesis
  proof (cases "length bs + length data > SCTP_REASSEMBLY_MESSAGE_MAX")
    case True
    then have "r = REJECTED ''SCTP message exceeds the 24 KiB receive limit''"
      "ra' = (if eor then sctp_reassembly_clear_slot i ra else set_slot i (discard_slot ?s) ra)"
      using assms(6) g by (auto simp: append_fragment_def Let_def)
    with discard_abs [OF assms(1-4), of ra' eor] True assms(7) show ?thesis by (simp add: message_of_def)
  next
    case False
    then have a: "(if \<not> eor then (PENDING, set_slot i ?t ra) else (READY (Some (bs @ data)) (sl_length ?s + length data), set_slot i zero_rx ra)) = (r, ra')"
      using assms(6) g l by (cases eor) (simp_all add: append_fragment_def Let_def)
    have "rx_ok ?t" using ok assms(3,5) l False by (auto simp: rx_ok_def)
    from set_used_abs [OF assms(1-4) this] clear_used_abs [OF assms(1-4)] a False assms(3-5,7) l show ?thesis
      by (auto simp: message_of_def rx_status_def)
  qed
qed

text \<open>The two cases that change one slot: a message that begins and one that goes on.\<close>

lemma free_case:
  assumes "ra_inv ra" "sctp_reassemble_message ok ra rcv eor data len = (r, ra')" "\<not> ra_blocked ra"
    and "first_below SCTP_REASSEMBLY_SLOTS (slot_for rcv) (ra_slots ra) = None"
    and "first_below SCTP_REASSEMBLY_SLOTS (\<lambda>s. \<not> sl_used s) (ra_slots ra) = Some j" "\<not> eor"
    and "\<And>d. data = Some d \<Longrightarrow> len = length d"
  shows "ra_inv ra' \<and> message_of (the data) r = None \<and> ra_abs ra' = (False, (collected ra)(rcv_ident rcv \<mapsto>
    if data = None \<or> len = 0 \<or> len > SCTP_REASSEMBLY_MESSAGE_MAX \<or> \<not> ok then Drop (rcv_ppid rcv) else Collect (rcv_ppid rcv) (the data)))"
proof -
  from free_lookup [OF assms(5,1)] have z: "j < 8" "ra_slots ra ! j = zero_rx" by auto
  note claim = set_free_abs [OF assms(1) z] and absent = slot_absent [OF assms(4)]
  let ?s = "claim_slot rcv zero_rx"
  show ?thesis
  proof (cases "data = None \<or> len = 0 \<or> len > SCTP_REASSEMBLY_MESSAGE_MAX \<or> \<not> ok")
    case True
    then have "\<exists>m. r = REJECTED m" "ra' = set_slot j (?s\<lparr>sl_discarding := True\<rparr>) ra
        \<or> ra' = set_slot j (?s\<lparr>sl_data := None, sl_length := 0, sl_discarding := True\<rparr>) ra"
      using assms(2-6) z by (auto simp: sctp_reassemble_message_def Let_def split: if_splits)
    with claim [of "?s\<lparr>sl_discarding := True\<rparr>"] claim [of "?s\<lparr>sl_data := None, sl_length := 0, sl_discarding := True\<rparr>"] absent assms(3) True
    show ?thesis by (auto simp: rx_ok_def rx_status_def message_of_def)
  next
    case False
    then obtain d where d: "data = Some d" "len = length d" "length d \<le> SCTP_REASSEMBLY_MESSAGE_MAX" using assms(7) by auto
    let ?t = "?s\<lparr>sl_data := Some [], sl_length := 0\<rparr>"
    have a: "append_fragment j eor d (length d) (set_slot j ?t ra) = (r, ra')"
      using assms(2-6) z d False by (simp add: sctp_reassemble_message_def Let_def)
    have c: "ra_inv (set_slot j ?t ra) \<and> ra_abs (set_slot j ?t ra) = (False, (collected ra)(rcv_ident rcv \<mapsto> Collect (rcv_ppid rcv) []))"
      using claim [of ?t] absent assms(3) by (auto simp: rx_ok_def rx_status_def)
    have t: "ra_slots (set_slot j ?t ra) ! j = ?t" using z assms(1) by (simp add: set_slot_def ra_inv_def SCTP_REASSEMBLY_SLOTS_def)
    have "ra_blocked (set_slot j ?t ra) = False" "collected (set_slot j ?t ra) = (collected ra)(rcv_ident rcv \<mapsto> Collect (rcv_ppid rcv) [])"
      using c by (simp_all add: ra_abs_def)
    with append_abs [OF _ z(1) _ _ _ a, of "rcv_ident rcv" "rcv_ppid rcv" "[]"] c d assms(6) False show ?thesis by (simp add: t)
  qed
qed

lemma found_case:
  assumes "ra_inv ra" "sctp_reassemble_message ok ra rcv eor data len = (r, ra')" "\<And>d. data = Some d \<Longrightarrow> len = length d" "\<not> ra_blocked ra"
    and "first_below SCTP_REASSEMBLY_SLOTS (slot_for rcv) (ra_slots ra) = Some k"
  shows "ra_inv ra' \<and> (message_of (the data) r, ra_abs ra') =
    (let i = rcv_ident rcv; p = sl_ppid (ra_slots ra ! k); bs = the (sl_data (ra_slots ra ! k))
     in if data = None \<or> len = 0 \<or> len > SCTP_REASSEMBLY_MESSAGE_MAX then (None, False, (collected ra)(i := drop_in p eor))
        else if p \<noteq> rcv_ppid rcv then (None, \<not> eor, (collected ra)(i := None))
        else if sl_discarding (ra_slots ra ! k) \<or> length bs + length (the data) > SCTP_REASSEMBLY_MESSAGE_MAX
        then (None, False, (collected ra)(i := drop_in p eor))
        else if eor then (Some (bs @ the data), False, (collected ra)(i := None))
        else (None, False, (collected ra)(i \<mapsto> Collect p (bs @ the data))))"
proof -
  from slot_lookup [OF assms(5)] have k: "k < 8" "sl_used (ra_slots ra ! k)" "slot_ident (ra_slots ra ! k) = rcv_ident rcv" by auto
  note clear = clear_used_abs [OF assms(1) k] and disc = discard_abs [OF assms(1) k]
  consider "data = None \<or> len = 0 \<or> len > SCTP_REASSEMBLY_MESSAGE_MAX"
    | d where "data = Some d" "len = length d" "d \<noteq> []" "length d \<le> SCTP_REASSEMBLY_MESSAGE_MAX" "sl_ppid (ra_slots ra ! k) \<noteq> rcv_ppid rcv"
    | d where "data = Some d" "len = length d" "d \<noteq> []" "length d \<le> SCTP_REASSEMBLY_MESSAGE_MAX" "sl_ppid (ra_slots ra ! k) = rcv_ppid rcv"
        "sl_discarding (ra_slots ra ! k)"
    | d where "data = Some d" "len = length d" "d \<noteq> []" "length d \<le> SCTP_REASSEMBLY_MESSAGE_MAX" "sl_ppid (ra_slots ra ! k) = rcv_ppid rcv"
        "\<not> sl_discarding (ra_slots ra ! k)"
    using assms(3) by (cases data) (simp, metis length_0_conv linorder_not_less)
  then show ?thesis
  proof cases
    case 1
    then have "\<exists>m. r = REJECTED m" "ra' = (if eor then sctp_reassembly_clear_slot k ra else set_slot k (discard_slot (ra_slots ra ! k)) ra)"
      using assms(2,4,5) by (auto simp: sctp_reassemble_message_def Let_def)
    with disc [of ra' eor] 1 assms(4) show ?thesis by (auto simp: message_of_def Let_def)
  next
    case (2 d)
    then have "\<exists>m. r = REJECTED m" "ra' = (if eor then set_slot k zero_rx ra else (set_slot k zero_rx ra)\<lparr>ra_blocked := True\<rparr>)"
      using assms(2,4,5) by (auto simp: sctp_reassemble_message_def Let_def clear_is_set)
    then show ?thesis using clear 2 assms(4) by (auto simp: message_of_def Let_def ra_abs_def)
  next
    case (3 d)
    then have r: "\<exists>m. r = REJECTED m" "ra' = (if eor then set_slot k zero_rx ra else ra)"
      using assms(2,4,5) by (auto simp: sctp_reassemble_message_def Let_def clear_is_set)
    have "collected ra (rcv_ident rcv) = Some (Drop (sl_ppid (ra_slots ra ! k)))"
      using collected_lookup [OF assms(1), of rcv] assms(5) 3 by (simp add: rx_status_def)
    then have "(collected ra)(rcv_ident rcv \<mapsto> Drop (sl_ppid (ra_slots ra ! k))) = collected ra" by (intro ext) simp
    with r clear 3 assms(1,4) show ?thesis by (auto simp: message_of_def Let_def ra_abs_def drop_in_def)
  next
    case (4 d)
    then have "append_fragment k eor d (length d) ra = (r, ra')" using assms(2,4,5) by (simp add: sctp_reassemble_message_def Let_def not_less)
    from append_abs [OF assms(1) k 4(6) this refl refl] 4 assms(4) show ?thesis by (simp add: Let_def not_less)
  qed
qed

lemma reassemble_refines:
  assumes "ra_inv ra" "sctp_reassemble_message ok ra rcv eor data len = (r, ra')" "\<And>d. data = Some d \<Longrightarrow> len = length d"
  shows "ra_inv ra' \<and> (message_of (the data) r, ra_abs ra') = reassembly_spec ok (ra_abs ra) (rcv_ident rcv) (rcv_ppid rcv) eor data"
proof -
  let ?slot = "first_below SCTP_REASSEMBLY_SLOTS (slot_for rcv) (ra_slots ra)"
  let ?free = "first_below SCTP_REASSEMBLY_SLOTS (\<lambda>s. \<not> sl_used s) (ra_slots ra)"
  let ?i = "rcv_ident rcv" and ?bad = "data = None \<or> len = 0 \<or> len > SCTP_REASSEMBLY_MESSAGE_MAX"
  have bad: "?bad \<longleftrightarrow> (case data of None \<Rightarrow> True | Some d \<Rightarrow> d = [] \<or> length d > SCTP_REASSEMBLY_MESSAGE_MAX)"
    using assms(3) by (auto split: option.split)
  note full = collected_card [OF assms(1)] and look = collected_lookup [OF assms(1), of rcv]
  have over: "ra_inv ((sctp_reassembly_clear_all ra)\<lparr>ra_blocked := True\<rparr>)" "ra_abs ((sctp_reassembly_clear_all ra)\<lparr>ra_blocked := True\<rparr>) = spec_overflow"
    using clear_all_inv [OF assms(1)] clear_all_collected [OF assms(1)] by (simp_all add: ra_abs_def spec_overflow_def)
  show ?thesis
  proof (cases "ra_blocked ra")
    case True
    with assms(1,2) show ?thesis by (auto simp: sctp_reassemble_message_def reassembly_spec_def ra_abs_def message_of_def Let_def)
  next
    case nb: False
    show ?thesis
    proof (cases ?slot)
      case None
      note absent = slot_absent [OF None]
      show ?thesis
      proof (cases "eor \<or> ?free = None")
        case True
        then show ?thesis using assms None nb over full look bad
          by (auto simp: sctp_reassemble_message_def reassembly_spec_def ra_abs_def message_of_def Let_def)
      next
        case False
        then obtain j where j: "?free = Some j" "\<not> eor" by auto
        from None absent j nb full look show ?thesis
          using free_case [OF assms(1,2) nb None j assms(3)] by (simp add: reassembly_spec_def ra_abs_def Let_def bad [symmetric])
      qed
    next
      case (Some k)
      show ?thesis using found_case [OF assms nb Some] look Some nb
        by (cases "sl_discarding (ra_slots ra ! k)")
          (simp_all add: reassembly_spec_def ra_abs_def Let_def bad [symmetric] rx_status_def)
    qed
  qed
qed

section \<open>Runs\<close>

text \<open>A component whose steps are simulated by an abstract one: every run produces the abstract outputs.\<close>

primrec outputs :: "('op \<Rightarrow> 's \<Rightarrow> 'o \<times> 's) \<Rightarrow> 'op list \<Rightarrow> 's \<Rightarrow> 'o list \<times> 's" where
  "outputs step [] s = ([], s)"
| "outputs step (op # ops) s = (case step op s of (x, s') \<Rightarrow> (case outputs step ops s' of (xs, t) \<Rightarrow> (x # xs, t)))"

locale simulation =
  fixes inv :: "'s \<Rightarrow> bool" and abs :: "'s \<Rightarrow> 'a" and step :: "'op \<Rightarrow> 's \<Rightarrow> 'o \<times> 's" and spec :: "'op \<Rightarrow> 'a \<Rightarrow> 'o \<times> 'a"
  assumes step_inv: "inv s \<Longrightarrow> inv (snd (step op s))"
    and step_sim: "inv s \<Longrightarrow> spec op (abs s) = (fst (step op s), abs (snd (step op s)))"
begin

lemma run_sim: "inv s \<Longrightarrow> outputs step ops s = (xs, t) \<Longrightarrow> inv t \<and> outputs spec ops (abs s) = (xs, abs t)"
proof (induction ops arbitrary: s xs)
  case (Cons op ops)
  obtain x s1 where st: "step op s = (x, s1)" by fastforce
  obtain ys u where r: "outputs step ops s1 = (ys, u)" by fastforce
  have "xs = x # ys" "t = u" using Cons.prems(2) st r by simp_all
  with Cons.IH [of s1 ys] step_inv [OF Cons.prems(1), of op] step_sim [OF Cons.prems(1), of op] st r show ?case by simp
qed simp

end

text \<open>The events that reach the table: a fragment (with its own length), an association restart or loss, an aborted partial delivery
  and the reset of a stream.\<close>

datatype ra_op =
    Fragment bool rcvinfo bool "bytes option" nat
  | Association_Reset
  | Delivery_Aborted u32 u16 u16
  | Stream_Reset u32 u16

fun ra_step :: "ra_op \<Rightarrow> reassembly \<Rightarrow> bytes option \<times> reassembly" where
  "ra_step (Fragment ok rcv eor data n) ra =
     (case sctp_reassemble_message ok ra rcv eor data (case data of None \<Rightarrow> n | Some d \<Rightarrow> length d) of
        (r, ra') \<Rightarrow> (message_of (the data) r, ra'))"
| "ra_step Association_Reset ra = (None, sctp_reassembly_clear_all ra)"
| "ra_step (Delivery_Aborted a sid ssn) ra = (None, sctp_reassembly_clear_identity a sid ssn ra)"
| "ra_step (Stream_Reset a sid) ra = (None, sctp_reassembly_clear_stream a sid ra)"

fun spec_step :: "ra_op \<Rightarrow> bool \<times> (ident \<rightharpoonup> partial_msg) \<Rightarrow> bytes option \<times> bool \<times> (ident \<rightharpoonup> partial_msg)" where
  "spec_step (Fragment ok rcv eor data n) st = reassembly_spec ok st (rcv_ident rcv) (rcv_ppid rcv) eor data"
| "spec_step Association_Reset st = (None, False, \<lambda>_. None)"
| "spec_step (Delivery_Aborted a sid ssn) st = (None, fst st, \<lambda>i. case i of (a', sid', ssn', u) \<Rightarrow>
     if a' = a \<and> sid' = sid \<and> ssn' = ssn then None else snd st i)"
| "spec_step (Stream_Reset a sid) st = (None, fst st, \<lambda>i. case i of (a', sid', ssn', u) \<Rightarrow> if a' = a \<and> sid' = sid then None else snd st i)"

lemma option_by_Some: "(\<And>x. a = Some x \<longleftrightarrow> b = Some x) \<Longrightarrow> a = b"
  by (cases a; cases b) auto

lemma filter_collected:
  assumes "ra_inv ra" "\<And>s. P s \<longleftrightarrow> sl_used s \<and> Q (slot_ident s)"
  shows "collected (ra\<lparr>ra_slots := map (\<lambda>s. if P s then zero_rx else s) (ra_slots ra)\<rparr>) i = (if Q i then None else collected ra i)"
proof -
  let ?ra = "ra\<lparr>ra_slots := map (\<lambda>s. if P s then zero_rx else s) (ra_slots ra)\<rparr>"
  have n: "ra_slots ?ra ! k = (if P (ra_slots ra ! k) then zero_rx else ra_slots ra ! k)" if "k < 8" for k
    using assms(1) that by (simp add: ra_inv_def SCTP_REASSEMBLY_SLOTS_def)
  note new = collected_Some [OF filter_slots_inv [OF assms(1), of P], of i] and old = collected_Some [OF assms(1), of i]
  have "collected ?ra i = Some x \<longleftrightarrow> \<not> Q i \<and> collected ra i = Some x" for x
  proof -
    have "(sl_used (ra_slots ?ra ! k) \<and> slot_ident (ra_slots ?ra ! k) = i \<and> rx_status (ra_slots ?ra ! k) = x) \<longleftrightarrow>
        (\<not> Q i \<and> sl_used (ra_slots ra ! k) \<and> slot_ident (ra_slots ra ! k) = i \<and> rx_status (ra_slots ra ! k) = x)" if "k < 8" for k
      unfolding n [OF that] using assms(2) [of "ra_slots ra ! k"] by (cases "P (ra_slots ra ! k)") auto
    then have "(\<exists>k<8. sl_used (ra_slots ?ra ! k) \<and> slot_ident (ra_slots ?ra ! k) = i \<and> rx_status (ra_slots ?ra ! k) = x) \<longleftrightarrow>
        (\<exists>k<8. \<not> Q i \<and> sl_used (ra_slots ra ! k) \<and> slot_ident (ra_slots ra ! k) = i \<and> rx_status (ra_slots ra ! k) = x)"
      by (intro ex_cong1) (simp only: cong: conj_cong)
    then show ?thesis unfolding new old by simp blast
  qed
  then show ?thesis by (cases "Q i") (intro option_by_Some, simp)+
qed

interpretation reassembly: simulation ra_inv ra_abs ra_step spec_step
proof unfold_locales
  fix ra op assume inv: "ra_inv ra"
  have "ra_inv (snd (ra_step op ra)) \<and> spec_step op (ra_abs ra) = (fst (ra_step op ra), ra_abs (snd (ra_step op ra)))"
  proof (cases op)
    case (Fragment ok rcv eor data n)
    then show ?thesis using reassemble_refines [OF inv prod.collapse [symmetric], of data "case data of None \<Rightarrow> n | Some d \<Rightarrow> length d" ok rcv eor]
      by (simp add: split_beta)
  next
    case Association_Reset
    then show ?thesis using clear_all_inv [OF inv] clear_all_collected [OF inv] by (simp add: ra_abs_def) (simp add: sctp_reassembly_clear_all_def)
  next
    case (Delivery_Aborted a sid ssn)
    let ?Q = "\<lambda>i. case i of (a', sid', ssn', u) \<Rightarrow> a' = a \<and> sid' = sid \<and> ssn' = ssn"
    show ?thesis using filter_slots_inv [OF inv] filter_collected [OF inv, where Q = ?Q]
      by (auto simp: Delivery_Aborted ra_abs_def sctp_reassembly_clear_identity_def slot_ident_def)
  next
    case (Stream_Reset a sid)
    let ?Q = "\<lambda>i. case i of (a', sid', ssn', u) \<Rightarrow> a' = a \<and> sid' = sid"
    show ?thesis using filter_slots_inv [OF inv] filter_collected [OF inv, where Q = ?Q]
      by (auto simp: Stream_Reset ra_abs_def sctp_reassembly_clear_stream_def slot_ident_def)
  qed
  then show "ra_inv (snd (ra_step op ra))" "spec_step op (ra_abs ra) = (fst (ra_step op ra), ra_abs (snd (ra_step op ra)))" by auto
qed

lemma start_inv: "ra_inv reassembly_start"
  by (simp add: ra_inv_def reassembly_start_def list_all_length SCTP_REASSEMBLY_SLOTS_def)

lemma start_abs: "ra_abs reassembly_start = (False, \<lambda>_. None)"
  using collected_empty [of reassembly_start] by (simp add: ra_abs_def reassembly_start_def SCTP_REASSEMBLY_SLOTS_def)

section \<open>Messages\<close>

lemma spec_output:
  "reassembly_spec ok st i ppid eor data = (Some b, st') \<Longrightarrow> 0 < length b \<and> length b \<le> SCTP_REASSEMBLY_MESSAGE_MAX"
  by (auto simp: reassembly_spec_def Let_def split: if_splits option.splits partial_msg.splits)

fun fragment_of :: "ident \<Rightarrow> ra_op \<Rightarrow> bool" where
  "fragment_of i (Fragment ok rcv eor data n) \<longleftrightarrow> rcv_ident rcv = i"
| "fragment_of i _ = False"

fun is_fragment :: "ra_op \<Rightarrow> bool" where
  "is_fragment (Fragment ok rcv eor data n) = True"
| "is_fragment _ = False"

lemma blocked_stays: "is_fragment op \<Longrightarrow> fst st \<Longrightarrow> snd (spec_step op st) = st"
  by (cases op) (simp_all add: reassembly_spec_def Let_def)

lemma spec_other:
  assumes "is_fragment op" "\<not> fragment_of i op" "\<not> fst (snd (spec_step op st))" "\<not> fst st"
  shows "snd (snd (spec_step op st)) i = snd st i"
  using assms by (cases op) (auto simp: reassembly_spec_def Let_def spec_overflow_def split: option.splits partial_msg.splits if_splits)

lemma spec_own:
  assumes "\<not> fst (snd (spec_step (Fragment True rcv False (Some f) n) st))" "\<not> fst st" "f \<noteq> []"
    and "length bs + length f \<le> SCTP_REASSEMBLY_MESSAGE_MAX"
    and "snd st (rcv_ident rcv) = (if fs = [] then None else Some (Collect (rcv_ppid rcv) bs))" "bs = concat fs"
  shows "snd (snd (spec_step (Fragment True rcv False (Some f) n) st)) (rcv_ident rcv) = Some (Collect (rcv_ppid rcv) (concat (fs @ [f])))"
  using assms by (auto simp: reassembly_spec_def Let_def spec_overflow_def split: if_splits)

lemma outputs_append: "snd (outputs step (xs @ ys) s) = snd (outputs step ys (snd (outputs step xs s)))"
  by (induction xs arbitrary: s) (simp_all add: split_beta)

lemma spec_collects:
  assumes "snd st i = None" "i = rcv_ident rcv" "\<not> fst st"
  shows "list_all is_fragment ops \<Longrightarrow> filter (fragment_of i) ops = map (\<lambda>f. Fragment True rcv False (Some f) 0) fs \<Longrightarrow> [] \<notin> set fs
    \<Longrightarrow> length (concat fs) \<le> SCTP_REASSEMBLY_MESSAGE_MAX \<Longrightarrow> \<not> fst (snd (outputs spec_step ops st))
    \<Longrightarrow> snd (snd (outputs spec_step ops st)) i = (if fs = [] then None else Some (Collect (rcv_ppid rcv) (concat fs)))"
proof (induction ops arbitrary: fs rule: rev_induct)
  case (snoc op ops)
  let ?st = "snd (outputs spec_step ops st)"
  have st: "snd (outputs spec_step (ops @ [op]) st) = snd (spec_step op ?st)" by (simp add: outputs_append split_beta)
  have nb: "\<not> fst ?st" using snoc.prems(1,5) blocked_stays [of op ?st] st by auto
  show ?case
  proof (cases "fragment_of i op")
    case False
    with snoc.IH [of fs] snoc.prems nb spec_other [of op i ?st] st show ?thesis by simp
  next
    case True
    with snoc.prems(2) obtain fs' f where fs: "fs = fs' @ [f]" "filter (fragment_of i) ops = map (\<lambda>f. Fragment True rcv False (Some f) 0) fs'"
        "op = Fragment True rcv False (Some f) 0" by (cases fs rule: rev_cases) auto
    with snoc.IH [of fs'] snoc.prems nb have ih: "snd ?st i = (if fs' = [] then None else Some (Collect (rcv_ppid rcv) (concat fs')))" by auto
    have o: "\<not> fst (snd (spec_step (Fragment True rcv False (Some f) 0) ?st))" using snoc.prems(5) st fs(3) by simp
    have f: "f \<noteq> []" using snoc.prems(3) fs(1) by auto
    have "snd (snd (spec_step op ?st)) i = Some (Collect (rcv_ppid rcv) (concat (fs' @ [f])))"
      using spec_own [OF o nb f _ _ refl, of fs'] ih snoc.prems(4) fs assms(2) by simp
    with fs(1) st show ?thesis by simp
  qed
qed (use assms in simp)

section \<open>Properties\<close>

text \<open>C9. Reassembly refines a map.  Over any sequence of fragments, association losses, aborted deliveries and stream resets - with invalid,
  oversized and inconsistent fragments and allocation failures among them - the eight-slot table hands up exactly the messages
  that the specification does, which keeps one entry per unfinished message and knows no slots.\<close>

theorem sctp_reassembly_refines:
  "outputs spec_step ops (False, \<lambda>_. None) = (fst (outputs ra_step ops reassembly_start), ra_abs (snd (outputs ra_step ops reassembly_start)))"
  using reassembly.run_sim [OF start_inv prod.collapse [symmetric], of ops] start_abs by simp

text \<open>C19. A message arrives whole, as long as the table does not block.  Let only fragments arrive (no reset, no abort), with memory for those of
  this message; let the fragments of the message be non-empty and reach the table in order, in any interleaving with fragments of other messages
  (of other association, stream, sequence number or order), and let the message be no longer than 24 KiB in all.  If the table has not blocked when
  the last fragment comes - it blocks when a ninth message is begun while eight are unfinished, or when a message changes its payload protocol
  before its end - that fragment hands up the concatenation of all of them.\<close>

theorem sctp_message_reassembled:
  assumes "list_all is_fragment ops" "filter (fragment_of (rcv_ident rcv)) ops = map (\<lambda>f. Fragment True rcv False (Some f) 0) fs"
    and "[] \<notin> set (fs @ [l])" "length (concat (fs @ [l])) \<le> SCTP_REASSEMBLY_MESSAGE_MAX"
    and "ra = snd (outputs ra_step ops reassembly_start)" "\<not> ra_blocked ra"
  shows "fst (ra_step (Fragment True rcv True (Some l) 0) ra) = Some (concat (fs @ [l]))"
proof -
  let ?st = "snd (outputs spec_step ops (False, \<lambda>_. None))"
  have run: "ra_inv ra" "?st = ra_abs ra" using reassembly.run_sim [OF start_inv prod.collapse [symmetric], of ops] start_abs assms(5) by simp_all
  have nb: "\<not> fst ?st" using run(2) assms(6) by (simp add: ra_abs_def)
  have "snd ?st (rcv_ident rcv) = (if fs = [] then None else Some (Collect (rcv_ppid rcv) (concat fs)))"
    by (rule spec_collects [OF _ refl _ assms(1,2)]) (use assms(3,4) nb in auto)
  then have "fst (spec_step (Fragment True rcv True (Some l) 0) ?st) = Some (concat (fs @ [l]))"
    using nb assms(3,4) by (auto simp: reassembly_spec_def Let_def)
  then show ?thesis using reassembly.step_sim [OF run(1), of "Fragment True rcv True (Some l) 0"] run(2) by simp
qed

text \<open>Two messages interleaved: \<open>1 2\<close> on stream 1 and \<open>7\<close> on stream 2; the last fragment \<open>3\<close> completes the first.\<close>

definition example_rcv :: "u16 \<Rightarrow> rcvinfo" where
  "example_rcv sid = \<lparr>rcv_sid = sid, rcv_ssn = 5, rcv_ppid = 51, rcv_assoc_id = 9, rcv_unordered = False\<rparr>"

definition example_ops :: "ra_op list" where
  "example_ops = [Fragment True (example_rcv 1) False (Some [1, 2]) 0, Fragment True (example_rcv 2) False (Some [7]) 0,
     Fragment True (example_rcv 1) False (Some [4]) 0]"

lemma eight_slots: "[0..<8] = [0, 1, 2, 3, 4, 5, 6, 7]" "replicate 8 x = [x, x, x, x, x, x, x, x]"
  by (simp_all add: upt_rec numeral_eq_Suc)

lemma example_slots:
  "snd (outputs ra_step example_ops reassembly_start) = \<lparr>ra_blocked = False, ra_slots =
     [(claim_slot (example_rcv 1) zero_rx)\<lparr>sl_data := Some [1, 2, 4], sl_length := 3\<rparr>,
      (claim_slot (example_rcv 2) zero_rx)\<lparr>sl_data := Some [7], sl_length := 1\<rparr>, zero_rx, zero_rx, zero_rx, zero_rx, zero_rx, zero_rx]\<rparr>"
  by (simp add: example_ops_def example_rcv_def reassembly_start_def SCTP_REASSEMBLY_SLOTS_def SCTP_REASSEMBLY_MESSAGE_MAX_def
      sctp_reassemble_message_def append_fragment_def set_slot_def claim_slot_def slot_for_def first_below_def zero_rx_def message_of_def
      eight_slots Let_def)

theorem sctp_message_reassembled_witness:
  "fst (ra_step (Fragment True (example_rcv 1) True (Some [3]) 0) (snd (outputs ra_step example_ops reassembly_start))) = Some [1, 2, 4, 3]"
  using sctp_message_reassembled [OF _ _ _ _ refl, of example_ops "example_rcv 1" "[[1, 2], [4]]" "[3]"]
  unfolding example_slots by (simp add: example_ops_def rcv_ident_def example_rcv_def SCTP_REASSEMBLY_MESSAGE_MAX_def)

text \<open>Bounded reassembly.  Whatever arrives, every message handed up has between 1 and 24576 bytes, no two slots collect the
  same message, and the slots together hold at most 196608 bytes.\<close>

theorem sctp_reassembly_bounded:
  assumes "outputs ra_step ops reassembly_start = (xs, ra)"
  shows "(\<forall>b. Some b \<in> set xs \<longrightarrow> 1 \<le> length b \<and> length b \<le> 24576) \<and> ra_inv ra
    \<and> sum_list (map (\<lambda>s. case sl_data s of None \<Rightarrow> 0 | Some d \<Rightarrow> length d) (ra_slots ra)) \<le> 196608"
proof -
  have inv: "ra_inv ra" using reassembly.run_sim [OF start_inv assms] by simp
  have step: "1 \<le> length b \<and> length b \<le> 24576" if "ra_inv s" "fst (ra_step op s) = Some b" for op s b
  proof (cases op)
    case (Fragment ok rcv eor data n)
    from reassembly.step_sim [OF that(1), of op] that(2) Fragment
    have "reassembly_spec ok (ra_abs s) (rcv_ident rcv) (rcv_ppid rcv) eor data = (Some b, ra_abs (snd (ra_step op s)))" by simp
    from spec_output [OF this] show ?thesis by (auto simp: SCTP_REASSEMBLY_MESSAGE_MAX_def Suc_le_eq)
  qed (use that in simp_all)
  have "ra_inv s \<Longrightarrow> outputs ra_step ops s = (ys, t) \<Longrightarrow> Some b \<in> set ys \<Longrightarrow> 1 \<le> length b \<and> length b \<le> 24576" for s ys t b
  proof (induction ops arbitrary: s ys)
    case (Cons op ops)
    obtain x s1 where st: "ra_step op s = (x, s1)" by fastforce
    obtain zs u where r: "outputs ra_step ops s1 = (zs, u)" by fastforce
    have "ys = x # zs" "t = u" using Cons.prems(2) st r by simp_all
    moreover have "ra_inv s1" using reassembly.step_inv [OF Cons.prems(1), of op] st by simp
    ultimately show ?case using Cons.IH [of s1 zs] step [OF Cons.prems(1), of op b] Cons.prems(3) st r by auto
  qed simp
  from this [OF start_inv assms] have "\<forall>b. Some b \<in> set xs \<longrightarrow> 1 \<le> length b \<and> length b \<le> 24576" by blast
  moreover have "sum_list (map (\<lambda>s. case sl_data s of None \<Rightarrow> 0 | Some d \<Rightarrow> length d) (ra_slots ra)) \<le> 196608"
  proof -
    have "(case sl_data s of None \<Rightarrow> 0 | Some d \<Rightarrow> length d) \<le> 24576" if "s \<in> set (ra_slots ra)" for s
      using inv that by (auto simp: ra_inv_def list_all_iff rx_ok_def SCTP_REASSEMBLY_MESSAGE_MAX_def zero_rx_def split: option.split if_splits)
    then have "sum_list (map (\<lambda>s. case sl_data s of None \<Rightarrow> 0 | Some d \<Rightarrow> length d) (ra_slots ra)) \<le> sum_list (map (\<lambda>_. 24576) (ra_slots ra))"
      by (intro sum_list_mono) auto
    then show ?thesis using inv by (simp add: ra_inv_def sum_list_triv SCTP_REASSEMBLY_SLOTS_def)
  qed
  ultimately show ?thesis using inv by blast
qed

theorem sctp_reassembly_bounded_witness: "ra_inv (snd (outputs ra_step example_ops reassembly_start))"
  using sctp_reassembly_bounded [OF prod.collapse [symmetric], of example_ops] by simp

end
