(* ===== verification/Dc_Peer.thy ===== *)
theory Dc_Peer
  imports Dcep_Text Sctp_Reassembly "HOL-Library.Monad_Syntax"
begin

text \<open>
  The channels of a data channel peer: \<open>webrtc/src/turbo_datachannel.c\<close> and \<open>turbo_datachannel_internal.h\<close> (identifiers, admission,
  channel life cycle, peer states, destruction), \<open>dcep_protocol.c\<close> (opening) and \<open>sctp_session.c\<close> (incoming messages and
  notifications).

  A channel is a heap object behind an address; a freed address is absent from the heap and never comes back, and following it
  is undefined (\<open>None\<close>).  A function of the code that releases the peer's mutex or calls the application is cut there
  into segments: a segment runs atomically, and what is left of the call is a list of \<open>act\<close>s.  The calls in progress, on any thread and
  at any depth of reentrance, are the list of their remaining acts (\<open>dc_step\<close>), which may be resumed in any order.

  Results of the libraries (memory, hash map, usrsctp) are the record \<open>env\<close>, one for each segment.  Calls into usrsctp, DTLS and
  the application are outputs.  A C string is the list of its bytes before the terminator.
\<close>

section \<open>State\<close>

definition MAX_LABEL_LEN :: nat where [simp]: "MAX_LABEL_LEN = 256"
definition MAX_PROTOCOL_LEN :: nat where [simp]: "MAX_PROTOCOL_LEN = 256"
definition DCEP_MAX_PACKET_SIZE :: nat where [simp]: "DCEP_MAX_PACKET_SIZE = 512"
definition MAX_CHANNELS :: nat where [simp]: "MAX_CHANNELS = 65536"
definition SCTP_PPID_DCEP :: u32 where [simp]: "SCTP_PPID_DCEP = 50"
definition SCTP_PPID_STRING :: u32 where [simp]: "SCTP_PPID_STRING = 51"
definition SCTP_PPID_BINARY :: u32 where [simp]: "SCTP_PPID_BINARY = 53"
definition SCTP_PPID_STRING_EMPTY :: u32 where [simp]: "SCTP_PPID_STRING_EMPTY = 56"
definition SCTP_PPID_BINARY_EMPTY :: u32 where [simp]: "SCTP_PPID_BINARY_EMPTY = 57"
definition DCEP_DATA_CHANNEL_OPEN :: u8 where [simp]: "DCEP_DATA_CHANNEL_OPEN = 0x03"
definition DCEP_DATA_CHANNEL_ACK :: u8 where [simp]: "DCEP_DATA_CHANNEL_ACK = 0x02"
definition DCEP_CHANNEL_RELIABLE_ORDERED :: u8 where [simp]: "DCEP_CHANNEL_RELIABLE_ORDERED = 0x00"
definition DCEP_CHANNEL_RELIABLE_UNORDERED :: u8 where [simp]: "DCEP_CHANNEL_RELIABLE_UNORDERED = 0x80"
definition DCEP_CHANNEL_REXMIT :: u8 where [simp]: "DCEP_CHANNEL_REXMIT = 0x01"
definition DCEP_CHANNEL_TIMED :: u8 where [simp]: "DCEP_CHANNEL_TIMED = 0x02"
definition DCEP_HEADER_LENGTH :: nat where [simp]: "DCEP_HEADER_LENGTH = 12"

datatype dc_state = DC_NEW | DC_CONNECTING | DC_CONNECTED | DC_DISCONNECTING | DC_CLOSED | DC_FAILED

datatype dc_error =
    ERROR_NONE | ERROR_SCTP_SEND | ERROR_SCTP_RECEIVE | ERROR_ALLOC_CHANNEL | ERROR_PEER_NOT_CONNECTED | ERROR_CHANNEL_NOT_OPEN
  | ERROR_NULL_DATA | ERROR_INVALID_PEER_STATE | ERROR_DCEP_SEND_OPEN | ERROR_DCEP_SEND_ACK

record dc_config =
  cfg_ordered :: bool
  cfg_max_retransmits :: int
  cfg_max_lifetime_ms :: int
  cfg_protocol :: "bytes option"

record channel =
  ch_id :: u16
  ch_label :: "bytes option"
  ch_protocol :: "bytes option"
  ch_ordered :: bool
  ch_max_retransmits :: int
  ch_max_lifetime_ms :: int
  ch_is_open :: bool
  ch_dcep_sent :: bool
  ch_callback_refs :: u32
  ch_closing :: bool
  ch_on_open :: "nat option"
  ch_on_message :: "nat option"
  ch_on_close :: "nat option"

record peer =
  pr_alive :: bool
  pr_is_dtls_server :: bool
  pr_disable_sctp :: bool
  pr_destroying :: bool
  pr_deferred_destroy :: bool
  pr_active_operations :: u32
  pr_transport_callbacks :: u32
  pr_socket :: bool
  pr_connected :: bool
  pr_reassembly :: reassembly
  pr_channels :: "u16 \<rightharpoonup> nat"
  pr_channels_initialized :: bool
  pr_channel_ids :: "u16 set"
  pr_heap :: "nat \<rightharpoonup> channel"
  pr_next :: nat
  pr_last_error :: "dc_error \<times> string option"
  pr_state :: dc_state
  pr_on_state :: "nat option"
  pr_on_channel :: "nat option"
  pr_on_error :: "nat option"
  pr_on_transport_data :: "nat option"

record env =
  e_malloc :: bool
  e_calloc :: bool
  e_dup_label :: bool
  e_dup_protocol :: bool
  e_put :: bool
  e_sent :: int
  e_reset :: int
  e_posted :: bool
  e_order :: "u16 list"

datatype prinfo = PR_SCTP_RTX u32 | PR_SCTP_TTL u32

datatype dc_out =
    Sctp_Send u16 u32 bool "prinfo option" bytes
  | Sctp_Reset u16
  | On_Channel nat nat
  | On_Open nat nat
  | On_Message nat nat bytes bool
  | On_Close nat nat
  | On_State nat dc_state dc_state
  | On_Error nat dc_error
  | On_Transport nat bytes
  | To_Dtls bytes
  | Start_Handshake
  | Created "nat option"
  | Result int

section \<open>Calls\<close>

datatype callback_kind = CALLBACK_OPEN | CALLBACK_MESSAGE | CALLBACK_CLOSE

datatype peer_callback_kind = CALLBACK_STATE | CALLBACK_CHANNEL | CALLBACK_ERROR

datatype assoc_state = SCTP_COMM_UP | SCTP_COMM_LOST | SCTP_RESTART | SCTP_SHUTDOWN_COMP | SCTP_CANT_STR_ASSOC

record pdapi_event =
  pd_header :: nat
  pd_length :: nat
  pd_aborted :: bool
  pd_assoc_id :: u32
  pd_stream :: u32
  pd_seq :: u32

record strreset_event =
  sr_header :: nat
  sr_length :: nat
  sr_denied_or_failed :: bool
  sr_incoming :: bool
  sr_outgoing :: bool
  sr_assoc_id :: u32
  sr_streams :: "u16 list"

datatype notification = Assoc_Change assoc_state | Partial_Delivery nat pdapi_event | Stream_Reset_Notice nat strreset_event

text \<open>The calls of the application (\<open>Create\<close> to \<open>Connect\<close>, \<open>Close_Peer\<close>; the flag of \<open>Set_Transport_Handler\<close> says that the call comes from
  inside the transport callback), what the network brings (\<open>Inbound\<close>, \<open>Notify\<close>, \<open>Packet\<close>), destruction, and \<open>Resume k\<close>: the call number \<open>k\<close> runs
  its next segment.\<close>

datatype dc_op =
    Create env "bytes option" "dc_config option"
  | Open env nat
  | Send env nat "bytes option" bool
  | Set_Callback nat callback_kind "nat option"
  | Close env nat
  | Set_Peer_Callback peer_callback_kind "nat option"
  | Set_Transport_Handler bool "nat option"
  | Set_Role bool
  | Connect
  | Inbound env rcvinfo bool bytes
  | Notify env notification
  | Packet bytes
  | Close_Peer
  | Begin_Destroy bool
  | Finish_Destroy env
  | Resume nat env

text \<open>What is left of a call: the segments still to run.  \<open>Task\<close> is the work of a call that has been admitted and has not run yet.\<close>

datatype act =
    Task dc_op
  | Close_Channel nat bool
  | Dcep_Ack nat
  | Dcep_Commit nat
  | Dcep_Opened nat
  | Dcep_Acked nat
  | Deliver nat bytes bool
  | Release nat
  | Peer_Error dc_error string
  | Fail_State dc_state
  | Reset_Streams u32 "u16 list" bool
  | Peer_Shutdown
  | Transport_Return
  | Await_Transport
  | Lease

type_synonym segment = "(peer \<times> dc_out list \<times> act list) option"

section \<open>Peer operations\<close>

definition dc_set_peer_error :: "dc_error \<Rightarrow> string option \<Rightarrow> peer \<Rightarrow> peer" where
  "dc_set_peer_error code detail p = p\<lparr>pr_last_error := (code, detail)\<rparr>"

definition dc_peer_acquire :: "peer \<Rightarrow> peer option" where
  "dc_peer_acquire p = (if pr_destroying p then None else Some (p\<lparr>pr_active_operations := pr_active_operations p + 1\<rparr>))"

definition dc_peer_release :: "peer \<Rightarrow> peer" where
  "dc_peer_release p = (if pr_active_operations p > 0 then p\<lparr>pr_active_operations := pr_active_operations p - 1\<rparr> else p)"

definition dc_peer_begin_destroy :: "bool \<Rightarrow> peer \<Rightarrow> peer" where
  "dc_peer_begin_destroy on_owner p =
     (if pr_destroying p then p else p\<lparr>pr_destroying := True, pr_deferred_destroy := pr_deferred_destroy p \<or> on_owner\<rparr>)"

definition dc_peer_callbacks_allowed :: "peer \<Rightarrow> bool" where
  "dc_peer_callbacks_allowed p \<longleftrightarrow> \<not> pr_deferred_destroy p"

definition dc_state_transition_allowed :: "dc_state \<Rightarrow> dc_state \<Rightarrow> bool" where
  "dc_state_transition_allowed old_state new_state =
     (if old_state = new_state \<or> old_state = DC_CLOSED then False
      else if old_state = DC_DISCONNECTING then new_state = DC_CLOSED
      else if old_state = DC_FAILED then new_state = DC_DISCONNECTING \<or> new_state = DC_CLOSED
      else True)"

text \<open>A callback that is registered and allowed.\<close>

definition notify :: "peer \<Rightarrow> nat option \<Rightarrow> (nat \<Rightarrow> dc_out) \<Rightarrow> dc_out list" where
  "notify p cb f = (case cb of Some k \<Rightarrow> if dc_peer_callbacks_allowed p then [f k] else [] | None \<Rightarrow> [])"

definition dc_notify_state :: "dc_state \<Rightarrow> peer \<Rightarrow> peer \<times> dc_out list" where
  "dc_notify_state new_state p =
     (if \<not> dc_state_transition_allowed (pr_state p) new_state then (p, [])
      else (p\<lparr>pr_state := new_state\<rparr>, notify p (pr_on_state p) (\<lambda>k. On_State k (pr_state p) new_state)))"

definition dc_notify_closed :: "peer \<Rightarrow> peer \<times> dc_out list" where
  "dc_notify_closed p = (if pr_state p = DC_CLOSED then (p, []) else dc_notify_state DC_CLOSED p)"

definition dc_fail_peer :: "dc_error \<Rightarrow> string option \<Rightarrow> peer \<Rightarrow> peer \<times> dc_out list \<times> act list" where
  "dc_fail_peer code detail p =
     (let p = dc_set_peer_error code detail p; old_state = pr_state p
      in if old_state = DC_FAILED \<or> old_state = DC_DISCONNECTING \<or> old_state = DC_CLOSED then (p, [], [])
         else (p\<lparr>pr_state := DC_FAILED\<rparr>, notify p (pr_on_error p) (\<lambda>k. On_Error k code), [Fail_State old_state]))"

definition fail_state :: "dc_state \<Rightarrow> peer \<Rightarrow> dc_out list" where
  "fail_state old_state p = (if pr_state p = DC_FAILED then notify p (pr_on_state p) (\<lambda>k. On_State k old_state DC_FAILED) else [])"

definition sctp_session_cleanup :: "peer \<Rightarrow> peer" where
  "sctp_session_cleanup p = p\<lparr>pr_reassembly := sctp_reassembly_clear_all (pr_reassembly p), pr_connected := False\<rparr>"

text \<open>\<open>dc_peer_close_impl\<close> up to the notification that the peer is disconnecting, and from there on.\<close>

definition dc_peer_close_impl :: "peer \<Rightarrow> peer \<times> dc_out list \<times> act list" where
  "dc_peer_close_impl p =
     (let p = sctp_session_cleanup p
      in if pr_state p = DC_CLOSED then (p, [], [])
         else case dc_notify_state DC_DISCONNECTING p of (p, outs) \<Rightarrow> (p, outs, [Peer_Shutdown]))"

definition peer_shutdown :: "peer \<Rightarrow> peer \<times> dc_out list" where
  "peer_shutdown p = dc_notify_closed (p\<lparr>pr_socket := False\<rparr>)"

section \<open>Channel identifiers and admission\<close>

function alloc_from :: "u16 set \<Rightarrow> nat \<Rightarrow> u16 option" where
  "alloc_from ids i = (if i \<ge> MAX_CHANNELS then None else if of_nat i \<notin> ids then Some (of_nat i) else alloc_from ids (i + 2))"
  by pat_completeness auto

termination by (relation "measure (\<lambda>(ids, i). MAX_CHANNELS - i)") auto

declare alloc_from.simps [simp del]

definition peer_alloc_channel_id :: "peer \<Rightarrow> (u16 \<times> peer) option" where
  "peer_alloc_channel_id p = do {
     i \<leftarrow> alloc_from (pr_channel_ids p) (if pr_is_dtls_server p then 1 else 0);
     Some (i, p\<lparr>pr_channel_ids := insert i (pr_channel_ids p)\<rparr>) }"

definition peer_get_channel :: "peer \<Rightarrow> u16 \<Rightarrow> nat option" where
  "peer_get_channel p i = pr_channels p i"

definition peer_set_channel :: "env \<Rightarrow> u16 \<Rightarrow> nat \<Rightarrow> peer \<Rightarrow> peer option" where
  "peer_set_channel env i a p = (if e_put env then Some (p\<lparr>pr_channels := (pr_channels p)(i \<mapsto> a)\<rparr>) else None)"

definition peer_remove_channel :: "u16 \<Rightarrow> peer \<Rightarrow> peer" where
  "peer_remove_channel i p = p\<lparr>pr_channels := (pr_channels p)(i := None)\<rparr>"

definition peer_free_channel_id :: "u16 \<Rightarrow> peer \<Rightarrow> peer" where
  "peer_free_channel_id i p = p\<lparr>pr_channel_ids := pr_channel_ids p - {i}\<rparr>"

definition peer_mark_channel_id :: "u16 \<Rightarrow> peer \<Rightarrow> peer" where
  "peer_mark_channel_id i p = p\<lparr>pr_channel_ids := insert i (pr_channel_ids p)\<rparr>"

text \<open>Memory: a new channel at a fresh address, an update through a pointer, and \<open>free\<close>.\<close>

definition new_channel :: "channel \<Rightarrow> peer \<Rightarrow> nat \<times> peer" where
  "new_channel c p = (pr_next p, p\<lparr>pr_heap := (pr_heap p)(pr_next p \<mapsto> c), pr_next := Suc (pr_next p)\<rparr>)"

definition put_channel :: "nat \<Rightarrow> channel \<Rightarrow> peer \<Rightarrow> peer" where
  "put_channel a c p = p\<lparr>pr_heap := (pr_heap p)(a \<mapsto> c)\<rparr>"

definition free_channel :: "nat \<Rightarrow> peer \<Rightarrow> peer" where
  "free_channel a p = p\<lparr>pr_heap := (pr_heap p)(a := None)\<rparr>"

definition zero_channel :: channel where
  "zero_channel = \<lparr>ch_id = 0, ch_label = None, ch_protocol = None, ch_ordered = False, ch_max_retransmits = 0, ch_max_lifetime_ms = 0,
     ch_is_open = False, ch_dcep_sent = False, ch_callback_refs = 0, ch_closing = False, ch_on_open = None, ch_on_message = None,
     ch_on_close = None\<rparr>"

definition admissible_channel :: "channel \<Rightarrow> bool" where
  "admissible_channel c \<longleftrightarrow> \<not> ch_closing c \<and> ch_callback_refs c < 0xFFFFFFFE"

definition take_ref :: "nat \<Rightarrow> channel \<Rightarrow> peer \<Rightarrow> peer" where
  "take_ref a c p = put_channel a (c\<lparr>ch_callback_refs := ch_callback_refs c + 1\<rparr>) p"

definition dc_channel_admit :: "u16 \<Rightarrow> peer \<Rightarrow> (nat option \<times> peer) option" where
  "dc_channel_admit i p =
     (case (if \<not> pr_destroying p \<and> pr_channels_initialized p then peer_get_channel p i else None) of
        None \<Rightarrow> Some (None, p)
      | Some a \<Rightarrow> do { c \<leftarrow> pr_heap p a; Some (if admissible_channel c then (Some a, take_ref a c p) else (None, p)) })"

definition dc_channel_release :: "nat \<Rightarrow> peer \<Rightarrow> peer option" where
  "dc_channel_release a p = do {
     c \<leftarrow> pr_heap p a;
     let refs = (if ch_callback_refs c > 0 then ch_callback_refs c - 1 else ch_callback_refs c);
     Some (if ch_closing c \<and> refs = 0 then free_channel a (peer_free_channel_id (ch_id c) p)
           else put_channel a (c\<lparr>ch_callback_refs := refs\<rparr>) p) }"

section \<open>Channel operations\<close>

definition reliability_valid :: "int \<Rightarrow> int \<Rightarrow> bool" where
  "reliability_valid retransmits lifetime \<longleftrightarrow> \<not> (retransmits < 0 \<or> lifetime < 0 \<or> retransmits > 0 \<and> lifetime > 0)"

definition turbo_dc_default_channel_config :: dc_config where
  "turbo_dc_default_channel_config = \<lparr>cfg_ordered = True, cfg_max_retransmits = 0, cfg_max_lifetime_ms = 0, cfg_protocol = None\<rparr>"

definition configured_channel :: "u16 \<Rightarrow> bytes \<Rightarrow> dc_config option \<Rightarrow> channel" where
  "configured_channel i label config =
     (let c = (case config of Some c \<Rightarrow> c | None \<Rightarrow> turbo_dc_default_channel_config)
      in zero_channel\<lparr>ch_id := i, ch_label := Some label, ch_protocol := cfg_protocol c, ch_ordered := cfg_ordered c,
           ch_max_retransmits := cfg_max_retransmits c, ch_max_lifetime_ms := cfg_max_lifetime_ms c\<rparr>)"

definition dc_channel_create_owner_impl ::
  "env \<Rightarrow> bytes option \<Rightarrow> dc_config option \<Rightarrow> peer \<Rightarrow> nat option \<times> peer" where
  "dc_channel_create_owner_impl env label config p =
     (let protocol = Option.bind config cfg_protocol; protocol_length = (case protocol of None \<Rightarrow> 0 | Some s \<Rightarrow> length s);
          fail = (\<lambda>code detail. (None, dc_set_peer_error code detail p))
      in case label of
        None \<Rightarrow> (None, p)
      | Some l \<Rightarrow>
          if pr_disable_sctp p then fail ERROR_INVALID_PEER_STATE (Some ''data channels are disabled for this DTLS transport'')
          else if length l > MAX_LABEL_LEN \<or> protocol_length > MAX_PROTOCOL_LEN \<or> \<not> dcep_text_valid (Some l) (length l)
            \<or> \<not> dcep_text_valid protocol protocol_length then
            fail ERROR_INVALID_PEER_STATE (Some ''invalid data channel label or protocol'')
          else if pr_destroying p then fail ERROR_ALLOC_CHANNEL (Some ''no free channel IDs'')
          else case peer_alloc_channel_id p of
            None \<Rightarrow> fail ERROR_ALLOC_CHANNEL (Some ''no free channel IDs'')
          | Some (i, p1) \<Rightarrow>
              let give_up = (\<lambda>code detail. (None, peer_free_channel_id i (dc_set_peer_error code detail p1)))
              in if \<not> e_calloc env then (None, dc_set_peer_error ERROR_ALLOC_CHANNEL None (peer_free_channel_id i p1))
                 else if (case config of None \<Rightarrow> False | Some c \<Rightarrow> \<not> reliability_valid (cfg_max_retransmits c) (cfg_max_lifetime_ms c)) then
                   give_up ERROR_INVALID_PEER_STATE (Some ''invalid partial reliability configuration'')
                 else if \<not> e_dup_label env \<or> protocol \<noteq> None \<and> \<not> e_dup_protocol env then give_up ERROR_ALLOC_CHANNEL None
                 else case new_channel (configured_channel i l config) p1 of
                   (a, p2) \<Rightarrow>
                     (case peer_set_channel env i a p2 of
                        None \<Rightarrow> give_up ERROR_ALLOC_CHANNEL (Some ''channel map is full'')
                      | Some p3 \<Rightarrow> (Some a, p3)))"

text \<open>\<open>dcep_send_open\<close>: the packet, and the call.\<close>

definition name_bytes :: "bytes option \<Rightarrow> bytes" where
  "name_bytes s = (case s of None \<Rightarrow> [] | Some b \<Rightarrow> b)"

definition dcep_channel_type :: "channel \<Rightarrow> u8" where
  "dcep_channel_type c =
     (if ch_ordered c then DCEP_CHANNEL_RELIABLE_ORDERED else DCEP_CHANNEL_RELIABLE_UNORDERED)
     OR (if ch_max_retransmits c > 0 then DCEP_CHANNEL_REXMIT else if ch_max_lifetime_ms c > 0 then DCEP_CHANNEL_TIMED else 0)"

definition dcep_open_packet :: "channel \<Rightarrow> bytes" where
  "dcep_open_packet c =
     [DCEP_DATA_CHANNEL_OPEN, dcep_channel_type c, 0, 0]
     @ be32 (if ch_max_retransmits c > 0 then of_int (ch_max_retransmits c)
             else if ch_max_lifetime_ms c > 0 then of_int (ch_max_lifetime_ms c) else 0)
     @ be16 (of_nat (length (name_bytes (ch_label c)))) @ be16 (of_nat (length (name_bytes (ch_protocol c))))
     @ name_bytes (ch_label c) @ name_bytes (ch_protocol c)"

definition dcep_send_open :: "env \<Rightarrow> nat \<Rightarrow> channel \<Rightarrow> peer \<Rightarrow> int \<times> peer \<times> dc_out list" where
  "dcep_send_open env a c p =
     (let packet = dcep_open_packet c; len = DCEP_HEADER_LENGTH + length (name_bytes (ch_label c)) + length (name_bytes (ch_protocol c))
      in if \<not> pr_socket p \<or> len > DCEP_MAX_PACKET_SIZE \<or> \<not> reliability_valid (ch_max_retransmits c) (ch_max_lifetime_ms c) then (-1, p, [])
         else let outs = [Sctp_Send (ch_id c) SCTP_PPID_DCEP False None packet]
              in if e_sent env \<noteq> int len then (-1, p, outs) else (0, put_channel a (c\<lparr>ch_dcep_sent := True\<rparr>) p, outs))"

definition dcep_send_ack :: "env \<Rightarrow> u16 \<Rightarrow> peer \<Rightarrow> int \<times> dc_out list" where
  "dcep_send_ack env sid p =
     (if \<not> pr_socket p then (-1, [])
      else (if e_sent env > 0 then 0 else -1, [Sctp_Send sid SCTP_PPID_DCEP False None [DCEP_DATA_CHANNEL_ACK]]))"

definition dc_channel_open_owner_impl :: "env \<Rightarrow> nat \<Rightarrow> peer \<Rightarrow> (int \<times> peer \<times> dc_out list) option" where
  "dc_channel_open_owner_impl env a p = do {
     c \<leftarrow> pr_heap p a;
     Some (if ch_is_open c then (0, p, [])
           else if pr_state p \<noteq> DC_CONNECTED then (-1, dc_set_peer_error ERROR_PEER_NOT_CONNECTED None p, [])
           else if ch_dcep_sent c then (0, p, [])
           else case dcep_send_open env a c p of
             (r, p', outs) \<Rightarrow> if r \<noteq> 0 then (-1, dc_set_peer_error ERROR_DCEP_SEND_OPEN None p', outs) else (0, p', outs)) }"

definition wire_message :: "bytes \<Rightarrow> bool \<Rightarrow> u32 \<times> bytes" where
  "wire_message data is_binary =
     (if data = [] then (if is_binary then SCTP_PPID_BINARY_EMPTY else SCTP_PPID_STRING_EMPTY, [0])
      else (if is_binary then SCTP_PPID_BINARY else SCTP_PPID_STRING, data))"

definition message_prinfo :: "channel \<Rightarrow> prinfo option" where
  "message_prinfo c =
     (if ch_max_retransmits c > 0 then Some (PR_SCTP_RTX (of_int (ch_max_retransmits c)))
      else if ch_max_lifetime_ms c > 0 then Some (PR_SCTP_TTL (of_int (ch_max_lifetime_ms c))) else None)"

definition dc_channel_send_owner_impl :: "env \<Rightarrow> nat \<Rightarrow> bytes option \<Rightarrow> bool \<Rightarrow> peer \<Rightarrow> (int \<times> peer \<times> dc_out list) option" where
  "dc_channel_send_owner_impl env a data is_binary p = do {
     c \<leftarrow> pr_heap p a;
     Some (case data of
       None \<Rightarrow> (-1, dc_set_peer_error ERROR_NULL_DATA None p, [])
     | Some d \<Rightarrow>
         if \<not> (ch_is_open c \<and> \<not> ch_closing c) then (-1, dc_set_peer_error ERROR_CHANNEL_NOT_OPEN None p, [])
         else if \<not> pr_socket p then (-1, dc_set_peer_error ERROR_INVALID_PEER_STATE None p, [])
         else if \<not> reliability_valid (ch_max_retransmits c) (ch_max_lifetime_ms c) then
           (-1, dc_set_peer_error ERROR_SCTP_SEND (Some ''retransmit and lifetime limits are mutually exclusive'') p, [])
         else case wire_message d is_binary of
           (ppid, wire) \<Rightarrow>
             let outs = [Sctp_Send (ch_id c) ppid (\<not> ch_ordered c) (message_prinfo c) wire]
             in if e_sent env < 0 \<or> e_sent env \<noteq> int (length wire) then (-1, dc_set_peer_error ERROR_SCTP_SEND None p, outs)
                else (0, p, outs)) }"

text \<open>\<open>sctp_reset_channel_stream\<close>: the result and the call.\<close>

definition sctp_reset_channel_stream :: "env \<Rightarrow> u16 \<Rightarrow> peer \<Rightarrow> int \<times> dc_out list" where
  "sctp_reset_channel_stream env sid p = (if \<not> pr_socket p then (-1, []) else (e_reset env, [Sctp_Reset sid]))"

text \<open>\<open>dc_channel_close_owner_impl_mode\<close> up to the return of the close callback; the release follows.\<close>

definition unpublish :: "u16 \<Rightarrow> nat \<Rightarrow> peer \<Rightarrow> peer" where
  "unpublish i a p = (if peer_get_channel p i = Some a then peer_remove_channel i p else p)"

definition dc_channel_close_owner_impl_mode :: "env \<Rightarrow> nat \<Rightarrow> bool \<Rightarrow> peer \<Rightarrow> segment" where
  "dc_channel_close_owner_impl_mode env a reset_outgoing p = do {
     c \<leftarrow> pr_heap p a;
     Some (if ch_closing c then (p, [], [])
           else let p1 = put_channel a (c\<lparr>ch_closing := True, ch_is_open := False, ch_callback_refs := ch_callback_refs c + 1\<rparr>) p;
                    p2 = unpublish (ch_id c) a p1;
                    (r, outs) = (if reset_outgoing \<and> pr_socket p2 then sctp_reset_channel_stream env (ch_id c) p2 else (0, []));
                    p3 = (if r \<noteq> 0 then dc_set_peer_error ERROR_SCTP_SEND (Some ''stream reset failed'') p2 else p2)
                in (p3, outs @ (case ch_on_close c of Some k \<Rightarrow> [On_Close k a] | None \<Rightarrow> []), [Release a])) }"

definition dc_channel_callback_owner_task :: "nat \<Rightarrow> callback_kind \<Rightarrow> nat option \<Rightarrow> peer \<Rightarrow> peer option" where
  "dc_channel_callback_owner_task a kind cb p = do {
     c \<leftarrow> pr_heap p a;
     Some (if ch_closing c then p
           else put_channel a (case kind of CALLBACK_OPEN \<Rightarrow> c\<lparr>ch_on_open := cb\<rparr> | CALLBACK_MESSAGE \<Rightarrow> c\<lparr>ch_on_message := cb\<rparr>
                                          | CALLBACK_CLOSE \<Rightarrow> c\<lparr>ch_on_close := cb\<rparr>) p) }"

definition dc_peer_callback_owner_task :: "peer_callback_kind \<Rightarrow> nat option \<Rightarrow> peer \<Rightarrow> peer" where
  "dc_peer_callback_owner_task kind cb p =
     (case kind of CALLBACK_STATE \<Rightarrow> p\<lparr>pr_on_state := cb\<rparr> | CALLBACK_CHANNEL \<Rightarrow> p\<lparr>pr_on_channel := cb\<rparr> | CALLBACK_ERROR \<Rightarrow> p\<lparr>pr_on_error := cb\<rparr>)"

definition dc_peer_set_role_owner_task :: "bool \<Rightarrow> peer \<Rightarrow> int \<times> peer" where
  "dc_peer_set_role_owner_task is_server p =
     (if pr_state p \<noteq> DC_NEW then (-2, p) else (0, p\<lparr>pr_is_dtls_server := is_server\<rparr>))"

definition dc_external_handshake_task :: "peer \<Rightarrow> peer" where
  "dc_external_handshake_task p = p\<lparr>pr_state := DC_CONNECTING\<rparr>"

text \<open>Removing the handler waits for the callbacks that are running, unless it is called from one of them.\<close>

definition turbo_dc_peer_set_transport_data_handler :: "bool \<Rightarrow> nat option \<Rightarrow> peer \<Rightarrow> peer \<times> dc_out list \<times> act list" where
  "turbo_dc_peer_set_transport_data_handler in_callback cb p =
     (p\<lparr>pr_on_transport_data := cb\<rparr>, [], if cb = None \<and> \<not> in_callback then [Await_Transport] else [])"

definition await_transport :: "peer \<Rightarrow> act list" where
  "await_transport p = (if pr_transport_callbacks p \<noteq> 0 then [Await_Transport] else [])"

section \<open>Incoming DCEP messages\<close>

text \<open>The channel an OPEN message asks for, when it is well formed.\<close>

definition dcep_open_request :: "u16 \<Rightarrow> bytes \<Rightarrow> channel option" where
  "dcep_open_request sid data =
     (let label_len = unat (read_u16 data 8); proto_len = unat (read_u16 data 10); parameter = read_u32 data 4;
          channel_type = data ! 1; reliability = channel_type AND (DCEP_CHANNEL_REXMIT OR DCEP_CHANNEL_TIMED);
          label = take label_len (drop DCEP_HEADER_LENGTH data); protocol = take proto_len (drop (DCEP_HEADER_LENGTH + label_len) data)
      in if label_len > MAX_LABEL_LEN \<or> proto_len > MAX_PROTOCOL_LEN \<or> length data \<noteq> DCEP_HEADER_LENGTH + label_len + proto_len then None
         else if \<not> dcep_text_valid (Some label) label_len \<or> \<not> dcep_text_valid (Some protocol) proto_len then None
         else if reliability = (DCEP_CHANNEL_REXMIT OR DCEP_CHANNEL_TIMED)
           \<or> channel_type AND NOT (DCEP_CHANNEL_RELIABLE_UNORDERED OR DCEP_CHANNEL_REXMIT OR DCEP_CHANNEL_TIMED) \<noteq> 0 then None
         else if reliability \<noteq> 0 \<and> parameter > 0x7FFFFFFF then None
         else Some (zero_channel\<lparr>ch_id := sid,
                ch_label := (if label_len > 0 then Some label else None), ch_protocol := (if proto_len > 0 then Some protocol else None),
                ch_ordered := (channel_type AND DCEP_CHANNEL_RELIABLE_UNORDERED = 0),
                ch_max_retransmits := (if reliability = DCEP_CHANNEL_REXMIT then uint parameter else 0),
                ch_max_lifetime_ms := (if reliability = DCEP_CHANNEL_TIMED then uint parameter else 0)\<rparr>))"

text \<open>Even identifiers belong to the DTLS client; the remote end has the opposite role.\<close>

definition remote_parity :: "u16 \<Rightarrow> peer \<Rightarrow> bool" where
  "remote_parity sid p \<longleftrightarrow> (sid AND 1 = 0) = pr_is_dtls_server p"

definition dcep_publish :: "env \<Rightarrow> channel \<Rightarrow> peer \<Rightarrow> peer \<times> dc_out list \<times> act list" where
  "dcep_publish env c p =
     (let sid = ch_id c
      in if \<not> e_calloc env \<or> ch_label c \<noteq> None \<and> \<not> e_dup_label env \<or> ch_protocol c \<noteq> None \<and> \<not> e_dup_protocol env then (p, [], [])
         else if pr_destroying p \<or> sid \<in> pr_channel_ids p \<or> peer_get_channel p sid \<noteq> None then (p, [], [])
         else case new_channel (c\<lparr>ch_callback_refs := 1\<rparr>) (peer_mark_channel_id sid p) of
           (a, p1) \<Rightarrow>
             (case peer_set_channel env sid a p1 of
                None \<Rightarrow> (peer_free_channel_id sid (peer_mark_channel_id sid p), [], [])
              | Some p2 \<Rightarrow> (p2, [], [Dcep_Ack a])))"

definition dcep_handle_message :: "env \<Rightarrow> u16 \<Rightarrow> bytes \<Rightarrow> peer \<Rightarrow> segment" where
  "dcep_handle_message env sid data p =
     (if length data < 1 then Some (p, [], [])
      else if data ! 0 = DCEP_DATA_CHANNEL_OPEN \<and> length data \<ge> DCEP_HEADER_LENGTH then
        Some (case dcep_open_request sid data of
                None \<Rightarrow> (p, [], [])
              | Some c \<Rightarrow> if \<not> remote_parity sid p then (p, [], []) else dcep_publish env c p)
      else if data ! 0 = DCEP_DATA_CHANNEL_ACK \<and> length data = 1 then do {
        (ch, p1) \<leftarrow> dc_channel_admit sid p;
        Some (p1, [], case ch of None \<Rightarrow> [] | Some a \<Rightarrow> [Dcep_Acked a, Release a]) }
      else Some (p, [], []))"

text \<open>After the channel is published on the stream of its identifier: the acknowledgement, and the roll-back when it is not
  accepted for sending.\<close>

definition dcep_rollback :: "env \<Rightarrow> nat \<Rightarrow> channel \<Rightarrow> peer \<Rightarrow> peer \<times> dc_out list" where
  "dcep_rollback env a c p =
     (if ch_closing c then (p, [])
      else let sid = ch_id c; p1 = unpublish sid a (put_channel a (c\<lparr>ch_closing := True, ch_is_open := False\<rparr>) p);
               (r, outs) = (if \<not> pr_destroying p1 \<and> pr_socket p1 then sctp_reset_channel_stream env sid p1 else (0, []))
           in (if r \<noteq> 0 then dc_set_peer_error ERROR_SCTP_SEND (Some ''rejected DCEP stream reset failed'') p1 else p1, outs))"

definition dcep_ack_segment :: "env \<Rightarrow> nat \<Rightarrow> peer \<Rightarrow> segment" where
  "dcep_ack_segment env a p = do {
     c \<leftarrow> pr_heap p a;
     Some (case dcep_send_ack env (ch_id c) p of
             (r, outs) \<Rightarrow>
               if r \<noteq> 0 then (case dcep_rollback env a c p of
                  (p', outs') \<Rightarrow> (p', outs @ outs', [Release a, Peer_Error ERROR_DCEP_SEND_ACK ''incoming DCEP OPEN ACK was not admitted'']))
               else (p, outs, [Dcep_Commit a, Dcep_Opened a, Release a])) }"

definition dcep_commit_segment :: "nat \<Rightarrow> peer \<Rightarrow> segment" where
  "dcep_commit_segment a p = do {
     c \<leftarrow> pr_heap p a;
     Some (if \<not> ch_closing c \<and> \<not> pr_destroying p
           then (put_channel a (c\<lparr>ch_is_open := True\<rparr>) p, (case pr_on_channel p of Some k \<Rightarrow> [On_Channel k a] | None \<Rightarrow> []), [])
           else (p, [], [])) }"

definition dcep_opened_segment :: "nat \<Rightarrow> peer \<Rightarrow> segment" where
  "dcep_opened_segment a p = do {
     c \<leftarrow> pr_heap p a;
     Some (p, if \<not> ch_closing c \<and> \<not> pr_destroying p then (case ch_on_open c of Some k \<Rightarrow> [On_Open k a] | None \<Rightarrow> []) else [], []) }"

definition dcep_acked_segment :: "nat \<Rightarrow> peer \<Rightarrow> segment" where
  "dcep_acked_segment a p = do {
     c \<leftarrow> pr_heap p a;
     Some (if \<not> ch_closing c \<and> \<not> pr_destroying p \<and> ch_dcep_sent c \<and> \<not> ch_is_open c
           then (put_channel a (c\<lparr>ch_is_open := True\<rparr>) p, (case ch_on_open c of Some k \<Rightarrow> [On_Open k a] | None \<Rightarrow> []), [])
           else (p, [], [])) }"

section \<open>Incoming messages and notifications\<close>

definition deliver_segment :: "nat \<Rightarrow> bytes \<Rightarrow> bool \<Rightarrow> peer \<Rightarrow> segment" where
  "deliver_segment a data is_binary p = do {
     c \<leftarrow> pr_heap p a;
     Some (p, if \<not> ch_closing c \<and> ch_is_open c \<and> \<not> pr_destroying p
              then (case ch_on_message c of Some k \<Rightarrow> [On_Message k a data is_binary] | None \<Rightarrow> []) else [], []) }"

text \<open>The logical message of a payload protocol identifier and its bytes, or the complaint.\<close>

definition user_message :: "u32 \<Rightarrow> bytes \<Rightarrow> string + bytes \<times> bool" where
  "user_message ppid data =
     (if ppid = SCTP_PPID_STRING \<or> ppid = SCTP_PPID_BINARY then
        (if length data = 0 then Inl ''nonempty PPID carried zero octets'' else Inr (data, ppid = SCTP_PPID_BINARY))
      else if ppid = SCTP_PPID_STRING_EMPTY \<or> ppid = SCTP_PPID_BINARY_EMPTY then
        (if length data \<noteq> 1 \<or> data ! 0 \<noteq> 0 then Inl ''empty PPID requires one zero octet'' else Inr ([], ppid = SCTP_PPID_BINARY_EMPTY))
      else Inl ''unsupported WebRTC PPID'')"

definition sctp_message :: "env \<Rightarrow> u16 \<Rightarrow> u32 \<Rightarrow> bytes \<Rightarrow> peer \<Rightarrow> segment" where
  "sctp_message env sid ppid data p =
     (if ppid = SCTP_PPID_DCEP then dcep_handle_message env sid data p
      else case user_message ppid data of
        Inl detail \<Rightarrow> Some (dc_set_peer_error ERROR_SCTP_RECEIVE (Some detail) p, [], [])
      | Inr (d, is_binary) \<Rightarrow> do {
          (ch, p1) \<leftarrow> dc_channel_admit sid p;
          Some (p1, [], case ch of None \<Rightarrow> [] | Some a \<Rightarrow> [Deliver a d is_binary, Release a]) })"

definition sctp_inbound_data :: "env \<Rightarrow> rcvinfo \<Rightarrow> bool \<Rightarrow> bytes \<Rightarrow> peer \<Rightarrow> segment" where
  "sctp_inbound_data env rcv eor data p =
     (case sctp_reassemble_message (e_malloc env) (pr_reassembly p) rcv eor (Some data) (length data) of
        (r, ra) \<Rightarrow>
          let p1 = p\<lparr>pr_reassembly := ra\<rparr>
          in case r of
               PENDING \<Rightarrow> Some (p1, [], [])
             | REJECTED detail \<Rightarrow>
                 Some (if ra_blocked ra then dc_fail_peer ERROR_SCTP_RECEIVE (Some detail) p1
                       else (dc_set_peer_error ERROR_SCTP_RECEIVE (Some detail) p1, [], []))
             | READY assembled len \<Rightarrow> sctp_message env (rcv_sid rcv) (rcv_ppid rcv) (the (message_of data r)) p1)"

definition sctp_handle_partial_delivery_event :: "nat \<Rightarrow> pdapi_event \<Rightarrow> peer \<Rightarrow> peer" where
  "sctp_handle_partial_delivery_event datalen event p =
     (if datalen < pd_header event \<or> pd_length event < pd_header event \<or> pd_length event > datalen \<or> \<not> pd_aborted event then p
      else dc_set_peer_error ERROR_SCTP_RECEIVE (Some ''SCTP partial delivery aborted'')
             (p\<lparr>pr_reassembly := sctp_reassembly_clear_identity (pd_assoc_id event) (ucast (pd_stream event)) (ucast (pd_seq event))
                  (pr_reassembly p)\<rparr>))"

definition dc_channel_handle_stream_reset :: "u16 \<Rightarrow> bool \<Rightarrow> peer \<Rightarrow> segment" where
  "dc_channel_handle_stream_reset sid reset_outgoing p = do {
     (ch, p1) \<leftarrow> dc_channel_admit sid p;
     Some (p1, [], case ch of None \<Rightarrow> [] | Some a \<Rightarrow> [Close_Channel a reset_outgoing, Release a]) }"

fun admit_all :: "u16 list \<Rightarrow> peer \<Rightarrow> (nat list \<times> peer) option" where
  "admit_all [] p = Some ([], p)"
| "admit_all (i # is) p =
     (case peer_get_channel p i of
        None \<Rightarrow> admit_all is p
      | Some a \<Rightarrow> do {
          c \<leftarrow> pr_heap p a;
          if admissible_channel c then do { (as, p') \<leftarrow> admit_all is (take_ref a c p); Some (a # as, p') }
          else admit_all is p })"

definition dc_channel_handle_all_streams_reset :: "env \<Rightarrow> bool \<Rightarrow> peer \<Rightarrow> segment" where
  "dc_channel_handle_all_streams_reset env reset_outgoing p =
     (if \<not> pr_channels_initialized p \<or> e_order env = [] then Some (p, [], [])
      else if \<not> e_calloc env then
        Some (dc_set_peer_error ERROR_SCTP_RECEIVE (Some ''could not snapshot channels for all-stream reset'') p, [], [])
      else do {
        (as, p1) \<leftarrow> admit_all (e_order env) p;
        Some (p1, [], concat (map (\<lambda>a. [Close_Channel a reset_outgoing, Release a]) as)) })"

text \<open>One turn of the loop over the reset streams.\<close>

definition reset_next_stream :: "u32 \<Rightarrow> u16 list \<Rightarrow> bool \<Rightarrow> peer \<Rightarrow> segment" where
  "reset_next_stream assoc sids reset_outgoing p =
     (case sids of
        [] \<Rightarrow> Some (p, [], [])
      | sid # rest \<Rightarrow> do {
          (p1, outs, acts) \<leftarrow> dc_channel_handle_stream_reset sid reset_outgoing
             (p\<lparr>pr_reassembly := sctp_reassembly_clear_stream assoc sid (pr_reassembly p)\<rparr>);
          Some (p1, outs, acts @ [Reset_Streams assoc rest reset_outgoing]) })"

definition sctp_handle_stream_reset_event :: "env \<Rightarrow> nat \<Rightarrow> strreset_event \<Rightarrow> peer \<Rightarrow> segment" where
  "sctp_handle_stream_reset_event env datalen event p =
     (if datalen < sr_header event \<or> sr_length event < sr_header event \<or> sr_length event > datalen
         \<or> (sr_length event - sr_header event) mod 2 \<noteq> 0 \<or> sr_denied_or_failed event \<or> \<not> sr_incoming event then Some (p, [], [])
      else let count = (sr_length event - sr_header event) div 2
           in if count = 0
              then dc_channel_handle_all_streams_reset env (\<not> sr_outgoing event)
                     (p\<lparr>pr_reassembly := sctp_reassembly_clear_all (pr_reassembly p)\<rparr>)
              else Some (p, [], [Reset_Streams (sr_assoc_id event) (take count (sr_streams event)) (\<not> sr_outgoing event)]))"

definition sctp_notification :: "env \<Rightarrow> notification \<Rightarrow> peer \<Rightarrow> segment" where
  "sctp_notification env n p =
     (case n of
        Assoc_Change s \<Rightarrow> Some (case s of
            SCTP_COMM_UP \<Rightarrow> (case dc_notify_state DC_CONNECTED (p\<lparr>pr_connected := True\<rparr>) of (p', outs) \<Rightarrow> (p', outs, []))
          | SCTP_RESTART \<Rightarrow> (p\<lparr>pr_reassembly := sctp_reassembly_clear_all (pr_reassembly p)\<rparr>, [], [])
          | _ \<Rightarrow> (p\<lparr>pr_reassembly := sctp_reassembly_clear_all (pr_reassembly p), pr_connected := False\<rparr>, [], []))
      | Partial_Delivery datalen event \<Rightarrow> Some (sctp_handle_partial_delivery_event datalen event p, [], [])
      | Stream_Reset_Notice datalen event \<Rightarrow> sctp_handle_stream_reset_event env datalen event p)"

section \<open>Incoming packets\<close>

definition dc_is_dtls_record :: "bytes \<Rightarrow> bool" where
  "dc_is_dtls_record data \<longleftrightarrow> data \<noteq> [] \<and> data ! 0 \<ge> 20 \<and> data ! 0 \<le> 63"

definition dc_is_rtp_or_rtcp_packet :: "bytes \<Rightarrow> bool" where
  "dc_is_rtp_or_rtcp_packet data \<longleftrightarrow> length data \<ge> 2 \<and> data ! 0 \<ge> 128 \<and> data ! 0 \<le> 191"

definition dc_handle_incoming_packet :: "bytes \<Rightarrow> peer \<Rightarrow> peer \<times> dc_out list \<times> act list" where
  "dc_handle_incoming_packet data p =
     (if data = [] then (p, [], [])
      else if dc_is_dtls_record data then (p, [To_Dtls data], [])
      else if dc_is_rtp_or_rtcp_packet data then
        (case pr_on_transport_data p of
           Some k \<Rightarrow> if pr_destroying p then (p, [], [])
                     else (p\<lparr>pr_transport_callbacks := pr_transport_callbacks p + 1\<rparr>, [On_Transport k data], [Transport_Return])
         | None \<Rightarrow> (p, [], []))
      else (p, [], []))"

definition transport_return :: "peer \<Rightarrow> peer" where
  "transport_return p = (if pr_transport_callbacks p > 0 then p\<lparr>pr_transport_callbacks := pr_transport_callbacks p - 1\<rparr> else p)"

section \<open>Destruction\<close>

fun free_published :: "u16 list \<Rightarrow> peer \<Rightarrow> peer option" where
  "free_published [] p = Some p"
| "free_published (i # is) p =
     (case peer_get_channel p i of
        None \<Rightarrow> free_published is p
      | Some a \<Rightarrow> do { _ \<leftarrow> pr_heap p a; free_published is (free_channel a (peer_remove_channel i p)) })"

definition dc_peer_destroy_resources_owner_task :: "env \<Rightarrow> peer \<Rightarrow> (peer \<times> dc_out list) option" where
  "dc_peer_destroy_resources_owner_task env p =
     (let (p1, outs1, acts) = dc_peer_close_impl p; (p2, outs2) = (if acts = [] then (p1, []) else peer_shutdown p1)
      in do {
        p3 \<leftarrow> free_published (e_order env) (p2\<lparr>pr_socket := False\<rparr>);
        Some (p3\<lparr>pr_channels := Map.empty, pr_channels_initialized := False, pr_channel_ids := {}, pr_alive := False\<rparr>, outs1 @ outs2) })"

text \<open>The peer is reaped once admission is closed and no call is in progress; until then the destroyer waits.  When the owner does not take the task
  the peer stays as it is.\<close>

definition dc_peer_finish_destroy :: "env \<Rightarrow> peer \<Rightarrow> (peer \<times> dc_out list) option" where
  "dc_peer_finish_destroy env p =
     (if \<not> pr_destroying p \<or> pr_active_operations p \<noteq> 0 \<or> pr_transport_callbacks p \<noteq> 0 \<or> \<not> e_posted env then Some (p, [])
      else dc_peer_destroy_resources_owner_task env p)"

section \<open>Calls in progress\<close>

type_synonym dc_machine = "peer \<times> act list list"

definition with_result :: "int \<times> peer \<times> dc_out list \<Rightarrow> peer \<times> dc_out list \<times> act list" where
  "with_result x = (case x of (r, p, outs) \<Rightarrow> (p, outs @ [Result r], []))"

fun dc_call :: "dc_op \<Rightarrow> peer \<Rightarrow> segment" where
  "dc_call (Create env label config) p =
     Some (case dc_channel_create_owner_impl env label config p of (r, p') \<Rightarrow> (p', [Created r], []))"
| "dc_call (Open env a) p = map_option with_result (dc_channel_open_owner_impl env a p)"
| "dc_call (Send env a data is_binary) p = map_option with_result (dc_channel_send_owner_impl env a data is_binary p)"
| "dc_call (Set_Callback a kind cb) p = map_option (\<lambda>p'. (p', [], [])) (dc_channel_callback_owner_task a kind cb p)"
| "dc_call (Close env a) p = dc_channel_close_owner_impl_mode env a True p"
| "dc_call (Set_Peer_Callback kind cb) p = Some (dc_peer_callback_owner_task kind cb p, [], [])"
| "dc_call (Set_Transport_Handler in_callback cb) p = Some (turbo_dc_peer_set_transport_data_handler in_callback cb p)"
| "dc_call (Set_Role is_server) p = Some (case dc_peer_set_role_owner_task is_server p of (r, p') \<Rightarrow> (p', [Result r], []))"
| "dc_call Connect p = Some (dc_external_handshake_task p, [Start_Handshake, Result 0], [])"
| "dc_call (Inbound env rcv eor data) p = sctp_inbound_data env rcv eor data p"
| "dc_call (Notify env n) p = sctp_notification env n p"
| "dc_call (Packet data) p = Some (dc_handle_incoming_packet data p)"
| "dc_call Close_Peer p = Some (dc_peer_close_impl p)"
| "dc_call (Begin_Destroy on_owner) p = Some (p, [], [])"
| "dc_call (Finish_Destroy env) p = Some (p, [], [])"
| "dc_call (Resume k env) p = Some (p, [], [])"

text \<open>A call reads the peer from the channel it names and acquires a lease on the peer; its work is done later, on the thread of the owner,
  unless the call does it itself.  Between the two anything may happen.  A call that is not admitted, or whose task the owner does not take,
  reports failure.\<close>

fun names :: "dc_op \<Rightarrow> nat option" where
  "names (Open env a) = Some a"
| "names (Send env a data is_binary) = Some a"
| "names (Set_Callback a kind cb) = Some a"
| "names (Close env a) = Some a"
| "names op = None"

definition names_live :: "dc_op \<Rightarrow> peer \<Rightarrow> bool" where
  "names_live op p \<longleftrightarrow> (case names op of None \<Rightarrow> True | Some a \<Rightarrow> pr_heap p a \<noteq> None)"

fun posts :: "dc_op \<Rightarrow> bool" where
  "posts (Inbound env rcv eor data) = False"
| "posts (Notify env n) = False"
| "posts (Set_Transport_Handler in_callback cb) = False"
| "posts op = True"

fun refused :: "dc_op \<Rightarrow> dc_out list" where
  "refused (Create env label config) = [Created None]"
| "refused (Open env a) = [Result (-1)]"
| "refused (Send env a data is_binary) = [Result (-1)]"
| "refused (Set_Role is_server) = [Result (-1)]"
| "refused Connect = [Result (-1)]"
| "refused op = []"

definition in_lease :: "dc_op \<Rightarrow> dc_machine \<Rightarrow> (dc_machine \<times> dc_out list) option" where
  "in_lease op s =
     (case s of (p, ts) \<Rightarrow>
        if \<not> names_live op p then None
        else case dc_peer_acquire p of
          None \<Rightarrow> Some (s, refused op)
        | Some p1 \<Rightarrow> Some ((p1, ts @ [[Task op, Lease]]), []))"

definition exec_act :: "env \<Rightarrow> act \<Rightarrow> peer \<Rightarrow> segment" where
  "exec_act env act p =
     (case act of
        Task op \<Rightarrow> if e_posted env \<or> \<not> posts op then dc_call op p else Some (p, refused op, [])
      | Close_Channel a r \<Rightarrow> dc_channel_close_owner_impl_mode env a r p
      | Dcep_Ack a \<Rightarrow> dcep_ack_segment env a p
      | Dcep_Commit a \<Rightarrow> dcep_commit_segment a p
      | Dcep_Opened a \<Rightarrow> dcep_opened_segment a p
      | Dcep_Acked a \<Rightarrow> dcep_acked_segment a p
      | Deliver a data is_binary \<Rightarrow> deliver_segment a data is_binary p
      | Release a \<Rightarrow> do { p' \<leftarrow> dc_channel_release a p; Some (p', [], []) }
      | Peer_Error code detail \<Rightarrow> Some (dc_set_peer_error code (Some detail) p, [], [])
      | Fail_State old_state \<Rightarrow> Some (p, fail_state old_state p, [])
      | Reset_Streams assoc sids r \<Rightarrow> reset_next_stream assoc sids r p
      | Peer_Shutdown \<Rightarrow> Some (case peer_shutdown p of (p', outs) \<Rightarrow> (p', outs, []))
      | Transport_Return \<Rightarrow> Some (transport_return p, [], [])
      | Await_Transport \<Rightarrow> Some (p, [], await_transport p)
      | Lease \<Rightarrow> Some (dc_peer_release p, [], []))"

definition resume :: "env \<Rightarrow> nat \<Rightarrow> dc_machine \<Rightarrow> (dc_machine \<times> dc_out list) option" where
  "resume env k s =
     (case s of (p, ts) \<Rightarrow>
        if k < length ts
        then (case ts ! k of
                [] \<Rightarrow> Some (s, [])
              | act # rest \<Rightarrow> do { (p1, outs, acts) \<leftarrow> exec_act env act p; Some ((p1, ts[k := acts @ rest]), outs) })
        else Some (s, []))"

text \<open>One step; touching the peer after it has been freed is undefined.\<close>

definition dc_step :: "dc_op \<Rightarrow> dc_machine \<Rightarrow> (dc_machine \<times> dc_out list) option" where
  "dc_step op s =
     (if \<not> pr_alive (fst s) then None
      else case op of
        Begin_Destroy on_owner \<Rightarrow> Some ((dc_peer_begin_destroy on_owner (fst s), snd s), [])
      | Finish_Destroy env \<Rightarrow> do { (p, outs) \<leftarrow> dc_peer_finish_destroy env (fst s); Some ((p, snd s), outs) }
      | Resume k env \<Rightarrow> resume env k s
      | _ \<Rightarrow> in_lease op s)"

definition turbo_dc_peer_create :: "bool \<Rightarrow> bool \<Rightarrow> peer" where
  "turbo_dc_peer_create is_server disable_sctp =
     \<lparr>pr_alive = True, pr_is_dtls_server = is_server, pr_disable_sctp = disable_sctp, pr_destroying = False, pr_deferred_destroy = False,
      pr_active_operations = 0, pr_transport_callbacks = 0, pr_socket = \<not> disable_sctp, pr_connected = False,
      pr_reassembly = reassembly_start, pr_channels = Map.empty, pr_channels_initialized = True, pr_channel_ids = {},
      pr_heap = Map.empty, pr_next = 0, pr_last_error = (ERROR_NONE, None), pr_state = DC_NEW, pr_on_state = None,
      pr_on_channel = None, pr_on_error = None, pr_on_transport_data = None\<rparr>"

end
