(* ===== verification/Dc_Lifecycle.thy ===== *)
theory Dc_Lifecycle
  imports Dc_Peer
begin

text \<open>
  The life cycle of data channels under any interleaving of calls: the invariant that ties reference counts, the published
  channels and the reserved identifiers to the calls in progress, and what follows from it.

  Shown here: no call ever follows a pointer to a freed channel, identifiers of live channels are distinct and exactly the reserved ones,
  reference counts neither overflow nor leak, destroying the peer frees every channel, and what the lease of a waiting call
  does not protect.
\<close>

section \<open>References held by calls\<close>

primrec weight :: "(act \<Rightarrow> nat) \<Rightarrow> act list \<Rightarrow> nat" where
  "weight f [] = 0"
| "weight f (x # xs) = f x + weight f xs"

lemma weight_append [simp]: "weight f (xs @ ys) = weight f xs + weight f ys"
  by (induction xs) simp_all

primrec tally :: "(act \<Rightarrow> nat) \<Rightarrow> act list list \<Rightarrow> nat" where
  "tally f [] = 0"
| "tally f (t # ts) = weight f t + tally f ts"

lemma tally_append [simp]: "tally f (ts @ us) = tally f ts + tally f us"
  by (induction ts) simp_all

lemma tally_update: "k < length ts \<Longrightarrow> tally f (ts[k := t]) + weight f (ts ! k) = tally f ts + weight f t"
proof (induction ts arbitrary: k)
  case (Cons u ts)
  then show ?case by (cases k) (auto simp: algebra_simps)
qed simp

lemma tally_member: "t \<in> set ts \<Longrightarrow> weight f t \<le> tally f ts"
  by (induction ts) auto

fun holds :: "nat \<Rightarrow> act \<Rightarrow> nat" where
  "holds a (Release b) = (if a = b then 1 else 0)"
| "holds a (Dcep_Ack b) = (if a = b then 1 else 0)"
| "holds a _ = 0"

fun uses :: "act \<Rightarrow> nat option" where
  "uses (Close_Channel a r) = Some a"
| "uses (Dcep_Commit a) = Some a"
| "uses (Dcep_Opened a) = Some a"
| "uses (Dcep_Acked a) = Some a"
| "uses (Deliver a d b) = Some a"
| "uses _ = None"

abbreviation held :: "nat \<Rightarrow> act list \<Rightarrow> nat" where
  "held a acts \<equiv> weight (holds a) acts"

definition is_lease :: "act \<Rightarrow> nat" where
  "is_lease x = (if x = Lease then 1 else 0)"

definition is_transport :: "act \<Rightarrow> nat" where
  "is_transport x = (if x = Transport_Return then 1 else 0)"

text \<open>Whatever a call is still going to do with a channel, it does before it gives back a reference of its own.\<close>

fun covered :: "act list \<Rightarrow> bool" where
  "covered [] = True"
| "covered (x # xs) \<longleftrightarrow> (case uses x of None \<Rightarrow> True | Some a \<Rightarrow> 0 < held a xs) \<and> covered xs"

lemma covered_append: "covered xs \<Longrightarrow> covered ys \<Longrightarrow> covered (xs @ ys)"
  by (induction xs) (auto split: option.splits)

definition quiet :: "act list \<Rightarrow> bool" where
  "quiet acts \<longleftrightarrow> Lease \<notin> set acts \<and> Transport_Return \<notin> set acts \<and> (\<forall>op. Task op \<notin> set acts)"

lemma quiet_tally: "quiet acts \<Longrightarrow> weight is_lease acts = 0 \<and> weight is_transport acts = 0"
  by (induction acts) (auto simp: quiet_def is_lease_def is_transport_def)

text \<open>A call in progress: it has not begun its work, or it has; it ends by giving back its lease.\<close>

definition thread_ok :: "act list \<Rightarrow> bool" where
  "thread_ok t \<longleftrightarrow> t = [] \<or> (\<exists>xs. t = xs @ [Lease] \<and> covered xs \<and> Lease \<notin> set xs \<and> weight is_transport xs \<le> 1
     \<and> (\<forall>op. Task op \<in> set xs \<longrightarrow> xs = [Task op]))"

section \<open>The invariant\<close>

definition chans :: "(nat \<rightharpoonup> channel) \<Rightarrow> nat \<Rightarrow> (u16 \<rightharpoonup> nat) \<Rightarrow> u16 set \<Rightarrow> (nat \<Rightarrow> nat) \<Rightarrow> bool" where
  "chans heap next published ids h \<longleftrightarrow>
     (\<forall>a c. heap a = Some c \<longrightarrow> a < next \<and> unat (ch_callback_refs c) = h a \<and> ch_id c \<in> ids
        \<and> (if ch_closing c then 0 < h a else published (ch_id c) = Some a \<and> h a < 4294967295))
     \<and> (\<forall>a. heap a = None \<longrightarrow> h a = 0)
     \<and> (\<forall>i a. published i = Some a \<longrightarrow> (\<exists>c. heap a = Some c \<and> ch_id c = i \<and> \<not> ch_closing c))
     \<and> (\<forall>i\<in>ids. \<exists>a c. heap a = Some c \<and> ch_id c = i)
     \<and> (\<forall>a b c d. heap a = Some c \<longrightarrow> heap b = Some d \<longrightarrow> ch_id c = ch_id d \<longrightarrow> a = b)"

abbreviation pchans :: "peer \<Rightarrow> (nat \<Rightarrow> nat) \<Rightarrow> bool" where
  "pchans p h \<equiv> chans (pr_heap p) (pr_next p) (pr_channels p) (pr_channel_ids p) h"

definition dc_inv :: "dc_machine \<Rightarrow> bool" where
  "dc_inv s \<longleftrightarrow> (case s of (p, ts) \<Rightarrow>
     pchans p (\<lambda>a. tally (holds a) ts) \<and> (\<forall>t\<in>set ts. thread_ok t)
     \<and> pr_active_operations p = of_nat (tally is_lease ts) \<and> tally is_lease ts < 4294967296
     \<and> pr_transport_callbacks p = of_nat (tally is_transport ts))"

lemmas peer_defs = dc_set_peer_error_def peer_free_channel_id_def peer_mark_channel_id_def peer_remove_channel_def peer_get_channel_def
  put_channel_def free_channel_def new_channel_def take_ref_def unpublish_def

lemma chans_live: "chans heap n pub ids h \<Longrightarrow> 0 < h a \<Longrightarrow> \<exists>c. heap a = Some c"
  unfolding chans_def by (metis not_gr_zero option.exhaust)

lemma chansD:
  assumes "chans heap n pub ids h" "heap a = Some c"
  shows "a < n" "unat (ch_callback_refs c) = h a" "ch_id c \<in> ids" "ch_closing c \<Longrightarrow> 0 < h a"
    "\<not> ch_closing c \<Longrightarrow> pub (ch_id c) = Some a" "\<not> ch_closing c \<Longrightarrow> h a < 4294967295"
  using assms unfolding chans_def by (metis (full_types))+

lemma chans_published: "chans heap n pub ids h \<Longrightarrow> pub i = Some a \<Longrightarrow> \<exists>c. heap a = Some c \<and> ch_id c = i \<and> \<not> ch_closing c"
  unfolding chans_def by blast

lemma chans_ids: "chans heap n pub ids h \<Longrightarrow> ids = {ch_id c | a c. heap a = Some c}"
  unfolding chans_def by (intro set_eqI iffI; clarsimp) (metis (no_types))

lemma chans_inj: "chans heap n pub ids h \<Longrightarrow> heap a = Some c \<Longrightarrow> heap b = Some d \<Longrightarrow> ch_id c = ch_id d \<Longrightarrow> a = b"
  unfolding chans_def by blast

lemma chans_unpublished: "chans heap n pub ids h \<Longrightarrow> heap a = Some c \<Longrightarrow> ch_closing c \<Longrightarrow> pub (ch_id c) = None"
  using chans_published [of heap n pub ids h "ch_id c"] chans_inj [of heap n pub ids h a c] by (cases "pub (ch_id c)") fastforce+

text \<open>Changing a channel in place; a channel that starts to close is withdrawn.\<close>

lemma chans_put:
  assumes "chans heap n pub ids h" "heap a = Some c" "ch_id c' = ch_id c" "ch_closing c \<longrightarrow> ch_closing c'"
    and "unat (ch_callback_refs c') = h' a" "if ch_closing c' then 0 < h' a else h' a < 4294967295" "\<And>b. b \<noteq> a \<Longrightarrow> h' b = h b"
  shows "chans (heap(a \<mapsto> c')) n (if ch_closing c' then pub(ch_id c := None) else pub) ids h'"
proof -
  let ?pub = "if ch_closing c' then pub(ch_id c := None) else pub"
  note inj = chans_inj [OF assms(1)]
  have q: "pub i = Some a \<Longrightarrow> i = ch_id c" for i using chans_published [OF assms(1), of i a] assms(2) by auto
  show ?thesis unfolding chans_def
  proof (intro conjI allI impI ballI)
    fix b d assume d: "(heap(a \<mapsto> c')) b = Some d"
    show "b < n" "unat (ch_callback_refs d) = h' b" "ch_id d \<in> ids"
      using d assms(2,3,5,7) chansD [OF assms(1), of b] chansD [OF assms(1,2)] by (auto split: if_splits)
    show "if ch_closing d then 0 < h' b else ?pub (ch_id d) = Some b \<and> h' b < 4294967295"
    proof (cases "b = a")
      case True
      with d assms(3,4,6) chansD(5) [OF assms(1,2)] show ?thesis by auto
    next
      case False
      with d have "heap b = Some d" by simp
      with False chansD [OF assms(1) this] inj [OF assms(2) this] assms(7) show ?thesis by auto
    qed
  next
    fix b assume "(heap(a \<mapsto> c')) b = None"
    then show "h' b = 0" using assms(1,7) unfolding chans_def by (auto split: if_splits)
  next
    fix i b assume b: "?pub i = Some b"
    show "\<exists>d. (heap(a \<mapsto> c')) b = Some d \<and> ch_id d = i \<and> \<not> ch_closing d"
    proof (cases "b = a")
      case True
      with b q [of i] assms(3) show ?thesis by (auto split: if_splits)
    next
      case False
      with b have "pub i = Some b" by (auto split: if_splits)
      with chans_published [OF assms(1) this] False show ?thesis by simp
    qed
  next
    fix i assume "i \<in> ids"
    then obtain b d where "heap b = Some d" "ch_id d = i" using assms(1) unfolding chans_def by blast
    with assms(2,3) show "\<exists>b d. (heap(a \<mapsto> c')) b = Some d \<and> ch_id d = i" by (metis fun_upd_apply option.inject)
  next
    fix x y u v assume "(heap(a \<mapsto> c')) x = Some u" "(heap(a \<mapsto> c')) y = Some v" "ch_id u = ch_id v"
    with inj [of a c y v] inj [of x u a c] inj [of x u y v] assms(2,3) show "x = y" by (auto split: if_splits)
  qed
qed

text \<open>Fields other than the reference count and the closing flag do not matter.\<close>

lemma chans_same:
  assumes "chans heap n pub ids h" "heap a = Some c" "ch_id c' = ch_id c" "ch_callback_refs c' = ch_callback_refs c"
    and "ch_closing c' = ch_closing c"
  shows "chans (heap(a \<mapsto> c')) n pub ids h"
proof -
  note d = chansD [OF assms(1,2)]
  have "chans (heap(a \<mapsto> c')) n (if ch_closing c' then pub(ch_id c := None) else pub) ids h"
    by (rule chans_put [OF assms(1-3)]) (use assms(4,5) d in auto)
  moreover have "ch_closing c' \<Longrightarrow> pub(ch_id c := None) = pub" using chans_unpublished [OF assms(1,2)] assms(5) by auto
  ultimately show ?thesis by (cases "ch_closing c'") simp_all
qed

lemma chans_ref:
  assumes "chans heap n pub ids h" "heap a = Some c" "admissible_channel c"
  shows "chans (heap(a \<mapsto> c\<lparr>ch_callback_refs := ch_callback_refs c + 1\<rparr>)) n pub ids (h(a := Suc (h a)))"
proof -
  have "unat (ch_callback_refs c) < 4294967294" using assms(3) by (simp add: admissible_channel_def word_less_nat_alt)
  then have "unat (ch_callback_refs c + 1) = Suc (unat (ch_callback_refs c))" by (simp add: unat_word_ariths)
  with chans_put [OF assms(1,2), of "c\<lparr>ch_callback_refs := ch_callback_refs c + 1\<rparr>" "h(a := Suc (h a))"] chansD [OF assms(1,2)] assms(3)
  show ?thesis by (simp add: admissible_channel_def word_less_nat_alt)
qed

lemma chans_close:
  assumes "chans heap n pub ids h" "heap a = Some c" "\<not> ch_closing c"
  shows "chans (heap(a \<mapsto> c\<lparr>ch_closing := True, ch_is_open := False, ch_callback_refs := ch_callback_refs c + 1\<rparr>)) n
    (pub(ch_id c := None)) ids (h(a := Suc (h a)))"
proof -
  have "unat (ch_callback_refs c) < 4294967295" using chansD [OF assms(1,2)] assms(3) by simp
  then have "unat (ch_callback_refs c + 1) = Suc (unat (ch_callback_refs c))" by (simp add: unat_word_ariths)
  with chans_put [OF assms(1,2), of "c\<lparr>ch_closing := True, ch_is_open := False, ch_callback_refs := ch_callback_refs c + 1\<rparr>" "h(a := Suc (h a))"]
    chansD [OF assms(1,2)] show ?thesis by simp
qed

lemma chans_retire:
  assumes "chans heap n pub ids h" "heap a = Some c" "0 < h a"
  shows "chans (heap(a \<mapsto> c\<lparr>ch_closing := True, ch_is_open := False\<rparr>)) n (pub(ch_id c := None)) ids h"
  using chans_put [OF assms(1,2), of "c\<lparr>ch_closing := True, ch_is_open := False\<rparr>" h] chansD [OF assms(1,2)] assms(3) by simp

lemma chans_free:
  assumes "chans heap n pub ids h" "heap a = Some c" "h' a = 0" "\<And>b. b \<noteq> a \<Longrightarrow> h' b = h b"
  shows "chans (heap(a := None)) n (pub(ch_id c := None)) (ids - {ch_id c}) h'"
proof -
  note inj = chans_inj [OF assms(1)]
  have q: "pub i = Some a \<Longrightarrow> i = ch_id c" for i using chans_published [OF assms(1), of i a] assms(2) by auto
  show ?thesis unfolding chans_def
  proof (intro conjI allI impI ballI)
    fix b d assume d: "(heap(a := None)) b = Some d"
    then have "b \<noteq> a" "heap b = Some d" "ch_id d \<noteq> ch_id c" using inj [of a c b d] assms(2) by (auto split: if_splits)
    with chansD [OF assms(1), of b d] assms(4) show "b < n" "unat (ch_callback_refs d) = h' b" "ch_id d \<in> ids - {ch_id c}"
        "if ch_closing d then 0 < h' b else (pub(ch_id c := None)) (ch_id d) = Some b \<and> h' b < 4294967295" by auto
  next
    fix b assume "(heap(a := None)) b = None"
    then show "h' b = 0" using assms(1,3,4) unfolding chans_def by (cases "b = a") auto
  next
    fix i b assume "(pub(ch_id c := None)) i = Some b"
    then have "i \<noteq> ch_id c" "pub i = Some b" "b \<noteq> a" using q by (auto split: if_splits)
    with chans_published [OF assms(1), of i b] show "\<exists>d. (heap(a := None)) b = Some d \<and> ch_id d = i \<and> \<not> ch_closing d" by simp
  next
    fix i assume "i \<in> ids - {ch_id c}"
    then obtain b d where "heap b = Some d" "ch_id d = i" "i \<noteq> ch_id c" using assms(1) unfolding chans_def by blast
    with assms(2) show "\<exists>b d. (heap(a := None)) b = Some d \<and> ch_id d = i" by (metis fun_upd_apply option.inject)
  next
    fix x y u v assume "(heap(a := None)) x = Some u" "(heap(a := None)) y = Some v" "ch_id u = ch_id v"
    with inj [of x u y v] show "x = y" by (auto split: if_splits)
  qed
qed

lemma chans_release:
  assumes "chans heap n pub ids h" "heap a = Some c" "0 < h a"
  shows "(if ch_closing c \<and> ch_callback_refs c - 1 = 0 then chans (heap(a := None)) n pub (ids - {ch_id c}) (h(a := h a - 1))
     else chans (heap(a \<mapsto> c\<lparr>ch_callback_refs := ch_callback_refs c - 1\<rparr>)) n pub ids (h(a := h a - 1)))"
proof -
  note d = chansD [OF assms(1,2)]
  have "ch_callback_refs c \<noteq> 0" using assms(3) d(2) by auto
  then have m: "unat (ch_callback_refs c - 1) = h a - 1" using unat_minus_one d(2) by metis
  have u: "ch_closing c \<Longrightarrow> pub(ch_id c := None) = pub" using chans_unpublished [OF assms(1,2)] by auto
  show ?thesis
  proof (cases "ch_closing c \<and> ch_callback_refs c - 1 = 0")
    case True
    then have "h a - 1 = 0" using m by simp
    with chans_free [OF assms(1,2), of "h(a := h a - 1)"] u True show ?thesis by simp
  next
    case False
    then have z: "ch_closing c \<Longrightarrow> 0 < h a - 1" using m by (metis neq0_conv unat_eq_zero)
    have "chans (heap(a \<mapsto> c\<lparr>ch_callback_refs := ch_callback_refs c - 1\<rparr>)) n (if ch_closing c then pub(ch_id c := None) else pub) ids (h(a := h a - 1))"
      using chans_put [OF assms(1,2), of "c\<lparr>ch_callback_refs := ch_callback_refs c - 1\<rparr>" "h(a := h a - 1)"] m z d(6) by (cases "ch_closing c") simp_all
    with u False show ?thesis by (cases "ch_closing c") auto
  qed
qed

lemma chans_new:
  assumes "chans heap n pub ids h" "ch_id c \<notin> ids" "\<not> ch_closing c" "unat (ch_callback_refs c) = r" "r < 4294967295"
  shows "chans (heap(n \<mapsto> c)) (Suc n) (pub(ch_id c \<mapsto> n)) (insert (ch_id c) ids) (h(n := r))"
proof -
  have f: "heap n = None" using chansD(1) [OF assms(1), of n] by (cases "heap n") auto
  have i: "heap a = Some d \<Longrightarrow> ch_id d \<noteq> ch_id c" for a d using chansD(3) [OF assms(1), of a d] assms(2) by auto
  have pb: "pub i = Some a \<Longrightarrow> i \<noteq> ch_id c \<and> a \<noteq> n" for i a using chans_published [OF assms(1), of i a] i f by fastforce
  show ?thesis unfolding chans_def
  proof (intro conjI allI impI ballI)
    fix a d assume d: "(heap(n \<mapsto> c)) a = Some d"
    show "a < Suc n" "unat (ch_callback_refs d) = (h(n := r)) a" "ch_id d \<in> insert (ch_id c) ids"
      using d assms(4) chansD [OF assms(1), of a] by (auto split: if_splits)
    show "if ch_closing d then 0 < (h(n := r)) a else (pub(ch_id c \<mapsto> n)) (ch_id d) = Some a \<and> (h(n := r)) a < 4294967295"
      using d assms(3,5) i chansD [OF assms(1), of a d] by (cases "a = n") auto
  next
    fix a assume "(heap(n \<mapsto> c)) a = None"
    then show "(h(n := r)) a = 0" using assms(1) unfolding chans_def by (auto split: if_splits)
  next
    fix j a assume "(pub(ch_id c \<mapsto> n)) j = Some a"
    then show "\<exists>d. (heap(n \<mapsto> c)) a = Some d \<and> ch_id d = j \<and> \<not> ch_closing d"
      using assms(3) pb chans_published [OF assms(1), of j a] by (auto split: if_splits)
  next
    fix j assume "j \<in> insert (ch_id c) ids"
    then show "\<exists>a d. (heap(n \<mapsto> c)) a = Some d \<and> ch_id d = j"
      using assms(1) f unfolding chans_def by (metis fun_upd_apply insertE option.distinct(1))
  next
    fix x y u v assume "(heap(n \<mapsto> c)) x = Some u" "(heap(n \<mapsto> c)) y = Some v" "ch_id u = ch_id v"
    with chans_inj [OF assms(1)] i show "x = y" by (auto split: if_splits) metis+
  qed
qed

section \<open>Segments\<close>

text \<open>A segment is defined, keeps the invariant with the references its remaining acts hold, and leaves the leases alone.\<close>

definition same_leases :: "peer \<Rightarrow> peer \<Rightarrow> bool" where
  "same_leases p p' \<longleftrightarrow> pr_alive p' = pr_alive p \<and> pr_active_operations p' = pr_active_operations p
     \<and> pr_transport_callbacks p' = pr_transport_callbacks p"

lemma same_leases_trans: "same_leases p q \<Longrightarrow> same_leases q r \<Longrightarrow> same_leases p r"
  by (simp add: same_leases_def)

definition seg_ok :: "(nat \<Rightarrow> nat) \<Rightarrow> peer \<Rightarrow> segment \<Rightarrow> bool" where
  "seg_ok h p s \<longleftrightarrow> (\<exists>p' outs acts. s = Some (p', outs, acts) \<and> pchans p' (\<lambda>a. h a + held a acts)
     \<and> covered acts \<and> quiet acts \<and> same_leases p p')"

lemma seg_okI [intro]:
  "pchans p' (\<lambda>a. h a + held a acts) \<Longrightarrow> covered acts \<Longrightarrow> quiet acts \<Longrightarrow> same_leases p p' \<Longrightarrow> seg_ok h p (Some (p', outs, acts))"
  by (auto simp: seg_ok_def)

lemma ref_added: "h(a := Suc (h a)) = (\<lambda>b. h b + (if b = a then 1 else 0))"
  by auto

lemma admit_ok:
  assumes "pchans p h"
  shows "\<exists>ch p'. dc_channel_admit i p = Some (ch, p') \<and> same_leases p p'
    \<and> pchans p' (\<lambda>b. h b + (if ch = Some b then 1 else 0))"
proof (cases "if \<not> pr_destroying p \<and> pr_channels_initialized p then peer_get_channel p i else None")
  case None
  with assms show ?thesis by (simp add: dc_channel_admit_def same_leases_def)
next
  case (Some a)
  then have "pr_channels p i = Some a" by (simp add: peer_get_channel_def split: if_splits)
  from chans_published [OF assms this] obtain c where c: "pr_heap p a = Some c" by blast
  show ?thesis
  proof (cases "admissible_channel c")
    case True
    with chans_ref [OF assms c] have "pchans (take_ref a c p) (\<lambda>b. h b + (if Some a = Some b then 1 else 0))"
      by (simp add: peer_defs ref_added eq_commute)
    with Some c True show ?thesis by (simp add: dc_channel_admit_def same_leases_def peer_defs)
  next
    case False
    with Some c assms show ?thesis by (simp add: dc_channel_admit_def same_leases_def)
  qed
qed

text \<open>What is admitted is used and released by the same call.\<close>

lemma admitted_ok:
  assumes "pchans p h" "\<And>a. uses (f a) = Some a" "rest = [] \<or> (\<exists>x. rest = [x] \<and> uses x = None \<and> quiet [x] \<and> (\<forall>b. holds b x = 0))"
    "\<And>a b. holds b (f a) = 0" "\<And>a. quiet [f a]"
  shows "seg_ok h p (do { (ch, p1) \<leftarrow> dc_channel_admit i p; Some (p1, [], (case ch of None \<Rightarrow> [] | Some a \<Rightarrow> [f a, Release a]) @ rest) })"
proof -
  from admit_ok [OF assms(1), of i] obtain ch p' where ad: "dc_channel_admit i p = Some (ch, p')" "same_leases p p'"
    "pchans p' (\<lambda>b. h b + (if ch = Some b then 1 else 0))" by blast
  let ?acts = "(case ch of None \<Rightarrow> [] | Some a \<Rightarrow> [f a, Release a]) @ rest"
  have "held b ?acts = (if ch = Some b then 1 else 0)" for b using assms(3,4) by (auto split: option.split if_splits)
  moreover have "covered ?acts" "quiet ?acts" using assms(2,3,5) by (auto simp: quiet_def split: option.split)
  ultimately show ?thesis using ad by (auto simp: seg_ok_def)
qed

lemma close_ok:
  assumes "pchans p h" "pr_heap p a = Some c"
  shows "seg_ok h p (dc_channel_close_owner_impl_mode env a r p)"
proof (cases "ch_closing c")
  case True
  with assms show ?thesis by (auto simp: dc_channel_close_owner_impl_mode_def quiet_def same_leases_def)
next
  case False
  let ?p = "p\<lparr>pr_heap := (pr_heap p)(a \<mapsto> c\<lparr>ch_closing := True, ch_is_open := False, ch_callback_refs := ch_callback_refs c + 1\<rparr>),
    pr_channels := (pr_channels p)(ch_id c := None)\<rparr>"
  have pub: "pr_channels p (ch_id c) = Some a" using chansD(5) [OF assms False] .
  have "pchans ?p (\<lambda>b. h b + held b [Release a])" using chans_close [OF assms False] by (simp add: ref_added)
  moreover have "covered [Release a]" "quiet [Release a]" by (simp_all add: quiet_def)
  ultimately show ?thesis using False assms(2) pub
    by (auto simp: dc_channel_close_owner_impl_mode_def peer_defs seg_ok_def same_leases_def Let_def split: prod.split)
qed

lemma release_ok:
  assumes "pchans p (\<lambda>b. h b + (if b = a then 1 else 0))"
  shows "\<exists>p'. dc_channel_release a p = Some p' \<and> pchans p' h \<and> same_leases p p'"
proof -
  let ?h = "\<lambda>b. h b + (if b = a then 1 else 0)"
  obtain c where c: "pr_heap p a = Some c" using chans_live [OF assms, of a] by auto
  have h: "?h(a := ?h a - 1) = h" by auto
  have "0 < ch_callback_refs c" using chansD(2) [OF assms c] by (metis add_is_0 if_True neq0_conv unat_0 word_neq_0_conv zero_neq_one)
  with chans_release [OF assms c] h c show ?thesis
    by (cases "ch_closing c \<and> ch_callback_refs c - 1 = 0") (auto simp: dc_channel_release_def peer_defs same_leases_def Let_def)
qed

lemma rollback_ok:
  assumes "pchans p h" "pr_heap p a = Some c" "0 < h a"
  shows "pchans (fst (dcep_rollback env a c p)) h \<and> same_leases p (fst (dcep_rollback env a c p))"
proof (cases "ch_closing c")
  case True
  with assms show ?thesis by (simp add: dcep_rollback_def same_leases_def)
next
  case False
  have pub: "pr_channels p (ch_id c) = Some a" using chansD(5) [OF assms(1,2) False] .
  have "pchans (p\<lparr>pr_heap := (pr_heap p)(a \<mapsto> c\<lparr>ch_closing := True, ch_is_open := False\<rparr>), pr_channels := (pr_channels p)(ch_id c := None)\<rparr>) h"
    using chans_retire [OF assms] by simp
  with False pub show ?thesis
    by (auto simp: dcep_rollback_def peer_defs same_leases_def Let_def split: prod.split)
qed

lemma ack_ok:
  assumes "pchans p (\<lambda>b. h b + (if b = a then 1 else 0))"
  shows "seg_ok h p (dcep_ack_segment env a p)"
proof -
  obtain c where c: "pr_heap p a = Some c" using chans_live [OF assms, of a] by auto
  have "pchans (fst (dcep_rollback env a c p)) (\<lambda>b. h b + (if b = a then 1 else 0)) \<and> same_leases p (fst (dcep_rollback env a c p))"
    by (rule rollback_ok [OF assms c]) simp
  with assms c show ?thesis
    by (auto simp: dcep_ack_segment_def seg_ok_def quiet_def same_leases_def split: prod.split)
qed

lemma in_place_ok:
  assumes "pchans p h" "pr_heap p a = Some c" "ch_id c' = ch_id c" "ch_callback_refs c' = ch_callback_refs c" "ch_closing c' = ch_closing c"
  shows "pchans (put_channel a c' p) h \<and> same_leases p (put_channel a c' p)"
  using chans_same [OF assms] by (simp add: peer_defs same_leases_def)

lemma unchanged_ok [simp]: "pchans p h \<Longrightarrow> seg_ok h p (Some (p, outs, []))"
  by (auto simp: quiet_def same_leases_def)

lemma channel_segments_ok:
  assumes "pchans p h" "pr_heap p a = Some c"
  shows "seg_ok h p (dcep_commit_segment a p)" "seg_ok h p (dcep_opened_segment a p)" "seg_ok h p (dcep_acked_segment a p)"
    "seg_ok h p (deliver_segment a d b p)"
  using assms in_place_ok [OF assms, of "c\<lparr>ch_is_open := True\<rparr>"]
  by (auto simp: dcep_commit_segment_def dcep_opened_segment_def dcep_acked_segment_def deliver_segment_def quiet_def)

lemma fresh_segment: "pchans p h \<Longrightarrow> same_leases p p' \<Longrightarrow> pchans p' h \<Longrightarrow> seg_ok h p (Some (p', outs, []))"
  by (auto simp: quiet_def)

lemma state_only:
  "pr_heap (fst (dc_notify_state st p)) = pr_heap p" "pr_next (fst (dc_notify_state st p)) = pr_next p"
  "pr_channels (fst (dc_notify_state st p)) = pr_channels p" "pr_channel_ids (fst (dc_notify_state st p)) = pr_channel_ids p"
  "same_leases p (fst (dc_notify_state st p))" "pr_state (fst (dc_notify_state st p)) \<in> {pr_state p, st}"
  by (simp_all add: dc_notify_state_def same_leases_def)

lemma shutdown_only:
  "pr_heap (fst (peer_shutdown p)) = pr_heap p" "pr_next (fst (peer_shutdown p)) = pr_next p"
  "pr_channels (fst (peer_shutdown p)) = pr_channels p" "pr_channel_ids (fst (peer_shutdown p)) = pr_channel_ids p"
  "same_leases p (fst (peer_shutdown p))"
  using state_only [where st = DC_CLOSED and p = "p\<lparr>pr_socket := False\<rparr>"] by (simp_all add: peer_shutdown_def dc_notify_closed_def same_leases_def)

lemma reset_next_ok: "pchans p h \<Longrightarrow> seg_ok h p (reset_next_stream assoc sids r p)"
proof (cases sids)
  case (Cons sid rest)
  assume "pchans p h"
  let ?p = "p\<lparr>pr_reassembly := sctp_reassembly_clear_stream assoc sid (pr_reassembly p)\<rparr>"
  have "seg_ok h ?p (do { (ch, p1) \<leftarrow> dc_channel_admit sid ?p;
      Some (p1, [], (case ch of None \<Rightarrow> [] | Some a \<Rightarrow> [Close_Channel a r, Release a]) @ [Reset_Streams assoc rest r]) })"
    by (rule admitted_ok) (use \<open>pchans p h\<close> in \<open>simp_all add: quiet_def\<close>)
  then show ?thesis
    by (auto simp: Cons reset_next_stream_def dc_channel_handle_stream_reset_def seg_ok_def same_leases_def bind_eq_Some_conv split_beta)
qed (simp add: reset_next_stream_def)

lemma exec_act_ok:
  assumes "pchans p (\<lambda>b. h b + holds b act)" "\<And>a. uses act = Some a \<Longrightarrow> 0 < h a" "act \<noteq> Lease" "act \<noteq> Transport_Return"
    and "\<And>op. act \<noteq> Task op"
  shows "seg_ok h p (exec_act env act p)"
proof -
  have live: "\<exists>c. pr_heap p a = Some c" if "uses act = Some a" for a using chans_live [OF assms(1), of a] assms(2) [OF that] by simp
  show ?thesis
  proof (cases act)
    case (Release a)
    with release_ok [of p h a] assms(1) show ?thesis by (auto simp: exec_act_def fresh_segment intro!: seg_okI simp: quiet_def)
  next
    case (Dcep_Ack a)
    with ack_ok [of p h a] assms(1) show ?thesis by (simp add: exec_act_def)
  next
    case Peer_Shutdown
    with assms(1) shutdown_only [of p] show ?thesis by (auto simp: exec_act_def quiet_def split: prod.split)
  qed (use assms live close_ok channel_segments_ok reset_next_ok in
      \<open>auto simp: exec_act_def quiet_def same_leases_def dc_set_peer_error_def await_transport_def\<close>)
qed

section \<open>Calls\<close>

lemma alloc_from_fresh: "alloc_from ids i = Some j \<Longrightarrow> j \<notin> ids"
proof (induction ids i rule: alloc_from.induct)
  case (1 ids i)
  then show ?case by (subst (asm) (2) alloc_from.simps) (auto split: if_splits)
qed

lemma alloc_id_ok:
  assumes "peer_alloc_channel_id p = Some (i, p1)"
  shows "i \<notin> pr_channel_ids p \<and> p1 = p\<lparr>pr_channel_ids := insert i (pr_channel_ids p)\<rparr>"
  using assms alloc_from_fresh by (auto simp: peer_alloc_channel_id_def bind_eq_Some_conv)

lemma chans_fresh: "chans heap n pub ids h \<Longrightarrow> heap n = None \<and> h n = 0"
  by (cases "heap n") (auto simp: chans_def)

lemma configured_fields [simp]:
  "ch_id (configured_channel i l config) = i" "\<not> ch_closing (configured_channel i l config)" "ch_callback_refs (configured_channel i l config) = 0"
  by (simp_all add: configured_channel_def zero_channel_def Let_def)

lemma channel_create_ok:
  assumes "pchans p h"
  shows "pchans (snd (dc_channel_create_owner_impl env label config p)) h \<and> same_leases p (snd (dc_channel_create_owner_impl env label config p))"
proof -
  have new: "chans ((pr_heap p)(pr_next p \<mapsto> configured_channel i l config)) (Suc (pr_next p)) ((pr_channels p)(i \<mapsto> pr_next p)) (insert i (pr_channel_ids p)) h"
    if "i \<notin> pr_channel_ids p" for i l
  proof -
    have "h(pr_next p := 0) = h" using chans_fresh [OF assms] by (metis fun_upd_triv)
    with chans_new [OF assms, of "configured_channel i l config" 0] that show ?thesis by simp
  qed
  have freed: "insert i (pr_channel_ids p) - {i} = pr_channel_ids p" if "i \<notin> pr_channel_ids p" for i using that by simp
  show ?thesis
    using assms new freed alloc_id_ok [of p]
    by (auto simp: dc_channel_create_owner_impl_def peer_defs peer_set_channel_def same_leases_def Let_def split: option.split prod.split)
qed

lemma publish_ok:
  assumes "pchans p h" "\<not> ch_closing c"
  shows "seg_ok h p (Some (dcep_publish env c p))"
proof -
  let ?c = "c\<lparr>ch_callback_refs := 1\<rparr>" and ?n = "pr_next p"
  have n: "h ?n = 0" using chans_fresh [OF assms(1)] by simp
  have "chans ((pr_heap p)(?n \<mapsto> ?c)) (Suc ?n) ((pr_channels p)(ch_id c \<mapsto> ?n)) (insert (ch_id c) (pr_channel_ids p)) (\<lambda>b. h b + held b [Dcep_Ack ?n])"
    if "ch_id c \<notin> pr_channel_ids p"
  proof -
    have "h(?n := 1) = (\<lambda>b. h b + held b [Dcep_Ack ?n])" using n by auto
    with chans_new [OF assms(1), of ?c 1] assms(2) that show ?thesis by simp
  qed
  with assms(1) show ?thesis
    by (auto simp: dcep_publish_def peer_defs peer_set_channel_def same_leases_def quiet_def seg_ok_def Let_def split: option.split)
qed

lemma request_fields: "dcep_open_request sid data = Some c \<Longrightarrow> \<not> ch_closing c \<and> ch_id c = sid \<and> \<not> ch_is_open c \<and> \<not> ch_dcep_sent c"
  by (auto simp: dcep_open_request_def zero_channel_def Let_def split: if_splits)

lemma dcep_ok: "pchans p h \<Longrightarrow> seg_ok h p (dcep_handle_message env sid data p)"
  using publish_ok request_fields admitted_ok [where f = Dcep_Acked and rest = "[]" and p = p and h = h and i = sid]
  by (auto simp: dcep_handle_message_def quiet_def split: option.split)

lemma message_ok: "pchans p h \<Longrightarrow> seg_ok h p (sctp_message env sid ppid data p)"
  using dcep_ok admitted_ok [where rest = "[]" and p = p and h = h and i = sid]
  by (auto simp: sctp_message_def quiet_def dc_set_peer_error_def same_leases_def split: sum.split)

lemma fail_ok: "pchans p h \<Longrightarrow> seg_ok h p (Some (dc_fail_peer code detail p))"
  by (auto simp: dc_fail_peer_def seg_ok_def quiet_def dc_set_peer_error_def same_leases_def Let_def)

lemma inbound_ok:
  assumes "pchans p h"
  shows "seg_ok h p (sctp_inbound_data env rcv eor data p)"
proof -
  let ?r = "sctp_reassemble_message (e_malloc env) (pr_reassembly p) rcv eor (Some data) (length data)"
  let ?p = "p\<lparr>pr_reassembly := snd ?r\<rparr>"
  have "seg_ok h ?p s \<Longrightarrow> seg_ok h p s" for s by (auto simp: seg_ok_def same_leases_def)
  moreover have "pchans ?p h" using assms by simp
  ultimately show ?thesis using message_ok [of ?p h] fail_ok [of ?p h]
    by (auto simp: sctp_inbound_data_def quiet_def dc_set_peer_error_def same_leases_def Let_def split_beta split: reassembly_result.split)
qed

lemma admit_all_ok:
  "pchans p h \<Longrightarrow> \<exists>as p'. admit_all is p = Some (as, p') \<and> same_leases p p' \<and> pchans p' (\<lambda>b. h b + count_list as b)"
proof (induction "is" arbitrary: p h)
  case Nil
  then show ?case by (simp add: same_leases_def)
next
  case (Cons i "is")
  show ?case
  proof (cases "pr_channels p i")
    case None
    with Cons.IH [OF Cons.prems] show ?thesis by (simp add: peer_get_channel_def)
  next
    case (Some a)
    from chans_published [OF Cons.prems Some] obtain c where c: "pr_heap p a = Some c" by blast
    show ?thesis
    proof (cases "admissible_channel c")
      case True
      then have "pchans (take_ref a c p) (h(a := Suc (h a)))" using chans_ref [OF Cons.prems c] by (simp add: peer_defs)
      from Cons.IH [OF this] obtain as p' where r: "admit_all is (take_ref a c p) = Some (as, p')" "same_leases (take_ref a c p) p'"
        "pchans p' (\<lambda>b. (h(a := Suc (h a))) b + count_list as b)" by blast
      have "(\<lambda>b. (h(a := Suc (h a))) b + count_list as b) = (\<lambda>b. h b + count_list (a # as) b)" by auto
      with r True Some c show ?thesis by (auto simp: peer_get_channel_def same_leases_def take_ref_def put_channel_def)
    next
      case False
      with Cons.IH [OF Cons.prems] Some c show ?thesis by (simp add: peer_get_channel_def)
    qed
  qed
qed

lemma close_all_acts:
  "held b (concat (map (\<lambda>a. [Close_Channel a r, Release a]) as)) = count_list as b"
  "covered (concat (map (\<lambda>a. [Close_Channel a r, Release a]) as))" "quiet (concat (map (\<lambda>a. [Close_Channel a r, Release a]) as))"
  by (induction as) (auto simp: quiet_def)

lemma notification_ok:
  assumes "pchans p h"
  shows "seg_ok h p (sctp_notification env n p)"
proof (cases n)
  case (Assoc_Change st)
  have "seg_ok h p (Some (fst (dc_notify_state DC_CONNECTED (p\<lparr>pr_connected := True\<rparr>)), outs, []))" for outs
    using assms state_only [where st = DC_CONNECTED and p = "p\<lparr>pr_connected := True\<rparr>"] by (auto simp: quiet_def same_leases_def)
  then show ?thesis using assms
    by (cases st) (auto simp: Assoc_Change sctp_notification_def quiet_def same_leases_def split_beta)
next
  case (Partial_Delivery len e)
  with assms show ?thesis
    by (auto simp: sctp_notification_def sctp_handle_partial_delivery_event_def quiet_def same_leases_def dc_set_peer_error_def)
next
  case (Stream_Reset_Notice len e)
  let ?p = "p\<lparr>pr_reassembly := sctp_reassembly_clear_all (pr_reassembly p)\<rparr>"
  have "pchans ?p h" using assms by simp
  from admit_all_ok [OF this, of "e_order env"] obtain as p'
    where "admit_all (e_order env) ?p = Some (as, p')" "same_leases ?p p'" "pchans p' (\<lambda>b. h b + count_list as b)" by blast
  then have "seg_ok h p (dc_channel_handle_all_streams_reset env r ?p)" for r
    using assms close_all_acts
    by (auto simp: dc_channel_handle_all_streams_reset_def seg_ok_def quiet_def same_leases_def dc_set_peer_error_def)
  then show ?thesis using assms
    by (auto simp: Stream_Reset_Notice sctp_notification_def sctp_handle_stream_reset_event_def quiet_def same_leases_def Let_def)
qed

lemma open_ok:
  assumes "pchans p h" "pr_heap p a = Some c"
  shows "seg_ok h p (map_option with_result (dc_channel_open_owner_impl env a p))"
  using assms in_place_ok [OF assms, of "c\<lparr>ch_dcep_sent := True\<rparr>"]
  by (auto simp: dc_channel_open_owner_impl_def dcep_send_open_def with_result_def dc_set_peer_error_def same_leases_def quiet_def Let_def split: prod.split)

lemma send_ok:
  assumes "pchans p h" "pr_heap p a = Some c"
  shows "seg_ok h p (map_option with_result (dc_channel_send_owner_impl env a d b p))"
  using assms
  by (auto simp: dc_channel_send_owner_impl_def with_result_def dc_set_peer_error_def same_leases_def quiet_def Let_def split: option.split prod.split)

lemma callback_ok:
  assumes "pchans p h" "pr_heap p a = Some c"
  shows "seg_ok h p (map_option (\<lambda>p'. (p', [], [])) (dc_channel_callback_owner_task a k cb p))"
  using assms in_place_ok [OF assms, of "c\<lparr>ch_on_open := cb\<rparr>"] in_place_ok [OF assms, of "c\<lparr>ch_on_message := cb\<rparr>"]
    in_place_ok [OF assms, of "c\<lparr>ch_on_close := cb\<rparr>"]
  by (cases k) (auto simp: dc_channel_callback_owner_task_def quiet_def)

lemma close_only:
  "pr_heap (fst (dc_peer_close_impl p)) = pr_heap p" "pr_next (fst (dc_peer_close_impl p)) = pr_next p"
  "pr_channels (fst (dc_peer_close_impl p)) = pr_channels p" "pr_channel_ids (fst (dc_peer_close_impl p)) = pr_channel_ids p"
  "same_leases p (fst (dc_peer_close_impl p))"
  by (simp_all add: dc_peer_close_impl_def sctp_session_cleanup_def dc_notify_state_def same_leases_def Let_def)

lemma peer_close_ok: "pchans p h \<Longrightarrow> seg_ok h p (Some (dc_peer_close_impl p))"
  using state_only [where st = DC_DISCONNECTING and p = "sctp_session_cleanup p"]
  by (auto simp: dc_peer_close_impl_def seg_ok_def quiet_def same_leases_def sctp_session_cleanup_def Let_def split_beta)

lemma call_ok:
  assumes "pchans p h" "names_live op p" "\<And>d. op \<noteq> Packet d"
  shows "seg_ok h p (dc_call op p)"
proof (cases op)
  case (Create env label config)
  then show ?thesis using channel_create_ok [OF assms(1), of env label config] by (auto simp: quiet_def split_beta)
next
  case (Set_Peer_Callback kind cb)
  then show ?thesis using assms(1) by (cases kind) (auto simp: dc_peer_callback_owner_task_def quiet_def same_leases_def)
qed (use assms open_ok send_ok callback_ok close_ok inbound_ok notification_ok peer_close_ok in
    \<open>auto simp: names_live_def dc_peer_set_role_owner_task_def dc_external_handshake_task_def turbo_dc_peer_set_transport_data_handler_def quiet_def same_leases_def
      split: prod.split\<close>)

section \<open>Steps\<close>

lemma thread_ok_leases:
  assumes "thread_ok t"
  shows "weight is_transport t \<le> weight is_lease t" "t \<noteq> [] \<Longrightarrow> 0 < weight is_lease t"
  using assms by (auto simp: thread_ok_def is_lease_def is_transport_def)

lemma tally_mono: "(\<And>t. t \<in> set ts \<Longrightarrow> weight f t \<le> weight g t) \<Longrightarrow> tally f ts \<le> tally g ts"
  by (induction ts) (auto intro: add_mono)

lemma transports_le: "\<forall>t\<in>set ts. thread_ok t \<Longrightarrow> tally is_transport ts \<le> tally is_lease ts"
  by (rule tally_mono) (use thread_ok_leases in blast)

lemma all_ended:
  assumes "dc_inv (p, ts)" "pr_active_operations p = 0"
  shows "\<forall>t\<in>set ts. t = []"
proof -
  have "(of_nat (tally is_lease ts) :: u32) = 0" "tally is_lease ts < 4294967296" using assms by (simp_all add: dc_inv_def)
  then have "tally is_lease ts = 0" using unat_of_nat [of "tally is_lease ts", where 'a = 32] by simp
  then show ?thesis using tally_member [of _ ts is_lease] thread_ok_leases(2) assms(1) unfolding dc_inv_def by fastforce
qed

lemma in_lease_ok:
  assumes "dc_inv (p, ts)" "tally is_lease ts < 4294967295" "names_live op p"
  shows "\<exists>s outs. in_lease op (p, ts) = Some (s, outs) \<and> dc_inv s"
proof (cases "pr_destroying p")
  case False
  let ?p = "p\<lparr>pr_active_operations := pr_active_operations p + 1\<rparr>"
  have "thread_ok [Task op, Lease]" by (auto simp: thread_ok_def is_transport_def intro: exI [of _ "[Task op]"])
  then have "dc_inv (?p, ts @ [[Task op, Lease]])" using assms(1,2) by (simp add: dc_inv_def is_lease_def is_transport_def)
  with False assms(3) show ?thesis by (simp add: in_lease_def dc_peer_acquire_def)
qed (use assms in \<open>simp add: in_lease_def dc_peer_acquire_def\<close>)

lemma tally_push: "k < length ts \<Longrightarrow> tally f (ts[k := acts @ rest]) = tally f (ts[k := rest]) + weight f acts"
  using tally_update [of k ts f "acts @ rest"] tally_update [of k ts f rest] by simp

lemma tally_pop: "k < length ts \<Longrightarrow> ts ! k = act # rest \<Longrightarrow> tally f ts = tally f (ts[k := rest]) + f act"
  using tally_update [of k ts f rest] by simp

lemma ended_ok: "thread_ok []"
  by (simp add: thread_ok_def)

lemma threads_update: "\<forall>t\<in>set ts. thread_ok t \<Longrightarrow> thread_ok t' \<Longrightarrow> \<forall>t\<in>set (ts[k := t']). thread_ok t"
  using set_update_subset_insert [of ts k t'] by blast

lemma counter_down:
  assumes "(w :: u32) = of_nat (n + 1)" "n + 1 < 4294967296"
  shows "w > 0 \<and> w - 1 = of_nat n"
proof -
  have "unat w = n + 1" using assms unat_of_nat [of "n + 1", where 'a = 32] by simp
  then have "w \<noteq> 0" by auto
  with assms(1) show ?thesis by (simp add: word_neq_0_conv)
qed

text \<open>A call goes on: the act at its head is replaced by the acts that are left of it.\<close>

lemma resumed_inv:
  assumes "dc_inv (p, ts)" "k < length ts" "ts ! k = act # rest" "thread_ok (acts @ rest)"
    and "is_lease act = 0" "weight is_lease acts = 0" "pchans p' (\<lambda>a. tally (holds a) (ts[k := rest]) + held a acts)"
    and "pr_active_operations p' = pr_active_operations p"
    and "pr_transport_callbacks p' + of_nat (is_transport act) = pr_transport_callbacks p + of_nat (weight is_transport acts)"
  shows "dc_inv (p', ts[k := acts @ rest])"
proof -
  have ok: "\<forall>t\<in>set ts. thread_ok t" using assms(1) by (simp add: dc_inv_def)
  note pop = tally_pop [OF assms(2,3)] and push = tally_push [OF assms(2)]
  have "pr_transport_callbacks p = of_nat (tally is_transport (ts[k := rest]) + is_transport act)" using assms(1) pop by (simp add: dc_inv_def)
  with assms(9) have "pr_transport_callbacks p' = of_nat (tally is_transport (ts[k := acts @ rest]))" by (simp add: push)
  with assms threads_update [OF ok assms(4), of k] show ?thesis by (simp add: dc_inv_def push pop [of is_lease])
qed

lemma segment_resumed:
  assumes "dc_inv (p, ts)" "k < length ts" "ts ! k = act # ys @ [Lease]" "is_lease act = 0" "is_transport act = 0"
    and "covered ys" "Lease \<notin> set ys" "weight is_transport ys \<le> 1" "\<And>op. Task op \<notin> set ys"
    and "seg_ok (\<lambda>a. tally (holds a) (ts[k := ys @ [Lease]])) p s"
  shows "\<exists>p' outs acts. s = Some (p', outs, acts) \<and> dc_inv (p', ts[k := acts @ ys @ [Lease]])"
proof -
  from assms(10) obtain p' outs acts where r: "s = Some (p', outs, acts)" "pchans p' (\<lambda>a. tally (holds a) (ts[k := ys @ [Lease]]) + held a acts)"
    "covered acts" "quiet acts" "same_leases p p'" unfolding seg_ok_def by blast
  have "thread_ok (acts @ ys @ [Lease])"
    unfolding thread_ok_def using r(3,4) assms(6-9) quiet_tally [OF r(4)] covered_append [of acts ys]
    by (intro disjI2 exI [of _ "acts @ ys"]) (auto simp: quiet_def)
  with resumed_inv [OF assms(1-3) _ assms(4)] assms(5) r quiet_tally [OF r(4)] show ?thesis by (auto simp: same_leases_def)
qed

lemma task_resumed:
  assumes "dc_inv (p, ts)" "k < length ts" "ts ! k = [Task op, Lease]" "e_posted env \<longrightarrow> names_live op p"
  shows "\<exists>p' outs acts. exec_act env (Task op) p = Some (p', outs, acts) \<and> dc_inv (p', ts[k := acts @ [Lease]])"
proof -
  have n: "is_lease (Task op) = 0" "is_transport (Task op) = 0" by (simp_all add: is_lease_def is_transport_def)
  have inv: "pchans p (\<lambda>a. tally (holds a) (ts[k := [Lease]]))" using assms(1) tally_pop [OF assms(2,3)] by (simp add: dc_inv_def)
  show ?thesis
  proof (cases "\<exists>d. op = Packet d \<and> e_posted env")
    case True
    then obtain d where d: "op = Packet d" "e_posted env" by blast
    obtain p' outs acts where r: "dc_handle_incoming_packet d p = (p', outs, acts)" by (cases "dc_handle_incoming_packet d p") auto
    then have "acts = [] \<or> acts = [Transport_Return]" by (auto simp: dc_handle_incoming_packet_def split: if_splits option.splits)
    then have "thread_ok (acts @ [Lease])" "weight is_lease acts = 0" by (auto simp: thread_ok_def is_transport_def is_lease_def)
    moreover have "pchans p' (\<lambda>a. tally (holds a) (ts[k := [Lease]]) + held a acts)" "pr_active_operations p' = pr_active_operations p"
      "pr_transport_callbacks p' = pr_transport_callbacks p + of_nat (weight is_transport acts)"
      using inv r by (auto simp: dc_handle_incoming_packet_def is_transport_def split: if_splits option.splits)
    ultimately show ?thesis using resumed_inv [OF assms(1-3) _ n(1), of acts p'] n(2) r d by (simp add: exec_act_def)
  next
    case False
    have "posts op \<or> names_live op p" by (cases op) (simp_all add: names_live_def)
    then have "seg_ok (\<lambda>a. tally (holds a) (ts[k := [] @ [Lease]])) p (exec_act env (Task op) p)"
      using inv False assms(4) call_ok [OF inv, of op] by (cases op) (auto simp: exec_act_def)
    from segment_resumed [OF assms(1,2) _ n _ _ _ _ this] assms(3) show ?thesis by (simp add: is_transport_def)
  qed
qed

lemma resume_ok:
  assumes "dc_inv (p, ts)" "\<And>op. k < length ts \<Longrightarrow> ts ! k = [Task op, Lease] \<Longrightarrow> e_posted env \<Longrightarrow> names_live op p"
  shows "\<exists>s outs. resume env k (p, ts) = Some (s, outs) \<and> dc_inv s"
proof (cases "k < length ts \<and> ts ! k \<noteq> []")
  case False
  then show ?thesis using assms(1) by (auto simp: resume_def)
next
  case True
  then obtain act rest where k: "k < length ts" "ts ! k = act # rest" by (cases "ts ! k") auto
  have ok: "\<forall>t\<in>set ts. thread_ok t" using assms(1) by (simp add: dc_inv_def)
  then have "thread_ok (act # rest)" using nth_mem [OF k(1)] k(2) by simp
  then obtain xs where xs: "act # rest = xs @ [Lease]" "covered xs" "Lease \<notin> set xs" "weight is_transport xs \<le> 1"
    "\<And>op. Task op \<in> set xs \<Longrightarrow> xs = [Task op]" by (auto simp: thread_ok_def)
  note pop = tally_pop [OF k]
  have inv: "pchans p (\<lambda>b. tally (holds b) (ts[k := rest]) + holds b act)" using assms(1) pop by (simp add: dc_inv_def)
  show ?thesis
  proof (cases xs)
    case Nil
    then have a: "act = Lease" "rest = []" using xs(1) by simp_all
    have "pr_active_operations p = of_nat (tally is_lease (ts[k := []]) + 1)" "tally is_lease (ts[k := []]) + 1 < 4294967296"
      using assms(1) pop [of is_lease] a by (simp_all add: dc_inv_def is_lease_def)
    from counter_down [OF this] have "dc_inv (dc_peer_release p, ts[k := []])"
      using assms(1) inv a threads_update [OF ok ended_ok, of k] pop [of is_transport] pop [of is_lease]
      by (simp add: dc_inv_def dc_peer_release_def is_lease_def is_transport_def)
    then show ?thesis using k a by (simp add: resume_def exec_act_def)
  next
    case (Cons x ys)
    then have a: "x = act" "rest = ys @ [Lease]" "act \<noteq> Lease" using xs(1,3) by auto
    then have l: "is_lease act = 0" by (simp add: is_lease_def)
    consider (task) op where "act = Task op" | (callback) "act = Transport_Return" | (other) "\<And>op. act \<noteq> Task op" "act \<noteq> Transport_Return" by blast
    then show ?thesis
    proof cases
      case task
      then have "ys = []" using xs(5) [of op] Cons a by simp
      with task_resumed [OF assms(1) k(1), of op env] assms(2) k a task show ?thesis by (fastforce simp: resume_def)
    next
      case callback
      have n: "is_transport act = 1" using callback by (simp add: is_transport_def)
      have "\<And>op. Task op \<notin> set ys" using xs(5) Cons a callback by auto
      then have t: "thread_ok ([] @ rest)" using xs a Cons by (auto simp: thread_ok_def)
      have "tally is_transport ts < 4294967296" using transports_le [OF ok] assms(1) by (simp add: dc_inv_def)
      with counter_down [of "pr_transport_callbacks p" "tally is_transport (ts[k := rest])"] pop [of is_transport] n assms(1)
      have "0 < pr_transport_callbacks p" by (simp add: dc_inv_def)
      then have "dc_inv (transport_return p, ts[k := [] @ rest])"
        using resumed_inv [OF assms(1) k t l, of "transport_return p"] inv n callback by (simp add: transport_return_def)
      then show ?thesis using k callback by (simp add: resume_def exec_act_def)
    next
      case other
      have n: "is_transport act = 0" using other(2) by (simp add: is_transport_def)
      have ys: "covered ys" "Lease \<notin> set ys" "weight is_transport ys \<le> 1" "\<And>op. Task op \<notin> set ys"
        using xs(2-5) Cons a other(1) by auto
      have u: "0 < tally (holds b) (ts[k := rest])" if "uses act = Some b" for b
      proof -
        have "0 < held b rest" using xs(2) Cons a that by simp
        also have "\<dots> \<le> tally (holds b) (ts[k := rest])" using k(1) set_update_memI [of k ts rest] by (intro tally_member) auto
        finally show ?thesis .
      qed
      have "seg_ok (\<lambda>b. tally (holds b) (ts[k := ys @ [Lease]])) p (exec_act env act p)"
        using exec_act_ok [OF inv u a(3) other(2,1), of env] a(2) by simp
      from segment_resumed [OF assms(1) k(1) _ l n ys this] k a(2) show ?thesis by (fastforce simp: resume_def)
    qed
  qed
qed

section \<open>Destruction\<close>

lemma free_published_ok:
  "chans (pr_heap p) (pr_next p) (pr_channels p) ids (\<lambda>_. 0) \<Longrightarrow>
     \<exists>p' ids'. free_published is p = Some p' \<and> chans (pr_heap p') (pr_next p') (pr_channels p') ids' (\<lambda>_. 0)
       \<and> dom (pr_channels p') = dom (pr_channels p) - set is \<and> same_leases p p'"
proof (induction "is" arbitrary: p ids)
  case Nil
  then show ?case by (auto simp: same_leases_def)
next
  case (Cons i "is")
  show ?case
  proof (cases "pr_channels p i")
    case None
    then have "dom (pr_channels p) - set is = dom (pr_channels p) - set (i # is)" by auto
    with Cons.IH [OF Cons.prems] None show ?thesis by (simp add: peer_get_channel_def)
  next
    case (Some a)
    from chans_published [OF Cons.prems Some] obtain c where c: "pr_heap p a = Some c" "ch_id c = i" by blast
    let ?p = "free_channel a (peer_remove_channel i p)"
    have "chans (pr_heap ?p) (pr_next ?p) (pr_channels ?p) (ids - {i}) (\<lambda>_. 0)"
      using chans_free [OF Cons.prems c(1), of "\<lambda>_. 0"] c(2) by (simp add: peer_defs)
    from Cons.IH [OF this] obtain p' ids' where r: "free_published is ?p = Some p'"
      "chans (pr_heap p') (pr_next p') (pr_channels p') ids' (\<lambda>_. 0)" "dom (pr_channels p') = dom (pr_channels ?p) - set is" "same_leases ?p p'" by blast
    have "dom (pr_channels ?p) - set is = dom (pr_channels p) - set (i # is)" by (auto simp: peer_defs split: if_splits)
    with r Some c show ?thesis by (auto simp: peer_get_channel_def same_leases_def peer_defs)
  qed
qed

lemma idle_published:
  assumes "chans heap n pub ids (\<lambda>_. 0)" "dom pub = {}"
  shows "heap = Map.empty"
proof
  fix a show "heap a = None"
    using chansD [OF assms(1), of a] assms(2) by (cases "heap a") force+
qed

lemma destroy_resources_ok:
  assumes "pchans p (\<lambda>_. 0)" "dom (pr_channels p) = set (e_order env)"
  shows "\<exists>p' outs. dc_peer_destroy_resources_owner_task env p = Some (p', outs) \<and> \<not> pr_alive p' \<and> pr_heap p' = Map.empty
    \<and> pr_channels p' = Map.empty \<and> pr_channel_ids p' = {} \<and> pr_active_operations p' = pr_active_operations p
    \<and> pr_transport_callbacks p' = pr_transport_callbacks p"
proof -
  obtain p1 outs1 acts where cl: "dc_peer_close_impl p = (p1, outs1, acts)" by (cases "dc_peer_close_impl p") auto
  have 1: "pr_heap p1 = pr_heap p" "pr_next p1 = pr_next p" "pr_channels p1 = pr_channels p" "pr_channel_ids p1 = pr_channel_ids p" "same_leases p p1"
    using close_only [of p] cl by simp_all
  obtain p2 outs2 where sh: "(if acts = [] then (p1, []) else peer_shutdown p1) = (p2, outs2)"
    by (cases "if acts = [] then (p1, []) else peer_shutdown p1") auto
  have 2: "pr_heap p2 = pr_heap p" "pr_next p2 = pr_next p" "pr_channels p2 = pr_channels p" "same_leases p p2"
    using sh 1 shutdown_only [of p1] by (auto simp: same_leases_def split: if_splits)
  let ?q = "p2\<lparr>pr_socket := False\<rparr>"
  have "chans (pr_heap ?q) (pr_next ?q) (pr_channels ?q) (pr_channel_ids p) (\<lambda>_. 0)" using assms(1) 2 by simp
  from free_published_ok [OF this, of "e_order env"] obtain p3 ids'
    where r: "free_published (e_order env) ?q = Some p3" "chans (pr_heap p3) (pr_next p3) (pr_channels p3) ids' (\<lambda>_. 0)"
      "dom (pr_channels p3) = {}" "same_leases ?q p3" using assms(2) 2 by auto
  have "pr_heap p3 = Map.empty" by (rule idle_published [OF r(2,3)])
  with r 2 cl sh show ?thesis by (simp add: dc_peer_destroy_resources_owner_task_def same_leases_def)
qed

lemma finish_ok:
  assumes "dc_inv (p, ts)" "dom (pr_channels p) = set (e_order env)"
  shows "\<exists>p' outs. dc_peer_finish_destroy env p = Some (p', outs) \<and> dc_inv (p', ts)
    \<and> (if pr_destroying p \<and> pr_active_operations p = 0 \<and> pr_transport_callbacks p = 0 \<and> e_posted env
       then \<not> pr_alive p' \<and> pr_heap p' = Map.empty \<and> (\<forall>t\<in>set ts. t = []) else p' = p)"
proof (cases "pr_destroying p \<and> pr_active_operations p = 0 \<and> pr_transport_callbacks p = 0 \<and> e_posted env")
  case False
  with assms(1) show ?thesis by (auto simp: dc_peer_finish_destroy_def)
next
  case True
  have e: "\<forall>t\<in>set ts. t = []" using all_ended [OF assms(1)] True by blast
  then have z: "tally f ts = 0" for f by (induction ts) simp_all
  have "pchans p (\<lambda>_. 0)" using assms(1) z by (simp add: dc_inv_def)
  from destroy_resources_ok [OF this assms(2)] obtain p' outs
    where r: "dc_peer_destroy_resources_owner_task env p = Some (p', outs)" "\<not> pr_alive p'" "pr_heap p' = Map.empty" "pr_channels p' = Map.empty"
      "pr_channel_ids p' = {}" "pr_active_operations p' = pr_active_operations p" "pr_transport_callbacks p' = pr_transport_callbacks p" by blast
  have "\<forall>t\<in>set ts. thread_ok t" using assms(1) by (simp add: dc_inv_def)
  then have "dc_inv (p', ts)" using r z True by (simp add: dc_inv_def chans_def)
  with r e True show ?thesis by (simp add: dc_peer_finish_destroy_def)
qed

section \<open>Runs\<close>

text \<open>What the environment promises: the peer is not used after it has been freed, fewer than \<open>2\<^sup>3\<^sup>2 - 1\<close> calls are in progress, the hash map visits
  exactly its keys, and a channel named by a call of the application has not been freed, neither when the call is made nor when its
  task runs.\<close>

definition dc_admissible :: "dc_op \<Rightarrow> dc_machine \<Rightarrow> bool" where
  "dc_admissible op s \<longleftrightarrow> pr_alive (fst s) \<and>
     (case op of
        Begin_Destroy on_owner \<Rightarrow> True
      | Resume k env \<Rightarrow> k < length (snd s) \<and> e_posted env \<longrightarrow>
          (case snd s ! k of Task call # _ \<Rightarrow> names_live call (fst s) | _ \<Rightarrow> True)
      | Finish_Destroy env \<Rightarrow> dom (pr_channels (fst s)) = set (e_order env)
      | _ \<Rightarrow> tally is_lease (snd s) < 4294967295 \<and> names_live op (fst s))"

text \<open>A machine whose steps are defined whenever they are admissible in the state they meet.\<close>

primrec allowed :: "('op \<Rightarrow> 's \<Rightarrow> bool) \<Rightarrow> ('op \<Rightarrow> 's \<Rightarrow> ('s \<times> 'o list) option) \<Rightarrow> 'op list \<Rightarrow> 's \<Rightarrow> bool" where
  "allowed adm step [] s \<longleftrightarrow> True"
| "allowed adm step (op # ops) s \<longleftrightarrow> adm op s \<and> (case step op s of None \<Rightarrow> True | Some (s', outs) \<Rightarrow> allowed adm step ops s')"

locale guarded =
  fixes inv :: "'s \<Rightarrow> bool" and adm :: "'op \<Rightarrow> 's \<Rightarrow> bool" and step :: "'op \<Rightarrow> 's \<Rightarrow> ('s \<times> 'o list) option"
  assumes step_defined: "inv s \<Longrightarrow> adm op s \<Longrightarrow> \<exists>s' outs. step op s = Some (s', outs) \<and> inv s'"
begin

lemma run_defined: "inv s \<Longrightarrow> allowed adm step ops s \<Longrightarrow> \<exists>s' outs. run_steps step ops s = Some (s', outs) \<and> inv s'"
proof (induction ops arbitrary: s)
  case (Cons op ops)
  then obtain s1 o1 where s1: "step op s = Some (s1, o1)" "inv s1" using step_defined [of s op] by auto
  with Cons.prems(2) have "allowed adm step ops s1" by simp
  from Cons.IH [OF s1(2) this] s1(1) show ?case by auto
qed simp

lemma run_kept: "inv s \<Longrightarrow> allowed adm step ops s \<Longrightarrow> run_steps step ops s = Some (s', outs) \<Longrightarrow> inv s'"
  using run_defined [of s ops] by auto

end

interpretation dc: guarded dc_inv dc_admissible dc_step
proof unfold_locales
  fix s op assume inv: "dc_inv s" and adm: "dc_admissible op s"
  obtain p ts where s: "s = (p, ts)" by fastforce
  have b: "dc_inv (dc_peer_begin_destroy o1 p, ts)" for o1 using inv s by (simp add: dc_inv_def dc_peer_begin_destroy_def)
  show "\<exists>s' outs. dc_step op s = Some (s', outs) \<and> dc_inv s'"
  proof (cases op)
    case (Begin_Destroy o1)
    with b adm s show ?thesis by (simp add: dc_step_def dc_admissible_def)
  next
    case (Finish_Destroy env)
    with adm s have "dom (pr_channels p) = set (e_order env)" by (simp add: dc_admissible_def)
    with finish_ok [of p ts env] inv s adm Finish_Destroy show ?thesis by (auto simp: dc_step_def dc_admissible_def)
  next
    case (Resume k env)
    have "names_live call p" if "k < length ts" "ts ! k = [Task call, Lease]" "e_posted env" for call
      using adm that s Resume by (simp add: dc_admissible_def)
    with resume_ok [where p = p and ts = ts and k = k and env = env] inv s adm Resume show ?thesis by (auto simp: dc_step_def dc_admissible_def)
  qed (use in_lease_ok [of p ts op] inv s adm in \<open>auto simp: dc_step_def dc_admissible_def\<close>)
qed

lemma peer_create_inv: "dc_inv (turbo_dc_peer_create srv dis, [])"
  by (simp add: dc_inv_def turbo_dc_peer_create_def chans_def)

section \<open>Freeing a channel while a call waits for the owner\<close>

lemma resume_last:
  "dc_step (Resume (length ts) env) (p, ts @ [act # rest]) =
     (if pr_alive p then do { (p', outs, acts) \<leftarrow> exec_act env act p; Some ((p', ts @ [acts @ rest]), outs) } else None)"
  by (simp add: dc_step_def resume_def)

lemma named_call: "names op = Some a \<Longrightarrow> pr_alive (fst s) \<Longrightarrow> dc_step op s = in_lease op s"
  by (cases op) (simp_all add: dc_step_def)

lemma freed_call: "names op = Some a \<Longrightarrow> pr_heap p a = None \<Longrightarrow> e_posted env \<Longrightarrow> exec_act env (Task op) p = None"
  by (cases op) (simp_all add: exec_act_def dc_channel_open_owner_impl_def dc_channel_send_owner_impl_def dc_channel_callback_owner_task_def
      dc_channel_close_owner_impl_mode_def)

text \<open>A stream that the other end resets.\<close>

definition resets_stream :: "u16 \<Rightarrow> nat \<Rightarrow> strreset_event \<Rightarrow> bool" where
  "resets_stream i len e \<longleftrightarrow> sr_length e = sr_header e + 2 \<and> sr_length e \<le> len \<and> \<not> sr_denied_or_failed e \<and> sr_incoming e \<and> sr_streams e = [i]"

definition unreferenced :: "u16 \<Rightarrow> nat \<Rightarrow> peer \<Rightarrow> bool" where
  "unreferenced i a p \<longleftrightarrow> pr_channels p i = Some a
     \<and> (case pr_heap p a of None \<Rightarrow> False | Some c \<Rightarrow> ch_id c = i \<and> \<not> ch_closing c \<and> ch_callback_refs c = 0)"

text \<open>The reset of a channel nobody refers to: it is admitted, closed and released twice, and the second release frees it.\<close>

lemma reset_segments:
  assumes "pr_channels_initialized p" "\<not> pr_destroying p" "unreferenced i a p" "pr_heap p a = Some c"
    and p1_def: "p1 = take_ref a c (p\<lparr>pr_reassembly := sctp_reassembly_clear_stream assoc i (pr_reassembly p)\<rparr>)"
  shows "exec_act env (Reset_Streams assoc [i] out) p = Some (p1, [], [Close_Channel a out, Release a, Reset_Streams assoc [] out])"
    "\<exists>p2 p3 p4 outs. exec_act env (Close_Channel a out) p1 = Some (p2, outs, [Release a]) \<and> exec_act env (Release a) p2 = Some (p3, [], [])
       \<and> exec_act env (Release a) p3 = Some (p4, [], []) \<and> pr_heap p4 a = None
       \<and> pr_alive p2 = pr_alive p \<and> pr_alive p3 = pr_alive p \<and> pr_alive p4 = pr_alive p"
proof -
  have c: "ch_id c = i" "\<not> ch_closing c" "ch_callback_refs c = 0" "pr_channels p i = Some a" using assms(3,4) by (simp_all add: unreferenced_def)
  then have "admissible_channel c" by (simp add: admissible_channel_def)
  then show "exec_act env (Reset_Streams assoc [i] out) p = Some (p1, [], [Close_Channel a out, Release a, Reset_Streams assoc [] out])"
    using assms(1,2,4) c by (simp add: exec_act_def reset_next_stream_def dc_channel_handle_stream_reset_def dc_channel_admit_def peer_get_channel_def p1_def)
  show "\<exists>p2 p3 p4 outs. exec_act env (Close_Channel a out) p1 = Some (p2, outs, [Release a]) \<and> exec_act env (Release a) p2 = Some (p3, [], [])
       \<and> exec_act env (Release a) p3 = Some (p4, [], []) \<and> pr_heap p4 a = None
       \<and> pr_alive p2 = pr_alive p \<and> pr_alive p3 = pr_alive p \<and> pr_alive p4 = pr_alive p"
    using c by (simp add: p1_def exec_act_def dc_channel_close_owner_impl_mode_def dc_channel_release_def peer_defs Let_def split_beta)
qed

lemma reset_frees:
  assumes "pr_alive p" "pr_channels_initialized p" "\<not> pr_destroying p" "unreferenced i a p" "resets_stream i len e"
  shows "\<exists>q outs out. run_steps dc_step (Notify env (Stream_Reset_Notice len e) # replicate 5 (Resume (length ts) env)) (p, ts)
      = Some ((q, ts @ [[Reset_Streams (sr_assoc_id e) [] out, Lease]]), outs) \<and> pr_heap q a = None \<and> pr_alive q"
proof -
  obtain c where c: "pr_heap p a = Some c" using assms(4) by (auto simp: unreferenced_def split: option.splits)
  let ?p = "p\<lparr>pr_active_operations := pr_active_operations p + 1\<rparr>" and ?op = "Notify env (Stream_Reset_Notice len e)"
    and ?out = "\<not> sr_outgoing e"
  have 0: "dc_step ?op (p, ts) = Some ((?p, ts @ [[Task ?op, Lease]]), [])"
    using assms(1,3) by (simp add: dc_step_def in_lease_def names_live_def dc_peer_acquire_def)
  have 1: "exec_act env (Task ?op) ?p = Some (?p, [], [Reset_Streams (sr_assoc_id e) [i] ?out])"
    using assms(5) by (simp add: exec_act_def sctp_notification_def sctp_handle_stream_reset_event_def resets_stream_def)
  have p: "pr_channels_initialized ?p" "\<not> pr_destroying ?p" "unreferenced i a ?p" "pr_heap ?p a = Some c"
    using assms(2-4) c by (simp_all add: unreferenced_def)
  let ?p1 = "take_ref a c (?p\<lparr>pr_reassembly := sctp_reassembly_clear_stream (sr_assoc_id e) i (pr_reassembly ?p)\<rparr>)"
  note 2 = reset_segments(1) [OF p refl, where env = env and out = ?out and assoc = "sr_assoc_id e"]
  from reset_segments(2) [OF p refl, where env = env and out = ?out and assoc = "sr_assoc_id e"] obtain p2 p3 p4 outs
    where 3: "exec_act env (Close_Channel a ?out) ?p1 = Some (p2, outs, [Release a])" "exec_act env (Release a) p2 = Some (p3, [], [])"
      "exec_act env (Release a) p3 = Some (p4, [], [])" "pr_heap p4 a = None" "pr_alive p2" "pr_alive p3" "pr_alive p4"
    using assms(1) by auto
  have 5: "replicate 5 x = [x, x, x, x, x]" for x :: dc_op by (simp add: numeral_eq_Suc)
  have "pr_alive ?p" "pr_alive ?p1" using assms(1) by (simp_all add: peer_defs)
  then have "run_steps dc_step (?op # replicate 5 (Resume (length ts) env)) (p, ts) = Some ((p4, ts @ [[Reset_Streams (sr_assoc_id e) [] ?out, Lease]]), outs)"
    using 3 by (simp add: 5 0 1 2 resume_last)
  with 3 show ?thesis by blast
qed

section \<open>A sample run\<close>

definition sample_env :: env where
  "sample_env = \<lparr>e_malloc = True, e_calloc = True, e_dup_label = True, e_dup_protocol = True, e_put = True, e_sent = 0, e_reset = 0,
     e_posted = True, e_order = [0]\<rparr>"

definition sample_peer :: peer where
  "sample_peer = (turbo_dc_peer_create False False)\<lparr>pr_active_operations := 1, pr_channels := [0 \<mapsto> 0], pr_channel_ids := {0},
     pr_heap := [0 \<mapsto> configured_channel 0 [0x61] None], pr_next := 1\<rparr>"

abbreviation sample_create :: dc_op where
  "sample_create \<equiv> Create sample_env (Some [0x61]) None"

lemma alloc_first: "alloc_from {} 0 = Some 0"
  by (simp add: alloc_from.simps)

lemma sample_label: "dcep_text_valid (Some [0x61]) (Suc 0)"
  by (simp add: dcep_text_valid_def)

lemma sample_create_leaves:
  "dc_step sample_create (turbo_dc_peer_create False False, []) =
     Some (((turbo_dc_peer_create False False)\<lparr>pr_active_operations := 1\<rparr>, [[Task sample_create, Lease]]), [])"
  "dc_step (Resume 0 sample_env) ((turbo_dc_peer_create False False)\<lparr>pr_active_operations := 1\<rparr>, [[Task sample_create, Lease]]) =
     Some ((sample_peer, [[Lease]]), [Created (Some 0)])"
  using sample_label
  by (simp_all add: dc_step_def in_lease_def names_live_def dc_peer_acquire_def resume_def exec_act_def dc_channel_create_owner_impl_def
      peer_alloc_channel_id_def alloc_first peer_defs peer_set_channel_def dcep_text_valid_def Let_def sample_env_def turbo_dc_peer_create_def sample_peer_def)

lemma sample_admissible: "dc_admissible sample_create (turbo_dc_peer_create False False, [])"
  "dc_admissible (Resume 0 sample_env) ((turbo_dc_peer_create False False)\<lparr>pr_active_operations := 1\<rparr>, [[Task sample_create, Lease]])"
  by (simp_all add: dc_admissible_def names_live_def turbo_dc_peer_create_def)

definition sample_ops :: "dc_op list" where
  "sample_ops = [sample_create, Resume 0 sample_env, Close sample_env 0, Resume 1 sample_env]"

lemma sample_close:
  "dc_step (Close sample_env 0) (sample_peer, [[Lease]]) =
     Some ((sample_peer\<lparr>pr_active_operations := 2\<rparr>, [[Lease], [Task (Close sample_env 0), Lease]]), [])"
  "\<exists>p outs. dc_step (Resume 1 sample_env) (sample_peer\<lparr>pr_active_operations := 2\<rparr>, [[Lease], [Task (Close sample_env 0), Lease]])
     = Some ((p, [[Lease], [Release 0, Lease]]), outs) \<and> pr_alive p"
  by (simp_all add: dc_step_def in_lease_def names_live_def dc_peer_acquire_def resume_def exec_act_def dc_channel_close_owner_impl_mode_def
      sctp_reset_channel_stream_def peer_defs Let_def sample_env_def turbo_dc_peer_create_def sample_peer_def)

lemma sample_allowed: "allowed dc_admissible dc_step sample_ops (turbo_dc_peer_create False False, [])"
  using sample_admissible sample_create_leaves sample_close
  by (simp add: sample_ops_def dc_admissible_def names_live_def is_lease_def sample_peer_def turbo_dc_peer_create_def split: option.split)

lemma sample_run:
  "\<exists>p outs. run_steps dc_step sample_ops (turbo_dc_peer_create False False, []) = Some ((p, [[Lease], [Release 0, Lease]]), outs) \<and> pr_alive p"
  using sample_create_leaves sample_close by (auto simp: sample_ops_def)

section \<open>Properties\<close>

text \<open>C4. Channels are memory safe under reentrance and concurrency, but for calls that lose their channel before they run.  Take any sequence of
  application calls, incoming messages, notifications, packets, destruction and resumptions of calls in progress, in any
  interleaving, with any results of the libraries; in particular anything may happen between the admission of a call and the run of its task.
  Suppose that the channel an application call names has not been freed when the call is made nor when its task runs, that
  the peer is not used after it has been freed, that fewer than \<open>2\<^sup>3\<^sup>2 - 1\<close> calls are in progress, and that the hash map visits exactly its
  keys.  Then no segment of any call, and no message, reset or callback, follows a pointer to a freed channel, and every channel a call in
  progress is going to use is still there.\<close>

theorem channels_memory_safe:
  assumes "allowed dc_admissible dc_step ops (turbo_dc_peer_create server disabled, [])"
  shows "\<exists>p ts outs. run_steps dc_step ops (turbo_dc_peer_create server disabled, []) = Some ((p, ts), outs)
    \<and> (\<forall>t\<in>set ts. \<forall>x\<in>set t. \<forall>a. uses x = Some a \<or> 0 < holds a x \<longrightarrow> pr_heap p a \<noteq> None)"
proof -
  from dc.run_defined [OF peer_create_inv assms] obtain p ts outs
    where r: "run_steps dc_step ops (turbo_dc_peer_create server disabled, []) = Some ((p, ts), outs)" and i: "dc_inv (p, ts)" by (metis prod.exhaust)
  have "pr_heap p a \<noteq> None" if "t \<in> set ts" "x \<in> set t" "uses x = Some a \<or> 0 < holds a x" for t x a
  proof -
    have "0 < held a t"
    proof (cases "uses x = Some a")
      case True
      have "thread_ok t" using i that(1) by (simp add: dc_inv_def)
      with that(2) obtain xs where xs: "t = xs @ [Lease]" "covered xs" by (auto simp: thread_ok_def)
      then have "x \<in> set xs" using that(2) True by auto
      with xs(2) True have "0 < held a xs" by (induction xs) (auto split: option.splits)
      with xs(1) show ?thesis by simp
    next
      case False
      with that(3) have "0 < holds a x" by blast
      with that(2) show ?thesis by (induction t) auto
    qed
    then have "0 < tally (holds a) ts" using tally_member [OF that(1), of "holds a"] by simp
    then show ?thesis using i chans_live [of "pr_heap p"] by (fastforce simp: dc_inv_def)
  qed
  with r show ?thesis by blast
qed

theorem channels_memory_safe_witness:
  "\<exists>p ts outs. run_steps dc_step sample_ops (turbo_dc_peer_create False False, []) = Some ((p, ts), outs) \<and> pr_heap p 0 \<noteq> None"
proof -
  from channels_memory_safe [OF sample_allowed] sample_run obtain p outs
    where r: "run_steps dc_step sample_ops (turbo_dc_peer_create False False, []) = Some ((p, [[Lease], [Release 0, Lease]]), outs)"
      and u: "\<forall>t\<in>set [[Lease], [Release 0, Lease]]. \<forall>x\<in>set t. \<forall>a. uses x = Some a \<or> 0 < holds a x \<longrightarrow> pr_heap p a \<noteq> None" by auto
  from u have "pr_heap p 0 \<noteq> None" by simp
  with r show ?thesis by blast
qed

text \<open>C20. Identifiers and references are exact.  In every state reached by such a run, no two live channels have the same identifier, the
  reserved identifiers are exactly those of the live channels, the map of published channels holds exactly the live channels that are
  not closing, and the reference count of a channel is the number of references the calls in progress hold.\<close>

theorem channel_table_exact:
  assumes "allowed dc_admissible dc_step ops (turbo_dc_peer_create server disabled, [])"
    and "run_steps dc_step ops (turbo_dc_peer_create server disabled, []) = Some ((p, ts), outs)"
  shows "(\<forall>a b c d. pr_heap p a = Some c \<and> pr_heap p b = Some d \<and> ch_id c = ch_id d \<longrightarrow> a = b)
    \<and> pr_channel_ids p = {ch_id c | a c. pr_heap p a = Some c}
    \<and> (\<forall>i a. pr_channels p i = Some a \<longleftrightarrow> (\<exists>c. pr_heap p a = Some c \<and> ch_id c = i \<and> \<not> ch_closing c))
    \<and> (\<forall>a c. pr_heap p a = Some c \<longrightarrow> unat (ch_callback_refs c) = tally (holds a) ts)"
proof -
  have i: "pchans p (\<lambda>a. tally (holds a) ts)" using dc.run_kept [OF peer_create_inv assms] by (simp add: dc_inv_def)
  have "pr_channel_ids p = {ch_id c | a c. pr_heap p a = Some c}" by (rule chans_ids [OF i])
  moreover have "pr_channels p j = Some a \<longleftrightarrow> (\<exists>c. pr_heap p a = Some c \<and> ch_id c = j \<and> \<not> ch_closing c)" for j a
    using chans_published [OF i, of j a] chansD(5) [OF i, of a] by blast
  ultimately show ?thesis using chans_inj [OF i] chansD(2) [OF i] by blast
qed

theorem channel_table_exact_witness:
  "\<exists>p ts outs. run_steps dc_step sample_ops (turbo_dc_peer_create False False, []) = Some ((p, ts), outs)
    \<and> pr_channel_ids p = {ch_id c | a c. pr_heap p a = Some c}"
proof -
  obtain p ts outs where r: "run_steps dc_step sample_ops (turbo_dc_peer_create False False, []) = Some ((p, ts), outs)" using sample_run by blast
  have "pr_channel_ids p = {ch_id c | a c. pr_heap p a = Some c}"
    using channel_table_exact [OF sample_allowed r] by (elim conjE)
  then show ?thesis by (intro exI [of _ p] exI [of _ ts] exI [of _ outs] conjI r)
qed

text \<open>C21. A lease on the peer does not keep the channel.  Let an application call name a live channel to which nobody holds a reference, and let the
  other end reset the stream of that channel after the call has been admitted and before the owner runs its task.  The call was
  legal when it was made, the reset closes and frees the channel, and the task then follows the pointer to the freed
  channel, although the call holds its lease on the peer all the time.\<close>

theorem lease_does_not_keep_channel:
  assumes "pr_alive p" "pr_channels_initialized p" "\<not> pr_destroying p" "unreferenced i a p" "names op = Some a" "resets_stream i len e" "e_posted env"
  shows "\<exists>s outs. run_steps dc_step (op # Notify env (Stream_Reset_Notice len e) # replicate 5 (Resume (Suc (length ts)) env)) (p, ts) = Some (s, outs)
    \<and> snd s ! length ts = [Task op, Lease] \<and> pr_alive (fst s) \<and> dc_step (Resume (length ts) env) s = None"
proof -
  let ?p = "p\<lparr>pr_active_operations := pr_active_operations p + 1\<rparr>" and ?ts = "ts @ [[Task op, Lease]]"
  have "names_live op p" using assms(4,5) by (auto simp: names_live_def unreferenced_def split: option.splits)
  then have 0: "dc_step op (p, ts) = Some ((?p, ?ts), [])"
    using named_call [OF assms(5), of "(p, ts)"] assms(1,3) by (simp add: in_lease_def dc_peer_acquire_def)
  have "unreferenced i a ?p" using assms(4) by (simp add: unreferenced_def)
  from reset_frees [OF _ _ _ this assms(6), of env ?ts] assms(1-3) obtain q outs out
    where r: "run_steps dc_step (Notify env (Stream_Reset_Notice len e) # replicate 5 (Resume (Suc (length ts)) env)) (?p, ?ts)
        = Some ((q, ?ts @ [[Reset_Streams (sr_assoc_id e) [] out, Lease]]), outs)" "pr_heap q a = None" "pr_alive q" by auto
  have "dc_step (Resume (length ts) env) (q, ?ts @ [[Reset_Streams (sr_assoc_id e) [] out, Lease]]) = None"
    using r(3) freed_call [OF assms(5) r(2) assms(7)] by (simp add: dc_step_def resume_def nth_append)
  with 0 r show ?thesis by (simp add: nth_append)
qed

definition sample_reset :: strreset_event where
  "sample_reset = \<lparr>sr_header = 12, sr_length = 14, sr_denied_or_failed = False, sr_incoming = True, sr_outgoing = False, sr_assoc_id = 0, sr_streams = [0]\<rparr>"

theorem lease_does_not_keep_channel_witness:
  "pr_heap sample_peer 0 \<noteq> None \<and> (\<exists>s outs. run_steps dc_step (Send sample_env 0 (Some [1]) True # Notify sample_env (Stream_Reset_Notice 14 sample_reset)
      # replicate 5 (Resume 2 sample_env)) (sample_peer, [[Lease]]) = Some (s, outs) \<and> dc_step (Resume 1 sample_env) s = None)"
proof -
  have "unreferenced 0 0 sample_peer" by (simp add: unreferenced_def sample_peer_def)
  from lease_does_not_keep_channel [OF _ _ _ this, of "Send sample_env 0 (Some [1]) True" 14 sample_reset sample_env "[[Lease]]"]
  show ?thesis by (auto simp: resets_stream_def sample_reset_def sample_env_def sample_peer_def turbo_dc_peer_create_def numeral_2_eq_2)
qed

text \<open>C22. Destruction reclaims everything and never early.  In every state reached by such a run, the destroyer's attempt frees the peer
  exactly when destruction has begun, no call is in progress and the owner takes the task, and then no channel is left on the heap;
  otherwise it changes nothing.\<close>

theorem peer_destruction_reclaims:
  assumes "allowed dc_admissible dc_step ops (turbo_dc_peer_create server disabled, [])"
    and "run_steps dc_step ops (turbo_dc_peer_create server disabled, []) = Some ((p, ts), outs)"
    and "pr_alive p" "dom (pr_channels p) = set (e_order env)"
  shows "\<exists>p' outs'. dc_step (Finish_Destroy env) (p, ts) = Some ((p', ts), outs')
    \<and> (if pr_destroying p \<and> (\<forall>t\<in>set ts. t = []) \<and> e_posted env then \<not> pr_alive p' \<and> pr_heap p' = Map.empty else p' = p)"
proof -
  have i: "dc_inv (p, ts)" using dc.run_kept [OF peer_create_inv assms(1,2)] .
  have "tally f ts = 0" if "\<forall>t\<in>set ts. t = []" for f using that by (induction ts) simp_all
  then have "pr_active_operations p = 0 \<and> pr_transport_callbacks p = 0" if "\<forall>t\<in>set ts. t = []" using that i by (simp add: dc_inv_def)
  then have "(\<forall>t\<in>set ts. t = []) \<longleftrightarrow> pr_active_operations p = 0 \<and> pr_transport_callbacks p = 0" using all_ended [OF i] by blast
  with finish_ok [OF i assms(4)] assms(3) show ?thesis by (fastforce simp: dc_step_def)
qed

theorem peer_destruction_reclaims_witness:
  "\<exists>p p' ts outs outs'. run_steps dc_step [sample_create, Resume 0 sample_env, Begin_Destroy False, Resume 0 sample_env]
       (turbo_dc_peer_create False False, []) = Some ((p, ts), outs)
     \<and> dc_step (Finish_Destroy sample_env) (p, ts) = Some ((p', ts), outs') \<and> \<not> pr_alive p' \<and> pr_heap p' = Map.empty"
proof -
  let ?ops = "[sample_create, Resume 0 sample_env, Begin_Destroy False, Resume 0 sample_env]"
    and ?p = "sample_peer\<lparr>pr_destroying := True, pr_active_operations := 0\<rparr>"
  have b: "dc_step (Begin_Destroy False) (sample_peer, [[Lease]]) = Some ((sample_peer\<lparr>pr_destroying := True\<rparr>, [[Lease]]), [])"
    "dc_step (Resume 0 sample_env) (sample_peer\<lparr>pr_destroying := True\<rparr>, [[Lease]]) = Some ((?p, [[]]), [])"
    by (simp_all add: dc_step_def dc_peer_begin_destroy_def resume_def exec_act_def dc_peer_release_def sample_peer_def turbo_dc_peer_create_def)
  have r: "run_steps dc_step ?ops (turbo_dc_peer_create False False, []) = Some ((?p, [[]]), [Created (Some 0)])"
    using sample_create_leaves b by simp
  have a: "allowed dc_admissible dc_step ?ops (turbo_dc_peer_create False False, [])"
    using sample_admissible sample_create_leaves b by (simp add: dc_admissible_def sample_peer_def turbo_dc_peer_create_def)
  have "pr_alive ?p" "dom (pr_channels ?p) = set (e_order sample_env)" "pr_destroying ?p" "e_posted sample_env"
    by (simp_all add: sample_peer_def turbo_dc_peer_create_def sample_env_def)
  with peer_destruction_reclaims [OF a r, of sample_env] r show ?thesis by auto
qed

end
