(* ===== verification/Dc_Handshake.thy ===== *)
theory Dc_Handshake
  imports Dc_Lifecycle
begin

text \<open>
  What two peers achieve together: opening a channel by a DCEP OPEN and its acknowledgement, messages of either kind, empty ones
  included, and the states a peer goes through.

  Shown here: an OPEN is read back as the channel it was written from and the handshake leaves both ends open; a message arrives as it was
  sent; states change only as the transition table allows, unless the application connects again; and two cases in which a
  channel that was created can never be opened.
\<close>

section \<open>The OPEN message\<close>

text \<open>A channel whose OPEN fits the packet, as \<open>dc_channel_create_owner_impl\<close> checks it except for the sum of the lengths.\<close>

definition openable :: "channel \<Rightarrow> bool" where
  "openable c \<longleftrightarrow> length (name_bytes (ch_label c)) \<le> 256 \<and> length (name_bytes (ch_protocol c)) \<le> 256
     \<and> length (name_bytes (ch_label c)) + length (name_bytes (ch_protocol c)) \<le> 500
     \<and> text_valid_from (name_bytes (ch_label c)) \<and> text_valid_from (name_bytes (ch_protocol c))
     \<and> reliability_valid (ch_max_retransmits c) (ch_max_lifetime_ms c)
     \<and> ch_max_retransmits c < 2147483648 \<and> ch_max_lifetime_ms c < 2147483648"

definition name_of :: "bytes \<Rightarrow> bytes option" where
  "name_of b = (if b = [] then None else Some b)"

definition mirrored :: "channel \<Rightarrow> channel" where
  "mirrored c = zero_channel\<lparr>ch_id := ch_id c, ch_label := name_of (name_bytes (ch_label c)), ch_protocol := name_of (name_bytes (ch_protocol c)),
     ch_ordered := ch_ordered c, ch_max_retransmits := ch_max_retransmits c, ch_max_lifetime_ms := ch_max_lifetime_ms c\<rparr>"

definition open_parameter :: "channel \<Rightarrow> u32" where
  "open_parameter c = (if ch_max_retransmits c > 0 then of_int (ch_max_retransmits c)
     else if ch_max_lifetime_ms c > 0 then of_int (ch_max_lifetime_ms c) else 0)"

lemma open_packet_fields:
  assumes "length (name_bytes (ch_label c)) \<le> 256" "length (name_bytes (ch_protocol c)) \<le> 256"
  shows "length (dcep_open_packet c) = 12 + length (name_bytes (ch_label c)) + length (name_bytes (ch_protocol c))"
    "dcep_open_packet c ! 0 = 3" "dcep_open_packet c ! 1 = dcep_channel_type c"
    "read_u32 (dcep_open_packet c) 4 = open_parameter c"
    "unat (read_u16 (dcep_open_packet c) 8) = length (name_bytes (ch_label c))"
    "unat (read_u16 (dcep_open_packet c) 10) = length (name_bytes (ch_protocol c))"
    "drop 12 (dcep_open_packet c) = name_bytes (ch_label c) @ name_bytes (ch_protocol c)"
proof -
  let ?l = "name_bytes (ch_label c)" and ?q = "name_bytes (ch_protocol c)"
  let ?h = "[3, dcep_channel_type c, 0, 0] :: bytes" and ?p = "be32 (open_parameter c)"
    and ?ll = "be16 (of_nat (length ?l))" and ?ql = "be16 (of_nat (length ?q))"
  have pk: "dcep_open_packet c = ?h @ ?p @ ?ll @ ?ql @ ?l @ ?q" by (simp add: dcep_open_packet_def open_parameter_def)
  have m: "unat (of_nat n :: u16) = n" if "n \<le> 256" for n using that by (simp add: unat_of_nat)
  show "length (dcep_open_packet c) = 12 + length ?l + length ?q" by (simp add: pk be16_length be32_length)
  show "dcep_open_packet c ! 0 = 3" "dcep_open_packet c ! 1 = dcep_channel_type c" by (simp_all add: pk)
  show "read_u32 (dcep_open_packet c) 4 = open_parameter c"
    using net32.dec_at [of 4 ?h "open_parameter c" "?ll @ ?ql @ ?l @ ?q"] by (simp add: pk)
  show "unat (read_u16 (dcep_open_packet c) 8) = length ?l"
    using net16.dec_at [of 8 "?h @ ?p" "of_nat (length ?l)" "?ql @ ?l @ ?q"] m [OF assms(1)] by (simp add: pk be32_length)
  show "unat (read_u16 (dcep_open_packet c) 10) = length ?q"
    using net16.dec_at [of 10 "?h @ ?p @ ?ll" "of_nat (length ?q)" "?l @ ?q"] m [OF assms(2)] by (simp add: pk be32_length be16_length)
  show "drop 12 (dcep_open_packet c) = ?l @ ?q" by (simp add: pk be32_length be16_length)
qed

lemma parameter_small:
  assumes "0 < n" "n < 2147483648"
  shows "\<not> (of_int n :: u32) > 0x7FFFFFFF" "uint (of_int n :: u32) = n"
  using assms by (simp_all add: word_less_def uint_word_of_int not_less)

text \<open>The bits of the channel type.\<close>

lemma type_bits:
  assumes "reliability_valid (ch_max_retransmits c) (ch_max_lifetime_ms c)"
  shows "dcep_channel_type c AND 3 = (if ch_max_retransmits c > 0 then 1 else if ch_max_lifetime_ms c > 0 then 2 else 0)"
    "dcep_channel_type c AND NOT 0x83 = 0" "(dcep_channel_type c AND 0x80 = 0) = ch_ordered c"
  by (simp_all add: dcep_channel_type_def)

lemma open_packet_request:
  assumes "openable c"
  shows "dcep_open_request (ch_id c) (dcep_open_packet c) = Some (mirrored c)"
proof -
  let ?l = "name_bytes (ch_label c)" and ?q = "name_bytes (ch_protocol c)"
  have v: "reliability_valid (ch_max_retransmits c) (ch_max_lifetime_ms c)" "length ?l \<le> 256" "length ?q \<le> 256"
    "text_valid_from ?l" "text_valid_from ?q" using assms by (simp_all add: openable_def)
  note f = open_packet_fields [OF v(2,3)] and t = type_bits [OF v(1)]
  have d: "drop (12 + length ?l) (dcep_open_packet c) = ?q" using f(7) drop_drop [of "length ?l" 12 "dcep_open_packet c"] by (simp add: add.commute)
  have p: "\<not> (dcep_channel_type c AND 3 \<noteq> 0 \<and> open_parameter c > 0x7FFFFFFF)"
    "ch_max_retransmits c = (if dcep_channel_type c AND 3 = 1 then uint (open_parameter c) else 0)"
    "ch_max_lifetime_ms c = (if dcep_channel_type c AND 3 = 2 then uint (open_parameter c) else 0)"
    using assms parameter_small [of "ch_max_retransmits c"] parameter_small [of "ch_max_lifetime_ms c"] t(1)
    by (auto simp: open_parameter_def openable_def reliability_valid_def)
  show ?thesis using f d t v p
    by (auto simp: dcep_open_request_def mirrored_def name_of_def dcep_text_valid_def Let_def)
qed

section \<open>Undisturbed calls\<close>

text \<open>A stream on which no message is being reassembled, in a peer that accepts calls.\<close>

definition receptive :: "rcvinfo \<Rightarrow> peer \<Rightarrow> bool" where
  "receptive rcv p \<longleftrightarrow> pr_alive p \<and> \<not> pr_destroying p \<and> pr_channels_initialized p \<and> \<not> ra_blocked (pr_reassembly p)
     \<and> first_below SCTP_REASSEMBLY_SLOTS (slot_for rcv) (ra_slots (pr_reassembly p)) = None"

lemma inbound_whole:
  assumes "receptive rcv p" "data \<noteq> []" "length data \<le> SCTP_REASSEMBLY_MESSAGE_MAX"
  shows "sctp_inbound_data env rcv True data p = sctp_message env (rcv_sid rcv) (rcv_ppid rcv) data p"
proof -
  have "sctp_reassemble_message ok (pr_reassembly p) rcv True (Some data) (length data) = (READY None (length data), pr_reassembly p)" for ok
    using assms by (simp add: sctp_reassemble_message_def receptive_def Let_def)
  then show ?thesis by (simp add: sctp_inbound_data_def message_of_def Let_def)
qed

lemma start_inbound:
  assumes "receptive rcv p" "data \<noteq> []" "length data \<le> SCTP_REASSEMBLY_MESSAGE_MAX"
    and "sctp_message env (rcv_sid rcv) (rcv_ppid rcv) data (p\<lparr>pr_active_operations := pr_active_operations p + 1\<rparr>) = Some (p', outs, acts)"
  shows "dc_step (Inbound env rcv True data) (p, ts)
      = Some ((p\<lparr>pr_active_operations := pr_active_operations p + 1\<rparr>, ts @ [[Task (Inbound env rcv True data), Lease]]), [])"
    "exec_act env' (Task (Inbound env rcv True data)) (p\<lparr>pr_active_operations := pr_active_operations p + 1\<rparr>) = Some (p', outs, acts)"
proof -
  show "dc_step (Inbound env rcv True data) (p, ts)
      = Some ((p\<lparr>pr_active_operations := pr_active_operations p + 1\<rparr>, ts @ [[Task (Inbound env rcv True data), Lease]]), [])"
    using assms(1) by (simp add: dc_step_def in_lease_def names_live_def dc_peer_acquire_def receptive_def)
  have "receptive rcv (p\<lparr>pr_active_operations := pr_active_operations p + 1\<rparr>)" using assms(1) by (simp add: receptive_def)
  from inbound_whole [OF this assms(2,3), of env] assms(4)
  show "exec_act env' (Task (Inbound env rcv True data)) (p\<lparr>pr_active_operations := pr_active_operations p + 1\<rparr>) = Some (p', outs, acts)"
    by (simp add: exec_act_def)
qed

lemma replicate_calls: "replicate 4 x = [x, x, x, x]" "replicate 6 x = [x, x, x, x, x, x]"
  by (simp_all add: numeral_eq_Suc)

lemma release_alive: "pr_alive (dc_peer_release p) = pr_alive p" "pr_heap (dc_peer_release p) = pr_heap p"
  "pr_channels (dc_peer_release p) = pr_channels p"
  by (simp_all add: dc_peer_release_def)

text \<open>The end that asks for a channel.\<close>

lemma open_sends:
  assumes "pr_heap p a = Some c" "pr_state p = DC_CONNECTED" "pr_socket p" "\<not> ch_is_open c" "\<not> ch_dcep_sent c" "openable c"
    and "e_sent env = int (length (dcep_open_packet c))"
  shows "dc_channel_open_owner_impl env a p = Some (0, put_channel a (c\<lparr>ch_dcep_sent := True\<rparr>) p,
    [Sctp_Send (ch_id c) SCTP_PPID_DCEP False None (dcep_open_packet c)])"
  using assms open_packet_fields(1) [of c]
  by (simp add: dc_channel_open_owner_impl_def dcep_send_open_def openable_def Let_def)

text \<open>The end that is asked: the channel is published, acknowledged and open.\<close>

lemma mirrored_fields [simp]:
  "ch_id (mirrored c) = ch_id c" "\<not> ch_closing (mirrored c)" "ch_on_open (mirrored c) = None" "ch_callback_refs (mirrored c) = 0"
  by (simp_all add: mirrored_def zero_channel_def)

definition accepting :: "env \<Rightarrow> channel \<Rightarrow> peer \<Rightarrow> bool" where
  "accepting env c p \<longleftrightarrow> pr_socket p \<and> remote_parity (ch_id c) p \<and> ch_id c \<notin> pr_channel_ids p \<and> pr_channels p (ch_id c) = None
     \<and> e_calloc env \<and> e_dup_label env \<and> e_dup_protocol env \<and> e_put env \<and> e_sent env > 0"

lemma open_published:
  assumes "openable c" "accepting env c p" "\<not> pr_destroying p"
  shows "dcep_handle_message env (ch_id c) (dcep_open_packet c) p =
    Some (p\<lparr>pr_channel_ids := insert (ch_id c) (pr_channel_ids p), pr_heap := (pr_heap p)(pr_next p \<mapsto> (mirrored c)\<lparr>ch_callback_refs := 1\<rparr>),
      pr_next := Suc (pr_next p), pr_channels := (pr_channels p)(ch_id c \<mapsto> pr_next p)\<rparr>, [], [Dcep_Ack (pr_next p)])"
proof -
  note f = open_packet_fields [of c]
  have "length (name_bytes (ch_label c)) \<le> 256" "length (name_bytes (ch_protocol c)) \<le> 256" using assms(1) by (simp_all add: openable_def)
  with f(1,2) open_packet_request [OF assms(1)] assms(2,3) show ?thesis
    by (simp add: dcep_handle_message_def dcep_publish_def accepting_def peer_defs peer_set_channel_def Let_def)
qed

lemma open_accepted:
  assumes "openable c" "accepting env c p" "receptive rcv p" "rcv_sid rcv = ch_id c" "rcv_ppid rcv = SCTP_PPID_DCEP"
  shows "\<exists>p'. run_steps dc_step (Inbound env rcv True (dcep_open_packet c) # replicate 6 (Resume (length ts) env)) (p, ts)
      = Some ((p', ts @ [[]]), Sctp_Send (ch_id c) SCTP_PPID_DCEP False None [DCEP_DATA_CHANNEL_ACK]
          # (case pr_on_channel p of Some k \<Rightarrow> [On_Channel k (pr_next p)] | None \<Rightarrow> []))
    \<and> pr_channels p' = (pr_channels p)(ch_id c \<mapsto> pr_next p) \<and> pr_heap p' = (pr_heap p)(pr_next p \<mapsto> (mirrored c)\<lparr>ch_is_open := True\<rparr>)"
proof -
  let ?p = "p\<lparr>pr_active_operations := pr_active_operations p + 1\<rparr>"
  let ?q = "?p\<lparr>pr_channel_ids := insert (ch_id c) (pr_channel_ids p), pr_heap := (pr_heap p)(pr_next p \<mapsto> (mirrored c)\<lparr>ch_callback_refs := 1\<rparr>),
      pr_next := Suc (pr_next p), pr_channels := (pr_channels p)(ch_id c \<mapsto> pr_next p)\<rparr>"
  have a: "accepting env c ?p" "\<not> pr_destroying ?p" using assms(2,3) by (simp_all add: accepting_def remote_parity_def receptive_def)
  have l: "dcep_open_packet c \<noteq> []" "length (dcep_open_packet c) \<le> SCTP_REASSEMBLY_MESSAGE_MAX"
    using open_packet_fields(1) [of c] assms(1) by (auto simp: openable_def SCTP_REASSEMBLY_MESSAGE_MAX_def)
  have "sctp_message env (rcv_sid rcv) (rcv_ppid rcv) (dcep_open_packet c) ?p = Some (?q, [], [Dcep_Ack (pr_next p)])"
    using open_published [OF assms(1) a] assms(4,5) by (simp add: sctp_message_def)
  note st = start_inbound [OF assms(3) l this]
  have 1: "exec_act env (Dcep_Ack (pr_next p)) ?q = Some (?q, [Sctp_Send (ch_id c) SCTP_PPID_DCEP False None [DCEP_DATA_CHANNEL_ACK]],
      [Dcep_Commit (pr_next p), Dcep_Opened (pr_next p), Release (pr_next p)])"
    using assms(2) by (simp add: exec_act_def dcep_ack_segment_def dcep_send_ack_def accepting_def)
  let ?r = "put_channel (pr_next p) ((mirrored c)\<lparr>ch_callback_refs := 1, ch_is_open := True\<rparr>) ?q"
  have 2: "exec_act env (Dcep_Commit (pr_next p)) ?q = Some (?r, (case pr_on_channel p of Some k \<Rightarrow> [On_Channel k (pr_next p)] | None \<Rightarrow> []), [])"
    using assms(3) by (simp add: exec_act_def dcep_commit_segment_def receptive_def)
  have 3: "exec_act env (Dcep_Opened (pr_next p)) ?r = Some (?r, [], [])"
    by (simp add: exec_act_def dcep_opened_segment_def put_channel_def)
  let ?s = "put_channel (pr_next p) ((mirrored c)\<lparr>ch_is_open := True, ch_callback_refs := 0\<rparr>) ?q"
  have 4: "exec_act env (Release (pr_next p)) ?r = Some (?s, [], [])"
    by (simp add: exec_act_def dc_channel_release_def put_channel_def Let_def)
  have al: "pr_alive ?p" "pr_alive ?q" "pr_alive ?r" "pr_alive ?s" using assms(3) by (simp_all add: receptive_def put_channel_def)
  have e: "(mirrored c)\<lparr>ch_is_open := True, ch_callback_refs := 0\<rparr> = (mirrored c)\<lparr>ch_is_open := True\<rparr>" by (simp add: mirrored_def zero_channel_def)
  have h: "pr_heap ?s = (pr_heap p)(pr_next p \<mapsto> (mirrored c)\<lparr>ch_is_open := True\<rparr>)" "pr_channels ?s = (pr_channels p)(ch_id c \<mapsto> pr_next p)"
    by (simp_all add: put_channel_def e)
  show ?thesis
    by (rule exI [of _ "dc_peer_release ?s"])
      (simp add: st replicate_calls resume_last al 1 2 3 4 exec_act_def [of env Lease] release_alive h)
qed

text \<open>A message for a published channel: the channel is admitted, used and released.\<close>

definition reachable_at :: "u16 \<Rightarrow> nat \<Rightarrow> channel \<Rightarrow> peer \<Rightarrow> bool" where
  "reachable_at i a c p \<longleftrightarrow> pr_channels p i = Some a \<and> pr_heap p a = Some c \<and> admissible_channel c"

lemma refs_up_down: "admissible_channel c \<Longrightarrow> 0 < ch_callback_refs c + 1"
  by (auto simp: admissible_channel_def word_less_nat_alt unat_word_ariths)

lemma admitted_run:
  assumes "receptive rcv p" "data \<noteq> []" "length data \<le> SCTP_REASSEMBLY_MESSAGE_MAX" "reachable_at (rcv_sid rcv) a c p"
    and msg: "\<And>q. sctp_message env (rcv_sid rcv) (rcv_ppid rcv) data q =
        do { (ch, q1) \<leftarrow> dc_channel_admit (rcv_sid rcv) q; Some (q1, [], case ch of None \<Rightarrow> [] | Some a \<Rightarrow> [f a, Release a]) }"
    and use: "\<And>q. pr_heap q a = Some (c\<lparr>ch_callback_refs := ch_callback_refs c + 1\<rparr>) \<Longrightarrow> \<not> pr_destroying q
        \<Longrightarrow> exec_act env (f a) q = Some (put_channel a c1 q, outs, [])"
    and c': "\<not> ch_closing c1" "ch_callback_refs c1 = ch_callback_refs c + 1" "c1\<lparr>ch_callback_refs := ch_callback_refs c\<rparr> = c'"
  shows "\<exists>p'. run_steps dc_step (Inbound env rcv True data # replicate 4 (Resume (length ts) env)) (p, ts) = Some ((p', ts @ [[]]), outs)
    \<and> pr_heap p' = (pr_heap p)(a \<mapsto> c') \<and> pr_channels p' = pr_channels p"
proof -
  let ?p = "p\<lparr>pr_active_operations := pr_active_operations p + 1\<rparr>"
  let ?q = "take_ref a c ?p"
  have pub: "pr_channels p (rcv_sid rcv) = Some a" "pr_heap p a = Some c" "admissible_channel c" using assms(4) by (simp_all add: reachable_at_def)
  have "dc_channel_admit (rcv_sid rcv) ?p = Some (Some a, ?q)"
    using pub assms(1) by (simp add: dc_channel_admit_def peer_get_channel_def receptive_def)
  then have "sctp_message env (rcv_sid rcv) (rcv_ppid rcv) data ?p = Some (?q, [], [f a, Release a])" using msg by simp
  note st = start_inbound [OF assms(1-3) this]
  let ?r = "put_channel a c1 ?q"
  have 1: "exec_act env (f a) ?q = Some (?r, outs, [])" using use [of ?q] assms(1) by (simp add: peer_defs receptive_def)
  let ?s = "put_channel a c' ?r"
  have 2: "exec_act env (Release a) ?r = Some (?s, [], [])"
    using c' refs_up_down [OF pub(3)] by (simp add: exec_act_def dc_channel_release_def put_channel_def Let_def)
  have al: "pr_alive ?p" "pr_alive ?q" "pr_alive ?r" "pr_alive ?s" using assms(1) by (simp_all add: receptive_def peer_defs)
  have h: "pr_heap ?s = (pr_heap p)(a \<mapsto> c')" "pr_channels ?s = pr_channels p" by (simp_all add: peer_defs)
  show ?thesis
    by (rule exI [of _ "dc_peer_release ?s"])
      (simp add: st replicate_calls resume_last al 1 2 exec_act_def [of env Lease] release_alive h)
qed

lemma ack_opens:
  assumes "receptive rcv p" "rcv_ppid rcv = SCTP_PPID_DCEP" "reachable_at (rcv_sid rcv) a c p" "ch_dcep_sent c" "\<not> ch_is_open c"
  shows "\<exists>p'. run_steps dc_step (Inbound env rcv True [DCEP_DATA_CHANNEL_ACK] # replicate 4 (Resume (length ts) env)) (p, ts)
      = Some ((p', ts @ [[]]), case ch_on_open c of Some k \<Rightarrow> [On_Open k a] | None \<Rightarrow> [])
    \<and> pr_heap p' = (pr_heap p)(a \<mapsto> c\<lparr>ch_is_open := True\<rparr>) \<and> pr_channels p' = pr_channels p"
proof (rule admitted_run [OF assms(1) _ _ assms(3), where f = Dcep_Acked])
  let ?c = "c\<lparr>ch_callback_refs := ch_callback_refs c + 1, ch_is_open := True\<rparr>"
  have o: "\<not> ch_closing c" using assms(3) by (simp add: reachable_at_def admissible_channel_def)
  then show "\<not> ch_closing ?c" by simp
  show "exec_act env (Dcep_Acked a) q = Some (put_channel a ?c q,
      case ch_on_open c of Some k \<Rightarrow> [On_Open k a] | None \<Rightarrow> [], [])"
    if "pr_heap q a = Some (c\<lparr>ch_callback_refs := ch_callback_refs c + 1\<rparr>)" "\<not> pr_destroying q" for q
    using that o assms(4,5) by (simp add: exec_act_def dcep_acked_segment_def)
  show "?c\<lparr>ch_callback_refs := ch_callback_refs c\<rparr> = c\<lparr>ch_is_open := True\<rparr>" by (cases c) simp
qed (use assms(2) in \<open>simp_all add: sctp_message_def dcep_handle_message_def SCTP_REASSEMBLY_MESSAGE_MAX_def\<close>)

lemma wire_message_read: "user_message (fst (wire_message d b)) (snd (wire_message d b)) = Inr (d, b)"
  by (simp add: wire_message_def user_message_def)

lemma message_delivered:
  assumes "receptive rcv p" "rcv_ppid rcv = fst (wire_message d b)" "length d \<le> 24576" "reachable_at (rcv_sid rcv) a c p" "ch_is_open c"
  shows "\<exists>p'. run_steps dc_step (Inbound env rcv True (snd (wire_message d b)) # replicate 4 (Resume (length ts) env)) (p, ts)
      = Some ((p', ts @ [[]]), case ch_on_message c of Some k \<Rightarrow> [On_Message k a d b] | None \<Rightarrow> [])
    \<and> pr_heap p' = (pr_heap p)(a \<mapsto> c) \<and> pr_channels p' = pr_channels p"
proof (rule admitted_run [OF assms(1) _ _ assms(4), where f = "\<lambda>a. Deliver a d b"])
  let ?c = "c\<lparr>ch_callback_refs := ch_callback_refs c + 1\<rparr>"
  have o: "\<not> ch_closing c" using assms(4) by (simp add: reachable_at_def admissible_channel_def)
  then show "\<not> ch_closing ?c" by simp
  show "exec_act env (Deliver a d b) q = Some (put_channel a ?c q, case ch_on_message c of Some k \<Rightarrow> [On_Message k a d b] | None \<Rightarrow> [], [])"
    if "pr_heap q a = Some ?c" "\<not> pr_destroying q" for q
    using that o assms(5) by (simp add: exec_act_def deliver_segment_def put_channel_def fun_upd_idem)
  show "?c\<lparr>ch_callback_refs := ch_callback_refs c\<rparr> = c" by (cases c) simp
  show "snd (wire_message d b) \<noteq> []" "length (snd (wire_message d b)) \<le> SCTP_REASSEMBLY_MESSAGE_MAX"
    using assms(3) by (simp_all add: wire_message_def SCTP_REASSEMBLY_MESSAGE_MAX_def)
  have "fst (wire_message d b) \<noteq> SCTP_PPID_DCEP" by (simp add: wire_message_def)
  then show "sctp_message env (rcv_sid rcv) (rcv_ppid rcv) (snd (wire_message d b)) q =
      do { (ch, q1) \<leftarrow> dc_channel_admit (rcv_sid rcv) q; Some (q1, [], case ch of None \<Rightarrow> [] | Some a \<Rightarrow> [Deliver a d b, Release a]) }" for q
    using wire_message_read [of d b] assms(2) by (simp add: sctp_message_def del: SCTP_PPID_DCEP_def)
qed simp

section \<open>Parity of identifiers\<close>

lemma alloc_parity: "alloc_from ids i = Some j \<Longrightarrow> even j \<longleftrightarrow> even i"
proof (induction ids i rule: alloc_from.induct)
  case (1 ids i)
  then show ?case by (subst (asm) (2) alloc_from.simps) (auto split: if_splits)
qed

lemma alloc_own_parity: "peer_alloc_channel_id p = Some (i, p') \<Longrightarrow> even i \<longleftrightarrow> \<not> pr_is_dtls_server p"
  using alloc_parity by (auto simp: peer_alloc_channel_id_def bind_eq_Some_conv split: if_splits)

lemma remote_parity_even: "remote_parity i p \<longleftrightarrow> (even i \<longleftrightarrow> pr_is_dtls_server p)"
  by (simp add: remote_parity_def and_one_eq mod_2_eq_odd)

lemma created_parity:
  assumes "dc_channel_create_owner_impl env label config p = (Some a, p')"
  shows "\<exists>c. pr_heap p' a = Some c \<and> (even (ch_id c) \<longleftrightarrow> \<not> pr_is_dtls_server p)"
  using assms alloc_own_parity [of p]
  by (auto simp: dc_channel_create_owner_impl_def peer_set_channel_def new_channel_def Let_def split: if_splits option.splits)

section \<open>States\<close>

definition state_step :: "dc_state \<Rightarrow> dc_state \<Rightarrow> bool" where
  "state_step x y \<longleftrightarrow> x = y \<or> dc_state_transition_allowed x y"

definition moves :: "peer \<Rightarrow> segment \<Rightarrow> bool" where
  "moves p s \<longleftrightarrow> (\<forall>p' outs acts. s = Some (p', outs, acts) \<longrightarrow> state_step (pr_state p) (pr_state p'))"

definition rests :: "peer \<Rightarrow> segment \<Rightarrow> bool" where
  "rests p s \<longleftrightarrow> (\<forall>p' outs acts. s = Some (p', outs, acts) \<longrightarrow> pr_state p' = pr_state p)"

lemma rests_moves: "rests p s \<Longrightarrow> moves p s"
  by (simp add: rests_def moves_def state_step_def)

lemma state_fields [simp]:
  "pr_state (put_channel a c p) = pr_state p" "pr_state (take_ref a c p) = pr_state p" "pr_state (free_channel a p) = pr_state p"
  "pr_state (peer_free_channel_id i p) = pr_state p" "pr_state (peer_mark_channel_id i p) = pr_state p" "pr_state (peer_remove_channel i p) = pr_state p"
  "pr_state (unpublish i a p) = pr_state p" "pr_state (dc_set_peer_error e d p) = pr_state p" "pr_state (dc_peer_release p) = pr_state p"
  "pr_state (transport_return p) = pr_state p" "pr_state (snd (new_channel c p)) = pr_state p" "pr_state (sctp_session_cleanup p) = pr_state p"
  by (simp_all add: peer_defs dc_peer_release_def transport_return_def sctp_session_cleanup_def)

lemma admit_state: "dc_channel_admit i p = Some (ch, p') \<Longrightarrow> pr_state p' = pr_state p"
  by (auto simp: dc_channel_admit_def bind_eq_Some_conv split: option.splits if_splits)

lemma admitted_rests: "rests p (do { (ch, p1) \<leftarrow> dc_channel_admit i p; Some (p1, [], f ch) })"
  using admit_state by (auto simp: rests_def bind_eq_Some_conv)

lemma close_rests: "rests p (dc_channel_close_owner_impl_mode env a r p)"
proof (cases "pr_heap p a")
  case (Some c)
  then show ?thesis by (cases "ch_closing c") (simp_all add: rests_def dc_channel_close_owner_impl_mode_def Let_def split_beta)
qed (simp add: rests_def dc_channel_close_owner_impl_mode_def)

lemma ack_rests: "rests p (dcep_ack_segment env a p)"
proof (cases "pr_heap p a")
  case (Some c)
  have "pr_state (fst (dcep_rollback env a c p)) = pr_state p" by (simp add: dcep_rollback_def Let_def split_beta)
  with Some show ?thesis by (auto simp: rests_def dcep_ack_segment_def split_beta split: if_splits)
qed (simp add: rests_def dcep_ack_segment_def)

lemma small_rests:
  "rests p (dcep_commit_segment a p)" "rests p (dcep_opened_segment a p)" "rests p (dcep_acked_segment a p)" "rests p (deliver_segment a d b p)"
  by (cases "pr_heap p a"; simp add: rests_def dcep_commit_segment_def dcep_opened_segment_def dcep_acked_segment_def deliver_segment_def)+

lemma release_state: "dc_channel_release a p = Some p' \<Longrightarrow> pr_state p' = pr_state p"
  by (auto simp: dc_channel_release_def bind_eq_Some_conv Let_def split: if_splits)

lemma reset_rests: "rests p (reset_next_stream assoc sids r p)"
proof (cases sids)
  case (Cons sid rest)
  then show ?thesis
    using admit_state [of sid "p\<lparr>pr_reassembly := sctp_reassembly_clear_stream assoc sid (pr_reassembly p)\<rparr>"]
    by (auto simp: rests_def reset_next_stream_def dc_channel_handle_stream_reset_def bind_eq_Some_conv)
qed (simp add: rests_def reset_next_stream_def)

lemma notify_moves: "state_step (pr_state p) (pr_state (fst (dc_notify_state st p)))"
  by (simp add: state_step_def dc_notify_state_def)

lemma shutdown_moves: "state_step (pr_state p) (pr_state (fst (peer_shutdown p)))"
  using notify_moves [of "p\<lparr>pr_socket := False\<rparr>" DC_CLOSED] by (simp add: peer_shutdown_def dc_notify_closed_def state_step_def)

lemma dcep_rests: "rests p (dcep_handle_message env sid data p)"
  using admitted_rests [of p sid]
  by (auto simp: rests_def dcep_handle_message_def dcep_publish_def new_channel_def peer_set_channel_def Let_def split: option.splits if_splits)

lemma message_rests: "rests p (sctp_message env sid ppid data p)"
  using admitted_rests [of p sid] dcep_rests [of p env sid data]
  by (auto simp: rests_def sctp_message_def split: sum.splits if_splits)

lemma fail_moves: "state_step (pr_state p) (pr_state (fst (dc_fail_peer code detail p)))"
  by (cases "pr_state p") (simp_all add: dc_fail_peer_def state_step_def dc_state_transition_allowed_def Let_def)

lemma inbound_moves: "moves p (sctp_inbound_data env rcv eor data p)"
proof -
  obtain r ra where rr: "sctp_reassemble_message (e_malloc env) (pr_reassembly p) rcv eor (Some data) (length data) = (r, ra)" by fastforce
  let ?p = "p\<lparr>pr_reassembly := ra\<rparr>"
  show ?thesis
  proof (cases r)
    case (REJECTED d)
    then show ?thesis using fail_moves [of ?p ERROR_SCTP_RECEIVE "Some d"]
      by (cases "ra_blocked ra") (simp_all add: sctp_inbound_data_def rr moves_def state_step_def split_beta Let_def prod_eq_iff)
  next
    case (READY b n)
    then show ?thesis using rests_moves [OF message_rests [of ?p env]] by (simp add: sctp_inbound_data_def rr moves_def Let_def)
  qed (simp add: sctp_inbound_data_def rr moves_def state_step_def Let_def)
qed

lemma admit_all_state: "admit_all is p = Some (as, p') \<Longrightarrow> pr_state p' = pr_state p"
proof (induction "is" arbitrary: p as)
  case (Cons i "is")
  then show ?case by (fastforce simp: bind_eq_Some_conv split: option.splits if_splits)
qed simp

lemma all_reset_rests: "rests p (dc_channel_handle_all_streams_reset env r p)"
  using admit_all_state by (auto simp: rests_def dc_channel_handle_all_streams_reset_def bind_eq_Some_conv)

lemma notification_moves: "moves p (sctp_notification env n p)"
proof (cases n)
  case (Assoc_Change st)
  then show ?thesis using notify_moves [of "p\<lparr>pr_connected := True\<rparr>" DC_CONNECTED]
    by (cases st) (simp_all add: sctp_notification_def moves_def state_step_def split_beta)
next
  case (Partial_Delivery len e)
  then show ?thesis by (auto simp: sctp_notification_def sctp_handle_partial_delivery_event_def moves_def state_step_def)
next
  case (Stream_Reset_Notice len e)
  let ?p = "p\<lparr>pr_reassembly := sctp_reassembly_clear_all (pr_reassembly p)\<rparr>"
  have "moves p (dc_channel_handle_all_streams_reset env r ?p)" for r
    using rests_moves [OF all_reset_rests [of ?p env r]] by (simp add: moves_def)
  moreover have "moves p (Some (p, outs, acts))" for outs acts by (simp add: moves_def state_step_def)
  ultimately show ?thesis by (simp add: Stream_Reset_Notice sctp_notification_def sctp_handle_stream_reset_event_def Let_def)
qed

lemma create_state: "pr_state (snd (dc_channel_create_owner_impl env label config p)) = pr_state p"
  by (auto simp: dc_channel_create_owner_impl_def peer_alloc_channel_id_def peer_set_channel_def new_channel_def bind_eq_Some_conv Let_def
      split: option.split)

lemma close_impl_moves: "state_step (pr_state p) (pr_state (fst (dc_peer_close_impl p)))"
  using notify_moves [of "sctp_session_cleanup p" DC_DISCONNECTING] by (simp add: dc_peer_close_impl_def state_step_def Let_def split_beta)

lemma call_moves:
  assumes "op \<noteq> Connect"
  shows "moves p (dc_call op p)"
proof (cases op)
  case (Create env label config)
  then show ?thesis using create_state [of env label config p] by (simp add: moves_def state_step_def split_beta)
next
  case (Open env a)
  then show ?thesis
    by (cases "pr_heap p a") (simp_all add: moves_def state_step_def dc_channel_open_owner_impl_def dcep_send_open_def with_result_def Let_def split_beta)
next
  case (Send env a d b)
  then show ?thesis
    by (cases "pr_heap p a") (simp_all add: moves_def state_step_def dc_channel_send_owner_impl_def with_result_def Let_def split_beta split: option.split)
next
  case (Set_Callback a k cb)
  then show ?thesis by (cases "pr_heap p a") (simp_all add: moves_def state_step_def dc_channel_callback_owner_task_def)
next
  case (Close env a)
  then show ?thesis using rests_moves [OF close_rests] by simp
next
  case (Set_Peer_Callback k cb)
  then show ?thesis by (cases k) (simp_all add: moves_def state_step_def dc_peer_callback_owner_task_def)
next
  case (Set_Role r)
  then show ?thesis by (simp add: moves_def state_step_def dc_peer_set_role_owner_task_def)
next
  case (Packet d)
  then show ?thesis by (auto simp: moves_def state_step_def dc_handle_incoming_packet_def split: option.split)
next
  case Close_Peer
  then show ?thesis using close_impl_moves [of p] by (simp add: moves_def prod_eq_iff)
qed (use assms inbound_moves notification_moves in \<open>simp_all add: turbo_dc_peer_set_transport_data_handler_def moves_def state_step_def\<close>)

lemma exec_moves:
  assumes "act \<noteq> Task Connect"
  shows "moves p (exec_act env act p)"
proof (cases act)
  case (Task op)
  then show ?thesis using assms call_moves [of op p] by (simp add: exec_act_def moves_def state_step_def)
next
  case Peer_Shutdown
  then show ?thesis using shutdown_moves [of p] by (simp add: exec_act_def moves_def split_beta)
next
  case (Release a)
  then show ?thesis using release_state [of a p] by (auto intro!: rests_moves simp: exec_act_def rests_def bind_eq_Some_conv)
qed (simp_all add: exec_act_def rests_moves close_rests ack_rests small_rests reset_rests, simp_all add: moves_def state_step_def)

text \<open>Segments leave no work to be admitted.\<close>

definition untasked :: "segment \<Rightarrow> bool" where
  "untasked s \<longleftrightarrow> (\<forall>p outs acts. s = Some (p, outs, acts) \<longrightarrow> (\<forall>op. Task op \<notin> set acts))"

lemma untasked_simps [simp]: "untasked None" "untasked (Some (p, outs, acts)) \<longleftrightarrow> (\<forall>op. Task op \<notin> set acts)"
  by (simp_all add: untasked_def)

lemma untasked_some: "untasked (Some x) \<longleftrightarrow> (\<forall>op. Task op \<notin> set (snd (snd x)))"
  by (cases x) simp

lemma untasked_bind: "(\<And>x. untasked (f x)) \<Longrightarrow> untasked (Option.bind m f)"
  by (cases m) simp_all

lemma untasked_admitted: "(\<And>ch op. Task op \<notin> set (f ch)) \<Longrightarrow> untasked (do { (ch, p1) \<leftarrow> dc_channel_admit i p; Some (p1, [], f ch) })"
  by (rule untasked_bind) auto

lemma untasked_close: "untasked (dc_channel_close_owner_impl_mode env a r p)"
  unfolding dc_channel_close_owner_impl_mode_def by (rule untasked_bind) (simp add: Let_def split_beta)

lemma untasked_ack: "untasked (dcep_ack_segment env a p)"
  unfolding dcep_ack_segment_def by (rule untasked_bind) (simp add: split_beta)

lemma untasked_segments:
  "untasked (dcep_commit_segment a p)" "untasked (dcep_opened_segment a p)" "untasked (dcep_acked_segment a p)" "untasked (deliver_segment a d b p)"
  unfolding dcep_commit_segment_def dcep_opened_segment_def dcep_acked_segment_def deliver_segment_def by (rule untasked_bind, simp)+

lemma untasked_reset: "untasked (dc_channel_handle_stream_reset i r p)"
  unfolding dc_channel_handle_stream_reset_def by (rule untasked_admitted) (simp split: option.split)

lemma untasked_publish: "Task op \<notin> set (snd (snd (dcep_publish env c p)))"
  by (simp add: dcep_publish_def Let_def split_beta split: option.split)

lemma untasked_dcep: "untasked (dcep_handle_message env i d p)"
proof -
  have "untasked (do { (ch, p1) \<leftarrow> dc_channel_admit i p; Some (p1, [], case ch of None \<Rightarrow> [] | Some a \<Rightarrow> [Dcep_Acked a, Release a]) })"
    by (rule untasked_admitted) (simp split: option.split)
  then show ?thesis using untasked_publish by (simp add: dcep_handle_message_def untasked_some split: option.split)
qed

lemma untasked_message: "untasked (sctp_message env i ppid d p)"
proof -
  have "untasked (do { (ch, p1) \<leftarrow> dc_channel_admit i p; Some (p1, [], case ch of None \<Rightarrow> [] | Some a \<Rightarrow> [Deliver a x b, Release a]) })" for x b
    by (rule untasked_admitted) (simp split: option.split)
  then show ?thesis using untasked_dcep by (simp add: sctp_message_def split: sum.split)
qed

lemma untasked_inbound: "untasked (sctp_inbound_data env rcv eor data p)"
proof -
  have "untasked (Some (dc_fail_peer code detail q))" for code detail q by (simp add: untasked_some dc_fail_peer_def Let_def)
  then show ?thesis using untasked_message by (simp add: sctp_inbound_data_def Let_def split_beta split: reassembly_result.split)
qed

lemma untasked_notification: "untasked (sctp_notification env n p)"
proof (cases n)
  case (Stream_Reset_Notice len e)
  have "untasked (dc_channel_handle_all_streams_reset env r q)" for r q
    unfolding dc_channel_handle_all_streams_reset_def by (auto intro: untasked_bind)
  with Stream_Reset_Notice show ?thesis by (simp add: sctp_notification_def sctp_handle_stream_reset_event_def Let_def)
qed (simp_all add: sctp_notification_def untasked_some split_beta split: assoc_state.split)

lemma untasked_call: "untasked (dc_call op p)"
proof (cases op)
  case (Packet d)
  then show ?thesis by (simp add: untasked_some dc_handle_incoming_packet_def split: option.split)
next
  case (Open env a)
  then show ?thesis by (cases "dc_channel_open_owner_impl env a p") (simp_all add: untasked_some with_result_def split_beta)
next
  case (Send env a d b)
  then show ?thesis by (cases "dc_channel_send_owner_impl env a d b p") (simp_all add: untasked_some with_result_def split_beta)
next
  case (Set_Callback a k cb)
  then show ?thesis by (cases "dc_channel_callback_owner_task a k cb p") simp_all
qed (simp_all add: untasked_close untasked_inbound untasked_notification,
    simp_all add: untasked_some turbo_dc_peer_set_transport_data_handler_def dc_peer_close_impl_def Let_def split_beta)

lemma untasked_exec: "untasked (exec_act env act p)"
proof (cases act)
  case (Task op)
  then show ?thesis using untasked_call [of op p] by (simp add: exec_act_def)
next
  case (Reset_Streams assoc sids r)
  have "untasked (reset_next_stream assoc sids r p)"
  proof (cases sids)
    case (Cons sid rest)
    show ?thesis using untasked_reset unfolding reset_next_stream_def Cons list.case
      by (fastforce simp: untasked_def bind_eq_Some_conv)
  qed (simp add: reset_next_stream_def)
  with Reset_Streams show ?thesis by (simp add: exec_act_def)
next
  case (Release a)
  then show ?thesis by (cases "dc_channel_release a p") (simp_all add: exec_act_def)
qed (simp_all add: exec_act_def untasked_close untasked_ack untasked_segments,
    simp_all add: untasked_some await_transport_def split_beta)

definition connecting :: "act list list \<Rightarrow> bool" where
  "connecting ts \<longleftrightarrow> (\<exists>t\<in>set ts. Task Connect \<in> set t)"

lemma free_published_state: "free_published is p = Some p' \<Longrightarrow> pr_state p' = pr_state p"
proof (induction "is" arbitrary: p)
  case (Cons i "is")
  then show ?case by (fastforce simp: bind_eq_Some_conv split: option.splits)
qed simp

lemma state_step_trans: "state_step x y \<Longrightarrow> state_step y z \<Longrightarrow> state_step x z"
  by (cases x; cases y; cases z) (simp_all add: state_step_def dc_state_transition_allowed_def)

lemma destroy_moves:
  assumes "dc_peer_finish_destroy env p = Some (p', outs)"
  shows "state_step (pr_state p) (pr_state p')"
proof (cases "\<not> pr_destroying p \<or> pr_active_operations p \<noteq> 0 \<or> pr_transport_callbacks p \<noteq> 0 \<or> \<not> e_posted env")
  case True
  with assms show ?thesis by (auto simp: dc_peer_finish_destroy_def state_step_def)
next
  case False
  obtain p1 o1 acts where c: "dc_peer_close_impl p = (p1, o1, acts)" by (cases "dc_peer_close_impl p") auto
  obtain p2 o2 where s: "(if acts = [] then (p1, []) else peer_shutdown p1) = (p2, o2)" by fastforce
  have 2: "state_step (pr_state p1) (pr_state p2)" using s shutdown_moves [of p1] by (auto simp: state_step_def split: if_splits)
  from assms False c s obtain p3 where "free_published (e_order env) (p2\<lparr>pr_socket := False\<rparr>) = Some p3" "pr_state p' = pr_state p3"
    by (auto simp: dc_peer_finish_destroy_def dc_peer_destroy_resources_owner_task_def bind_eq_Some_conv)
  with free_published_state have "pr_state p' = pr_state p2" by fastforce
  with 2 close_impl_moves [of p] c state_step_trans show ?thesis by simp
qed

lemma step_moves:
  assumes "dc_step op (p, ts) = Some ((p', ts'), outs)" "op \<noteq> Connect" "\<not> connecting ts"
  shows "state_step (pr_state p) (pr_state p') \<and> \<not> connecting ts'"
proof -
  consider o1 where "op = Begin_Destroy o1" | env where "op = Finish_Destroy env" | k env where "op = Resume k env"
    | "\<nexists>o1. op = Begin_Destroy o1" "\<nexists>env. op = Finish_Destroy env" "\<nexists>k env. op = Resume k env" by blast
  then show ?thesis
  proof cases
    case 1
    with assms show ?thesis by (auto simp: dc_step_def dc_peer_begin_destroy_def state_step_def split: if_splits)
  next
    case 2
    with assms destroy_moves [of env p] show ?thesis by (auto simp: dc_step_def bind_eq_Some_conv split: if_splits)
  next
    case 3
    show ?thesis
    proof (cases "k < length ts \<and> ts ! k \<noteq> []")
      case False
      with 3 assms show ?thesis by (auto simp: dc_step_def resume_def state_step_def split: if_splits)
    next
      case True
      then obtain act rest where k: "k < length ts" "ts ! k = act # rest" by (cases "ts ! k") auto
      with 3 assms(1) obtain acts where x: "exec_act env act p = Some (p', outs, acts)" "ts' = ts[k := acts @ rest]"
        by (auto simp: dc_step_def resume_def bind_eq_Some_conv split: if_splits)
      have m: "act # rest \<in> set ts" using nth_mem [OF k(1)] k(2) by simp
      with assms(3) have "act \<noteq> Task Connect" "Task Connect \<notin> set rest" by (auto simp: connecting_def)
      moreover have "Task Connect \<notin> set acts" using untasked_exec [of env act p] x(1) by (simp add: untasked_def)
      ultimately have "\<not> connecting ts'" using assms(3) x(2) set_update_subset_insert [of ts k "acts @ rest"] by (auto simp: connecting_def)
      with exec_moves [OF \<open>act \<noteq> Task Connect\<close>, of p env] x(1) show ?thesis by (simp add: moves_def)
    qed
  next
    case 4
    then have "in_lease op (p, ts) = Some ((p', ts'), outs)" using assms(1) by (cases op) (auto simp: dc_step_def split: if_splits)
    then show ?thesis using assms(2,3) by (auto simp: in_lease_def dc_peer_acquire_def state_step_def connecting_def split: if_splits)
  qed
qed

section \<open>Samples\<close>

definition sample_rcv :: "u32 \<Rightarrow> rcvinfo" where
  "sample_rcv ppid = \<lparr>rcv_sid = 0, rcv_ssn = 0, rcv_ppid = ppid, rcv_assoc_id = 0, rcv_unordered = False\<rparr>"

definition sample_channel :: channel where
  "sample_channel = configured_channel 0 [0x61] None"

definition connected_peer :: "channel \<Rightarrow> peer" where
  "connected_peer c = sample_peer\<lparr>pr_state := DC_CONNECTED, pr_heap := [0 \<mapsto> c]\<rparr>"

lemma start_receptive: "first_below SCTP_REASSEMBLY_SLOTS (slot_for rcv) (ra_slots reassembly_start) = None"
  by (simp add: first_below_None reassembly_start_def slot_for_def)

lemma connected_receptive: "receptive (sample_rcv ppid) (connected_peer c)" "receptive (sample_rcv ppid) (turbo_dc_peer_create srv False)"
  using start_receptive
  by (simp_all add: receptive_def connected_peer_def sample_peer_def turbo_dc_peer_create_def, simp_all add: reassembly_start_def)

lemma connected_reachable: "\<not> ch_closing c \<Longrightarrow> ch_callback_refs c = 0 \<Longrightarrow> reachable_at 0 0 c (connected_peer c)"
  by (simp add: reachable_at_def connected_peer_def sample_peer_def admissible_channel_def)

lemma sample_channel_fields [simp]:
  "ch_id sample_channel = 0" "\<not> ch_closing sample_channel" "ch_callback_refs sample_channel = 0" "\<not> ch_is_open sample_channel" "\<not> ch_dcep_sent sample_channel"
  "name_bytes (ch_label sample_channel) = [0x61]" "name_bytes (ch_protocol sample_channel) = []" "ch_max_retransmits sample_channel = 0"
  "ch_max_lifetime_ms sample_channel = 0"
  by (simp_all add: sample_channel_def configured_channel_def zero_channel_def turbo_dc_default_channel_config_def name_bytes_def Let_def)

lemma sample_openable: "openable sample_channel"
  by (simp add: openable_def reliability_valid_def)

lemma sample_channel_created: "dc_channel_create_owner_impl sample_env (Some [0x61]) None (turbo_dc_peer_create False False)
    = (Some 0, sample_peer\<lparr>pr_active_operations := 0\<rparr>)"
  using sample_label
  by (simp add: dc_channel_create_owner_impl_def peer_alloc_channel_id_def alloc_first peer_defs peer_set_channel_def dcep_text_valid_def Let_def
      sample_env_def turbo_dc_peer_create_def sample_peer_def)

lemma ascii_valid: "text_valid_from (replicate n 0x61)"
  by (induction n) simp_all

section \<open>Properties\<close>

text \<open>C5. The opening handshake.  Let a connected peer open a channel whose names fit the packet, and let the other peer have the opposite role
  and the identifier free.  The OPEN it sends makes the other peer publish a channel with the same identifier, label,
  protocol, order and reliability, acknowledge it and announce it; the acknowledgement opens the first peer's channel.  Afterwards both
  ends are open, and no reference is left behind.\<close>

theorem dcep_handshake:
  assumes "reachable_at (ch_id c) a c pa" "pr_state pa = DC_CONNECTED" "pr_socket pa" "\<not> ch_is_open c" "\<not> ch_dcep_sent c" "openable c"
    and "e_sent ea = int (length (dcep_open_packet c))" "receptive rcv pa" "accepting eb c pb" "receptive rcv pb"
    and "rcv_sid rcv = ch_id c" "rcv_ppid rcv = SCTP_PPID_DCEP"
  shows "\<exists>pa1 pb1 pa2 k.
    dc_channel_open_owner_impl ea a pa = Some (0, pa1, [Sctp_Send (ch_id c) SCTP_PPID_DCEP False None (dcep_open_packet c)])
    \<and> run_steps dc_step (Inbound eb rcv True (dcep_open_packet c) # replicate 6 (Resume (length tb) eb)) (pb, tb)
        = Some ((pb1, tb @ [[]]), Sctp_Send (ch_id c) SCTP_PPID_DCEP False None [DCEP_DATA_CHANNEL_ACK]
            # (case pr_on_channel pb of Some cb \<Rightarrow> [On_Channel cb k] | None \<Rightarrow> []))
    \<and> run_steps dc_step (Inbound ea rcv True [DCEP_DATA_CHANNEL_ACK] # replicate 4 (Resume (length ta) ea)) (pa1, ta)
        = Some ((pa2, ta @ [[]]), case ch_on_open c of Some cb \<Rightarrow> [On_Open cb a] | None \<Rightarrow> [])
    \<and> pr_heap pa2 a = Some (c\<lparr>ch_dcep_sent := True, ch_is_open := True\<rparr>)
    \<and> pr_channels pb1 (ch_id c) = Some k \<and> pr_heap pb1 k = Some ((mirrored c)\<lparr>ch_is_open := True\<rparr>)"
proof -
  let ?c = "c\<lparr>ch_dcep_sent := True\<rparr>" and ?pa = "put_channel a (c\<lparr>ch_dcep_sent := True\<rparr>) pa"
  have h: "pr_heap pa a = Some c" using assms(1) by (simp add: reachable_at_def)
  note o = open_sends [OF h assms(2-7)]
  from open_accepted [OF assms(6,9,10,11,12), of tb] obtain pb1 where b:
    "run_steps dc_step (Inbound eb rcv True (dcep_open_packet c) # replicate 6 (Resume (length tb) eb)) (pb, tb)
       = Some ((pb1, tb @ [[]]), Sctp_Send (ch_id c) SCTP_PPID_DCEP False None [DCEP_DATA_CHANNEL_ACK]
           # (case pr_on_channel pb of Some cb \<Rightarrow> [On_Channel cb (pr_next pb)] | None \<Rightarrow> []))"
    "pr_channels pb1 (ch_id c) = Some (pr_next pb)" "pr_heap pb1 (pr_next pb) = Some ((mirrored c)\<lparr>ch_is_open := True\<rparr>)" by auto
  have "receptive rcv ?pa" "reachable_at (rcv_sid rcv) a ?c ?pa"
    using assms(1,8,11) by (simp_all add: receptive_def reachable_at_def put_channel_def admissible_channel_def)
  from ack_opens [OF this(1) assms(12) this(2), where env = ea and ts = ta] assms(4) obtain pa2 where a2:
    "run_steps dc_step (Inbound ea rcv True [DCEP_DATA_CHANNEL_ACK] # replicate 4 (Resume (length ta) ea)) (?pa, ta)
       = Some ((pa2, ta @ [[]]), case ch_on_open c of Some cb \<Rightarrow> [On_Open cb a] | None \<Rightarrow> [])"
    "pr_heap pa2 a = Some (?c\<lparr>ch_is_open := True\<rparr>)" by auto
  from o b a2 show ?thesis by blast
qed

theorem dcep_handshake_witness:
  "\<exists>pb1 outs k. run_steps dc_step (Inbound (sample_env\<lparr>e_sent := 1\<rparr>) (sample_rcv 50) True (dcep_open_packet sample_channel)
        # replicate 6 (Resume 0 (sample_env\<lparr>e_sent := 1\<rparr>))) (turbo_dc_peer_create True False, []) = Some ((pb1, [[]]), outs)
     \<and> pr_channels pb1 0 = Some k \<and> pr_heap pb1 k = Some ((mirrored sample_channel)\<lparr>ch_is_open := True\<rparr>)"
proof -
  let ?pa = "connected_peer sample_channel" and ?pb = "turbo_dc_peer_create True False" and ?ea = "sample_env\<lparr>e_sent := 13\<rparr>"
    and ?eb = "sample_env\<lparr>e_sent := 1\<rparr>"
  have 1: "reachable_at (ch_id sample_channel) 0 sample_channel ?pa" using connected_reachable [of sample_channel] by simp
  have 2: "pr_state ?pa = DC_CONNECTED" "pr_socket ?pa" by (simp_all add: connected_peer_def sample_peer_def turbo_dc_peer_create_def)
  have 3: "accepting ?eb sample_channel ?pb" by (simp add: accepting_def remote_parity_def sample_env_def turbo_dc_peer_create_def)
  have 4: "e_sent ?ea = int (length (dcep_open_packet sample_channel))" using open_packet_fields(1) [of sample_channel] by simp
  from dcep_handshake [OF 1 2 _ _ sample_openable 4 connected_receptive(1) 3 connected_receptive(2), of 50 "[]" "[]"]
  show ?thesis by (auto simp: sample_rcv_def)
qed

text \<open>C25. A message of up to 24 KiB arrives as it was sent.  What the application sends on an open channel - text or binary, empty or not -
  and the transport accepts, is handed to the message callback of the other end with the same bytes and the same kind, and nothing else happens,
  provided the other end has the channel open with a callback and its reassembly table is not blocked.  (The sender has no limit of its own; the receiver drops
  longer messages.)\<close>

theorem message_roundtrip:
  assumes "pr_heap ps s = Some cs" "ch_is_open cs" "\<not> ch_closing cs" "pr_socket ps"
    and "reliability_valid (ch_max_retransmits cs) (ch_max_lifetime_ms cs)" "e_sent es = int (length (snd (wire_message d b)))" "length d \<le> 24576"
    and "receptive rcv pr" "rcv_sid rcv = ch_id cs" "rcv_ppid rcv = fst (wire_message d b)"
    and "reachable_at (ch_id cs) a cr pr" "ch_is_open cr" "ch_on_message cr = Some k"
  shows "\<exists>pr'. dc_channel_send_owner_impl es s (Some d) b ps
      = Some (0, ps, [Sctp_Send (ch_id cs) (rcv_ppid rcv) (\<not> ch_ordered cs) (message_prinfo cs) (snd (wire_message d b))])
    \<and> run_steps dc_step (Inbound er rcv True (snd (wire_message d b)) # replicate 4 (Resume (length ts) er)) (pr, ts)
      = Some ((pr', ts @ [[]]), [On_Message k a d b]) \<and> pr_heap pr' = pr_heap pr"
proof -
  have "dc_channel_send_owner_impl es s (Some d) b ps
      = Some (0, ps, [Sctp_Send (ch_id cs) (rcv_ppid rcv) (\<not> ch_ordered cs) (message_prinfo cs) (snd (wire_message d b))])"
    using assms(1-6,10) by (simp add: dc_channel_send_owner_impl_def split_beta Let_def)
  moreover have "pr_heap pr a = Some cr" using assms(11) by (simp add: reachable_at_def)
  ultimately show ?thesis
    using message_delivered [OF assms(8,10,7) _ assms(12), where env = er and ts = ts and a = a] assms(9,11,13) by (auto simp: fun_upd_idem)
qed

theorem message_roundtrip_witness:
  "\<exists>p'. run_steps dc_step (Inbound sample_env (sample_rcv 57) True [0] # replicate 4 (Resume 0 sample_env))
      (connected_peer (sample_channel\<lparr>ch_is_open := True, ch_on_message := Some 7\<rparr>), []) = Some ((p', [[]]), [On_Message 7 0 [] True])"
proof -
  let ?c = "sample_channel\<lparr>ch_is_open := True, ch_on_message := Some 7\<rparr>"
  have w: "wire_message [] True = (57, [0])" by (simp add: wire_message_def)
  have 1: "pr_heap (connected_peer ?c) 0 = Some ?c" "pr_socket (connected_peer ?c)" "reachable_at (ch_id ?c) 0 ?c (connected_peer ?c)"
    using connected_reachable [of ?c] by (simp_all add: connected_peer_def sample_peer_def turbo_dc_peer_create_def)
  have 2: "reliability_valid (ch_max_retransmits ?c) (ch_max_lifetime_ms ?c)" by (simp add: reliability_valid_def)
  have 3: "e_sent (sample_env\<lparr>e_sent := 1\<rparr>) = int (length (snd (wire_message [] True)))" "rcv_sid (sample_rcv 57) = ch_id ?c"
    "rcv_ppid (sample_rcv 57) = fst (wire_message [] True)" by (simp_all add: w sample_rcv_def)
  from message_roundtrip [OF 1(1) _ _ 1(2) 2 3(1) _ connected_receptive(1) 3(2,3) 1(3), of 7 sample_env "[]"] show ?thesis
    by (auto simp: w)
qed

text \<open>States never go back.  Without a new connection attempt, a closed peer stays closed, a disconnecting one can only become closed,
  and a failed one never becomes connected again, over any run of calls, messages, notifications and destruction.\<close>

theorem peer_states_final:
  assumes "run_steps dc_step ops (p, ts) = Some ((p', ts'), outs)" "Connect \<notin> set ops" "\<not> connecting ts"
  shows "(pr_state p = DC_CLOSED \<longrightarrow> pr_state p' = DC_CLOSED) \<and> (pr_state p = DC_DISCONNECTING \<longrightarrow> pr_state p' \<in> {DC_DISCONNECTING, DC_CLOSED})
    \<and> (pr_state p = DC_FAILED \<longrightarrow> pr_state p' \<in> {DC_FAILED, DC_DISCONNECTING, DC_CLOSED})"
proof -
  have "state_step (pr_state p) (pr_state p')" using assms
  proof (induction ops arbitrary: p ts outs)
    case (Cons op ops)
    then obtain p1 ts1 o1 o2 where "dc_step op (p, ts) = Some ((p1, ts1), o1)" "run_steps dc_step ops (p1, ts1) = Some ((p', ts'), o2)"
      by (auto split: option.splits)
    with Cons.IH [of p1 ts1 o2] Cons.prems(2,3) step_moves [of op p ts p1 ts1 o1] state_step_trans show ?case by auto
  qed (simp add: state_step_def)
  then show ?thesis by (auto simp: state_step_def dc_state_transition_allowed_def split: if_splits)
qed

theorem peer_states_final_witness:
  "\<exists>p' ts' outs. run_steps dc_step [Notify sample_env (Assoc_Change SCTP_COMM_UP), Resume 0 sample_env] ((turbo_dc_peer_create False False)\<lparr>pr_state := DC_FAILED\<rparr>, [])
     = Some ((p', ts'), outs) \<and> pr_state p' \<in> {DC_FAILED, DC_DISCONNECTING, DC_CLOSED}"
proof -
  let ?p = "(turbo_dc_peer_create False False)\<lparr>pr_state := DC_FAILED\<rparr>"
  obtain p' ts' outs where r: "run_steps dc_step [Notify sample_env (Assoc_Change SCTP_COMM_UP), Resume 0 sample_env] (?p, []) = Some ((p', ts'), outs)"
    by (simp add: dc_step_def in_lease_def names_live_def dc_peer_acquire_def resume_def exec_act_def sctp_notification_def split_beta turbo_dc_peer_create_def)
  from peer_states_final [OF r] r show ?thesis by (auto simp: connecting_def)
qed

text \<open>A connection attempt does bring a closed peer back.\<close>

lemma closed_peer_reconnects:
  "pr_alive p \<Longrightarrow> \<not> pr_destroying p \<Longrightarrow> e_posted env
    \<Longrightarrow> \<exists>p' ts' outs. run_steps dc_step [Connect, Resume (length ts) env] (p, ts) = Some ((p', ts'), outs) \<and> pr_state p' = DC_CONNECTING"
  by (simp add: dc_step_def in_lease_def names_live_def dc_peer_acquire_def resume_def exec_act_def dc_external_handshake_task_def)

text \<open>Names that are accepted but never opened.  A channel may be created with a label and a protocol of up to 256 bytes each; when they are
  together longer than 500 bytes, no attempt to open it ever sends anything, whatever the state of the peer.\<close>

theorem long_names_never_open:
  assumes "length l \<le> 256" "cfg_protocol cfg = Some q" "length q \<le> 256" "500 < length l + length q" "text_valid_from l" "text_valid_from q"
    and "reliability_valid (cfg_max_retransmits cfg) (cfg_max_lifetime_ms cfg)" "\<not> pr_disable_sctp p" "\<not> pr_destroying p"
    and "peer_alloc_channel_id p = Some (i, p1)" "e_calloc env" "e_dup_label env" "e_dup_protocol env" "e_put env"
  shows "\<exists>a p' c. dc_channel_create_owner_impl env (Some l) (Some cfg) p = (Some a, p') \<and> pr_heap p' a = Some c
    \<and> (\<forall>env' r. dcep_send_open env' a c r = (-1, r, []))"
proof -
  let ?c = "configured_channel i l (Some cfg)"
  have "dc_channel_create_owner_impl env (Some l) (Some cfg) p = (Some (pr_next p1),
      p1\<lparr>pr_heap := (pr_heap p1)(pr_next p1 \<mapsto> ?c), pr_next := Suc (pr_next p1), pr_channels := (pr_channels p1)(i \<mapsto> pr_next p1)\<rparr>)"
    using assms by (simp add: dc_channel_create_owner_impl_def dcep_text_valid_def new_channel_def peer_set_channel_def Let_def)
  moreover have "dcep_send_open env' a' ?c r = (-1, r, [])" for env' a' r
    using assms(2,4) by (simp add: dcep_send_open_def configured_channel_def name_bytes_def Let_def)
  ultimately show ?thesis by simp
qed

theorem long_names_never_open_witness:
  "\<exists>a p' c. dc_channel_create_owner_impl sample_env (Some (replicate 256 0x61))
       (Some \<lparr>cfg_ordered = True, cfg_max_retransmits = 0, cfg_max_lifetime_ms = 0, cfg_protocol = Some (replicate 256 0x61)\<rparr>)
       (turbo_dc_peer_create False False) = (Some a, p') \<and> pr_heap p' a = Some c \<and> (\<forall>env' r. dcep_send_open env' a c r = (-1, r, []))"
proof -
  have "peer_alloc_channel_id (turbo_dc_peer_create False False) = Some (0, (turbo_dc_peer_create False False)\<lparr>pr_channel_ids := {0}\<rparr>)"
    by (simp add: peer_alloc_channel_id_def alloc_first turbo_dc_peer_create_def)
  from long_names_never_open [OF _ _ _ _ ascii_valid ascii_valid _ _ _ this, of 256
      "\<lparr>cfg_ordered = True, cfg_max_retransmits = 0, cfg_max_lifetime_ms = 0, cfg_protocol = Some (replicate 256 0x61)\<rparr>" 256 sample_env]
  show ?thesis by (simp add: reliability_valid_def turbo_dc_peer_create_def sample_env_def)
qed

text \<open>A change of role strands the channels created before it.  Identifiers are chosen when a channel is created; when the DTLS role is
  changed afterwards, which is allowed until the peer connects, the other peer ignores the OPEN of such a channel.\<close>

theorem role_change_strands_channel:
  assumes "dc_channel_create_owner_impl env label config p = (Some a, p1)" "pr_state p = DC_NEW"
    and "pr_is_dtls_server q = pr_is_dtls_server p"
  shows "\<exists>p2 c. dc_peer_set_role_owner_task (\<not> pr_is_dtls_server p) p1 = (0, p2) \<and> pr_heap p2 a = Some c
    \<and> (\<forall>env'. dcep_handle_message env' (ch_id c) (dcep_open_packet c) q = Some (q, [], []))"
proof -
  have s: "pr_state p1 = DC_NEW" using create_state [of env label config p] assms(1,2) by simp
  obtain c where c: "pr_heap p1 a = Some c" "even (ch_id c) \<longleftrightarrow> \<not> pr_is_dtls_server p" using created_parity [OF assms(1)] by blast
  have "\<not> remote_parity (ch_id c) q" using c(2) assms(3) by (simp add: remote_parity_even)
  then have "dcep_handle_message env' (ch_id c) (dcep_open_packet c) q = Some (q, [], [])" for env'
    by (simp add: dcep_handle_message_def dcep_open_packet_def split: option.split)
  with s c(1) show ?thesis by (simp add: dc_peer_set_role_owner_task_def)
qed

theorem role_change_strands_channel_witness:
  "\<exists>p2 c. dc_peer_set_role_owner_task True (sample_peer\<lparr>pr_active_operations := 0\<rparr>) = (0, p2) \<and> pr_heap p2 0 = Some c
    \<and> (\<forall>env. dcep_handle_message env (ch_id c) (dcep_open_packet c) (turbo_dc_peer_create False False) = Some (turbo_dc_peer_create False False, [], []))"
  using role_change_strands_channel [OF sample_channel_created, of "turbo_dc_peer_create False False"] by (simp add: turbo_dc_peer_create_def)

end
