(* ===== verification/Rtsp_Rtp.thy ===== *)
theory Rtsp_Rtp
  imports Prelude
begin

text \<open>
  The RTP core of the RTSP library, \<open>media/rtsp/parser/turbo_rtsp_rtp.c\<close>: headers and packets, the statistics of a received source, the
  counters of a sender, and the stream that numbers outgoing packets.

  A pointer with a length is an optional list; a routine that would read or write outside an object, or overflow a signed
  integer, is \<open>None\<close>.  Flags that the code only sets to 0 or 1 are \<open>bool\<close>; the flags of a header are bytes, as a caller may store anything there.

  Shown: a packet written from a header is parsed back to that header (\<open>rtsp_packet_roundtrip\<close>), and over any sequence of arrivals the statistics
  of a source are those of the true, unwrapped packet numbers (\<open>rtsp_source_exact\<close>).
\<close>

unbundle bit_operations_syntax

section \<open>Headers\<close>

definition RTSP_RTP_HEADER_SIZE :: nat where [simp]: "RTSP_RTP_HEADER_SIZE = 12"

record rtsp_header =
  rh_version :: u8
  rh_padding :: u8
  rh_extension :: u8
  rh_csrc_count :: u8
  rh_marker :: u8
  rh_payload_type :: u8
  rh_sequence_number :: u16
  rh_timestamp :: u32
  rh_ssrc :: u32
  rh_csrc :: "u32 list"
  rh_extension_profile :: u16
  rh_extension_len :: nat
  rh_extension_data :: "bytes option"
  rh_padding_len :: u8
  rh_payload :: "bytes option"
  rh_payload_len :: nat

definition zero_header :: rtsp_header where
  "zero_header = \<lparr>rh_version = 0, rh_padding = 0, rh_extension = 0, rh_csrc_count = 0, rh_marker = 0, rh_payload_type = 0,
     rh_sequence_number = 0, rh_timestamp = 0, rh_ssrc = 0, rh_csrc = replicate 16 0, rh_extension_profile = 0, rh_extension_len = 0,
     rh_extension_data = None, rh_padding_len = 0, rh_payload = None, rh_payload_len = 0\<rparr>"

definition parse_fixed :: "bytes \<Rightarrow> rtsp_header" where
  "parse_fixed packet = zero_header\<lparr>
     rh_version := drop_bit 6 (packet ! 0),
     rh_padding := drop_bit 5 (packet ! 0) AND 1,
     rh_extension := drop_bit 4 (packet ! 0) AND 1,
     rh_csrc_count := packet ! 0 AND 0x0F,
     rh_marker := drop_bit 7 (packet ! 1),
     rh_payload_type := packet ! 1 AND 0x7F,
     rh_sequence_number := read_u16 packet 2,
     rh_timestamp := read_u32 packet 4,
     rh_ssrc := read_u32 packet 8\<rparr>"

definition parse_extension :: "bytes \<Rightarrow> nat \<Rightarrow> rtsp_header \<Rightarrow> (rtsp_header \<times> nat) option" where
  "parse_extension packet parsed_len h =
     (if rh_extension h = 0 then Some (h, parsed_len)
      else if length packet < parsed_len + 4 then None
      else let extension_len = unat (read_u16 packet (parsed_len + 2)) * 4
           in if length packet < parsed_len + 4 + extension_len then None
              else Some (h\<lparr>rh_extension_profile := read_u16 packet parsed_len, rh_extension_len := extension_len,
                           rh_extension_data := Some (take extension_len (drop (parsed_len + 4) packet))\<rparr>,
                         parsed_len + 4 + extension_len))"

definition parse_padding :: "bytes \<Rightarrow> nat \<Rightarrow> rtsp_header \<Rightarrow> rtsp_header option" where
  "parse_padding packet raw_payload_len h =
     (if rh_padding h = 0 then Some h
      else if raw_payload_len < 1 then None
      else let n = packet ! (length packet - 1)
           in if n = 0 \<or> raw_payload_len < unat n then None else Some (h\<lparr>rh_padding_len := n\<rparr>))"

definition rtsp_rtp_parse_header :: "bytes option \<Rightarrow> (rtsp_header \<times> nat) option" where
  "rtsp_rtp_parse_header packet_ptr =
     (case packet_ptr of
        None \<Rightarrow> None
      | Some packet \<Rightarrow>
          if length packet < RTSP_RTP_HEADER_SIZE then None
          else let h = parse_fixed packet; cc = unat (rh_csrc_count h); parsed_len = RTSP_RTP_HEADER_SIZE + cc * 4
               in if rh_version h \<noteq> 2 then None
                  else if length packet < parsed_len then None
                  else let h = h\<lparr>rh_csrc := map (\<lambda>i. read_u32 packet (RTSP_RTP_HEADER_SIZE + i * 4)) [0..<cc] @ replicate (16 - cc) 0\<rparr>
                       in case parse_extension packet parsed_len h of
                            None \<Rightarrow> None
                          | Some (h, parsed_len) \<Rightarrow>
                              (case parse_padding packet (length packet - parsed_len) h of
                                 None \<Rightarrow> None
                               | Some h \<Rightarrow>
                                   let n = length packet - parsed_len - unat (rh_padding_len h)
                                   in Some (h\<lparr>rh_payload := Some (take n (drop parsed_len packet)), rh_payload_len := n\<rparr>, parsed_len)))"

definition header_byte0 :: "rtsp_header \<Rightarrow> u8" where
  "header_byte0 h = push_bit 6 (rh_version h) OR push_bit 5 (rh_padding h AND 1) OR push_bit 4 (rh_extension h AND 1) OR (rh_csrc_count h AND 0x0F)"

definition header_byte1 :: "rtsp_header \<Rightarrow> u8" where
  "header_byte1 h = push_bit 7 (rh_marker h AND 1) OR (rh_payload_type h AND 0x7F)"

definition extension_bytes :: "rtsp_header \<Rightarrow> bytes" where
  "extension_bytes h =
     (if rh_extension h = 0 then []
      else be16 (rh_extension_profile h) @ be16 (word_of_nat (rh_extension_len h div 4))
             @ (if rh_extension_len h > 0 then take (rh_extension_len h) (the (rh_extension_data h)) else []))"

definition header_bytes :: "rtsp_header \<Rightarrow> bytes" where
  "header_bytes h = [header_byte0 h, header_byte1 h] @ be16 (rh_sequence_number h) @ be32 (rh_timestamp h) @ be32 (rh_ssrc h)
     @ concat (map be32 (take (unat (rh_csrc_count h)) (rh_csrc h))) @ extension_bytes h"

text \<open>The length written is at most 262,216, so its conversion to \<open>int\<close> is exact; -1 stands for an error, which leaves the packet alone.
  \<open>None\<close>: the extension data are shorter than announced.\<close>

definition rtsp_rtp_write_header :: "bytes \<Rightarrow> rtsp_header \<Rightarrow> (int \<times> bytes) option" where
  "rtsp_rtp_write_header packet h =
     (if length packet < RTSP_RTP_HEADER_SIZE then Some (-1, packet)
      else if rh_version h \<noteq> 2 \<or> rh_csrc_count h > 15 \<or> rh_payload_type h > 127 then Some (-1, packet)
      else if rh_extension h \<noteq> 0 \<and> (rh_extension_len h mod 4 \<noteq> 0 \<or> rh_extension_len h > 0 \<and> rh_extension_data h = None) then Some (-1, packet)
      else if rh_extension h \<noteq> 0 \<and> rh_extension_len h > 65535 * 4 then Some (-1, packet)
      else let written_len = RTSP_RTP_HEADER_SIZE + unat (rh_csrc_count h) * 4 + (if rh_extension h \<noteq> 0 then 4 + rh_extension_len h else 0)
           in if length packet < written_len then Some (-1, packet)
              else if rh_extension h \<noteq> 0 \<and> rh_extension_len h > 0 \<and> length (the (rh_extension_data h)) < rh_extension_len h then None
              else Some (int written_len, mem_write packet 0 (header_bytes h)))"

definition INT32_MAX :: int where "INT32_MAX = 2147483647"

definition rtsp_rtp_write_packet :: "bytes \<Rightarrow> rtsp_header \<Rightarrow> bytes option \<Rightarrow> nat \<Rightarrow> (int \<times> bytes) option" where
  "rtsp_rtp_write_packet packet h payload_ptr payload_len =
     (if payload_ptr = None \<and> payload_len > 0 \<or> rh_padding h \<noteq> 0 then Some (-1, packet)
      else case rtsp_rtp_write_header packet h of
             None \<Rightarrow> None
           | Some (header_len, packet') \<Rightarrow>
               if header_len < 0 then Some (-1, packet')
               else if payload_len > length packet - nat header_len then Some (-1, packet')
               else if payload_len > 0 \<and> length (the payload_ptr) < payload_len then None
               else let written = header_len + to_int32 payload_len
                    in if written > INT32_MAX then None
                       else Some (written, if payload_len > 0 then mem_write packet' (nat header_len) (take payload_len (the payload_ptr)) else packet'))"

section \<open>Received sources\<close>

definition RTSP_RTP_SEQ_MOD :: nat where [simp]: "RTSP_RTP_SEQ_MOD = 0x10000"
definition RTP_MAX_DROPOUT :: nat where [simp]: "RTP_MAX_DROPOUT = 3000"

record rtsp_source =
  so_ssrc :: u32
  so_base_sequence_number :: u16
  so_max_sequence_number :: u16
  so_cycles :: u32
  so_received :: u32
  so_expected_prior :: u32
  so_received_prior :: u32
  so_transit :: int
  so_jitter_q4 :: u32
  so_received_sequence_bitmap :: u64
  so_has_ssrc :: bool
  so_initialized :: bool

datatype source_update_result = UPDATE_ERROR | UPDATE_OK | UPDATE_DUPLICATE | UPDATE_LATE_OR_OUT_OF_ORDER | UPDATE_DROPOUT | UPDATE_SSRC_MISMATCH

definition rtsp_source_init :: "u32 \<Rightarrow> rtsp_source" where
  "rtsp_source_init ssrc = \<lparr>so_ssrc = ssrc, so_base_sequence_number = 0, so_max_sequence_number = 0, so_cycles = 0, so_received = 0,
     so_expected_prior = 0, so_received_prior = 0, so_transit = 0, so_jitter_q4 = 0, so_received_sequence_bitmap = 0,
     so_has_ssrc = (ssrc \<noteq> 0), so_initialized = False\<rparr>"

text \<open>The difference of the transit times is computed in signed 32-bit arithmetic; its overflow, and the negation of the least value, are undefined.\<close>

definition rtsp_source_update_jitter :: "rtsp_source \<Rightarrow> rtsp_header \<Rightarrow> u32 \<Rightarrow> rtsp_source option" where
  "rtsp_source_update_jitter s h arrival =
     (let transit = sint (arrival - rh_timestamp h); delta = transit - so_transit s
      in if delta > INT32_MAX \<or> delta < - INT32_MAX then None
         else Some (s\<lparr>so_transit := transit,
                      so_jitter_q4 := so_jitter_q4 s + (word_of_int \<bar>delta\<bar> - drop_bit 4 (so_jitter_q4 s + 8))\<rparr>))"

definition rtsp_source_mark_received :: "rtsp_source \<Rightarrow> nat \<Rightarrow> rtsp_source" where
  "rtsp_source_mark_received s sequence_delta =
     s\<lparr>so_received_sequence_bitmap := if sequence_delta \<ge> 64 then 1 else push_bit sequence_delta (so_received_sequence_bitmap s) OR 1\<rparr>"

text \<open>What an arrival means for a source that is initialised: the result, and the source with its highest number and bitmap updated.  Differences of
  16-bit numbers are computed in 32 bits and never negative, so they are natural numbers here.\<close>

definition source_classify :: "rtsp_source \<Rightarrow> u16 \<Rightarrow> source_update_result \<times> rtsp_source" where
  "source_classify s sequence =
     (let mx = so_max_sequence_number s; bitmap = so_received_sequence_bitmap s
      in if sequence = mx then (UPDATE_DUPLICATE, s)
         else if sequence > mx then
           let sequence_delta = unat sequence - unat mx
           in if sequence_delta \<ge> 0x8000 then
                let previous_cycle_delta = unat mx + (RTSP_RTP_SEQ_MOD - unat sequence)
                in if so_cycles s > 0 \<and> previous_cycle_delta < 64 \<and> bit bitmap previous_cycle_delta then (UPDATE_DUPLICATE, s)
                   else (UPDATE_LATE_OR_OUT_OF_ORDER,
                         if so_cycles s > 0 \<and> previous_cycle_delta < 64
                         then s\<lparr>so_received_sequence_bitmap := bitmap OR push_bit previous_cycle_delta 1\<rparr> else s)
              else (if sequence_delta > RTP_MAX_DROPOUT then UPDATE_DROPOUT else UPDATE_OK,
                    rtsp_source_mark_received (s\<lparr>so_max_sequence_number := sequence\<rparr>) sequence_delta)
         else
           let reverse_delta = unat mx - unat sequence
           in if reverse_delta > 0x8000 then
                let sequence_delta = RTSP_RTP_SEQ_MOD - reverse_delta
                in (if sequence_delta > RTP_MAX_DROPOUT then UPDATE_DROPOUT else UPDATE_OK,
                    rtsp_source_mark_received
                      (s\<lparr>so_cycles := so_cycles s + word_of_nat RTSP_RTP_SEQ_MOD, so_max_sequence_number := sequence\<rparr>) sequence_delta)
              else if reverse_delta < 64 \<and> bit bitmap reverse_delta then (UPDATE_DUPLICATE, s)
              else (UPDATE_LATE_OR_OUT_OF_ORDER,
                    if reverse_delta < 64 then s\<lparr>so_received_sequence_bitmap := bitmap OR push_bit reverse_delta 1\<rparr> else s))"

definition rtsp_source_update_ex :: "rtsp_source \<Rightarrow> rtsp_header \<Rightarrow> u32 \<Rightarrow> (source_update_result \<times> rtsp_source) option" where
  "rtsp_source_update_ex s h arrival =
     (if rh_version h \<noteq> 2 then Some (UPDATE_ERROR, s)
      else if \<not> so_initialized s then
        if so_has_ssrc s \<and> so_ssrc s \<noteq> rh_ssrc h then Some (UPDATE_SSRC_MISMATCH, s)
        else Some (UPDATE_OK, s\<lparr>so_ssrc := rh_ssrc h, so_has_ssrc := True, so_base_sequence_number := rh_sequence_number h,
               so_max_sequence_number := rh_sequence_number h, so_received := 1, so_transit := sint (arrival - rh_timestamp h),
               so_received_sequence_bitmap := 1, so_initialized := True\<rparr>)
      else if so_ssrc s \<noteq> rh_ssrc h then Some (UPDATE_SSRC_MISMATCH, s)
      else case source_classify s (rh_sequence_number h) of
             (UPDATE_DUPLICATE, s') \<Rightarrow> Some (UPDATE_DUPLICATE, s')
           | (result, s') \<Rightarrow> map_option (\<lambda>s''. (result, s''\<lparr>so_received := so_received s'' + 1\<rparr>)) (rtsp_source_update_jitter s' h arrival))"

definition rtsp_source_update :: "rtsp_source \<Rightarrow> rtsp_header \<Rightarrow> u32 \<Rightarrow> (int \<times> rtsp_source) option" where
  "rtsp_source_update s h arrival =
     map_option (\<lambda>(result, s'). (if result = UPDATE_ERROR \<or> result = UPDATE_SSRC_MISMATCH then -1 else 0, s')) (rtsp_source_update_ex s h arrival)"

record report_block =
  rb_ssrc :: u32
  rb_fraction_lost :: u8
  rb_cumulative_lost :: int
  rb_extended_highest_sequence_number :: u32
  rb_jitter :: u32
  rb_last_sender_report :: u32
  rb_delay_since_last_sender_report :: u32

definition rtsp_source_make_report :: "rtsp_source \<Rightarrow> u32 \<Rightarrow> u32 \<Rightarrow> (report_block \<times> rtsp_source) option" where
  "rtsp_source_make_report s last_sender_report delay =
     (if \<not> so_initialized s then None
      else let extended_max = so_cycles s + ucast (so_max_sequence_number s);
               expected = extended_max - ucast (so_base_sequence_number s) + 1;
               lost = sint (expected - so_received s);
               lost = (if lost < -8388608 then -8388608 else if lost > 8388607 then 8388607 else lost);
               expected_interval = expected - so_expected_prior s;
               received_interval = so_received s - so_received_prior s;
               lost_interval = sint (expected_interval - received_interval)
           in Some (\<lparr>rb_ssrc = so_ssrc s,
                     rb_fraction_lost = (if expected_interval > 0 \<and> lost_interval > 0
                       then ucast (push_bit 8 (word_of_int lost_interval :: u32) div expected_interval) else 0),
                     rb_cumulative_lost = lost, rb_extended_highest_sequence_number = extended_max,
                     rb_jitter = drop_bit 4 (so_jitter_q4 s + 8), rb_last_sender_report = last_sender_report,
                     rb_delay_since_last_sender_report = delay\<rparr>,
                   s\<lparr>so_expected_prior := expected, so_received_prior := so_received s\<rparr>))"

section \<open>Senders and streams\<close>

record rtsp_sender =
  se_ssrc :: u32
  se_packet_count :: u32
  se_octet_count :: u32
  se_has_ssrc :: bool

definition rtsp_sender_init :: "u32 \<Rightarrow> rtsp_sender" where
  "rtsp_sender_init ssrc = \<lparr>se_ssrc = ssrc, se_packet_count = 0, se_octet_count = 0, se_has_ssrc = (ssrc \<noteq> 0)\<rparr>"

definition rtsp_sender_update :: "rtsp_sender \<Rightarrow> rtsp_header \<Rightarrow> int \<times> rtsp_sender" where
  "rtsp_sender_update s h =
     (if rh_version h \<noteq> 2 then (-1, s)
      else if se_has_ssrc s \<and> se_ssrc s \<noteq> rh_ssrc h then (-1, s)
      else let s = (if \<not> se_has_ssrc s then s\<lparr>se_ssrc := rh_ssrc h, se_has_ssrc := True\<rparr> else s)
           in (0, s\<lparr>se_packet_count := se_packet_count s + 1, se_octet_count := se_octet_count s + word_of_nat (rh_payload_len h)\<rparr>))"

record rtsp_stream =
  st_payload_type :: u8
  st_ssrc :: u32
  st_sequence_number :: u16
  st_timestamp :: u32
  st_clock_rate :: u32
  st_sender :: rtsp_sender

definition rtsp_stream_init :: "u8 \<Rightarrow> u32 \<Rightarrow> u16 \<Rightarrow> u32 \<Rightarrow> u32 \<Rightarrow> rtsp_stream" where
  "rtsp_stream_init payload_type ssrc sequence_number timestamp clock_rate =
     \<lparr>st_payload_type = payload_type, st_ssrc = ssrc, st_sequence_number = sequence_number, st_timestamp = timestamp,
      st_clock_rate = clock_rate, st_sender = rtsp_sender_init ssrc\<rparr>"

definition stream_header :: "rtsp_stream \<Rightarrow> bool \<Rightarrow> nat \<Rightarrow> rtsp_header" where
  "stream_header st marker payload_len = zero_header\<lparr>rh_version := 2, rh_marker := if marker then 1 else 0, rh_payload_type := st_payload_type st,
     rh_sequence_number := st_sequence_number st, rh_timestamp := st_timestamp st, rh_ssrc := st_ssrc st, rh_payload_len := payload_len\<rparr>"

text \<open>Result, length of the packet, stream and packet afterwards.\<close>

definition rtsp_stream_write_payload ::
  "rtsp_stream \<Rightarrow> bytes option \<Rightarrow> bool \<Rightarrow> u32 \<Rightarrow> bytes option \<Rightarrow> (int \<times> nat \<times> rtsp_stream \<times> bytes option) option" where
  "rtsp_stream_write_payload st payload_ptr marker timestamp_increment packet_ptr =
     (case (payload_ptr, packet_ptr) of
        (Some data, Some packet) \<Rightarrow>
          if data = [] \<or> st_payload_type st > 127 \<or> length data > SIZE_MAX - RTSP_RTP_HEADER_SIZE \<or> length packet < RTSP_RTP_HEADER_SIZE + length data
          then Some (-1, 0, st, packet_ptr)
          else let h = stream_header st marker (length data)
               in case rtsp_rtp_write_packet packet h (Some data) (length data) of
                    None \<Rightarrow> None
                  | Some (written, packet') \<Rightarrow>
                      (case rtsp_sender_update (st_sender st) h of
                         (code, sender) \<Rightarrow>
                           if written < 0 \<or> code \<noteq> 0 then Some (-1, 0, st, Some packet')
                           else Some (0, nat written,
                             st\<lparr>st_sender := sender, st_sequence_number := st_sequence_number st + 1,
                                st_timestamp := st_timestamp st + timestamp_increment\<rparr>, Some packet'))
      | _ \<Rightarrow> Some (-1, 0, st, packet_ptr))"

section \<open>Packets and headers\<close>

lemma header_bits:
  fixes v p x c :: u8
  shows "drop_bit 6 (push_bit 6 v OR push_bit 5 (p AND 1) OR push_bit 4 (x AND 1) OR (c AND 15)) = v AND 3"
    and "drop_bit 5 (push_bit 6 v OR push_bit 5 (p AND 1) OR push_bit 4 (x AND 1) OR (c AND 15)) AND 1 = p AND 1"
    and "drop_bit 4 (push_bit 6 v OR push_bit 5 (p AND 1) OR push_bit 4 (x AND 1) OR (c AND 15)) AND 1 = x AND 1"
    and "(push_bit 6 v OR push_bit 5 (p AND 1) OR push_bit 4 (x AND 1) OR (c AND 15)) AND 15 = c AND 15"
    and "drop_bit 7 (push_bit 7 (p AND 1) OR (c AND 127)) = p AND 1"
    and "(push_bit 7 (p AND 1) OR (c AND 127)) AND 127 = c AND 127"
  by (rule bit_word_eqI; auto simp: word_masks bit_simps dest: bit_imp_le_length)+

lemma masked_id: "unat (c :: 'a::len word) < 2 ^ n \<Longrightarrow> c AND mask n = c"
  by (rule word_unat_eq_iff [THEN iffD2]) (simp add: unsigned_take_bit_eq take_bit_nat_eq_self flip: take_bit_eq_mask)

text \<open>The headers a packet can carry, and what the reader makes of them.\<close>

definition header_ok :: "rtsp_header \<Rightarrow> bool" where
  "header_ok h \<longleftrightarrow> rh_version h = 2 \<and> rh_padding h = 0 \<and> rh_extension h \<le> 1 \<and> rh_csrc_count h \<le> 15 \<and> rh_marker h \<le> 1 \<and> rh_payload_type h \<le> 127
     \<and> length (rh_csrc h) = 16
     \<and> (if rh_extension h = 0 then rh_extension_profile h = 0 \<and> rh_extension_len h = 0 \<and> rh_extension_data h = None
        else rh_extension_len h mod 4 = 0 \<and> rh_extension_len h \<le> 65535 * 4 \<and> map_option length (rh_extension_data h) = Some (rh_extension_len h))"

definition header_size :: "rtsp_header \<Rightarrow> nat" where
  "header_size h = 12 + unat (rh_csrc_count h) * 4 + (if rh_extension h \<noteq> 0 then 4 + rh_extension_len h else 0)"

definition carried_header :: "rtsp_header \<Rightarrow> bytes \<Rightarrow> rtsp_header" where
  "carried_header h data = h\<lparr>rh_csrc := take (unat (rh_csrc_count h)) (rh_csrc h) @ replicate (16 - unat (rh_csrc_count h)) 0,
     rh_padding_len := 0, rh_payload := Some data, rh_payload_len := length data\<rparr>"

lemma header_ok_fields:
  assumes "header_ok h"
  shows "header_byte0 h AND 15 = rh_csrc_count h" "drop_bit 6 (header_byte0 h) = 2" "drop_bit 5 (header_byte0 h) AND 1 = 0"
    "drop_bit 4 (header_byte0 h) AND 1 = rh_extension h" "drop_bit 7 (header_byte1 h) = rh_marker h" "header_byte1 h AND 127 = rh_payload_type h"
    "unat (rh_csrc_count h) \<le> 15"
proof -
  have le: "unat (rh_csrc_count h) \<le> 15" "unat (rh_payload_type h) \<le> 127" "unat (rh_extension h) \<le> 1" "unat (rh_marker h) \<le> 1"
    using assms by (simp_all add: header_ok_def word_le_nat_alt)
  have m: "rh_csrc_count h AND 15 = rh_csrc_count h" "rh_payload_type h AND 127 = rh_payload_type h"
    "rh_extension h AND 1 = rh_extension h" "rh_marker h AND 1 = rh_marker h"
    using le masked_id [of "rh_csrc_count h" 4] masked_id [of "rh_payload_type h" 7] masked_id [of "rh_extension h" 1] masked_id [of "rh_marker h" 1]
    by (simp_all add: word_masks)
  have v: "rh_version h = 2" "rh_padding h = 0" using assms by (simp_all add: header_ok_def)
  show "header_byte0 h AND 15 = rh_csrc_count h" "drop_bit 6 (header_byte0 h) = 2" "drop_bit 5 (header_byte0 h) AND 1 = 0"
    "drop_bit 4 (header_byte0 h) AND 1 = rh_extension h" "drop_bit 7 (header_byte1 h) = rh_marker h" "header_byte1 h AND 127 = rh_payload_type h"
    unfolding header_byte0_def header_byte1_def header_bits unfolding m v by simp_all
  show "unat (rh_csrc_count h) \<le> 15" by (rule le)
qed

lemma extension_bytes_length: "header_ok h \<Longrightarrow> length (extension_bytes h) = (if rh_extension h \<noteq> 0 then 4 + rh_extension_len h else 0)"
  by (auto simp: extension_bytes_def header_ok_def)

lemma header_bytes_length: "header_ok h \<Longrightarrow> length (header_bytes h) = header_size h"
proof -
  assume h: "header_ok h"
  then have "length (take (unat (rh_csrc_count h)) (rh_csrc h)) = unat (rh_csrc_count h)"
    using header_ok_fields(7) [OF h] by (simp add: header_ok_def)
  with h show ?thesis by (simp add: header_bytes_def header_size_def net32.concat_enc_length extension_bytes_length del: length_take)
qed

lemma header_size_bound: "header_ok h \<Longrightarrow> header_size h \<le> 262216"
  using header_ok_fields(7) [of h] by (auto simp: header_size_def header_ok_def [of h])

lemma parse_header_bytes:
  assumes "header_ok h"
  shows "rtsp_rtp_parse_header (Some (header_bytes h @ data)) = Some (carried_header h data, header_size h)"
proof -
  note f = header_ok_fields [OF assms]
  let ?cc = "unat (rh_csrc_count h)"
  let ?p = "header_bytes h @ data"
  let ?pre = "[header_byte0 h, header_byte1 h] @ be16 (rh_sequence_number h) @ be32 (rh_timestamp h) @ be32 (rh_ssrc h)"
  let ?cs = "take ?cc (rh_csrc h)"
  have p: "?p = ?pre @ concat (map be32 ?cs) @ extension_bytes h @ data" by (simp add: header_bytes_def)
  have cl: "length ?cs = ?cc" using assms f(7) by (simp add: header_ok_def)
  have l: "length ?p = header_size h + length data" using header_bytes_length [OF assms] by simp
  have c: "map (\<lambda>i. read_u32 ?p (12 + i * 4)) [0..<?cc] = ?cs"
    unfolding p using net32.dec_all_at [of 12 ?pre ?cc ?cs "extension_bytes h @ data"] cl by simp
  have r: "read_u16 ?p 2 = rh_sequence_number h" "read_u32 ?p 4 = rh_timestamp h" "read_u32 ?p 8 = rh_ssrc h"
    unfolding p using net16.dec_at [of 2 "take 2 ?pre" "rh_sequence_number h"] net32.dec_at [of 4 "take 4 ?pre" "rh_timestamp h"]
      net32.dec_at [of 8 "take 8 ?pre" "rh_ssrc h"] by simp_all
  have fx: "parse_fixed ?p = zero_header\<lparr>rh_version := 2, rh_padding := 0, rh_extension := rh_extension h, rh_csrc_count := rh_csrc_count h,
      rh_marker := rh_marker h, rh_payload_type := rh_payload_type h, rh_sequence_number := rh_sequence_number h,
      rh_timestamp := rh_timestamp h, rh_ssrc := rh_ssrc h\<rparr>"
    using f r by (simp add: parse_fixed_def) (simp add: p)
  have off: "length (?pre @ concat (map be32 ?cs)) = 12 + ?cc * 4" using cl by (simp add: net32.concat_enc_length)
  have "?p = (?pre @ concat (map be32 ?cs)) @ extension_bytes h @ data" by (simp add: p)
  then have body: "drop (12 + ?cc * 4) ?p = extension_bytes h @ data" using off by (metis append_eq_conv_conj)
  show ?thesis
  proof (cases "rh_extension h = 0")
    case True
    with assms have "extension_bytes h = []" "header_size h = 12 + ?cc * 4" by (simp_all add: extension_bytes_def header_size_def)
    with True f(7) l c fx body assms show ?thesis
      by (simp add: rtsp_rtp_parse_header_def Let_def parse_extension_def parse_padding_def carried_header_def zero_header_def header_ok_def)
  next
    case False
    with assms obtain d where d: "rh_extension_data h = Some d" "length d = rh_extension_len h" "rh_extension_len h mod 4 = 0" "rh_extension_len h \<le> 262140"
      by (auto simp: header_ok_def)
    have e: "extension_bytes h = be16 (rh_extension_profile h) @ be16 (word_of_nat (rh_extension_len h div 4)) @ d"
      using False d by (auto simp: extension_bytes_def)
    have z: "header_size h = 12 + ?cc * 4 + 4 + rh_extension_len h" using False by (simp add: header_size_def)
    have r: "read_u16 ?p (12 + ?cc * 4) = rh_extension_profile h" "read_u16 ?p (12 + ?cc * 4 + 2) = word_of_nat (rh_extension_len h div 4)"
      unfolding p e append_assoc [symmetric, of ?pre]
      using read_u16_shift [of "12 + ?cc * 4" "?pre @ concat (map be32 ?cs)" _ 0] read_u16_shift [of "12 + ?cc * 4" "?pre @ concat (map be32 ?cs)" _ 2] off
      by (simp_all add: wire_simps read_skip)
    have n: "unat (word_of_nat (rh_extension_len h div 4) :: u16) * 4 = rh_extension_len h"
      using d(3,4) by (simp add: unat_of_nat take_bit_nat_eq_self) (metis add.right_neutral div_mult_mod_eq)
    have dr: "drop (12 + ?cc * 4 + 4) ?p = d @ data" "drop (header_size h) ?p = data"
    proof -
      have x: "drop 4 (extension_bytes h @ data) = d @ data" "drop (4 + rh_extension_len h) (extension_bytes h @ data) = data" using d(2) by (simp_all add: e)
      show "drop (12 + ?cc * 4 + 4) ?p = d @ data" "drop (header_size h) ?p = data"
        using arg_cong [OF body, of "drop 4"] arg_cong [OF body, of "drop (4 + rh_extension_len h)"] unfolding x z drop_drop by (simp_all only: ac_simps)
    qed
    from False f(7) l c fx r n dr d assms z show ?thesis
      by (simp add: rtsp_rtp_parse_header_def Let_def parse_extension_def parse_padding_def carried_header_def zero_header_def header_ok_def)
  qed
qed

lemma write_packet_ok:
  assumes "header_ok h" "header_size h + length data \<le> length packet" "header_size h + length data \<le> 2147483647"
  shows "rtsp_rtp_write_packet packet h (Some data) (length data) = Some (int (header_size h + length data), mem_write packet 0 (header_bytes h @ data))"
proof -
  note l = header_bytes_length [OF assms(1)]
  have d: "length (the (rh_extension_data h)) = rh_extension_len h" if "rh_extension h \<noteq> 0"
    using assms(1) that by (auto simp: header_ok_def)
  have z: "12 + unat (rh_csrc_count h) * 4 + (if rh_extension h \<noteq> 0 then 4 + rh_extension_len h else 0) = header_size h" by (simp add: header_size_def)
  have "\<not> length packet < header_size h" "12 \<le> length packet" using assms(2) by (simp_all add: header_size_def)
  then have "rtsp_rtp_write_header packet h = Some (int (header_size h), mem_write packet 0 (header_bytes h))"
    using assms(1) d unfolding rtsp_rtp_write_header_def RTSP_RTP_HEADER_SIZE_def z Let_def by (auto simp: header_ok_def)
  moreover have "mem_write (mem_write packet 0 (header_bytes h)) (header_size h) data = mem_write packet 0 (header_bytes h @ data)"
    using mem_write_append [of "header_size h" 0 "header_bytes h" data packet] assms(2) l by simp
  moreover have "rh_padding h = 0" using assms(1) by (simp add: header_ok_def)
  ultimately show ?thesis using assms(2,3) l by (auto simp: rtsp_rtp_write_packet_def Let_def INT32_MAX_def)
qed

lemma stream_header_ok: "st_payload_type st \<le> 127 \<Longrightarrow> header_ok (stream_header st m n) \<and> header_size (stream_header st m n) = 12"
  by (simp add: header_ok_def header_size_def stream_header_def zero_header_def)

section \<open>Received sources\<close>

text \<open>Packets are numbered without wrap-around; the source is to be told apart from its 16-bit numbers alone.  The result of an arrival, given the highest number so far
  and the numbers seen:\<close>

definition arrival_result :: "nat \<Rightarrow> nat set \<Rightarrow> nat \<Rightarrow> source_update_result" where
  "arrival_result m A i =
     (if i > m then if i - m > 3000 then UPDATE_DROPOUT else UPDATE_OK
      else if i = m \<or> m - i < 64 \<and> i \<in> A then UPDATE_DUPLICATE
      else UPDATE_LATE_OR_OUT_OF_ORDER)"

definition source_at :: "rtsp_source \<Rightarrow> nat \<Rightarrow> nat \<Rightarrow> nat set \<Rightarrow> bool" where
  "source_at s b m A \<longleftrightarrow> so_initialized s \<and> so_base_sequence_number s = word_of_nat b \<and> b < 65536 \<and> m < 2 ^ 32 \<and> m \<in> A \<and> A \<subseteq> {..m}
     \<and> so_max_sequence_number s = word_of_nat m \<and> so_cycles s = word_of_nat (m div 65536 * 65536)
     \<and> (\<forall>k<64. bit (so_received_sequence_bitmap s) k \<longleftrightarrow> k \<le> m \<and> m - k \<in> A)"

lemma wrap_forward:
  fixes m d :: nat
  assumes "d < 65536"
  shows "(m + d) mod 65536 = (if m mod 65536 + d < 65536 then m mod 65536 + d else m mod 65536 + d - 65536)"
    and "(m + d) div 65536 = (if m mod 65536 + d < 65536 then m div 65536 else m div 65536 + 1)"
proof -
  define q r where "q = m div 65536" and "r = m mod 65536"
  then have m: "m = 65536 * q + r" "r < 65536" by simp_all
  have "(65536 * q + r + d) mod 65536 = (r + d) mod 65536" "(65536 * q + r + d) div 65536 = q + (r + d) div 65536"
    by (simp_all add: add.assoc)
  moreover have "(r + d) mod 65536 = (if r + d < 65536 then r + d else r + d - 65536)" "(r + d) div 65536 = (if r + d < 65536 then 0 else 1)"
    using m(2) assms by (auto simp: mod_if div_if)
  ultimately show "(m + d) mod 65536 = (if m mod 65536 + d < 65536 then m mod 65536 + d else m mod 65536 + d - 65536)"
    "(m + d) div 65536 = (if m mod 65536 + d < 65536 then m div 65536 else m div 65536 + 1)"
    using m by simp_all
qed

lemma bit_shifted: "k < 64 \<Longrightarrow> bit (push_bit d B OR 1 :: u64) k \<longleftrightarrow> k = 0 \<or> d \<le> k \<and> bit B (k - d)"
  by (auto simp: bit_simps)

lemma bit_added: "k < 64 \<Longrightarrow> bit (B OR push_bit d 1 :: u64) k \<longleftrightarrow> k = d \<or> bit B k"
  by (auto simp: bit_simps)

lemma unat_seq [simp]: "unat (word_of_nat i :: u16) = i mod 65536"
  by (simp add: unat_of_nat take_bit_eq_mod)

lemma classify_forward:
  assumes s: "source_at s b m A" and d: "0 < d" "d < 32768" "m + d < 2 ^ 32"
  shows "\<exists>s'. source_classify s (word_of_nat (m + d)) = (arrival_result m A (m + d), s') \<and> source_at s' b (m + d) (insert (m + d) A)
    \<and> so_received s' = so_received s \<and> so_transit s' = so_transit s \<and> so_ssrc s' = so_ssrc s"
proof -
  let ?r = "m mod 65536" and ?w = "word_of_nat (m + d) :: u16"
  let ?s = "\<lambda>c. rtsp_source_mark_received (s\<lparr>so_cycles := c, so_max_sequence_number := ?w\<rparr>) d"
  have "d < 65536" using d by simp
  note wf = wrap_forward [OF this, of m]
  have bits: "bit (so_received_sequence_bitmap (?s c)) k \<longleftrightarrow> k \<le> m + d \<and> m + d - k \<in> insert (m + d) A" if k: "k < 64" for k c
  proof (cases "64 \<le> d")
    case True
    with k have "m + d - k > m" by simp
    with s have "m + d - k \<notin> A" by (auto simp: source_at_def)
    with True k show ?thesis by (auto simp: rtsp_source_mark_received_def bit_simps)
  next
    case False
    have "m + d - k \<notin> A" if "k < d" using s that by (auto simp: source_at_def)
    moreover have "bit (so_received_sequence_bitmap s) (k - d) \<longleftrightarrow> k \<le> m + d \<and> m + d - k \<in> A" if "d \<le> k"
    proof -
      have "m - (k - d) = m + d - k" "k - d \<le> m \<longleftrightarrow> k \<le> m + d" "k - d < 64" using that k by auto
      then show ?thesis using s by (auto simp: source_at_def)
    qed
    moreover have "bit (so_received_sequence_bitmap (?s c)) k \<longleftrightarrow> k = 0 \<or> d \<le> k \<and> bit (so_received_sequence_bitmap s) (k - d)"
      using False bit_shifted [OF k, of d "so_received_sequence_bitmap s"] by (simp add: rtsp_source_mark_received_def)
    ultimately show ?thesis using d(1) by (cases "k < d") auto
  qed
  have at: "source_at (?s c) b (m + d) (insert (m + d) A)" if "c = word_of_nat ((m + d) div 65536 * 65536)" for c
    using s bits that d by (auto simp: source_at_def rtsp_source_mark_received_def)
  have fields: "so_received (?s c) = so_received s" "so_transit (?s c) = so_transit s" "so_ssrc (?s c) = so_ssrc s" for c
    by (simp_all add: rtsp_source_mark_received_def)
  have mx: "so_max_sequence_number s = word_of_nat m" and cy: "so_cycles s = word_of_nat (m div 65536 * 65536)" using s by (simp_all add: source_at_def)
  have r: "?r < 65536" by simp
  show ?thesis
  proof (cases "?r + d < 65536")
    case True
    have u: "unat ?w = ?r + d" using wf True by (simp del: of_nat_add)
    have n: "?w \<noteq> word_of_nat m" "word_of_nat m < ?w" using u d(1) by (auto simp: word_less_nat_alt word_unat_eq_iff simp del: of_nat_add)
    have "s\<lparr>so_cycles := so_cycles s, so_max_sequence_number := ?w\<rparr> = s\<lparr>so_max_sequence_number := ?w\<rparr>" by simp
    then have "source_classify s ?w = (arrival_result m A (m + d), ?s (so_cycles s))"
      using n u d mx by (simp add: source_classify_def Let_def arrival_result_def del: of_nat_add)
    moreover have "so_cycles s = word_of_nat ((m + d) div 65536 * 65536)" using cy wf True d by simp
    ultimately show ?thesis using at fields by metis
  next
    case False
    have u: "unat ?w = ?r + d - 65536" using wf False by (simp del: of_nat_add)
    have n: "?w \<noteq> word_of_nat m" "\<not> word_of_nat m < ?w" using u d(2) False r by (auto simp: word_less_nat_alt word_unat_eq_iff simp del: of_nat_add)
    have e: "65536 - (?r - (?r + d - 65536)) = d" "?r - (?r + d - 65536) > 0x8000" using False d(2) r by auto
    have "source_classify s ?w = (arrival_result m A (m + d), ?s (so_cycles s + word_of_nat 65536))"
      using n u e d mx by (simp add: source_classify_def Let_def arrival_result_def del: of_nat_add of_nat_numeral)
    moreover have "so_cycles s + word_of_nat 65536 = word_of_nat ((m + d) div 65536 * 65536)" using cy wf False d by simp
    ultimately show ?thesis using at fields by metis
  qed
qed

lemma classify_backward:
  assumes s: "source_at s b m A" and d: "d < 32768" "m = i + d"
  shows "\<exists>s'. source_classify s (word_of_nat i) = (arrival_result m A i, s') \<and> source_at s' b m (insert i A)
    \<and> so_received s' = so_received s \<and> so_transit s' = so_transit s \<and> so_ssrc s' = so_ssrc s"
proof (cases "d = 0")
  case True
  with s d show ?thesis by (auto simp: source_classify_def source_at_def arrival_result_def insert_absorb)
next
  case False
  let ?r = "i mod 65536" and ?w = "word_of_nat i :: u16"
  let ?s = "s\<lparr>so_received_sequence_bitmap := so_received_sequence_bitmap s OR push_bit d 1\<rparr>"
  have "d < 65536" using d by simp
  note wf = wrap_forward [OF this, of i]
  have mx: "so_max_sequence_number s = word_of_nat m" and cy: "so_cycles s = word_of_nat (m div 65536 * 65536)" and m: "m < 2 ^ 32"
    and bt: "\<And>k. k < 64 \<Longrightarrow> bit (so_received_sequence_bitmap s) k \<longleftrightarrow> k \<le> m \<and> m - k \<in> A" using s by (simp_all add: source_at_def)
  have r: "?r < 65536" by simp
  have dup: "bit (so_received_sequence_bitmap s) d \<longleftrightarrow> i \<in> A" if "d < 64" using bt [OF that] d(2) by simp
  have near: "source_at ?s b m (insert i A)" if "d < 64"
  proof -
    have "bit (so_received_sequence_bitmap ?s) k \<longleftrightarrow> k \<le> m \<and> m - k \<in> insert i A" if "k < 64" for k
      using bit_added [OF that, of "so_received_sequence_bitmap s" d] bt [OF that] d(2) by auto
    then show ?thesis using s d(2) by (auto simp: source_at_def)
  qed
  have far: "source_at s b m (insert i A)" if "\<not> d < 64 \<or> i \<in> A"
  proof -
    have "m - k \<in> insert i A \<longleftrightarrow> m - k \<in> A" if "k < 64" "k \<le> m" for k using \<open>\<not> d < 64 \<or> i \<in> A\<close> that d(2) by auto
    then show ?thesis using s d(2) by (auto simp: source_at_def)
  qed
  have res: "arrival_result m A i = (if d < 64 \<and> i \<in> A then UPDATE_DUPLICATE else UPDATE_LATE_OR_OUT_OF_ORDER)"
    using False d(2) by (simp add: arrival_result_def)
  have c: "source_classify s ?w = (if d < 64 \<and> bit (so_received_sequence_bitmap s) d then (UPDATE_DUPLICATE, s)
      else (UPDATE_LATE_OR_OUT_OF_ORDER, if d < 64 then ?s else s))"
  proof (cases "?r + d < 65536")
    case True
    have u: "unat (word_of_nat m :: u16) = ?r + d" using wf True by (simp add: d del: of_nat_add)
    have n: "?w \<noteq> word_of_nat m" "\<not> word_of_nat m < ?w" using u False unat_seq [of i]
      by (auto simp: word_less_nat_alt word_unat_eq_iff simp del: of_nat_add unat_seq)
    from n u d(1) mx show ?thesis by (simp add: source_classify_def Let_def del: of_nat_add)
  next
    case wrapped: False
    have u: "unat (word_of_nat m :: u16) = ?r + d - 65536" using wf wrapped by (simp add: d del: of_nat_add)
    have n: "?w \<noteq> word_of_nat m" "word_of_nat m < ?w" using u d(1) wrapped r unat_seq [of i]
      by (auto simp: word_less_nat_alt word_unat_eq_iff simp del: of_nat_add unat_seq)
    have e: "?r + d - 65536 + (65536 - ?r) = d" "?r - (?r + d - 65536) \<ge> 0x8000" using wrapped d(1) r by auto
    have "m div 65536 \<ge> 1" "m div 65536 * 65536 \<le> m" using wf wrapped d by simp_all
    with m have "unat (so_cycles s) = m div 65536 * 65536" unfolding cy by (subst unat_of_nat) (simp add: take_bit_nat_eq_self)
    with \<open>m div 65536 \<ge> 1\<close> have cp: "so_cycles s > 0" by (simp add: word_less_nat_alt)
    from n u e cp mx show ?thesis by (simp add: source_classify_def Let_def del: of_nat_add)
  qed
  show ?thesis
  proof (cases "d < 64")
    case True
    with c res dup near far show ?thesis by (cases "i \<in> A") auto
  next
    case False
    with c res far show ?thesis by auto
  qed
qed

text \<open>Transit times of less than half the range never overflow when they are subtracted.\<close>

definition small_transit :: "int \<Rightarrow> bool" where
  "small_transit t \<longleftrightarrow> - 1073741824 \<le> t \<and> t < 1073741824"

lemma jitter_defined:
  "small_transit (so_transit s) \<Longrightarrow> small_transit (sint (t - rh_timestamp h)) \<Longrightarrow>
     \<exists>s'. rtsp_source_update_jitter s h t = Some s' \<and> (\<exists>j. s' = s\<lparr>so_transit := sint (t - rh_timestamp h), so_jitter_q4 := j\<rparr>)"
  by (auto simp: rtsp_source_update_jitter_def Let_def small_transit_def INT32_MAX_def)

lemma source_step:
  assumes s: "source_at s b m A" "so_ssrc s = rh_ssrc h" "small_transit (so_transit s)"
    and h: "rh_version h = 2" "rh_sequence_number h = word_of_nat i" "small_transit (sint (t - rh_timestamp h))"
    and i: "i < 2 ^ 32" "i < m + 32768" "m < i + 32768"
  shows "\<exists>s'. rtsp_source_update_ex s h t = Some (arrival_result m A i, s') \<and> source_at s' b (max m i) (insert i A)
    \<and> so_ssrc s' = rh_ssrc h \<and> small_transit (so_transit s')
    \<and> so_received s' = so_received s + (if arrival_result m A i = UPDATE_DUPLICATE then 0 else 1)"
proof -
  obtain s1 where c: "source_classify s (word_of_nat i) = (arrival_result m A i, s1)" "source_at s1 b (max m i) (insert i A)"
    "so_received s1 = so_received s" "so_transit s1 = so_transit s" "so_ssrc s1 = so_ssrc s"
  proof (cases "i > m")
    case True
    then have "i - m < 32768" "m + (i - m) = i" using i by simp_all
    with classify_forward [OF s(1), of "i - m"] True i(1) that show thesis by (auto simp del: of_nat_diff)
  next
    case False
    with classify_backward [OF s(1), of "m - i" i] i that show thesis by (auto simp: max_def)
  qed
  have "so_initialized s" using s(1) by (simp add: source_at_def)
  then have u: "rtsp_source_update_ex s h t = (case (arrival_result m A i, s1) of (UPDATE_DUPLICATE, s') \<Rightarrow> Some (UPDATE_DUPLICATE, s')
      | (result, s') \<Rightarrow> map_option (\<lambda>s''. (result, s''\<lparr>so_received := so_received s'' + 1\<rparr>)) (rtsp_source_update_jitter s' h t))"
    using s(2) h(1,2) c(1) by (simp add: rtsp_source_update_ex_def)
  obtain s2 j where j: "rtsp_source_update_jitter s1 h t = Some s2" "s2 = s1\<lparr>so_transit := sint (t - rh_timestamp h), so_jitter_q4 := j\<rparr>"
    using jitter_defined [of s1 t h] s(3) h(3) c(4) by auto
  have "source_at (s2\<lparr>so_received := so_received s2 + 1\<rparr>) b (max m i) (insert i A)" using c(2) by (simp add: source_at_def j(2))
  moreover have "arrival_result m A i \<in> {UPDATE_OK, UPDATE_DUPLICATE, UPDATE_LATE_OR_OUT_OF_ORDER, UPDATE_DROPOUT}" by (simp add: arrival_result_def)
  ultimately show ?thesis using c s h(3) by (auto simp: u j)
qed

primrec source_run :: "rtsp_source \<Rightarrow> (rtsp_header \<times> u32) list \<Rightarrow> (source_update_result list \<times> rtsp_source) option" where
  "source_run s [] = Some ([], s)"
| "source_run s (x # xs) =
     (case rtsp_source_update_ex s (fst x) (snd x) of
        None \<Rightarrow> None
      | Some (r, s') \<Rightarrow> map_option (\<lambda>(rs, s''). (r # rs, s'')) (source_run s' xs))"

primrec source_spec :: "nat \<Rightarrow> nat set \<Rightarrow> nat list \<Rightarrow> source_update_result list" where
  "source_spec m A [] = []"
| "source_spec m A (i # is) = arrival_result m A i # source_spec (max m i) (insert i A) is"

primrec close_by :: "nat \<Rightarrow> nat list \<Rightarrow> bool" where
  "close_by m [] \<longleftrightarrow> True"
| "close_by m (i # is) \<longleftrightarrow> i < m + 32768 \<and> m < i + 32768 \<and> close_by (max m i) is"

definition arrives_as :: "u32 \<Rightarrow> nat \<Rightarrow> rtsp_header \<times> u32 \<Rightarrow> bool" where
  "arrives_as ssrc i x \<longleftrightarrow> rh_version (fst x) = 2 \<and> rh_ssrc (fst x) = ssrc \<and> rh_sequence_number (fst x) = word_of_nat i
     \<and> small_transit (sint (snd x - rh_timestamp (fst x))) \<and> i < 2147483647"

lemma source_run_exact:
  "list_all2 (arrives_as ssrc) is xs \<Longrightarrow> close_by m is \<Longrightarrow> source_at s b m A \<Longrightarrow> so_ssrc s = ssrc \<Longrightarrow> small_transit (so_transit s) \<Longrightarrow>
     \<exists>s'. source_run s xs = Some (source_spec m A is, s') \<and> source_at s' b (fold max is m) (A \<union> set is) \<and> so_ssrc s' = ssrc
       \<and> so_received s' = so_received s + word_of_nat (length (filter ((\<noteq>) UPDATE_DUPLICATE) (source_spec m A is)))"
proof (induction "is" xs arbitrary: m A s rule: list_all2_induct)
  case Nil
  then show ?case by auto
next
  case (Cons i "is" x xs)
  have "i < 2 ^ 32" using Cons.hyps(1) by (simp add: arrives_as_def)
  with source_step [of s b m A "fst x" i "snd x"] Cons obtain s1 where s1: "rtsp_source_update_ex s (fst x) (snd x) = Some (arrival_result m A i, s1)"
    "source_at s1 b (max m i) (insert i A)" "so_ssrc s1 = ssrc" "small_transit (so_transit s1)"
    "so_received s1 = so_received s + (if arrival_result m A i = UPDATE_DUPLICATE then 0 else 1)"
    by (auto simp: arrives_as_def)
  from Cons.IH [OF _ s1(2-4)] Cons.prems obtain s2 where "source_run s1 xs = Some (source_spec (max m i) (insert i A) is, s2)"
    "source_at s2 b (fold max is (max m i)) (insert i A \<union> set is)" "so_ssrc s2 = ssrc"
    "so_received s2 = so_received s1 + word_of_nat (length (filter ((\<noteq>) UPDATE_DUPLICATE) (source_spec (max m i) (insert i A) is)))" by auto
  with s1 show ?case by (auto simp: max.commute)
qed

lemma fold_max_bound: "(m :: nat) < n \<Longrightarrow> \<forall>i\<in>set is. i < n \<Longrightarrow> fold max is m < n \<and> m \<le> fold max is m"
  by (induction "is" arbitrary: m) (auto simp: le_max_iff_disj, metis max.bounded_iff max.cobounded2 max_less_iff_conj)

lemma spec_length: "length (source_spec m A is) = length is"
  by (induction "is" arbitrary: m A) simp_all

lemma first_arrival:
  assumes "arrives_as ssrc b x" "b < 65536" "known = 0 \<or> known = ssrc"
  shows "\<exists>s. rtsp_source_update_ex (rtsp_source_init known) (fst x) (snd x) = Some (UPDATE_OK, s) \<and> source_at s b b {b} \<and> so_ssrc s = ssrc
    \<and> small_transit (so_transit s) \<and> so_received s = 1 \<and> so_expected_prior s = 0"
  using assms by (auto simp: rtsp_source_update_ex_def rtsp_source_init_def arrives_as_def source_at_def bit_simps)

lemma lost_count:
  assumes "a < 2 ^ 31" "n < 2 ^ 31"
  shows "sint (word_of_nat a - word_of_nat n :: u32) = int a - int n"
proof -
  have "word_of_nat a - word_of_nat n = (word_of_int (int a - int n) :: u32)" by simp
  then show ?thesis using assms by (simp add: signed_of_int signed_take_bit_int_eq_self del: of_int_diff)
qed

section \<open>Properties\<close>

text \<open>C35. The statistics of a source are those of the true packet numbers.  Number the packets of one source without wrap-around, the first that
  arrives by its 16-bit sequence number and the others relative to it, and let no number be negative (none precedes the sequence number 0 of
  the first packet's cycle).  Let them arrive in any order, with losses and duplicates, each less than 32768 away from the highest so far, with
  arrival times within \<open>2\<^sup>3\<^sup>0\<close> clock units of their timestamps.  Then every arrival is classified by these numbers - next or ahead, a gap of more than
  3000, a duplicate among the last 64, late - and the report states the highest number and the number of packets missing, clamped to 24 bits.\<close>

theorem rtsp_source_exact:
  assumes "list_all2 (arrives_as ssrc) (b # is) xs" "b < 65536" "close_by b is" "length is < 2147483647" "known = 0 \<or> known = ssrc"
  defines "results \<equiv> UPDATE_OK # source_spec b {b} is" and "highest \<equiv> fold max is b"
  shows "\<exists>s block s'. source_run (rtsp_source_init known) xs = Some (results, s) \<and> rtsp_source_make_report s lsr delay = Some (block, s')
    \<and> rb_ssrc block = ssrc \<and> rb_extended_highest_sequence_number block = word_of_nat highest
    \<and> rb_cumulative_lost block = max (-8388608) (min 8388607 (int (highest - b + 1) - int (length (filter ((\<noteq>) UPDATE_DUPLICATE) results))))"
proof -
  from assms(1) obtain x ys where xs: "xs = x # ys" "arrives_as ssrc b x" "list_all2 (arrives_as ssrc) is ys" by (cases xs) auto
  from first_arrival [OF xs(2) assms(2,5)] obtain s0 where s0: "rtsp_source_update_ex (rtsp_source_init known) (fst x) (snd x) = Some (UPDATE_OK, s0)"
    "source_at s0 b b {b}" "so_ssrc s0 = ssrc" "small_transit (so_transit s0)" "so_received s0 = 1" by blast
  from source_run_exact [OF xs(3) assms(3) s0(2-4)] obtain s where s: "source_run s0 ys = Some (source_spec b {b} is, s)"
    "source_at s b highest ({b} \<union> set is)" "so_ssrc s = ssrc"
    "so_received s = so_received s0 + word_of_nat (length (filter ((\<noteq>) UPDATE_DUPLICATE) (source_spec b {b} is)))" unfolding highest_def by blast
  have run: "source_run (rtsp_source_init known) xs = Some (results, s)" by (simp add: xs(1) s0(1) s(1) results_def)
  define n where "n = length (filter ((\<noteq>) UPDATE_DUPLICATE) results)"
  have rec: "so_received s = word_of_nat n" using s(4) s0(5) by (simp add: n_def results_def)
  have "n \<le> Suc (length is)" using length_filter_le [of "(\<noteq>) UPDATE_DUPLICATE" results] by (simp add: n_def results_def spec_length)
  then have nb: "n < 2 ^ 31" using assms(4) by simp
  have "\<forall>i\<in>set is. i < 2147483647" using xs(3) by (auto simp: list_all2_conv_all_nth arrives_as_def in_set_conv_nth)
  moreover have "b < 2147483647" using assms(2) by simp
  ultimately have hb: "highest < 2147483647" "b \<le> highest" using fold_max_bound [of b 2147483647 "is"] by (auto simp: highest_def)
  have "so_cycles s + ucast (so_max_sequence_number s) = word_of_nat (highest div 65536 * 65536) + word_of_nat (highest mod 65536)"
    using s(2) by (simp add: source_at_def unsigned_of_nat take_bit_eq_mod)
  also have "\<dots> = word_of_nat highest" by (simp only: of_nat_add [symmetric] div_mult_mod_eq)
  finally have ext: "so_cycles s + ucast (so_max_sequence_number s) = word_of_nat highest" .
  have base: "ucast (so_base_sequence_number s) = (word_of_nat b :: u32)" using s(2) assms(2)
    by (simp add: source_at_def unsigned_of_nat take_bit_nat_eq_self)
  have e: "word_of_nat highest - word_of_nat b + 1 = (word_of_nat (highest - b + 1) :: u32)" using hb(2) by (simp add: of_nat_diff)
  have lost: "sint (word_of_nat highest - word_of_nat b + 1 - word_of_nat n :: u32) = int (highest - b + 1) - int n"
    unfolding e by (rule lost_count) (use hb nb in simp_all)
  have ini: "so_initialized s" using s(2) by (simp add: source_at_def)
  have clamp: "(if l < - 8388608 then - 8388608 else if l > 8388607 then 8388607 else l) = max (- 8388608) (min 8388607 l)" for l :: int by auto
  from ini have "\<exists>block s'. rtsp_source_make_report s lsr delay = Some (block, s') \<and> rb_ssrc block = ssrc
    \<and> rb_extended_highest_sequence_number block = word_of_nat highest
    \<and> rb_cumulative_lost block = max (-8388608) (min 8388607 (int (highest - b + 1) - int n))"
    by (simp add: rtsp_source_make_report_def Let_def ext base rec lost clamp s(3) del: of_nat_add of_nat_Suc)
  with run show ?thesis unfolding n_def by blast
qed

lemma rtsp_source_exact_witness:
  "\<exists>s block s'. source_run (rtsp_source_init 7)
       (map (\<lambda>q. (zero_header\<lparr>rh_version := 2, rh_ssrc := 7, rh_sequence_number := q\<rparr>, 0)) [65534, 0, 65535, 65535, 3])
     = Some ([UPDATE_OK, UPDATE_OK, UPDATE_LATE_OR_OUT_OF_ORDER, UPDATE_DUPLICATE, UPDATE_OK], s)
   \<and> rtsp_source_make_report s 0 0 = Some (block, s') \<and> rb_ssrc block = 7 \<and> rb_extended_highest_sequence_number block = 65539 \<and> rb_cumulative_lost block = 2"
proof -
  let ?xs = "map (\<lambda>q. (zero_header\<lparr>rh_version := 2, rh_ssrc := 7, rh_sequence_number := q\<rparr>, 0)) [65534, 0, 65535, 65535, 3]"
  have a: "list_all2 (arrives_as 7) [65534, 65536, 65535, 65535, 65539] ?xs"
    by (simp add: arrives_as_def zero_header_def small_transit_def)
  have r: "UPDATE_OK # source_spec 65534 {65534} [65536, 65535, 65535, 65539]
      = [UPDATE_OK, UPDATE_OK, UPDATE_LATE_OR_OUT_OF_ORDER, UPDATE_DUPLICATE, UPDATE_OK]" by (simp add: arrival_result_def)
  from rtsp_source_exact [OF a, of 7 0 0] show ?thesis unfolding r by simp
qed

text \<open>A packet from before the first packet's cycle is not remembered: its duplicate counts as another late packet.\<close>

lemma source_duplicate_before_first:
  "\<exists>s. source_run (rtsp_source_init 7) (map (\<lambda>q. (zero_header\<lparr>rh_version := 2, rh_ssrc := 7, rh_sequence_number := q\<rparr>, 0)) [0, 65535, 65535])
     = Some ([UPDATE_OK, UPDATE_LATE_OR_OUT_OF_ORDER, UPDATE_LATE_OR_OUT_OF_ORDER], s)"
  by (simp add: rtsp_source_update_ex_def rtsp_source_init_def rtsp_source_update_jitter_def source_classify_def zero_header_def INT32_MAX_def Let_def)

text \<open>A packet written from a header and a payload is read back as that header and payload, and the memory behind the packet is not touched.\<close>

theorem rtsp_packet_roundtrip:
  assumes "header_ok h" "header_size h + length data \<le> length packet" "header_size h + length data \<le> 2147483647"
  shows "\<exists>packet'. rtsp_rtp_write_packet packet h (Some data) (length data) = Some (int (header_size h + length data), packet')
    \<and> length packet' = length packet \<and> drop (header_size h + length data) packet' = drop (header_size h + length data) packet
    \<and> rtsp_rtp_parse_header (Some (take (header_size h + length data) packet')) = Some (carried_header h data, header_size h)"
proof -
  have l: "length (header_bytes h @ data) = header_size h + length data" using header_bytes_length [OF assms(1)] by simp
  have "take (header_size h + length data) (mem_write packet 0 (header_bytes h @ data)) = header_bytes h @ data"
    unfolding l [symmetric] mem_write_0 by (simp del: append_assoc)
  moreover have "drop (header_size h + length data) (mem_write packet 0 (header_bytes h @ data)) = drop (header_size h + length data) packet"
    unfolding l [symmetric] mem_write_0 by (simp del: append_assoc)
  moreover have "length (mem_write packet 0 (header_bytes h @ data)) = length packet" using assms(2) l by (intro length_mem_write) simp
  ultimately show ?thesis using write_packet_ok [OF assms] parse_header_bytes [OF assms(1), of data] by simp
qed

lemma rtsp_packet_roundtrip_witness:
  "\<exists>packet'. rtsp_rtp_write_packet (replicate 32 0) (stream_header (rtsp_stream_init 96 7 5 0 90000) True 2) (Some [1, 2]) 2 = Some (14, packet')
     \<and> rtsp_rtp_parse_header (Some (take 14 packet')) = Some (carried_header (stream_header (rtsp_stream_init 96 7 5 0 90000) True 2) [1, 2], 12)"
proof -
  let ?h = "stream_header (rtsp_stream_init 96 7 5 0 90000) True 2"
  have h: "header_ok ?h" "header_size ?h = 12" using stream_header_ok [of "rtsp_stream_init 96 7 5 0 90000" True 2] by (simp_all add: rtsp_stream_init_def)
  from rtsp_packet_roundtrip [OF h(1), of "[1, 2]" "replicate 32 0"] show ?thesis unfolding h(2) by (auto simp: numeral_2_eq_2)
qed

text \<open>The jitter estimate overflows a signed integer when two transit times are more than half the range apart, which the timestamps of one peer can bring about.\<close>

lemma source_jitter_overflow:
  assumes "so_initialized s" "rh_version h = 2" "so_ssrc s = rh_ssrc h" "fst (source_classify s (rh_sequence_number h)) \<noteq> UPDATE_DUPLICATE"
  shows "rtsp_source_update_ex s h t = None \<longleftrightarrow> \<bar>sint (t - rh_timestamp h) - so_transit s\<bar> > 2147483647"
proof -
  obtain r s1 where c: "source_classify s (rh_sequence_number h) = (r, s1)" by (cases "source_classify s (rh_sequence_number h)")
  then have "so_transit s1 = so_transit s"
    by (auto simp: source_classify_def Let_def rtsp_source_mark_received_def split: if_splits)
  then have "rtsp_source_update_jitter s1 h t = None \<longleftrightarrow> \<bar>sint (t - rh_timestamp h) - so_transit s\<bar> > 2147483647"
    by (auto simp: rtsp_source_update_jitter_def Let_def INT32_MAX_def)
  then show ?thesis using assms c by (cases r) (auto simp: rtsp_source_update_ex_def)
qed

end
