(* ===== verification/Rtsp_Interleaved.thy ===== *)
theory Rtsp_Interleaved
  imports Prelude
begin

text \<open>
  RTP and RTCP interleaved with RTSP on one TCP connection (\<open>media/rtsp/parser/turbo_rtsp_rtp.c\<close>): a frame is a dollar sign, a channel, a
  16-bit length and the payload.  The one-shot parser, the incremental parser without copying, the incremental parser that collects the
  payload, and the header writer.

  The header array is the list of the bytes collected so far, the payload buffer the list of the bytes copied so far together with
  its size.  A frame's payload is the bytes it points at.  A copy past the end of the payload buffer or of the input is \<open>None\<close>.

  Shown here: over any sequence of calls, with buffers of any size and destinations large enough or not, the collecting parser delivers exactly
  the frames of the byte stream, in order, and never leaves its buffer; and every call makes progress.
\<close>

section \<open>State\<close>

definition INTERLEAVED_HEADER_SIZE :: nat where [simp]: "INTERLEAVED_HEADER_SIZE = 4"

datatype frame_result = FRAME_ERROR | FRAME_OK | FRAME_PARTIAL

record interleaved_frame =
  if_channel :: u8
  if_payload_len :: u16
  if_payload :: "bytes option"

definition zero_frame :: interleaved_frame where
  "zero_frame = \<lparr>if_channel = 0, if_payload_len = 0, if_payload = None\<rparr>"

record interleaved_parser =
  il_header :: bytes
  il_channel :: u8
  il_payload_len :: u16
  il_payload_remaining :: nat
  il_needed :: nat
  il_discarding_payload :: bool
  il_payload_buffer :: bytes
  il_payload_buffer_size :: nat
  il_frame_pending :: bool

section \<open>Operations\<close>

definition interleaved_parse :: "bytes \<Rightarrow> frame_result \<times> interleaved_frame \<times> nat" where
  "interleaved_parse buffer =
     (if length buffer < INTERLEAVED_HEADER_SIZE then (FRAME_PARTIAL, zero_frame, 0)
      else if buffer ! 0 \<noteq> 0x24 then (FRAME_ERROR, zero_frame, 0)
      else let payload_len = read_u16 buffer 2
           in if length buffer < INTERLEAVED_HEADER_SIZE + unat payload_len then (FRAME_PARTIAL, zero_frame, 0)
              else (FRAME_OK, \<lparr>if_channel = buffer ! 1, if_payload_len = payload_len,
                               if_payload = Some (take (unat payload_len) (drop INTERLEAVED_HEADER_SIZE buffer))\<rparr>,
                    INTERLEAVED_HEADER_SIZE + unat payload_len))"

definition interleaved_parser_init :: interleaved_parser where
  "interleaved_parser_init = \<lparr>il_header = [], il_channel = 0, il_payload_len = 0, il_payload_remaining = 0, il_needed = 0,
     il_discarding_payload = False, il_payload_buffer = [], il_payload_buffer_size = 0, il_frame_pending = False\<rparr>"

definition interleaved_parser_reset :: "interleaved_parser \<Rightarrow> interleaved_parser" where
  "interleaved_parser_reset p = interleaved_parser_init\<lparr>il_payload_buffer_size := il_payload_buffer_size p\<rparr>"

definition interleaved_parser_destroy :: "interleaved_parser \<Rightarrow> interleaved_parser" where
  "interleaved_parser_destroy p = interleaved_parser_init"

definition interleaved_take :: "nat \<Rightarrow> nat \<Rightarrow> nat" where
  "interleaved_take available needed = (if available < needed then available else needed)"

definition interleaved_set_header :: "interleaved_parser \<Rightarrow> interleaved_parser" where
  "interleaved_set_header p =
     (let n = read_u16 (il_header p) 2
      in p\<lparr>il_channel := il_header p ! 1, il_payload_len := n, il_payload_remaining := unat n, il_needed := unat n\<rparr>)"

text \<open>The discarding of a payload, and the search for the header, which both incremental parsers begin with: the call ends there (\<open>Inl\<close>, with the bytes
  consumed) or the header is complete and the payload starts at an offset (\<open>Inr\<close>).\<close>

definition discard_payload :: "interleaved_parser \<Rightarrow> bytes \<Rightarrow> frame_result \<times> interleaved_frame \<times> nat \<times> interleaved_parser" where
  "discard_payload p buffer =
     (let skipped = interleaved_take (length buffer) (il_payload_remaining p);
          p' = p\<lparr>il_payload_remaining := il_payload_remaining p - skipped, il_needed := il_payload_remaining p - skipped\<rparr>
      in (FRAME_PARTIAL, zero_frame, skipped, if il_payload_remaining p' = 0 then interleaved_parser_reset p' else p'))"

definition collect_header :: "interleaved_parser \<Rightarrow> bytes \<Rightarrow> nat \<times> interleaved_parser + nat \<times> interleaved_parser" where
  "collect_header p buffer =
     (let start = (if il_header p = [] then length (takeWhile ((\<noteq>) 0x24) buffer) else 0)
      in if il_header p = [] \<and> start = length buffer then Inl (start, p\<lparr>il_needed := 1\<rparr>)
         else let n = interleaved_take (length buffer - start) (INTERLEAVED_HEADER_SIZE - length (il_header p));
                  p' = p\<lparr>il_header := il_header p @ take n (drop start buffer)\<rparr>
              in if length (il_header p') < INTERLEAVED_HEADER_SIZE
                 then Inl (start + n, p'\<lparr>il_needed := INTERLEAVED_HEADER_SIZE - length (il_header p')\<rparr>)
                 else Inr (start + n, p'))"

definition interleaved_parser_parse ::
  "interleaved_parser \<Rightarrow> bytes \<Rightarrow> (frame_result \<times> interleaved_frame \<times> nat \<times> interleaved_parser) option" where
  "interleaved_parser_parse p buffer =
     (if il_discarding_payload p then Some (discard_payload p buffer)
      else case collect_header p buffer of
             Inl (consumed, p') \<Rightarrow> Some (FRAME_PARTIAL, zero_frame, consumed, p')
           | Inr (offset, p') \<Rightarrow>
               let p2 = (if il_payload_remaining p' = 0 \<and> il_payload_len p' = 0 then interleaved_set_header p' else p');
                   frame = \<lparr>if_channel = il_channel p2, if_payload_len = il_payload_len p2,
                            if_payload = Some (take (unat (il_payload_len p2)) (drop offset buffer))\<rparr>
               in if il_payload_remaining p2 = 0 then
                    if offset + unat (il_payload_len p2) > length buffer then None
                    else Some (FRAME_OK, frame, offset, interleaved_parser_reset p2)
                  else if length buffer - offset \<ge> il_payload_remaining p2 then
                    if offset + unat (il_payload_len p2) > length buffer then None
                    else Some (FRAME_OK, frame, offset + il_payload_remaining p2, interleaved_parser_reset p2)
                  else let p3 = (if length buffer > offset
                                 then p2\<lparr>il_discarding_payload := True, il_payload_remaining := il_payload_remaining p2 - (length buffer - offset)\<rparr>
                                 else p2)
                       in Some (FRAME_PARTIAL, zero_frame, length buffer, p3\<lparr>il_needed := il_payload_remaining p3\<rparr>))"

definition interleaved_parser_ensure_payload :: "bool \<Rightarrow> interleaved_parser \<Rightarrow> nat \<Rightarrow> interleaved_parser option" where
  "interleaved_parser_ensure_payload alloc_ok p payload_len =
     (if payload_len = 0 \<or> il_payload_buffer_size p \<ge> payload_len then Some p
      else if \<not> alloc_ok then None
      else Some (p\<lparr>il_payload_buffer_size := payload_len\<rparr>))"

text \<open>Reading bytes of the payload buffer that were never copied would be undefined.\<close>

definition interleaved_parser_deliver_copy ::
  "interleaved_parser \<Rightarrow> nat \<Rightarrow> (frame_result \<times> interleaved_frame \<times> interleaved_parser) option" where
  "interleaved_parser_deliver_copy p payload_capacity =
     (let frame = \<lparr>if_channel = il_channel p, if_payload_len = il_payload_len p, if_payload = None\<rparr>; n = unat (il_payload_len p)
      in if n > payload_capacity then Some (FRAME_ERROR, frame, p\<lparr>il_needed := n\<rparr>)
         else if n > length (il_payload_buffer p) then None
         else Some (FRAME_OK, if n > 0 then frame\<lparr>if_payload := Some (take n (il_payload_buffer p))\<rparr> else frame, interleaved_parser_reset p))"

definition deliver_at ::
  "nat \<Rightarrow> (frame_result \<times> interleaved_frame \<times> interleaved_parser) option \<Rightarrow> (frame_result \<times> interleaved_frame \<times> nat \<times> interleaved_parser) option" where
  "deliver_at consumed d = map_option (\<lambda>(r, f, p). (r, f, consumed, p)) d"

definition copy_payload ::
  "interleaved_parser \<Rightarrow> bytes \<Rightarrow> nat \<Rightarrow> nat \<Rightarrow> (frame_result \<times> interleaved_frame \<times> nat \<times> interleaved_parser) option" where
  "copy_payload p buffer offset payload_capacity =
     (let copied = (if il_payload_remaining p > 0 then interleaved_take (length buffer - offset) (il_payload_remaining p) else 0)
      in if length (il_payload_buffer p) + copied > il_payload_buffer_size p then None
         else let p' = p\<lparr>il_payload_buffer := il_payload_buffer p @ take copied (drop offset buffer),
                         il_payload_remaining := il_payload_remaining p - copied\<rparr>
              in if il_payload_remaining p' > 0
                 then Some (FRAME_PARTIAL, zero_frame, offset + copied, p'\<lparr>il_needed := il_payload_remaining p'\<rparr>)
                 else deliver_at (offset + copied)
                        (interleaved_parser_deliver_copy (p'\<lparr>il_frame_pending := True, il_needed := 0\<rparr>) payload_capacity))"

definition interleaved_parser_parse_copy ::
  "bool \<Rightarrow> interleaved_parser \<Rightarrow> bytes \<Rightarrow> nat \<Rightarrow> (frame_result \<times> interleaved_frame \<times> nat \<times> interleaved_parser) option" where
  "interleaved_parser_parse_copy alloc_ok p buffer payload_capacity =
     (if il_frame_pending p then deliver_at 0 (interleaved_parser_deliver_copy p payload_capacity)
      else if il_discarding_payload p then Some (discard_payload p buffer)
      else case collect_header p buffer of
             Inl (consumed, p') \<Rightarrow> Some (FRAME_PARTIAL, zero_frame, consumed, p')
           | Inr (offset, p') \<Rightarrow>
               (case (if il_payload_remaining p' = 0 \<and> il_payload_len p' = 0 \<and> il_payload_buffer p' = []
                      then let p2 = interleaved_set_header p' in interleaved_parser_ensure_payload alloc_ok p2 (unat (il_payload_len p2))
                      else Some p') of
                  None \<Rightarrow> Some (FRAME_ERROR, zero_frame, 0, interleaved_parser_reset (interleaved_set_header p'))
                | Some p2 \<Rightarrow> copy_payload p2 buffer offset payload_capacity))"

definition interleaved_write_header :: "bytes \<Rightarrow> u8 \<Rightarrow> u16 \<Rightarrow> bytes option" where
  "interleaved_write_header buffer channel payload_len =
     (if length buffer < INTERLEAVED_HEADER_SIZE then None
      else Some (mem_write buffer 0 ([0x24, channel] @ be16 payload_len)))"

section \<open>The frames of a byte stream\<close>

text \<open>Bytes before a dollar sign are skipped; an unfinished frame is left over.\<close>

function deframe :: "bytes \<Rightarrow> (u8 \<times> bytes) list \<times> bytes" where
  "deframe b =
     (let s = dropWhile ((\<noteq>) 0x24) b; n = unat (read_u16 s 2)
      in if length s < 4 + (if length s < 4 then 0 else n) then ([], s)
         else let d = deframe (drop (4 + n) s) in ((s ! 1, take n (drop 4 s)) # fst d, snd d))"
  by pat_completeness auto
termination
proof (relation "measure length")
  fix b s :: bytes and n assume "s = dropWhile ((\<noteq>) 0x24) b" "\<not> length s < 4 + (if length s < 4 then 0 else n)"
  with length_dropWhile_le [of "(\<noteq>) 0x24" b] show "(drop (4 + n) s, b) \<in> measure length" by (auto split: if_splits)
qed simp

declare deframe.simps [simp del]

lemma deframe_short: "length (dropWhile ((\<noteq>) 0x24) b) < 4 \<Longrightarrow> deframe b = ([], dropWhile ((\<noteq>) 0x24) b)"
  by (simp add: deframe.simps [of b] Let_def)

lemma deframe_partial:
  "s = dropWhile ((\<noteq>) 0x24) b \<Longrightarrow> 4 \<le> length s \<Longrightarrow> length s < 4 + unat (read_u16 s 2) \<Longrightarrow> deframe b = ([], s)"
  by (simp add: deframe.simps [of b] Let_def)

lemma deframe_frame:
  "s = dropWhile ((\<noteq>) 0x24) b \<Longrightarrow> n = unat (read_u16 s 2) \<Longrightarrow> 4 + n \<le> length s \<Longrightarrow>
   deframe b = ((s ! 1, take n (drop 4 s)) # fst (deframe (drop (4 + n) s)), snd (deframe (drop (4 + n) s)))"
  by (simp add: deframe.simps [of b] Let_def)

lemma read_u16_prefix: "i + 1 < length a \<Longrightarrow> read_u16 (a @ b) i = read_u16 a i"
  by (simp add: read_u16_def nth_append)

lemma dropWhile_prefix: "dropWhile P a \<noteq> [] \<Longrightarrow> dropWhile P (a @ b) = dropWhile P a @ b"
  by (induction a) auto

lemma dropWhile_again: "dropWhile P (a @ b) = dropWhile P (dropWhile P a @ b)"
  by (induction a) auto

lemma split_length: "length b = length (takeWhile P b) + length (dropWhile P b)"
  by (metis length_append takeWhile_dropWhile_id)

text \<open>The stream may be cut anywhere.\<close>

lemma deframe_append:
  "deframe (a @ b) = (fst (deframe a) @ fst (deframe (snd (deframe a) @ b)), snd (deframe (snd (deframe a) @ b)))"
proof (induction a rule: deframe.induct)
  case (1 a)
  define t where "t = dropWhile ((\<noteq>) 0x24) a"
  show ?case
  proof (cases "4 \<le> length t \<and> 4 + unat (read_u16 t 2) \<le> length t")
    case True
    define n where "n = unat (read_u16 t 2)"
    have d: "deframe a = ((t ! 1, take n (drop 4 t)) # fst (deframe (drop (4 + n) t)), snd (deframe (drop (4 + n) t)))"
      using True deframe_frame [OF t_def n_def] by (simp add: n_def)
    have "t \<noteq> []" using True by auto
    then have ta: "dropWhile ((\<noteq>) 0x24) (a @ b) = t @ b" unfolding t_def by (rule dropWhile_prefix)
    have na: "unat (read_u16 (t @ b) 2) = n" using True by (simp add: read_u16_prefix n_def)
    have "deframe (a @ b) = ((t ! 1, take n (drop 4 t)) # fst (deframe (drop (4 + n) t @ b)), snd (deframe (drop (4 + n) t @ b)))"
      using deframe_frame [OF ta [symmetric] na [symmetric]] True by (simp add: nth_append n_def)
    with 1 [OF t_def n_def] True d show ?thesis by (simp add: n_def)
  next
    case False
    have "deframe a = ([], t)"
    proof (cases "length t < 4")
      case True
      then show ?thesis unfolding t_def by (rule deframe_short)
    next
      case f: False
      with False show ?thesis by (intro deframe_partial [OF t_def]) simp_all
    qed
    moreover have "deframe (a @ b) = deframe (t @ b)"
    proof -
      have e: "dropWhile ((\<noteq>) 0x24) (a @ b) = dropWhile ((\<noteq>) 0x24) (t @ b)" unfolding t_def by (rule dropWhile_again)
      show ?thesis by (simp only: deframe.simps [of "a @ b"] deframe.simps [of "t @ b"] e)
    qed
    ultimately show ?thesis by simp
  qed
qed

section \<open>One call\<close>

text \<open>Between calls: no header, a part of a header, or a header with a part of the payload; a pending frame is complete.\<close>

definition il_inv :: "interleaved_parser \<Rightarrow> bool" where
  "il_inv p \<longleftrightarrow> \<not> il_discarding_payload p \<and> length (il_header p) \<le> 4 \<and> (il_header p \<noteq> [] \<longrightarrow> il_header p ! 0 = 0x24)
     \<and> (if length (il_header p) < 4 then il_payload_remaining p = 0 \<and> il_payload_len p = 0 \<and> il_payload_buffer p = [] \<and> \<not> il_frame_pending p
        else il_channel p = il_header p ! 1 \<and> il_payload_len p = read_u16 (il_header p) 2
          \<and> length (il_payload_buffer p) + il_payload_remaining p = unat (il_payload_len p)
          \<and> unat (il_payload_len p) \<le> il_payload_buffer_size p \<and> (il_frame_pending p \<longleftrightarrow> il_payload_remaining p = 0))"

definition il_bytes :: "interleaved_parser \<Rightarrow> bytes" where
  "il_bytes p = il_header p @ il_payload_buffer p"

definition frame_view :: "interleaved_frame \<Rightarrow> u8 \<times> bytes" where
  "frame_view f = (if_channel f, case if_payload f of None \<Rightarrow> [] | Some x \<Rightarrow> x)"

lemma take_is_min [simp]: "interleaved_take a n = min a n"
  by (simp add: interleaved_take_def)

lemma reset_inv [simp]: "il_inv (interleaved_parser_reset p)" "il_bytes (interleaved_parser_reset p) = []" "\<not> il_frame_pending (interleaved_parser_reset p)"
  by (simp_all add: il_inv_def il_bytes_def interleaved_parser_reset_def interleaved_parser_init_def)

lemma collect_header_eq:
  assumes "length (il_header p) \<le> 4" "s = (if il_header p = [] then dropWhile ((\<noteq>) 0x24) b else b)"
  shows "collect_header p b =
    (if il_header p = [] \<and> s = [] then Inl (length b, p\<lparr>il_needed := 1\<rparr>)
     else if length (il_header p) + length s < 4
       then Inl (length b, p\<lparr>il_header := il_header p @ s, il_needed := 4 - (length (il_header p) + length s)\<rparr>)
     else Inr (length b - length s + (4 - length (il_header p)), p\<lparr>il_header := il_header p @ take (4 - length (il_header p)) s\<rparr>))"
proof -
  define start where "start = (if il_header p = [] then length (takeWhile ((\<noteq>) 0x24) b) else 0)"
  have s: "drop start b = s" by (simp add: start_def assms(2) dropWhile_eq_drop)
  have l: "length b = start + length s" using split_length [of b "(\<noteq>) 0x24"] by (simp add: start_def assms(2))
  have e: "start = length b \<longleftrightarrow> s = []" using l by auto
  show ?thesis unfolding collect_header_def Let_def start_def [symmetric] take_is_min s e using assms(1) l
    by (simp add: min_def not_less del: length_0_conv) arith
qed

text \<open>A parser whose header is complete and that still collects.\<close>

definition il_collecting :: "interleaved_parser \<Rightarrow> bool" where
  "il_collecting p \<longleftrightarrow> \<not> il_discarding_payload p \<and> length (il_header p) = 4 \<and> il_header p ! 0 = 0x24 \<and> \<not> il_frame_pending p
     \<and> il_channel p = il_header p ! 1 \<and> il_payload_len p = read_u16 (il_header p) 2
     \<and> length (il_payload_buffer p) + il_payload_remaining p = unat (il_payload_len p) \<and> unat (il_payload_len p) \<le> il_payload_buffer_size p"

text \<open>What a call comes to, for the bytes \<open>x\<close> of the stream it has consumed.\<close>

definition outcome :: "nat \<Rightarrow> bytes \<Rightarrow> frame_result \<Rightarrow> interleaved_frame \<Rightarrow> interleaved_parser \<Rightarrow> bool" where
  "outcome cap x r f p \<longleftrightarrow> il_inv p \<and>
     (case r of
        FRAME_PARTIAL \<Rightarrow> \<not> il_frame_pending p \<and> deframe x = ([], il_bytes p)
      | FRAME_OK \<Rightarrow> \<not> il_frame_pending p \<and> il_bytes p = [] \<and> unat (if_payload_len f) \<le> cap \<and> deframe x = ([frame_view f], [])
      | FRAME_ERROR \<Rightarrow> il_frame_pending p \<and> cap < unat (il_payload_len p) \<and> deframe x = ([(il_channel p, il_payload_buffer p)], []))"

lemma collected_frame:
  assumes "length h = 4" "h ! 0 = 0x24"
  shows "length d < unat (read_u16 h 2) \<Longrightarrow> deframe (h @ d) = ([], h @ d)"
    "length d = unat (read_u16 h 2) \<Longrightarrow> deframe (h @ d) = ([(h ! 1, d)], [])"
proof -
  have s: "dropWhile ((\<noteq>) 0x24) (h @ d) = h @ d" using assms by (cases h) auto
  have n: "read_u16 (h @ d) 2 = read_u16 h 2" using assms(1) by (simp add: read_u16_prefix)
  show "length d < unat (read_u16 h 2) \<Longrightarrow> deframe (h @ d) = ([], h @ d)"
    using deframe_partial [OF s [symmetric]] assms(1) n by simp
  assume "length d = unat (read_u16 h 2)"
  moreover have "deframe [] = ([], [])" using deframe_short [of "[]"] by simp
  ultimately show "deframe (h @ d) = ([(h ! 1, d)], [])"
    using deframe_frame [OF s [symmetric] refl] assms(1) n by (simp add: nth_append)
qed

lemma deliver_outcome:
  assumes "il_collecting (p\<lparr>il_frame_pending := False\<rparr>)" "il_frame_pending p" "il_payload_remaining p = 0"
  shows "\<exists>r f p'. interleaved_parser_deliver_copy p cap = Some (r, f, p') \<and> r \<noteq> FRAME_PARTIAL \<and> outcome cap (il_bytes p) r f p'"
proof -
  let ?n = "unat (il_payload_len p)"
  have c: "length (il_header p) = 4" "il_header p ! 0 = 0x24" "length (il_payload_buffer p) = unat (read_u16 (il_header p) 2)"
    "il_channel p = il_header p ! 1" "length (il_payload_buffer p) = ?n" using assms by (simp_all add: il_collecting_def)
  have d: "deframe (il_bytes p) = ([(il_header p ! 1, il_payload_buffer p)], [])" unfolding il_bytes_def by (rule collected_frame(2) [OF c(1,2,3)])
  show ?thesis
  proof (cases "?n > cap")
    case True
    have "il_inv (p\<lparr>il_needed := ?n\<rparr>)" using assms c by (auto simp: il_inv_def il_collecting_def)
    with True d c(4) assms(2) show ?thesis by (simp add: interleaved_parser_deliver_copy_def outcome_def)
  next
    case False
    with d c(4,5) show ?thesis
      by (auto simp: interleaved_parser_deliver_copy_def outcome_def frame_view_def Let_def)
  qed
qed

lemma copy_outcome:
  assumes "il_collecting p" "off \<le> length b"
  shows "\<exists>r f n p'. copy_payload p b off cap = Some (r, f, off + n, p') \<and> off + n \<le> length b \<and> outcome cap (il_bytes p @ take n (drop off b)) r f p'
    \<and> (r = FRAME_PARTIAL \<longrightarrow> off + n = length b)"
proof -
  define n where "n = min (length b - off) (il_payload_remaining p)"
  let ?p = "p\<lparr>il_payload_buffer := il_payload_buffer p @ take n (drop off b), il_payload_remaining := il_payload_remaining p - n\<rparr>"
  have c: "(if il_payload_remaining p > 0 then interleaved_take (length b - off) (il_payload_remaining p) else 0) = n" by (simp add: n_def)
  have fit: "\<not> length (il_payload_buffer p) + n > il_payload_buffer_size p" using assms(1) by (auto simp: il_collecting_def n_def)
  have col: "il_collecting ?p" using assms by (auto simp: il_collecting_def n_def)
  have nb: "off + n \<le> length b" using assms(2) by (simp add: n_def)
  have bt: "il_bytes ?p = il_bytes p @ take n (drop off b)" by (simp add: il_bytes_def)
  show ?thesis
  proof (cases "il_payload_remaining ?p > 0")
    case True
    let ?q = "?p\<lparr>il_needed := il_payload_remaining ?p\<rparr>"
    have h: "length (il_header p) = 4" "il_header p ! 0 = 0x24" "length (il_payload_buffer p @ take n (drop off b)) < unat (read_u16 (il_header p) 2)"
      using col True by (auto simp: il_collecting_def)
    have "il_inv ?q" using col True by (auto simp: il_inv_def il_collecting_def)
    with collected_frame(1) [OF h] col have "outcome cap (il_bytes ?p) FRAME_PARTIAL zero_frame ?q"
      by (simp add: outcome_def il_bytes_def il_collecting_def)
    moreover have "copy_payload p b off cap = Some (FRAME_PARTIAL, zero_frame, off + n, ?q)"
      using True fit unfolding copy_payload_def c Let_def by simp
    moreover have "off + n = length b" using True assms(2) by (auto simp: n_def)
    ultimately show ?thesis unfolding bt by (metis order_refl)
  next
    case False
    let ?q = "?p\<lparr>il_frame_pending := True, il_needed := 0\<rparr>"
    have "il_collecting (?q\<lparr>il_frame_pending := False\<rparr>)" using col by (auto simp: il_collecting_def)
    with deliver_outcome [of ?q cap] False obtain r f p'
      where d: "interleaved_parser_deliver_copy ?q cap = Some (r, f, p')" "r \<noteq> FRAME_PARTIAL" "outcome cap (il_bytes ?q) r f p'" by auto
    have "copy_payload p b off cap = Some (r, f, off + n, p')"
      using False fit d(1) unfolding copy_payload_def c Let_def by (simp add: deliver_at_def)
    moreover have "il_bytes ?q = il_bytes p @ take n (drop off b)" by (simp add: il_bytes_def)
    ultimately show ?thesis using d nb by metis
  qed
qed

lemma skip_deframe: "deframe (dropWhile ((\<noteq>) 0x24) b) = deframe b"
proof -
  have "dropWhile ((\<noteq>) 0x24) (dropWhile ((\<noteq>) 0x24) b) = dropWhile ((\<noteq>) 0x24) b"
    using dropWhile_again [of "(\<noteq>) 0x24" b "[]"] by simp
  then show ?thesis by (simp only: deframe.simps [of b] deframe.simps [of "dropWhile ((\<noteq>) 0x24) b"])
qed

lemma header_start: "s = dropWhile ((\<noteq>) 0x24) b \<Longrightarrow> s \<noteq> [] \<Longrightarrow> s ! 0 = (0x24 :: u8)"
  using hd_dropWhile [of "(\<noteq>) 0x24" b] by (auto simp: hd_conv_nth)

text \<open>The call after the header has been completed by it, or before.\<close>

lemma header_completed:
  assumes "il_inv p" "\<not> il_frame_pending p" "collect_header p b = Inr (off, q)"
  shows "\<exists>q'. (if il_payload_remaining q = 0 \<and> il_payload_len q = 0 \<and> il_payload_buffer q = []
      then let p2 = interleaved_set_header q in interleaved_parser_ensure_payload True p2 (unat (il_payload_len p2)) else Some q) = Some q'
    \<and> il_collecting q' \<and> off \<le> length b \<and> (\<forall>n. deframe (il_bytes q' @ take n (drop off b)) = deframe (il_bytes p @ take (off + n) b))"
proof -
  define s where "s = (if il_header p = [] then dropWhile ((\<noteq>) 0x24) b else b)"
  have h4: "length (il_header p) \<le> 4" using assms(1) by (simp add: il_inv_def)
  define k where "k = 4 - length (il_header p)"
  from assms(3) collect_header_eq [OF h4 s_def] have ne: "\<not> (il_header p = [] \<and> s = [])" "k \<le> length s"
    and off: "off = length b - length s + k" and q: "q = p\<lparr>il_header := il_header p @ take k s\<rparr>"
    by (auto simp: k_def split: if_splits)
  have sb: "s = drop (length b - length s) b" "length s \<le> length b"
    using split_length [of b "(\<noteq>) 0x24"] by (auto simp: s_def dropWhile_eq_drop)
  have len: "length (il_header q) = 4" using ne(2) h4 by (simp add: q k_def)
  have dollar: "il_header q ! 0 = 0x24"
  proof (cases "il_header p = []")
    case True
    then have "s ! 0 = 0x24" using ne header_start [of s b] by (simp add: s_def)
    with True ne show ?thesis by (simp add: q k_def)
  next
    case False
    then show ?thesis using assms(1) by (simp add: q il_inv_def nth_append)
  qed
  have d: "drop off b = drop k s" using off sb by (metis add.commute drop_drop)
  have dd: "deframe (il_header p @ il_payload_buffer p @ take m s) = deframe (il_bytes p @ take (length b - length s + m) b)" for m
  proof (cases "il_header p = []")
    case True
    then have e: "il_bytes p = []" using assms(1) by (simp add: il_inv_def il_bytes_def)
    have "take (length b - length s + m) b = take (length b - length s) b @ take m (drop (length b - length s) b)" by (rule take_add)
    moreover have "length b - length s = length (takeWhile ((\<noteq>) 0x24) b)" using True split_length [of b "(\<noteq>) 0x24"] by (simp add: s_def)
    ultimately have t: "take (length b - length s + m) b = takeWhile ((\<noteq>) 0x24) b @ take m s"
      using True by (simp only: takeWhile_eq_take [symmetric] dropWhile_eq_drop [symmetric] s_def if_True simp_thms)
    have "dropWhile ((\<noteq>) 0x24) (takeWhile ((\<noteq>) 0x24) b @ take m s) = dropWhile ((\<noteq>) 0x24) (take m s)"
      by (rule dropWhile_append2) (auto dest: set_takeWhileD)
    then have "deframe (takeWhile ((\<noteq>) 0x24) b @ take m s) = deframe (take m s)"
      using skip_deframe [of "takeWhile ((\<noteq>) 0x24) b @ take m s"] skip_deframe [of "take m s"] by argo
    then have "deframe (take (length b - length s + m) b) = deframe (take m s)" unfolding t .
    with True e show ?thesis using assms(1) by (simp add: il_inv_def)
  next
    case False
    then show ?thesis by (simp add: s_def il_bytes_def)
  qed
  have all: "deframe (il_header q @ il_payload_buffer q @ take n (drop off b)) = deframe (il_bytes p @ take (off + n) b)"
    if "il_payload_buffer p = [] \<or> k = 0" for n
  proof -
    have "il_header q @ il_payload_buffer q @ take n (drop off b) = il_header p @ il_payload_buffer p @ take (k + n) s"
      using that d by (auto simp: q take_add)
    with dd [of "k + n"] off show ?thesis by (simp add: add.assoc)
  qed
  have ob: "off \<le> length b" using off ne(2) sb(2) by simp
  show ?thesis
  proof (cases "length (il_header p) < 4")
    case True
    let ?n = "unat (read_u16 (il_header q) 2)"
    let ?q = "(interleaved_set_header q)\<lparr>il_payload_buffer_size := max (il_payload_buffer_size q) ?n\<rparr>"
    have z: "il_payload_remaining q = 0 \<and> il_payload_len q = 0 \<and> il_payload_buffer q = []" using True assms(1) by (simp add: q il_inv_def)
    have "interleaved_parser_ensure_payload True (interleaved_set_header q) ?n = Some ?q"
      by (cases q) (auto simp: interleaved_parser_ensure_payload_def interleaved_set_header_def Let_def max_def)
    moreover have "il_payload_len (interleaved_set_header q) = read_u16 (il_header q) 2" by (simp add: interleaved_set_header_def Let_def)
    moreover have "il_collecting ?q" using len dollar z assms(1,2) by (simp add: il_collecting_def interleaved_set_header_def Let_def q il_inv_def)
    moreover have "il_bytes ?q = il_header q @ il_payload_buffer q" by (simp add: il_bytes_def interleaved_set_header_def Let_def)
    ultimately show ?thesis using z all ob True assms(1) by (simp add: Let_def il_inv_def)
  next
    case False
    then have k0: "k = 0" "q = p" using h4 by (simp_all add: k_def q)
    have "il_collecting p" "il_payload_remaining p \<noteq> 0" using False assms(1,2) h4 by (auto simp: il_collecting_def il_inv_def)
    with k0 all ob show ?thesis by (simp add: il_bytes_def)
  qed
qed

lemma call_outcome:
  assumes "il_inv p"
  shows "\<exists>r f c p'. interleaved_parser_parse_copy True p b cap = Some (r, f, c, p') \<and> c \<le> length b \<and> (r = FRAME_PARTIAL \<longrightarrow> c = length b)
    \<and> outcome cap (il_bytes p @ take c b) r f p'"
proof (cases "il_frame_pending p")
  case True
  have "il_collecting (p\<lparr>il_frame_pending := False\<rparr>)" "il_payload_remaining p = 0" using assms True by (auto simp: il_inv_def il_collecting_def split: if_splits)
  with deliver_outcome [OF _ True, of cap] obtain r f p'
    where "interleaved_parser_deliver_copy p cap = Some (r, f, p')" "r \<noteq> FRAME_PARTIAL" "outcome cap (il_bytes p) r f p'" by blast
  then have "interleaved_parser_parse_copy True p b cap = Some (r, f, 0, p')" "outcome cap (il_bytes p @ take 0 b) r f p'" "r \<noteq> FRAME_PARTIAL"
    using True by (simp_all add: interleaved_parser_parse_copy_def deliver_at_def)
  then show ?thesis by blast
next
  case False
  have nd: "\<not> il_discarding_payload p" and h4: "length (il_header p) \<le> 4" using assms by (simp_all add: il_inv_def)
  define s where "s = (if il_header p = [] then dropWhile ((\<noteq>) 0x24) b else b)"
  show ?thesis
  proof (cases "collect_header p b")
    case (Inl x)
    then obtain c q where x: "collect_header p b = Inl (c, q)" by (cases x) auto
    from collect_header_eq [OF h4 s_def] x have c: "c = length b" and lt: "length (il_header p) + length s < 4"
      and q: "il_header q = il_header p @ s" "q = p\<lparr>il_header := il_header q, il_needed := il_needed q\<rparr>"
      by (auto split: if_splits)
    have pb: "il_payload_buffer p = []" "il_payload_remaining p = 0" "il_payload_len p = 0" using assms lt by (auto simp: il_inv_def split: if_splits)
    have f: "il_payload_buffer q = []" "il_payload_remaining q = 0" "il_payload_len q = 0" "\<not> il_frame_pending q" "\<not> il_discarding_payload q"
      using pb False nd by (subst q(2), simp)+
    have "il_header q \<noteq> [] \<longrightarrow> il_header q ! 0 = 0x24"
      using assms q(1) header_start [of s b] by (cases "il_header p") (auto simp: s_def il_inv_def)
    with f lt q(1) have inv: "il_inv q" by (simp add: il_inv_def)
    have dr: "dropWhile ((\<noteq>) 0x24) (il_bytes p @ b) = il_header p @ s"
      using pb assms by (cases "il_header p") (auto simp: il_bytes_def s_def il_inv_def)
    have "deframe (il_bytes p @ b) = ([], il_bytes q)" using deframe_short [of "il_bytes p @ b"] lt unfolding dr by (simp add: il_bytes_def f(1) q(1))
    with inv f(4) have "outcome cap (il_bytes p @ take (length b) b) FRAME_PARTIAL zero_frame q" by (simp add: outcome_def)
    moreover have "interleaved_parser_parse_copy True p b cap = Some (FRAME_PARTIAL, zero_frame, length b, q)"
      using False nd x c by (simp add: interleaved_parser_parse_copy_def)
    ultimately show ?thesis by blast
  next
    case (Inr x)
    then obtain off q where x: "collect_header p b = Inr (off, q)" by (cases x) auto
    from header_completed [OF assms False x] obtain q' where q': "(if il_payload_remaining q = 0 \<and> il_payload_len q = 0 \<and> il_payload_buffer q = []
        then let p2 = interleaved_set_header q in interleaved_parser_ensure_payload True p2 (unat (il_payload_len p2)) else Some q) = Some q'"
      and i: "il_collecting q'" "off \<le> length b" and d: "\<forall>n. deframe (il_bytes q' @ take n (drop off b)) = deframe (il_bytes p @ take (off + n) b)" by blast
    from copy_outcome [OF i] obtain r f n p' where cp: "copy_payload q' b off cap = Some (r, f, off + n, p')" "off + n \<le> length b"
      "outcome cap (il_bytes q' @ take n (drop off b)) r f p'" "r = FRAME_PARTIAL \<longrightarrow> off + n = length b" by blast
    have "interleaved_parser_parse_copy True p b cap = Some (r, f, off + n, p')"
      using False nd x q' cp(1) by (simp add: interleaved_parser_parse_copy_def)
    moreover have "outcome cap (il_bytes p @ take (off + n) b) r f p'" using cp(3) unfolding outcome_def d [rule_format] .
    ultimately show ?thesis using cp(2,4) by blast
  qed
qed

section \<open>Any sequence of calls\<close>

text \<open>The caller hands over any part of what it has received and drops what was consumed; it may offer a destination of any size.\<close>

inductive il_calls :: "interleaved_parser \<Rightarrow> bytes \<Rightarrow> (u8 \<times> bytes) list \<Rightarrow> interleaved_parser \<Rightarrow> bytes \<Rightarrow> bool" where
  no_call: "il_calls p inp [] p inp"
| a_call: "interleaved_parser_parse_copy True p (take n inp) cap = Some (r, f, c, p') \<Longrightarrow> il_calls p' (drop c inp) fs q rest \<Longrightarrow>
    il_calls p inp ((if r = FRAME_OK then [frame_view f] else []) @ fs) q rest"

lemma deframe_left: "deframe (snd (deframe a)) = ([], snd (deframe a))"
proof -
  have "fst (deframe (snd (deframe a))) = [] \<and> snd (deframe (snd (deframe a))) = snd (deframe a)"
    using deframe_append [of a "[]"] by (metis append_Nil2 append_self_conv fst_conv snd_conv)
  then show ?thesis by (metis prod.collapse)
qed

lemma pending_frame: "il_inv p \<Longrightarrow> il_frame_pending p \<Longrightarrow> deframe (il_bytes p) = ([(il_channel p, il_payload_buffer p)], [])"
  using collected_frame(2) [of "il_header p" "il_payload_buffer p"] by (auto simp: il_inv_def il_bytes_def split: if_splits)

lemma il_calls_frames:
  "il_calls p inp fs q rest \<Longrightarrow> il_inv p \<Longrightarrow>
   il_inv q \<and> (\<exists>x. inp = x @ rest \<and> fst (deframe (il_bytes p @ x)) = fs @ fst (deframe (il_bytes q))
     \<and> snd (deframe (il_bytes p @ x)) = snd (deframe (il_bytes q)))"
proof (induction rule: il_calls.induct)
  case (no_call p inp)
  then show ?case by (intro conjI exI [of _ "[]"]) simp_all
next
  case (a_call p n inp cap r f c p' fs q rest)
  let ?x = "take c (take n inp)"
  from call_outcome [OF a_call.prems, of "take n inp" cap] a_call.hyps(1)
  have c: "c \<le> length (take n inp)" and o: "outcome cap (il_bytes p @ ?x) r f p'" by auto
  from o have inv: "il_inv p'" by (simp add: outcome_def)
  from a_call.IH [OF inv] obtain y where q: "il_inv q" and y: "drop c inp = y @ rest" "fst (deframe (il_bytes p' @ y)) = fs @ fst (deframe (il_bytes q))"
    "snd (deframe (il_bytes p' @ y)) = snd (deframe (il_bytes q))" by blast
  have i: "inp = (?x @ y) @ rest" using c y(1) append_take_drop_id [of c inp] by (simp add: min_absorb1)
  have d: "deframe (il_bytes p @ ?x) = ((if r = FRAME_OK then [frame_view f] else []) @ fst (deframe (il_bytes p')), snd (deframe (il_bytes p')))"
  proof (cases r)
    case FRAME_PARTIAL
    then have e: "deframe (il_bytes p @ ?x) = ([], il_bytes p')" using o by (simp add: outcome_def)
    with deframe_left [of "il_bytes p @ ?x"] FRAME_PARTIAL show ?thesis by simp
  next
    case FRAME_OK
    then have "deframe (il_bytes p @ ?x) = ([frame_view f], [])" "il_bytes p' = []" using o by (simp_all add: outcome_def)
    with deframe_short [of "[]"] FRAME_OK show ?thesis by simp
  next
    case FRAME_ERROR
    then show ?thesis using o pending_frame [OF inv] by (simp add: outcome_def)
  qed
  from deframe_append [of "il_bytes p @ ?x" y] deframe_append [of "il_bytes p'" y] y d
  have "fst (deframe (il_bytes p @ ?x @ y)) = ((if r = FRAME_OK then [frame_view f] else []) @ fs) @ fst (deframe (il_bytes q))"
    "snd (deframe (il_bytes p @ ?x @ y)) = snd (deframe (il_bytes q))" by simp_all
  with i q show ?case by blast
qed

section \<open>Properties\<close>

text \<open>C10. The collecting parser delivers the frames of the stream.  Take any sequence of calls on a fresh parser, each with any part of the bytes received so far
  and a destination of any size.  What was consumed is a prefix of the stream; the frames delivered are its frames, in order and with their payloads,
  except that a complete frame whose destination was too small is still pending and comes first later on; the parser holds
  exactly the unfinished rest.  Every further call is defined - nothing outside the payload buffer is touched - and with a
  destination of 65535 bytes it either delivers a frame or consumes all it was given.\<close>

theorem interleaved_frames_exact:
  assumes "il_calls interleaved_parser_init inp fs p rest"
  shows "(\<exists>x. inp = x @ rest
      \<and> deframe x = (if il_frame_pending p then (fs @ [(il_channel p, il_payload_buffer p)], []) else (fs, il_bytes p)))
    \<and> (\<exists>r f c p'. interleaved_parser_parse_copy True p b cap = Some (r, f, c, p')
      \<and> (65535 \<le> cap \<longrightarrow> r = FRAME_OK \<or> r = FRAME_PARTIAL \<and> c = length b))"
proof -
  have "il_inv interleaved_parser_init" "il_bytes interleaved_parser_init = []"
    using reset_inv [of interleaved_parser_init] by (simp_all add: interleaved_parser_reset_def interleaved_parser_init_def)
  with il_calls_frames [OF assms] obtain x where i: "il_inv p" and x: "inp = x @ rest" "deframe x = (fs @ fst (deframe (il_bytes p)), snd (deframe (il_bytes p)))"
    by (metis append_Nil prod.collapse)
  have "deframe (il_bytes p) = ([], il_bytes p)" if np: "\<not> il_frame_pending p"
  proof (cases "length (il_header p) < 4")
    case True
    then have "dropWhile ((\<noteq>) 0x24) (il_bytes p) = il_bytes p" "length (il_bytes p) < 4"
      using i by (cases "il_header p"; auto simp: il_inv_def il_bytes_def)+
    then show ?thesis using deframe_short [of "il_bytes p"] by simp
  next
    case False
    then show ?thesis using i np collected_frame(1) [of "il_header p" "il_payload_buffer p"] by (auto simp: il_inv_def il_bytes_def)
  qed
  with x pending_frame [OF i] have "\<exists>x. inp = x @ rest
      \<and> deframe x = (if il_frame_pending p then (fs @ [(il_channel p, il_payload_buffer p)], []) else (fs, il_bytes p))" by auto
  moreover from call_outcome [OF i, of b cap] obtain r f c p' where c: "interleaved_parser_parse_copy True p b cap = Some (r, f, c, p')"
    "r = FRAME_PARTIAL \<longrightarrow> c = length b" "outcome cap (il_bytes p @ take c b) r f p'" by blast
  have "unat (il_payload_len p') < 2 ^ LENGTH(16)" by (rule unsigned_less)
  then have "r \<noteq> FRAME_ERROR" if "65535 \<le> cap" using that c(3) by (auto simp: outcome_def)
  with c have "\<exists>r f c p'. interleaved_parser_parse_copy True p b cap = Some (r, f, c, p')
      \<and> (65535 \<le> cap \<longrightarrow> r = FRAME_OK \<or> r = FRAME_PARTIAL \<and> c = length b)" by (cases r) auto
  ultimately show ?thesis by blast
qed

lemma interleaved_frames_exact_witness:
  "\<exists>p. il_calls interleaved_parser_init [0x0A, 0x24, 1, 0, 2, 7, 8, 0x24] [(1, [7, 8])] p [0x24]
     \<and> (\<exists>x. [0x0A, 0x24, 1, 0, 2, 7, 8, 0x24] = x @ [0x24] \<and> deframe x = ([(1, [7, 8])], []))"
proof -
  let ?inp = "[0x0A, 0x24, 1, 0, 2, 7, 8, 0x24] :: bytes"
  let ?p1 = "\<lparr>il_header = [0x24, 1, 0, 2], il_channel = 1, il_payload_len = 2, il_payload_remaining = 1, il_needed = 1,
     il_discarding_payload = False, il_payload_buffer = [7], il_payload_buffer_size = 2, il_frame_pending = False\<rparr>"
  let ?p2 = "interleaved_parser_init\<lparr>il_payload_buffer_size := 2\<rparr>"
  let ?f = "\<lparr>if_channel = 1, if_payload_len = 2, if_payload = Some [7, 8]\<rparr>"
  have 1: "interleaved_parser_parse_copy True interleaved_parser_init (take 6 ?inp) 100 = Some (FRAME_PARTIAL, zero_frame, 6, ?p1)" by code_simp
  have 2: "interleaved_parser_parse_copy True ?p1 (take 2 (drop 6 ?inp)) 100 = Some (FRAME_OK, ?f, 1, ?p2)" by code_simp
  have "il_calls interleaved_parser_init ?inp ((if FRAME_PARTIAL = FRAME_OK then [frame_view zero_frame] else [])
      @ (if FRAME_OK = FRAME_OK then [frame_view ?f] else []) @ []) ?p2 (drop 1 (drop 6 ?inp))"
    by (rule a_call [OF 1] a_call [OF 2] no_call)+
  then have c: "il_calls interleaved_parser_init ?inp [(1, [7, 8])] ?p2 [0x24]" by (simp add: frame_view_def)
  from interleaved_frames_exact [OF c] c show ?thesis by (auto simp: interleaved_parser_init_def il_bytes_def)
qed

end
