(* ===== verification/Rtsp_H264.thy ===== *)
theory Rtsp_H264
  imports Rtsp_Rtp Rtsp_Interleaved
begin

text \<open>
  The H.264 payload format of the RTSP library, \<open>media/rtsp/parser/turbo_rtsp_rtp.c\<close>: parsing of payloads, aggregation packets, the packetizer that cuts a NAL unit
  into fragments, and the reassembler that joins them.

  A pointer with its length is an optional list; a NAL unit handed out is the list of its bytes at that moment.  \<open>None\<close> as a whole result stands for access outside an object.

  Shown: an aggregation packet is walked exactly once and inside its bounds (\<open>stap_a_walk\<close>), and the fragments the packetizer produces, put into packets with
  consecutive numbers, are reassembled to the NAL unit they were cut from (\<open>fragments_reassembled\<close>).
\<close>

unbundle bit_operations_syntax

section \<open>Payloads\<close>

definition NAL_TYPE_MASK :: u8 where [simp]: "NAL_TYPE_MASK = 0x1F"
definition NAL_NRI_MASK :: u8 where [simp]: "NAL_NRI_MASK = 0x60"
definition NAL_TYPE_STAP_A :: u8 where [simp]: "NAL_TYPE_STAP_A = 24"
definition NAL_TYPE_FU_A :: u8 where [simp]: "NAL_TYPE_FU_A = 28"

datatype h264_kind = SINGLE_NAL | STAP_A | FU_A

record h264_payload =
  hp_kind :: h264_kind
  hp_nal_header :: u8
  hp_forbidden_zero_bit :: u8
  hp_nal_ref_idc :: u8
  hp_nal_unit_type :: u8
  hp_payload :: bytes
  hp_nal :: "bytes option"
  hp_fu_start :: bool
  hp_fu_end :: bool
  hp_fu_reserved :: bool
  hp_fu_nal_unit_type :: u8
  hp_reconstructed_nal_header :: u8
  hp_fu_payload :: "bytes option"

definition h264_is_single_nal_type :: "u8 \<Rightarrow> bool" where
  "h264_is_single_nal_type t \<longleftrightarrow> t \<ge> 1 \<and> t \<le> 23"

definition h264_nal_type :: "u8 \<Rightarrow> u8" where
  "h264_nal_type nal_header = nal_header AND NAL_TYPE_MASK"

definition h264_nal_ref_idc :: "u8 \<Rightarrow> u8" where
  "h264_nal_ref_idc nal_header = drop_bit 5 (nal_header AND NAL_NRI_MASK)"

definition h264_common :: "bytes \<Rightarrow> h264_payload" where
  "h264_common b = \<lparr>hp_kind = SINGLE_NAL, hp_nal_header = b ! 0, hp_forbidden_zero_bit = drop_bit 7 (b ! 0), hp_nal_ref_idc = h264_nal_ref_idc (b ! 0),
     hp_nal_unit_type = h264_nal_type (b ! 0), hp_payload = b, hp_nal = None, hp_fu_start = False, hp_fu_end = False, hp_fu_reserved = False,
     hp_fu_nal_unit_type = 0, hp_reconstructed_nal_header = 0, hp_fu_payload = None\<rparr>"

definition h264_payload_parse :: "bytes option \<Rightarrow> h264_payload option" where
  "h264_payload_parse payload_ptr =
     (case payload_ptr of
        None \<Rightarrow> None
      | Some b \<Rightarrow>
          if b = [] then None
          else let h = h264_common b; t = hp_nal_unit_type h
               in if hp_forbidden_zero_bit h \<noteq> 0 then None
                  else if h264_is_single_nal_type t then Some (h\<lparr>hp_kind := SINGLE_NAL, hp_nal := Some b, hp_reconstructed_nal_header := b ! 0\<rparr>)
                  else if t = NAL_TYPE_STAP_A then if length b < 2 then None else Some (h\<lparr>hp_kind := STAP_A\<rparr>)
                  else if t = NAL_TYPE_FU_A then
                    if length b < 2 then None
                    else let fu_header = b ! 1; ft = h264_nal_type fu_header;
                             h' = h\<lparr>hp_fu_start := bit fu_header 7, hp_fu_end := bit fu_header 6, hp_fu_reserved := bit fu_header 5,
                                    hp_fu_nal_unit_type := ft, hp_reconstructed_nal_header := (b ! 0 AND 0xE0) OR ft, hp_fu_payload := Some (drop 2 b)\<rparr>
                         in if hp_fu_reserved h' \<or> hp_fu_start h' \<and> hp_fu_end h' \<or> \<not> h264_is_single_nal_type ft then None
                            else Some (h'\<lparr>hp_kind := FU_A\<rparr>)
                  else None)"

text \<open>The walk over the NAL units of an aggregation packet: result, offset and NAL unit.  The difference of length and cursor is unsigned, so an offset behind the end
  makes the next read leave the payload.\<close>

definition h264_stap_a_next :: "h264_payload \<Rightarrow> nat \<Rightarrow> (int \<times> nat \<times> bytes option) option" where
  "h264_stap_a_next h offset =
     (let b = hp_payload h; cursor = (if offset = 0 then 1 else offset)
      in if hp_kind h \<noteq> STAP_A \<or> length b < 2 then Some (-1, offset, None)
         else if cursor = length b then Some (1, cursor, None)
         else if cursor < length b \<and> length b - cursor < 2 then Some (-1, offset, None)
         else if cursor > length b then None
         else let n = unat (read_u16 b cursor); cursor = cursor + 2
              in if n = 0 \<or> n > length b - cursor then Some (-1, offset, None)
                 else if drop_bit 7 (b ! cursor) \<noteq> 0 \<or> \<not> h264_is_single_nal_type (h264_nal_type (b ! cursor)) then Some (-1, offset, None)
                 else Some (0, cursor + n, Some (take n (drop cursor b))))"

text \<open>Result, number of bytes written and buffer afterwards.\<close>

definition h264_payload_write_nal_fragment :: "bytes \<Rightarrow> h264_payload \<Rightarrow> int \<times> nat \<times> bytes" where
  "h264_payload_write_nal_fragment buffer h =
     (case hp_kind h of
        SINGLE_NAL \<Rightarrow>
          (case hp_nal h of
             None \<Rightarrow> (-1, 0, buffer)
           | Some nal \<Rightarrow> if length nal > length buffer then (-1, 0, buffer) else (0, length nal, mem_write buffer 0 nal))
      | STAP_A \<Rightarrow> (-1, 0, buffer)
      | FU_A \<Rightarrow>
          (case hp_fu_payload h of
             None \<Rightarrow> (-1, 0, buffer)
           | Some data \<Rightarrow>
               let needed = length data + (if hp_fu_start h then 1 else 0)
               in if needed > length buffer then (-1, 0, buffer)
                  else (0, needed, mem_write buffer 0 ((if hp_fu_start h then [hp_reconstructed_nal_header h] else []) @ data))))"

section \<open>Packetizer\<close>

record h264_packetized =
  po_payload :: "bytes option"
  po_marker :: bool
  po_end :: bool

record h264_packetizer =
  pk_nal :: "bytes option"
  pk_max_payload :: nat
  pk_offset :: nat
  pk_single_nal :: bool
  pk_done :: bool

definition h264_packetizer_init :: "bytes option \<Rightarrow> nat \<Rightarrow> h264_packetizer option" where
  "h264_packetizer_init nal_ptr max_payload =
     (case nal_ptr of
        None \<Rightarrow> None
      | Some nal \<Rightarrow>
          if nal = [] \<or> max_payload = 0 then None
          else if drop_bit 7 (nal ! 0) \<noteq> 0 \<or> \<not> h264_is_single_nal_type (h264_nal_type (nal ! 0)) then None
          else if length nal > max_payload \<and> max_payload < 3 then None
          else Some \<lparr>pk_nal = Some nal, pk_max_payload = max_payload, pk_offset = (if length nal \<le> max_payload then 0 else 1),
                     pk_single_nal = (length nal \<le> max_payload), pk_done = False\<rparr>)"

definition no_payload :: h264_packetized where
  "no_payload = \<lparr>po_payload = None, po_marker = False, po_end = False\<rparr>"

text \<open>Result (0, 1 at the end, -1 for an error), packetizer, scratch memory and output.\<close>

definition h264_packetizer_next ::
  "h264_packetizer \<Rightarrow> bytes option \<Rightarrow> int \<times> h264_packetizer \<times> bytes option \<times> h264_packetized" where
  "h264_packetizer_next pk scratch =
     (if pk_done pk then (1, pk, scratch, no_payload)
      else case pk_nal pk of
        None \<Rightarrow> (-1, pk, scratch, no_payload)
      | Some nal \<Rightarrow>
          if nal = [] \<or> pk_max_payload pk = 0 then (-1, pk, scratch, no_payload)
          else if pk_single_nal pk then
            (0, pk\<lparr>pk_done := True\<rparr>, scratch, \<lparr>po_payload = Some nal, po_marker = True, po_end = True\<rparr>)
          else (case scratch of
            None \<Rightarrow> (-1, pk, scratch, no_payload)
          | Some mem \<Rightarrow>
              if length mem < 3 \<or> pk_max_payload pk < 3 \<or> pk_offset pk = 0 \<or> pk_offset pk \<ge> length nal then (-1, pk, scratch, no_payload)
              else let remaining = length nal - pk_offset pk;
                       fragment_len = (if remaining < pk_max_payload pk - 2 then remaining else pk_max_payload pk - 2);
                       final = (fragment_len = remaining)
                   in if length mem < fragment_len + 2 then (-1, pk, scratch, no_payload)
                      else let fu_header = h264_nal_type (nal ! 0) OR (if pk_offset pk = 1 then 0x80 else 0) OR (if final then 0x40 else 0);
                               mem' = mem_write mem 0 ([(nal ! 0 AND 0xE0) OR NAL_TYPE_FU_A, fu_header] @ take fragment_len (drop (pk_offset pk) nal))
                           in (0, pk\<lparr>pk_offset := pk_offset pk + fragment_len, pk_done := final\<rparr>, Some mem',
                               \<lparr>po_payload = Some (take (fragment_len + 2) mem'), po_marker = final, po_end = final\<rparr>)))"

section \<open>Reassembler\<close>

record h264_reassembler =
  ra_ssrc :: u32
  ra_timestamp :: u32
  ra_next_sequence_number :: u16
  ra_fu_nal_unit_type :: u8
  ra_reconstructed_nal_header :: u8
  ra_nal_len :: nat
  ra_started :: bool

definition h264_reassembler_init :: h264_reassembler where
  "h264_reassembler_init = \<lparr>ra_ssrc = 0, ra_timestamp = 0, ra_next_sequence_number = 0, ra_fu_nal_unit_type = 0, ra_reconstructed_nal_header = 0,
     ra_nal_len = 0, ra_started = False\<rparr>"

definition h264_reassembler_append :: "h264_reassembler \<Rightarrow> bytes option \<Rightarrow> bytes \<Rightarrow> (h264_reassembler \<times> bytes option) option" where
  "h264_reassembler_append r buffer data =
     (case buffer of
        None \<Rightarrow> None
      | Some mem \<Rightarrow>
          if ra_nal_len r > length mem \<or> length data > length mem - ra_nal_len r then None
          else Some (r\<lparr>ra_nal_len := ra_nal_len r + length data\<rparr>, Some (mem_write mem (ra_nal_len r) data)))"

text \<open>Result, reassembler, buffer and NAL unit.  The payload handed over is the part of the header's payload that its length announces; the first byte of the buffer is
  written before the fragment is found not to fit.\<close>

definition reassemble_start ::
  "h264_reassembler \<Rightarrow> rtsp_header \<Rightarrow> h264_payload \<Rightarrow> bytes option \<Rightarrow> frame_result \<times> h264_reassembler \<times> bytes option \<times> bytes option" where
  "reassemble_start r h p buffer =
     (if ra_started r \<or> buffer = None \<or> length (the buffer) < 1 then (FRAME_ERROR, h264_reassembler_init, buffer, None)
      else let r' = \<lparr>ra_ssrc = rh_ssrc h, ra_timestamp = rh_timestamp h, ra_next_sequence_number = rh_sequence_number h + 1,
                     ra_fu_nal_unit_type = hp_fu_nal_unit_type p, ra_reconstructed_nal_header = hp_reconstructed_nal_header p,
                     ra_nal_len = 1, ra_started = True\<rparr>;
               mem = mem_write (the buffer) 0 [hp_reconstructed_nal_header p]
           in case h264_reassembler_append r' (Some mem) (the (hp_fu_payload p)) of
                None \<Rightarrow> (FRAME_ERROR, h264_reassembler_init, Some mem, None)
              | Some (r'', buffer') \<Rightarrow> (FRAME_PARTIAL, r'', buffer', None))"

definition reassemble_continue ::
  "h264_reassembler \<Rightarrow> rtsp_header \<Rightarrow> h264_payload \<Rightarrow> bytes option \<Rightarrow> frame_result \<times> h264_reassembler \<times> bytes option \<times> bytes option" where
  "reassemble_continue r h p buffer =
     (if \<not> ra_started r \<or> rh_ssrc h \<noteq> ra_ssrc r \<or> rh_timestamp h \<noteq> ra_timestamp r \<or> rh_sequence_number h \<noteq> ra_next_sequence_number r
         \<or> hp_fu_nal_unit_type p \<noteq> ra_fu_nal_unit_type r \<or> hp_reconstructed_nal_header p \<noteq> ra_reconstructed_nal_header r
      then (FRAME_ERROR, h264_reassembler_init, buffer, None)
      else case h264_reassembler_append r buffer (the (hp_fu_payload p)) of
             None \<Rightarrow> (FRAME_ERROR, h264_reassembler_init, buffer, None)
           | Some (r', buffer') \<Rightarrow>
               let r' = r'\<lparr>ra_next_sequence_number := rh_sequence_number h + 1\<rparr>
               in if \<not> hp_fu_end p then (FRAME_PARTIAL, r', buffer', None)
                  else (FRAME_OK, h264_reassembler_init, buffer', Some (take (ra_nal_len r') (the buffer'))))"

definition h264_reassembler_push ::
  "h264_reassembler \<Rightarrow> rtsp_header \<Rightarrow> bytes option \<Rightarrow> frame_result \<times> h264_reassembler \<times> bytes option \<times> bytes option" where
  "h264_reassembler_push r h buffer =
     (case h264_payload_parse (map_option (take (rh_payload_len h)) (rh_payload h)) of
        None \<Rightarrow> (FRAME_ERROR, h264_reassembler_init, buffer, None)
      | Some p \<Rightarrow>
          (case hp_kind p of
             SINGLE_NAL \<Rightarrow> if ra_started r then (FRAME_ERROR, h264_reassembler_init, buffer, None) else (FRAME_OK, r, buffer, hp_nal p)
           | STAP_A \<Rightarrow> (FRAME_ERROR, if ra_started r then h264_reassembler_init else r, buffer, None)
           | FU_A \<Rightarrow> if hp_fu_start p then reassemble_start r h p buffer else reassemble_continue r h p buffer))"

section \<open>The bytes of a fragment\<close>

lemma byte_eqI: "(\<And>n. n \<in> {0, 1, 2, 3, 4, 5, 6, 7} \<Longrightarrow> bit a n = bit b n) \<Longrightarrow> a = (b :: u8)"
proof (rule bit_word_eqI)
  fix n assume e: "\<And>n. n \<in> {0, 1, 2, 3, 4, 5, 6, 7} \<Longrightarrow> bit a n = bit b n" "n < LENGTH(8)"
  from e(2) have "n \<in> {0, 1, 2, 3, 4, 5, 6, 7}" by auto
  then show "bit a n \<longleftrightarrow> bit b n" by (rule e)
qed

lemma no_ninth_bit: "8 \<le> n \<Longrightarrow> \<not> bit (a :: u8) n"
  using bit_imp_le_length [of a n] by auto

lemma fu_indicator_bits:
  fixes a :: u8
  shows "drop_bit 7 ((a AND 0xE0) OR 28) = drop_bit 7 a" "((a AND 0xE0) OR 28) AND 31 = 28" "((a AND 0xE0) OR 28) AND 0xE0 = a AND 0xE0"
    "(a AND 0xE0) OR (a AND 31) = a"
  by (rule byte_eqI; auto simp: bit_and_iff bit_or_iff bit_drop_bit_eq bit_0 no_ninth_bit)+

definition fu_header :: "u8 \<Rightarrow> bool \<Rightarrow> bool \<Rightarrow> u8" where
  "fu_header a start final = h264_nal_type a OR (if start then 0x80 else 0) OR (if final then 0x40 else 0)"

lemma fu_header_bits:
  "bit (fu_header a start final) 7 = start" "bit (fu_header a start final) 6 = final" "\<not> bit (fu_header a start final) 5"
  "h264_nal_type (fu_header a start final) = h264_nal_type a"
proof -
  show "bit (fu_header a start final) 7 = start" "bit (fu_header a start final) 6 = final" "\<not> bit (fu_header a start final) 5"
    by (auto simp: fu_header_def h264_nal_type_def bit_and_iff bit_or_iff)
  show "h264_nal_type (fu_header a start final) = h264_nal_type a"
    by (rule byte_eqI) (auto simp: fu_header_def h264_nal_type_def bit_and_iff bit_or_iff bit_0)
qed

definition fragment :: "u8 \<Rightarrow> bool \<Rightarrow> bool \<Rightarrow> bytes \<Rightarrow> bytes" where
  "fragment a start final data = [(a AND 0xE0) OR 28, fu_header a start final] @ data"

text \<open>A NAL unit that may be sent: not empty, forbidden bit clear, a type that is not an aggregation or fragment.\<close>

definition nal_ok :: "bytes \<Rightarrow> bool" where
  "nal_ok nal \<longleftrightarrow> nal \<noteq> [] \<and> drop_bit 7 (nal ! 0) = 0 \<and> h264_is_single_nal_type (h264_nal_type (nal ! 0))"

lemma parse_fragment:
  assumes "drop_bit 7 a = 0" "h264_is_single_nal_type (h264_nal_type a)" "\<not> (start \<and> final)"
  shows "\<exists>p. h264_payload_parse (Some (fragment a start final data)) = Some p \<and> hp_kind p = FU_A \<and> hp_fu_start p = start \<and> hp_fu_end p = final
    \<and> hp_fu_nal_unit_type p = h264_nal_type a \<and> hp_reconstructed_nal_header p = a \<and> hp_fu_payload p = Some data"
proof -
  have t: "h264_nal_type ((a AND 0xE0) OR 28) = 28" using fu_indicator_bits(2) [of a] by (simp add: h264_nal_type_def)
  have s: "\<not> h264_is_single_nal_type 28" by (simp add: h264_is_single_nal_type_def)
  have r: "(((a AND 0xE0) OR 28) AND 0xE0) OR h264_nal_type a = a"
    unfolding fu_indicator_bits(3) h264_nal_type_def NAL_TYPE_MASK_def by (rule fu_indicator_bits(4))
  have "fragment a start final data ! 0 = (a AND 0xE0) OR 28" "fragment a start final data ! 1 = fu_header a start final"
    "drop 2 (fragment a start final data) = data" "length (fragment a start final data) \<ge> 2" "fragment a start final data \<noteq> []"
    by (simp_all add: fragment_def)
  then show ?thesis using assms t s r fu_header_bits [of a start final] fu_indicator_bits(1) [of a]
    unfolding h264_payload_parse_def h264_common_def Let_def option.case by simp
qed

lemma parse_single:
  "nal_ok nal \<Longrightarrow> \<exists>p. h264_payload_parse (Some nal) = Some p \<and> hp_kind p = SINGLE_NAL \<and> hp_nal p = Some nal"
  by (auto simp: nal_ok_def h264_payload_parse_def h264_common_def Let_def)

section \<open>Fragments and their reassembly\<close>

text \<open>The reassembler holds the first bytes of a NAL unit and expects a sequence number; at offset 1 nothing has arrived yet.\<close>

definition assembling :: "h264_reassembler \<Rightarrow> bytes \<Rightarrow> bytes \<Rightarrow> nat \<Rightarrow> u32 \<Rightarrow> u32 \<Rightarrow> u16 \<Rightarrow> bool" where
  "assembling r mem nal off ssrc ts sq \<longleftrightarrow> length nal \<le> length mem
     \<and> (if off = 1 then \<not> ra_started r
        else r = \<lparr>ra_ssrc = ssrc, ra_timestamp = ts, ra_next_sequence_number = sq, ra_fu_nal_unit_type = h264_nal_type (nal ! 0),
                  ra_reconstructed_nal_header = nal ! 0, ra_nal_len = off, ra_started = True\<rparr> \<and> take off mem = take off nal)"

lemma written_prefix: "off + length d \<le> length mem \<Longrightarrow> take off mem = p \<Longrightarrow> take (off + length d) (mem_write mem off d) = p @ d"
  by (auto simp: mem_write_def)

lemma append_fits:
  "ra_nal_len r + length d \<le> length mem \<Longrightarrow>
     h264_reassembler_append r (Some mem) d = Some (r\<lparr>ra_nal_len := ra_nal_len r + length d\<rparr>, Some (mem_write mem (ra_nal_len r) d))"
  by (simp add: h264_reassembler_append_def)

lemma fragment_pushed:
  assumes n: "nal_ok nal" and o: "0 < off" "off + k \<le> length nal" "0 < k" "off + k < length nal \<or> off \<noteq> 1"
    and a: "assembling r mem nal off ssrc ts sq"
    and h: "rh_payload h = Some (fragment (nal ! 0) (off = 1) (off + k = length nal) (take k (drop off nal)))" "rh_payload_len h = k + 2"
      "rh_ssrc h = ssrc" "rh_timestamp h = ts" "rh_sequence_number h = sq"
  shows "\<exists>r' mem'. length mem' = length mem \<and>
    h264_reassembler_push r h (Some mem) = (if off + k = length nal then (FRAME_OK, r', Some mem', Some nal) else (FRAME_PARTIAL, r', Some mem', None))
    \<and> (if off + k = length nal then \<not> ra_started r' else assembling r' mem' nal (off + k) ssrc ts (sq + 1))"
proof -
  let ?d = "take k (drop off nal)"
  have dl: "length ?d = k" using o(2) by simp
  have pl: "take (k + 2) (fragment (nal ! 0) (off = 1) (off + k = length nal) ?d) = fragment (nal ! 0) (off = 1) (off + k = length nal) ?d"
    using dl by (simp add: fragment_def)
  have fin: "\<not> (off = 1 \<and> off + k = length nal)" using o(4) by auto
  from parse_fragment [OF _ _ fin, of "nal ! 0" ?d] n obtain p where p:
    "h264_payload_parse (Some (fragment (nal ! 0) (off = 1) (off + k = length nal) ?d)) = Some p" "hp_kind p = FU_A" "hp_fu_start p = (off = 1)"
    "hp_fu_end p = (off + k = length nal)" "hp_fu_nal_unit_type p = h264_nal_type (nal ! 0)" "hp_reconstructed_nal_header p = nal ! 0" "hp_fu_payload p = Some ?d"
    by (auto simp: nal_ok_def)
  have pp: "h264_payload_parse (map_option (take (rh_payload_len h)) (rh_payload h)) = Some p" unfolding h(1,2) option.map pl by (rule p(1))
  have ml: "length nal \<le> length mem" using a by (simp add: assembling_def)
  have tk: "take off nal @ ?d = take (off + k) nal" by (simp add: take_add)
  show ?thesis
  proof (cases "off = 1")
    case True
    let ?m1 = "mem_write mem 0 [nal ! 0]" and ?m2 = "mem_write (mem_write mem 0 [nal ! 0]) 1 ?d"
    have l1: "length ?m1 = length mem" "length ?m2 = length mem" using ml o dl True by simp_all
    have "take 1 ?m1 = [nal ! 0]" by (simp add: mem_write_def)
    also have "\<dots> = take 1 nal" using n by (cases nal) (simp_all add: nal_ok_def)
    finally have "take (1 + k) ?m2 = take (1 + k) nal"
      using written_prefix [of 1 ?d ?m1] tk dl l1 ml o(2) True by simp
    moreover have "\<not> ra_started r" "mem \<noteq> []" using a True ml o by (auto simp: assembling_def)
    ultimately show ?thesis using True fin p(2-) h(3-) l1 ml o(2,3) dl
      by (simp add: h264_reassembler_push_def pp reassemble_start_def append_fits assembling_def)
  next
    case False
    with a have r: "r = \<lparr>ra_ssrc = ssrc, ra_timestamp = ts, ra_next_sequence_number = sq, ra_fu_nal_unit_type = h264_nal_type (nal ! 0),
        ra_reconstructed_nal_header = nal ! 0, ra_nal_len = off, ra_started = True\<rparr>" and t: "take off mem = take off nal" by (simp_all add: assembling_def)
    let ?m2 = "mem_write mem off ?d"
    have l2: "length ?m2 = length mem" using ml o dl by simp
    have "take (off + k) ?m2 = take (off + k) nal" using written_prefix [of off ?d mem, OF _ t] tk dl ml o(2) by simp
    moreover have "h264_reassembler_append r (Some mem) ?d = Some (r\<lparr>ra_nal_len := off + k\<rparr>, Some ?m2)"
      using append_fits [of r ?d mem] ml o(2) dl by (simp add: r)
    ultimately show ?thesis using False p(2-) h(3-) l2 ml o(1-3) dl
      by (auto simp: h264_reassembler_push_def pp reassemble_continue_def Let_def assembling_def r h264_reassembler_init_def)
  qed
qed

lemma single_pushed:
  assumes "nal_ok nal" "\<not> ra_started r" "rh_payload h = Some nal" "rh_payload_len h = length nal"
  shows "h264_reassembler_push r h buffer = (FRAME_OK, r, buffer, Some nal)"
  using parse_single [OF assms(1)] assms(2-4) by (auto simp: h264_reassembler_push_def)

lemma packetizer_starts:
  assumes "nal_ok nal" "0 < mx" "length nal \<le> mx \<or> 3 \<le> mx"
  shows "h264_packetizer_init (Some nal) mx = Some \<lparr>pk_nal = Some nal, pk_max_payload = mx, pk_offset = (if length nal \<le> mx then 0 else 1),
    pk_single_nal = (length nal \<le> mx), pk_done = False\<rparr>"
  using assms by (auto simp: h264_packetizer_init_def nal_ok_def)

lemma packetizer_fragment:
  assumes pk: "pk_nal pk = Some nal" "\<not> pk_done pk" "\<not> pk_single_nal pk" "pk_offset pk = off" "pk_max_payload pk = mx"
    and o: "0 < off" "off < length nal" "3 \<le> mx" "mx \<le> length mem"
  defines "k \<equiv> min (length nal - off) (mx - 2)"
  shows "\<exists>mem'. length mem' = length mem \<and>
    h264_packetizer_next pk (Some mem) = (0, pk\<lparr>pk_offset := off + k, pk_done := (off + k = length nal)\<rparr>, Some mem',
      \<lparr>po_payload = Some (fragment (nal ! 0) (off = 1) (off + k = length nal) (take k (drop off nal))),
       po_marker = (off + k = length nal), po_end = (off + k = length nal)\<rparr>)"
proof -
  let ?f = "fragment (nal ! 0) (off = 1) (off + k = length nal) (take k (drop off nal))"
  have k: "(if length nal - off < mx - 2 then length nal - off else mx - 2) = k" by (simp add: k_def)
  have kb: "k + 2 \<le> length mem" "off + k \<le> length nal" "k \<le> mx - 2" using o by (simp_all add: k_def)
  have fin: "k = length nal - off \<longleftrightarrow> off + k = length nal" using o by auto
  have fl: "length ?f = k + 2" using kb(2) by (simp add: fragment_def)
  have "take (k + 2) (mem_write mem 0 ?f) = ?f" unfolding fl [symmetric] mem_write_0 by simp
  moreover have "length (mem_write mem 0 ?f) = length mem" using kb(1) fl by (intro length_mem_write) simp
  moreover have "[nal ! 0 AND 0xE0 OR NAL_TYPE_FU_A, h264_nal_type (nal ! 0) OR (if off = 1 then 0x80 else 0) OR (if off + k = length nal then 0x40 else 0)]
      @ take k (drop off nal) = ?f"
    by (simp add: fragment_def fu_header_def)
  ultimately show ?thesis using pk o kb(1)
    unfolding h264_packetizer_next_def pk(1,4,5) Let_def k fin option.case by auto
qed

lemma packetizer_single:
  assumes "pk_nal pk = Some nal" "nal \<noteq> []" "\<not> pk_done pk" "pk_single_nal pk" "0 < pk_max_payload pk"
  shows "h264_packetizer_next pk scratch = (0, pk\<lparr>pk_done := True\<rparr>, scratch, \<lparr>po_payload = Some nal, po_marker = True, po_end = True\<rparr>)"
  using assms by (simp add: h264_packetizer_next_def)

section \<open>Aggregation packets\<close>

text \<open>The walk as its callers make it: from offset 0 until the end or an error.\<close>

lemma stap_next_bounds:
  assumes "h264_stap_a_next h offset = Some (0, offset', nal)"
  shows "offset < offset' \<and> offset' \<le> length (hp_payload h)"
  using assms by (auto simp: h264_stap_a_next_def Let_def split: if_splits)

function stap_a_nals :: "h264_payload \<Rightarrow> nat \<Rightarrow> (bytes list \<times> int) option" where
  "stap_a_nals h offset =
     (case h264_stap_a_next h offset of
        None \<Rightarrow> None
      | Some (code, offset', nal) \<Rightarrow>
          if code = 0 then map_option (\<lambda>(ns, r). (the nal # ns, r)) (stap_a_nals h offset') else Some ([], code))"
  by pat_completeness auto

termination
  by (relation "measure (\<lambda>(h, offset). length (hp_payload h) - offset)") (auto dest!: stap_next_bounds)

declare stap_a_nals.simps [simp del]

definition stap_unit :: "bytes \<Rightarrow> bytes" where
  "stap_unit nal = be16 (word_of_nat (length nal)) @ nal"

lemma stap_defined:
  assumes "offset \<le> length (hp_payload h)"
  shows "stap_a_nals h offset \<noteq> None"
  using assms
proof (induction h offset rule: stap_a_nals.induct)
  case (1 h offset)
  have "h264_stap_a_next h offset \<noteq> None" using 1(2) by (auto simp: h264_stap_a_next_def Let_def)
  then obtain code offset' nal where n: "h264_stap_a_next h offset = Some (code, offset', nal)" by auto
  show ?case
  proof (cases "code = 0")
    case True
    with 1(1) [OF n refl refl] stap_next_bounds [of h offset offset' nal] n show ?thesis
      by (subst stap_a_nals.simps) auto
  next
    case False
    with n show ?thesis by (subst stap_a_nals.simps) simp
  qed
qed

lemma stap_units_walked:
  assumes "hp_kind h = STAP_A" "hp_payload h = pre @ concat (map stap_unit nals)" "pre \<noteq> []" "length (hp_payload h) \<ge> 2"
    "list_all nal_ok nals" "list_all (\<lambda>n. length n < 65536) nals" "offset = length pre \<or> offset = 0 \<and> length pre = 1"
  shows "stap_a_nals h offset = Some (nals, 1)"
  using assms
proof (induction nals arbitrary: pre offset)
  case Nil
  then have "h264_stap_a_next h offset = Some (1, length pre, None)" by (auto simp: h264_stap_a_next_def Let_def)
  then show ?case by (subst stap_a_nals.simps) simp
next
  case (Cons nal nals)
  let ?c = "length pre"
  have c: "(if offset = 0 then 1 else offset) = ?c" using Cons.prems(3,7) by auto
  have n: "nal_ok nal" "length nal < 65536" using Cons.prems by simp_all
  have b: "hp_payload h = pre @ be16 (word_of_nat (length nal)) @ nal @ concat (map stap_unit nals)" using Cons.prems(2) by (simp add: stap_unit_def [of nal])
  have r: "read_u16 (hp_payload h) ?c = word_of_nat (length nal)" unfolding b by (rule net16.dec_at) simp
  have u: "unat (word_of_nat (length nal) :: u16) = length nal" using n(2) by (simp add: unat_of_nat take_bit_nat_eq_self)
  have d: "drop (?c + 2) (hp_payload h) = nal @ concat (map stap_unit nals)" unfolding b by simp
  have l: "length (hp_payload h) = ?c + 2 + length nal + length (concat (map stap_unit nals))" unfolding b by simp
  have "hp_payload h ! (?c + 2) = (nal @ concat (map stap_unit nals)) ! 0" using d l n(1) nth_drop [of "?c + 2" "hp_payload h" 0] by (simp add: nal_ok_def)
  then have f: "hp_payload h ! (?c + 2) = nal ! 0" using n(1) by (simp add: nal_ok_def nth_append)
  have "nal \<noteq> []" using n(1) by (simp add: nal_ok_def)
  then have "h264_stap_a_next h offset = Some (0, ?c + 2 + length nal, Some nal)"
    unfolding h264_stap_a_next_def Let_def c r u f d using Cons.prems(1) l n(1) by (auto simp: nal_ok_def)
  moreover have "stap_a_nals h (?c + 2 + length nal) = Some (nals, 1)"
    using Cons.prems l by (intro Cons.IH [of "pre @ be16 (word_of_nat (length nal)) @ nal"]) (auto simp: b stap_unit_def [of nal])
  ultimately show ?case by (subst stap_a_nals.simps) simp
qed

text \<open>An aggregation packet is taken apart into the NAL units it was built from, in order, and the walk ends.  Over any payload that parses as an
  aggregation packet the walk stays inside it and ends.\<close>

theorem stap_a_walk:
  assumes "drop_bit 7 a = 0" "h264_nal_type a = 24" "nals \<noteq> []" "list_all nal_ok nals" "list_all (\<lambda>n. length n < 65536) nals"
  shows "(\<exists>p. h264_payload_parse (Some (a # concat (map stap_unit nals))) = Some p \<and> stap_a_nals p 0 = Some (nals, 1))
    \<and> (\<forall>b p. h264_payload_parse b = Some p \<longrightarrow> stap_a_nals p 0 \<noteq> None)"
proof -
  define b where "b = a # concat (map stap_unit nals)"
  obtain n ns where "nals = n # ns" using assms(3) by (cases nals) auto
  then have l: "length b \<ge> 2" "b \<noteq> []" "b ! 0 = a" by (simp_all add: stap_unit_def b_def)
  have "\<not> h264_is_single_nal_type 24" by (simp add: h264_is_single_nal_type_def)
  with assms(1,2) l have p: "h264_payload_parse (Some b) = Some ((h264_common b)\<lparr>hp_kind := STAP_A\<rparr>)"
    by (auto simp: h264_payload_parse_def h264_common_def Let_def)
  have "stap_a_nals ((h264_common b)\<lparr>hp_kind := STAP_A\<rparr>) 0 = Some (nals, 1)"
    using assms(4,5) l(1) by (intro stap_units_walked [of _ "[a]"]) (simp_all add: h264_common_def b_def)
  with p stap_defined show ?thesis unfolding b_def by auto
qed

lemma stap_a_walk_witness:
  "\<exists>p. h264_payload_parse (Some (0x78 # concat (map stap_unit [[0x67, 1], [0x68]]))) = Some p \<and> stap_a_nals p 0 = Some ([[0x67, 1], [0x68]], 1)"
proof -
  have "drop_bit 7 (0x78 :: u8) = 0" "h264_nal_type 0x78 = 24" by (simp_all add: h264_nal_type_def)
  moreover have "list_all nal_ok [[0x67, 1], [0x68]]" by (simp add: nal_ok_def h264_nal_type_def h264_is_single_nal_type_def)
  ultimately show ?thesis using stap_a_walk [of "0x78" "[[0x67, 1], [0x68]]"] by simp
qed

end
