(* ===== verification/Rtsp_H264_Delivery.thy ===== *)
theory Rtsp_H264_Delivery
  imports Rtsp_H264_Stream "HOL-Library.Multiset"
begin

text \<open>
  What H.264 streams of the RTSP library achieve end to end: the packets a NAL unit is written as, their reassembly, the receive
  stream's queue, and the delivery of a whole stream over a network that delays single packets.
\<close>

section \<open>The packets of a NAL unit\<close>

function nal_fragments :: "bytes \<Rightarrow> nat \<Rightarrow> nat \<Rightarrow> bytes list" where
  "nal_fragments nal mx off =
     (if mx < 3 \<or> off \<ge> length nal then []
      else let k = min (length nal - off) (mx - 2)
           in fragment (nal ! 0) (off = 1) (off + k = length nal) (take k (drop off nal)) # nal_fragments nal mx (off + k))"
  by pat_completeness auto

termination
  by (relation "measure (\<lambda>(nal, mx, off). length nal - off)") auto

declare nal_fragments.simps [simp del]

definition nal_payloads :: "bytes \<Rightarrow> nat \<Rightarrow> bytes list" where
  "nal_payloads nal mx = (if length nal \<le> mx then [nal] else nal_fragments nal mx 1)"

definition packet_of :: "rtsp_stream \<Rightarrow> bool \<Rightarrow> bytes \<Rightarrow> bytes" where
  "packet_of st marker data = header_bytes (stream_header st marker (length data)) @ data"

definition sent :: "rtsp_stream \<Rightarrow> bytes \<Rightarrow> rtsp_stream" where
  "sent st data = st\<lparr>st_sender := snd (rtsp_sender_update (st_sender st) (stream_header st False (length data))),
     st_sequence_number := st_sequence_number st + 1\<rparr>"

primrec stream_packets :: "rtsp_stream \<Rightarrow> bool \<Rightarrow> bytes list \<Rightarrow> bytes list" where
  "stream_packets st marker [] = []"
| "stream_packets st marker (d # ds) = packet_of st (ds = [] \<and> marker) d # stream_packets (sent st d) marker ds"

definition stream_ok :: "rtsp_stream \<Rightarrow> bool" where
  "stream_ok st \<longleftrightarrow> st_payload_type st \<le> 127 \<and> (se_has_ssrc (st_sender st) \<longrightarrow> se_ssrc (st_sender st) = st_ssrc st)"

lemma sender_counts:
  assumes "stream_ok st"
  shows "\<exists>s. rtsp_sender_update (st_sender st) (stream_header st m (length data)) = (0, s)
    \<and> st\<lparr>st_sender := s, st_sequence_number := st_sequence_number st + 1\<rparr> = sent st data"
  using assms by (auto simp: rtsp_sender_update_def stream_header_def sent_def stream_ok_def Let_def zero_header_def)

lemma sent_fields [simp]:
  "st_payload_type (sent st d) = st_payload_type st" "st_ssrc (sent st d) = st_ssrc st" "st_timestamp (sent st d) = st_timestamp st"
  "st_sequence_number (sent st d) = st_sequence_number st + 1"
  by (simp_all add: sent_def)

lemma sent_ok: "stream_ok st \<Longrightarrow> stream_ok (sent st d)"
  by (auto simp: stream_ok_def sent_def rtsp_sender_update_def stream_header_def Let_def zero_header_def)

lemma ceiling_step:
  fixes n f :: nat
  assumes "0 < n" "0 < f"
  shows "Suc ((n - min n f + f - 1) div f) = (n + f - 1) div f"
proof -
  have e: "(n - 1 + f) div f = Suc ((n - 1) div f)" using assms(2) div_add_self2 [of f "n - 1"] by (simp only: neq0_conv)
  have n: "n + f - 1 = n - 1 + f" using assms(1) by simp
  show ?thesis
  proof (cases "f \<le> n")
    case True
    then have "n - min n f + f - 1 = n - 1" by simp
    then show ?thesis unfolding n e by simp
  next
    case False
    then have "n - min n f + f - 1 = f - 1" "n - 1 < f" by simp_all
    then show ?thesis unfolding n e using assms(2) by simp
  qed
qed

lemma fragments_step:
  assumes "3 \<le> mx" "off < length nal"
  defines "k \<equiv> min (length nal - off) (mx - 2)"
  shows "nal_fragments nal mx off = fragment (nal ! 0) (off = 1) (off + k = length nal) (take k (drop off nal)) # nal_fragments nal mx (off + k)"
    and "0 < k" "off + k \<le> length nal" "k + 2 \<le> mx"
  using assms by (simp_all add: nal_fragments.simps [of nal mx off] Let_def)

lemma fragments_end: "length nal \<le> off \<Longrightarrow> nal_fragments nal mx off = []"
  by (simp add: nal_fragments.simps)

lemma fragments_none: "3 \<le> mx \<Longrightarrow> nal_fragments nal mx off = [] \<longleftrightarrow> length nal \<le> off"
  by (subst nal_fragments.simps) (auto simp: Let_def)

lemma fragments_count:
  assumes "3 \<le> mx"
  shows "length (nal_fragments nal mx off) = (length nal - off + (mx - 2) - 1) div (mx - 2)"
proof (induction "length nal - off" arbitrary: off rule: less_induct)
  case less
  show ?case
  proof (cases "off < length nal")
    case True
    define k where "k = min (length nal - off) (mx - 2)"
    note f = fragments_step [OF assms True, folded k_def]
    have "length nal - (off + k) < length nal - off" using f(2) True by simp
    from less [OF this] f(1) have "length (nal_fragments nal mx off) = Suc ((length nal - (off + k) + (mx - 2) - 1) div (mx - 2))" by simp
    also have "length nal - (off + k) = length nal - off - min (length nal - off) (mx - 2)" by (simp add: k_def)
    finally show ?thesis using ceiling_step [of "length nal - off" "mx - 2"] True assms by (simp only: zero_less_diff)
  next
    case False
    then show ?thesis using assms by (simp add: fragments_end)
  qed
qed

lemma fragments_bound: "3 \<le> mx \<Longrightarrow> \<forall>d\<in>set (nal_fragments nal mx off). length d \<le> mx \<and> 2 \<le> length d"
proof (induction "length nal - off" arbitrary: off rule: less_induct)
  case less
  show ?case
  proof (cases "off < length nal")
    case True
    define k where "k = min (length nal - off) (mx - 2)"
    note f = fragments_step [OF less.prems True, folded k_def]
    have "length nal - (off + k) < length nal - off" using f(2) True by simp
    from less.hyps [OF this less.prems] f(3,4) show ?thesis unfolding f(1) by (simp add: fragment_def)
  next
    case False
    then show ?thesis by (simp add: fragments_end)
  qed
qed

lemma packet_of_length: "stream_ok st \<Longrightarrow> length (packet_of st m d) = 12 + length d"
  using header_bytes_length stream_header_ok by (simp add: packet_of_def stream_ok_def)

lemma slot_kept:
  assumes "take (a + n) xs = take (a + n) ys" "l \<le> n"
  shows "take l (drop a xs) = take l (drop a ys)"
proof -
  have "take (a + l) xs = take (a + l) ys" using assms by (metis add_le_cancel_left min.absorb1 take_take)
  then show ?thesis by (simp add: take_take_drop)
qed

text \<open>What the loop does for one packet, and for the rest of them.\<close>

lemma packet_written:
  assumes "stream_ok st" "h264_packetizer_next pk scratch = (0, pk', scratch', out)" "po_payload out = Some d"
    and "12 + length d \<le> sz" "12 + length d \<le> 2147483647" "i * sz + sz \<le> length mem"
  shows "\<exists>mem1. write_h264_packets (Suc n) i pk st marker sz mem scratch packets
      = write_h264_packets n (i + 1) pk' (sent st d) marker sz mem1 scratch' (packets @ [(i * sz, 12 + length d)])
    \<and> length mem1 = length mem \<and> take (i * sz) mem1 = take (i * sz) mem
    \<and> take (12 + length d) (drop (i * sz) mem1) = packet_of st (po_marker out \<and> marker) d"
proof -
  let ?h = "stream_header st (po_marker out \<and> marker) (length d)" and ?slot = "take sz (drop (i * sz) mem)"
  let ?p = "packet_of st (po_marker out \<and> marker) d"
  have h: "header_ok ?h" "header_size ?h = 12" using stream_header_ok assms(1) by (simp_all add: stream_ok_def)
  have sl: "length ?slot = sz" using assms(6) by simp
  have w: "rtsp_rtp_write_packet ?slot ?h (Some d) (length d) = Some (int (12 + length d), mem_write ?slot 0 ?p)"
    using write_packet_ok [OF h(1), of d ?slot] assms(4,5) sl unfolding h(2) packet_of_def by simp
  have pl: "length ?p = 12 + length d" by (rule packet_of_length [OF assms(1)])
  let ?mem1 = "mem_write mem (i * sz) (mem_write ?slot 0 ?p)"
  have ml: "length (mem_write ?slot 0 ?p) = sz" using sl pl assms(4) by (subst length_mem_write) simp_all
  obtain s where s: "rtsp_sender_update (st_sender st) ?h = (0, s)" "st\<lparr>st_sender := s, st_sequence_number := st_sequence_number st + 1\<rparr> = sent st d"
    using sender_counts [OF assms(1)] by blast
  have "write_h264_packets (Suc n) i pk st marker sz mem scratch packets
      = write_h264_packets n (i + 1) pk' (sent st d) marker sz ?mem1 scratch' (packets @ [(i * sz, 12 + length d)])"
    using assms(2,3,6) w s by (simp del: of_nat_add of_nat_numeral)
  moreover have "length ?mem1 = length mem" "take (i * sz) ?mem1 = take (i * sz) mem" using ml assms(6) by simp_all
  moreover have "drop (i * sz) ?mem1 = mem_write ?slot 0 ?p @ drop (i * sz + sz) mem" using drop_mem_write_at [of "i * sz" mem] ml assms(6) by simp
  then have "take (12 + length d) (drop (i * sz) ?mem1) = ?p" using pl by (simp add: mem_write_0)
  ultimately show ?thesis by blast
qed

definition slot_bytes :: "bytes \<Rightarrow> nat \<times> nat \<Rightarrow> bytes" where
  "slot_bytes mem x = take (snd x) (drop (fst x) mem)"

definition sends_as :: "(nat \<times> nat) list \<Rightarrow> nat \<Rightarrow> bytes \<Rightarrow> (int \<times> rtsp_stream \<times> bytes \<times> bytes option \<times> (nat \<times> nat) list) option
    \<Rightarrow> rtsp_stream \<Rightarrow> bytes list \<Rightarrow> bool" where
  "sends_as packets base mem result st' bs \<longleftrightarrow> (\<exists>mem' scratch' new. result = Some (0, st', mem', scratch', packets @ new)
     \<and> length mem' = length mem \<and> take base mem' = take base mem \<and> map (slot_bytes mem') new = bs)"

lemma sends_first:
  assumes "sends_as (packets @ [(base, l)]) (base + sz) mem1 result st' bs" "l \<le> sz" "length mem1 = length mem" "take base mem1 = take base mem"
    "take l (drop base mem1) = p"
  shows "sends_as packets base mem result st' (p # bs)"
proof -
  from assms(1) obtain mem' scratch' new where r: "result = Some (0, st', mem', scratch', (packets @ [(base, l)]) @ new)" "length mem' = length mem1"
    "take (base + sz) mem' = take (base + sz) mem1" "map (slot_bytes mem') new = bs" by (auto simp: sends_as_def)
  have "take l (drop base mem') = p" using slot_kept [OF r(3) assms(2)] assms(5) by simp
  moreover have "take base mem' = take base mem" using r(3) assms(4) by (metis le_add1 min.absorb1 take_take)
  ultimately show ?thesis using r assms(3) unfolding sends_as_def by (intro exI [of _ mem'] exI [of _ scratch'] exI [of _ "(base, l) # new"]) (simp add: slot_bytes_def)
qed

lemma fragments_written:
  assumes "3 \<le> mx" "12 + mx \<le> sz" "mx \<le> 2147483635" "off < length nal" "0 < off" "stream_ok st"
    and "pk_nal pk = Some nal" "\<not> pk_done pk" "\<not> pk_single_nal pk" "pk_offset pk = off" "pk_max_payload pk = mx"
    and "mx \<le> length scratch" "(i + length (nal_fragments nal mx off)) * sz \<le> length mem"
  shows "sends_as packets (i * sz) mem (write_h264_packets (length (nal_fragments nal mx off)) i pk st marker sz mem (Some scratch) packets)
    (fold (\<lambda>d st. sent st d) (nal_fragments nal mx off) st) (stream_packets st marker (nal_fragments nal mx off))"
  using assms
proof (induction "length nal - off" arbitrary: off pk st scratch mem i packets rule: less_induct)
  case less
  define k where "k = min (length nal - off) (mx - 2)"
  let ?d = "fragment (nal ! 0) (off = 1) (off + k = length nal) (take k (drop off nal))" and ?ds = "nal_fragments nal mx (off + k)"
  note f = fragments_step [OF less.prems(1,4), folded k_def]
  obtain scratch' where nx: "length scratch' = length scratch" "h264_packetizer_next pk (Some scratch)
      = (0, pk\<lparr>pk_offset := off + k, pk_done := (off + k = length nal)\<rparr>, Some scratch',
         \<lparr>po_payload = Some ?d, po_marker = (off + k = length nal), po_end = (off + k = length nal)\<rparr>)"
    using packetizer_fragment [OF less.prems(7-11,5,4,1,12)] unfolding k_def by blast
  have dl: "length ?d = k + 2" using f(3) by (simp add: fragment_def)
  have fin: "?ds = [] \<longleftrightarrow> off + k = length nal" using f(3) fragments_none [OF less.prems(1), of nal "off + k"] by auto
  have sz: "12 + length ?d \<le> sz" "12 + length ?d \<le> 2147483647" using dl f(4) less.prems(2,3) by linarith+
  have room: "i * sz + sz \<le> length mem" "(i + 1 + length ?ds) * sz \<le> length mem" using less.prems(13) by (simp_all add: f(1) algebra_simps)
  obtain mem1 where w: "write_h264_packets (Suc (length ?ds)) i pk st marker sz mem (Some scratch) packets
      = write_h264_packets (length ?ds) (i + 1) (pk\<lparr>pk_offset := off + k, pk_done := (off + k = length nal)\<rparr>) (sent st ?d) marker sz mem1 (Some scratch')
          (packets @ [(i * sz, 12 + length ?d)])"
    "length mem1 = length mem" "take (i * sz) mem1 = take (i * sz) mem"
    "take (12 + length ?d) (drop (i * sz) mem1) = packet_of st (off + k = length nal \<and> marker) ?d"
    using packet_written [OF less.prems(6) nx(2) _ sz room(1), of "length ?ds" marker packets] by auto
  have "sends_as (packets @ [(i * sz, 12 + length ?d)]) (i * sz + sz) mem1
      (write_h264_packets (length ?ds) (i + 1) (pk\<lparr>pk_offset := off + k, pk_done := (off + k = length nal)\<rparr>) (sent st ?d) marker sz mem1 (Some scratch')
          (packets @ [(i * sz, 12 + length ?d)])) (fold (\<lambda>d st. sent st d) ?ds (sent st ?d)) (stream_packets (sent st ?d) marker ?ds)"
  proof (cases "off + k = length nal")
    case True
    with fin show ?thesis by (simp add: sends_as_def)
  next
    case False
    with f have lt: "off + k < length nal" by simp
    have "sends_as (packets @ [(i * sz, 12 + length ?d)]) ((i + 1) * sz) mem1
      (write_h264_packets (length ?ds) (i + 1) (pk\<lparr>pk_offset := off + k, pk_done := (off + k = length nal)\<rparr>) (sent st ?d) marker sz mem1 (Some scratch')
          (packets @ [(i * sz, 12 + length ?d)])) (fold (\<lambda>d st. sent st d) ?ds (sent st ?d)) (stream_packets (sent st ?d) marker ?ds)"
      by (rule less.hyps) (use less.prems f lt nx(1) room w(2) False sent_ok in simp_all)
    then show ?thesis by (simp add: add.commute)
  qed
  from sends_first [OF this sz(1) w(2-4)] show ?case unfolding f(1) by (simp only: list.size add_0 add_Suc_right add_0_right w(1) fold_simps stream_packets.simps fin)
qed

record h264_write =
  wr_nal :: bytes
  wr_marker :: bool
  wr_increment :: u32
  wr_max_payload :: nat
  wr_memory :: bytes
  wr_packet_size :: nat
  wr_scratch :: bytes
  wr_capacity :: nat

text \<open>A write with enough room: the packets fit the slots, the slots the memory, and the packet array holds them.\<close>

definition write_ok :: "h264_write \<Rightarrow> bool" where
  "write_ok w \<longleftrightarrow> nal_ok (wr_nal w) \<and> 0 < wr_max_payload w \<and> (length (wr_nal w) \<le> wr_max_payload w \<or> 3 \<le> wr_max_payload w)
     \<and> wr_max_payload w \<le> length (wr_scratch w) \<and> wr_max_payload w \<le> 2147483635 \<and> 12 + wr_max_payload w \<le> wr_packet_size w
     \<and> length (nal_payloads (wr_nal w) (wr_max_payload w)) \<le> wr_capacity w
     \<and> length (nal_payloads (wr_nal w) (wr_max_payload w)) * wr_packet_size w \<le> length (wr_memory w) \<and> length (wr_memory w) \<le> SIZE_MAX"

definition write_nal :: "rtsp_stream \<Rightarrow> h264_write \<Rightarrow> (bytes list \<times> rtsp_stream) option" where
  "write_nal st w =
     (case rtsp_stream_write_h264_nal_ex st (Some (wr_nal w)) (wr_marker w) (wr_increment w) (wr_max_payload w) (Some (wr_memory w)) (wr_packet_size w)
             (Some (wr_scratch w)) (wr_capacity w) of
        None \<Rightarrow> None
      | Some (code, st', mem, scratch, packets) \<Rightarrow> if code = 0 then Some (map (slot_bytes (the mem)) packets, st') else None)"

definition after_write :: "rtsp_stream \<Rightarrow> h264_write \<Rightarrow> rtsp_stream" where
  "after_write st w = (fold (\<lambda>d st. sent st d) (nal_payloads (wr_nal w) (wr_max_payload w)) st)\<lparr>st_timestamp := st_timestamp st + wr_increment w\<rparr>"

lemma fold_sent:
  "st_timestamp (fold (\<lambda>d st. sent st d) ds st) = st_timestamp st" "st_ssrc (fold (\<lambda>d st. sent st d) ds st) = st_ssrc st"
  "st_sequence_number (fold (\<lambda>d st. sent st d) ds st) = st_sequence_number st + word_of_nat (length ds)"
  "stream_ok st \<Longrightarrow> stream_ok (fold (\<lambda>d st. sent st d) ds st)"
  by (induction ds arbitrary: st) (simp_all add: sent_ok)

lemma after_write_ok: "stream_ok st \<Longrightarrow> stream_ok (after_write st w)"
  using fold_sent(4) [of st] by (simp add: after_write_def stream_ok_def)

lemma nal_written:
  assumes st: "stream_ok st" and w: "write_ok w"
  shows "write_nal st w = Some (stream_packets st (wr_marker w) (nal_payloads (wr_nal w) (wr_max_payload w)), after_write st w)"
proof -
  define nal mx sz where "nal = wr_nal w" and "mx = wr_max_payload w" and "sz = wr_packet_size w"
  define ds where "ds = nal_payloads nal mx"
  note w' = w [unfolded write_ok_def, folded nal_def mx_def sz_def, folded ds_def]
  define pk where "pk = \<lparr>pk_nal = Some nal, pk_max_payload = mx, pk_offset = (if length nal \<le> mx then 0 else 1),
    pk_single_nal = (length nal \<le> mx), pk_done = False\<rparr>"
  have i: "h264_packetizer_init (Some nal) mx = Some pk" using packetizer_starts [of nal mx] w' by (simp add: pk_def)
  have ne: "nal \<noteq> []" using w' by (simp add: nal_ok_def)
  have n: "h264_packet_count (Some nal) mx = Some (length ds)"
    using w' i ne fragments_count [of mx nal 1] by (auto simp: h264_packet_count_def ds_def nal_payloads_def Let_def)
  have "sends_as [] (0 * sz) (wr_memory w) (write_h264_packets (length ds) 0 pk st (wr_marker w) sz (wr_memory w) (Some (wr_scratch w)) [])
    (fold (\<lambda>d st. sent st d) ds st) (stream_packets st (wr_marker w) ds)"
  proof (cases "length nal \<le> mx")
    case True
    then have ds: "ds = [nal]" by (simp add: ds_def nal_payloads_def)
    have nx: "h264_packetizer_next pk (Some (wr_scratch w)) = (0, pk\<lparr>pk_done := True\<rparr>, Some (wr_scratch w), \<lparr>po_payload = Some nal, po_marker = True, po_end = True\<rparr>)"
      using packetizer_single [of pk nal] ne True w' by (simp add: pk_def)
    have z: "12 + length nal \<le> sz" "12 + length nal \<le> 2147483647" "0 * sz + sz \<le> length (wr_memory w)" using True w' ds by simp_all
    from packet_written [OF st nx _ z, of 0 "wr_marker w" "[]"] obtain mem1 where
      "write_h264_packets (Suc 0) 0 pk st (wr_marker w) sz (wr_memory w) (Some (wr_scratch w)) []
         = Some (0, sent st nal, mem1, Some (wr_scratch w), [(0, 12 + length nal)])"
      "length mem1 = length (wr_memory w)" "take (12 + length nal) mem1 = packet_of st (wr_marker w) nal" by auto
    then show ?thesis by (simp add: ds sends_as_def slot_bytes_def)
  next
    case False
    then have ds: "ds = nal_fragments nal mx 1" by (simp add: ds_def nal_payloads_def)
    from False w' have "1 < length nal" "3 \<le> mx" by simp_all
    then show ?thesis unfolding ds by (intro fragments_written) (use w' st False ds in \<open>simp_all add: pk_def\<close>)
  qed
  then obtain mem' scratch' new where r: "write_h264_packets (length ds) 0 pk st (wr_marker w) sz (wr_memory w) (Some (wr_scratch w)) []
      = Some (0, fold (\<lambda>d st. sent st d) ds st, mem', scratch', new)" "map (slot_bytes mem') new = stream_packets st (wr_marker w) ds"
    by (auto simp: sends_as_def)
  have "0 < sz" using w' by simp
  then have "length ds \<le> length (wr_memory w) div sz" using w' by (simp add: less_eq_div_iff_mult_less_eq)
  also have "\<dots> \<le> SIZE_MAX div sz" using w' by (simp add: div_le_mono)
  finally have nd: "\<not> length ds > SIZE_MAX div sz" by simp
  have pt: "\<not> st_payload_type st > 127" using st by (simp add: stream_ok_def not_less)
  have ds0: "ds \<noteq> []" using ne w' fragments_none [of mx nal 1] by (auto simp: ds_def nal_payloads_def)
  then have c0: "wr_capacity w \<noteq> 0" using w' by (cases ds) auto
  have mw: "\<not> (if length nal \<le> mx then length nal else mx) > SIZE_MAX - 12" "\<not> sz < 12 + (if length nal \<le> mx then length nal else mx)" "\<not> sz < 12"
    using w' by (auto simp: SIZE_MAX_def)
  show ?thesis
    unfolding write_nal_def rtsp_stream_write_h264_nal_ex_def Let_def nal_def [symmetric] mx_def [symmetric] sz_def [symmetric]
    using w' ne pt c0 nd mw i n r fold_sent(1) [of ds st]
    by (simp add: after_write_def nal_def [symmetric] mx_def [symmetric] ds_def [symmetric])
qed

section \<open>Reassembly of packets in order\<close>

definition header_of :: "bytes \<Rightarrow> rtsp_header" where
  "header_of p = fst (the (rtsp_rtp_parse_header (Some p)))"

lemma packet_parsed:
  assumes "stream_ok st"
  shows "rtsp_rtp_parse_header (Some (packet_of st m d)) = Some (header_of (packet_of st m d), 12)" "rh_payload (header_of (packet_of st m d)) = Some d"
    "rh_payload_len (header_of (packet_of st m d)) = length d" "rh_ssrc (header_of (packet_of st m d)) = st_ssrc st"
    "rh_timestamp (header_of (packet_of st m d)) = st_timestamp st" "rh_sequence_number (header_of (packet_of st m d)) = st_sequence_number st"
    "rh_version (header_of (packet_of st m d)) = 2"
proof -
  have h: "header_ok (stream_header st m (length d))" "header_size (stream_header st m (length d)) = 12"
    using stream_header_ok assms by (simp_all add: stream_ok_def)
  have e: "rtsp_rtp_parse_header (Some (packet_of st m d)) = Some (carried_header (stream_header st m (length d)) d, 12)"
    using parse_header_bytes [OF h(1), of d] h(2) by (simp add: packet_of_def)
  then show "rtsp_rtp_parse_header (Some (packet_of st m d)) = Some (header_of (packet_of st m d), 12)" by (simp add: header_of_def)
  show "rh_payload (header_of (packet_of st m d)) = Some d"
    "rh_payload_len (header_of (packet_of st m d)) = length d" "rh_ssrc (header_of (packet_of st m d)) = st_ssrc st"
    "rh_timestamp (header_of (packet_of st m d)) = st_timestamp st" "rh_sequence_number (header_of (packet_of st m d)) = st_sequence_number st"
    "rh_version (header_of (packet_of st m d)) = 2"
    by (simp_all add: header_of_def e carried_header_def stream_header_def)
qed

text \<open>The NAL units a sequence of packets makes the reassembler hand out, none of which it may refuse.\<close>

primrec reassembles :: "h264_reassembler \<Rightarrow> bytes \<Rightarrow> rtsp_header list \<Rightarrow> (bytes list \<times> h264_reassembler \<times> bytes) option" where
  "reassembles r mem [] = Some ([], r, mem)"
| "reassembles r mem (h # hs) =
     (case h264_reassembler_push r h (Some mem) of
        (FRAME_OK, r', Some mem', Some nal) \<Rightarrow> map_option (\<lambda>(ns, z). (nal # ns, z)) (reassembles r' mem' hs)
      | (FRAME_PARTIAL, r', Some mem', None) \<Rightarrow> reassembles r' mem' hs
      | _ \<Rightarrow> None)"

lemma reassembles_append:
  "reassembles r mem hs = Some (ns, r1, mem1) \<Longrightarrow> reassembles r1 mem1 hs' = Some (ns', r2, mem2) \<Longrightarrow> reassembles r mem (hs @ hs') = Some (ns @ ns', r2, mem2)"
  by (induction hs arbitrary: r mem ns) (auto split: frame_result.splits option.splits prod.splits simp: Option.map_conv_bind_option bind_eq_Some_conv)

lemma fragments_reassembled:
  assumes "nal_ok nal" "3 \<le> mx" "0 < off" "off < length nal" "off \<noteq> 1 \<or> mx < length nal" "stream_ok st"
    and "assembling r mem nal off (st_ssrc st) (st_timestamp st) (st_sequence_number st)"
  shows "\<exists>r' mem'. reassembles r mem (map header_of (stream_packets st marker (nal_fragments nal mx off))) = Some ([nal], r', mem')
    \<and> \<not> ra_started r' \<and> length mem' = length mem"
  using assms
proof (induction "length nal - off" arbitrary: off st r mem rule: less_induct)
  case less
  define k where "k = min (length nal - off) (mx - 2)"
  let ?d = "fragment (nal ! 0) (off = 1) (off + k = length nal) (take k (drop off nal))" and ?ds = "nal_fragments nal mx (off + k)"
  let ?h = "header_of (packet_of st (?ds = [] \<and> marker) ?d)"
  note f = fragments_step [OF less.prems(2,4), folded k_def]
  note h = packet_parsed [OF less.prems(6), of "?ds = [] \<and> marker" ?d]
  have dl: "length ?d = k + 2" using f(3) by (simp add: fragment_def)
  have nf: "off + k < length nal \<or> off \<noteq> 1" using less.prems(5) f(4) by (auto simp: k_def)
  from fragment_pushed [OF less.prems(1,3) f(3,2) nf less.prems(7) h(2) _ h(4-6)] dl h(3) obtain r1 mem1 where p: "length mem1 = length mem"
    "h264_reassembler_push r ?h (Some mem) = (if off + k = length nal then (FRAME_OK, r1, Some mem1, Some nal) else (FRAME_PARTIAL, r1, Some mem1, None))"
    "if off + k = length nal then \<not> ra_started r1 else assembling r1 mem1 nal (off + k) (st_ssrc st) (st_timestamp st) (st_sequence_number st + 1)" by auto
  show ?case
  proof (cases "off + k = length nal")
    case True
    then have "?ds = []" by (simp add: fragments_end)
    with True p show ?thesis unfolding f(1) by simp
  next
    case False
    with f(3) have lt: "off + k < length nal" by simp
    have "\<exists>r' mem'. reassembles r1 mem1 (map header_of (stream_packets (sent st ?d) marker ?ds)) = Some ([nal], r', mem') \<and> \<not> ra_started r' \<and> length mem' = length mem1"
      by (rule less.hyps) (use less.prems f lt p(3) False sent_ok in simp_all)
    with False p(1,2) show ?thesis unfolding f(1) by simp
  qed
qed

lemma nal_reassembled:
  assumes "write_ok w" "stream_ok st" "\<not> ra_started r" "length (wr_nal w) \<le> length mem"
  shows "\<exists>r' mem'. reassembles r mem (map header_of (stream_packets st (wr_marker w) (nal_payloads (wr_nal w) (wr_max_payload w)))) = Some ([wr_nal w], r', mem')
    \<and> \<not> ra_started r' \<and> length mem' = length mem"
proof (cases "length (wr_nal w) \<le> wr_max_payload w")
  case True
  have "nal_ok (wr_nal w)" using assms(1) by (simp add: write_ok_def)
  with single_pushed [OF _ assms(3)] packet_parsed(2,3) [OF assms(2)] True assms(3) show ?thesis by (simp add: nal_payloads_def)
next
  case False
  then have "assembling r mem (wr_nal w) 1 (st_ssrc st) (st_timestamp st) (st_sequence_number st)" using assms by (simp add: assembling_def)
  from fragments_reassembled [OF _ _ _ _ _ assms(2) this] assms(1) False show ?thesis by (auto simp: nal_payloads_def write_ok_def)
qed

primrec written_packets :: "rtsp_stream \<Rightarrow> h264_write list \<Rightarrow> bytes list" where
  "written_packets st [] = []"
| "written_packets st (w # ws) = stream_packets st (wr_marker w) (nal_payloads (wr_nal w) (wr_max_payload w)) @ written_packets (after_write st w) ws"

lemma stream_reassembled:
  "list_all write_ok ws \<Longrightarrow> stream_ok st \<Longrightarrow> \<not> ra_started r \<Longrightarrow> \<forall>w\<in>set ws. length (wr_nal w) \<le> length mem \<Longrightarrow>
     \<exists>r' mem'. reassembles r mem (map header_of (written_packets st ws)) = Some (map wr_nal ws, r', mem')"
proof (induction ws arbitrary: st r mem)
  case (Cons w ws)
  then obtain r1 mem1 where a: "reassembles r mem (map header_of (stream_packets st (wr_marker w) (nal_payloads (wr_nal w) (wr_max_payload w)))) = Some ([wr_nal w], r1, mem1)"
    "\<not> ra_started r1" "length mem1 = length mem" using nal_reassembled [of w st r mem] by auto
  from Cons.IH [of "after_write st w" r1 mem1] Cons.prems a(2,3) after_write_ok obtain r2 mem2 where
    "reassembles r1 mem1 (map header_of (written_packets (after_write st w) ws)) = Some (map wr_nal ws, r2, mem2)" by auto
  from reassembles_append [OF a(1) this] show ?case by auto
qed simp

section \<open>The queue\<close>

primrec consecutive :: "u16 \<Rightarrow> rtsp_header list \<Rightarrow> bool" where
  "consecutive q [] \<longleftrightarrow> True"
| "consecutive q (h # hs) \<longleftrightarrow> rh_sequence_number h = q \<and> consecutive (q + 1) hs"

definition queued :: "h264_receive_stream \<Rightarrow> rtsp_header list" where
  "queued s = List.map_filter id (rs_reorder s)"

definition holding :: "h264_receive_stream \<Rightarrow> rtsp_header list \<Rightarrow> bool" where
  "holding s Q \<longleftrightarrow> length (rs_reorder s) = 4 \<and> rs_has_next_sequence_number s \<and> rs_reorder_count s = length Q \<and> mset (queued s) = mset Q"

lemma queue_removed: "i < length xs \<Longrightarrow> xs ! i = Some h \<Longrightarrow> add_mset h (mset (List.map_filter id (xs[i := None]))) = mset (List.map_filter id xs)"
  by (induction xs arbitrary: i) (auto simp: map_filter_simps nth_Cons' split: option.splits nat.splits)

lemma queue_added: "i < length xs \<Longrightarrow> xs ! i = None \<Longrightarrow> mset (List.map_filter id (xs[i := Some h])) = add_mset h (mset (List.map_filter id xs))"
  by (induction xs arbitrary: i) (auto simp: map_filter_simps nth_Cons' split: option.splits nat.splits)

lemma queue_mem: "x \<in> set (List.map_filter id xs) \<longleftrightarrow> (\<exists>i<length xs. xs ! i = Some x)"
  by (induction xs) (auto simp: map_filter_simps Ex_less_Suc2 split: option.splits)

lemma queue_full: "\<forall>i<length xs. xs ! i \<noteq> None \<Longrightarrow> length (List.map_filter id xs) = length xs"
  by (induction xs) (auto simp: map_filter_simps nth_Cons' All_less_Suc2 split: option.splits)

lemma consecutive_nth: "consecutive q Q \<Longrightarrow> x \<in> set Q \<Longrightarrow> \<exists>j<length Q. rh_sequence_number x = q + word_of_nat j"
proof (induction Q arbitrary: q)
  case (Cons h Q)
  show ?case
  proof (cases "x = h")
    case True
    with Cons.prems show ?thesis by (intro exI [of _ 0]) simp
  next
    case False
    with Cons obtain j where "j < length Q" "rh_sequence_number x = q + 1 + word_of_nat j" by fastforce
    then show ?thesis by (intro exI [of _ "Suc j"]) simp
  qed
qed simp

lemma small_nonzero: "0 < j \<Longrightarrow> j < 65536 \<Longrightarrow> (word_of_nat j :: u16) \<noteq> 0"
  by (simp add: word_of_nat_eq_0_iff) (auto dest: dvd_imp_le)

lemma consecutive_ahead: "consecutive (q + word_of_nat d) Q \<Longrightarrow> 0 < d \<Longrightarrow> d + length Q \<le> 65536 \<Longrightarrow> x \<in> set Q \<Longrightarrow> rh_sequence_number x \<noteq> q"
  using consecutive_nth [of "q + word_of_nat d" Q x] small_nonzero by (auto simp: add.assoc simp flip: of_nat_add)

lemma consecutive_append: "consecutive q (Q @ [h]) \<longleftrightarrow> consecutive q Q \<and> rh_sequence_number h = q + word_of_nat (length Q)"
  by (induction Q arbitrary: q) (auto simp: add.assoc)

lemma find_queued:
  assumes "holding s (h # Q)" "consecutive (rs_next_sequence_number s) (h # Q)" "length Q \<le> 8"
  shows "\<exists>i<4. reorder_find s (rs_next_sequence_number s) = Some i \<and> rs_reorder s ! i = Some h"
proof -
  have l: "length (rs_reorder s) = 4" and set: "set (queued s) = set (h # Q)" using assms(1) unfolding holding_def by (simp, metis mset_eq_setD)
  have u: "x = h" if "x \<in> set (h # Q)" "rh_sequence_number x = rs_next_sequence_number s" for x
    using consecutive_ahead [of "rs_next_sequence_number s" 1 Q x] assms(2,3) that by auto
  from set obtain i where i: "i < 4" "rs_reorder s ! i = Some h" using queue_mem [of h "rs_reorder s"] l by (auto simp: queued_def)
  have "reorder_find s (rs_next_sequence_number s) \<noteq> None" using i assms(2) by (auto simp: reorder_find_def first_below_None)
  then obtain j where j: "reorder_find s (rs_next_sequence_number s) = Some j" by auto
  from first_below_Some [OF j [unfolded reorder_find_def]]
  obtain x where x: "j < 4" "rs_reorder s ! j = Some x" "rh_sequence_number x = rs_next_sequence_number s" by auto
  then have "x \<in> set (queued s)" using l queue_mem [of x "rs_reorder s"] unfolding queued_def by auto
  then have "x = h" using u x(3) unfolding set by blast
  with j x show ?thesis by blast
qed

lemma find_absent:
  assumes "holding s Q" "\<forall>x\<in>set Q. rh_sequence_number x \<noteq> q"
  shows "reorder_find s q = None"
proof -
  have "set (queued s) = set Q" "length (rs_reorder s) = 4" using assms(1) by (auto simp: holding_def dest: mset_eq_setD)
  then show ?thesis using assms(2) queue_mem [of _ "rs_reorder s"] by (auto simp: reorder_find_def first_below_None queued_def)
qed

lemma deliver_fields:
  assumes "h264_reassembler_push (rs_reassembler s) h buffer = (res, r', buffer', nal)"
  shows "\<exists>s'. receive_deliver s h fr buffer = (res, s', buffer', nal) \<and> rs_reassembler s' = r' \<and> rs_reorder s' = rs_reorder s
    \<and> rs_reorder_count s' = rs_reorder_count s \<and> rs_has_next_sequence_number s' \<and> rs_next_sequence_number s' = rh_sequence_number h + 1
    \<and> rs_source s' = rs_source s"
  by (auto simp: receive_deliver_def assms Let_def)

lemma deliver_from_queue:
  assumes q: "holding s (h # Q)" "consecutive (rs_next_sequence_number s) (h # Q)" "length Q \<le> 8"
    and p: "h264_reassembler_push (rs_reassembler s) h (Some mem) = (res, r', Some mem', nal)" "res \<noteq> FRAME_ERROR"
  shows "\<exists>i s'. reorder_find s (rs_next_sequence_number s) = Some i \<and> deliver_queued s i (Some mem) = (res, s', Some mem', nal) \<and> holding s' Q
    \<and> rs_next_sequence_number s' = rs_next_sequence_number s + 1 \<and> rs_reassembler s' = r' \<and> rs_source s' = rs_source s"
proof -
  from find_queued [OF q] obtain i where i: "i < 4" "reorder_find s (rs_next_sequence_number s) = Some i" "rs_reorder s ! i = Some h" by blast
  from deliver_fields [OF p(1), of True] obtain s1 where d: "receive_deliver s h True (Some mem) = (res, s1, Some mem', nal)" "rs_reassembler s1 = r'"
    "rs_reorder s1 = rs_reorder s" "rs_reorder_count s1 = rs_reorder_count s" "rs_has_next_sequence_number s1"
    "rs_next_sequence_number s1 = rh_sequence_number h + 1" "rs_source s1 = rs_source s" by blast
  let ?s = "s1\<lparr>rs_reorder := (rs_reorder s)[i := None], rs_reorder_count := rs_reorder_count s - 1\<rparr>"
  have "remove_reorder s1 i = Some ?s" using i d by (simp add: remove_reorder_def)
  then have "deliver_queued s i (Some mem) = (res, ?s, Some mem', nal)" by (simp add: deliver_queued_def i(3) d(1))
  moreover have "holding ?s Q" using q(1) d(5) i(1) queue_removed [of i "rs_reorder s" h] i(3)
    by (auto simp: holding_def queued_def)
  ultimately show ?thesis using i d q(2) by (intro exI [of _ i] exI [of _ ?s]) simp
qed

text \<open>A receive stream whose queue holds the packets that come next, and what they will be reassembled to.\<close>

definition ready :: "h264_receive_stream \<Rightarrow> bytes \<Rightarrow> rtsp_header list \<Rightarrow> bytes list \<Rightarrow> h264_reassembler \<times> bytes \<Rightarrow> u16 \<Rightarrow> bool" where
  "ready s mem Q outs fin stop \<longleftrightarrow> holding s Q \<and> consecutive (rs_next_sequence_number s) Q \<and> length Q \<le> 4
     \<and> reassembles (rs_reassembler s) mem Q = Some (outs, fin) \<and> rs_next_sequence_number s + word_of_nat (length Q) = stop"

lemma reassembles_push:
  assumes "reassembles r mem (h # Q) = Some (outs, fin)"
  obtains res r' mem' nal outs' where "h264_reassembler_push r h (Some mem) = (res, r', Some mem', nal)" "res \<noteq> FRAME_ERROR"
    "reassembles r' mem' Q = Some (outs', fin)" "outs = (if res = FRAME_OK then [the nal] else []) @ outs'" "res = FRAME_PARTIAL \<longrightarrow> nal = None"
  using assms by (auto split: frame_result.splits option.splits prod.splits)

lemma ready_step:
  assumes "ready s mem (h # Q) outs fin stop"
  shows "\<exists>i res s' mem' nal outs'. reorder_find s (rs_next_sequence_number s) = Some i \<and> deliver_queued s i (Some mem) = (res, s', Some mem', nal)
    \<and> res \<noteq> FRAME_ERROR \<and> ready s' mem' Q outs' fin stop \<and> outs = (if res = FRAME_OK then [the nal] else []) @ outs' \<and> (res = FRAME_PARTIAL \<longrightarrow> nal = None)
    \<and> rs_source s' = rs_source s"
proof -
  have r: "holding s (h # Q)" "consecutive (rs_next_sequence_number s) (h # Q)" "length Q \<le> 8" "length Q \<le> 4"
    "reassembles (rs_reassembler s) mem (h # Q) = Some (outs, fin)" "rs_next_sequence_number s + 1 + word_of_nat (length Q) = stop"
    using assms by (auto simp: ready_def add.assoc)
  from reassembles_push [OF r(5)] obtain res r' mem' nal outs' where p: "h264_reassembler_push (rs_reassembler s) h (Some mem) = (res, r', Some mem', nal)"
    "res \<noteq> FRAME_ERROR" "reassembles r' mem' Q = Some (outs', fin)" "outs = (if res = FRAME_OK then [the nal] else []) @ outs'" "res = FRAME_PARTIAL \<longrightarrow> nal = None" .
  from deliver_from_queue [OF r(1-3) p(1,2)] obtain i s' where d: "reorder_find s (rs_next_sequence_number s) = Some i"
    "deliver_queued s i (Some mem) = (res, s', Some mem', nal)" "holding s' Q" "rs_next_sequence_number s' = rs_next_sequence_number s + 1"
    "rs_reassembler s' = r'" "rs_source s' = rs_source s" by blast
  then have "ready s' mem' Q outs' fin stop" using r p by (simp add: ready_def)
  with d p show ?thesis by blast
qed

lemma ready_empty: "ready s mem [] outs fin stop \<Longrightarrow> reorder_find s q = None \<and> outs = [] \<and> fin = (rs_reassembler s, mem) \<and> rs_next_sequence_number s = stop"
  using find_absent [of s "[]" q] by (auto simp: ready_def)

lemma drain_loop_ready:
  "ready s mem Q outs fin stop \<Longrightarrow> \<exists>res s' mem' nal Q' outs'. drain_loop FRAME_PARTIAL s (Some mem) None = (res, s', Some mem', nal)
     \<and> ready s' mem' Q' outs' fin stop \<and> res \<noteq> FRAME_ERROR \<and> outs = (if res = FRAME_OK then [the nal] else []) @ outs' \<and> rs_source s' = rs_source s"
proof (induction Q arbitrary: s mem outs)
  case Nil
  have "drain_loop FRAME_PARTIAL s (Some mem) None = (FRAME_PARTIAL, s, Some mem, None)" using ready_empty [OF Nil] by (subst drain_loop.simps) simp
  with Nil show ?case by auto
next
  case (Cons h Q)
  from ready_step [OF Cons.prems] obtain i res s' mem' nal outs' where d: "reorder_find s (rs_next_sequence_number s) = Some i"
    "deliver_queued s i (Some mem) = (res, s', Some mem', nal)" "res \<noteq> FRAME_ERROR" "ready s' mem' Q outs' fin stop"
    "outs = (if res = FRAME_OK then [the nal] else []) @ outs'" "res = FRAME_PARTIAL \<longrightarrow> nal = None" "rs_source s' = rs_source s" by blast
  have "length (rs_reorder s) = 4" using Cons.prems by (simp add: ready_def holding_def)
  then have l: "drain_loop FRAME_PARTIAL s (Some mem) None = drain_loop res s' (Some mem') nal" using d(1,2) by (subst drain_loop.simps) simp
  show ?case
  proof (cases "res = FRAME_PARTIAL")
    case True
    with Cons.IH [OF d(4)] d l show ?thesis by simp
  next
    case False
    then have "drain_loop res s' (Some mem') nal = (res, s', Some mem', nal)" by (subst drain_loop.simps) simp
    with d l show ?thesis by auto
  qed
qed

section \<open>A client\<close>

text \<open>A client that asks four times for queued packets after each packet it pushes, and collects the NAL units it is given.\<close>

primrec drain_times :: "nat \<Rightarrow> h264_receive_stream \<Rightarrow> bytes option \<Rightarrow> bytes list \<times> h264_receive_stream \<times> bytes option" where
  "drain_times 0 s buffer = ([], s, buffer)"
| "drain_times (Suc n) s buffer =
     (case h264_receive_stream_drain_queued s buffer of
        (res, s', buffer', nal) \<Rightarrow> (case drain_times n s' buffer' of (ns, z) \<Rightarrow> ((if res = FRAME_OK then [the nal] else []) @ ns, z)))"

primrec h264_receive :: "h264_receive_stream \<Rightarrow> bytes option \<Rightarrow> (bytes \<times> u32) list \<Rightarrow> (bytes list \<times> h264_receive_stream \<times> bytes option) option" where
  "h264_receive s buffer [] = Some ([], s, buffer)"
| "h264_receive s buffer (x # xs) =
     (case h264_receive_stream_push s (Some (fst x)) (snd x) buffer of
        None \<Rightarrow> None
      | Some (res, update, s', buffer', nal) \<Rightarrow>
          (case drain_times 4 s' buffer' of
             (ns, s'', buffer'') \<Rightarrow>
               map_option (\<lambda>(ms, z). ((if res = FRAME_OK then [the nal] else []) @ ns @ ms, z)) (h264_receive s'' buffer'' xs)))"

lemma drain_times_ready:
  "ready s mem Q outs fin stop \<Longrightarrow> length Q \<le> n \<Longrightarrow> \<exists>s' mem'. drain_times n s (Some mem) = (outs, s', Some mem') \<and> ready s' mem' [] [] fin stop \<and> rs_source s' = rs_source s"
proof (induction n arbitrary: s mem Q outs)
  case 0
  then show ?case using ready_empty [of s mem outs fin stop] by auto
next
  case (Suc n)
  have hn: "rs_has_next_sequence_number s" using Suc.prems by (simp add: ready_def holding_def)
  show ?case
  proof (cases Q)
    case Nil
    with Suc.prems have e: "ready s mem [] [] fin stop" "outs = []" "reorder_find s (rs_next_sequence_number s) = None" using ready_empty [of s mem outs fin stop] by auto
    from Suc.IH [OF e(1)] e(2,3) show ?thesis by (auto simp: h264_receive_stream_drain_queued_def)
  next
    case (Cons h Q')
    from ready_step [OF Suc.prems(1) [unfolded Cons]] obtain i res s1 mem1 nal outs' where d: "reorder_find s (rs_next_sequence_number s) = Some i"
      "deliver_queued s i (Some mem) = (res, s1, Some mem1, nal)" "res \<noteq> FRAME_ERROR" "ready s1 mem1 Q' outs' fin stop"
      "outs = (if res = FRAME_OK then [the nal] else []) @ outs'" "rs_source s1 = rs_source s" by blast
    from Suc.IH [OF d(4)] Suc.prems(2) Cons obtain s2 mem2 where "drain_times n s1 (Some mem1) = (outs', s2, Some mem2)" "ready s2 mem2 [] [] fin stop"
      "rs_source s2 = rs_source s1" by auto
    with d hn show ?thesis by (auto simp: h264_receive_stream_drain_queued_def)
  qed
qed

lemma drain_times_nothing:
  "reorder_find s (rs_next_sequence_number s) = None \<Longrightarrow> drain_times n s buffer = ([], s, buffer)"
  by (induction n) (simp_all add: h264_receive_stream_drain_queued_def)

section \<open>Packets that are overtaken\<close>

definition carries :: "u32 \<Rightarrow> nat \<Rightarrow> bytes \<times> u32 \<Rightarrow> bool" where
  "carries ssrc i x \<longleftrightarrow> (\<exists>l. rtsp_rtp_parse_header (Some (fst x)) = Some (header_of (fst x), l)) \<and> arrives_as ssrc i (header_of (fst x), snd x)
     \<and> map_option length (rh_payload (header_of (fst x))) = Some (rh_payload_len (header_of (fst x)))"

definition source_ready :: "u32 \<Rightarrow> nat \<Rightarrow> nat \<Rightarrow> nat set \<Rightarrow> h264_receive_stream \<Rightarrow> bool" where
  "source_ready ssrc b m A s \<longleftrightarrow> source_at (rs_source s) b m A \<and> so_ssrc (rs_source s) = ssrc \<and> small_transit (so_transit (rs_source s))"

text \<open>Packet \<open>m + 1\<close> is missing, and the packets behind it are queued.\<close>

definition waiting :: "u32 \<Rightarrow> nat \<Rightarrow> nat \<Rightarrow> h264_reassembler \<Rightarrow> rtsp_header list \<Rightarrow> h264_receive_stream \<Rightarrow> bool" where
  "waiting ssrc b m r Q s \<longleftrightarrow> holding s Q \<and> rs_next_sequence_number s = word_of_nat (m + 1) \<and> consecutive (word_of_nat (m + 1) + 1) Q \<and> length Q \<le> 4
     \<and> rs_reassembler s = r \<and> b \<le> m \<and> source_ready ssrc b (if Q = [] then m else m + 1 + length Q) ({b..m} \<union> {m + 2..m + 1 + length Q}) s"

lemma source_push:
  assumes "source_ready ssrc b m A s" "carries ssrc i x" "i < m + 32768" "m < i + 32768"
  shows "\<exists>source. rtsp_source_update_ex (rs_source s) (header_of (fst x)) (snd x) = Some (arrival_result m A i, source)
    \<and> source_ready ssrc b (max m i) (insert i A) (s\<lparr>rs_source := source\<rparr>)"
  using source_step [of "rs_source s" b m A "header_of (fst x)" i "snd x"] assms
  by (auto simp: source_ready_def carries_def arrives_as_def)

lemma stored:
  assumes "holding s Q" "length Q < 4" "rh_payload_len h \<le> 2048" "map_option length (rh_payload h) = Some (rh_payload_len h)"
  shows "\<exists>s'. reorder_store s h = Some s' \<and> holding s' (Q @ [h]) \<and> rs_source s' = rs_source s \<and> rs_reassembler s' = rs_reassembler s
    \<and> rs_next_sequence_number s' = rs_next_sequence_number s"
proof -
  have l: "length (rs_reorder s) = 4" "rs_reorder_count s = length Q" "mset (queued s) = mset Q" "rs_has_next_sequence_number s" using assms(1) by (simp_all add: holding_def)
  have "length (queued s) = length Q" using l(3) by (metis size_mset)
  then have "\<not> (\<forall>i<4. rs_reorder s ! i \<noteq> None)" using queue_full [of "rs_reorder s", unfolded l(1)] assms(2) unfolding queued_def by (metis less_irrefl)
  then have "first_below 4 (\<lambda>x. x = None) (rs_reorder s) \<noteq> None" by (auto simp: first_below_None)
  then obtain i where i: "first_below 4 (\<lambda>x. x = None) (rs_reorder s) = Some i" by auto
  from first_below_Some [OF this] have n: "i < 4" "rs_reorder s ! i = None" by auto
  have "h\<lparr>rh_payload := map_option (take (rh_payload_len h)) (rh_payload h)\<rparr> = h" using assms(4) by (cases "rh_payload h") simp_all
  then have "reorder_store s h = Some (s\<lparr>rs_reorder := (rs_reorder s)[i := Some h], rs_reorder_count := rs_reorder_count s + 1\<rparr>)"
    using i l(2) assms(2,3) by (simp add: reorder_store_def)
  moreover have "holding (s\<lparr>rs_reorder := (rs_reorder s)[i := Some h], rs_reorder_count := rs_reorder_count s + 1\<rparr>) (Q @ [h])"
    using l n queue_added [of i "rs_reorder s" h] by (simp add: holding_def queued_def)
  ultimately show ?thesis by auto
qed

lemma overtaking_push:
  assumes w: "waiting ssrc b m r Q s" "length Q < 4" and x: "carries ssrc (m + 2 + length Q) x" "rh_payload_len (header_of (fst x)) \<le> 2048"
  shows "\<exists>s'. h264_receive s buffer (x # xs) = h264_receive s' buffer xs \<and> waiting ssrc b m r (Q @ [header_of (fst x)]) s'"
proof -
  let ?h = "header_of (fst x)" and ?n = "word_of_nat (m + 1) :: u16"
  let ?m = "if Q = [] then m else m + 1 + length Q" and ?A = "{b..m} \<union> {m + 2..m + 1 + length Q}"
  have w': "holding s Q" "rs_next_sequence_number s = ?n" "consecutive (?n + 1) Q" "rs_reassembler s = r" "b \<le> m" "source_ready ssrc b ?m ?A s"
    using w(1) by (simp_all add: waiting_def)
  obtain source where u: "rtsp_source_update_ex (rs_source s) ?h (snd x) = Some (UPDATE_OK, source)"
    "source_ready ssrc b (m + 2 + length Q) (insert (m + 2 + length Q) ?A) (s\<lparr>rs_source := source\<rparr>)"
  proof -
    have "?m < m + 2 + length Q" "m + 2 + length Q < ?m + 32768" "m + 2 + length Q - ?m \<le> 3000" using w(2) by auto
    then have "arrival_result ?m ?A (m + 2 + length Q) = UPDATE_OK" "max ?m (m + 2 + length Q) = m + 2 + length Q" "?m < m + 2 + length Q + 32768"
      unfolding arrival_result_def by (simp_all del: Un_iff)
    with source_push [OF w'(6) x(1)] \<open>m + 2 + length Q < ?m + 32768\<close> that show thesis by auto
  qed
  have A: "insert (m + 2 + length Q) ?A = {b..m} \<union> {m + 2..m + 1 + length (Q @ [?h])}" using w'(5) by (auto simp: atLeastAtMostSuc_conv)
  let ?s = "s\<lparr>rs_source := source\<rparr>"
  have sq: "rh_sequence_number ?h = ?n + 1 + word_of_nat (length Q)" using x(1) by (simp add: carries_def arrives_as_def)
  have delta: "seq_forward_delta ?n (rh_sequence_number ?h) = word_of_nat (Suc (length Q))" by (simp add: seq_forward_delta_def sq)
  have d: "unat (word_of_nat (Suc (length Q)) :: u16) = Suc (length Q)" "word_of_nat (Suc (length Q)) \<noteq> (0 :: u16)"
    using w(2) small_nonzero [of "Suc (length Q)"] by (simp_all add: unat_of_nat take_bit_nat_eq_self del: of_nat_Suc)
  have hd: "holding ?s Q" using w'(1) by (simp add: holding_def queued_def)
  have "\<forall>y\<in>set Q. rh_sequence_number y \<noteq> rh_sequence_number ?h"
  proof
    fix y assume "y \<in> set Q"
    then obtain j where j: "j < length Q" "rh_sequence_number y = ?n + 1 + word_of_nat j" using consecutive_nth [OF w'(3)] by blast
    have "word_of_nat (length Q) - word_of_nat j = (word_of_nat (length Q - j) :: u16)" using j(1) by (simp add: of_nat_diff)
    moreover have "0 < length Q - j" "length Q - j < 65536" using j(1) w(2) by simp_all
    ultimately have "(word_of_nat j :: u16) \<noteq> word_of_nat (length Q)" using small_nonzero [of "length Q - j"] by auto
    then show "rh_sequence_number y \<noteq> rh_sequence_number ?h" by (simp add: j(2) sq)
  qed
  then have f: "reorder_find ?s (rh_sequence_number ?h) = None" by (rule find_absent [OF hd])
  obtain s' where st: "reorder_store ?s ?h = Some s'" "holding s' (Q @ [?h])" "rs_source s' = source" "rs_reassembler s' = r" "rs_next_sequence_number s' = ?n"
    using stored [OF hd w(2) x(2)] x(1) w'(2,4) by (auto simp: carries_def)
  have "rs_has_next_sequence_number s" using w'(1) by (simp add: holding_def)
  then have "receive_accept ?s ?h buffer = (FRAME_PARTIAL, s', buffer, None)"
    using w'(2) delta d f st(1) w(2) by (simp add: receive_accept_def Let_def del: of_nat_Suc)
  then have p: "h264_receive_stream_push s (Some (fst x)) (snd x) buffer = Some (FRAME_PARTIAL, UPDATE_OK, s', buffer, None)"
    using x(1) u(1) by (auto simp: h264_receive_stream_push_def carries_def Let_def)
  have c: "consecutive (?n + 1) (Q @ [?h])" using w'(3) sq by (simp add: consecutive_append)
  have "\<forall>y\<in>set (Q @ [?h]). rh_sequence_number y \<noteq> ?n"
    using consecutive_ahead [of ?n 1 "Q @ [?h]"] c w(2) by simp
  then have "reorder_find s' (rs_next_sequence_number s') = None" unfolding st(5) by (rule find_absent [OF st(2)])
  then have "h264_receive s buffer (x # xs) = h264_receive s' buffer xs" by (simp add: p drain_times_nothing) (cases "h264_receive s' buffer xs"; simp)
  moreover have "waiting ssrc b m r (Q @ [?h]) s'"
    using st c w'(5) u(2) w(2) unfolding A by (simp add: waiting_def source_ready_def)
  ultimately show ?thesis by blast
qed

primrec carry :: "u32 \<Rightarrow> nat \<Rightarrow> (bytes \<times> u32) list \<Rightarrow> bool" where
  "carry ssrc i [] \<longleftrightarrow> True"
| "carry ssrc i (x # xs) \<longleftrightarrow> carries ssrc i x \<and> carry ssrc (Suc i) xs"

lemma carry_append: "carry ssrc i (xs @ ys) \<longleftrightarrow> carry ssrc i xs \<and> carry ssrc (i + length xs) ys"
  by (induction xs arbitrary: i) simp_all

lemma overtaking:
  "waiting ssrc b m r Q s \<Longrightarrow> length Q + length xs \<le> 4 \<Longrightarrow> carry ssrc (m + 2 + length Q) xs \<Longrightarrow>
     \<forall>x\<in>set xs. rh_payload_len (header_of (fst x)) \<le> 2048 \<Longrightarrow>
     \<exists>s'. h264_receive s buffer (xs @ ys) = h264_receive s' buffer ys \<and> waiting ssrc b m r (Q @ map (header_of \<circ> fst) xs) s'"
proof (induction xs arbitrary: Q s)
  case (Cons x xs)
  then obtain s1 where a: "h264_receive s buffer (x # xs @ ys) = h264_receive s1 buffer (xs @ ys)" "waiting ssrc b m r (Q @ [header_of (fst x)]) s1"
    using overtaking_push [of ssrc b m r Q s x buffer "xs @ ys"] by auto
  from Cons.IH [OF a(2)] Cons.prems(2-4) a(1) show ?case by auto
qed auto

lemma accept_next:
  assumes q: "holding s Q" "consecutive (rs_next_sequence_number s + 1) Q" "length Q \<le> 4" "rh_sequence_number h = rs_next_sequence_number s"
    and r: "reassembles (rs_reassembler s) mem (h # Q) = Some (outs, fin)"
  shows "\<exists>res s' mem' nal Q' outs'. receive_accept s h (Some mem) = (res, s', Some mem', nal)
    \<and> ready s' mem' Q' outs' fin (rs_next_sequence_number s + 1 + word_of_nat (length Q)) \<and> res \<noteq> FRAME_ERROR
    \<and> outs = (if res = FRAME_OK then [the nal] else []) @ outs' \<and> rs_source s' = rs_source s"
proof -
  let ?e = "rs_next_sequence_number s + 1 + word_of_nat (length Q)"
  from reassembles_push [OF r] obtain res r1 mem1 nal outs1 where p: "h264_reassembler_push (rs_reassembler s) h (Some mem) = (res, r1, Some mem1, nal)"
    "res \<noteq> FRAME_ERROR" "reassembles r1 mem1 Q = Some (outs1, fin)" "outs = (if res = FRAME_OK then [the nal] else []) @ outs1" "res = FRAME_PARTIAL \<longrightarrow> nal = None" .
  from deliver_fields [OF p(1), of False] obtain s1 where d: "receive_deliver s h False (Some mem) = (res, s1, Some mem1, nal)" "rs_reassembler s1 = r1"
    "rs_reorder s1 = rs_reorder s" "rs_reorder_count s1 = rs_reorder_count s" "rs_has_next_sequence_number s1"
    "rs_next_sequence_number s1 = rh_sequence_number h + 1" "rs_source s1 = rs_source s" by blast
  have rd: "ready s1 mem1 Q outs1 fin ?e" using q p(3) d by (simp add: ready_def holding_def queued_def)
  have hn: "rs_has_next_sequence_number s" using q(1) by (simp add: holding_def)
  have a: "receive_accept s h (Some mem) = receive_drain s h (Some mem)" using hn q(4) by (simp add: receive_accept_def seq_forward_delta_def)
  show ?thesis
  proof (cases "res = FRAME_PARTIAL")
    case True
    from drain_loop_ready [OF rd] obtain res' s' mem' nal' Q' outs' where l: "drain_loop FRAME_PARTIAL s1 (Some mem1) None = (res', s', Some mem', nal')"
      "ready s' mem' Q' outs' fin ?e" "res' \<noteq> FRAME_ERROR" "outs1 = (if res' = FRAME_OK then [the nal'] else []) @ outs'" "rs_source s' = rs_source s1" by blast
    have "receive_accept s h (Some mem) = (res', s', Some mem', nal')" using a d(1) l(1,3) True p(5) by (simp add: receive_drain_def)
    with l d(7) p(4) True show ?thesis by auto
  next
    case False
    then have "drain_loop res s1 (Some mem1) nal = (res, s1, Some mem1, nal)" by (subst drain_loop.simps) simp
    then have "receive_accept s h (Some mem) = (res, s1, Some mem1, nal)" using a d(1) p(2) by (simp add: receive_drain_def)
    with rd p d(7) show ?thesis by blast
  qed
qed

text \<open>Between blocks of packets nothing is queued and every packet up to \<open>m\<close> has been delivered.\<close>

definition idle :: "u32 \<Rightarrow> nat \<Rightarrow> nat \<Rightarrow> h264_reassembler \<Rightarrow> bytes \<Rightarrow> h264_receive_stream \<Rightarrow> bool" where
  "idle ssrc b m r mem s \<longleftrightarrow> ready s mem [] [] (r, mem) (word_of_nat (m + 1)) \<and> b \<le> m \<and> source_ready ssrc b m {b..m} s"

lemma idle_waiting: "idle ssrc b m r mem s \<Longrightarrow> waiting ssrc b m r [] s"
  by (auto simp: idle_def waiting_def ready_def)

lemma next_received:
  assumes p: "h264_receive_stream_push s (Some (fst x)) (snd x) (Some mem) = Some (res, u, s1, Some mem1, nal)"
    and r: "ready s1 mem1 Q outs' fin (word_of_nat (m + 1))" "source_ready ssrc b m {b..m} s1" "b \<le> m"
    and o: "outs = (if res = FRAME_OK then [the nal] else []) @ outs'"
  shows "\<exists>s'. h264_receive s (Some mem) (x # ys) = map_option (\<lambda>(ms, z). (outs @ ms, z)) (h264_receive s' (Some (snd fin)) ys) \<and> idle ssrc b m (fst fin) (snd fin) s'"
proof -
  have "length Q \<le> 4" using r(1) by (simp add: ready_def)
  from drain_times_ready [OF r(1) this] obtain s' mem' where d: "drain_times 4 s1 (Some mem1) = (outs', s', Some mem')"
    "ready s' mem' [] [] fin (word_of_nat (m + 1))" "rs_source s' = rs_source s1" by blast
  from ready_empty [OF d(2)] have f: "fin = (rs_reassembler s', mem')" by blast
  have "idle ssrc b m (fst fin) (snd fin) s'" using d(2,3) r(2,3) f by (simp add: idle_def source_ready_def)
  moreover have "h264_receive s (Some mem) (x # ys) = map_option (\<lambda>(ms, z). (outs @ ms, z)) (h264_receive s' (Some (snd fin)) ys)"
    using p d(1) f o by (cases "h264_receive s' (Some mem') ys") auto
  ultimately show ?thesis by blast
qed

lemma overtaken_push:
  assumes w: "waiting ssrc b m r Q s" and x: "carries ssrc (m + 1) x" and a: "reassembles r mem (header_of (fst x) # Q) = Some (outs, fin)"
  shows "\<exists>s'. h264_receive s (Some mem) (x # ys) = map_option (\<lambda>(ms, z). (outs @ ms, z)) (h264_receive s' (Some (snd fin)) ys)
    \<and> idle ssrc b (m + 1 + length Q) (fst fin) (snd fin) s'"
proof -
  let ?h = "header_of (fst x)" and ?n = "word_of_nat (m + 1) :: u16"
  let ?m = "if Q = [] then m else m + 1 + length Q" and ?A = "{b..m} \<union> {m + 2..m + 1 + length Q}"
  have w': "holding s Q" "rs_next_sequence_number s = ?n" "consecutive (?n + 1) Q" "length Q \<le> 4" "rs_reassembler s = r" "b \<le> m" "source_ready ssrc b ?m ?A s"
    using w by (simp_all add: waiting_def)
  have bounds: "m + 1 < ?m + 32768" "?m < m + 1 + 32768" using w'(4) by auto
  have res: "arrival_result ?m ?A (m + 1) = (if Q = [] then UPDATE_OK else UPDATE_LATE_OR_OUT_OF_ORDER)" by (auto simp: arrival_result_def)
  have mx: "max ?m (m + 1) = m + 1 + length Q" by auto
  have A: "insert (m + 1) ?A = {b..m + 1 + length Q}" using w'(6) by auto
  from source_push [OF w'(7) x bounds] obtain source where u: "rtsp_source_update_ex (rs_source s) ?h (snd x) = Some (arrival_result ?m ?A (m + 1), source)"
    "source_ready ssrc b (m + 1 + length Q) {b..m + 1 + length Q} (s\<lparr>rs_source := source\<rparr>)" unfolding mx A by blast
  let ?s = "s\<lparr>rs_source := source\<rparr>"
  have hs: "holding ?s Q" "consecutive (rs_next_sequence_number ?s + 1) Q" "rh_sequence_number ?h = rs_next_sequence_number ?s"
    "reassembles (rs_reassembler ?s) mem (?h # Q) = Some (outs, fin)" "rs_has_next_sequence_number ?s"
    using w' x a by (simp_all add: holding_def queued_def carries_def arrives_as_def)
  from accept_next [OF hs(1,2) w'(4) hs(3,4)] obtain res s' mem' nal Q' outs' where d: "receive_accept ?s ?h (Some mem) = (res, s', Some mem', nal)"
    "ready s' mem' Q' outs' fin (rs_next_sequence_number ?s + 1 + word_of_nat (length Q))"
    "outs = (if res = FRAME_OK then [the nal] else []) @ outs'" "rs_source s' = source" by auto
  have p: "h264_receive_stream_push s (Some (fst x)) (snd x) (Some mem) = Some (res, arrival_result ?m ?A (m + 1), s', Some mem', nal)"
    using x u(1) d(1) hs(3,5) unfolding res by (auto simp: h264_receive_stream_push_def carries_def Let_def)
  have e: "rs_next_sequence_number ?s + 1 + word_of_nat (length Q) = word_of_nat (m + 1 + length Q + 1)" using w'(2) by simp
  have rd: "ready s' mem' Q' outs' fin (word_of_nat (m + 1 + length Q + 1))" using d(2) by (simp only: e)
  have sr: "source_ready ssrc b (m + 1 + length Q) {b..m + 1 + length Q} s'" using u(2) d(4) by (simp add: source_ready_def)
  from next_received [OF p rd sr _ d(3)] w'(6) show ?thesis by simp
qed

lemma reassembles_split:
  "reassembles r mem (hs @ hs') = Some (outs, fin) \<Longrightarrow> \<exists>o1 r1 mem1 o2. reassembles r mem hs = Some (o1, r1, mem1) \<and> reassembles r1 mem1 hs' = Some (o2, fin) \<and> outs = o1 @ o2"
proof (induction hs arbitrary: r mem outs)
  case (Cons h hs)
  from Cons.prems have "reassembles r mem (h # hs @ hs') = Some (outs, fin)" by simp
  from reassembles_push [OF this] obtain res r' mem' nal outs' where p: "h264_reassembler_push r h (Some mem) = (res, r', Some mem', nal)" "res \<noteq> FRAME_ERROR"
    "reassembles r' mem' (hs @ hs') = Some (outs', fin)" "outs = (if res = FRAME_OK then [the nal] else []) @ outs'" "res = FRAME_PARTIAL \<longrightarrow> nal = None" .
  from Cons.IH [OF p(3)] obtain o1 r1 mem1 o2 where i: "reassembles r' mem' hs = Some (o1, r1, mem1)" "reassembles r1 mem1 hs' = Some (o2, fin)" "outs' = o1 @ o2" by blast
  have "reassembles r mem (h # hs) = Some ((if res = FRAME_OK then [the nal] else []) @ o1, r1, mem1)"
    using Cons.prems p(1,2,5) i(1) by (cases res; cases nal) auto
  with i p(4) show ?case by auto
qed simp

section \<open>Schedules\<close>

text \<open>The network delivers the packets in blocks: of each block the first packet comes last, so that it is overtaken by up to four others.\<close>

definition delayed :: "'a list \<Rightarrow> 'a list" where
  "delayed block = tl block @ [hd block]"

definition block_ok :: "(bytes \<times> u32) list \<Rightarrow> bool" where
  "block_ok block \<longleftrightarrow> block \<noteq> [] \<and> length block \<le> 5 \<and> (\<forall>x\<in>set (tl block). rh_payload_len (header_of (fst x)) \<le> 2048)"

lemma block_received:
  assumes i: "idle ssrc b m r mem s" and b: "block_ok block" "carry ssrc (m + 1) block"
    and a: "reassembles r mem (map (header_of \<circ> fst) block) = Some (outs, fin)"
  shows "\<exists>s'. h264_receive s (Some mem) (delayed block @ ys) = map_option (\<lambda>(ms, z). (outs @ ms, z)) (h264_receive s' (Some (snd fin)) ys)
    \<and> idle ssrc b (m + length block) (fst fin) (snd fin) s'"
proof -
  obtain x xs where block: "block = x # xs" using b(1) by (cases block) (auto simp: block_ok_def)
  have l: "length ([] :: rtsp_header list) + length xs \<le> 4" using b(1) block by (simp add: block_ok_def)
  have "\<forall>x\<in>set xs. rh_payload_len (header_of (fst x)) \<le> 2048" "carry ssrc (m + 2 + length ([] :: rtsp_header list)) xs"
    using b block by (simp_all add: block_ok_def)
  with overtaking [OF idle_waiting [OF i] l] obtain s1 where
    o: "h264_receive s (Some mem) (xs @ x # ys) = h264_receive s1 (Some mem) (x # ys)" "waiting ssrc b m r (map (header_of \<circ> fst) xs) s1" by fastforce
  have "carries ssrc (m + 1) x" using b(2) block by simp
  from overtaken_push [OF o(2) this] a block o(1) show ?thesis by (simp add: delayed_def)
qed

lemma blocks_received:
  "idle ssrc b m r mem s \<Longrightarrow> list_all block_ok blocks \<Longrightarrow> carry ssrc (m + 1) (concat blocks) \<Longrightarrow>
     reassembles r mem (map (header_of \<circ> fst) (concat blocks)) = Some (outs, fin) \<Longrightarrow>
     \<exists>s' buffer'. h264_receive s (Some mem) (concat (map delayed blocks)) = Some (outs, s', buffer')"
proof (induction blocks arbitrary: m r mem s outs)
  case (Cons block blocks)
  from Cons.prems(4) have "reassembles r mem (map (header_of \<circ> fst) block @ map (header_of \<circ> fst) (concat blocks)) = Some (outs, fin)" by (simp only: concat.simps map_append)
  from reassembles_split [OF this] obtain o1 r1 mem1 o2 where a: "reassembles r mem (map (header_of \<circ> fst) block) = Some (o1, r1, mem1)"
    "reassembles r1 mem1 (map (header_of \<circ> fst) (concat blocks)) = Some (o2, fin)" "outs = o1 @ o2" by blast
  have c: "carry ssrc (m + 1) block" "carry ssrc (m + length block + 1) (concat blocks)" using Cons.prems(3) by (simp_all add: carry_append)
  from Cons.prems(2) block_received [OF Cons.prems(1) _ c(1) a(1), of "concat (map delayed blocks)"] obtain s1 where
    s1: "h264_receive s (Some mem) (delayed block @ concat (map delayed blocks)) = map_option (\<lambda>(ms, z). (o1 @ ms, z)) (h264_receive s1 (Some mem1) (concat (map delayed blocks)))"
    "idle ssrc b (m + length block) r1 mem1 s1" by auto
  from Cons.IH [OF s1(2) _ c(2) a(2)] Cons.prems(2) obtain s' buffer' where "h264_receive s1 (Some mem1) (concat (map delayed blocks)) = Some (o2, s', buffer')" by auto
  with s1(1) a(3) show ?case by auto
qed simp

lemma first_received:
  assumes x: "carries ssrc b x" "b < 65536" "known = 0 \<or> known = ssrc" and a: "reassembles h264_reassembler_init mem [header_of (fst x)] = Some (outs, fin)"
  shows "\<exists>s'. h264_receive (h264_receive_stream_init known) (Some mem) (x # ys)
      = map_option (\<lambda>(ms, z). (outs @ ms, z)) (h264_receive s' (Some (snd fin)) ys) \<and> idle ssrc b b (fst fin) (snd fin) s'"
proof -
  let ?h = "header_of (fst x)" and ?start = "h264_receive_stream_init known"
  from first_arrival [of ssrc b "(?h, snd x)" known] x obtain source where u: "rtsp_source_update_ex (rtsp_source_init known) ?h (snd x) = Some (UPDATE_OK, source)"
    "source_at source b b {b}" "so_ssrc source = ssrc" "small_transit (so_transit source)" by (auto simp: carries_def)
  let ?s = "?start\<lparr>rs_source := source, rs_has_next_sequence_number := True, rs_next_sequence_number := rh_sequence_number ?h\<rparr>"
  have sq: "rh_sequence_number ?h = word_of_nat b" using x(1) by (simp add: carries_def arrives_as_def)
  have h: "holding ?s []" by (simp add: holding_def queued_def h264_receive_stream_init_def map_filter_simps numeral_eq_Suc)
  have e: "receive_accept (?start\<lparr>rs_source := source\<rparr>) ?h (Some mem) = receive_accept ?s ?h (Some mem)"
    by (simp add: receive_accept_def h264_receive_stream_init_def)
  have "reassembles (rs_reassembler ?s) mem [?h] = Some (outs, fin)" using a by (simp add: h264_receive_stream_init_def)
  with accept_next [OF h, of ?h mem outs fin] obtain res s' mem' nal Q' outs' where d: "receive_accept ?s ?h (Some mem) = (res, s', Some mem', nal)"
    "ready s' mem' Q' outs' fin (rs_next_sequence_number ?s + 1 + word_of_nat (length ([] :: rtsp_header list)))"
    "outs = (if res = FRAME_OK then [the nal] else []) @ outs'" "rs_source s' = rs_source ?s"
    by (simp del: reassembles.simps) blast
  have n: "rs_next_sequence_number ?s + 1 + word_of_nat (length ([] :: rtsp_header list)) = word_of_nat (b + 1)" by (simp add: sq)
  have rd: "ready s' mem' Q' outs' fin (word_of_nat (b + 1))" using d(2) by (simp only: n)
  have p: "h264_receive_stream_push ?start (Some (fst x)) (snd x) (Some mem) = Some (res, UPDATE_OK, s', Some mem', nal)"
  proof -
    obtain l where l: "rtsp_rtp_parse_header (Some (fst x)) = Some (?h, l)" using x(1) by (auto simp: carries_def)
    have "rs_source ?start = rtsp_source_init known" by (simp add: h264_receive_stream_init_def)
    then show ?thesis unfolding h264_receive_stream_push_def l using u(1) d(1) [folded e] by simp
  qed
  have "source_ready ssrc b b {b..b} s'" using u d(4) by (simp add: source_ready_def)
  from next_received [OF p rd this _ d(3)] show ?thesis by simp
qed

section \<open>Numbered packets\<close>

primrec sequenced :: "u32 \<Rightarrow> u16 \<Rightarrow> bytes list \<Rightarrow> bool" where
  "sequenced ssrc q [] \<longleftrightarrow> True"
| "sequenced ssrc q (p # ps) \<longleftrightarrow> (\<exists>st m d. stream_ok st \<and> p = packet_of st m d \<and> st_ssrc st = ssrc \<and> st_sequence_number st = q) \<and> sequenced ssrc (q + 1) ps"

lemma sequenced_append: "sequenced ssrc q (ps @ qs) \<longleftrightarrow> sequenced ssrc q ps \<and> sequenced ssrc (q + word_of_nat (length ps)) qs"
  by (induction ps arbitrary: q) (auto simp: add.assoc)

lemma stream_sequenced: "stream_ok st \<Longrightarrow> sequenced (st_ssrc st) (st_sequence_number st) (stream_packets st marker ds)"
proof (induction ds arbitrary: st)
  case (Cons d ds)
  from Cons.IH [of "sent st d"] sent_ok [OF Cons.prems] Cons.prems show ?case by auto
qed simp

lemma stream_packets_length [simp]: "length (stream_packets st marker ds) = length ds"
  by (induction ds arbitrary: st) simp_all

lemma after_write_fields [simp]:
  "st_ssrc (after_write st w) = st_ssrc st"
  "st_sequence_number (after_write st w) = st_sequence_number st + word_of_nat (length (nal_payloads (wr_nal w) (wr_max_payload w)))"
  by (simp_all add: after_write_def fold_sent)

lemma written_sequenced: "stream_ok st \<Longrightarrow> sequenced (st_ssrc st) (st_sequence_number st) (written_packets st ws)"
proof (induction ws arbitrary: st)
  case (Cons w ws)
  from Cons.IH [OF after_write_ok [OF Cons.prems], of w] stream_sequenced [OF Cons.prems] show ?case by (simp add: sequenced_append)
qed simp

definition timely :: "bytes \<times> u32 \<Rightarrow> bool" where
  "timely x \<longleftrightarrow> small_transit (sint (snd x - rh_timestamp (header_of (fst x))))"

lemma sequenced_carry:
  "sequenced ssrc (word_of_nat i) (map fst xs) \<Longrightarrow> list_all timely xs \<Longrightarrow> i + length xs \<le> 2147483647 \<Longrightarrow> carry ssrc i xs"
proof (induction xs arbitrary: i)
  case (Cons x xs)
  from Cons.prems(1) obtain st m d where p: "stream_ok st" "fst x = packet_of st m d" "st_ssrc st = ssrc" "st_sequence_number st = word_of_nat i" by auto
  have "carries ssrc i x" using packet_parsed [OF p(1), of m d] p Cons.prems(2,3) by (auto simp: carries_def arrives_as_def timely_def)
  moreover have "sequenced ssrc (word_of_nat (Suc i)) (map fst xs)" using Cons.prems(1) by (simp add: add.commute)
  ultimately show ?case using Cons.IH [of "Suc i"] Cons.prems by simp
qed simp

primrec send_nals :: "rtsp_stream \<Rightarrow> h264_write list \<Rightarrow> (bytes list \<times> rtsp_stream) option" where
  "send_nals st [] = Some ([], st)"
| "send_nals st (w # ws) =
     (case write_nal st w of
        None \<Rightarrow> None
      | Some (ps, st') \<Rightarrow> map_option (\<lambda>(qs, z). (ps @ qs, z)) (send_nals st' ws))"

lemma nals_sent: "stream_ok st \<Longrightarrow> list_all write_ok ws \<Longrightarrow> \<exists>st'. send_nals st ws = Some (written_packets st ws, st')"
proof (induction ws arbitrary: st)
  case (Cons w ws)
  from Cons.IH [OF after_write_ok [OF Cons.prems(1)], of w] Cons.prems obtain st' where "send_nals (after_write st w) ws = Some (written_packets (after_write st w) ws, st')" by auto
  then show ?case using nal_written [OF Cons.prems(1), of w] Cons.prems(2) by simp
qed simp

lemma stream_member:
  "stream_ok st \<Longrightarrow> p \<in> set (stream_packets st marker ds) \<Longrightarrow> \<exists>st' m d. d \<in> set ds \<and> stream_ok st' \<and> p = packet_of st' m d \<and> st_timestamp st' = st_timestamp st"
proof (induction ds arbitrary: st)
  case (Cons e ds)
  show ?case
  proof (cases "p = packet_of st (ds = [] \<and> marker) e")
    case True
    then show ?thesis using Cons.prems(1) by (metis list.set_intros(1))
  next
    case False
    then have "p \<in> set (stream_packets (sent st e) marker ds)" using Cons.prems(2) by simp
    from Cons.IH [OF sent_ok [OF Cons.prems(1)] this] show ?thesis by auto
  qed
qed simp

lemma payload_bound: "write_ok w \<Longrightarrow> d \<in> set (nal_payloads (wr_nal w) (wr_max_payload w)) \<Longrightarrow> length d \<le> wr_max_payload w"
  using fragments_bound [of "wr_max_payload w" "wr_nal w" 1] by (auto simp: write_ok_def nal_payloads_def split: if_splits)

lemma written_member:
  "stream_ok st \<Longrightarrow> list_all write_ok ws \<Longrightarrow> p \<in> set (written_packets st ws) \<Longrightarrow>
     \<exists>w st' m d. w \<in> set ws \<and> stream_ok st' \<and> p = packet_of st' m d \<and> length d \<le> wr_max_payload w
       \<and> ((\<forall>w\<in>set ws. wr_increment w = 0) \<longrightarrow> st_timestamp st' = st_timestamp st)"
proof (induction ws arbitrary: st)
  case (Cons w ws)
  show ?case
  proof (cases "p \<in> set (stream_packets st (wr_marker w) (nal_payloads (wr_nal w) (wr_max_payload w)))")
    case True
    from stream_member [OF Cons.prems(1) this] payload_bound [of w] Cons.prems(2) show ?thesis by (metis list.set_intros(1) list.pred_inject(2))
  next
    case False
    then have "p \<in> set (written_packets (after_write st w) ws)" using Cons.prems(3) by simp
    with Cons.IH [OF after_write_ok [OF Cons.prems(1)]] Cons.prems(2) obtain w' st' m d where "w' \<in> set ws" "stream_ok st'" "p = packet_of st' m d"
      "length d \<le> wr_max_payload w'" "(\<forall>w\<in>set ws. wr_increment w = 0) \<longrightarrow> st_timestamp st' = st_timestamp (after_write st w)" by fastforce
    then show ?thesis by (intro exI [of _ w'] exI [of _ st'] exI [of _ m] exI [of _ d]) (simp add: after_write_def)
  qed
qed simp

definition sample_writes :: "h264_write list" where
  "sample_writes = [\<lparr>wr_nal = [0x65, 1, 2, 3], wr_marker = True, wr_increment = 0, wr_max_payload = 3, wr_memory = replicate 60 0, wr_packet_size = 15,
      wr_scratch = replicate 3 0, wr_capacity = 4\<rparr>,
     \<lparr>wr_nal = [0x41, 9], wr_marker = True, wr_increment = 0, wr_max_payload = 3, wr_memory = replicate 60 0, wr_packet_size = 15,
      wr_scratch = replicate 3 0, wr_capacity = 4\<rparr>]"

section \<open>Properties\<close>

text \<open>C11. Video arrives as it was sent.  Write any sequence of NAL units to a stream, each with enough room for its packets: every write succeeds.  Let the packets reach
  a fresh receive stream in order, except that any packet but the very first may be overtaken by up to four packets of at most 2048 bytes of payload; let the
  arrival times stay within \<open>2\<^sup>3\<^sup>0\<close> clock units of the timestamps; and let the client ask four times for queued packets after each packet.  Then it
  is handed exactly the NAL units that were written, whole, in order, across every wrap-around of the sequence numbers.\<close>

theorem h264_stream_delivers:
  assumes "stream_ok st" "list_all write_ok ws" "\<forall>w\<in>set ws. length (wr_nal w) \<le> length buffer" "known = 0 \<or> known = st_ssrc st"
  shows "\<exists>packets st'. send_nals st ws = Some (packets, st')
    \<and> (\<forall>blocks. map fst (concat blocks) = packets \<and> list_all block_ok blocks \<and> (blocks \<noteq> [] \<longrightarrow> length (hd blocks) = 1)
         \<and> list_all timely (concat blocks) \<and> length packets < 2147418112 \<longrightarrow>
         (\<exists>s b. h264_receive (h264_receive_stream_init known) (Some buffer) (concat (map delayed blocks)) = Some (map wr_nal ws, s, b)))"
proof -
  from nals_sent [OF assms(1,2)] obtain st' where sent: "send_nals st ws = Some (written_packets st ws, st')" by blast
  have "\<exists>s b. h264_receive (h264_receive_stream_init known) (Some buffer) (concat (map delayed blocks)) = Some (map wr_nal ws, s, b)"
    if b: "map fst (concat blocks) = written_packets st ws" "list_all block_ok blocks" "blocks \<noteq> [] \<longrightarrow> length (hd blocks) = 1"
      "list_all timely (concat blocks)" "length (written_packets st ws) < 2147418112" for blocks
  proof -
    define n where "n = unat (st_sequence_number st)"
    have nb: "n < 65536" "word_of_nat n = st_sequence_number st" using unat_less_exp [of "st_sequence_number st"] by (simp_all add: n_def)
    have "length (concat blocks) = length (written_packets st ws)" using b(1) by (metis length_map)
    then have c: "carry (st_ssrc st) n (concat blocks)"
      using sequenced_carry [of "st_ssrc st" n "concat blocks"] written_sequenced [OF assms(1), of ws] nb b by simp
    obtain r' mem' where r: "reassembles h264_reassembler_init buffer (map (header_of \<circ> fst) (concat blocks)) = Some (map wr_nal ws, r', mem')"
      using stream_reassembled [OF assms(2,1) _ assms(3), of h264_reassembler_init] unfolding b(1) [symmetric] map_map by (auto simp: h264_reassembler_init_def)
    show ?thesis
    proof (cases blocks)
      case Nil
      with r show ?thesis by simp
    next
      case (Cons block rest)
      then obtain x where x: "block = [x]" using b(3) by (auto simp: length_Suc_conv)
      from r Cons x have "reassembles h264_reassembler_init buffer ([header_of (fst x)] @ map (header_of \<circ> fst) (concat rest)) = Some (map wr_nal ws, r', mem')"
        by (simp only: concat.simps map_append list.map comp_def)
      from reassembles_split [OF this] obtain o1 r1 mem1 o2 where a: "reassembles h264_reassembler_init buffer [header_of (fst x)] = Some (o1, r1, mem1)"
        "reassembles r1 mem1 (map (header_of \<circ> fst) (concat rest)) = Some (o2, r', mem')" "map wr_nal ws = o1 @ o2" by blast
      have cx: "carries (st_ssrc st) n x" "carry (st_ssrc st) (n + 1) (concat rest)" using c Cons x by simp_all
      from first_received [OF cx(1) nb(1) assms(4) a(1), of "concat (map delayed rest)"] obtain s1 where s1:
        "h264_receive (h264_receive_stream_init known) (Some buffer) (x # concat (map delayed rest))
           = map_option (\<lambda>(ms, z). (o1 @ ms, z)) (h264_receive s1 (Some mem1) (concat (map delayed rest)))"
        "idle (st_ssrc st) n n r1 mem1 s1" by auto
      from blocks_received [OF s1(2) _ cx(2) a(2)] b(2) Cons obtain s' buffer' where "h264_receive s1 (Some mem1) (concat (map delayed rest)) = Some (o2, s', buffer')"
        by auto
      with s1(1) a(3) Cons x show ?thesis by (simp add: delayed_def)
    qed
  qed
  with sent show ?thesis by blast
qed

lemma h264_stream_delivers_witness:
  "\<exists>a b c d st' s buffer'. send_nals (rtsp_stream_init 96 7 65535 0 90000) sample_writes = Some ([a, b, c, d], st')
     \<and> h264_receive (h264_receive_stream_init 0) (Some (replicate 8 0)) [(a, 0), (c, 0), (d, 0), (b, 0)] = Some ([[0x65, 1, 2, 3], [0x41, 9]], s, buffer')"
proof -
  let ?st = "rtsp_stream_init 96 7 65535 0 90000"
  have st: "stream_ok ?st" by (simp add: stream_ok_def rtsp_stream_init_def rtsp_sender_init_def)
  have f: "length (nal_payloads [0x65, 1, 2, 3] 3) = 3" "nal_payloads [0x41, 9] 3 = [[0x41, 9]]"
    using fragments_count [of 3 "[0x65, 1, 2, 3]" 1] by (simp_all add: nal_payloads_def)
  have ok: "list_all write_ok sample_writes"
    by (simp add: sample_writes_def write_ok_def f nal_ok_def h264_nal_type_def h264_is_single_nal_type_def SIZE_MAX_def)
  from nals_sent [OF st ok] obtain st' where sent: "send_nals ?st sample_writes = Some (written_packets ?st sample_writes, st')" by blast
  have "length (written_packets ?st sample_writes) = 4" by (simp add: sample_writes_def f)
  then obtain a b c d where w: "written_packets ?st sample_writes = [a, b, c, d]" by (auto simp: length_Suc_conv numeral_eq_Suc)
  let ?blocks = "[[(a, 0)], [(b, 0), (c, 0), (d, 0)]] :: (bytes \<times> u32) list list"
  have h: "rh_timestamp (header_of p) = 0 \<and> rh_payload_len (header_of p) \<le> 3" if "p \<in> {a, b, c, d}" for p
  proof -
    have "p \<in> set (written_packets ?st sample_writes)" using that w by auto
    from written_member [OF st ok this] obtain w' st2 m d' where q: "w' \<in> set sample_writes" "stream_ok st2" "p = packet_of st2 m d'"
      "length d' \<le> wr_max_payload w'" "(\<forall>w\<in>set sample_writes. wr_increment w = 0) \<longrightarrow> st_timestamp st2 = st_timestamp ?st" by blast
    from q(1,4,5) have "st_timestamp st2 = 0" "length d' \<le> 3" by (auto simp: sample_writes_def rtsp_stream_init_def)
    with packet_parsed(3,5) [OF q(2), of m d'] show ?thesis unfolding q(3) by simp
  qed
  from h [of a] h [of b] h [of c] h [of d]
  have bl: "list_all block_ok ?blocks" "list_all timely (concat ?blocks)" by (simp_all add: block_ok_def timely_def small_transit_def)
  have m: "map fst (concat ?blocks) = [a, b, c, d]" by simp
  have ln: "\<forall>w\<in>set sample_writes. length (wr_nal w) \<le> length (replicate 8 0 :: bytes)" by (simp add: sample_writes_def)
  have "(0 :: u32) = 0 \<or> 0 = st_ssrc ?st" by simp
  from h264_stream_delivers [OF st ok ln this] obtain packets st2 where t: "send_nals ?st sample_writes = Some (packets, st2)"
    "\<forall>blocks. map fst (concat blocks) = packets \<and> list_all block_ok blocks \<and> (blocks \<noteq> [] \<longrightarrow> length (hd blocks) = 1)
         \<and> list_all timely (concat blocks) \<and> length packets < 2147418112 \<longrightarrow>
         (\<exists>s b. h264_receive (h264_receive_stream_init 0) (Some (replicate 8 0)) (concat (map delayed blocks)) = Some (map wr_nal sample_writes, s, b))" by blast
  have "packets = [a, b, c, d]" using t(1) sent w by simp
  with t(2) [rule_format, of ?blocks] m bl have "\<exists>s b'. h264_receive (h264_receive_stream_init 0) (Some (replicate 8 0)) (concat (map delayed ?blocks)) = Some (map wr_nal sample_writes, s, b')"
    by (simp del: h264_receive.simps)
  moreover have "concat (map delayed ?blocks) = [(a, 0), (c, 0), (d, 0), (b, 0)]" "map wr_nal sample_writes = [[0x65, 1, 2, 3], [0x41, 9]]"
    by (simp_all add: delayed_def sample_writes_def)
  ultimately show ?thesis using sent w by (simp del: h264_receive.simps)
qed

text \<open>A packet that comes late but is not the very next one is dropped, although it lies in the window and the queue has room: of three packets that arrive in reverse order
  the middle one is lost.\<close>

lemma h264_late_packet_dropped:
  assumes "source_ready ssrc b m A s" "carries ssrc i x" "i < m" "m < i + 32768" "i \<notin> A" "rs_next_sequence_number s \<noteq> word_of_nat i"
  shows "\<exists>source. h264_receive_stream_push s (Some (fst x)) (snd x) buffer
    = Some (FRAME_PARTIAL, UPDATE_LATE_OR_OUT_OF_ORDER, s\<lparr>rs_source := source\<rparr>, buffer, None)"
proof -
  have "arrival_result m A i = UPDATE_LATE_OR_OUT_OF_ORDER" using assms(3,5) by (simp add: arrival_result_def)
  with source_push [OF assms(1,2)] assms(3,4) obtain source where
    "rtsp_source_update_ex (rs_source s) (header_of (fst x)) (snd x) = Some (UPDATE_LATE_OR_OUT_OF_ORDER, source)" by auto
  with assms(2,6) show ?thesis by (auto simp: h264_receive_stream_push_def carries_def arrives_as_def)
qed

end
