(* ===== verification/Rtsp_H264_Safety.thy ===== *)
theory Rtsp_H264_Safety
  imports Rtsp_H264_Stream
begin

text \<open>
  The H.264 receive stream under arbitrary input: any packets, well formed or not, in any order, with any arrival times, mixed with requests for queued
  packets and resets.  The run is an \<open>emitter\<close> of the prelude, with the NAL units handed out as its outputs.
\<close>

unbundle bit_operations_syntax

section \<open>Invariant\<close>

definition nal_byte_ok :: "u8 \<Rightarrow> bool" where
  "nal_byte_ok a \<longleftrightarrow> drop_bit 7 a = 0 \<and> h264_is_single_nal_type (h264_nal_type a)"

text \<open>A NAL unit in progress lies in the buffer and begins with the header byte the reassembler remembers.\<close>

definition asm_inv :: "h264_reassembler \<Rightarrow> bytes \<Rightarrow> bool" where
  "asm_inv r mem \<longleftrightarrow> (ra_started r \<longrightarrow> 1 \<le> ra_nal_len r \<and> ra_nal_len r \<le> length mem \<and> mem ! 0 = ra_reconstructed_nal_header r
     \<and> nal_byte_ok (ra_reconstructed_nal_header r))"

definition queue_inv :: "h264_receive_stream \<Rightarrow> bool" where
  "queue_inv s \<longleftrightarrow> length (rs_reorder s) = 4 \<and> rs_reorder_count s = occupied s \<and> length (rs_reorder_output_payload s) = 2048
     \<and> (\<forall>h. Some h \<in> set (rs_reorder s) \<longrightarrow> rh_payload_len h \<le> 2048 \<and> (\<forall>d. rh_payload h = Some d \<longrightarrow> length d \<le> 2048))"

definition rx_inv :: "nat \<Rightarrow> h264_receive_stream \<times> bytes \<Rightarrow> bool" where
  "rx_inv n x \<longleftrightarrow> length (snd x) = n \<and> queue_inv (fst x) \<and> asm_inv (rs_reassembler (fst x)) (snd x)"

datatype rx_op = Push_Packet "bytes option" u32 | Drain_Queued | Reset_Stream u32

definition rx_step :: "rx_op \<Rightarrow> h264_receive_stream \<times> bytes \<Rightarrow> ((h264_receive_stream \<times> bytes) \<times> bytes list) option" where
  "rx_step op x =
     (case op of
        Push_Packet p t \<Rightarrow> map_option (\<lambda>(res, u, s', b', nal). ((s', the b'), if res = FRAME_OK then [the nal] else []))
                             (h264_receive_stream_push (fst x) p t (Some (snd x)))
      | Drain_Queued \<Rightarrow> (case h264_receive_stream_drain_queued (fst x) (Some (snd x)) of
                           (res, s', b', nal) \<Rightarrow> Some ((s', the b'), if res = FRAME_OK then [the nal] else []))
      | Reset_Stream ssrc \<Rightarrow> Some ((h264_receive_stream_reset (fst x) ssrc, snd x), []))"

section \<open>Reassembly of arbitrary payloads\<close>

lemma joined_header_bits:
  fixes a f :: u8
  shows "((a AND 0xE0) OR (f AND 31)) AND 31 = f AND 31" "drop_bit 7 ((a AND 0xE0) OR (f AND 31)) = drop_bit 7 a"
  by (rule byte_eqI; auto simp: bit_and_iff bit_or_iff bit_drop_bit_eq bit_0 no_ninth_bit)+

lemma parse_shape:
  assumes "h264_payload_parse b = Some p"
  shows "(hp_kind p = SINGLE_NAL \<longrightarrow> (\<exists>nal. hp_nal p = Some nal \<and> nal_ok nal \<and> b = Some nal))
    \<and> (hp_kind p = FU_A \<longrightarrow> (\<exists>d. hp_fu_payload p = Some d) \<and> nal_byte_ok (hp_reconstructed_nal_header p))"
proof -
  from assms obtain b' where b: "b = Some b'" "b' \<noteq> []" by (cases b) (auto simp: h264_payload_parse_def split: if_splits)
  note j = joined_header_bits [of "b' ! 0" "b' ! 1"]
  show ?thesis using assms b j
    by (auto simp: h264_payload_parse_def h264_common_def Let_def nal_ok_def nal_byte_ok_def h264_nal_type_def split: if_splits)
qed

lemma nal_ok_take: "nal_byte_ok (mem ! 0) \<Longrightarrow> 1 \<le> n \<Longrightarrow> n \<le> length mem \<Longrightarrow> nal_ok (take n mem)"
  by (cases mem) (auto simp: nal_ok_def nal_byte_ok_def nth_append)

lemma write_behind: "0 < off \<Longrightarrow> off + length d \<le> length mem \<Longrightarrow> mem_write mem off d ! 0 = mem ! 0 \<and> length (mem_write mem off d) = length mem"
  by (cases mem) (auto simp: mem_write_def take_Cons' nth_append)

definition asm_result :: "nat \<Rightarrow> frame_result \<times> h264_reassembler \<times> bytes option \<times> bytes option \<Rightarrow> bool" where
  "asm_result n y \<longleftrightarrow> (case y of (res, r', b', nal) \<Rightarrow>
     \<exists>mem'. b' = Some mem' \<and> length mem' = n \<and> asm_inv r' mem' \<and> (res = FRAME_OK \<longrightarrow> (\<exists>x. nal = Some x \<and> nal_ok x)))"

lemma asm_init: "asm_inv h264_reassembler_init m"
  by (simp add: asm_inv_def h264_reassembler_init_def)

lemma start_safe:
  assumes "hp_fu_payload p = Some d" "nal_byte_ok (hp_reconstructed_nal_header p)"
  shows "asm_result (length mem) (reassemble_start r h p (Some mem))"
proof -
  let ?m = "mem_write mem 0 [hp_reconstructed_nal_header p]"
  have m: "length ?m = length mem" "?m ! 0 = hp_reconstructed_nal_header p" if "mem \<noteq> []"
    using that by (cases mem; simp add: mem_write_def)+
  show ?thesis
  proof (cases "\<not> ra_started r \<and> length d < length mem")
    case True
    then have l: "mem \<noteq> []" "length d \<le> length mem - 1" by auto
    with m write_behind [of 1 d ?m] True have w: "mem_write ?m 1 d ! 0 = hp_reconstructed_nal_header p" "length (mem_write ?m 1 d) = length mem" by simp_all
    have "reassemble_start r h p (Some mem) = (FRAME_PARTIAL, \<lparr>ra_ssrc = rh_ssrc h, ra_timestamp = rh_timestamp h,
        ra_next_sequence_number = rh_sequence_number h + 1, ra_fu_nal_unit_type = hp_fu_nal_unit_type p,
        ra_reconstructed_nal_header = hp_reconstructed_nal_header p, ra_nal_len = 1 + length d, ra_started = True\<rparr>, Some (mem_write ?m 1 d), None)"
      using True l m by (auto simp: reassemble_start_def h264_reassembler_append_def assms(1))
    with w assms(2) True show ?thesis by (simp add: asm_inv_def asm_result_def)
  next
    case False
    then show ?thesis using m asm_init by (cases mem) (auto simp: reassemble_start_def h264_reassembler_append_def assms(1) asm_result_def)
  qed
qed

lemma continue_safe:
  assumes "asm_inv r mem" "hp_fu_payload p = Some d"
  shows "asm_result (length mem) (reassemble_continue r h p (Some mem))"
proof (cases "ra_started r \<and> length d \<le> length mem - ra_nal_len r")
  case True
  then have r: "1 \<le> ra_nal_len r" "ra_nal_len r \<le> length mem" "mem ! 0 = ra_reconstructed_nal_header r" "nal_byte_ok (ra_reconstructed_nal_header r)"
    using assms(1) by (auto simp: asm_inv_def)
  have le: "ra_nal_len r + length d \<le> length mem" using True r(2) by auto
  with r(1) write_behind [of "ra_nal_len r" d mem]
  have w: "mem_write mem (ra_nal_len r) d ! 0 = mem ! 0" "length (mem_write mem (ra_nal_len r) d) = length mem" by simp_all
  then have "nal_ok (take (ra_nal_len r + length d) (mem_write mem (ra_nal_len r) d))" using r le by (intro nal_ok_take) simp_all
  with w r le True asm_init show ?thesis
    by (auto simp: reassemble_continue_def Let_def h264_reassembler_append_def asm_inv_def asm_result_def assms(2))
next
  case False
  then show ?thesis using assms asm_init by (auto simp: reassemble_continue_def h264_reassembler_append_def asm_result_def asm_inv_def)
qed

lemma reassembler_safe:
  assumes "asm_inv r mem"
  shows "asm_result (length mem) (h264_reassembler_push r h (Some mem))"
proof (cases "h264_payload_parse (map_option (take (rh_payload_len h)) (rh_payload h))")
  case None
  with asm_init show ?thesis by (auto simp: h264_reassembler_push_def asm_result_def)
next
  case (Some q)
  note sh = parse_shape [OF Some]
  show ?thesis
  proof (cases "hp_kind q")
    case SINGLE_NAL
    with sh obtain x where x: "hp_nal q = Some x" "nal_ok x" by blast
    with Some SINGLE_NAL assms asm_init show ?thesis by (auto simp: h264_reassembler_push_def asm_result_def)
  next
    case STAP_A
    with Some assms asm_init show ?thesis by (auto simp: h264_reassembler_push_def asm_result_def)
  next
    case FU_A
    with sh obtain d where "hp_fu_payload q = Some d" "nal_byte_ok (hp_reconstructed_nal_header q)" by auto
    with start_safe [of q d] continue_safe [OF assms, of q d] Some FU_A show ?thesis by (simp add: h264_reassembler_push_def)
  qed
qed

section \<open>The receive stream keeps its invariant\<close>

text \<open>A result of an operation on the receive stream: the invariant holds again, the buffer has kept its size, and a NAL unit handed out is well formed.\<close>

definition rx_result :: "nat \<Rightarrow> frame_result \<times> h264_receive_stream \<times> bytes option \<times> bytes option \<Rightarrow> bool" where
  "rx_result n y \<longleftrightarrow> (case y of (res, s', b', nal) \<Rightarrow> \<exists>mem'. b' = Some mem' \<and> rx_inv n (s', mem') \<and> (res = FRAME_OK \<longrightarrow> (\<exists>x. nal = Some x \<and> nal_ok x)))"

lemma rx_source: "rx_inv n (s\<lparr>rs_source := x\<rparr>, mem) = rx_inv n (s, mem)"
  by (simp add: rx_inv_def queue_inv_def occupied_def)

lemma rx_next: "rx_inv n (s\<lparr>rs_has_next_sequence_number := x, rs_next_sequence_number := q\<rparr>, mem) = rx_inv n (s, mem)"
  by (simp add: rx_inv_def queue_inv_def occupied_def)

lemma reset_queue: "rx_inv n (s, mem) \<Longrightarrow> rx_inv n (reorder_reset s, mem)"
  by (simp add: rx_inv_def queue_inv_def occupied_def reorder_reset_def)

lemma reset_everything: "rx_inv n (s, mem) \<Longrightarrow> rx_inv n (reset_all s, mem)"
  by (simp add: rx_inv_def queue_inv_def occupied_def reorder_reset_def reset_all_def asm_inv_def h264_reassembler_init_def)

lemma deliver_safe:
  assumes i: "rx_inv n (s, mem)" and d: "receive_deliver s h fr (Some mem) = y"
  shows "rx_result n y"
proof -
  have a: "asm_inv (rs_reassembler s) mem" "length mem = n" "queue_inv s" using i by (simp_all add: rx_inv_def)
  obtain res r' b' nal where p: "h264_reassembler_push (rs_reassembler s) h (Some mem) = (res, r', b', nal)" by (metis prod_cases4)
  from reassembler_safe [OF a(1), of h] p obtain mem' where r: "b' = Some mem'" "length mem' = length mem" "asm_inv r' mem'"
    "res = FRAME_OK \<longrightarrow> (\<exists>x. nal = Some x \<and> nal_ok x)" by (auto simp: asm_result_def)
  have o: "length (mem_write (rs_reorder_output_payload s) 0 (the nal)) = 2048" if "length (the nal) \<le> 2048"
    using that a(3) by (subst length_mem_write) (simp_all add: queue_inv_def)
  from d p r a o show ?thesis
    by (auto simp: receive_deliver_def Let_def rx_result_def rx_inv_def queue_inv_def occupied_def split: if_splits)
qed

lemma slots_after_removal:
  assumes "queue_inv s" "i < 4" "rs_reorder s ! i \<noteq> None"
  shows "queue_inv (s\<lparr>rs_reorder := (rs_reorder s)[i := None], rs_reorder_count := rs_reorder_count s - 1\<rparr>)"
proof -
  have e: "length (filter (\<lambda>x. x \<noteq> None) (xs[i := None])) = length (filter (\<lambda>x. x \<noteq> None) xs) - 1"
    if "i < length xs" "xs ! i \<noteq> None" for xs :: "rtsp_header option list" and i
    using that by (induction xs arbitrary: i) (auto simp: nth_Cons' split: nat.splits, metis (mono_tags, lifting) One_nat_def Suc_pred filter_empty_conv length_greater_0_conv nth_mem)
  have "set ((rs_reorder s)[i := None]) \<subseteq> insert None (set (rs_reorder s))" by (rule set_update_subset_insert)
  with assms e [of i "rs_reorder s"] show ?thesis by (auto simp: queue_inv_def occupied_def)
qed

lemma queued_safe:
  assumes i: "rx_inv n (s, mem)" and f: "reorder_find s q = Some k" and d: "deliver_queued s k (Some mem) = y"
  shows "rx_result n y"
proof -
  from first_below_Some [OF f [unfolded reorder_find_def]] obtain h where h: "k < 4" "rs_reorder s ! k = Some h" by auto
  obtain res s1 b1 nal where r: "receive_deliver s h True (Some mem) = (res, s1, b1, nal)" by (metis prod_cases4)
  note k = deliver_reorder [OF r]
  from deliver_safe [OF i r] obtain mem1 where m: "b1 = Some mem1" "rx_inv n (s1, mem1)" "res = FRAME_OK \<longrightarrow> (\<exists>x. nal = Some x \<and> nal_ok x)"
    by (auto simp: rx_result_def)
  let ?s = "s1\<lparr>rs_reorder := (rs_reorder s1)[k := None], rs_reorder_count := rs_reorder_count s1 - 1\<rparr>"
  have "y = (res, ?s, Some mem1, nal)" using d h k m(1) by (simp add: deliver_queued_def r remove_reorder_def)
  moreover have "queue_inv ?s" using m(2) k h by (intro slots_after_removal) (simp_all add: rx_inv_def)
  ultimately show ?thesis using m by (simp add: rx_result_def rx_inv_def)
qed

lemma drain_loop_safe:
  "rx_inv n (s, mem) \<Longrightarrow> res = FRAME_OK \<longrightarrow> (\<exists>x. nal = Some x \<and> nal_ok x) \<Longrightarrow> rx_result n (drain_loop res s (Some mem) nal)"
proof (induction "if res = FRAME_PARTIAL then Suc (occupied s) else 0" arbitrary: res s mem nal rule: less_induct)
  case less
  show ?case
  proof (cases "res \<noteq> FRAME_PARTIAL \<or> length (rs_reorder s) \<noteq> REORDER_CAPACITY \<or> reorder_find s (rs_next_sequence_number s) = None")
    case True
    then have "drain_loop res s (Some mem) nal = (res, s, Some mem, nal)" by (subst drain_loop.simps) auto
    with less.prems show ?thesis by (simp add: rx_result_def)
  next
    case False
    then obtain k where k: "reorder_find s (rs_next_sequence_number s) = Some k" by auto
    obtain res1 s1 b1 nal1 where d: "deliver_queued s k (Some mem) = (res1, s1, b1, nal1)" by (metis prod_cases4)
    from queued_safe [OF less.prems(1) k d] obtain mem1 where m: "b1 = Some mem1" "rx_inv n (s1, mem1)" "res1 = FRAME_OK \<longrightarrow> (\<exists>x. nal1 = Some x \<and> nal_ok x)"
      by (auto simp: rx_result_def)
    have "drain_loop res s (Some mem) nal = drain_loop res1 s1 (Some mem1) nal1" using False k d m(1) by (subst drain_loop.simps) simp
    moreover have "rx_result n (drain_loop res1 s1 (Some mem1) nal1)"
      using deliver_queued_measure [OF _ k, of "Some mem"] False by (intro less.hyps m) (simp add: d)
    ultimately show ?thesis by simp
  qed
qed

lemma drain_safe:
  assumes "rx_inv n (s, mem)"
  shows "rx_result n (receive_drain s h (Some mem))"
proof -
  obtain res s1 b1 nal where r: "receive_deliver s h False (Some mem) = (res, s1, b1, nal)" by (metis prod_cases4)
  from deliver_safe [OF assms r] obtain mem1 where m: "b1 = Some mem1" "rx_inv n (s1, mem1)" "res = FRAME_OK \<longrightarrow> (\<exists>x. nal = Some x \<and> nal_ok x)"
    by (auto simp: rx_result_def)
  obtain res2 s2 b2 nal2 where l: "drain_loop res s1 (Some mem1) nal = (res2, s2, b2, nal2)" by (metis prod_cases4)
  from drain_loop_safe [OF m(2,3)] reset_queue [of n s2] show ?thesis by (auto simp: receive_drain_def r m(1) l rx_result_def)
qed

lemma drain_queued_safe:
  assumes "rx_inv n (s, mem)"
  shows "rx_result n (h264_receive_stream_drain_queued s (Some mem))"
proof (cases "rs_has_next_sequence_number s \<and> reorder_find s (rs_next_sequence_number s) \<noteq> None")
  case True
  then obtain k where k: "reorder_find s (rs_next_sequence_number s) = Some k" by auto
  obtain res s1 b1 nal where d: "deliver_queued s k (Some mem) = (res, s1, b1, nal)" by (metis prod_cases4)
  from queued_safe [OF assms k d] reset_queue [of n s1] True k d show ?thesis by (auto simp: h264_receive_stream_drain_queued_def rx_result_def)
next
  case False
  with assms show ?thesis by (auto simp: h264_receive_stream_drain_queued_def rx_result_def)
qed

lemma store_safe:
  assumes "rx_inv n (s, mem)" "reorder_store s h = Some s'"
  shows "rx_inv n (s', mem)"
proof -
  define g where "g = h\<lparr>rh_payload := map_option (take (rh_payload_len h)) (rh_payload h)\<rparr>"
  from assms(2) obtain k where k: "first_below 4 (\<lambda>x. x = None) (rs_reorder s) = Some k" and l: "rh_payload_len h \<le> 2048"
    and s': "s' = s\<lparr>rs_reorder := (rs_reorder s)[k := Some g], rs_reorder_count := rs_reorder_count s + 1\<rparr>"
    by (auto simp: reorder_store_def g_def split: if_splits option.splits)
  from first_below_Some [OF k] have n: "k < 4" "rs_reorder s ! k = None" by auto
  have e: "length (filter (\<lambda>x. x \<noteq> None) (xs[i := Some y])) = length (filter (\<lambda>x. x \<noteq> None) xs) + 1"
    if "i < length xs" "xs ! i = None" for xs :: "rtsp_header option list" and i y
    using that by (induction xs arbitrary: i) (auto simp: nth_Cons' split: nat.splits)
  have g: "rh_payload_len g \<le> 2048" "\<forall>d. rh_payload g = Some d \<longrightarrow> length d \<le> 2048" using l by (auto simp: g_def)
  have q: "queue_inv s" using assms(1) by (simp add: rx_inv_def)
  have "set ((rs_reorder s)[k := Some g]) \<subseteq> insert (Some g) (set (rs_reorder s))" by (rule set_update_subset_insert)
  then have m: "x = g \<or> Some x \<in> set (rs_reorder s)" if "Some x \<in> set ((rs_reorder s)[k := Some g])" for x using that by auto
  have "\<forall>x. Some x \<in> set ((rs_reorder s)[k := Some g]) \<longrightarrow> rh_payload_len x \<le> 2048 \<and> (\<forall>d. rh_payload x = Some d \<longrightarrow> length d \<le> 2048)"
    using m g q unfolding queue_inv_def by metis
  with q e [of k "rs_reorder s"] n have "queue_inv s'" unfolding s' by (simp add: queue_inv_def occupied_def)
  with assms(1) s' show ?thesis by (simp add: rx_inv_def)
qed

lemma accept_safe:
  assumes "rx_inv n (s, mem)"
  shows "rx_result n (receive_accept s h (Some mem))"
proof -
  let ?s = "if rs_has_next_sequence_number s then s else s\<lparr>rs_has_next_sequence_number := True, rs_next_sequence_number := rh_sequence_number h\<rparr>"
  have i: "rx_inv n (?s, mem)" using assms by (simp add: rx_next)
  from drain_safe [OF i] store_safe [OF i] reset_everything [OF i] show ?thesis
    unfolding receive_accept_def Let_def by (auto simp: rx_result_def split: option.splits)
qed

lemma step_safe:
  assumes i: "rx_inv n x" and s: "rx_step op x = Some (x', outs)"
  shows "rx_inv n x' \<and> (\<forall>y\<in>set outs. nal_ok y)"
proof -
  obtain st mem where x: "x = (st, mem)" by (cases x)
  have res: "rx_inv n (s', the b') \<and> (\<forall>y\<in>set (if r = FRAME_OK then [the nal] else []). nal_ok y)" if "rx_result n (r, s', b', nal)" for r s' b' nal
    using that by (auto simp: rx_result_def)
  show ?thesis
  proof (cases op)
    case (Push_Packet p t)
    then obtain r u s' b' nal where p: "h264_receive_stream_push st p t (Some mem) = Some (r, u, s', b', nal)"
      and o: "x' = (s', the b')" "outs = (if r = FRAME_OK then [the nal] else [])" using s x by (auto simp: rx_step_def)
    have "rx_result n (r, s', b', nal)"
    proof (cases "rtsp_rtp_parse_header p")
      case None
      with p i x reset_everything show ?thesis by (auto simp: h264_receive_stream_push_def rx_result_def split: if_splits)
    next
      case (Some hl)
      obtain h l where hl: "hl = (h, l)" by (cases hl)
      have pn: "p \<noteq> None" using Some by (cases p) (auto simp: rtsp_rtp_parse_header_def)
      from p Some hl pn obtain u' src where u: "rtsp_source_update_ex (rs_source st) h t = Some (u', src)"
        by (auto simp: h264_receive_stream_push_def split: option.splits)
      have j: "rx_inv n (st\<lparr>rs_source := src\<rparr>, mem)" using i x by (simp add: rx_source)
      from accept_safe [OF j, of h] reset_everything [OF j] j p Some hl pn u show ?thesis
        by (auto simp: h264_receive_stream_push_def Let_def rx_result_def split: if_splits prod.splits)
    qed
    with res o show ?thesis by simp
  next
    case Drain_Queued
    obtain r s' b' nal where d: "h264_receive_stream_drain_queued st (Some mem) = (r, s', b', nal)" by (metis prod_cases4)
    with drain_queued_safe [of n st mem] i x res [of r s' b' nal] s Drain_Queued show ?thesis by (auto simp: rx_step_def)
  next
    case (Reset_Stream ssrc)
    with s i x show ?thesis
      by (auto simp: rx_step_def rx_inv_def queue_inv_def occupied_def h264_receive_stream_reset_def h264_receive_stream_init_def asm_inv_def h264_reassembler_init_def)
  qed
qed

interpretation rx: emitter "rx_inv n" rx_step nal_ok for n
  by unfold_locales (use step_safe in blast)+

lemma rx_start: "rx_inv (length mem) (h264_receive_stream_init ssrc, mem)"
  by (simp add: rx_inv_def queue_inv_def occupied_def h264_receive_stream_init_def asm_inv_def h264_reassembler_init_def)

lemma step_defined:
  assumes "rx_step op (s, mem) = None"
  shows "\<exists>p t h l. op = Push_Packet (Some p) t \<and> rtsp_rtp_parse_header (Some p) = Some (h, l) \<and> \<bar>sint (t - rh_timestamp h) - so_transit (rs_source s)\<bar> > 2147483647"
proof (cases op)
  case (Push_Packet p t)
  with assms have n: "h264_receive_stream_push s p t (Some mem) = None" by (simp add: rx_step_def)
  then obtain p' where p: "p = Some p'" by (cases p) (auto simp: h264_receive_stream_push_def)
  from n p obtain h l where h: "rtsp_rtp_parse_header (Some p') = Some (h, l)"
    by (cases "rtsp_rtp_parse_header (Some p')") (auto simp: h264_receive_stream_push_def)
  from n p h have u: "rtsp_source_update_ex (rs_source s) h t = None"
    by (auto simp: h264_receive_stream_push_def Let_def split: option.splits prod.splits if_splits)
  then have "so_initialized (rs_source s)" "rh_version h = 2" "so_ssrc (rs_source s) = rh_ssrc h"
    "fst (source_classify (rs_source s) (rh_sequence_number h)) \<noteq> UPDATE_DUPLICATE"
    by (auto simp: rtsp_source_update_ex_def split: if_splits prod.splits source_update_result.splits)
  from source_jitter_overflow [OF this, of t] u Push_Packet p h show ?thesis by blast
next
  case Drain_Queued
  with assms show ?thesis by (simp add: rx_step_def split: prod.splits)
next
  case (Reset_Stream x)
  with assms show ?thesis by (simp add: rx_step_def)
qed

section \<open>Properties\<close>

text \<open>C24. The receive stream is safe against any input.  Over every sequence of packets - malformed, foreign, duplicated, out of order - requests for queued packets and
  resets, the queue counts exactly its occupied slots of at most 2048 bytes each, a NAL unit in progress lies inside the caller's buffer, whose size is
  kept, and every NAL unit handed out is non-empty with a legal header byte.  The next call is undefined only where the transit time of a packet differs
  from the last one by more than half the range of the timestamps: the jitter estimate then overflows.\<close>

theorem h264_receive_safe:
  assumes "run_steps rx_step ops (h264_receive_stream_init ssrc, mem) = Some ((s, mem'), outs)"
  shows "length mem' = length mem \<and> length (rs_reorder s) = 4 \<and> rs_reorder_count s = occupied s
    \<and> (\<forall>h. Some h \<in> set (rs_reorder s) \<longrightarrow> rh_payload_len h \<le> 2048) \<and> length (rs_reorder_output_payload s) = 2048
    \<and> (ra_started (rs_reassembler s) \<longrightarrow> ra_nal_len (rs_reassembler s) \<le> length mem')
    \<and> (\<forall>x\<in>set outs. nal_ok x)
    \<and> (\<forall>op. rx_step op (s, mem') = None \<longrightarrow> (\<exists>p t h l. op = Push_Packet (Some p) t \<and> rtsp_rtp_parse_header (Some p) = Some (h, l)
         \<and> \<bar>sint (t - rh_timestamp h) - so_transit (rs_source s)\<bar> > 2147483647))"
  using rx.run_ok [OF rx_start assms] step_defined by (auto simp: rx_inv_def queue_inv_def asm_inv_def)

lemma h264_receive_safe_witness:
  "\<exists>s mem' outs. run_steps rx_step [Push_Packet (Some [0x80, 96, 0, 1, 0, 0, 0, 0, 0, 0, 0, 7, 0x41, 9]) 0, Push_Packet (Some [0]) 0, Drain_Queued]
       (h264_receive_stream_init 0, [0, 0]) = Some ((s, mem'), outs) \<and> rs_reorder_count s = occupied s \<and> (\<forall>x\<in>set outs. nal_ok x)"
  (is "\<exists>s mem' outs. run_steps rx_step ?ops ?x = _ \<and> _")
proof -
  have "run_steps rx_step ?ops ?x \<noteq> None" by code_simp
  then obtain s mem' outs where r: "run_steps rx_step ?ops ?x = Some ((s, mem'), outs)" by auto
  from h264_receive_safe [OF this] r show ?thesis by blast
qed

end
