(* ===== verification/Room_Model.thy ===== *)
theory Room_Model
  imports Prelude
begin

text \<open>
  The data of the conference room service (\<open>webrtc/src/conference/turbo_room_service.c\<close>) and the static
  helpers its entry points share: rooms with their participants, tracks and subscriptions, the call
  centre's waiting queues and the states of its agents.

  \<^item> A C string is the list of its characters before the terminating NUL, \<open>None\<close> is the null
    pointer; a fixed array \<open>char x[n]\<close> keeps what \<open>copy_string\<close> left of the value.
  \<^item> An enumeration has one constructor per enumerator and one for the other integers a caller may
    pass or a cleared structure holds.
  \<^item> A growing array is the list of its used elements beside its capacity.  \<open>realloc\<close> is the
    parameter \<open>al\<close> of a call: whether the request for an array of so many items succeeds.  The
    requests of one call for one array grow, so \<open>al\<close> covers every pattern of failures.
  \<^item> Array sizes stay below \<open>2 ^ 30\<close> items and versions and sequence numbers below \<open>2 ^ 63\<close>
    (a terabyte of rooms, a billion years of calls), so these counters are unbounded here.
  \<^item> Every entry point takes the service's mutexes around its work: a call is one step.  The
    monotonic clock is a parameter of the calls that read it.
\<close>

section \<open>Enumerations and structures\<close>

datatype room_type = ROOM_TYPE_CALL | ROOM_TYPE_CONFERENCE | ROOM_TYPE_WEBINAR | Room_Type_Int int
datatype room_status = ROOM_OPEN | ROOM_ACTIVE | ROOM_CLOSING | ROOM_CLOSED
datatype participant_role = ROLE_HOST | ROLE_COHOST | ROLE_GUEST | ROLE_AUDIENCE | ROLE_CUSTOMER | ROLE_AGENT
  | ROLE_SUPERVISOR | ROLE_QA_OBSERVER | ROLE_BOT | Role_Int int
datatype join_state = JOIN_INVITED | JOIN_JOINING | JOIN_JOINED | JOIN_LEAVING | JOIN_LEFT
datatype session_state = SESSION_NONE | SESSION_NEGOTIATING | SESSION_CONNECTED | SESSION_RECONNECTING
  | SESSION_FAILED | SESSION_CLOSED | Session_Int int
datatype track_kind = TRACK_AUDIO | TRACK_VIDEO | Track_Kind_Int int
datatype track_source = SOURCE_MIC | SOURCE_CAMERA | SOURCE_SCREEN | Source_Int int
datatype video_layer = LAYER_NONE | LAYER_LOW | LAYER_MEDIUM | LAYER_HIGH | Layer_Int int
datatype recording_state = RECORDING_STOPPED | RECORDING_STARTING | RECORDING_ACTIVE | RECORDING_STOPPING | RECORDING_FAILED
datatype layout_mode = LAYOUT_GRID | LAYOUT_SPEAKER | Layout_Int int
datatype supervisor_mode = SUPERVISOR_NONE | SUPERVISOR_MONITOR | SUPERVISOR_WHISPER | SUPERVISOR_BARGE | Supervisor_Int int
datatype queue_side = QUEUE_CALLER | QUEUE_CALLEE | Queue_Side_Int int
datatype agent_state = AGENT_AVAILABLE | AGENT_RESERVED | AGENT_BUSY | AGENT_OFFLINE | AGENT_WRAP_UP | Agent_Int int
datatype cc_room_state = CC_ROOM_NONE | CC_ROOM_ACTIVE | CC_ROOM_WRAP_UP | CC_ROOM_COMPLETED | CC_Room_Int int
datatype entry_state = ENTRY_QUEUED | ENTRY_CLAIMED | ENTRY_ROUTED | ENTRY_CANCELED

record room_participant =
  rp_participant_id :: string
  rp_call_generation :: u64
  rp_user_id :: string
  rp_display_name :: string
  rp_role :: participant_role
  rp_join_state :: join_state
  rp_session_state :: session_state
  rp_bandwidth_bps :: int
  rp_has_explicit_bandwidth :: bool
  rp_version :: int

record room_track =
  rt_track_id :: string
  rt_owner_participant_id :: string
  rt_kind :: track_kind
  rt_source :: track_source
  rt_codec_name :: string
  rt_simulcast_enabled :: bool
  rt_muted :: bool
  rt_main_ssrc :: u32
  rt_layer_ssrcs :: "u32 list"
  rt_layer_count :: nat
  rt_version :: int

record room_subscription =
  rb_subscriber_participant_id :: string
  rb_track_id :: string
  rb_enabled :: bool
  rb_priority :: int
  rb_preferred_layer :: video_layer
  rb_target_layer :: video_layer
  rb_muted :: bool
  rb_policy_source :: string
  rb_version :: int

record call_center_queue_entry =
  qe_queue_id :: string
  qe_side :: queue_side
  qe_entry_id :: string
  qe_endpoint_id :: string
  qe_priority :: int
  qe_sequence :: int
  qe_version :: int
  qe_claimed_at_ms :: u64
  qe_state :: entry_state

record call_center_agent_state_entry =
  ae_endpoint_id :: string
  ae_state :: agent_state
  ae_version :: int

record room_entry =
  re_room_id :: string
  re_room_generation :: u64
  re_room_type :: room_type
  re_status :: room_status
  re_assigned_sfu_node :: string
  re_recording_state :: recording_state
  re_layout_mode :: layout_mode
  re_active_speaker_participant_id :: string
  re_pinned_participant_id :: string
  re_recording_id :: string
  re_recording_mode :: string
  re_call_center_state :: cc_room_state
  re_call_center_customer_participant_id :: string
  re_call_center_agent_participant_id :: string
  re_call_center_consult_agent_participant_id :: string
  re_call_center_disposition_code :: string
  re_call_center_version :: int
  re_version :: int
  re_participants :: "room_participant list"
  re_participant_capacity :: nat
  re_tracks :: "room_track list"
  re_track_capacity :: nat
  re_subscriptions :: "room_subscription list"
  re_subscription_capacity :: nat

record room_service =
  sv_rooms :: "room_entry list"
  sv_room_capacity :: nat
  sv_queue_entries :: "call_center_queue_entry list"
  sv_queue_capacity :: nat
  sv_agent_states :: "call_center_agent_state_entry list"
  sv_agent_capacity :: nat
  sv_next_queue_sequence :: int

type_synonym allocator = "nat \<Rightarrow> bool"
type_synonym cstring = "string option"

definition ID_MAX :: nat where "ID_MAX = 64"
definition DISPLAY_NAME_MAX :: nat where "DISPLAY_NAME_MAX = 128"
definition SHORT_NAME_MAX :: nat where "SHORT_NAME_MAX = 32"
definition DEFAULT_CLAIM_LEASE_MS :: u64 where "DEFAULT_CLAIM_LEASE_MS = 30000"

section \<open>Strings and growing arrays\<close>

fun copy_string :: "nat \<Rightarrow> cstring \<Rightarrow> string" where
  "copy_string dest_size None = ''''"
| "copy_string dest_size (Some src) = take (dest_size - 1) src"

fun string_fits :: "cstring \<Rightarrow> nat \<Rightarrow> bool \<Rightarrow> bool" where
  "string_fits None capacity allow_empty \<longleftrightarrow> allow_empty"
| "string_fits (Some v) capacity allow_empty \<longleftrightarrow>
     (let len = min (length v) capacity in len < capacity \<and> (allow_empty \<or> 0 < len))"

function grow_capacity :: "nat \<Rightarrow> nat \<Rightarrow> nat" where
  "grow_capacity capacity needed =
     (if capacity = 0 \<or> needed \<le> capacity then capacity else grow_capacity (2 * capacity) needed)"
  by auto
termination by (relation "measure (\<lambda>(c, n). n - c)") auto

declare grow_capacity.simps [simp del]

definition ensure_capacity :: "allocator \<Rightarrow> nat \<Rightarrow> nat \<Rightarrow> nat option" where
  "ensure_capacity al capacity needed =
     (if needed \<le> capacity then Some capacity
      else let new = grow_capacity (if 0 < capacity then capacity else 4) needed
           in if al new then Some new else None)"

definition remove_at :: "'a list \<Rightarrow> nat \<Rightarrow> 'a list" where
  "remove_at xs i = (if i < length xs then take i xs @ drop (i + 1) xs else xs)"

text \<open>The loops that walk an array from its end and remove the elements that satisfy a condition.\<close>

definition remove_backwards :: "('a \<Rightarrow> bool) \<Rightarrow> 'a list \<Rightarrow> 'a list" where
  "remove_backwards P xs = fold (\<lambda>i ys. if P (ys ! i) then remove_at ys i else ys) (rev [0..<length xs]) xs"

lemma copy_string_fits [simp]: "string_fits s n e \<Longrightarrow> copy_string n s = (case s of None \<Rightarrow> '''' | Some v \<Rightarrow> v)"
  by (cases s) (auto simp: Let_def split: if_splits)

lemma string_fits_required: "string_fits s n False \<longleftrightarrow> (\<exists>v. s = Some v \<and> v \<noteq> [] \<and> length v < n)"
  by (cases s) (auto simp: Let_def)

lemma copy_string_short: "length v < n \<Longrightarrow> copy_string n (Some v) = v"
  by simp

declare copy_string.simps(2) [simp del] copy_string_short [simp]

lemma copy_string_length: "0 < n \<Longrightarrow> length (copy_string n s) < n"
  by (cases s) (auto simp: copy_string.simps(2))

lemma grow_capacity_enough: "0 < c \<Longrightarrow> n \<le> grow_capacity c n"
proof (induction c n rule: grow_capacity.induct)
  case (1 c n) then show ?case by (cases "n \<le> c") (simp_all add: grow_capacity.simps [of c n])
qed

lemma ensure_capacity_enough: "ensure_capacity al c n = Some c' \<Longrightarrow> n \<le> c'"
  using grow_capacity_enough [of c n] grow_capacity_enough [of 4 n]
  by (auto simp: ensure_capacity_def Let_def split: if_splits)

lemma remove_at_split: "i < length xs \<Longrightarrow> remove_at xs i = take i xs @ drop (i + 1) xs"
  by (simp add: remove_at_def)

lemma set_remove_at: "set (remove_at xs i) \<subseteq> set xs"
  by (auto simp: remove_at_def dest: in_set_takeD in_set_dropD)

lemma remove_backwards_filter: "remove_backwards P xs = filter (\<lambda>x. \<not> P x) xs"
proof -
  have "n \<le> length xs \<Longrightarrow> fold (\<lambda>i ys. if P (ys ! i) then remove_at ys i else ys) (rev [0..<n]) (take n xs @ zs)
      = filter (\<lambda>x. \<not> P x) (take n xs) @ zs" for n zs
  proof (induction n arbitrary: zs)
    case (Suc n)
    then have s: "take (Suc n) xs = take n xs @ [xs ! n]" by (simp add: take_Suc_conv_app_nth)
    from Suc have "remove_at (take n xs @ (xs ! n) # zs) n = take n xs @ zs" by (simp add: remove_at_def)
    moreover have "(take n xs @ (xs ! n) # zs) ! n = xs ! n" using Suc.prems by (simp add: nth_append)
    ultimately show ?case using Suc.IH [of zs] Suc.IH [of "xs ! n # zs"] Suc.prems by (simp add: s)
  qed simp
  from this [of "length xs" "[]"] show ?thesis by (simp add: remove_backwards_def)
qed

section \<open>Lookups\<close>

definition find_room :: "room_service \<Rightarrow> string \<Rightarrow> nat option" where
  "find_room service room_id =
     first_below (length (sv_rooms service)) (\<lambda>r. re_room_id r = room_id) (sv_rooms service)"

definition room_find_participant :: "room_entry \<Rightarrow> string \<Rightarrow> nat option" where
  "room_find_participant room participant_id =
     first_below (length (re_participants room)) (\<lambda>p. rp_participant_id p = participant_id) (re_participants room)"

definition find_track :: "room_entry \<Rightarrow> string \<Rightarrow> nat option" where
  "find_track room track_id = first_below (length (re_tracks room)) (\<lambda>t. rt_track_id t = track_id) (re_tracks room)"

definition find_subscription :: "room_entry \<Rightarrow> string \<Rightarrow> string \<Rightarrow> nat option" where
  "find_subscription room subscriber track_id = first_below (length (re_subscriptions room))
     (\<lambda>s. rb_subscriber_participant_id s = subscriber \<and> rb_track_id s = track_id) (re_subscriptions room)"

definition participant_at :: "room_entry \<Rightarrow> string \<Rightarrow> room_participant option" where
  "participant_at room participant_id = map_option (\<lambda>i. re_participants room ! i) (room_find_participant room participant_id)"

definition track_at :: "room_entry \<Rightarrow> string \<Rightarrow> room_track option" where
  "track_at room track_id = map_option (\<lambda>i. re_tracks room ! i) (find_track room track_id)"

section \<open>Roles in the call centre\<close>

definition is_call_center_primary_role :: "participant_role \<Rightarrow> bool" where
  "is_call_center_primary_role role \<longleftrightarrow> role = ROLE_CUSTOMER \<or> role = ROLE_AGENT"

definition is_call_center_customer_participant :: "room_entry \<Rightarrow> room_participant \<Rightarrow> bool" where
  "is_call_center_customer_participant room p \<longleftrightarrow>
     re_call_center_customer_participant_id room \<noteq> '''' \<and> rp_participant_id p \<noteq> '''' \<and>
     re_call_center_customer_participant_id room = rp_participant_id p"

definition is_call_center_primary_agent_participant :: "room_entry \<Rightarrow> room_participant \<Rightarrow> bool" where
  "is_call_center_primary_agent_participant room p \<longleftrightarrow>
     re_call_center_agent_participant_id room \<noteq> '''' \<and> rp_participant_id p \<noteq> '''' \<and>
     re_call_center_agent_participant_id room = rp_participant_id p"

definition is_call_center_consult_agent_participant :: "room_entry \<Rightarrow> room_participant \<Rightarrow> bool" where
  "is_call_center_consult_agent_participant room p \<longleftrightarrow>
     re_call_center_consult_agent_participant_id room \<noteq> '''' \<and> rp_participant_id p \<noteq> '''' \<and>
     re_call_center_consult_agent_participant_id room = rp_participant_id p"

definition is_call_center_engaged_agent_participant :: "room_entry \<Rightarrow> room_participant \<Rightarrow> bool" where
  "is_call_center_engaged_agent_participant room p \<longleftrightarrow>
     is_call_center_primary_agent_participant room p \<or> is_call_center_consult_agent_participant room p"

definition is_call_center_primary_endpoint :: "room_entry \<Rightarrow> room_participant \<Rightarrow> bool" where
  "is_call_center_primary_endpoint room p \<longleftrightarrow>
     is_call_center_customer_participant room p \<or> is_call_center_primary_agent_participant room p"

definition is_call_center_observable_participant :: "room_entry \<Rightarrow> room_participant \<Rightarrow> bool" where
  "is_call_center_observable_participant room p \<longleftrightarrow>
     is_call_center_customer_participant room p \<or> is_call_center_engaged_agent_participant room p"

definition room_has_call_center_topology :: "room_entry \<Rightarrow> bool" where
  "room_has_call_center_topology room \<longleftrightarrow>
     re_call_center_customer_participant_id room \<noteq> '''' \<and> re_call_center_agent_participant_id room \<noteq> ''''"

definition role_can_publish :: "participant_role \<Rightarrow> bool" where
  "role_can_publish role \<longleftrightarrow> role \<noteq> ROLE_QA_OBSERVER"

definition is_valid_call_center_queue_side :: "queue_side \<Rightarrow> bool" where
  "is_valid_call_center_queue_side side \<longleftrightarrow> side = QUEUE_CALLER \<or> side = QUEUE_CALLEE"

definition is_valid_call_center_agent_state :: "agent_state \<Rightarrow> bool" where
  "is_valid_call_center_agent_state st \<longleftrightarrow>
     st = AGENT_AVAILABLE \<or> st = AGENT_RESERVED \<or> st = AGENT_BUSY \<or> st = AGENT_OFFLINE \<or> st = AGENT_WRAP_UP"

definition is_valid_call_center_room_state :: "cc_room_state \<Rightarrow> bool" where
  "is_valid_call_center_room_state st \<longleftrightarrow> st = CC_ROOM_ACTIVE \<or> st = CC_ROOM_WRAP_UP \<or> st = CC_ROOM_COMPLETED"

section \<open>The states of the agents\<close>

definition find_call_center_agent_state_entry :: "room_service \<Rightarrow> string \<Rightarrow> nat option" where
  "find_call_center_agent_state_entry service endpoint_id =
     (if endpoint_id = '''' then None
      else first_below (length (sv_agent_states service)) (\<lambda>e. ae_endpoint_id e = endpoint_id) (sv_agent_states service))"

text \<open>The effective state, and whether it was set explicitly.\<close>

definition get_call_center_agent_effective_state :: "room_service \<Rightarrow> string \<Rightarrow> agent_state \<times> bool" where
  "get_call_center_agent_effective_state service endpoint_id =
     (if endpoint_id = '''' then (AGENT_OFFLINE, False)
      else case find_call_center_agent_state_entry service endpoint_id of
             None \<Rightarrow> (AGENT_AVAILABLE, False)
           | Some i \<Rightarrow> (ae_state (sv_agent_states service ! i), True))"

definition put_agent_state :: "call_center_agent_state_entry \<Rightarrow> agent_state \<Rightarrow> call_center_agent_state_entry" where
  "put_agent_state e st = (if ae_state e \<noteq> st then e\<lparr>ae_state := st, ae_version := ae_version e + 1\<rparr> else e)"

definition set_call_center_agent_state_locked ::
  "allocator \<Rightarrow> room_service \<Rightarrow> string \<Rightarrow> agent_state \<Rightarrow> int \<times> room_service" where
  "set_call_center_agent_state_locked al service endpoint_id st =
     (if endpoint_id = '''' \<or> \<not> is_valid_call_center_agent_state st then (-1, service)
      else case find_call_center_agent_state_entry service endpoint_id of
        Some i \<Rightarrow> (0, service\<lparr>sv_agent_states := (sv_agent_states service)[i := put_agent_state (sv_agent_states service ! i) st]\<rparr>)
      | None \<Rightarrow>
          (case ensure_capacity al (sv_agent_capacity service) (length (sv_agent_states service) + 1) of
             None \<Rightarrow> (-1, service)
           | Some c \<Rightarrow>
               (0, service\<lparr>sv_agent_capacity := c, sv_agent_states := sv_agent_states service @
                     [put_agent_state \<lparr>ae_endpoint_id = copy_string ID_MAX (Some endpoint_id),
                        ae_state = Agent_Int 0, ae_version = 0\<rparr> st]\<rparr>)))"

section \<open>Subscriptions and versions\<close>

definition resolve_subscription_video_layer :: "room_subscription \<Rightarrow> video_layer" where
  "resolve_subscription_video_layer s =
     (if rb_target_layer s \<noteq> LAYER_NONE then rb_target_layer s
      else if rb_preferred_layer s \<noteq> LAYER_NONE then rb_preferred_layer s
      else LAYER_LOW)"

definition video_subscription_budget_bps :: "room_track \<Rightarrow> video_layer \<Rightarrow> int" where
  "video_subscription_budget_bps track layer =
     (if rt_source track = SOURCE_SCREEN
      then (case layer of LAYER_LOW \<Rightarrow> 700000 | LAYER_MEDIUM \<Rightarrow> 1500000 | LAYER_HIGH \<Rightarrow> 2500000 | _ \<Rightarrow> 0)
      else (case layer of LAYER_LOW \<Rightarrow> 250000 | LAYER_MEDIUM \<Rightarrow> 800000 | LAYER_HIGH \<Rightarrow> 1500000 | _ \<Rightarrow> 0))"

text \<open>The fields of a subscription, set one by one; the version moves when one of them changed.\<close>

definition set_subscription_fields ::
  "room_subscription \<Rightarrow> bool \<Rightarrow> int \<Rightarrow> video_layer \<Rightarrow> video_layer \<Rightarrow> bool \<Rightarrow> string \<Rightarrow> bool \<times> room_subscription" where
  "set_subscription_fields s enabled priority preferred target muted policy =
     (let policy_buf = copy_string SHORT_NAME_MAX (Some policy);
          changed = (rb_enabled s \<noteq> enabled \<or> rb_priority s \<noteq> priority \<or> rb_preferred_layer s \<noteq> preferred
            \<or> rb_target_layer s \<noteq> target \<or> rb_muted s \<noteq> muted \<or> rb_policy_source s \<noteq> policy_buf);
          s' = s\<lparr>rb_enabled := enabled, rb_priority := priority, rb_preferred_layer := preferred,
            rb_target_layer := target, rb_muted := muted, rb_policy_source := policy_buf\<rparr>
      in (changed, if changed then s'\<lparr>rb_version := rb_version s + 1\<rparr> else s'))"

definition cleared_subscription :: "string \<Rightarrow> string \<Rightarrow> room_subscription" where
  "cleared_subscription subscriber track_id =
     \<lparr>rb_subscriber_participant_id = copy_string ID_MAX (Some subscriber), rb_track_id = copy_string ID_MAX (Some track_id),
      rb_enabled = False, rb_priority = 0, rb_preferred_layer = LAYER_NONE, rb_target_layer = LAYER_NONE,
      rb_muted = False, rb_policy_source = '''', rb_version = 0\<rparr>"

definition ensure_subscription ::
  "allocator \<Rightarrow> room_entry \<Rightarrow> string \<Rightarrow> string \<Rightarrow> (nat \<times> room_entry) option" where
  "ensure_subscription al room subscriber track_id =
     (case find_subscription room subscriber track_id of
        Some i \<Rightarrow> Some (i, room)
      | None \<Rightarrow>
          (case ensure_capacity al (re_subscription_capacity room) (length (re_subscriptions room) + 1) of
             None \<Rightarrow> None
           | Some c \<Rightarrow> Some (length (re_subscriptions room),
               room\<lparr>re_subscription_capacity := c,
                 re_subscriptions := re_subscriptions room @ [(cleared_subscription subscriber track_id)\<lparr>rb_version := 1\<rparr>]\<rparr>)))"

record derived_subscription =
  ds_enabled :: bool
  ds_priority :: int
  ds_layer :: video_layer
  ds_policy_source :: string

text \<open>The preferred and the target layer are the same, and a disabled subscription is muted.\<close>

definition derive_video_subscription :: "room_entry \<Rightarrow> room_track \<Rightarrow> derived_subscription" where
  "derive_video_subscription room track =
     (if rt_muted track
      then \<lparr>ds_enabled = False, ds_priority = 25, ds_layer = LAYER_NONE, ds_policy_source = ''layout_muted''\<rparr>
      else if rt_source track = SOURCE_SCREEN
      then \<lparr>ds_enabled = True, ds_priority = 100, ds_layer = LAYER_HIGH, ds_policy_source = ''layout_screenshare''\<rparr>
      else if re_pinned_participant_id room \<noteq> '''' \<and> re_pinned_participant_id room = rt_owner_participant_id track
      then \<lparr>ds_enabled = True, ds_priority = 95, ds_layer = LAYER_HIGH, ds_policy_source = ''layout_pin''\<rparr>
      else if re_active_speaker_participant_id room \<noteq> '''' \<and> re_active_speaker_participant_id room = rt_owner_participant_id track
      then \<lparr>ds_enabled = True, ds_priority = 80,
        ds_layer = (if re_layout_mode room = LAYOUT_GRID then LAYER_MEDIUM else LAYER_HIGH),
        ds_policy_source = (if re_layout_mode room = LAYOUT_GRID then ''layout_grid'' else ''layout_speaker'')\<rparr>
      else if re_layout_mode room = LAYOUT_GRID
      then \<lparr>ds_enabled = True, ds_priority = 40, ds_layer = LAYER_LOW, ds_policy_source = ''layout_grid''\<rparr>
      else \<lparr>ds_enabled = True, ds_priority = 25, ds_layer = LAYER_LOW, ds_policy_source = ''layout_speaker''\<rparr>)"

definition apply_derived :: "room_subscription \<Rightarrow> derived_subscription \<Rightarrow> bool \<times> room_subscription" where
  "apply_derived s d =
     set_subscription_fields s (ds_enabled d) (ds_priority d) (ds_layer d) (ds_layer d) (\<not> ds_enabled d) (ds_policy_source d)"

definition room_bump_version :: "room_entry \<Rightarrow> room_entry" where
  "room_bump_version room = room\<lparr>re_version := re_version room + 1\<rparr>"

definition room_bump_call_center_version :: "room_entry \<Rightarrow> room_entry" where
  "room_bump_call_center_version room = room_bump_version (room\<lparr>re_call_center_version := re_call_center_version room + 1\<rparr>)"

definition update_room_activity :: "room_entry \<Rightarrow> room_entry" where
  "update_room_activity room =
     (if re_status room = ROOM_CLOSED \<or> re_status room = ROOM_CLOSING then room
      else room\<lparr>re_status := (if 0 < length (re_participants room) then ROOM_ACTIVE else ROOM_OPEN)\<rparr>)"

definition turbo_room_service_create :: "bool \<Rightarrow> room_service option" where
  "turbo_room_service_create allocated =
     (if allocated
      then Some \<lparr>sv_rooms = [], sv_room_capacity = 0, sv_queue_entries = [], sv_queue_capacity = 0,
        sv_agent_states = [], sv_agent_capacity = 0, sv_next_queue_sequence = 0\<rparr>
      else None)"

end
