(* ===== verification/Room_Service.thy ===== *)
theory Room_Service
  imports Room_Model
begin

text \<open>
  The entry points of the conference room service that work on rooms
  (\<open>webrtc/src/conference/turbo_room_service.c\<close>): rooms, participants, tracks, subscriptions, recording,
  layout, the call centre's rooms and the two reconciliations.  Each returns its \<open>int\<close> result
  (0 or -1) with the service after the call; a reader returns its summary or \<open>None\<close>.
\<close>

section \<open>Rooms\<close>

text \<open>The calls that look a room up and work on it: the room may change even when they fail.\<close>

definition with_room :: "room_service \<Rightarrow> cstring \<Rightarrow> (room_entry \<Rightarrow> int \<times> room_entry) \<Rightarrow> int \<times> room_service" where
  "with_room service room_id f =
     (case Option.bind room_id (find_room service) of
        None \<Rightarrow> (-1, service)
      | Some i \<Rightarrow> let (rc, room) = f (sv_rooms service ! i)
                 in (rc, service\<lparr>sv_rooms := (sv_rooms service)[i := room]\<rparr>))"

definition room_at :: "room_service \<Rightarrow> cstring \<Rightarrow> room_entry option" where
  "room_at service room_id = map_option (\<lambda>i. sv_rooms service ! i) (Option.bind room_id (find_room service))"

definition turbo_room_service_create_room ::
  "allocator \<Rightarrow> room_service \<Rightarrow> cstring \<Rightarrow> u64 \<Rightarrow> room_type \<Rightarrow> int \<times> room_service" where
  "turbo_room_service_create_room al service room_id generation rtype =
     (if \<not> string_fits room_id ID_MAX False \<or> rtype = Room_Type_Int 0 then (-1, service)
      else if Option.bind room_id (find_room service) \<noteq> None then (-1, service)
      else case ensure_capacity al (sv_room_capacity service) (length (sv_rooms service) + 1) of
        None \<Rightarrow> (-1, service)
      | Some c \<Rightarrow>
          (0, service\<lparr>sv_room_capacity := c, sv_rooms := sv_rooms service @
             [\<lparr>re_room_id = copy_string ID_MAX room_id, re_room_generation = generation, re_room_type = rtype,
               re_status = ROOM_OPEN, re_assigned_sfu_node = '''', re_recording_state = RECORDING_STOPPED,
               re_layout_mode = LAYOUT_SPEAKER, re_active_speaker_participant_id = '''',
               re_pinned_participant_id = '''', re_recording_id = '''', re_recording_mode = '''',
               re_call_center_state = CC_ROOM_NONE, re_call_center_customer_participant_id = '''',
               re_call_center_agent_participant_id = '''', re_call_center_consult_agent_participant_id = '''',
               re_call_center_disposition_code = '''', re_call_center_version = 0, re_version = 1,
               re_participants = [], re_participant_capacity = 0, re_tracks = [], re_track_capacity = 0,
               re_subscriptions = [], re_subscription_capacity = 0\<rparr>]\<rparr>))"

text \<open>Releasing an agent on the way: an empty id is skipped.\<close>

definition release_agent :: "allocator \<Rightarrow> room_service \<Rightarrow> string \<Rightarrow> int \<times> room_service" where
  "release_agent al service agent =
     (if agent = '''' then (0, service) else set_call_center_agent_state_locked al service agent AGENT_AVAILABLE)"

definition turbo_room_service_close_room :: "allocator \<Rightarrow> room_service \<Rightarrow> cstring \<Rightarrow> int \<times> room_service" where
  "turbo_room_service_close_room al service room_id =
     (case room_at service room_id of
        None \<Rightarrow> (-1, service)
      | Some room \<Rightarrow>
          if re_call_center_state room = CC_ROOM_ACTIVE
          then (let (rc1, s1) = release_agent al service (re_call_center_agent_participant_id room)
                in if rc1 \<noteq> 0 then (-1, s1)
                   else let (rc2, s2) = release_agent al s1 (re_call_center_consult_agent_participant_id room)
                        in if rc2 \<noteq> 0 then (-1, s2)
                           else with_room s2 room_id (\<lambda>r. (0, room_bump_version
                                 ((room_bump_call_center_version (r\<lparr>re_call_center_state := CC_ROOM_COMPLETED\<rparr>))
                                   \<lparr>re_status := ROOM_CLOSED\<rparr>))))
          else with_room service room_id (\<lambda>r. (0, room_bump_version (r\<lparr>re_status := ROOM_CLOSED\<rparr>))))"

definition turbo_room_service_discard_unassigned_room :: "room_service \<Rightarrow> cstring \<Rightarrow> int \<times> room_service" where
  "turbo_room_service_discard_unassigned_room service room_id =
     (case Option.bind room_id (find_room service) of
        None \<Rightarrow> (-1, service)
      | Some i \<Rightarrow> if re_assigned_sfu_node (sv_rooms service ! i) \<noteq> '''' then (-1, service)
                 else (0, service\<lparr>sv_rooms := remove_at (sv_rooms service) i\<rparr>))"

definition turbo_room_service_assign_sfu_node :: "room_service \<Rightarrow> cstring \<Rightarrow> cstring \<Rightarrow> int \<times> room_service" where
  "turbo_room_service_assign_sfu_node service room_id node_id =
     (if \<not> string_fits node_id ID_MAX False then (-1, service)
      else with_room service room_id
        (\<lambda>r. (0, room_bump_version (r\<lparr>re_assigned_sfu_node := copy_string ID_MAX node_id\<rparr>))))"

record room_summary =
  rm_room_id :: string
  rm_room_generation :: u64
  rm_room_type :: room_type
  rm_status :: room_status
  rm_assigned_sfu_node :: string
  rm_recording_state :: recording_state
  rm_layout_mode :: layout_mode
  rm_active_speaker_participant_id :: string
  rm_pinned_participant_id :: string
  rm_recording_id :: string
  rm_recording_mode :: string
  rm_participant_count :: nat
  rm_published_track_count :: nat
  rm_subscription_count :: nat
  rm_version :: int

definition turbo_room_service_get_room_summary :: "room_service \<Rightarrow> cstring \<Rightarrow> room_summary option" where
  "turbo_room_service_get_room_summary service room_id =
     map_option (\<lambda>r. \<lparr>rm_room_id = copy_string ID_MAX (Some (re_room_id r)), rm_room_generation = re_room_generation r,
       rm_room_type = re_room_type r, rm_status = re_status r,
       rm_assigned_sfu_node = copy_string ID_MAX (Some (re_assigned_sfu_node r)),
       rm_recording_state = re_recording_state r, rm_layout_mode = re_layout_mode r,
       rm_active_speaker_participant_id = copy_string ID_MAX (Some (re_active_speaker_participant_id r)),
       rm_pinned_participant_id = copy_string ID_MAX (Some (re_pinned_participant_id r)),
       rm_recording_id = copy_string ID_MAX (Some (re_recording_id r)),
       rm_recording_mode = copy_string SHORT_NAME_MAX (Some (re_recording_mode r)),
       rm_participant_count = length (re_participants r), rm_published_track_count = length (re_tracks r),
       rm_subscription_count = length (re_subscriptions r), rm_version = re_version r\<rparr>)
     (room_at service room_id)"

section \<open>Participants\<close>

definition room_add_participant ::
  "allocator \<Rightarrow> cstring \<Rightarrow> u64 \<Rightarrow> cstring \<Rightarrow> cstring \<Rightarrow> participant_role \<Rightarrow> room_entry \<Rightarrow> int \<times> room_entry" where
  "room_add_participant al pid generation user_id display_name role room =
     (if Option.bind pid (room_find_participant room) \<noteq> None then (-1, room)
      else case ensure_capacity al (re_participant_capacity room) (length (re_participants room) + 1) of
        None \<Rightarrow> (-1, room)
      | Some c \<Rightarrow>
          (0, room_bump_version (update_room_activity
             (room\<lparr>re_participant_capacity := c, re_participants := re_participants room @
               [\<lparr>rp_participant_id = copy_string ID_MAX pid, rp_call_generation = generation,
                 rp_user_id = copy_string ID_MAX user_id, rp_display_name = copy_string DISPLAY_NAME_MAX display_name,
                 rp_role = role, rp_join_state = JOIN_JOINED, rp_session_state = SESSION_NONE,
                 rp_bandwidth_bps = 0, rp_has_explicit_bandwidth = False, rp_version = 1\<rparr>]\<rparr>))))"

definition turbo_room_service_add_participant ::
  "allocator \<Rightarrow> room_service \<Rightarrow> cstring \<Rightarrow> cstring \<Rightarrow> u64 \<Rightarrow> cstring \<Rightarrow> cstring \<Rightarrow> participant_role \<Rightarrow> int \<times> room_service" where
  "turbo_room_service_add_participant al service room_id pid generation user_id display_name role =
     (if \<not> string_fits pid ID_MAX False \<or> \<not> string_fits user_id ID_MAX True
         \<or> \<not> string_fits display_name DISPLAY_NAME_MAX True then (-1, service)
      else with_room service room_id (room_add_participant al pid generation user_id display_name role))"

text \<open>What leaving does to the call centre's record of the room, and which agents it releases.\<close>

definition room_leave_call_center :: "string \<Rightarrow> room_entry \<Rightarrow> room_entry" where
  "room_leave_call_center pid room =
     (let was_customer = re_call_center_customer_participant_id room = pid;
          was_agent = re_call_center_agent_participant_id room = pid;
          r1 = (if re_call_center_consult_agent_participant_id room = pid
                then room\<lparr>re_call_center_consult_agent_participant_id := ''''\<rparr> else room)
      in if (was_customer \<or> was_agent) \<and> re_call_center_state room \<noteq> CC_ROOM_NONE
            \<and> re_call_center_state room \<noteq> CC_ROOM_COMPLETED
         then r1\<lparr>re_call_center_state := CC_ROOM_COMPLETED, re_call_center_customer_participant_id := '''',
                re_call_center_agent_participant_id := '''', re_call_center_consult_agent_participant_id := ''''\<rparr>
         else r1)"

definition leave_release_agents :: "allocator \<Rightarrow> string \<Rightarrow> room_entry \<Rightarrow> room_service \<Rightarrow> room_service" where
  "leave_release_agents al pid room service =
     (let primary = re_call_center_agent_participant_id room;
          consult = re_call_center_consult_agent_participant_id room;
          s1 = (if consult = pid \<and> re_call_center_state room = CC_ROOM_ACTIVE
                then snd (set_call_center_agent_state_locked al service pid AGENT_AVAILABLE) else service)
      in if (re_call_center_customer_participant_id room = pid \<or> primary = pid)
            \<and> re_call_center_state room \<noteq> CC_ROOM_NONE \<and> re_call_center_state room \<noteq> CC_ROOM_COMPLETED
         then (let s2 = snd (release_agent al s1 primary)
               in if consult \<noteq> '''' \<and> consult \<noteq> primary
                  then snd (set_call_center_agent_state_locked al s2 consult AGENT_AVAILABLE) else s2)
         else s1)"

definition room_remove_participant :: "string \<Rightarrow> room_entry \<Rightarrow> int \<times> room_entry" where
  "room_remove_participant pid room0 =
     (let room = room_leave_call_center pid room0;
          r1 = room\<lparr>re_subscriptions := remove_backwards
                (\<lambda>s. rb_subscriber_participant_id s = pid \<or>
                   (case track_at room (rb_track_id s) of None \<Rightarrow> False | Some t \<Rightarrow> rt_owner_participant_id t = pid))
                (re_subscriptions room)\<rparr>;
          r2 = r1\<lparr>re_tracks := remove_backwards (\<lambda>t. rt_owner_participant_id t = pid) (re_tracks r1)\<rparr>
      in case room_find_participant r2 pid of
           None \<Rightarrow> (-1, r2)
         | Some i \<Rightarrow> (0, room_bump_version (update_room_activity
                        (r2\<lparr>re_participants := remove_at (re_participants r2) i\<rparr>))))"

definition turbo_room_service_remove_participant ::
  "allocator \<Rightarrow> room_service \<Rightarrow> cstring \<Rightarrow> cstring \<Rightarrow> int \<times> room_service" where
  "turbo_room_service_remove_participant al service room_id participant_id =
     (case (participant_id, room_at service room_id) of
        (Some pid, Some room) \<Rightarrow> with_room (leave_release_agents al pid room service) room_id (room_remove_participant pid)
      | _ \<Rightarrow> (-1, service))"

definition update_participant :: "string \<Rightarrow> (room_participant \<Rightarrow> room_participant) \<Rightarrow> room_entry \<Rightarrow> int \<times> room_entry" where
  "update_participant pid f room =
     (case room_find_participant room pid of
        None \<Rightarrow> (-1, room)
      | Some i \<Rightarrow> let p = f (re_participants room ! i)
                 in (0, room_bump_version (room\<lparr>re_participants :=
                      (re_participants room)[i := p\<lparr>rp_version := rp_version p + 1\<rparr>]\<rparr>)))"

definition turbo_room_service_set_participant_session_state ::
  "room_service \<Rightarrow> cstring \<Rightarrow> cstring \<Rightarrow> session_state \<Rightarrow> int \<times> room_service" where
  "turbo_room_service_set_participant_session_state service room_id participant_id st =
     (case participant_id of
        None \<Rightarrow> (-1, service)
      | Some pid \<Rightarrow> if st = Session_Int 0 then (-1, service)
          else with_room service room_id (update_participant pid (\<lambda>p. p\<lparr>rp_session_state := st\<rparr>)))"

definition turbo_room_service_set_participant_bandwidth ::
  "room_service \<Rightarrow> cstring \<Rightarrow> cstring \<Rightarrow> int \<Rightarrow> int \<times> room_service" where
  "turbo_room_service_set_participant_bandwidth service room_id participant_id bps =
     (case participant_id of
        None \<Rightarrow> (-1, service)
      | Some pid \<Rightarrow> if bps < 0 then (-1, service)
          else with_room service room_id
            (update_participant pid (\<lambda>p. p\<lparr>rp_bandwidth_bps := bps, rp_has_explicit_bandwidth := True\<rparr>)))"

record participant_summary =
  pm_participant_id :: string
  pm_call_generation :: u64
  pm_user_id :: string
  pm_display_name :: string
  pm_role :: participant_role
  pm_join_state :: join_state
  pm_session_state :: session_state
  pm_bandwidth_bps :: int
  pm_version :: int

definition fill_participant_summary :: "room_participant \<Rightarrow> participant_summary" where
  "fill_participant_summary p =
     \<lparr>pm_participant_id = copy_string ID_MAX (Some (rp_participant_id p)), pm_call_generation = rp_call_generation p,
      pm_user_id = copy_string ID_MAX (Some (rp_user_id p)),
      pm_display_name = copy_string DISPLAY_NAME_MAX (Some (rp_display_name p)), pm_role = rp_role p,
      pm_join_state = rp_join_state p, pm_session_state = rp_session_state p,
      pm_bandwidth_bps = rp_bandwidth_bps p, pm_version = rp_version p\<rparr>"

definition turbo_room_service_get_participant_summary ::
  "room_service \<Rightarrow> cstring \<Rightarrow> cstring \<Rightarrow> participant_summary option" where
  "turbo_room_service_get_participant_summary service room_id participant_id =
     (case (participant_id, room_at service room_id) of
        (Some pid, Some room) \<Rightarrow> map_option fill_participant_summary (participant_at room pid)
      | _ \<Rightarrow> None)"

definition summary_at :: "'a list \<Rightarrow> int \<Rightarrow> ('a \<Rightarrow> 'b) \<Rightarrow> 'b option" where
  "summary_at xs index fill =
     (if index < 0 \<or> int (length xs) \<le> index then None else Some (fill (xs ! nat index)))"

definition turbo_room_service_get_participant_summary_at ::
  "room_service \<Rightarrow> cstring \<Rightarrow> int \<Rightarrow> participant_summary option" where
  "turbo_room_service_get_participant_summary_at service room_id index =
     Option.bind (room_at service room_id) (\<lambda>r. summary_at (re_participants r) index fill_participant_summary)"

text \<open>The budget is summed in an \<open>int\<close>: \<open>None\<close> is its overflow, which C leaves undefined.\<close>

definition subscription_budget :: "room_entry \<Rightarrow> string \<Rightarrow> room_subscription \<Rightarrow> int" where
  "subscription_budget room pid s =
     (if rb_subscriber_participant_id s \<noteq> pid \<or> \<not> rb_enabled s \<or> rb_muted s then 0
      else case track_at room (rb_track_id s) of
        None \<Rightarrow> 0
      | Some t \<Rightarrow>
          if rt_muted t then 0
          else if rt_kind t = TRACK_AUDIO then 64000
          else if rt_kind t = TRACK_VIDEO then video_subscription_budget_bps t (resolve_subscription_video_layer s)
          else 0)"

fun sum_int32 :: "int \<Rightarrow> int list \<Rightarrow> int option" where
  "sum_int32 acc [] = Some acc"
| "sum_int32 acc (x # xs) = (if acc + x < 2 ^ 31 then sum_int32 (acc + x) xs else None)"

definition turbo_room_service_get_effective_receiver_bandwidth ::
  "room_service \<Rightarrow> cstring \<Rightarrow> cstring \<Rightarrow> (int \<times> bool) option option" where
  "turbo_room_service_get_effective_receiver_bandwidth service room_id participant_id =
     (case (participant_id, room_at service room_id) of
        (Some pid, Some room) \<Rightarrow>
          (case participant_at room pid of
             None \<Rightarrow> Some None
           | Some p \<Rightarrow>
               if rp_has_explicit_bandwidth p then Some (Some (rp_bandwidth_bps p, True))
               else map_option (\<lambda>b. Some (b, False)) (sum_int32 0 (map (subscription_budget room pid) (re_subscriptions room))))
      | _ \<Rightarrow> Some None)"

section \<open>Tracks\<close>

record track_config =
  tc_track_id :: cstring
  tc_owner_participant_id :: cstring
  tc_kind :: track_kind
  tc_source :: track_source
  tc_codec_name :: cstring
  tc_simulcast_enabled :: int
  tc_main_ssrc :: u32
  tc_layer_ssrcs :: "u32 list option"
  tc_layer_count :: int

text \<open>The caller passes at least \<open>layer_count\<close> identifiers; the table keeps three.\<close>

definition config_layers :: "track_config \<Rightarrow> u32 list" where
  "config_layers config =
     (case tc_layer_ssrcs config of
        None \<Rightarrow> []
      | Some ssrcs \<Rightarrow> if 0 < tc_layer_count config then take (nat (min 3 (tc_layer_count config))) ssrcs else [])"

definition configure_track :: "track_config \<Rightarrow> room_track \<Rightarrow> room_track" where
  "configure_track config t =
     (let layers = config_layers config
      in t\<lparr>rt_owner_participant_id := copy_string ID_MAX (tc_owner_participant_id config), rt_kind := tc_kind config,
           rt_source := tc_source config, rt_codec_name := copy_string SHORT_NAME_MAX (tc_codec_name config),
           rt_simulcast_enabled := tc_simulcast_enabled config \<noteq> 0, rt_main_ssrc := tc_main_ssrc config,
           rt_layer_count := length layers, rt_layer_ssrcs := layers @ replicate (3 - length layers) 0,
           rt_version := rt_version t + 1\<rparr>)"

definition cleared_track :: "cstring \<Rightarrow> room_track" where
  "cleared_track track_id =
     \<lparr>rt_track_id = copy_string ID_MAX track_id, rt_owner_participant_id = '''', rt_kind = Track_Kind_Int 0,
      rt_source = Source_Int 0, rt_codec_name = '''', rt_simulcast_enabled = False, rt_muted = False,
      rt_main_ssrc = 0, rt_layer_ssrcs = [0, 0, 0], rt_layer_count = 0, rt_version = 0\<rparr>"

definition room_publish_track :: "allocator \<Rightarrow> track_config \<Rightarrow> room_entry \<Rightarrow> int \<times> room_entry" where
  "room_publish_track al config room =
     (case Option.bind (tc_owner_participant_id config) (participant_at room) of
        None \<Rightarrow> (-1, room)
      | Some owner \<Rightarrow>
          if \<not> role_can_publish (rp_role owner) then (-1, room)
          else case Option.bind (tc_track_id config) (find_track room) of
            Some i \<Rightarrow> (0, room_bump_version (room\<lparr>re_tracks := (re_tracks room)[i := configure_track config (re_tracks room ! i)]\<rparr>))
          | None \<Rightarrow>
              (case ensure_capacity al (re_track_capacity room) (length (re_tracks room) + 1) of
                 None \<Rightarrow> (-1, room)
               | Some c \<Rightarrow> (0, room_bump_version (room\<lparr>re_track_capacity := c,
                   re_tracks := re_tracks room @ [configure_track config (cleared_track (tc_track_id config))]\<rparr>))))"

definition turbo_room_service_publish_track ::
  "allocator \<Rightarrow> room_service \<Rightarrow> cstring \<Rightarrow> track_config \<Rightarrow> int \<times> room_service" where
  "turbo_room_service_publish_track al service room_id config =
     (if \<not> string_fits (tc_track_id config) ID_MAX False \<or> \<not> string_fits (tc_owner_participant_id config) ID_MAX False
         \<or> \<not> string_fits (tc_codec_name config) SHORT_NAME_MAX True then (-1, service)
      else with_room service room_id (room_publish_track al config))"

definition room_unpublish_track :: "string \<Rightarrow> room_entry \<Rightarrow> int \<times> room_entry" where
  "room_unpublish_track tid room =
     (let r1 = room\<lparr>re_subscriptions := remove_backwards (\<lambda>s. rb_track_id s = tid) (re_subscriptions room)\<rparr>
      in case find_track r1 tid of
           None \<Rightarrow> (-1, r1)
         | Some i \<Rightarrow> (0, room_bump_version (r1\<lparr>re_tracks := remove_at (re_tracks r1) i\<rparr>)))"

definition turbo_room_service_unpublish_track :: "room_service \<Rightarrow> cstring \<Rightarrow> cstring \<Rightarrow> int \<times> room_service" where
  "turbo_room_service_unpublish_track service room_id track_id =
     (case track_id of None \<Rightarrow> (-1, service) | Some tid \<Rightarrow> with_room service room_id (room_unpublish_track tid))"

definition room_set_track_muted :: "string \<Rightarrow> int \<Rightarrow> room_entry \<Rightarrow> int \<times> room_entry" where
  "room_set_track_muted tid muted room =
     (case find_track room tid of
        None \<Rightarrow> (-1, room)
      | Some i \<Rightarrow> let t = re_tracks room ! i
                 in (0, room_bump_version (room\<lparr>re_tracks := (re_tracks room)[i := t\<lparr>rt_muted := muted \<noteq> 0, rt_version := rt_version t + 1\<rparr>]\<rparr>)))"

definition turbo_room_service_set_track_muted :: "room_service \<Rightarrow> cstring \<Rightarrow> cstring \<Rightarrow> int \<Rightarrow> int \<times> room_service" where
  "turbo_room_service_set_track_muted service room_id track_id muted =
     (case track_id of None \<Rightarrow> (-1, service) | Some tid \<Rightarrow> with_room service room_id (room_set_track_muted tid muted))"

record track_summary =
  tm_track_id :: string
  tm_owner_participant_id :: string
  tm_kind :: track_kind
  tm_source :: track_source
  tm_codec_name :: string
  tm_simulcast_enabled :: bool
  tm_muted :: bool
  tm_main_ssrc :: u32
  tm_layer_ssrcs :: "u32 list"
  tm_layer_count :: nat
  tm_version :: int

definition fill_track_summary :: "room_track \<Rightarrow> track_summary" where
  "fill_track_summary t =
     \<lparr>tm_track_id = copy_string ID_MAX (Some (rt_track_id t)),
      tm_owner_participant_id = copy_string ID_MAX (Some (rt_owner_participant_id t)), tm_kind = rt_kind t,
      tm_source = rt_source t, tm_codec_name = copy_string SHORT_NAME_MAX (Some (rt_codec_name t)),
      tm_simulcast_enabled = rt_simulcast_enabled t, tm_muted = rt_muted t, tm_main_ssrc = rt_main_ssrc t,
      tm_layer_ssrcs = rt_layer_ssrcs t, tm_layer_count = rt_layer_count t, tm_version = rt_version t\<rparr>"

definition turbo_room_service_get_track_summary :: "room_service \<Rightarrow> cstring \<Rightarrow> cstring \<Rightarrow> track_summary option" where
  "turbo_room_service_get_track_summary service room_id track_id =
     (case (track_id, room_at service room_id) of
        (Some tid, Some room) \<Rightarrow> map_option fill_track_summary (track_at room tid)
      | _ \<Rightarrow> None)"

definition turbo_room_service_get_track_summary_at :: "room_service \<Rightarrow> cstring \<Rightarrow> int \<Rightarrow> track_summary option" where
  "turbo_room_service_get_track_summary_at service room_id index =
     Option.bind (room_at service room_id) (\<lambda>r. summary_at (re_tracks r) index fill_track_summary)"

section \<open>Subscriptions\<close>

record subscription_config =
  bc_subscriber_participant_id :: cstring
  bc_track_id :: cstring
  bc_enabled :: int
  bc_priority :: int
  bc_preferred_layer :: video_layer
  bc_target_layer :: video_layer
  bc_muted :: int
  bc_policy_source :: cstring

definition configure_subscription :: "subscription_config \<Rightarrow> room_subscription \<Rightarrow> room_subscription" where
  "configure_subscription config s =
     s\<lparr>rb_enabled := bc_enabled config \<noteq> 0, rb_priority := bc_priority config,
       rb_preferred_layer := bc_preferred_layer config, rb_target_layer := bc_target_layer config,
       rb_muted := bc_muted config \<noteq> 0, rb_policy_source := copy_string SHORT_NAME_MAX (bc_policy_source config),
       rb_version := rb_version s + 1\<rparr>"

definition room_set_subscription ::
  "allocator \<Rightarrow> string \<Rightarrow> string \<Rightarrow> subscription_config \<Rightarrow> room_entry \<Rightarrow> int \<times> room_entry" where
  "room_set_subscription al subscriber tid config room =
     (if room_find_participant room subscriber = None \<or> find_track room tid = None then (-1, room)
      else case find_subscription room subscriber tid of
        Some i \<Rightarrow> (0, room_bump_version (room\<lparr>re_subscriptions :=
            (re_subscriptions room)[i := configure_subscription config (re_subscriptions room ! i)]\<rparr>))
      | None \<Rightarrow>
          (case ensure_capacity al (re_subscription_capacity room) (length (re_subscriptions room) + 1) of
             None \<Rightarrow> (-1, room)
           | Some c \<Rightarrow> (0, room_bump_version (room\<lparr>re_subscription_capacity := c, re_subscriptions :=
               re_subscriptions room @ [configure_subscription config (cleared_subscription subscriber tid)]\<rparr>))))"

definition turbo_room_service_set_subscription ::
  "allocator \<Rightarrow> room_service \<Rightarrow> cstring \<Rightarrow> subscription_config \<Rightarrow> int \<times> room_service" where
  "turbo_room_service_set_subscription al service room_id config =
     (if \<not> string_fits (bc_subscriber_participant_id config) ID_MAX False \<or> \<not> string_fits (bc_track_id config) ID_MAX False
         \<or> \<not> string_fits (bc_policy_source config) SHORT_NAME_MAX True then (-1, service)
      else with_room service room_id
        (room_set_subscription al (the (bc_subscriber_participant_id config)) (the (bc_track_id config)) config))"

definition room_remove_subscription :: "string \<Rightarrow> string \<Rightarrow> room_entry \<Rightarrow> int \<times> room_entry" where
  "room_remove_subscription subscriber tid room =
     (case find_subscription room subscriber tid of
        None \<Rightarrow> (-1, room)
      | Some i \<Rightarrow> (0, room_bump_version (room\<lparr>re_subscriptions := remove_at (re_subscriptions room) i\<rparr>)))"

definition turbo_room_service_remove_subscription ::
  "room_service \<Rightarrow> cstring \<Rightarrow> cstring \<Rightarrow> cstring \<Rightarrow> int \<times> room_service" where
  "turbo_room_service_remove_subscription service room_id subscriber track_id =
     (case (subscriber, track_id) of
        (Some pid, Some tid) \<Rightarrow> with_room service room_id (room_remove_subscription pid tid)
      | _ \<Rightarrow> (-1, service))"

record subscription_summary =
  bm_subscriber_participant_id :: string
  bm_track_id :: string
  bm_enabled :: bool
  bm_priority :: int
  bm_preferred_layer :: video_layer
  bm_target_layer :: video_layer
  bm_muted :: bool
  bm_policy_source :: string
  bm_version :: int

definition fill_subscription_summary :: "room_subscription \<Rightarrow> subscription_summary" where
  "fill_subscription_summary s =
     \<lparr>bm_subscriber_participant_id = copy_string ID_MAX (Some (rb_subscriber_participant_id s)),
      bm_track_id = copy_string ID_MAX (Some (rb_track_id s)), bm_enabled = rb_enabled s, bm_priority = rb_priority s,
      bm_preferred_layer = rb_preferred_layer s, bm_target_layer = rb_target_layer s, bm_muted = rb_muted s,
      bm_policy_source = copy_string SHORT_NAME_MAX (Some (rb_policy_source s)), bm_version = rb_version s\<rparr>"

definition turbo_room_service_get_subscription_summary ::
  "room_service \<Rightarrow> cstring \<Rightarrow> cstring \<Rightarrow> cstring \<Rightarrow> subscription_summary option" where
  "turbo_room_service_get_subscription_summary service room_id subscriber track_id =
     (case (subscriber, track_id, room_at service room_id) of
        (Some pid, Some tid, Some room) \<Rightarrow>
          map_option (\<lambda>i. fill_subscription_summary (re_subscriptions room ! i)) (find_subscription room pid tid)
      | _ \<Rightarrow> None)"

definition turbo_room_service_get_subscription_summary_at ::
  "room_service \<Rightarrow> cstring \<Rightarrow> int \<Rightarrow> subscription_summary option" where
  "turbo_room_service_get_subscription_summary_at service room_id index =
     Option.bind (room_at service room_id) (\<lambda>r. summary_at (re_subscriptions r) index fill_subscription_summary)"

section \<open>Recording and layout\<close>

definition turbo_room_service_start_recording ::
  "room_service \<Rightarrow> cstring \<Rightarrow> cstring \<Rightarrow> cstring \<Rightarrow> int \<times> room_service" where
  "turbo_room_service_start_recording service room_id recording_id mode =
     (if \<not> string_fits recording_id ID_MAX False \<or> \<not> string_fits mode SHORT_NAME_MAX False then (-1, service)
      else with_room service room_id (\<lambda>r.
        if re_recording_state r = RECORDING_ACTIVE \<or> re_recording_state r = RECORDING_STARTING then (-1, r)
        else (0, room_bump_version (r\<lparr>re_recording_state := RECORDING_ACTIVE,
               re_recording_id := copy_string ID_MAX recording_id, re_recording_mode := copy_string SHORT_NAME_MAX mode\<rparr>))))"

definition turbo_room_service_stop_recording :: "room_service \<Rightarrow> cstring \<Rightarrow> int \<times> room_service" where
  "turbo_room_service_stop_recording service room_id =
     with_room service room_id (\<lambda>r.
       if re_recording_state r \<noteq> RECORDING_ACTIVE then (-1, r)
       else (0, room_bump_version (r\<lparr>re_recording_state := RECORDING_STOPPED\<rparr>)))"

definition turbo_room_service_set_layout_mode :: "room_service \<Rightarrow> cstring \<Rightarrow> layout_mode \<Rightarrow> int \<times> room_service" where
  "turbo_room_service_set_layout_mode service room_id mode =
     (if mode = Layout_Int 0 then (-1, service)
      else with_room service room_id (\<lambda>r. (0, room_bump_version (r\<lparr>re_layout_mode := mode\<rparr>))))"

text \<open>A participant is singled out by an id of the room, nobody by an empty or a null one.\<close>

definition room_names_nobody_or :: "cstring \<Rightarrow> room_entry \<Rightarrow> bool" where
  "room_names_nobody_or participant_id room \<longleftrightarrow>
     (case participant_id of None \<Rightarrow> True | Some pid \<Rightarrow> pid = '''' \<or> room_find_participant room pid \<noteq> None)"

definition turbo_room_service_set_active_speaker :: "room_service \<Rightarrow> cstring \<Rightarrow> cstring \<Rightarrow> int \<times> room_service" where
  "turbo_room_service_set_active_speaker service room_id participant_id =
     (if \<not> string_fits participant_id ID_MAX True then (-1, service)
      else with_room service room_id (\<lambda>r.
        if \<not> room_names_nobody_or participant_id r then (-1, r)
        else (0, room_bump_version (r\<lparr>re_active_speaker_participant_id := copy_string ID_MAX participant_id\<rparr>))))"

definition turbo_room_service_pin_participant :: "room_service \<Rightarrow> cstring \<Rightarrow> cstring \<Rightarrow> int \<times> room_service" where
  "turbo_room_service_pin_participant service room_id participant_id =
     (if \<not> string_fits participant_id ID_MAX True then (-1, service)
      else with_room service room_id (\<lambda>r.
        if \<not> room_names_nobody_or participant_id r then (-1, r)
        else (0, room_bump_version (r\<lparr>re_pinned_participant_id := copy_string ID_MAX participant_id\<rparr>))))"

section \<open>Reconciling subscriptions\<close>

definition is_valid_call_center_supervisor_mode :: "supervisor_mode \<Rightarrow> bool" where
  "is_valid_call_center_supervisor_mode mode \<longleftrightarrow>
     mode = SUPERVISOR_NONE \<or> mode = SUPERVISOR_MONITOR \<or> mode = SUPERVISOR_WHISPER \<or> mode = SUPERVISOR_BARGE"

text \<open>Whether the subscriber may receive the owner's track, and the policy that allows it.\<close>

definition call_center_subscription_allowed ::
  "room_entry \<Rightarrow> room_participant \<Rightarrow> room_participant option \<Rightarrow> room_track \<Rightarrow> supervisor_mode \<Rightarrow> string option" where
  "call_center_subscription_allowed room subscriber owner track mode =
     (case owner of None \<Rightarrow> None | Some own \<Rightarrow>
      if rp_participant_id subscriber = rp_participant_id own then None
      else if room_has_call_center_topology room
      then (if is_call_center_primary_endpoint room subscriber \<and> is_call_center_primary_endpoint room own
            then Some ''call_center_call''
            else if re_call_center_consult_agent_participant_id room \<noteq> '''' \<and>
              is_call_center_customer_participant room subscriber \<and> is_call_center_consult_agent_participant room own
            then None
            else if re_call_center_consult_agent_participant_id room \<noteq> '''' \<and>
              is_call_center_primary_agent_participant room subscriber \<and> is_call_center_consult_agent_participant room own
            then Some ''call_center_consult''
            else if re_call_center_consult_agent_participant_id room \<noteq> '''' \<and>
              is_call_center_consult_agent_participant room subscriber \<and>
              (is_call_center_primary_agent_participant room own \<or> is_call_center_customer_participant room own)
            then Some ''call_center_consult''
            else if rp_role subscriber = ROLE_SUPERVISOR \<and> is_call_center_observable_participant room own
              \<and> mode \<noteq> SUPERVISOR_NONE
            then Some ''call_center_monitor''
            else if (rp_role subscriber = ROLE_QA_OBSERVER \<or> rp_role subscriber = ROLE_BOT)
              \<and> is_call_center_observable_participant room own
            then Some ''call_center_observe''
            else if rp_role own = ROLE_SUPERVISOR \<and> is_call_center_engaged_agent_participant room subscriber
              \<and> mode = SUPERVISOR_WHISPER \<and> rt_kind track = TRACK_AUDIO
            then Some ''call_center_whisper''
            else if rp_role own = ROLE_SUPERVISOR \<and> is_call_center_observable_participant room subscriber
              \<and> mode = SUPERVISOR_BARGE
            then Some ''call_center_barge''
            else None)
      else if is_call_center_primary_role (rp_role subscriber) \<and> is_call_center_primary_role (rp_role own)
      then Some ''call_center_call''
      else if rp_role subscriber = ROLE_SUPERVISOR \<and> is_call_center_primary_role (rp_role own) \<and> mode \<noteq> SUPERVISOR_NONE
      then Some ''call_center_monitor''
      else if (rp_role subscriber = ROLE_QA_OBSERVER \<or> rp_role subscriber = ROLE_BOT)
        \<and> is_call_center_primary_role (rp_role own)
      then Some ''call_center_observe''
      else if rp_role own = ROLE_SUPERVISOR \<and> rp_role subscriber = ROLE_AGENT \<and> mode = SUPERVISOR_WHISPER
        \<and> rt_kind track = TRACK_AUDIO
      then Some ''call_center_whisper''
      else if rp_role own = ROLE_SUPERVISOR \<and> is_call_center_primary_role (rp_role subscriber) \<and> mode = SUPERVISOR_BARGE
      then Some ''call_center_barge''
      else None)"

definition derive_call_center_subscription :: "room_track \<Rightarrow> string \<Rightarrow> derived_subscription" where
  "derive_call_center_subscription track policy =
     (if rt_muted track
      then \<lparr>ds_enabled = False, ds_priority = 0, ds_layer = LAYER_NONE, ds_policy_source = ''call_center_muted''\<rparr>
      else if rt_kind track = TRACK_AUDIO
      then \<lparr>ds_enabled = True, ds_priority = 100, ds_layer = LAYER_NONE, ds_policy_source = policy\<rparr>
      else if rt_source track = SOURCE_SCREEN
      then \<lparr>ds_enabled = True, ds_priority = 95, ds_layer = LAYER_HIGH, ds_policy_source = ''call_center_screenshare''\<rparr>
      else \<lparr>ds_enabled = True, ds_priority = 40, ds_layer = LAYER_LOW, ds_policy_source = policy\<rparr>)"

text \<open>The nested loops over participants and tracks: \<open>want\<close> is what the body decides for one pair
  (\<open>None\<close> passes it over; a subscription is created but left alone where it derives nothing).  A
  failed allocation stops them where they are.\<close>

fun reconcile_pairs ::
  "allocator \<Rightarrow> (room_entry \<Rightarrow> room_participant \<Rightarrow> room_track \<Rightarrow> derived_subscription option option) \<Rightarrow>
   (nat \<times> nat) list \<Rightarrow> room_entry \<Rightarrow> bool \<Rightarrow> (bool \<times> room_entry) + room_entry" where
  "reconcile_pairs al want [] room changed = Inl (changed, room)"
| "reconcile_pairs al want ((i, j) # ps) room changed =
     (let subscriber = re_participants room ! i; track = re_tracks room ! j
      in case want room subscriber track of
        None \<Rightarrow> reconcile_pairs al want ps room changed
      | Some derived \<Rightarrow>
          (case ensure_subscription al room (rp_participant_id subscriber) (rt_track_id track) of
             None \<Rightarrow> Inr room
           | Some (k, r1) \<Rightarrow>
               (case derived of
                  None \<Rightarrow> reconcile_pairs al want ps r1 changed
                | Some d \<Rightarrow>
                    (let (ch, s) = apply_derived (re_subscriptions r1 ! k) d
                     in reconcile_pairs al want ps (r1\<lparr>re_subscriptions := (re_subscriptions r1)[k := s]\<rparr>) (changed \<or> ch)))))"

definition reconcile_all ::
  "allocator \<Rightarrow> (room_entry \<Rightarrow> room_participant \<Rightarrow> room_track \<Rightarrow> derived_subscription option option) \<Rightarrow>
   room_entry \<Rightarrow> bool \<Rightarrow> int \<times> room_entry" where
  "reconcile_all al want room changed =
     (case reconcile_pairs al want (List.product [0..<length (re_participants room)] [0..<length (re_tracks room)]) room changed of
        Inr r \<Rightarrow> (-1, r)
      | Inl (ch, r) \<Rightarrow> (0, if ch then room_bump_version r else r))"

definition layout_wants :: "room_entry \<Rightarrow> room_participant \<Rightarrow> room_track \<Rightarrow> derived_subscription option option" where
  "layout_wants room subscriber track =
     (if rp_participant_id subscriber = rt_owner_participant_id track then None
      else if rt_kind track = TRACK_AUDIO
      then Some (Some \<lparr>ds_enabled = \<not> rt_muted track, ds_priority = 100, ds_layer = LAYER_NONE, ds_policy_source = ''layout_audio''\<rparr>)
      else if rt_kind track = TRACK_VIDEO then Some (Some (derive_video_subscription room track))
      else Some None)"

definition turbo_room_service_reconcile_subscriptions :: "allocator \<Rightarrow> room_service \<Rightarrow> cstring \<Rightarrow> int \<times> room_service" where
  "turbo_room_service_reconcile_subscriptions al service room_id =
     with_room service room_id (\<lambda>room. reconcile_all al layout_wants room False)"

definition call_center_wants ::
  "supervisor_mode \<Rightarrow> room_entry \<Rightarrow> room_participant \<Rightarrow> room_track \<Rightarrow> derived_subscription option option" where
  "call_center_wants mode room subscriber track =
     map_option (\<lambda>policy. Some (derive_call_center_subscription track policy))
       (call_center_subscription_allowed room subscriber (participant_at room (rt_owner_participant_id track)) track mode)"

definition call_center_forbids :: "supervisor_mode \<Rightarrow> room_entry \<Rightarrow> room_subscription \<Rightarrow> bool" where
  "call_center_forbids mode room s =
     (case (participant_at room (rb_subscriber_participant_id s), track_at room (rb_track_id s)) of
        (Some subscriber, Some track) \<Rightarrow>
          call_center_subscription_allowed room subscriber (participant_at room (rt_owner_participant_id track)) track mode = None
      | _ \<Rightarrow> True)"

definition room_reconcile_call_center :: "allocator \<Rightarrow> supervisor_mode \<Rightarrow> room_entry \<Rightarrow> int \<times> room_entry" where
  "room_reconcile_call_center al mode room =
     (let kept = remove_backwards (call_center_forbids mode room) (re_subscriptions room)
      in reconcile_all al (call_center_wants mode) (room\<lparr>re_subscriptions := kept\<rparr>)
           (length kept \<noteq> length (re_subscriptions room)))"

definition turbo_room_service_reconcile_call_center_subscriptions ::
  "allocator \<Rightarrow> room_service \<Rightarrow> cstring \<Rightarrow> supervisor_mode \<Rightarrow> int \<times> room_service" where
  "turbo_room_service_reconcile_call_center_subscriptions al service room_id mode =
     (if \<not> is_valid_call_center_supervisor_mode mode then (-1, service)
      else with_room service room_id (room_reconcile_call_center al mode))"

section \<open>Rooms of the call centre\<close>

definition turbo_room_service_start_call_center_room ::
  "allocator \<Rightarrow> room_service \<Rightarrow> cstring \<Rightarrow> cstring \<Rightarrow> cstring \<Rightarrow> int \<times> room_service" where
  "turbo_room_service_start_call_center_room al service room_id customer_id agent_id =
     (if \<not> string_fits customer_id ID_MAX False \<or> \<not> string_fits agent_id ID_MAX False then (-1, service)
      else case room_at service room_id of
        None \<Rightarrow> (-1, service)
      | Some room \<Rightarrow>
          (case (Option.bind customer_id (participant_at room), Option.bind agent_id (participant_at room)) of
             (Some customer, Some agent) \<Rightarrow>
               if rp_role customer \<noteq> ROLE_CUSTOMER \<or> rp_role agent \<noteq> ROLE_AGENT then (-1, service)
               else (let (rc, s1) = set_call_center_agent_state_locked al service (the agent_id) AGENT_BUSY
                     in if rc \<noteq> 0 then (-1, s1)
                        else with_room s1 room_id (\<lambda>r. (0, room_bump_call_center_version
                          (r\<lparr>re_call_center_state := CC_ROOM_ACTIVE,
                             re_call_center_customer_participant_id := copy_string ID_MAX customer_id,
                             re_call_center_agent_participant_id := copy_string ID_MAX agent_id,
                             re_call_center_consult_agent_participant_id := '''', re_call_center_disposition_code := ''''\<rparr>))))
           | _ \<Rightarrow> (-1, service)))"

definition turbo_room_service_set_call_center_consult_agent ::
  "allocator \<Rightarrow> room_service \<Rightarrow> cstring \<Rightarrow> cstring \<Rightarrow> int \<times> room_service" where
  "turbo_room_service_set_call_center_consult_agent al service room_id consult_id =
     (if \<not> string_fits consult_id ID_MAX False then (-1, service)
      else case room_at service room_id of
        None \<Rightarrow> (-1, service)
      | Some room \<Rightarrow>
          (case Option.bind consult_id (participant_at room) of
             None \<Rightarrow> (-1, service)
           | Some consult \<Rightarrow>
               if re_call_center_state room \<noteq> CC_ROOM_ACTIVE \<or> re_call_center_agent_participant_id room = ''''
                  \<or> rp_role consult \<noteq> ROLE_AGENT \<or> re_call_center_agent_participant_id room = the consult_id
               then (-1, service)
               else (let previous = copy_string ID_MAX (Some (re_call_center_consult_agent_participant_id room));
                         replaces = previous \<noteq> '''' \<and> previous \<noteq> the consult_id;
                         (rc1, s1) = (if replaces then set_call_center_agent_state_locked al service previous AGENT_AVAILABLE
                                      else (0, service))
                     in if rc1 \<noteq> 0 then (-1, s1)
                        else (let (rc2, s2) = set_call_center_agent_state_locked al s1 (the consult_id) AGENT_BUSY
                              in if rc2 \<noteq> 0
                                 then (-1, if replaces then snd (set_call_center_agent_state_locked al s2 previous AGENT_BUSY) else s2)
                                 else with_room s2 room_id (\<lambda>r. (0, room_bump_call_center_version
                                   (r\<lparr>re_call_center_consult_agent_participant_id := copy_string ID_MAX consult_id\<rparr>)))))))"

definition turbo_room_service_complete_call_center_transfer ::
  "allocator \<Rightarrow> room_service \<Rightarrow> cstring \<Rightarrow> agent_state \<Rightarrow> int \<times> room_service" where
  "turbo_room_service_complete_call_center_transfer al service room_id released_state =
     (if \<not> (released_state = AGENT_AVAILABLE \<or> released_state = AGENT_OFFLINE \<or> released_state = AGENT_WRAP_UP)
      then (-1, service)
      else case room_at service room_id of
        None \<Rightarrow> (-1, service)
      | Some room \<Rightarrow>
          (case (participant_at room (re_call_center_agent_participant_id room),
                 participant_at room (re_call_center_consult_agent_participant_id room)) of
             (Some agent, Some consult) \<Rightarrow>
               if re_call_center_state room \<noteq> CC_ROOM_ACTIVE \<or> rp_role agent \<noteq> ROLE_AGENT \<or> rp_role consult \<noteq> ROLE_AGENT
               then (-1, service)
               else (let released = copy_string ID_MAX (Some (re_call_center_agent_participant_id room));
                         new = copy_string ID_MAX (Some (re_call_center_consult_agent_participant_id room));
                         (rc1, s1) = set_call_center_agent_state_locked al service released released_state
                     in if rc1 \<noteq> 0 then (-1, s1)
                        else (let (rc2, s2) = set_call_center_agent_state_locked al s1 new AGENT_BUSY
                              in if rc2 \<noteq> 0 then (-1, snd (set_call_center_agent_state_locked al s2 released AGENT_BUSY))
                                 else with_room s2 room_id (\<lambda>r. (0, room_bump_call_center_version
                                   (r\<lparr>re_call_center_agent_participant_id := copy_string ID_MAX (Some new),
                                      re_call_center_consult_agent_participant_id := ''''\<rparr>)))))
           | _ \<Rightarrow> (-1, service)))"

definition turbo_room_service_finalize_call_center_room ::
  "allocator \<Rightarrow> room_service \<Rightarrow> cstring \<Rightarrow> cc_room_state \<Rightarrow> cstring \<Rightarrow> agent_state \<Rightarrow> int \<times> room_service" where
  "turbo_room_service_finalize_call_center_room al service room_id st disposition agent_st =
     (if \<not> string_fits disposition ID_MAX True \<or> \<not> is_valid_call_center_room_state st
         \<or> \<not> is_valid_call_center_agent_state agent_st then (-1, service)
      else if (st = CC_ROOM_WRAP_UP \<and> \<not> (agent_st = AGENT_WRAP_UP \<or> agent_st = AGENT_OFFLINE))
         \<or> (st = CC_ROOM_COMPLETED \<and> \<not> (agent_st = AGENT_AVAILABLE \<or> agent_st = AGENT_OFFLINE)) then (-1, service)
      else case room_at service room_id of
        None \<Rightarrow> (-1, service)
      | Some room \<Rightarrow>
          if re_call_center_state room = CC_ROOM_NONE \<or> re_call_center_agent_participant_id room = '''' then (-1, service)
          else (let (rc, s1) = set_call_center_agent_state_locked al service (re_call_center_agent_participant_id room) agent_st
                in if rc \<noteq> 0 then (-1, s1)
                   else with_room s1 room_id (\<lambda>r. (0, room_bump_call_center_version
                     (r\<lparr>re_call_center_state := st, re_call_center_disposition_code := copy_string ID_MAX disposition\<rparr>)))))"

record call_center_room_summary =
  cm_room_id :: string
  cm_state :: cc_room_state
  cm_customer_participant_id :: string
  cm_agent_participant_id :: string
  cm_consult_agent_participant_id :: string
  cm_disposition_code :: string
  cm_version :: int

definition turbo_room_service_get_call_center_room_summary ::
  "room_service \<Rightarrow> cstring \<Rightarrow> call_center_room_summary option" where
  "turbo_room_service_get_call_center_room_summary service room_id =
     (case room_at service room_id of
        None \<Rightarrow> None
      | Some r \<Rightarrow>
          if re_call_center_state r = CC_ROOM_NONE then None
          else Some \<lparr>cm_room_id = copy_string ID_MAX (Some (re_room_id r)), cm_state = re_call_center_state r,
            cm_customer_participant_id = copy_string ID_MAX (Some (re_call_center_customer_participant_id r)),
            cm_agent_participant_id = copy_string ID_MAX (Some (re_call_center_agent_participant_id r)),
            cm_consult_agent_participant_id = copy_string ID_MAX (Some (re_call_center_consult_agent_participant_id r)),
            cm_disposition_code = copy_string ID_MAX (Some (re_call_center_disposition_code r)),
            cm_version = re_call_center_version r\<rparr>)"

end
