(* ===== verification/Call_Queue.thy ===== *)
theory Call_Queue
  imports Room_Model
begin

text \<open>
  The waiting queues of the call centre (\<open>webrtc/src/conference/turbo_room_service.c\<close>): callers and agents
  wait in named queues, a match claims the best of each side and reserves the agent, the claim is
  then completed, rolled back or, after its lease, recovered.
\<close>

section \<open>The operations\<close>

definition is_active_call_center_queue_entry_state :: "entry_state \<Rightarrow> bool" where
  "is_active_call_center_queue_entry_state st \<longleftrightarrow> st = ENTRY_QUEUED \<or> st = ENTRY_CLAIMED"

definition call_center_queue_claim_is_expired :: "call_center_queue_entry \<Rightarrow> u64 \<Rightarrow> u64 \<Rightarrow> bool" where
  "call_center_queue_claim_is_expired e now_ms lease_ms \<longleftrightarrow>
     lease_ms = 0 \<or> (qe_claimed_at_ms e \<noteq> 0 \<and> lease_ms \<le> now_ms - qe_claimed_at_ms e)"

definition update_entry :: "room_service \<Rightarrow> nat \<Rightarrow> call_center_queue_entry \<Rightarrow> room_service" where
  "update_entry service i e = service\<lparr>sv_queue_entries := (sv_queue_entries service)[i := e]\<rparr>"

definition set_entry_state :: "entry_state \<Rightarrow> u64 \<Rightarrow> call_center_queue_entry \<Rightarrow> call_center_queue_entry" where
  "set_entry_state st claimed_at e = e\<lparr>qe_state := st, qe_claimed_at_ms := claimed_at, qe_version := qe_version e + 1\<rparr>"

definition recover_entry ::
  "allocator \<Rightarrow> string \<Rightarrow> u64 \<Rightarrow> u64 \<Rightarrow> nat \<Rightarrow> nat \<times> room_service \<Rightarrow> nat \<times> room_service" where
  "recover_entry al queue_id lease_ms now_ms i cs =
     (let (count, service) = cs; e = sv_queue_entries service ! i
      in if qe_queue_id e \<noteq> queue_id \<or> qe_state e \<noteq> ENTRY_CLAIMED \<or> \<not> call_center_queue_claim_is_expired e now_ms lease_ms
         then (count, service)
         else let s1 = update_entry service i (set_entry_state ENTRY_QUEUED 0 e)
              in (count + 1, if qe_side e = QUEUE_CALLEE
                             then snd (set_call_center_agent_state_locked al s1 (qe_endpoint_id e) AGENT_AVAILABLE) else s1))"

definition recover_stale_call_center_queue_claims_locked ::
  "allocator \<Rightarrow> u64 \<Rightarrow> room_service \<Rightarrow> string \<Rightarrow> u64 \<Rightarrow> nat \<times> room_service" where
  "recover_stale_call_center_queue_claims_locked al now_ms service queue_id lease_ms =
     fold (recover_entry al queue_id lease_ms now_ms) [0..<length (sv_queue_entries service)] (0, service)"

definition find_call_center_queue_entry :: "room_service \<Rightarrow> string \<Rightarrow> queue_side \<Rightarrow> string \<Rightarrow> nat option" where
  "find_call_center_queue_entry service queue_id side entry_id =
     (if \<not> is_valid_call_center_queue_side side then None
      else first_below (length (sv_queue_entries service))
        (\<lambda>e. qe_side e = side \<and> qe_queue_id e = queue_id \<and> qe_entry_id e = entry_id) (sv_queue_entries service))"

definition queue_candidate :: "room_service \<Rightarrow> string \<Rightarrow> queue_side \<Rightarrow> call_center_queue_entry \<Rightarrow> bool" where
  "queue_candidate service queue_id side e \<longleftrightarrow>
     qe_side e = side \<and> qe_queue_id e = queue_id \<and> qe_state e = ENTRY_QUEUED \<and>
     (side = QUEUE_CALLEE \<longrightarrow> fst (get_call_center_agent_effective_state service (qe_endpoint_id e)) = AGENT_AVAILABLE)"

definition outranks :: "call_center_queue_entry \<Rightarrow> call_center_queue_entry \<Rightarrow> bool" where
  "outranks a b \<longleftrightarrow> qe_priority b < qe_priority a \<or> (qe_priority a = qe_priority b \<and> qe_sequence a < qe_sequence b)"

definition find_best_call_center_queue_entry_index :: "room_service \<Rightarrow> string \<Rightarrow> queue_side \<Rightarrow> nat option" where
  "find_best_call_center_queue_entry_index service queue_id side =
     (if \<not> is_valid_call_center_queue_side side then None
      else fold (\<lambda>i best.
        let e = sv_queue_entries service ! i
        in if \<not> queue_candidate service queue_id side e then best
           else case best of
             None \<Rightarrow> Some i
           | Some b \<Rightarrow>
               let be = sv_queue_entries service ! b
               in if outranks e be then Some i else best)
        [0..<length (sv_queue_entries service)] None)"

record queue_entry_summary =
  qm_queue_id :: string
  qm_side :: queue_side
  qm_entry_id :: string
  qm_endpoint_id :: string
  qm_priority :: int
  qm_sequence :: int
  qm_version :: int

definition fill_call_center_queue_entry_summary :: "call_center_queue_entry \<Rightarrow> queue_entry_summary" where
  "fill_call_center_queue_entry_summary e =
     \<lparr>qm_queue_id = copy_string ID_MAX (Some (qe_queue_id e)), qm_side = qe_side e,
      qm_entry_id = copy_string ID_MAX (Some (qe_entry_id e)),
      qm_endpoint_id = copy_string ID_MAX (Some (qe_endpoint_id e)), qm_priority = qe_priority e,
      qm_sequence = qe_sequence e, qm_version = qe_version e\<rparr>"

definition copy_call_center_queue_entry :: "call_center_queue_entry \<Rightarrow> entry_state \<Rightarrow> call_center_queue_entry" where
  "copy_call_center_queue_entry src st =
     \<lparr>qe_queue_id = copy_string ID_MAX (Some (qe_queue_id src)), qe_side = qe_side src,
      qe_entry_id = copy_string ID_MAX (Some (qe_entry_id src)),
      qe_endpoint_id = copy_string ID_MAX (Some (qe_endpoint_id src)), qe_priority = qe_priority src,
      qe_sequence = qe_sequence src, qe_version = qe_version src, qe_claimed_at_ms = qe_claimed_at_ms src, qe_state = st\<rparr>"

text \<open>Compaction in place: a write index behind the read index.\<close>

definition compact_step ::
  "nat \<Rightarrow> nat \<times> call_center_queue_entry list \<Rightarrow> nat \<times> call_center_queue_entry list" where
  "compact_step r ws =
     (let (w, es) = ws; e = es ! r
      in if \<not> is_active_call_center_queue_entry_state (qe_state e) then (w, es)
         else (w + 1, if w \<noteq> r then es[w := copy_call_center_queue_entry e (qe_state e)] else es))"

definition compact_call_center_queue_entries_locked :: "room_service \<Rightarrow> room_service" where
  "compact_call_center_queue_entries_locked service =
     (let (w, es) = fold compact_step [0..<length (sv_queue_entries service)] (0, sv_queue_entries service)
      in service\<lparr>sv_queue_entries := take w es\<rparr>)"

text \<open>The compare-and-swap on an entry's state; \<open>now_ms\<close> is the clock it reads when it claims.\<close>

definition mark_call_center_queue_entry_state ::
  "u64 \<Rightarrow> room_service \<Rightarrow> nat \<Rightarrow> entry_state \<Rightarrow> entry_state \<Rightarrow> int \<times> room_service" where
  "mark_call_center_queue_entry_state now_ms service i expected desired =
     (let e = sv_queue_entries service ! i
      in if qe_state e \<noteq> expected then (-1, service)
         else (0, update_entry service i (set_entry_state desired (if desired = ENTRY_CLAIMED then now_ms else 0) e)))"

record queue_entry_config =
  qc_queue_id :: cstring
  qc_side :: queue_side
  qc_entry_id :: cstring
  qc_endpoint_id :: cstring
  qc_priority :: int

definition queue_config_ok :: "queue_entry_config \<Rightarrow> bool" where
  "queue_config_ok config \<longleftrightarrow>
     string_fits (qc_queue_id config) ID_MAX False \<and> string_fits (qc_entry_id config) ID_MAX False \<and>
     string_fits (qc_endpoint_id config) ID_MAX False \<and> is_valid_call_center_queue_side (qc_side config)"

definition turbo_room_service_enqueue_call_center_queue_entry ::
  "allocator \<Rightarrow> room_service \<Rightarrow> queue_entry_config \<Rightarrow> int \<times> room_service" where
  "turbo_room_service_enqueue_call_center_queue_entry al service config =
     (if \<not> queue_config_ok config then (-1, service)
      else case find_call_center_queue_entry service (the (qc_queue_id config)) (qc_side config) (the (qc_entry_id config)) of
        None \<Rightarrow>
          (let s1 = compact_call_center_queue_entries_locked service
           in case ensure_capacity al (sv_queue_capacity s1) (length (sv_queue_entries s1) + 1) of
             None \<Rightarrow> (-1, s1)
           | Some c \<Rightarrow>
               (0, s1\<lparr>sv_queue_capacity := c, sv_next_queue_sequence := sv_next_queue_sequence s1 + 1,
                  sv_queue_entries := sv_queue_entries s1 @
                    [\<lparr>qe_queue_id = copy_string ID_MAX (qc_queue_id config), qe_side = qc_side config,
                      qe_entry_id = copy_string ID_MAX (qc_entry_id config),
                      qe_endpoint_id = copy_string ID_MAX (qc_endpoint_id config), qe_priority = qc_priority config,
                      qe_sequence = sv_next_queue_sequence s1 + 1, qe_version = 1, qe_claimed_at_ms = 0,
                      qe_state = ENTRY_QUEUED\<rparr>]\<rparr>))
      | Some i \<Rightarrow>
          (let e = sv_queue_entries service ! i
           in if qe_state e = ENTRY_CLAIMED then (-1, service)
              else if qe_state e \<noteq> ENTRY_QUEUED
              then (0, (update_entry service i
                     (e\<lparr>qe_endpoint_id := copy_string ID_MAX (qc_endpoint_id config), qe_priority := qc_priority config,
                        qe_sequence := sv_next_queue_sequence service + 1, qe_version := qe_version e + 1,
                        qe_claimed_at_ms := 0, qe_state := ENTRY_QUEUED\<rparr>))
                     \<lparr>sv_next_queue_sequence := sv_next_queue_sequence service + 1\<rparr>)
              else let changed = (qe_endpoint_id e \<noteq> the (qc_endpoint_id config) \<or> qe_priority e \<noteq> qc_priority config)
                   in (0, update_entry service i
                     (e\<lparr>qe_endpoint_id := (if qe_endpoint_id e \<noteq> the (qc_endpoint_id config)
                          then copy_string ID_MAX (qc_endpoint_id config) else qe_endpoint_id e),
                        qe_priority := qc_priority config,
                        qe_version := (if changed then qe_version e + 1 else qe_version e)\<rparr>))))"

definition turbo_room_service_remove_call_center_queue_entry ::
  "room_service \<Rightarrow> cstring \<Rightarrow> queue_side \<Rightarrow> cstring \<Rightarrow> int \<times> room_service" where
  "turbo_room_service_remove_call_center_queue_entry service queue_id side entry_id =
     (case (queue_id, entry_id) of
        (Some q, Some en) \<Rightarrow>
          (case find_call_center_queue_entry service q side en of
             None \<Rightarrow> (-1, service)
           | Some i \<Rightarrow> mark_call_center_queue_entry_state 0 service i ENTRY_QUEUED ENTRY_CANCELED)
      | _ \<Rightarrow> (-1, service))"

abbreviation recover_default :: "allocator \<Rightarrow> u64 \<Rightarrow> room_service \<Rightarrow> string \<Rightarrow> room_service" where
  "recover_default al now service q \<equiv>
     snd (recover_stale_call_center_queue_claims_locked al now service q DEFAULT_CLAIM_LEASE_MS)"

definition turbo_room_service_get_call_center_queue_depth ::
  "allocator \<Rightarrow> u64 \<Rightarrow> room_service \<Rightarrow> cstring \<Rightarrow> queue_side \<Rightarrow> nat option \<times> room_service" where
  "turbo_room_service_get_call_center_queue_depth al now service queue_id side =
     (case queue_id of
        None \<Rightarrow> (None, service)
      | Some q \<Rightarrow>
          if \<not> is_valid_call_center_queue_side side then (None, service)
          else let s1 = recover_default al now service q
               in (Some (length (filter (\<lambda>e. qe_side e = side \<and> qe_queue_id e = q \<and> qe_state e = ENTRY_QUEUED)
                     (sv_queue_entries s1))), s1))"

definition turbo_room_service_peek_call_center_queue_entry ::
  "allocator \<Rightarrow> u64 \<Rightarrow> room_service \<Rightarrow> cstring \<Rightarrow> queue_side \<Rightarrow> queue_entry_summary option \<times> room_service" where
  "turbo_room_service_peek_call_center_queue_entry al now service queue_id side =
     (case queue_id of
        None \<Rightarrow> (None, service)
      | Some q \<Rightarrow>
          if \<not> is_valid_call_center_queue_side side then (None, service)
          else let s1 = recover_default al now service q
               in (map_option (\<lambda>i. fill_call_center_queue_entry_summary (sv_queue_entries s1 ! i))
                     (find_best_call_center_queue_entry_index s1 q side), s1))"

definition turbo_room_service_pop_call_center_queue_entry ::
  "allocator \<Rightarrow> u64 \<Rightarrow> room_service \<Rightarrow> cstring \<Rightarrow> queue_side \<Rightarrow> queue_entry_summary option \<times> room_service" where
  "turbo_room_service_pop_call_center_queue_entry al now service queue_id side =
     (case queue_id of
        None \<Rightarrow> (None, service)
      | Some q \<Rightarrow>
          if \<not> is_valid_call_center_queue_side side then (None, service)
          else let s1 = recover_default al now service q
               in case find_best_call_center_queue_entry_index s1 q side of
                 None \<Rightarrow> (None, s1)
               | Some i \<Rightarrow>
                   (let (rc, s2) = mark_call_center_queue_entry_state now s1 i ENTRY_QUEUED ENTRY_CANCELED
                    in if rc \<noteq> 0 then (None, s2)
                       else (Some (fill_call_center_queue_entry_summary (sv_queue_entries s1 ! i)), s2)))"

text \<open>A match: \<open>Inl\<close> is the error return, \<open>Inr None\<close> that nobody matches.  The clock is read at
  each of the two claims.\<close>

definition claim_call_center_queue_match_locked ::
  "allocator \<Rightarrow> u64 \<Rightarrow> u64 \<Rightarrow> room_service \<Rightarrow> string \<Rightarrow>
   (unit + (queue_entry_summary \<times> queue_entry_summary) option) \<times> room_service" where
  "claim_call_center_queue_match_locked al t1 t2 service q =
     (case (find_best_call_center_queue_entry_index service q QUEUE_CALLER,
            find_best_call_center_queue_entry_index service q QUEUE_CALLEE) of
        (Some caller, Some callee) \<Rightarrow>
          (let (rc1, s1) = mark_call_center_queue_entry_state t1 service caller ENTRY_QUEUED ENTRY_CLAIMED
           in if rc1 \<noteq> 0 then (Inl (), s1)
              else let (rc2, s2) = mark_call_center_queue_entry_state t2 s1 callee ENTRY_QUEUED ENTRY_CLAIMED
              in if rc2 \<noteq> 0
                 then (Inl (), snd (mark_call_center_queue_entry_state 0 s2 caller ENTRY_CLAIMED ENTRY_QUEUED))
                 else let (rc3, s3) = set_call_center_agent_state_locked al s2 (qe_endpoint_id (sv_queue_entries s2 ! callee)) AGENT_RESERVED
                 in if rc3 \<noteq> 0
                    then (Inl (), snd (mark_call_center_queue_entry_state 0
                           (snd (mark_call_center_queue_entry_state 0 s3 callee ENTRY_CLAIMED ENTRY_QUEUED)) caller ENTRY_CLAIMED ENTRY_QUEUED))
                    else (Inr (Some (fill_call_center_queue_entry_summary (sv_queue_entries s3 ! caller),
                                     fill_call_center_queue_entry_summary (sv_queue_entries s3 ! callee))), s3))
      | _ \<Rightarrow> (Inr None, service))"

text \<open>Both entries leave their claim together.\<close>

definition settle_match :: "allocator \<Rightarrow> room_service \<Rightarrow> nat \<Rightarrow> nat \<Rightarrow> entry_state \<Rightarrow> room_service" where
  "settle_match al service caller callee desired =
     (let s1 = update_entry service caller (set_entry_state desired 0 (sv_queue_entries service ! caller));
          s2 = update_entry s1 callee (set_entry_state desired 0 (sv_queue_entries s1 ! callee));
          agent = qe_endpoint_id (sv_queue_entries s2 ! callee)
      in if desired = ENTRY_ROUTED then snd (set_call_center_agent_state_locked al s2 agent AGENT_BUSY)
         else if desired = ENTRY_QUEUED then snd (set_call_center_agent_state_locked al s2 agent AGENT_AVAILABLE)
         else s2)"

definition set_claimed_call_center_queue_match_state ::
  "allocator \<Rightarrow> room_service \<Rightarrow> cstring \<Rightarrow> cstring \<Rightarrow> cstring \<Rightarrow> entry_state \<Rightarrow> int \<times> room_service" where
  "set_claimed_call_center_queue_match_state al service queue_id caller_id callee_id desired =
     (case (queue_id, caller_id, callee_id) of
        (Some q, Some a, Some b) \<Rightarrow>
          (case (find_call_center_queue_entry service q QUEUE_CALLER a, find_call_center_queue_entry service q QUEUE_CALLEE b) of
             (Some caller, Some callee) \<Rightarrow>
               if qe_state (sv_queue_entries service ! caller) = ENTRY_CLAIMED
                  \<and> qe_state (sv_queue_entries service ! callee) = ENTRY_CLAIMED
               then (0, settle_match al service caller callee desired) else (-1, service)
           | _ \<Rightarrow> (-1, service))
      | _ \<Rightarrow> (-1, service))"

definition turbo_room_service_match_call_center_queue ::
  "allocator \<Rightarrow> u64 \<Rightarrow> u64 \<Rightarrow> u64 \<Rightarrow> room_service \<Rightarrow> cstring \<Rightarrow>
   (unit + (queue_entry_summary \<times> queue_entry_summary) option) \<times> room_service" where
  "turbo_room_service_match_call_center_queue al t0 t1 t2 service queue_id =
     (case queue_id of
        None \<Rightarrow> (Inl (), service)
      | Some q \<Rightarrow>
          (case claim_call_center_queue_match_locked al t1 t2 (recover_default al t0 service q) q of
             (Inr (Some (a, b)), s1) \<Rightarrow>
               (case (find_call_center_queue_entry s1 q QUEUE_CALLER (qm_entry_id a),
                      find_call_center_queue_entry s1 q QUEUE_CALLEE (qm_entry_id b)) of
                  (Some caller, Some callee) \<Rightarrow> (Inr (Some (a, b)), settle_match al s1 caller callee ENTRY_ROUTED)
                | _ \<Rightarrow> (Inl (), s1))
           | other \<Rightarrow> other))"

definition turbo_room_service_claim_call_center_queue_match ::
  "allocator \<Rightarrow> u64 \<Rightarrow> u64 \<Rightarrow> u64 \<Rightarrow> room_service \<Rightarrow> cstring \<Rightarrow>
   (unit + (queue_entry_summary \<times> queue_entry_summary) option) \<times> room_service" where
  "turbo_room_service_claim_call_center_queue_match al t0 t1 t2 service queue_id =
     (case queue_id of
        None \<Rightarrow> (Inl (), service)
      | Some q \<Rightarrow> claim_call_center_queue_match_locked al t1 t2 (recover_default al t0 service q) q)"

definition turbo_room_service_complete_call_center_queue_match ::
  "allocator \<Rightarrow> room_service \<Rightarrow> cstring \<Rightarrow> cstring \<Rightarrow> cstring \<Rightarrow> int \<times> room_service" where
  "turbo_room_service_complete_call_center_queue_match al service queue_id caller_id callee_id =
     set_claimed_call_center_queue_match_state al service queue_id caller_id callee_id ENTRY_ROUTED"

definition turbo_room_service_rollback_call_center_queue_match ::
  "allocator \<Rightarrow> room_service \<Rightarrow> cstring \<Rightarrow> cstring \<Rightarrow> cstring \<Rightarrow> int \<times> room_service" where
  "turbo_room_service_rollback_call_center_queue_match al service queue_id caller_id callee_id =
     set_claimed_call_center_queue_match_state al service queue_id caller_id callee_id ENTRY_QUEUED"

definition turbo_room_service_recover_stale_call_center_queue_claims ::
  "allocator \<Rightarrow> u64 \<Rightarrow> room_service \<Rightarrow> cstring \<Rightarrow> u64 \<Rightarrow> nat option \<times> room_service" where
  "turbo_room_service_recover_stale_call_center_queue_claims al now service queue_id lease_ms =
     (case queue_id of
        None \<Rightarrow> (None, service)
      | Some q \<Rightarrow> let (n, s1) = recover_stale_call_center_queue_claims_locked al now service q lease_ms in (Some n, s1))"

definition turbo_room_service_set_call_center_agent_state ::
  "allocator \<Rightarrow> room_service \<Rightarrow> cstring \<Rightarrow> agent_state \<Rightarrow> int \<times> room_service" where
  "turbo_room_service_set_call_center_agent_state al service endpoint_id st =
     (if \<not> string_fits endpoint_id ID_MAX False \<or> \<not> is_valid_call_center_agent_state st then (-1, service)
      else set_call_center_agent_state_locked al service (the endpoint_id) st)"

record agent_state_summary =
  am_endpoint_id :: string
  am_state :: agent_state
  am_explicit_state :: bool
  am_version :: int

definition turbo_room_service_get_call_center_agent_state ::
  "room_service \<Rightarrow> cstring \<Rightarrow> agent_state_summary option" where
  "turbo_room_service_get_call_center_agent_state service endpoint_id =
     (case endpoint_id of
        None \<Rightarrow> None
      | Some ep \<Rightarrow>
          if ep = '''' then None
          else case find_call_center_agent_state_entry service ep of
            None \<Rightarrow> Some \<lparr>am_endpoint_id = copy_string ID_MAX (Some ep), am_state = AGENT_AVAILABLE,
                       am_explicit_state = False, am_version = 0\<rparr>
          | Some i \<Rightarrow> Some \<lparr>am_endpoint_id = copy_string ID_MAX (Some ep), am_state = ae_state (sv_agent_states service ! i),
                       am_explicit_state = True, am_version = ae_version (sv_agent_states service ! i)\<rparr>)"

end
