(* ===== verification/Call_Duty.thy ===== *)
theory Call_Duty
  imports Call_Queue
begin

text \<open>
  What the call centre's queues promise (\<open>webrtc/src/conference/turbo_room_service.c\<close>): keys and ticket
  numbers are unique, a match takes the first of the best of each side, and an agent is reserved
  exactly while one claimed entry holds it.
\<close>

section \<open>The states of the agents\<close>

abbreviation agent_of :: "room_service \<Rightarrow> string \<Rightarrow> agent_state" where
  "agent_of s ep \<equiv> fst (get_call_center_agent_effective_state s ep)"

definition agents_ok :: "room_service \<Rightarrow> bool" where
  "agents_ok s \<longleftrightarrow> distinct (map ae_endpoint_id (sv_agent_states s)) \<and> length (sv_agent_states s) \<le> sv_agent_capacity s \<and>
     (\<forall>a\<in>set (sv_agent_states s). ae_endpoint_id a \<noteq> '''' \<and> length (ae_endpoint_id a) < ID_MAX
        \<and> is_valid_call_center_agent_state (ae_state a))"

text \<open>A search loop over a table is a lookup in the association list of its entries.\<close>

lemma first_below_Cons:
  "first_below (length (x # xs)) P (x # xs) = (if P x then Some 0 else map_option Suc (first_below (length xs) P xs))"
proof -
  have "find Q (map Suc ns) = map_option Suc (find (\<lambda>i. Q (Suc i)) ns)" for Q ns by (induction ns) auto
  then show ?thesis by (simp add: first_below_def upt_conv_Cons map_Suc_upt [symmetric] del: upt_Suc)
qed

lemma first_below_map_of:
  "map_option (\<lambda>i. v (xs ! i)) (first_below (length xs) (\<lambda>e. k e = x) xs) = map_of (map (\<lambda>e. (k e, v e)) xs) x"
proof (induction xs)
  case Nil then show ?case by (simp add: first_below_def)
next
  case (Cons e xs)
  then show ?case unfolding first_below_Cons by (simp add: option.map_comp comp_def split: if_split)
qed

lemma first_below_absent: "first_below (length xs) P xs = None \<longleftrightarrow> (\<forall>x\<in>set xs. \<not> P x)"
  by (simp add: first_below_None all_set_conv_all_nth)

lemma first_below_found:
  "first_below (length xs) P xs = Some i \<Longrightarrow> i < length xs \<and> P (xs ! i)"
  by (auto dest: first_below_Some)

lemma map_key_update: "i < length xs \<Longrightarrow> k x = k (xs ! i) \<Longrightarrow> map k (xs[i := x]) = map k xs"
  by (simp add: map_update list_update_same_conv)

lemma map_of_update:
  "i < length xs \<Longrightarrow> distinct (map k xs) \<Longrightarrow> k x = k (xs ! i) \<Longrightarrow>
   map_of (map (\<lambda>e. (k e, v e)) (xs[i := x])) = (map_of (map (\<lambda>e. (k e, v e)) xs))(k x \<mapsto> v x)"
proof (induction xs arbitrary: i)
  case (Cons e xs)
  show ?case
  proof (cases i)
    case (Suc j)
    with Cons.prems have "xs ! j \<in> set xs" "k x = k (xs ! j)" "k e \<notin> k ` set xs" by auto
    then have "k e \<noteq> k x" by (metis imageI)
    with Suc Cons show ?thesis by (auto simp: fun_eq_iff)
  qed (use Cons.prems in \<open>auto simp: fun_eq_iff\<close>)
qed simp

definition agent_map :: "room_service \<Rightarrow> string \<rightharpoonup> agent_state" where
  "agent_map s = map_of (map (\<lambda>a. (ae_endpoint_id a, ae_state a)) (sv_agent_states s))"

lemma agent_of_map:
  "agent_of s ep = (if ep = '''' then AGENT_OFFLINE else case agent_map s ep of None \<Rightarrow> AGENT_AVAILABLE | Some st \<Rightarrow> st)"
  using first_below_map_of [of ae_state "sv_agent_states s" ae_endpoint_id ep, symmetric]
  by (cases "first_below (length (sv_agent_states s)) (\<lambda>e. ae_endpoint_id e = ep) (sv_agent_states s)")
    (auto simp: get_call_center_agent_effective_state_def find_call_center_agent_state_entry_def agent_map_def)

lemma find_agent_map: "ep \<noteq> '''' \<Longrightarrow> find_call_center_agent_state_entry s ep = None \<longleftrightarrow> agent_map s ep = None"
  using first_below_map_of [of ae_state "sv_agent_states s" ae_endpoint_id ep, symmetric]
  by (cases "first_below (length (sv_agent_states s)) (\<lambda>e. ae_endpoint_id e = ep) (sv_agent_states s)")
    (auto simp: find_call_center_agent_state_entry_def agent_map_def)

lemma set_agent_found:
  assumes "agents_ok s" "find_call_center_agent_state_entry s ep = Some i" "ep \<noteq> ''''" "is_valid_call_center_agent_state st"
  defines "A \<equiv> (sv_agent_states s)[i := put_agent_state (sv_agent_states s ! i) st]"
  shows "agents_ok (s\<lparr>sv_agent_states := A\<rparr>) \<and> agent_map (s\<lparr>sv_agent_states := A\<rparr>) = (agent_map s)(ep \<mapsto> st)"
proof -
  let ?a = "put_agent_state (sv_agent_states s ! i) st"
  have i: "i < length (sv_agent_states s)" "ae_endpoint_id (sv_agent_states s ! i) = ep"
    using assms(2,3) by (auto simp: find_call_center_agent_state_entry_def dest: first_below_found)
  have a: "ae_endpoint_id ?a = ep" "ae_state ?a = st" using i by (simp_all add: put_agent_state_def)
  have m: "map ae_endpoint_id A = map ae_endpoint_id (sv_agent_states s)"
    unfolding A_def using i a by (intro map_key_update) auto
  have ep: "length ep < ID_MAX" using assms(1) i by (auto simp: agents_ok_def)
  have "set A \<subseteq> insert ?a (set (sv_agent_states s))" unfolding A_def by (rule set_update_subset_insert)
  then have "agents_ok (s\<lparr>sv_agent_states := A\<rparr>)"
    using assms(1,3,4) a ep m by (auto simp: agents_ok_def A_def)
  moreover have "agent_map (s\<lparr>sv_agent_states := A\<rparr>) = (agent_map s)(ep \<mapsto> st)"
    using map_of_update [of i "sv_agent_states s" ae_endpoint_id ?a ae_state] assms(1) i a
    by (simp add: agent_map_def A_def agents_ok_def)
  ultimately show ?thesis by simp
qed

lemma set_agent_cases:
  assumes "set_call_center_agent_state_locked al s ep st = (rc, s')" "agents_ok s" "length ep < ID_MAX"
  obtains (kept) "rc = -1" "s' = s"
      "ep = '''' \<or> \<not> is_valid_call_center_agent_state st \<or> agent_map s ep = None"
  | (set) A c where "rc = 0" "ep \<noteq> ''''" "is_valid_call_center_agent_state st"
      "s' = s\<lparr>sv_agent_states := A, sv_agent_capacity := c\<rparr>" "agents_ok s'" "agent_map s' = (agent_map s)(ep \<mapsto> st)"
proof (cases "ep = '''' \<or> \<not> is_valid_call_center_agent_state st")
  case True then show thesis using assms(1) kept by (auto simp: set_call_center_agent_state_locked_def)
next
  case False
  show thesis
  proof (cases "find_call_center_agent_state_entry s ep")
    case (Some i)
    let ?A = "(sv_agent_states s)[i := put_agent_state (sv_agent_states s ! i) st]"
    have "rc = 0" "s' = s\<lparr>sv_agent_states := ?A\<rparr>"
      using assms(1) False Some by (auto simp: set_call_center_agent_state_locked_def)
    then show thesis using set [where A = ?A and c = "sv_agent_capacity s"] set_agent_found [OF assms(2) Some] False by simp
  next
    case None
    then have n: "agent_map s ep = None" using False find_agent_map by simp
    then have f: "\<forall>e\<in>set (sv_agent_states s). ae_endpoint_id e \<noteq> ep"
      by (simp add: agent_map_def map_of_eq_None_iff image_image image_iff) blast
    show thesis
    proof (cases "ensure_capacity al (sv_agent_capacity s) (length (sv_agent_states s) + 1)")
      case c: None
      then show thesis using assms(1) False None kept n by (auto simp: set_call_center_agent_state_locked_def)
    next
      case c: (Some c)
      let ?a = "put_agent_state \<lparr>ae_endpoint_id = copy_string ID_MAX (Some ep), ae_state = Agent_Int 0, ae_version = 0\<rparr> st"
      have k: "ae_endpoint_id ?a = ep" "ae_state ?a = st" using assms(3) by (auto simp: put_agent_state_def)
      have s': "rc = 0" "s' = s\<lparr>sv_agent_states := sv_agent_states s @ [?a], sv_agent_capacity := c\<rparr>"
        using assms(1) False None c by (auto simp: set_call_center_agent_state_locked_def)
      have "agents_ok s'"
        using assms(2,3) False k f ensure_capacity_enough [OF c] unfolding s'(2) agents_ok_def by auto
      moreover have "agent_map s' = (agent_map s)(ep \<mapsto> st)"
        using n k unfolding s'(2) agent_map_def by (auto simp: map_add_def fun_eq_iff split: option.splits)
      ultimately show thesis using set [where A = "sv_agent_states s @ [?a]" and c = c] s' False by simp
    qed
  qed
qed

lemma set_agent_outcome:
  assumes "set_call_center_agent_state_locked al s ep st = (rc, s')" "agents_ok s" "length ep < ID_MAX"
  shows "rc = 0 \<Longrightarrow> agent_of s' ep = st"
    and "rc \<noteq> 0 \<Longrightarrow> ep \<noteq> [] \<Longrightarrow> is_valid_call_center_agent_state st \<Longrightarrow> \<exists>n. \<not> al n"
proof -
  show "rc = 0 \<Longrightarrow> agent_of s' ep = st" using assms by (cases rule: set_agent_cases) (simp_all add: agent_of_map)
  assume "rc \<noteq> 0" "ep \<noteq> []" "is_valid_call_center_agent_state st"
  then obtain c n where "ensure_capacity al c n = None"
    using assms(1) by (auto simp: set_call_center_agent_state_locked_def split: option.splits)
  then show "\<exists>n. \<not> al n" by (auto simp: ensure_capacity_def Let_def split: if_splits)
qed

section \<open>Entries of the queues\<close>

definition entry_key :: "call_center_queue_entry \<Rightarrow> queue_side \<times> string \<times> string" where
  "entry_key e = (qe_side e, qe_queue_id e, qe_entry_id e)"

definition entry_wf :: "call_center_queue_entry \<Rightarrow> bool" where
  "entry_wf e \<longleftrightarrow> is_valid_call_center_queue_side (qe_side e) \<and> length (qe_queue_id e) < ID_MAX
     \<and> length (qe_entry_id e) < ID_MAX \<and> length (qe_endpoint_id e) < ID_MAX \<and> qe_endpoint_id e \<noteq> ''''"

definition queue_ok :: "room_service \<Rightarrow> bool" where
  "queue_ok s \<longleftrightarrow> list_all entry_wf (sv_queue_entries s) \<and> distinct (map entry_key (sv_queue_entries s))
     \<and> distinct (map qe_sequence (sv_queue_entries s))
     \<and> list_all (\<lambda>e. qe_sequence e \<le> sv_next_queue_sequence s) (sv_queue_entries s)
     \<and> length (sv_queue_entries s) \<le> sv_queue_capacity s"

text \<open>Two services with the same queues.\<close>

definition same_queues :: "room_service \<Rightarrow> room_service \<Rightarrow> bool" where
  "same_queues s s' \<longleftrightarrow> sv_queue_entries s' = sv_queue_entries s \<and> sv_queue_capacity s' = sv_queue_capacity s
     \<and> sv_next_queue_sequence s' = sv_next_queue_sequence s"

lemma same_queues_ok: "same_queues s s' \<Longrightarrow> queue_ok s' = queue_ok s"
  by (simp add: same_queues_def queue_ok_def)

lemma set_agent_same_queues: "same_queues s (snd (set_call_center_agent_state_locked al s ep st))"
  by (auto simp: same_queues_def set_call_center_agent_state_locked_def split: option.splits)

lemma list_all_update: "list_all P xs \<Longrightarrow> P x \<Longrightarrow> list_all P (xs[i := x])"
  using set_update_subset_insert [of xs i x] by (auto simp: list_all_iff)

lemma list_all_at: "list_all P xs \<Longrightarrow> i < length xs \<Longrightarrow> P (xs ! i)"
  by (simp add: list_all_length)

text \<open>An update that keeps the entry's key and ticket keeps the queue in order.\<close>

lemma update_entry_ok:
  assumes "queue_ok s" "i < length (sv_queue_entries s)" "entry_wf e"
    and "entry_key e = entry_key (sv_queue_entries s ! i)" "qe_sequence e = qe_sequence (sv_queue_entries s ! i)"
  shows "queue_ok (update_entry s i e)"
proof -
  have "qe_sequence e \<le> sv_next_queue_sequence s"
    using list_all_at [of "\<lambda>e. qe_sequence e \<le> sv_next_queue_sequence s" "sv_queue_entries s" i] assms
    by (simp add: queue_ok_def)
  then show ?thesis using assms
    by (simp add: queue_ok_def update_entry_def map_key_update list_all_update)
qed

lemma set_entry_state_simps [simp]:
  "qe_queue_id (set_entry_state st t e) = qe_queue_id e" "qe_side (set_entry_state st t e) = qe_side e"
  "qe_entry_id (set_entry_state st t e) = qe_entry_id e" "qe_endpoint_id (set_entry_state st t e) = qe_endpoint_id e"
  "qe_sequence (set_entry_state st t e) = qe_sequence e" "qe_priority (set_entry_state st t e) = qe_priority e"
  "qe_state (set_entry_state st t e) = st" "entry_key (set_entry_state st t e) = entry_key e"
  "entry_wf (set_entry_state st t e) = entry_wf e"
  by (simp_all add: set_entry_state_def entry_key_def entry_wf_def)

lemma set_entry_state_ok:
  "queue_ok s \<Longrightarrow> i < length (sv_queue_entries s) \<Longrightarrow> queue_ok (update_entry s i (set_entry_state st t (sv_queue_entries s ! i)))"
  by (rule update_entry_ok) (auto simp: queue_ok_def list_all_at)

text \<open>Compaction keeps exactly the active entries, in their order.\<close>

lemma copy_entry_id: "entry_wf e \<Longrightarrow> copy_call_center_queue_entry e (qe_state e) = e"
  by (cases e) (auto simp: copy_call_center_queue_entry_def entry_wf_def)

lemma compact_loop:
  assumes "list_all entry_wf es" "n \<le> length es"
  defines "act \<equiv> filter (\<lambda>e. is_active_call_center_queue_entry_state (qe_state e))"
  shows "\<exists>es'. fold compact_step [0..<n] (0, es) = (length (act (take n es)), es') \<and> length es' = length es
    \<and> take (length (act (take n es))) es' = act (take n es) \<and> drop n es' = drop n es"
  using assms(2)
proof (induction n)
  case (Suc n)
  then obtain es' where es': "fold compact_step [0..<n] (0, es) = (length (act (take n es)), es')" "length es' = length es"
    "take (length (act (take n es))) es' = act (take n es)" "drop n es' = drop n es" by auto
  let ?w = "length (act (take n es))"
  have n: "es' ! n = es ! n" using es'(2,4) Suc.prems by (metis Suc_le_eq nth_via_drop Cons_nth_drop_Suc)
  have w: "?w \<le> n" unfolding act_def using Suc.prems by (metis length_filter_le length_take min.absorb2 Suc_leD)
  have t: "take (Suc n) es = take n es @ [es ! n]" using Suc.prems by (simp add: take_Suc_conv_app_nth)
  have d: "drop (Suc n) es' = drop (Suc n) es" using es'(4) by (metis drop_drop plus_1_eq_Suc)
  show ?case
  proof (cases "is_active_call_center_queue_entry_state (qe_state (es ! n))")
    case False
    then have "compact_step n (?w, es') = (?w, es')" using n by (simp add: compact_step_def)
    then show ?thesis using False es' t d by (simp add: act_def)
  next
    case True
    let ?es = "es'[?w := es ! n]"
    have "es'[n := es' ! n] = es'" by simp
    then have st: "compact_step n (?w, es') = (?w + 1, ?es)"
      using True n copy_entry_id [of "es ! n"] list_all_at [OF assms(1), of n] Suc.prems
      by (cases "?w = n") (simp_all add: compact_step_def)
    have "take (?w + 1) ?es = take ?w es' @ [es ! n]" using w Suc.prems es'(2)
      by (simp add: take_Suc_conv_app_nth)
    moreover have "drop (Suc n) ?es = drop (Suc n) es" using w d by simp
    ultimately show ?thesis using es' st t True by (simp add: act_def)
  qed
qed (simp add: act_def)

lemma compact_filter:
  assumes "list_all entry_wf (sv_queue_entries s)"
  shows "compact_call_center_queue_entries_locked s = s\<lparr>sv_queue_entries :=
    filter (\<lambda>e. is_active_call_center_queue_entry_state (qe_state e)) (sv_queue_entries s)\<rparr>"
  using compact_loop [OF assms order_refl] by (auto simp: compact_call_center_queue_entries_locked_def)

lemma queue_ok_filter:
  "queue_ok s \<Longrightarrow> queue_ok (s\<lparr>sv_queue_entries := filter P (sv_queue_entries s)\<rparr>)"
  by (auto simp: queue_ok_def list_all_iff distinct_map_filter intro: order_trans [OF length_filter_le])

section \<open>The best entry\<close>

definition best_of :: "call_center_queue_entry list \<Rightarrow> (call_center_queue_entry \<Rightarrow> bool) \<Rightarrow> nat option \<Rightarrow> bool" where
  "best_of es P r \<longleftrightarrow> (case r of None \<Rightarrow> \<forall>e\<in>set es. \<not> P e
     | Some b \<Rightarrow> b < length es \<and> P (es ! b) \<and> (\<forall>e\<in>set es. P e \<longrightarrow> \<not> outranks e (es ! b)))"

lemma best_loop:
  assumes "n \<le> length es"
  shows "best_of (take n es) P (fold (\<lambda>i best. let e = es ! i in if \<not> P e then best else case best of None \<Rightarrow> Some i
      | Some b \<Rightarrow> let be = es ! b in if outranks e be then Some i else best) [0..<n] None)"
  using assms
proof (induction n)
  case (Suc n)
  define r where "r = fold (\<lambda>i best. let e = es ! i in if \<not> P e then best else case best of None \<Rightarrow> Some i
      | Some b \<Rightarrow> let be = es ! b in if outranks e be then Some i else best) [0..<n] None"
  have t: "take (Suc n) es = take n es @ [es ! n]" using Suc.prems by (simp add: take_Suc_conv_app_nth)
  have IH: "best_of (take n es) P r" using Suc by (simp add: r_def)
  have step: "best_of (take (Suc n) es) P (let e = es ! n in if \<not> P e then r else case r of None \<Rightarrow> Some n
      | Some b \<Rightarrow> let be = es ! b in if outranks e be then Some n else r)"
  proof (cases r)
    case None then show ?thesis using IH Suc.prems t by (auto simp: best_of_def Let_def nth_append outranks_def)
  next
    case (Some b)
    then have b: "b < n" "P (es ! b)" "\<forall>e\<in>set (take n es). P e \<longrightarrow> \<not> outranks e (es ! b)"
      using IH Suc.prems by (auto simp: best_of_def)
    have "outranks e (es ! n) \<Longrightarrow> outranks (es ! n) (es ! b) \<Longrightarrow> outranks e (es ! b)" for e
      by (auto simp: outranks_def)
    then show ?thesis using Some b Suc.prems t by (auto simp: best_of_def Let_def outranks_def [of "es ! n" "es ! n"] nth_append)
  qed
  then show ?case unfolding r_def by simp
qed (simp add: best_of_def)

lemma find_best:
  "is_valid_call_center_queue_side side \<Longrightarrow>
   best_of (sv_queue_entries s) (queue_candidate s q side) (find_best_call_center_queue_entry_index s q side)"
  using best_loop [of "length (sv_queue_entries s)" "sv_queue_entries s" "queue_candidate s q side"]
  by (simp add: find_best_call_center_queue_entry_index_def)

text \<open>With unique tickets the best entry is ahead of every other candidate.\<close>

lemma best_strict:
  assumes "best_of es P (Some b)" "distinct (map qe_sequence es)" "e \<in> set es" "P e" "e \<noteq> es ! b"
  shows "outranks (es ! b) e"
proof -
  have b: "b < length es" "\<not> outranks e (es ! b)" using assms(1,3,4) by (auto simp: best_of_def)
  moreover have "qe_sequence e \<noteq> qe_sequence (es ! b)"
    using assms(2,3,5) b(1) by (auto simp: distinct_map inj_on_def)
  ultimately show ?thesis by (auto simp: outranks_def)
qed

section \<open>The reservation ledger\<close>

definition holds_claim :: "string \<Rightarrow> call_center_queue_entry \<Rightarrow> bool" where
  "holds_claim ep e \<longleftrightarrow> qe_side e = QUEUE_CALLEE \<and> qe_state e = ENTRY_CLAIMED \<and> qe_endpoint_id e = ep"

definition claims_on :: "room_service \<Rightarrow> string \<Rightarrow> nat" where
  "claims_on s ep = length (filter (holds_claim ep) (sv_queue_entries s))"

definition ledger :: "room_service \<Rightarrow> bool" where
  "ledger s \<longleftrightarrow> queue_ok s \<and> agents_ok s \<and>
     (\<forall>ep. claims_on s ep = (if agent_of s ep = AGENT_RESERVED then 1 else 0))"

lemma ledgerD: "ledger s \<Longrightarrow> queue_ok s" "ledger s \<Longrightarrow> agents_ok s"
  "ledger s \<Longrightarrow> claims_on s ep = (if agent_of s ep = AGENT_RESERVED then 1 else 0)"
  by (simp_all add: ledger_def)

lemma length_filter_update:
  "i < length xs \<Longrightarrow> length (filter P (xs[i := x])) + (if P (xs ! i) then 1 else 0) = length (filter P xs) + (if P x then 1 else 0)"
proof (induction xs arbitrary: i)
  case (Cons y ys) then show ?case by (cases i) auto
qed simp

lemma claims_update:
  "i < length (sv_queue_entries s) \<Longrightarrow>
   claims_on (update_entry s i e) ep + (if holds_claim ep (sv_queue_entries s ! i) then 1 else 0)
     = claims_on s ep + (if holds_claim ep e then 1 else 0)"
  using length_filter_update [of i "sv_queue_entries s" "holds_claim ep" e] by (simp add: claims_on_def update_entry_def)

lemma update_entry_simps [simp]:
  "sv_queue_entries (update_entry s i e) = (sv_queue_entries s)[i := e]"
  "sv_agent_states (update_entry s i e) = sv_agent_states s" "sv_agent_capacity (update_entry s i e) = sv_agent_capacity s"
  "agents_ok (update_entry s i e) = agents_ok s" "agent_map (update_entry s i e) = agent_map s"
  "agent_of (update_entry s i e) ep = agent_of s ep"
  by (simp_all add: update_entry_def agents_ok_def agent_map_def agent_of_map)

lemma entry_at_wf:
  "queue_ok s \<Longrightarrow> i < length (sv_queue_entries s) \<Longrightarrow> entry_wf (sv_queue_entries s ! i)"
  by (simp add: queue_ok_def list_all_at)

text \<open>An update that neither makes nor ends an agent's claim.\<close>

lemma ledger_update:
  assumes "ledger s" "i < length (sv_queue_entries s)" "queue_ok (update_entry s i e)"
    and "\<And>ep. \<not> holds_claim ep (sv_queue_entries s ! i)" "\<And>ep. \<not> holds_claim ep e"
  shows "ledger (update_entry s i e)"
proof -
  have "claims_on (update_entry s i e) ep = claims_on s ep" for ep
    using claims_update [OF assms(2), of e ep] assms(4,5) by simp
  then show ?thesis using assms(1,3) by (simp add: ledger_def)
qed

text \<open>A claimed agent is reserved, and its claim can always be ended.\<close>

lemma claimed_reserved:
  assumes "ledger s" "i < length (sv_queue_entries s)" "holds_claim ep (sv_queue_entries s ! i)"
  shows "agent_of s ep = AGENT_RESERVED"
proof -
  have "claims_on s ep \<noteq> 0" using assms(2,3) by (auto simp: claims_on_def filter_empty_conv)
  then show ?thesis using ledgerD(3) [OF assms(1), of ep] by (simp split: if_splits)
qed

text \<open>What becomes of the ledger when the state of one agent is set.\<close>

lemma ledger_set_agent:
  assumes "set_call_center_agent_state_locked al u ep ag = (rc, s')" "queue_ok u" "agents_ok u" "length ep < ID_MAX"
  shows "rc \<noteq> 0 \<Longrightarrow> s' = u"
    and "rc = 0 \<Longrightarrow> (\<And>x. claims_on u x = (if (if x = ep then ag else agent_of u x) = AGENT_RESERVED then 1 else 0)) \<Longrightarrow> ledger s'"
proof -
  show "rc \<noteq> 0 \<Longrightarrow> s' = u" using assms(1,3,4) by (cases rule: set_agent_cases) auto
  assume cl: "\<And>x. claims_on u x = (if (if x = ep then ag else agent_of u x) = AGENT_RESERVED then 1 else 0)"
  show "ledger s'" if "rc = 0"
    using assms(1,3,4)
  proof (cases rule: set_agent_cases)
    case (set A c)
    have "claims_on s' x = claims_on u x" for x using set(4) by (simp add: claims_on_def)
    moreover have "queue_ok s'" using assms(2) set(4) by (simp add: queue_ok_def)
    moreover have "agent_of s' x = (if x = ep then ag else agent_of u x)" for x
      using set(2,6) by (auto simp: agent_of_map)
    ultimately show ?thesis using cl set(5) by (simp add: ledger_def)
  qed (use that in simp)
qed

lemma ledger_unclaim:
  assumes "ledger s" "i < length (sv_queue_entries s)" "holds_claim ep (sv_queue_entries s ! i)" "st \<noteq> ENTRY_CLAIMED"
    and "ag = AGENT_AVAILABLE \<or> ag = AGENT_BUSY"
  shows "ledger (snd (set_call_center_agent_state_locked al (update_entry s i (set_entry_state st t (sv_queue_entries s ! i))) ep ag))"
proof -
  let ?e = "sv_queue_entries s ! i" and ?u = "update_entry s i (set_entry_state st t (sv_queue_entries s ! i))"
  note wf = entry_at_wf [OF ledgerD(1) [OF assms(1)] assms(2)]
  have ep: "length ep < ID_MAX" "ep \<noteq> ''''" using wf assms(3) by (auto simp: entry_wf_def holds_claim_def)
  have ok: "queue_ok ?u" "agents_ok ?u" using set_entry_state_ok assms(1,2) ledgerD by auto
  have r: "agent_of s ep = AGENT_RESERVED" by (rule claimed_reserved [OF assms(1-3)])
  then have m: "agent_map ?u ep \<noteq> None" using ep by (auto simp: agent_of_map split: option.splits)
  have cl: "claims_on ?u x = (if (if x = ep then ag else agent_of ?u x) = AGENT_RESERVED then 1 else 0)" for x
    using claims_update [OF assms(2), of "set_entry_state st t ?e" x] assms(3-5) ledgerD(3) [OF assms(1), of x] r
    by (auto simp: holds_claim_def split: if_splits)
  obtain rc s' where s': "set_call_center_agent_state_locked al ?u ep ag = (rc, s')" by fastforce
  from s' ok(2) ep(1) have "rc = 0"
    by (cases rule: set_agent_cases) (use ep m assms(5) in \<open>auto simp: is_valid_call_center_agent_state_def\<close>)
  then show ?thesis using ledger_set_agent(2) [OF s' ok ep(1) _ cl] s' by simp
qed

text \<open>Claiming a waiting entry of an available agent: the reservation is made, or nothing is changed.\<close>

lemma ledger_claim:
  assumes "ledger s" "i < length (sv_queue_entries s)" "qe_side (sv_queue_entries s ! i) = QUEUE_CALLEE"
    and "agent_of s ep = AGENT_AVAILABLE" "ep = qe_endpoint_id (sv_queue_entries s ! i)" "qe_state (sv_queue_entries s ! i) = ENTRY_QUEUED"
    and "set_call_center_agent_state_locked al (update_entry s i (set_entry_state ENTRY_CLAIMED t (sv_queue_entries s ! i))) ep AGENT_RESERVED = (rc, s')"
  shows "rc = 0 \<Longrightarrow> ledger s'"
    and "rc \<noteq> 0 \<Longrightarrow> s' = update_entry s i (set_entry_state ENTRY_CLAIMED t (sv_queue_entries s ! i))"
proof -
  let ?e = "sv_queue_entries s ! i" and ?u = "update_entry s i (set_entry_state ENTRY_CLAIMED t (sv_queue_entries s ! i))"
  note wf = entry_at_wf [OF ledgerD(1) [OF assms(1)] assms(2)]
  have ep: "length ep < ID_MAX" using wf assms(5) by (auto simp: entry_wf_def)
  have ok: "queue_ok ?u" "agents_ok ?u" using set_entry_state_ok assms(1,2) ledgerD by auto
  have cl: "claims_on ?u x = (if (if x = ep then AGENT_RESERVED else agent_of ?u x) = AGENT_RESERVED then 1 else 0)" for x
    using claims_update [OF assms(2), of "set_entry_state ENTRY_CLAIMED t ?e" x] assms(3-6) ledgerD(3) [OF assms(1), of x]
    by (auto simp: holds_claim_def split: if_splits)
  show "rc = 0 \<Longrightarrow> ledger s'" by (rule ledger_set_agent(2) [OF assms(7) ok ep _ cl])
  show "rc \<noteq> 0 \<Longrightarrow> s' = ?u" by (rule ledger_set_agent(1) [OF assms(7) ok ep])
qed

section \<open>Every operation on the queues keeps the ledger\<close>

lemma find_entry:
  assumes "find_call_center_queue_entry s q side en = Some i"
  shows "i < length (sv_queue_entries s)" "entry_key (sv_queue_entries s ! i) = (side, q, en)"
  using assms by (auto simp: find_call_center_queue_entry_def entry_key_def dest: first_below_found split: if_splits)

lemma find_entry_key:
  assumes "queue_ok s" "i < length (sv_queue_entries s)"
  shows "find_call_center_queue_entry s (qe_queue_id (sv_queue_entries s ! i)) (qe_side (sv_queue_entries s ! i)) (qe_entry_id (sv_queue_entries s ! i)) = Some i"
proof -
  let ?e = "sv_queue_entries s ! i"
  have "entry_key (sv_queue_entries s ! j) \<noteq> entry_key ?e" if "j < i" for j
    using assms that nth_eq_iff_index_eq [of "map entry_key (sv_queue_entries s)" i j] by (auto simp: queue_ok_def)
  then have "first_below (length (sv_queue_entries s)) (\<lambda>e. qe_side e = qe_side ?e \<and> qe_queue_id e = qe_queue_id ?e
      \<and> qe_entry_id e = qe_entry_id ?e) (sv_queue_entries s) = Some i"
    using assms(2) by (intro first_below_eq_Some) (auto simp: entry_key_def)
  then show ?thesis using entry_at_wf [OF assms] by (simp add: find_call_center_queue_entry_def entry_wf_def)
qed

lemma recover_entry_ledger:
  assumes "ledger s" "i < length (sv_queue_entries s)"
  shows "ledger (snd (recover_entry al q lease now i (n, s)))"
proof (cases "qe_side (sv_queue_entries s ! i) = QUEUE_CALLEE")
  case True
  then show ?thesis
    using assms ledger_unclaim [OF assms, of "qe_endpoint_id (sv_queue_entries s ! i)" ENTRY_QUEUED AGENT_AVAILABLE al 0]
    by (simp add: recover_entry_def Let_def holds_claim_def)
next
  case False
  then show ?thesis
    using assms ledger_update [OF assms set_entry_state_ok [OF ledgerD(1) [OF assms(1)] assms(2)], of ENTRY_QUEUED 0]
    by (simp add: recover_entry_def Let_def holds_claim_def)
qed

lemma recover_entry_length: "length (sv_queue_entries (snd (recover_entry al q lease now i cs))) = length (sv_queue_entries (snd cs))"
  using set_agent_same_queues by (auto simp: recover_entry_def Let_def same_queues_def split: prod.splits)

lemma recover_ledger:
  assumes "ledger s" shows "ledger (snd (recover_stale_call_center_queue_claims_locked al now s q lease))"
proof -
  have "ledger (snd (fold (recover_entry al q lease now) is cs)) \<and>
      length (sv_queue_entries (snd (fold (recover_entry al q lease now) is cs))) = length (sv_queue_entries (snd cs))"
    if "ledger (snd cs)" "\<forall>i\<in>set is. i < length (sv_queue_entries (snd cs))" for "is" cs
    using that
  proof (induction "is" arbitrary: cs)
    case (Cons i "is")
    then show ?case using recover_entry_ledger [of "snd cs" i al q lease now "fst cs"] recover_entry_length [of al q lease now i cs] by simp
  qed simp
  from this [of "(0, s)" "[0..<length (sv_queue_entries s)]"] assms show ?thesis
    by (simp add: recover_stale_call_center_queue_claims_locked_def)
qed

lemma mark_ledger:
  assumes "ledger s" "i < length (sv_queue_entries s)" "mark_call_center_queue_entry_state t s i a b = (rc, s')"
    and "qe_side (sv_queue_entries s ! i) = QUEUE_CALLER \<or> (a \<noteq> ENTRY_CLAIMED \<and> b \<noteq> ENTRY_CLAIMED)"
  shows "ledger s'"
  using assms ledger_update [OF assms(1,2) set_entry_state_ok [OF ledgerD(1) [OF assms(1)] assms(2)], of b "if b = ENTRY_CLAIMED then t else 0"]
  by (auto simp: mark_call_center_queue_entry_state_def Let_def holds_claim_def split: if_splits)

lemma best_index:
  assumes "find_best_call_center_queue_entry_index s q side = Some i" "side = QUEUE_CALLER \<or> side = QUEUE_CALLEE"
  shows "i < length (sv_queue_entries s)" "queue_candidate s q side (sv_queue_entries s ! i)"
  using find_best [of side s q] assms by (auto simp: best_of_def is_valid_call_center_queue_side_def)

text \<open>The three outcomes of a claim.\<close>

lemma claim_cases:
  assumes "claim_call_center_queue_match_locked al t1 t2 s q = (r, s')"
  obtains (nobody) "r = Inr None" "s' = s" "find_best_call_center_queue_entry_index s q QUEUE_CALLER = None
      \<or> find_best_call_center_queue_entry_index s q QUEUE_CALLEE = None"
  | (found) a b s1 s2 rc s3 where
      "find_best_call_center_queue_entry_index s q QUEUE_CALLER = Some a"
      "find_best_call_center_queue_entry_index s q QUEUE_CALLEE = Some b" "a \<noteq> b"
      "s1 = update_entry s a (set_entry_state ENTRY_CLAIMED t1 (sv_queue_entries s ! a))"
      "s2 = update_entry s1 b (set_entry_state ENTRY_CLAIMED t2 (sv_queue_entries s ! b))"
      "set_call_center_agent_state_locked al s2 (qe_endpoint_id (sv_queue_entries s ! b)) AGENT_RESERVED = (rc, s3)"
      "rc = 0 \<Longrightarrow> s' = s3 \<and> r = Inr (Some (fill_call_center_queue_entry_summary (sv_queue_entries s3 ! a),
        fill_call_center_queue_entry_summary (sv_queue_entries s3 ! b)))"
      "rc \<noteq> 0 \<Longrightarrow> r = Inl () \<and> s' = snd (mark_call_center_queue_entry_state 0
        (snd (mark_call_center_queue_entry_state 0 s3 b ENTRY_CLAIMED ENTRY_QUEUED)) a ENTRY_CLAIMED ENTRY_QUEUED)"
proof (cases "find_best_call_center_queue_entry_index s q QUEUE_CALLER")
  case None then show thesis using assms nobody by (simp add: claim_call_center_queue_match_locked_def)
next
  case a: (Some a)
  show thesis
  proof (cases "find_best_call_center_queue_entry_index s q QUEUE_CALLEE")
    case None then show thesis using assms nobody a by (simp add: claim_call_center_queue_match_locked_def)
  next
    case b: (Some b)
    note ia = best_index [OF a] and ib = best_index [OF b]
    have ne: "a \<noteq> b" using ia ib by (auto simp: queue_candidate_def)
    have q: "qe_state (sv_queue_entries s ! a) = ENTRY_QUEUED" "qe_state (sv_queue_entries s ! b) = ENTRY_QUEUED"
      using ia ib by (auto simp: queue_candidate_def)
    let ?s2 = "update_entry (update_entry s a (set_entry_state ENTRY_CLAIMED t1 (sv_queue_entries s ! a))) b
        (set_entry_state ENTRY_CLAIMED t2 (sv_queue_entries s ! b))"
    obtain rc s3 where s3: "set_call_center_agent_state_locked al ?s2 (qe_endpoint_id (sv_queue_entries s ! b)) AGENT_RESERVED = (rc, s3)"
      by fastforce
    show thesis
      by (rule found [OF a b ne refl refl s3])
        (use assms a b ne q ib(1) s3 in \<open>auto simp: claim_call_center_queue_match_locked_def mark_call_center_queue_entry_state_def Let_def\<close>)
  qed
qed

end
