(* ===== verification/Call_Ledger.thy ===== *)
theory Call_Ledger
  imports Call_Duty
begin

text \<open>
  The reservation ledger of the call centre (\<open>webrtc/src/conference/turbo_room_service.c\<close>) over every
  call of the queue interface: claims, matches, completions, roll-backs, recoveries and re-queuing
  keep an agent reserved exactly while one claimed entry holds it; and the queues stay in order
  under every call, whatever is done to the agents by hand.
\<close>

section \<open>Claims and their settlement\<close>

lemma claim_ledger:
  assumes "ledger s" "claim_call_center_queue_match_locked al t1 t2 s q = (r, s')"
  shows "ledger s'"
  using assms(2)
proof (cases rule: claim_cases)
  case (found a b s1 s2 rc s3)
  note ia = best_index [OF found(1)] and ib = best_index [OF found(2)]
  have s1: "ledger s1" unfolding found(4) using ia
    by (intro ledger_update [OF assms(1)] set_entry_state_ok ledgerD(1) [OF assms(1)])
      (auto simp: holds_claim_def queue_candidate_def)
  have b: "b < length (sv_queue_entries s1)" "sv_queue_entries s1 ! b = sv_queue_entries s ! b"
    using ib found(3,4) by simp_all
  note cand = ib(2) [simplified queue_candidate_def, simplified]
  have "agent_of s1 (qe_endpoint_id (sv_queue_entries s ! b)) = AGENT_AVAILABLE" using cand found(4) by simp
  note cl = ledger_claim [OF s1 b(1), of "qe_endpoint_id (sv_queue_entries s ! b)" al t2 rc s3, unfolded b(2), folded found(5), OF _ this refl _ found(6)]
  show ?thesis
  proof (cases "rc = 0")
    case True then show ?thesis using cl(1) cand found(7) by simp
  next
    case False
    let ?x = "set_entry_state ENTRY_QUEUED 0 (set_entry_state ENTRY_CLAIMED t2 (sv_queue_entries s ! b))"
    have s3: "s3 = s2" using cl(2) cand False by simp
    have "snd (mark_call_center_queue_entry_state 0 s3 b ENTRY_CLAIMED ENTRY_QUEUED) = update_entry s1 b ?x"
      using b(1) by (simp add: s3 found(5) mark_call_center_queue_entry_state_def Let_def update_entry_def)
    moreover have "ledger (update_entry s1 b ?x)"
    proof (rule ledger_update [OF s1 b(1)])
      show "queue_ok (update_entry s1 b ?x)"
        by (rule update_entry_ok [OF ledgerD(1) [OF s1] b(1)]) (use entry_at_wf [OF ledgerD(1) [OF s1] b(1)] b(2) in simp_all)
    qed (use cand in \<open>simp_all add: holds_claim_def b(2)\<close>)
    moreover have "a < length (sv_queue_entries (update_entry s1 b ?x))"
      "qe_side (sv_queue_entries (update_entry s1 b ?x) ! a) = QUEUE_CALLER"
      using ia found(3,4) by (auto simp: queue_candidate_def)
    ultimately show ?thesis
      using mark_ledger [of "update_entry s1 b ?x" a 0 ENTRY_CLAIMED ENTRY_QUEUED "fst (mark_call_center_queue_entry_state 0 (update_entry s1 b ?x) a ENTRY_CLAIMED ENTRY_QUEUED)"]
        found(8) False by simp
  qed
qed (use assms(1) in simp)

lemma settle_ledger:
  assumes "ledger s" "a < length (sv_queue_entries s)" "b < length (sv_queue_entries s)"
    and "qe_side (sv_queue_entries s ! a) = QUEUE_CALLER" "qe_side (sv_queue_entries s ! b) = QUEUE_CALLEE"
    and "qe_state (sv_queue_entries s ! b) = ENTRY_CLAIMED" "st = ENTRY_ROUTED \<or> st = ENTRY_QUEUED"
  shows "ledger (settle_match al s a b st)"
proof -
  let ?s1 = "update_entry s a (set_entry_state st 0 (sv_queue_entries s ! a))"
  have ne: "a \<noteq> b" using assms(4,5) by auto
  have s1: "ledger ?s1"
    by (rule ledger_update [OF assms(1,2) set_entry_state_ok [OF ledgerD(1) [OF assms(1)] assms(2)]])
      (use assms(4) in \<open>simp_all add: holds_claim_def\<close>)
  have b: "b < length (sv_queue_entries ?s1)" "holds_claim (qe_endpoint_id (sv_queue_entries s ! b)) (sv_queue_entries ?s1 ! b)"
    using assms(3,5,6) ne by (simp_all add: holds_claim_def)
  have e: "sv_queue_entries ?s1 ! b = sv_queue_entries s ! b" using ne by simp
  have l: "ledger (snd (set_call_center_agent_state_locked al
      (update_entry ?s1 b (set_entry_state st 0 (sv_queue_entries s ! b))) (qe_endpoint_id (sv_queue_entries s ! b)) ag))"
    if "ag = AGENT_AVAILABLE \<or> ag = AGENT_BUSY" for ag
    using ledger_unclaim [OF s1 b _ that, of st al 0] assms(7) e by auto
  have "qe_endpoint_id (sv_queue_entries (update_entry ?s1 b (set_entry_state st 0 (sv_queue_entries s ! b))) ! b)
      = qe_endpoint_id (sv_queue_entries s ! b)" using b(1) by simp
  then show ?thesis using l [of AGENT_BUSY] l [of AGENT_AVAILABLE] assms(7) e unfolding settle_match_def Let_def by auto
qed

lemma settle_found:
  assumes "ledger s" "find_call_center_queue_entry s q QUEUE_CALLER x = Some i" "find_call_center_queue_entry s q QUEUE_CALLEE y = Some j"
    and "qe_state (sv_queue_entries s ! j) = ENTRY_CLAIMED" "st = ENTRY_ROUTED \<or> st = ENTRY_QUEUED"
  shows "ledger (settle_match al s i j st)"
  using settle_ledger [OF assms(1) find_entry(1) [OF assms(2)] find_entry(1) [OF assms(3)] _ _ assms(4,5)]
    find_entry(2) [OF assms(2)] find_entry(2) [OF assms(3)] by (simp add: entry_key_def)

lemma set_claimed_ledger:
  assumes "ledger s" "set_claimed_call_center_queue_match_state al s q a b st = (rc, s')" "st = ENTRY_ROUTED \<or> st = ENTRY_QUEUED"
  shows "ledger s'"
  using assms(2,1)
  by (auto simp: set_claimed_call_center_queue_match_state_def split: option.splits if_splits
      intro: settle_found [OF _ _ _ _ assms(3)])

lemma claimed_found:
  assumes "ledger s" "claim_call_center_queue_match_locked al t1 t2 s q = (Inr (Some (x, y)), s')"
    and "find_call_center_queue_entry s' q QUEUE_CALLEE (qm_entry_id y) = Some j"
  shows "qe_state (sv_queue_entries s' ! j) = ENTRY_CLAIMED"
  using assms(2)
proof (cases rule: claim_cases)
  case (found a b s1 s2 rc s3)
  note ib = best_index [OF found(2), simplified queue_candidate_def, simplified]
  have rc: "rc = 0" using found(8) by auto
  have q: "sv_queue_entries s3 = sv_queue_entries s2" using set_agent_same_queues [of s2 al] found(6) by (metis same_queues_def snd_conv)
  let ?e = "set_entry_state ENTRY_CLAIMED t2 (sv_queue_entries s ! b)"
  have e: "sv_queue_entries s' ! b = ?e" "b < length (sv_queue_entries s')" using found(7) [OF rc] q found(3,4,5) ib by auto
  have ok: "queue_ok s'" by (rule ledgerD(1) [OF claim_ledger [OF assms(1,2)]])
  have "entry_wf ?e" using entry_at_wf [OF ok e(2)] e(1) by simp
  then have "qm_entry_id y = qe_entry_id ?e"
    using found(7) [OF rc] e by (simp add: fill_call_center_queue_entry_summary_def entry_wf_def)
  then have "find_call_center_queue_entry s' q QUEUE_CALLEE (qm_entry_id y) = Some b"
    using find_entry_key [OF ok e(2)] ib e(1) by simp
  then show ?thesis using assms(3) e by simp
qed simp

lemma match_ledger:
  assumes "ledger s" "turbo_room_service_match_call_center_queue al t0 t1 t2 s q = (r, s')"
  shows "ledger s'"
proof (cases q)
  case (Some qid)
  obtain r1 s1 where c: "claim_call_center_queue_match_locked al t1 t2 (recover_default al t0 s qid) qid = (r1, s1)" by fastforce
  note rl = recover_ledger [OF assms(1), of al t0 qid DEFAULT_CLAIM_LEASE_MS]
  note l1 = claim_ledger [OF rl c]
  show ?thesis
  proof (cases "\<exists>x y. r1 = Inr (Some (x, y))")
    case True
    then obtain x y where xy: "r1 = Inr (Some (x, y))" by blast
    show ?thesis using assms(2) Some c xy l1
      by (auto simp: turbo_room_service_match_call_center_queue_def split: option.splits
          intro: settle_found claimed_found [OF rl c [unfolded xy]])
  next
    case False
    then have "s' = s1" using assms(2) Some c
      by (auto simp: turbo_room_service_match_call_center_queue_def split: sum.splits option.splits prod.splits)
    then show ?thesis using l1 by simp
  qed
qed (use assms in \<open>simp add: turbo_room_service_match_call_center_queue_def\<close>)

lemma mark_kept:
  "find_call_center_queue_entry s q side en = Some i \<Longrightarrow> ledger s \<Longrightarrow>
   ledger (snd (mark_call_center_queue_entry_state t s i ENTRY_QUEUED ENTRY_CANCELED))"
  using mark_ledger [of s i t ENTRY_QUEUED ENTRY_CANCELED] find_entry by (metis entry_state.distinct(1,9) prod.collapse)

lemma fresh_ticket_ok:
  assumes "queue_ok s" "i < length (sv_queue_entries s)" "entry_wf e" "entry_key e = entry_key (sv_queue_entries s ! i)"
    and "qe_sequence e = sv_next_queue_sequence s + 1"
  shows "queue_ok ((update_entry s i e)\<lparr>sv_next_queue_sequence := sv_next_queue_sequence s + 1\<rparr>)"
proof -
  have le: "\<forall>x\<in>set (sv_queue_entries s). qe_sequence x \<le> sv_next_queue_sequence s"
    using assms(1) by (simp add: queue_ok_def list_all_iff)
  then have "qe_sequence e \<notin> set (map qe_sequence (sv_queue_entries s))" using assms(5) by fastforce
  then have "distinct (map qe_sequence ((sv_queue_entries s)[i := e]))"
    using assms(1,2) by (simp add: map_update distinct_list_update queue_ok_def)
  moreover have "list_all (\<lambda>x. qe_sequence x \<le> sv_next_queue_sequence s + 1) ((sv_queue_entries s)[i := e])"
    using le assms(5) by (intro list_all_update) (auto simp: list_all_iff)
  ultimately show ?thesis using assms by (simp add: queue_ok_def update_entry_def map_key_update list_all_update)
qed

lemma enqueue_new:
  assumes "queue_ok s" "queue_config_ok config" "qc_queue_id config = Some q" "qc_entry_id config = Some en" "qc_endpoint_id config = Some ep"
    and "find_call_center_queue_entry s q (qc_side config) en = None"
    and "turbo_room_service_enqueue_call_center_queue_entry al s config = (rc, s')"
  shows "queue_ok s' \<and> sv_agent_states s' = sv_agent_states s \<and> sv_agent_capacity s' = sv_agent_capacity s
    \<and> (\<forall>x. claims_on s' x = claims_on s x)"
proof -
  have fit: "length q < ID_MAX" "length en < ID_MAX" "length ep < ID_MAX" "ep \<noteq> []"
    "is_valid_call_center_queue_side (qc_side config)"
    using assms(2-5) by (auto simp: queue_config_ok_def string_fits_required)
  let ?es = "sv_queue_entries s"
  have new: "\<forall>e\<in>set ?es. entry_key e \<noteq> (qc_side config, q, en)"
    using fit(5) assms(6) by (auto simp: find_call_center_queue_entry_def first_below_absent entry_key_def)
  define s1 where "s1 = s\<lparr>sv_queue_entries := filter (\<lambda>e. is_active_call_center_queue_entry_state (qe_state e)) ?es\<rparr>"
  have c: "compact_call_center_queue_entries_locked s = s1"
    using compact_filter assms(1) by (simp add: queue_ok_def s1_def)
  have ok: "queue_ok s1" unfolding s1_def by (rule queue_ok_filter [OF assms(1)])
  have cl: "claims_on s1 x = claims_on s x" for x
    by (auto simp: s1_def claims_on_def holds_claim_def is_active_call_center_queue_entry_state_def
        intro!: arg_cong [where f = length] filter_cong)
  show ?thesis
  proof (cases "ensure_capacity al (sv_queue_capacity s1) (length (sv_queue_entries s1) + 1)")
    case None
    then have "s' = s1" using assms(2-7) c
      by (simp add: turbo_room_service_enqueue_call_center_queue_entry_def Let_def)
    then show ?thesis using ok cl by (simp add: s1_def)
  next
    case cap: (Some cap)
    have le: "\<forall>e\<in>set (sv_queue_entries s1). qe_sequence e \<le> sv_next_queue_sequence s1"
      using ok by (simp add: queue_ok_def list_all_iff)
    have sub: "set (sv_queue_entries s1) \<subseteq> set ?es" by (auto simp: s1_def)
    let ?n = "\<lparr>qe_queue_id = q, qe_side = qc_side config, qe_entry_id = en, qe_endpoint_id = ep, qe_priority = qc_priority config,
        qe_sequence = sv_next_queue_sequence s1 + 1, qe_version = 1, qe_claimed_at_ms = 0, qe_state = ENTRY_QUEUED\<rparr>"
    have s': "s' = s1\<lparr>sv_queue_capacity := cap, sv_next_queue_sequence := sv_next_queue_sequence s1 + 1,
        sv_queue_entries := sv_queue_entries s1 @ [?n]\<rparr>"
      using assms(2-7) c cap fit by (simp add: turbo_room_service_enqueue_call_center_queue_entry_def Let_def)
    have "entry_wf ?n" using fit by (simp add: entry_wf_def)
    moreover have "entry_key ?n \<notin> entry_key ` set (sv_queue_entries s1)"
      using new sub by (auto simp: entry_key_def)
    moreover have "qe_sequence ?n \<notin> qe_sequence ` set (sv_queue_entries s1)" using le by fastforce
    moreover have "list_all (\<lambda>e. qe_sequence e \<le> sv_next_queue_sequence s1 + 1) (sv_queue_entries s1)"
      using le by (auto simp: list_all_iff)
    ultimately have "queue_ok s'" using ok ensure_capacity_enough [OF cap] unfolding s' queue_ok_def by simp
    moreover have "claims_on s' x = claims_on s1 x" for x by (simp add: s' claims_on_def holds_claim_def)
    moreover have "sv_agent_states s' = sv_agent_states s \<and> sv_agent_capacity s' = sv_agent_capacity s"
      by (simp add: s' s1_def)
    ultimately show ?thesis using cl by simp
  qed
qed

lemma enqueue_again:
  assumes "queue_ok s" "queue_config_ok config" "qc_queue_id config = Some q" "qc_entry_id config = Some en" "qc_endpoint_id config = Some ep"
    and "find_call_center_queue_entry s q (qc_side config) en = Some i"
    and "turbo_room_service_enqueue_call_center_queue_entry al s config = (rc, s')"
  shows "queue_ok s' \<and> sv_agent_states s' = sv_agent_states s \<and> sv_agent_capacity s' = sv_agent_capacity s
    \<and> (\<forall>x. claims_on s' x = claims_on s x)"
proof -
  have fit: "length ep < ID_MAX" "ep \<noteq> []" using assms(2,5) by (auto simp: queue_config_ok_def string_fits_required)
  note i = find_entry [OF assms(6)]
  let ?e = "sv_queue_entries s ! i"
  note wf = entry_at_wf [OF assms(1) i(1)]
  let ?r = "?e\<lparr>qe_endpoint_id := ep, qe_priority := qc_priority config, qe_sequence := sv_next_queue_sequence s + 1,
      qe_version := qe_version ?e + 1, qe_claimed_at_ms := 0, qe_state := ENTRY_QUEUED\<rparr>"
  let ?k = "?e\<lparr>qe_endpoint_id := ep, qe_priority := qc_priority config,
      qe_version := (if qe_endpoint_id ?e \<noteq> ep \<or> qe_priority ?e \<noteq> qc_priority config then qe_version ?e + 1 else qe_version ?e)\<rparr>"
  have r: "queue_ok ((update_entry s i ?r)\<lparr>sv_next_queue_sequence := sv_next_queue_sequence s + 1\<rparr>)"
    using fit wf by (intro fresh_ticket_ok [OF assms(1) i(1)]) (auto simp: entry_wf_def entry_key_def)
  have k: "queue_ok (update_entry s i ?k)"
    using fit wf by (intro update_entry_ok [OF assms(1) i(1)]) (auto simp: entry_wf_def entry_key_def)
  have cl: "claims_on (update_entry s i ?r) x = claims_on s x" if "qe_state ?e \<noteq> ENTRY_CLAIMED" for x
    using claims_update [OF i(1), of ?r x] that by (simp add: holds_claim_def)
  have ck: "claims_on (update_entry s i ?k) x = claims_on s x" if "qe_state ?e = ENTRY_QUEUED" for x
    using claims_update [OF i(1), of ?k x] that by (simp add: holds_claim_def)
  have "s' = s \<or> (qe_state ?e \<noteq> ENTRY_CLAIMED \<and> s' = (update_entry s i ?r)\<lparr>sv_next_queue_sequence := sv_next_queue_sequence s + 1\<rparr>)
      \<or> (qe_state ?e = ENTRY_QUEUED \<and> s' = update_entry s i ?k)"
    using assms(2-7) fit by (auto simp: turbo_room_service_enqueue_call_center_queue_entry_def Let_def split: if_splits)
  then show ?thesis using assms(1) r k cl ck by (auto simp: claims_on_def)
qed

lemma enqueue_kept:
  assumes "queue_ok s" "turbo_room_service_enqueue_call_center_queue_entry al s config = (rc, s')"
  shows "queue_ok s' \<and> sv_agent_states s' = sv_agent_states s \<and> sv_agent_capacity s' = sv_agent_capacity s
    \<and> (\<forall>x. claims_on s' x = claims_on s x)"
proof (cases "queue_config_ok config")
  case True
  then obtain q en ep where cf: "qc_queue_id config = Some q" "qc_entry_id config = Some en" "qc_endpoint_id config = Some ep"
    by (auto simp: queue_config_ok_def string_fits_required)
  show ?thesis
    using enqueue_new [OF assms(1) True cf _ assms(2)] enqueue_again [OF assms(1) True cf _ assms(2)]
    by (cases "find_call_center_queue_entry s q (qc_side config) en") blast+
qed (use assms in \<open>simp add: turbo_room_service_enqueue_call_center_queue_entry_def\<close>)

lemma enqueue_ledger:
  "ledger s \<Longrightarrow> turbo_room_service_enqueue_call_center_queue_entry al s config = (rc, s') \<Longrightarrow> ledger s'"
  using enqueue_kept [of s al config rc s'] by (simp add: ledger_def agents_ok_def agent_of_map agent_map_def)

section \<open>The queue interface\<close>

datatype queue_call = Enqueue allocator queue_entry_config | Remove_Entry cstring queue_side cstring
  | Queue_Depth allocator u64 cstring queue_side | Peek allocator u64 cstring queue_side | Pop allocator u64 cstring queue_side
  | Match allocator u64 u64 u64 cstring | Claim allocator u64 u64 u64 cstring
  | Complete allocator cstring cstring cstring | Rollback allocator cstring cstring cstring
  | Recover allocator u64 cstring u64

fun queue_exec :: "queue_call \<Rightarrow> room_service \<Rightarrow> room_service" where
  "queue_exec (Enqueue al config) s = snd (turbo_room_service_enqueue_call_center_queue_entry al s config)"
| "queue_exec (Remove_Entry q side en) s = snd (turbo_room_service_remove_call_center_queue_entry s q side en)"
| "queue_exec (Queue_Depth al now q side) s = snd (turbo_room_service_get_call_center_queue_depth al now s q side)"
| "queue_exec (Peek al now q side) s = snd (turbo_room_service_peek_call_center_queue_entry al now s q side)"
| "queue_exec (Pop al now q side) s = snd (turbo_room_service_pop_call_center_queue_entry al now s q side)"
| "queue_exec (Match al t0 t1 t2 q) s = snd (turbo_room_service_match_call_center_queue al t0 t1 t2 s q)"
| "queue_exec (Claim al t0 t1 t2 q) s = snd (turbo_room_service_claim_call_center_queue_match al t0 t1 t2 s q)"
| "queue_exec (Complete al q a b) s = snd (turbo_room_service_complete_call_center_queue_match al s q a b)"
| "queue_exec (Rollback al q a b) s = snd (turbo_room_service_rollback_call_center_queue_match al s q a b)"
| "queue_exec (Recover al now q lease) s = snd (turbo_room_service_recover_stale_call_center_queue_claims al now s q lease)"

lemma pop_ledger:
  assumes "ledger s" shows "ledger (snd (turbo_room_service_pop_call_center_queue_entry al now s q side))"
proof (cases q)
  case (Some qid)
  let ?s1 = "recover_default al now s qid"
  have l: "ledger ?s1" by (rule recover_ledger [OF assms])
  have "ledger s2" if "find_best_call_center_queue_entry_index ?s1 qid side = Some i" "is_valid_call_center_queue_side side"
      "mark_call_center_queue_entry_state now ?s1 i ENTRY_QUEUED ENTRY_CANCELED = (rc, s2)" for i rc s2
    using mark_ledger [OF l _ that(3)] best_index(1) [OF that(1)] that(2) by (auto simp: is_valid_call_center_queue_side_def)
  then show ?thesis using Some l assms
    by (auto simp: turbo_room_service_pop_call_center_queue_entry_def Let_def split: option.splits prod.splits)
qed (use assms in \<open>simp add: turbo_room_service_pop_call_center_queue_entry_def\<close>)

lemma queue_exec_ledger:
  assumes "ledger s" shows "ledger (queue_exec c s)"
proof (cases c)
  case (Enqueue al config)
  then show ?thesis using enqueue_ledger [OF assms] by (metis queue_exec.simps(1) prod.collapse)
next
  case (Remove_Entry q side en)
  then show ?thesis using assms mark_kept
    by (auto simp: turbo_room_service_remove_call_center_queue_entry_def split: option.splits)
next
  case (Pop al now q side) then show ?thesis using pop_ledger [OF assms] by simp
next
  case (Match al t0 t1 t2 q)
  then show ?thesis using match_ledger [OF assms] by (metis queue_exec.simps(6) prod.collapse)
next
  case (Claim al t0 t1 t2 q)
  then show ?thesis using assms claim_ledger [OF recover_ledger [OF assms]]
    by (cases q) (auto simp: turbo_room_service_claim_call_center_queue_match_def, metis prod.collapse)
next
  case (Complete al q a b)
  then show ?thesis using set_claimed_ledger [OF assms, of al q a b ENTRY_ROUTED]
    by (metis queue_exec.simps(8) prod.collapse turbo_room_service_complete_call_center_queue_match_def)
next
  case (Rollback al q a b)
  then show ?thesis using set_claimed_ledger [OF assms, of al q a b ENTRY_QUEUED]
    by (metis queue_exec.simps(9) prod.collapse turbo_room_service_rollback_call_center_queue_match_def)
qed (use assms recover_ledger [OF assms] in \<open>auto simp: turbo_room_service_get_call_center_queue_depth_def Let_def
    turbo_room_service_peek_call_center_queue_entry_def turbo_room_service_recover_stale_call_center_queue_claims_def
    split_beta split: option.splits\<close>)

section \<open>Queues in order\<close>

text \<open>Without any assumption on who sets the agents' states: keys and tickets stay unique.\<close>

definition desk_ok :: "room_service \<Rightarrow> bool" where
  "desk_ok s \<longleftrightarrow> queue_ok s \<and> agents_ok s"

lemma desk_update: "desk_ok s \<Longrightarrow> desk_ok (update_entry s i (set_entry_state st t (sv_queue_entries s ! i)))"
  using set_entry_state_ok [of s i st t]
  by (cases "i < length (sv_queue_entries s)") (simp_all add: desk_ok_def, simp add: queue_ok_def update_entry_def agents_ok_def list_update_beyond)

lemma desk_set_agent:
  assumes "desk_ok s" "length ep < ID_MAX"
  shows "desk_ok (snd (set_call_center_agent_state_locked al s ep st))"
proof -
  obtain rc s' where s': "set_call_center_agent_state_locked al s ep st = (rc, s')" by fastforce
  from s' _ assms(2) have "agents_ok s'" by (cases rule: set_agent_cases) (use assms(1) in \<open>simp_all add: desk_ok_def\<close>)
  moreover have "queue_ok s'" using same_queues_ok [OF set_agent_same_queues [of s al ep st]] assms(1) s' by (simp add: desk_ok_def)
  ultimately show ?thesis using s' by (simp add: desk_ok_def)
qed

lemma desk_endpoint: "desk_ok s \<Longrightarrow> i < length (sv_queue_entries s) \<Longrightarrow> length (qe_endpoint_id (sv_queue_entries s ! i)) < ID_MAX"
  using entry_at_wf [of s i] by (simp add: desk_ok_def entry_wf_def)

lemma desk_update_agent:
  assumes "desk_ok s" "i < length (sv_queue_entries s)"
  shows "desk_ok (snd (set_call_center_agent_state_locked al (update_entry s i (set_entry_state st t (sv_queue_entries s ! i)))
    (qe_endpoint_id (sv_queue_entries s ! i)) ag))"
  by (rule desk_set_agent [OF desk_update [OF assms(1)] desk_endpoint [OF assms]])

lemma desk_mark: "desk_ok s \<Longrightarrow> desk_ok (snd (mark_call_center_queue_entry_state t s i a b))"
  using desk_update by (simp add: mark_call_center_queue_entry_state_def Let_def)

lemma desk_recover:
  assumes "desk_ok s" shows "desk_ok (snd (recover_stale_call_center_queue_claims_locked al now s q lease))"
proof -
  have "desk_ok (snd (fold (recover_entry al q lease now) is cs))"
    if "desk_ok (snd cs)" "\<forall>i\<in>set is. i < length (sv_queue_entries (snd cs))" for "is" cs
    using that
  proof (induction "is" arbitrary: cs)
    case (Cons i "is")
    have "desk_ok (snd (recover_entry al q lease now i cs))"
      using Cons.prems desk_update_agent [of "snd cs" i] desk_update [of "snd cs" i ENTRY_QUEUED 0]
      by (auto simp: recover_entry_def Let_def split_beta)
    then show ?case using Cons recover_entry_length [of al q lease now i cs] by simp
  qed simp
  from this [of "(0, s)" "[0..<length (sv_queue_entries s)]"] assms show ?thesis
    by (simp add: recover_stale_call_center_queue_claims_locked_def)
qed

lemma desk_settle:
  assumes "desk_ok s" "b < length (sv_queue_entries s)"
  shows "desk_ok (settle_match al s a b st)"
proof -
  define s1 where "s1 = update_entry s a (set_entry_state st 0 (sv_queue_entries s ! a))"
  have s1: "desk_ok s1" "b < length (sv_queue_entries s1)" using desk_update [OF assms(1)] assms(2) by (simp_all add: s1_def)
  have e: "qe_endpoint_id (sv_queue_entries (update_entry s1 b (set_entry_state st 0 (sv_queue_entries s1 ! b))) ! b)
      = qe_endpoint_id (sv_queue_entries s1 ! b)" using s1(2) by simp
  show ?thesis unfolding settle_match_def Let_def s1_def [symmetric] e
    using desk_update_agent [OF s1] desk_update [OF s1(1)] by simp
qed

lemma desk_claim:
  assumes "desk_ok s" shows "desk_ok (snd (claim_call_center_queue_match_locked al t1 t2 s q))"
proof -
  obtain r s' where c: "claim_call_center_queue_match_locked al t1 t2 s q = (r, s')" by fastforce
  then have "desk_ok s'"
  proof (cases rule: claim_cases)
    case (found a b s1 s2 rc s3)
    have "desk_ok s1" unfolding found(4) by (rule desk_update [OF assms])
    moreover have "b < length (sv_queue_entries s1)" "sv_queue_entries s1 ! b = sv_queue_entries s ! b"
      using found(3,4) best_index(1) [OF found(2)] by simp_all
    ultimately have "desk_ok s3" using desk_update_agent [of s1 b al ENTRY_CLAIMED t2 AGENT_RESERVED] found(5,6) by simp
    then show ?thesis using found(7,8) desk_mark by (cases "rc = 0") simp_all
  qed (use assms in simp)
  then show ?thesis using c by simp
qed

lemma desk_match:
  assumes "desk_ok s" shows "desk_ok (snd (turbo_room_service_match_call_center_queue al t0 t1 t2 s q))"
proof (cases q)
  case (Some qid)
  let ?c = "claim_call_center_queue_match_locked al t1 t2 (recover_default al t0 s qid) qid"
  have "desk_ok (snd ?c)" by (rule desk_claim [OF desk_recover [OF assms]])
  then show ?thesis using Some
    by (auto simp: turbo_room_service_match_call_center_queue_def split: prod.splits sum.splits option.splits
        intro!: desk_settle dest: find_entry(1))
qed (use assms in \<open>simp add: turbo_room_service_match_call_center_queue_def\<close>)

lemma desk_set_claimed:
  assumes "desk_ok s" shows "desk_ok (snd (set_claimed_call_center_queue_match_state al s q a b st))"
  using assms by (auto simp: set_claimed_call_center_queue_match_state_def split: option.splits intro!: desk_settle dest: find_entry(1))

lemma desk_enqueue:
  assumes "desk_ok s" shows "desk_ok (snd (turbo_room_service_enqueue_call_center_queue_entry al s config))"
  using enqueue_kept [of s al config] assms
  by (cases "turbo_room_service_enqueue_call_center_queue_entry al s config") (simp add: desk_ok_def agents_ok_def)

lemma queue_exec_desk:
  assumes "desk_ok s" shows "desk_ok (queue_exec c s)"
  using assms desk_recover [OF assms] desk_mark [OF assms] desk_mark [OF desk_recover [OF assms]]
    desk_claim [OF desk_recover [OF assms]] desk_match [OF assms] desk_set_claimed [OF assms] desk_enqueue [OF assms]
  by (cases c) (auto simp: turbo_room_service_remove_call_center_queue_entry_def turbo_room_service_get_call_center_queue_depth_def
      turbo_room_service_peek_call_center_queue_entry_def turbo_room_service_pop_call_center_queue_entry_def
      turbo_room_service_claim_call_center_queue_match_def turbo_room_service_complete_call_center_queue_match_def
      turbo_room_service_rollback_call_center_queue_match_def turbo_room_service_recover_stale_call_center_queue_claims_def
      Let_def split_beta split: option.splits)

section \<open>Agents are reserved exactly while they are claimed\<close>

text \<open>The states the service reaches when nobody sets a reserved agent's state, or sets one to
  reserved, behind the queue's back.  What the room calls do to the agents are \<open>agent\<close> steps.\<close>

inductive duty_reach :: "room_service \<Rightarrow> bool" where
  start: "turbo_room_service_create True = Some s \<Longrightarrow> duty_reach s"
| queue: "duty_reach s \<Longrightarrow> duty_reach (queue_exec c s)"
| rooms: "duty_reach s \<Longrightarrow> duty_reach (s\<lparr>sv_rooms := rs, sv_room_capacity := n\<rparr>)"
| agent: "duty_reach s \<Longrightarrow> length ep < ID_MAX \<Longrightarrow> agent_of s ep \<noteq> AGENT_RESERVED \<Longrightarrow> st \<noteq> AGENT_RESERVED
    \<Longrightarrow> duty_reach (snd (set_call_center_agent_state_locked al s ep st))"

lemma duty_ledger: "duty_reach s \<Longrightarrow> ledger s"
proof (induction rule: duty_reach.induct)
  case (start s)
  then have "s = \<lparr>sv_rooms = [], sv_room_capacity = 0, sv_queue_entries = [], sv_queue_capacity = 0,
        sv_agent_states = [], sv_agent_capacity = 0, sv_next_queue_sequence = 0\<rparr>"
    by (simp add: turbo_room_service_create_def)
  then show ?case by (simp add: ledger_def queue_ok_def agents_ok_def claims_on_def agent_of_map agent_map_def)
next
  case (queue s c) then show ?case by (intro queue_exec_ledger)
next
  case (rooms s rs n)
  then show ?case by (simp add: ledger_def queue_ok_def agents_ok_def claims_on_def agent_of_map agent_map_def)
next
  case (agent s ep st al)
  obtain rc s' where s': "set_call_center_agent_state_locked al s ep st = (rc, s')" by fastforce
  show ?case
  proof (cases "rc = 0")
    case True
    have "claims_on s x = (if (if x = ep then st else agent_of s x) = AGENT_RESERVED then 1 else 0)" for x
      using ledgerD(3) [OF agent.IH, of x] agent.hyps by auto
    then show ?thesis using ledger_set_agent(2) [OF s' ledgerD(1,2) [OF agent.IH] agent.hyps(2) True] s' by simp
  next
    case False
    then show ?thesis using ledger_set_agent(1) [OF s' ledgerD(1,2) [OF agent.IH] agent.hyps(2)] s' agent.IH by simp
  qed
qed

lemma duty_run: "duty_reach s \<Longrightarrow> duty_reach (fold queue_exec cs s)"
  by (induction cs arbitrary: s) (simp_all add: duty_reach.queue)

text \<open>C13. An agent is reserved exactly while one claimed entry holds it: however many queues and
  entries name the agent, and however callers enqueue, remove, pop, match, claim, complete, roll back
  and recover, at most one claimed entry names an agent at a time, and the agent's state is reserved if
  and only if there is one; so no agent is promised to two callers, and no agent stays reserved
  without a claim.  The history may also set the states of agents that are not reserved (to anything
  but reserved), as the room calls do, and change the rooms.\<close>

theorem agent_reserved_once:
  assumes "duty_reach s"
  shows "length (filter (\<lambda>e. qe_side e = QUEUE_CALLEE \<and> qe_state e = ENTRY_CLAIMED \<and> qe_endpoint_id e = ep) (sv_queue_entries s))
    = (if fst (get_call_center_agent_effective_state s ep) = AGENT_RESERVED then 1 else 0)"
  using ledgerD(3) [OF duty_ledger [OF assms], of ep] unfolding claims_on_def holds_claim_def [abs_def] .

lemma agent_reserved_once_witness:
  "\<exists>s. duty_reach s \<and> fst (get_call_center_agent_effective_state s ''a'') = AGENT_RESERVED
     \<and> length (filter (\<lambda>e. qe_side e = QUEUE_CALLEE \<and> qe_state e = ENTRY_CLAIMED \<and> qe_endpoint_id e = ''a'') (sv_queue_entries s)) = 1"
proof -
  let ?calls = "[Enqueue (\<lambda>_. True) \<lparr>qc_queue_id = Some ''q'', qc_side = QUEUE_CALLER, qc_entry_id = Some ''c'', qc_endpoint_id = Some ''x'', qc_priority = 1\<rparr>,
       Enqueue (\<lambda>_. True) \<lparr>qc_queue_id = Some ''q'', qc_side = QUEUE_CALLEE, qc_entry_id = Some ''d'', qc_endpoint_id = Some ''a'', qc_priority = 1\<rparr>,
       Claim (\<lambda>_. True) 5 5 6 (Some ''q'')]"
  let ?s = "fold queue_exec ?calls (the (turbo_room_service_create True))"
  have "duty_reach (the (turbo_room_service_create True))" by (rule duty_reach.start) (simp add: turbo_room_service_create_def)
  then have r: "duty_reach ?s" by (rule duty_run)
  have "fst (get_call_center_agent_effective_state ?s ''a'') = AGENT_RESERVED" by code_simp
  then show ?thesis using r agent_reserved_once [OF r, of "''a''"] by auto
qed

text \<open>The ledger holds only while nobody interferes: ending a claim makes the agent available again,
  even an agent that was set offline in the meantime.\<close>

lemma rollback_overrides_agent:
  assumes "desk_ok s" "turbo_room_service_rollback_call_center_queue_match al s (Some q) (Some a) (Some b) = (0, s')"
    and "find_call_center_queue_entry s q QUEUE_CALLEE b = Some j" "agent_of s (qe_endpoint_id (sv_queue_entries s ! j)) = AGENT_OFFLINE"
  shows "agent_of s' (qe_endpoint_id (sv_queue_entries s ! j)) = AGENT_AVAILABLE"
proof -
  let ?ep = "qe_endpoint_id (sv_queue_entries s ! j)"
  obtain i where i: "find_call_center_queue_entry s q QUEUE_CALLER a = Some i" "s' = settle_match al s i j ENTRY_QUEUED"
    using assms(2,3) by (auto simp: turbo_room_service_rollback_call_center_queue_match_def
        set_claimed_call_center_queue_match_state_def split: option.splits if_splits)
  note fj = find_entry [OF assms(3)] and fi = find_entry [OF i(1)]
  have ne: "i \<noteq> j" using fi(2) fj(2) by (auto simp: entry_key_def)
  define u where "u = update_entry (update_entry s i (set_entry_state ENTRY_QUEUED 0 (sv_queue_entries s ! i))) j (set_entry_state ENTRY_QUEUED 0 (sv_queue_entries s ! j))"
  have ep: "length ?ep < ID_MAX" "?ep \<noteq> []" using entry_at_wf [of s j] assms(1) fj(1) by (auto simp: desk_ok_def entry_wf_def)
  have s': "s' = snd (set_call_center_agent_state_locked al u ?ep AGENT_AVAILABLE)"
    using i(2) ne fj(1) by (simp add: settle_match_def Let_def u_def)
  obtain rc s2 where s2: "set_call_center_agent_state_locked al u ?ep AGENT_AVAILABLE = (rc, s2)" by fastforce
  have au: "agents_ok u" "agent_map u = agent_map s" using assms(1) by (simp_all add: u_def desk_ok_def)
  have m: "agent_map u ?ep \<noteq> None" using assms(4) ep(2) au(2) by (auto simp: agent_of_map split: option.splits)
  from s2 au(1) ep(1) have "agent_of s2 ?ep = AGENT_AVAILABLE"
    by (cases rule: set_agent_cases) (use m ep in \<open>auto simp: is_valid_call_center_agent_state_def agent_of_map\<close>)
  then show ?thesis using s' s2 by simp
qed

end
