(* ===== verification/Room_Integrity.thy ===== *)
theory Room_Integrity
  imports Room_Service Call_Ledger
begin

text \<open>
  What every call of the conference room service keeps (\<open>webrtc/src/conference/turbo_room_service.c\<close>):
  the rooms stay referentially sound whatever clients ask for and whichever allocations fail.
\<close>

section \<open>Lookups by identifier\<close>

definition sub_key :: "room_subscription \<Rightarrow> string \<times> string" where
  "sub_key b = (rb_subscriber_participant_id b, rb_track_id b)"

lemma lookup_iff:
  assumes "distinct (map k xs)"
  shows "map_option ((!) xs) (first_below (length xs) (\<lambda>e. k e = x) xs) = Some t \<longleftrightarrow> t \<in> set xs \<and> k t = x"
proof -
  have "distinct (map fst (map (\<lambda>e. (k e, e)) xs))" using assms by (simp add: comp_def)
  from map_of_eq_Some_iff [OF this, of x t] show ?thesis
    unfolding first_below_map_of [of "\<lambda>e. e" xs k x, symmetric] by auto
qed

lemma participant_at_iff:
  "distinct (map rp_participant_id (re_participants r)) \<Longrightarrow>
   participant_at r pid = Some p \<longleftrightarrow> p \<in> set (re_participants r) \<and> rp_participant_id p = pid"
  unfolding participant_at_def room_find_participant_def by (rule lookup_iff)

lemma track_at_iff:
  "distinct (map rt_track_id (re_tracks r)) \<Longrightarrow> track_at r tid = Some t \<longleftrightarrow> t \<in> set (re_tracks r) \<and> rt_track_id t = tid"
  unfolding track_at_def find_track_def by (rule lookup_iff)

lemma room_find_participant_None: "room_find_participant r pid = None \<longleftrightarrow> pid \<notin> rp_participant_id ` set (re_participants r)"
  by (auto simp: room_find_participant_def first_below_absent)

lemma find_track_None: "find_track r tid = None \<longleftrightarrow> tid \<notin> rt_track_id ` set (re_tracks r)"
  by (auto simp: find_track_def first_below_absent)

lemma find_subscription_None: "find_subscription r p t = None \<longleftrightarrow> (p, t) \<notin> sub_key ` set (re_subscriptions r)"
  by (auto simp: find_subscription_def first_below_absent sub_key_def)

lemma find_Some:
  "room_find_participant r pid = Some i \<Longrightarrow> i < length (re_participants r) \<and> rp_participant_id (re_participants r ! i) = pid"
  "find_track r tid = Some i \<Longrightarrow> i < length (re_tracks r) \<and> rt_track_id (re_tracks r ! i) = tid"
  "find_subscription r p t = Some i \<Longrightarrow> i < length (re_subscriptions r) \<and> sub_key (re_subscriptions r ! i) = (p, t)"
  "find_room s rid = Some i \<Longrightarrow> i < length (sv_rooms s) \<and> re_room_id (sv_rooms s ! i) = rid"
  by (auto simp: room_find_participant_def find_track_def find_subscription_def find_room_def sub_key_def dest!: first_below_found)

section \<open>The invariant of a room\<close>

definition room_ok :: "room_entry \<Rightarrow> bool" where
  "room_ok r \<longleftrightarrow>
     distinct (map rp_participant_id (re_participants r)) \<and> distinct (map rt_track_id (re_tracks r))
     \<and> distinct (map sub_key (re_subscriptions r))
     \<and> (\<forall>p\<in>set (re_participants r). rp_participant_id p \<noteq> '''' \<and> length (rp_participant_id p) < ID_MAX)
     \<and> (\<forall>t\<in>set (re_tracks r). rt_track_id t \<noteq> '''' \<and> length (rt_track_id t) < ID_MAX
          \<and> (\<exists>p\<in>set (re_participants r). rp_participant_id p = rt_owner_participant_id t \<and> role_can_publish (rp_role p)))
     \<and> (\<forall>b\<in>set (re_subscriptions r). rb_subscriber_participant_id b \<in> rp_participant_id ` set (re_participants r)
          \<and> rb_track_id b \<in> rt_track_id ` set (re_tracks r))
     \<and> length (re_participants r) \<le> re_participant_capacity r \<and> length (re_tracks r) \<le> re_track_capacity r
     \<and> length (re_subscriptions r) \<le> re_subscription_capacity r
     \<and> (re_status r = ROOM_OPEN \<longrightarrow> re_participants r = []) \<and> (re_status r = ROOM_ACTIVE \<longrightarrow> re_participants r \<noteq> [])
     \<and> length (re_call_center_customer_participant_id r) < ID_MAX \<and> length (re_call_center_agent_participant_id r) < ID_MAX
     \<and> length (re_call_center_consult_agent_participant_id r) < ID_MAX"

lemma room_okD:
  assumes "room_ok r"
  shows "distinct (map rp_participant_id (re_participants r))" "distinct (map rt_track_id (re_tracks r))"
    "distinct (map sub_key (re_subscriptions r))"
    "\<And>p. p \<in> set (re_participants r) \<Longrightarrow> rp_participant_id p \<noteq> '''' \<and> length (rp_participant_id p) < ID_MAX"
    "\<And>t. t \<in> set (re_tracks r) \<Longrightarrow> rt_track_id t \<noteq> '''' \<and> length (rt_track_id t) < ID_MAX"
    "\<And>t. t \<in> set (re_tracks r) \<Longrightarrow> \<exists>p\<in>set (re_participants r). rp_participant_id p = rt_owner_participant_id t \<and> role_can_publish (rp_role p)"
    "\<And>b. b \<in> set (re_subscriptions r) \<Longrightarrow> rb_subscriber_participant_id b \<in> rp_participant_id ` set (re_participants r)
       \<and> rb_track_id b \<in> rt_track_id ` set (re_tracks r)"
    "length (re_call_center_customer_participant_id r) < ID_MAX" "length (re_call_center_agent_participant_id r) < ID_MAX"
    "length (re_call_center_consult_agent_participant_id r) < ID_MAX"
  using assms by (auto simp: room_ok_def)

lemma room_bump_ok [simp]:
  "room_ok (room_bump_version r) = room_ok r" "room_ok (room_bump_call_center_version r) = room_ok r"
  "re_room_id (room_bump_version r) = re_room_id r" "re_room_id (room_bump_call_center_version r) = re_room_id r"
  by (simp_all add: room_ok_def room_bump_version_def room_bump_call_center_version_def)

text \<open>The fields the invariant does not look at.\<close>

lemma room_ok_fields [simp]:
  "room_ok (r\<lparr>re_assigned_sfu_node := n\<rparr>) = room_ok r" "room_ok (r\<lparr>re_recording_state := rs\<rparr>) = room_ok r"
  "room_ok (r\<lparr>re_recording_state := rs, re_recording_id := i, re_recording_mode := m\<rparr>) = room_ok r"
  "room_ok (r\<lparr>re_layout_mode := lm\<rparr>) = room_ok r" "room_ok (r\<lparr>re_active_speaker_participant_id := a\<rparr>) = room_ok r"
  "room_ok (r\<lparr>re_pinned_participant_id := a\<rparr>) = room_ok r" "room_ok (r\<lparr>re_call_center_state := cs\<rparr>) = room_ok r"
  "room_ok (r\<lparr>re_call_center_state := cs, re_call_center_disposition_code := d\<rparr>) = room_ok r"
  by (simp_all add: room_ok_def)

lemma remove_at_map: "map f (remove_at xs i) = remove_at (map f xs) i"
  by (simp add: remove_at_def take_map drop_map)

lemma distinct_remove_at: "distinct xs \<Longrightarrow> distinct (remove_at xs i)"
  by (simp add: remove_at_def set_take_disj_set_drop_if_distinct)

lemma length_remove_at: "length (remove_at xs i) \<le> length xs"
  by (simp add: remove_at_def)

text \<open>Removing an element by its key.\<close>

lemma set_remove_at_key:
  assumes "distinct (map k xs)" "i < length xs"
  shows "set (remove_at xs i) = {x \<in> set xs. k x \<noteq> k (xs ! i)}"
proof -
  have x: "xs = take i xs @ xs ! i # drop (Suc i) xs" using assms(2) by (rule id_take_nth_drop)
  have "distinct (map k (take i xs @ xs ! i # drop (Suc i) xs))" using assms(1) x by simp
  then have "k (xs ! i) \<notin> k ` set (take i xs)" "k (xs ! i) \<notin> k ` set (drop (Suc i) xs)" by simp_all
  then have "\<forall>y\<in>set (take i xs) \<union> set (drop (Suc i) xs). k y \<noteq> k (xs ! i)" by (metis UnE imageI)
  moreover have "set xs = set (take i xs) \<union> set (drop (Suc i) xs) \<union> {xs ! i}" using arg_cong [OF x, of set] by auto
  ultimately show ?thesis using assms(2) by (auto simp: remove_at_def)
qed

lemma update_activity_ok:
  assumes "room_ok (r\<lparr>re_status := ROOM_CLOSED\<rparr>)"
  shows "room_ok (update_room_activity r)"
  using assms by (cases "re_status r") (simp_all add: room_ok_def update_room_activity_def)

lemma room_add_ok:
  assumes "room_ok r" "string_fits pid ID_MAX False"
  shows "room_ok (snd (room_add_participant al pid g u d role r))"
proof -
  obtain v where v: "pid = Some v" "v \<noteq> ''''" "length v < ID_MAX" using assms(2) by (auto simp: string_fits_required)
  show ?thesis
  proof (cases "v \<in> rp_participant_id ` set (re_participants r) \<or> ensure_capacity al (re_participant_capacity r) (length (re_participants r) + 1) = None")
    case True
    then show ?thesis using assms(1) v room_find_participant_None [of r v]
      by (auto simp: room_add_participant_def split: option.splits)
  next
    case False
    then obtain c where c: "ensure_capacity al (re_participant_capacity r) (length (re_participants r) + 1) = Some c" by auto
    have "room_find_participant r v = None" using False room_find_participant_None by simp
    moreover have "room_ok (r\<lparr>re_participant_capacity := c, re_participants := re_participants r @ [p], re_status := ROOM_CLOSED\<rparr>)"
      if "rp_participant_id p = v" for p
      using assms(1) v False ensure_capacity_enough [OF c] that by (auto simp: room_ok_def)
    ultimately show ?thesis using v c by (simp add: room_add_participant_def update_activity_ok)
  qed
qed

section \<open>Participants and tracks\<close>

lemma room_leave_fields [simp]:
  "re_participants (room_leave_call_center pid r) = re_participants r" "re_tracks (room_leave_call_center pid r) = re_tracks r"
  "re_subscriptions (room_leave_call_center pid r) = re_subscriptions r" "re_room_id (room_leave_call_center pid r) = re_room_id r"
  by (simp_all add: room_leave_call_center_def Let_def)

lemma room_leave_ok: "room_ok r \<Longrightarrow> room_ok (room_leave_call_center pid r)"
  by (auto simp: room_leave_call_center_def Let_def room_ok_def)

text \<open>Dropping participants, tracks and subscriptions together, when nothing kept refers to what is dropped.\<close>

lemma room_ok_shrink:
  assumes "room_ok r" "set ps \<subseteq> set (re_participants r)" "set ts \<subseteq> set (re_tracks r)"
    and "distinct (map rp_participant_id ps)" "distinct (map rt_track_id ts)" "distinct (map sub_key subs)"
    and "length ps \<le> re_participant_capacity r" "length ts \<le> re_track_capacity r" "length subs \<le> re_subscription_capacity r"
    and "\<And>t. t \<in> set ts \<Longrightarrow> \<exists>p\<in>set ps. rp_participant_id p = rt_owner_participant_id t \<and> role_can_publish (rp_role p)"
    and "\<And>b. b \<in> set subs \<Longrightarrow> rb_subscriber_participant_id b \<in> rp_participant_id ` set ps \<and> rb_track_id b \<in> rt_track_id ` set ts"
  shows "room_ok (r\<lparr>re_subscriptions := subs, re_tracks := ts, re_participants := ps, re_status := ROOM_CLOSED\<rparr>)"
    and "ps = re_participants r \<Longrightarrow> room_ok (r\<lparr>re_subscriptions := subs, re_tracks := ts\<rparr>)"
proof -
  have "\<forall>p\<in>set ps. rp_participant_id p \<noteq> '''' \<and> length (rp_participant_id p) < ID_MAX"
    using assms(2) room_okD(4) [OF assms(1)] by blast
  moreover have "\<forall>t\<in>set ts. rt_track_id t \<noteq> '''' \<and> length (rt_track_id t) < ID_MAX
      \<and> (\<exists>p\<in>set ps. rp_participant_id p = rt_owner_participant_id t \<and> role_can_publish (rp_role p))"
    using assms(3,10) room_okD(5) [OF assms(1)] by blast
  ultimately show "room_ok (r\<lparr>re_subscriptions := subs, re_tracks := ts, re_participants := ps, re_status := ROOM_CLOSED\<rparr>)"
    "ps = re_participants r \<Longrightarrow> room_ok (r\<lparr>re_subscriptions := subs, re_tracks := ts\<rparr>)"
    using assms(1,4-9,11) by (simp_all add: room_ok_def)
qed

text \<open>Who is left when a participant has gone: nothing refers to it.\<close>

lemma room_without:
  assumes ok: "room_ok room"
    and ps: "set ps \<subseteq> set (re_participants room)" "distinct (map rp_participant_id ps)" "length ps \<le> re_participant_capacity room"
      "\<And>p. p \<in> set (re_participants room) \<Longrightarrow> rp_participant_id p \<noteq> pid \<Longrightarrow> p \<in> set ps"
  defines "subs \<equiv> filter (\<lambda>b. \<not> (rb_subscriber_participant_id b = pid \<or>
      (case track_at room (rb_track_id b) of None \<Rightarrow> False | Some t \<Rightarrow> rt_owner_participant_id t = pid))) (re_subscriptions room)"
    and "ts \<equiv> filter (\<lambda>t. rt_owner_participant_id t \<noteq> pid) (re_tracks room)"
  shows "room_ok (room\<lparr>re_subscriptions := subs, re_tracks := ts, re_participants := ps, re_status := ROOM_CLOSED\<rparr>)"
    and "ps = re_participants room \<Longrightarrow> room_ok (room\<lparr>re_subscriptions := subs, re_tracks := ts\<rparr>)"
proof -
  have own: "\<exists>p\<in>set ps. rp_participant_id p = rt_owner_participant_id t \<and> role_can_publish (rp_role p)" if t: "t \<in> set ts" for t
  proof -
    have "t \<in> set (re_tracks room)" "rt_owner_participant_id t \<noteq> pid" using t by (simp_all add: ts_def)
    then show ?thesis using room_okD(6) [OF ok, of t] ps(4) by metis
  qed
  have subs: "rb_subscriber_participant_id b \<in> rp_participant_id ` set ps \<and> rb_track_id b \<in> rt_track_id ` set ts" if s: "b \<in> set subs" for b
  proof -
    have b: "b \<in> set (re_subscriptions room)" "rb_subscriber_participant_id b \<noteq> pid" using s by (auto simp: subs_def)
    obtain t where t: "t \<in> set (re_tracks room)" "rt_track_id t = rb_track_id b" using room_okD(7) [OF ok b(1)] by force
    then have "track_at room (rb_track_id b) = Some t" using track_at_iff [OF room_okD(2) [OF ok]] by simp
    then have "rt_owner_participant_id t \<noteq> pid" using s by (simp add: subs_def)
    then have tr: "rt_track_id t \<in> rt_track_id ` set ts" using t(1) by (intro imageI) (simp add: ts_def)
    obtain p where p: "p \<in> set (re_participants room)" "rp_participant_id p = rb_subscriber_participant_id b"
      using room_okD(7) [OF ok b(1)] by fastforce
    then have "rp_participant_id p \<in> rp_participant_id ` set ps" using b(2) ps(4) by (intro imageI) simp
    then show ?thesis using tr t(2) p(2) by simp
  qed
  have d: "distinct (map rt_track_id ts)" "distinct (map sub_key subs)" "length ts \<le> re_track_capacity room"
    "length subs \<le> re_subscription_capacity room" "set ts \<subseteq> set (re_tracks room)"
    using ok by (auto simp: ts_def subs_def room_ok_def distinct_map_filter intro: order_trans [OF length_filter_le])
  note shrink = room_ok_shrink [OF ok ps(1) d(5) ps(2) d(1,2) ps(3) d(3,4) own subs]
  show "room_ok (room\<lparr>re_subscriptions := subs, re_tracks := ts, re_participants := ps, re_status := ROOM_CLOSED\<rparr>)"
    "ps = re_participants room \<Longrightarrow> room_ok (room\<lparr>re_subscriptions := subs, re_tracks := ts\<rparr>)"
    by (rule shrink, assumption+)+
qed

lemma room_remove_ok:
  assumes "room_ok r" shows "room_ok (snd (room_remove_participant pid r))"
proof -
  define room where "room = room_leave_call_center pid r"
  have ok: "room_ok room" unfolding room_def by (rule room_leave_ok [OF assms])
  note without = room_without [OF ok, of _ pid]
  define r2 where "r2 = room\<lparr>re_subscriptions := filter (\<lambda>b. \<not> (rb_subscriber_participant_id b = pid \<or>
      (case track_at room (rb_track_id b) of None \<Rightarrow> False | Some t \<Rightarrow> rt_owner_participant_id t = pid))) (re_subscriptions room),
      re_tracks := filter (\<lambda>t. rt_owner_participant_id t \<noteq> pid) (re_tracks room)\<rparr>"
  have e: "room_remove_participant pid r = (case room_find_participant r2 pid of None \<Rightarrow> (-1, r2)
      | Some i \<Rightarrow> (0, room_bump_version (update_room_activity (r2\<lparr>re_participants := remove_at (re_participants r2) i\<rparr>))))"
    by (simp add: room_remove_participant_def Let_def remove_backwards_filter r2_def room_def cong: option.case_cong)
  show ?thesis
  proof (cases "room_find_participant r2 pid")
    case None
    have "room_ok r2" unfolding r2_def by (rule without(2)) (use ok in \<open>simp_all add: room_ok_def\<close>)
    then show ?thesis using e None by simp
  next
    case (Some i)
    then have i: "i < length (re_participants room)" "rp_participant_id (re_participants room ! i) = pid"
      using find_Some(1) [OF Some] by (simp_all add: r2_def)
    let ?ps = "remove_at (re_participants room) i"
    have ps: "set ?ps = {p \<in> set (re_participants room). rp_participant_id p \<noteq> pid}"
      using set_remove_at_key [OF room_okD(1) [OF ok] i(1)] i(2) by simp
    have "distinct (map rp_participant_id ?ps)" "length ?ps \<le> re_participant_capacity room"
      using ok length_remove_at [of "re_participants room" i] by (auto simp: remove_at_map distinct_remove_at room_ok_def)
    then have "room_ok (r2\<lparr>re_participants := ?ps, re_status := ROOM_CLOSED\<rparr>)"
      unfolding r2_def by (intro without(1)) (simp_all add: ps)
    then show ?thesis using e Some by (simp add: update_activity_ok r2_def)
  qed
qed

lemma update_participant_ok:
  assumes "room_ok r" "\<And>p. rp_participant_id (f p) = rp_participant_id p \<and> rp_role (f p) = rp_role p"
  shows "room_ok (snd (update_participant pid f r))"
proof (cases "room_find_participant r pid")
  case (Some i)
  let ?ps = "re_participants r" let ?p = "(f (?ps ! i))\<lparr>rp_version := rp_version (f (?ps ! i)) + 1\<rparr>"
  have i: "i < length ?ps" using find_Some(1) [OF Some] by simp
  have ids: "map rp_participant_id (?ps[i := ?p]) = map rp_participant_id ?ps"
    using i assms(2) by (intro map_key_update) simp_all
  have roles: "map (\<lambda>p. (rp_participant_id p, rp_role p)) (?ps[i := ?p]) = map (\<lambda>p. (rp_participant_id p, rp_role p)) ?ps"
    using i assms(2) by (intro map_key_update) simp_all
  have im: "rp_participant_id ` set (?ps[i := ?p]) = rp_participant_id ` set ?ps" using arg_cong [OF ids, of set] by simp
  have ir: "(\<lambda>p. (rp_participant_id p, rp_role p)) ` set (?ps[i := ?p]) = (\<lambda>p. (rp_participant_id p, rp_role p)) ` set ?ps"
    using arg_cong [OF roles, of set] by simp
  have "\<exists>p\<in>set (?ps[i := ?p]). rp_participant_id p = x \<and> role_can_publish (rp_role p)"
    if own: "\<exists>p\<in>set ?ps. rp_participant_id p = x \<and> role_can_publish (rp_role p)" for x
  proof -
    obtain p where "p \<in> set ?ps" "rp_participant_id p = x" "role_can_publish (rp_role p)" using own by blast
    then have "(x, rp_role p) \<in> (\<lambda>p. (rp_participant_id p, rp_role p)) ` set (?ps[i := ?p])" unfolding ir by force
    then show ?thesis using \<open>role_can_publish (rp_role p)\<close> by auto
  qed
  moreover have "\<forall>p\<in>set (?ps[i := ?p]). rp_participant_id p \<noteq> '''' \<and> length (rp_participant_id p) < ID_MAX"
  proof
    fix p assume "p \<in> set (?ps[i := ?p])"
    then have "rp_participant_id p \<in> rp_participant_id ` set ?ps" unfolding im [symmetric] by simp
    then obtain x where "x \<in> set ?ps" "rp_participant_id p = rp_participant_id x" by blast
    then show "rp_participant_id p \<noteq> '''' \<and> length (rp_participant_id p) < ID_MAX" using room_okD(4) [OF assms(1)] by metis
  qed
  ultimately have "room_ok (r\<lparr>re_participants := ?ps[i := ?p]\<rparr>)" using assms(1) im ids by (auto simp: room_ok_def)
  then show ?thesis using Some by (simp add: update_participant_def Let_def)
qed (use assms(1) in \<open>simp add: update_participant_def\<close>)

lemma configure_track_simps [simp]:
  "rt_track_id (configure_track c t) = rt_track_id t"
  "rt_owner_participant_id (configure_track c t) = copy_string ID_MAX (tc_owner_participant_id c)"
  by (simp_all add: configure_track_def Let_def)

lemma room_tracks_update:
  assumes "room_ok r" "i < length (re_tracks r)" "rt_track_id t = rt_track_id (re_tracks r ! i)"
    and "\<exists>p\<in>set (re_participants r). rp_participant_id p = rt_owner_participant_id t \<and> role_can_publish (rp_role p)"
  shows "room_ok (r\<lparr>re_tracks := (re_tracks r)[i := t]\<rparr>)"
proof -
  have ids: "map rt_track_id ((re_tracks r)[i := t]) = map rt_track_id (re_tracks r)" using assms by (intro map_key_update) auto
  then have im: "rt_track_id ` set ((re_tracks r)[i := t]) = rt_track_id ` set (re_tracks r)" by (metis list.set_map)
  have "set ((re_tracks r)[i := t]) \<subseteq> insert t (set (re_tracks r))" by (rule set_update_subset_insert)
  moreover have "rt_track_id t \<noteq> '''' \<and> length (rt_track_id t) < ID_MAX" using room_okD(5) [OF assms(1)] assms(2,3) by simp
  ultimately have "\<forall>x\<in>set ((re_tracks r)[i := t]). rt_track_id x \<noteq> '''' \<and> length (rt_track_id x) < ID_MAX
      \<and> (\<exists>p\<in>set (re_participants r). rp_participant_id p = rt_owner_participant_id x \<and> role_can_publish (rp_role p))"
    using room_okD(5,6) [OF assms(1)] assms(4) by blast
  then show ?thesis using assms(1) ids im by (simp add: room_ok_def)
qed

lemma room_publish_ok:
  assumes "room_ok r" "string_fits (tc_track_id c) ID_MAX False" "string_fits (tc_owner_participant_id c) ID_MAX False"
  shows "room_ok (snd (room_publish_track al c r))"
proof -
  obtain tid oid where v: "tc_track_id c = Some tid" "tid \<noteq> ''''" "length tid < ID_MAX" "tc_owner_participant_id c = Some oid" "length oid < ID_MAX"
    using assms(2,3) by (auto simp: string_fits_required)
  show ?thesis
  proof (cases "\<exists>p. participant_at r oid = Some p \<and> role_can_publish (rp_role p)")
    case True
    then have own: "\<exists>p\<in>set (re_participants r). rp_participant_id p = oid \<and> role_can_publish (rp_role p)"
      using participant_at_iff [OF room_okD(1) [OF assms(1)]] by auto
    have upd: "room_ok (r\<lparr>re_tracks := (re_tracks r)[i := configure_track c (re_tracks r ! i)]\<rparr>)" if "find_track r tid = Some i" for i
      using find_Some(2) [OF that] own v by (intro room_tracks_update [OF assms(1)]) auto
    have new: "room_ok (r\<lparr>re_track_capacity := n, re_tracks := re_tracks r @ [configure_track c (cleared_track (Some tid))]\<rparr>)"
      if "find_track r tid = None" "ensure_capacity al (re_track_capacity r) (length (re_tracks r) + 1) = Some n" for n
      using assms(1) own v that(1) ensure_capacity_enough [OF that(2)] find_track_None [of r tid]
      by (auto simp: room_ok_def cleared_track_def)
    show ?thesis using True assms(1) v upd new by (auto simp: room_publish_track_def split: option.splits)
  next
    case False
    then show ?thesis using assms(1) v by (auto simp: room_publish_track_def split: option.splits)
  qed
qed

lemma room_unpublish_ok:
  assumes "room_ok r" shows "room_ok (snd (room_unpublish_track tid r))"
proof -
  define subs where "subs = filter (\<lambda>b. rb_track_id b \<noteq> tid) (re_subscriptions r)"
  have s: "distinct (map sub_key subs)" "length subs \<le> re_subscription_capacity r"
    "\<forall>b\<in>set subs. rb_subscriber_participant_id b \<in> rp_participant_id ` set (re_participants r) \<and> rb_track_id b \<in> rt_track_id ` set (re_tracks r) \<and> rb_track_id b \<noteq> tid"
    using assms by (auto simp: subs_def room_ok_def distinct_map_filter intro: order_trans [OF length_filter_le])
  have r1: "room_ok (r\<lparr>re_subscriptions := subs\<rparr>)" using assms s by (simp add: room_ok_def)
  have "room_ok (r\<lparr>re_subscriptions := subs, re_tracks := remove_at (re_tracks r) i\<rparr>)" if "find_track (r\<lparr>re_subscriptions := subs\<rparr>) tid = Some i" for i
  proof -
    have i: "i < length (re_tracks r)" "rt_track_id (re_tracks r ! i) = tid" using find_Some(2) [OF that] by simp_all
    have ts: "set (remove_at (re_tracks r) i) = {t \<in> set (re_tracks r). rt_track_id t \<noteq> tid}"
      using set_remove_at_key [OF room_okD(2) [OF assms] i(1)] i(2) by simp
    have "distinct (map rt_track_id (remove_at (re_tracks r) i))" "length (remove_at (re_tracks r) i) \<le> re_track_capacity r"
      using assms length_remove_at [of "re_tracks r" i] by (auto simp: remove_at_map distinct_remove_at room_ok_def)
    then show ?thesis using assms s ts by (fastforce simp: room_ok_def)
  qed
  then show ?thesis using r1 by (auto simp: room_unpublish_track_def Let_def remove_backwards_filter subs_def split: option.splits)
qed

lemma room_mute_ok: "room_ok r \<Longrightarrow> room_ok (snd (room_set_track_muted tid m r))"
  using room_tracks_update [of r] room_okD(6) [of r]
  by (auto simp: room_set_track_muted_def Let_def split: option.splits dest!: find_Some(2))

section \<open>Subscriptions\<close>

lemma cleared_subscription_key [simp]:
  "length p < ID_MAX \<Longrightarrow> length t < ID_MAX \<Longrightarrow> sub_key (cleared_subscription p t) = (p, t)"
  by (simp add: sub_key_def cleared_subscription_def)

text \<open>Replacing a subscription by one with the same key, and adding one with a new key.\<close>

lemma subscriptions_update_ok:
  assumes "room_ok r" "i < length (re_subscriptions r)" "sub_key b = sub_key (re_subscriptions r ! i)"
  shows "room_ok (r\<lparr>re_subscriptions := (re_subscriptions r)[i := b]\<rparr>)"
proof -
  have ids: "map sub_key ((re_subscriptions r)[i := b]) = map sub_key (re_subscriptions r)" using assms by (intro map_key_update) auto
  have b: "rb_subscriber_participant_id b \<in> rp_participant_id ` set (re_participants r) \<and> rb_track_id b \<in> rt_track_id ` set (re_tracks r)"
    using room_okD(7) [OF assms(1), of "re_subscriptions r ! i"] assms(2,3) by (simp add: sub_key_def)
  have "set ((re_subscriptions r)[i := b]) \<subseteq> insert b (set (re_subscriptions r))" by (rule set_update_subset_insert)
  then have "\<forall>x\<in>set ((re_subscriptions r)[i := b]). rb_subscriber_participant_id x \<in> rp_participant_id ` set (re_participants r)
      \<and> rb_track_id x \<in> rt_track_id ` set (re_tracks r)" using b room_okD(7) [OF assms(1)] by blast
  then show ?thesis using assms(1) ids by (simp add: room_ok_def)
qed

lemma subscriptions_append_ok:
  assumes "room_ok r" "ensure_capacity al (re_subscription_capacity r) (length (re_subscriptions r) + 1) = Some c"
    and "sub_key b = (p, t)" "(p, t) \<notin> sub_key ` set (re_subscriptions r)"
    and "p \<in> rp_participant_id ` set (re_participants r)" "t \<in> rt_track_id ` set (re_tracks r)"
  shows "room_ok (r\<lparr>re_subscription_capacity := c, re_subscriptions := re_subscriptions r @ [b]\<rparr>)"
  using assms(1,3-6) ensure_capacity_enough [OF assms(2)] by (auto simp: room_ok_def sub_key_def)

lemma room_ids_short:
  "room_ok r \<Longrightarrow> p \<in> rp_participant_id ` set (re_participants r) \<Longrightarrow> length p < ID_MAX"
  "room_ok r \<Longrightarrow> t \<in> rt_track_id ` set (re_tracks r) \<Longrightarrow> length t < ID_MAX"
  using room_okD(4,5) by blast+

lemma configure_subscription_key [simp]: "sub_key (configure_subscription c b) = sub_key b"
  by (simp add: configure_subscription_def sub_key_def)

lemma room_set_subscription_ok:
  assumes "room_ok r" shows "room_ok (snd (room_set_subscription al p t c r))"
proof (cases "room_find_participant r p = None \<or> find_track r t = None")
  case False
  then have m: "p \<in> rp_participant_id ` set (re_participants r)" "t \<in> rt_track_id ` set (re_tracks r)"
    by (auto simp: room_find_participant_None find_track_None)
  note short = room_ids_short [OF assms]
  show ?thesis
  proof (cases "find_subscription r p t")
    case None
    then show ?thesis using False assms m short(1) [OF m(1)] short(2) [OF m(2)] find_subscription_None [of r p t]
      by (auto simp: room_set_subscription_def split: option.splits intro!: subscriptions_append_ok)
  next
    case (Some i)
    then show ?thesis using False assms subscriptions_update_ok [OF assms, of i] find_Some(3) [OF Some]
      by (simp add: room_set_subscription_def)
  qed
qed (use assms in \<open>auto simp: room_set_subscription_def\<close>)

lemma room_remove_subscription_ok:
  assumes "room_ok r" shows "room_ok (snd (room_remove_subscription p t r))"
proof (cases "find_subscription r p t")
  case (Some i)
  have "distinct (map sub_key (remove_at (re_subscriptions r) i))" "length (remove_at (re_subscriptions r) i) \<le> re_subscription_capacity r"
    using assms length_remove_at [of "re_subscriptions r" i] by (auto simp: remove_at_map distinct_remove_at room_ok_def)
  moreover have "\<forall>b\<in>set (remove_at (re_subscriptions r) i). rb_subscriber_participant_id b \<in> rp_participant_id ` set (re_participants r)
      \<and> rb_track_id b \<in> rt_track_id ` set (re_tracks r)"
    using room_okD(7) [OF assms] set_remove_at [of "re_subscriptions r" i] by blast
  ultimately have "room_ok (r\<lparr>re_subscriptions := remove_at (re_subscriptions r) i\<rparr>)" using assms by (simp add: room_ok_def)
  then show ?thesis using Some by (simp add: room_remove_subscription_def)
qed (use assms in \<open>simp add: room_remove_subscription_def\<close>)

section \<open>Reconciliation\<close>

definition carries_derived :: "derived_subscription \<Rightarrow> room_subscription \<Rightarrow> bool" where
  "carries_derived d b \<longleftrightarrow> rb_enabled b = ds_enabled d \<and> rb_priority b = ds_priority d \<and> rb_preferred_layer b = ds_layer d
     \<and> rb_target_layer b = ds_layer d \<and> rb_muted b = (\<not> ds_enabled d)
     \<and> rb_policy_source b = copy_string SHORT_NAME_MAX (Some (ds_policy_source d))"

lemma apply_derived:
  "sub_key (snd (apply_derived b d)) = sub_key b" "carries_derived d (snd (apply_derived b d))"
  by (simp_all add: apply_derived_def set_subscription_fields_def Let_def sub_key_def carries_derived_def)

text \<open>A room that differs in its subscriptions only.\<close>

definition with_subs :: "room_entry \<Rightarrow> room_subscription list \<Rightarrow> nat \<Rightarrow> room_entry" where
  "with_subs r x c = r\<lparr>re_subscription_capacity := c, re_subscriptions := x\<rparr>"

lemma with_subs_simps [simp]:
  "re_participants (with_subs r x c) = re_participants r" "re_tracks (with_subs r x c) = re_tracks r"
  "re_subscriptions (with_subs r x c) = x" "re_subscription_capacity (with_subs r x c) = c"
  "re_room_id (with_subs r x c) = re_room_id r" "with_subs (with_subs r x c) y d = with_subs r y d"
  "with_subs r (re_subscriptions r) (re_subscription_capacity r) = r"
  by (simp_all add: with_subs_def)

lemma ensure_subscription_spec:
  assumes "room_ok r" "p \<in> rp_participant_id ` set (re_participants r)" "t \<in> rt_track_id ` set (re_tracks r)"
    and "ensure_subscription al r p t = Some (k, r1)"
  obtains x c where "r1 = with_subs r x c" "room_ok r1" "k < length x" "sub_key (x ! k) = (p, t)"
    "\<And>b. sub_key b \<noteq> (p, t) \<Longrightarrow> b \<in> set x \<longleftrightarrow> b \<in> set (re_subscriptions r)"
proof (cases "find_subscription r p t")
  case (Some i)
  then show thesis using that [of "re_subscriptions r" "re_subscription_capacity r"] assms(1,4) find_Some(3) [OF Some]
    by (simp add: ensure_subscription_def)
next
  case None
  let ?b = "(cleared_subscription p t)\<lparr>rb_version := 1\<rparr>"
  have b: "sub_key ?b = (p, t)"
    using room_ids_short [OF assms(1)] assms(2,3) cleared_subscription_key [of p t] by (simp add: sub_key_def)
  obtain c where c: "ensure_capacity al (re_subscription_capacity r) (length (re_subscriptions r) + 1) = Some c"
    "k = length (re_subscriptions r)" "r1 = with_subs r (re_subscriptions r @ [?b]) c"
    using assms(4) None by (auto simp: ensure_subscription_def with_subs_def split: option.splits)
  have "room_ok r1" using subscriptions_append_ok [OF assms(1) c(1) b _ assms(2,3)] find_subscription_None [of r p t] None c(3)
    by (simp add: with_subs_def)
  then show thesis using that [OF c(3)] b c(2) by auto
qed

text \<open>One turn of the loops: the pair's subscription is there and carries what was derived, and the
  others are untouched.\<close>

definition pair_key :: "room_entry \<Rightarrow> nat \<times> nat \<Rightarrow> string \<times> string" where
  "pair_key r ij = (rp_participant_id (re_participants r ! fst ij), rt_track_id (re_tracks r ! snd ij))"

definition pair_in :: "room_entry \<Rightarrow> nat \<times> nat \<Rightarrow> bool" where
  "pair_in r ij \<longleftrightarrow> fst ij < length (re_participants r) \<and> snd ij < length (re_tracks r)"

definition pair_wants where
  "pair_wants want r ij = want r (re_participants r ! fst ij) (re_tracks r ! snd ij)"

lemma pair_with_subs [simp]: "pair_key (with_subs r x c) = pair_key r" "pair_in (with_subs r x c) = pair_in r"
  by (auto simp: pair_key_def pair_in_def fun_eq_iff)

lemma reconcile_turn:
  assumes "room_ok r" "pair_in r ij" "pair_wants want r ij = Some derived"
    and "ensure_subscription al r (fst (pair_key r ij)) (snd (pair_key r ij)) = Some (k, r1)"
  defines "r2 \<equiv> (case derived of None \<Rightarrow> r1 | Some d \<Rightarrow> r1\<lparr>re_subscriptions := (re_subscriptions r1)[k := snd (apply_derived (re_subscriptions r1 ! k) d)]\<rparr>)"
  obtains x c where "r2 = with_subs r x c" "room_ok r2" "pair_key r ij \<in> sub_key ` set x"
    "\<And>b. sub_key b \<noteq> pair_key r ij \<Longrightarrow> b \<in> set x \<longleftrightarrow> b \<in> set (re_subscriptions r)"
    "\<And>d. derived = Some d \<Longrightarrow> \<exists>b\<in>set x. sub_key b = pair_key r ij \<and> carries_derived d b"
proof -
  have m: "fst (pair_key r ij) \<in> rp_participant_id ` set (re_participants r)" "snd (pair_key r ij) \<in> rt_track_id ` set (re_tracks r)"
    using assms(2) by (auto simp: pair_key_def pair_in_def)
  obtain x c where x: "r1 = with_subs r x c" "room_ok r1" "k < length x" "sub_key (x ! k) = pair_key r ij"
    "\<And>b. sub_key b \<noteq> pair_key r ij \<Longrightarrow> b \<in> set x \<longleftrightarrow> b \<in> set (re_subscriptions r)"
    using ensure_subscription_spec [OF assms(1) m assms(4)] by (metis prod.collapse)
  show thesis
  proof (cases derived)
    case None
    have "pair_key r ij \<in> sub_key ` set x" using x(3,4) by (metis imageI nth_mem)
    then show thesis using that [of x c] None x by (simp add: r2_def)
  next
    case (Some d)
    let ?b = "snd (apply_derived (x ! k) d)" let ?y = "x[k := ?b]"
    have b: "sub_key ?b = pair_key r ij" "carries_derived d ?b" using apply_derived x(4) by auto
    have in_y: "?b \<in> set ?y" using x(3) by (rule set_update_memI)
    have mem: "b \<in> set ?y \<longleftrightarrow> b \<in> set x" if "sub_key b \<noteq> pair_key r ij" for b
    proof
      assume "b \<in> set ?y" then show "b \<in> set x"
        using set_update_subset_insert [of x k ?b] that b(1) by auto
    next
      assume "b \<in> set x"
      then obtain i where i: "i < length x" "x ! i = b" by (auto simp: in_set_conv_nth)
      then have "i \<noteq> k" using that x(4) by auto
      then show "b \<in> set ?y" using i by (metis length_list_update nth_list_update_neq nth_mem)
    qed
    have r2: "r2 = with_subs r ?y c" using x(1) Some by (simp add: r2_def with_subs_def)
    moreover have "room_ok r2" using subscriptions_update_ok [OF x(2), of k ?b] x(1,3,4) b(1) Some by (simp add: r2_def)
    moreover have "pair_key r ij \<in> sub_key ` set ?y" using b(1) in_y by (metis imageI)
    ultimately show thesis using that [of ?y c] mem x(5) b in_y Some by blast
  qed
qed

text \<open>The whole loops.  \<open>want\<close> does not look at subscriptions.\<close>

definition subs_blind where
  "subs_blind want \<longleftrightarrow> (\<forall>r x c. want (with_subs r x c) = want r)"

lemma pair_wants_with_subs [simp]: "subs_blind want \<Longrightarrow> pair_wants want (with_subs r x c) ij = pair_wants want r ij"
  by (simp add: pair_wants_def subs_blind_def)

lemma reconcile_step:
  "reconcile_pairs al want (ij # ps) r ch =
    (case pair_wants want r ij of
       None \<Rightarrow> reconcile_pairs al want ps r ch
     | Some derived \<Rightarrow>
         (case ensure_subscription al r (fst (pair_key r ij)) (snd (pair_key r ij)) of
            None \<Rightarrow> Inr r
          | Some (k, r1) \<Rightarrow>
              reconcile_pairs al want ps (case derived of None \<Rightarrow> r1
                | Some d \<Rightarrow> r1\<lparr>re_subscriptions := (re_subscriptions r1)[k := snd (apply_derived (re_subscriptions r1 ! k) d)]\<rparr>)
                (case derived of None \<Rightarrow> ch | Some d \<Rightarrow> ch \<or> fst (apply_derived (re_subscriptions r1 ! k) d))))"
  by (cases ij) (auto simp: Let_def pair_key_def pair_wants_def split_beta split: option.splits)

abbreviation reconciled :: "(bool \<times> room_entry) + room_entry \<Rightarrow> room_entry" where
  "reconciled res \<equiv> (case res of Inl p \<Rightarrow> snd p | Inr r \<Rightarrow> r)"

lemma reconcile_pairs_ok:
  assumes "room_ok r" "\<forall>ij\<in>set ps. pair_in r ij" "subs_blind want"
  shows "\<exists>x c. reconciled (reconcile_pairs al want ps r ch) = with_subs r x c \<and> room_ok (with_subs r x c)"
  using assms(1,2)
proof (induction ps arbitrary: r ch)
  case Nil then show ?case by (metis (no_types, lifting) with_subs_simps(7) reconcile_pairs.simps(1) sum.case(1) snd_conv)
next
  case (Cons ij ps)
  show ?case
  proof (cases "pair_wants want r ij")
    case None then show ?thesis using Cons by (simp add: reconcile_step)
  next
    case (Some derived)
    show ?thesis
    proof (cases "ensure_subscription al r (fst (pair_key r ij)) (snd (pair_key r ij))")
      case None
      then show ?thesis using Cons.prems(1) Some
        by (intro exI [of _ "re_subscriptions r"] exI [of _ "re_subscription_capacity r"]) (simp add: reconcile_step)
    next
      case e: (Some kr)
      obtain k r1 where kr: "kr = (k, r1)" by fastforce
      obtain x c where "(case derived of None \<Rightarrow> r1 | Some d \<Rightarrow> r1\<lparr>re_subscriptions := (re_subscriptions r1)[k := snd (apply_derived (re_subscriptions r1 ! k) d)]\<rparr>)
          = with_subs r x c" "room_ok (with_subs r x c)"
        using reconcile_turn [OF Cons.prems(1) _ Some e [unfolded kr]] Cons.prems(2) by (metis list.set_intros(1))
      then show ?thesis using Cons.IH [of "with_subs r x c"] Cons.prems(2) Some e kr by (fastforce simp: reconcile_step)
    qed
  qed
qed

text \<open>When they finish, every wanted pair has its subscription and nothing else has changed.\<close>

lemma reconcile_pairs_exact:
  assumes "room_ok r" "\<forall>ij\<in>set ps. pair_in r ij" "subs_blind want" "distinct (map (pair_key r) ps)"
    and "reconcile_pairs al want ps r ch = Inl (ch', r')"
  shows "\<exists>x c. r' = with_subs r x c
    \<and> (\<forall>ij\<in>set ps. \<forall>d. pair_wants want r ij = Some (Some d) \<longrightarrow> (\<exists>b\<in>set x. sub_key b = pair_key r ij \<and> carries_derived d b))
    \<and> (\<forall>b. (\<forall>ij\<in>set ps. pair_wants want r ij \<noteq> None \<longrightarrow> sub_key b \<noteq> pair_key r ij) \<longrightarrow> (b \<in> set x \<longleftrightarrow> b \<in> set (re_subscriptions r)))"
  using assms(1,2,4,5)
proof (induction ps arbitrary: r ch)
  case Nil
  then show ?case by (intro exI [of _ "re_subscriptions r"] exI [of _ "re_subscription_capacity r"]) simp
next
  case (Cons ij ps)
  show ?case
  proof (cases "pair_wants want r ij")
    case None
    then have "reconcile_pairs al want ps r ch = Inl (ch', r')" using Cons.prems(4) by (simp add: reconcile_step)
    with Cons.IH [of r ch] Cons.prems None show ?thesis by auto
  next
    case (Some derived)
    then obtain k r1 where e: "ensure_subscription al r (fst (pair_key r ij)) (snd (pair_key r ij)) = Some (k, r1)"
      using Cons.prems(4) by (auto simp: reconcile_step split: option.splits)
    define r2 where "r2 = (case derived of None \<Rightarrow> r1 | Some d \<Rightarrow> r1\<lparr>re_subscriptions := (re_subscriptions r1)[k := snd (apply_derived (re_subscriptions r1 ! k) d)]\<rparr>)"
    obtain x c where x: "r2 = with_subs r x c" "room_ok r2"
      "\<And>b. sub_key b \<noteq> pair_key r ij \<Longrightarrow> b \<in> set x \<longleftrightarrow> b \<in> set (re_subscriptions r)"
      "\<And>d. derived = Some d \<Longrightarrow> \<exists>b\<in>set x. sub_key b = pair_key r ij \<and> carries_derived d b"
      using reconcile_turn [OF Cons.prems(1) _ Some e, folded r2_def] Cons.prems(2) by (metis list.set_intros(1))
    obtain ch2 where run: "reconcile_pairs al want ps r2 ch2 = Inl (ch', r')"
      using Cons.prems(4) Some e by (auto simp: reconcile_step r2_def)
    have "\<forall>ij\<in>set ps. pair_in r2 ij" "distinct (map (pair_key r2) ps)" using Cons.prems(2,3) x(1) by simp_all
    from Cons.IH [OF x(2) this run] obtain y d where y: "r' = with_subs r y d"
      "\<forall>ij\<in>set ps. \<forall>d. pair_wants want r ij = Some (Some d) \<longrightarrow> (\<exists>b\<in>set y. sub_key b = pair_key r ij \<and> carries_derived d b)"
      "\<forall>b. (\<forall>ij\<in>set ps. pair_wants want r ij \<noteq> None \<longrightarrow> sub_key b \<noteq> pair_key r ij) \<longrightarrow> (b \<in> set y \<longleftrightarrow> b \<in> set x)"
      using x(1) assms(3) by auto
    have fresh: "\<forall>ij'\<in>set ps. pair_key r ij' \<noteq> pair_key r ij" using Cons.prems(3) by (auto simp: image_iff)
    have "\<exists>b\<in>set y. sub_key b = pair_key r ij \<and> carries_derived d b" if "derived = Some d" for d
      using x(4) [OF that] y(3) fresh by metis
    then show ?thesis using y x(3) Some by (intro exI [of _ y] exI [of _ d]) auto
  qed
qed

lemma reconcile_all_ok:
  assumes "room_ok r" "subs_blind want"
  shows "room_ok (snd (reconcile_all al want r ch))" "re_room_id (snd (reconcile_all al want r ch)) = re_room_id r"
proof -
  let ?ps = "List.product [0..<length (re_participants r)] [0..<length (re_tracks r)]"
  have "\<forall>ij\<in>set ?ps. pair_in r ij" by (auto simp: pair_in_def)
  from reconcile_pairs_ok [OF assms(1) this assms(2), of al ch] obtain x c
    where "reconciled (reconcile_pairs al want ?ps r ch) = with_subs r x c" "room_ok (with_subs r x c)" by blast
  then show "room_ok (snd (reconcile_all al want r ch))" "re_room_id (snd (reconcile_all al want r ch)) = re_room_id r"
    by (auto simp: reconcile_all_def split: sum.splits prod.splits)
qed

lemma participant_with_subs [simp]: "participant_at (with_subs r x c) = participant_at r" "track_at (with_subs r x c) = track_at r"
  by (auto simp: fun_eq_iff participant_at_def room_find_participant_def track_at_def find_track_def)

lemma roles_with_subs [simp]:
  "is_call_center_customer_participant (with_subs r x c) = is_call_center_customer_participant r"
  "is_call_center_primary_agent_participant (with_subs r x c) = is_call_center_primary_agent_participant r"
  "is_call_center_consult_agent_participant (with_subs r x c) = is_call_center_consult_agent_participant r"
  "is_call_center_engaged_agent_participant (with_subs r x c) = is_call_center_engaged_agent_participant r"
  "is_call_center_primary_endpoint (with_subs r x c) = is_call_center_primary_endpoint r"
  "is_call_center_observable_participant (with_subs r x c) = is_call_center_observable_participant r"
  "room_has_call_center_topology (with_subs r x c) = room_has_call_center_topology r"
  "re_call_center_consult_agent_participant_id (with_subs r x c) = re_call_center_consult_agent_participant_id r"
  by (auto simp: fun_eq_iff with_subs_def is_call_center_customer_participant_def is_call_center_primary_agent_participant_def
      is_call_center_consult_agent_participant_def is_call_center_engaged_agent_participant_def is_call_center_primary_endpoint_def
      is_call_center_observable_participant_def room_has_call_center_topology_def)

lemma allowed_with_subs [simp]:
  "call_center_subscription_allowed (with_subs r x c) = call_center_subscription_allowed r"
  unfolding call_center_subscription_allowed_def roles_with_subs by (rule refl)

lemma blind_policies [simp]: "subs_blind layout_wants" "subs_blind (call_center_wants mode)"
  by (auto simp: subs_blind_def fun_eq_iff layout_wants_def call_center_wants_def)
    (simp add: derive_video_subscription_def with_subs_def)

lemma room_reconcile_ok:
  assumes "room_ok r"
  shows "room_ok (snd (room_reconcile_call_center al mode r))" "re_room_id (snd (room_reconcile_call_center al mode r)) = re_room_id r"
proof -
  let ?kept = "filter (\<lambda>b. \<not> call_center_forbids mode r b) (re_subscriptions r)"
  have "room_ok (r\<lparr>re_subscriptions := ?kept\<rparr>)"
    using assms by (auto simp: room_ok_def distinct_map_filter intro: order_trans [OF length_filter_le])
  from reconcile_all_ok [OF this, of "call_center_wants mode" al]
  show "room_ok (snd (room_reconcile_call_center al mode r))" "re_room_id (snd (room_reconcile_call_center al mode r)) = re_room_id r"
    by (simp_all add: room_reconcile_call_center_def Let_def remove_backwards_filter)
qed

section \<open>The service\<close>

definition rooms_ok :: "room_service \<Rightarrow> bool" where
  "rooms_ok s \<longleftrightarrow> distinct (map re_room_id (sv_rooms s)) \<and> length (sv_rooms s) \<le> sv_room_capacity s \<and>
     (\<forall>r\<in>set (sv_rooms s). room_ok r \<and> re_room_id r \<noteq> '''' \<and> length (re_room_id r) < ID_MAX)"

definition service_inv :: "room_service \<Rightarrow> bool" where
  "service_inv s \<longleftrightarrow> rooms_ok s \<and> desk_ok s"

text \<open>A call on one room.\<close>

lemma with_room_inv:
  assumes "service_inv s" "\<And>r. room_ok r \<Longrightarrow> room_ok (snd (f r)) \<and> re_room_id (snd (f r)) = re_room_id r"
  shows "service_inv (snd (with_room s rid f))"
proof (cases "Option.bind rid (find_room s)")
  case (Some i)
  then have i: "i < length (sv_rooms s)" by (auto simp: bind_eq_Some_conv dest!: find_Some(4))
  let ?r = "snd (f (sv_rooms s ! i))"
  have r: "room_ok (sv_rooms s ! i)" using assms(1) i by (simp add: service_inv_def rooms_ok_def)
  have ids: "map re_room_id ((sv_rooms s)[i := ?r]) = map re_room_id (sv_rooms s)" using i assms(2) [OF r] by (intro map_key_update) auto
  have "re_room_id ?r \<noteq> '''' \<and> length (re_room_id ?r) < ID_MAX \<and> room_ok ?r"
    using assms(1) assms(2) [OF r] i by (simp add: service_inv_def rooms_ok_def)
  then have "\<forall>x\<in>set ((sv_rooms s)[i := ?r]). room_ok x \<and> re_room_id x \<noteq> '''' \<and> length (re_room_id x) < ID_MAX"
    using assms(1) set_update_subset_insert [of "sv_rooms s" i ?r] by (auto simp: service_inv_def rooms_ok_def)
  then have "service_inv (s\<lparr>sv_rooms := (sv_rooms s)[i := ?r]\<rparr>)"
    using assms(1) ids by (simp add: service_inv_def rooms_ok_def desk_ok_def queue_ok_def agents_ok_def)
  then show ?thesis using Some by (simp add: with_room_def split_beta)
qed (use assms(1) in \<open>simp add: with_room_def\<close>)

lemma set_agent_rooms [simp]:
  "sv_rooms (snd (set_call_center_agent_state_locked al s ep st)) = sv_rooms s"
  "sv_room_capacity (snd (set_call_center_agent_state_locked al s ep st)) = sv_room_capacity s"
  by (auto simp: set_call_center_agent_state_locked_def split: option.splits)

lemma set_agent_inv:
  "service_inv s \<Longrightarrow> length ep < ID_MAX \<Longrightarrow> service_inv (snd (set_call_center_agent_state_locked al s ep st))"
  using desk_set_agent by (simp add: service_inv_def rooms_ok_def)

lemma room_at_ok: "service_inv s \<Longrightarrow> room_at s rid = Some r \<Longrightarrow> r \<in> set (sv_rooms s) \<and> room_ok r"
  by (auto simp: room_at_def service_inv_def rooms_ok_def bind_eq_Some_conv dest!: find_Some(4))

end
