(* ===== verification/Room_Machine.thy ===== *)
theory Room_Machine
  imports Room_Integrity
begin

text \<open>
  The conference room service as a machine (\<open>webrtc/src/conference/turbo_room_service.c\<close>): every call that
  changes state, in any order and with any allocation failures, keeps the invariant; a match takes
  the best caller and the best available agent.
\<close>

datatype service_call =
    Create_Room allocator cstring u64 room_type
  | Close_Room allocator cstring
  | Discard_Room cstring
  | Assign_Node cstring cstring
  | Add_Participant allocator cstring cstring u64 cstring cstring participant_role
  | Remove_Participant allocator cstring cstring
  | Set_Session_State cstring cstring session_state
  | Set_Bandwidth cstring cstring int
  | Publish_Track allocator cstring track_config
  | Unpublish_Track cstring cstring
  | Mute_Track cstring cstring int
  | Set_Subscription allocator cstring subscription_config
  | Remove_Subscription cstring cstring cstring
  | Start_Recording cstring cstring cstring
  | Stop_Recording cstring
  | Set_Layout cstring layout_mode
  | Set_Speaker cstring cstring
  | Pin_Participant cstring cstring
  | Reconcile allocator cstring
  | Reconcile_Call_Center allocator cstring supervisor_mode
  | Start_Call allocator cstring cstring cstring
  | Set_Consult allocator cstring cstring
  | Complete_Transfer allocator cstring agent_state
  | Finalize_Call allocator cstring cc_room_state cstring agent_state
  | Set_Agent allocator cstring agent_state
  | Queue_Call queue_call

fun service_exec :: "service_call \<Rightarrow> room_service \<Rightarrow> room_service" where
  "service_exec (Create_Room al rid g ty) s = snd (turbo_room_service_create_room al s rid g ty)"
| "service_exec (Close_Room al rid) s = snd (turbo_room_service_close_room al s rid)"
| "service_exec (Discard_Room rid) s = snd (turbo_room_service_discard_unassigned_room s rid)"
| "service_exec (Assign_Node rid n) s = snd (turbo_room_service_assign_sfu_node s rid n)"
| "service_exec (Add_Participant al rid pid g u d ro) s = snd (turbo_room_service_add_participant al s rid pid g u d ro)"
| "service_exec (Remove_Participant al rid pid) s = snd (turbo_room_service_remove_participant al s rid pid)"
| "service_exec (Set_Session_State rid pid st) s = snd (turbo_room_service_set_participant_session_state s rid pid st)"
| "service_exec (Set_Bandwidth rid pid bw) s = snd (turbo_room_service_set_participant_bandwidth s rid pid bw)"
| "service_exec (Publish_Track al rid c) s = snd (turbo_room_service_publish_track al s rid c)"
| "service_exec (Unpublish_Track rid tid) s = snd (turbo_room_service_unpublish_track s rid tid)"
| "service_exec (Mute_Track rid tid m) s = snd (turbo_room_service_set_track_muted s rid tid m)"
| "service_exec (Set_Subscription al rid c) s = snd (turbo_room_service_set_subscription al s rid c)"
| "service_exec (Remove_Subscription rid pid tid) s = snd (turbo_room_service_remove_subscription s rid pid tid)"
| "service_exec (Start_Recording rid i m) s = snd (turbo_room_service_start_recording s rid i m)"
| "service_exec (Stop_Recording rid) s = snd (turbo_room_service_stop_recording s rid)"
| "service_exec (Set_Layout rid m) s = snd (turbo_room_service_set_layout_mode s rid m)"
| "service_exec (Set_Speaker rid pid) s = snd (turbo_room_service_set_active_speaker s rid pid)"
| "service_exec (Pin_Participant rid pid) s = snd (turbo_room_service_pin_participant s rid pid)"
| "service_exec (Reconcile al rid) s = snd (turbo_room_service_reconcile_subscriptions al s rid)"
| "service_exec (Reconcile_Call_Center al rid m) s = snd (turbo_room_service_reconcile_call_center_subscriptions al s rid m)"
| "service_exec (Start_Call al rid cu ag) s = snd (turbo_room_service_start_call_center_room al s rid cu ag)"
| "service_exec (Set_Consult al rid co) s = snd (turbo_room_service_set_call_center_consult_agent al s rid co)"
| "service_exec (Complete_Transfer al rid st) s = snd (turbo_room_service_complete_call_center_transfer al s rid st)"
| "service_exec (Finalize_Call al rid st d ag) s = snd (turbo_room_service_finalize_call_center_room al s rid st d ag)"
| "service_exec (Set_Agent al ep st) s = snd (turbo_room_service_set_call_center_agent_state al s ep st)"
| "service_exec (Queue_Call c) s = queue_exec c s"

section \<open>Every call keeps the invariant\<close>

lemma create_room_inv:
  assumes "service_inv s" shows "service_inv (snd (turbo_room_service_create_room al s rid g ty))"
proof (cases "string_fits rid ID_MAX False \<and> ty \<noteq> Room_Type_Int 0 \<and> Option.bind rid (find_room s) = None")
  case True
  then obtain v where v: "rid = Some v" "v \<noteq> ''''" "length v < ID_MAX" "\<forall>r\<in>set (sv_rooms s). re_room_id r \<noteq> v"
    by (auto simp: string_fits_required find_room_def first_below_absent)
  show ?thesis
  proof (cases "ensure_capacity al (sv_room_capacity s) (length (sv_rooms s) + 1)")
    case None then show ?thesis using assms True v(1) by (simp add: turbo_room_service_create_room_def)
  next
    case (Some c)
    have fresh: "room_ok r" if "re_participants r = []" "re_tracks r = []" "re_subscriptions r = []" "re_status r = ROOM_OPEN"
      "re_call_center_customer_participant_id r = ''''" "re_call_center_agent_participant_id r = ''''" "re_call_center_consult_agent_participant_id r = ''''" for r
      using that by (simp add: room_ok_def ID_MAX_def)
    have "service_inv (s\<lparr>sv_room_capacity := c, sv_rooms := sv_rooms s @ [r]\<rparr>)" if "re_room_id r = v" "room_ok r" for r
      using assms v that ensure_capacity_enough [OF Some]
      by (auto simp: service_inv_def rooms_ok_def desk_ok_def queue_ok_def agents_ok_def)
    then show ?thesis using True v Some fresh by (simp add: turbo_room_service_create_room_def)
  qed
qed (use assms in \<open>auto simp: turbo_room_service_create_room_def\<close>)

lemma discard_room_inv:
  assumes "service_inv s" shows "service_inv (snd (turbo_room_service_discard_unassigned_room s rid))"
proof -
  have "service_inv (s\<lparr>sv_rooms := remove_at (sv_rooms s) i\<rparr>)" for i
    using assms set_remove_at [of "sv_rooms s" i] length_remove_at [of "sv_rooms s" i]
    by (auto simp: service_inv_def rooms_ok_def desk_ok_def queue_ok_def agents_ok_def remove_at_map distinct_remove_at)
  then show ?thesis using assms by (simp add: turbo_room_service_discard_unassigned_room_def split: option.splits)
qed

lemma release_agent_inv: "service_inv s \<Longrightarrow> length a < ID_MAX \<Longrightarrow> service_inv (snd (release_agent al s a))"
  using set_agent_inv by (simp add: release_agent_def)

lemma close_room_inv:
  assumes "service_inv s" shows "service_inv (snd (turbo_room_service_close_room al s rid))"
proof (cases "room_at s rid")
  case (Some r)
  have r: "room_ok r" using room_at_ok [OF assms Some] by simp
  obtain rc1 s1 where s1: "release_agent al s (re_call_center_agent_participant_id r) = (rc1, s1)" by fastforce
  obtain rc2 s2 where s2: "release_agent al s1 (re_call_center_consult_agent_participant_id r) = (rc2, s2)" by fastforce
  have i1: "service_inv s1" using release_agent_inv [OF assms room_okD(9) [OF r], of al] s1 by simp
  have i2: "service_inv s2" using release_agent_inv [OF i1 room_okD(10) [OF r], of al] s2 by simp
  have cl: "room_ok r' \<Longrightarrow> room_ok (r'\<lparr>re_status := ROOM_CLOSED\<rparr>)" for r' by (simp add: room_ok_def)
  show ?thesis using assms Some s1 s2 i1 i2 cl
    by (auto simp: turbo_room_service_close_room_def intro!: with_room_inv)
qed (use assms in \<open>simp add: turbo_room_service_close_room_def\<close>)

lemma leave_room_inv:
  assumes "service_inv s" shows "service_inv (snd (turbo_room_service_remove_participant al s rid pid))"
proof -
  have rel: "service_inv (leave_release_agents al p r s)" if "r \<in> set (sv_rooms s)" "room_ok r" for p r
    using assms room_okD(9,10) [OF that(2)] by (auto simp: leave_release_agents_def Let_def intro!: set_agent_inv release_agent_inv)
  have id: "re_room_id (snd (room_remove_participant p r)) = re_room_id r" for p r
    by (auto simp: room_remove_participant_def Let_def update_room_activity_def split: option.splits)
  show ?thesis using assms rel room_at_ok [OF assms] room_remove_ok id
    by (auto simp: turbo_room_service_remove_participant_def split: option.splits intro!: with_room_inv)
qed

lemma start_call_inv:
  assumes "service_inv s" shows "service_inv (snd (turbo_room_service_start_call_center_room al s rid cu ag))"
proof -
  have set: "service_inv s1" if "string_fits ag ID_MAX False" "set_call_center_agent_state_locked al s (the ag) AGENT_BUSY = (rc, s1)" for rc s1
    using set_agent_inv [OF assms, of "the ag" al AGENT_BUSY] that by (auto simp: string_fits_required)
  show ?thesis using assms set
    by (auto simp: turbo_room_service_start_call_center_room_def Let_def string_fits_required split: option.splits prod.splits
        intro!: with_room_inv) (auto simp: room_ok_def ID_MAX_def)
qed

lemma room_ok_agents:
  "room_ok r \<Longrightarrow> length v < ID_MAX \<Longrightarrow> room_ok (r\<lparr>re_call_center_consult_agent_participant_id := v\<rparr>)"
  "room_ok r \<Longrightarrow> length v < ID_MAX \<Longrightarrow>
     room_ok (r\<lparr>re_call_center_agent_participant_id := v, re_call_center_consult_agent_participant_id := ''''\<rparr>)"
  by (auto simp: room_ok_def)

lemma set_consult_inv:
  assumes "service_inv s" shows "service_inv (snd (turbo_room_service_set_call_center_consult_agent al s rid co))"
proof (cases "room_at s rid")
  case (Some r)
  have r: "room_ok r" using room_at_ok [OF assms Some] by simp
  let ?prev = "re_call_center_consult_agent_participant_id r"
  obtain rc1 s1 where s1: "(if ?prev \<noteq> '''' \<and> ?prev \<noteq> the co then set_call_center_agent_state_locked al s ?prev AGENT_AVAILABLE else (0, s)) = (rc1, s1)" by fastforce
  obtain rc2 s2 where s2: "set_call_center_agent_state_locked al s1 (the co) AGENT_BUSY = (rc2, s2)" by fastforce
  have prev: "length ?prev < ID_MAX" by (rule room_okD(10) [OF r])
  have i1: "service_inv s1" using set_agent_inv [OF assms prev, of al AGENT_AVAILABLE] s1 assms by (auto split: if_splits)
  have i2: "service_inv s2" "service_inv (snd (set_call_center_agent_state_locked al s2 ?prev AGENT_BUSY))"
    if "string_fits co ID_MAX False"
    using set_agent_inv [OF i1, of "the co" al AGENT_BUSY] s2 that set_agent_inv [OF _ prev, of s2 al AGENT_BUSY]
    by (auto simp: string_fits_required)
  have "service_inv (snd (with_room s2 rid (\<lambda>r. (0, room_bump_call_center_version (r\<lparr>re_call_center_consult_agent_participant_id := copy_string ID_MAX co\<rparr>)))))"
    if "string_fits co ID_MAX False"
    by (rule with_room_inv [OF i2(1) [OF that]]) (use that in \<open>auto simp: room_ok_agents string_fits_required\<close>)
  then show ?thesis using assms Some s1 s2 i1 i2 prev
    by (auto simp: turbo_room_service_set_call_center_consult_agent_def Let_def split: option.splits)
qed (use assms in \<open>simp add: turbo_room_service_set_call_center_consult_agent_def\<close>)

lemma transfer_inv:
  assumes "service_inv s" shows "service_inv (snd (turbo_room_service_complete_call_center_transfer al s rid st))"
proof (cases "room_at s rid")
  case (Some r)
  have r: "room_ok r" using room_at_ok [OF assms Some] by simp
  note short = room_okD(9,10) [OF r]
  let ?old = "re_call_center_agent_participant_id r" and ?new = "re_call_center_consult_agent_participant_id r"
  obtain rc1 s1 where s1: "set_call_center_agent_state_locked al s ?old st = (rc1, s1)" by fastforce
  obtain rc2 s2 where s2: "set_call_center_agent_state_locked al s1 ?new AGENT_BUSY = (rc2, s2)" by fastforce
  have i1: "service_inv s1" using set_agent_inv [OF assms short(1), of al st] s1 by simp
  have i2: "service_inv s2" using set_agent_inv [OF i1 short(2), of al AGENT_BUSY] s2 by simp
  have i3: "service_inv (snd (set_call_center_agent_state_locked al s2 ?old AGENT_BUSY))" by (rule set_agent_inv [OF i2 short(1)])
  have "service_inv (snd (with_room s2 rid (\<lambda>r. (0, room_bump_call_center_version
      (r\<lparr>re_call_center_agent_participant_id := ?new, re_call_center_consult_agent_participant_id := ''''\<rparr>)))))"
    by (rule with_room_inv [OF i2]) (use short in \<open>simp add: room_ok_agents\<close>)
  then show ?thesis using assms Some s1 s2 i1 i3 short
    by (auto simp: turbo_room_service_complete_call_center_transfer_def Let_def split: option.splits)
qed (use assms in \<open>simp add: turbo_room_service_complete_call_center_transfer_def\<close>)

lemma finalize_inv:
  assumes "service_inv s" shows "service_inv (snd (turbo_room_service_finalize_call_center_room al s rid st d ag))"
proof (cases "room_at s rid")
  case (Some r)
  have r: "room_ok r" using room_at_ok [OF assms Some] by simp
  obtain rc1 s1 where s1: "set_call_center_agent_state_locked al s (re_call_center_agent_participant_id r) ag = (rc1, s1)" by fastforce
  have i1: "service_inv s1" using set_agent_inv [OF assms room_okD(9) [OF r], of al ag] s1 by simp
  then show ?thesis using assms Some s1
    by (auto simp: turbo_room_service_finalize_call_center_room_def intro!: with_room_inv)
qed (use assms in \<open>simp add: turbo_room_service_finalize_call_center_room_def\<close>)

lemma update_participant_id: "re_room_id (snd (update_participant pid f r)) = re_room_id r"
  by (simp add: update_participant_def Let_def split: option.splits)

lemma room_op_ids:
  "re_room_id (snd (room_add_participant al pid g u d ro r)) = re_room_id r"
  "re_room_id (snd (room_publish_track al c r)) = re_room_id r" "re_room_id (snd (room_unpublish_track tid r)) = re_room_id r"
  "re_room_id (snd (room_set_track_muted tid m r)) = re_room_id r" "re_room_id (snd (room_set_subscription al p t sc r)) = re_room_id r"
  "re_room_id (snd (room_remove_subscription p t r)) = re_room_id r"
  by (auto simp: room_add_participant_def update_room_activity_def room_publish_track_def room_unpublish_track_def
      room_set_track_muted_def room_set_subscription_def room_remove_subscription_def Let_def split: option.splits)

lemma participant_calls_inv:
  assumes "service_inv s"
  shows "service_inv (snd (turbo_room_service_add_participant al s rid pid g u d ro))"
    "service_inv (snd (turbo_room_service_set_participant_session_state s rid pid st))"
    "service_inv (snd (turbo_room_service_set_participant_bandwidth s rid pid bw))"
  using assms
  by (auto simp: turbo_room_service_add_participant_def turbo_room_service_set_participant_session_state_def
      turbo_room_service_set_participant_bandwidth_def room_op_ids update_participant_id split: option.splits
      intro!: with_room_inv room_add_ok update_participant_ok)

lemma track_calls_inv:
  assumes "service_inv s"
  shows "service_inv (snd (turbo_room_service_publish_track al s rid c))"
    "service_inv (snd (turbo_room_service_unpublish_track s rid tid))" "service_inv (snd (turbo_room_service_set_track_muted s rid tid m))"
    "service_inv (snd (turbo_room_service_set_subscription al s rid sc))"
    "service_inv (snd (turbo_room_service_remove_subscription s rid pid tid))"
  using assms
  by (auto simp: turbo_room_service_publish_track_def turbo_room_service_unpublish_track_def turbo_room_service_set_track_muted_def
      turbo_room_service_set_subscription_def turbo_room_service_remove_subscription_def room_op_ids split: option.splits
      intro!: with_room_inv room_publish_ok room_unpublish_ok room_mute_ok room_set_subscription_ok room_remove_subscription_ok)

lemma room_calls_inv:
  assumes "service_inv s"
  shows "service_inv (snd (turbo_room_service_assign_sfu_node s rid n))"
    "service_inv (snd (turbo_room_service_start_recording s rid i m))" "service_inv (snd (turbo_room_service_stop_recording s rid))"
    "service_inv (snd (turbo_room_service_set_layout_mode s rid lm))"
    "service_inv (snd (turbo_room_service_set_active_speaker s rid pid))" "service_inv (snd (turbo_room_service_pin_participant s rid pid))"
    "service_inv (snd (turbo_room_service_reconcile_subscriptions al s rid))"
    "service_inv (snd (turbo_room_service_reconcile_call_center_subscriptions al s rid mode))"
  using assms
  by (auto simp: turbo_room_service_assign_sfu_node_def turbo_room_service_start_recording_def turbo_room_service_stop_recording_def
      turbo_room_service_set_layout_mode_def turbo_room_service_set_active_speaker_def turbo_room_service_pin_participant_def
      turbo_room_service_reconcile_subscriptions_def turbo_room_service_reconcile_call_center_subscriptions_def
      reconcile_all_ok room_reconcile_ok intro!: with_room_inv)

text \<open>The queues do not touch the rooms.\<close>

definition same_rooms :: "room_service \<Rightarrow> room_service \<Rightarrow> bool" where
  "same_rooms s s' \<longleftrightarrow> sv_rooms s' = sv_rooms s \<and> sv_room_capacity s' = sv_room_capacity s"

lemma same_rooms_trans: "same_rooms s s' \<Longrightarrow> same_rooms s' s'' \<Longrightarrow> same_rooms s s''"
  by (simp add: same_rooms_def)

lemma same_rooms_basic [simp]:
  "same_rooms s s" "same_rooms s (update_entry s' i e) = same_rooms s s'"
  "same_rooms s (snd (set_call_center_agent_state_locked al s' ep st)) = same_rooms s s'"
  "same_rooms s (snd (mark_call_center_queue_entry_state t s' i a b)) = same_rooms s s'"
  "same_rooms s (settle_match al s' i j d) = same_rooms s s'"
  by (simp_all add: same_rooms_def update_entry_def mark_call_center_queue_entry_state_def settle_match_def Let_def)

lemma same_rooms_recover [simp]:
  "same_rooms s (snd (recover_stale_call_center_queue_claims_locked al now s' q lease)) = same_rooms s s'"
proof -
  have "same_rooms s (snd (fold (recover_entry al q lease now) is cs)) = same_rooms s (snd cs)" for "is" cs
    by (induction "is" arbitrary: cs) (simp_all add: recover_entry_def Let_def split_beta)
  then show ?thesis by (simp add: recover_stale_call_center_queue_claims_locked_def)
qed

lemma same_rooms_claim [simp]: "same_rooms s (snd (claim_call_center_queue_match_locked al t1 t2 s' q)) = same_rooms s s'"
proof -
  obtain r s1 where c: "claim_call_center_queue_match_locked al t1 t2 s' q = (r, s1)" by fastforce
  then have "same_rooms s s1 = same_rooms s s'"
  proof (cases rule: claim_cases)
    case (found a b u1 u2 rc u3)
    have "same_rooms s u3 = same_rooms s s'" using found(4-6) same_rooms_basic(3) [of s al u2] by (metis same_rooms_basic(2) snd_conv)
    then show ?thesis using found(7,8) by (cases "rc = 0") simp_all
  qed simp
  then show ?thesis using c by simp
qed

lemma queue_same_rooms: "same_rooms s (queue_exec c s)"
proof (cases c)
  case (Enqueue al config)
  have "same_rooms s (compact_call_center_queue_entries_locked s)"
    by (simp add: same_rooms_def compact_call_center_queue_entries_locked_def split_beta)
  then show ?thesis using Enqueue
    by (auto simp: turbo_room_service_enqueue_call_center_queue_entry_def Let_def same_rooms_def update_entry_def split: option.splits)
next
  case (Match al t0 t1 t2 q)
  show ?thesis
  proof (cases q)
    case (Some x)
    obtain r1 s1 where c: "claim_call_center_queue_match_locked al t1 t2 (recover_default al t0 s x) x = (r1, s1)" by fastforce
    have "same_rooms s s1" using same_rooms_claim [of s al t1 t2 "recover_default al t0 s x" x] c by simp
    then show ?thesis using Match Some c
      by (auto simp: turbo_room_service_match_call_center_queue_def split: option.splits sum.splits)
  qed (simp add: Match turbo_room_service_match_call_center_queue_def)
qed (auto simp: turbo_room_service_remove_call_center_queue_entry_def turbo_room_service_get_call_center_queue_depth_def
      turbo_room_service_peek_call_center_queue_entry_def turbo_room_service_pop_call_center_queue_entry_def
      turbo_room_service_claim_call_center_queue_match_def turbo_room_service_complete_call_center_queue_match_def
      turbo_room_service_rollback_call_center_queue_match_def turbo_room_service_recover_stale_call_center_queue_claims_def
      set_claimed_call_center_queue_match_state_def Let_def split_beta split: option.splits)

lemma queue_call_inv: "service_inv s \<Longrightarrow> service_inv (queue_exec c s)"
  using queue_exec_desk [of s c] queue_same_rooms [of s c] by (simp add: service_inv_def rooms_ok_def same_rooms_def)

lemma set_agent_call_inv:
  "service_inv s \<Longrightarrow> service_inv (snd (turbo_room_service_set_call_center_agent_state al s ep st))"
  by (auto simp: turbo_room_service_set_call_center_agent_state_def string_fits_required intro!: set_agent_inv)

lemma service_exec_inv:
  assumes "service_inv s" shows "service_inv (service_exec c s)"
  by (cases c) (simp_all add: create_room_inv discard_room_inv close_room_inv leave_room_inv start_call_inv set_consult_inv
      transfer_inv finalize_inv participant_calls_inv track_calls_inv room_calls_inv set_agent_call_inv queue_call_inv assms)

interpretation rs: machine service_inv service_exec
  by unfold_locales (rule service_exec_inv)

section \<open>Rooms stay referentially sound\<close>

lemma service_start_inv: "turbo_room_service_create True = Some s \<Longrightarrow> service_inv s"
  by (auto simp: turbo_room_service_create_def service_inv_def rooms_ok_def desk_ok_def queue_ok_def agents_ok_def)

lemma service_run_inv: "turbo_room_service_create True = Some s \<Longrightarrow> service_inv (fold service_exec calls s)"
  by (rule rs.run_inv [OF service_start_inv])

text \<open>C12. Whatever calls clients make, in any order, with any arguments and whichever allocations
  fail, every room of the service stays referentially sound: participants, tracks and subscriptions
  are unique; every track belongs to a participant of the room who is not a QA observer; every
  subscription joins a participant with a track of the room, so removing a participant or a track
  leaves nothing behind; a room without participants is not active; no array outgrows its
  allocation.\<close>

theorem rooms_referentially_sound:
  assumes "turbo_room_service_create True = Some s0" "s = fold service_exec calls s0" "r \<in> set (sv_rooms s)"
  shows "distinct (map rp_participant_id (re_participants r)) \<and> distinct (map rt_track_id (re_tracks r))
    \<and> distinct (map (\<lambda>b. (rb_subscriber_participant_id b, rb_track_id b)) (re_subscriptions r))
    \<and> (\<forall>t\<in>set (re_tracks r). \<exists>p\<in>set (re_participants r). rp_participant_id p = rt_owner_participant_id t \<and> rp_role p \<noteq> ROLE_QA_OBSERVER)
    \<and> (\<forall>b\<in>set (re_subscriptions r). (\<exists>p\<in>set (re_participants r). rp_participant_id p = rb_subscriber_participant_id b)
         \<and> (\<exists>t\<in>set (re_tracks r). rt_track_id t = rb_track_id b))
    \<and> (re_status r = ROOM_ACTIVE \<longrightarrow> re_participants r \<noteq> []) \<and> (re_status r = ROOM_OPEN \<longrightarrow> re_participants r = [])
    \<and> length (re_participants r) \<le> re_participant_capacity r \<and> length (re_tracks r) \<le> re_track_capacity r
    \<and> length (re_subscriptions r) \<le> re_subscription_capacity r \<and> length (sv_rooms s) \<le> sv_room_capacity s"
proof -
  have inv: "service_inv s" using service_run_inv [OF assms(1)] assms(2) by simp
  then have ok: "room_ok r" "length (sv_rooms s) \<le> sv_room_capacity s" using assms(3) by (simp_all add: service_inv_def rooms_ok_def)
  have own: "\<forall>t\<in>set (re_tracks r). \<exists>p\<in>set (re_participants r). rp_participant_id p = rt_owner_participant_id t \<and> rp_role p \<noteq> ROLE_QA_OBSERVER"
    using room_okD(6) [OF ok(1), unfolded role_can_publish_def] by blast
  have subs: "\<forall>b\<in>set (re_subscriptions r). (\<exists>p\<in>set (re_participants r). rp_participant_id p = rb_subscriber_participant_id b)
       \<and> (\<exists>t\<in>set (re_tracks r). rt_track_id t = rb_track_id b)"
  proof
    fix b assume "b \<in> set (re_subscriptions r)"
    from room_okD(7) [OF ok(1) this] show "(\<exists>p\<in>set (re_participants r). rp_participant_id p = rb_subscriber_participant_id b)
        \<and> (\<exists>t\<in>set (re_tracks r). rt_track_id t = rb_track_id b)"
      unfolding image_iff by metis
  qed
  have rest: "re_status r = ROOM_ACTIVE \<longrightarrow> re_participants r \<noteq> []" "re_status r = ROOM_OPEN \<longrightarrow> re_participants r = []"
    "length (re_participants r) \<le> re_participant_capacity r" "length (re_tracks r) \<le> re_track_capacity r"
    "length (re_subscriptions r) \<le> re_subscription_capacity r"
    using ok(1) by (simp_all add: room_ok_def)
  show ?thesis
    by (intro conjI own subs rest ok(2) room_okD(1,2) [OF ok(1)] room_okD(3) [OF ok(1), unfolded sub_key_def])
qed

lemma rooms_referentially_sound_witness:
  "\<exists>s0 r. turbo_room_service_create True = Some s0 \<and>
     r \<in> set (sv_rooms (fold service_exec [Create_Room (\<lambda>_. True) (Some ''r'') 1 ROOM_TYPE_CONFERENCE,
       Add_Participant (\<lambda>_. True) (Some ''r'') (Some ''p'') 1 None None ROLE_HOST] s0)) \<and>
     re_status r = ROOM_ACTIVE \<and> re_participants r \<noteq> []"
proof -
  obtain s0 where s0: "turbo_room_service_create True = Some s0" by (simp add: turbo_room_service_create_def)
  let ?calls = "[Create_Room (\<lambda>_. True) (Some ''r'') 1 ROOM_TYPE_CONFERENCE,
       Add_Participant (\<lambda>_. True) (Some ''r'') (Some ''p'') 1 None None ROLE_HOST]"
  have "\<exists>r. sv_rooms (fold service_exec ?calls s0) = [r] \<and> re_status r = ROOM_ACTIVE"
    using s0 by (auto simp: turbo_room_service_create_def turbo_room_service_create_room_def turbo_room_service_add_participant_def
        with_room_def find_room_def first_below_def room_add_participant_def room_find_participant_def ensure_capacity_def Let_def ID_MAX_def
        DISPLAY_NAME_MAX_def update_room_activity_def room_bump_version_def)
  then obtain r where r: "sv_rooms (fold service_exec ?calls s0) = [r]" "re_status r = ROOM_ACTIVE" by blast
  have "re_participants r \<noteq> []" using rooms_referentially_sound [OF s0 refl, of r ?calls] r by simp
  then show ?thesis using s0 r by auto
qed

section \<open>The best caller meets the best agent\<close>

text \<open>C14. Matching is fair and complete: after any history of calls, a claim on a queue first takes
  back the claims whose lease is over; it then pairs the caller and the agent of highest priority, the
  longest waiting among equals, considering every queued caller and every queued agent that is
  available; it reports nobody only when one side has no candidate, and fails only when an allocation
  does; the paired agent is reserved.\<close>

theorem claim_takes_the_best:
  assumes "turbo_room_service_create True = Some s0" "s = fold service_exec calls s0"
    and "turbo_room_service_claim_call_center_queue_match al t0 t1 t2 s (Some q) = (r, s')"
    and "s1 = snd (recover_stale_call_center_queue_claims_locked al t0 s q DEFAULT_CLAIM_LEASE_MS)"
  shows "(r = Inr None \<longleftrightarrow> (\<forall>e\<in>set (sv_queue_entries s1). \<not> queue_candidate s1 q QUEUE_CALLER e)
        \<or> (\<forall>e\<in>set (sv_queue_entries s1). \<not> queue_candidate s1 q QUEUE_CALLEE e))
    \<and> (r = Inl () \<longrightarrow> (\<exists>n. \<not> al n))
    \<and> (\<forall>x y. r = Inr (Some (x, y)) \<longrightarrow> (\<exists>c\<in>set (sv_queue_entries s1). \<exists>d\<in>set (sv_queue_entries s1).
         queue_candidate s1 q QUEUE_CALLER c \<and> queue_candidate s1 q QUEUE_CALLEE d
         \<and> (\<forall>e\<in>set (sv_queue_entries s1). queue_candidate s1 q QUEUE_CALLER e \<and> e \<noteq> c \<longrightarrow> outranks c e)
         \<and> (\<forall>e\<in>set (sv_queue_entries s1). queue_candidate s1 q QUEUE_CALLEE e \<and> e \<noteq> d \<longrightarrow> outranks d e)
         \<and> qm_entry_id x = qe_entry_id c \<and> qm_entry_id y = qe_entry_id d
         \<and> fst (get_call_center_agent_effective_state s' (qe_endpoint_id d)) = AGENT_RESERVED))"
proof -
  have desk: "desk_ok s1" using service_run_inv [OF assms(1), of calls] desk_recover assms(2,4) by (simp add: service_inv_def)
  have ok: "queue_ok s1" "agents_ok s1" "distinct (map qe_sequence (sv_queue_entries s1))" using desk by (simp_all add: desk_ok_def queue_ok_def)
  have "claim_call_center_queue_match_locked al t1 t2 s1 q = (r, s')"
    using assms(3,4) by (simp add: turbo_room_service_claim_call_center_queue_match_def)
  then show ?thesis
  proof (cases rule: claim_cases)
    case nobody
    then show ?thesis using find_best [of QUEUE_CALLER s1 q] find_best [of QUEUE_CALLEE s1 q]
      by (auto simp: best_of_def is_valid_call_center_queue_side_def)
  next
    case (found a b u1 u2 rc u3)
    let ?c = "sv_queue_entries s1 ! a" and ?d = "sv_queue_entries s1 ! b"
    note ia = best_index [OF found(1)] and ib = best_index [OF found(2)]
    have best: "best_of (sv_queue_entries s1) (queue_candidate s1 q QUEUE_CALLER) (Some a)"
      "best_of (sv_queue_entries s1) (queue_candidate s1 q QUEUE_CALLEE) (Some b)"
      using find_best [of QUEUE_CALLER s1 q] find_best [of QUEUE_CALLEE s1 q] found(1,2) by (simp_all add: is_valid_call_center_queue_side_def)
    note strict = best_strict [OF best(1) ok(3)] best_strict [OF best(2) ok(3)]
    have wf: "entry_wf ?c" "entry_wf ?d" using entry_at_wf [OF ok(1)] ia(1) ib(1) by simp_all
    have u2: "agents_ok u2" "agent_map u2 = agent_map s1" using ok(2) found(4,5) by simp_all
    have ex: "?c \<in> set (sv_queue_entries s1)" "?d \<in> set (sv_queue_entries s1)" using ia(1) ib(1) by simp_all
    have ent: "sv_queue_entries u3 ! a = set_entry_state ENTRY_CLAIMED t1 ?c" "sv_queue_entries u3 ! b = set_entry_state ENTRY_CLAIMED t2 ?d"
      using set_agent_same_queues [of u2 al "qe_endpoint_id ?d" AGENT_RESERVED] found(3-6) ia(1) ib(1) by (auto simp: same_queues_def)
    have short: "length (qe_endpoint_id ?d) < ID_MAX" using wf(2) by (simp add: entry_wf_def)
    have rc: "rc = 0 \<longrightarrow> agent_of u3 (qe_endpoint_id ?d) = AGENT_RESERVED" "rc \<noteq> 0 \<longrightarrow> (\<exists>n. \<not> al n)"
      using set_agent_outcome [OF found(6) u2(1) short] wf(2) by (auto simp: entry_wf_def is_valid_call_center_agent_state_def)
    show ?thesis
    proof (cases "rc = 0")
      case True
      have ids: "qm_entry_id (fill_call_center_queue_entry_summary (sv_queue_entries u3 ! a)) = qe_entry_id ?c"
        "qm_entry_id (fill_call_center_queue_entry_summary (sv_queue_entries u3 ! b)) = qe_entry_id ?d"
        using wf ent by (simp_all add: fill_call_center_queue_entry_summary_def entry_wf_def)
      show ?thesis using found(7) [OF True] ids rc True ia(2) ib(2) ex strict by auto
    next
      case False
      then show ?thesis using found(8) rc ex ia(2) ib(2) by auto
    qed
  qed
qed

lemma claim_takes_the_best_witness:
  "\<exists>s0 s s' x y. turbo_room_service_create True = Some s0
     \<and> s = fold service_exec [Queue_Call (Enqueue (\<lambda>_. True) \<lparr>qc_queue_id = Some ''q'', qc_side = QUEUE_CALLER, qc_entry_id = Some ''c'', qc_endpoint_id = Some ''x'', qc_priority = 1\<rparr>),
       Queue_Call (Enqueue (\<lambda>_. True) \<lparr>qc_queue_id = Some ''q'', qc_side = QUEUE_CALLEE, qc_entry_id = Some ''d'', qc_endpoint_id = Some ''a'', qc_priority = 1\<rparr>)] s0
     \<and> turbo_room_service_claim_call_center_queue_match (\<lambda>_. True) 5 5 6 s (Some ''q'') = (Inr (Some (x, y)), s')
     \<and> (\<exists>d\<in>set (sv_queue_entries (recover_default (\<lambda>_. True) 5 s ''q'')). qm_entry_id y = qe_entry_id d)"
proof -
  obtain s0 where s0: "turbo_room_service_create True = Some s0" by (simp add: turbo_room_service_create_def)
  let ?calls = "[Queue_Call (Enqueue (\<lambda>_. True) \<lparr>qc_queue_id = Some ''q'', qc_side = QUEUE_CALLER, qc_entry_id = Some ''c'', qc_endpoint_id = Some ''x'', qc_priority = 1\<rparr>),
       Queue_Call (Enqueue (\<lambda>_. True) \<lparr>qc_queue_id = Some ''q'', qc_side = QUEUE_CALLEE, qc_entry_id = Some ''d'', qc_endpoint_id = Some ''a'', qc_priority = 1\<rparr>)]"
  have "case fst (turbo_room_service_claim_call_center_queue_match (\<lambda>_. True) 5 5 6 (fold service_exec ?calls (the (turbo_room_service_create True))) (Some ''q'')) of
      Inr (Some p) \<Rightarrow> True | _ \<Rightarrow> False" by code_simp
  then obtain x y s' where r: "turbo_room_service_claim_call_center_queue_match (\<lambda>_. True) 5 5 6 (fold service_exec ?calls s0) (Some ''q'') = (Inr (Some (x, y)), s')"
    using s0 by (auto split: sum.splits option.splits) (metis prod.collapse)
  from claim_takes_the_best [OF s0 refl r refl] have
    "\<exists>d\<in>set (sv_queue_entries (recover_default (\<lambda>_. True) 5 (fold service_exec ?calls s0) ''q'')). qm_entry_id y = qe_entry_id d"
    by blast
  then show ?thesis using s0 r by blast
qed

end
