(* ===== verification/Call_Policy.thy ===== *)
theory Call_Policy
  imports Room_Machine
begin

text \<open>
  Who hears whom in the call centre (\<open>webrtc/src/conference/turbo_room_service.c\<close>): a successful
  reconciliation leaves exactly the subscriptions the policy allows; the customer of a call is
  isolated from consultations and from supervisors who do not barge in; and what ending a call
  forgets.
\<close>

section \<open>Reconciliation is exact\<close>

lemma pair_keys_distinct:
  assumes "room_ok r"
  shows "distinct (map (pair_key r) (List.product [0..<length (re_participants r)] [0..<length (re_tracks r)]))"
proof -
  have "inj_on (pair_key r) (set (List.product [0..<length (re_participants r)] [0..<length (re_tracks r)]))"
  proof (rule inj_onI)
    fix x y assume x: "x \<in> set (List.product [0..<length (re_participants r)] [0..<length (re_tracks r)])"
      and y: "y \<in> set (List.product [0..<length (re_participants r)] [0..<length (re_tracks r)])" and e: "pair_key r x = pair_key r y"
    have "map rp_participant_id (re_participants r) ! fst x = map rp_participant_id (re_participants r) ! fst y"
      "map rt_track_id (re_tracks r) ! snd x = map rt_track_id (re_tracks r) ! snd y"
      using x y e by (auto simp: pair_key_def)
    then have "fst x = fst y" "snd x = snd y"
      using x y nth_eq_iff_index_eq [OF room_okD(1) [OF assms]] nth_eq_iff_index_eq [OF room_okD(2) [OF assms]] by auto
    then show "x = y" by (simp add: prod_eq_iff)
  qed
  then show ?thesis by (simp add: distinct_map distinct_product)
qed

lemma room_reconcile_run:
  assumes "room_ok r" "room_reconcile_call_center al mode r = (0, r')"
  defines "ps \<equiv> List.product [0..<length (re_participants r)] [0..<length (re_tracks r)]"
  shows "re_participants r' = re_participants r" "re_tracks r' = re_tracks r" "re_room_id r' = re_room_id r"
    and "ij \<in> set ps \<Longrightarrow> pair_wants (call_center_wants mode) r ij = Some (Some d)
      \<Longrightarrow> \<exists>b\<in>set (re_subscriptions r'). sub_key b = pair_key r ij \<and> carries_derived d b"
    and "b \<in> set (re_subscriptions r') \<Longrightarrow> (\<And>ij. ij \<in> set ps \<Longrightarrow> pair_wants (call_center_wants mode) r ij \<noteq> None \<Longrightarrow> sub_key b \<noteq> pair_key r ij)
      \<Longrightarrow> \<not> call_center_forbids mode r b"
proof -
  let ?kept = "filter (\<lambda>b. \<not> call_center_forbids mode r b) (re_subscriptions r)"
  let ?want = "call_center_wants mode"
  define r1 where "r1 = with_subs r ?kept (re_subscription_capacity r)"
  have r1: "r1 = r\<lparr>re_subscriptions := ?kept\<rparr>" by (simp add: r1_def with_subs_def)
  have ok1: "room_ok r1"
    using assms(1) unfolding r1 by (auto simp: room_ok_def distinct_map_filter intro: order_trans [OF length_filter_le])
  obtain ch ch' r2 where run: "reconcile_pairs al ?want ps r1 ch = Inl (ch', r2)" "r' = r2 \<or> r' = room_bump_version r2"
    using assms(2) by (auto simp: room_reconcile_call_center_def Let_def remove_backwards_filter reconcile_all_def r1 ps_def
        split: sum.splits prod.splits if_splits)
  have "\<forall>ij\<in>set ps. pair_in r1 ij" by (auto simp: pair_in_def r1_def ps_def)
  moreover have "distinct (map (pair_key r1) ps)" using pair_keys_distinct [OF assms(1)] by (simp add: r1_def ps_def)
  ultimately obtain x c where x: "r2 = with_subs r1 x c"
    "\<forall>ij\<in>set ps. \<forall>d. pair_wants ?want r1 ij = Some (Some d) \<longrightarrow> (\<exists>b\<in>set x. sub_key b = pair_key r1 ij \<and> carries_derived d b)"
    "\<forall>b. (\<forall>ij\<in>set ps. pair_wants ?want r1 ij \<noteq> None \<longrightarrow> sub_key b \<noteq> pair_key r1 ij) \<longrightarrow> (b \<in> set x \<longleftrightarrow> b \<in> set (re_subscriptions r1))"
    using reconcile_pairs_exact [OF ok1 _ blind_policies(2) _ run(1)] by blast
  have w: "pair_wants ?want r1 = pair_wants ?want r" "pair_key r1 = pair_key r" by (simp_all add: r1_def fun_eq_iff)
  show "re_participants r' = re_participants r" "re_tracks r' = re_tracks r" "re_room_id r' = re_room_id r"
    using run(2) x(1) by (auto simp: room_bump_version_def r1_def)
  have subs: "re_subscriptions r' = x" using run(2) x(1) by (auto simp: room_bump_version_def)
  show "ij \<in> set ps \<Longrightarrow> pair_wants ?want r ij = Some (Some d)
      \<Longrightarrow> \<exists>b\<in>set (re_subscriptions r'). sub_key b = pair_key r ij \<and> carries_derived d b"
    using x(2) unfolding subs w by blast
  show "b \<in> set (re_subscriptions r') \<Longrightarrow> (\<And>ij. ij \<in> set ps \<Longrightarrow> pair_wants ?want r ij \<noteq> None \<Longrightarrow> sub_key b \<noteq> pair_key r ij)
      \<Longrightarrow> \<not> call_center_forbids mode r b"
    using x(3) unfolding subs w by (simp add: r1)
qed

lemma room_reconcile_exact:
  assumes "room_ok r" "room_reconcile_call_center al mode r = (0, r')" "p \<in> set (re_participants r)" "t \<in> set (re_tracks r)"
  shows "case call_center_subscription_allowed r p (participant_at r (rt_owner_participant_id t)) t mode of
       None \<Rightarrow> \<forall>b\<in>set (re_subscriptions r'). sub_key b \<noteq> (rp_participant_id p, rt_track_id t)
     | Some policy \<Rightarrow> \<exists>b\<in>set (re_subscriptions r'). sub_key b = (rp_participant_id p, rt_track_id t)
         \<and> carries_derived (derive_call_center_subscription t policy) b"
proof -
  let ?ps = "List.product [0..<length (re_participants r)] [0..<length (re_tracks r)]"
  let ?al = "call_center_subscription_allowed r p (participant_at r (rt_owner_participant_id t)) t mode"
  obtain i j where ij: "i < length (re_participants r)" "re_participants r ! i = p" "j < length (re_tracks r)" "re_tracks r ! j = t"
    using assms(3,4) by (metis in_set_conv_nth)
  have mem: "(i, j) \<in> set ?ps" using ij by simp
  have key: "pair_key r (i, j) = (rp_participant_id p, rt_track_id t)" using ij by (simp add: pair_key_def)
  have want: "pair_wants (call_center_wants mode) r (i, j) = map_option (\<lambda>policy. Some (derive_call_center_subscription t policy)) ?al"
    using ij by (simp add: pair_wants_def call_center_wants_def)
  show ?thesis
  proof (cases ?al)
    case (Some policy)
    then show ?thesis
      using room_reconcile_run(4) [OF assms(1,2) mem, of "derive_call_center_subscription t policy"] want key by simp
  next
    case None
    have "sub_key b \<noteq> (rp_participant_id p, rt_track_id t)" if bx: "b \<in> set (re_subscriptions r')" for b
    proof
      assume b: "sub_key b = (rp_participant_id p, rt_track_id t)"
      have "sub_key b \<noteq> pair_key r ij'" if "ij' \<in> set ?ps" "pair_wants (call_center_wants mode) r ij' \<noteq> None" for ij'
      proof
        assume "sub_key b = pair_key r ij'"
        then have "ij' = (i, j)" using that(1) mem key b pair_keys_distinct [OF assms(1)] by (auto simp: distinct_map inj_on_def)
        then show False using that(2) want None by simp
      qed
      then have "\<not> call_center_forbids mode r b" by (rule room_reconcile_run(5) [OF assms(1,2) bx])
      moreover have "participant_at r (rb_subscriber_participant_id b) = Some p" "track_at r (rb_track_id b) = Some t"
        using b assms(3,4) participant_at_iff [OF room_okD(1) [OF assms(1)]] track_at_iff [OF room_okD(2) [OF assms(1)]]
        by (auto simp: sub_key_def)
      ultimately show False using None by (simp add: call_center_forbids_def)
    qed
    then show ?thesis using None by simp
  qed
qed

text \<open>The room after a call on it.\<close>

lemma with_room_at:
  assumes "room_at s rid = Some r" "with_room s rid f = (rc, s')" "re_room_id (snd (f r)) = re_room_id r"
  shows "rc = fst (f r)" "room_at s' rid = Some (snd (f r))"
proof -
  obtain v i where i: "rid = Some v" "find_room s v = Some i" "r = sv_rooms s ! i" using assms(1) by (auto simp: room_at_def bind_eq_Some_conv)
  have s': "s' = s\<lparr>sv_rooms := (sv_rooms s)[i := snd (f r)]\<rparr>" "rc = fst (f r)" using assms(2) i by (auto simp: with_room_def split_beta)
  then show "rc = fst (f r)" by simp
  have b: "i < length (sv_rooms s)" "re_room_id r = v" "\<forall>j<i. re_room_id (sv_rooms s ! j) \<noteq> v"
    using i(2,3) by (auto simp: find_room_def dest!: first_below_Some)
  have "find_room s' v = Some i" unfolding find_room_def
    by (rule first_below_eq_Some) (use b assms(3) in \<open>auto simp: s'\<close>)
  then show "room_at s' rid = Some (snd (f r))" using i(1) b(1) by (simp add: room_at_def s')
qed

text \<open>C15. In a call centre everybody receives exactly what the policy grants: after any history of
  calls, a successful reconciliation of a room in some supervisor mode keeps its participants and
  tracks, and for every participant and every track there is a subscription precisely when the policy
  allows it; that subscription is enabled unless the track is muted and carries the derived priority,
  layer and policy name.\<close>

theorem call_center_policy_exact:
  assumes "turbo_room_service_create True = Some s0" "s = fold service_exec calls s0" "room_at s rid = Some r"
    and "turbo_room_service_reconcile_call_center_subscriptions al s rid mode = (0, s')"
  shows "\<exists>r'. room_at s' rid = Some r' \<and> re_participants r' = re_participants r \<and> re_tracks r' = re_tracks r
    \<and> (\<forall>p\<in>set (re_participants r). \<forall>t\<in>set (re_tracks r).
         case call_center_subscription_allowed r p (participant_at r (rt_owner_participant_id t)) t mode of
           None \<Rightarrow> \<forall>b\<in>set (re_subscriptions r'). (rb_subscriber_participant_id b, rb_track_id b) \<noteq> (rp_participant_id p, rt_track_id t)
         | Some policy \<Rightarrow> \<exists>b\<in>set (re_subscriptions r'). (rb_subscriber_participant_id b, rb_track_id b) = (rp_participant_id p, rt_track_id t)
             \<and> carries_derived (derive_call_center_subscription t policy) b)"
proof -
  have ok: "room_ok r" using room_at_ok [OF _ assms(3)] service_run_inv [OF assms(1), of calls] assms(2) by simp
  have "with_room s rid (room_reconcile_call_center al mode) = (0, s')"
    using assms(4) by (auto simp: turbo_room_service_reconcile_call_center_subscriptions_def split: if_splits)
  note at = with_room_at [OF assms(3) this room_reconcile_ok(2) [OF ok]]
  then have run: "room_reconcile_call_center al mode r = (0, snd (room_reconcile_call_center al mode r))" by (simp add: prod_eq_iff)
  note exact = room_reconcile_exact [OF ok run, unfolded sub_key_def]
  show ?thesis using at(2) room_reconcile_run(1,2) [OF ok run] exact by blast
qed

text \<open>A call with a consulted agent and a supervisor, each publishing a microphone.\<close>

definition mic :: "string \<Rightarrow> string \<Rightarrow> track_config" where
  "mic tid pid = \<lparr>tc_track_id = Some tid, tc_owner_participant_id = Some pid, tc_kind = TRACK_AUDIO, tc_source = SOURCE_MIC,
     tc_codec_name = Some ''opus'', tc_simulcast_enabled = 0, tc_main_ssrc = 7, tc_layer_ssrcs = None, tc_layer_count = 0\<rparr>"

definition consult_scenario :: "service_call list" where
  "consult_scenario =
     [Create_Room (\<lambda>_. True) (Some ''r'') 1 ROOM_TYPE_CALL,
      Add_Participant (\<lambda>_. True) (Some ''r'') (Some ''c'') 1 None None ROLE_CUSTOMER,
      Add_Participant (\<lambda>_. True) (Some ''r'') (Some ''a'') 1 None None ROLE_AGENT,
      Add_Participant (\<lambda>_. True) (Some ''r'') (Some ''b'') 1 None None ROLE_AGENT,
      Publish_Track (\<lambda>_. True) (Some ''r'') (mic ''ta'' ''a''),
      Publish_Track (\<lambda>_. True) (Some ''r'') (mic ''tb'' ''b''),
      Start_Call (\<lambda>_. True) (Some ''r'') (Some ''c'') (Some ''a''),
      Set_Consult (\<lambda>_. True) (Some ''r'') (Some ''b'')]"

definition consult_start :: room_service where
  "consult_start = \<lparr>sv_rooms = [], sv_room_capacity = 0, sv_queue_entries = [], sv_queue_capacity = 0,
     sv_agent_states = [], sv_agent_capacity = 0, sv_next_queue_sequence = 0\<rparr>"

lemma consult_create: "turbo_room_service_create True = Some consult_start"
  by (simp add: turbo_room_service_create_def consult_start_def)

lemma consult_room:
  obtains r s' where "room_at (fold service_exec consult_scenario consult_start) (Some ''r'') = Some r"
    "turbo_room_service_reconcile_call_center_subscriptions (\<lambda>_. True) (fold service_exec consult_scenario consult_start) (Some ''r'') SUPERVISOR_WHISPER = (0, s')"
    "room_has_call_center_topology r" "re_call_center_consult_agent_participant_id r = ''b''" "re_call_center_agent_participant_id r = ''a''"
    "re_call_center_customer_participant_id r = ''c''"
    "\<exists>c\<in>set (re_participants r). rp_participant_id c = ''c'' \<and> rp_role c = ROLE_CUSTOMER"
    "\<exists>r' b. room_at s' (Some ''r'') = Some r' \<and> b \<in> set (re_subscriptions r') \<and> rb_subscriber_participant_id b = ''c''"
proof -
  let ?s = "fold service_exec consult_scenario consult_start"
  let ?rec = "turbo_room_service_reconcile_call_center_subscriptions (\<lambda>_. True) ?s (Some ''r'') SUPERVISOR_WHISPER"
  have "case room_at ?s (Some ''r'') of None \<Rightarrow> False | Some r \<Rightarrow> room_has_call_center_topology r
      \<and> re_call_center_consult_agent_participant_id r = ''b'' \<and> re_call_center_agent_participant_id r = ''a''
      \<and> re_call_center_customer_participant_id r = ''c''
      \<and> list_ex (\<lambda>c. rp_participant_id c = ''c'' \<and> rp_role c = ROLE_CUSTOMER) (re_participants r)" by code_simp
  moreover have "fst ?rec = 0" by code_simp
  moreover have "case room_at (snd ?rec) (Some ''r'') of None \<Rightarrow> False
      | Some r' \<Rightarrow> list_ex (\<lambda>b. rb_subscriber_participant_id b = ''c'') (re_subscriptions r')" by code_simp
  ultimately show thesis
    using that [of _ "snd ?rec"] by (auto simp: list_ex_iff prod_eq_iff split: option.splits)
qed

lemma call_center_policy_exact_witness:
  "\<exists>r s'. room_at (fold service_exec consult_scenario consult_start) (Some ''r'') = Some r
     \<and> turbo_room_service_reconcile_call_center_subscriptions (\<lambda>_. True) (fold service_exec consult_scenario consult_start) (Some ''r'') SUPERVISOR_WHISPER = (0, s')
     \<and> (\<exists>r'. room_at s' (Some ''r'') = Some r' \<and> re_tracks r' = re_tracks r)"
proof -
  obtain r s' where r: "room_at (fold service_exec consult_scenario consult_start) (Some ''r'') = Some r"
    "turbo_room_service_reconcile_call_center_subscriptions (\<lambda>_. True) (fold service_exec consult_scenario consult_start) (Some ''r'') SUPERVISOR_WHISPER = (0, s')"
    by (rule consult_room)
  from call_center_policy_exact [OF consult_create refl r] show ?thesis using r by blast
qed

section \<open>The customer is isolated\<close>

lemma allowed_to_customer:
  assumes "room_has_call_center_topology r" "is_call_center_customer_participant r c" "rp_role c = ROLE_CUSTOMER"
    and "\<not> is_call_center_engaged_agent_participant r c"
    and "call_center_subscription_allowed r c (Some own) t mode \<noteq> None"
  shows "is_call_center_primary_agent_participant r own \<or> (rp_role own = ROLE_SUPERVISOR \<and> mode = SUPERVISOR_BARGE)"
  using assms
  by (auto simp: call_center_subscription_allowed_def is_call_center_engaged_agent_participant_def is_call_center_primary_endpoint_def
      is_call_center_customer_participant_def split: if_splits)

text \<open>C16. A customer hears the agent of the call and nobody else: after any history of calls, once a
  room with a call in progress has been reconciled, every track the customer still receives belongs to
  the call's agent, or to a supervisor if the mode is barge-in.  In particular the customer receives
  neither the agent who is being consulted, nor a monitoring or whispering supervisor, nor observers
  and bots.\<close>

theorem customer_isolated:
  assumes "turbo_room_service_create True = Some s0" "s = fold service_exec calls s0" "room_at s rid = Some r"
    and "room_has_call_center_topology r" "c \<in> set (re_participants r)" "is_call_center_customer_participant r c"
    and "rp_role c = ROLE_CUSTOMER" "\<not> is_call_center_engaged_agent_participant r c"
    and "turbo_room_service_reconcile_call_center_subscriptions al s rid mode = (0, s')"
    and "room_at s' rid = Some r'" "b \<in> set (re_subscriptions r')" "rb_subscriber_participant_id b = rp_participant_id c"
  shows "\<exists>t\<in>set (re_tracks r'). \<exists>own\<in>set (re_participants r'). rt_track_id t = rb_track_id b
    \<and> rp_participant_id own = rt_owner_participant_id t
    \<and> (is_call_center_primary_agent_participant r own \<or> (rp_role own = ROLE_SUPERVISOR \<and> mode = SUPERVISOR_BARGE))"
proof -
  have inv: "service_inv s" using service_run_inv [OF assms(1), of calls] assms(2) by simp
  have ok: "room_ok r" using room_at_ok [OF inv assms(3)] by simp
  have ok': "room_ok r'" using room_at_ok [OF _ assms(10)] room_calls_inv(8) [OF inv, of al rid mode] assms(9) by simp
  have "with_room s rid (room_reconcile_call_center al mode) = (0, s')"
    using assms(9) by (auto simp: turbo_room_service_reconcile_call_center_subscriptions_def split: if_splits)
  note at = with_room_at [OF assms(3) this room_reconcile_ok(2) [OF ok]]
  then have run: "room_reconcile_call_center al mode r = (0, r')" using assms(10) by (simp add: prod_eq_iff)
  note same = room_reconcile_run(1,2) [OF ok run]
  obtain t where t: "t \<in> set (re_tracks r)" "rt_track_id t = rb_track_id b"
    using room_okD(7) [OF ok' assms(11)] same(2) by (metis imageE)
  obtain own where own: "own \<in> set (re_participants r)" "rp_participant_id own = rt_owner_participant_id t"
    using room_okD(6) [OF ok t(1)] by blast
  have "participant_at r (rt_owner_participant_id t) = Some own"
    using participant_at_iff [OF room_okD(1) [OF ok]] own by simp
  moreover have "sub_key b = (rp_participant_id c, rt_track_id t)" using assms(12) t(2) by (simp add: sub_key_def)
  ultimately have "call_center_subscription_allowed r c (Some own) t mode \<noteq> None"
    using room_reconcile_exact [OF ok run assms(5) t(1)] assms(11) by (auto split: option.splits)
  from allowed_to_customer [OF assms(4,6,7,8) this] show ?thesis using t own same by auto
qed

lemma customer_isolated_witness:
  "\<exists>s' r' b. turbo_room_service_reconcile_call_center_subscriptions (\<lambda>_. True) (fold service_exec consult_scenario consult_start) (Some ''r'') SUPERVISOR_WHISPER = (0, s')
     \<and> room_at s' (Some ''r'') = Some r' \<and> b \<in> set (re_subscriptions r') \<and> rb_subscriber_participant_id b = ''c''
     \<and> (\<exists>t\<in>set (re_tracks r'). rt_track_id t = rb_track_id b \<and> rt_owner_participant_id t = ''a'')"
proof -
  obtain r s' where r: "room_at (fold service_exec consult_scenario consult_start) (Some ''r'') = Some r"
    "turbo_room_service_reconcile_call_center_subscriptions (\<lambda>_. True) (fold service_exec consult_scenario consult_start) (Some ''r'') SUPERVISOR_WHISPER = (0, s')"
    "room_has_call_center_topology r" "re_call_center_consult_agent_participant_id r = ''b''" "re_call_center_agent_participant_id r = ''a''"
    "re_call_center_customer_participant_id r = ''c''"
    "\<exists>c\<in>set (re_participants r). rp_participant_id c = ''c'' \<and> rp_role c = ROLE_CUSTOMER"
    "\<exists>r' b. room_at s' (Some ''r'') = Some r' \<and> b \<in> set (re_subscriptions r') \<and> rb_subscriber_participant_id b = ''c''"
    by (rule consult_room)
  obtain c where c: "c \<in> set (re_participants r)" "rp_participant_id c = ''c''" "rp_role c = ROLE_CUSTOMER" using r(7) by blast
  obtain r' b where b: "room_at s' (Some ''r'') = Some r'" "b \<in> set (re_subscriptions r')" "rb_subscriber_participant_id b = ''c''" using r(8) by blast
  have cu: "is_call_center_customer_participant r c" "\<not> is_call_center_engaged_agent_participant r c"
    using c r(4-6) by (simp_all add: is_call_center_customer_participant_def is_call_center_engaged_agent_participant_def
        is_call_center_primary_agent_participant_def is_call_center_consult_agent_participant_def)
  have "rb_subscriber_participant_id b = rp_participant_id c" using b(3) c(2) by simp
  from customer_isolated [OF consult_create refl r(1,3) c(1) cu(1) c(3) cu(2) r(2) b(1,2) this]
  show ?thesis using r(2,5) b by (auto simp: is_call_center_primary_agent_participant_def) metis
qed

section \<open>What ending a call forgets\<close>

lemma with_room_agents [simp]: "agent_map (snd (with_room s rid f)) = agent_map s"
  by (auto simp: with_room_def agent_map_def Let_def split: option.splits prod.splits)

text \<open>C17. A completed call does not give back the agent it consulted: when a call with a consulted
  agent is finalised as completed, the consulted agent keeps the state it had (busy, unless it was set by hand since), and neither closing the
  room nor removing any participant afterwards changes it, although closing or leaving an active call
  releases both agents.\<close>

theorem completed_call_strands_consult:
  assumes "turbo_room_service_create True = Some s0" "s = fold service_exec calls s0" "room_at s rid = Some r"
    and "re_call_center_consult_agent_participant_id r = co" "co \<noteq> re_call_center_agent_participant_id r"
    and "turbo_room_service_finalize_call_center_room al s rid CC_ROOM_COMPLETED d ag = (0, s1)"
  shows "fst (get_call_center_agent_effective_state s1 co) = fst (get_call_center_agent_effective_state s co)
    \<and> (\<forall>al'. fst (get_call_center_agent_effective_state (service_exec (Close_Room al' rid) s1) co) = fst (get_call_center_agent_effective_state s co))
    \<and> (\<forall>al' pid. fst (get_call_center_agent_effective_state (service_exec (Remove_Participant al' rid pid) s1) co) = fst (get_call_center_agent_effective_state s co))"
proof -
  have inv: "service_inv s" using service_run_inv [OF assms(1), of calls] assms(2) by simp
  have ok: "room_ok r" using room_at_ok [OF inv assms(3)] by simp
  let ?ep = "re_call_center_agent_participant_id r"
  define f where "f = (\<lambda>r. (0 :: int, room_bump_call_center_version (r\<lparr>re_call_center_state := CC_ROOM_COMPLETED, re_call_center_disposition_code := copy_string ID_MAX d\<rparr>)))"
  obtain rc u where u: "set_call_center_agent_state_locked al s ?ep ag = (rc, u)" by fastforce
  have s1: "with_room u rid f = (0, s1)"
    using assms(3,6) u by (auto simp: turbo_room_service_finalize_call_center_room_def f_def split: if_splits)
  have "sv_rooms u = sv_rooms s" using set_agent_rooms(1) [of al s ?ep ag] u by simp
  then have ru: "room_at u rid = Some r" using assms(3) by (simp add: room_at_def find_room_def [abs_def])
  have "re_room_id (snd (f r)) = re_room_id r" by (simp add: f_def)
  note r1 = with_room_at(2) [OF ru s1 this]
  have st: "re_call_center_state (snd (f r)) = CC_ROOM_COMPLETED"
    by (simp add: f_def room_bump_call_center_version_def room_bump_version_def)
  have m: "agent_map s1 = agent_map u" using with_room_agents [of u rid f] s1 by simp
  have "agent_map u co = agent_map s co"
    using u _ room_okD(9) [OF ok] by (cases rule: set_agent_cases) (use inv assms(5) in \<open>simp_all add: service_inv_def desk_ok_def\<close>)
  then have a1: "agent_of s1 co = agent_of s co" by (simp add: agent_of_map m)
  have close: "agent_map (service_exec (Close_Room al' rid) s1) = agent_map s1" for al'
    using r1 st by (simp add: turbo_room_service_close_room_def)
  have leave: "agent_map (service_exec (Remove_Participant al' rid pid) s1) = agent_map s1" for al' pid
  proof (cases pid)
    case (Some p)
    have "leave_release_agents al' p (snd (f r)) s1 = s1" using st by (simp add: leave_release_agents_def Let_def)
    then show ?thesis using r1 Some by (simp add: turbo_room_service_remove_participant_def)
  qed (simp add: turbo_room_service_remove_participant_def)
  show ?thesis using a1 unfolding agent_of_map close leave by (intro conjI allI)
qed

lemma completed_call_strands_consult_witness:
  "\<exists>s1. turbo_room_service_finalize_call_center_room (\<lambda>_. True) (fold service_exec consult_scenario consult_start) (Some ''r'') CC_ROOM_COMPLETED None AGENT_AVAILABLE = (0, s1)
     \<and> fst (get_call_center_agent_effective_state (service_exec (Close_Room (\<lambda>_. True) (Some ''r'')) s1) ''b'') = AGENT_BUSY"
proof -
  let ?s = "fold service_exec consult_scenario consult_start"
  let ?f = "turbo_room_service_finalize_call_center_room (\<lambda>_. True) ?s (Some ''r'') CC_ROOM_COMPLETED None AGENT_AVAILABLE"
  obtain r where r: "room_at ?s (Some ''r'') = Some r" "re_call_center_consult_agent_participant_id r = ''b''"
    "re_call_center_agent_participant_id r = ''a''" by (rule consult_room)
  have "fst ?f = 0" by code_simp
  then have f: "?f = (0, snd ?f)" by (simp add: prod_eq_iff)
  have busy: "fst (get_call_center_agent_effective_state ?s ''b'') = AGENT_BUSY" by code_simp
  have "''b'' \<noteq> re_call_center_agent_participant_id r" using r(3) by simp
  from completed_call_strands_consult [OF consult_create refl r(1,2) this f] busy f show ?thesis by (intro exI [of _ "snd ?f"]) simp
qed

end
