(* ===== verification/Spec2Isabelle.thy ===== *)
theory Spec2Isabelle
  imports Engine_Paths Quota_Allocator Simulcast Auth_Tokens Dc_Handshake Rtsp_H264_Delivery Rtsp_H264_Safety Call_Policy
begin

text \<open>
  A verification of the real-time core of TurboMedia: RTP and RTCP, loss recovery, congestion feedback,
  playout, the media engine that composes them, the simulcast sender, the selective forwarding unit,
  the data channels between peers, the RTP transport of the RTSP library, the conference rooms and call centre, and what the control plane imposes on its nodes: the
  tenant quotas, access tokens and their revocation.  Paths below are relative to \<open>src/\<close>.

  \<^bold>\<open>The program.\<close>  A track of the media engine (\<open>webrtc/src/rtc/media/turbo_media_engine.c\<close>) sends frames as
  RTP packets numbered by an RTP session, protected by SRTP and kept in a retransmission history; it
  receives packets from the transport, authenticates them, counts them in its session, logs them for
  congestion feedback and stores them in a jitter buffer.  RTCP compounds carry reports, loss
  requests, key-frame requests and bandwidth estimates between the two ends.  The simulcast sender encodes one source
  in three layers; the forwarding unit routes each layer to the receivers that want and can afford it.
  The quota projection decides on each node whether a tenant may have one more connection, room,
  participant, session or track, under the leases the control plane's allocator has issued to it.
  Requests carry bearer tokens, static or signed, which each node checks against its configuration and the policy of the request.
  Each node also keeps a view of the revoked tokens, which the control plane's fan-out feeds with
  snapshots and revoke events.  Beside the media, two peers exchange messages over data channels: SCTP streams
  opened by the DCEP handshake, shared between the application's threads and the receive thread of usrsctp.
  The RTSP library carries RTP inside a TCP connection as interleaved frames or over UDP; a stream cuts H.264 NAL units into RTP packets, and a receive
  stream counts the packets of its source, puts them back in order and joins them.
  The room service keeps the control state of conferences: rooms with participants, the tracks they publish and the subscriptions that say who
  receives which track at which quality.  In a call centre it also keeps queues of callers and agents, pairs the best of each under a
  lease, and follows each agent from reserved to busy to available.

  \<^bold>\<open>Theories and sources.\<close>
  \<^item> \<open>Prelude\<close>: words, memory areas, byte order, and the locales every component instantiates:
    \<open>be_codec\<close> (fixed-width codecs), \<open>machine\<close> (invariants over runs), \<open>emitter\<close> (runs with outputs),
    \<open>progressing\<close> (runs that never leave the defined behaviour of C).
  \<^item> \<open>Rtp_Packet\<close>: \<open>webrtc/src/rtc/rtp/rtp_packet.c\<close>, types of \<open>webrtc/include/turbo_rtp.h\<close>.
  \<^item> \<open>Rtp_History\<close>: \<open>rtp_history.c\<close>, with the contract \<open>packet_history\<close> its clients rely on.
  \<^item> \<open>Nack\<close>: \<open>nack.c\<close>, receiver table, sender and generic NACK wire format.
  \<^item> \<open>Rtcp_Packet\<close>: \<open>rtcp_packet.c\<close>, with the contract \<open>compound_writer\<close> of the builders.
  \<^item> \<open>Twcc_Wire\<close>, \<open>Twcc\<close>, \<open>Ieee\<close>: \<open>twcc.c\<close>, wire format, receiver log and bandwidth estimate in
    rounded floating point.
  \<^item> \<open>Jitter_Buffer\<close>: \<open>webrtc/src/rtc/media/jitter_buffer.c\<close>.
  \<^item> \<open>Rtp_Session\<close>: \<open>rtp_session.c\<close>.
  \<^item> \<open>Media_Engine\<close>, \<open>Engine_Rtcp\<close>, \<open>Engine_Paths\<close>: \<open>turbo_media_engine.c\<close> and the four packet operations of
    \<open>webrtc/src/rtc/srtp/srtp_session.c\<close>.
  \<^item> \<open>Tenant_Quota\<close>: \<open>webrtc/src/security/turbo_media_tenant_quota.c\<close>; \<open>Quota_Allocator\<close>:
    \<open>turbo_media_tenant_quota_allocator.c\<close>, and the nodes under one allocator.
  \<^item> \<open>Sfu\<close>: \<open>webrtc/src/sfu/turbo_sfu.c\<close>; \<open>Simulcast\<close>: \<open>webrtc/src/rtc/rtp/simulcast.c\<close>.
  \<^item> \<open>Revocation\<close>: \<open>webrtc/src/auth/turbo_media_revocation.c\<close> and \<open>turbo_media_revocation_projection.c\<close>, with the contract
    \<open>replica\<close> of a view that follows an authority; \<open>Revocation_Fanout\<close>: \<open>turbo_media_revocation_fanout.c\<close>.
  \<^item> \<open>Media_Auth\<close>: the definitions of \<open>webrtc/src/auth/turbo_media_auth.c\<close>; \<open>Auth_Tokens\<close>: which tokens they grant, over the laws of the
    hash, base64 and JSON libraries.
  \<^item> \<open>Dcep_Text\<close>: the text check of \<open>webrtc/src/dcep_protocol.c\<close>; \<open>Sctp_Reassembly\<close>: the reassembly of partial messages in
    \<open>webrtc/src/sctp_session.c\<close>, with the contract \<open>simulation\<close> of a refinement.
  \<^item> \<open>Dc_Peer\<close>: the channels of a peer, \<open>webrtc/src/turbo_datachannel.c\<close>, \<open>turbo_datachannel_internal.h\<close>, \<open>dcep_protocol.c\<close> and
    the inbound side of \<open>sctp_session.c\<close>; \<open>Dc_Lifecycle\<close>: its invariant under reentrant and concurrent calls, with the contract
    \<open>guarded\<close> of a machine that stays defined; \<open>Dc_Handshake\<close>: what two peers achieve together.
  \<^item> \<open>Rtsp_Interleaved\<close>, \<open>Rtsp_Rtp\<close>, \<open>Rtsp_H264\<close>, \<open>Rtsp_H264_Stream\<close>: parts of \<open>media/rtsp/parser/turbo_rtsp_rtp.c\<close>, interleaved frames, headers and
    source statistics, the H.264 payload format, sending and receiving streams; \<open>Rtsp_H264_Delivery\<close>: the path from a NAL unit written to a NAL unit
    received; \<open>Rtsp_H264_Safety\<close>: the receive stream under arbitrary input.
  \<^item> \<open>Room_Model\<close>, \<open>Room_Service\<close>, \<open>Call_Queue\<close>: \<open>webrtc/src/conference/turbo_room_service.c\<close>, data and lookups, the calls on rooms, the calls on queues
    and agents; \<open>Call_Duty\<close>, \<open>Call_Ledger\<close>: agents and claims under the queue calls; \<open>Room_Integrity\<close>, \<open>Room_Machine\<close>: the invariant of the rooms
    and its preservation by every call; \<open>Call_Policy\<close>: who receives whom in a call centre.
  \<^item> This theory: properties that span the forwarding unit and the engine.

  \<^bold>\<open>How the model corresponds to the code.\<close>  A C structure is a record with a prefix per structure, a function
  keeps its name, and takes and returns the state it changes; results of -1 or \<open>NULL\<close> are \<open>None\<close> or the
  number itself.  Callbacks and the transport are outputs in call order.  Unsigned integers keep their width; signed
  counters are \<open>int\<close>.  A memory area is the list of its bytes, and a routine that could read or write
  outside an object returns \<open>None\<close> there.  libsrtp and the codecs are parameters: records of functions
  on an abstract state.  \<open>malloc\<close> and \<open>calloc\<close> may fail where the code tests them.  The transport of the
  revocation fan-out is a parameter of the same kind; the hypothesis on it (\<open>faithful\<close>) is that a send changes a
  target only by delivering the message, any number of times, and that an answer of applied or stale is the target's state.  In the data channels a call is cut where it releases the
  peer's mutex or calls the application: the pieces run atomically, the pieces still to come are a list of
  \<open>act\<close>s, and the calls in progress are interleaved in any order, so that reentrance from a callback and
  other threads are both covered.  The admission of a call and the task it posts to the owner's thread are separate pieces; the wait for running
  transport callbacks is a piece that stays until they have returned.  The cryptography, base64 and JSON libraries behind the tokens are a record of functions; the hypotheses on them are that
  base64 is decoded to what was encoded, that hashes have their length, and that the JSON reader reads the object text the issuer prints.
  In the room service strings are C strings or \<open>NULL\<close>, arrays are lists with their capacity beside them, the allocations of a call
  fail as an arbitrary predicate on the requested capacity says, the clock readings of a call are arguments, and a call is one step, since it holds its mutex throughout.

  \<^bold>\<open>What is shown.\<close>
  \<^item> Wire formats: packets, compounds, generic NACKs and transport feedback are parsed back to what was
    written, builders fail exactly for lack of space and write nothing else, and parsers accept only what
    lies inside their input.
  \<^item> State: the invariants of the NACK table, the jitter buffer, the bandwidth estimate, the forwarding unit
    and the quota table hold over every sequence of operations; the quota is an exact ledger and its
    version never goes back; the allocator never overcommits a tenant, and neither does the fleet of
    nodes that apply its snapshots; identifiers, references and objects of the data channels agree.
  \<^item> Behaviour: loss detection, retries and retransmission; reordering in the jitter buffer; loss
    reports and feedback reports; numbering of sent packets and of each simulcast layer; exact routing
    under the receivers' policies and bandwidth.
  \<^item> Refinement: the effect of RTCP from the sender's builders to the receiver's tracks is an abstract
    specification without bytes (\<open>item_effect\<close>); the jitter buffer implements in-order delivery; a node's revocation view
    implements the authority's set at the view's version; the reassembly slots implement a map from message
    identities to bytes; the text check is the definition of UTF-8.
  \<^item> Data channels: no call follows a pointer to a freed channel, whatever the interleaving, unless the channel it names is freed before its task
    runs - which the lease does not prevent; destroying a peer reclaims every channel; OPEN and its acknowledgement leave both ends open with the same
    parameters; messages arrive as they were sent.
  \<^item> RTSP: however the input is split, the collecting parser delivers the frames of the byte stream; the statistics of a source are those of the unwrapped packet
    numbers; NAL units written to a stream are received whole and in order although single packets are overtaken; no input leads the receive stream out of its memory.
  \<^item> Rooms and call centre: participants, tracks and subscriptions of a room refer to one another and nothing dangles, over every sequence of calls;
    an agent is reserved exactly while one claim holds it; a claim pairs the caller and the agent of highest rank; after a
    reconciliation everybody receives exactly what the policy grants, and the customer nobody but the agent or a supervisor who barges in.
  \<^item> Security: a request is granted exactly for the static token or a signed token that grants what the policy asks for, issued
    tokens are accepted; over whole runs of the engine only protected bytes leave it, and unauthenticated packets
    change nothing but a loss counter; when the fan-out reports a revocation delivered, every node denies the
    token, and a newer snapshot always brings a lost view back.
  \<^item> Defects: where the code does not do what it means to, the theorem states exactly what it does - padding
    flags of forwarded packets, jitter below the estimate, duplicated packets in feedback, stale
    packets in the playout buffer, short PLI and FIR packets, oversized extensions, departures from a
    conference, relayed loss requests, one-frame-per-second simulcast, channel names that never fit an OPEN,
    channels created before the role is fixed, closed peers that connect again, late H.264 packets that are not the very next, transit times
    that overflow the jitter estimate, duplicates from before the first packet, agents who stay busy when the call that consulted them is completed, channels freed under a waiting call.

  \<^bold>\<open>Termination and bounds.\<close>  Every definition is total: loops over arrays recurse on lists, loops over
  byte strings carry a measure; no fuel is used.  Runs are finite lists of operations of any length.  Blocking
  waits are not bounded: a call that waits for the owner or for a callback waits as long as the schedule lets it.

  \<^bold>\<open>Not modelled.\<close>  Track creation and teardown, capture and decoding in the engine (device and codec
  calls); key derivation in the SRTP wrapper (libsrtp); the DTLS and ICE transport below SCTP (OpenSSL, libjuice and
  socket I/O); concurrency outside the data channels (each context is used by one thread at a time or under its
  mutex); and the parts of the repository that are network, file or process I/O or wrap third-party
  libraries: signalling, applications, RTSP sessions, SIP, containers, streaming servers, pipelines, codecs, mobile bindings.
  Within reach and left for later: the wire formats of the quota and of the revocations (JSON), SDP, the SFU node that applies the rooms' assignments, and the
  other payload formats and the RTCP packets of the RTSP library.
\<close>

section \<open>The forwarding unit and the media engine\<close>

text \<open>C40. A loss request relayed by the forwarding unit is never answered.  The packet it hands to the sender is a
  well-formed generic NACK with exactly the requested sequence numbers, but it names the media
  source 0, so an engine whose sending tracks have non-zero SSRCs finds no track for it and does nothing.\<close>

theorem sfu_nack_unanswered:
  assumes "sfu_forward_nack sfu r s sqs = (0, outs)"
    and "\<forall>t\<in>set (mc_tracks ctx). sends t \<longrightarrow> rtp_session_get_ssrc (tr_session t) \<noteq> 0"
  shows "\<exists>c b. outs = [To_Receiver c b]
    \<and> (\<exists>ssrc out. nack_parse_rtcp b (length sqs) = Some (ssrc, 0, out) \<and> set out = set sqs)
    \<and> on_rtcp_packet alloc_ok now 205 b ctx = Some (ctx, [])"
proof -
  from assms(1) obtain c ssrc buf n
    where b: "nack_build_rtcp ssrc 0 sqs (replicate RTP_MAX_PACKET 0) = Some (buf, n)" and o: "outs = [To_Receiver c (take n buf)]"
    by (auto simp: sfu_forward_nack_def Let_def split: if_splits option.splits)
  from nack_build_bytes [OF b] obtain x y
    where t: "take n buf = [0x81, 205, x, y] @ be32 ssrc @ be32 0 @ fci_blocks sqs" by blast
  have p: "nack_parse_rtcp (take n buf) k = Some (ssrc, 0, parse_fci (fci_blocks sqs) k)" for k
    unfolding t by (rule nack_parse_bytes)
  have "find (\<lambda>t. sends t \<and> rtp_session_get_ssrc (tr_session t) = 0) (mc_tracks ctx) = None"
    using assms(2) by (auto simp: find_None_iff)
  then have "handle_rtcp_nack ctx (take n buf) = []"
    unfolding handle_rtcp_nack_def p by (simp add: on_first_find)
  moreover have "take n buf ! 0 AND 0x1F = 1" "4 \<le> length (take n buf)" unfolding t by simp_all
  ultimately have "on_rtcp_packet alloc_ok now 205 (take n buf) ctx = Some (ctx, [])"
    by (simp add: on_rtcp_packet_def RTCP_SR_def RTCP_RR_def RTCP_RTPFB_def RTCP_NACK_def)
  with o p [of "length sqs"] fci_roundtrip [OF order_refl, of sqs] show ?thesis by blast
qed

lemma sfu_nack_unanswered_witness:
  "\<exists>outs. sfu_forward_nack (sample_sfu\<lparr>sf_participants := (sf_participants sample_sfu)[0 := (sf_participants sample_sfu ! 0)\<lparr>pa_on_packet := Some 3\<rparr>]\<rparr>)
      (Some ''bob'') (Some ''ann'') [5] = (0, outs)
      \<and> (\<exists>c b. outs = [To_Receiver c b] \<and> on_rtcp_packet True 0 205 b sample_ctx = Some (sample_ctx, []))"
proof -
  let ?sfu = "sample_sfu\<lparr>sf_participants := (sf_participants sample_sfu)[0 := (sf_participants sample_sfu ! 0)\<lparr>pa_on_packet := Some 3\<rparr>]\<rparr>"
  obtain buf n where b: "nack_build_rtcp 0 0 [5] (replicate RTP_MAX_PACKET 0) = Some (buf, n)"
    by (auto simp: nack_build_rtcp_def Let_def)
  then have f: "sfu_forward_nack ?sfu (Some ''bob'') (Some ''ann'') [5] = (0, [To_Receiver 3 (take n buf)])"
    by (simp add: sfu_forward_nack_def find_participant_def first_below_def is_participant_def sample_sfu_def upt_rec
        zero_participant_def)
  have "rtp_session_get_ssrc sample_session = 7" by code_simp
  then have "\<forall>t\<in>set (mc_tracks sample_ctx). sends t \<longrightarrow> rtp_session_get_ssrc (tr_session t) \<noteq> 0"
    by (simp add: sample_ctx_def sample_track_def)
  from sfu_nack_unanswered [OF f this, of True 0] f show ?thesis by blast
qed

end
